(* ===== verification/Denial_Base.thy ===== *)
theory Denial_Base
  imports Main "HOL-Library.Word"
begin

text \<open>
  Shared vocabulary of the development: the machine integers of the Rust sources as
  words, the two time types of the standard library, the result type of fallible
  functions, and the small collection facts that the component theories use.

  \<^item> \<open>Duration\<close> is a count of nanoseconds, bounded by \<open>duration_max\<close> where the source
    uses a checked or saturating operation (\<open>u64\<close> seconds plus nanoseconds).
  \<^item> \<open>Instant\<close> is a point of the monotonic clock in nanoseconds. On Linux its seconds
    are a signed 64-bit number; the panic of \<open>Instant + Duration\<close> some 292 billion
    years after boot is not modelled, so an instant is an \<^typ>\<open>int\<close>.
  \<^item> \<open>Result<T, E>\<close> is \<open>'e + 'a\<close> with \<open>Inl\<close> for \<open>Err\<close>; the \<open>?\<close> operator is
    \<open>try_bind\<close>.
  \<^item> \<open>BTreeSet\<close> is a finite set whose iteration order is that of
    \<^const>\<open>sorted_list_of_set\<close>; \<open>BTreeMap\<close> and \<open>HashMap\<close> are partial functions.
\<close>

section \<open>Machine integers and identifiers\<close>

type_synonym u8 = "8 word"
type_synonym u16 = "16 word"
type_synonym u32 = "32 word"
type_synonym u64 = "64 word"
type_synonym output_id = u64

lemma unat_succ_u64: "x \<noteq> - 1 \<Longrightarrow> unat (x + 1 :: u64) = Suc (unat x)"
  using unatSuc [of x] by (metis add.commute add_eq_0_iff)

lemma unat_max_u64: "x = - 1 \<longleftrightarrow> unat (x :: u64) = 2 ^ 64 - 1"
proof
  assume "unat x = 2 ^ 64 - 1"
  then have "unat x = unat (- 1 :: u64)" by (simp add: unsigned_minus_1_eq_mask mask_eq_exp_minus_1)
  then show "x = - 1" by (simp only: word_unat_eq_iff)
qed (simp add: unsigned_minus_1_eq_mask mask_eq_exp_minus_1)

lemma unat_u64_bound: "unat (x :: u64) \<le> 2 ^ 64 - 1"
  using unsigned_less [where 'a = nat and w = x] by simp

named_theorems time_defs "the operations on instants and durations"
named_theorems res_simps "rules for results and the question mark operator"

section \<open>Time\<close>

type_synonym instant = int
type_synonym duration = nat

definition from_nanos :: "nat \<Rightarrow> duration" where
  [time_defs]: "from_nanos n = n"

definition from_micros :: "nat \<Rightarrow> duration" where
  [time_defs]: "from_micros n = n * 1000"

definition from_millis :: "nat \<Rightarrow> duration" where
  [time_defs]: "from_millis n = n * 1000000"

definition from_secs :: "nat \<Rightarrow> duration" where
  [time_defs]: "from_secs n = n * 1000000000"

definition saturating_duration_since :: "instant \<Rightarrow> instant \<Rightarrow> duration" where
  [time_defs]: "saturating_duration_since later earlier = nat (later - earlier)"

definition instant_add :: "instant \<Rightarrow> duration \<Rightarrow> instant" where
  [time_defs]: "instant_add t d = t + int d"

text \<open>The largest \<open>Duration\<close>: \<open>u64::MAX\<close> seconds and 999,999,999 nanoseconds.\<close>

definition duration_max :: duration where
  "duration_max = 2 ^ 64 * 1000000000 - 1"

definition duration_checked_add :: "duration \<Rightarrow> duration \<Rightarrow> duration option" where
  "duration_checked_add a b = (if a + b \<le> duration_max then Some (a + b) else None)"

definition duration_saturating_add :: "duration \<Rightarrow> duration \<Rightarrow> duration" where
  "duration_saturating_add a b = min (a + b) duration_max"

definition duration_checked_sub :: "duration \<Rightarrow> duration \<Rightarrow> duration option" where
  "duration_checked_sub a b = (if b \<le> a then Some (a - b) else None)"

definition duration_saturating_sub :: "duration \<Rightarrow> duration \<Rightarrow> duration" where
  "duration_saturating_sub a b = a - b"

definition duration_checked_mul :: "duration \<Rightarrow> nat \<Rightarrow> duration option" where
  "duration_checked_mul a k = (if a * k \<le> duration_max then Some (a * k) else None)"

lemma since_less_iff:
  "saturating_duration_since b a < d \<longleftrightarrow> b < instant_add a d \<and> 0 < d"
  by (auto simp: time_defs)

lemma since_ge_iff:
  "d \<le> saturating_duration_since b a \<longleftrightarrow> instant_add a d \<le> b \<or> d = 0"
  by (auto simp: time_defs)

section \<open>Results\<close>

fun try_bind :: "'e + 'a \<Rightarrow> ('a \<Rightarrow> 'e + 'b) \<Rightarrow> 'e + 'b" where
  "try_bind (Inl e) f = Inl e"
| "try_bind (Inr x) f = f x"

lemma try_bind_assoc: "try_bind (try_bind m f) g = try_bind m (\<lambda>x. try_bind (f x) g)"
  by (cases m) simp_all

lemma try_bind_Inr_iff [res_simps]:
  "try_bind m f = Inr y \<longleftrightarrow> (\<exists>x. m = Inr x \<and> f x = Inr y)"
  by (cases m) auto

lemma try_bind_Inl_iff [res_simps]:
  "try_bind m f = Inl e \<longleftrightarrow> m = Inl e \<or> (\<exists>x. m = Inr x \<and> f x = Inl e)"
  by (cases m) auto

text \<open>\<open>Option::ok_or\<close>.\<close>

definition ok_or :: "'a option \<Rightarrow> 'e \<Rightarrow> 'e + 'a" where
  "ok_or x e = (case x of None \<Rightarrow> Inl e | Some y \<Rightarrow> Inr y)"

lemma ok_or_Inr_iff [res_simps]: "ok_or x e = Inr y \<longleftrightarrow> x = Some y"
  by (auto simp: ok_or_def split: option.splits)

lemma ok_or_Inl_iff [res_simps]: "ok_or x e = Inl d \<longleftrightarrow> x = None \<and> d = e"
  by (auto simp: ok_or_def split: option.splits)

section \<open>Searching a list\<close>

text \<open>\<open>Iterator::position\<close>.\<close>

fun position :: "('a \<Rightarrow> bool) \<Rightarrow> 'a list \<Rightarrow> nat option" where
  "position P [] = None"
| "position P (x # xs) = (if P x then Some 0 else map_option Suc (position P xs))"

lemma position_None: "position P xs = None \<longleftrightarrow> (\<forall>x \<in> set xs. \<not> P x)"
  by (induction xs) auto

lemma position_less: "position P xs = Some i \<Longrightarrow> i < length xs \<and> P (xs ! i)"
  by (induction xs arbitrary: i) (auto split: if_splits)

lemma find_unique:
  assumes "y \<in> set xs" "P y" "\<And>z. z \<in> set xs \<Longrightarrow> P z \<Longrightarrow> z = y"
  shows "find P xs = Some y"
proof (cases "find P xs")
  case None
  with assms(1,2) show ?thesis by (simp add: find_None_iff)
next
  case (Some z)
  then have "z \<in> set xs" "P z" by (auto simp: find_Some_iff dest: nth_mem)
  with Some assms(3) show ?thesis by blast
qed

section \<open>Options\<close>

text \<open>\<open>Option::or\<close>, and the minimum of two optional values where a missing one is ignored.\<close>

fun option_or :: "'a option \<Rightarrow> 'a option \<Rightarrow> 'a option" where
  "option_or (Some x) _ = Some x"
| "option_or None y = y"

lemma option_or_None [simp]: "option_or x None = x"
  by (cases x) simp_all

definition option_is_some_and :: "'a option \<Rightarrow> ('a \<Rightarrow> bool) \<Rightarrow> bool" where
  "option_is_some_and x p = (case x of None \<Rightarrow> False | Some y \<Rightarrow> p y)"

definition option_is_none_or :: "'a option \<Rightarrow> ('a \<Rightarrow> bool) \<Rightarrow> bool" where
  "option_is_none_or x p = (case x of None \<Rightarrow> True | Some y \<Rightarrow> p y)"

lemma is_some_and_simps [simp]:
  "option_is_some_and None p = False"
  "option_is_some_and (Some y) p = p y"
  by (simp_all add: option_is_some_and_def)

lemma is_none_or_simps [simp]:
  "option_is_none_or None p = True"
  "option_is_none_or (Some y) p = p y"
  by (simp_all add: option_is_none_or_def)

lemma is_some_and_iff: "option_is_some_and x p \<longleftrightarrow> (\<exists>y. x = Some y \<and> p y)"
  by (cases x) auto

section \<open>Little-endian byte strings\<close>

fun le_bytes :: "u8 list \<Rightarrow> nat" where
  "le_bytes [] = 0"
| "le_bytes (b # bs) = unat b + 256 * le_bytes bs"

fun to_le_bytes :: "nat \<Rightarrow> nat \<Rightarrow> u8 list" where
  "to_le_bytes 0 v = []"
| "to_le_bytes (Suc n) v = word_of_nat v # to_le_bytes n (v div 256)"

lemma length_to_le_bytes [simp]: "length (to_le_bytes n v) = n"
  by (induction n arbitrary: v) auto

lemma le_bytes_bound: "le_bytes bs < 256 ^ length bs"
proof (induction bs)
  case Nil
  then show ?case by simp
next
  case (Cons b bs)
  have "unat b < 256" using unsigned_less [where 'a = nat and w = b] by simp
  then have "unat b + 256 * le_bytes bs < 256 * (le_bytes bs + 1)" by simp
  also have "\<dots> \<le> 256 * 256 ^ length bs" using Cons.IH by (simp del: mult_Suc_right)
  finally show ?case by simp
qed

lemma unat_byte_of_nat: "unat (word_of_nat v :: u8) = v mod 256"
  by (simp add: unat_of_nat)

lemma le_bytes_to_le_bytes: "v < 256 ^ n \<Longrightarrow> le_bytes (to_le_bytes n v) = v"
proof (induction n arbitrary: v)
  case 0
  then show ?case by simp
next
  case (Suc n)
  have "v div 256 < 256 ^ n" using Suc.prems by (simp add: less_mult_imp_div_less mult.commute)
  then have "le_bytes (to_le_bytes n (v div 256)) = v div 256" by (rule Suc.IH)
  then show ?case by (simp add: unat_byte_of_nat)
qed

section \<open>Sets and lists\<close>

lemma map_sorted_list_of_set_inj:
  "finite A \<Longrightarrow> set (map f (sorted_list_of_set A)) = f ` A"
  by simp

text \<open>\<open>u64::saturating_add(1)\<close>.\<close>

definition saturating_succ :: "u64 \<Rightarrow> u64" where
  "saturating_succ n = (if n = - 1 then n else n + 1)"

end
