(* ===== verification/Idle_Packets.thy ===== *)
theory Idle_Packets
  imports Denial_Base
begin

text \<open>
  The configuration and display-power packets of the idle policy
  (\<^verbatim>\<open>compositor/src/bin/deniald/idle_policy.rs\<close>): the enumerations with their wire
  numbers, the packet errors, and \<open>decode_configuration\<close> with its four packet versions and
  the legacy eight-byte form. A packet is a list of bytes; a decoder returns \<open>Inl\<close> with the
  error the source returns. The lemmas say that a decoded configuration is well formed and
  that every well-formed configuration has a packet that decodes to it.
\<close>

unbundle bit_operations_syntax

section \<open>Constants and enumerations\<close>

definition LEGACY_PACKET_BYTES :: nat where "LEGACY_PACKET_BYTES = 8"
definition PACKET_BYTES :: nat where "PACKET_BYTES = 32"
definition LOCK_ENABLED :: u8 where "LOCK_ENABLED = 1"
definition DPMS_ENABLED :: u8 where "DPMS_ENABLED = 2"
definition SUSPEND_ENABLED :: u8 where "SUSPEND_ENABLED = 4"
definition SCREEN_OFF_LOCK_ENABLED :: u8 where "SCREEN_OFF_LOCK_ENABLED = 8"
definition ENABLED_MASK :: u8 where
  "ENABLED_MASK = LOCK_ENABLED OR DPMS_ENABLED OR SUSPEND_ENABLED"
definition MAX_TIMEOUT :: duration where "MAX_TIMEOUT = from_secs (7 * 24 * 60 * 60)"
definition LOCK_AFTER_DPMS_DELAY :: duration where "LOCK_AFTER_DPMS_DELAY = from_secs 5"

lemmas packet_consts = LEGACY_PACKET_BYTES_def PACKET_BYTES_def LOCK_ENABLED_def
  DPMS_ENABLED_def SUSPEND_ENABLED_def SCREEN_OFF_LOCK_ENABLED_def ENABLED_MASK_def

datatype power_button_action = PB_Dpms | PB_Suspend | PB_Hibernate | PB_PowerOff

definition PowerButtonAction_decode :: "u8 \<Rightarrow> power_button_action option" where
  "PowerButtonAction_decode value =
     (if value = 0 then Some PB_Dpms
      else if value = 1 then Some PB_Suspend
      else if value = 2 then Some PB_Hibernate
      else if value = 3 then Some PB_PowerOff
      else None)"

fun logind_method :: "power_button_action \<Rightarrow> string option" where
  "logind_method PB_Dpms = None"
| "logind_method PB_Suspend = Some ''Suspend''"
| "logind_method PB_Hibernate = Some ''Hibernate''"
| "logind_method PB_PowerOff = Some ''PowerOff''"

datatype suspend_mode = SM_SystemDefault | SM_S2Idle | SM_Shallow | SM_Deep

definition SuspendMode_decode :: "u8 \<Rightarrow> suspend_mode option" where
  "SuspendMode_decode value =
     (if value = 0 then Some SM_SystemDefault
      else if value = 1 then Some SM_S2Idle
      else if value = 2 then Some SM_Shallow
      else if value = 3 then Some SM_Deep
      else None)"

fun kernel_value :: "suspend_mode \<Rightarrow> string option" where
  "kernel_value SM_SystemDefault = None"
| "kernel_value SM_S2Idle = Some ''s2idle''"
| "kernel_value SM_Shallow = Some ''shallow''"
| "kernel_value SM_Deep = Some ''deep''"

record idle_policy_configuration =
  lock_timeout :: "duration option"
  dpms_timeout :: "duration option"
  suspend_timeout :: "duration option"
  suspend_mode :: suspend_mode
  power_button_action :: power_button_action
  lock_after_screen_off :: "duration option"

definition default_configuration :: idle_policy_configuration where
  "default_configuration = \<lparr>lock_timeout = None, dpms_timeout = None, suspend_timeout = None,
     suspend_mode = SM_SystemDefault, power_button_action = PB_Dpms,
     lock_after_screen_off = None\<rparr>"

datatype idle_policy_packet_error =
    InvalidSize nat
  | UnsupportedVersion u8
  | InvalidFlags u8
  | InvalidSuspendMode u8
  | InvalidPowerButtonAction u8
  | NonZeroReservedBytes
  | ZeroTimeout string
  | TimeoutTooLarge string nat
  | TimeoutAfterSuspend string

datatype display_power_packet_error = InvalidPacket
datatype display_power_request = Display_Off | Display_On

section \<open>Decoding\<close>

fun decode_display_power :: "u8 list \<Rightarrow> display_power_packet_error + display_power_request" where
  "decode_display_power packet =
     (if packet = [1] then Inr Display_Off
      else if packet = [2] then Inr Display_On
      else Inl InvalidPacket)"

definition decode_timeout :: "string \<Rightarrow> nat \<Rightarrow> idle_policy_packet_error + duration" where
  "decode_timeout action milliseconds =
     (let timeout = from_millis milliseconds
      in if timeout > MAX_TIMEOUT then Inl (TimeoutTooLarge action milliseconds)
         else Inr timeout)"

definition decode_packet_timeout :: "string \<Rightarrow> u8 list \<Rightarrow> idle_policy_packet_error + duration" where
  "decode_packet_timeout action bytes =
     (let milliseconds = le_bytes bytes
      in if milliseconds = 0 then Inl (ZeroTimeout action)
         else decode_timeout action milliseconds)"

text \<open>\<open>packet[first..last]\<close>, and the reserved-byte test of the packet versions.\<close>

definition byte_range :: "nat \<Rightarrow> nat \<Rightarrow> u8 list \<Rightarrow> u8 list" where
  "byte_range from to packet = take (to - from) (drop from packet)"

definition reserved_zero :: "nat \<Rightarrow> u8 list \<Rightarrow> bool" where
  "reserved_zero first packet = (\<forall>byte \<in> set (byte_range first 8 packet). byte = 0)"

text \<open>
  The \<open>match packet[0]\<close> of the source. The result carries the suspend mode, the power
  button action, \<open>lock_after_screen_off\<close> and \<open>enabled_mask\<close>.
\<close>

definition decode_version ::
  "u8 list \<Rightarrow> idle_policy_packet_error +
     (suspend_mode \<times> power_button_action \<times> duration option \<times> u8)" where
  "decode_version packet =
    (let version = packet ! 0;
         mode = ok_or (SuspendMode_decode (packet ! 2)) (InvalidSuspendMode (packet ! 2));
         button = ok_or (PowerButtonAction_decode (packet ! 3))
                    (InvalidPowerButtonAction (packet ! 3))
     in if version = 1 then
          (if \<not> reserved_zero 2 packet then Inl NonZeroReservedBytes
           else Inr (SM_SystemDefault, PB_Dpms, None, ENABLED_MASK))
        else if version = 2 then
          (if \<not> reserved_zero 3 packet then Inl NonZeroReservedBytes
           else try_bind mode (\<lambda>m. Inr (m, PB_Dpms, None, ENABLED_MASK)))
        else if version = 3 then
          (if \<not> reserved_zero 4 packet then Inl NonZeroReservedBytes
           else try_bind mode (\<lambda>m. try_bind button (\<lambda>b. Inr (m, b, None, ENABLED_MASK))))
        else if version = 4 then
          (let milliseconds = le_bytes (byte_range 4 8 packet);
               em = ENABLED_MASK OR SCREEN_OFF_LOCK_ENABLED
           in try_bind
                (if packet ! 1 AND SCREEN_OFF_LOCK_ENABLED \<noteq> 0
                 then try_bind (decode_timeout ''screen-off lock'' milliseconds) (\<lambda>t. Inr (Some t))
                 else if milliseconds \<noteq> 0 then Inl NonZeroReservedBytes
                 else Inr None)
                (\<lambda>after. try_bind mode (\<lambda>m. try_bind button (\<lambda>b. Inr (m, b, after, em)))))
        else Inl (UnsupportedVersion version))"

definition flag_set :: "u8 \<Rightarrow> u8 \<Rightarrow> bool" where
  "flag_set flags flag = (flags AND flag \<noteq> 0)"

definition decode_configuration ::
  "u8 list \<Rightarrow> idle_policy_packet_error + idle_policy_configuration" where
  "decode_configuration packet =
    (if length packet = LEGACY_PACKET_BYTES then
       (let milliseconds = le_bytes packet
        in try_bind
             (if milliseconds \<noteq> 0
              then try_bind (decode_timeout ''display power-off'' milliseconds) (\<lambda>t. Inr (Some t))
              else Inr None)
             (\<lambda>timeout. Inr (default_configuration\<lparr>dpms_timeout := timeout\<rparr>)))
     else if length packet \<noteq> PACKET_BYTES then Inl (InvalidSize (length packet))
     else try_bind (decode_version packet) (\<lambda>(mode, button, after, enabled_mask).
       (let flags = packet ! 1
        in if flags AND NOT enabled_mask \<noteq> 0 then Inl (InvalidFlags flags)
           else
             try_bind (decode_packet_timeout ''lock'' (byte_range 8 16 packet)) (\<lambda>lock.
             try_bind (decode_packet_timeout ''display power-off'' (byte_range 16 24 packet)) (\<lambda>dpms.
             try_bind (decode_packet_timeout ''suspend'' (byte_range 24 32 packet)) (\<lambda>suspend.
             if lock > suspend then Inl (TimeoutAfterSuspend ''lock'')
             else if dpms > suspend then Inl (TimeoutAfterSuspend ''display power-off'')
             else Inr \<lparr>lock_timeout = (if flag_set flags LOCK_ENABLED then Some lock else None),
                    dpms_timeout = (if flag_set flags DPMS_ENABLED then Some dpms else None),
                    suspend_timeout = (if flag_set flags SUSPEND_ENABLED then Some suspend else None),
                    suspend_mode = mode,
                    power_button_action = button,
                    lock_after_screen_off = after\<rparr>))))))"

section \<open>What a decoded configuration promises\<close>

definition timeout_ok :: "duration option \<Rightarrow> bool" where
  "timeout_ok t = option_is_none_or t (\<lambda>t. 0 < t \<and> t \<le> MAX_TIMEOUT)"

definition not_after :: "duration option \<Rightarrow> duration option \<Rightarrow> bool" where
  "not_after a b = option_is_none_or a (\<lambda>a. option_is_none_or b (\<lambda>b. a \<le> b))"

definition valid_configuration :: "idle_policy_configuration \<Rightarrow> bool" where
  "valid_configuration c \<longleftrightarrow>
     timeout_ok (lock_timeout c) \<and> timeout_ok (dpms_timeout c) \<and> timeout_ok (suspend_timeout c) \<and>
     not_after (lock_timeout c) (suspend_timeout c) \<and>
     not_after (dpms_timeout c) (suspend_timeout c) \<and>
     option_is_none_or (lock_after_screen_off c) (\<lambda>t. t \<le> MAX_TIMEOUT)"

lemma decode_timeout_Inr_iff [res_simps]:
  "decode_timeout a ms = Inr t \<longleftrightarrow> t = from_millis ms \<and> t \<le> MAX_TIMEOUT"
  by (auto simp: decode_timeout_def Let_def)

lemma decode_packet_timeout_Inr_iff [res_simps]:
  "decode_packet_timeout a bs = Inr t \<longleftrightarrow> t = from_millis (le_bytes bs) \<and> 0 < t \<and> t \<le> MAX_TIMEOUT"
  by (auto simp: decode_packet_timeout_def Let_def res_simps time_defs)

lemma decode_version_lock_after:
  "decode_version p = Inr (m, b, after, em) \<Longrightarrow> option_is_none_or after (\<lambda>t. t \<le> MAX_TIMEOUT)"
  by (auto simp: decode_version_def Let_def res_simps split: if_splits)

lemma decode_configuration_valid:
  assumes "decode_configuration p = Inr c"
  shows "valid_configuration c"
proof (cases "length p = LEGACY_PACKET_BYTES")
  case True
  with assms show ?thesis
    by (auto simp: decode_configuration_def Let_def res_simps valid_configuration_def timeout_ok_def
        not_after_def default_configuration_def time_defs split: if_splits)
next
  case False
  with assms obtain m b after em where v: "decode_version p = Inr (m, b, after, em)"
    by (auto simp: decode_configuration_def res_simps split: if_splits)
  from decode_version_lock_after [OF v] False assms v show ?thesis
    by (auto simp: decode_configuration_def Let_def res_simps valid_configuration_def timeout_ok_def
        not_after_def split: if_splits)
qed

section \<open>A reference encoder\<close>

text \<open>
  The packets are written by the Dart shell. \<open>encode_configuration\<close> is a reference encoder for
  version 4: a disabled timeout still needs a non-zero value that does not exceed the suspend
  timeout, so it carries one millisecond (or the maximum, for a disabled suspend).
\<close>

fun suspend_mode_byte :: "suspend_mode \<Rightarrow> u8" where
  "suspend_mode_byte SM_SystemDefault = 0"
| "suspend_mode_byte SM_S2Idle = 1"
| "suspend_mode_byte SM_Shallow = 2"
| "suspend_mode_byte SM_Deep = 3"

fun power_button_byte :: "power_button_action \<Rightarrow> u8" where
  "power_button_byte PB_Dpms = 0"
| "power_button_byte PB_Suspend = 1"
| "power_button_byte PB_Hibernate = 2"
| "power_button_byte PB_PowerOff = 3"

definition as_millis :: "duration \<Rightarrow> nat" where
  "as_millis d = d div 1000000"

definition encode_flags :: "idle_policy_configuration \<Rightarrow> u8" where
  "encode_flags c =
     (if lock_timeout c = None then 0 else LOCK_ENABLED) OR
     (if dpms_timeout c = None then 0 else DPMS_ENABLED) OR
     (if suspend_timeout c = None then 0 else SUSPEND_ENABLED) OR
     (if lock_after_screen_off c = None then 0 else SCREEN_OFF_LOCK_ENABLED)"

definition encode_configuration :: "idle_policy_configuration \<Rightarrow> u8 list" where
  "encode_configuration c =
     [4, encode_flags c, suspend_mode_byte (suspend_mode c),
      power_button_byte (power_button_action c)] @
     to_le_bytes 4 (as_millis (case lock_after_screen_off c of None \<Rightarrow> 0 | Some t \<Rightarrow> t)) @
     to_le_bytes 8 (as_millis (case lock_timeout c of None \<Rightarrow> 1000000 | Some t \<Rightarrow> t)) @
     to_le_bytes 8 (as_millis (case dpms_timeout c of None \<Rightarrow> 1000000 | Some t \<Rightarrow> t)) @
     to_le_bytes 8 (as_millis (case suspend_timeout c of None \<Rightarrow> MAX_TIMEOUT | Some t \<Rightarrow> t))"

definition whole_millis :: "idle_policy_configuration \<Rightarrow> bool" where
  "whole_millis c \<longleftrightarrow>
     (\<forall>t \<in> {lock_timeout c, dpms_timeout c, suspend_timeout c, lock_after_screen_off c}.
        option_is_none_or t (\<lambda>t. 1000000 dvd t))"

lemma mode_roundtrip [simp]: "SuspendMode_decode (suspend_mode_byte m) = Some m"
  by (cases m) (simp_all add: SuspendMode_decode_def)

lemma button_roundtrip [simp]: "PowerButtonAction_decode (power_button_byte b) = Some b"
  by (cases b) (simp_all add: PowerButtonAction_decode_def)

lemma encode_flags_allowed:
  "encode_flags c AND NOT ENABLED_MASK AND NOT SCREEN_OFF_LOCK_ENABLED = 0"
  by (simp add: encode_flags_def packet_consts)

lemma encode_flags_bits:
  "flag_set (encode_flags c) LOCK_ENABLED = (lock_timeout c \<noteq> None)"
  "flag_set (encode_flags c) DPMS_ENABLED = (dpms_timeout c \<noteq> None)"
  "flag_set (encode_flags c) SUSPEND_ENABLED = (suspend_timeout c \<noteq> None)"
  "flag_set (encode_flags c) SCREEN_OFF_LOCK_ENABLED = (lock_after_screen_off c \<noteq> None)"
  by (simp_all add: encode_flags_def packet_consts flag_set_def)

lemma le_bytes_timeout:
  assumes "1000000 dvd t" "t \<le> MAX_TIMEOUT" "n = 4 \<or> n = 8"
  shows "from_millis (le_bytes (to_le_bytes n (as_millis t))) = t"
proof -
  have "t div 1000000 < 256 ^ n"
    using assms(2,3) by (auto simp: MAX_TIMEOUT_def time_defs)
  then show ?thesis
    using assms(1) by (simp add: le_bytes_to_le_bytes as_millis_def from_millis_def)
qed

lemma encode_configuration_shape:
  "length (encode_configuration c) = 32"
  "encode_configuration c ! 0 = 4"
  "encode_configuration c ! Suc 0 = encode_flags c"
  "encode_configuration c ! 2 = suspend_mode_byte (suspend_mode c)"
  "encode_configuration c ! 3 = power_button_byte (power_button_action c)"
  "byte_range 4 8 (encode_configuration c) =
     to_le_bytes 4 (as_millis (case lock_after_screen_off c of None \<Rightarrow> 0 | Some t \<Rightarrow> t))"
  "byte_range 8 16 (encode_configuration c) =
     to_le_bytes 8 (as_millis (case lock_timeout c of None \<Rightarrow> 1000000 | Some t \<Rightarrow> t))"
  "byte_range 16 24 (encode_configuration c) =
     to_le_bytes 8 (as_millis (case dpms_timeout c of None \<Rightarrow> 1000000 | Some t \<Rightarrow> t))"
  "byte_range 24 32 (encode_configuration c) =
     to_le_bytes 8 (as_millis (case suspend_timeout c of None \<Rightarrow> MAX_TIMEOUT | Some t \<Rightarrow> t))"
  by (simp_all add: encode_configuration_def byte_range_def)

lemma decode_version_encode:
  assumes "valid_configuration c" "whole_millis c"
  shows "decode_version (encode_configuration c) =
    Inr (suspend_mode c, power_button_action c, lock_after_screen_off c,
         ENABLED_MASK OR SCREEN_OFF_LOCK_ENABLED)"
proof (cases "lock_after_screen_off c")
  case None
  then have "\<not> flag_set (encode_flags c) SCREEN_OFF_LOCK_ENABLED" by (simp add: encode_flags_bits)
  with None show ?thesis
    by (simp add: decode_version_def encode_configuration_shape flag_set_def ok_or_def as_millis_def
        le_bytes_to_le_bytes)
next
  case (Some t)
  with assms have t: "1000000 dvd t" "t \<le> MAX_TIMEOUT"
    by (auto simp: valid_configuration_def whole_millis_def)
  from Some have "flag_set (encode_flags c) SCREEN_OFF_LOCK_ENABLED" by (simp add: encode_flags_bits)
  with Some t show ?thesis
    by (simp add: decode_version_def encode_configuration_shape flag_set_def ok_or_def
        decode_timeout_def le_bytes_timeout)
qed

lemma decode_packet_timeout_encode:
  assumes "1000000 dvd t" "0 < t" "t \<le> MAX_TIMEOUT"
  shows "decode_packet_timeout a (to_le_bytes 8 (as_millis t)) = Inr t"
  using assms by (simp add: res_simps le_bytes_timeout)

lemma decode_encode_configuration:
  assumes v: "valid_configuration c" and w: "whole_millis c"
  shows "decode_configuration (encode_configuration c) = Inr c"
proof -
  have m: "1000000 dvd MAX_TIMEOUT" "0 < MAX_TIMEOUT" "1000000 \<le> MAX_TIMEOUT"
    by (simp_all add: MAX_TIMEOUT_def time_defs)
  have d: "\<And>t. 0 < t \<Longrightarrow> 1000000 dvd t \<Longrightarrow> 1000000 \<le> (t::nat)" by (simp add: dvd_imp_le)
  define l where "l = (case lock_timeout c of None \<Rightarrow> 1000000 | Some t \<Rightarrow> t)"
  define p where "p = (case dpms_timeout c of None \<Rightarrow> 1000000 | Some t \<Rightarrow> t)"
  define s where "s = (case suspend_timeout c of None \<Rightarrow> MAX_TIMEOUT | Some t \<Rightarrow> t)"
  have L: "1000000 dvd l" "0 < l" "l \<le> MAX_TIMEOUT" "l \<le> s"
    using v w m d
    by (auto simp: l_def s_def valid_configuration_def whole_millis_def timeout_ok_def not_after_def
        split: option.splits)
  have P: "1000000 dvd p" "0 < p" "p \<le> MAX_TIMEOUT" "p \<le> s"
    using v w m d
    by (auto simp: p_def s_def valid_configuration_def whole_millis_def timeout_ok_def not_after_def
        split: option.splits)
  have S: "1000000 dvd s" "0 < s" "s \<le> MAX_TIMEOUT"
    using v w m by (auto simp: s_def valid_configuration_def whole_millis_def timeout_ok_def
        split: option.splits)
  have "decode_configuration (encode_configuration c) =
    Inr \<lparr>lock_timeout = (if lock_timeout c \<noteq> None then Some l else None),
         dpms_timeout = (if dpms_timeout c \<noteq> None then Some p else None),
         suspend_timeout = (if suspend_timeout c \<noteq> None then Some s else None),
         suspend_mode = suspend_mode c, power_button_action = power_button_action c,
         lock_after_screen_off = lock_after_screen_off c\<rparr>"
    using L P S
    by (simp add: decode_configuration_def Let_def encode_configuration_shape packet_consts(1,2)
        decode_version_encode [OF v w] encode_flags_allowed encode_flags_bits
        flip: l_def p_def s_def add: decode_packet_timeout_encode)
  then show ?thesis by (auto simp: l_def p_def s_def split: option.splits)
qed

end
