(* ===== verification/Idle_Policy.thy ===== *)
theory Idle_Policy
  imports Idle_Packets
begin

text \<open>
  The inactivity policy (\<open>IdlePolicy\<close> of \<^verbatim>\<open>idle_policy.rs\<close>): idle locking, display power-off
  and suspend, the explicit screen-off of the power button, and the separate idle clock of a
  phone's panel while a desk shares the session.

  The state is the record \<open>idle_policy\<close>, one field per field of the source; \<open>now\<close> is the
  \<open>Instant\<close> argument of the source. The loop over the outputs is \<open>blank_loop\<close>; \<open>evaluate\<close>
  is composed of its phases in the order of the source. The outputs are the list of
  (output, powered) pairs that the caller iterates over.
\<close>

section \<open>State\<close>

record power_request =
  req_output :: output_id
  req_powered :: bool

record idle_policy_actions =
  power_requests :: "power_request list"
  act_lock :: bool
  act_suspend :: bool

definition no_actions :: idle_policy_actions where
  "no_actions = \<lparr>power_requests = [], act_lock = False, act_suspend = False\<rparr>"

record phone_screen =
  ps_output :: output_id
  ps_last_touch :: instant
  ps_dpms_triggered :: bool

record idle_policy =
  configuration :: idle_policy_configuration
  last_activity :: instant
  inhibited :: bool
  lock_triggered :: bool
  dpms_triggered :: bool
  suspend_triggered :: bool
  blanked_outputs :: "output_id set"
  manually_blanked :: bool
  screen_off_lock_at :: "instant option"
  phone :: "phone_screen option"

definition IdlePolicy_default :: "instant \<Rightarrow> idle_policy" where
  "IdlePolicy_default now = \<lparr>configuration = default_configuration, last_activity = now,
     inhibited = False, lock_triggered = False, dpms_triggered = False, suspend_triggered = False,
     blanked_outputs = {}, manually_blanked = False, screen_off_lock_at = None, phone = None\<rparr>"

abbreviation power_on :: "output_id \<Rightarrow> power_request" where
  "power_on output \<equiv> \<lparr>req_output = output, req_powered = True\<rparr>"

abbreviation power_off :: "output_id \<Rightarrow> power_request" where
  "power_off output \<equiv> \<lparr>req_output = output, req_powered = False\<rparr>"

section \<open>Operations\<close>

definition phone_output :: "idle_policy \<Rightarrow> output_id option" where
  "phone_output p = map_option ps_output (phone p)"

definition reset_idle_interval :: "idle_policy \<Rightarrow> instant \<Rightarrow> idle_policy" where
  "reset_idle_interval p now = p\<lparr>last_activity := now, lock_triggered := False,
     dpms_triggered := False, suspend_triggered := False\<rparr>"

definition screen_went_off :: "idle_policy \<Rightarrow> instant \<Rightarrow> idle_policy \<times> bool option" where
  "screen_went_off p now =
     (case lock_after_screen_off (configuration p) of
        None \<Rightarrow> (p, None)
      | Some delay \<Rightarrow>
          if delay = 0 then (p, Some True)
          else (case screen_off_lock_at p of
                  None \<Rightarrow> (p\<lparr>screen_off_lock_at := Some (instant_add now delay)\<rparr>, Some False)
                | Some _ \<Rightarrow> (p, Some False)))"

definition effective_lock_timeout :: "idle_policy \<Rightarrow> duration option" where
  "effective_lock_timeout p =
     map_option (\<lambda>timeout. if dpms_timeout (configuration p) = Some timeout
                           then timeout + LOCK_AFTER_DPMS_DELAY else timeout)
       (lock_timeout (configuration p))"

definition effective_suspend_timeout :: "idle_policy \<Rightarrow> duration option" where
  "effective_suspend_timeout p =
     map_option (\<lambda>timeout. case effective_lock_timeout p of
                    None \<Rightarrow> timeout | Some lock \<Rightarrow> max timeout lock)
       (suspend_timeout (configuration p))"

definition wake_blanked_outputs :: "idle_policy \<Rightarrow> idle_policy \<times> power_request list" where
  "wake_blanked_outputs p =
     (let kept = blanked_outputs p \<inter> set_option (phone_output p);
          woken = blanked_outputs p - kept
      in (p\<lparr>manually_blanked := False, screen_off_lock_at := None, blanked_outputs := kept\<rparr>,
          map power_on (sorted_list_of_set woken)))"

definition set_phone_with_desk ::
  "idle_policy \<Rightarrow> output_id option \<Rightarrow> instant \<Rightarrow> idle_policy \<times> bool" where
  "set_phone_with_desk p new_phone now =
     (let current = phone_output p
      in if current = new_phone then (p, False)
         else
           let p = p\<lparr>phone := map_option (\<lambda>output. \<lparr>ps_output = output, ps_last_touch = now,
                     ps_dpms_triggered = False\<rparr>) new_phone\<rparr>
           in case (current, new_phone) of
                (Some output, None) \<Rightarrow>
                  if output \<in> blanked_outputs p
                  then (case screen_went_off (p\<lparr>manually_blanked := True\<rparr>) now of
                          (p, decided) \<Rightarrow>
                            (p, case decided of None \<Rightarrow> lock_timeout (configuration p) \<noteq> None
                                | Some lock \<Rightarrow> lock))
                  else (p, False)
              | _ \<Rightarrow> (p, False))"

definition note_phone_touch :: "idle_policy \<Rightarrow> instant \<Rightarrow> idle_policy" where
  "note_phone_touch p now =
     p\<lparr>phone := map_option (\<lambda>s. s\<lparr>ps_last_touch := now, ps_dpms_triggered := False\<rparr>) (phone p)\<rparr>"

definition evaluate_phone ::
  "idle_policy \<Rightarrow> instant \<Rightarrow> bool \<Rightarrow> bool \<Rightarrow> idle_policy \<times> power_request option" where
  "evaluate_phone p now is_inhibited powered =
     (case phone p of
        None \<Rightarrow> (p, None)
      | Some s \<Rightarrow>
          if is_inhibited
          then (p\<lparr>phone := Some (s\<lparr>ps_last_touch := now, ps_dpms_triggered := False\<rparr>)\<rparr>, None)
          else if ps_dpms_triggered s \<or> \<not> powered \<or>
                  option_is_none_or (dpms_timeout (configuration p))
                    (\<lambda>timeout. saturating_duration_since now (ps_last_touch s) < timeout)
          then (p, None)
          else (p\<lparr>phone := Some (s\<lparr>ps_dpms_triggered := True\<rparr>),
                  blanked_outputs := insert (ps_output s) (blanked_outputs p)\<rparr>,
                Some (power_off (ps_output s))))"

text \<open>The loop \<open>if powered && blanked.insert(output) { requests.push(off) }\<close>.\<close>

fun blank_loop ::
  "output_id set \<Rightarrow> (output_id \<times> bool) list \<Rightarrow> output_id set \<times> power_request list" where
  "blank_loop blanked [] = (blanked, [])"
| "blank_loop blanked ((output, powered) # rest) =
     (if powered \<and> output \<notin> blanked
      then (case blank_loop (insert output blanked) rest of
              (blanked', requests) \<Rightarrow> (blanked', power_off output # requests))
      else blank_loop blanked rest)"

definition blank_now ::
  "idle_policy \<Rightarrow> (output_id \<times> bool) list \<Rightarrow> idle_policy \<times> power_request list" where
  "blank_now p outputs =
     (case blank_loop (blanked_outputs p) outputs of
        (blanked, requests) \<Rightarrow>
          (p\<lparr>blanked_outputs := blanked,
             manually_blanked := (manually_blanked p \<or> requests \<noteq> [])\<rparr>, requests))"

definition toggle_now ::
  "idle_policy \<Rightarrow> (output_id \<times> bool) list \<Rightarrow> instant \<Rightarrow> idle_policy \<times> idle_policy_actions" where
  "toggle_now p outputs now =
     (let p = reset_idle_interval p now
      in case phone p of
           Some s \<Rightarrow>
             (let output = ps_output s; powered = (output, True) \<in> set outputs
              in (if powered
                  then p\<lparr>phone := Some (s\<lparr>ps_dpms_triggered := True\<rparr>),
                         blanked_outputs := insert output (blanked_outputs p)\<rparr>
                  else p\<lparr>phone := Some (s\<lparr>ps_last_touch := now, ps_dpms_triggered := False\<rparr>),
                         blanked_outputs := blanked_outputs p - {output}\<rparr>,
                  no_actions\<lparr>power_requests :=
                    [\<lparr>req_output = output, req_powered = \<not> powered\<rparr>]\<rparr>))
         | None \<Rightarrow>
             if list_ex snd outputs
             then (case blank_now p outputs of (p, requests) \<Rightarrow>
                   (case screen_went_off p now of (p, decided) \<Rightarrow>
                     (p, \<lparr>power_requests = requests,
                          act_lock = (case decided of
                             None \<Rightarrow> lock_timeout (configuration p) \<noteq> None
                           | Some lock \<Rightarrow> lock),
                          act_suspend = False\<rparr>)))
             else (p\<lparr>blanked_outputs := {}, manually_blanked := False,
                     screen_off_lock_at := None\<rparr>,
                   no_actions\<lparr>power_requests := map (\<lambda>(output, _). power_on output) outputs\<rparr>))"

definition configure ::
  "idle_policy \<Rightarrow> idle_policy_configuration \<Rightarrow> instant \<Rightarrow> idle_policy \<times> power_request list" where
  "configure p new now =
     (if configuration p = new then (p, [])
      else let p = reset_idle_interval (p\<lparr>configuration := new\<rparr>) now
           in if dpms_timeout new = None then wake_blanked_outputs p else (p, []))"

definition wake_output_now ::
  "idle_policy \<Rightarrow> output_id \<Rightarrow> instant \<Rightarrow> idle_policy \<times> power_request" where
  "wake_output_now p output now =
     (let p = reset_idle_interval p now;
          p = p\<lparr>phone := map_option (\<lambda>s. if ps_output s = output
                   then s\<lparr>ps_last_touch := now, ps_dpms_triggered := False\<rparr> else s) (phone p)\<rparr>;
          p = p\<lparr>blanked_outputs := blanked_outputs p - {output}\<rparr>;
          p = p\<lparr>manually_blanked := (manually_blanked p \<and> blanked_outputs p \<noteq> {}),
                screen_off_lock_at := None\<rparr>
      in (p, power_on output))"

definition idle_for :: "idle_policy \<Rightarrow> instant \<Rightarrow> duration" where
  "idle_for p now = saturating_duration_since now (last_activity p)"

definition note_activity :: "idle_policy \<Rightarrow> instant \<Rightarrow> idle_policy \<times> power_request list" where
  "note_activity p now = wake_blanked_outputs (reset_idle_interval p now)"

definition note_external_power_request :: "idle_policy \<Rightarrow> output_id \<Rightarrow> bool \<Rightarrow> idle_policy" where
  "note_external_power_request p output powered =
     p\<lparr>blanked_outputs := blanked_outputs p - {output}\<rparr>"

definition note_power_failure :: "idle_policy \<Rightarrow> output_id \<Rightarrow> instant \<Rightarrow> idle_policy" where
  "note_power_failure p output now = p\<lparr>blanked_outputs := blanked_outputs p - {output}\<rparr>"

subsection \<open>evaluate\<close>

text \<open>The delayed lock of a dark screen, taken out before anything else.\<close>

definition take_screen_off_lock :: "idle_policy \<Rightarrow> instant \<Rightarrow> idle_policy \<times> bool" where
  "take_screen_off_lock p now =
     (let due = option_is_some_and (screen_off_lock_at p) (\<lambda>at. at \<le> now)
      in (if due then p\<lparr>screen_off_lock_at := None\<rparr> else p, due))"

definition evaluate_inhibited ::
  "idle_policy \<Rightarrow> instant \<Rightarrow> bool \<Rightarrow> idle_policy \<times> idle_policy_actions" where
  "evaluate_inhibited p now screen_off_lock =
     (let p = (if inhibited p then p else reset_idle_interval (p\<lparr>inhibited := True\<rparr>) now);
          (p, requests) = (if manually_blanked p then (p, []) else wake_blanked_outputs p)
      in (p, \<lparr>power_requests = requests, act_lock = screen_off_lock, act_suspend = False\<rparr>))"

definition timeout_due :: "idle_policy \<Rightarrow> instant \<Rightarrow> duration option \<Rightarrow> bool" where
  "timeout_due p now timeout = option_is_some_and timeout (\<lambda>t. t \<le> idle_for p now)"

definition evaluate_lock :: "idle_policy \<Rightarrow> instant \<Rightarrow> idle_policy \<times> bool" where
  "evaluate_lock p now =
     (if \<not> lock_triggered p \<and> timeout_due p now (effective_lock_timeout p)
      then (p\<lparr>lock_triggered := True\<rparr>, True) else (p, False))"

definition evaluate_dpms ::
  "idle_policy \<Rightarrow> instant \<Rightarrow> (output_id \<times> bool) list \<Rightarrow> idle_policy \<times> power_request list \<times> bool" where
  "evaluate_dpms p now outputs =
     (if \<not> dpms_triggered p \<and> timeout_due p now (dpms_timeout (configuration p))
      then
        (case blank_loop (blanked_outputs p)
                (filter (\<lambda>(output, _). Some output \<noteq> phone_output p) outputs) of
           (blanked, requests) \<Rightarrow>
             (let p = p\<lparr>dpms_triggered := True, blanked_outputs := blanked\<rparr>
              in if requests \<noteq> []
                 then (case screen_went_off p now of
                         (p, decided) \<Rightarrow> (p, requests, decided = Some True))
                 else (p, requests, False)))
      else (p, [], False))"

definition evaluate_suspend ::
  "idle_policy \<Rightarrow> instant \<Rightarrow> (output_id \<times> bool) list \<Rightarrow> power_request list \<Rightarrow> idle_policy \<times> bool" where
  "evaluate_suspend p now outputs requests =
     (if requests = [] \<and> (phone_output p = None \<or> \<not> list_ex snd outputs) \<and>
         \<not> suspend_triggered p \<and> timeout_due p now (effective_suspend_timeout p)
      then (p\<lparr>suspend_triggered := True\<rparr>, True) else (p, False))"

definition forget_removed :: "idle_policy \<Rightarrow> (output_id \<times> bool) list \<Rightarrow> idle_policy" where
  "forget_removed p outputs =
     p\<lparr>blanked_outputs := {b \<in> blanked_outputs p. b \<in> set (map fst outputs)}\<rparr>"

definition evaluate ::
  "idle_policy \<Rightarrow> instant \<Rightarrow> bool \<Rightarrow> (output_id \<times> bool) list \<Rightarrow>
     idle_policy \<times> idle_policy_actions" where
  "evaluate p now is_inhibited outputs =
     (case take_screen_off_lock p now of (p, screen_off_lock) \<Rightarrow>
      if is_inhibited then evaluate_inhibited p now screen_off_lock
      else
        (let p = (if inhibited p then reset_idle_interval (p\<lparr>inhibited := False\<rparr>) now else p);
             p = forget_removed p outputs
         in case evaluate_lock p now of (p, idle_lock) \<Rightarrow>
            case evaluate_dpms p now outputs of (p, requests, dark_lock) \<Rightarrow>
            case evaluate_suspend p now outputs requests of (p, suspend) \<Rightarrow>
              (p, \<lparr>power_requests = requests,
                   act_lock = (screen_off_lock \<or> idle_lock \<or> dark_lock),
                   act_suspend = suspend\<rparr>)))"

subsection \<open>Deadlines\<close>

fun earlier :: "duration option \<Rightarrow> duration option \<Rightarrow> duration option" where
  "earlier (Some current) (Some candidate) = Some (min current candidate)"
| "earlier current candidate = option_or current candidate"

fun earlier_instant :: "instant option \<Rightarrow> instant option \<Rightarrow> instant option" where
  "earlier_instant (Some a) (Some b) = Some (min a b)"
| "earlier_instant a b = option_or a b"

definition next_idle_deadline :: "idle_policy \<Rightarrow> instant option" where
  "next_idle_deadline p =
     (if inhibited p then None
      else
        let d = None;
            d = (if lock_triggered p then d else earlier d (effective_lock_timeout p));
            d = (if dpms_triggered p then d else earlier d (dpms_timeout (configuration p)));
            d = (if suspend_triggered p then d else earlier d (effective_suspend_timeout p))
        in map_option (instant_add (last_activity p)) d)"

definition phone_deadline :: "idle_policy \<Rightarrow> instant option" where
  "phone_deadline p =
     (case phone p of
        None \<Rightarrow> None
      | Some s \<Rightarrow>
          if ps_dpms_triggered s then None
          else map_option (instant_add (ps_last_touch s)) (dpms_timeout (configuration p)))"

definition next_deadline :: "idle_policy \<Rightarrow> instant option" where
  "next_deadline p =
     earlier_instant (earlier_instant (next_idle_deadline p) (phone_deadline p))
       (screen_off_lock_at p)"

definition limit_dispatch_timeout :: "idle_policy \<Rightarrow> instant \<Rightarrow> duration \<Rightarrow> duration" where
  "limit_dispatch_timeout p now timeout =
     (case next_deadline p of
        None \<Rightarrow> timeout
      | Some deadline \<Rightarrow> min timeout (saturating_duration_since deadline now))"

section \<open>The blanking loop and the wake\<close>

lemma blank_loop_blanked:
  "fst (blank_loop blanked outputs) = blanked \<union> {output. (output, True) \<in> set outputs}"
proof (induction blanked outputs rule: blank_loop.induct)
  case (1 blanked)
  then show ?case by simp
next
  case (2 blanked x powered rest)
  show ?case
  proof (cases "powered \<and> x \<notin> blanked")
    case True
    with 2(1) have "fst (blank_loop (insert x blanked) rest) =
      insert x blanked \<union> {y. (y, True) \<in> set rest}" by simp
    with True show ?thesis by (auto simp: case_prod_beta)
  next
    case False
    with 2(2) have "fst (blank_loop blanked rest) = blanked \<union> {y. (y, True) \<in> set rest}" by simp
    with False show ?thesis by auto
  qed
qed

lemma blank_loop_requests:
  "set (snd (blank_loop blanked outputs)) =
     power_off ` {output. (output, True) \<in> set outputs \<and> output \<notin> blanked}"
proof (induction blanked outputs rule: blank_loop.induct)
  case (1 blanked)
  then show ?case by simp
next
  case (2 blanked x powered rest)
  show ?case
  proof (cases "powered \<and> x \<notin> blanked")
    case True
    with 2(1) show ?thesis by (auto simp: case_prod_beta)
  next
    case False
    with 2(2) show ?thesis by auto
  qed
qed

lemma blank_loop_distinct: "distinct (snd (blank_loop blanked outputs))"
proof (induction blanked outputs rule: blank_loop.induct)
  case (1 blanked)
  then show ?case by simp
next
  case (2 blanked x powered rest)
  show ?case
  proof (cases "powered \<and> x \<notin> blanked")
    case True
    have "power_off x \<notin> set (snd (blank_loop (insert x blanked) rest))"
      by (auto simp: blank_loop_requests)
    with 2(1) True show ?thesis by (auto simp: case_prod_beta)
  next
    case False
    with 2(2) show ?thesis by auto
  qed
qed

text \<open>Each phase of \<open>evaluate\<close> leaves alone the fields it does not own.\<close>

lemma screen_went_off_frame [simp]:
  "configuration (fst (screen_went_off p now)) = configuration p"
  "last_activity (fst (screen_went_off p now)) = last_activity p"
  "inhibited (fst (screen_went_off p now)) = inhibited p"
  "lock_triggered (fst (screen_went_off p now)) = lock_triggered p"
  "dpms_triggered (fst (screen_went_off p now)) = dpms_triggered p"
  "suspend_triggered (fst (screen_went_off p now)) = suspend_triggered p"
  "blanked_outputs (fst (screen_went_off p now)) = blanked_outputs p"
  "manually_blanked (fst (screen_went_off p now)) = manually_blanked p"
  "phone (fst (screen_went_off p now)) = phone p"
  by (simp_all add: screen_went_off_def split: option.splits)

lemma screen_went_off_later:
  assumes "option_is_none_or (screen_off_lock_at p) (\<lambda>at. now < at)"
  shows "option_is_none_or (screen_off_lock_at (fst (screen_went_off p now))) (\<lambda>at. now < at)"
  using assms by (auto simp: screen_went_off_def time_defs split: option.splits)

lemma evaluate_lock_frame [simp]:
  "configuration (fst (evaluate_lock p now)) = configuration p"
  "last_activity (fst (evaluate_lock p now)) = last_activity p"
  "inhibited (fst (evaluate_lock p now)) = inhibited p"
  "dpms_triggered (fst (evaluate_lock p now)) = dpms_triggered p"
  "suspend_triggered (fst (evaluate_lock p now)) = suspend_triggered p"
  "blanked_outputs (fst (evaluate_lock p now)) = blanked_outputs p"
  "screen_off_lock_at (fst (evaluate_lock p now)) = screen_off_lock_at p"
  "phone (fst (evaluate_lock p now)) = phone p"
  by (simp_all add: evaluate_lock_def)

lemma evaluate_dpms_frame [simp]:
  "configuration (fst (evaluate_dpms p now outputs)) = configuration p"
  "last_activity (fst (evaluate_dpms p now outputs)) = last_activity p"
  "inhibited (fst (evaluate_dpms p now outputs)) = inhibited p"
  "lock_triggered (fst (evaluate_dpms p now outputs)) = lock_triggered p"
  "suspend_triggered (fst (evaluate_dpms p now outputs)) = suspend_triggered p"
  "phone (fst (evaluate_dpms p now outputs)) = phone p"
  by (simp_all add: evaluate_dpms_def Let_def case_prod_beta)

lemma evaluate_suspend_frame [simp]:
  "configuration (fst (evaluate_suspend p now outputs rs)) = configuration p"
  "last_activity (fst (evaluate_suspend p now outputs rs)) = last_activity p"
  "inhibited (fst (evaluate_suspend p now outputs rs)) = inhibited p"
  "lock_triggered (fst (evaluate_suspend p now outputs rs)) = lock_triggered p"
  "dpms_triggered (fst (evaluate_suspend p now outputs rs)) = dpms_triggered p"
  "blanked_outputs (fst (evaluate_suspend p now outputs rs)) = blanked_outputs p"
  "screen_off_lock_at (fst (evaluate_suspend p now outputs rs)) = screen_off_lock_at p"
  "phone (fst (evaluate_suspend p now outputs rs)) = phone p"
  by (simp_all add: evaluate_suspend_def)

lemma timeouts_frame:
  "configuration q = configuration p \<Longrightarrow> effective_lock_timeout q = effective_lock_timeout p"
  "configuration q = configuration p \<Longrightarrow> effective_suspend_timeout q = effective_suspend_timeout p"
  by (simp_all add: effective_lock_timeout_def effective_suspend_timeout_def)

lemma timeout_due_frame:
  "last_activity q = last_activity p \<Longrightarrow> timeout_due q now t = timeout_due p now t"
  by (simp add: timeout_due_def idle_for_def)

text \<open>What the display phase asks for: only lit outputs it has not blanked, never the phone's.\<close>

definition blankable :: "idle_policy \<Rightarrow> (output_id \<times> bool) list \<Rightarrow> output_id set" where
  "blankable p outputs = {x. (x, True) \<in> set outputs \<and> x \<notin> blanked_outputs p \<and>
     Some x \<noteq> phone_output p}"

lemma evaluate_dpms_request_list:
  "fst (snd (evaluate_dpms p now outputs)) =
     (if \<not> dpms_triggered p \<and> timeout_due p now (dpms_timeout (configuration p))
      then snd (blank_loop (blanked_outputs p)
                 (filter (\<lambda>(x, _). Some x \<noteq> phone_output p) outputs)) else [])"
  by (simp add: evaluate_dpms_def Let_def case_prod_beta)

lemma evaluate_dpms_requests:
  "set (fst (snd (evaluate_dpms p now outputs))) =
     (if \<not> dpms_triggered p \<and> timeout_due p now (dpms_timeout (configuration p))
      then power_off ` blankable p outputs else {})"
  by (auto simp: evaluate_dpms_request_list blank_loop_requests blankable_def)

lemma evaluate_dpms_distinct: "distinct (fst (snd (evaluate_dpms p now outputs)))"
  by (simp add: evaluate_dpms_request_list blank_loop_distinct)

lemma evaluate_dpms_blanked:
  "req_output ` set (fst (snd (evaluate_dpms p now outputs)))
     \<subseteq> blanked_outputs (fst (evaluate_dpms p now outputs))"
  by (auto simp: evaluate_dpms_def Let_def case_prod_beta blank_loop_requests blank_loop_blanked)

lemma evaluate_dpms_triggered:
  "dpms_triggered (fst (evaluate_dpms p now outputs)) =
     (dpms_triggered p \<or> timeout_due p now (dpms_timeout (configuration p)))"
  by (auto simp: evaluate_dpms_def Let_def case_prod_beta)

text \<open>The running branch of \<open>evaluate\<close> in one equation over projections.\<close>

definition evaluate_start :: "idle_policy \<Rightarrow> instant \<Rightarrow> (output_id \<times> bool) list \<Rightarrow> idle_policy" where
  "evaluate_start p now outputs =
     (let q = fst (take_screen_off_lock p now)
      in forget_removed
           (if inhibited q then reset_idle_interval (q\<lparr>inhibited := False\<rparr>) now else q) outputs)"

lemma evaluate_running:
  "evaluate p now False outputs =
     (let q0 = evaluate_start p now outputs;
          q1 = fst (evaluate_lock q0 now);
          q2 = fst (evaluate_dpms q1 now outputs);
          requests = fst (snd (evaluate_dpms q1 now outputs));
          q3 = fst (evaluate_suspend q2 now outputs requests)
      in (q3, \<lparr>power_requests = requests,
               act_lock = (snd (take_screen_off_lock p now) \<or> snd (evaluate_lock q0 now) \<or>
                           snd (snd (evaluate_dpms q1 now outputs))),
               act_suspend = snd (evaluate_suspend q2 now outputs requests)\<rparr>))"
  by (simp add: evaluate_def evaluate_start_def Let_def case_prod_beta)

lemma evaluate_start_frame [simp]:
  "configuration (evaluate_start p now outputs) = configuration p"
  "inhibited (evaluate_start p now outputs) = False"
  "phone (evaluate_start p now outputs) = phone p"
  "blanked_outputs (evaluate_start p now outputs) = {b \<in> blanked_outputs p. b \<in> fst ` set outputs}"
  "screen_off_lock_at (evaluate_start p now outputs) =
     (if option_is_some_and (screen_off_lock_at p) (\<lambda>at. at \<le> now) then None
      else screen_off_lock_at p)"
  by (auto simp: evaluate_start_def Let_def take_screen_off_lock_def forget_removed_def
      reset_idle_interval_def)

lemma evaluate_start_not_inhibited:
  assumes "\<not> inhibited p"
  shows "last_activity (evaluate_start p now outputs) = last_activity p"
    "lock_triggered (evaluate_start p now outputs) = lock_triggered p"
    "dpms_triggered (evaluate_start p now outputs) = dpms_triggered p"
    "suspend_triggered (evaluate_start p now outputs) = suspend_triggered p"
  using assms by (simp_all add: evaluate_start_def Let_def take_screen_off_lock_def forget_removed_def)

section \<open>Deadlines and what is due\<close>

text \<open>\<open>beyond now d\<close>: the optional deadline \<open>d\<close> has not come at \<open>now\<close>.\<close>

definition beyond :: "instant \<Rightarrow> instant option \<Rightarrow> bool" where
  "beyond now d = option_is_none_or d (\<lambda>d. now < d)"

lemma beyond_None [simp]: "beyond now None"
  by (simp add: beyond_def)

lemma beyond_Some [simp]: "beyond now (Some d) = (now < d)"
  by (simp add: beyond_def)

lemma beyond_earlier_instant [simp]: "beyond now (earlier_instant a b) \<longleftrightarrow> beyond now a \<and> beyond now b"
  by (cases a; cases b) auto

lemma beyond_map_earlier:
  "beyond now (map_option (instant_add t) (earlier a b)) \<longleftrightarrow>
     beyond now (map_option (instant_add t) a) \<and> beyond now (map_option (instant_add t) b)"
  by (cases a; cases b) (auto simp: time_defs)

lemma beyond_not_due:
  assumes "option_is_none_or t (\<lambda>t. 0 < t)"
  shows "beyond now (map_option (instant_add (last_activity p)) t) \<longleftrightarrow> \<not> timeout_due p now t"
  using assms by (cases t) (auto simp: timeout_due_def idle_for_def time_defs)

lemma effective_timeouts_positive:
  assumes "valid_configuration (configuration p)"
  shows "option_is_none_or (effective_lock_timeout p) (\<lambda>t. 0 < t)"
    and "option_is_none_or (dpms_timeout (configuration p)) (\<lambda>t. 0 < t)"
    and "option_is_none_or (effective_suspend_timeout p) (\<lambda>t. 0 < t)"
  using assms
  by (auto simp: effective_lock_timeout_def effective_suspend_timeout_def valid_configuration_def
      timeout_ok_def option_is_none_or_def split: option.splits)

lemma next_idle_deadline_beyond:
  assumes "valid_configuration (configuration p)" "\<not> inhibited p"
  shows "beyond now (next_idle_deadline p) \<longleftrightarrow>
    (lock_triggered p \<or> \<not> timeout_due p now (effective_lock_timeout p)) \<and>
    (dpms_triggered p \<or> \<not> timeout_due p now (dpms_timeout (configuration p))) \<and>
    (suspend_triggered p \<or> \<not> timeout_due p now (effective_suspend_timeout p))"
  using assms(2) effective_timeouts_positive [OF assms(1)]
  by (simp add: next_idle_deadline_def Let_def beyond_map_earlier beyond_not_due del: earlier.simps)

lemma evaluate_quiet:
  assumes "valid_configuration (configuration p)" "\<not> inhibited p" "beyond now (next_deadline p)"
  shows "evaluate p now False outputs = (forget_removed p outputs, no_actions)"
proof -
  have "beyond now (next_idle_deadline p)" and off: "beyond now (screen_off_lock_at p)"
    using assms(3) by (simp_all add: next_deadline_def)
  note quiet = this(1) [unfolded next_idle_deadline_beyond [OF assms(1,2)]]
  have start: "evaluate_start p now outputs = forget_removed p outputs"
    and due: "snd (take_screen_off_lock p now) = False"
    using off assms(2)
    by (auto simp: evaluate_start_def Let_def take_screen_off_lock_def option_is_some_and_def
        split: option.splits)
  let ?q = "forget_removed p outputs"
  have q: "configuration ?q = configuration p" "last_activity ?q = last_activity p"
    "lock_triggered ?q = lock_triggered p" "dpms_triggered ?q = dpms_triggered p"
    "suspend_triggered ?q = suspend_triggered p"
    by (simp_all add: forget_removed_def)
  have "evaluate_lock ?q now = (?q, False)"
    using quiet by (simp add: evaluate_lock_def q timeouts_frame(1) [OF q(1)] timeout_due_frame [OF q(2)])
  moreover have "evaluate_dpms ?q now outputs = (?q, [], False)"
    using quiet by (auto simp: evaluate_dpms_def q timeout_due_frame [OF q(2)])
  moreover have "evaluate_suspend ?q now outputs [] = (?q, False)"
    using quiet
    by (simp add: evaluate_suspend_def q timeouts_frame(2) [OF q(1)] timeout_due_frame [OF q(2)])
  ultimately show ?thesis
    by (simp add: evaluate_running start due no_actions_def Let_def)
qed

lemma evaluate_phone_quiet:
  assumes "valid_configuration (configuration p)" "beyond now (next_deadline p)"
  shows "evaluate_phone p now False powered = (p, None)"
  using assms
  by (cases "dpms_timeout (configuration p)")
    (auto simp: evaluate_phone_def next_deadline_def phone_deadline_def valid_configuration_def
      timeout_ok_def time_defs split: option.splits if_splits)

text \<open>What one running evaluation leaves to the next one at the same instant.\<close>

lemma evaluate_running_fields:
  assumes "\<not> inhibited p"
  shows "configuration (fst (evaluate p now False outputs)) = configuration p"
    "last_activity (fst (evaluate p now False outputs)) = last_activity p"
    "inhibited (fst (evaluate p now False outputs)) = False"
    "phone (fst (evaluate p now False outputs)) = phone p"
    "lock_triggered (fst (evaluate p now False outputs)) =
       (lock_triggered p \<or> timeout_due p now (effective_lock_timeout p))"
    "dpms_triggered (fst (evaluate p now False outputs)) =
       (dpms_triggered p \<or> timeout_due p now (dpms_timeout (configuration p)))"
    "suspend_triggered (fst (evaluate p now False outputs)) =
       (suspend_triggered p \<or> act_suspend (snd (evaluate p now False outputs)))"
    "act_suspend (snd (evaluate p now False outputs)) =
       (power_requests (snd (evaluate p now False outputs)) = [] \<and>
        (phone_output p = None \<or> \<not> list_ex snd outputs) \<and> \<not> suspend_triggered p \<and>
        timeout_due p now (effective_suspend_timeout p))"
    "set (power_requests (snd (evaluate p now False outputs))) =
       (if \<not> dpms_triggered p \<and> timeout_due p now (dpms_timeout (configuration p))
        then power_off ` blankable (evaluate_start p now outputs) outputs else {})"
proof -
  note start = evaluate_start_not_inhibited [OF assms, of now outputs]
  define q where "q = evaluate_start p now outputs"
  have c: "configuration q = configuration p" "last_activity q = last_activity p" "phone q = phone p"
    using start by (simp_all add: q_def)
  define q1 where "q1 = fst (evaluate_lock q now)"
  have c1: "configuration q1 = configuration p" "last_activity q1 = last_activity p"
    "phone q1 = phone p" "blanked_outputs q1 = blanked_outputs q"
    using c by (simp_all add: q1_def)
  define q2 where "q2 = fst (evaluate_dpms q1 now outputs)"
  have c2: "configuration q2 = configuration p" "last_activity q2 = last_activity p"
    "phone q2 = phone p"
    using c1 by (simp_all add: q2_def)
  define rs where "rs = fst (snd (evaluate_dpms q1 now outputs))"
  have run: "fst (evaluate p now False outputs) = fst (evaluate_suspend q2 now outputs rs)"
    "power_requests (snd (evaluate p now False outputs)) = rs"
    "act_suspend (snd (evaluate p now False outputs)) = snd (evaluate_suspend q2 now outputs rs)"
    by (simp_all add: evaluate_running Let_def rs_def q2_def q1_def q_def)
  note due = timeout_due_frame [OF c(2)] timeout_due_frame [OF c1(2)] timeout_due_frame [OF c2(2)]
    timeouts_frame [OF c(1)] timeouts_frame [OF c1(1)] timeouts_frame [OF c2(1)]
  have d: "dpms_triggered q1 = dpms_triggered p" "suspend_triggered q2 = suspend_triggered p"
    "inhibited q2 = False" "lock_triggered q = lock_triggered p" "lock_triggered q2 = lock_triggered q1"
    using start by (simp_all add: q1_def q2_def q_def)
  have b: "blankable q1 outputs = blankable q outputs"
    using c c1 by (simp add: blankable_def phone_output_def)
  show "configuration (fst (evaluate p now False outputs)) = configuration p"
    and "last_activity (fst (evaluate p now False outputs)) = last_activity p"
    and "inhibited (fst (evaluate p now False outputs)) = False"
    and "phone (fst (evaluate p now False outputs)) = phone p"
    by (simp_all add: run c2 d)
  show "lock_triggered (fst (evaluate p now False outputs)) =
       (lock_triggered p \<or> timeout_due p now (effective_lock_timeout p))"
    by (simp add: run d) (simp add: q1_def evaluate_lock_def d due)
  show "dpms_triggered (fst (evaluate p now False outputs)) =
       (dpms_triggered p \<or> timeout_due p now (dpms_timeout (configuration p)))"
    by (simp add: run) (simp add: q2_def evaluate_dpms_triggered d due c1)
  show "suspend_triggered (fst (evaluate p now False outputs)) =
       (suspend_triggered p \<or> act_suspend (snd (evaluate p now False outputs)))"
    by (simp add: run evaluate_suspend_def d)
  show "act_suspend (snd (evaluate p now False outputs)) =
       (power_requests (snd (evaluate p now False outputs)) = [] \<and>
        (phone_output p = None \<or> \<not> list_ex snd outputs) \<and> \<not> suspend_triggered p \<and>
        timeout_due p now (effective_suspend_timeout p))"
    by (simp add: run evaluate_suspend_def d due phone_output_def c2)
  show "set (power_requests (snd (evaluate p now False outputs))) =
       (if \<not> dpms_triggered p \<and> timeout_due p now (dpms_timeout (configuration p))
        then power_off ` blankable (evaluate_start p now outputs) outputs else {})"
    by (simp add: run rs_def evaluate_dpms_requests d due c1 b) (simp add: q_def)
qed

lemma evaluate_screen_off_beyond:
  assumes "\<not> inhibited p"
  shows "beyond now (screen_off_lock_at (fst (evaluate p now False outputs)))"
proof -
  define q where "q = fst (evaluate_lock (evaluate_start p now outputs) now)"
  have q: "option_is_none_or (screen_off_lock_at q) (\<lambda>at. now < at)"
    by (auto simp: q_def option_is_some_and_def option_is_none_or_def split: option.splits)
  have "beyond now (screen_off_lock_at (fst (evaluate_dpms q now outputs)))"
    using q screen_went_off_later
    by (auto simp: evaluate_dpms_def Let_def case_prod_beta beyond_def)
  then show ?thesis by (simp add: evaluate_running Let_def q_def)
qed

lemma evaluate_twice_beyond:
  assumes "valid_configuration (configuration p)" "\<not> inhibited p" "phone p = None"
  shows "beyond now (next_deadline (fst (evaluate (fst (evaluate p now False outputs))
           now False outputs)))"
proof -
  define p1 where "p1 = fst (evaluate p now False outputs)"
  define p2 where "p2 = fst (evaluate p1 now False outputs)"
  note f1 = evaluate_running_fields [OF assms(2), of now outputs, folded p1_def]
  have ni1: "\<not> inhibited p1" by (simp add: f1)
  note f2 = evaluate_running_fields [OF ni1, of now outputs, folded p2_def]
  have ni2: "\<not> inhibited p2" and v: "valid_configuration (configuration p2)"
    using assms(1) by (simp_all add: f1 f2)
  have ph: "phone p2 = None" using assms(3) by (simp add: f1 f2)
  have t: "timeout_due p2 now d = timeout_due p now d" "timeout_due p1 now d = timeout_due p now d" for d
    by (simp_all add: timeout_due_def idle_for_def f1 f2)
  have e: "effective_lock_timeout p2 = effective_lock_timeout p"
    "effective_suspend_timeout p2 = effective_suspend_timeout p"
    "effective_lock_timeout p1 = effective_lock_timeout p"
    "effective_suspend_timeout p1 = effective_suspend_timeout p"
    by (rule timeouts_frame, simp add: f1(1) f2(1))+
  have "power_requests (snd (evaluate p1 now False outputs)) = []"
    using f2(9) t by (auto simp: f1)
  then have s: "suspend_triggered p2 \<or> \<not> timeout_due p now (effective_suspend_timeout p)"
    using assms(3) by (auto simp: f2 f1 t e phone_output_def)
  have "beyond now (next_idle_deadline p2)"
    using s f2(5) f2(6) by (simp add: next_idle_deadline_beyond [OF v ni2] t e f1(1) f2(1))
  moreover have "beyond now (screen_off_lock_at p2)"
    using evaluate_screen_off_beyond [OF ni1] by (simp add: p2_def)
  ultimately have "beyond now (next_deadline p2)"
    by (simp add: next_deadline_def phone_deadline_def ph)
  then show ?thesis by (simp add: p1_def p2_def)
qed

section \<open>Properties\<close>

text \<open>
  Packets. Whatever bytes the shell sends, a configuration that
  \<open>decode_configuration\<close> accepts is well formed: every enabled timeout is positive and at most
  seven days, neither the lock nor the display timeout exceeds an enabled suspend timeout, and
  the screen-off delay is at most seven days.
\<close>
lemma decoded_configuration_is_valid:
  assumes "decode_configuration packet = Inr c"
  shows "valid_configuration c"
  by (rule decode_configuration_valid [OF assms])

definition suspend_only_configuration :: idle_policy_configuration where
  "suspend_only_configuration = \<lparr>lock_timeout = None, dpms_timeout = None,
     suspend_timeout = Some (from_secs 900), suspend_mode = SM_Deep,
     power_button_action = PB_Dpms, lock_after_screen_off = None\<rparr>"

lemma suspend_only_packet:
  "decode_configuration (encode_configuration suspend_only_configuration) =
     Inr suspend_only_configuration"
  by (rule decode_encode_configuration)
    (auto simp: suspend_only_configuration_def valid_configuration_def timeout_ok_def not_after_def
      whole_millis_def MAX_TIMEOUT_def time_defs)

text \<open>
  Packet round trip. Every well-formed configuration whose durations are whole
  milliseconds has a version 4 packet, and decoding that packet gives the configuration back:
  no well-formed setting is unreachable from the shell.
\<close>
lemma configuration_packet_roundtrip:
  assumes "valid_configuration c" "whole_millis c"
  shows "decode_configuration (encode_configuration c) = Inr c"
  by (rule decode_encode_configuration [OF assms])

text \<open>
  No missed deadline. Between two input edges the policy needs no polling: at every
  instant before \<open>next_deadline\<close> (or always, when there is none), \<open>evaluate\<close> asks for nothing
  and only forgets unplugged outputs, and \<open>evaluate_phone\<close> asks for nothing and changes nothing.
\<close>
lemma nothing_due_before_deadline:
  assumes "valid_configuration (configuration p)" "\<not> inhibited p" "beyond now (next_deadline p)"
  shows "evaluate p now False outputs = (forget_removed p outputs, no_actions) \<and>
         evaluate_phone p now False powered = (p, None)"
  using evaluate_quiet [OF assms] evaluate_phone_quiet [OF assms(1,3)] by simp

definition idle_example :: idle_policy where
  "idle_example = (IdlePolicy_default 0)\<lparr>configuration := suspend_only_configuration\<rparr>"

text \<open>
  Claim C31 (no busy loop). Without a desk, two evaluations at the same instant settle every due
  deadline (the second one is the dispatch boundary that lets the display power-off commit before
  the suspend): the next deadline then lies strictly in the future, so the event loop sleeps.
\<close>
theorem evaluations_settle_every_deadline:
  assumes "valid_configuration (configuration p)" "\<not> inhibited p" "phone p = None"
  shows "beyond now (next_deadline (fst (evaluate (fst (evaluate p now False outputs))
           now False outputs)))"
  by (rule evaluate_twice_beyond [OF assms])

theorem evaluations_settle_every_deadline_witness:
  "beyond 900000000000 (next_deadline (fst (evaluate (fst (evaluate idle_example
      900000000000 False [(1, True)])) 900000000000 False [(1, True)])))"
  by (rule evaluations_settle_every_deadline)
    (simp_all add: idle_example_def IdlePolicy_default_def suspend_only_configuration_def
      valid_configuration_def timeout_ok_def not_after_def MAX_TIMEOUT_def time_defs)

definition desk_example :: idle_policy where
  "desk_example = idle_example\<lparr>phone :=
     Some \<lparr>ps_output = 7, ps_last_touch = 0, ps_dpms_triggered = False\<rparr>\<rparr>"

lemma desk_example_fields:
  "configuration desk_example = suspend_only_configuration" "last_activity desk_example = 0"
  "inhibited desk_example = False" "suspend_triggered desk_example = False"
  "screen_off_lock_at desk_example = None" "phone_output desk_example = Some 7"
  "phone desk_example = Some \<lparr>ps_output = 7, ps_last_touch = 0, ps_dpms_triggered = False\<rparr>"
  "forget_removed desk_example outputs = desk_example"
  by (simp_all add: desk_example_def idle_example_def IdlePolicy_default_def forget_removed_def
      phone_output_def)

lemma suspend_only_timeouts:
  "lock_timeout suspend_only_configuration = None" "dpms_timeout suspend_only_configuration = None"
  "suspend_timeout suspend_only_configuration = Some (from_secs 900)"
  by (simp_all add: suspend_only_configuration_def)

lemma desk_example_evaluate:
  "evaluate desk_example now False [(7, True), (8, True)] = (desk_example, no_actions)"
proof -
  note f = desk_example_fields suspend_only_timeouts
  have "take_screen_off_lock desk_example now = (desk_example, False)"
    by (simp add: take_screen_off_lock_def f)
  moreover have "evaluate_lock desk_example now = (desk_example, False)"
    by (simp add: evaluate_lock_def effective_lock_timeout_def timeout_due_def f)
  moreover have "evaluate_dpms desk_example now [(7, True), (8, True)] = (desk_example, [], False)"
    by (simp add: evaluate_dpms_def timeout_due_def f)
  moreover have "evaluate_suspend desk_example now [(7, True), (8, True)] [] = (desk_example, False)"
    by (simp add: evaluate_suspend_def f)
  ultimately show ?thesis by (simp add: evaluate_def f no_actions_def)
qed

lemma desk_example_next_deadline: "next_deadline desk_example = Some (int (from_secs 900))"
  by (simp add: next_deadline_def next_idle_deadline_def phone_deadline_def desk_example_fields
      suspend_only_timeouts effective_lock_timeout_def effective_suspend_timeout_def instant_add_def)

text \<open>
  Claim C32 (busy loop beside a desk). With a phone and a desk the same configuration does not
  settle: display power-off is disabled, both screens are lit, and the suspend timeout has
  passed. \<open>evaluate\<close> never suspends while a screen is lit, but \<open>next_idle_deadline\<close> still
  counts the suspend timeout, so \<open>evaluate\<close> changes nothing and the dispatch timeout is zero:
  the event loop spins until an input event, although the policy promises to need no polling.
\<close>
theorem desk_suspend_deadline_spins:
  "evaluate desk_example (int (from_secs 900) + int waited) False [(7, True), (8, True)] =
     (desk_example, no_actions) \<and>
   evaluate_phone desk_example (int (from_secs 900) + int waited) False True = (desk_example, None) \<and>
   limit_dispatch_timeout desk_example (int (from_secs 900) + int waited) timeout = 0"
  by (simp add: desk_example_evaluate desk_example_next_deadline limit_dispatch_timeout_def
      evaluate_phone_def desk_example_fields suspend_only_timeouts saturating_duration_since_def)

lemma suspend_due_lock_due:
  assumes "timeout_due p now (effective_suspend_timeout p)" "lock_timeout (configuration p) \<noteq> None"
  shows "timeout_due p now (effective_lock_timeout p)"
  using assms
  by (cases "suspend_timeout (configuration p)"; cases "lock_timeout (configuration p)")
    (auto simp: timeout_due_def effective_suspend_timeout_def effective_lock_timeout_def)

text \<open>
  Claim C2 (never suspend before the lock and the displays). When \<open>evaluate\<close> asks for a suspend,
  idling is not inhibited, the same evaluation asks for no display power-off (KMS commits first),
  the idle lock has been triggered if one is configured, no screen is lit beside a desk, and the
  suspend is the first of this idle interval.
\<close>
theorem suspend_follows_lock_and_blank:
  assumes "evaluate p now is_inhibited outputs = (p', a)" "act_suspend a" "\<not> inhibited p"
  shows "\<not> is_inhibited \<and> power_requests a = [] \<and>
         (lock_timeout (configuration p) \<noteq> None \<longrightarrow> lock_triggered p') \<and>
         (phone p \<noteq> None \<longrightarrow> \<not> list_ex snd outputs) \<and>
         \<not> suspend_triggered p \<and> suspend_triggered p'"
proof -
  have i: "\<not> is_inhibited"
  proof
    assume "is_inhibited"
    with assms(1,2) show False
      by (auto simp: evaluate_def evaluate_inhibited_def Let_def case_prod_beta)
  qed
  note f = evaluate_running_fields [OF assms(3), of now outputs]
  have e: "fst (evaluate p now False outputs) = p'" "snd (evaluate p now False outputs) = a"
    using assms(1) i by simp_all
  have due: "timeout_due p now (effective_suspend_timeout p)" using f(8) assms(2) by (simp add: e)
  then have "lock_timeout (configuration p) \<noteq> None \<longrightarrow> timeout_due p now (effective_lock_timeout p)"
    using suspend_due_lock_due by blast
  with i f(5,7,8) assms(2) show ?thesis by (simp add: e) (auto simp: phone_output_def)
qed

theorem suspend_follows_lock_and_blank_witness:
  "power_requests (snd (evaluate idle_example 900000000000 False [(1, True)])) = [] \<and>
   suspend_triggered (fst (evaluate idle_example 900000000000 False [(1, True)]))"
proof -
  have s: "act_suspend (snd (evaluate idle_example 900000000000 False [(1, True)]))"
    by (simp add: idle_example_def IdlePolicy_default_def suspend_only_configuration_def Let_def
      evaluate_running evaluate_start_def take_screen_off_lock_def forget_removed_def
      evaluate_lock_def evaluate_dpms_def evaluate_suspend_def timeout_due_def phone_output_def
      effective_lock_timeout_def effective_suspend_timeout_def idle_for_def time_defs)
  have n: "\<not> inhibited idle_example" by (simp add: idle_example_def IdlePolicy_default_def)
  show ?thesis
    using suspend_follows_lock_and_blank [OF prod.collapse [symmetric] s n] by simp
qed

text \<open>
  Wake restores what idling blanked. Every output that an evaluation turns off was
  lit, was not already blanked by the policy, is not the panel of a phone beside a desk and is
  requested once; and the next activity asks to turn every one of them on again.
\<close>
lemma activity_restores_blanked_outputs:
  assumes "evaluate p now False outputs = (p1, a)" "\<not> inhibited p" "finite (blanked_outputs p)"
  shows "\<forall>r \<in> set (power_requests a).
           \<not> req_powered r \<and> (req_output r, True) \<in> set outputs \<and>
           Some (req_output r) \<noteq> phone_output p \<and>
           power_on (req_output r) \<in> set (snd (note_activity p1 later))"
proof
  fix r
  assume r: "r \<in> set (power_requests a)"
  have e: "p1 = fst (evaluate p now False outputs)" "a = snd (evaluate p now False outputs)"
    using assms(1) by simp_all
  have "r \<in> power_off ` blankable (evaluate_start p now outputs) outputs"
    using r evaluate_running_fields(9) [OF assms(2)] by (auto simp: e split: if_splits)
  then have lit: "\<not> req_powered r" "(req_output r, True) \<in> set outputs"
    "Some (req_output r) \<noteq> phone_output p"
    by (auto simp: blankable_def phone_output_def)
  let ?q = "fst (evaluate_lock (evaluate_start p now outputs) now)"
  have b: "blanked_outputs p1 = blanked_outputs (fst (evaluate_dpms ?q now outputs))"
    by (simp add: e evaluate_running Let_def)
  have "r \<in> set (fst (snd (evaluate_dpms ?q now outputs)))"
    using r by (simp add: e evaluate_running Let_def)
  then have "req_output r \<in> blanked_outputs p1"
    using evaluate_dpms_blanked [of ?q now outputs] b by auto
  moreover have "finite (blanked_outputs p1)"
    unfolding b using assms(3)
    by (auto simp: evaluate_dpms_def Let_def case_prod_beta blank_loop_blanked
        intro: finite_subset [of _ "fst ` set outputs"] rev_image_eqI)
  moreover have "phone_output p1 = phone_output p"
    using evaluate_running_fields(4) [OF assms(2)] by (simp add: e phone_output_def)
  ultimately have "power_on (req_output r) \<in> set (snd (note_activity p1 later))"
    using lit(3)
    by (auto simp: note_activity_def wake_blanked_outputs_def reset_idle_interval_def Let_def
        phone_output_def)
  with lit show "\<not> req_powered r \<and> (req_output r, True) \<in> set outputs \<and>
           Some (req_output r) \<noteq> phone_output p \<and>
           power_on (req_output r) \<in> set (snd (note_activity p1 later))"
    by simp
qed

definition dpms_example :: idle_policy where
  "dpms_example = (IdlePolicy_default 0)\<lparr>configuration :=
     default_configuration\<lparr>dpms_timeout := Some (from_secs 300)\<rparr>\<rparr>"

text \<open>
  Inhibitors. While a visible inhibitor holds idling off, \<open>evaluate\<close> never suspends
  and never turns an output off; it locks only when the delay of an explicit screen-off has run
  out; and it leaves the displays alone when the user turned them off on purpose.
\<close>
lemma inhibitor_blocks_idle_actions:
  assumes "evaluate p now True outputs = (p', a)"
  shows "\<not> act_suspend a \<and> (\<forall>r \<in> set (power_requests a). req_powered r) \<and>
         act_lock a = option_is_some_and (screen_off_lock_at p) (\<lambda>at. at \<le> now) \<and>
         (manually_blanked p \<longrightarrow>
            power_requests a = [] \<and> blanked_outputs p' = blanked_outputs p)"
  using assms
  by (auto simp: evaluate_def evaluate_inhibited_def take_screen_off_lock_def Let_def
      reset_idle_interval_def wake_blanked_outputs_def split: if_splits)

lemma toggle_now_phone:
  assumes "phone p = Some s"
  shows "snd (toggle_now p outputs now) = no_actions\<lparr>power_requests :=
     [\<lparr>req_output = ps_output s, req_powered = ((ps_output s, True) \<notin> set outputs)\<rparr>]\<rparr>"
  using assms by (simp add: toggle_now_def reset_idle_interval_def Let_def)

lemma note_activity_phone:
  assumes "phone p = Some s"
  shows "\<forall>r \<in> set (snd (note_activity p now)). req_output r \<noteq> ps_output s"
  using assms
  by (cases "finite (blanked_outputs p)")
    (auto simp: note_activity_def wake_blanked_outputs_def reset_idle_interval_def Let_def
      phone_output_def)

text \<open>
  A desk does not touch the phone. Beside a desk the power button switches only the
  phone's panel and neither locks nor suspends, while the desk's idle timeout never turns the
  phone's panel off and activity at the desk never turns it on.
\<close>
lemma desk_isolates_the_phone:
  assumes "phone p = Some s" "\<not> inhibited p"
  shows "snd (toggle_now p outputs now) = no_actions\<lparr>power_requests :=
           [\<lparr>req_output = ps_output s, req_powered = ((ps_output s, True) \<notin> set outputs)\<rparr>]\<rparr> \<and>
         (\<forall>r \<in> set (power_requests (snd (evaluate p now False outputs))). req_output r \<noteq> ps_output s) \<and>
         (\<forall>r \<in> set (snd (note_activity p now)). req_output r \<noteq> ps_output s)"
  using assms evaluate_running_fields(9) [OF assms(2), of now outputs]
    toggle_now_phone [OF assms(1)] note_activity_phone [OF assms(1)]
  by (auto simp: blankable_def phone_output_def split: if_splits)

lemma evaluate_lock_due:
  assumes "screen_off_lock_at p = Some at" "at \<le> t"
  shows "act_lock (snd (evaluate p t is_inhibited outputs))"
  using assms
  by (cases is_inhibited)
    (simp_all add: evaluate_running Let_def take_screen_off_lock_def evaluate_def
      evaluate_inhibited_def case_prod_beta)

text \<open>
  The dark screen locks on time. With a screen-off delay configured, the power button
  does not lock at once; but from the end of the delay on, the next evaluation locks, whether or
  not playback inhibits idling, and an inhibited evaluation before that does not.
\<close>
lemma screen_off_locks_on_time:
  assumes "phone p = None" "list_ex snd outputs" "screen_off_lock_at p = None"
    and "lock_after_screen_off (configuration p) = Some delay" "0 < delay"
    and "toggle_now p outputs now = (p1, a)"
  shows "\<not> act_lock a \<and>
         (instant_add now delay \<le> t \<longrightarrow> act_lock (snd (evaluate p1 t is_inhibited outputs'))) \<and>
         (t < instant_add now delay \<longrightarrow> \<not> act_lock (snd (evaluate p1 t True outputs')))"
proof -
  have "screen_off_lock_at p1 = Some (instant_add now delay)" and "\<not> act_lock a"
    using assms
    by (auto simp: toggle_now_def Let_def blank_now_def screen_went_off_def reset_idle_interval_def
        case_prod_beta)
  then show ?thesis
    using evaluate_lock_due [of p1]
    by (auto simp: evaluate_def evaluate_inhibited_def take_screen_off_lock_def Let_def case_prod_beta)
qed

end
