(* ===== verification/Power_Button.thy ===== *)
theory Power_Button
  imports Denial_Base
begin

text \<open>
  The physical power button and its screenshot chord with Volume Down: \<open>PowerButton\<close> of
  \<^verbatim>\<open>idle_policy.rs\<close>, and the routing of the Volume Down key by
  \<^verbatim>\<open>wayland_frontend/input.rs\<close> (\<open>process_input_event\<close> and \<open>hold_back_volume_down\<close>), which
  turns a route into the key transitions that the seat sees.

  The lemmas follow the two promises of the source: a release or a repeated press never
  reverses a requested transition, and the seat sees Volume Down presses and releases in
  alternation. The second promise fails when Power is pressed again while a Volume Down that
  a screenshot already took is still held; \<open>second_chord_orphan_release\<close> is that run.
\<close>

section \<open>State and operations\<close>

record power_button =
  held_devices :: "string set"
  toggle_pending :: bool
  volume_down_held :: bool
  volume_down_held_back :: bool
  volume_down_taken :: bool
  screenshot_requested :: bool

definition PowerButton_default :: power_button where
  "PowerButton_default = \<lparr>held_devices = {}, toggle_pending = False, volume_down_held = False,
     volume_down_held_back = False, volume_down_taken = False, screenshot_requested = False\<rparr>"

datatype volume_down_route = Deliver | Take | HoldBack | DeliverHeldPress

definition note_key :: "power_button \<Rightarrow> string \<Rightarrow> bool \<Rightarrow> bool \<Rightarrow> power_button" where
  "note_key pb device pressed chords =
     (if pressed then
        (if device \<notin> held_devices pb then
           (let pb = pb\<lparr>held_devices := insert device (held_devices pb)\<rparr>
            in if chords \<and> volume_down_held pb
               then pb\<lparr>screenshot_requested := True,
                       volume_down_taken := volume_down_held_back pb,
                       volume_down_held_back := False\<rparr>
               else pb\<lparr>toggle_pending := \<not> toggle_pending pb\<rparr>)
         else pb)
      else pb\<lparr>held_devices := held_devices pb - {device}\<rparr>)"

definition note_volume_down ::
  "power_button \<Rightarrow> bool \<Rightarrow> bool \<Rightarrow> power_button \<times> volume_down_route" where
  "note_volume_down pb pressed chords =
     (if \<not> pressed then
        (let pb = pb\<lparr>volume_down_held := False\<rparr>
         in if volume_down_taken pb then (pb\<lparr>volume_down_taken := False\<rparr>, Take)
            else if volume_down_held_back pb
            then (pb\<lparr>volume_down_held_back := False\<rparr>, DeliverHeldPress)
            else (pb, Deliver))
      else
        (let pb = pb\<lparr>volume_down_held := True\<rparr>
         in if \<not> chords then (pb, Deliver)
            else if held_devices pb \<noteq> {}
            then (pb\<lparr>toggle_pending := False, screenshot_requested := True,
                     volume_down_taken := True\<rparr>, Take)
            else (pb\<lparr>volume_down_held_back := True\<rparr>, HoldBack)))"

definition take_held_volume_down :: "power_button \<Rightarrow> power_button \<times> bool" where
  "take_held_volume_down pb =
     (pb\<lparr>volume_down_held_back := False\<rparr>, volume_down_held_back pb)"

definition remove_device :: "power_button \<Rightarrow> string \<Rightarrow> power_button" where
  "remove_device pb device = pb\<lparr>held_devices := held_devices pb - {device}\<rparr>"

definition take_toggle :: "power_button \<Rightarrow> bool \<Rightarrow> power_button \<times> bool" where
  "take_toggle pb wait_for_release =
     (if wait_for_release \<and> held_devices pb \<noteq> {} then (pb, False)
      else (pb\<lparr>toggle_pending := False\<rparr>, toggle_pending pb))"

definition take_screenshot :: "power_button \<Rightarrow> power_button \<times> bool" where
  "take_screenshot pb = (pb\<lparr>screenshot_requested := False\<rparr>, screenshot_requested pb)"

lemmas power_button_defs = note_key_def note_volume_down_def take_held_volume_down_def
  remove_device_def take_toggle_def take_screenshot_def

section \<open>What the seat sees\<close>

datatype seat_key = SeatPress | SeatRelease

text \<open>
  The \<open>match\<close> on the route in \<open>process_input_event\<close>: \<open>Deliver\<close> falls through to
  \<open>process_keyboard_transition\<close> with the event's own state.
\<close>

fun route_transitions :: "bool \<Rightarrow> volume_down_route \<Rightarrow> seat_key list" where
  "route_transitions pressed Deliver = [if pressed then SeatPress else SeatRelease]"
| "route_transitions pressed Take = []"
| "route_transitions pressed HoldBack = []"
| "route_transitions pressed DeliverHeldPress = [SeatPress, SeatRelease]"

datatype button_event =
    PowerKey string bool
  | VolumeDown bool
  | HoldTimer
  | DeviceRemoved string
  | Poll bool

fun button_step :: "bool \<Rightarrow> power_button \<Rightarrow> button_event \<Rightarrow> power_button \<times> seat_key list" where
  "button_step chords pb (PowerKey device pressed) = (note_key pb device pressed chords, [])"
| "button_step chords pb (VolumeDown pressed) =
     (case note_volume_down pb pressed chords of (pb', route) \<Rightarrow>
        (pb', route_transitions pressed route))"
| "button_step chords pb HoldTimer =
     (case take_held_volume_down pb of (pb', held) \<Rightarrow> (pb', if held then [SeatPress] else []))"
| "button_step chords pb (DeviceRemoved device) = (remove_device pb device, [])"
| "button_step chords pb (Poll wait) = (fst (take_toggle (fst (take_screenshot pb)) wait), [])"

fun button_run :: "bool \<Rightarrow> power_button \<Rightarrow> button_event list \<Rightarrow> power_button \<times> seat_key list" where
  "button_run chords pb [] = (pb, [])"
| "button_run chords pb (e # es) =
     (case button_step chords pb e of (pb', out) \<Rightarrow>
        (case button_run chords pb' es of (pb'', out') \<Rightarrow> (pb'', out @ out')))"

text \<open>Presses and releases alternate; \<open>down\<close> says whether the seat holds the key now.\<close>

fun alternates :: "bool \<Rightarrow> seat_key list \<Rightarrow> bool" where
  "alternates down [] = True"
| "alternates down (SeatPress # ks) = (\<not> down \<and> alternates True ks)"
| "alternates down (SeatRelease # ks) = (down \<and> alternates False ks)"

text \<open>
  The input side: the physical Volume Down key alternates too (\<open>held\<close> is its state), and no
  new power press comes while the held Volume Down already went to a screenshot.
\<close>

fun one_chord_per_hold :: "bool \<Rightarrow> power_button \<Rightarrow> button_event list \<Rightarrow> bool" where
  "one_chord_per_hold chords pb [] = True"
| "one_chord_per_hold chords pb (e # es) =
     ((case e of
         VolumeDown pressed \<Rightarrow> pressed \<noteq> volume_down_held pb
       | PowerKey device pressed \<Rightarrow>
           pressed \<longrightarrow> device \<in> held_devices pb \<or> \<not> volume_down_taken pb
       | _ \<Rightarrow> True) \<and>
      one_chord_per_hold chords (fst (button_step chords pb e)) es)"

section \<open>The toggle\<close>

lemma note_key_release_keeps_request:
  "toggle_pending (note_key pb device False chords) = toggle_pending pb"
  by (simp add: note_key_def)

lemma note_key_repeat_is_noop:
  "device \<in> held_devices pb \<Longrightarrow> note_key pb device True chords = pb"
  by (simp add: note_key_def)

text \<open>A power key's fresh presses, in order, with the set of devices that hold the button.\<close>

fun fresh_presses :: "string set \<Rightarrow> button_event list \<Rightarrow> nat" where
  "fresh_presses held [] = 0"
| "fresh_presses held (PowerKey device pressed # es) =
     (if pressed then (if device \<in> held then 0 else 1) + fresh_presses (insert device held) es
      else fresh_presses (held - {device}) es)"
| "fresh_presses held (DeviceRemoved device # es) = fresh_presses (held - {device}) es"
| "fresh_presses held (_ # es) = fresh_presses held es"

definition is_poll :: "button_event \<Rightarrow> bool" where
  "is_poll e = (case e of Poll _ \<Rightarrow> True | _ \<Rightarrow> False)"

lemma toggle_pending_parity:
  assumes "\<forall>e \<in> set es. \<not> is_poll e"
  shows "toggle_pending (fst (button_run False pb es)) =
           (toggle_pending pb \<noteq> odd (fresh_presses (held_devices pb) es))"
  using assms
proof (induction es arbitrary: pb)
  case Nil
  then show ?case by simp
next
  case (Cons e es)
  obtain pb' out where s: "button_step False pb e = (pb', out)" by fastforce
  have IH: "toggle_pending (fst (button_run False pb' es)) =
      (toggle_pending pb' \<noteq> odd (fresh_presses (held_devices pb') es))"
    using Cons by simp
  have "fst (button_run False pb (e # es)) = fst (button_run False pb' es)"
    by (simp add: s split: prod.splits)
  with IH s Cons.prems show ?case
    by (cases e) (auto simp: power_button_defs Let_def is_poll_def insert_absorb split: if_splits)
qed

section \<open>The chord\<close>

text \<open>
  The invariant behind the alternation: while Volume Down is up nothing is pending, and while
  it is down its press is in exactly one place: held back, taken, or at the seat (\<open>down\<close>).
\<close>

definition seat_inv :: "power_button \<Rightarrow> bool \<Rightarrow> bool" where
  "seat_inv pb down \<longleftrightarrow>
     (if volume_down_held pb
      then (volume_down_held_back pb \<and> \<not> volume_down_taken pb \<and> \<not> down) \<or>
           (\<not> volume_down_held_back pb \<and> volume_down_taken pb \<and> \<not> down) \<or>
           (\<not> volume_down_held_back pb \<and> \<not> volume_down_taken pb \<and> down)
      else \<not> volume_down_held_back pb \<and> \<not> volume_down_taken pb \<and> \<not> down)"

fun seat_after :: "bool \<Rightarrow> seat_key list \<Rightarrow> bool" where
  "seat_after down [] = down"
| "seat_after down (k # ks) = seat_after (k = SeatPress) ks"

lemma alternates_append:
  "alternates down (xs @ ys) \<longleftrightarrow> alternates down xs \<and> alternates (seat_after down xs) ys"
  by (induction down xs rule: alternates.induct) auto

lemma seat_inv_step:
  assumes "seat_inv pb down" "one_chord_per_hold chords pb (e # es)"
    and "button_step chords pb e = (pb', out)"
  shows "alternates down out \<and> seat_inv pb' (seat_after down out)"
  using assms
  by (cases e) (auto simp: seat_inv_def power_button_defs Let_def split: if_splits)

lemma button_run_alternates:
  "seat_inv pb down \<Longrightarrow> one_chord_per_hold chords pb es \<Longrightarrow>
     alternates down (snd (button_run chords pb es))"
proof (induction es arbitrary: pb down)
  case Nil
  then show ?case by simp
next
  case (Cons e es)
  obtain pb' out where s: "button_step chords pb e = (pb', out)" by fastforce
  from seat_inv_step [OF Cons.prems s]
  have out: "alternates down out" "seat_inv pb' (seat_after down out)" by auto
  moreover have "one_chord_per_hold chords pb' es" using Cons.prems(2) s by simp
  ultimately have "alternates (seat_after down out) (snd (button_run chords pb' es))"
    using Cons.IH by blast
  with out(1) s show ?case by (auto simp: alternates_append split: prod.splits)
qed

lemma seat_inv_default: "seat_inv PowerButton_default False"
  by (simp add: seat_inv_def PowerButton_default_def)

section \<open>Properties\<close>

text \<open>
  Power button toggle. Outside the mobile shell, between two polls of the event
  loop, the pending display toggle is flipped exactly once for every fresh press of a power
  key: releases, repeats of a held key, and Volume Down never change it.
\<close>
lemma power_toggle_is_parity_of_fresh_presses:
  assumes "\<forall>e \<in> set es. \<not> is_poll e"
  shows "toggle_pending (fst (button_run False PowerButton_default es)) =
           odd (fresh_presses {} es)"
  using toggle_pending_parity [OF assms, of PowerButton_default]
  by (simp add: PowerButton_default_def)

text \<open>
  Seat balance. As long as a Volume Down hold makes at most one screenshot chord,
  the Volume Down transitions that reach the seat alternate, press first: a press that was
  held back or taken never leaves an orphan release, and no press is delivered twice, for
  every interleaving with the power key, the hold-back timer and hotplug.
\<close>
lemma volume_down_transitions_alternate:
  assumes "one_chord_per_hold chords PowerButton_default es"
  shows "alternates False (snd (button_run chords PowerButton_default es))"
  by (rule button_run_alternates [OF seat_inv_default assms])

text \<open>
  Orphan release. The limit of the previous property is real: when Power is pressed
  a second time while a Volume Down that already went to a screenshot is still held, the second
  press clears \<open>volume_down_taken\<close>, and the seat sees a release without any press, although
  the field's comment promises that the release goes where the press went.
\<close>
lemma second_chord_orphan_release:
  "snd (button_run True PowerButton_default
      [VolumeDown True, PowerKey ''event0'' True, PowerKey ''event0'' False,
       PowerKey ''event0'' True, VolumeDown False]) = [SeatRelease]"
  by (simp add: PowerButton_default_def power_button_defs Let_def)

end
