(* ===== verification/Sleep_Transition.thy ===== *)
theory Sleep_Transition
  imports Idle_Policy
begin

text \<open>
  Sleep preparation and resume (\<open>SleepTransitionState\<close> of \<^verbatim>\<open>sleep_transition.rs\<close>). \<open>prepare\<close>
  remembers which outputs to restore and blanks every output that is lit or about to be lit,
  \<open>take_delay_release_if_blanked\<close> releases logind's delay inhibitor once they are dark, and
  \<open>resume\<close> restores them. An output is given by its identifier, whether it is powered, and the
  power request still queued for it, if any. The callers, which lock the session and talk to
  logind, are outside the model.
\<close>

record sleep_transition =
  restore_outputs :: "output_id set"
  blanking_outputs :: "output_id set"
  preparing :: bool
  delay_release_pending :: bool

definition SleepTransition_default :: sleep_transition where
  "SleepTransition_default = \<lparr>restore_outputs = {}, blanking_outputs = {}, preparing = False,
     delay_release_pending = False\<rparr>"

text \<open>The body of the loop of \<open>prepare\<close>: \<open>restore = pending_power.unwrap_or(powered)\<close>.\<close>

fun prepare_output :: "sleep_transition \<Rightarrow> output_id \<times> bool \<times> bool option \<Rightarrow> sleep_transition" where
  "prepare_output s (x, powered, pending_power) =
     (let restore = (case pending_power of None \<Rightarrow> powered | Some on \<Rightarrow> on);
          s = (if restore then s\<lparr>restore_outputs := insert x (restore_outputs s)\<rparr> else s)
      in if powered \<or> restore then s\<lparr>blanking_outputs := insert x (blanking_outputs s)\<rparr> else s)"

definition prepare ::
  "sleep_transition \<Rightarrow> (output_id \<times> bool \<times> bool option) list \<Rightarrow>
     sleep_transition \<times> power_request list" where
  "prepare s outputs =
     (if preparing s then (s, [])
      else
        let s = s\<lparr>preparing := True, delay_release_pending := True, restore_outputs := {},
                  blanking_outputs := {}\<rparr>;
            s = foldl prepare_output s outputs
        in (s, map power_off (sorted_list_of_set (blanking_outputs s))))"

definition resume :: "sleep_transition \<Rightarrow> sleep_transition \<times> power_request list" where
  "resume s =
     (s\<lparr>preparing := False, delay_release_pending := False, blanking_outputs := {},
        restore_outputs := {}\<rparr>,
      map power_on (sorted_list_of_set (restore_outputs s)))"

definition take_delay_release_if_blanked ::
  "sleep_transition \<Rightarrow> (output_id \<times> bool) list \<Rightarrow> sleep_transition \<times> bool" where
  "take_delay_release_if_blanked s outputs =
     (if \<not> delay_release_pending s then (s, False)
      else
        let powered = {x. (x, True) \<in> set outputs}
        in if blanking_outputs s \<inter> powered \<noteq> {} then (s, False)
           else (s\<lparr>delay_release_pending := False\<rparr>, True))"

section \<open>Sleeping and waking\<close>

text \<open>The outputs that are lit once every queued request is applied, and those ever lit.\<close>

definition lit_after_requests :: "(output_id \<times> bool \<times> bool option) list \<Rightarrow> output_id set" where
  "lit_after_requests outputs =
     {x. \<exists>powered pending. (x, powered, pending) \<in> set outputs \<and>
          (case pending of None \<Rightarrow> powered | Some on \<Rightarrow> on)}"

definition lit_now :: "(output_id \<times> bool \<times> bool option) list \<Rightarrow> output_id set" where
  "lit_now outputs = {x. \<exists>pending. (x, True, pending) \<in> set outputs}"

lemma lit_Nil [simp]: "lit_after_requests [] = {}" "lit_now [] = {}"
  by (simp_all add: lit_after_requests_def lit_now_def)

lemma lit_Cons:
  "lit_after_requests (out1 # outputs) = lit_after_requests [out1] \<union> lit_after_requests outputs"
  "lit_now (out1 # outputs) = lit_now [out1] \<union> lit_now outputs"
  by (auto simp: lit_after_requests_def lit_now_def)

lemma lit_single:
  "lit_after_requests [(x, powered, pending)] =
     (if (case pending of None \<Rightarrow> powered | Some on \<Rightarrow> on) then {x} else {})"
  "lit_now [(x, powered, pending)] = (if powered then {x} else {})"
  by (auto simp: lit_after_requests_def lit_now_def)

lemma prepare_output_fields:
  "restore_outputs (prepare_output s out1) = restore_outputs s \<union> lit_after_requests [out1]"
  "blanking_outputs (prepare_output s out1) =
     blanking_outputs s \<union> (lit_after_requests [out1] \<union> lit_now [out1])"
  "preparing (prepare_output s out1) = preparing s"
  "delay_release_pending (prepare_output s out1) = delay_release_pending s"
  by (cases out1; simp add: Let_def lit_single)+

lemma foldl_prepare_output:
  "restore_outputs (foldl prepare_output s outputs) =
     restore_outputs s \<union> lit_after_requests outputs"
  "blanking_outputs (foldl prepare_output s outputs) =
     blanking_outputs s \<union> (lit_after_requests outputs \<union> lit_now outputs)"
  "preparing (foldl prepare_output s outputs) = preparing s"
  "delay_release_pending (foldl prepare_output s outputs) = delay_release_pending s"
proof (induction outputs arbitrary: s)
  case (Cons out1 outputs)
  {
    case 1
    show ?case using Cons.IH(1) [of "prepare_output s out1"]
      by (simp add: prepare_output_fields lit_Cons [of out1 outputs] Un_assoc)
  next
    case 2
    show ?case using Cons.IH(2) [of "prepare_output s out1"]
      by (simp add: prepare_output_fields lit_Cons [of out1 outputs] Un_ac)
  next
    case 3
    show ?case using Cons.IH(3) by (simp add: prepare_output_fields)
  next
    case 4
    show ?case using Cons.IH(4) by (simp add: prepare_output_fields)
  }
qed simp_all

lemma finite_lit [simp]: "finite (lit_after_requests outputs)" "finite (lit_now outputs)"
  by (rule finite_subset [of _ "fst ` set outputs"];
      force simp: lit_after_requests_def lit_now_def)+

datatype sleep_event = SleepPrepare "(output_id \<times> bool \<times> bool option) list"
  | SleepPoll "(output_id \<times> bool) list" | SleepResume

text \<open>One event; the result says whether the delay inhibitor was released.\<close>

fun sleep_step :: "sleep_transition \<Rightarrow> sleep_event \<Rightarrow> sleep_transition \<times> bool" where
  "sleep_step s (SleepPrepare outputs) = (fst (prepare s outputs), False)"
| "sleep_step s (SleepPoll outputs) = take_delay_release_if_blanked s outputs"
| "sleep_step s SleepResume = (fst (resume s), False)"

fun releases :: "sleep_transition \<Rightarrow> sleep_event list \<Rightarrow> nat" where
  "releases s [] = 0"
| "releases s (e # es) =
     (if snd (sleep_step s e) then 1 else 0) + releases (fst (sleep_step s e)) es"

definition is_resume :: "sleep_event \<Rightarrow> bool" where
  "is_resume e = (e = SleepResume)"

lemma releases_while_preparing:
  assumes "preparing s" "\<forall>e \<in> set es. \<not> is_resume e"
  shows "releases s es \<le> (if delay_release_pending s then 1 else 0)"
  using assms
proof (induction es arbitrary: s)
  case Nil
  then show ?case by simp
next
  case (Cons e es)
  have p: "preparing (fst (sleep_step s e))"
    and d: "delay_release_pending (fst (sleep_step s e)) =
              (delay_release_pending s \<and> \<not> snd (sleep_step s e))"
    and r: "snd (sleep_step s e) \<Longrightarrow> delay_release_pending s"
    using Cons.prems
    by (cases e; simp add: prepare_def take_delay_release_if_blanked_def is_resume_def Let_def
        split: if_splits)+
  have "releases (fst (sleep_step s e)) es \<le>
      (if delay_release_pending (fst (sleep_step s e)) then 1 else 0)"
    using Cons.IH [OF p] Cons.prems(2) by simp
  with d r show ?case by (cases "snd (sleep_step s e)") auto
qed

section \<open>Properties\<close>

text \<open>
  Sleep and wake. A fresh preparation asks to turn off exactly the outputs that are
  lit or about to be lit, and the matching resume asks to turn on exactly the outputs that would
  have been lit had the machine not slept (a queued request wins over the current state), each
  once and in ascending order, and returns to the idle state.
\<close>
lemma sleep_restores_the_lit_outputs:
  assumes "\<not> preparing s" "prepare s outputs = (s1, off)" "resume s1 = (s2, on)"
  shows "off = map power_off (sorted_list_of_set (lit_after_requests outputs \<union> lit_now outputs)) \<and>
         on = map power_on (sorted_list_of_set (lit_after_requests outputs)) \<and>
         s2 = SleepTransition_default"
  using assms
  by (auto simp: prepare_def resume_def Let_def foldl_prepare_output SleepTransition_default_def)

text \<open>
  Delay inhibitor. Whatever is polled, and however often sleep is announced again,
  one sleep preparation releases the logind delay inhibitor at most once before the resume; and
  a release happens only when no output that the preparation blanked is still powered.
\<close>
lemma delay_released_at_most_once:
  assumes "\<not> preparing s" "\<forall>e \<in> set es. \<not> is_resume e"
  shows "releases (fst (prepare s outputs)) es \<le> 1 \<and>
         (snd (take_delay_release_if_blanked s' polled) \<longrightarrow>
            (\<forall>x \<in> blanking_outputs s'. (x, True) \<notin> set polled))"
proof -
  have "preparing (fst (prepare s outputs))"
    using assms(1) by (simp add: prepare_def Let_def foldl_prepare_output)
  from releases_while_preparing [OF this assms(2)] show ?thesis
    by (auto simp: take_delay_release_if_blanked_def split: if_splits)
qed

end
