(* ===== verification/Screen_Off_Touch.thy ===== *)
theory Screen_Off_Touch
  imports Denial_Base
begin

text \<open>
  The touch filter of a dark display (\<open>Filter\<close> of \<^verbatim>\<open>screen_off_touch.rs\<close>). A contact that
  starts on a dark panel is remembered by device and slot, so that none of its later events
  reaches the user interface after an independent wake.

  \<open>touch_run\<close> replays a sequence of touch events, power changes and device removals and returns
  the events that pass. The hypothesis \<open>contacts_ok\<close> is what the kernel guarantees: a slot moves
  or lifts only while it is down.
\<close>

section \<open>The filter\<close>

datatype touch_event = Down int | Motion int | Up int | Cancel | Frame

record touch_filter =
  held :: "(string \<times> int) set"
  dark :: bool

definition Filter_default :: touch_filter where
  "Filter_default = \<lparr>held = {}, dark = False\<rparr>"

definition remove_touch_device :: "touch_filter \<Rightarrow> string \<Rightarrow> touch_filter" where
  "remove_touch_device f device = f\<lparr>held := {c \<in> held f. fst c \<noteq> device}\<rparr>"

definition set_dark :: "touch_filter \<Rightarrow> bool \<Rightarrow> touch_filter" where
  "set_dark f is_dark = f\<lparr>dark := is_dark\<rparr>"

definition suppress ::
  "touch_filter \<Rightarrow> string \<Rightarrow> touch_event \<Rightarrow> bool \<Rightarrow> touch_filter \<times> bool" where
  "suppress f device event powered =
     (let lit = (powered \<and> \<not> dark f);
          blocked = (device \<in> fst ` held f);
          down_or_motion = (\<lambda>slot.
            if \<not> lit \<or> blocked then (f\<lparr>held := insert (device, slot) (held f)\<rparr>, True)
            else (f, False))
      in case event of
           Down slot \<Rightarrow> down_or_motion slot
         | Motion slot \<Rightarrow> down_or_motion slot
         | Up slot \<Rightarrow>
             (f\<lparr>held := held f - {(device, slot)}\<rparr>, (device, slot) \<in> held f \<or> \<not> lit)
         | Cancel \<Rightarrow> (remove_touch_device f device, blocked \<or> \<not> lit)
         | Frame \<Rightarrow> (f, blocked \<or> \<not> lit))"

section \<open>Event sequences\<close>

datatype touch_input = Touch string touch_event bool | SetDark bool | RemoveTouchDevice string

fun touch_step :: "touch_filter \<Rightarrow> touch_input \<Rightarrow> touch_filter \<times> (string \<times> touch_event) list" where
  "touch_step f (Touch device event powered) =
     (case suppress f device event powered of (f', suppressed) \<Rightarrow>
        (f', if suppressed then [] else [(device, event)]))"
| "touch_step f (SetDark d) = (set_dark f d, [])"
| "touch_step f (RemoveTouchDevice device) = (remove_touch_device f device, [])"

fun touch_run ::
  "touch_filter \<Rightarrow> touch_input list \<Rightarrow> touch_filter \<times> (string \<times> touch_event) list" where
  "touch_run f [] = (f, [])"
| "touch_run f (i # is) =
     (case touch_step f i of (f', out) \<Rightarrow>
        (case touch_run f' is of (f'', out') \<Rightarrow> (f'', out @ out')))"

text \<open>The contacts that are physically down after an input.\<close>

fun contacts_after :: "(string \<times> int) set \<Rightarrow> touch_input \<Rightarrow> (string \<times> int) set" where
  "contacts_after cs (Touch device (Down slot) _) = insert (device, slot) cs"
| "contacts_after cs (Touch device (Motion slot) _) = cs"
| "contacts_after cs (Touch device (Up slot) _) = cs - {(device, slot)}"
| "contacts_after cs (Touch device Cancel _) = {c \<in> cs. fst c \<noteq> device}"
| "contacts_after cs (Touch device Frame _) = cs"
| "contacts_after cs (SetDark _) = cs"
| "contacts_after cs (RemoveTouchDevice device) = {c \<in> cs. fst c \<noteq> device}"

fun contact_ok :: "(string \<times> int) set \<Rightarrow> touch_input \<Rightarrow> bool" where
  "contact_ok cs (Touch device (Motion slot) _) = ((device, slot) \<in> cs)"
| "contact_ok cs (Touch device (Up slot) _) = ((device, slot) \<in> cs)"
| "contact_ok cs _ = True"

fun contacts_ok :: "(string \<times> int) set \<Rightarrow> touch_input list \<Rightarrow> bool" where
  "contacts_ok cs [] = True"
| "contacts_ok cs (i # is) = (contact_ok cs i \<and> contacts_ok (contacts_after cs i) is)"

text \<open>
  What the user interface accepts: a motion or a lift only of a contact whose touch-down it saw
  (\<open>seen\<close>); a cancel ends every contact of its device.
\<close>

fun ui_accepts :: "(string \<times> int) set \<Rightarrow> string \<times> touch_event \<Rightarrow> bool" where
  "ui_accepts seen (device, Motion slot) = ((device, slot) \<in> seen)"
| "ui_accepts seen (device, Up slot) = ((device, slot) \<in> seen)"
| "ui_accepts seen (device, _) = True"

fun ui_seen :: "(string \<times> int) set \<Rightarrow> string \<times> touch_event \<Rightarrow> (string \<times> int) set" where
  "ui_seen seen (device, Down slot) = insert (device, slot) seen"
| "ui_seen seen (device, Up slot) = seen - {(device, slot)}"
| "ui_seen seen (device, Cancel) = {c \<in> seen. fst c \<noteq> device}"
| "ui_seen seen (device, _) = seen"

fun ui_ok :: "(string \<times> int) set \<Rightarrow> (string \<times> touch_event) list \<Rightarrow> bool" where
  "ui_ok seen [] = True"
| "ui_ok seen (e # es) = (ui_accepts seen e \<and> ui_ok (ui_seen seen e) es)"

text \<open>
  The invariant: every contact that is down is either remembered by the filter or was seen by
  the user interface. A suppressed event keeps it, and so does an event that passes.
\<close>

lemma suppressed_event:
  assumes "cs \<subseteq> held f \<union> seen" "suppress f device event powered = (f', True)"
  shows "contacts_after cs (Touch device event powered) \<subseteq> held f' \<union> seen"
  using assms by (cases event) (auto simp: suppress_def remove_touch_device_def Let_def split: if_splits)

lemma passed_event:
  assumes "cs \<subseteq> held f \<union> seen" "suppress f device event powered = (f', False)"
    and "contact_ok cs (Touch device event powered)"
  shows "ui_accepts seen (device, event) \<and>
         contacts_after cs (Touch device event powered) \<subseteq> held f' \<union> ui_seen seen (device, event)"
  using assms
  by (cases event)
    (auto simp: suppress_def remove_touch_device_def Let_def image_iff split: if_splits, force+)

lemma touch_run_ui_ok:
  "cs \<subseteq> held f \<union> seen \<Longrightarrow> contacts_ok cs is \<Longrightarrow> ui_ok seen (snd (touch_run f is))"
proof (induction "is" arbitrary: cs f seen)
  case Nil
  then show ?case by simp
next
  case (Cons i "is")
  note inv = Cons.prems(1)
  have ok: "contact_ok cs i" and rest: "contacts_ok (contacts_after cs i) is"
    using Cons.prems(2) by simp_all
  show ?case
  proof (cases i)
    case (Touch device event powered)
    obtain f' s where sup: "suppress f device event powered = (f', s)" by fastforce
    show ?thesis
    proof (cases s)
      case True
      with suppressed_event [OF inv] sup have "contacts_after cs i \<subseteq> held f' \<union> seen"
        by (simp add: Touch)
      from Cons.IH [OF this rest] show ?thesis by (simp add: Touch sup True case_prod_beta)
    next
      case False
      with passed_event [OF inv] sup ok
      have "ui_accepts seen (device, event)"
        and "contacts_after cs i \<subseteq> held f' \<union> ui_seen seen (device, event)"
        by (simp_all add: Touch)
      with Cons.IH [OF this(2) rest] show ?thesis by (simp add: Touch sup False case_prod_beta)
    qed
  next
    case (SetDark d)
    have "contacts_after cs i \<subseteq> held (set_dark f d) \<union> seen"
      using inv by (simp add: SetDark set_dark_def)
    from Cons.IH [OF this rest] show ?thesis by (simp add: SetDark case_prod_beta)
  next
    case (RemoveTouchDevice device)
    have "contacts_after cs i \<subseteq> held (remove_touch_device f device) \<union> seen"
      using inv by (auto simp: RemoveTouchDevice remove_touch_device_def)
    from Cons.IH [OF this rest] show ?thesis by (simp add: RemoveTouchDevice case_prod_beta)
  qed
qed

section \<open>Properties\<close>

text \<open>
  No orphan touch. For every interleaving of touches, power changes and hotplug in
  which slots move and lift only while they are down, the user interface never receives a motion
  or a lift of a contact whose touch-down it did not receive: a finger that was on the panel
  while it was dark stays invisible until it is lifted.
\<close>
lemma dark_touches_never_reach_the_ui:
  assumes "contacts_ok {} is"
  shows "ui_ok {} (snd (touch_run Filter_default is))"
  by (rule touch_run_ui_ok [OF _ assms]) simp

end
