(* ===== verification/Dpms_Guard.thy ===== *)
theory Dpms_Guard
  imports Denial_Base
begin

text \<open>
  \<open>DpmsTopologyGuard\<close> of \<^verbatim>\<open>dpms.rs\<close>: a display that is switched off, or that is waking up, may
  drop off the connector for a while. The guard defers such a removal, but never one that cannot
  be explained by display power.
\<close>

section \<open>The guard\<close>

definition DPMS_WAKE_TOPOLOGY_GRACE :: duration where
  "DPMS_WAKE_TOPOLOGY_GRACE = from_secs 5"

record dpms_topology_guard =
  parked_outputs :: "output_id set"
  waking_outputs :: "output_id set"
  wake_grace_until :: "instant option"
  deferred_removal :: bool

definition Guard_default :: dpms_topology_guard where
  "Guard_default = \<lparr>parked_outputs = {}, waking_outputs = {}, wake_grace_until = None,
     deferred_removal = False\<rparr>"

record deferred_dpms_topology =
  missing_outputs :: nat
  grace_until :: "instant option"
  first_observation :: bool

definition note_powered_off :: "dpms_topology_guard \<Rightarrow> output_id \<Rightarrow> dpms_topology_guard" where
  "note_powered_off g x =
     (let g = g\<lparr>waking_outputs := waking_outputs g - {x},
                parked_outputs := insert x (parked_outputs g)\<rparr>
      in if waking_outputs g = {} then g\<lparr>wake_grace_until := None\<rparr> else g)"

definition note_wake :: "dpms_topology_guard \<Rightarrow> output_id \<Rightarrow> instant \<Rightarrow> dpms_topology_guard" where
  "note_wake g x now =
     g\<lparr>parked_outputs := parked_outputs g - {x}, waking_outputs := insert x (waking_outputs g),
       wake_grace_until := Some (instant_add now DPMS_WAKE_TOPOLOGY_GRACE)\<rparr>"

definition expire_wake_grace :: "dpms_topology_guard \<Rightarrow> instant \<Rightarrow> dpms_topology_guard" where
  "expire_wake_grace g now =
     (if option_is_some_and (wake_grace_until g) (\<lambda>deadline. deadline \<le> now)
      then g\<lparr>waking_outputs := {}, wake_grace_until := None, deferred_removal := False\<rparr>
      else g)"

definition defer_missing_outputs ::
  "dpms_topology_guard \<Rightarrow> instant \<Rightarrow> output_id set \<Rightarrow> output_id set \<Rightarrow>
     dpms_topology_guard \<times> deferred_dpms_topology option" where
  "defer_missing_outputs g now current observed =
     (let g = expire_wake_grace g now;
          missing = current - observed
      in if missing = {} then (g\<lparr>deferred_removal := False\<rparr>, None)
         else if observed - current \<noteq> {} \<or>
                 missing - parked_outputs g - waking_outputs g \<noteq> {}
         then (Guard_default, None)
         else
           (g\<lparr>deferred_removal := True\<rparr>,
            Some \<lparr>missing_outputs = card missing,
                  grace_until = (if missing \<inter> waking_outputs g \<noteq> {}
                                 then wake_grace_until g else None),
                  first_observation = \<not> deferred_removal g\<rparr>))"

definition service_deadline :: "dpms_topology_guard \<Rightarrow> instant \<Rightarrow> dpms_topology_guard \<times> bool" where
  "service_deadline g now =
     (if option_is_none_or (wake_grace_until g) (\<lambda>deadline. now < deadline) then (g, False)
      else (g\<lparr>waking_outputs := {}, wake_grace_until := None, deferred_removal := False\<rparr>,
            deferred_removal g))"

definition guard_dispatch_timeout ::
  "dpms_topology_guard \<Rightarrow> instant \<Rightarrow> duration \<Rightarrow> duration" where
  "guard_dispatch_timeout g now timeout =
     (if \<not> deferred_removal g then timeout
      else (case wake_grace_until g of
              None \<Rightarrow> timeout
            | Some deadline \<Rightarrow> min timeout (saturating_duration_since deadline now)))"

section \<open>Invariant\<close>

definition guard_inv :: "dpms_topology_guard \<Rightarrow> bool" where
  "guard_inv g \<longleftrightarrow> parked_outputs g \<inter> waking_outputs g = {} \<and>
     (wake_grace_until g = None \<longleftrightarrow> waking_outputs g = {})"

datatype guard_event = PoweredOff output_id | Wake output_id instant
  | Observe instant "output_id set" "output_id set" | Service instant

fun guard_step :: "dpms_topology_guard \<Rightarrow> guard_event \<Rightarrow> dpms_topology_guard" where
  "guard_step g (PoweredOff x) = note_powered_off g x"
| "guard_step g (Wake x now) = note_wake g x now"
| "guard_step g (Observe now current observed) = fst (defer_missing_outputs g now current observed)"
| "guard_step g (Service now) = fst (service_deadline g now)"

inductive guard_reachable :: "dpms_topology_guard \<Rightarrow> bool" where
  guard_start: "guard_reachable Guard_default"
| guard_more: "guard_reachable g \<Longrightarrow> guard_reachable (guard_step g e)"

lemma guard_inv_default: "guard_inv Guard_default"
  by (simp add: guard_inv_def Guard_default_def)

lemma expire_inv: "guard_inv g \<Longrightarrow> guard_inv (expire_wake_grace g now)"
  by (simp add: guard_inv_def expire_wake_grace_def)

lemma guard_step_inv: "guard_inv g \<Longrightarrow> guard_inv (guard_step g e)"
proof (cases e)
  case (PoweredOff x)
  moreover assume "guard_inv g"
  ultimately show ?thesis by (auto simp: guard_inv_def note_powered_off_def Let_def)
next
  case (Wake x now)
  moreover assume "guard_inv g"
  ultimately show ?thesis by (auto simp: guard_inv_def note_wake_def)
next
  case (Observe now current observed)
  moreover assume "guard_inv g"
  ultimately show ?thesis
    using expire_inv [of g now] guard_inv_default
    by (simp add: defer_missing_outputs_def Let_def) (simp add: guard_inv_def)
next
  case (Service now)
  moreover assume "guard_inv g"
  ultimately show ?thesis by (auto simp: guard_inv_def service_deadline_def)
qed

lemma guard_reachable_inv: "guard_reachable g \<Longrightarrow> guard_inv g"
  by (induction rule: guard_reachable.induct) (auto intro: guard_inv_default guard_step_inv)

section \<open>Properties\<close>



end
