(* ===== verification/Output_Policy.thy ===== *)
theory Output_Policy
  imports Denial_Base
begin

text \<open>
  The display policy of \<^verbatim>\<open>output_policy.rs\<close>: which connected outputs are lit given the saved
  preferences and the lid, how a layout submitted by the settings is folded back into the saved
  preferences, and the journal that reports a change of policy once. A \<open>BTreeSet<String>\<close> is a
  set of strings; the log calls of the journal are returned as values.
\<close>

section \<open>Selection\<close>

definition starts_with :: "string \<Rightarrow> string \<Rightarrow> bool" where
  "starts_with name prefix \<longleftrightarrow> take (length prefix) name = prefix"

definition is_internal_panel :: "string \<Rightarrow> bool" where
  "is_internal_panel name \<longleftrightarrow>
     starts_with name ''DSI-'' \<or> starts_with name ''eDP-'' \<or> starts_with name ''LVDS-''"

datatype output_policy = Preferred | Clamshell "string list" | Fallback string | Covered

fun overrides :: "output_policy \<Rightarrow> string \<Rightarrow> bool" where
  "overrides (Clamshell covered) x = (x \<in> set covered)"
| "overrides (Fallback fallback) x = (fallback = x)"
| "overrides Preferred x = False"
| "overrides Covered x = False"

record output_selection =
  lit :: "string set"
  unlit :: "string list"
  policy :: output_policy

definition fallback_choice :: "string list \<Rightarrow> bool \<Rightarrow> string option" where
  "fallback_choice connected lid_closed =
     option_or (find (\<lambda>name. is_internal_panel name \<and> \<not> lid_closed) connected)
               (find (\<lambda>name. \<not> is_internal_panel name) connected)"

definition choose_lit :: "string list \<Rightarrow> string set \<Rightarrow> bool \<Rightarrow> string list \<times> output_policy" where
  "choose_lit connected disabled lid_closed =
     (let preferred = filter (\<lambda>name. name \<notin> disabled) connected
      in if preferred = [] then
           (case fallback_choice connected lid_closed of
              Some x \<Rightarrow> ([x], Fallback x)
            | None \<Rightarrow> if connected = [] then ([], Preferred) else ([], Covered))
         else
           (let covered = filter (\<lambda>name. lid_closed \<and> is_internal_panel name) preferred
            in if covered = [] \<or> length covered = length preferred then (preferred, Preferred)
               else (filter (\<lambda>name. name \<notin> set covered) preferred, Clamshell covered)))"

definition select_outputs :: "string list \<Rightarrow> string set \<Rightarrow> bool \<Rightarrow> output_selection" where
  "select_outputs connected disabled lid_closed =
     (let (lit_list, pol) = choose_lit connected disabled lid_closed;
          lit_set = set lit_list
      in \<lparr>lit = lit_set, unlit = filter (\<lambda>name. name \<notin> lit_set) connected, policy = pol\<rparr>)"

section \<open>Folding a submitted layout into the preferences\<close>

text \<open>
  One pass over the connected outputs; \<open>BTreeSet::remove\<close> and \<open>BTreeSet::insert\<close> tell whether
  they changed the set.
\<close>

fun reconcile_pass ::
  "(string \<Rightarrow> bool) \<Rightarrow> string set \<Rightarrow> string list \<Rightarrow> string set \<Rightarrow> string set \<times> bool" where
  "reconcile_pass requested lit_now [] disabled = (disabled, False)"
| "reconcile_pass requested lit_now (name # names) disabled =
     (let wanted = requested name
      in if wanted = (name \<in> lit_now) then reconcile_pass requested lit_now names disabled
         else
           (let moved = (if wanted then name \<in> disabled else name \<notin> disabled);
                disabled = (if wanted then disabled - {name} else insert name disabled);
                (disabled, changed) = reconcile_pass requested lit_now names disabled
            in (disabled, moved \<or> changed)))"

text \<open>The connected outputs whose saved preference differs from the requested state.\<close>

definition open_preferences :: "(string \<Rightarrow> bool) \<Rightarrow> string list \<Rightarrow> string set \<Rightarrow> string set" where
  "open_preferences requested connected disabled =
     {name \<in> set connected. requested name = (name \<in> disabled)}"

text \<open>A pass keeps every preference or moves it to its requested value.\<close>

lemma reconcile_pass_moves:
  "name \<in> fst (reconcile_pass requested l names disabled) \<Longrightarrow>
     name \<in> disabled \<or> (name \<in> set names \<and> \<not> requested name)"
  "name \<notin> fst (reconcile_pass requested l names disabled) \<Longrightarrow>
     name \<notin> disabled \<or> (name \<in> set names \<and> requested name)"
  by (induction requested l names disabled rule: reconcile_pass.induct)
    (auto simp: Let_def case_prod_beta split: if_splits)

lemma reconcile_pass_moved:
  "snd (reconcile_pass requested l names disabled) \<Longrightarrow>
     \<exists>name \<in> set names. requested name = (name \<in> disabled) \<and>
       requested name = (name \<notin> fst (reconcile_pass requested l names disabled))"
proof (induction requested l names disabled rule: reconcile_pass.induct)
  case (1 requested l disabled)
  then show ?case by simp
next
  case (2 requested l name names disabled)
  show ?case
  proof (cases "requested name = (name \<in> l)")
    case True
    with 2(1) [OF refl True] 2(3) show ?thesis by (auto simp: Let_def)
  next
    case False
    define d where "d = (if requested name then disabled - {name} else insert name disabled)"
    have step: "fst (reconcile_pass requested l (name # names) disabled) =
        fst (reconcile_pass requested l names d)"
      using False by (simp add: Let_def case_prod_beta d_def)
    show ?thesis
    proof (cases "requested name = (name \<in> disabled)")
      case True
      then have "requested name = (name \<notin> fst (reconcile_pass requested l names d))"
        using reconcile_pass_moves [of name requested l names d]
        by (cases "name \<in> fst (reconcile_pass requested l names d)") (auto simp: d_def)
      with True step show ?thesis by auto
    next
      case same: False
      then have "d = disabled" by (auto simp: d_def)
      moreover from this have "snd (reconcile_pass requested l names d)"
        using 2(3) False same by (auto simp: Let_def case_prod_beta d_def split: if_splits)
      ultimately show ?thesis
        using 2(2) [OF refl False refl refl] step by (auto simp: d_def split: if_splits)
    qed
  qed
qed

lemma reconcile_pass_shrinks:
  assumes "snd (reconcile_pass requested l connected disabled)"
  shows "card (open_preferences requested connected (fst (reconcile_pass requested l connected disabled)))
         < card (open_preferences requested connected disabled)"
proof (rule psubset_card_mono)
  show "finite (open_preferences requested connected disabled)"
    by (simp add: open_preferences_def)
  show "open_preferences requested connected (fst (reconcile_pass requested l connected disabled))
        \<subset> open_preferences requested connected disabled"
    using reconcile_pass_moved [OF assms] reconcile_pass_moves [of _ requested l connected disabled]
    unfolding open_preferences_def by blast
qed

function reconcile_disabled_outputs ::
  "string list \<Rightarrow> string set \<Rightarrow> bool \<Rightarrow> (string \<Rightarrow> bool) \<Rightarrow> string set" where
  "reconcile_disabled_outputs connected disabled lid_closed requested =
     (let result = reconcile_pass requested (lit (select_outputs connected disabled lid_closed))
                     connected disabled
      in if \<not> snd result then fst result
         else reconcile_disabled_outputs connected (fst result) lid_closed requested)"
  by pat_completeness auto

termination
  by (relation "measure (\<lambda>(connected, disabled, lid_closed, requested).
        card (open_preferences requested connected disabled))")
    (auto intro: reconcile_pass_shrinks)

declare reconcile_disabled_outputs.simps [simp del]

section \<open>The journal\<close>

datatype policy_report = PreferencesApplyAgain | LeavingOff "string list"
  | LidClosed "string list" | KeepingOn string | WaitingForLid "string list"

record output_policy_journal =
  reported :: "output_selection option"

definition Journal_default :: output_policy_journal where
  "Journal_default = \<lparr>reported = None\<rparr>"

definition record_selection ::
  "output_policy_journal \<Rightarrow> output_selection \<Rightarrow> output_policy_journal \<times> policy_report list" where
  "record_selection j selection =
     (let previous = reported j;
          j = j\<lparr>reported := Some selection\<rparr>
      in if option_is_some_and previous (\<lambda>p. policy p = policy selection \<and> unlit p = unlit selection)
         then (j, [])
         else (j, case policy selection of
             Preferred \<Rightarrow>
               (if option_is_some_and previous (\<lambda>p. policy p \<noteq> Preferred)
                then [PreferencesApplyAgain] else []) @
               (if unlit selection \<noteq> [] then [LeavingOff (unlit selection)] else [])
           | Clamshell covered \<Rightarrow> [LidClosed covered]
           | Fallback x \<Rightarrow> [KeepingOn x]
           | Covered \<Rightarrow> [WaitingForLid (unlit selection)]))"

section \<open>Properties\<close>

lemma fallback_choice_Some:
  "fallback_choice connected lid_closed = Some x \<Longrightarrow>
     x \<in> set connected \<and> \<not> (lid_closed \<and> is_internal_panel x)"
  by (cases "find (\<lambda>name. is_internal_panel name \<and> \<not> lid_closed) connected")
    (auto simp: fallback_choice_def find_Some_iff)

lemma fallback_choice_None:
  "fallback_choice connected lid_closed = None \<Longrightarrow>
     \<forall>x \<in> set connected. lid_closed \<and> is_internal_panel x"
  by (cases "find (\<lambda>name. is_internal_panel name \<and> \<not> lid_closed) connected")
    (auto simp: fallback_choice_def find_None_iff)

lemma select_outputs_parts:
  "lit (select_outputs c d l) = set (fst (choose_lit c d l))"
  "policy (select_outputs c d l) = snd (choose_lit c d l)"
  "unlit (select_outputs c d l) = filter (\<lambda>name. name \<notin> set (fst (choose_lit c d l))) c"
  by (simp_all add: select_outputs_def case_prod_beta Let_def)

text \<open>The three outcomes of a selection.\<close>

lemma selection_cases:
  obtains
    (preferred) "set (fst (choose_lit c d l)) = set c - d" "snd (choose_lit c d l) = Preferred"
      "set c - d \<noteq> {} \<or> c = []"
      "l \<Longrightarrow> (\<forall>x \<in> set c - d. is_internal_panel x) \<or> (\<forall>x \<in> set c - d. \<not> is_internal_panel x)"
  | (clamshell) covered where "snd (choose_lit c d l) = Clamshell covered" "l"
      "set covered = {x \<in> set c - d. is_internal_panel x}"
      "set (fst (choose_lit c d l)) = {x \<in> set c - d. \<not> is_internal_panel x}"
      "\<exists>x \<in> set c - d. \<not> is_internal_panel x"
  | (fallback) x where "set c \<subseteq> d" "snd (choose_lit c d l) = Fallback x"
      "fst (choose_lit c d l) = [x]" "fallback_choice c l = Some x"
  | (covered) "set c \<subseteq> d" "c \<noteq> []" "snd (choose_lit c d l) = Covered"
      "fst (choose_lit c d l) = []" "fallback_choice c l = None"
proof (cases "filter (\<lambda>name. name \<notin> d) c = []")
  case True
  then have sub: "set c \<subseteq> d" by (auto simp: filter_empty_conv)
  show thesis
  proof (cases "fallback_choice c l")
    case None
    with True sub show thesis using preferred covered by (cases "c = []") (auto simp: choose_lit_def Let_def)
  next
    case (Some x)
    with True sub show thesis using fallback by (auto simp: choose_lit_def Let_def)
  qed
next
  case False
  define p where "p = filter (\<lambda>name. name \<notin> d) c"
  define cov where "cov = filter (\<lambda>name. l \<and> is_internal_panel name) p"
  have sets: "set p = set c - d" "p \<noteq> []" using False by (auto simp: p_def)
  have len: "length cov = length p \<longleftrightarrow> (\<forall>x \<in> set p. l \<and> is_internal_panel x)"
    unfolding cov_def by (metis (mono_tags, lifting) filter_True length_filter_less less_irrefl)
  have choose: "choose_lit c d l =
      (if cov = [] \<or> length cov = length p then (p, Preferred)
       else (filter (\<lambda>name. name \<notin> set cov) p, Clamshell cov))"
    using False by (simp add: choose_lit_def Let_def p_def cov_def)
  show thesis
  proof (cases "cov = [] \<or> length cov = length p")
    case True
    then have "l \<Longrightarrow> (\<forall>x \<in> set p. is_internal_panel x) \<or> (\<forall>x \<in> set p. \<not> is_internal_panel x)"
      using len by (auto simp: cov_def filter_empty_conv)
    with True show thesis using preferred choose sets by (auto simp: set_empty [symmetric] simp del: set_empty)
  next
    case part: False
    then have l: "l" "set cov = {x \<in> set p. is_internal_panel x}" by (cases l; auto simp: cov_def)+
    moreover have "\<exists>x \<in> set p. \<not> is_internal_panel x" using part len l by auto
    ultimately show thesis using clamshell [of cov] part choose sets by auto
  qed
qed

text \<open>
  Claim C33 (the desktop is dark only when nothing can show it). The lit outputs are connected and
  the unlit list is the rest in connector order. Nothing is lit exactly when every connected
  output is disabled and a panel under the closed lid. A disabled output is lit only as the single
  fallback, and a preferred output is dark only if it is a panel under the closed lid while an
  external preferred output is lit. The policy names exactly the outputs whose state differs from
  the saved preference.
\<close>
theorem selection_lights_what_it_can:
  "lit (select_outputs c d l) \<subseteq> set c \<and>
   unlit (select_outputs c d l) = filter (\<lambda>x. x \<notin> lit (select_outputs c d l)) c \<and>
   (lit (select_outputs c d l) = {} \<longleftrightarrow> (\<forall>x \<in> set c. x \<in> d \<and> l \<and> is_internal_panel x)) \<and>
   (\<forall>x \<in> d. x \<in> lit (select_outputs c d l) \<longrightarrow>
      lit (select_outputs c d l) = {x} \<and> set c \<subseteq> d \<and> \<not> (l \<and> is_internal_panel x)) \<and>
   (\<forall>x \<in> set c - d. x \<notin> lit (select_outputs c d l) \<longrightarrow> l \<and> is_internal_panel x \<and>
      (\<exists>y \<in> lit (select_outputs c d l) - d. \<not> is_internal_panel y)) \<and>
   (\<forall>x \<in> set c. overrides (policy (select_outputs c d l)) x \<longleftrightarrow>
      (x \<in> lit (select_outputs c d l)) = (x \<in> d))"
  unfolding select_outputs_parts
proof (cases rule: selection_cases [where c = c and d = d and l = l])
  case preferred
  then show "set (fst (choose_lit c d l)) \<subseteq> set c \<and>
   filter (\<lambda>name. name \<notin> set (fst (choose_lit c d l))) c =
     filter (\<lambda>x. x \<notin> set (fst (choose_lit c d l))) c \<and>
   (set (fst (choose_lit c d l)) = {} \<longleftrightarrow> (\<forall>x \<in> set c. x \<in> d \<and> l \<and> is_internal_panel x)) \<and>
   (\<forall>x \<in> d. x \<in> set (fst (choose_lit c d l)) \<longrightarrow>
      set (fst (choose_lit c d l)) = {x} \<and> set c \<subseteq> d \<and> \<not> (l \<and> is_internal_panel x)) \<and>
   (\<forall>x \<in> set c - d. x \<notin> set (fst (choose_lit c d l)) \<longrightarrow> l \<and> is_internal_panel x \<and>
      (\<exists>y \<in> set (fst (choose_lit c d l)) - d. \<not> is_internal_panel y)) \<and>
   (\<forall>x \<in> set c. overrides (snd (choose_lit c d l)) x \<longleftrightarrow>
      (x \<in> set (fst (choose_lit c d l))) = (x \<in> d))" by auto
qed (auto dest: fallback_choice_Some fallback_choice_None)

theorem selection_lights_what_it_can_witness:
  "''DP-1'' \<in> lit (select_outputs [''eDP-1'', ''DP-1''] {} True) \<and>
   ''eDP-1'' \<notin> lit (select_outputs [''eDP-1'', ''DP-1''] {} True) \<and>
   is_internal_panel ''eDP-1'' \<and>
   (\<exists>y \<in> lit (select_outputs [''eDP-1'', ''DP-1''] {} True) - {}. \<not> is_internal_panel y)"
  using selection_lights_what_it_can [of "[''eDP-1'', ''DP-1'']" "{}" True]
  by (simp add: select_outputs_def choose_lit_def Let_def is_internal_panel_def starts_with_def)

text \<open>What a finished pass leaves, and what the loop preserves.\<close>

lemma reconcile_pass_unchanged:
  "\<not> snd (reconcile_pass requested l names disabled) \<Longrightarrow>
     fst (reconcile_pass requested l names disabled) = disabled \<and>
     (\<forall>name \<in> set names. requested name = (name \<in> l) \<or> requested name = (name \<notin> disabled))"
  by (induction names arbitrary: disabled)
    (auto simp: Let_def case_prod_beta insert_absorb split: if_splits)

lemma reconcile_moves_only_to_requested:
  "(name \<in> reconcile_disabled_outputs c d l requested) \<noteq> (name \<in> d) \<Longrightarrow>
     name \<in> set c \<and> requested name = (name \<in> d)"
proof (induction c d l requested rule: reconcile_disabled_outputs.induct)
  case (1 c d l requested)
  show ?case
    using 1(2) 1(1) [OF refl] reconcile_pass_moves [of name requested _ c d]
    by (subst (asm) reconcile_disabled_outputs.simps) (auto simp: Let_def split: if_splits)
qed

lemma reconcile_fixpoint:
  "name \<in> set c \<Longrightarrow>
     requested name = (name \<in> lit (select_outputs c (reconcile_disabled_outputs c d l requested) l)) \<or>
     requested name = (name \<notin> reconcile_disabled_outputs c d l requested)"
proof (induction c d l requested rule: reconcile_disabled_outputs.induct)
  case (1 c d l requested)
  let ?r = "reconcile_pass requested (lit (select_outputs c d l)) c d"
  show ?case
  proof (cases "snd ?r")
    case True
    then have "reconcile_disabled_outputs c d l requested =
        reconcile_disabled_outputs c (fst ?r) l requested"
      by (subst reconcile_disabled_outputs.simps) (simp add: Let_def)
    with 1(1) [OF refl] 1(2) True show ?thesis by simp
  next
    case False
    with reconcile_pass_unchanged [OF False] 1(2) show ?thesis
      by (simp add: reconcile_disabled_outputs.simps [of c d l requested] Let_def)
  qed
qed

text \<open>What is lit after a reconciliation.\<close>

lemma reconciled_lit:
  assumes "\<exists>x \<in> set c. requested x"
    and d'_def: "d' = reconcile_disabled_outputs c d l requested"
  shows "lit (select_outputs c d' l) \<subseteq> {x \<in> set c. requested x}"
    and "x \<in> set c \<Longrightarrow> requested x \<Longrightarrow> x \<notin> lit (select_outputs c d' l) \<Longrightarrow>
      l \<and> is_internal_panel x \<and> (\<exists>y \<in> lit (select_outputs c d' l). \<not> is_internal_panel y)"
proof -
  have fixp: "requested x = (x \<in> set (fst (choose_lit c d' l))) \<or> requested x = (x \<notin> d')" if "x \<in> set c" for x
    using reconcile_fixpoint [OF that, of requested d l] by (simp add: d'_def select_outputs_parts)
  show "lit (select_outputs c d' l) \<subseteq> {x \<in> set c. requested x}"
    unfolding select_outputs_parts
    by (cases rule: selection_cases [where c = c and d = d' and l = l]) (use fixp assms(1) in \<open>auto dest: fallback_choice_Some\<close>)
  show "l \<and> is_internal_panel x \<and> (\<exists>y \<in> lit (select_outputs c d' l). \<not> is_internal_panel y)"
    if "x \<in> set c" "requested x" "x \<notin> lit (select_outputs c d' l)"
    using that unfolding select_outputs_parts
    by (cases rule: selection_cases [where c = c and d = d' and l = l]) (use fixp in \<open>auto dest: fallback_choice_Some\<close>)
qed

text \<open>
  Claim C34 (the settings get the layout they ask for, and nothing else is saved). The loop ends; it
  changes a saved preference only of a connected output and only to the requested state, and a
  submission that equals what is lit leaves the preferences untouched. If some connected output is
  requested, exactly the requested outputs are lit afterwards, but for panels under the closed lid
  while an external output is lit.
\<close>
theorem reconciled_preferences_light_the_request:
  assumes "\<exists>x \<in> set c. requested x"
    and d'_def: "d' = reconcile_disabled_outputs c d l requested"
  shows "(\<forall>x. (x \<in> d') \<noteq> (x \<in> d) \<longrightarrow> x \<in> set c \<and> (x \<in> d' \<longleftrightarrow> \<not> requested x)) \<and>
         ((\<forall>x \<in> set c. requested x = (x \<in> lit (select_outputs c d l))) \<longrightarrow> d' = d) \<and>
         lit (select_outputs c d' l) \<subseteq> {x \<in> set c. requested x} \<and>
         (\<forall>x \<in> set c. requested x \<and> x \<notin> lit (select_outputs c d' l) \<longrightarrow>
            l \<and> is_internal_panel x \<and> (\<exists>y \<in> lit (select_outputs c d' l). \<not> is_internal_panel y))"
proof (intro conjI)
  show "\<forall>x. (x \<in> d') \<noteq> (x \<in> d) \<longrightarrow> x \<in> set c \<and> (x \<in> d' \<longleftrightarrow> \<not> requested x)"
    using reconcile_moves_only_to_requested [of _ c d l requested] unfolding d'_def by blast
  have skip: "reconcile_pass requested k names d = (d, False)"
    if "\<forall>x \<in> set names. requested x = (x \<in> k)" for k names
    using that by (induction names) auto
  show "(\<forall>x \<in> set c. requested x = (x \<in> lit (select_outputs c d l))) \<longrightarrow> d' = d"
    unfolding d'_def by (simp add: reconcile_disabled_outputs.simps [of c d l requested] skip)
  show "lit (select_outputs c d' l) \<subseteq> {x \<in> set c. requested x}"
    using reconciled_lit(1) [OF assms] .
  show "\<forall>x \<in> set c. requested x \<and> x \<notin> lit (select_outputs c d' l) \<longrightarrow>
      l \<and> is_internal_panel x \<and> (\<exists>y \<in> lit (select_outputs c d' l). \<not> is_internal_panel y)"
    using reconciled_lit(2) [OF assms] by blast
qed

theorem reconciled_preferences_light_the_request_witness:
  "lit (select_outputs [''DSI-1'', ''DP-1'']
      (reconcile_disabled_outputs [''DSI-1'', ''DP-1''] {''DSI-1'', ''DP-1''} False (\<lambda>x. x = ''DP-1'')) False)
   \<subseteq> {x \<in> set [''DSI-1'', ''DP-1'']. x = ''DP-1''}"
  using reconciled_preferences_light_the_request
    [of "[''DSI-1'', ''DP-1'']" "\<lambda>x. x = ''DP-1''", OF _ refl, of "{''DSI-1'', ''DP-1''}" False]
  by simp

text \<open>
  A policy is reported once. Replaying a rescan that selects the same outputs for the
  same reason reports nothing, and every change of policy is reported.
\<close>
lemma journal_reports_each_change_once:
  "snd (record_selection (fst (record_selection j s)) s) = [] \<and>
   snd (record_selection (fst (record_selection j s)) (s\<lparr>lit := x\<rparr>)) = [] \<and>
   (policy t \<noteq> policy s \<longrightarrow> snd (record_selection (fst (record_selection j s)) t) \<noteq> [])"
proof -
  have "reported (fst (record_selection j s)) = Some s" by (simp add: record_selection_def Let_def)
  then show ?thesis
    by (auto simp: record_selection_def [of "fst (record_selection j s)"] split: output_policy.splits)
qed

end
