(* ===== verification/Hotplug_Transaction.thy ===== *)
theory Hotplug_Transaction
  imports Denial_Base "HOL-Library.Multiset"
begin

text \<open>
  The ownership part of a hotplug transaction (\<^verbatim>\<open>hotplug_transaction.rs\<close>): the plan that decides
  which scanouts are reused, the two vector exchanges, and the journal \<open>HotplugProgress\<close> that
  tells when the hardware has to be rolled back. The \<open>debug_assert\<close>s of the journal are the
  guards of the step relation \<open>hotplug_step\<close>. A \<open>usize\<close> is a \<open>u64\<close>.
\<close>

section \<open>Exchanging the scanout vectors\<close>

text \<open>The result is the destination, the candidate, the resolved flag and the displaced vector.\<close>

definition install_candidate ::
  "'a list \<Rightarrow> 'a list \<Rightarrow> bool \<Rightarrow> 'a list \<times> 'a list \<times> bool \<times> 'a list" where
  "install_candidate destination candidate resolved = (candidate, [], True, destination)"

definition append_quarantined :: "'a list \<Rightarrow> 'a list \<Rightarrow> 'a list \<times> 'a list \<times> nat" where
  "append_quarantined restored quarantined =
     (let rollback_count = length restored in (restored @ quarantined, [], rollback_count))"

section \<open>The reconcile plan\<close>

record scanout_key =
  key_output :: u64
  key_crtc :: u32

datatype scanout_origin = Reuse nat | Create

datatype reconcile_plan_error = InvalidOutput | InvalidCrtc | DuplicateOutput u64 | DuplicateCrtc u32

definition validate_key :: "scanout_key \<Rightarrow> reconcile_plan_error + unit" where
  "validate_key key =
     (if key_output key = 0 then Inl InvalidOutput
      else if key_crtc key = 0 then Inl InvalidCrtc
      else Inr ())"

text \<open>The first loop: outputs and CRTCs seen so far, and the index of every current key.\<close>

fun index_current ::
  "nat \<Rightarrow> scanout_key list \<Rightarrow> u64 set \<Rightarrow> u32 set \<Rightarrow> (scanout_key \<rightharpoonup> nat) \<Rightarrow>
     reconcile_plan_error + (scanout_key \<rightharpoonup> nat)" where
  "index_current i [] outputs crtcs existing = Inr existing"
| "index_current i (key # keys) outputs crtcs existing =
     try_bind (validate_key key) (\<lambda>_.
       if key_output key \<in> outputs then Inl (DuplicateOutput (key_output key))
       else if key_crtc key \<in> crtcs then Inl (DuplicateCrtc (key_crtc key))
       else index_current (Suc i) keys (insert (key_output key) outputs)
              (insert (key_crtc key) crtcs) (existing(key \<mapsto> i)))"

text \<open>The second loop.\<close>

fun plan_desired ::
  "scanout_key list \<Rightarrow> u64 set \<Rightarrow> u32 set \<Rightarrow> (scanout_key \<rightharpoonup> nat) \<Rightarrow> scanout_origin list \<Rightarrow>
     reconcile_plan_error + scanout_origin list" where
  "plan_desired [] outputs crtcs existing plan = Inr plan"
| "plan_desired (key # keys) outputs crtcs existing plan =
     try_bind (validate_key key) (\<lambda>_.
       if key_output key \<in> outputs then Inl (DuplicateOutput (key_output key))
       else if key_crtc key \<in> crtcs then Inl (DuplicateCrtc (key_crtc key))
       else plan_desired keys (insert (key_output key) outputs) (insert (key_crtc key) crtcs) existing
              (plan @ [case existing key of None \<Rightarrow> Create | Some i \<Rightarrow> Reuse i]))"

definition plan_reconcile ::
  "scanout_key list \<Rightarrow> scanout_key list \<Rightarrow> reconcile_plan_error + scanout_origin list" where
  "plan_reconcile current desired =
     try_bind (index_current 0 current {} {} Map.empty) (\<lambda>existing.
       plan_desired desired {} {} existing [])"

section \<open>The journal\<close>

datatype hotplug_phase = Staging | Validated | Committing | Presented | Finalized | RolledBack

record hotplug_progress =
  phase :: hotplug_phase
  committed_outputs :: u64

definition Progress_default :: hotplug_progress where
  "Progress_default = \<lparr>phase = Staging, committed_outputs = 0\<rparr>"

definition mark_validated :: "hotplug_progress \<Rightarrow> hotplug_progress" where
  "mark_validated p = p\<lparr>phase := Validated\<rparr>"

definition record_commit :: "hotplug_progress \<Rightarrow> hotplug_progress" where
  "record_commit p = p\<lparr>phase := Committing, committed_outputs := saturating_succ (committed_outputs p)\<rparr>"

definition mark_presented :: "hotplug_progress \<Rightarrow> hotplug_progress" where
  "mark_presented p = p\<lparr>phase := Presented\<rparr>"

definition mark_finalized :: "hotplug_progress \<Rightarrow> hotplug_progress" where
  "mark_finalized p = p\<lparr>phase := Finalized\<rparr>"

definition mark_rolled_back :: "hotplug_progress \<Rightarrow> hotplug_progress" where
  "mark_rolled_back p = p\<lparr>phase := RolledBack\<rparr>"

definition rollback_required :: "hotplug_progress \<Rightarrow> bool" where
  "rollback_required p \<longleftrightarrow> committed_outputs p \<noteq> 0 \<and> phase p \<notin> {Finalized, RolledBack}"

inductive hotplug_step :: "hotplug_progress \<Rightarrow> hotplug_progress \<Rightarrow> bool" where
  validated: "phase p = Staging \<Longrightarrow> hotplug_step p (mark_validated p)"
| commit: "phase p \<in> {Validated, Committing} \<Longrightarrow> hotplug_step p (record_commit p)"
| presented: "phase p \<in> {Validated, Committing} \<Longrightarrow> hotplug_step p (mark_presented p)"
| finalized: "phase p = Presented \<Longrightarrow> hotplug_step p (mark_finalized p)"
| rolled_back: "rollback_required p \<Longrightarrow> hotplug_step p (mark_rolled_back p)"

inductive hotplug_reachable :: "nat \<Rightarrow> hotplug_progress \<Rightarrow> bool" where
  hotplug_start: "hotplug_reachable 0 Progress_default"
| hotplug_commit:
    "hotplug_reachable n p \<Longrightarrow> phase p \<in> {Validated, Committing} \<Longrightarrow>
     hotplug_reachable (Suc n) (record_commit p)"
| hotplug_other:
    "hotplug_reachable n p \<Longrightarrow> hotplug_step p q \<Longrightarrow> phase q \<noteq> Committing \<Longrightarrow> hotplug_reachable n q"

inductive_cases hotplug_stepE: "hotplug_step p q"
inductive_simps hotplug_step_simps: "hotplug_step p q"

section \<open>Lemmas\<close>

text \<open>A well-formed topology: no zero, no output twice, no CRTC twice.\<close>

definition keys_ok :: "scanout_key list \<Rightarrow> bool" where
  "keys_ok keys \<longleftrightarrow> (\<forall>k \<in> set keys. key_output k \<noteq> 0 \<and> key_crtc k \<noteq> 0) \<and>
     distinct (map key_output keys) \<and> distinct (map key_crtc keys)"

definition keys_ok_after :: "u64 set \<Rightarrow> u32 set \<Rightarrow> scanout_key list \<Rightarrow> bool" where
  "keys_ok_after outputs crtcs keys \<longleftrightarrow> keys_ok keys \<and>
     key_output ` set keys \<inter> outputs = {} \<and> key_crtc ` set keys \<inter> crtcs = {}"

lemma validate_key_Inr: "validate_key key = Inr u \<longleftrightarrow> key_output key \<noteq> 0 \<and> key_crtc key \<noteq> 0"
  by (simp add: validate_key_def)

lemma keys_ok_after_Cons:
  "keys_ok_after outputs crtcs (key # keys) \<longleftrightarrow>
     validate_key key = Inr () \<and> key_output key \<notin> outputs \<and> key_crtc key \<notin> crtcs \<and>
     keys_ok_after (insert (key_output key) outputs) (insert (key_crtc key) crtcs) keys"
  by (auto simp: keys_ok_after_def keys_ok_def validate_key_Inr)

lemma keys_ok_distinct: "keys_ok keys \<Longrightarrow> distinct keys"
  by (simp add: keys_ok_def distinct_map)

lemma index_current_Inr:
  "index_current i keys outputs crtcs existing = Inr m \<longleftrightarrow>
     keys_ok_after outputs crtcs keys \<and> m = existing ++ map_of (zip keys [i ..< i + length keys])"
proof (induction keys arbitrary: i outputs crtcs existing)
  case Nil
  then show ?case by (auto simp: keys_ok_after_def keys_ok_def)
next
  case (Cons key keys)
  have upt: "[i ..< Suc (i + length keys)] = i # [Suc i ..< Suc (i + length keys)]"
    by (rule upt_conv_Cons) simp
  have last: "existing ++ map_of (zip (key # keys) [i ..< Suc (i + length keys)]) =
      existing(key \<mapsto> i) ++ map_of (zip keys [Suc i ..< Suc (i + length keys)])"
    if "keys_ok_after (insert (key_output key) outputs) crtcs' keys" for crtcs'
  proof -
    have "key \<notin> set keys" using that by (auto simp: keys_ok_after_def)
    then have "key \<notin> dom (map_of (zip keys [Suc i ..< Suc (i + length keys)]))" by simp
    then show ?thesis unfolding upt by (simp add: map_add_upd_left)
  qed
  show ?case
    unfolding index_current.simps try_bind_Inr_iff keys_ok_after_Cons
    by (auto simp: Cons.IH last simp del: zip_Cons_Cons map_of.simps fun_upd_apply upt_Suc)
qed

lemma plan_desired_Inr:
  "plan_desired keys outputs crtcs existing plan = Inr p \<longleftrightarrow>
     keys_ok_after outputs crtcs keys \<and>
     p = plan @ map (\<lambda>key. case existing key of None \<Rightarrow> Create | Some i \<Rightarrow> Reuse i) keys"
proof (induction keys arbitrary: outputs crtcs plan)
  case Nil
  then show ?case by (auto simp: keys_ok_after_def keys_ok_def)
next
  case (Cons key keys)
  show ?case
    unfolding plan_desired.simps try_bind_Inr_iff keys_ok_after_Cons by (auto simp: Cons.IH)
qed

lemma keys_ok_after_empty [simp]: "keys_ok_after {} {} keys = keys_ok keys"
  by (simp add: keys_ok_after_def)

lemma plan_reconcile_Inr:
  "plan_reconcile current desired = Inr p \<longleftrightarrow> keys_ok current \<and> keys_ok desired \<and>
     p = map (\<lambda>key. case map_of (zip current [0 ..< length current]) key of
                      None \<Rightarrow> Create | Some i \<Rightarrow> Reuse i) desired"
  by (auto simp: plan_reconcile_def try_bind_Inr_iff index_current_Inr plan_desired_Inr)

lemma map_of_index:
  "distinct keys \<Longrightarrow> map_of (zip keys [0 ..< length keys]) key = Some j \<longleftrightarrow> j < length keys \<and> keys ! j = key"
  by (subst map_of_eq_Some_iff) (auto simp: in_set_zip map_fst_zip)

lemma origin_simps:
  "(case m of None \<Rightarrow> Create | Some i \<Rightarrow> Reuse i) = Reuse j \<longleftrightarrow> m = Some j"
  "(case m of None \<Rightarrow> Create | Some i \<Rightarrow> Reuse i) = Create \<longleftrightarrow> m = None"
  by (simp_all split: option.split)

text \<open>The phase determines whether something has been committed.\<close>

definition hotplug_inv :: "nat \<Rightarrow> hotplug_progress \<Rightarrow> bool" where
  "hotplug_inv n p \<longleftrightarrow> unat (committed_outputs p) = min n (2 ^ 64 - 1) \<and>
     (phase p \<in> {Staging, Validated} \<longrightarrow> n = 0) \<and> (phase p \<in> {Committing, RolledBack} \<longrightarrow> 0 < n)"

lemma saturating_succ_unat:
  "unat n = min m (2 ^ 64 - 1) \<Longrightarrow> unat (saturating_succ n) = min (Suc m) (2 ^ 64 - 1)"
proof -
  assume n: "unat n = min m (2 ^ 64 - 1)"
  show ?thesis
  proof (cases "n = - 1")
    case True
    then have "unat n = 2 ^ 64 - 1" by (simp add: unsigned_minus_1_eq_mask mask_eq_exp_minus_1)
    with n True show ?thesis by (simp add: saturating_succ_def)
  next
    case False
    then have "1 + n \<noteq> 0" by (metis add_eq_0_iff)
    then have "unat (n + 1) = Suc (unat n)" using unatSuc [of n] by (simp add: add.commute)
    moreover have "unat (n + 1) < 2 ^ 64" using unsigned_less [where 'a = nat and w = "n + 1"] by simp
    ultimately show ?thesis using n False by (simp add: saturating_succ_def)
  qed
qed

lemma hotplug_reachable_inv: "hotplug_reachable n p \<Longrightarrow> hotplug_inv n p"
proof (induction rule: hotplug_reachable.induct)
  case hotplug_start
  then show ?case by (simp add: hotplug_inv_def Progress_default_def)
next
  case (hotplug_commit n p)
  then show ?case
    using saturating_succ_unat [of "committed_outputs p" n] by (simp add: hotplug_inv_def record_commit_def)
next
  case (hotplug_other n p q)
  from hotplug_other.hyps(2) show ?case
  proof (cases rule: hotplug_step.cases)
    case rolled_back
    have "n \<noteq> 0"
    proof
      assume "n = 0"
      then have "unat (committed_outputs p) = 0" using hotplug_other.IH by (simp add: hotplug_inv_def)
      with rolled_back show False by (simp add: rollback_required_def unat_eq_0)
    qed
    with rolled_back hotplug_other.IH show ?thesis by (simp add: hotplug_inv_def mark_rolled_back_def)
  qed (use hotplug_other in \<open>auto simp: hotplug_inv_def mark_validated_def record_commit_def
      mark_presented_def mark_finalized_def\<close>)
qed

section \<open>Properties\<close>

text \<open>
  The plan of a hotplug. A plan exists exactly when both topologies are well formed. It
  has one entry per desired scanout, reuses index \<open>j\<close> exactly when the scanout at \<open>j\<close> drives the
  same output on the same CRTC, creates the others, and never reuses one scanout twice.
\<close>
lemma plan_reuses_exactly_unchanged_scanouts:
  "(\<exists>p. plan_reconcile current desired = Inr p) = (keys_ok current \<and> keys_ok desired) \<and>
   (\<forall>p. plan_reconcile current desired = Inr p \<longrightarrow>
      length p = length desired \<and>
      (\<forall>i < length desired. \<forall>j. p ! i = Reuse j \<longleftrightarrow> j < length current \<and> current ! j = desired ! i) \<and>
      (\<forall>i < length desired. p ! i = Create \<longleftrightarrow> desired ! i \<notin> set current) \<and>
      (\<forall>i < length p. \<forall>k < length p. i \<noteq> k \<and> p ! i = p ! k \<longrightarrow> p ! i = Create))"
proof (intro conjI allI impI)
  show "(\<exists>p. plan_reconcile current desired = Inr p) = (keys_ok current \<and> keys_ok desired)"
    by (simp add: plan_reconcile_Inr)
next
  fix p assume "plan_reconcile current desired = Inr p"
  then have ok: "distinct current" "distinct desired" and
    p: "p = map (\<lambda>key. case map_of (zip current [0 ..< length current]) key of
                      None \<Rightarrow> Create | Some i \<Rightarrow> Reuse i) desired"
    by (auto simp: plan_reconcile_Inr dest: keys_ok_distinct)
  show len: "length p = length desired" by (simp add: p)
  have at: "p ! i = (case map_of (zip current [0 ..< length current]) (desired ! i) of
              None \<Rightarrow> Create | Some i \<Rightarrow> Reuse i)" if "i < length desired" for i
    using that by (simp add: p)
  show reuse: "p ! i = Reuse j \<longleftrightarrow> j < length current \<and> current ! j = desired ! i"
    if "i < length desired" for i j
    unfolding at [OF that] origin_simps map_of_index [OF ok(1)] ..
  show "p ! i = Create \<longleftrightarrow> desired ! i \<notin> set current" if "i < length desired" for i
    unfolding at [OF that] origin_simps by simp
  show "p ! i = Create" if "i < length p" "k < length p" "i \<noteq> k \<and> p ! i = p ! k" for i k
  proof (cases "p ! i")
    case (Reuse j)
    then have "desired ! i = desired ! k" using that len reuse [of i j] reuse [of k j] by simp
    then show ?thesis using that len ok(2) by (simp add: nth_eq_iff_index_eq)
  qed
qed



text \<open>
  No scanout is lost or dropped early. Installing the candidate only exchanges owners:
  the displaced vector is the old one, nothing stays in the candidate, and the journal is resolved;
  quarantined resources follow the restored ones, which are exactly the rollback prefix.
\<close>
lemma exchanges_keep_every_scanout:
  "(case install_candidate destination candidate resolved of (d', c', r', displaced) \<Rightarrow>
      mset d' + mset c' + mset displaced = mset destination + mset candidate \<and>
      d' = candidate \<and> displaced = destination \<and> c' = [] \<and> r') \<and>
   (case append_quarantined restored quarantined of (r', q', k) \<Rightarrow>
      mset r' + mset q' = mset restored + mset quarantined \<and> take k r' = restored \<and>
      drop k r' = quarantined \<and> q' = [])"
  by (simp add: install_candidate_def append_quarantined_def)

end
