(* ===== verification/Frame_Timeline.thy ===== *)
theory Frame_Timeline
  imports Denial_Base "HOL-Library.Signed_Division"
begin

text \<open>
  The output timelines of \<^verbatim>\<open>frame_scheduler.rs\<close>: one clock per powered output that hands out
  frame ticks, follows the measured presentations by a bounded phase correction, and skips the
  edges that pass during an idle sleep.

  \<open>i64\<close> and \<open>i128\<close> nanosecond differences are \<^typ>\<open>int\<close>; Rust's \<open>/\<close> and \<open>%\<close> truncate, which is
  \<open>sdiv\<close> and \<open>smod\<close>. The stored correction always lies within 250 microseconds (\<open>phase_ok\<close>), so
  the cast to \<open>i64\<close> is exact. A \<open>u128\<close> period count is a \<^typ>\<open>nat\<close>; its cast to \<open>u64\<close> wraps.
\<close>

section \<open>One timeline\<close>

record timeline_source =
  src_output :: output_id
  src_interval :: duration

record frame_tick =
  tick_output :: output_id
  sequence :: u64
  nominal_interval :: duration
  interval :: duration
  render_deadline :: instant
  presentation_target :: instant

record output_timeline =
  source :: timeline_source
  next_tick :: instant
  next_sequence :: u64
  pending_phase_adjustment_nanos :: int

definition PHASE_LOCK_DEADBAND :: duration where
  "PHASE_LOCK_DEADBAND = from_micros 50"

definition PHASE_LOCK_MAX_ADJUSTMENT :: duration where
  "PHASE_LOCK_MAX_ADJUSTMENT = from_micros 250"

definition PHASE_LOCK_GAIN_DIVISOR :: int where
  "PHASE_LOCK_GAIN_DIVISOR = 8"

definition clamp :: "int \<Rightarrow> int \<Rightarrow> int \<Rightarrow> int" where
  "clamp x lo hi = (if x < lo then lo else if hi < x then hi else x)"

definition signed_instant_delta :: "instant \<Rightarrow> instant \<Rightarrow> int" where
  "signed_instant_delta lhs rhs =
     (if rhs \<le> lhs then int (saturating_duration_since lhs rhs)
      else - int (saturating_duration_since rhs lhs))"

definition nearest_phase_error :: "int \<Rightarrow> duration \<Rightarrow> int" where
  "nearest_phase_error delta_nanos ival =
     (let period = int (max ival 1);
          err = delta_nanos smod period;
          half_period = period sdiv 2
      in if half_period < err then err - period
         else if err < - half_period then err + period
         else err)"

definition shift_instant :: "instant \<Rightarrow> int \<Rightarrow> instant" where
  "shift_instant t adjustment_nanos =
     (if 0 \<le> adjustment_nanos then t + adjustment_nanos else t - abs adjustment_nanos)"

function advance_deadline :: "instant \<Rightarrow> duration \<Rightarrow> nat \<Rightarrow> instant" where
  "advance_deadline deadline ival periods =
     (if 0 < periods then
        (let chunk = min periods (2 ^ 32 - 1)
         in advance_deadline (instant_add deadline (ival * chunk)) ival (periods - chunk))
      else deadline)"
  by pat_completeness auto

termination
  by (relation "measure (\<lambda>(_, _, periods). periods)") auto

declare advance_deadline.simps [simp del]

definition timeline_new :: "timeline_source \<Rightarrow> instant \<Rightarrow> output_timeline" where
  "timeline_new src now = \<lparr>source = src, next_tick = now, next_sequence = 1,
     pending_phase_adjustment_nanos = 0\<rparr>"

definition timeline_observe_presentation ::
  "output_timeline \<Rightarrow> instant \<Rightarrow> instant \<Rightarrow> output_timeline" where
  "timeline_observe_presentation ol target presented_at =
     (let phase_error = nearest_phase_error (signed_instant_delta presented_at target)
                          (src_interval (source ol))
      in if nat (abs phase_error) \<le> PHASE_LOCK_DEADBAND then ol
         else
           (let limit = int PHASE_LOCK_MAX_ADJUSTMENT;
                correction = clamp (phase_error sdiv PHASE_LOCK_GAIN_DIVISOR) (- limit) limit;
                pending = pending_phase_adjustment_nanos ol + correction
            in ol\<lparr>pending_phase_adjustment_nanos := clamp pending (- limit) limit\<rparr>))"

definition div_ceil :: "nat \<Rightarrow> nat \<Rightarrow> nat" where
  "div_ceil a b = (a + b - 1) div b"

definition timeline_skip_elapsed_edges :: "output_timeline \<Rightarrow> instant \<Rightarrow> output_timeline" where
  "timeline_skip_elapsed_edges ol now =
     (if now \<le> next_tick ol then ol
      else
        (let interval_nanos = max (src_interval (source ol)) 1;
             skipped = div_ceil (saturating_duration_since now (next_tick ol)) interval_nanos
         in ol\<lparr>next_tick := advance_deadline (next_tick ol) (src_interval (source ol)) skipped,
               next_sequence := next_sequence ol + word_of_nat skipped\<rparr>))"

definition take_tick :: "output_timeline \<Rightarrow> instant \<Rightarrow> output_timeline \<times> frame_tick option" where
  "take_tick ol now =
     (if now < next_tick ol then (ol, None)
      else
        (let interval_nanos = max (src_interval (source ol)) 1;
             missed_periods = saturating_duration_since now (next_tick ol) div interval_nanos;
             deadline = advance_deadline (next_tick ol) (src_interval (source ol)) missed_periods;
             seq = next_sequence ol + word_of_nat missed_periods;
             nominal_next_tick = instant_add deadline (src_interval (source ol));
             target = shift_instant nominal_next_tick (pending_phase_adjustment_nanos ol)
         in (ol\<lparr>next_tick := target, pending_phase_adjustment_nanos := 0, next_sequence := seq + 1\<rparr>,
             Some \<lparr>tick_output = src_output (source ol), sequence = seq,
                   nominal_interval = src_interval (source ol),
                   interval = saturating_duration_since target deadline,
                   render_deadline = deadline, presentation_target = target\<rparr>)))"

text \<open>
  The refresh interval of a mode: \<open>refresh\<close> is the \<open>i32\<close> millihertz value of the output mode;
  a value that is not positive counts as 60 Hz.
\<close>

definition refresh_interval :: "int \<Rightarrow> duration" where
  "refresh_interval refresh =
     (let refresh_millihz = (if 0 < refresh then nat refresh else 60000)
      in from_nanos (1000000000000 div refresh_millihz))"

section \<open>Arithmetic\<close>

lemma advance_deadline_eq:
  "advance_deadline deadline ival periods = deadline + int ival * int periods"
proof (induction deadline ival periods rule: advance_deadline.induct)
  case (1 deadline ival periods)
  show ?case
  proof (cases "0 < periods")
    case True
    define chunk where "chunk = min periods (2 ^ 32 - 1)"
    have "chunk \<le> periods" by (simp add: chunk_def)
    then have "int ival * int chunk + int ival * int (periods - chunk) = int ival * int periods"
      by (simp flip: distrib_left of_nat_add)
    moreover have "advance_deadline deadline ival periods =
        advance_deadline (instant_add deadline (ival * chunk)) ival (periods - chunk)"
      using True by (subst advance_deadline.simps) (simp add: Let_def chunk_def)
    ultimately show ?thesis
      using 1 [OF True chunk_def] by (simp add: instant_add_def)
  next
    case False
    then show ?thesis by (simp add: advance_deadline.simps)
  qed
qed

lemma shift_instant_eq [simp]: "shift_instant t a = t + a"
  by (simp add: shift_instant_def)

lemma signed_instant_delta_eq [simp]: "signed_instant_delta a b = a - b"
  by (simp add: signed_instant_delta_def saturating_duration_since_def)

lemma clamp_bounds: "lo \<le> hi \<Longrightarrow> lo \<le> clamp x lo hi \<and> clamp x lo hi \<le> hi"
  by (simp add: clamp_def)

lemma clamp_abs: "0 \<le> l \<Longrightarrow> abs (clamp x (- l) l) \<le> l"
  by (auto simp: clamp_def)

lemma clamp_step:
  assumes "abs p \<le> l" "q = clamp (p + clamp c (- l) l) (- l) l"
  shows "0 \<le> c \<Longrightarrow> p \<le> q \<and> abs (q - p) \<le> c" "c \<le> 0 \<Longrightarrow> q \<le> p \<and> abs (q - p) \<le> - c" "abs q \<le> l"
  using assms by (auto simp: clamp_def split: if_splits)

lemma max_one_pos: "0 < (p :: nat) \<Longrightarrow> max p 1 = p"
  by (auto simp: max_def)

lemma smod_bound: "0 < p \<Longrightarrow> abs (a smod p) < (p :: int)"
  using smod_int_range [of p a] by auto

lemma smod_cong: "\<exists>k. a smod p = a - k * (p :: int)"
  by (rule exI [of _ "a sdiv p"]) (simp add: minus_sdiv_mult_eq_smod)

lemma phase_error_properties:
  assumes "0 < ival"
  shows "2 * abs (nearest_phase_error delta ival) \<le> int ival \<and>
         (\<exists>k. nearest_phase_error delta ival = delta - k * int ival)"
proof -
  let ?p = "int ival"
  have p: "int (max ival 1) = ?p" using assms by (simp add: max_def)
  obtain k where k: "delta smod ?p = delta - k * ?p" using smod_cong by blast
  have bound: "abs (delta smod ?p) < ?p" using assms by (simp add: smod_bound)
  have half: "?p sdiv 2 = ?p div 2" by (simp add: signed_divide_int_def sgn_if)
  have "\<exists>j. nearest_phase_error delta ival = delta smod ?p - j * ?p"
    unfolding nearest_phase_error_def p Let_def
    by (auto intro: exI [of _ 0] exI [of _ 1] exI [of _ "- 1"])
  then obtain j where "nearest_phase_error delta ival = delta - (k + j) * ?p"
    by (auto simp: k algebra_simps)
  moreover have "2 * abs (nearest_phase_error delta ival) \<le> ?p"
    using bound unfolding nearest_phase_error_def p half Let_def by auto
  ultimately show ?thesis by blast
qed

section \<open>The contract of a frame clock\<close>

text \<open>
  What the frame pipeline needs from a clock, whatever keeps the time: a tick never starts before
  the clock's next edge nor after the current time, its target lies after its start and is the
  next edge of the clock, and neither tuning nor skipping moves the edge backwards.
\<close>

datatype clock_event = Tick instant | Presentation instant instant | Skip instant

fun clock_run ::
  "('s \<Rightarrow> instant \<Rightarrow> 's \<times> frame_tick option) \<Rightarrow> ('s \<Rightarrow> instant \<Rightarrow> instant \<Rightarrow> 's) \<Rightarrow>
   ('s \<Rightarrow> instant \<Rightarrow> 's) \<Rightarrow> 's \<Rightarrow> clock_event list \<Rightarrow> 's \<times> frame_tick list" where
  "clock_run tick tune skip s [] = (s, [])"
| "clock_run tick tune skip s (Tick now # es) =
     (let (s', t) = tick s now; (s'', ts) = clock_run tick tune skip s' es
      in (s'', (case t of None \<Rightarrow> ts | Some t \<Rightarrow> t # ts)))"
| "clock_run tick tune skip s (Presentation target presented_at # es) =
     clock_run tick tune skip (tune s target presented_at) es"
| "clock_run tick tune skip s (Skip now # es) = clock_run tick tune skip (skip s now) es"

locale frame_clock =
  fixes ok :: "'s \<Rightarrow> bool"
    and edge :: "'s \<Rightarrow> instant"
    and tick :: "'s \<Rightarrow> instant \<Rightarrow> 's \<times> frame_tick option"
    and tune :: "'s \<Rightarrow> instant \<Rightarrow> instant \<Rightarrow> 's"
    and skip :: "'s \<Rightarrow> instant \<Rightarrow> 's"
  assumes no_tick: "tick s now = (s', None) \<Longrightarrow> s' = s"
    and some_tick: "ok s \<Longrightarrow> tick s now = (s', Some t) \<Longrightarrow>
      ok s' \<and> edge s \<le> render_deadline t \<and> render_deadline t \<le> now \<and>
      render_deadline t < presentation_target t \<and> edge s' = presentation_target t"
    and tuned: "ok s \<Longrightarrow> ok (tune s target at) \<and> edge s \<le> edge (tune s target at)"
    and skipped: "ok s \<Longrightarrow> ok (skip s now) \<and> edge s \<le> edge (skip s now)"
begin

lemma run_ordered:
  "ok s \<Longrightarrow>
     (\<forall>t \<in> set (snd (clock_run tick tune skip s es)).
        edge s \<le> render_deadline t \<and> render_deadline t < presentation_target t) \<and>
     sorted_wrt (\<lambda>t u. presentation_target t \<le> render_deadline u)
       (snd (clock_run tick tune skip s es))"
proof (induction es arbitrary: s)
  case Nil
  then show ?case by simp
next
  case (Cons e es)
  show ?case
  proof (cases e)
    case (Tick now)
    obtain s' t where t: "tick s now = (s', t)" by fastforce
    show ?thesis
    proof (cases t)
      case None
      with t no_tick [of s now s'] Cons show ?thesis by (simp add: Tick case_prod_beta)
    next
      case (Some u)
      note law = some_tick [OF Cons.prems t [unfolded Some]]
      then have "ok s'" by simp
      from Cons.IH [OF this] law Cons.prems show ?thesis
        by (auto simp: Tick t Some case_prod_beta)
    qed
  next
    case (Presentation target at)
    from Cons.IH [of "tune s target at"] tuned [OF Cons.prems, of target at] show ?thesis
      by (auto simp: Presentation)
  next
    case (Skip now)
    from Cons.IH [of "skip s now"] skipped [OF Cons.prems, of now] show ?thesis
      by (auto simp: Skip)
  qed
qed

end

section \<open>A timeline is a frame clock\<close>

definition phase_ok :: "output_timeline \<Rightarrow> bool" where
  "phase_ok ol \<longleftrightarrow> abs (pending_phase_adjustment_nanos ol) \<le> int PHASE_LOCK_MAX_ADJUSTMENT"

definition timeline_ok :: "output_timeline \<Rightarrow> bool" where
  "timeline_ok ol \<longleftrightarrow> phase_ok ol \<and> PHASE_LOCK_MAX_ADJUSTMENT < src_interval (source ol)"

lemma phase_ok_new: "phase_ok (timeline_new src now)"
  by (simp add: phase_ok_def timeline_new_def)

lemma phase_ok_observe: "phase_ok ol \<Longrightarrow> phase_ok (timeline_observe_presentation ol target at)"
  by (simp add: phase_ok_def timeline_observe_presentation_def Let_def clamp_abs)

lemma phase_ok_skip: "phase_ok ol \<Longrightarrow> phase_ok (timeline_skip_elapsed_edges ol now)"
  by (simp add: phase_ok_def timeline_skip_elapsed_edges_def Let_def)

lemma phase_ok_take: "phase_ok ol \<Longrightarrow> phase_ok (fst (take_tick ol now))"
  by (simp add: phase_ok_def take_tick_def Let_def)

lemma source_frame [simp]:
  "source (timeline_observe_presentation ol target at) = source ol"
  "source (timeline_skip_elapsed_edges ol now) = source ol"
  "source (fst (take_tick ol now)) = source ol"
  "source (timeline_new src now) = src"
  by (simp_all add: timeline_observe_presentation_def timeline_skip_elapsed_edges_def take_tick_def
      timeline_new_def Let_def)

lemma observe_next_tick [simp]:
  "next_tick (timeline_observe_presentation ol target at) = next_tick ol"
  "next_sequence (timeline_observe_presentation ol target at) = next_sequence ol"
  by (simp_all add: timeline_observe_presentation_def Let_def)

lemma take_tick_cases:
  assumes "take_tick ol now = (ol', Some t)"
  obtains n where "next_tick ol \<le> now"
    "n = nat (now - next_tick ol) div max (src_interval (source ol)) 1"
    "t = \<lparr>tick_output = src_output (source ol), sequence = next_sequence ol + word_of_nat n,
          nominal_interval = src_interval (source ol),
          interval = nat (int (src_interval (source ol)) + pending_phase_adjustment_nanos ol),
          render_deadline = next_tick ol + int (src_interval (source ol)) * int n,
          presentation_target = next_tick ol + int (src_interval (source ol)) * int (Suc n) +
            pending_phase_adjustment_nanos ol\<rparr>"
    "ol' = ol\<lparr>next_tick := presentation_target t, pending_phase_adjustment_nanos := 0,
             next_sequence := sequence t + 1\<rparr>"
  using assms
  by (simp add: take_tick_def Let_def advance_deadline_eq instant_add_def saturating_duration_since_def
      algebra_simps split: if_splits)

lemma period_bounds:
  assumes "0 < (p :: nat)" "(a :: int) \<le> now" "n = nat (now - a) div p"
  shows "a + int p * int n \<le> now" "now < a + int p * int (Suc n)"
proof -
  have div: "int n = (now - a) div int p"
    using assms by (simp add: zdiv_int)
  have "int p * int n = (now - a) - (now - a) mod int p"
    unfolding div by (simp add: minus_mod_eq_mult_div)
  moreover have "0 \<le> (now - a) mod int p" "(now - a) mod int p < int p"
    using assms(1) by simp_all
  ultimately show "a + int p * int n \<le> now" "now < a + int p * int (Suc n)"
    by (simp_all add: algebra_simps)
qed

lemma div_ceil_bounds:
  assumes "0 < p" "0 < d" "n = div_ceil d p"
  shows "d \<le> p * n" "p * n < d + p" "0 < n"
proof -
  have eq: "p * n = (d + p - 1) - (d + p - 1) mod p"
    unfolding assms(3) div_ceil_def by (simp add: minus_mod_eq_mult_div)
  have "(d + p - 1) mod p < p" using assms(1) by simp
  moreover have "(d + p - 1) mod p \<le> d + p - 1" by simp
  ultimately show "d \<le> p * n" "p * n < d + p" using eq assms(1,2) by linarith+
  then show "0 < n" using assms(2) by (cases n) auto
qed

lemma skip_cases:
  assumes "next_tick ol < now" "0 < src_interval (source ol)"
  obtains n where "0 < n" "now \<le> next_tick ol + int (src_interval (source ol)) * int n"
    "next_tick ol + int (src_interval (source ol)) * int n < now + int (src_interval (source ol))"
    "timeline_skip_elapsed_edges ol now =
       ol\<lparr>next_tick := next_tick ol + int (src_interval (source ol)) * int n,
         next_sequence := next_sequence ol + word_of_nat n\<rparr>"
proof -
  define n where "n = div_ceil (nat (now - next_tick ol)) (src_interval (source ol))"
  have mx: "max (src_interval (source ol)) 1 = src_interval (source ol)" using assms(2) by simp
  have pos: "0 < nat (now - next_tick ol)" using assms(1) by simp
  note b = div_ceil_bounds [OF assms(2) pos n_def]
  have "int (nat (now - next_tick ol)) \<le> int (src_interval (source ol) * n)"
    "int (src_interval (source ol) * n) < int (nat (now - next_tick ol) + src_interval (source ol))"
    using b(1,2) by (simp_all only: of_nat_le_iff of_nat_less_iff)
  then show thesis
    using that [of n] b(3) assms(1)
    by (simp add: timeline_skip_elapsed_edges_def Let_def mx n_def advance_deadline_eq
        saturating_duration_since_def)
qed

interpretation timeline: frame_clock timeline_ok next_tick take_tick timeline_observe_presentation
  timeline_skip_elapsed_edges
proof
  fix ol now ol'
  assume "take_tick ol now = (ol', None)"
  then show "ol' = ol" by (simp add: take_tick_def Let_def split: if_splits)
next
  fix ol now ol' t
  assume ok: "timeline_ok ol" and take: "take_tick ol now = (ol', Some t)"
  have pos: "0 < src_interval (source ol)" using ok by (auto simp: timeline_ok_def)
  obtain n where n: "next_tick ol \<le> now" "n = nat (now - next_tick ol) div src_interval (source ol)"
    and t: "render_deadline t = next_tick ol + int (src_interval (source ol)) * int n"
      "presentation_target t = next_tick ol + int (src_interval (source ol)) * int (Suc n) +
        pending_phase_adjustment_nanos ol"
    and ol': "next_tick ol' = presentation_target t"
    by (rule take_tick_cases [OF take, unfolded max_one_pos [OF pos]]) simp
  have "timeline_ok ol'"
    using ok take phase_ok_take [of ol now] source_frame(3) [of ol now] by (simp add: timeline_ok_def)
  moreover have "render_deadline t < presentation_target t"
    using ok by (auto simp: t timeline_ok_def phase_ok_def algebra_simps)
  ultimately show "timeline_ok ol' \<and> next_tick ol \<le> render_deadline t \<and> render_deadline t \<le> now \<and>
      render_deadline t < presentation_target t \<and> next_tick ol' = presentation_target t"
    using period_bounds(1) [OF pos n] by (simp add: t(1) ol')
next
  fix ol target at
  assume "timeline_ok ol"
  then show "timeline_ok (timeline_observe_presentation ol target at) \<and>
      next_tick ol \<le> next_tick (timeline_observe_presentation ol target at)"
    by (simp add: timeline_ok_def phase_ok_observe)
next
  fix ol now
  assume ok: "timeline_ok ol"
  have "next_tick ol \<le> next_tick (timeline_skip_elapsed_edges ol now)"
    by (simp add: timeline_skip_elapsed_edges_def Let_def advance_deadline_eq)
  with ok show "timeline_ok (timeline_skip_elapsed_edges ol now) \<and>
      next_tick ol \<le> next_tick (timeline_skip_elapsed_edges ol now)"
    by (simp add: timeline_ok_def phase_ok_skip)
qed

definition timeline_run :: "output_timeline \<Rightarrow> clock_event list \<Rightarrow> output_timeline \<times> frame_tick list" where
  "timeline_run = clock_run take_tick timeline_observe_presentation timeline_skip_elapsed_edges"

section \<open>Properties\<close>

text \<open>
  Frames of an output never overlap. For every sequence of ticks, presentation reports
  and idle sleeps of an output whose period exceeds the largest phase correction, each tick's
  target lies after its render deadline, and the next tick starts no earlier than the target of
  every earlier one.
\<close>
lemma output_frames_never_overlap:
  assumes "PHASE_LOCK_MAX_ADJUSTMENT < src_interval src"
  shows "(\<forall>t \<in> set (snd (timeline_run (timeline_new src now) es)).
            now \<le> render_deadline t \<and> render_deadline t < presentation_target t) \<and>
         sorted_wrt (\<lambda>t u. presentation_target t \<le> render_deadline u)
           (snd (timeline_run (timeline_new src now) es))"
proof -
  have "timeline_ok (timeline_new src now)"
    using assms phase_ok_new [of src now] by (simp add: timeline_ok_def)
  from timeline.run_ordered [OF this, of es] show ?thesis
    unfolding timeline_run_def by (simp add: timeline_new_def)
qed

text \<open>
  One tick stands for every missed period. A tick that is taken late falls on the latest
  edge of the timeline's own phase that is not in the future, the sequence number counts the
  periods that were missed, and the target is one nominal period later plus the pending phase
  correction, which is at most 250 microseconds and is used up.
\<close>
lemma late_tick_catches_up:
  assumes "0 < src_interval (source ol)" "phase_ok ol" "take_tick ol now = (ol', Some t)"
  shows "\<exists>missed. render_deadline t = next_tick ol + int (src_interval (source ol)) * int missed \<and>
           render_deadline t \<le> now \<and> now < render_deadline t + int (src_interval (source ol)) \<and>
           sequence t = next_sequence ol + word_of_nat missed \<and>
           abs (presentation_target t - (render_deadline t + int (src_interval (source ol)))) \<le> 250000 \<and>
           next_tick ol' = presentation_target t \<and> next_sequence ol' = sequence t + 1 \<and>
           pending_phase_adjustment_nanos ol' = 0"
proof (rule take_tick_cases [OF assms(3)])
  fix n
  assume n: "next_tick ol \<le> now" "n = nat (now - next_tick ol) div max (src_interval (source ol)) 1"
    and t: "t = \<lparr>tick_output = src_output (source ol), sequence = next_sequence ol + word_of_nat n,
          nominal_interval = src_interval (source ol),
          interval = nat (int (src_interval (source ol)) + pending_phase_adjustment_nanos ol),
          render_deadline = next_tick ol + int (src_interval (source ol)) * int n,
          presentation_target = next_tick ol + int (src_interval (source ol)) * int (Suc n) +
            pending_phase_adjustment_nanos ol\<rparr>"
    and ol': "ol' = ol\<lparr>next_tick := presentation_target t, pending_phase_adjustment_nanos := 0,
             next_sequence := sequence t + 1\<rparr>"
  have "n = nat (now - next_tick ol) div src_interval (source ol)" using n(2) unfolding max_one_pos [OF assms(1)] .
  note b = period_bounds [OF assms(1) n(1) this]
  show ?thesis
    using b assms(2)
    by (intro exI [of _ n])
      (simp add: t ol' phase_ok_def PHASE_LOCK_MAX_ADJUSTMENT_def from_micros_def algebra_simps)
qed

text \<open>
  A timeline that keeps ticking at its own edges, for comparison with one that slept.
\<close>

fun tick_edges :: "nat \<Rightarrow> output_timeline \<Rightarrow> output_timeline" where
  "tick_edges 0 ol = ol"
| "tick_edges (Suc n) ol = tick_edges n (fst (take_tick ol (next_tick ol)))"

lemma tick_edges_eq:
  "0 < src_interval (source ol) \<Longrightarrow> pending_phase_adjustment_nanos ol = 0 \<Longrightarrow>
     tick_edges n ol = ol\<lparr>next_tick := next_tick ol + int (src_interval (source ol)) * int n,
                          next_sequence := next_sequence ol + word_of_nat n\<rparr>"
proof (induction n arbitrary: ol)
  case 0
  then show ?case by simp
next
  case (Suc n)
  have "fst (take_tick ol (next_tick ol)) =
      ol\<lparr>next_tick := next_tick ol + int (src_interval (source ol)),
         next_sequence := next_sequence ol + 1\<rparr>"
    using Suc.prems
    by (simp add: take_tick_def Let_def advance_deadline_eq saturating_duration_since_def instant_add_def)
  with Suc.IH [of "fst (take_tick ol (next_tick ol))"] Suc.prems show ?case
    by (simp add: algebra_simps)
qed

text \<open>
  An idle sleep keeps the rhythm. Skipping the edges that passed during a sleep gives
  exactly the timeline that had ticked at every one of them: the same phase, the same sequence
  numbers, and as its next tick the first edge that is not in the past.
\<close>
lemma idle_sleep_keeps_the_rhythm:
  assumes "0 < src_interval (source ol)" "pending_phase_adjustment_nanos ol = 0" "next_tick ol < now"
  shows "\<exists>n > 0. timeline_skip_elapsed_edges ol now = tick_edges n ol \<and>
           now \<le> next_tick (tick_edges n ol) \<and> next_tick (tick_edges (n - 1) ol) < now"
proof (rule skip_cases [OF assms(3,1)])
  fix n :: nat
  assume n: "0 < n" "now \<le> next_tick ol + int (src_interval (source ol)) * int n"
    "next_tick ol + int (src_interval (source ol)) * int n < now + int (src_interval (source ol))"
    and skip: "timeline_skip_elapsed_edges ol now =
       ol\<lparr>next_tick := next_tick ol + int (src_interval (source ol)) * int n,
         next_sequence := next_sequence ol + word_of_nat n\<rparr>"
  obtain m where m: "n = Suc m" using n(1) by (cases n) auto
  have "next_tick (tick_edges (n - 1) ol) < now"
    using n(3) by (simp add: m tick_edges_eq [OF assms(1,2)] algebra_simps)
  with n skip show ?thesis by (intro exI [of _ n]) (simp add: tick_edges_eq [OF assms(1,2)])
qed

text \<open>
  The phase lock corrects towards the measured edge, and gently. The measured error is
  taken to the nearest edge, so it is at most half a period; inside the 50 microsecond dead band
  nothing changes; otherwise the pending correction moves by an eighth of the error in its
  direction, by at most 250 microseconds, and never leaves that range.
\<close>
lemma phase_lock_is_bounded:
  assumes "0 < src_interval (source ol)" "phase_ok ol"
    and "e = nearest_phase_error (presented - target) (src_interval (source ol))"
    and "ol' = timeline_observe_presentation ol target presented"
  shows "2 * abs e \<le> int (src_interval (source ol)) \<and>
         (\<exists>k. e = presented - target - k * int (src_interval (source ol))) \<and>
         (abs e \<le> 50000 \<longrightarrow> ol' = ol) \<and>
         (0 \<le> e \<longrightarrow> pending_phase_adjustment_nanos ol \<le> pending_phase_adjustment_nanos ol') \<and>
         (e \<le> 0 \<longrightarrow> pending_phase_adjustment_nanos ol' \<le> pending_phase_adjustment_nanos ol) \<and>
         8 * abs (pending_phase_adjustment_nanos ol' - pending_phase_adjustment_nanos ol) \<le> abs e \<and>
         abs (pending_phase_adjustment_nanos ol') \<le> 250000"
proof -
  have p: "abs (pending_phase_adjustment_nanos ol) \<le> 250000"
    using assms(2) by (simp add: phase_ok_def PHASE_LOCK_MAX_ADJUSTMENT_def from_micros_def)
  have "e sdiv 8 = (if 0 \<le> e then e div 8 else - ((- e) div 8))"
    by (simp add: signed_divide_int_def sgn_if)
  then have d: "0 \<le> e \<Longrightarrow> 8 * (e sdiv 8) \<le> e \<and> 0 \<le> e sdiv 8"
    and m: "e \<le> 0 \<Longrightarrow> e \<le> 8 * (e sdiv 8) \<and> e sdiv 8 \<le> 0"
    by (auto split: if_splits)
  have pend: "pending_phase_adjustment_nanos ol' =
      (if abs e \<le> 50000 then pending_phase_adjustment_nanos ol
       else clamp (pending_phase_adjustment_nanos ol + clamp (e sdiv 8) (- 250000) 250000) (- 250000) 250000)"
    "abs e \<le> 50000 \<longrightarrow> ol' = ol"
    unfolding assms(3,4) timeline_observe_presentation_def
    by (auto simp: Let_def PHASE_LOCK_MAX_ADJUSTMENT_def PHASE_LOCK_DEADBAND_def from_micros_def
        PHASE_LOCK_GAIN_DIVISOR_def nat_le_iff)
  note step = clamp_step [OF p refl, of "e sdiv 8"]
  have "(0 \<le> e \<longrightarrow> pending_phase_adjustment_nanos ol \<le> pending_phase_adjustment_nanos ol') \<and>
         (e \<le> 0 \<longrightarrow> pending_phase_adjustment_nanos ol' \<le> pending_phase_adjustment_nanos ol) \<and>
         8 * abs (pending_phase_adjustment_nanos ol' - pending_phase_adjustment_nanos ol) \<le> abs e \<and>
         abs (pending_phase_adjustment_nanos ol') \<le> 250000"
    unfolding pend(1) using p step(3) d m step(1,2) by (cases "0 \<le> e") (simp, linarith)+
  with phase_error_properties [OF assms(1), of "presented - target"] pend(2) show ?thesis
    unfolding assms(3) [symmetric] by blast
qed

end
