(* ===== verification/Dirty_Ledger.thy ===== *)
theory Dirty_Ledger
  imports Main
begin

text \<open>
  The contract of a dirty ledger. Several components of the compositor follow the same protocol:
  a producer marks keys dirty, a consumer takes a revision, works on what is dirty at that moment
  and later acknowledges the revision, while the producer goes on. Nothing that was marked after
  the revision was taken may be retired by its acknowledgement.

  The reference ledger \<open>spec_step\<close> keeps the dirty keys and, for every revision handed out, the
  keys its acknowledgement retires. The locale \<open>dirty_ledger\<close> states the laws of an implementation
  that counts revisions; \<open>run_refines\<close> shows that such an implementation behaves as the
  reference as long as fewer than \<open>limit\<close> marks are made.
\<close>

datatype 'm ledger_event = Mark 'm | Take | Acknowledge nat

section \<open>The reference ledger\<close>

fun spec_step :: "('m \<Rightarrow> 'k set) \<Rightarrow> 'k set \<times> 'k set list \<Rightarrow> 'm ledger_event \<Rightarrow> 'k set \<times> 'k set list" where
  "spec_step keys (D, cs) (Mark m) = (D \<union> keys m, map (\<lambda>c. c - keys m) cs)"
| "spec_step keys (D, cs) Take = (D, cs @ [D])"
| "spec_step keys (D, cs) (Acknowledge i) =
     (if i < length cs then (D - cs ! i, map (\<lambda>c. c - cs ! i) cs) else (D, cs))"

abbreviation spec_run ::
  "('m \<Rightarrow> 'k set) \<Rightarrow> 'k set \<times> 'k set list \<Rightarrow> 'm ledger_event list \<Rightarrow> 'k set \<times> 'k set list" where
  "spec_run keys \<equiv> foldl (spec_step keys)"

fun marks :: "'m ledger_event list \<Rightarrow> nat" where
  "marks [] = 0"
| "marks (Mark m # es) = Suc (marks es)"
| "marks (Take # es) = marks es"
| "marks (Acknowledge i # es) = marks es"

lemma marks_append: "marks (xs @ ys) = marks xs + marks ys"
  by (induction xs rule: marks.induct) auto

fun takes :: "'m ledger_event list \<Rightarrow> nat" where
  "takes [] = 0"
| "takes (Mark m # es) = takes es"
| "takes (Take # es) = Suc (takes es)"
| "takes (Acknowledge i # es) = takes es"

text \<open>No event of the list acknowledges revision \<open>n\<close> or a later one.\<close>

fun acks_before :: "nat \<Rightarrow> 'm ledger_event list \<Rightarrow> bool" where
  "acks_before n [] = True"
| "acks_before n (Acknowledge i # es) = (i < n \<and> acks_before n es)"
| "acks_before n (Mark m # es) = acks_before n es"
| "acks_before n (Take # es) = acks_before n es"

lemma spec_run_takes: "length (snd (spec_run keys L es)) = length (snd L) + takes es"
proof (induction es arbitrary: L)
  case Nil
  then show ?case by simp
next
  case (Cons e es)
  then show ?case by (cases L; cases e) auto
qed

text \<open>A key that no outstanding revision covers survives their acknowledgement.\<close>

lemma spec_keeps_uncovered:
  "k \<in> fst L \<Longrightarrow> n \<le> length (snd L) \<Longrightarrow> (\<forall>i < n. k \<notin> snd L ! i) \<Longrightarrow> acks_before n es \<Longrightarrow>
     k \<in> fst (spec_run keys L es)"
proof (induction es arbitrary: L)
  case Nil
  then show ?case by simp
next
  case (Cons e es)
  obtain D cs where L: "L = (D, cs)" by fastforce
  show ?case
    by (cases e) (use Cons.prems Cons.IH [of "spec_step keys L e"] in \<open>auto simp: L nth_append\<close>)
qed

lemma spec_covers_subset:
  "(\<forall>c \<in> set (snd L). c \<subseteq> fst L) \<Longrightarrow> \<forall>c \<in> set (snd (spec_run keys L es)). c \<subseteq> fst (spec_run keys L es)"
proof (induction es arbitrary: L)
  case Nil
  then show ?case by simp
next
  case (Cons e es)
  obtain D cs where L: "L = (D, cs)" by fastforce
  have "\<forall>c \<in> set (snd (spec_step keys L e)). c \<subseteq> fst (spec_step keys L e)"
    using Cons.prems by (cases e) (auto simp: L)
  from Cons.IH [OF this] show ?case by simp
qed

text \<open>
  The two promises of the protocol: a mark survives every acknowledgement of a revision taken
  before it, and acknowledging the latest revision with nothing marked since leaves a clean ledger.
\<close>

lemma spec_no_lost_mark:
  assumes "acks_before (takes es) es'" "k \<in> keys m"
  shows "k \<in> fst (spec_run keys ({}, []) (es @ Mark m # es'))"
proof -
  obtain D cs where run: "spec_run keys ({}, []) es = (D, cs)" by fastforce
  with spec_run_takes [of keys "({}, [])" es] have len: "length cs = takes es" by simp
  show ?thesis
    using spec_keeps_uncovered [of k "(D \<union> keys m, map (\<lambda>c. c - keys m) cs)" "takes es" es' keys]
      assms len by (simp add: run)
qed

lemma spec_settles:
  "fst (spec_run keys ({}, []) (es @ [Take, Acknowledge (takes es)])) = {}"
proof -
  obtain D cs where run: "spec_run keys ({}, []) es = (D, cs)" by fastforce
  with spec_run_takes [of keys "({}, [])" es] show ?thesis by (simp add: run nth_append)
qed

section \<open>Implementations that count revisions\<close>

fun ledger_step ::
  "('m \<Rightarrow> 's \<Rightarrow> 's) \<Rightarrow> ('s \<Rightarrow> 'r) \<Rightarrow> ('r \<Rightarrow> 's \<Rightarrow> 's) \<Rightarrow> 's \<times> 'r list \<Rightarrow> 'm ledger_event \<Rightarrow> 's \<times> 'r list"
where
  "ledger_step mark revision ack (s, rs) (Mark m) = (mark m s, rs)"
| "ledger_step mark revision ack (s, rs) Take = (s, rs @ [revision s])"
| "ledger_step mark revision ack (s, rs) (Acknowledge i) =
     (if i < length rs then (ack (rs ! i) s, rs) else (s, rs))"

abbreviation ledger_run ::
  "('m \<Rightarrow> 's \<Rightarrow> 's) \<Rightarrow> ('s \<Rightarrow> 'r) \<Rightarrow> ('r \<Rightarrow> 's \<Rightarrow> 's) \<Rightarrow> 's \<times> 'r list \<Rightarrow> 'm ledger_event list \<Rightarrow>
     's \<times> 'r list" where
  "ledger_run mark revision ack \<equiv> foldl (ledger_step mark revision ack)"

text \<open>
  \<open>inv n s\<close> and \<open>valid n s r\<close> hold of a state and a revision after at most \<open>n\<close> marks; \<open>covered s r\<close>
  are the keys that acknowledging \<open>r\<close> would retire.
\<close>

locale dirty_ledger =
  fixes limit :: nat
    and inv :: "nat \<Rightarrow> 's \<Rightarrow> bool"
    and valid :: "nat \<Rightarrow> 's \<Rightarrow> 'r \<Rightarrow> bool"
    and keys :: "'m \<Rightarrow> 'k set"
    and mark :: "'m \<Rightarrow> 's \<Rightarrow> 's"
    and revision :: "'s \<Rightarrow> 'r"
    and ack :: "'r \<Rightarrow> 's \<Rightarrow> 's"
    and dirty :: "'s \<Rightarrow> 'k set"
    and covered :: "'s \<Rightarrow> 'r \<Rightarrow> 'k set"
  assumes mark_inv: "inv n s \<Longrightarrow> n < limit \<Longrightarrow> inv (Suc n) (mark m s)"
    and mark_valid: "inv n s \<Longrightarrow> n < limit \<Longrightarrow> valid n s r \<Longrightarrow> valid (Suc n) (mark m s) r"
    and mark_dirty: "inv n s \<Longrightarrow> n < limit \<Longrightarrow> dirty (mark m s) = dirty s \<union> keys m"
    and mark_covered: "inv n s \<Longrightarrow> n < limit \<Longrightarrow> valid n s r \<Longrightarrow>
      covered (mark m s) r = covered s r - keys m"
    and take_valid: "inv n s \<Longrightarrow> n \<le> limit \<Longrightarrow> valid n s (revision s)"
    and take_covered: "inv n s \<Longrightarrow> n \<le> limit \<Longrightarrow> covered s (revision s) = dirty s"
    and ack_inv: "inv n s \<Longrightarrow> n \<le> limit \<Longrightarrow> valid n s r \<Longrightarrow> inv n (ack r s)"
    and ack_valid: "inv n s \<Longrightarrow> n \<le> limit \<Longrightarrow> valid n s r \<Longrightarrow> valid n s q \<Longrightarrow> valid n (ack r s) q"
    and ack_dirty: "inv n s \<Longrightarrow> n \<le> limit \<Longrightarrow> valid n s r \<Longrightarrow> dirty (ack r s) = dirty s - covered s r"
    and ack_covered: "inv n s \<Longrightarrow> n \<le> limit \<Longrightarrow> valid n s r \<Longrightarrow> valid n s q \<Longrightarrow>
      covered (ack r s) q = covered s q - covered s r"
begin

text \<open>The simulation relation between an implementation and the reference ledger.\<close>

lemma step_refines:
  assumes "inv n s" "\<forall>r \<in> set rs. valid n s r" "n + marks [e] \<le> limit"
    and "ledger_step mark revision ack (s, rs) e = (s', rs')"
  shows "inv (n + marks [e]) s' \<and> (\<forall>r \<in> set rs'. valid (n + marks [e]) s' r) \<and>
         spec_step keys (dirty s, map (covered s) rs) e = (dirty s', map (covered s') rs')"
proof (cases e)
  case (Mark m)
  with assms have "n < limit" "s' = mark m s" "rs' = rs" by auto
  with Mark assms(1,2) show ?thesis by (simp add: mark_inv mark_valid mark_dirty mark_covered)
next
  case Take
  with assms have "n \<le> limit" "s' = s" "rs' = rs @ [revision s]" by auto
  with Take assms(1,2) show ?thesis by (auto simp: take_valid take_covered)
next
  case (Acknowledge i)
  show ?thesis
  proof (cases "i < length rs")
    case True
    then have v: "valid n s (rs ! i)" using assms(2) by simp
    from True Acknowledge assms have "n \<le> limit" "s' = ack (rs ! i) s" "rs' = rs" by auto
    with Acknowledge True assms(1,2) v show ?thesis
      by (simp add: ack_inv ack_valid ack_dirty ack_covered)
  next
    case False
    with Acknowledge assms show ?thesis by auto
  qed
qed

lemma run_inv:
  assumes "inv n s" "\<forall>r \<in> set rs. valid n s r" "n + marks es \<le> limit"
  shows "inv (n + marks es) (fst (ledger_run mark revision ack (s, rs) es)) \<and>
         (\<forall>r \<in> set (snd (ledger_run mark revision ack (s, rs) es)).
            valid (n + marks es) (fst (ledger_run mark revision ack (s, rs) es)) r)"
  using assms
proof (induction es arbitrary: n s rs)
  case Nil
  then show ?case by simp
next
  case (Cons e es)
  obtain s' rs' where step: "ledger_step mark revision ack (s, rs) e = (s', rs')" by fastforce
  have room: "n + marks [e] \<le> limit" "n + marks [e] + marks es \<le> limit"
    using Cons.prems(3) marks_append [of "[e]" es] by simp_all
  from step_refines [OF Cons.prems(1,2) room(1) step]
  have "inv (n + marks [e]) s' \<and> (\<forall>r \<in> set rs'. valid (n + marks [e]) s' r)" by simp
  with Cons.IH [of "n + marks [e]" s' rs'] room(2) show ?case
    using marks_append [of "[e]" es] by (simp add: step add.assoc)
qed

lemma run_refines:
  assumes "inv n s" "\<forall>r \<in> set rs. valid n s r" "n + marks es \<le> limit"
  shows "spec_run keys (dirty s, map (covered s) rs) es =
    (dirty (fst (ledger_run mark revision ack (s, rs) es)),
     map (covered (fst (ledger_run mark revision ack (s, rs) es)))
       (snd (ledger_run mark revision ack (s, rs) es)))"
  using assms
proof (induction es arbitrary: n s rs)
  case Nil
  then show ?case by simp
next
  case (Cons e es)
  obtain s' rs' where step: "ledger_step mark revision ack (s, rs) e = (s', rs')" by fastforce
  have split: "marks (e # es) = marks [e] + marks es" using marks_append [of "[e]" es] by simp
  with Cons.prems(3) have "n + marks [e] \<le> limit" by simp
  note ref = step_refines [OF Cons.prems(1,2) this step]
  have room: "n + marks [e] + marks es \<le> limit" using Cons.prems(3) split by simp
  with Cons.IH [of "n + marks [e]" s' rs'] ref step show ?case by simp
qed

lemma dirty_refines:
  "inv 0 s \<Longrightarrow> dirty s = {} \<Longrightarrow> marks es \<le> limit \<Longrightarrow>
     dirty (fst (ledger_run mark revision ack (s, []) es)) = fst (spec_run keys ({}, []) es)"
  using run_refines [of 0 s "[]" es] by simp

lemma no_lost_mark:
  assumes "inv 0 s" "dirty s = {}" "marks (es @ Mark m # es') \<le> limit" "acks_before (takes es) es'"
  shows "keys m \<subseteq> dirty (fst (ledger_run mark revision ack (s, []) (es @ Mark m # es')))"
  using dirty_refines [OF assms(1-3)] spec_no_lost_mark [OF assms(4)] by (metis subsetI)

lemma settles:
  assumes "inv 0 s" "dirty s = {}" "marks (es @ [Take, Acknowledge (takes es)]) \<le> limit"
  shows "dirty (fst (ledger_run mark revision ack (s, []) (es @ [Take, Acknowledge (takes es)]))) = {}"
  using dirty_refines [OF assms] spec_settles [of keys es] by simp

end

end
