(* ===== verification/Frame_Scheduler.thy ===== *)
theory Frame_Scheduler
  imports Frame_Timeline Dirty_Ledger
begin

text \<open>
  \<open>OutputTimelines\<close> and \<open>FrameScheduler\<close> of \<^verbatim>\<open>frame_scheduler.rs\<close>: which outputs are dirty and
  why, and which of them is rendered at a tick. Serials are wrapping \<open>u64\<close> words. The readiness
  callback of a step is a function argument; a scanout is given by its output, its power state and
  its refresh rate. The audit counters only feed a log line and are left out.
\<close>

section \<open>The timelines of all outputs\<close>

record scanout =
  scanout_output :: output_id
  powered :: bool
  refresh :: int

record output_timelines =
  timelines :: "output_timeline list"
  tick_list :: "frame_tick list"
  flutter_output :: "output_id option"

definition timeline_source :: "scanout \<Rightarrow> timeline_source" where
  "timeline_source scanout =
     \<lparr>src_output = scanout_output scanout, src_interval = refresh_interval (refresh scanout)\<rparr>"

text \<open>\<open>Iterator::min_by_key\<close> with the key (interval, output) keeps the first minimum.\<close>

definition source_key_less :: "timeline_source \<Rightarrow> timeline_source \<Rightarrow> bool" where
  "source_key_less a b \<longleftrightarrow> src_interval a < src_interval b \<or>
     src_interval a = src_interval b \<and> src_output a < src_output b"

fun min_source :: "timeline_source list \<Rightarrow> timeline_source option" where
  "min_source [] = None"
| "min_source (x # xs) =
     (case min_source xs of None \<Rightarrow> Some x | Some y \<Rightarrow> if source_key_less y x then Some y else Some x)"

definition timelines_replace ::
  "output_timelines \<Rightarrow> timeline_source list \<Rightarrow> instant \<Rightarrow> output_timelines" where
  "timelines_replace ot sources now =
     (let new = map (\<lambda>source. timeline_new source now) sources
      in ot\<lparr>timelines := new,
            flutter_output := map_option src_output (min_source (map source new)),
            tick_list := []\<rparr>)"

definition timelines_new :: "scanout list \<Rightarrow> instant \<Rightarrow> output_timelines" where
  "timelines_new scanouts now =
     timelines_replace \<lparr>timelines = [], tick_list = [], flutter_output = None\<rparr>
       (map timeline_source (filter powered scanouts)) now"

definition timelines_reconfigure ::
  "output_timelines \<Rightarrow> timeline_source list \<Rightarrow> instant \<Rightarrow> output_timelines" where
  "timelines_reconfigure ot sources now =
     (let sources_match = (length (timelines ot) = length sources \<and>
            (\<forall>src \<in> set sources. \<exists>ol \<in> set (timelines ot). source ol = src))
      in if sources_match then ot else timelines_replace ot sources now)"

fun advance_all :: "output_timeline list \<Rightarrow> instant \<Rightarrow> output_timeline list \<times> frame_tick list" where
  "advance_all [] now = ([], [])"
| "advance_all (ol # ols) now =
     (let (ol', t) = take_tick ol now; (ols', ts) = advance_all ols now
      in (ol' # ols', (case t of None \<Rightarrow> ts | Some t \<Rightarrow> t # ts)))"

definition timelines_advance :: "output_timelines \<Rightarrow> instant \<Rightarrow> output_timelines" where
  "timelines_advance ot now =
     (let (ols, ts) = advance_all (timelines ot) now in ot\<lparr>timelines := ols, tick_list := ts\<rparr>)"

definition timelines_flutter_tick :: "output_timelines \<Rightarrow> frame_tick option" where
  "timelines_flutter_tick ot =
     (case flutter_output ot of None \<Rightarrow> None
      | Some x \<Rightarrow> find (\<lambda>t. tick_output t = x) (tick_list ot))"

definition is_parked :: "output_timelines \<Rightarrow> bool" where
  "is_parked ot \<longleftrightarrow> timelines ot = []"

definition timelines_contains :: "output_timelines \<Rightarrow> output_id \<Rightarrow> bool" where
  "timelines_contains ot x \<longleftrightarrow> (\<exists>ol \<in> set (timelines ot). src_output (source ol) = x)"

text \<open>\<open>iter_mut().find(..)\<close>: only the first timeline of the output is updated.\<close>

fun update_first :: "('a \<Rightarrow> bool) \<Rightarrow> ('a \<Rightarrow> 'a) \<Rightarrow> 'a list \<Rightarrow> 'a list" where
  "update_first p f [] = []"
| "update_first p f (x # xs) = (if p x then f x # xs else x # update_first p f xs)"

definition timelines_observe_presentation ::
  "output_timelines \<Rightarrow> output_id \<Rightarrow> instant \<Rightarrow> instant \<Rightarrow> output_timelines" where
  "timelines_observe_presentation ot x target presented_at =
     ot\<lparr>timelines := update_first (\<lambda>ol. src_output (source ol) = x)
          (\<lambda>ol. timeline_observe_presentation ol target presented_at) (timelines ot)\<rparr>"

definition timelines_limit_dispatch_timeout ::
  "output_timelines \<Rightarrow> instant \<Rightarrow> duration \<Rightarrow> duration" where
  "timelines_limit_dispatch_timeout ot now timeout =
     foldl (\<lambda>timeout ol. min timeout (saturating_duration_since (next_tick ol) now)) timeout (timelines ot)"

definition timelines_skip_elapsed_edges :: "output_timelines \<Rightarrow> instant \<Rightarrow> output_timelines" where
  "timelines_skip_elapsed_edges ot now =
     ot\<lparr>timelines := map (\<lambda>ol. timeline_skip_elapsed_edges ol now) (timelines ot)\<rparr>"

section \<open>The scheduler\<close>

record output_frame_request =
  request_tick :: frame_tick
  dirty_serial :: u64
  lock_frame_token :: u64
  fingerprint_epoch :: u64

record dirty_output =
  serial :: u64
  texture_ids :: "int \<rightharpoonup> u64"

datatype frame_action = SkipFrame | Render "output_id option"

record frame_scheduler =
  outputs :: output_timelines
  configured_outputs :: "output_id set"
  dirty_outputs :: "output_id \<rightharpoonup> dirty_output"
  render_requests :: "output_frame_request list"
  render_texture_ids :: "int set"
  available_outputs :: "output_id list"
  next_dirty_serial :: u64
  flutter_request_latched :: bool
  flutter_outputs_dirty :: bool
  flutter_tick :: "frame_tick option"
  last_flutter_target :: "instant option"
  ticks_idle :: bool

definition scheduler_new :: "scanout list \<Rightarrow> instant \<Rightarrow> frame_scheduler" where
  "scheduler_new scanouts now =
     \<lparr>outputs = timelines_new scanouts now, configured_outputs = set (map scanout_output scanouts),
      dirty_outputs = Map.empty, render_requests = [], render_texture_ids = {},
      available_outputs = [], next_dirty_serial = 0, flutter_request_latched = False,
      flutter_outputs_dirty = False, flutter_tick = None, last_flutter_target = None,
      ticks_idle = False\<rparr>"

definition serial_at_or_before :: "u64 \<Rightarrow> u64 \<Rightarrow> bool" where
  "serial_at_or_before candidate reference \<longleftrightarrow> reference - candidate < 2 ^ 63"

definition allocate_dirty_serial :: "frame_scheduler \<Rightarrow> frame_scheduler \<times> u64" where
  "allocate_dirty_serial s =
     (let new = max (next_dirty_serial s + 1) 1 in (s\<lparr>next_dirty_serial := new\<rparr>, new))"

definition dirty_entry :: "frame_scheduler \<Rightarrow> output_id \<Rightarrow> dirty_output" where
  "dirty_entry s x = (case dirty_outputs s x of None \<Rightarrow> \<lparr>serial = 0, texture_ids = Map.empty\<rparr>
     | Some dirty \<Rightarrow> dirty)"

definition mark_app_dirty :: "output_id \<Rightarrow> int list \<Rightarrow> frame_scheduler \<Rightarrow> frame_scheduler" where
  "mark_app_dirty x textures s =
     (if x \<notin> configured_outputs s then s
      else
        (let (s, new) = allocate_dirty_serial s;
             dirty = dirty_entry s x
         in s\<lparr>dirty_outputs := (dirty_outputs s)(x \<mapsto>
               \<lparr>serial = new,
                texture_ids = fold (\<lambda>t m. m(t \<mapsto> new)) textures (texture_ids dirty)\<rparr>)\<rparr>))"

definition mark_output_dirty :: "output_id \<Rightarrow> frame_scheduler \<Rightarrow> frame_scheduler" where
  "mark_output_dirty x s = mark_app_dirty x [] s"

definition mark_all_dirty :: "frame_scheduler \<Rightarrow> frame_scheduler" where
  "mark_all_dirty s =
     foldl (\<lambda>s ol.
       (let x = src_output (source ol);
            (s, new) = allocate_dirty_serial s
        in s\<lparr>dirty_outputs := (dirty_outputs s)(x \<mapsto> (dirty_entry s x)\<lparr>serial := new\<rparr>)\<rparr>))
       s (timelines (outputs s))"

definition reconfigure_sources ::
  "frame_scheduler \<Rightarrow> output_id set \<Rightarrow> timeline_source list \<Rightarrow> instant \<Rightarrow> frame_scheduler" where
  "reconfigure_sources s configured powered_sources now =
     (let activated = map src_output
            (filter (\<lambda>src. \<not> timelines_contains (outputs s) (src_output src)) powered_sources);
          s = s\<lparr>configured_outputs := configured,
                outputs := timelines_reconfigure (outputs s) powered_sources now,
                dirty_outputs := (dirty_outputs s) |` configured\<rparr>;
          s = foldl (\<lambda>s x. mark_output_dirty x s) s activated
      in if is_parked (outputs s)
         then s\<lparr>flutter_request_latched := False, flutter_outputs_dirty := False, flutter_tick := None\<rparr>
         else s)"

definition reconfigure :: "frame_scheduler \<Rightarrow> scanout list \<Rightarrow> instant \<Rightarrow> frame_scheduler" where
  "reconfigure s scanouts now =
     reconfigure_sources s (set (map scanout_output scanouts))
       (map timeline_source (filter powered scanouts)) now"

definition complete_render :: "output_id \<Rightarrow> u64 \<Rightarrow> frame_scheduler \<Rightarrow> frame_scheduler" where
  "complete_render x completed s =
     (case dirty_outputs s x of
        None \<Rightarrow> s
      | Some dirty \<Rightarrow>
          if completed = 0 \<or> \<not> serial_at_or_before completed (serial dirty) then s
          else if serial dirty = completed
          then s\<lparr>dirty_outputs := (dirty_outputs s)(x := None)\<rparr>
          else s\<lparr>dirty_outputs := (dirty_outputs s)(x \<mapsto> dirty\<lparr>texture_ids :=
                   (\<lambda>t. case texture_ids dirty t of None \<Rightarrow> None
                     | Some ts \<Rightarrow> if serial_at_or_before ts completed then None else Some ts)\<rparr>)\<rparr>)"

definition scheduler_observe_presentation ::
  "frame_scheduler \<Rightarrow> output_id \<Rightarrow> instant \<Rightarrow> instant \<Rightarrow> frame_scheduler" where
  "scheduler_observe_presentation s x target presented_at =
     s\<lparr>outputs := timelines_observe_presentation (outputs s) x target presented_at\<rparr>"

text \<open>\<open>None\<close> is the panic of the \<open>expect\<close>.\<close>

definition flutter_frame_dispatched :: "frame_scheduler \<Rightarrow> frame_scheduler option" where
  "flutter_frame_dispatched s =
     (case flutter_tick s of
        None \<Rightarrow> None
      | Some t \<Rightarrow> Some (s\<lparr>flutter_tick := None, last_flutter_target := Some (presentation_target t),
                          flutter_request_latched := False, flutter_outputs_dirty := False\<rparr>))"

definition request_for :: "frame_scheduler \<Rightarrow> frame_tick \<Rightarrow> output_frame_request list" where
  "request_for s t =
     (if tick_output t \<notin> set (available_outputs s) then []
      else (case dirty_outputs s (tick_output t) of None \<Rightarrow> []
            | Some dirty \<Rightarrow> [\<lparr>request_tick = t, dirty_serial = serial dirty, lock_frame_token = 0,
                              fingerprint_epoch = 0\<rparr>]))"

definition textures_for :: "frame_scheduler \<Rightarrow> frame_tick \<Rightarrow> int set" where
  "textures_for s t =
     (if tick_output t \<notin> set (available_outputs s) then {}
      else (case dirty_outputs s (tick_output t) of None \<Rightarrow> {} | Some dirty \<Rightarrow> dom (texture_ids dirty)))"

definition step_begin ::
  "frame_scheduler \<Rightarrow> instant \<Rightarrow> bool \<Rightarrow> (output_id \<Rightarrow> bool \<times> bool) \<Rightarrow>
     frame_scheduler \<times> frame_tick option" where
  "step_begin s now flutter_requested output_available =
     (let s = (if flutter_requested \<and> \<not> flutter_request_latched s
               then s\<lparr>flutter_request_latched := True\<rparr> else s);
          ot = timelines_advance (outputs s) now;
          s = s\<lparr>outputs := ot, render_requests := [], render_texture_ids := {},
                available_outputs := filter (\<lambda>x. fst (output_available x) \<and> snd (output_available x))
                  (map tick_output (tick_list ot)),
                flutter_tick := None\<rparr>;
          ftick = (case timelines_flutter_tick ot of None \<Rightarrow> None
            | Some t \<Rightarrow> if flutter_request_latched s \<and> tick_output t \<in> set (available_outputs s) \<and>
                option_is_none_or (last_flutter_target s) (\<lambda>target. target < presentation_target t)
              then Some t else None);
          s = (if ftick \<noteq> None \<and> \<not> flutter_outputs_dirty s
               then (mark_all_dirty s)\<lparr>flutter_outputs_dirty := True\<rparr> else s)
      in (s, ftick))"

definition step_with_output_readiness ::
  "frame_scheduler \<Rightarrow> instant \<Rightarrow> bool \<Rightarrow> (output_id \<Rightarrow> bool \<times> bool) \<Rightarrow>
     frame_scheduler \<times> frame_action" where
  "step_with_output_readiness s now flutter_requested output_available =
     (let (s, ftick) = step_begin s now flutter_requested output_available;
          requests = concat (map (request_for s) (tick_list (outputs s)));
          s = s\<lparr>render_requests := requests,
                render_texture_ids := (\<Union>t \<in> set (tick_list (outputs s)). textures_for s t)\<rparr>
      in if requests = [] then (s, SkipFrame)
         else
           (let chosen = (case ftick of None \<Rightarrow> None
              | Some t \<Rightarrow> if \<exists>r \<in> set requests. tick_output (request_tick r) = tick_output t
                  then Some t else None)
            in (s\<lparr>flutter_tick := chosen\<rparr>, Render (map_option tick_output chosen))))"

definition output_tick_due :: "frame_scheduler \<Rightarrow> instant \<Rightarrow> bool" where
  "output_tick_due s now \<longleftrightarrow> (\<exists>ol \<in> set (timelines (outputs s)). next_tick ol \<le> now)"

definition scheduler_limit_dispatch_timeout :: "frame_scheduler \<Rightarrow> instant \<Rightarrow> duration \<Rightarrow> duration" where
  "scheduler_limit_dispatch_timeout s now timeout =
     (if ticks_idle s then timeout else timelines_limit_dispatch_timeout (outputs s) now timeout)"

definition wants_ticks :: "frame_scheduler \<Rightarrow> bool" where
  "wants_ticks s \<longleftrightarrow> flutter_request_latched s \<or> dirty_outputs s \<noteq> Map.empty"

definition idle_ticks :: "frame_scheduler \<Rightarrow> bool \<Rightarrow> frame_scheduler" where
  "idle_ticks s idle = s\<lparr>ticks_idle := idle\<rparr>"

definition resume_ticks :: "frame_scheduler \<Rightarrow> instant \<Rightarrow> frame_scheduler" where
  "resume_ticks s now =
     (if ticks_idle s
      then s\<lparr>ticks_idle := False, outputs := timelines_skip_elapsed_edges (outputs s) now\<rparr>
      else s\<lparr>ticks_idle := False\<rparr>)"

section \<open>Serial numbers\<close>

text \<open>
  How many serials ago \<open>x\<close> was allocated. Below half the range, the wrapping comparison of the code
  orders serials by their age.
\<close>

definition age :: "frame_scheduler \<Rightarrow> u64 \<Rightarrow> nat" where
  "age s x = unat (next_dirty_serial s - x)"

lemma half_range:
  fixes a b :: u64
  assumes "unat a < 2 ^ 63" "unat b < 2 ^ 63"
  shows "unat (a - b) < 2 ^ 63 \<longleftrightarrow> unat b \<le> unat a"
  using assms by (auto simp: unat_sub_if')

lemma serial_at_or_before_age:
  assumes "age s candidate < 2 ^ 63" "age s reference < 2 ^ 63"
  shows "serial_at_or_before candidate reference \<longleftrightarrow> age s reference \<le> age s candidate"
proof -
  have "reference - candidate =
      (next_dirty_serial s - candidate) - (next_dirty_serial s - reference)" by simp
  then have "serial_at_or_before candidate reference \<longleftrightarrow>
      unat ((next_dirty_serial s - candidate) - (next_dirty_serial s - reference)) < 2 ^ 63"
    by (simp only: serial_at_or_before_def word_less_nat_alt) simp
  with half_range [OF assms [unfolded age_def]] show ?thesis by (simp only: age_def)
qed

lemma allocate_fresh:
  "snd (allocate_dirty_serial s) \<noteq> 0"
  "snd (allocate_dirty_serial s) = next_dirty_serial (fst (allocate_dirty_serial s))"
proof -
  have "(0 :: u64) < max (next_dirty_serial s + 1) 1"
    by (rule less_le_trans [of _ 1]) simp_all
  then show "snd (allocate_dirty_serial s) \<noteq> 0" by (auto simp: allocate_dirty_serial_def Let_def)
qed (simp add: allocate_dirty_serial_def Let_def)

lemma unat_add_small: "unat (a :: u64) < 2 ^ 63 \<Longrightarrow> unat b < 2 ^ 63 \<Longrightarrow> unat (a + b) = unat a + unat b"
  by (simp add: unat_plus_if')

lemma allocate_age:
  obtains k where "0 < k" "k \<le> 2"
    "\<And>x. age s x < 2 ^ 63 \<Longrightarrow> age (fst (allocate_dirty_serial s)) x = age s x + k"
proof -
  define k :: u64 where "k = (if next_dirty_serial s + 1 = 0 then 2 else 1)"
  have next_serial: "next_dirty_serial (fst (allocate_dirty_serial s)) = next_dirty_serial s + k"
  proof (cases "next_dirty_serial s + 1 = 0")
    case True
    then have "next_dirty_serial s = - 1" by (metis add_eq_0_iff2)
    then show ?thesis by (simp add: allocate_dirty_serial_def Let_def k_def)
  next
    case False
    then have "1 \<le> next_dirty_serial s + 1" by (simp add: word_le_nat_alt Suc_le_eq unat_gt_0)
    then show ?thesis using False by (simp add: allocate_dirty_serial_def Let_def k_def max_def)
  qed
  have k: "0 < unat k" "unat k \<le> 2" by (simp_all add: k_def)
  have "age (fst (allocate_dirty_serial s)) x = age s x + unat k" if "age s x < 2 ^ 63" for x
  proof -
    have "unat ((next_dirty_serial s - x) + k) = unat (next_dirty_serial s - x) + unat k"
      using that k(2) by (intro unat_add_small) (simp_all add: age_def)
    moreover have "next_dirty_serial s + k - x = (next_dirty_serial s - x) + k" by simp
    ultimately show ?thesis by (simp only: age_def next_serial)
  qed
  with k show thesis by (rule that)
qed

lemma age_current [simp]: "age s (next_dirty_serial s) = 0"
  by (simp add: age_def)

lemma age_eq_iff: "age s x = age s y \<longleftrightarrow> x = y"
  unfolding age_def word_unat_eq_iff [symmetric] by auto

section \<open>The dirt of one output as a ledger\<close>

text \<open>
  The keys of output \<open>o\<close> are the output itself (\<open>None\<close>) and its textures. A mark names an output and
  a list of textures; the revision of a render is the serial in its request.
\<close>

definition output_keys :: "output_id \<Rightarrow> output_id \<times> int list \<Rightarrow> int option set" where
  "output_keys x m = (if fst m = x then insert None (Some ` set (snd m)) else {})"

definition scheduler_mark :: "output_id \<times> int list \<Rightarrow> frame_scheduler \<Rightarrow> frame_scheduler" where
  "scheduler_mark m = mark_app_dirty (fst m) (snd m)"

definition request_serial :: "output_id \<Rightarrow> frame_scheduler \<Rightarrow> u64" where
  "request_serial x s = (case dirty_outputs s x of None \<Rightarrow> 0 | Some dirty \<Rightarrow> serial dirty)"

definition output_dirt :: "output_id \<Rightarrow> frame_scheduler \<Rightarrow> int option set" where
  "output_dirt x s = (case dirty_outputs s x of None \<Rightarrow> {}
     | Some dirty \<Rightarrow> insert None (Some ` dom (texture_ids dirty)))"

definition output_covered :: "output_id \<Rightarrow> frame_scheduler \<Rightarrow> u64 \<Rightarrow> int option set" where
  "output_covered x s r = (case dirty_outputs s x of None \<Rightarrow> {}
     | Some dirty \<Rightarrow>
         if r = 0 \<or> \<not> serial_at_or_before r (serial dirty) then {}
         else (if serial dirty = r then {None} else {}) \<union>
              {Some t | t ts. texture_ids dirty t = Some ts \<and> serial_at_or_before ts r})"

definition dirt_inv :: "output_id \<Rightarrow> nat \<Rightarrow> frame_scheduler \<Rightarrow> bool" where
  "dirt_inv x n s \<longleftrightarrow> x \<in> configured_outputs s \<and>
     (\<forall>dirty. dirty_outputs s x = Some dirty \<longrightarrow> serial dirty \<noteq> 0 \<and> age s (serial dirty) \<le> 2 * n \<and>
        (\<forall>t ts. texture_ids dirty t = Some ts \<longrightarrow> age s (serial dirty) \<le> age s ts \<and> age s ts \<le> 2 * n))"

definition dirt_valid :: "output_id \<Rightarrow> nat \<Rightarrow> frame_scheduler \<Rightarrow> u64 \<Rightarrow> bool" where
  "dirt_valid x n s r \<longleftrightarrow> r = 0 \<or> (age s r \<le> 2 * n \<and>
     (\<forall>dirty. dirty_outputs s x = Some dirty \<longrightarrow> age s (serial dirty) \<le> age s r))"

definition dirt_limit :: nat where
  "dirt_limit = 2 ^ 62 - 1"

lemma below_limit: "n \<le> dirt_limit \<Longrightarrow> a \<le> 2 * n \<Longrightarrow> a < 2 ^ 63"
  by (simp add: dirt_limit_def)

lemma fold_textures:
  "fold (\<lambda>t m. m(t \<mapsto> v)) ts m j = (if j \<in> set ts then Some v else m j)"
  by (induction ts arbitrary: m) auto

text \<open>What a mark does to output \<open>x\<close>.\<close>

lemma mark_configured [simp]: "configured_outputs (scheduler_mark m s) = configured_outputs s"
  by (simp add: scheduler_mark_def mark_app_dirty_def allocate_dirty_serial_def Let_def)

lemma mark_other:
  "fst m \<noteq> x \<Longrightarrow> dirty_outputs (scheduler_mark m s) x = dirty_outputs s x"
  by (simp add: scheduler_mark_def mark_app_dirty_def allocate_dirty_serial_def Let_def)

lemma mark_serial:
  "next_dirty_serial (scheduler_mark m s) =
     (if fst m \<in> configured_outputs s then next_dirty_serial (fst (allocate_dirty_serial s))
      else next_dirty_serial s)"
  by (simp add: scheduler_mark_def mark_app_dirty_def allocate_dirty_serial_def Let_def)

lemma mark_same:
  "x \<in> configured_outputs s \<Longrightarrow>
     dirty_outputs (scheduler_mark (x, ts) s) x = Some \<lparr>serial = next_dirty_serial (scheduler_mark (x, ts) s),
       texture_ids = fold (\<lambda>t m. m(t \<mapsto> next_dirty_serial (scheduler_mark (x, ts) s))) ts
         (texture_ids (dirty_entry s x))\<rparr>"
  by (simp add: scheduler_mark_def mark_app_dirty_def allocate_dirty_serial_def dirty_entry_def Let_def)

lemma mark_age:
  obtains k where "k \<le> 2" "fst m \<in> configured_outputs s \<Longrightarrow> 0 < k"
    "\<And>x. age s x < 2 ^ 63 \<Longrightarrow> age (scheduler_mark m s) x = age s x + k"
proof (cases "fst m \<in> configured_outputs s")
  case True
  obtain k where k: "0 < k" "k \<le> 2"
    "\<And>x. age s x < 2 ^ 63 \<Longrightarrow> age (fst (allocate_dirty_serial s)) x = age s x + k"
    by (rule allocate_age [of s]) blast
  show thesis
    by (rule that [of k]) (use k True in \<open>simp_all add: age_def mark_serial\<close>)
next
  case False
  show thesis by (rule that [of 0]) (use False in \<open>simp_all add: age_def mark_serial\<close>)
qed


lemma mark_keeps_inv:
  assumes "dirt_inv x n s" "n < dirt_limit"
  shows "dirt_inv x (Suc n) (scheduler_mark m s)"
proof -
  obtain k where k: "k \<le> 2" "\<And>z. age s z < 2 ^ 63 \<Longrightarrow> age (scheduler_mark m s) z = age s z + k"
    by (rule mark_age [of m s]) blast
  have small: "age s z < 2 ^ 63" if "age s z \<le> 2 * n" for z
    by (rule below_limit [OF less_imp_le [OF assms(2)] that])
  show ?thesis
  proof (cases "fst m = x")
    case True
    then obtain ts where m: "m = (x, ts)" by (cases m) auto
    have conf: "x \<in> configured_outputs s" using assms(1) by (simp add: dirt_inv_def)
    have "next_dirty_serial (scheduler_mark m s) \<noteq> 0"
      using allocate_fresh [of s] conf by (simp add: m mark_serial)
    moreover have "age (scheduler_mark m s) v \<le> 2 * Suc n"
      if "texture_ids (dirty_entry s x) t = Some v" for t v
    proof -
      have "age s v \<le> 2 * n"
        using that assms(1) by (auto simp: dirt_inv_def dirty_entry_def split: option.splits)
      with k small show ?thesis by (metis add_le_mono mult_Suc_right add.commute)
    qed
    ultimately show ?thesis using conf
      by (auto simp: dirt_inv_def mark_same [OF conf] fold_textures m split: if_splits)
  next
    case False
    with assms(1) small k show ?thesis
      by (fastforce simp: dirt_inv_def mark_other)
  qed
qed

lemma mark_keeps_valid:
  assumes "dirt_inv x n s" "n < dirt_limit" "dirt_valid x n s r"
  shows "dirt_valid x (Suc n) (scheduler_mark m s) r"
proof -
  obtain k where k: "k \<le> 2" "\<And>z. age s z < 2 ^ 63 \<Longrightarrow> age (scheduler_mark m s) z = age s z + k"
    by (rule mark_age [of m s]) blast
  have small: "age s z < 2 ^ 63" if "age s z \<le> 2 * n" for z
    by (rule below_limit [OF less_imp_le [OF assms(2)] that])
  have conf: "x \<in> configured_outputs s" using assms(1) by (simp add: dirt_inv_def)
  show ?thesis
  proof (cases "fst m = x")
    case True
    then obtain ts where m: "m = (x, ts)" by (cases m) auto
    then show ?thesis
      using assms(3) k small conf by (auto simp: dirt_valid_def mark_same [OF conf])
  next
    case False
    with assms(1,3) k small show ?thesis
      by (fastforce simp: dirt_valid_def dirt_inv_def mark_other)
  qed
qed

lemma mark_adds_dirt:
  assumes "dirt_inv x n s"
  shows "output_dirt x (scheduler_mark m s) = output_dirt x s \<union> output_keys x m"
proof (cases "fst m = x")
  case True
  then obtain ts where m: "m = (x, ts)" by (cases m) auto
  have conf: "x \<in> configured_outputs s" using assms by (simp add: dirt_inv_def)
  have "dom (fold (\<lambda>t g. g(t \<mapsto> v)) ts f) = set ts \<union> dom f" for v and f :: "int \<rightharpoonup> u64"
    by (auto simp: dom_def fold_textures)
  then show ?thesis
    by (auto simp: output_dirt_def output_keys_def m mark_same [OF conf] dirty_entry_def
        split: option.splits)
next
  case False
  then show ?thesis by (simp add: output_dirt_def output_keys_def mark_other)
qed

lemma mark_uncovers:
  assumes "dirt_inv x n s" "n < dirt_limit" "dirt_valid x n s r"
  shows "output_covered x (scheduler_mark m s) r = output_covered x s r - output_keys x m"
proof (cases "fst m = x \<and> r \<noteq> 0")
  case True
  then obtain ts where m: "m = (x, ts)" by (cases m) auto
  let ?s = "scheduler_mark m s"
  have conf: "x \<in> configured_outputs s" using assms(1) by (simp add: dirt_inv_def)
  have le: "n \<le> dirt_limit" using assms(2) by simp
  have ar: "age s r \<le> 2 * n" using True assms(3) by (simp add: dirt_valid_def)
  obtain k where k: "0 < k" "\<And>z. age s z < 2 ^ 63 \<Longrightarrow> age ?s z = age s z + k"
    using conf by (rule_tac mark_age [of m s]) (auto simp: m)
  have "age ?s r \<le> 2 * Suc n"
    using mark_keeps_valid [OF assms, of m] True by (simp add: dirt_valid_def)
  then have r: "0 < age ?s r" "age ?s r < 2 ^ 63"
    using k ar below_limit [OF le ar] assms(2) below_limit [of "Suc n" "age ?s r"] by simp_all
  have new: "serial_at_or_before r (next_dirty_serial ?s)"
    "\<not> serial_at_or_before (next_dirty_serial ?s) r" "next_dirty_serial ?s \<noteq> r"
    using serial_at_or_before_age [of ?s r "next_dirty_serial ?s"]
      serial_at_or_before_age [of ?s "next_dirty_serial ?s" r] r by auto
  have old: "serial_at_or_before r (serial dirty)" if "dirty_outputs s x = Some dirty" for dirty
    using serial_at_or_before_age [of s r "serial dirty"] that assms(1,3) True ar
      below_limit [OF le] by (auto simp: dirt_valid_def dirt_inv_def)
  show ?thesis
    using new old True
    by (auto simp: output_covered_def output_keys_def m mark_same [OF conf] fold_textures
        dirty_entry_def split: option.splits if_splits)
next
  case False
  then show ?thesis
    by (cases "fst m = x")
      (auto simp: output_covered_def output_keys_def mark_other split: option.splits)
qed

text \<open>What completing a render does.\<close>

lemma complete_frame [simp]:
  "next_dirty_serial (complete_render x r s) = next_dirty_serial s"
  "configured_outputs (complete_render x r s) = configured_outputs s"
  "age (complete_render x r s) z = age s z"
  by (auto simp: complete_render_def age_def split: option.splits)

lemma complete_dirty:
  assumes "dirty_outputs s x = Some dirty" "r \<noteq> 0" "serial_at_or_before r (serial dirty)"
  shows "dirty_outputs (complete_render x r s) x =
    (if serial dirty = r then None
     else Some (dirty\<lparr>texture_ids := (\<lambda>t. case texture_ids dirty t of None \<Rightarrow> None
                     | Some ts \<Rightarrow> if serial_at_or_before ts r then None else Some ts)\<rparr>))"
  using assms by (simp add: complete_render_def)

lemma complete_ignored:
  assumes "dirty_outputs s x = None \<or> r = 0 \<or>
    (\<exists>dirty. dirty_outputs s x = Some dirty \<and> \<not> serial_at_or_before r (serial dirty))"
  shows "complete_render x r s = s"
  using assms by (auto simp: complete_render_def split: option.splits)

text \<open>
  The laws of the ledger for completed renders. A valid revision is at or before the current serial
  of the output, so completing it is never ignored.
\<close>

lemma valid_before:
  assumes "dirt_inv x n s" "n \<le> dirt_limit" "dirt_valid x n s r" "r \<noteq> 0" "dirty_outputs s x = Some dirty"
  shows "serial_at_or_before r (serial dirty)"
  using serial_at_or_before_age [of s r "serial dirty"] assms below_limit [OF assms(2)]
  by (auto simp: dirt_valid_def dirt_inv_def)

lemma complete_keeps_inv:
  assumes "dirt_inv x n s" "n \<le> dirt_limit" "dirt_valid x n s r"
  shows "dirt_inv x n (complete_render x r s)"
proof (cases "dirty_outputs s x = None \<or> r = 0")
  case True
  then show ?thesis using assms(1) complete_ignored [of s x r] by auto
next
  case False
  then obtain dirty where d: "dirty_outputs s x = Some dirty" "r \<noteq> 0" by auto
  note dirty = complete_dirty [OF d valid_before [OF assms d(2,1)]]
  show ?thesis
    using assms(1) d(1) unfolding dirt_inv_def dirty
    by (auto split: if_splits option.splits)
qed

lemma complete_keeps_valid:
  assumes "dirt_inv x n s" "n \<le> dirt_limit" "dirt_valid x n s r" "dirt_valid x n s q"
  shows "dirt_valid x n (complete_render x r s) q"
proof (cases "dirty_outputs s x = None \<or> r = 0")
  case True
  then show ?thesis using assms(4) complete_ignored [of s x r] by auto
next
  case False
  then obtain dirty where d: "dirty_outputs s x = Some dirty" "r \<noteq> 0" by auto
  note dirty = complete_dirty [OF d valid_before [OF assms(1-3) d(2,1)]]
  show ?thesis
    using assms(4) d(1) unfolding dirt_valid_def dirty by (auto split: if_splits)
qed

lemma revision_covers:
  assumes "dirt_inv x n s" "n \<le> dirt_limit"
  shows "dirt_valid x n s (request_serial x s)"
    "output_covered x s (request_serial x s) = output_dirt x s"
proof -
  show "dirt_valid x n s (request_serial x s)"
    using assms(1) by (auto simp: dirt_valid_def dirt_inv_def request_serial_def split: option.splits)
  have "serial_at_or_before ts (serial dirty)"
    if "dirty_outputs s x = Some dirty" "texture_ids dirty t = Some ts" for dirty t ts
    using that assms serial_at_or_before_age [of s ts "serial dirty"] below_limit [OF assms(2)]
    by (auto simp: dirt_inv_def)
  moreover have "serial dirty \<noteq> 0 \<and> serial_at_or_before (serial dirty) (serial dirty)"
    if "dirty_outputs s x = Some dirty" for dirty
    using that assms(1) by (simp add: dirt_inv_def serial_at_or_before_def)
  ultimately show "output_covered x s (request_serial x s) = output_dirt x s"
    by (auto simp: output_covered_def output_dirt_def request_serial_def split: option.splits)
qed

lemma complete_retires:
  assumes "dirt_inv x n s" "n \<le> dirt_limit" "dirt_valid x n s r"
  shows "output_dirt x (complete_render x r s) = output_dirt x s - output_covered x s r"
proof (cases "dirty_outputs s x = None \<or> r = 0")
  case True
  then show ?thesis
    using complete_ignored [of s x r] by (auto simp: output_covered_def split: option.splits)
next
  case False
  then obtain dirty where d: "dirty_outputs s x = Some dirty" "r \<noteq> 0" by auto
  note before = valid_before [OF assms d(2,1)]
  show ?thesis
  proof (cases "serial dirty = r")
    case True
    then have "output_covered x s r = output_dirt x s"
      using revision_covers(2) [OF assms(1,2)] d(1) by (simp add: request_serial_def)
    with True show ?thesis by (simp add: output_dirt_def [of x "complete_render x r s"] complete_dirty [OF d before])
  next
    case False
    then show ?thesis
      using before d by (auto simp: output_dirt_def output_covered_def complete_dirty [OF d before]
          dom_def image_iff split: option.splits)
  qed
qed

lemma output_covered_zero [simp]: "output_covered x s 0 = {}"
  by (simp add: output_covered_def split: option.split)

lemma complete_uncovers:
  assumes "dirt_inv x n s" "n \<le> dirt_limit" "dirt_valid x n s r" "dirt_valid x n s q"
  shows "output_covered x (complete_render x r s) q = output_covered x s q - output_covered x s r"
proof (cases "dirty_outputs s x = None \<or> r = 0 \<or> q = 0")
  case True
  then consider "dirty_outputs s x = None" | "r = 0" | "q = 0" by (elim disjE)
  then show ?thesis
    by cases (simp_all add: complete_ignored, simp add: output_covered_def)
next
  case False
  then obtain dirty where d: "dirty_outputs s x = Some dirty" "r \<noteq> 0" "q \<noteq> 0" by auto
  note before = valid_before [OF assms(1-3) d(2,1)] and beforeq = valid_before [OF assms(1,2,4) d(3,1)]
  show ?thesis
  proof (cases "serial dirty = r")
    case True
    then have "output_covered x s r = output_dirt x s"
      using revision_covers(2) [OF assms(1,2)] d(1) by (simp add: request_serial_def)
    moreover have "output_covered x s q \<subseteq> output_dirt x s"
      using d by (auto simp: output_covered_def output_dirt_def)
    ultimately show ?thesis
      using True by (auto simp: output_covered_def [of x "complete_render x r s"] complete_dirty [OF d(1,2) before])
  next
    case False
    then show ?thesis
      using before beforeq d
      by (auto simp: output_covered_def complete_dirty [OF d(1,2) before] split: option.splits if_splits)
  qed
qed

interpretation renders: dirty_ledger dirt_limit "dirt_inv x" "dirt_valid x" "output_keys x" scheduler_mark
  "request_serial x" "complete_render x" "output_dirt x" "output_covered x" for x
  by unfold_locales
    (rule mark_keeps_inv mark_keeps_valid mark_adds_dirt mark_uncovers revision_covers
      complete_keeps_inv complete_keeps_valid complete_retires complete_uncovers; assumption)+

section \<open>One step\<close>

lemma advance_all_ticks:
  "t \<in> set (snd (advance_all ols now)) \<longleftrightarrow> (\<exists>ol \<in> set ols. snd (take_tick ol now) = Some t)"
  by (induction ols)
    (auto simp: case_prod_beta Let_def split: option.splits)

lemma advance_all_sources: "map source (fst (advance_all ols now)) = map source ols"
  by (induction ols) (auto simp: case_prod_beta Let_def)

lemma take_tick_due: "(\<exists>t. snd (take_tick ol now) = Some t) \<longleftrightarrow> next_tick ol \<le> now"
  by (simp add: take_tick_def Let_def not_less)

lemma take_tick_output: "snd (take_tick ol now) = Some t \<Longrightarrow> tick_output t = src_output (source ol)"
  by (auto simp: take_tick_def Let_def split: if_splits)

text \<open>An output ticks exactly when a timeline of it is due.\<close>

lemma advance_tick_outputs:
  "tick_output ` set (snd (advance_all ols now)) =
     {src_output (source ol) | ol. ol \<in> set ols \<and> next_tick ol \<le> now}"
proof (intro set_eqI iffI)
  fix x
  assume "x \<in> tick_output ` set (snd (advance_all ols now))"
  then obtain t ol where "x = tick_output t" "ol \<in> set ols" "snd (take_tick ol now) = Some t"
    by (auto simp: advance_all_ticks)
  then show "x \<in> {src_output (source ol) | ol. ol \<in> set ols \<and> next_tick ol \<le> now}"
    using take_tick_due [of ol now] take_tick_output [of ol now t] by auto
next
  fix x
  assume "x \<in> {src_output (source ol) | ol. ol \<in> set ols \<and> next_tick ol \<le> now}"
  then obtain ol where ol: "ol \<in> set ols" "next_tick ol \<le> now" "x = src_output (source ol)" by auto
  then obtain t where "snd (take_tick ol now) = Some t" using take_tick_due [of ol now] by auto
  with ol take_tick_output [of ol now t] show "x \<in> tick_output ` set (snd (advance_all ols now))"
    by (force simp: advance_all_ticks image_iff)
qed

lemma mark_all_step:
  fixes ols :: "output_timeline list"
  defines "f \<equiv> \<lambda>s ol. (let x = src_output (source ol); (s, new) = allocate_dirty_serial s
        in s\<lparr>dirty_outputs := (dirty_outputs s)(x \<mapsto> (dirty_entry s x)\<lparr>serial := new\<rparr>)\<rparr>)"
  shows "dom (dirty_outputs (foldl f s ols)) = dom (dirty_outputs s) \<union> (src_output \<circ> source) ` set ols"
    "\<exists>d n. foldl f s ols = s\<lparr>dirty_outputs := d, next_dirty_serial := n\<rparr>"
proof (induction ols arbitrary: s)
  case (Cons ol ols)
  {
    case 1
    show ?case using Cons(1) [of "f s ol"] by (auto simp: f_def allocate_dirty_serial_def Let_def)
  next
    case 2
    obtain d n where "foldl f (f s ol) ols = (f s ol)\<lparr>dirty_outputs := d, next_dirty_serial := n\<rparr>"
      using Cons(2) by blast
    then show ?case by (simp add: f_def allocate_dirty_serial_def Let_def) blast
  }
qed (simp_all, metis frame_scheduler.surjective frame_scheduler.update_convs(3,7))

lemma mark_all_dirty_dom:
  "dom (dirty_outputs (mark_all_dirty s)) =
     dom (dirty_outputs s) \<union> {src_output (source ol) | ol. ol \<in> set (timelines (outputs s))}"
  unfolding mark_all_dirty_def mark_all_step(1) by auto

lemma mark_all_dirty_frame [simp]:
  "outputs (mark_all_dirty s) = outputs s"
  "available_outputs (mark_all_dirty s) = available_outputs s"
  "configured_outputs (mark_all_dirty s) = configured_outputs s"
  "flutter_request_latched (mark_all_dirty s) = flutter_request_latched s"
  "flutter_outputs_dirty (mark_all_dirty s) = flutter_outputs_dirty s"
  "flutter_tick (mark_all_dirty s) = flutter_tick s"
  "last_flutter_target (mark_all_dirty s) = last_flutter_target s"
  "ticks_idle (mark_all_dirty s) = ticks_idle s"
  using mark_all_step(2) [of s "timelines (outputs s)"] unfolding mark_all_dirty_def by auto

text \<open>What \<open>step_begin\<close> establishes before the requests are collected.\<close>

lemma step_begin_facts:
  assumes "step_begin s now fr avail = (s', ftick)"
  shows "timelines (outputs s') = fst (advance_all (timelines (outputs s)) now)"
    "tick_list (outputs s') = snd (advance_all (timelines (outputs s)) now)"
    "flutter_output (outputs s') = flutter_output (outputs s)"
    "set (available_outputs s') =
       {src_output (source ol) | ol. ol \<in> set (timelines (outputs s)) \<and> next_tick ol \<le> now \<and>
          fst (avail (src_output (source ol))) \<and> snd (avail (src_output (source ol)))}"
    "dom (dirty_outputs s) \<subseteq> dom (dirty_outputs s')"
    "flutter_tick s' = None" "last_flutter_target s' = last_flutter_target s"
    "flutter_request_latched s' = (fr \<or> flutter_request_latched s)"
    "ftick \<noteq> None \<Longrightarrow> flutter_outputs_dirty s \<or>
       {src_output (source ol) | ol. ol \<in> set (timelines (outputs s))} \<subseteq> dom (dirty_outputs s')"
    "ftick = Some t \<Longrightarrow> t \<in> set (tick_list (outputs s')) \<and> flutter_output (outputs s') = Some (tick_output t) \<and>
       flutter_request_latched s' \<and> tick_output t \<in> set (available_outputs s') \<and>
       option_is_none_or (last_flutter_target s) (\<lambda>target. target < presentation_target t)"
proof -
  define s0 where "s0 = (if fr \<and> \<not> flutter_request_latched s then s\<lparr>flutter_request_latched := True\<rparr> else s)"
  define ot where "ot = timelines_advance (outputs s0) now"
  have "outputs s0 = outputs s" by (simp add: s0_def)
  have ot: "timelines ot = fst (advance_all (timelines (outputs s)) now)"
    "tick_list ot = snd (advance_all (timelines (outputs s)) now)"
    "flutter_output ot = flutter_output (outputs s)"
    using \<open>outputs s0 = outputs s\<close> by (simp_all add: ot_def timelines_advance_def case_prod_beta Let_def)
  define s1 where "s1 = s0\<lparr>outputs := ot, render_requests := [], render_texture_ids := {},
     available_outputs := filter (\<lambda>x. fst (avail x) \<and> snd (avail x)) (map tick_output (tick_list ot)),
     flutter_tick := None\<rparr>"
  have s1: "outputs s1 = ot" "flutter_tick s1 = None" "dirty_outputs s1 = dirty_outputs s"
    "last_flutter_target s1 = last_flutter_target s" "flutter_outputs_dirty s1 = flutter_outputs_dirty s"
    "flutter_request_latched s1 = (fr \<or> flutter_request_latched s)"
    "available_outputs s1 = filter (\<lambda>x. fst (avail x) \<and> snd (avail x)) (map tick_output (tick_list ot))"
    by (auto simp: s1_def s0_def)
  define ft where "ft = (case timelines_flutter_tick ot of None \<Rightarrow> None
            | Some t \<Rightarrow> if flutter_request_latched s1 \<and> tick_output t \<in> set (available_outputs s1) \<and>
                option_is_none_or (last_flutter_target s1) (\<lambda>target. target < presentation_target t)
              then Some t else None)"
  have eq: "s' = (if ft \<noteq> None \<and> \<not> flutter_outputs_dirty s1
               then (mark_all_dirty s1)\<lparr>flutter_outputs_dirty := True\<rparr> else s1)" "ftick = ft"
    using assms unfolding step_begin_def Let_def s0_def [symmetric] ot_def [symmetric] s1_def [symmetric]
      ft_def [symmetric] by auto
  have out: "outputs s' = ot" "available_outputs s' = available_outputs s1"
    by (simp_all add: eq s1)
  show "timelines (outputs s') = fst (advance_all (timelines (outputs s)) now)"
    "tick_list (outputs s') = snd (advance_all (timelines (outputs s)) now)"
    "flutter_output (outputs s') = flutter_output (outputs s)"
    by (simp_all add: out ot)
  show "set (available_outputs s') =
       {src_output (source ol) | ol. ol \<in> set (timelines (outputs s)) \<and> next_tick ol \<le> now \<and>
          fst (avail (src_output (source ol))) \<and> snd (avail (src_output (source ol)))}"
    using advance_tick_outputs [of "timelines (outputs s)" now] by (auto simp: out s1 ot)
  show "dom (dirty_outputs s) \<subseteq> dom (dirty_outputs s')"
    using mark_all_dirty_dom [of s1] by (auto simp: eq s1)
  show "flutter_tick s' = None" "last_flutter_target s' = last_flutter_target s"
    "flutter_request_latched s' = (fr \<or> flutter_request_latched s)"
    by (simp_all add: eq s1)
  have outs: "{src_output (source ol) | ol. ol \<in> set (timelines (outputs s1))} =
      {src_output (source ol) | ol. ol \<in> set (timelines (outputs s))}"
    using arg_cong [OF advance_all_sources [of "timelines (outputs s)" now], of "\<lambda>l. src_output ` set l"]
    by (simp add: s1 ot image_image) blast
  show "ftick \<noteq> None \<Longrightarrow> flutter_outputs_dirty s \<or>
       {src_output (source ol) | ol. ol \<in> set (timelines (outputs s))} \<subseteq> dom (dirty_outputs s')"
    using mark_all_dirty_dom [of s1] outs by (auto simp: eq s1)
  show "ftick = Some t \<Longrightarrow> t \<in> set (tick_list (outputs s')) \<and> flutter_output (outputs s') = Some (tick_output t) \<and>
       flutter_request_latched s' \<and> tick_output t \<in> set (available_outputs s') \<and>
       option_is_none_or (last_flutter_target s) (\<lambda>target. target < presentation_target t)"
    by (auto simp: eq s1 ft_def timelines_flutter_tick_def find_Some_iff split: option.splits if_splits)
qed

lemma step_unfold:
  assumes "step_with_output_readiness s now fr avail = (s', action)"
  obtains s1 ftick chosen where "step_begin s now fr avail = (s1, ftick)"
    "s' = s1\<lparr>render_requests := concat (map (request_for s1) (tick_list (outputs s1))),
             render_texture_ids := (\<Union>t \<in> set (tick_list (outputs s1)). textures_for s1 t),
             flutter_tick := chosen\<rparr>"
    "render_requests s' = [] \<Longrightarrow> action = SkipFrame \<and> chosen = None"
    "render_requests s' \<noteq> [] \<Longrightarrow> action = Render (map_option tick_output chosen)"
    "chosen = None \<or> (chosen = ftick \<and>
       (\<exists>r \<in> set (render_requests s'). \<exists>t. ftick = Some t \<and> tick_output (request_tick r) = tick_output t))"
proof -
  obtain s1 ftick where b: "step_begin s now fr avail = (s1, ftick)" by fastforce
  define rs where "rs = concat (map (request_for s1) (tick_list (outputs s1)))"
  define tx where "tx = (\<Union>t \<in> set (tick_list (outputs s1)). textures_for s1 t)"
  define pick where "pick = (case ftick of None \<Rightarrow> None
              | Some t \<Rightarrow> if \<exists>r \<in> set rs. tick_output (request_tick r) = tick_output t
                  then Some t else None)"
  define chosen where "chosen = (if rs = [] then None else pick)"
  have none: "flutter_tick s1 = None" by (rule step_begin_facts(6) [OF b])
  have "(s', action) = (if rs = [] then (s1\<lparr>render_requests := rs, render_texture_ids := tx\<rparr>, SkipFrame)
      else (s1\<lparr>render_requests := rs, render_texture_ids := tx, flutter_tick := pick\<rparr>,
            Render (map_option tick_output pick)))"
    unfolding assms [symmetric]
    by (simp only: step_with_output_readiness_def b Let_def prod.case rs_def tx_def pick_def)
  then have eq: "s' = s1\<lparr>render_requests := rs, render_texture_ids := tx, flutter_tick := chosen\<rparr>"
    "action = (if rs = [] then SkipFrame else Render (map_option tick_output chosen))"
    using none by (auto simp: chosen_def split: if_splits)
  have rr: "render_requests s' = rs" by (simp add: eq)
  show thesis
    by (rule that [OF b eq(1) [unfolded rs_def tx_def]], unfold rr)
      (auto simp: eq(2) chosen_def pick_def split: option.splits if_splits)
qed

section \<open>Properties\<close>

text \<open>
  Claim C1 (finishing a render retires exactly the damage it covered). Start from a clean scheduler at
  any serial number, also one that is about to wrap. Let damage of an output's textures arrive while
  renders of the output are requested and complete in any order: the output and every texture damaged
  after a render was requested stay dirty when that render or an older one completes, the dirty
  keys are those of the reference ledger, and completing a render with no damage since leaves the
  output clean.
\<close>
theorem completed_render_keeps_newer_damage:
  assumes "x \<in> set (map scanout_output scanouts)"
    and "s0 = (scheduler_new scanouts now)\<lparr>next_dirty_serial := k\<rparr>"
    and "marks (es @ Mark (x, textures) # es') < 2 ^ 62" "acks_before (takes es) es'"
  shows "insert None (Some ` set textures) \<subseteq>
           output_dirt x (fst (ledger_run scheduler_mark (request_serial x) (complete_render x) (s0, [])
             (es @ Mark (x, textures) # es'))) \<and>
         output_dirt x (fst (ledger_run scheduler_mark (request_serial x) (complete_render x) (s0, [])
             (es @ Mark (x, textures) # es'))) =
           fst (spec_run (output_keys x) ({}, []) (es @ Mark (x, textures) # es')) \<and>
         dirty_outputs (fst (ledger_run scheduler_mark (request_serial x) (complete_render x) (s0, [])
             (es @ [Take, Acknowledge (takes es)]))) x = None"
proof (intro conjI)
  have start: "dirt_inv x 0 s0" "output_dirt x s0 = {}"
    using assms(1,2) by (simp_all add: dirt_inv_def output_dirt_def scheduler_new_def)
  have lim: "marks (es @ Mark (x, textures) # es') \<le> dirt_limit" using assms(3) by (simp add: dirt_limit_def)
  show "insert None (Some ` set textures) \<subseteq>
      output_dirt x (fst (ledger_run scheduler_mark (request_serial x) (complete_render x) (s0, [])
        (es @ Mark (x, textures) # es')))"
    using renders.no_lost_mark [OF start lim assms(4)] by (simp add: output_keys_def)
  show "output_dirt x (fst (ledger_run scheduler_mark (request_serial x) (complete_render x) (s0, [])
      (es @ Mark (x, textures) # es'))) =
      fst (spec_run (output_keys x) ({}, []) (es @ Mark (x, textures) # es'))"
    by (rule renders.dirty_refines [OF start lim])
  have "output_dirt x (fst (ledger_run scheduler_mark (request_serial x) (complete_render x) (s0, [])
      (es @ [Take, Acknowledge (takes es)]))) = {}"
    using lim by (intro renders.settles [OF start]) (simp add: marks_append)
  then show "dirty_outputs (fst (ledger_run scheduler_mark (request_serial x) (complete_render x) (s0, [])
      (es @ [Take, Acknowledge (takes es)]))) x = None"
    by (auto simp: output_dirt_def split: option.splits)
qed

theorem completed_render_keeps_newer_damage_witness:
  "insert None (Some ` set [11]) \<subseteq>
     output_dirt 7 (fst (ledger_run scheduler_mark (request_serial 7) (complete_render 7)
       ((scheduler_new [\<lparr>scanout_output = 7, powered = True, refresh = 60000\<rparr>] 0)\<lparr>next_dirty_serial := - 1\<rparr>, [])
       ([Mark (7, [10]), Take] @ Mark (7, [11]) # [Acknowledge 0])))"
  by (rule completed_render_keeps_newer_damage [THEN conjunct1, OF _ refl]) simp_all

text \<open>Membership in the collected requests.\<close>

lemma request_in_list:
  "r \<in> set (concat (map (request_for s) ts)) \<longleftrightarrow>
     (\<exists>t \<in> set ts. tick_output t \<in> set (available_outputs s) \<and>
        (\<exists>dirty. dirty_outputs s (tick_output t) = Some dirty \<and>
           r = \<lparr>request_tick = t, dirty_serial = serial dirty, lock_frame_token = 0, fingerprint_epoch = 0\<rparr>))"
proof -
  have "r \<in> set (request_for s t) \<longleftrightarrow> tick_output t \<in> set (available_outputs s) \<and>
      (\<exists>dirty. dirty_outputs s (tick_output t) = Some dirty \<and>
         r = \<lparr>request_tick = t, dirty_serial = serial dirty, lock_frame_token = 0, fingerprint_epoch = 0\<rparr>)" for t
    by (cases "dirty_outputs s (tick_output t)") (simp_all add: request_for_def)
  then show ?thesis by (simp only: set_concat set_map UN_iff bex_simps)
qed

lemma step_requests:
  assumes "step_with_output_readiness s now fr avail = (s', action)"
  shows "dom (dirty_outputs s) \<subseteq> dom (dirty_outputs s')"
    "(\<exists>r \<in> set (render_requests s'). tick_output (request_tick r) = x) \<longleftrightarrow>
       (\<exists>ol \<in> set (timelines (outputs s)). src_output (source ol) = x \<and> next_tick ol \<le> now) \<and>
       fst (avail x) \<and> snd (avail x) \<and> x \<in> dom (dirty_outputs s')"
proof -
  obtain s1 ftick where b: "step_begin s now fr avail = (s1, ftick)"
    and rr: "render_requests s' = concat (map (request_for s1) (tick_list (outputs s1)))"
      "dirty_outputs s' = dirty_outputs s1"
    by (rule step_unfold [OF assms]) simp
  note f = step_begin_facts [OF b]
  have outs: "tick_output ` set (tick_list (outputs s1)) =
      {src_output (source ol) | ol. ol \<in> set (timelines (outputs s)) \<and> next_tick ol \<le> now}"
    unfolding f(2) by (rule advance_tick_outputs)
  have "(\<exists>r \<in> set (render_requests s'). tick_output (request_tick r) = x) \<longleftrightarrow>
      x \<in> tick_output ` set (tick_list (outputs s1)) \<and> x \<in> set (available_outputs s1) \<and>
      x \<in> dom (dirty_outputs s1)"
    unfolding rr(1) Bex_def request_in_list by (force simp: image_iff)
  then show "(\<exists>r \<in> set (render_requests s'). tick_output (request_tick r) = x) \<longleftrightarrow>
       (\<exists>ol \<in> set (timelines (outputs s)). src_output (source ol) = x \<and> next_tick ol \<le> now) \<and>
       fst (avail x) \<and> snd (avail x) \<and> x \<in> dom (dirty_outputs s')"
    unfolding outs f(4) rr(2) by auto
  show "dom (dirty_outputs s) \<subseteq> dom (dirty_outputs s')" using f(5) rr(2) by simp
qed



lemma timeout_fold_le:
  "foldl (\<lambda>a ol. min a (saturating_duration_since (next_tick ol) now)) a ols \<le> a"
  "ol \<in> set ols \<Longrightarrow> foldl (\<lambda>a ol. min a (saturating_duration_since (next_tick ol) now)) a ols
     \<le> saturating_duration_since (next_tick ol) now"
proof (induction ols arbitrary: a)
  case (Cons o1 ols)
  {
    case 1
    show ?case using Cons(1) [of "min a (saturating_duration_since (next_tick o1) now)"] by simp
  next
    case 2
    show ?case
      using Cons(1,2) [of "min a (saturating_duration_since (next_tick o1) now)"] 2 by auto
  }
qed simp_all

text \<open>
  Claim C20 (a dirty output is never forgotten). While ticks are not idle, the event loop sleeps no
  longer than until the next edge of every output, and the first step at or after that edge requests
  a frame for the output if it is dirty and available.
\<close>
theorem dirty_output_is_rendered_at_its_edge:
  assumes "ol \<in> set (timelines (outputs s))" "dirty_outputs s (src_output (source ol)) = Some dirty"
    and "\<not> ticks_idle s" "next_tick ol \<le> later"
    and "fst (avail (src_output (source ol)))" "snd (avail (src_output (source ol)))"
  shows "scheduler_limit_dispatch_timeout s now timeout \<le> saturating_duration_since (next_tick ol) now \<and>
         (\<exists>r \<in> set (render_requests (fst (step_with_output_readiness s later fr avail))).
            tick_output (request_tick r) = src_output (source ol))"
proof
  show "scheduler_limit_dispatch_timeout s now timeout \<le> saturating_duration_since (next_tick ol) now"
    using timeout_fold_le(2) [OF assms(1)] assms(3)
    by (simp add: scheduler_limit_dispatch_timeout_def timelines_limit_dispatch_timeout_def)
  show "\<exists>r \<in> set (render_requests (fst (step_with_output_readiness s later fr avail))).
      tick_output (request_tick r) = src_output (source ol)"
    using assms step_requests [OF prod.collapse [symmetric], of s later fr avail] by blast
qed

theorem dirty_output_is_rendered_at_its_edge_witness:
  "\<exists>r \<in> set (render_requests (fst (step_with_output_readiness
      (mark_output_dirty 7 (scheduler_new [\<lparr>scanout_output = 7, powered = True, refresh = 60000\<rparr>] 0))
      9 False (\<lambda>_. (True, True))))). tick_output (request_tick r) = 7"
proof -
  let ?s = "mark_output_dirty 7 (scheduler_new [\<lparr>scanout_output = 7, powered = True, refresh = 60000\<rparr>] 0)"
  let ?ol = "timeline_new \<lparr>src_output = 7, src_interval = refresh_interval 60000\<rparr> 0"
  have "?ol \<in> set (timelines (outputs ?s))" "dirty_outputs ?s (src_output (source ?ol)) =
      Some \<lparr>serial = 1, texture_ids = Map.empty\<rparr>" "\<not> ticks_idle ?s" "next_tick ?ol \<le> 9"
    by (simp_all add: mark_output_dirty_def mark_app_dirty_def scheduler_new_def timelines_new_def
        timelines_replace_def timeline_source_def timeline_new_def allocate_dirty_serial_def
        dirty_entry_def Let_def)
  from dirty_output_is_rendered_at_its_edge [OF this, of "\<lambda>_. (True, True)"] show ?thesis by simp
qed

section \<open>The Flutter clock over time\<close>

text \<open>Everything that happens to the scheduler; \<open>Dispatched\<close> reports the target handed to Flutter.\<close>

datatype scheduler_event =
    AppDirty output_id "int list"
  | Step instant bool "output_id \<Rightarrow> bool \<times> bool"
  | Dispatched
  | Completed output_id u64
  | Presented output_id instant instant
  | Reconfigured "scanout list" instant
  | Idle bool
  | Resume instant

fun scheduler_step :: "frame_scheduler \<Rightarrow> scheduler_event \<Rightarrow> frame_scheduler \<times> instant list" where
  "scheduler_step s (AppDirty x ts) = (mark_app_dirty x ts s, [])"
| "scheduler_step s (Step now fr avail) = (fst (step_with_output_readiness s now fr avail), [])"
| "scheduler_step s Dispatched =
     (case flutter_frame_dispatched s of None \<Rightarrow> (s, [])
      | Some s' \<Rightarrow> (s', [presentation_target (the (flutter_tick s))]))"
| "scheduler_step s (Completed x k) = (complete_render x k s, [])"
| "scheduler_step s (Presented x target at) = (scheduler_observe_presentation s x target at, [])"
| "scheduler_step s (Reconfigured scanouts now) = (reconfigure s scanouts now, [])"
| "scheduler_step s (Idle b) = (idle_ticks s b, [])"
| "scheduler_step s (Resume now) = (resume_ticks s now, [])"

fun scheduler_run :: "frame_scheduler \<Rightarrow> scheduler_event list \<Rightarrow> frame_scheduler \<times> instant list" where
  "scheduler_run s [] = (s, [])"
| "scheduler_run s (e # es) =
     (let (s', ts) = scheduler_step s e; (s'', ts') = scheduler_run s' es in (s'', ts @ ts'))"

text \<open>The tick held for Flutter is later than the last target; only a dispatch moves that target.\<close>

definition flutter_ok :: "frame_scheduler \<Rightarrow> bool" where
  "flutter_ok s \<longleftrightarrow> (\<forall>t. flutter_tick s = Some t \<longrightarrow>
     option_is_none_or (last_flutter_target s) (\<lambda>target. target < presentation_target t))"

lemma mark_flutter_frame [simp]:
  "flutter_tick (mark_app_dirty x ts s) = flutter_tick s"
  "last_flutter_target (mark_app_dirty x ts s) = last_flutter_target s"
  "outputs (mark_app_dirty x ts s) = outputs s"
  "configured_outputs (mark_app_dirty x ts s) = configured_outputs s"
  by (simp_all add: mark_app_dirty_def allocate_dirty_serial_def Let_def)

lemma mark_many_frame:
  "flutter_tick (foldl (\<lambda>s x. mark_output_dirty x s) s xs) = flutter_tick s"
  "last_flutter_target (foldl (\<lambda>s x. mark_output_dirty x s) s xs) = last_flutter_target s"
  "outputs (foldl (\<lambda>s x. mark_output_dirty x s) s xs) = outputs s"
  "configured_outputs (foldl (\<lambda>s x. mark_output_dirty x s) s xs) = configured_outputs s"
  by (induction xs arbitrary: s) (simp_all add: mark_output_dirty_def)

lemma reconfigure_flutter:
  "last_flutter_target (reconfigure s scanouts now) = last_flutter_target s"
  "flutter_tick (reconfigure s scanouts now) = None \<or>
     flutter_tick (reconfigure s scanouts now) = flutter_tick s"
  by (simp_all add: reconfigure_def reconfigure_sources_def Let_def mark_many_frame)

lemma step_flutter:
  assumes "step_with_output_readiness s now fr avail = (s', action)"
  shows "last_flutter_target s' = last_flutter_target s" "flutter_ok s'"
proof -
  obtain s1 ftick chosen where b: "step_begin s now fr avail = (s1, ftick)"
    and s': "last_flutter_target s' = last_flutter_target s1" "flutter_tick s' = chosen"
    and ch: "chosen = None \<or> chosen = ftick"
    by (rule step_unfold [OF assms]) auto
  note f = step_begin_facts [OF b]
  show "last_flutter_target s' = last_flutter_target s" using s'(1) f(7) by simp
  with f(10) ch s'(2) show "flutter_ok s'" by (auto simp: flutter_ok_def)
qed

lemma scheduler_step_flutter:
  assumes "flutter_ok s" "scheduler_step s e = (s', ts)"
  shows "flutter_ok s' \<and>
    ((ts = [] \<and> last_flutter_target s' = last_flutter_target s) \<or>
     (\<exists>t. ts = [t] \<and> last_flutter_target s' = Some t \<and>
        option_is_none_or (last_flutter_target s) (\<lambda>target. target < t)))"
proof (cases e)
  case (Step now fr avail)
  with assms(2) have "step_with_output_readiness s now fr avail = (s', snd (step_with_output_readiness s now fr avail))"
    "ts = []" by auto
  with step_flutter [OF this(1)] show ?thesis by simp
next
  case Dispatched
  with assms show ?thesis
    by (cases "flutter_tick s") (auto simp: flutter_frame_dispatched_def flutter_ok_def)
next
  case (Reconfigured scanouts now)
  with assms reconfigure_flutter [of s scanouts now] show ?thesis by (auto simp: flutter_ok_def)
next
  case (Completed x k)
  with assms show ?thesis by (auto simp: flutter_ok_def complete_render_def split: option.splits if_splits)
next
  case (Resume now)
  with assms show ?thesis by (auto simp: flutter_ok_def resume_ticks_def split: if_splits)
qed (use assms in \<open>auto simp: flutter_ok_def scheduler_observe_presentation_def idle_ticks_def\<close>)

lemma scheduler_run_targets:
  "flutter_ok s \<Longrightarrow> sorted_wrt (<) (snd (scheduler_run s es)) \<and>
     (\<forall>t \<in> set (snd (scheduler_run s es)). option_is_none_or (last_flutter_target s) (\<lambda>target. target < t))"
proof (induction es arbitrary: s)
  case Nil
  then show ?case by simp
next
  case (Cons e es)
  obtain s' ts where st: "scheduler_step s e = (s', ts)" by fastforce
  note law = scheduler_step_flutter [OF Cons.prems st]
  with Cons.IH [of s'] show ?case
    by (cases "last_flutter_target s") (auto simp: st case_prod_beta intro: less_trans)
qed

text \<open>
  Flutter time never goes back. Over every interleaving of damage, steps, dispatches,
  completions, presentations, hotplug and idle sleeps, the presentation targets handed to Flutter are
  strictly increasing; and whenever a step announces a Flutter output, dispatching the frame does not
  panic.
\<close>
lemma flutter_targets_strictly_increase:
  "sorted_wrt (<) (snd (scheduler_run (scheduler_new scanouts now) es)) \<and>
   (step_with_output_readiness s t fr avail = (s', Render (Some x)) \<longrightarrow> flutter_frame_dispatched s' \<noteq> None)"
proof
  have "flutter_ok (scheduler_new scanouts now)" by (simp add: flutter_ok_def scheduler_new_def)
  from scheduler_run_targets [OF this]
  show "sorted_wrt (<) (snd (scheduler_run (scheduler_new scanouts now) es))" by blast
  show "step_with_output_readiness s t fr avail = (s', Render (Some x)) \<longrightarrow> flutter_frame_dispatched s' \<noteq> None"
  proof
    assume st: "step_with_output_readiness s t fr avail = (s', Render (Some x))"
    show "flutter_frame_dispatched s' \<noteq> None"
    proof (rule step_unfold [OF st])
      fix s1 ftick chosen
      assume s': "s' = s1\<lparr>render_requests := concat (map (request_for s1) (tick_list (outputs s1))),
             render_texture_ids := (\<Union>t \<in> set (tick_list (outputs s1)). textures_for s1 t),
             flutter_tick := chosen\<rparr>"
        and act: "render_requests s' = [] \<Longrightarrow> Render (Some x) = SkipFrame \<and> chosen = None"
          "render_requests s' \<noteq> [] \<Longrightarrow> Render (Some x) = Render (map_option tick_output chosen)"
      then have "chosen \<noteq> None" by (cases "render_requests s' = []"; cases chosen) auto
      then show ?thesis by (auto simp: s' flutter_frame_dispatched_def)
    qed
  qed
qed

text \<open>
  Waking an output always redraws it. After a reconfiguration every powered, configured
  output that had no timeline is dirty, damage of outputs that remain configured is kept and damage
  of the others is dropped; an unchanged set of powered modes keeps every timeline and its phase; and
  with no powered output the Flutter request is withdrawn.
\<close>
lemma reconfigure_redraws_woken_outputs:
  "(\<forall>src \<in> set sources. src_output src \<in> configured \<and> \<not> timelines_contains (outputs s) (src_output src) \<longrightarrow>
      src_output src \<in> dom (dirty_outputs (reconfigure_sources s configured sources now))) \<and>
   dom (dirty_outputs s) \<inter> configured \<subseteq> dom (dirty_outputs (reconfigure_sources s configured sources now)) \<and>
   dom (dirty_outputs (reconfigure_sources s configured sources now)) \<subseteq> configured \<and>
   (length sources = length (timelines (outputs s)) \<and> set sources \<subseteq> source ` set (timelines (outputs s)) \<longrightarrow>
      outputs (reconfigure_sources s configured sources now) = outputs s) \<and>
   (sources = [] \<longrightarrow> \<not> flutter_request_latched (reconfigure_sources s configured sources now) \<and>
      flutter_tick (reconfigure_sources s configured sources now) = None)"
proof -
  have dom_mark: "dom (dirty_outputs (foldl (\<lambda>s x. mark_output_dirty x s) s xs)) =
      dom (dirty_outputs s) \<union> (set xs \<inter> configured_outputs s)" for s xs
  proof (induction xs arbitrary: s)
    case (Cons x xs)
    have "dom (dirty_outputs (mark_output_dirty x s)) =
        dom (dirty_outputs s) \<union> ({x} \<inter> configured_outputs s)"
      by (auto simp: mark_output_dirty_def mark_app_dirty_def allocate_dirty_serial_def Let_def)
    with Cons [of "mark_output_dirty x s"] show ?case by (auto simp: mark_output_dirty_def)
  qed simp
  let ?r = "reconfigure_sources s configured sources now"
  have dom: "dom (dirty_outputs ?r) = dom (dirty_outputs s) \<inter> configured \<union>
      (src_output ` {src \<in> set sources. \<not> timelines_contains (outputs s) (src_output src)} \<inter> configured)"
    by (simp add: reconfigure_sources_def Let_def dom_mark)
  have out: "outputs ?r = timelines_reconfigure (outputs s) sources now"
    by (simp add: reconfigure_sources_def Let_def mark_many_frame)
  have keep: "outputs ?r = outputs s"
    if "length sources = length (timelines (outputs s))" "set sources \<subseteq> source ` set (timelines (outputs s))"
    using that unfolding out by (auto simp: timelines_reconfigure_def Let_def)
  have park: "\<not> flutter_request_latched ?r \<and> flutter_tick ?r = None" if "sources = []"
    using that by (auto simp: reconfigure_sources_def Let_def mark_many_frame is_parked_def
        timelines_reconfigure_def timelines_replace_def)
  show ?thesis using keep park unfolding dom by auto
qed

end
