(* ===== verification/Scene_Sync.thy ===== *)
theory Scene_Sync
  imports Denial_Base Dirty_Ledger
begin

text \<open>
  \<open>SceneSyncState\<close> of \<^verbatim>\<open>scene_sync.rs\<close>: which window metadata and which surface buffers still have
  to be published to Flutter. Revisions are \<open>u64\<close> words, with the wrap-around the code handles.
  The buffer side implements the dirty ledger; the metadata side publishes a superset of what
  changed.
\<close>

section \<open>The state and its operations\<close>

record scene_sync_state =
  metadata_revision :: u64
  synchronized_metadata_revision :: "u64 option"
  buffer_revision :: u64
  synchronized_buffer_revision :: u64
  dirty_surfaces :: "u64 \<rightharpoonup> u64"
  dirty_windows :: "u64 set"
  full_metadata :: bool

definition SceneSyncState_default :: scene_sync_state where
  "SceneSyncState_default = \<lparr>metadata_revision = 0, synchronized_metadata_revision = None,
     buffer_revision = 0, synchronized_buffer_revision = 0, dirty_surfaces = Map.empty,
     dirty_windows = {}, full_metadata = False\<rparr>"

datatype window_event_disposition = Send | Retain | Drop

definition window_event_disposition :: "bool \<Rightarrow> bool \<Rightarrow> window_event_disposition" where
  "window_event_disposition published live_toplevel =
     (if published then Send else if live_toplevel then Retain else Drop)"

definition mark_dirty :: "scene_sync_state \<Rightarrow> scene_sync_state" where
  "mark_dirty s =
     (let s = s\<lparr>full_metadata := True, dirty_windows := {}\<rparr>;
          s = (if metadata_revision s = - 1 then s\<lparr>synchronized_metadata_revision := None\<rparr> else s)
      in s\<lparr>metadata_revision := metadata_revision s + 1\<rparr>)"

definition mark_window_dirty :: "u64 \<Rightarrow> scene_sync_state \<Rightarrow> scene_sync_state" where
  "mark_window_dirty window_id s =
     (if metadata_revision s = - 1 then mark_dirty s
      else s\<lparr>metadata_revision := metadata_revision s + 1,
             dirty_windows := insert window_id (dirty_windows s)\<rparr>)"

definition metadata_windows :: "scene_sync_state \<Rightarrow> u64 set option" where
  "metadata_windows s =
     (if \<not> full_metadata s \<and> synchronized_metadata_revision s \<noteq> None
      then Some (dirty_windows s) else None)"

definition mark_surfaces_dirty :: "u64 list \<Rightarrow> scene_sync_state \<Rightarrow> scene_sync_state" where
  "mark_surfaces_dirty surface_ids s =
     (if surface_ids = [] then s
      else if buffer_revision s = - 1 then
        s\<lparr>buffer_revision := 1, synchronized_buffer_revision := 0,
          dirty_surfaces := fold (\<lambda>surface_id m. m(surface_id \<mapsto> 1)) surface_ids
            (\<lambda>k. map_option (\<lambda>_. 1) (dirty_surfaces s k))\<rparr>
      else
        (let revision = buffer_revision s + 1
         in s\<lparr>buffer_revision := revision,
              dirty_surfaces := fold (\<lambda>surface_id m. m(surface_id \<mapsto> revision)) surface_ids
                (dirty_surfaces s)\<rparr>))"

definition pending_metadata_revision :: "scene_sync_state \<Rightarrow> u64 option" where
  "pending_metadata_revision s =
     (if synchronized_metadata_revision s \<noteq> Some (metadata_revision s)
      then Some (metadata_revision s) else None)"

definition pending_buffer_revision :: "scene_sync_state \<Rightarrow> u64 option" where
  "pending_buffer_revision s =
     (if synchronized_buffer_revision s \<noteq> buffer_revision s then Some (buffer_revision s) else None)"

definition dirty_surface_ids :: "scene_sync_state \<Rightarrow> u64 \<Rightarrow> u64 set" where
  "dirty_surface_ids s revision =
     {surface_id. \<exists>dirty_revision. dirty_surfaces s surface_id = Some dirty_revision \<and>
        dirty_revision \<le> revision}"

definition mark_buffers_synchronized :: "u64 \<Rightarrow> scene_sync_state \<Rightarrow> scene_sync_state" where
  "mark_buffers_synchronized revision s =
     s\<lparr>synchronized_buffer_revision := revision,
       dirty_surfaces := (\<lambda>k. case dirty_surfaces s k of None \<Rightarrow> None
         | Some dirty_revision \<Rightarrow> if revision < dirty_revision then Some dirty_revision else None)\<rparr>"

definition mark_metadata_synchronized :: "u64 \<Rightarrow> u64 \<Rightarrow> scene_sync_state \<Rightarrow> scene_sync_state" where
  "mark_metadata_synchronized revision buffers s =
     (let s = s\<lparr>synchronized_metadata_revision := Some revision\<rparr>;
          s = (if metadata_revision s = revision
               then s\<lparr>full_metadata := False, dirty_windows := {}\<rparr> else s)
      in mark_buffers_synchronized buffers s)"

definition invalidate_runtime :: "scene_sync_state \<Rightarrow> scene_sync_state" where
  "invalidate_runtime s = s\<lparr>synchronized_metadata_revision := None\<rparr>"

section \<open>The scene as a dirty ledger\<close>

text \<open>
  The producer's changes; a publication takes both revisions at once and acknowledges them when
  Flutter has accepted the snapshot.
\<close>

datatype scene_change = SceneChanged | WindowChanged u64 | SurfacesChanged "u64 list" | RuntimeLost

fun scene_mark :: "scene_change \<Rightarrow> scene_sync_state \<Rightarrow> scene_sync_state" where
  "scene_mark SceneChanged s = mark_dirty s"
| "scene_mark (WindowChanged w) s = mark_window_dirty w s"
| "scene_mark (SurfacesChanged ids) s = mark_surfaces_dirty ids s"
| "scene_mark RuntimeLost s = invalidate_runtime s"

definition scene_revision :: "scene_sync_state \<Rightarrow> u64 \<times> u64" where
  "scene_revision s = (metadata_revision s, buffer_revision s)"

definition scene_ack :: "u64 \<times> u64 \<Rightarrow> scene_sync_state \<Rightarrow> scene_sync_state" where
  "scene_ack r = mark_metadata_synchronized (fst r) (snd r)"

abbreviation scene_run ::
  "scene_sync_state \<times> (u64 \<times> u64) list \<Rightarrow> scene_change ledger_event list \<Rightarrow>
     scene_sync_state \<times> (u64 \<times> u64) list" where
  "scene_run \<equiv> ledger_run scene_mark scene_revision scene_ack"

fun surfaces_of :: "scene_change \<Rightarrow> u64 set" where
  "surfaces_of (SurfacesChanged ids) = set ids"
| "surfaces_of _ = {}"

definition buffers_inv :: "nat \<Rightarrow> scene_sync_state \<Rightarrow> bool" where
  "buffers_inv n s \<longleftrightarrow> unat (metadata_revision s) \<le> n \<and> unat (buffer_revision s) \<le> n \<and>
     (\<forall>k v. dirty_surfaces s k = Some v \<longrightarrow> v \<le> buffer_revision s)"

definition buffers_valid :: "nat \<Rightarrow> scene_sync_state \<Rightarrow> u64 \<times> u64 \<Rightarrow> bool" where
  "buffers_valid n s r \<longleftrightarrow> fst r \<le> metadata_revision s \<and> snd r \<le> buffer_revision s"

lemma fold_mapsto:
  "fold (\<lambda>k m. m(k \<mapsto> v)) ks m j = (if j \<in> set ks then Some v else m j)"
  by (induction ks arbitrary: m) auto

lemma no_wrap:
  assumes "unat (x :: u64) \<le> n" "n < 2 ^ 64 - 1"
  shows "x \<noteq> - 1" "unat (x + 1) = Suc (unat x)" "x < x + 1"
proof -
  show "x \<noteq> - 1" using assms unat_max_u64 [of x] by auto
  then show "unat (x + 1) = Suc (unat x)" by (rule unat_succ_u64)
  then show "x < x + 1" by (simp add: word_less_nat_alt)
qed

lemma buffer_frame [simp]:
  "buffer_revision (mark_dirty s) = buffer_revision s"
  "buffer_revision (mark_window_dirty w s) = buffer_revision s"
  "dirty_surfaces (mark_dirty s) = dirty_surfaces s"
  "dirty_surfaces (mark_window_dirty w s) = dirty_surfaces s"
  "metadata_revision (mark_surfaces_dirty ids s) = metadata_revision s"
  "metadata_revision (mark_dirty s) = metadata_revision s + 1"
  "metadata_revision (mark_window_dirty w s) = metadata_revision s + 1"
  "buffer_revision (scene_ack r s) = buffer_revision s"
  "metadata_revision (scene_ack r s) = metadata_revision s"
  by (simp_all add: mark_dirty_def mark_window_dirty_def mark_surfaces_dirty_def scene_ack_def
      mark_metadata_synchronized_def mark_buffers_synchronized_def Let_def)

lemma scene_ack_surfaces:
  "dirty_surfaces (scene_ack r s) k = (case dirty_surfaces s k of None \<Rightarrow> None
     | Some v \<Rightarrow> if snd r < v then Some v else None)"
  by (simp add: scene_ack_def mark_metadata_synchronized_def mark_buffers_synchronized_def Let_def)

text \<open>One producer step, without a wrap.\<close>

lemma scene_mark_parts:
  assumes "buffers_inv n s" "n < 2 ^ 64 - 1"
  shows "metadata_revision s \<le> metadata_revision (scene_mark m s) \<and>
         unat (metadata_revision (scene_mark m s)) \<le> Suc n"
    and "buffer_revision s \<le> buffer_revision (scene_mark m s) \<and>
         unat (buffer_revision (scene_mark m s)) \<le> Suc n"
    and "surfaces_of m \<noteq> {} \<Longrightarrow> buffer_revision s < buffer_revision (scene_mark m s)"
    and "dirty_surfaces (scene_mark m s) k =
           (if k \<in> surfaces_of m then Some (buffer_revision (scene_mark m s)) else dirty_surfaces s k)"
proof -
  have u: "unat (metadata_revision s) \<le> n" "unat (buffer_revision s) \<le> n"
    using assms(1) by (simp_all add: buffers_inv_def)
  note nwm = no_wrap [OF u(1) assms(2)] and nwb = no_wrap [OF u(2) assms(2)]
  show "metadata_revision s \<le> metadata_revision (scene_mark m s) \<and>
      unat (metadata_revision (scene_mark m s)) \<le> Suc n"
    using u nwm by (cases m) (auto simp: invalidate_runtime_def)
  show "buffer_revision s \<le> buffer_revision (scene_mark m s) \<and>
      unat (buffer_revision (scene_mark m s)) \<le> Suc n"
    using u nwb by (cases m) (auto simp: invalidate_runtime_def mark_surfaces_dirty_def Let_def)
  show "surfaces_of m \<noteq> {} \<Longrightarrow> buffer_revision s < buffer_revision (scene_mark m s)"
    using nwb by (cases m) (auto simp: mark_surfaces_dirty_def Let_def)
  show "dirty_surfaces (scene_mark m s) k =
      (if k \<in> surfaces_of m then Some (buffer_revision (scene_mark m s)) else dirty_surfaces s k)"
    using nwb by (cases m) (auto simp: invalidate_runtime_def mark_surfaces_dirty_def Let_def fold_mapsto)
qed

interpretation buffers: dirty_ledger "2 ^ 64 - 1" buffers_inv buffers_valid surfaces_of scene_mark
  scene_revision scene_ack "\<lambda>s. dom (dirty_surfaces s)" "\<lambda>s r. dirty_surface_ids s (snd r)"
proof
  fix n s m
  assume inv: "buffers_inv n s" and n: "n < 2 ^ 64 - (1 :: nat)"
  note parts = scene_mark_parts [OF inv n, of m]
  show "buffers_inv (Suc n) (scene_mark m s)"
    using parts(1,2,4) inv unfolding buffers_inv_def by (auto split: if_splits intro: order_trans)
  show "dom (dirty_surfaces (scene_mark m s)) = dom (dirty_surfaces s) \<union> surfaces_of m"
    using parts(4) by (auto simp: dom_def split: if_splits)
next
  fix n s m r
  assume inv: "buffers_inv n s" and n: "n < 2 ^ 64 - (1 :: nat)" and r: "buffers_valid n s r"
  note parts = scene_mark_parts [OF inv n, of m]
  show "buffers_valid (Suc n) (scene_mark m s) r"
    using parts(1,2) r by (auto simp: buffers_valid_def intro: order_trans)
  have "\<not> buffer_revision (scene_mark m s) \<le> snd r" if "k \<in> surfaces_of m" for k
  proof -
    have "snd r \<le> buffer_revision s" using r by (simp add: buffers_valid_def)
    also have "\<dots> < buffer_revision (scene_mark m s)" using parts(3) that by blast
    finally show ?thesis by (simp only: not_le)
  qed
  then show "dirty_surface_ids (scene_mark m s) (snd r) = dirty_surface_ids s (snd r) - surfaces_of m"
    using parts(4) by (auto simp: dirty_surface_ids_def split: if_splits)
next
  fix n s
  assume inv: "buffers_inv n s"
  show "buffers_valid n s (scene_revision s)" by (simp add: buffers_valid_def scene_revision_def)
  show "dirty_surface_ids s (snd (scene_revision s)) = dom (dirty_surfaces s)"
    using inv by (auto simp: dirty_surface_ids_def scene_revision_def buffers_inv_def)
next
  fix n s r
  assume inv: "buffers_inv n s"
  show "buffers_inv n (scene_ack r s)"
    using inv by (auto simp: buffers_inv_def scene_ack_surfaces split: option.splits if_splits)
  show "dom (dirty_surfaces (scene_ack r s)) = dom (dirty_surfaces s) - dirty_surface_ids s (snd r)"
    by (auto simp: dirty_surface_ids_def scene_ack_surfaces dom_def linorder_not_less split: option.splits)
next
  fix n s r q
  assume "buffers_valid n s q"
  then show "buffers_valid n (scene_ack r s) q" by (simp add: buffers_valid_def)
  show "dirty_surface_ids (scene_ack r s) (snd q) =
      dirty_surface_ids s (snd q) - dirty_surface_ids s (snd r)"
    by (auto simp: dirty_surface_ids_def scene_ack_surfaces linorder_not_less split: option.splits)
qed

lemma buffers_start:
  "buffers_inv 0 SceneSyncState_default" "dom (dirty_surfaces SceneSyncState_default) = {}"
  by (simp_all add: buffers_inv_def SceneSyncState_default_def)

section \<open>Properties\<close>

text \<open>
  Claim C5 (no buffer commit is lost between a snapshot and its acknowledgement). For every
  sequence of commits, snapshots and acknowledgements, the surfaces that wait for publication are
  exactly those of the reference ledger: a surface committed after a snapshot was taken stays dirty
  whichever older snapshots are acknowledged afterwards, and acknowledging a snapshot with no commit
  since leaves nothing dirty.
\<close>
theorem buffer_commits_survive_older_acknowledgements:
  assumes "marks (es @ Mark (SurfacesChanged ids) # es') < 2 ^ 64" "acks_before (takes es) es'"
  shows "set ids \<subseteq> dom (dirty_surfaces (fst (scene_run (SceneSyncState_default, [])
           (es @ Mark (SurfacesChanged ids) # es')))) \<and>
         dom (dirty_surfaces (fst (scene_run (SceneSyncState_default, [])
           (es @ Mark (SurfacesChanged ids) # es')))) =
           fst (spec_run surfaces_of ({}, []) (es @ Mark (SurfacesChanged ids) # es')) \<and>
         dom (dirty_surfaces (fst (scene_run (SceneSyncState_default, [])
           (es @ [Take, Acknowledge (takes es)])))) = {}"
proof (intro conjI)
  have lim: "marks (es @ Mark (SurfacesChanged ids) # es') \<le> 2 ^ 64 - 1" using assms(1) by simp
  show "set ids \<subseteq> dom (dirty_surfaces (fst (scene_run (SceneSyncState_default, [])
      (es @ Mark (SurfacesChanged ids) # es'))))"
    using buffers.no_lost_mark [OF buffers_start lim assms(2)] by simp
  show "dom (dirty_surfaces (fst (scene_run (SceneSyncState_default, [])
      (es @ Mark (SurfacesChanged ids) # es')))) =
      fst (spec_run surfaces_of ({}, []) (es @ Mark (SurfacesChanged ids) # es'))"
    by (rule buffers.dirty_refines [OF buffers_start lim])
  show "dom (dirty_surfaces (fst (scene_run (SceneSyncState_default, [])
      (es @ [Take, Acknowledge (takes es)])))) = {}"
    using lim by (intro buffers.settles [OF buffers_start]) (simp add: marks_append)
qed

theorem buffer_commits_survive_older_acknowledgements_witness:
  "set [7] \<subseteq> dom (dirty_surfaces (fst (scene_run (SceneSyncState_default, [])
     ([Mark (SurfacesChanged [5]), Take] @ Mark (SurfacesChanged [7]) # [Acknowledge 0]))))"
  using buffer_commits_survive_older_acknowledgements
    [of "[Mark (SurfacesChanged [5]), Take]" "[7]" "[Acknowledge 0]"] by simp

text \<open>What a snapshot of the metadata contains about one window.\<close>

definition window_pending :: "u64 \<Rightarrow> scene_sync_state \<Rightarrow> bool" where
  "window_pending w s \<longleftrightarrow> pending_metadata_revision s \<noteq> None \<and>
     (case metadata_windows s of None \<Rightarrow> True | Some ws \<Rightarrow> w \<in> ws)"

text \<open>
  After the change of window \<open>w\<close> the first \<open>k\<close> snapshots are older than the metadata revision, and
  so is every snapshot Flutter has accepted.
\<close>

definition window_waits :: "nat \<Rightarrow> u64 \<Rightarrow> scene_sync_state \<times> (u64 \<times> u64) list \<Rightarrow> bool" where
  "window_waits k w c \<longleftrightarrow> k \<le> length (snd c) \<and> (\<forall>i < k. fst (snd c ! i) < metadata_revision (fst c)) \<and>
     (full_metadata (fst c) \<or> w \<in> dirty_windows (fst c)) \<and>
     option_is_none_or (synchronized_metadata_revision (fst c)) (\<lambda>r. r < metadata_revision (fst c))"

lemma window_waits_pending: "window_waits k w c \<Longrightarrow> window_pending w (fst c)"
  by (auto simp: window_waits_def window_pending_def pending_metadata_revision_def metadata_windows_def)

lemma window_waits_step:
  assumes "window_waits k w c" "buffers_inv n (fst c)" "n + marks [e] \<le> 2 ^ 64 - 1" "acks_before k [e]"
  shows "window_waits k w (ledger_step scene_mark scene_revision scene_ack c e)"
proof -
  obtain s rs where c: "c = (s, rs)" by fastforce
  show ?thesis
  proof (cases e)
    case (Mark m)
    have n: "n < 2 ^ 64 - 1" using assms(3) Mark by simp
    have u: "unat (metadata_revision s) \<le> n" using assms(2) by (simp add: buffers_inv_def c)
    note nw = no_wrap [OF u n]
    have mono: "metadata_revision s \<le> metadata_revision (scene_mark m s)"
      using scene_mark_parts(1) [OF _ n, of s m] assms(2) by (simp add: c)
    have "full_metadata (scene_mark m s) \<or> w \<in> dirty_windows (scene_mark m s)"
      using assms(1) nw by (cases m) (auto simp: c window_waits_def mark_dirty_def mark_window_dirty_def
          mark_surfaces_dirty_def invalidate_runtime_def Let_def)
    moreover have "synchronized_metadata_revision (scene_mark m s) = None \<or>
        synchronized_metadata_revision (scene_mark m s) = synchronized_metadata_revision s"
      using nw by (cases m) (auto simp: mark_dirty_def mark_window_dirty_def
          mark_surfaces_dirty_def invalidate_runtime_def Let_def)
    ultimately show ?thesis
      using assms(1) mono
      by (cases "synchronized_metadata_revision s")
        (auto simp: c Mark window_waits_def intro: less_le_trans)
  next
    case Take
    with assms(1) show ?thesis by (auto simp: c window_waits_def nth_append)
  next
    case (Acknowledge i)
    then have i: "i < k" "i < length rs" using assms(1,4) by (auto simp: c window_waits_def)
    then have "fst (rs ! i) < metadata_revision s" using assms(1) by (auto simp: c window_waits_def)
    with assms(1) i show ?thesis
      by (auto simp: c Acknowledge window_waits_def)
        (auto simp: scene_ack_def mark_metadata_synchronized_def mark_buffers_synchronized_def Let_def)
  qed
qed

lemma window_waits_run:
  "window_waits k w c \<Longrightarrow> buffers_inv n (fst c) \<Longrightarrow> (\<forall>r \<in> set (snd c). buffers_valid n (fst c) r) \<Longrightarrow>
     n + marks es \<le> 2 ^ 64 - 1 \<Longrightarrow> acks_before k es \<Longrightarrow> window_waits k w (scene_run c es)"
proof (induction es arbitrary: c n)
  case Nil
  then show ?case by simp
next
  case (Cons e es)
  let ?c = "ledger_step scene_mark scene_revision scene_ack c e"
  have room: "n + marks [e] \<le> 2 ^ 64 - 1" "n + marks [e] + marks es \<le> 2 ^ 64 - 1"
    using Cons.prems(4) marks_append [of "[e]" es] by simp_all
  have acks: "acks_before k [e]" "acks_before k es" using Cons.prems(5) by (cases e; simp)+
  have "window_waits k w ?c" by (rule window_waits_step [OF Cons.prems(1,2) room(1) acks(1)])
  moreover have "buffers_inv (n + marks [e]) (fst ?c) \<and>
      (\<forall>r \<in> set (snd ?c). buffers_valid (n + marks [e]) (fst ?c) r)"
    using buffers.run_inv [of n "fst c" "snd c" "[e]"] Cons.prems(2,3) room(1) by simp
  ultimately show ?case using Cons.IH [of ?c "n + marks [e]"] room(2) acks(2) by simp
qed

text \<open>Flutter never acknowledges a metadata revision that was not handed out.\<close>

lemma synchronized_revision_known:
  assumes "marks es \<le> 2 ^ 64 - 1"
  shows "option_is_none_or (synchronized_metadata_revision (fst (scene_run (SceneSyncState_default, []) es)))
           (\<lambda>r. r \<le> metadata_revision (fst (scene_run (SceneSyncState_default, []) es)))"
  using assms
proof (induction es rule: rev_induct)
  case Nil
  then show ?case by (simp add: SceneSyncState_default_def)
next
  case (snoc e es)
  obtain s rs where c: "scene_run (SceneSyncState_default, []) es = (s, rs)" by fastforce
  have lim: "marks es \<le> 2 ^ 64 - 1" using snoc.prems by (simp add: marks_append)
  have inv: "buffers_inv (marks es) s" "\<forall>r \<in> set rs. buffers_valid (marks es) s r"
    using buffers.run_inv [OF buffers_start(1), of "[]" es] lim by (simp_all add: c)
  have IH: "option_is_none_or (synchronized_metadata_revision s) (\<lambda>r. r \<le> metadata_revision s)"
    using snoc.IH [OF lim] by (simp add: c)
  show ?case
  proof (cases e)
    case (Mark m)
    then have n: "marks es < 2 ^ 64 - 1" using snoc.prems by (simp add: marks_append)
    note mono = scene_mark_parts(1) [OF inv(1) n, of m]
    have "metadata_revision s \<noteq> - 1"
      using no_wrap(1) [OF _ n, of "metadata_revision s"] inv(1) by (simp add: buffers_inv_def)
    then have "synchronized_metadata_revision (scene_mark m s) = None \<or>
        synchronized_metadata_revision (scene_mark m s) = synchronized_metadata_revision s"
      by (cases m) (auto simp: mark_dirty_def mark_window_dirty_def
          mark_surfaces_dirty_def invalidate_runtime_def Let_def)
    with mono IH show ?thesis
      by (cases "synchronized_metadata_revision s") (auto simp: c Mark intro: order_trans)
  next
    case Take
    with IH show ?thesis by (simp add: c)
  next
    case (Acknowledge i)
    with IH inv(2) show ?thesis
      by (auto simp: c buffers_valid_def)
        (simp add: scene_ack_def mark_metadata_synchronized_def mark_buffers_synchronized_def Let_def)
  qed
qed

text \<open>
  No window change is lost between a snapshot and its acknowledgement. Whatever was
  published before, once window \<open>w\<close> changes a metadata publication stays pending and contains \<open>w\<close>,
  or is a complete one, until a snapshot taken after the change is acknowledged; acknowledging older
  snapshots, global changes and a lost Flutter runtime in between do not matter.
\<close>
lemma window_changes_survive_older_acknowledgements:
  assumes "marks (es @ Mark (WindowChanged w) # es') < 2 ^ 64" "acks_before (takes es) es'"
  shows "window_pending w
           (fst (scene_run (SceneSyncState_default, []) (es @ Mark (WindowChanged w) # es')))"
proof -
  obtain s rs where c: "scene_run (SceneSyncState_default, []) es = (s, rs)" by fastforce
  have lim: "marks es < 2 ^ 64 - 1" "Suc (marks es) + marks es' \<le> 2 ^ 64 - 1"
    using assms(1) by (simp_all add: marks_append)
  have inv: "buffers_inv (marks es) s" "\<forall>r \<in> set rs. buffers_valid (marks es) s r"
    using buffers.run_inv [OF buffers_start(1), of "[]" es] lim by (simp_all add: c)
  have len: "length rs = takes es"
    using spec_run_takes [of surfaces_of "({}, [])" es]
      buffers.run_refines [OF buffers_start(1), of "[]" es] buffers_start(2) lim by (simp add: c)
  have nw: "metadata_revision s \<noteq> - 1" "metadata_revision s < metadata_revision s + 1"
    using no_wrap [OF _ lim(1), of "metadata_revision s"] inv(1) by (auto simp: buffers_inv_def)
  have known: "option_is_none_or (synchronized_metadata_revision s) (\<lambda>r. r \<le> metadata_revision s)"
    using synchronized_revision_known [of es] lim(1) by (simp add: c)
  have "window_waits (takes es) w (mark_window_dirty w s, rs)"
    using inv(2) nw known len
    by (cases "synchronized_metadata_revision s")
      (auto simp: window_waits_def mark_window_dirty_def buffers_valid_def all_set_conv_all_nth
        intro: le_less_trans)
  moreover have "buffers_inv (Suc (marks es)) (mark_window_dirty w s)"
    "\<forall>r \<in> set rs. buffers_valid (Suc (marks es)) (mark_window_dirty w s) r"
    using buffers.mark_inv [OF inv(1) lim(1), of "WindowChanged w"]
      buffers.mark_valid [OF inv(1) lim(1), of _ "WindowChanged w"] inv(2) by simp_all
  ultimately have "window_waits (takes es) w (scene_run (mark_window_dirty w s, rs) es')"
    using window_waits_run [of "takes es" w "(mark_window_dirty w s, rs)" "Suc (marks es)" es']
      lim(2) assms(2) by simp
  from window_waits_pending [OF this] show ?thesis by (simp add: c)
qed

text \<open>
  Window events and the first snapshot. A window event is sent exactly for a published
  window, kept for a live window that is not published yet, and dropped otherwise; and the very
  first publication, or the first after Flutter restarts, is pending and complete even when no
  window ever changed.
\<close>
lemma first_snapshot_is_complete:
  "(window_event_disposition p l = Send \<longleftrightarrow> p) \<and>
   (window_event_disposition p l = Retain \<longleftrightarrow> \<not> p \<and> l) \<and>
   (\<exists>r. pending_metadata_revision SceneSyncState_default = Some r) \<and>
   metadata_windows SceneSyncState_default = None \<and>
   (\<exists>r. pending_metadata_revision (invalidate_runtime s) = Some r) \<and>
   metadata_windows (invalidate_runtime s) = None"
  by (simp add: window_event_disposition_def pending_metadata_revision_def metadata_windows_def
      SceneSyncState_default_def invalidate_runtime_def)

end
