(* ===== verification/Feedback_Clock.thy ===== *)
theory Feedback_Clock
  imports Denial_Base
begin

text \<open>
  Validation of page-flip metadata (\<^verbatim>\<open>presentation_clock/feedback.rs\<close> and the translation onto
  \<open>Instant\<close> in \<^verbatim>\<open>presentation_clock.rs\<close>). A timestamp counts as physical only if it is plausible and
  advances; without one, the edge told to clients is the first edge of the last physical grid that
  the completion could have reached.
\<close>

section \<open>Mode arithmetic\<close>

text \<open>A product of \<open>u64\<close> values; \<open>None\<close> is the overflow of \<open>checked_mul\<close>.\<close>

definition u64_checked_mul :: "nat \<Rightarrow> nat \<Rightarrow> nat option" where
  "u64_checked_mul a b = (if a * b < 2 ^ 64 then Some (a * b) else None)"

definition nat_div_ceil :: "nat \<Rightarrow> nat \<Rightarrow> nat" where
  "nat_div_ceil a b = (if a mod b = 0 then a div b else a div b + 1)"

definition blanking_lead_limit :: "u32 \<Rightarrow> u16 \<Rightarrow> u16 \<Rightarrow> u16 \<Rightarrow> duration option" where
  "blanking_lead_limit clock_khz horizontal_total vertical_total vertical_active =
     (if vertical_total < vertical_active then None
      else
        (let blank_lines = vertical_total - vertical_active
         in if clock_khz = 0 \<or> horizontal_total = 0 \<or> vertical_active = 0 \<or> blank_lines = 0 then None
            else
              Option.bind (u64_checked_mul (unat blank_lines) (unat horizontal_total)) (\<lambda>p.
              Option.bind (u64_checked_mul p 1000000) (\<lambda>q.
                Some (from_nanos (nat_div_ceil q (unat clock_khz)))))))"

definition refresh_period :: "u32 \<Rightarrow> u16 \<Rightarrow> u16 \<Rightarrow> duration option" where
  "refresh_period clock_khz horizontal_total vertical_total =
     (if clock_khz = 0 \<or> horizontal_total = 0 \<or> vertical_total = 0 then None
      else
        Option.bind (u64_checked_mul (unat horizontal_total) (unat vertical_total)) (\<lambda>p.
        Option.bind (u64_checked_mul p 1000000) (\<lambda>q.
          Some (from_nanos (q div unat clock_khz)))))"

section \<open>The feedback clock\<close>

definition MAX_EVENT_AGE :: duration where
  "MAX_EVENT_AGE = from_secs 1"

record mode_timing =
  blanking_limit :: duration
  refresh :: "duration option"

record feedback_clock =
  last_timestamp :: "duration option"
  last_edge :: "duration option"
  last_sequence :: "u32 option"

record validated_feedback =
  timestamp :: "duration option"
  edge :: "duration option"
  feedback_sequence :: "u64 option"
  timestamp_status :: string

definition FeedbackClock_default :: feedback_clock where
  "FeedbackClock_default = \<lparr>last_timestamp = None, last_edge = None, last_sequence = None\<rparr>"

definition feedback_status ::
  "feedback_clock \<Rightarrow> duration option \<Rightarrow> duration option \<Rightarrow> duration \<Rightarrow> string" where
  "feedback_status c now ts limit =
     (case ts of
        None \<Rightarrow> ''missing_or_non_monotonic_clock''
      | Some t \<Rightarrow>
          (case now of
             None \<Rightarrow> ''clock_unavailable''
           | Some n \<Rightarrow>
               if t = 0 then ''zero''
               else if limit < duration_saturating_sub t n then ''future''
               else if MAX_EVENT_AGE < duration_saturating_sub n t then ''stale''
               else if option_is_some_and (last_timestamp c) (\<lambda>earlier. t \<le> earlier) then ''nonadvancing''
               else if n < t then ''physical_blanking''
               else ''physical''))"

definition edge_refreshes :: "feedback_clock \<Rightarrow> duration \<Rightarrow> duration \<Rightarrow> duration \<Rightarrow> nat" where
  "edge_refreshes c base period since =
     (let latest = max (since div period) 1;
          after_reported = (case last_edge c of None \<Rightarrow> 1
            | Some reported \<Rightarrow> duration_saturating_sub reported base div period + 1)
      in max latest after_reported)"

definition estimated_edge :: "feedback_clock \<Rightarrow> duration \<Rightarrow> mode_timing \<Rightarrow> duration option" where
  "estimated_edge c now timing =
     Option.bind (last_timestamp c) (\<lambda>base.
     Option.bind (case refresh timing of None \<Rightarrow> None | Some p \<Rightarrow> if p \<noteq> 0 then Some p else None) (\<lambda>period.
     Option.bind (duration_checked_sub (duration_saturating_add now (blanking_limit timing)) base) (\<lambda>since.
       if MAX_EVENT_AGE < since then None
       else
         (let refreshes = edge_refreshes c base period since
          in if 2 ^ 32 \<le> refreshes then None
             else Option.bind (duration_checked_mul period refreshes) (\<lambda>d. duration_checked_add base d)))))"

definition valid_sequence :: "feedback_clock \<Rightarrow> u32 option \<Rightarrow> u32 option" where
  "valid_sequence c seq =
     (case seq of
        None \<Rightarrow> None
      | Some current \<Rightarrow>
          if (case last_sequence c of
                Some earlier \<Rightarrow> 0 < current - earlier \<and> current - earlier \<le> 2 ^ 31 - 1
              | None \<Rightarrow> current \<noteq> 0)
          then Some current else None)"

definition observe ::
  "feedback_clock \<Rightarrow> duration option \<Rightarrow> duration option \<Rightarrow> u32 option \<Rightarrow> mode_timing \<Rightarrow>
     feedback_clock \<times> validated_feedback" where
  "observe c now ts seq timing =
     (let status = feedback_status c now ts (blanking_limit timing);
          ts = (if status \<in> {''physical'', ''physical_blanking''} then ts else None);
          c = (if ts \<noteq> None then c\<lparr>last_timestamp := ts\<rparr> else c);
          e = (case ts of Some t \<Rightarrow> Some t
               | None \<Rightarrow> Option.bind now (\<lambda>n. estimated_edge c n timing));
          c = (if e \<noteq> None then c\<lparr>last_edge := e\<rparr> else c);
          valid = valid_sequence c seq;
          c = c\<lparr>last_sequence := seq\<rparr>
      in (c, \<lparr>timestamp = ts, edge = e, feedback_sequence = map_option ucast valid,
              timestamp_status = status\<rparr>))"

text \<open>\<open>Instant::checked_sub\<close> and \<open>checked_add\<close> do not fail in the modelled range of instants.\<close>

definition presentation_instant :: "instant \<Rightarrow> duration \<Rightarrow> duration \<Rightarrow> instant" where
  "presentation_instant delivered_at monotonic_now presented_at =
     (case duration_checked_sub monotonic_now presented_at of
        Some delivery_delay \<Rightarrow> delivered_at - int delivery_delay
      | None \<Rightarrow> instant_add delivered_at (presented_at - monotonic_now))"

section \<open>Lemmas\<close>

lemma nat_div_ceil_bounds:
  assumes "0 < b"
  shows "a \<le> nat_div_ceil a b * b \<and> nat_div_ceil a b * b < a + b"
proof -
  define d m where "d = a div b" and "m = a mod b"
  have "a = d * b + m" "m < b" using assms by (simp_all add: d_def m_def)
  then show ?thesis
    using assms by (cases "m = 0") (simp_all add: nat_div_ceil_def d_def [symmetric] m_def [symmetric])
qed

lemma status_physical:
  "feedback_status c now ts limit \<in> {''physical'', ''physical_blanking''} \<longleftrightarrow>
     (\<exists>n t. now = Some n \<and> ts = Some t \<and> t \<noteq> 0 \<and> t \<le> n + limit \<and> n \<le> t + MAX_EVENT_AGE \<and>
        option_is_none_or (last_timestamp c) (\<lambda>earlier. earlier < t))"
  by (cases now; cases ts; cases "last_timestamp c")
    (simp_all add: feedback_status_def duration_saturating_sub_def not_le, arith+)

lemma observe_parts:
  assumes "observe c now ts seq timing = (c', v)"
  shows "timestamp v = (if feedback_status c now ts (blanking_limit timing) \<in> {''physical'', ''physical_blanking''}
           then ts else None)"
    "last_timestamp c' = option_or (timestamp v) (last_timestamp c)"
    "edge v = (case timestamp v of Some t \<Rightarrow> Some t
       | None \<Rightarrow> Option.bind now (\<lambda>n. estimated_edge c n timing))"
    "last_edge c' = option_or (edge v) (last_edge c)"
proof -
  define ok where "ok = (feedback_status c now ts (blanking_limit timing) \<in> {''physical'', ''physical_blanking''})"
  note o = assms [unfolded observe_def Let_def ok_def [symmetric]]
  show "timestamp v = (if feedback_status c now ts (blanking_limit timing) \<in> {''physical'', ''physical_blanking''}
      then ts else None)"
    unfolding ok_def [symmetric] using o by auto
  show "last_timestamp c' = option_or (timestamp v) (last_timestamp c)"
    "edge v = (case timestamp v of Some t \<Rightarrow> Some t
       | None \<Rightarrow> Option.bind now (\<lambda>n. estimated_edge c n timing))"
    "last_edge c' = option_or (edge v) (last_edge c)"
    using o by (cases ok; cases ts; cases "Option.bind now (\<lambda>n. estimated_edge c n timing)"; auto)+
qed

lemma observe_physical:
  assumes "observe c now ts seq timing = (c', v)" "timestamp v = Some t"
  shows "ts = Some t" "\<exists>n. now = Some n \<and> t \<le> n + blanking_limit timing \<and> n \<le> t + MAX_EVENT_AGE"
    "t \<noteq> 0" "option_is_none_or (last_timestamp c) (\<lambda>earlier. earlier < t)"
    "last_timestamp c' = Some t" "edge v = Some t" "last_edge c' = Some t"
  using observe_parts [OF assms(1)] assms(2) unfolding status_physical by (auto split: if_splits)

lemma observe_estimated:
  assumes "observe c now ts seq timing = (c', v)" "timestamp v = None"
  shows "last_timestamp c' = last_timestamp c" "edge v = Option.bind now (\<lambda>n. estimated_edge c n timing)"
    "last_edge c' = option_or (edge v) (last_edge c)"
  using observe_parts(2-4) [OF assms(1)] assms(2) by simp_all

lemma estimated_edge_grid:
  assumes "estimated_edge c now timing = Some e"
  obtains base period k where "last_timestamp c = Some base" "refresh timing = Some period" "0 < period" "0 < k"
    "e = base + k * period" "option_is_none_or (last_edge c) (\<lambda>reported. reported < e)"
    "e \<le> now + blanking_limit timing \<or> k = 1 \<or>
       (\<exists>reported. last_edge c = Some reported \<and> e \<le> reported + period)"
proof -
  obtain base period since where b: "last_timestamp c = Some base" "refresh timing = Some period" "0 < period"
    "duration_checked_sub (duration_saturating_add now (blanking_limit timing)) base = Some since"
    and k: "Option.bind (duration_checked_mul period (edge_refreshes c base period since))
             (\<lambda>d. duration_checked_add base d) = Some e"
    using assms unfolding estimated_edge_def Let_def
    by (auto simp: bind_eq_Some_conv split: option.splits if_splits)
  define latest where "latest = max (since div period) 1"
  define after where "after = (case last_edge c of None \<Rightarrow> 1
                | Some reported \<Rightarrow> (reported - base) div period + 1)"
  define r where "r = max latest after"
  have "edge_refreshes c base period since = r"
    unfolding edge_refreshes_def r_def latest_def after_def duration_saturating_sub_def Let_def ..
  then have e: "e = base + r * period"
    using k by (auto simp: bind_eq_Some_conv duration_checked_mul_def duration_checked_add_def mult.commute
        split: if_splits)
  have r: "0 < r" by (simp add: r_def latest_def)
  have since: "base + since \<le> now + blanking_limit timing"
    using b(4) by (auto simp: duration_checked_sub_def duration_saturating_add_def split: if_splits)
  have up: "(reported - base) div period * period \<le> reported - base"
    "reported - base < ((reported - base) div period + 1) * period" for reported
    using b(3) by (simp_all add: dividend_less_div_times)
  have fresh: "reported < e" if "last_edge c = Some reported" for reported
  proof -
    have "((reported - base) div period + 1) * period \<le> r * period"
      using that by (intro mult_right_mono) (simp_all add: r_def after_def)
    with up(2) [of reported] show ?thesis by (simp only: e)
  qed
  have "e \<le> now + blanking_limit timing \<or> r = 1 \<or>
       (\<exists>reported. last_edge c = Some reported \<and> e \<le> reported + period)"
  proof (cases "r = 1")
    case False
    show ?thesis
    proof (cases "r = since div period")
      case True
      then show ?thesis using since e by (metis div_times_less_eq_dividend add_le_cancel_left order_trans)
    next
      case False
      then have "r = after" using \<open>r \<noteq> 1\<close> by (auto simp: r_def latest_def after_def max_def split: if_splits)
      then obtain reported where rep: "last_edge c = Some reported" "r = (reported - base) div period + 1"
        using \<open>r \<noteq> 1\<close> by (auto simp: after_def split: option.splits)
      have "base \<le> reported" using rep(2) \<open>r \<noteq> 1\<close> b(3) by (cases "base \<le> reported") simp_all
      then have "e \<le> reported + period"
        using up(1) [of reported] by (simp only: e rep(2) add_mult_distrib)
      then show ?thesis using rep(1) by blast
    qed
  qed simp
  then show thesis
    using that [OF b(1-3) r e] fresh by (auto simp: option_is_none_or_def split: option.splits)
qed

section \<open>Properties\<close>

type_synonym flip = "duration option \<times> duration option \<times> u32 option \<times> mode_timing"

fun observe_all :: "feedback_clock \<Rightarrow> flip list \<Rightarrow> validated_feedback list" where
  "observe_all c [] = []"
| "observe_all c ((now, ts, seq, timing) # fs) =
     (let (c', v) = observe c now ts seq timing in v # observe_all c' fs)"

fun physical :: "validated_feedback list \<Rightarrow> duration list" where
  "physical [] = []"
| "physical (v # vs) = (case timestamp v of None \<Rightarrow> physical vs | Some t \<Rightarrow> t # physical vs)"

lemma physical_after:
  "sorted_wrt (<) (physical (observe_all c fs)) \<and>
     (\<forall>t \<in> set (physical (observe_all c fs)). option_is_none_or (last_timestamp c) (\<lambda>earlier. earlier < t))"
proof (induction fs arbitrary: c)
  case Nil
  then show ?case by simp
next
  case (Cons f fs)
  obtain now ts seq timing where f: "f = (now, ts, seq, timing)" by (cases f) auto
  obtain c' v where o: "observe c now ts seq timing = (c', v)" by fastforce
  show ?case
  proof (cases "timestamp v")
    case None
    with Cons [of c'] observe_estimated(1) [OF o] show ?thesis by (simp add: f o)
  next
    case (Some t)
    note p = observe_physical [OF o Some]
    from Cons [of c'] p(4,5) show ?thesis
      by (cases "last_timestamp c") (auto simp: f o Some intro: less_trans)
  qed
qed

text \<open>
  Only advancing, plausible timestamps train the clock. For every sequence of page flips the
  accepted timestamps are strictly increasing; each one is the reported, non-zero timestamp, at most the
  blanking time of its mode in the future and at most a second old.
\<close>
lemma physical_timestamps_advance:
  "sorted_wrt (<) (physical (observe_all FeedbackClock_default fs)) \<and>
   (\<forall>t. timestamp (snd (observe c now ts seq timing)) = Some t \<longrightarrow>
      ts = Some t \<and> t \<noteq> 0 \<and> (\<exists>n. now = Some n \<and> t \<le> n + blanking_limit timing \<and> n \<le> t + MAX_EVENT_AGE))"
  using physical_after [of FeedbackClock_default fs] observe_physical(1-3) [OF prod.collapse [symmetric]]
  by blast

text \<open>
  An estimated edge lies on the display's grid and after every reported edge. When no
  timestamp is accepted but an edge is reported, it is a whole number of refresh periods after the last
  physical timestamp and later than the edge reported before; it is not ahead of what the completion
  could have reached, unless it is the first edge of the grid or the one that follows the edge already
  reported. The next physical timestamp becomes the edge as it is.
\<close>
lemma estimated_edges_follow_the_grid:
  assumes "observe c now ts seq timing = (c', v)" "timestamp v = None" "edge v = Some e"
  shows "\<exists>n base period k. now = Some n \<and> last_timestamp c = Some base \<and> refresh timing = Some period \<and>
      0 < period \<and> 0 < k \<and> e = base + k * period \<and>
      option_is_none_or (last_edge c) (\<lambda>reported. reported < e) \<and> last_edge c' = Some e \<and>
      (e \<le> n + blanking_limit timing \<or> k = 1 \<or>
        (\<exists>reported. last_edge c = Some reported \<and> e \<le> reported + period))"
proof -
  obtain n where n: "now = Some n" "estimated_edge c n timing = Some e"
    using observe_estimated(2) [OF assms(1,2)] assms(3) by (cases now) auto
  have "last_edge c' = Some e" using observe_estimated(3) [OF assms(1,2)] assms(3) by simp
  with n show ?thesis by (rule_tac estimated_edge_grid [OF n(2)]) blast
qed

text \<open>
  The mode arithmetic cannot overflow. For every mode with a pixel clock, non-zero totals and
  a blanking interval, both limits exist; the blanking lead is the time of the blanked lines rounded up
  to a nanosecond, the refresh period is the time of all pixels rounded down, and the lead never exceeds
  a refresh by more than a nanosecond.
\<close>
lemma mode_limits_exist:
  assumes "clock \<noteq> 0" "htotal \<noteq> 0" "vactive \<noteq> 0" "vactive < vtotal"
  shows "\<exists>lead period. blanking_lead_limit clock htotal vtotal vactive = Some lead \<and>
      refresh_period clock htotal vtotal = Some period \<and>
      (unat vtotal - unat vactive) * unat htotal * 1000000 \<le> lead * unat clock \<and>
      lead * unat clock < (unat vtotal - unat vactive) * unat htotal * 1000000 + unat clock \<and>
      period * unat clock \<le> unat htotal * unat vtotal * 1000000 \<and>
      unat htotal * unat vtotal * 1000000 < (period + 1) * unat clock \<and> lead \<le> period + 1"
proof -
  let ?h = "unat htotal" and ?v = "unat vtotal" and ?a = "unat vactive" and ?c = "unat clock"
  have b: "unat (w :: u16) < 65536" for w using unsigned_less [where 'a = nat and w = w] by simp
  have va: "?a < ?v" using assms(4) by (simp add: word_less_nat_alt)
  have sub: "unat (vtotal - vactive) = ?v - ?a" using va by (simp add: unat_sub word_le_nat_alt less_imp_le)
  have c: "0 < ?c" using assms(1) by (simp add: unat_gt_0)
  have small: "x * y * 1000000 < 2 ^ 64" "x * y < 2 ^ 64" if "x < 65536" "y < 65536" for x y :: nat
  proof -
    have "x * y \<le> 65535 * 65535" using that by (intro mult_le_mono) simp_all
    then show "x * y * 1000000 < 2 ^ 64" "x * y < 2 ^ 64" by simp_all
  qed
  define q where "q = (?v - ?a) * ?h * 1000000"
  define p where "p = ?h * ?v * 1000000"
  have qb: "(?v - ?a) * ?h < 2 ^ 64" "q < 2 ^ 64" and pb: "?h * ?v < 2 ^ 64" "p < 2 ^ 64"
    using small [of "?v - ?a" ?h] small [of ?h ?v] b [of vtotal] b [of htotal] by (simp_all add: q_def p_def)
  have "vtotal - vactive \<noteq> 0" "\<not> vtotal < vactive" using assms(4) by auto
  then have "blanking_lead_limit clock htotal vtotal vactive =
      Option.bind (u64_checked_mul (?v - ?a) ?h) (\<lambda>p. Option.bind (u64_checked_mul p 1000000) (\<lambda>q.
        Some (from_nanos (nat_div_ceil q ?c))))"
    using assms by (simp add: blanking_lead_limit_def Let_def sub)
  then have lead: "blanking_lead_limit clock htotal vtotal vactive = Some (nat_div_ceil q ?c)"
    using qb by (simp only: u64_checked_mul_def from_nanos_def q_def if_True bind.bind_lunit)
  have period: "refresh_period clock htotal vtotal = Some (p div ?c)"
    using assms pb by (auto simp: refresh_period_def u64_checked_mul_def from_nanos_def p_def)
  have le: "q \<le> p" unfolding q_def p_def by (simp add: mult.commute)
  have ceil: "q \<le> nat_div_ceil q ?c * ?c" "nat_div_ceil q ?c * ?c < q + ?c"
    using nat_div_ceil_bounds [OF c] by blast+
  have fl: "p div ?c * ?c \<le> p" "p < (p div ?c + 1) * ?c" using c by (simp_all add: dividend_less_div_times)
  have "nat_div_ceil q ?c \<le> p div ?c + 1"
    using div_le_mono [OF le, of ?c] by (simp add: nat_div_ceil_def)
  with lead period ceil fl show ?thesis unfolding q_def p_def by blast
qed

text \<open>
  Clock translation keeps distances. A presentation is placed on the \<open>Instant\<close> clock as far
  from its delivery as it is from the current monotonic time, before or after it.
\<close>
lemma presentation_instant_keeps_distance:
  "presentation_instant delivered_at mono_now presented_at - delivered_at = int presented_at - int mono_now"
  by (simp add: presentation_instant_def duration_checked_sub_def instant_add_def)

end
