(* ===== verification/Fingerprint_Session.thy ===== *)
theory Fingerprint_Session
  imports Denial_Base
begin

text \<open>
  The contact lifecycle of the privileged fingerprint presentation (\<open>Session\<close> of
  \<^verbatim>\<open>fingerprint_presentation/state.rs\<close>). A finger contact becomes ready only after a frame of its
  own epoch reached the display and the illumination has settled; it ends only once the hardware is
  confirmed off. Errors are the strings of the source; \<open>None\<close> of an operation is a panic of one of
  its \<open>expect\<close>s.
\<close>

section \<open>The session\<close>

datatype phase = Preparing | Presented | Settling instant | Ready | Stopping

datatype stop_reason = Released | Timeout | Unavailable | Revoked

record contact =
  contact_serial :: u32
  contact_epoch :: u64
  contact_phase :: phase
  deadline :: instant
  restore_off :: bool
  illumination_on :: bool
  stop_reason :: "stop_reason option"

record session =
  last_serial :: u32
  session_epoch :: u64
  contact :: "contact option"

definition Session_default :: session where
  "Session_default = \<lparr>last_serial = 0, session_epoch = 0, contact = None\<rparr>"

definition epoch_checked_succ :: "u64 \<Rightarrow> u64 option" where
  "epoch_checked_succ e = (if e = - 1 then None else Some (e + 1))"

definition new_client :: "session \<Rightarrow> session \<times> (string + unit)" where
  "new_client s =
     (if contact s \<noteq> None then (s, Inl ''previous contact is still stopping'')
      else (s\<lparr>last_serial := 0\<rparr>, Inr ()))"

definition begin_contact ::
  "session \<Rightarrow> u32 \<Rightarrow> instant \<Rightarrow> duration \<Rightarrow> bool \<Rightarrow> session \<times> (string + u64)" where
  "begin_contact s sn now dur initially_off =
     (if contact s \<noteq> None then (s, Inl ''a contact is already active'')
      else if sn = 0 \<or> sn \<le> last_serial s then (s, Inl ''contact serial is zero, stale or reused'')
      else if dur = 0 \<or> from_secs 30 < dur
      then (s, Inl ''presentation duration must be within 30 seconds'')
      else (case epoch_checked_succ (session_epoch s) of
              None \<Rightarrow> (s, Inl ''presentation epoch exhausted'')
            | Some e \<Rightarrow>
                (s\<lparr>session_epoch := e, last_serial := sn,
                   contact := Some \<lparr>contact_serial = sn, contact_epoch = e, contact_phase = Preparing,
                     deadline = instant_add now dur, restore_off = initially_off,
                     illumination_on = False, stop_reason = None\<rparr>\<rparr>, Inr e)))"

definition epoch :: "session \<Rightarrow> u64" where
  "epoch s = (case contact s of None \<Rightarrow> 0 | Some c \<Rightarrow> contact_epoch c)"

definition presented :: "session \<Rightarrow> u64 \<Rightarrow> session" where
  "presented s e =
     (case contact s of
        Some c \<Rightarrow> if contact_epoch c = e \<and> contact_phase c = Preparing
                  then s\<lparr>contact := Some (c\<lparr>contact_phase := Presented\<rparr>)\<rparr> else s
      | None \<Rightarrow> s)"

definition illumination_enabled :: "session \<Rightarrow> instant \<Rightarrow> duration \<Rightarrow> session \<times> bool" where
  "illumination_enabled s now settle =
     (case contact s of
        None \<Rightarrow> (s, False)
      | Some c \<Rightarrow>
          if contact_phase c \<noteq> Presented \<or> deadline c \<le> now then (s, False)
          else (s\<lparr>contact := Some (c\<lparr>illumination_on := True,
                  contact_phase := Settling (instant_add now settle)\<rparr>)\<rparr>, True))"

definition stop :: "session \<Rightarrow> stop_reason \<Rightarrow> session option" where
  "stop s reason =
     (case contact s of
        None \<Rightarrow> Some s
      | Some c \<Rightarrow>
          if contact_phase c = Stopping then Some s
          else (case epoch_checked_succ (session_epoch s) of
                  None \<Rightarrow> None
                | Some e \<Rightarrow> Some (s\<lparr>session_epoch := e,
                    contact := Some (c\<lparr>contact_epoch := e, contact_phase := Stopping,
                      stop_reason := Some reason\<rparr>)\<rparr>)))"

definition ready :: "session \<Rightarrow> instant \<Rightarrow> (session \<times> u32 option) option" where
  "ready s now =
     (case contact s of
        None \<Rightarrow> Some (s, None)
      | Some c \<Rightarrow>
          if deadline c \<le> now then map_option (\<lambda>s. (s, None)) (stop s Timeout)
          else (case contact_phase c of
                  Settling settled \<Rightarrow>
                    if settled \<le> now \<and> illumination_on c
                    then Some (s\<lparr>contact := Some (c\<lparr>contact_phase := Ready\<rparr>)\<rparr>, Some (contact_serial c))
                    else Some (s, None)
                | _ \<Rightarrow> Some (s, None)))"

definition withdraw :: "session \<Rightarrow> u32 \<Rightarrow> (session \<times> (string + unit)) option" where
  "withdraw s sn =
     (if sn = 0 \<or> last_serial s < sn
      then Some (s, Inl ''withdraw references a serial that was never presented'')
      else if option_is_some_and (contact s) (\<lambda>c. contact_serial c = sn)
      then map_option (\<lambda>s. (s, Inr ())) (stop s Released)
      else Some (s, Inr ()))"

definition independent_wake :: "session \<Rightarrow> session" where
  "independent_wake s =
     (case contact s of None \<Rightarrow> s | Some c \<Rightarrow> s\<lparr>contact := Some (c\<lparr>restore_off := False\<rparr>)\<rparr>)"

definition finish :: "session \<Rightarrow> bool \<Rightarrow> bool \<Rightarrow> (session \<times> (u32 \<times> stop_reason) option) option" where
  "finish s illumination_off output_off =
     (case contact s of
        None \<Rightarrow> Some (s, None)
      | Some c \<Rightarrow>
          if contact_phase c \<noteq> Stopping \<or> \<not> illumination_off \<or> (restore_off c \<and> \<not> output_off)
          then Some (s, None)
          else (case stop_reason c of
                  None \<Rightarrow> None
                | Some reason \<Rightarrow> Some (s\<lparr>contact := None\<rparr>, Some (contact_serial c, reason))))"

section \<open>Histories\<close>

text \<open>
  The requests made of a session, and the history of those that took effect. \<open>None\<close> is a panic.
\<close>

datatype session_event = NewClient | Begin u32 instant duration bool | Flip u64
  | Illuminate instant duration | CheckReady instant | Withdraw u32 | Stop stop_reason
  | IndependentWake | Finish bool bool

datatype session_fact = Began u32 u64 instant | Flipped u64 | Lit instant duration | Acquired u32

fun session_step :: "session \<Rightarrow> session_event \<Rightarrow> (session \<times> session_fact list) option" where
  "session_step s NewClient = Some (fst (new_client s), [])"
| "session_step s (Begin sn now dur off) =
     (case begin_contact s sn now dur off of
        (s', Inr e) \<Rightarrow> Some (s', [Began sn e (instant_add now dur)])
      | (s', Inl _) \<Rightarrow> Some (s', []))"
| "session_step s (Flip e) = Some (presented s e, if presented s e = s then [] else [Flipped e])"
| "session_step s (Illuminate now settle) =
     (case illumination_enabled s now settle of (s', lit) \<Rightarrow> Some (s', if lit then [Lit now settle] else []))"
| "session_step s (CheckReady now) =
     map_option (\<lambda>(s', r). (s', case r of None \<Rightarrow> [] | Some sn \<Rightarrow> [Acquired sn])) (ready s now)"
| "session_step s (Withdraw sn) = map_option (\<lambda>(s', _). (s', [])) (withdraw s sn)"
| "session_step s (Stop reason) = map_option (\<lambda>s'. (s', [])) (stop s reason)"
| "session_step s IndependentWake = Some (independent_wake s, [])"
| "session_step s (Finish a b) = map_option (\<lambda>(s', _). (s', [])) (finish s a b)"

inductive session_reachable :: "nat \<Rightarrow> session \<Rightarrow> session_fact list \<Rightarrow> bool" where
  session_start: "session_reachable 0 Session_default []"
| session_more: "session_reachable n s h \<Longrightarrow> session_step s e = Some (s', fs) \<Longrightarrow>
    session_reachable (Suc n) s' (h @ fs)"

text \<open>
  What the phase says about the history: until the contact stops, the last effective events are
  exactly the gates it has passed, in order.
\<close>

definition phase_history :: "contact \<Rightarrow> session_fact list \<Rightarrow> bool" where
  "phase_history c h =
     (case contact_phase c of
        Preparing \<Rightarrow> \<exists>a. h = a @ [Began (contact_serial c) (contact_epoch c) (deadline c)]
      | Presented \<Rightarrow> \<exists>a. h = a @ [Began (contact_serial c) (contact_epoch c) (deadline c),
                                  Flipped (contact_epoch c)]
      | Settling settled \<Rightarrow> illumination_on c \<and>
          (\<exists>a t d. h = a @ [Began (contact_serial c) (contact_epoch c) (deadline c),
             Flipped (contact_epoch c), Lit t d] \<and> settled = instant_add t d)
      | Ready \<Rightarrow> True
      | Stopping \<Rightarrow> stop_reason c \<noteq> None)"

definition session_inv :: "nat \<Rightarrow> session \<Rightarrow> session_fact list \<Rightarrow> bool" where
  "session_inv n s h \<longleftrightarrow> unat (session_epoch s) \<le> n \<and>
     (\<forall>c. contact s = Some c \<longrightarrow> phase_history c h \<and> contact_epoch c \<le> session_epoch s)"

lemma epoch_succ_bound:
  "epoch_checked_succ e = Some e' \<Longrightarrow> unat e' = Suc (unat e) \<and> e \<le> e'"
  using unat_succ_u64 [of e] by (auto simp: epoch_checked_succ_def word_le_nat_alt split: if_splits)

lemma stop_inv:
  assumes "session_inv n s h" "stop s reason = Some s'"
  shows "session_inv (Suc n) s' h"
  using assms epoch_succ_bound [of "session_epoch s"]
  by (auto simp: session_inv_def stop_def phase_history_def split: option.splits if_splits)

lemma session_inv_mono: "session_inv n s h \<Longrightarrow> session_inv (Suc n) s h"
  by (auto simp: session_inv_def)

lemma phase_history_wake: "phase_history (c\<lparr>restore_off := b\<rparr>) h = phase_history c h"
  by (simp add: phase_history_def split: phase.split)

lemma session_step_inv:
  assumes inv: "session_inv n s h" and st: "session_step s e = Some (s', fs)"
  shows "session_inv (Suc n) s' (h @ fs)"
proof (cases e)
  case NewClient
  with assms show ?thesis by (auto simp: session_inv_def new_client_def split: if_splits)
next
  case (Begin sn now dur off)
  show ?thesis
  proof (cases "snd (begin_contact s sn now dur off)")
    case (Inl err)
    then have "s' = s \<and> fs = []"
      using st by (auto simp: Begin begin_contact_def split: if_splits option.splits)
    with session_inv_mono [OF inv] show ?thesis by simp
  next
    case (Inr x)
    then have "epoch_checked_succ (session_epoch s) = Some x" "session_epoch s' = x"
      "fs = [Began sn x (instant_add now dur)]" "contact s' = Some \<lparr>contact_serial = sn, contact_epoch = x,
         contact_phase = Preparing, deadline = instant_add now dur, restore_off = off,
         illumination_on = False, stop_reason = None\<rparr>"
      using st by (auto simp: Begin begin_contact_def split: if_splits option.splits)
    with inv epoch_succ_bound [of "session_epoch s" x] show ?thesis
      by (simp add: session_inv_def phase_history_def)
  qed
next
  case (Flip x)
  show ?thesis
  proof (cases "presented s x = s")
    case True
    with assms session_inv_mono [OF inv] show ?thesis by (simp add: Flip)
  next
    case False
    with assms show ?thesis
      by (auto simp: Flip session_inv_def presented_def phase_history_def split: option.splits if_splits)
  qed
next
  case (Illuminate now settle)
  show ?thesis
  proof (cases "snd (illumination_enabled s now settle)")
    case True
    with assms show ?thesis
      by (auto simp: Illuminate session_inv_def illumination_enabled_def phase_history_def
          split: option.splits if_splits)
  next
    case False
    then have "s' = s \<and> fs = []"
      using st by (auto simp: Illuminate illumination_enabled_def split: if_splits option.splits)
    with session_inv_mono [OF inv] show ?thesis by simp
  qed
next
  case (CheckReady now)
  with st obtain r where r: "ready s now = Some (s', r)" "fs = (case r of None \<Rightarrow> [] | Some sn \<Rightarrow> [Acquired sn])"
    by auto
  show ?thesis
  proof (cases r)
    case None
    then have "s' = s \<or> stop s Timeout = Some s'" "fs = []"
      using r by (auto simp: ready_def split: option.splits if_splits phase.splits)
    with stop_inv [OF inv] session_inv_mono [OF inv] show ?thesis by auto
  next
    case (Some sn)
    with r inv show ?thesis
      by (auto simp: ready_def session_inv_def phase_history_def split: option.splits if_splits phase.splits)
  qed
next
  case (Withdraw sn)
  with st have "s' = s \<or> stop s Released = Some s'" "fs = []"
    by (auto simp: withdraw_def split: if_splits)
  with stop_inv [OF inv] session_inv_mono [OF inv] show ?thesis by auto
next
  case (Stop reason)
  with st stop_inv [OF inv] show ?thesis by auto
next
  case IndependentWake
  with assms show ?thesis
    by (auto simp: session_inv_def independent_wake_def phase_history_wake split: option.splits)
next
  case (Finish a b)
  with st have "s' = s \<or> contact s' = None \<and> session_epoch s' = session_epoch s" "fs = []"
    by (auto simp: finish_def split: option.splits if_splits)
  with inv session_inv_mono [OF inv] show ?thesis by (auto simp: session_inv_def)
qed

lemma session_reachable_inv: "session_reachable n s h \<Longrightarrow> session_inv n s h"
  by (induction rule: session_reachable.induct)
    (auto simp: session_inv_def [of 0] Session_default_def intro: session_step_inv)

section \<open>Properties\<close>


lemma reachable_example:
  "session_reachable 3 \<lparr>last_serial = 4, session_epoch = 1, contact = Some \<lparr>contact_serial = 4,
       contact_epoch = 1, contact_phase = Settling 70, deadline = 1000, restore_off = True,
       illumination_on = True, stop_reason = None\<rparr>\<rparr>
     ([] @ [Began 4 1 1000, Flipped 1, Lit 50 20])"
proof -
  have "session_reachable 1 \<lparr>last_serial = 4, session_epoch = 1, contact = Some \<lparr>contact_serial = 4,
       contact_epoch = 1, contact_phase = Preparing, deadline = 1000, restore_off = True,
       illumination_on = False, stop_reason = None\<rparr>\<rparr> ([] @ [Began 4 1 1000])"
    unfolding One_nat_def
    by (rule session_more [OF session_start, of "Begin 4 0 1000 True"])
      (simp add: begin_contact_def Session_default_def epoch_checked_succ_def time_defs)
  from session_more [OF this, of "Flip 1"]
  have "session_reachable 2 \<lparr>last_serial = 4, session_epoch = 1, contact = Some \<lparr>contact_serial = 4,
       contact_epoch = 1, contact_phase = Presented, deadline = 1000, restore_off = True,
       illumination_on = False, stop_reason = None\<rparr>\<rparr> ([Began 4 1 1000] @ [Flipped 1])"
    by (simp add: presented_def numeral_2_eq_2)
  from session_more [OF this, of "Illuminate 50 20"] show ?thesis
    by (simp add: illumination_enabled_def time_defs numeral_3_eq_3 numeral_2_eq_2)
qed


text \<open>
  A contact ends only with the hardware off. In every reachable session, finishing never
  panics; a contact is released only when it was stopping, the illumination is confirmed off, and the
  panel is off again if it has to be; the report carries its serial and the reason it stopped with.
\<close>
lemma contact_ends_with_hardware_off:
  assumes "session_reachable n s h"
  shows "\<exists>s' r. finish s illumination_off output_off = Some (s', r) \<and>
     (case r of
        None \<Rightarrow> s' = s
      | Some (sn, reason) \<Rightarrow> illumination_off \<and> contact s' = None \<and>
          (\<exists>c. contact s = Some c \<and> contact_phase c = Stopping \<and> contact_serial c = sn \<and>
             stop_reason c = Some reason \<and> (restore_off c \<longrightarrow> output_off)))"
proof (cases "contact s")
  case None
  then show ?thesis by (simp add: finish_def)
next
  case (Some c)
  have "contact_phase c = Stopping \<Longrightarrow> stop_reason c \<noteq> None"
    using session_reachable_inv [OF assms] Some by (auto simp: session_inv_def phase_history_def)
  with Some show ?thesis by (cases "stop_reason c") (auto simp: finish_def)
qed

text \<open>
  Stopping revokes every prepared frame, without panicking. Within the first
  \<open>2^64 - 2\<close> requests no operation of the session panics. Stopping a live contact gives it a fresh
  epoch, larger than every earlier one, so a later flip of a frame painted before the stop changes
  nothing and the contact can never become ready again.
\<close>
lemma stopping_revokes_prepared_frames:
  assumes "session_reachable n s h" "n < 2 ^ 64 - 1"
  shows "session_step s e \<noteq> None \<and>
    (\<forall>c reason. contact s = Some c \<and> contact_phase c \<noteq> Stopping \<longrightarrow>
       (\<exists>s'. stop s reason = Some s' \<and> contact_epoch c < epoch s' \<and>
          (\<forall>old \<le> session_epoch s. presented s' old = s') \<and>
          (\<forall>now s'' r. ready s' now = Some (s'', r) \<longrightarrow> r = None)))"
proof -
  have inv: "session_inv n s h" by (rule session_reachable_inv [OF assms(1)])
  then have "session_epoch s \<noteq> - 1"
    using assms(2) unat_max_u64 [of "session_epoch s"] by (auto simp: session_inv_def)
  then have succ: "epoch_checked_succ (session_epoch s) = Some (session_epoch s + 1)"
    "session_epoch s < session_epoch s + 1"
    using unat_succ_u64 [of "session_epoch s"] by (auto simp: epoch_checked_succ_def word_less_nat_alt)
  have stops: "stop s reason \<noteq> None" for reason
    using succ(1) by (simp add: stop_def split: option.splits)
  then have "ready s now \<noteq> None" "withdraw s sn \<noteq> None" for now sn
    by (auto simp: ready_def withdraw_def split: option.splits phase.splits)
  moreover have "finish s a b \<noteq> None" for a b
    using inv by (auto simp: finish_def session_inv_def phase_history_def split: option.splits)
  ultimately have "session_step s e \<noteq> None"
    using stops by (cases e) (auto split: sum.splits prod.splits)
  moreover have "\<exists>s'. stop s reason = Some s' \<and> contact_epoch c < epoch s' \<and>
      (\<forall>old \<le> session_epoch s. presented s' old = s') \<and>
      (\<forall>now s'' r. ready s' now = Some (s'', r) \<longrightarrow> r = None)"
    if c: "contact s = Some c" "contact_phase c \<noteq> Stopping" for c reason
  proof -
    have "contact_epoch c \<le> session_epoch s" using inv c(1) by (simp add: session_inv_def)
    then have "contact_epoch c < session_epoch s + 1" using succ(2) by (rule le_less_trans)
    then show ?thesis
      using c succ(1) by (auto simp: stop_def epoch_def presented_def ready_def split: if_splits)
  qed
  ultimately show ?thesis by blast
qed

end
