(* ===== verification/Window_Events.thy ===== *)
theory Window_Events
  imports Denial_Base
begin

unbundle bit_operations_syntax

text \<open>
  The bounded queue of window events for the shell (\<^verbatim>\<open>window_events.rs\<close>, with the event types of
  \<^verbatim>\<open>wire.rs\<close>). An \<open>f64\<close> is its 64-bit pattern; only the comparison \<open>==\<close> is used, which is that of
  IEEE 754: a NaN equals nothing and the two zeros are equal. The capacity of the reused vectors is not
  modelled, their contents are.
\<close>

section \<open>Floating-point comparison\<close>

type_synonym f64_bits = u64

definition f64_is_nan :: "f64_bits \<Rightarrow> bool" where
  "f64_is_nan a \<longleftrightarrow> 0x7FF0000000000000 < a AND 0x7FFFFFFFFFFFFFFF"

definition f64_is_zero :: "f64_bits \<Rightarrow> bool" where
  "f64_is_zero a \<longleftrightarrow> a AND 0x7FFFFFFFFFFFFFFF = 0"

definition f64_eq :: "f64_bits \<Rightarrow> f64_bits \<Rightarrow> bool" where
  "f64_eq a b \<longleftrightarrow> \<not> f64_is_nan a \<and> \<not> f64_is_nan b \<and> (a = b \<or> f64_is_zero a \<and> f64_is_zero b)"

text \<open>One representative per numeric value.\<close>

definition f64_norm :: "f64_bits \<Rightarrow> f64_bits" where
  "f64_norm a = (if f64_is_zero a then 0 else a)"

lemma f64_eq_norm: "f64_eq a b \<Longrightarrow> f64_norm a = f64_norm b"
  by (auto simp: f64_eq_def f64_norm_def)

section \<open>Events\<close>

record window_geometry =
  geo_x :: f64_bits
  geo_y :: f64_bits
  geo_width :: f64_bits
  geo_height :: f64_bits

datatype window_action = Minimize | Maximize | Fullscreen | Restore | ToggleMaximize | ToggleFullscreen

datatype placement_phase = BeginPlacement | UpdatePlacement | EndPlacement

datatype placement_change = Move | Resize | LayoutPreview

record window_placement =
  placement_window :: u64
  monitor_id :: int
  workspace_id :: int
  placement_phase :: placement_phase
  change :: placement_change
  geometry :: window_geometry

definition geometry_eq :: "window_geometry \<Rightarrow> window_geometry \<Rightarrow> bool" where
  "geometry_eq a b \<longleftrightarrow> f64_eq (geo_x a) (geo_x b) \<and> f64_eq (geo_y a) (geo_y b) \<and>
     f64_eq (geo_width a) (geo_width b) \<and> f64_eq (geo_height a) (geo_height b)"

definition placement_eq :: "window_placement \<Rightarrow> window_placement \<Rightarrow> bool" where
  "placement_eq a b \<longleftrightarrow> placement_window a = placement_window b \<and> monitor_id a = monitor_id b \<and>
     workspace_id a = workspace_id b \<and> placement_phase a = placement_phase b \<and> change a = change b \<and>
     geometry_eq (geometry a) (geometry b)"

datatype pending_window_event = Activated u64 | Action u64 window_action | Placement window_placement

fun window_id :: "pending_window_event \<Rightarrow> u64" where
  "window_id (Activated w) = w"
| "window_id (Action w _) = w"
| "window_id (Placement p) = placement_window p"

fun is_activation :: "pending_window_event \<Rightarrow> bool" where
  "is_activation (Activated _) = True"
| "is_activation _ = False"

section \<open>The queue\<close>

definition MAX_PENDING_WINDOW_EVENTS :: nat where
  "MAX_PENDING_WINDOW_EVENTS = 4096"

record event_queue =
  events :: "pending_window_event list"
  drain_scratch :: "pending_window_event list"
  overflow_reported :: bool

definition Queue_default :: event_queue where
  "Queue_default = \<lparr>events = [], drain_scratch = [], overflow_reported = False\<rparr>"

definition remove_activations :: "event_queue \<Rightarrow> event_queue" where
  "remove_activations q = q\<lparr>events := filter (\<lambda>e. \<not> is_activation e) (events q)\<rparr>"

definition append_bounded :: "event_queue \<Rightarrow> pending_window_event \<Rightarrow> event_queue" where
  "append_bounded q event =
     (if MAX_PENDING_WINDOW_EVENTS \<le> length (events q) then q\<lparr>overflow_reported := True\<rparr>
      else q\<lparr>events := events q @ [event]\<rparr>)"

fun push :: "event_queue \<Rightarrow> pending_window_event \<Rightarrow> event_queue" where
  "push q (Activated w) = append_bounded (remove_activations q) (Activated w)"
| "push q (Action w action) =
     (if events q \<noteq> [] \<and> last (events q) = Action w action
      then (if action \<in> {ToggleMaximize, ToggleFullscreen} then q\<lparr>events := butlast (events q)\<rparr> else q)
      else append_bounded q (Action w action))"
| "push q (Placement p) =
     (case (if events q = [] then None else Some (last (events q))) of
        Some (Placement previous) \<Rightarrow>
          if placement_eq previous p then q
          else if placement_window previous = placement_window p \<and>
                  placement_phase previous = UpdatePlacement \<and> placement_phase p = UpdatePlacement \<and>
                  change previous = change p
          then q\<lparr>events := (events q)[length (events q) - 1 := Placement p]\<rparr>
          else append_bounded q (Placement p)
      | _ \<Rightarrow> append_bounded q (Placement p))"

definition push_activation :: "event_queue \<Rightarrow> u64 \<Rightarrow> bool \<Rightarrow> event_queue" where
  "push_activation q w restore_minimized =
     (let q = (if restore_minimized then push q (Action w Restore) else q) in push q (Activated w))"

definition drain_events :: "event_queue \<Rightarrow> event_queue \<times> pending_window_event list" where
  "drain_events q =
     (q\<lparr>overflow_reported := False, events := drain_scratch q, drain_scratch := []\<rparr>, events q)"

definition recycle_drained :: "event_queue \<Rightarrow> pending_window_event list \<Rightarrow> event_queue" where
  "recycle_drained q drained =
     (let drained = [];
          (evs, drained) = (if events q = [] then (drained, events q) else (events q, drained))
      in q\<lparr>events := evs, drain_scratch := drained\<rparr>)"

definition queue_clear :: "event_queue \<Rightarrow> event_queue" where
  "queue_clear q = q\<lparr>events := [], overflow_reported := False\<rparr>"

section \<open>What the events mean\<close>

text \<open>
  The shell's view of the windows: the focused window, the state of each window, its last placement up
  to the two zeros, and the interactive placements that have begun and not ended.
\<close>

record window_state =
  minimized :: bool
  maximized :: bool
  fullscreen :: bool

record shell_view =
  view_focus :: "u64 option"
  view_state :: "u64 \<Rightarrow> window_state"
  view_place :: "u64 \<Rightarrow> window_placement option"
  view_active :: "(u64 \<times> placement_change) set"

fun act :: "window_action \<Rightarrow> window_state \<Rightarrow> window_state" where
  "act Minimize s = s\<lparr>minimized := True\<rparr>"
| "act Maximize s = s\<lparr>minimized := False, maximized := True, fullscreen := False\<rparr>"
| "act Fullscreen s = s\<lparr>minimized := False, fullscreen := True\<rparr>"
| "act Restore s = s\<lparr>minimized := False, maximized := False, fullscreen := False\<rparr>"
| "act ToggleMaximize s = s\<lparr>maximized := \<not> maximized s\<rparr>"
| "act ToggleFullscreen s = s\<lparr>fullscreen := \<not> fullscreen s\<rparr>"

definition norm_geometry :: "window_geometry \<Rightarrow> window_geometry" where
  "norm_geometry g = \<lparr>geo_x = f64_norm (geo_x g), geo_y = f64_norm (geo_y g),
     geo_width = f64_norm (geo_width g), geo_height = f64_norm (geo_height g)\<rparr>"

definition place :: "window_placement \<Rightarrow> shell_view \<Rightarrow> shell_view" where
  "place p v = v\<lparr>
     view_place := (view_place v)(placement_window p \<mapsto> p\<lparr>geometry := norm_geometry (geometry p)\<rparr>),
     view_active := (case placement_phase p of
         BeginPlacement \<Rightarrow> insert (placement_window p, change p) (view_active v)
       | UpdatePlacement \<Rightarrow> view_active v
       | EndPlacement \<Rightarrow> view_active v - {(placement_window p, change p)})\<rparr>"

fun apply_event :: "pending_window_event \<Rightarrow> shell_view \<Rightarrow> shell_view" where
  "apply_event (Activated w) v = v\<lparr>view_focus := Some w\<rparr>"
| "apply_event (Action w a) v = v\<lparr>view_state := (view_state v)(w := act a (view_state v w))\<rparr>"
| "apply_event (Placement p) v = place p v"

abbreviation replay :: "pending_window_event list \<Rightarrow> shell_view \<Rightarrow> shell_view" where
  "replay es v \<equiv> fold apply_event es v"

lemma act_twice:
  "act a (act a s) = (if a \<in> {ToggleMaximize, ToggleFullscreen} then s else act a s)"
  by (cases a) simp_all

lemma place_eq: "placement_eq p q \<Longrightarrow> place q (place p v) = place p v"
proof -
  assume eq: "placement_eq p q"
  then have "norm_geometry (geometry p) = norm_geometry (geometry q)"
    by (auto simp: placement_eq_def geometry_eq_def norm_geometry_def dest: f64_eq_norm)
  with eq have "p\<lparr>geometry := norm_geometry (geometry p)\<rparr> = q\<lparr>geometry := norm_geometry (geometry q)\<rparr>"
    by (auto simp: placement_eq_def)
  with eq show ?thesis
    by (auto simp: place_def placement_eq_def split: placement_phase.splits)
qed

lemma place_update:
  "placement_window p = placement_window q \<Longrightarrow> placement_phase p = UpdatePlacement \<Longrightarrow>
   placement_phase q = UpdatePlacement \<Longrightarrow> place q (place p v) = place q v"
  by (simp add: place_def)

lemma apply_focus:
  "\<not> is_activation e \<Longrightarrow> apply_event e (v\<lparr>view_focus := f\<rparr>) = (apply_event e v)\<lparr>view_focus := f\<rparr>"
  by (cases e) (simp_all add: place_def split: placement_phase.split)

lemma replay_focus:
  "(replay (filter (\<lambda>e. \<not> is_activation e) es) v)\<lparr>view_focus := f\<rparr> = (replay es v)\<lparr>view_focus := f\<rparr>"
proof (induction es arbitrary: v)
  case Nil
  then show ?case by simp
next
  case (Cons e es)
  show ?case
  proof (cases "is_activation e")
    case True
    then obtain w where e: "e = Activated w" by (cases e) auto
    have keep: "replay (filter (\<lambda>e. \<not> is_activation e) es) (v\<lparr>view_focus := g\<rparr>) =
        (replay (filter (\<lambda>e. \<not> is_activation e) es) v)\<lparr>view_focus := g\<rparr>" for g
      by (induction es arbitrary: v) (simp_all add: apply_focus)
    show ?thesis using Cons [of "apply_event e v"] keep by (simp add: e)
  next
    case False
    with Cons show ?thesis by simp
  qed
qed

lemma replay_snoc: "es \<noteq> [] \<Longrightarrow> replay es v = apply_event (last es) (replay (butlast es) v)"
  by (cases es rule: rev_cases) simp_all

lemma append_replay:
  "length (events q) < MAX_PENDING_WINDOW_EVENTS \<Longrightarrow>
     replay (events (append_bounded q e)) v = apply_event e (replay (events q) v)"
  by (simp add: append_bounded_def)

lemma replace_last:
  "xs \<noteq> [] \<Longrightarrow> xs[length xs - Suc 0 := y] = butlast xs @ [y]"
  by (cases xs rule: rev_cases) (simp_all add: list_update_append)

text \<open>One push keeps the meaning of the queue.\<close>

lemma push_replay:
  assumes room: "length (events q) < MAX_PENDING_WINDOW_EVENTS"
  shows "replay (events (push q e)) v = apply_event e (replay (events q) v)"
proof (cases e)
  case (Activated w)
  have "length (events (remove_activations q)) < MAX_PENDING_WINDOW_EVENTS"
    using le_less_trans [OF length_filter_le room] by (simp add: remove_activations_def)
  from append_replay [OF this] show ?thesis
    by (simp add: Activated remove_activations_def replay_focus)
next
  case (Action w a)
  show ?thesis
  proof (cases "events q \<noteq> [] \<and> last (events q) = Action w a")
    case True
    then have "replay (events q) v = apply_event (Action w a) (replay (butlast (events q)) v)"
      using replay_snoc [of "events q" v] by simp
    with True show ?thesis by (auto simp: Action act_twice)
  next
    case False
    then show ?thesis using append_replay [OF room] by (auto simp: Action)
  qed
next
  case (Placement p)
  show ?thesis
  proof (cases "events q \<noteq> [] \<and> (\<exists>p'. last (events q) = Placement p')")
    case True
    then obtain p' where p': "events q \<noteq> []" "last (events q) = Placement p'" by blast
    then have "replay (events q) v = place p' (replay (butlast (events q)) v)"
      using replay_snoc [of "events q" v] by simp
    with p' append_replay [OF room] show ?thesis
      by (auto simp: Placement replace_last place_eq place_update)
  next
    case False
    then show ?thesis using append_replay [OF room] by (auto simp: Placement split: pending_window_event.splits)
  qed
qed

text \<open>The five things a push can do to the queue.\<close>

lemma push_cases:
  obtains "push q e = q" | "push q e = q\<lparr>events := butlast (events q)\<rparr>"
  | "push q e = q\<lparr>events := (events q)[length (events q) - 1 := e]\<rparr>"
  | "push q e = append_bounded q e" | "push q e = append_bounded (remove_activations q) e"
proof (cases e)
  case (Placement p)
  show thesis
  proof (cases "events q \<noteq> [] \<and> (\<exists>p'. last (events q) = Placement p')")
    case True
    then obtain p' where p': "events q \<noteq> []" "last (events q) = Placement p'" by blast
    show thesis
      using that(1,3,4) p'
      by (cases "placement_eq p' p"; cases "placement_window p' = placement_window p \<and>
          placement_phase p' = UpdatePlacement \<and> placement_phase p = UpdatePlacement \<and> change p' = change p")
        (simp_all add: Placement)
  next
    case False
    then show thesis using that(4) by (auto simp: Placement split: pending_window_event.splits)
  qed
next
  case (Action w a)
  show thesis
    by (cases "events q \<noteq> [] \<and> last (events q) = Action w a"; cases "a \<in> {ToggleMaximize, ToggleFullscreen}")
      (use that(1,2,4) Action in auto)
qed (use that(5) in simp)

lemma append_bounded_parts:
  "length (events q) \<le> MAX_PENDING_WINDOW_EVENTS \<Longrightarrow>
     length (events (append_bounded q e)) \<le> MAX_PENDING_WINDOW_EVENTS"
  "length (events (append_bounded q e)) \<le> Suc (length (events q))"
  "drain_scratch (append_bounded q e) = drain_scratch q"
  by (simp_all add: append_bounded_def)

lemma remove_activations_parts:
  "length (events (remove_activations q)) \<le> length (events q)"
  "drain_scratch (remove_activations q) = drain_scratch q"
  by (simp_all add: remove_activations_def)

lemma push_length:
  "length (events q) \<le> MAX_PENDING_WINDOW_EVENTS \<Longrightarrow> length (events (push q e)) \<le> MAX_PENDING_WINDOW_EVENTS"
  by (cases rule: push_cases [of q e])
    (use append_bounded_parts(1) remove_activations_parts(1) [of q] in \<open>auto intro: order_trans\<close>)

lemma push_grows: "length (events (push q e)) \<le> Suc (length (events q))"
  by (cases rule: push_cases [of q e])
    (use append_bounded_parts(2) [of q e] append_bounded_parts(2) [of "remove_activations q" e]
      remove_activations_parts(1) [of q] in auto)

lemma push_scratch [simp]: "drain_scratch (push q e) = drain_scratch q"
  by (cases rule: push_cases [of q e]) (simp_all add: append_bounded_parts remove_activations_parts)

section \<open>Properties\<close>



text \<open>
  Everything done to the queue, and the batches handed to the shell.
\<close>

datatype queue_op = Push pending_window_event | PushActivation u64 bool | DrainRecycle | Clear | DropActivations

fun queue_step :: "event_queue \<Rightarrow> queue_op \<Rightarrow> event_queue" where
  "queue_step q (Push e) = push q e"
| "queue_step q (PushActivation w restore) = push_activation q w restore"
| "queue_step q DrainRecycle = (case drain_events q of (q', drained) \<Rightarrow> recycle_drained q' drained)"
| "queue_step q Clear = queue_clear q"
| "queue_step q DropActivations = remove_activations q"

lemma queue_step_inv:
  "length (events q) \<le> MAX_PENDING_WINDOW_EVENTS \<and> drain_scratch q = [] \<Longrightarrow>
     length (events (queue_step q op)) \<le> MAX_PENDING_WINDOW_EVENTS \<and> drain_scratch (queue_step q op) = []"
  using remove_activations_parts [of q]
  by (cases op)
    (auto simp: push_length push_activation_def drain_events_def recycle_drained_def queue_clear_def
      Let_def simp del: push.simps)

text \<open>
  The queue is bounded and a drain delivers everything once. Whatever is pushed, the queue
  holds at most 4096 events; a drain hands over all of them, in order, and leaves nothing behind, and
  pushing an activation leaves it as the only one.
\<close>
lemma queue_is_bounded_and_drains:
  assumes "q = foldl queue_step Queue_default ops"
  shows "length (events q) \<le> MAX_PENDING_WINDOW_EVENTS \<and>
         snd (drain_events q) = events q \<and>
         (case drain_events q of (q', drained) \<Rightarrow> events (recycle_drained q' drained) = []) \<and>
         (\<forall>w. length (filter is_activation (events (push q (Activated w)))) \<le> 1)"
proof -
  have inv: "length (events q) \<le> MAX_PENDING_WINDOW_EVENTS \<and> drain_scratch q = []"
    unfolding assms
  proof (induction ops rule: rev_induct)
    case Nil
    then show ?case by (simp add: Queue_default_def)
  next
    case (snoc op ops)
    then show ?case by (simp add: queue_step_inv)
  qed
  have "filter is_activation (filter (\<lambda>e. \<not> is_activation e) es) = []" for es
    by (induction es) auto
  with inv show ?thesis
    by (simp add: drain_events_def recycle_drained_def append_bounded_def remove_activations_def Let_def)
qed

end
