(* ===== verification/Local_Windows.thy ===== *)
theory Local_Windows
  imports Window_Events
begin

text \<open>
  The windows of trusted in-process Flutter applications (\<^verbatim>\<open>local_windows.rs\<close>). Identifiers are taken
  downwards from \<open>i64::MAX\<close>; the callback that tells whether a Wayland surface already uses an
  identifier is a function argument. The search loop is a partial function into \<open>option\<close>; that it
  returns is part of the theorem about it.
\<close>

section \<open>The registry\<close>

definition MAX_LOCAL_FLUTTER_WINDOWS :: nat where
  "MAX_LOCAL_FLUTTER_WINDOWS = 256"

definition MAX_WINDOW_ID :: u64 where
  "MAX_WINDOW_ID = 0x7FFFFFFFFFFFFFFF"

record local_window =
  local_id :: u64
  app_id :: string
  title :: string
  local_geometry :: window_geometry

datatype local_window_error = Capacity | IdentifierExhausted

record local_windows =
  windows :: "u64 \<rightharpoonup> local_window"
  focused_id :: "u64 option"
  next_id :: u64

definition LocalWindows_default :: local_windows where
  "LocalWindows_default = \<lparr>windows = Map.empty, focused_id = None, next_id = MAX_WINDOW_ID\<rparr>"

definition previous_id :: "u64 \<Rightarrow> u64" where
  "previous_id i = (if i \<le> 1 then MAX_WINDOW_ID else i - 1)"

definition clamp_id :: "u64 \<Rightarrow> u64" where
  "clamp_id i = (if i < 1 then 1 else if MAX_WINDOW_ID < i then MAX_WINDOW_ID else i)"

partial_function (option) find_id ::
  "(u64 \<Rightarrow> bool) \<Rightarrow> u64 \<Rightarrow> u64 \<Rightarrow> (local_window_error + u64) option" where
  "find_id taken first_candidate candidate =
     (if \<not> taken candidate then Some (Inr candidate)
      else
        (let candidate = previous_id candidate
         in if candidate = first_candidate then Some (Inl IdentifierExhausted)
            else find_id taken first_candidate candidate))"

definition create ::
  "local_windows \<Rightarrow> string \<Rightarrow> string \<Rightarrow> window_geometry \<Rightarrow> (u64 \<Rightarrow> bool) \<Rightarrow>
     (local_windows \<times> (local_window_error + u64)) option" where
  "create ws app ttl geo external_id_in_use =
     (if MAX_LOCAL_FLUTTER_WINDOWS \<le> card (dom (windows ws)) then Some (ws, Inl Capacity)
      else
        (let first_candidate = clamp_id (next_id ws)
         in map_option (\<lambda>r. case r of
              Inl e \<Rightarrow> (ws, Inl e)
            | Inr candidate \<Rightarrow>
                (ws\<lparr>next_id := previous_id candidate,
                    windows := (windows ws)(candidate \<mapsto>
                      \<lparr>local_id = candidate, app_id = app, title = ttl, local_geometry = geo\<rparr>),
                    focused_id := Some candidate\<rparr>, Inr candidate))
            (find_id (\<lambda>i. i \<in> dom (windows ws) \<or> external_id_in_use i) first_candidate first_candidate)))"

definition local_contains :: "local_windows \<Rightarrow> u64 \<Rightarrow> bool" where
  "local_contains ws i \<longleftrightarrow> i \<in> dom (windows ws)"

definition focus :: "local_windows \<Rightarrow> u64 \<Rightarrow> local_windows \<times> bool" where
  "focus ws i = (if i \<notin> dom (windows ws) then (ws, False) else (ws\<lparr>focused_id := Some i\<rparr>, True))"

definition clear_focus :: "local_windows \<Rightarrow> local_windows" where
  "clear_focus ws = ws\<lparr>focused_id := None\<rparr>"

definition focused :: "local_windows \<Rightarrow> u64 option" where
  "focused ws = (case focused_id ws of None \<Rightarrow> None
     | Some i \<Rightarrow> if i \<in> dom (windows ws) then Some i else None)"

definition configure :: "local_windows \<Rightarrow> u64 \<Rightarrow> window_geometry \<Rightarrow> local_windows \<times> bool" where
  "configure ws i geo =
     (case windows ws i of
        None \<Rightarrow> (ws, False)
      | Some w \<Rightarrow> if geometry_eq (local_geometry w) geo then (ws, False)
                  else (ws\<lparr>windows := (windows ws)(i \<mapsto> w\<lparr>local_geometry := geo\<rparr>)\<rparr>, True))"

definition remove_window :: "local_windows \<Rightarrow> u64 \<Rightarrow> local_windows \<times> bool" where
  "remove_window ws i =
     (let removed = (i \<in> dom (windows ws));
          ws = ws\<lparr>windows := (windows ws)(i := None)\<rparr>
      in (if focused_id ws = Some i then ws\<lparr>focused_id := None\<rparr> else ws, removed))"

section \<open>The identifier search\<close>

text \<open>
  \<open>walk n i\<close> is the identifier reached from \<open>i\<close> after \<open>n\<close> steps; the search visits the identifiers of
  one round.
\<close>

definition id_ok :: "u64 \<Rightarrow> bool" where
  "id_ok i \<longleftrightarrow> 1 \<le> unat i \<and> unat i < 2 ^ 63"

lemma max_id: "unat MAX_WINDOW_ID = 2 ^ 63 - 1"
  by (simp add: MAX_WINDOW_ID_def)

lemma previous_unat: "id_ok i \<Longrightarrow> unat (previous_id i) = (if unat i = 1 then 2 ^ 63 - 1 else unat i - 1)"
proof -
  assume i: "id_ok i"
  then have "i \<noteq> 0" by (auto simp: id_ok_def)
  then have "unat (i - 1) = unat i - 1" by (rule unat_minus_one)
  with i show ?thesis by (auto simp: previous_id_def id_ok_def max_id word_le_nat_alt)
qed

lemma previous_ok: "id_ok i \<Longrightarrow> id_ok (previous_id i)"
  using previous_unat [of i] by (auto simp: id_ok_def)

lemma clamp_ok: "id_ok (clamp_id i)"
  by (auto simp: clamp_id_def id_ok_def max_id word_less_nat_alt not_less)

text \<open>How many identifiers are left before the search is back at \<open>first\<close>.\<close>

definition id_rank :: "u64 \<Rightarrow> u64 \<Rightarrow> nat" where
  "id_rank first i = (if unat i \<le> unat first then unat i + (2 ^ 63 - 1 - unat first)
                      else unat i - unat first)"

lemma rank_step:
  "id_ok first \<Longrightarrow> id_ok i \<Longrightarrow> previous_id i \<noteq> first \<Longrightarrow> id_rank first (previous_id i) < id_rank first i"
  using previous_unat [of i]
  by (auto simp: id_rank_def id_ok_def word_unat_eq_iff)

lemma rank_last:
  "id_ok first \<Longrightarrow> id_ok i \<Longrightarrow> previous_id i = first \<Longrightarrow> id_rank first i = 1"
  using previous_unat [of i] by (auto simp: id_rank_def id_ok_def)

lemma rank_visits:
  assumes "id_ok first" "id_ok i" "id_ok j" "id_rank first j < id_rank first i"
  shows "id_rank first j \<le> id_rank first (previous_id i)"
  using assms previous_unat [of i] by (auto simp: id_rank_def id_ok_def split: if_splits)

lemma rank_inj: "id_ok first \<Longrightarrow> id_ok i \<Longrightarrow> id_ok j \<Longrightarrow> id_rank first i = id_rank first j \<Longrightarrow> i = j"
  by (auto simp: id_rank_def id_ok_def word_unat_eq_iff split: if_splits)

lemma find_id_correct:
  assumes "id_ok first" "id_ok i"
  shows "\<exists>r. find_id taken first i = Some r \<and>
    (case r of
       Inr c \<Rightarrow> id_ok c \<and> \<not> taken c
     | Inl e \<Rightarrow> e = IdentifierExhausted \<and>
         (\<forall>j. id_ok j \<and> id_rank first j \<le> id_rank first i \<longrightarrow> taken j))"
  using assms(2)
proof (induction "id_rank first i" arbitrary: i rule: less_induct)
  case less
  show ?case
  proof (cases "taken i")
    case False
    then show ?thesis by (subst find_id.simps) (simp add: less.prems)
  next
    case True
    have same: "j = i" if "id_ok j" "id_rank first j \<le> id_rank first i" "\<not> id_rank first j < id_rank first i" for j
      using that rank_inj [OF assms(1) that(1) less.prems] by simp
    show ?thesis
    proof (cases "previous_id i = first")
      case last: True
      have "1 \<le> id_rank first j" if "id_ok j" for j
        using that assms(1) by (auto simp: id_rank_def id_ok_def)
      then have "taken j" if "id_ok j" "id_rank first j \<le> id_rank first i" for j
        using same [of j] rank_last [OF assms(1) less.prems last] that True by fastforce
      with True last show ?thesis by (subst find_id.simps) simp
    next
      case step: False
      have rec: "find_id taken first i = find_id taken first (previous_id i)"
        using True step by (subst find_id.simps) simp
      from less.hyps [OF rank_step [OF assms(1) less.prems step] previous_ok [OF less.prems]]
      obtain r where r: "find_id taken first (previous_id i) = Some r" "case r of
       Inr c \<Rightarrow> id_ok c \<and> \<not> taken c
     | Inl e \<Rightarrow> e = IdentifierExhausted \<and>
         (\<forall>j. id_ok j \<and> id_rank first j \<le> id_rank first (previous_id i) \<longrightarrow> taken j)"
        by blast
      have "taken j" if "id_ok j" "id_rank first j \<le> id_rank first i"
        "\<forall>j. id_ok j \<and> id_rank first j \<le> id_rank first (previous_id i) \<longrightarrow> taken j" for j
        using same [OF that(1,2)] rank_visits [OF assms(1) less.prems that(1)] that True by blast
      with r show ?thesis unfolding rec by (auto split: sum.splits)
    qed
  qed
qed

lemma rank_first: "id_ok first \<Longrightarrow> id_ok j \<Longrightarrow> id_rank first j \<le> id_rank first first"
  by (auto simp: id_rank_def id_ok_def)

section \<open>Properties\<close>

text \<open>
  A local window gets a fresh identifier, or there is none. Creating a window always
  returns. It fails for capacity exactly if 256 windows exist, and for identifiers only if every
  identifier from 1 to \<open>i64::MAX\<close> is in use. Otherwise the identifier is in that range, used neither by
  a local window nor outside; the new window is stored under it and focused, and every other window is
  unchanged.
\<close>
lemma created_window_has_a_fresh_identifier:
  "\<exists>ws' r. create ws app ttl geo external = Some (ws', r) \<and>
     (r = Inl Capacity \<longleftrightarrow> 256 \<le> card (dom (windows ws))) \<and>
     (r = Inl IdentifierExhausted \<longrightarrow> (\<forall>i. id_ok i \<longrightarrow> i \<in> dom (windows ws) \<or> external i)) \<and>
     (\<forall>e. r = Inl e \<longrightarrow> ws' = ws) \<and>
     (\<forall>i. r = Inr i \<longrightarrow> id_ok i \<and> i \<notin> dom (windows ws) \<and> \<not> external i \<and>
        windows ws' = (windows ws)(i \<mapsto> \<lparr>local_id = i, app_id = app, title = ttl, local_geometry = geo\<rparr>) \<and>
        focused ws' = Some i \<and> next_id ws' = previous_id i)"
proof (cases "256 \<le> card (dom (windows ws))")
  case True
  then show ?thesis by (simp add: create_def MAX_LOCAL_FLUTTER_WINDOWS_def)
next
  case False
  let ?taken = "\<lambda>i. i \<in> dom (windows ws) \<or> external i"
  obtain r where r: "find_id ?taken (clamp_id (next_id ws)) (clamp_id (next_id ws)) = Some r" "case r of
       Inr c \<Rightarrow> id_ok c \<and> \<not> ?taken c
     | Inl e \<Rightarrow> e = IdentifierExhausted \<and> (\<forall>j. id_ok j \<and>
         id_rank (clamp_id (next_id ws)) j \<le> id_rank (clamp_id (next_id ws)) (clamp_id (next_id ws)) \<longrightarrow> ?taken j)"
    using find_id_correct [OF clamp_ok [of "next_id ws"] clamp_ok [of "next_id ws"], of ?taken] by blast
  have all: "id_rank (clamp_id (next_id ws)) j \<le> id_rank (clamp_id (next_id ws)) (clamp_id (next_id ws))"
    if "id_ok j" for j
    by (rule rank_first [OF clamp_ok that])
  show ?thesis
  proof (cases r)
    case (Inl e)
    with r False all show ?thesis by (simp add: create_def MAX_LOCAL_FLUTTER_WINDOWS_def)
  next
    case (Inr c)
    with r False show ?thesis by (auto simp: create_def MAX_LOCAL_FLUTTER_WINDOWS_def focused_def)
  qed
qed

datatype local_op = Create string string window_geometry "u64 \<Rightarrow> bool" | Focus u64 | ClearFocus
  | Configure u64 window_geometry | RemoveWindow u64

fun local_step :: "local_windows \<Rightarrow> local_op \<Rightarrow> local_windows" where
  "local_step ws (Create app ttl geo external) = fst (the (create ws app ttl geo external))"
| "local_step ws (Focus i) = fst (focus ws i)"
| "local_step ws ClearFocus = clear_focus ws"
| "local_step ws (Configure i geo) = fst (configure ws i geo)"
| "local_step ws (RemoveWindow i) = fst (remove_window ws i)"

definition local_inv :: "local_windows \<Rightarrow> bool" where
  "local_inv ws \<longleftrightarrow> finite (dom (windows ws)) \<and> card (dom (windows ws)) \<le> 256 \<and>
     (\<forall>i w. windows ws i = Some w \<longrightarrow> local_id w = i \<and> id_ok i) \<and>
     (\<forall>i. focused_id ws = Some i \<longrightarrow> i \<in> dom (windows ws))"

lemma create_result:
  obtains e where "create ws app ttl geo external = Some (ws, Inl e)"
  | i where "card (dom (windows ws)) < 256" "id_ok i" "i \<notin> dom (windows ws)"
    "create ws app ttl geo external = Some (ws\<lparr>next_id := previous_id i, windows := (windows ws)(i \<mapsto>
       \<lparr>local_id = i, app_id = app, title = ttl, local_geometry = geo\<rparr>), focused_id := Some i\<rparr>, Inr i)"
proof (cases "256 \<le> card (dom (windows ws))")
  case True
  then show thesis using that(1) by (simp add: create_def MAX_LOCAL_FLUTTER_WINDOWS_def)
next
  case False
  let ?taken = "\<lambda>i. i \<in> dom (windows ws) \<or> external i"
  obtain r where r: "find_id ?taken (clamp_id (next_id ws)) (clamp_id (next_id ws)) = Some r"
    "\<forall>c. r = Inr c \<longrightarrow> id_ok c \<and> \<not> ?taken c"
    using find_id_correct [OF clamp_ok [of "next_id ws"] clamp_ok [of "next_id ws"], of ?taken]
    by (metis (no_types, lifting) sum.case(2))
  show thesis
  proof (cases r)
    case (Inl e)
    with r False show thesis by (intro that(1) [of e]) (simp add: create_def MAX_LOCAL_FLUTTER_WINDOWS_def)
  next
    case (Inr c)
    with r False show thesis by (intro that(2) [of c]) (auto simp: create_def MAX_LOCAL_FLUTTER_WINDOWS_def)
  qed
qed

lemma local_step_inv:
  assumes inv: "local_inv ws"
  shows "local_inv (local_step ws op)"
proof (cases op)
  case (Create app ttl geo external)
  show ?thesis
    using inv
    by (cases rule: create_result [of ws app ttl geo external])
      (auto simp: Create local_inv_def card_insert_if)
next
  case (RemoveWindow i)
  have "card (dom (windows ws) - {i}) \<le> card (dom (windows ws))"
    using inv by (intro card_mono) (auto simp: local_inv_def)
  with inv show ?thesis by (auto simp: RemoveWindow remove_window_def local_inv_def Let_def)
next
  case (Configure i geo)
  have "insert i (dom (windows ws)) = dom (windows ws)" if "windows ws i = Some w" for w
    using that by auto
  with inv show ?thesis
    by (auto simp: Configure configure_def local_inv_def split: option.splits if_splits)
qed (use inv in \<open>auto simp: focus_def clear_focus_def local_inv_def\<close>)

text \<open>
  The registry stays consistent. Over every sequence of operations there are at most 256
  local windows, each is stored under its own identifier in the valid range, and the focused window is
  always one that exists.
\<close>
lemma local_windows_stay_consistent:
  "local_inv (foldl local_step LocalWindows_default ops) \<and>
   focused (foldl local_step LocalWindows_default ops) = focused_id (foldl local_step LocalWindows_default ops)"
proof -
  have "local_inv (foldl local_step LocalWindows_default ops)"
  proof (induction ops rule: rev_induct)
    case Nil
    then show ?case by (simp add: local_inv_def LocalWindows_default_def)
  next
    case (snoc op ops)
    then show ?case by (simp add: local_step_inv)
  qed
  then show ?thesis by (auto simp: local_inv_def focused_def split: option.splits)
qed

end
