(* ===== verification/Lock_Frame.thy ===== *)
theory Lock_Frame
  imports Denial_Base
begin

text \<open>
  The gate that keeps desktop content off a waking locked display (\<^verbatim>\<open>flutter_runtime/lock_frame.rs\<close>).
  The locked epoch of the authentication and the outcome of the two fallible sends are arguments; the
  platform messages are returned as byte strings. A message that is not valid UTF-8 has a byte that is
  no ASCII digit, so parsing the bytes directly accepts exactly what \<open>from_utf8\<close> followed by
  \<open>parse::<u64>\<close> accepts.
\<close>

section \<open>Decimal numbers\<close>

definition digit_byte :: "nat \<Rightarrow> u8" where
  "digit_byte d = word_of_nat (48 + d)"

fun to_string :: "nat \<Rightarrow> u8 list" where
  "to_string n = (if n < 10 then [digit_byte n] else to_string (n div 10) @ [digit_byte (n mod 10)])"

declare to_string.simps [simp del]

definition digit_value :: "u8 \<Rightarrow> nat option" where
  "digit_value b = (if 48 \<le> unat b \<and> unat b \<le> 57 then Some (unat b - 48) else None)"

text \<open>\<open>parse::<u64>\<close> with its checked multiplication and addition.\<close>

fun parse_digits :: "nat \<Rightarrow> u8 list \<Rightarrow> nat option" where
  "parse_digits acc [] = Some acc"
| "parse_digits acc (b # bs) =
     (case digit_value b of
        None \<Rightarrow> None
      | Some d \<Rightarrow> if 2 ^ 64 \<le> acc * 10 \<or> 2 ^ 64 \<le> acc * 10 + d then None
                  else parse_digits (acc * 10 + d) bs)"

definition parse_u64 :: "u8 list \<Rightarrow> u64 option" where
  "parse_u64 bs =
     (if bs = [] \<or> bs = [43] \<or> bs = [45] then None
      else map_option word_of_nat (parse_digits 0 (if hd bs = 43 then tl bs else bs)))"

lemma unat_digit: "d < 10 \<Longrightarrow> unat (digit_byte d) = 48 + d"
  by (simp add: digit_byte_def unat_of_nat del: of_nat_add)

lemma digit_roundtrip: "d < 10 \<Longrightarrow> digit_value (digit_byte d) = Some d"
  by (simp add: digit_value_def unat_digit)

lemma digit_not_sign: "d < 10 \<Longrightarrow> digit_byte d \<noteq> 43 \<and> digit_byte d \<noteq> 45"
  using unat_digit [of d] by (auto simp: word_unat_eq_iff)

lemma parse_digits_append:
  "parse_digits acc (xs @ ys) = Option.bind (parse_digits acc xs) (\<lambda>a. parse_digits a ys)"
  by (induction acc xs rule: parse_digits.induct) (auto split: option.splits)

lemma parse_to_string: "n < 2 ^ 64 \<Longrightarrow> parse_digits 0 (to_string n) = Some n"
proof (induction n rule: to_string.induct)
  case (1 n)
  show ?case
  proof (cases "n < 10")
    case True
    then show ?thesis by (simp add: to_string.simps [of n] digit_roundtrip)
  next
    case False
    have "parse_digits 0 (to_string (n div 10)) = Some (n div 10)"
      using 1 False by simp
    moreover have "n div 10 * 10 < 2 ^ 64" "n div 10 * 10 + n mod 10 = n"
      using 1(2) div_times_less_eq_dividend [of n 10] by (simp_all del: div_times_less_eq_dividend)
    ultimately show ?thesis
      using False 1(2) by (simp add: to_string.simps [of n] parse_digits_append digit_roundtrip)
  qed
qed

lemma to_string_first:
  "to_string n \<noteq> [] \<and> hd (to_string n) \<noteq> 43 \<and> hd (to_string n) \<noteq> 45"
proof (induction n rule: to_string.induct)
  case (1 n)
  then show ?case
    using digit_not_sign [of n] by (cases "n < 10") (simp_all add: to_string.simps [of n])
qed

lemma parse_u64_to_string: "parse_u64 (to_string (unat w)) = Some w"
proof -
  have "unat w < 2 ^ 64" using unsigned_less [where 'a = nat and w = w] by simp
  then show ?thesis
    using parse_to_string [of "unat w"] to_string_first [of "unat w"]
    by (cases "to_string (unat w)") (auto simp: parse_u64_def)
qed

lemma to_string_length: "n < 10 ^ k \<Longrightarrow> 0 < k \<Longrightarrow> length (to_string n) \<le> k"
proof (induction n arbitrary: k rule: to_string.induct)
  case (1 n)
  show ?case
  proof (cases "n < 10")
    case True
    then show ?thesis using 1(3) by (simp add: to_string.simps [of n])
  next
    case False
    then obtain j where j: "k = Suc j" "0 < j"
      using 1(2,3) by (cases k; cases "k - 1") auto
    then have "n div 10 < 10 ^ j" using 1(2) by (simp add: less_mult_imp_div_less mult.commute)
    with 1(1) [OF False] j have "length (to_string (n div 10)) \<le> j" by blast
    then show ?thesis using False j by (simp add: to_string.simps [of n])
  qed
qed

section \<open>The gate\<close>

record lock_frame_gate =
  gate_epoch :: "u64 option"
  token :: u64
  acknowledged :: bool

definition Gate_default :: lock_frame_gate where
  "Gate_default = \<lparr>gate_epoch = None, token = 0, acknowledged = False\<rparr>"

record lock_frame_state =
  gate :: lock_frame_gate
  NEXT_TOKEN :: u64

definition begin_gate :: "lock_frame_state \<Rightarrow> u64 \<Rightarrow> lock_frame_state" where
  "begin_gate s e =
     s\<lparr>gate := \<lparr>gate_epoch = Some e, token = max (NEXT_TOKEN s) 1, acknowledged = False\<rparr>,
       NEXT_TOKEN := NEXT_TOKEN s + 1\<rparr>"

definition acknowledge :: "lock_frame_gate \<Rightarrow> u64 \<Rightarrow> u64 option \<Rightarrow> lock_frame_gate \<times> bool" where
  "acknowledge g t e =
     (if t = 0 \<or> t \<noteq> token g \<or> e \<noteq> gate_epoch g \<or> e = None then (g, False)
      else (g\<lparr>acknowledged := True\<rparr>, True))"

definition render_token :: "lock_frame_gate \<Rightarrow> u64 option \<Rightarrow> u64" where
  "render_token g e = (if acknowledged g \<and> gate_epoch g = e \<and> e \<noteq> None then token g else 0)"

definition permits :: "lock_frame_gate \<Rightarrow> u64 \<Rightarrow> u64 option \<Rightarrow> bool" where
  "permits g t e \<longleftrightarrow> e = None \<or> t \<noteq> 0 \<and> t = render_token g e"

text \<open>The operations of the runtime; \<open>published\<close> tells whether publishing the authentication succeeded.\<close>

definition prepare_locked_wake ::
  "lock_frame_state \<Rightarrow> u64 option \<Rightarrow> bool \<Rightarrow> lock_frame_state \<times> u8 list list" where
  "prepare_locked_wake s locked_epoch published =
     (case locked_epoch of
        None \<Rightarrow> (s, [])
      | Some e \<Rightarrow>
          (let s = begin_gate s e
           in if published then (s, [to_string (unat (token (gate s)))]) else (s, [])))"

definition synchronize_lock_frame ::
  "lock_frame_state \<Rightarrow> u64 option \<Rightarrow> bool \<Rightarrow> lock_frame_state \<times> u8 list list" where
  "synchronize_lock_frame s locked_epoch published =
     (if token (gate s) \<noteq> 0 then
        (case locked_epoch of
           Some e \<Rightarrow> if gate_epoch (gate s) \<noteq> Some e then prepare_locked_wake s locked_epoch published
                      else (s, [])
         | None \<Rightarrow> (s\<lparr>gate := Gate_default\<rparr>, [[48]]))
      else (s, []))"

definition handle_lock_frame_message ::
  "lock_frame_state \<Rightarrow> u8 list \<Rightarrow> u64 option \<Rightarrow> lock_frame_state \<times> u8 list" where
  "handle_lock_frame_message s data locked_epoch =
     (if data = [115, 121, 110, 99] then (s, to_string (unat (token (gate s))))
      else if length data \<le> 20 then
        (case parse_u64 data of
           None \<Rightarrow> (s, [])
         | Some t \<Rightarrow> (s\<lparr>gate := fst (acknowledge (gate s) t locked_epoch)\<rparr>, []))
      else (s, []))"

definition permits_wake_frame :: "lock_frame_state \<Rightarrow> u64 \<Rightarrow> u64 option \<Rightarrow> bool" where
  "permits_wake_frame s t locked_epoch = permits (gate s) t locked_epoch"

section \<open>Histories\<close>

definition LockFrame_default :: lock_frame_state where
  "LockFrame_default = \<lparr>gate = Gate_default, NEXT_TOKEN = 1\<rparr>"

text \<open>A replaced runtime starts with a default gate but shares the token counter.\<close>

datatype lock_event = PrepareWake "u64 option" bool | Synchronize "u64 option" bool
  | Message "u8 list" "u64 option" | NewRuntime

fun lock_step :: "lock_frame_state \<Rightarrow> lock_event \<Rightarrow> lock_frame_state" where
  "lock_step s (PrepareWake e p) = fst (prepare_locked_wake s e p)"
| "lock_step s (Synchronize e p) = fst (synchronize_lock_frame s e p)"
| "lock_step s (Message data e) = fst (handle_lock_frame_message s data e)"
| "lock_step s NewRuntime = s\<lparr>gate := Gate_default\<rparr>"

text \<open>After fewer than \<open>2^64 - 1\<close> events the counter has not wrapped and every token handed out is below it.\<close>

definition lock_inv :: "nat \<Rightarrow> lock_frame_state \<Rightarrow> bool" where
  "lock_inv n s \<longleftrightarrow> 1 \<le> unat (NEXT_TOKEN s) \<and> unat (NEXT_TOKEN s) \<le> Suc n \<and> token (gate s) < NEXT_TOKEN s \<and>
     (acknowledged (gate s) \<longrightarrow> token (gate s) \<noteq> 0)"

lemma begin_gate_inv:
  assumes "lock_inv n s" "Suc n < 2 ^ 64 - 1"
  shows "lock_inv (Suc n) (begin_gate s e)" "NEXT_TOKEN s \<le> token (gate (begin_gate s e))"
    "token (gate (begin_gate s e)) \<noteq> 0" "NEXT_TOKEN s < NEXT_TOKEN (begin_gate s e)"
proof -
  have u: "1 \<le> unat (NEXT_TOKEN s)" "unat (NEXT_TOKEN s) \<le> Suc n" using assms(1) by (simp_all add: lock_inv_def)
  have "NEXT_TOKEN s \<noteq> - 1" using u assms(2) unat_max_u64 [of "NEXT_TOKEN s"] by auto
  then have s: "unat (NEXT_TOKEN s + 1) = Suc (unat (NEXT_TOKEN s))" by (rule unat_succ_u64)
  have mx: "max (NEXT_TOKEN s) 1 = NEXT_TOKEN s" using u(1) by (intro max_absorb1) (simp add: word_le_nat_alt)
  show "lock_inv (Suc n) (begin_gate s e)"
    using u s by (simp add: lock_inv_def begin_gate_def mx word_less_nat_alt)
  show "NEXT_TOKEN s \<le> token (gate (begin_gate s e))" by (simp add: begin_gate_def mx)
  show "token (gate (begin_gate s e)) \<noteq> 0" using u(1) by (auto simp: begin_gate_def mx)
  show "NEXT_TOKEN s < NEXT_TOKEN (begin_gate s e)" using s by (simp add: begin_gate_def word_less_nat_alt)
qed

lemma lock_inv_mono: "lock_inv n s \<Longrightarrow> lock_inv (Suc n) s"
  by (simp add: lock_inv_def)

text \<open>One event either leaves the gate's token alone, clears it, or begins a new one.\<close>

lemma lock_step_cases:
  obtains (keep) "NEXT_TOKEN (lock_step s e) = NEXT_TOKEN s" "token (gate (lock_step s e)) = token (gate s)"
      "acknowledged (gate (lock_step s e)) \<Longrightarrow> acknowledged (gate s) \<or> token (gate s) \<noteq> 0"
  | (clear) "lock_step s e = s\<lparr>gate := Gate_default\<rparr>"
  | (begun) x where "lock_step s e = begin_gate s x"
proof (cases e)
  case (PrepareWake l p)
  then show thesis
    using keep begun by (cases l) (auto simp: prepare_locked_wake_def Let_def)
next
  case (Synchronize l p)
  then show thesis
    using keep clear begun
    by (cases l; cases "token (gate s) = 0"; cases "gate_epoch (gate s) = l")
      (auto simp: synchronize_lock_frame_def prepare_locked_wake_def Let_def)
next
  case (Message data l)
  show thesis
  proof (rule keep)
    show "NEXT_TOKEN (lock_step s e) = NEXT_TOKEN s" "token (gate (lock_step s e)) = token (gate s)"
      by (auto simp: Message handle_lock_frame_message_def acknowledge_def split: option.splits)
    show "acknowledged (gate (lock_step s e)) \<Longrightarrow> acknowledged (gate s) \<or> token (gate s) \<noteq> 0"
      by (auto simp: Message handle_lock_frame_message_def acknowledge_def split: option.splits if_splits)
  qed
next
  case NewRuntime
  then show thesis using clear by simp
qed

lemma lock_step_inv:
  assumes "lock_inv n s" "Suc n < 2 ^ 64 - 1"
  shows "lock_inv (Suc n) (lock_step s e)"
proof (cases rule: lock_step_cases [of s e])
  case keep
  with assms(1) show ?thesis by (auto simp: lock_inv_def)
next
  case clear
  with assms(1) show ?thesis by (auto simp: lock_inv_def Gate_default_def word_less_nat_alt)
next
  case (begun x)
  with begin_gate_inv [OF assms] show ?thesis by simp
qed

lemma lock_run_inv:
  "lock_inv n s \<Longrightarrow> n + length es < 2 ^ 64 - 1 \<Longrightarrow> lock_inv (n + length es) (foldl lock_step s es)"
proof (induction es arbitrary: n s)
  case Nil
  then show ?case by simp
next
  case (Cons e es)
  from Cons.IH [OF lock_step_inv [OF Cons.prems(1), of e]] Cons.prems(2) show ?case by simp
qed

text \<open>Once a wake began, the gate's token is gone or at least the counter at that time.\<close>

lemma lock_run_fresh:
  "lock_inv n s \<Longrightarrow> n + length es < 2 ^ 64 - 1 \<Longrightarrow> token (gate s) = 0 \<or> k \<le> token (gate s) \<Longrightarrow> k \<le> NEXT_TOKEN s \<Longrightarrow>
     token (gate (foldl lock_step s es)) = 0 \<or> k \<le> token (gate (foldl lock_step s es))"
proof (induction es arbitrary: n s)
  case Nil
  then show ?case by simp
next
  case (Cons e es)
  have room: "Suc n < 2 ^ 64 - 1" using Cons.prems(2) by simp
  have "(token (gate (lock_step s e)) = 0 \<or> k \<le> token (gate (lock_step s e))) \<and> k \<le> NEXT_TOKEN (lock_step s e)"
  proof (cases rule: lock_step_cases [of s e])
    case (begun x)
    have "k \<le> token (gate (begin_gate s x))"
      by (rule order_trans [OF Cons.prems(4) begin_gate_inv(2) [OF Cons.prems(1) room]])
    moreover have "k \<le> NEXT_TOKEN (begin_gate s x)"
      by (rule order_trans [OF Cons.prems(4) less_imp_le [OF begin_gate_inv(4) [OF Cons.prems(1) room]]])
    ultimately show ?thesis using begun by simp
  qed (use Cons.prems in \<open>auto simp: Gate_default_def\<close>)
  with Cons.IH [OF lock_step_inv [OF Cons.prems(1) room]] Cons.prems(2) show ?case by simp
qed

lemma lock_start: "lock_inv 0 LockFrame_default"
  by (simp add: lock_inv_def LockFrame_default_def Gate_default_def)

section \<open>Properties\<close>

text \<open>
  Claim C3 (a frame painted before the lock never wakes the display). Let a frame be tagged at any
  moment, and let a locked wake begin afterwards. Whatever messages, synchronisations, runtime restarts
  and further wakes follow, the frame is not permitted while the session is locked.
\<close>
theorem stale_frames_never_wake_a_locked_display:
  assumes "length es + length es' < 2 ^ 64 - 2"
    and "t = render_token (gate (foldl lock_step LockFrame_default es)) e"
  shows "\<not> permits_wake_frame (foldl lock_step LockFrame_default (es @ PrepareWake (Some x) p # es')) t (Some l)"
proof -
  let ?s = "foldl lock_step LockFrame_default es"
  have inv: "lock_inv (length es) ?s" using lock_run_inv [OF lock_start, of es] assms(1) by simp
  have room: "Suc (length es) < 2 ^ 64 - 1" using assms(1) by simp
  have step: "lock_step ?s (PrepareWake (Some x) p) = begin_gate ?s x"
    by (simp add: prepare_locked_wake_def Let_def)
  note b = begin_gate_inv [OF inv room, of x]
  have fresh: "token (gate (foldl lock_step (begin_gate ?s x) es')) = 0 \<or>
      NEXT_TOKEN ?s \<le> token (gate (foldl lock_step (begin_gate ?s x) es'))"
    using lock_run_fresh [OF b(1), of es' "NEXT_TOKEN ?s"] assms(1) b(2) less_imp_le [OF b(4)] by simp
  have "t < NEXT_TOKEN ?s"
    using inv by (auto simp: assms(2) render_token_def lock_inv_def word_less_nat_alt)
  then have "t \<noteq> 0 \<longrightarrow> t \<noteq> token (gate (foldl lock_step (begin_gate ?s x) es'))" using fresh by auto
  then show ?thesis
    by (auto simp: step [simplified] permits_wake_frame_def permits_def render_token_def)
qed

theorem stale_frames_never_wake_a_locked_display_witness:
  "\<not> permits_wake_frame (foldl lock_step LockFrame_default
      ([PrepareWake (Some 7) True, Message [49] (Some 7)] @ PrepareWake (Some 7) True # [Message [50] (Some 7)])) 1 (Some 7)"
proof (rule stale_frames_never_wake_a_locked_display)
  have "parse_u64 [49] = Some 1" by (simp add: parse_u64_def digit_value_def)
  then show "1 = render_token (gate (foldl lock_step LockFrame_default
      [PrepareWake (Some 7) True, Message [49] (Some 7)])) (Some 7)"
    by (simp add: prepare_locked_wake_def begin_gate_def handle_lock_frame_message_def acknowledge_def
        render_token_def LockFrame_default_def Let_def)
qed simp

text \<open>
  The handshake completes. After a locked wake whose request was sent, the shell's answer
  with the very bytes it received acknowledges the layout: frames are then tagged with a non-zero token,
  and exactly that token is permitted while the lock epoch stays; an unlocked session permits every frame.
\<close>
lemma acknowledged_layout_may_wake:
  assumes "length es < 2 ^ 64 - 2" "s = foldl lock_step LockFrame_default es"
    and "prepare_locked_wake s (Some x) True = (s', [request])"
    and "s'' = fst (handle_lock_frame_message s' request (Some x))"
  shows "render_token (gate s') (Some x) = 0 \<and> render_token (gate s'') (Some x) \<noteq> 0 \<and>
         (\<forall>t. permits_wake_frame s'' t (Some x) \<longleftrightarrow> t = render_token (gate s'') (Some x)) \<and>
         (\<forall>t y. y \<noteq> x \<longrightarrow> \<not> permits_wake_frame s'' t (Some y)) \<and> (\<forall>t. permits_wake_frame s'' t None)"
proof -
  have inv: "lock_inv (length es) s" using lock_run_inv [OF lock_start, of es] assms(1,2) by simp
  have room: "Suc (length es) < 2 ^ 64 - 1" using assms(1) by simp
  have s': "s' = begin_gate s x" "request = to_string (unat (token (gate s')))"
    using assms(3) by (auto simp: prepare_locked_wake_def Let_def)
  have tok: "token (gate s') \<noteq> 0" using begin_gate_inv(3) [OF inv room, of x] s'(1) by simp
  have g: "gate_epoch (gate s') = Some x" "\<not> acknowledged (gate s')"
    by (simp_all add: s'(1) begin_gate_def)
  have "unat (token (gate s')) < 10 ^ 20"
    using unsigned_less [where 'a = nat and w = "token (gate s')"] by simp
  then have len: "length request \<le> 20" using to_string_length [of "unat (token (gate s'))" 20] s'(2) by simp
  have parse: "parse_u64 request = Some (token (gate s'))" by (simp add: s'(2) parse_u64_to_string)
  have "parse_u64 [115, 121, 110, 99] = None" by (simp add: parse_u64_def digit_value_def)
  then have "request \<noteq> [115, 121, 110, 99]" using parse by auto
  then have "gate s'' = (gate s')\<lparr>acknowledged := True\<rparr>"
    using tok g by (simp add: assms(4) handle_lock_frame_message_def len parse acknowledge_def)
  with tok g show ?thesis by (auto simp: render_token_def permits_wake_frame_def permits_def)
qed

end
