(* ===== verification/Event_Pipeline.thy ===== *)
theory Event_Pipeline
  imports Denial_Base
begin

text \<open>
  The cross-thread ingress of \<^verbatim>\<open>flutter_runtime/event_pipeline.rs\<close>. Every operation is one atomic
  action (a mutex section or one atomic instruction); the step relation \<open>inbox_step\<close> interleaves
  them with the actions of the producers and the event loop around them: a producer that is told
  to wake the loop sends an edge later, the send may fail, and the loop receives edges later still.
\<close>

section \<open>The task budget\<close>

definition MAX_PENDING_PLATFORM_TASKS :: nat where
  "MAX_PENDING_PLATFORM_TASKS = 4096"

definition try_acquire :: "nat \<Rightarrow> nat option" where
  "try_acquire pending = (if pending < MAX_PENDING_PLATFORM_TASKS then Some (pending + 1) else None)"

text \<open>\<open>fetch_sub\<close> on an \<open>AtomicUsize\<close> wraps; dropping a permit while none is out would be visible.\<close>

definition permit_drop :: "nat \<Rightarrow> nat" where
  "permit_drop pending = (if pending = 0 then 2 ^ 64 - 1 else pending - 1)"

inductive budget_step :: "nat \<times> nat \<Rightarrow> nat \<times> nat \<Rightarrow> bool" where
  acquire: "try_acquire pending = Some pending' \<Longrightarrow> budget_step (pending, permits) (pending', Suc permits)"
| refuse: "try_acquire pending = None \<Longrightarrow> budget_step (pending, permits) (pending, permits)"
| drop: "budget_step (pending, Suc permits) (permit_drop pending, permits)"

section \<open>The coalesced wakeup\<close>

definition wakeup_begin :: "bool \<Rightarrow> bool \<times> bool" where
  "wakeup_begin pending = (True, \<not> pending)"

definition wakeup_acknowledge :: "bool \<Rightarrow> bool" where
  "wakeup_acknowledge pending = False"

section \<open>The inbox\<close>

record 'a inbox =
  items :: "'a list"
  armed :: bool

definition inbox_new :: "'a inbox" where
  "inbox_new = \<lparr>items = [], armed = False\<rparr>"

definition inbox_push :: "'a inbox \<Rightarrow> 'a \<Rightarrow> 'a inbox \<times> bool" where
  "inbox_push b item =
     (let b = b\<lparr>items := items b @ [item]\<rparr>
      in if armed b then (b, False) else (b\<lparr>armed := True\<rparr>, True))"

text \<open>The result is the inbox and the caller's buffer, which the caller provides empty.\<close>

definition take_into :: "'a inbox \<Rightarrow> 'a list \<Rightarrow> 'a inbox \<times> 'a list" where
  "take_into b buffer = (b\<lparr>armed := False, items := buffer\<rparr>, items b)"

definition discard_after_failed_wakeup :: "'a inbox \<Rightarrow> 'a inbox" where
  "discard_after_failed_wakeup b = b\<lparr>armed := False, items := []\<rparr>"

text \<open>
  The inbox with its surroundings: producers that still have to send an edge, edges in the channel,
  and the history of pushed, delivered and discarded items.
\<close>

record 'a pipeline =
  box :: "'a inbox"
  senders :: nat
  edges :: nat
  pushed :: "'a list"
  delivered :: "'a list"
  discarded :: "'a list"

definition pipeline_new :: "'a pipeline" where
  "pipeline_new = \<lparr>box = inbox_new, senders = 0, edges = 0, pushed = [], delivered = [], discarded = []\<rparr>"

inductive inbox_step :: "'a pipeline \<Rightarrow> 'a pipeline \<Rightarrow> bool" where
  push: "inbox_push (box p) item = (b, wake) \<Longrightarrow>
    inbox_step p (p\<lparr>box := b, senders := (if wake then Suc (senders p) else senders p),
                    pushed := pushed p @ [item]\<rparr>)"
| send: "senders p = Suc n \<Longrightarrow> inbox_step p (p\<lparr>senders := n, edges := Suc (edges p)\<rparr>)"
| send_failed: "senders p = Suc n \<Longrightarrow>
    inbox_step p (p\<lparr>senders := n, box := discard_after_failed_wakeup (box p),
                    discarded := discarded p @ items (box p)\<rparr>)"
| receive: "edges p = Suc n \<Longrightarrow> take_into (box p) [] = (b, batch) \<Longrightarrow>
    inbox_step p (p\<lparr>edges := n, box := b, delivered := delivered p @ batch\<rparr>)"

inductive inbox_reachable :: "'a pipeline \<Rightarrow> bool" where
  inbox_start: "inbox_reachable pipeline_new"
| inbox_more: "inbox_reachable p \<Longrightarrow> inbox_step p q \<Longrightarrow> inbox_reachable q"

inductive_cases inbox_stepE: "inbox_step p q"
inductive_cases budget_stepE: "budget_step s t"

definition pipeline_inv :: "'a pipeline \<Rightarrow> bool" where
  "pipeline_inv p \<longleftrightarrow> (items (box p) \<noteq> [] \<longrightarrow> armed (box p)) \<and>
     (armed (box p) \<longrightarrow> 0 < senders p + edges p)"

lemma inbox_step_inv: "inbox_step p q \<Longrightarrow> pipeline_inv p \<Longrightarrow> pipeline_inv q"
  by (erule inbox_stepE)
    (auto simp: pipeline_inv_def inbox_push_def take_into_def discard_after_failed_wakeup_def Let_def
      split: if_splits)

lemma inbox_reachable_inv: "inbox_reachable p \<Longrightarrow> pipeline_inv p"
proof (induction rule: inbox_reachable.induct)
  case inbox_start
  then show ?case by (simp add: pipeline_inv_def pipeline_new_def inbox_new_def)
next
  case (inbox_more p q)
  then show ?case by (blast intro: inbox_step_inv)
qed

text \<open>Every pushed item is in exactly one place; the order of delivery is the order of pushing.\<close>

lemma inbox_history:
  "inbox_reachable p \<Longrightarrow>
     length (pushed p) = length (delivered p) + length (discarded p) + length (items (box p)) \<and>
     (discarded p = [] \<longrightarrow> pushed p = delivered p @ items (box p))"
proof (induction rule: inbox_reachable.induct)
  case inbox_start
  then show ?case by (simp add: pipeline_new_def inbox_new_def)
next
  case (inbox_more p q)
  from inbox_more.hyps(2) inbox_more.IH show ?case
    by (cases rule: inbox_step.cases)
      (auto simp: inbox_push_def take_into_def discard_after_failed_wakeup_def Let_def split: if_splits)
qed

section \<open>Properties\<close>

text \<open>
  Claim C6 (no queued event without a wakeup). In every interleaving of producers, failing sends and the
  event loop, queued items mean that an edge is in the channel or a producer is about to send one; items
  are neither lost nor duplicated, and while no send has failed they arrive in the order they were pushed.
\<close>
theorem queued_events_always_have_a_wakeup:
  assumes "inbox_reachable p"
  shows "(items (box p) \<noteq> [] \<longrightarrow> 0 < edges p \<or> 0 < senders p) \<and>
         length (pushed p) = length (delivered p) + length (discarded p) + length (items (box p)) \<and>
         (discarded p = [] \<longrightarrow> pushed p = delivered p @ items (box p)) \<and>
         (senders p = 0 \<and> edges p = 0 \<and> discarded p = [] \<longrightarrow> delivered p = pushed p)"
  using inbox_reachable_inv [OF assms] inbox_history [OF assms] by (auto simp: pipeline_inv_def)

theorem queued_events_always_have_a_wakeup_witness:
  "\<exists>p :: nat pipeline. inbox_reachable p \<and> items (box p) = [5] \<and> (0 < edges p \<or> 0 < senders p)"
proof -
  let ?p = "(pipeline_new :: nat pipeline)\<lparr>box := \<lparr>items = [5], armed = True\<rparr>, senders := 1, pushed := [5]\<rparr>"
  have "inbox_step pipeline_new ?p"
    using push [of pipeline_new 5 "\<lparr>items = [5], armed = True\<rparr>" True]
    by (simp add: inbox_push_def pipeline_new_def inbox_new_def Let_def)
  then have "inbox_reachable ?p" by (rule inbox_more [OF inbox_start])
  with queued_events_always_have_a_wakeup [OF this] show ?thesis by (intro exI [of _ ?p]) simp
qed

text \<open>
  The task quota is hard. The counter always equals the number of permits that are out, never
  exceeds the quota and never underflows, and a task is refused exactly when the quota is used up; of any
  number of wakeups requested before the next acknowledgement, only the first sends an edge.
\<close>
lemma task_quota_is_hard:
  assumes "budget_step\<^sup>*\<^sup>* (0, 0) (pending, permits)"
  shows "pending = permits \<and> permits \<le> MAX_PENDING_PLATFORM_TASKS \<and>
         (try_acquire pending = None \<longleftrightarrow> permits = MAX_PENDING_PLATFORM_TASKS) \<and>
         (permits \<noteq> 0 \<longrightarrow> permit_drop pending = permits - 1) \<and>
         snd (wakeup_begin (wakeup_acknowledge b)) \<and> \<not> snd (wakeup_begin (fst (wakeup_begin b)))"
proof -
  have "fst s = snd s \<and> snd s \<le> MAX_PENDING_PLATFORM_TASKS" if "budget_step\<^sup>*\<^sup>* (0, 0) s" for s
    using that
  proof (induction rule: rtranclp_induct)
    case base
    then show ?case by simp
  next
    case (step s t)
    from step.hyps(2) step.IH show ?case
      by (cases rule: budget_step.cases) (auto simp: try_acquire_def permit_drop_def split: if_splits)
  qed
  from this [OF assms] show ?thesis
    by (auto simp: try_acquire_def permit_drop_def wakeup_begin_def wakeup_acknowledge_def)
qed

end
