(* ===== verification/F64_Values.thy ===== *)
theory F64_Values
  imports Complex_Main "HOL-Library.Log_Nat"
begin

text \<open>
  The floating-point arithmetic of the layout code. A double is its numeric value, a rational number, or
  an infinity, or NaN; the sign of zero is not kept, since the code neither divides by zero nor observes
  the sign. Every operation rounds its exact result to the nearest of the 53-bit values (ties to even,
  gradual underflow below \<open>2^-1022\<close>, infinity beyond the largest finite value), as IEEE 754 demands.
\<close>

datatype f64 = Fin rat | Inf bool | NaN

section \<open>Rounding\<close>

text \<open>\<open>rat_exponent q\<close> is the exponent \<open>e\<close> with \<open>2^e \<le> q < 2^(e+1)\<close> of a positive rational.\<close>

definition pow2 :: "int \<Rightarrow> rat" where
  "pow2 e = (if 0 \<le> e then 2 ^ nat e else 1 / 2 ^ nat (- e))"

definition rat_exponent :: "rat \<Rightarrow> int" where
  "rat_exponent q =
     (let (a, b) = quotient_of q;
          e = bitlen a - bitlen b
      in if q < pow2 e then e - 1 else e)"

definition round_half_even :: "rat \<Rightarrow> int" where
  "round_half_even x =
     (let f = \<lfloor>x\<rfloor>; r = x - of_int f
      in if r < 1 / 2 then f else if 1 / 2 < r then f + 1 else if even f then f else f + 1)"

definition f64_unit :: "rat \<Rightarrow> rat" where
  "f64_unit q = pow2 (max (rat_exponent (abs q) - 52) (- 1074))"

definition f64_round :: "rat \<Rightarrow> f64" where
  "f64_round q =
     (if q = 0 then Fin 0
      else
        (let u = f64_unit q;
             v = of_int (round_half_even (q / u)) * u
         in if pow2 1024 \<le> abs v then Inf (0 < v) else Fin v))"

section \<open>Operations\<close>

fun f64_is_finite :: "f64 \<Rightarrow> bool" where
  "f64_is_finite (Fin _) = True"
| "f64_is_finite _ = False"

fun f64_neg :: "f64 \<Rightarrow> f64" where
  "f64_neg (Fin a) = Fin (- a)"
| "f64_neg (Inf p) = Inf (\<not> p)"
| "f64_neg NaN = NaN"

fun f64_add :: "f64 \<Rightarrow> f64 \<Rightarrow> f64" where
  "f64_add (Fin a) (Fin b) = f64_round (a + b)"
| "f64_add (Inf p) (Inf q) = (if p = q then Inf p else NaN)"
| "f64_add (Inf p) (Fin _) = Inf p"
| "f64_add (Fin _) (Inf p) = Inf p"
| "f64_add NaN _ = NaN"
| "f64_add _ NaN = NaN"

definition f64_sub :: "f64 \<Rightarrow> f64 \<Rightarrow> f64" where
  "f64_sub a b = f64_add a (f64_neg b)"

fun f64_mul :: "f64 \<Rightarrow> f64 \<Rightarrow> f64" where
  "f64_mul (Fin a) (Fin b) = f64_round (a * b)"
| "f64_mul (Inf p) (Inf q) = Inf (p = q)"
| "f64_mul (Inf p) (Fin b) = (if b = 0 then NaN else Inf (p = (0 < b)))"
| "f64_mul (Fin a) (Inf p) = (if a = 0 then NaN else Inf (p = (0 < a)))"
| "f64_mul NaN _ = NaN"
| "f64_mul _ NaN = NaN"

text \<open>The divisors of the code are positive extents.\<close>

fun f64_div :: "f64 \<Rightarrow> f64 \<Rightarrow> f64" where
  "f64_div (Fin a) (Fin b) = (if b = 0 then NaN else f64_round (a / b))"
| "f64_div (Inf p) (Fin b) = (if b = 0 then NaN else Inf (p = (0 < b)))"
| "f64_div (Fin _) (Inf _) = Fin 0"
| "f64_div (Inf _) (Inf _) = NaN"
| "f64_div NaN _ = NaN"
| "f64_div _ NaN = NaN"

fun f64_abs :: "f64 \<Rightarrow> f64" where
  "f64_abs (Fin a) = Fin (abs a)"
| "f64_abs (Inf _) = Inf True"
| "f64_abs NaN = NaN"

fun f64_less :: "f64 \<Rightarrow> f64 \<Rightarrow> bool" where
  "f64_less (Fin a) (Fin b) = (a < b)"
| "f64_less (Inf p) (Fin _) = (\<not> p)"
| "f64_less (Fin _) (Inf p) = p"
| "f64_less (Inf p) (Inf q) = (\<not> p \<and> q)"
| "f64_less NaN _ = False"
| "f64_less _ NaN = False"

text \<open>\<open>f64::clamp\<close>; a NaN stays.\<close>

definition f64_clamp :: "f64 \<Rightarrow> f64 \<Rightarrow> f64 \<Rightarrow> f64" where
  "f64_clamp x lo hi = (if f64_less x lo then lo else if f64_less hi x then hi else x)"

text \<open>An \<open>i32\<close> is exact; \<open>round\<close> is half away from zero; the cast saturates and maps NaN to 0.\<close>

definition f64_from_i32 :: "int \<Rightarrow> f64" where
  "f64_from_i32 n = Fin (of_int n)"

definition round_half_away :: "rat \<Rightarrow> int" where
  "round_half_away x = (if 0 \<le> x then \<lfloor>x + 1 / 2\<rfloor> else - \<lfloor>- x + 1 / 2\<rfloor>)"

definition i32_min :: int where
  "i32_min = - (2 ^ 31)"

definition i32_max :: int where
  "i32_max = 2 ^ 31 - 1"

definition sat32 :: "int \<Rightarrow> int" where
  "sat32 n = (if n < i32_min then i32_min else if i32_max < n then i32_max else n)"

fun f64_round_to_i32 :: "f64 \<Rightarrow> int" where
  "f64_round_to_i32 (Fin a) = sat32 (round_half_away a)"
| "f64_round_to_i32 (Inf p) = (if p then i32_max else i32_min)"
| "f64_round_to_i32 NaN = 0"

text \<open>\<open>round\<close> as a double, the casts, which truncate and saturate, and \<open>i64 as f64\<close>, which rounds.\<close>

definition i64_min :: int where
  "i64_min = - (2 ^ 63)"

definition i64_max :: int where
  "i64_max = 2 ^ 63 - 1"

definition sat64 :: "int \<Rightarrow> int" where
  "sat64 n = (if n < i64_min then i64_min else if i64_max < n then i64_max else n)"

definition rat_trunc :: "rat \<Rightarrow> int" where
  "rat_trunc x = (if 0 \<le> x then \<lfloor>x\<rfloor> else - \<lfloor>- x\<rfloor>)"

fun f64_rounded :: "f64 \<Rightarrow> f64" where
  "f64_rounded (Fin a) = Fin (of_int (round_half_away a))"
| "f64_rounded (Inf p) = Inf p"
| "f64_rounded NaN = NaN"

fun f64_to_i32 :: "f64 \<Rightarrow> int" where
  "f64_to_i32 (Fin a) = sat32 (rat_trunc a)"
| "f64_to_i32 (Inf p) = (if p then i32_max else i32_min)"
| "f64_to_i32 NaN = 0"

fun f64_to_i64 :: "f64 \<Rightarrow> int" where
  "f64_to_i64 (Fin a) = sat64 (rat_trunc a)"
| "f64_to_i64 (Inf p) = (if p then i64_max else i64_min)"
| "f64_to_i64 NaN = 0"

definition f64_from_i64 :: "int \<Rightarrow> f64" where
  "f64_from_i64 n = f64_round (of_int n)"

text \<open>\<open>f64::total_cmp\<close> on absolute values: a NaN comes last.\<close>

definition f64_abs_less :: "f64 \<Rightarrow> f64 \<Rightarrow> bool" where
  "f64_abs_less a b \<longleftrightarrow> f64_less a b \<or> a \<noteq> NaN \<and> b = NaN"

definition f64_le :: "f64 \<Rightarrow> f64 \<Rightarrow> bool" where
  "f64_le a b \<longleftrightarrow> f64_less a b \<or> a = b \<and> a \<noteq> NaN"

definition f64_literal :: "rat \<Rightarrow> f64" where
  "f64_literal q = f64_round q"

definition F64_EPSILON :: f64 where
  "F64_EPSILON = Fin (1 / 2 ^ 52)"

section \<open>Facts\<close>

lemma pow2_pos [simp]: "0 < pow2 e"
  by (simp add: pow2_def)

lemma round_half_even_error: "abs (of_int (round_half_even x) - x) \<le> 1 / 2"
proof -
  define f where "f = \<lfloor>x\<rfloor>"
  have "of_int f \<le> x" "x < of_int f + 1" using floor_correct [of x] by (simp_all add: f_def)
  then show ?thesis by (auto simp: round_half_even_def Let_def f_def [symmetric] abs_if)
qed

lemma f64_round_not_NaN [simp]: "f64_round q \<noteq> NaN"
  by (simp add: f64_round_def Let_def)

text \<open>The rounding error is at most half a unit in the last place.\<close>

lemma f64_round_error:
  assumes "f64_round q = Fin v" "q \<noteq> 0"
  shows "abs (v - q) \<le> f64_unit q / 2"
proof -
  let ?u = "f64_unit q"
  have u: "0 < ?u" by (simp add: f64_unit_def)
  have v: "v = of_int (round_half_even (q / ?u)) * ?u"
    using assms by (auto simp: f64_round_def Let_def split: if_splits)
  have "v - q = (of_int (round_half_even (q / ?u)) - q / ?u) * ?u"
    using u by (simp add: v algebra_simps)
  then have "abs (v - q) = abs (of_int (round_half_even (q / ?u)) - q / ?u) * ?u"
    using u by (simp add: abs_mult)
  also have "\<dots> \<le> 1 / 2 * ?u"
    using round_half_even_error [of "q / ?u"] u by (intro mult_right_mono) simp_all
  finally show ?thesis by simp
qed

lemma sat32_id: "i32_min \<le> n \<Longrightarrow> n \<le> i32_max \<Longrightarrow> sat32 n = n"
  by (simp add: sat32_def)

lemma sat32_range: "i32_min \<le> sat32 n \<and> sat32 n \<le> i32_max"
  by (simp add: sat32_def i32_min_def i32_max_def)

lemma clamp_finite:
  "f64_is_finite x \<Longrightarrow> f64_is_finite lo \<Longrightarrow> f64_is_finite hi \<Longrightarrow> f64_is_finite (f64_clamp x lo hi)"
  by (simp add: f64_clamp_def)

lemma clamp_between:
  "\<not> f64_less hi lo \<Longrightarrow> \<not> f64_less (f64_clamp x lo hi) lo \<and> \<not> f64_less hi (f64_clamp x lo hi)"
  by (cases lo; cases hi; cases x) (auto simp: f64_clamp_def)

text \<open>The literals of the layout code.\<close>

lemma literal_quotients:
  "quotient_of (1 / 10) = (1, 10)" "quotient_of (9 / 10) = (9, 10)" "quotient_of (1 / 2) = (1, 2)"
proof -
  have "gcd 9 (10 :: int) = 1" by code_simp
  then show "quotient_of (1 / 10) = (1, 10)" "quotient_of (9 / 10) = (9, 10)" "quotient_of (1 / 2) = (1, 2)"
  by (simp_all add: rat_divide_code quotient_of_number normalize_def Let_def)
qed

lemma literal_exponents:
  "rat_exponent (1 / 10) = - 4" "rat_exponent (9 / 10) = - 1" "rat_exponent (1 / 2) = - 1"
proof -
  have "bitlen 1 = 1" "bitlen 10 = 4" "bitlen 9 = 4" "bitlen 2 = 2"
    by (simp_all add: bitlen_def compute_floorlog)
  then show "rat_exponent (1 / 10) = - 4" "rat_exponent (9 / 10) = - 1" "rat_exponent (1 / 2) = - 1"
    by (simp_all add: rat_exponent_def literal_quotients pow2_def)
qed

lemma literal_values:
  "f64_literal (1 / 10) = Fin (3602879701896397 / 36028797018963968)"
  "f64_literal (9 / 10) = Fin (8106479329266893 / 9007199254740992)"
  "f64_literal (1 / 2) = Fin (1 / 2)"
proof -
  have "\<lfloor>36028797018963968 / 5 :: rat\<rfloor> = 7205759403792793" "\<lfloor>40532396646334464 / 5 :: rat\<rfloor> = 8106479329266892"
    by (rule floor_unique; simp)+
  then show "f64_literal (1 / 10) = Fin (3602879701896397 / 36028797018963968)"
  "f64_literal (9 / 10) = Fin (8106479329266893 / 9007199254740992)"
  "f64_literal (1 / 2) = Fin (1 / 2)"
  by (simp_all add: f64_literal_def f64_round_def f64_unit_def literal_exponents Let_def pow2_def round_half_even_def)
qed

end
