(* ===== verification/Window_Layout.thy ===== *)
theory Window_Layout
  imports Denial_Base F64_Values
begin

text \<open>
  The vocabulary and the interface of the window layouts (\<^verbatim>\<open>window_layout.rs\<close>): rectangles with \<open>i32\<close>
  coordinates, the split of a rectangle, the choice of the neighbour in a direction, and the trait
  \<open>WindowLayout\<close> with its default methods. An \<open>i32\<close> is an \<^typ>\<open>int\<close>; \<open>saturating_add\<close> and
  \<open>saturating_sub\<close> are written with \<^const>\<open>sat32\<close>.

  The locale \<open>window_layout\<close> is the contract every layout owes the frontend: which windows it manages
  and on which space each of them lives. The default methods are proved correct once, inside it.
\<close>

section \<open>Geometry\<close>

record layout_size =
  min_w :: int
  min_h :: int

record rectangle =
  loc_x :: int
  loc_y :: int
  size_w :: int
  size_h :: int

record layout_space =
  space_output :: output_id
  space_workspace :: u8

record 'w layout_insertion =
  ins_window :: 'w
  ins_space :: layout_space
  ins_anchor :: "'w option"

record 'w layout_placement =
  placed_window :: 'w
  placed_geometry :: rectangle

datatype layout_direction = Left | Right | Up | Down

datatype layout_axis = Horizontal | Vertical

fun main_extent :: "layout_axis \<Rightarrow> rectangle \<Rightarrow> int" where
  "main_extent Horizontal g = size_w g"
| "main_extent Vertical g = size_h g"

fun main_size :: "layout_axis \<Rightarrow> layout_size \<Rightarrow> int" where
  "main_size Horizontal m = min_w m"
| "main_size Vertical m = min_h m"

fun main_location :: "layout_axis \<Rightarrow> rectangle \<Rightarrow> int" where
  "main_location Horizontal g = loc_x g"
| "main_location Vertical g = loc_y g"

fun tile_geometry :: "layout_axis \<Rightarrow> rectangle \<Rightarrow> int \<Rightarrow> int \<Rightarrow> rectangle" where
  "tile_geometry Horizontal area l e = \<lparr>loc_x = l, loc_y = loc_y area, size_w = e, size_h = size_h area\<rparr>"
| "tile_geometry Vertical area l e = \<lparr>loc_x = loc_x area, loc_y = l, size_w = size_w area, size_h = e\<rparr>"

fun split_axis :: "layout_direction \<Rightarrow> layout_axis" where
  "split_axis Left = Horizontal"
| "split_axis Right = Horizontal"
| "split_axis Up = Vertical"
| "split_axis Down = Vertical"

fun inserts_first :: "layout_direction \<Rightarrow> bool" where
  "inserts_first Left = True"
| "inserts_first Up = True"
| "inserts_first _ = False"

datatype layout_kind = Stacking | Dwindle | Scrolling

fun settings_name :: "layout_kind \<Rightarrow> string" where
  "settings_name Stacking = ''stacking''"
| "settings_name Dwindle = ''dwindle''"
| "settings_name Scrolling = ''scrolling''"

definition from_settings_name :: "string \<Rightarrow> layout_kind option" where
  "from_settings_name name =
     (if name = ''stacking'' then Some Stacking
      else if name = ''dwindle'' then Some Dwindle
      else if name = ''scrolling'' then Some Scrolling
      else None)"

text \<open>\<open>i32::clamp\<close> with \<open>lo \<le> hi\<close>.\<close>

definition clamp32 :: "int \<Rightarrow> int \<Rightarrow> int \<Rightarrow> int" where
  "clamp32 x lo hi = (if x < lo then lo else if hi < x then hi else x)"

section \<open>Splitting a rectangle\<close>

definition resolved_split_axis :: "layout_axis option \<Rightarrow> rectangle \<Rightarrow> layout_axis" where
  "resolved_split_axis requested g =
     (case requested of Some a \<Rightarrow> a | None \<Rightarrow> if size_h g \<le> size_w g then Horizontal else Vertical)"

text \<open>The extents of the two parts along the split axis, and the gap between them.\<close>

definition split_extents :: "int \<Rightarrow> int \<Rightarrow> f64 \<Rightarrow> int \<Rightarrow> int \<Rightarrow> int \<times> int \<times> int" where
  "split_extents raw_extent requested_gap requested_ratio first_minimum second_minimum =
     (let extent = max raw_extent 2;
          gap = clamp32 requested_gap 0 (sat32 (extent - 2));
          available = sat32 (extent - gap);
          ratio = (if f64_is_finite requested_ratio
                   then f64_clamp requested_ratio (f64_literal (1 / 10)) (f64_literal (9 / 10))
                   else f64_literal (1 / 2));
          requested_first = f64_round_to_i32 (f64_mul (f64_from_i32 available) ratio);
          first_minimum_extent = max first_minimum 1;
          second_minimum_extent = max second_minimum 1;
          minimum_sum = sat32 (first_minimum_extent + second_minimum_extent)
      in if minimum_sum \<le> available then
           (let first_extent = clamp32 requested_first first_minimum_extent
                  (sat32 (available - second_minimum_extent))
            in (first_extent, gap, sat32 (available - first_extent)))
         else (first_minimum_extent, gap, second_minimum_extent))"

definition split_geometry_on_axis_with_minimums ::
  "rectangle \<Rightarrow> int \<Rightarrow> f64 \<Rightarrow> layout_size \<Rightarrow> layout_size \<Rightarrow> layout_axis \<Rightarrow> rectangle \<times> rectangle" where
  "split_geometry_on_axis_with_minimums g requested_gap requested_ratio first_minimum second_minimum axis =
     (case axis of
        Horizontal \<Rightarrow>
          (let (first_extent, gap, second_extent) =
                 split_extents (size_w g) requested_gap requested_ratio (min_w first_minimum) (min_w second_minimum)
           in (\<lparr>loc_x = loc_x g, loc_y = loc_y g, size_w = first_extent,
                size_h = max (size_h g) (min_h first_minimum)\<rparr>,
               \<lparr>loc_x = sat32 (sat32 (loc_x g + first_extent) + gap), loc_y = loc_y g,
                size_w = second_extent, size_h = max (size_h g) (min_h second_minimum)\<rparr>))
      | Vertical \<Rightarrow>
          (let (first_extent, gap, second_extent) =
                 split_extents (size_h g) requested_gap requested_ratio (min_h first_minimum) (min_h second_minimum)
           in (\<lparr>loc_x = loc_x g, loc_y = loc_y g, size_w = max (size_w g) (min_w first_minimum),
                size_h = first_extent\<rparr>,
               \<lparr>loc_x = loc_x g, loc_y = sat32 (sat32 (loc_y g + first_extent) + gap),
                size_w = max (size_w g) (min_w second_minimum), size_h = second_extent\<rparr>)))"

definition split_geometry_on_axis ::
  "rectangle \<Rightarrow> int \<Rightarrow> f64 \<Rightarrow> layout_axis \<Rightarrow> rectangle \<times> rectangle" where
  "split_geometry_on_axis g requested_gap requested_ratio axis =
     split_geometry_on_axis_with_minimums g requested_gap requested_ratio \<lparr>min_w = 1, min_h = 1\<rparr> \<lparr>min_w = 1, min_h = 1\<rparr> axis"

text \<open>What the extents guarantee, whatever the ratio is.\<close>

lemma split_extents_cases:
  assumes "split_extents e gap r m1 m2 = (a, g, b)" "e < i32_max"
  obtains avail where "avail = max e 2 - g" "g = clamp32 gap 0 (max e 2 - 2)" "0 \<le> g" "2 \<le> avail" "avail < i32_max"
    "max m1 1 + max m2 1 \<le> avail \<Longrightarrow> max m1 1 \<le> a \<and> max m2 1 \<le> b \<and> a + b = avail"
    "\<not> max m1 1 + max m2 1 \<le> avail \<Longrightarrow> a = max m1 1 \<and> b = max m2 1"
proof -
  define E where "E = max e 2"
  have E: "2 \<le> E" "E < i32_max" using assms(2) by (simp_all add: E_def i32_max_def)
  define G where "G = clamp32 gap 0 (E - 2)"
  have G: "0 \<le> G" "G \<le> E - 2" using E(1) by (auto simp: G_def clamp32_def)
  have gap: "clamp32 gap 0 (sat32 (E - 2)) = G"
    using E by (simp add: G_def sat32_def i32_min_def)
  define avail where "avail = E - G"
  have avail: "2 \<le> avail" "avail < i32_max" "sat32 (E - G) = avail"
    using E G by (simp_all add: avail_def sat32_def i32_min_def)
  define M where "M = max m1 1"
  define N where "N = max m2 1"
  have MN: "1 \<le> M" "1 \<le> N" by (simp_all add: M_def N_def)
  have sum: "sat32 (M + N) \<le> avail \<longleftrightarrow> M + N \<le> avail"
    using MN avail by (simp add: sat32_def i32_min_def)
  define f where "f = clamp32 (f64_round_to_i32 (f64_mul (f64_from_i32 avail)
     (if f64_is_finite r then f64_clamp r (f64_literal (1 / 10)) (f64_literal (9 / 10)) else f64_literal (1 / 2))))
     M (sat32 (avail - N))"
  have eq: "(a, g, b) = (if M + N \<le> avail then (f, G, sat32 (avail - f)) else (M, G, N))"
    using assms(1)
    unfolding split_extents_def Let_def E_def [symmetric] gap avail(3) M_def [symmetric] N_def [symmetric] sum
      f_def [symmetric] by simp
  have "M \<le> f \<and> f \<le> avail - N" if "M + N \<le> avail"
  proof -
    have "sat32 (avail - N) = avail - N" using that MN avail by (simp add: sat32_def i32_min_def)
    then show ?thesis using that by (simp add: f_def clamp32_def)
  qed
  moreover have "sat32 (avail - f) = avail - f" if "M \<le> f" "f \<le> avail - N"
    using that MN avail by (simp add: sat32_def i32_min_def)
  ultimately have "M + N \<le> avail \<Longrightarrow> M \<le> a \<and> N \<le> b \<and> a + b = avail"
    "\<not> M + N \<le> avail \<Longrightarrow> a = M \<and> b = N" "g = G"
    using eq by (auto split: if_splits)
  then show thesis
    using that [of avail] G avail unfolding avail_def G_def M_def N_def E_def by simp
qed

lemma split_extents_minimum:
  assumes "split_extents e gap r m1 m2 = (a, g, b)" "e < i32_max"
  shows "max m1 1 \<le> a" "max m2 1 \<le> b"
proof -
  have "max m1 1 \<le> a \<and> max m2 1 \<le> b"
  proof (rule split_extents_cases [OF assms])
    fix avail
    assume "max m1 1 + max m2 1 \<le> avail \<Longrightarrow> max m1 1 \<le> a \<and> max m2 1 \<le> b \<and> a + b = avail"
      "\<not> max m1 1 + max m2 1 \<le> avail \<Longrightarrow> a = max m1 1 \<and> b = max m2 1"
    then show ?thesis by (cases "max m1 1 + max m2 1 \<le> avail") blast+
  qed
  then show "max m1 1 \<le> a" "max m2 1 \<le> b" by blast+
qed

section \<open>The neighbour in a direction\<close>

text \<open>
  Centers are exact halves in \<open>f64\<close>, so the comparison of the code is the comparison of the doubled
  coordinates, and \<open>total_cmp\<close> on these distances is the order of the integers.
\<close>

definition center2_x :: "rectangle \<Rightarrow> int" where
  "center2_x r = 2 * loc_x r + size_w r"

definition center2_y :: "rectangle \<Rightarrow> int" where
  "center2_y r = 2 * loc_y r + size_h r"

definition ranges_overlap :: "int \<Rightarrow> int \<Rightarrow> int \<Rightarrow> int \<Rightarrow> bool" where
  "ranges_overlap first_start first_end second_start second_end \<longleftrightarrow>
     first_start < second_end \<and> second_start < first_end"

fun in_direction :: "layout_direction \<Rightarrow> rectangle \<Rightarrow> rectangle \<Rightarrow> bool" where
  "in_direction Left current candidate = (center2_x candidate < center2_x current)"
| "in_direction Right current candidate = (center2_x current < center2_x candidate)"
| "in_direction Up current candidate = (center2_y candidate < center2_y current)"
| "in_direction Down current candidate = (center2_y current < center2_y candidate)"

definition neighbor_key :: "layout_direction \<Rightarrow> rectangle \<Rightarrow> rectangle \<Rightarrow> nat \<times> int \<times> int" where
  "neighbor_key direction current candidate =
     (let horizontal = (split_axis direction = Horizontal);
          aligned = (if horizontal
            then ranges_overlap (loc_y current) (sat32 (loc_y current + size_h current))
                   (loc_y candidate) (sat32 (loc_y candidate + size_h candidate))
            else ranges_overlap (loc_x current) (sat32 (loc_x current + size_w current))
                   (loc_x candidate) (sat32 (loc_x candidate + size_w candidate)));
          dx = abs (center2_x candidate - center2_x current);
          dy = abs (center2_y candidate - center2_y current)
      in (if aligned then 0 else 1, if horizontal then dx else dy, if horizontal then dy else dx))"

definition key_less :: "nat \<times> int \<times> int \<Rightarrow> nat \<times> int \<times> int \<Rightarrow> bool" where
  "key_less a b \<longleftrightarrow> fst a < fst b \<or> fst a = fst b \<and>
     (fst (snd a) < fst (snd b) \<or> fst (snd a) = fst (snd b) \<and> snd (snd a) < snd (snd b))"

text \<open>\<open>Iterator::min_by\<close> returns the first minimum.\<close>

fun min_by_key :: "('a \<Rightarrow> nat \<times> int \<times> int) \<Rightarrow> 'a list \<Rightarrow> 'a option" where
  "min_by_key k [] = None"
| "min_by_key k (x # xs) =
     (case min_by_key k xs of None \<Rightarrow> Some x | Some y \<Rightarrow> if key_less (k y) (k x) then Some y else Some x)"

definition directional_neighbor ::
  "'w \<Rightarrow> 'w layout_placement list \<Rightarrow> layout_direction \<Rightarrow> 'w option" where
  "directional_neighbor focused placements direction =
     (case find (\<lambda>p. placed_window p = focused) placements of
        None \<Rightarrow> None
      | Some c \<Rightarrow>
          (let current = placed_geometry c;
               candidates = filter (\<lambda>p. placed_window p \<noteq> focused \<and>
                 in_direction direction current (placed_geometry p)) placements
           in map_option placed_window
                (min_by_key (\<lambda>p. neighbor_key direction current (placed_geometry p)) candidates)))"

lemma key_less_linear: "\<not> key_less a b \<Longrightarrow> \<not> key_less b c \<Longrightarrow> \<not> key_less a c"
  by (auto simp: key_less_def)

lemma min_by_key_None [simp]: "min_by_key k xs = None \<longleftrightarrow> xs = []"
  by (cases xs) (auto split: option.splits)

lemma min_by_key_minimal:
  "min_by_key k xs = Some m \<Longrightarrow> m \<in> set xs \<and> (\<forall>x \<in> set xs. \<not> key_less (k x) (k m))"
proof (induction xs arbitrary: m)
  case Nil
  then show ?case by simp
next
  case (Cons x xs)
  show ?case
  proof (cases "min_by_key k xs")
    case None
    with Cons.prems show ?thesis by (auto simp: key_less_def)
  next
    case (Some y)
    note y = Cons.IH [OF Some]
    show ?thesis
    proof (cases "key_less (k y) (k x)")
      case True
      then have "\<not> key_less (k x) (k y)" by (auto simp: key_less_def)
      with Some True y Cons.prems show ?thesis by auto
    next
      case False
      with Some Cons.prems have "m = x" by simp
      moreover have "\<not> key_less (k z) (k x)" if "z \<in> set xs" for z
        using key_less_linear [of "k z" "k y" "k x"] y False that by blast
      ultimately show ?thesis by (auto simp: key_less_def)
    qed
  qed
qed

section \<open>The contract of a layout\<close>

text \<open>The default methods of the trait, over the methods they call.\<close>

definition move_to_space ::
  "('s \<Rightarrow> 'w layout_insertion \<Rightarrow> 's) \<Rightarrow> ('s \<Rightarrow> 'w \<Rightarrow> layout_space option) \<Rightarrow>
     's \<Rightarrow> 'w \<Rightarrow> layout_space \<Rightarrow> 's \<times> bool" where
  "move_to_space insert_window space_for s window destination =
     (case space_for s window of
        None \<Rightarrow> (s, False)
      | Some source_space \<Rightarrow>
          if source_space = destination then (s, False)
          else (insert_window s \<lparr>ins_window = window, ins_space = destination, ins_anchor = None\<rparr>, True))"

definition rebuild ::
  "('s \<Rightarrow> 's) \<Rightarrow> ('s \<Rightarrow> 'w layout_insertion \<Rightarrow> 's) \<Rightarrow> 's \<Rightarrow> 'w layout_insertion list \<Rightarrow> 's" where
  "rebuild clear_all insert_window s insertions = foldl insert_window (clear_all s) insertions"

locale window_layout =
  fixes ok :: "'s \<Rightarrow> bool"
    and manages :: bool
    and insert_window :: "'s \<Rightarrow> 'w layout_insertion \<Rightarrow> 's"
    and remove_window :: "'s \<Rightarrow> 'w \<Rightarrow> 's \<times> bool"
    and contains_window :: "'s \<Rightarrow> 'w \<Rightarrow> bool"
    and space_for :: "'s \<Rightarrow> 'w \<Rightarrow> layout_space option"
    and clear_all :: "'s \<Rightarrow> 's"
  assumes insert_law: "ok s \<Longrightarrow> ok (insert_window s i) \<and>
      space_for (insert_window s i) =
        (if manages then (space_for s)(ins_window i \<mapsto> ins_space i) else space_for s)"
    and remove_law: "ok s \<Longrightarrow> ok (fst (remove_window s x)) \<and>
      space_for (fst (remove_window s x)) = (space_for s)(x := None) \<and>
      snd (remove_window s x) = (space_for s x \<noteq> None)"
    and contains_law: "ok s \<Longrightarrow> contains_window s x = (space_for s x \<noteq> None)"
    and clear_law: "ok s \<Longrightarrow> ok (clear_all s) \<and> space_for (clear_all s) = Map.empty"
begin

lemma move_to_space_correct:
  assumes "ok s"
  shows "ok (fst (move_to_space insert_window space_for s x dest)) \<and>
    (snd (move_to_space insert_window space_for s x dest) \<longleftrightarrow>
       space_for s x \<noteq> None \<and> space_for s x \<noteq> Some dest) \<and>
    (manages \<longrightarrow> space_for (fst (move_to_space insert_window space_for s x dest)) =
       (if space_for s x = None then space_for s else (space_for s)(x \<mapsto> dest)))"
  using assms insert_law [OF assms, of "\<lparr>ins_window = x, ins_space = dest, ins_anchor = None\<rparr>"]
  by (auto simp: move_to_space_def fun_upd_idem split: option.splits)

lemma rebuild_correct:
  assumes "ok s" "manages"
  shows "ok (rebuild clear_all insert_window s is) \<and>
    space_for (rebuild clear_all insert_window s is) =
      map_of (rev (map (\<lambda>i. (ins_window i, ins_space i)) is))"
proof -
  have "ok (foldl insert_window s is) \<and> space_for (foldl insert_window s is) =
      space_for s ++ map_of (rev (map (\<lambda>i. (ins_window i, ins_space i)) is))" if "ok s" for s
    using that
  proof (induction "is" arbitrary: s)
    case Nil
    then show ?case by simp
  next
    case (Cons i "is")
    have step: "ok (insert_window s i)" "space_for (insert_window s i) = (space_for s)(ins_window i \<mapsto> ins_space i)"
      using insert_law [OF Cons.prems] assms(2) by simp_all
    from Cons.IH [OF step(1)] step(2) show ?case by (simp del: fun_upd_apply)
  qed
  from this [of "clear_all s"] clear_law [OF assms(1)] show ?thesis by (simp add: rebuild_def)
qed

end

section \<open>The stacking layout\<close>

text \<open>It manages no geometry and keeps no state.\<close>

definition stacking_insert :: "unit \<Rightarrow> 'w layout_insertion \<Rightarrow> unit" where
  "stacking_insert s i = s"

definition stacking_remove :: "unit \<Rightarrow> 'w \<Rightarrow> unit \<times> bool" where
  "stacking_remove s x = (s, False)"

definition stacking_contains :: "unit \<Rightarrow> 'w \<Rightarrow> bool" where
  "stacking_contains s x = False"

definition stacking_space_for :: "unit \<Rightarrow> 'w \<Rightarrow> layout_space option" where
  "stacking_space_for s x = None"

definition stacking_clear :: "unit \<Rightarrow> unit" where
  "stacking_clear s = s"

definition stacking_arrange :: "unit \<Rightarrow> layout_space \<Rightarrow> rectangle \<Rightarrow> int \<Rightarrow> 'w layout_placement list" where
  "stacking_arrange s space work_area gap = []"

interpretation stacking: window_layout "\<lambda>_. True" False stacking_insert stacking_remove stacking_contains
  stacking_space_for stacking_clear
  by unfold_locales
    (simp_all add: stacking_insert_def stacking_remove_def stacking_contains_def stacking_space_for_def
      stacking_clear_def fun_eq_iff)

section \<open>Properties\<close>

text \<open>
  The neighbour is the nearest window in that direction. A neighbour is found exactly if the
  focused window is placed and some other window's center lies in the direction. It is such a window, and
  no other one is better: windows that overlap the focused one across the direction come first, then the
  smaller distance along it, then the smaller distance across it.
\<close>
lemma neighbor_is_nearest_in_direction:
  assumes "find (\<lambda>p. placed_window p = focused) placements = Some c"
  shows "(directional_neighbor focused placements d = None \<longleftrightarrow>
            \<not> (\<exists>p \<in> set placements. placed_window p \<noteq> focused \<and>
                 in_direction d (placed_geometry c) (placed_geometry p))) \<and>
         (\<forall>x. directional_neighbor focused placements d = Some x \<longrightarrow> x \<noteq> focused \<and>
            (\<exists>p \<in> set placements. placed_window p = x \<and> in_direction d (placed_geometry c) (placed_geometry p) \<and>
               (\<forall>q \<in> set placements. placed_window q \<noteq> focused \<and>
                  in_direction d (placed_geometry c) (placed_geometry q) \<longrightarrow>
                  \<not> key_less (neighbor_key d (placed_geometry c) (placed_geometry q))
                             (neighbor_key d (placed_geometry c) (placed_geometry p)))))"
proof -
  define cs where "cs = filter (\<lambda>p. placed_window p \<noteq> focused \<and>
     in_direction d (placed_geometry c) (placed_geometry p)) placements"
  define k where "k = (\<lambda>p :: 'a layout_placement. neighbor_key d (placed_geometry c) (placed_geometry p))"
  have n: "directional_neighbor focused placements d = map_option placed_window (min_by_key k cs)"
    by (simp add: directional_neighbor_def assms Let_def cs_def k_def)
  show ?thesis
  proof (cases "min_by_key k cs")
    case None
    then have "cs = []" by simp
    then show ?thesis unfolding n None by (auto simp: cs_def filter_empty_conv)
  next
    case (Some m)
    from min_by_key_minimal [OF Some] show ?thesis unfolding n Some by (auto simp: cs_def k_def)
  qed
qed

end
