(* ===== verification/Window_Spaces.thy ===== *)
theory Window_Spaces
  imports Window_Layout "HOL-Library.AList"
begin

text \<open>
  What the tiling layouts share: an association list from layout spaces to a structure that holds windows.
  \<open>f\<close> reads the windows of a structure in order. \<open>keyed\<close> says that every space has one structure and every
  window one place; under it, \<open>space_of\<close> is a map whose changes follow from what happens to one structure.
\<close>

definition all_windows :: "('t \<Rightarrow> 'w list) \<Rightarrow> (layout_space \<times> 't) list \<Rightarrow> 'w list" where
  "all_windows f rs = concat (map (\<lambda>(space, t). f t) rs)"

definition owned :: "('t \<Rightarrow> 'w list) \<Rightarrow> (layout_space \<times> 't) list \<Rightarrow> layout_space \<Rightarrow> 'w \<Rightarrow> bool" where
  "owned f rs space x \<longleftrightarrow> (\<exists>t. (space, t) \<in> set rs \<and> x \<in> set (f t))"

definition keyed :: "('t \<Rightarrow> 'w list) \<Rightarrow> (layout_space \<times> 't) list \<Rightarrow> bool" where
  "keyed f rs \<longleftrightarrow> distinct (map fst rs) \<and> distinct (all_windows f rs)"

definition space_of :: "('t \<Rightarrow> 'w list) \<Rightarrow> (layout_space \<times> 't) list \<Rightarrow> 'w \<Rightarrow> layout_space option" where
  "space_of f rs x = map_option fst (find (\<lambda>(space, t). x \<in> set (f t)) rs)"

lemma all_windows_simps [simp]:
  "all_windows f [] = []" "all_windows f ((space, t) # rs) = f t @ all_windows f rs"
  "all_windows f (rs @ rs') = all_windows f rs @ all_windows f rs'"
  by (simp_all add: all_windows_def)

lemma owned_simps [simp]:
  "\<not> owned f [] space x"
  "owned f ((k, t) # rs) space x \<longleftrightarrow> k = space \<and> x \<in> set (f t) \<or> owned f rs space x"
  "owned f (rs @ rs') space x \<longleftrightarrow> owned f rs space x \<or> owned f rs' space x"
  by (auto simp: owned_def)

lemma all_windows_owned: "x \<in> set (all_windows f rs) \<longleftrightarrow> (\<exists>space. owned f rs space x)"
  by (induction rs) auto

lemma owned_key: "owned f rs space x \<Longrightarrow> space \<in> fst ` set rs"
  by (force simp: owned_def)

lemma owned_unique:
  "distinct (all_windows f rs) \<Longrightarrow> (k, s) \<in> set rs \<Longrightarrow> x \<in> set (f s) \<Longrightarrow>
     (k', s') \<in> set rs \<Longrightarrow> x \<in> set (f s') \<Longrightarrow> (k, s) = (k', s')"
proof (induction rs)
  case Nil
  then show ?case by simp
next
  case (Cons r rs)
  have "x \<in> set (all_windows f rs)" if "(k, s) \<in> set rs \<or> (k', s') \<in> set rs"
    using that Cons.prems(3,5) by (auto simp: all_windows_owned owned_def)
  with Cons show ?case by (cases r) auto
qed

lemma find_owner_iff:
  assumes "distinct (all_windows f rs)"
  shows "find (\<lambda>(space, t). x \<in> set (f t)) rs = Some (space, t) \<longleftrightarrow> (space, t) \<in> set rs \<and> x \<in> set (f t)"
proof
  assume "find (\<lambda>(space, t). x \<in> set (f t)) rs = Some (space, t)"
  then show "(space, t) \<in> set rs \<and> x \<in> set (f t)" by (auto simp: find_Some_iff dest: nth_mem)
next
  assume r: "(space, t) \<in> set rs \<and> x \<in> set (f t)"
  have "z = (space, t)" if "z \<in> set rs" "case z of (space, t) \<Rightarrow> x \<in> set (f t)" for z
    using owned_unique [of f rs "fst z" "snd z" x space t] that r assms by auto
  then show "find (\<lambda>(space, t). x \<in> set (f t)) rs = Some (space, t)" using r by (intro find_unique) auto
qed

lemma space_of_iff: "keyed f rs \<Longrightarrow> space_of f rs x = Some space \<longleftrightarrow> owned f rs space x"
  using find_owner_iff [of f rs x space] by (auto simp: space_of_def owned_def keyed_def)

lemma not_owned: "keyed f rs \<Longrightarrow> space_of f rs x = None \<Longrightarrow> \<not> owned f rs space x"
  using space_of_iff [of f rs x space] by simp

lemma map_eqI: "(\<And>x y. m x = Some y \<longleftrightarrow> m' x = Some y) \<Longrightarrow> m = m'"
  by (rule ext) (metis option.exhaust)

lemma roots_split:
  assumes "distinct (map fst rs)" "(k, t) \<in> set rs"
  obtains us vs where "rs = us @ (k, t) # vs" "k \<notin> fst ` set us" "k \<notin> fst ` set vs"
    "\<And>t'. AList.update k t' rs = us @ (k, t') # vs" "AList.delete k rs = us @ vs"
proof -
  obtain us vs where rs: "rs = us @ (k, t) # vs" using split_list [OF assms(2)] by blast
  have k: "k \<notin> fst ` set us" "k \<notin> fst ` set vs" using assms(1) by (auto simp: rs)
  have "AList.update k t' (us @ (k, t) # vs) = us @ (k, t') # vs" for t'
    using k(1) by (induction us) auto
  moreover have "filter (\<lambda>(k', _). k \<noteq> k') xs = xs" if "k \<notin> fst ` set xs" for xs :: "('a \<times> 'b) list"
    using that by (induction xs) auto
  then have "AList.delete k (us @ (k, t) # vs) = us @ vs" using k by (simp add: AList.delete_eq)
  ultimately show thesis using that rs k by blast
qed

lemma update_new: "k \<notin> fst ` set rs \<Longrightarrow> AList.update k t rs = rs @ [(k, t)]"
  by (induction rs) auto

lemma delete_key [simp]: "k \<notin> fst ` set (AList.delete k rs)"
  by (auto simp: AList.delete_eq)

lemma keyed_Nil [simp]: "keyed f []"
  by (simp add: keyed_def)

lemma keyed_entry: "keyed f rs \<Longrightarrow> (k, t) \<in> set rs \<Longrightarrow> distinct (f t)"
  by (auto simp: keyed_def dest!: split_list)

lemma owned_map_of:
  assumes "keyed f rs" "map_of rs k = Some t"
  shows "owned f rs k y \<longleftrightarrow> y \<in> set (f t)"
proof -
  have "s = t" if "(k, s) \<in> set rs" for s
    using eq_key_imp_eq_value [OF _ that map_of_SomeD [OF assms(2)]] assms(1) by (simp add: keyed_def)
  with map_of_SomeD [OF assms(2)] show ?thesis unfolding owned_def by blast
qed

text \<open>Replacing the structure of a space by one that gains at most windows that live nowhere else.\<close>

lemma keyed_replace:
  assumes ok: "keyed f rs" and "(k, t) \<in> set rs" and "distinct (f t')"
    and "\<And>y space. y \<in> set (f t') \<Longrightarrow> y \<notin> set (f t) \<Longrightarrow> \<not> owned f rs space y"
  shows "keyed f (AList.update k t' rs) \<and>
    (\<forall>space y. owned f (AList.update k t' rs) space y \<longleftrightarrow>
       (if space = k then y \<in> set (f t') else owned f rs space y))"
proof -
  obtain us vs where rs: "rs = us @ (k, t) # vs" and k: "k \<notin> fst ` set us" "k \<notin> fst ` set vs"
    and upd: "AList.update k t' rs = us @ (k, t') # vs"
    using roots_split [of rs k t] ok assms(2) by (metis keyed_def)
  have "y \<notin> set (all_windows f us) \<and> y \<notin> set (all_windows f vs)" if "y \<in> set (f t')" for y
  proof (cases "y \<in> set (f t)")
    case True
    with ok show ?thesis by (auto simp: rs keyed_def)
  next
    case False
    with assms(4) [OF that] show ?thesis by (auto simp: rs all_windows_owned)
  qed
  then have "keyed f (us @ (k, t') # vs)" using ok assms(3) by (auto simp: keyed_def rs)
  moreover have "owned f (us @ (k, t') # vs) space y \<longleftrightarrow>
       (if space = k then y \<in> set (f t') else owned f rs space y)" for space y
    using k owned_key [of f us k y] owned_key [of f vs k y] by (auto simp: rs)
  ultimately show ?thesis by (simp add: upd)
qed

lemma space_of_replace:
  assumes ok: "keyed f rs" and t: "(k, t) \<in> set rs" and "distinct (f t')"
    and "\<And>y space. y \<in> set (f t') \<Longrightarrow> y \<notin> set (f t) \<Longrightarrow> \<not> owned f rs space y"
  shows "keyed f (AList.update k t' rs)"
    and "space_of f (AList.update k t' rs) =
      (\<lambda>y. if y \<in> set (f t') then Some k else if y \<in> set (f t) then None else space_of f rs y)"
proof -
  have r: "keyed f (AList.update k t' rs) \<and> (\<forall>space y. owned f (AList.update k t' rs) space y \<longleftrightarrow>
       (if space = k then y \<in> set (f t') else owned f rs space y))"
    by (rule keyed_replace [OF assms])
  then show keyed: "keyed f (AList.update k t' rs)" by blast
  have "map_of rs k = Some t" using ok t by (simp add: keyed_def)
  note at_k = owned_map_of [OF ok this]
  have one: "space = space'" if "owned f rs space y" "owned f rs space' y" for space space' y
    using that space_of_iff [OF ok] by (metis option.inject)
  show "space_of f (AList.update k t' rs) =
      (\<lambda>y. if y \<in> set (f t') then Some k else if y \<in> set (f t) then None else space_of f rs y)"
  proof (rule map_eqI)
    fix y space
    show "space_of f (AList.update k t' rs) y = Some space \<longleftrightarrow>
      (if y \<in> set (f t') then Some k else if y \<in> set (f t) then None else space_of f rs y) = Some space"
      using r space_of_iff [OF keyed, of y space] space_of_iff [OF ok, of y space] at_k [of y] one [of space y k]
        assms(4) [of y space]
      by (cases "space = k") auto
  qed
qed

lemma space_of_append:
  assumes ok: "keyed f rs" and k: "k \<notin> fst ` set rs" and "distinct (f t)"
    and "\<And>y space. y \<in> set (f t) \<Longrightarrow> \<not> owned f rs space y"
  shows "keyed f (rs @ [(k, t)])"
    and "space_of f (rs @ [(k, t)]) = (\<lambda>y. if y \<in> set (f t) then Some k else space_of f rs y)"
proof -
  show keyed: "keyed f (rs @ [(k, t)])" using assms by (auto simp: keyed_def all_windows_owned)
  show "space_of f (rs @ [(k, t)]) = (\<lambda>y. if y \<in> set (f t) then Some k else space_of f rs y)"
    by (rule map_eqI)
      (use assms(4) in \<open>auto simp: space_of_iff [OF keyed] space_of_iff [OF ok]\<close>)
qed

lemma space_of_delete:
  assumes ok: "keyed f rs" and t: "(k, t) \<in> set rs"
  shows "keyed f (AList.delete k rs)"
    and "space_of f (AList.delete k rs) = (\<lambda>y. if y \<in> set (f t) then None else space_of f rs y)"
proof -
  obtain us vs where rs: "rs = us @ (k, t) # vs" and k: "k \<notin> fst ` set us" "k \<notin> fst ` set vs"
    and del: "AList.delete k rs = us @ vs"
    using roots_split [of rs k t] ok t by (metis keyed_def)
  show keyed: "keyed f (AList.delete k rs)" using ok by (auto simp: keyed_def rs del [unfolded rs])
  have "y \<notin> set (all_windows f us) \<and> y \<notin> set (all_windows f vs)" if "y \<in> set (f t)" for y
    using ok that by (auto simp: keyed_def rs)
  then have "owned f (us @ vs) space y \<longleftrightarrow> owned f rs space y \<and> y \<notin> set (f t)" for space y
    by (auto simp: rs all_windows_owned)
  then show "space_of f (AList.delete k rs) = (\<lambda>y. if y \<in> set (f t) then None else space_of f rs y)"
    using space_of_iff [OF keyed] by (intro map_eqI) (simp add: space_of_iff [OF ok] del)
qed

end
