(* ===== verification/Dwindle_Layout.thy ===== *)
theory Dwindle_Layout
  imports Window_Spaces
begin

text \<open>
  The dwindle layout of \<^verbatim>\<open>window_layout.rs\<close>: one binary tree of splits per layout space. The hash map of
  the roots is an association list with distinct keys, in an order the code does not rely on; a new key
  is appended. The \<open>expect\<close>s of the tree removal are the \<open>None\<close> of \<open>node_remove\<close>; \<open>node_remove_ids\<close> shows
  that they never fail.
\<close>

section \<open>The tree\<close>

datatype 'w dwindle_node =
    Window 'w
  | Split "layout_axis option" f64 "'w dwindle_node" "'w dwindle_node"

fun node_contains :: "'w dwindle_node \<Rightarrow> 'w \<Rightarrow> bool" where
  "node_contains (Window candidate) x = (candidate = x)"
| "node_contains (Split _ _ first second) x = (node_contains first x \<or> node_contains second x)"

fun last_window :: "'w dwindle_node \<Rightarrow> 'w" where
  "last_window (Window x) = x"
| "last_window (Split _ _ _ second) = last_window second"

fun window_ids :: "'w dwindle_node \<Rightarrow> 'w list" where
  "window_ids (Window x) = [x]"
| "window_ids (Split _ _ first second) = window_ids first @ window_ids second"

fun leaf_count :: "'w dwindle_node \<Rightarrow> nat" where
  "leaf_count (Window _) = 1"
| "leaf_count (Split _ _ first second) = leaf_count first + leaf_count second"

fun retained :: "'w dwindle_node \<Rightarrow> ('w \<Rightarrow> bool) \<Rightarrow> 'w dwindle_node option" where
  "retained (Window x) keep = (if keep x then Some (Window x) else None)"
| "retained (Split axis ratio first second) keep =
     (case (retained first keep, retained second keep) of
        (Some f, Some s) \<Rightarrow> Some (Split axis ratio f s)
      | (Some child, None) \<Rightarrow> Some child
      | (None, Some child) \<Rightarrow> Some child
      | (None, None) \<Rightarrow> None)"

fun split_window :: "'w dwindle_node \<Rightarrow> 'w \<Rightarrow> 'w \<Rightarrow> 'w dwindle_node \<times> bool" where
  "split_window (Window candidate) anchor x =
     (if candidate = anchor
      then (Split None (f64_literal (1 / 2)) (Window candidate) (Window x), True)
      else (Window candidate, False))"
| "split_window (Split axis ratio first second) anchor x =
     (let (first', done) = split_window first anchor x
      in if done then (Split axis ratio first' second, True)
         else
           (let (second', done) = split_window second anchor x
            in (Split axis ratio first' second', done)))"

fun split_window_beside ::
  "'w dwindle_node \<Rightarrow> 'w \<Rightarrow> 'w \<Rightarrow> layout_direction \<Rightarrow> 'w dwindle_node \<times> bool" where
  "split_window_beside (Window candidate) anchor x direction =
     (if candidate = anchor
      then (if inserts_first direction
            then Split (Some (split_axis direction)) (f64_literal (1 / 2)) (Window x) (Window candidate)
            else Split (Some (split_axis direction)) (f64_literal (1 / 2)) (Window candidate) (Window x), True)
      else (Window candidate, False))"
| "split_window_beside (Split axis ratio first second) anchor x direction =
     (let (first', done) = split_window_beside first anchor x direction
      in if done then (Split axis ratio first' second, True)
         else
           (let (second', done) = split_window_beside second anchor x direction
            in (Split axis ratio first' second', done)))"

fun node_remove :: "'w dwindle_node \<Rightarrow> 'w \<Rightarrow> ('w dwindle_node option \<times> bool) option" where
  "node_remove (Window candidate) x =
     Some (if candidate = x then (None, True) else (Some (Window candidate), False))"
| "node_remove (Split axis ratio first second) x =
     Option.bind (node_remove first x) (\<lambda>(first', removed).
       if removed then
         Some (case first' of Some f \<Rightarrow> (Some (Split axis ratio f second), True) | None \<Rightarrow> (Some second, True))
       else
         Option.bind (node_remove second x) (\<lambda>(second', removed).
           if \<not> removed then
             (case (first', second') of
                (Some f, Some s) \<Rightarrow> Some (Some (Split axis ratio f s), False)
              | _ \<Rightarrow> None)
           else
             (case second' of
                Some s \<Rightarrow> (case first' of Some f \<Rightarrow> Some (Some (Split axis ratio f s), True) | None \<Rightarrow> None)
              | None \<Rightarrow> Some (first', True))))"

definition layout_minimum_size :: "('w \<times> layout_size) list \<Rightarrow> 'w \<Rightarrow> layout_size" where
  "layout_minimum_size minimum_sizes x =
     (case find (\<lambda>(candidate, _). candidate = x) minimum_sizes of
        Some (_, minimum) \<Rightarrow> minimum
      | None \<Rightarrow> \<lparr>min_w = 1, min_h = 1\<rparr>)"

fun update_first_size :: "('w \<times> layout_size) list \<Rightarrow> 'w \<Rightarrow> layout_size \<Rightarrow> ('w \<times> layout_size) list" where
  "update_first_size [] x minimum = [(x, minimum)]"
| "update_first_size ((candidate, current) # rest) x minimum =
     (if candidate = x then (candidate, minimum) # rest
      else (candidate, current) # update_first_size rest x minimum)"

definition update_layout_minimum_size ::
  "('w \<times> layout_size) list \<Rightarrow> 'w \<Rightarrow> layout_size \<Rightarrow> ('w \<times> layout_size) list \<times> bool" where
  "update_layout_minimum_size minimum_sizes x minimum =
     (let minimum = \<lparr>min_w = max (min_w minimum) 1, min_h = max (min_h minimum) 1\<rparr>
      in case find (\<lambda>(candidate, _). candidate = x) minimum_sizes of
           Some (_, current) \<Rightarrow>
             if current = minimum then (minimum_sizes, False)
             else (update_first_size minimum_sizes x minimum, True)
         | None \<Rightarrow> (minimum_sizes @ [(x, minimum)], True))"

definition remove_layout_minimum_size :: "('w \<times> layout_size) list \<Rightarrow> 'w \<Rightarrow> ('w \<times> layout_size) list" where
  "remove_layout_minimum_size minimum_sizes x = filter (\<lambda>(candidate, _). candidate \<noteq> x) minimum_sizes"

fun minimum_size :: "'w dwindle_node \<Rightarrow> rectangle \<Rightarrow> int \<Rightarrow> ('w \<times> layout_size) list \<Rightarrow> layout_size" where
  "minimum_size (Window x) g gap minimum_sizes = layout_minimum_size minimum_sizes x"
| "minimum_size (Split axis ratio first second) g gap minimum_sizes =
     (let axis = resolved_split_axis axis g;
          (first_geometry, second_geometry) = split_geometry_on_axis g gap ratio axis;
          first_minimum = minimum_size first first_geometry gap minimum_sizes;
          second_minimum = minimum_size second second_geometry gap minimum_sizes
      in case axis of
           Horizontal \<Rightarrow>
             \<lparr>min_w = sat32 (sat32 (min_w first_minimum + max gap 0) + min_w second_minimum),
              min_h = max (min_h first_minimum) (min_h second_minimum)\<rparr>
         | Vertical \<Rightarrow>
             \<lparr>min_w = max (min_w first_minimum) (min_w second_minimum),
              min_h = sat32 (sat32 (min_h first_minimum + max gap 0) + min_h second_minimum)\<rparr>)"

text \<open>The two parts a split gives its children, with the minimum sizes of their subtrees.\<close>

definition child_geometries ::
  "layout_axis \<Rightarrow> f64 \<Rightarrow> 'w dwindle_node \<Rightarrow> 'w dwindle_node \<Rightarrow> rectangle \<Rightarrow> int \<Rightarrow>
     ('w \<times> layout_size) list \<Rightarrow> rectangle \<times> rectangle" where
  "child_geometries axis ratio first second g gap minimum_sizes =
     (let (unconstrained_first, unconstrained_second) = split_geometry_on_axis g gap ratio axis;
          first_minimum = minimum_size first unconstrained_first gap minimum_sizes;
          second_minimum = minimum_size second unconstrained_second gap minimum_sizes
      in split_geometry_on_axis_with_minimums g gap ratio first_minimum second_minimum axis)"

fun node_arrange ::
  "'w dwindle_node \<Rightarrow> rectangle \<Rightarrow> int \<Rightarrow> ('w \<times> layout_size) list \<Rightarrow> 'w layout_placement list" where
  "node_arrange (Window x) g gap minimum_sizes = [\<lparr>placed_window = x, placed_geometry = g\<rparr>]"
| "node_arrange (Split axis ratio first second) g gap minimum_sizes =
     (let axis = resolved_split_axis axis g;
          (first_geometry, second_geometry) = child_geometries axis ratio first second g gap minimum_sizes
      in node_arrange first first_geometry gap minimum_sizes @
         node_arrange second second_geometry gap minimum_sizes)"

fun swap_windows :: "'w dwindle_node \<Rightarrow> 'w \<Rightarrow> 'w \<Rightarrow> 'w dwindle_node" where
  "swap_windows (Window x) first second =
     (if x = first then Window second else if x = second then Window first else Window x)"
| "swap_windows (Split axis ratio first_child second_child) first second =
     Split axis ratio (swap_windows first_child first second) (swap_windows second_child first second)"

section \<open>Resizing\<close>

record resize_edges =
  edge_top :: bool
  edge_bottom :: bool
  edge_left :: bool
  edge_right :: bool

record resized_axes =
  res_horizontal :: bool
  res_vertical :: bool
  res_changed :: bool

definition ResizedAxes_default :: resized_axes where
  "ResizedAxes_default = \<lparr>res_horizontal = False, res_vertical = False, res_changed = False\<rparr>"

datatype size_change = Adjust f64 | Reset

definition RATIO_MIN :: f64 where
  "RATIO_MIN = f64_literal (1 / 10)"

definition RATIO_MAX :: f64 where
  "RATIO_MAX = f64_literal (9 / 10)"

definition differs :: "f64 \<Rightarrow> f64 \<Rightarrow> bool" where
  "differs a b \<longleftrightarrow> f64_less F64_EPSILON (f64_abs (f64_sub a b))"

text \<open>The boundary of one split: the new ratio and whether it changed.\<close>

definition move_boundary :: "f64 \<Rightarrow> int \<Rightarrow> f64 \<Rightarrow> f64 \<times> bool" where
  "move_boundary ratio available delta =
     (if f64_is_finite delta \<and> delta \<noteq> Fin 0 then
        (let next = f64_clamp (f64_add ratio (f64_div delta (f64_from_i32 available))) RATIO_MIN RATIO_MAX
         in if differs next ratio then (next, True) else (ratio, False))
      else (ratio, False))"

text \<open>What a split does once its child on the way to the window is resized.\<close>

definition resize_split ::
  "layout_axis option \<Rightarrow> f64 \<Rightarrow> 'w dwindle_node \<Rightarrow> 'w dwindle_node \<Rightarrow> resized_axes \<Rightarrow> bool \<Rightarrow> rectangle \<Rightarrow> int \<Rightarrow>
     resize_edges \<Rightarrow> f64 \<Rightarrow> f64 \<Rightarrow> 'w dwindle_node \<times> resized_axes" where
  "resize_split pinned ratio first second resized window_in_first g gap edges delta_x delta_y =
     (let axis = resolved_split_axis pinned g;
          handles_boundary =
            (case axis of
               Horizontal \<Rightarrow> \<not> res_horizontal resized \<and>
                 (window_in_first \<and> edge_right edges \<or> \<not> window_in_first \<and> edge_left edges)
             | Vertical \<Rightarrow> \<not> res_vertical resized \<and>
                 (window_in_first \<and> edge_bottom edges \<or> \<not> window_in_first \<and> edge_top edges))
      in if \<not> handles_boundary then (Split pinned ratio first second, resized)
         else
           (let available = max (sat32 (main_extent axis g - max gap 0)) 2;
                (ratio', changed) = move_boundary ratio available
                  (case axis of Horizontal \<Rightarrow> delta_x | Vertical \<Rightarrow> delta_y);
                resized = (if changed then resized\<lparr>res_changed := True\<rparr> else resized)
            in (Split pinned ratio' first second,
                (case axis of Horizontal \<Rightarrow> resized\<lparr>res_horizontal := True\<rparr>
                 | Vertical \<Rightarrow> resized\<lparr>res_vertical := True\<rparr>))))"

fun resize_window ::
  "'w dwindle_node \<Rightarrow> 'w \<Rightarrow> rectangle \<Rightarrow> int \<Rightarrow> resize_edges \<Rightarrow> f64 \<Rightarrow> f64 \<Rightarrow> 'w dwindle_node \<times> resized_axes"
where
  "resize_window (Window x) window g gap edges delta_x delta_y = (Window x, ResizedAxes_default)"
| "resize_window (Split pinned ratio first second) window g gap edges delta_x delta_y =
     (let (first_geometry, second_geometry) =
            split_geometry_on_axis g gap ratio (resolved_split_axis pinned g)
      in if node_contains first window then
           (case resize_window first window first_geometry gap edges delta_x delta_y of
              (first', resized) \<Rightarrow>
                resize_split pinned ratio first' second resized True g gap edges delta_x delta_y)
         else if node_contains second window then
           (case resize_window second window second_geometry gap edges delta_x delta_y of
              (second', resized) \<Rightarrow>
                resize_split pinned ratio first second' resized False g gap edges delta_x delta_y)
         else (Split pinned ratio first second, ResizedAxes_default))"

fun retain_split_axes ::
  "'w dwindle_node \<Rightarrow> rectangle \<Rightarrow> int \<Rightarrow> ('w \<times> layout_size) list \<Rightarrow> 'w dwindle_node" where
  "retain_split_axes (Window x) g gap minimum_sizes = Window x"
| "retain_split_axes (Split axis ratio first second) g gap minimum_sizes =
     (let resolved = resolved_split_axis axis g;
          (first_geometry, second_geometry) = child_geometries resolved ratio first second g gap minimum_sizes
      in Split (Some resolved) ratio (retain_split_axes first first_geometry gap minimum_sizes)
           (retain_split_axes second second_geometry gap minimum_sizes))"

text \<open>\<open>None\<close>: no split of the requested axis around the window; \<open>Some b\<close>: whether the size changed.\<close>

definition keyboard_ratio :: "size_change \<Rightarrow> bool \<Rightarrow> int \<Rightarrow> int \<Rightarrow> f64 option" where
  "keyboard_ratio change in_first first_extent available =
     (case change of
        Adjust delta \<Rightarrow>
          if f64_is_finite delta \<and> delta \<noteq> Fin 0 then
            Some (f64_clamp
              (f64_div (f64_add (f64_from_i32 first_extent) (if in_first then delta else f64_neg delta))
                 (f64_from_i32 available)) RATIO_MIN RATIO_MAX)
          else None
      | Reset \<Rightarrow> Some (f64_literal (1 / 2)))"

fun is_adjust :: "size_change \<Rightarrow> bool" where
  "is_adjust (Adjust _) = True"
| "is_adjust Reset = False"

text \<open>What a split does with the answer of its child; the geometries are those the child was given.\<close>

definition keyboard_split ::
  "layout_axis option \<Rightarrow> f64 \<Rightarrow> 'w dwindle_node \<Rightarrow> 'w dwindle_node \<Rightarrow> bool option \<Rightarrow> bool \<Rightarrow> layout_axis \<Rightarrow>
     size_change \<Rightarrow> rectangle \<Rightarrow> int \<Rightarrow> layout_size \<Rightarrow> layout_size \<Rightarrow> rectangle \<times> rectangle \<Rightarrow>
     'w dwindle_node \<times> bool option" where
  "keyboard_split pinned ratio first second child_result in_first req_axis change g gap first_min second_min
       geometries =
     (let axis = resolved_split_axis pinned g
      in if child_result \<noteq> None \<or> axis \<noteq> req_axis then (Split pinned ratio first second, child_result)
         else
           (let extent = max (main_extent axis g) 2;
                available = extent - clamp32 gap 0 (extent - 2)
            in case keyboard_ratio change in_first (main_extent axis (fst geometries)) available of
                 None \<Rightarrow> (Split pinned ratio first second, Some False)
               | Some next \<Rightarrow>
                   if is_adjust change \<and>
                      split_geometry_on_axis_with_minimums g gap next first_min second_min axis = geometries
                   then (Split pinned ratio first second, Some False)
                   else (Split pinned next first second, Some (differs ratio next))))"

fun node_resize_from_keyboard ::
  "'w dwindle_node \<Rightarrow> 'w \<Rightarrow> int \<Rightarrow> layout_axis \<Rightarrow> size_change \<Rightarrow> rectangle \<Rightarrow> ('w \<times> layout_size) list \<Rightarrow>
     'w dwindle_node \<times> bool option" where
  "node_resize_from_keyboard (Window x) window req_gap req_axis change g minimum_sizes = (Window x, None)"
| "node_resize_from_keyboard (Split pinned ratio first second) window req_gap req_axis change g minimum_sizes =
     (let axis = resolved_split_axis pinned g;
          gap = max req_gap 0;
          (raw_first, raw_second) = split_geometry_on_axis g gap ratio axis;
          first_min = minimum_size first raw_first gap minimum_sizes;
          second_min = minimum_size second raw_second gap minimum_sizes;
          geometries = split_geometry_on_axis_with_minimums g gap ratio first_min second_min axis
      in if node_contains first window then
           (case node_resize_from_keyboard first window req_gap req_axis change (fst geometries) minimum_sizes of
              (first', child_result) \<Rightarrow>
                keyboard_split pinned ratio first' second child_result True req_axis change g gap
                  first_min second_min geometries)
         else if node_contains second window then
           (case node_resize_from_keyboard second window req_gap req_axis change (snd geometries) minimum_sizes of
              (second', child_result) \<Rightarrow>
                keyboard_split pinned ratio first second' child_result False req_axis change g gap
                  first_min second_min geometries)
         else (Split pinned ratio first second, None))"

section \<open>The layout\<close>

record 'w dwindle_layout =
  roots :: "(layout_space \<times> 'w dwindle_node) list"
  minimum_sizes :: "('w \<times> layout_size) list"

definition Dwindle_default :: "'w dwindle_layout" where
  "Dwindle_default = \<lparr>roots = [], minimum_sizes = []\<rparr>"

definition dwindle_find :: "'w dwindle_layout \<Rightarrow> 'w \<Rightarrow> (layout_space \<times> 'w dwindle_node) option" where
  "dwindle_find l x = find (\<lambda>(space, tree). node_contains tree x) (roots l)"

definition dwindle_contains :: "'w dwindle_layout \<Rightarrow> 'w \<Rightarrow> bool" where
  "dwindle_contains l x \<longleftrightarrow> (\<exists>(space, tree) \<in> set (roots l). node_contains tree x)"

definition dwindle_space_for :: "'w dwindle_layout \<Rightarrow> 'w \<Rightarrow> layout_space option" where
  "dwindle_space_for l x = map_option fst (dwindle_find l x)"

definition dwindle_remove :: "'w dwindle_layout \<Rightarrow> 'w \<Rightarrow> 'w dwindle_layout \<times> bool" where
  "dwindle_remove l x =
     (case dwindle_find l x of
        None \<Rightarrow> (l, False)
      | Some (space, tree) \<Rightarrow>
          (let (tree', removed) = the (node_remove tree x);
               rest = AList.delete space (roots l)
           in (l\<lparr>roots := (case tree' of Some r \<Rightarrow> AList.update space r rest | None \<Rightarrow> rest),
                 minimum_sizes := remove_layout_minimum_size (minimum_sizes l) x\<rparr>, removed)))"

definition dwindle_insert :: "'w dwindle_layout \<Rightarrow> 'w layout_insertion \<Rightarrow> 'w dwindle_layout" where
  "dwindle_insert l i =
     (let l = fst (dwindle_remove l (ins_window i))
      in case map_of (roots l) (ins_space i) of
           None \<Rightarrow> l\<lparr>roots := AList.update (ins_space i) (Window (ins_window i)) (roots l)\<rparr>
         | Some tree \<Rightarrow>
             (let anchor = (case ins_anchor i of
                  Some a \<Rightarrow> if node_contains tree a then a else last_window tree
                | None \<Rightarrow> last_window tree)
              in l\<lparr>roots := AList.update (ins_space i) (fst (split_window tree anchor (ins_window i))) (roots l)\<rparr>))"

definition dwindle_clear :: "'w dwindle_layout \<Rightarrow> 'w dwindle_layout" where
  "dwindle_clear l = l\<lparr>roots := [], minimum_sizes := []\<rparr>"

definition dwindle_update_minimum_size ::
  "'w dwindle_layout \<Rightarrow> 'w \<Rightarrow> layout_size \<Rightarrow> 'w dwindle_layout \<times> bool" where
  "dwindle_update_minimum_size l x minimum =
     (if dwindle_contains l x
      then (case update_layout_minimum_size (minimum_sizes l) x minimum of
              (ms, changed) \<Rightarrow> (l\<lparr>minimum_sizes := ms\<rparr>, changed))
      else (l, False))"

definition dwindle_swap :: "'w dwindle_layout \<Rightarrow> 'w \<Rightarrow> 'w \<Rightarrow> 'w dwindle_layout \<times> bool" where
  "dwindle_swap l first second =
     (if first = second \<or> \<not> dwindle_contains l first \<or> \<not> dwindle_contains l second then (l, False)
      else (l\<lparr>roots := map (\<lambda>(space, tree). (space, swap_windows tree first second)) (roots l)\<rparr>, True))"

definition restore_minimum :: "'w dwindle_layout \<Rightarrow> 'w \<Rightarrow> layout_size option \<Rightarrow> 'w dwindle_layout" where
  "restore_minimum l x retained_minimum =
     (case retained_minimum of None \<Rightarrow> l
      | Some minimum \<Rightarrow> l\<lparr>minimum_sizes := fst (update_layout_minimum_size (minimum_sizes l) x minimum)\<rparr>)"

definition dwindle_move_beside ::
  "'w dwindle_layout \<Rightarrow> 'w \<Rightarrow> 'w \<Rightarrow> layout_direction \<Rightarrow> 'w dwindle_layout \<times> bool" where
  "dwindle_move_beside l x target direction =
     (if x = target \<or> \<not> dwindle_contains l x \<or> \<not> dwindle_contains l target then (l, False)
      else
        (let source_space = the (dwindle_space_for l x);
             destination_space = the (dwindle_space_for l target);
             retained_minimum = map_option snd (find (\<lambda>(candidate, _). candidate = x) (minimum_sizes l));
             l1 = fst (dwindle_remove l x);
             (l2, inserted) =
               (case map_of (roots l1) destination_space of
                  None \<Rightarrow> (l1, False)
                | Some tree \<Rightarrow>
                    (case split_window_beside tree target x direction of
                       (tree', done) \<Rightarrow> (l1\<lparr>roots := AList.update destination_space tree' (roots l1)\<rparr>, done)))
         in if \<not> inserted
            then (restore_minimum (dwindle_insert l2
                    \<lparr>ins_window = x, ins_space = source_space, ins_anchor = None\<rparr>) x retained_minimum, False)
            else (restore_minimum l2 x retained_minimum, True)))"

definition dwindle_resize_from_keyboard ::
  "'w dwindle_layout \<Rightarrow> 'w \<Rightarrow> rectangle \<Rightarrow> int \<Rightarrow> layout_axis \<Rightarrow> size_change \<Rightarrow> 'w dwindle_layout \<times> bool" where
  "dwindle_resize_from_keyboard l window work_area gap axis change =
     (case dwindle_find l window of
        None \<Rightarrow> (l, False)
      | Some (space, tree) \<Rightarrow>
          (let resized = retain_split_axes tree work_area (max gap 0) (minimum_sizes l);
               (resized, result) =
                 node_resize_from_keyboard resized window gap axis change work_area (minimum_sizes l)
           in if result \<noteq> Some True then (l, False)
              else (l\<lparr>roots := AList.update space resized (roots l)\<rparr>, True)))"

definition dwindle_resize ::
  "'w dwindle_layout \<Rightarrow> 'w \<Rightarrow> rectangle \<Rightarrow> int \<Rightarrow> f64 \<Rightarrow> f64 \<Rightarrow> resize_edges \<Rightarrow> 'w dwindle_layout \<times> bool" where
  "dwindle_resize l window work_area gap delta_x delta_y edges =
     (if \<not> f64_is_finite delta_x \<or> \<not> f64_is_finite delta_y then (l, False)
      else
        (case dwindle_find l window of
           None \<Rightarrow> (l, False)
         | Some (space, tree) \<Rightarrow>
             (case resize_window tree window work_area (max gap 0) edges delta_x delta_y of
                (tree', resized) \<Rightarrow>
                  (l\<lparr>roots := AList.update space tree' (roots l)\<rparr>, res_changed resized))))"

definition dwindle_arrange ::
  "'w dwindle_layout \<Rightarrow> layout_space \<Rightarrow> rectangle \<Rightarrow> int \<Rightarrow> 'w layout_placement list" where
  "dwindle_arrange l space work_area gap =
     (case map_of (roots l) space of
        None \<Rightarrow> []
      | Some tree \<Rightarrow> node_arrange tree work_area (max gap 0) (minimum_sizes l))"

section \<open>The windows of a tree\<close>

lemma node_contains_iff [simp]: "node_contains n x \<longleftrightarrow> x \<in> set (window_ids n)"
  by (induction n) auto

lemma last_window_in [simp]: "last_window n \<in> set (window_ids n)"
  by (induction n) auto

lemma leaf_count_length: "leaf_count n = length (window_ids n)"
  by (induction n) auto

lemma window_ids_not_Nil [simp]: "window_ids n \<noteq> []"
  by (induction n) auto

text \<open>The \<open>expect\<close>s never fail: removal always returns, and it removes exactly the window.\<close>

lemma node_remove_absent: "x \<notin> set (window_ids n) \<Longrightarrow> node_remove n x = Some (Some n, False)"
  by (induction n) auto

lemma node_remove_ids:
  assumes "x \<in> set (window_ids n)"
  obtains t where "node_remove n x = Some (t, True)"
    "(case t of None \<Rightarrow> [] | Some t' \<Rightarrow> window_ids t') = remove1 x (window_ids n)"
  using assms
proof (induction n arbitrary: thesis)
  case (Window y)
  then show ?case by simp
next
  case (Split axis ratio first second)
  show ?case
  proof (cases "x \<in> set (window_ids first)")
    case True
    then obtain t where t: "node_remove first x = Some (t, True)"
      "(case t of None \<Rightarrow> [] | Some t' \<Rightarrow> window_ids t') = remove1 x (window_ids first)"
      using Split.IH(1) by blast
    then show ?thesis
      using True by (cases t) (auto intro!: Split.prems(1) simp: remove1_append)
  next
    case False
    then have "x \<in> set (window_ids second)" using Split.prems(2) by simp
    then obtain t where t: "node_remove second x = Some (t, True)"
      "(case t of None \<Rightarrow> [] | Some t' \<Rightarrow> window_ids t') = remove1 x (window_ids second)"
      using Split.IH(2) by blast
    then show ?thesis
      using False by (cases t) (auto intro!: Split.prems(1) simp: remove1_append node_remove_absent)
  qed
qed

lemma retained_ids:
  "(case retained n keep of None \<Rightarrow> [] | Some t \<Rightarrow> window_ids t) = filter keep (window_ids n)"
  by (induction n) (auto split: option.splits)

text \<open>The new window stands right behind its anchor, or before it when the direction says so.\<close>

fun insert_beside :: "bool \<Rightarrow> 'w \<Rightarrow> 'w \<Rightarrow> 'w list \<Rightarrow> 'w list" where
  "insert_beside before anchor x [] = []"
| "insert_beside before anchor x (y # ys) =
     (if y = anchor then (if before then x # y # ys else y # x # ys)
      else y # insert_beside before anchor x ys)"

lemma insert_beside_absent: "anchor \<notin> set ys \<Longrightarrow> insert_beside b anchor x ys = ys"
  by (induction ys) auto

lemma insert_beside_append:
  "insert_beside b anchor x (ys @ zs) =
     (if anchor \<in> set ys then insert_beside b anchor x ys @ zs else ys @ insert_beside b anchor x zs)"
  by (induction ys) auto

lemma set_insert_beside: "anchor \<in> set ys \<Longrightarrow> set (insert_beside b anchor x ys) = insert x (set ys)"
proof (induction ys)
  case Nil
  then show ?case by simp
next
  case (Cons y ys)
  then show ?case by (cases "y = anchor") (simp_all add: insert_commute)
qed

lemma distinct_insert_beside:
  "x \<notin> set ys \<Longrightarrow> distinct ys \<Longrightarrow> distinct (insert_beside b anchor x ys)"
proof (induction ys)
  case Nil
  then show ?case by simp
next
  case (Cons y ys)
  then show ?case
    using set_insert_beside [of anchor ys b x] insert_beside_absent [of anchor ys b x]
    by (cases "anchor \<in> set ys") auto
qed

lemma split_window_ids:
  "window_ids (fst (split_window n anchor x)) = insert_beside False anchor x (window_ids n) \<and>
   snd (split_window n anchor x) = (anchor \<in> set (window_ids n))"
  by (induction n) (auto simp: insert_beside_append insert_beside_absent Let_def split: prod.splits)

lemma split_window_beside_ids:
  "window_ids (fst (split_window_beside n anchor x d)) = insert_beside (inserts_first d) anchor x (window_ids n) \<and>
   snd (split_window_beside n anchor x d) = (anchor \<in> set (window_ids n))"
  by (induction n) (auto simp: insert_beside_append insert_beside_absent Let_def split: prod.splits)

lemma swap_windows_ids:
  "window_ids (swap_windows n a b) = map (\<lambda>x. if x = a then b else if x = b then a else x) (window_ids n)"
  by (induction n) auto

lemma retain_split_axes_ids [simp]: "window_ids (retain_split_axes n g gap ms) = window_ids n"
  by (induction n arbitrary: g) (auto simp: Let_def split: prod.splits)

section \<open>The ratios of a tree\<close>

definition ratio_ok :: "f64 \<Rightarrow> bool" where
  "ratio_ok r \<longleftrightarrow> f64_is_finite r \<and> \<not> f64_less r RATIO_MIN \<and> \<not> f64_less RATIO_MAX r"

fun ratios_ok :: "'w dwindle_node \<Rightarrow> bool" where
  "ratios_ok (Window _) = True"
| "ratios_ok (Split _ ratio first second) = (ratio_ok ratio \<and> ratios_ok first \<and> ratios_ok second)"

lemma ratio_ok_half [simp]: "ratio_ok (f64_literal (1 / 2))"
  by (simp add: ratio_ok_def RATIO_MIN_def RATIO_MAX_def literal_values)

lemma ratio_ok_clamp: "x \<noteq> NaN \<Longrightarrow> ratio_ok (f64_clamp x RATIO_MIN RATIO_MAX)"
  by (cases x) (auto simp: ratio_ok_def f64_clamp_def RATIO_MIN_def RATIO_MAX_def literal_values)

lemma f64_add_not_NaN: "f64_is_finite a \<Longrightarrow> b \<noteq> NaN \<Longrightarrow> f64_add a b \<noteq> NaN"
  by (cases a; cases b) auto

lemma f64_div_not_NaN: "a \<noteq> NaN \<Longrightarrow> n \<noteq> 0 \<Longrightarrow> f64_div a (f64_from_i32 n) \<noteq> NaN"
  by (cases a) (auto simp: f64_from_i32_def)

lemma finite_not_NaN: "f64_is_finite a \<Longrightarrow> a \<noteq> NaN \<and> f64_neg a \<noteq> NaN"
  by (cases a) auto

lemma move_boundary_ok:
  assumes "ratio_ok r" "n \<noteq> 0"
  shows "ratio_ok (fst (move_boundary r n delta))"
proof -
  have "f64_is_finite delta \<Longrightarrow> f64_add r (f64_div delta (f64_from_i32 n)) \<noteq> NaN"
    using assms by (intro f64_add_not_NaN f64_div_not_NaN) (simp_all add: finite_not_NaN ratio_ok_def)
  then show ?thesis using assms(1) by (simp add: move_boundary_def Let_def ratio_ok_clamp)
qed

lemma ratios_ok_remove:
  "ratios_ok n \<Longrightarrow> node_remove n x = Some (t, b) \<Longrightarrow> pred_option ratios_ok t"
proof (induction n arbitrary: t b)
  case (Window y)
  then show ?case by (auto split: if_splits)
next
  case (Split axis ratio first second)
  show ?case
  proof (cases "x \<in> set (window_ids first)")
    case True
    then obtain t' where t': "node_remove first x = Some (t', True)" by (rule node_remove_ids)
    have "pred_option ratios_ok t'" using Split.IH(1) [OF _ t'] Split.prems(1) by simp
    with Split.prems t' show ?thesis by (cases t') auto
  next
    case False
    then have first: "node_remove first x = Some (Some first, False)" by (rule node_remove_absent)
    show ?thesis
    proof (cases "x \<in> set (window_ids second)")
      case True
      then obtain t' where t': "node_remove second x = Some (t', True)" by (rule node_remove_ids)
      have "pred_option ratios_ok t'" using Split.IH(2) [OF _ t'] Split.prems(1) by simp
      with first Split.prems t' show ?thesis by (cases t') auto
    next
      case False
      then have "node_remove second x = Some (Some second, False)" by (rule node_remove_absent)
      with first Split.prems show ?thesis by auto
    qed
  qed
qed

lemma ratios_ok_split: "ratios_ok n \<Longrightarrow> ratios_ok (fst (split_window n a x))"
  by (induction n) (auto simp: Let_def split: prod.splits)

lemma ratios_ok_split_beside: "ratios_ok n \<Longrightarrow> ratios_ok (fst (split_window_beside n a x d))"
  by (induction n) (auto simp: Let_def split: prod.splits)

lemma ratios_ok_swap [simp]: "ratios_ok (swap_windows n a b) = ratios_ok n"
  by (induction n) auto

lemma ratios_ok_retain [simp]: "ratios_ok (retain_split_axes n g gap ms) = ratios_ok n"
  by (induction n arbitrary: g) (auto simp: Let_def split: prod.splits)

lemma resize_split_ids [simp]:
  "window_ids (fst (resize_split pinned ratio f s r b g gap edges dx dy)) = window_ids f @ window_ids s"
  by (simp add: resize_split_def Let_def split: prod.split)

lemma resize_split_ratios:
  assumes "ratio_ok ratio" "ratios_ok f" "ratios_ok s"
  shows "ratios_ok (fst (resize_split pinned ratio f s r b g gap edges dx dy))"
proof -
  have "max (sat32 (main_extent (resolved_split_axis pinned g) g - max gap 0)) 2 \<noteq> 0" by (simp add: max_def)
  from move_boundary_ok [OF assms(1) this] assms show ?thesis
    by (simp add: resize_split_def Let_def case_prod_unfold)
qed

lemma resize_window_keeps:
  "window_ids (fst (resize_window n x g gap edges dx dy)) = window_ids n \<and>
   (ratios_ok n \<longrightarrow> ratios_ok (fst (resize_window n x g gap edges dx dy)))"
proof (induction n arbitrary: g)
  case (Window y)
  then show ?case by simp
next
  case (Split axis ratio first second)
  obtain g1 g2 where g: "split_geometry_on_axis g gap ratio (resolved_split_axis axis g) = (g1, g2)" by fastforce
  obtain f r where f: "resize_window first x g1 gap edges dx dy = (f, r)" by fastforce
  obtain s r' where s: "resize_window second x g2 gap edges dx dy = (s, r')" by fastforce
  show ?case
    using Split.IH(1) [of g1] Split.IH(2) [of g2] by (simp add: g f s resize_split_ratios)
qed

lemma keyboard_ratio_ok:
  assumes "keyboard_ratio change b e n = Some r" "n \<noteq> 0"
  shows "ratio_ok r"
proof (cases change)
  case (Adjust delta)
  with assms(1) have r: "r = f64_clamp (f64_div (f64_add (f64_from_i32 e) (if b then delta else f64_neg delta))
      (f64_from_i32 n)) RATIO_MIN RATIO_MAX" and "f64_is_finite delta"
    by (simp_all add: keyboard_ratio_def split: if_splits)
  then have "f64_div (f64_add (f64_from_i32 e) (if b then delta else f64_neg delta)) (f64_from_i32 n) \<noteq> NaN"
    using assms(2) by (intro f64_div_not_NaN f64_add_not_NaN) (simp_all add: f64_from_i32_def finite_not_NaN)
  then show ?thesis unfolding r by (rule ratio_ok_clamp)
next
  case Reset
  with assms(1) show ?thesis by (simp add: keyboard_ratio_def) (metis ratio_ok_half)
qed

lemma keyboard_split_ids [simp]:
  "window_ids (fst (keyboard_split pinned ratio f s c b a change g gap m1 m2 gs)) = window_ids f @ window_ids s"
  by (simp add: keyboard_split_def Let_def split: option.split)

lemma keyboard_split_ratios:
  assumes "ratio_ok ratio" "ratios_ok f" "ratios_ok s"
  shows "ratios_ok (fst (keyboard_split pinned ratio f s c b a change g gap m1 m2 gs))"
proof -
  let ?e = "max (main_extent (resolved_split_axis pinned g) g) 2"
  have "?e - clamp32 gap 0 (?e - 2) \<noteq> 0" by (auto simp: clamp32_def max_def)
  from keyboard_ratio_ok [OF _ this] assms show ?thesis
    by (simp add: keyboard_split_def Let_def split: option.split)
qed

lemma keyboard_resize_keeps:
  "window_ids (fst (node_resize_from_keyboard n x rgap a change g ms)) = window_ids n \<and>
   (ratios_ok n \<longrightarrow> ratios_ok (fst (node_resize_from_keyboard n x rgap a change g ms)))"
proof (induction n arbitrary: g)
  case (Window y)
  then show ?case by simp
next
  case (Split axis ratio first second)
  let ?gap = "max rgap 0" and ?a = "resolved_split_axis axis g"
  obtain u1 u2 where u: "split_geometry_on_axis g ?gap ratio ?a = (u1, u2)" by fastforce
  obtain g1 g2 where g: "split_geometry_on_axis_with_minimums g ?gap ratio (minimum_size first u1 ?gap ms)
      (minimum_size second u2 ?gap ms) ?a = (g1, g2)" by fastforce
  obtain f r where f: "node_resize_from_keyboard first x rgap a change g1 ms = (f, r)" by fastforce
  obtain s r' where s: "node_resize_from_keyboard second x rgap a change g2 ms = (s, r')" by fastforce
  show ?case
    using Split.IH(1) [of g1] Split.IH(2) [of g2] by (simp add: Let_def u g f s keyboard_split_ratios)
qed

section \<open>The windows of the layout\<close>

abbreviation tree_windows :: "(layout_space \<times> 'w dwindle_node) list \<Rightarrow> 'w list" where
  "tree_windows \<equiv> all_windows window_ids"

abbreviation owns :: "(layout_space \<times> 'w dwindle_node) list \<Rightarrow> layout_space \<Rightarrow> 'w \<Rightarrow> bool" where
  "owns \<equiv> owned window_ids"

definition sizes_ok :: "('w \<times> layout_size) list \<Rightarrow> bool" where
  "sizes_ok ms \<longleftrightarrow> (\<forall>(x, m) \<in> set ms. 1 \<le> min_w m \<and> 1 \<le> min_h m)"

definition dw_ok :: "'w dwindle_layout \<Rightarrow> bool" where
  "dw_ok l \<longleftrightarrow> keyed window_ids (roots l) \<and>
     (\<forall>(space, tree) \<in> set (roots l). ratios_ok tree) \<and> sizes_ok (minimum_sizes l)"

lemma dw_ok_keyed: "dw_ok l \<Longrightarrow> keyed window_ids (roots l)"
  by (simp add: dw_ok_def)

lemma dwindle_find_owner: "dwindle_find l x = find (\<lambda>(space, tree). x \<in> set (window_ids tree)) (roots l)"
  by (simp add: dwindle_find_def)

lemma dwindle_find_iff:
  "dw_ok l \<Longrightarrow>
     dwindle_find l x = Some (space, tree) \<longleftrightarrow> (space, tree) \<in> set (roots l) \<and> x \<in> set (window_ids tree)"
  by (simp add: dwindle_find_owner find_owner_iff dw_ok_def keyed_def)

lemma dwindle_space_of: "dwindle_space_for l = space_of window_ids (roots l)"
  by (rule ext) (simp add: dwindle_space_for_def dwindle_find_owner space_of_def)

lemma dwindle_contains_iff: "dwindle_contains l x \<longleftrightarrow> (\<exists>space. owns (roots l) space x)"
  by (auto simp: dwindle_contains_def owned_def)

lemma sizes_ok_simps [simp]:
  "sizes_ok []" "sizes_ok ((x, m) # ms) \<longleftrightarrow> 1 \<le> min_w m \<and> 1 \<le> min_h m \<and> sizes_ok ms"
  "sizes_ok (ms @ ms') \<longleftrightarrow> sizes_ok ms \<and> sizes_ok ms'"
  by (auto simp: sizes_ok_def)

lemma sizes_ok_remove: "sizes_ok ms \<Longrightarrow> sizes_ok (remove_layout_minimum_size ms x)"
  by (induction ms) (auto simp: remove_layout_minimum_size_def)

lemma sizes_ok_update_first:
  "sizes_ok ms \<Longrightarrow> 1 \<le> min_w m \<Longrightarrow> 1 \<le> min_h m \<Longrightarrow> sizes_ok (update_first_size ms x m)"
  by (induction ms) auto

lemma sizes_ok_update: "sizes_ok ms \<Longrightarrow> sizes_ok (fst (update_layout_minimum_size ms x m))"
  by (simp add: update_layout_minimum_size_def Let_def sizes_ok_update_first split: option.split)

lemma dwindle_space_for_iff: "dw_ok l \<Longrightarrow> dwindle_space_for l x = Some space \<longleftrightarrow> owns (roots l) space x"
  by (simp add: dwindle_space_of space_of_iff dw_ok_def)

lemma roots_tree:
  assumes "dw_ok l" "(k, t) \<in> set (roots l)"
  shows "distinct (window_ids t)" "ratios_ok t" "map_of (roots l) k = Some t"
  using assms keyed_entry [of window_ids "roots l" k t] by (auto simp: dw_ok_def keyed_def)

lemma dwindle_find_cases:
  assumes "dw_ok l"
  obtains "dwindle_find l x = None" "dwindle_space_for l x = None"
  | k t where "dwindle_find l x = Some (k, t)" "dwindle_space_for l x = Some k" "(k, t) \<in> set (roots l)"
      "x \<in> set (window_ids t)"
  using dwindle_find_iff [OF assms, of x] by (cases "dwindle_find l x") (auto simp: dwindle_space_for_def)

text \<open>Changing the tree of one space.\<close>

lemma dw_replace:
  assumes ok: "dw_ok l" and t: "(k, t) \<in> set (roots l)" and "distinct (window_ids t')" "ratios_ok t'"
    and "\<And>y. y \<in> set (window_ids t') \<Longrightarrow> y \<notin> set (window_ids t) \<Longrightarrow> dwindle_space_for l y = None"
  shows "dw_ok (l\<lparr>roots := AList.update k t' (roots l)\<rparr>)"
    and "dwindle_space_for (l\<lparr>roots := AList.update k t' (roots l)\<rparr>) =
      (\<lambda>y. if y \<in> set (window_ids t') then Some k else if y \<in> set (window_ids t) then None
           else dwindle_space_for l y)"
proof -
  have new: "\<not> owns (roots l) space y" if "y \<in> set (window_ids t')" "y \<notin> set (window_ids t)" for y space
    by (rule not_owned [OF dw_ok_keyed [OF ok]]) (use assms(5) [OF that] in \<open>simp add: dwindle_space_of\<close>)
  note r = space_of_replace [OF dw_ok_keyed [OF ok] t assms(3) new]
  have "set (AList.update k t' (roots l)) \<subseteq> insert (k, t') (set (roots l))"
    using roots_split [of "roots l" k t] ok t by (force simp: dw_ok_def keyed_def)
  then show "dw_ok (l\<lparr>roots := AList.update k t' (roots l)\<rparr>)"
    using ok r(1) assms(4) by (auto simp: dw_ok_def)
  show "dwindle_space_for (l\<lparr>roots := AList.update k t' (roots l)\<rparr>) =
      (\<lambda>y. if y \<in> set (window_ids t') then Some k else if y \<in> set (window_ids t) then None
           else dwindle_space_for l y)"
    unfolding dwindle_space_of using r(2) by simp
qed

lemma dwindle_remove_absent:
  assumes "dw_ok l" "dwindle_space_for l x = None"
  shows "dwindle_remove l x = (l, False)"
  by (rule dwindle_find_cases [OF assms(1), of x]) (use assms(2) in \<open>simp_all add: dwindle_remove_def\<close>)

text \<open>The tree that lost the window goes back under its key, at the end of the list.\<close>

lemma dwindle_remove_present:
  assumes ok: "dw_ok l" and t: "(k, t) \<in> set (roots l)" and x: "x \<in> set (window_ids t)"
  obtains ts where
    "dwindle_remove l x = (l\<lparr>roots := AList.delete k (roots l) @ ts,
        minimum_sizes := remove_layout_minimum_size (minimum_sizes l) x\<rparr>, True)"
    "ts = [] \<and> remove1 x (window_ids t) = [] \<or>
       (\<exists>t'. ts = [(k, t')] \<and> ratios_ok t' \<and> window_ids t' = remove1 x (window_ids t))"
proof -
  obtain t' where t': "node_remove t x = Some (t', True)"
    "(case t' of None \<Rightarrow> [] | Some t \<Rightarrow> window_ids t) = remove1 x (window_ids t)"
    using node_remove_ids [OF x] .
  have find: "dwindle_find l x = Some (k, t)" using ok t x by (simp add: dwindle_find_iff)
  have ratios: "pred_option ratios_ok t'" using ratios_ok_remove [OF _ t'(1)] roots_tree [OF ok t] by blast
  show thesis
    using that [of "case t' of None \<Rightarrow> [] | Some t \<Rightarrow> [(k, t)]"] t' ratios
    by (cases t') (simp_all add: dwindle_remove_def find Let_def update_new [OF delete_key])
qed

lemma dwindle_remove_law:
  assumes ok: "dw_ok l"
  shows "dw_ok (fst (dwindle_remove l x)) \<and>
    dwindle_space_for (fst (dwindle_remove l x)) = (dwindle_space_for l)(x := None) \<and>
    snd (dwindle_remove l x) = (dwindle_space_for l x \<noteq> None)"
proof (rule dwindle_find_cases [OF ok, of x])
  assume "dwindle_space_for l x = None"
  with dwindle_remove_absent [OF ok] ok show ?thesis by (auto simp: fun_upd_idem)
next
  fix k t
  assume k: "dwindle_space_for l x = Some k" and t: "(k, t) \<in> set (roots l)" "x \<in> set (window_ids t)"
  obtain ts where rem: "dwindle_remove l x = (l\<lparr>roots := AList.delete k (roots l) @ ts,
        minimum_sizes := remove_layout_minimum_size (minimum_sizes l) x\<rparr>, True)"
    and ts: "ts = [] \<and> remove1 x (window_ids t) = [] \<or>
       (\<exists>t'. ts = [(k, t')] \<and> ratios_ok t' \<and> window_ids t' = remove1 x (window_ids t))"
    using dwindle_remove_present [OF ok t] .
  let ?rs = "AList.delete k (roots l)"
  note keyed = dw_ok_keyed [OF ok]
  note del = space_of_delete [OF keyed t(1)]
  have dist: "distinct (window_ids t)" using roots_tree [OF ok t(1)] by blast
  have own: "dwindle_space_for l y = Some k" if "y \<in> set (window_ids t)" for y
    using that t(1) by (auto simp: dwindle_space_for_iff [OF ok] owned_def)
  have fresh: "\<not> owned window_ids ?rs space y" if "y \<in> set (window_ids t)" for y space
    by (rule not_owned [OF del(1)]) (simp add: del(2) that)
  have sub: "set ?rs \<subseteq> set (roots l)" by (auto simp: AList.delete_eq)
  have "keyed window_ids (?rs @ ts) \<and> space_of window_ids (?rs @ ts) = (dwindle_space_for l)(x := None) \<and>
    (\<forall>(space, tree) \<in> set ts. ratios_ok tree)"
    using ts
  proof
    assume "ts = [] \<and> remove1 x (window_ids t) = []"
    then have "ts = []" "set (window_ids t) = {x}" using set_remove1_eq [OF dist, of x] t(2) by auto
    with del show ?thesis by (auto simp: dwindle_space_of fun_eq_iff)
  next
    assume "\<exists>t'. ts = [(k, t')] \<and> ratios_ok t' \<and> window_ids t' = remove1 x (window_ids t)"
    then obtain t' where t': "ts = [(k, t')]" "ratios_ok t'" "window_ids t' = remove1 x (window_ids t)" by blast
    then have ids: "set (window_ids t') = set (window_ids t) - {x}" "distinct (window_ids t')" using dist by simp_all
    have "keyed window_ids (?rs @ [(k, t')])" "space_of window_ids (?rs @ [(k, t')]) =
        (\<lambda>y. if y \<in> set (window_ids t') then Some k else space_of window_ids ?rs y)"
      by (rule space_of_append [OF del(1)]; use ids fresh in simp)+
    then show ?thesis using t' ids own del(2) t(2) by (auto simp: dwindle_space_of fun_eq_iff)
  qed
  then show ?thesis
    using ok sub k sizes_ok_remove [of "minimum_sizes l" x] by (auto simp: rem dw_ok_def dwindle_space_of)
qed

lemma dwindle_insert_law:
  assumes "dw_ok l"
  shows "dw_ok (dwindle_insert l i) \<and>
    dwindle_space_for (dwindle_insert l i) = (dwindle_space_for l)(ins_window i \<mapsto> ins_space i)"
proof -
  let ?x = "ins_window i" and ?k = "ins_space i"
  define l1 where "l1 = fst (dwindle_remove l ?x)"
  have ok1: "dw_ok l1" and space1: "dwindle_space_for l1 = (dwindle_space_for l)(?x := None)"
    using dwindle_remove_law [OF assms, of ?x] by (simp_all add: l1_def)
  note keyed1 = dw_ok_keyed [OF ok1]
  show ?thesis
  proof (cases "map_of (roots l1) ?k")
    case None
    then have k: "?k \<notin> fst ` set (roots l1)" by (simp add: map_of_eq_None_iff)
    have fresh: "\<not> owns (roots l1) space ?x" for space
      by (rule not_owned [OF keyed1]) (use space1 in \<open>simp add: dwindle_space_of\<close>)
    have "keyed window_ids (roots l1 @ [(?k, Window ?x)])" "space_of window_ids (roots l1 @ [(?k, Window ?x)]) =
        (\<lambda>y. if y \<in> set (window_ids (Window ?x)) then Some ?k else space_of window_ids (roots l1) y)"
      by (rule space_of_append [OF keyed1 k]; use fresh in simp)+
    moreover have "dwindle_insert l i = l1\<lparr>roots := roots l1 @ [(?k, Window ?x)]\<rparr>"
      using None k by (simp add: dwindle_insert_def l1_def [symmetric] update_new)
    ultimately show ?thesis
      using ok1 space1 by (auto simp: dw_ok_def dwindle_space_of fun_eq_iff)
  next
    case (Some tree)
    define anchor where "anchor = (case ins_anchor i of
        Some a \<Rightarrow> if node_contains tree a then a else last_window tree | None \<Rightarrow> last_window tree)"
    have anchor: "anchor \<in> set (window_ids tree)" by (auto simp: anchor_def split: option.split)
    define tree' where "tree' = fst (split_window tree anchor ?x)"
    have mem: "(?k, tree) \<in> set (roots l1)" using Some by (rule map_of_SomeD)
    note tree = roots_tree [OF ok1 mem]
    have ids: "set (window_ids tree') = insert ?x (set (window_ids tree))"
      using split_window_ids [of tree anchor ?x] set_insert_beside [OF anchor] by (simp add: tree'_def)
    have own: "dwindle_space_for l1 y = Some ?k" if "y \<in> set (window_ids tree)" for y
      using that mem by (auto simp: dwindle_space_for_iff [OF ok1] owned_def)
    have "?x \<notin> set (window_ids tree)" using own [of ?x] by (auto simp: space1)
    then have tree': "distinct (window_ids tree')" "ratios_ok tree'"
      using split_window_ids [of tree anchor ?x] distinct_insert_beside ratios_ok_split tree
      by (auto simp: tree'_def)
    have r: "dw_ok (l1\<lparr>roots := AList.update ?k tree' (roots l1)\<rparr>)"
      "dwindle_space_for (l1\<lparr>roots := AList.update ?k tree' (roots l1)\<rparr>) =
        (\<lambda>y. if y \<in> set (window_ids tree') then Some ?k else if y \<in> set (window_ids tree) then None
             else dwindle_space_for l1 y)"
      by (rule dw_replace [OF ok1 mem tree']; use ids space1 in simp)+
    have "dwindle_insert l i = l1\<lparr>roots := AList.update ?k tree' (roots l1)\<rparr>"
      unfolding dwindle_insert_def l1_def [symmetric] Let_def Some anchor_def tree'_def by simp
    moreover have "dwindle_space_for l y = Some ?k" if "y \<in> set (window_ids tree)" for y
      using own [OF that] by (auto simp: space1 split: if_splits)
    ultimately show ?thesis using r ids space1 by (auto simp: fun_eq_iff)
  qed
qed

lemma dw_ok_empty [simp]: "dw_ok (l\<lparr>roots := [], minimum_sizes := []\<rparr>)" "dw_ok Dwindle_default"
  by (simp_all add: dw_ok_def Dwindle_default_def)

interpretation dwindle: window_layout dw_ok True dwindle_insert dwindle_remove dwindle_contains
  dwindle_space_for dwindle_clear
proof
  fix l :: "'a dwindle_layout" and x :: 'a and i :: "'a layout_insertion"
  assume ok: "dw_ok l"
  show "dw_ok (dwindle_insert l i) \<and> dwindle_space_for (dwindle_insert l i) =
      (if True then (dwindle_space_for l)(ins_window i \<mapsto> ins_space i) else dwindle_space_for l)"
    using dwindle_insert_law [OF ok] by simp
  show "dw_ok (fst (dwindle_remove l x)) \<and>
      dwindle_space_for (fst (dwindle_remove l x)) = (dwindle_space_for l)(x := None) \<and>
      snd (dwindle_remove l x) = (dwindle_space_for l x \<noteq> None)"
    using dwindle_remove_law [OF ok] .
  show "dwindle_contains l x = (dwindle_space_for l x \<noteq> None)"
    using dwindle_space_for_iff [OF ok, of x] by (auto simp: dwindle_contains_iff)
  have "dwindle_space_for (dwindle_clear l) = Map.empty"
    by (rule ext) (simp add: dwindle_clear_def dwindle_space_for_def dwindle_find_def)
  then show "dw_ok (dwindle_clear l) \<and> dwindle_space_for (dwindle_clear l) = Map.empty"
    by (simp add: dwindle_clear_def)
qed

subsection \<open>Swapping and resizing\<close>

lemma swap_id_bij: "inj (\<lambda>x. if x = a then b else if x = b then a else x)"
  by (rule injI) (auto split: if_splits)

lemma tree_windows_swap:
  "tree_windows (map (\<lambda>(space, tree). (space, swap_windows tree a b)) rs) =
     map (\<lambda>x. if x = a then b else if x = b then a else x) (tree_windows rs)"
  by (induction rs) (auto simp: swap_windows_ids)

lemma owns_swap:
  "owns (map (\<lambda>(space, tree). (space, swap_windows tree a b)) rs) space x \<longleftrightarrow>
     owns rs space (if x = a then b else if x = b then a else x)"
  by (induction rs) (auto simp: swap_windows_ids split: if_splits)

lemma dwindle_swap_law:
  assumes "dw_ok l"
  shows "dw_ok (fst (dwindle_swap l a b)) \<and>
    snd (dwindle_swap l a b) = (a \<noteq> b \<and> dwindle_space_for l a \<noteq> None \<and> dwindle_space_for l b \<noteq> None) \<and>
    dwindle_space_for (fst (dwindle_swap l a b)) =
      (if snd (dwindle_swap l a b)
       then (dwindle_space_for l)(a := dwindle_space_for l b, b := dwindle_space_for l a) else dwindle_space_for l)"
proof (cases "snd (dwindle_swap l a b)")
  case False
  with assms show ?thesis
    by (auto simp: dwindle_swap_def dwindle.contains_law [OF assms] split: if_splits)
next
  case True
  define rs where "rs = map (\<lambda>(space, tree). (space, swap_windows tree a b)) (roots l)"
  have swap: "fst (dwindle_swap l a b) = l\<lparr>roots := rs\<rparr>" and ab: "a \<noteq> b" "dwindle_space_for l a \<noteq> None"
    "dwindle_space_for l b \<noteq> None"
    using True by (auto simp: dwindle_swap_def rs_def dwindle.contains_law [OF assms] split: if_splits)
  have "map fst rs = map fst (roots l)" "distinct (tree_windows rs)"
    using assms by (auto simp: dw_ok_def keyed_def rs_def tree_windows_swap distinct_map
        inj_on_subset [OF swap_id_bij])
  moreover have "\<forall>(space, tree) \<in> set rs. ratios_ok tree" using assms by (auto simp: dw_ok_def rs_def)
  ultimately have ok': "dw_ok (l\<lparr>roots := rs\<rparr>)" using assms by (simp add: dw_ok_def keyed_def)
  have "dwindle_space_for (l\<lparr>roots := rs\<rparr>) x = Some space \<longleftrightarrow>
      ((dwindle_space_for l)(a := dwindle_space_for l b, b := dwindle_space_for l a)) x = Some space" for x space
    using dwindle_space_for_iff [OF ok'] dwindle_space_for_iff [OF assms] by (simp add: rs_def owns_swap)
  then have "dwindle_space_for (l\<lparr>roots := rs\<rparr>) =
      (dwindle_space_for l)(a := dwindle_space_for l b, b := dwindle_space_for l a)" by (rule map_eqI)
  with ok' ab True show ?thesis by (simp add: swap)
qed

lemma dw_same_windows:
  assumes ok: "dw_ok l" and mem: "(k, t) \<in> set (roots l)" and t': "window_ids t' = window_ids t" "ratios_ok t'"
  shows "dw_ok (l\<lparr>roots := AList.update k t' (roots l)\<rparr>) \<and>
    dwindle_space_for (l\<lparr>roots := AList.update k t' (roots l)\<rparr>) = dwindle_space_for l"
proof -
  have own: "dwindle_space_for l y = Some k" if "y \<in> set (window_ids t)" for y
    using that mem by (auto simp: dwindle_space_for_iff [OF ok] owned_def)
  have "dw_ok (l\<lparr>roots := AList.update k t' (roots l)\<rparr>)"
    "dwindle_space_for (l\<lparr>roots := AList.update k t' (roots l)\<rparr>) =
      (\<lambda>y. if y \<in> set (window_ids t') then Some k else if y \<in> set (window_ids t) then None
           else dwindle_space_for l y)"
    by (rule dw_replace [OF ok mem]; use t' roots_tree [OF ok mem] in simp)+
  then show ?thesis using own t'(1) by (auto simp: fun_eq_iff)
qed

lemma dwindle_resize_law:
  assumes "dw_ok l"
  shows "dw_ok (fst (dwindle_resize l x area gap dx dy edges)) \<and>
    dwindle_space_for (fst (dwindle_resize l x area gap dx dy edges)) = dwindle_space_for l"
proof (cases "dwindle_find l x")
  case None
  then show ?thesis using assms by (simp add: dwindle_resize_def)
next
  case (Some kt)
  obtain k t where kt: "kt = (k, t)" by fastforce
  with Some have mem: "(k, t) \<in> set (roots l)" by (simp add: dwindle_find_iff [OF assms])
  have "window_ids (fst (resize_window t x area (max gap 0) edges dx dy)) = window_ids t \<and>
      ratios_ok (fst (resize_window t x area (max gap 0) edges dx dy))"
    using resize_window_keeps [of t] roots_tree [OF assms mem] by blast
  then show ?thesis
    using dw_same_windows [OF assms mem] assms by (simp add: dwindle_resize_def Some kt case_prod_unfold)
qed

lemma dwindle_keyboard_law:
  assumes "dw_ok l"
  shows "dw_ok (fst (dwindle_resize_from_keyboard l x area gap axis change)) \<and>
    dwindle_space_for (fst (dwindle_resize_from_keyboard l x area gap axis change)) = dwindle_space_for l"
proof (cases "dwindle_find l x")
  case None
  then show ?thesis using assms by (simp add: dwindle_resize_from_keyboard_def)
next
  case (Some kt)
  obtain k t where kt: "kt = (k, t)" by fastforce
  with Some have mem: "(k, t) \<in> set (roots l)" by (simp add: dwindle_find_iff [OF assms])
  let ?t = "retain_split_axes t area (max gap 0) (minimum_sizes l)"
  have "window_ids (fst (node_resize_from_keyboard ?t x gap axis change area (minimum_sizes l))) = window_ids t \<and>
      ratios_ok (fst (node_resize_from_keyboard ?t x gap axis change area (minimum_sizes l)))"
    using keyboard_resize_keeps [of ?t] roots_tree [OF assms mem] by simp
  then show ?thesis
    using dw_same_windows [OF assms mem] assms
    by (simp add: dwindle_resize_from_keyboard_def Some kt Let_def case_prod_unfold)
qed

lemma dw_ok_minimum_sizes: "dw_ok l \<Longrightarrow> sizes_ok ms \<Longrightarrow> dw_ok (l\<lparr>minimum_sizes := ms\<rparr>)"
  by (simp add: dw_ok_def)

lemma space_for_minimum_sizes [simp]: "dwindle_space_for (l\<lparr>minimum_sizes := ms\<rparr>) = dwindle_space_for l"
  by (rule ext) (simp add: dwindle_space_for_def dwindle_find_def)

lemma dwindle_update_minimum_law:
  assumes "dw_ok l"
  shows "dw_ok (fst (dwindle_update_minimum_size l x m)) \<and>
    dwindle_space_for (fst (dwindle_update_minimum_size l x m)) = dwindle_space_for l"
  using assms sizes_ok_update [of "minimum_sizes l" x m]
  by (simp add: dwindle_update_minimum_size_def dw_ok_def case_prod_unfold)

subsection \<open>The order of the windows and their minimum sizes\<close>

definition ids_at :: "'w dwindle_layout \<Rightarrow> layout_space \<Rightarrow> 'w list" where
  "ids_at l space = (case map_of (roots l) space of None \<Rightarrow> [] | Some tree \<Rightarrow> window_ids tree)"

lemma ids_at_iff:
  assumes "dw_ok l"
  shows "x \<in> set (ids_at l space) \<longleftrightarrow> dwindle_space_for l x = Some space"
proof (cases "map_of (roots l) space")
  case None
  then have "space \<notin> fst ` set (roots l)" by (simp add: map_of_eq_None_iff)
  with None show ?thesis
    using owned_key [of window_ids "roots l" space x] by (auto simp: ids_at_def dwindle_space_for_iff [OF assms])
next
  case (Some tree)
  then show ?thesis
    using owned_map_of [OF dw_ok_keyed [OF assms] Some, of x] by (simp add: ids_at_def dwindle_space_for_iff [OF assms])
qed

lemma ids_at_distinct: "dw_ok l \<Longrightarrow> distinct (ids_at l space)"
  using roots_tree [of l space] by (auto simp: ids_at_def split: option.split dest: map_of_SomeD)

lemma ids_at_remove:
  assumes ok: "dw_ok l"
  shows "ids_at (fst (dwindle_remove l x)) space = remove1 x (ids_at l space)"
proof (rule dwindle_find_cases [OF ok, of x])
  assume none: "dwindle_space_for l x = None"
  then show ?thesis by (simp add: dwindle_remove_absent [OF ok] remove1_idem ids_at_iff [OF ok])
next
  fix k t
  assume k: "dwindle_space_for l x = Some k" and t: "(k, t) \<in> set (roots l)" "x \<in> set (window_ids t)"
  obtain ts where rem: "dwindle_remove l x = (l\<lparr>roots := AList.delete k (roots l) @ ts,
        minimum_sizes := remove_layout_minimum_size (minimum_sizes l) x\<rparr>, True)"
    and ts: "ts = [] \<and> remove1 x (window_ids t) = [] \<or>
       (\<exists>t'. ts = [(k, t')] \<and> ratios_ok t' \<and> window_ids t' = remove1 x (window_ids t))"
    using dwindle_remove_present [OF ok t] .
  show ?thesis
  proof (cases "space = k")
    case True
    with roots_tree(3) [OF ok t(1)] ts show ?thesis
      by (auto simp: ids_at_def rem map_add_def AList.delete_conv')
  next
    case False
    with k have "x \<notin> set (ids_at l space)" by (simp add: ids_at_iff [OF ok])
    moreover have "map_of (AList.delete k (roots l) @ ts) space = map_of (roots l) space"
      using False ts by (auto simp: map_add_def AList.delete_conv' split: option.split)
    ultimately show ?thesis by (simp add: rem remove1_idem) (simp add: ids_at_def)
  qed
qed

lemma find_map_of: "find (\<lambda>(candidate, _). candidate = x) ms = map_option (Pair x) (map_of ms x)"
  by (induction ms) auto

lemma minimum_map_of:
  "layout_minimum_size ms x = (case map_of ms x of None \<Rightarrow> \<lparr>min_w = 1, min_h = 1\<rparr> | Some m \<Rightarrow> m)"
  by (simp add: layout_minimum_size_def find_map_of split: option.split)

lemma map_of_remove_minimum: "map_of (remove_layout_minimum_size ms x) = (map_of ms)(x := None)"
  by (induction ms) (auto simp: remove_layout_minimum_size_def)

lemma map_of_update_first: "map_of (update_first_size ms x m) = (map_of ms)(x \<mapsto> m)"
  by (induction ms) auto

lemma map_of_update_minimum:
  "map_of (fst (update_layout_minimum_size ms x m)) =
     (map_of ms)(x \<mapsto> \<lparr>min_w = max (min_w m) 1, min_h = max (min_h m) 1\<rparr>)"
  by (auto simp: update_layout_minimum_size_def Let_def find_map_of map_of_update_first map_add_def fun_eq_iff
      split: option.split)

lemma sizes_ok_map_of: "sizes_ok ms \<Longrightarrow> map_of ms x = Some m \<Longrightarrow> 1 \<le> min_w m \<and> 1 \<le> min_h m"
  by (auto simp: sizes_ok_def dest!: map_of_SomeD)

lemma restore_minimum_map_of:
  assumes "sizes_ok ms" "map_of (minimum_sizes l) = (map_of ms)(x := None)"
  shows "map_of (minimum_sizes (restore_minimum l x (map_of ms x))) = map_of ms"
  using sizes_ok_map_of [OF assms(1), of x] assms(2)
  by (auto simp: restore_minimum_def map_of_update_minimum max_def fun_eq_iff split: option.split)

subsection \<open>Moving a window beside another\<close>

lemma dwindle_move_beside_law:
  assumes ok: "dw_ok l" and x: "dwindle_space_for l x = Some sx" and target: "dwindle_space_for l target = Some st"
    and "x \<noteq> target"
  obtains l' where "dwindle_move_beside l x target d = (l', True)" "dw_ok l'"
    "dwindle_space_for l' = (dwindle_space_for l)(x \<mapsto> st)"
    "ids_at l' st = insert_beside (inserts_first d) target x (remove1 x (ids_at l st))"
    "map_of (minimum_sizes l') = map_of (minimum_sizes l)"
proof -
  define l1 where "l1 = fst (dwindle_remove l x)"
  have ok1: "dw_ok l1" and space1: "dwindle_space_for l1 = (dwindle_space_for l)(x := None)"
    using dwindle_remove_law [OF ok, of x] by (simp_all add: l1_def)
  have ids1: "ids_at l1 st = remove1 x (ids_at l st)" using ids_at_remove [OF ok] by (simp add: l1_def)
  have "dwindle_space_for l1 target = Some st" using assms(4) target by (simp add: space1)
  then obtain tree where mem: "(st, tree) \<in> set (roots l1)" and target1: "target \<in> set (window_ids tree)"
    by (auto simp: dwindle_space_for_iff [OF ok1] owned_def)
  note tree = roots_tree [OF ok1 mem]
  have ids_tree: "window_ids tree = ids_at l1 st" using tree(3) by (simp add: ids_at_def)
  obtain tree' where split: "split_window_beside tree target x d = (tree', True)"
    and ids': "window_ids tree' = insert_beside (inserts_first d) target x (window_ids tree)"
    using split_window_beside_ids [of tree target x d] target1
    by (cases "split_window_beside tree target x d") auto
  define l2 where "l2 = l1\<lparr>roots := AList.update st tree' (roots l1)\<rparr>"
  have set': "set (window_ids tree') = insert x (set (window_ids tree))"
    unfolding ids' by (rule set_insert_beside [OF target1])
  have own: "dwindle_space_for l1 y = Some st" if "y \<in> set (window_ids tree)" for y
    using that by (simp add: ids_tree ids_at_iff [OF ok1])
  have "x \<notin> set (window_ids tree)" using own [of x] by (auto simp: space1)
  then have tree': "distinct (window_ids tree')" "ratios_ok tree'"
    using distinct_insert_beside tree ratios_ok_split_beside [of tree target x d] by (auto simp: ids' split)
  have ok2: "dw_ok l2" and "dwindle_space_for l2 =
      (\<lambda>y. if y \<in> set (window_ids tree') then Some st else if y \<in> set (window_ids tree) then None
           else dwindle_space_for l1 y)"
    unfolding l2_def by (rule dw_replace [OF ok1 mem tree']; use set' space1 in simp)+
  moreover have "dwindle_space_for l y = Some st" if "y \<in> set (window_ids tree)" for y
    using own [OF that] by (auto simp: space1 split: if_splits)
  ultimately have space2: "dwindle_space_for l2 = (dwindle_space_for l)(x \<mapsto> st)"
    using set' by (auto simp: space1 fun_eq_iff)
  have sizes: "sizes_ok (minimum_sizes l)" using ok by (simp add: dw_ok_def)
  have kx: "\<exists>t. (sx, t) \<in> set (roots l) \<and> x \<in> set (window_ids t)"
    using x by (simp add: dwindle_space_for_iff [OF ok] owned_def)
  have min2: "map_of (minimum_sizes l2) = (map_of (minimum_sizes l))(x := None)"
    using kx by (auto simp: l2_def l1_def map_of_remove_minimum elim: dwindle_remove_present [OF ok])
  define l' where "l' = restore_minimum l2 x (map_of (minimum_sizes l) x)"
  have "dwindle_move_beside l x target d = (l', True)"
    using assms(4) x target tree(3)
    by (simp add: dwindle_move_beside_def dwindle.contains_law [OF ok] Let_def l1_def [symmetric] split
        l2_def [symmetric] l'_def find_map_of option.map_comp comp_def option.map_ident)
  moreover have "roots l' = roots l2" by (simp add: l'_def restore_minimum_def split: option.split)
  moreover have "sizes_ok (minimum_sizes l')"
    using sizes_ok_update [of "minimum_sizes l2"] ok2 by (simp add: l'_def restore_minimum_def dw_ok_def split: option.split)
  moreover have "ids_at l2 st = window_ids tree'"
    by (simp add: ids_at_def l2_def AList.update_conv')
  ultimately show thesis
    using that [of l'] ok2 space2 restore_minimum_map_of [OF sizes min2] ids' ids_tree ids1
    by (simp add: dw_ok_def l'_def [symmetric] ids_at_def dwindle_space_for_def dwindle_find_def fun_eq_iff)
qed

section \<open>The layout implements a map from windows to spaces\<close>

lemma arrange_windows: "map placed_window (node_arrange n g gap ms) = window_ids n"
  by (induction n arbitrary: g) (simp_all add: Let_def split: prod.split)

lemma dwindle_arrange_windows: "map placed_window (dwindle_arrange l space area gap) = ids_at l space"
  by (simp add: dwindle_arrange_def ids_at_def arrange_windows split: option.split)

datatype 'w layout_op = Insert "'w layout_insertion" | Remove 'w | Clear | MoveToSpace 'w layout_space
  | Rebuild "'w layout_insertion list" | SetMinimum 'w layout_size | Swap 'w 'w
  | MoveBeside 'w 'w layout_direction
  | Resize 'w rectangle int f64 f64 resize_edges
  | KeyboardResize 'w rectangle int layout_axis size_change

fun dwindle_step :: "'w dwindle_layout \<Rightarrow> 'w layout_op \<Rightarrow> 'w dwindle_layout" where
  "dwindle_step l (Insert i) = dwindle_insert l i"
| "dwindle_step l (Remove x) = fst (dwindle_remove l x)"
| "dwindle_step l Clear = dwindle_clear l"
| "dwindle_step l (MoveToSpace x space) = fst (move_to_space dwindle_insert dwindle_space_for l x space)"
| "dwindle_step l (Rebuild is) = rebuild dwindle_clear dwindle_insert l is"
| "dwindle_step l (SetMinimum x m) = fst (dwindle_update_minimum_size l x m)"
| "dwindle_step l (Swap a b) = fst (dwindle_swap l a b)"
| "dwindle_step l (MoveBeside x target d) = fst (dwindle_move_beside l x target d)"
| "dwindle_step l (Resize x area gap dx dy edges) = fst (dwindle_resize l x area gap dx dy edges)"
| "dwindle_step l (KeyboardResize x area gap axis change) =
     fst (dwindle_resize_from_keyboard l x area gap axis change)"

text \<open>What the frontend relies on: the space of every managed window.\<close>

fun space_step :: "('w \<rightharpoonup> layout_space) \<Rightarrow> 'w layout_op \<Rightarrow> ('w \<rightharpoonup> layout_space)" where
  "space_step m (Insert i) = m(ins_window i \<mapsto> ins_space i)"
| "space_step m (Remove x) = m(x := None)"
| "space_step m Clear = Map.empty"
| "space_step m (MoveToSpace x space) = (if m x = None then m else m(x \<mapsto> space))"
| "space_step m (Rebuild is) = map_of (rev (map (\<lambda>i. (ins_window i, ins_space i)) is))"
| "space_step m (Swap a b) = (if m a = None \<or> m b = None then m else m(a := m b, b := m a))"
| "space_step m (MoveBeside x target d) = (if m x = None \<or> m target = None then m else m(x := m target))"
| "space_step m _ = m"

lemma dwindle_move_beside_space:
  assumes "dw_ok l"
  shows "dw_ok (fst (dwindle_move_beside l x target d)) \<and>
    dwindle_space_for (fst (dwindle_move_beside l x target d)) =
      space_step (dwindle_space_for l) (MoveBeside x target d)"
proof (cases "x \<noteq> target \<and> dwindle_space_for l x \<noteq> None \<and> dwindle_space_for l target \<noteq> None")
  case True
  then obtain sx st where "dwindle_space_for l x = Some sx" "dwindle_space_for l target = Some st" "x \<noteq> target"
    by blast
  then show ?thesis by (auto elim: dwindle_move_beside_law [OF assms, of x sx target st d])
next
  case False
  then show ?thesis using assms by (auto simp: dwindle_move_beside_def dwindle.contains_law [OF assms])
qed

lemma dwindle_step_refines:
  assumes "dw_ok l"
  shows "dw_ok (dwindle_step l op) \<and> dwindle_space_for (dwindle_step l op) = space_step (dwindle_space_for l) op"
proof (cases op)
  case (Swap a b)
  then show ?thesis using dwindle_swap_law [OF assms, of a b] by (auto simp: fun_eq_iff)
next
  case (Rebuild "is")
  then show ?thesis using dwindle.rebuild_correct [OF assms] by simp
next
  case (MoveToSpace x space)
  then show ?thesis using dwindle.move_to_space_correct [OF assms, of x space] by simp
next
  case (Remove x)
  then show ?thesis using dwindle_remove_law [OF assms, of x] by simp
qed (use assms dwindle_insert_law dwindle_move_beside_space dwindle_resize_law
    dwindle_keyboard_law dwindle_update_minimum_law dwindle.clear_law in \<open>simp_all del: space_step.simps(7)\<close>)

lemma dwindle_run_refines:
  "dw_ok (foldl dwindle_step Dwindle_default ops) \<and>
   dwindle_space_for (foldl dwindle_step Dwindle_default ops) = foldl space_step Map.empty ops"
proof (induction ops rule: rev_induct)
  case Nil
  show ?case by (auto simp: Dwindle_default_def dwindle_space_for_def dwindle_find_def fun_eq_iff dw_ok_def)
next
  case (snoc op ops)
  then show ?case using dwindle_step_refines [of "foldl dwindle_step Dwindle_default ops" op] by simp
qed

text \<open>
  Claim C37 (a window is tiled exactly once, on the space it was put). After every sequence of insertions,
  removals, moves, swaps, resizes, rebuilds and minimum size changes, the layout answers for each window the
  space that a plain map would hold, arranging a space places each of its windows exactly once and no other
  window, and every split ratio stays between a tenth and nine tenths.
\<close>
theorem dwindle_implements_the_space_map:
  "dwindle_space_for (foldl dwindle_step Dwindle_default ops) = foldl space_step Map.empty ops \<and>
   distinct (map placed_window (dwindle_arrange (foldl dwindle_step Dwindle_default ops) space area gap)) \<and>
   placed_window ` set (dwindle_arrange (foldl dwindle_step Dwindle_default ops) space area gap) =
     {x. foldl space_step Map.empty ops x = Some space} \<and>
   list_all (\<lambda>(space, tree). ratios_ok tree) (roots (foldl dwindle_step Dwindle_default ops))"
proof -
  define l where "l = foldl dwindle_step Dwindle_default ops"
  have ok: "dw_ok l" and space: "dwindle_space_for l = foldl space_step Map.empty ops"
    using dwindle_run_refines [of ops] by (simp_all add: l_def)
  have "distinct (ids_at l space)" "set (ids_at l space) = {x. dwindle_space_for l x = Some space}"
    using ids_at_distinct [OF ok] ids_at_iff [OF ok] by auto
  then show ?thesis
    unfolding l_def [symmetric] set_map [symmetric] dwindle_arrange_windows space [symmetric]
    using ok by (simp add: dw_ok_def list_all_iff)
qed

text \<open>
  A dropped window lands where the preview promised. In every reachable layout, moving a managed
  window beside another one succeeds, so the rollback branch is never taken. The window joins the target's
  space right before or right behind the target as the direction says, the other windows keep their order,
  and no window's minimum size changes.
\<close>
lemma moved_window_stands_beside_its_target:
  assumes "l = foldl dwindle_step Dwindle_default ops" "x \<noteq> target"
    and "dwindle_contains l x" "dwindle_space_for l target = Some space"
  shows "\<exists>l'. dwindle_move_beside l x target d = (l', True) \<and> dwindle_space_for l' x = Some space \<and>
    map placed_window (dwindle_arrange l' space area gap) =
      insert_beside (inserts_first d) target x (remove1 x (map placed_window (dwindle_arrange l space area gap))) \<and>
    layout_minimum_size (minimum_sizes l') = layout_minimum_size (minimum_sizes l)"
proof -
  have ok: "dw_ok l" using dwindle_run_refines assms(1) by blast
  then obtain sx where sx: "dwindle_space_for l x = Some sx"
    using assms(3) by (auto simp: dwindle.contains_law)
  obtain l' where "dwindle_move_beside l x target d = (l', True)" "dwindle_space_for l' = (dwindle_space_for l)(x \<mapsto> space)"
    "ids_at l' space = insert_beside (inserts_first d) target x (remove1 x (ids_at l space))"
    "map_of (minimum_sizes l') = map_of (minimum_sizes l)"
    by (rule dwindle_move_beside_law [OF ok sx assms(4,2)])
  then show ?thesis by (auto simp: dwindle_arrange_windows minimum_map_of fun_eq_iff)
qed

end
