(* ===== verification/Dwindle_Tiling.thy ===== *)
theory Dwindle_Tiling
  imports Dwindle_Layout
begin

text \<open>
  The geometry of the dwindle layout (\<open>minimum_size\<close>, \<open>arrange\<close> and \<open>retain_split_axes\<close> of
  \<^verbatim>\<open>window_layout.rs\<close>). \<open>node_fits\<close> is the executable condition that no split of a tree runs out of room;
  under it the tiles are disjoint parts of the work area, and they cover it when there is no gap. A tree
  whose axes are pinned has a minimum size that does not depend on the geometry, and it fits whenever that
  minimum does.
\<close>

section \<open>Room\<close>

definition pixels :: "rectangle \<Rightarrow> (int \<times> int) set" where
  "pixels g = {loc_x g ..< loc_x g + size_w g} \<times> {loc_y g ..< loc_y g + size_h g}"

definition valid_area :: "rectangle \<Rightarrow> bool" where
  "valid_area g \<longleftrightarrow> i32_min \<le> loc_x g \<and> loc_x g + size_w g \<le> i32_max \<and> 1 \<le> size_w g \<and> size_w g < i32_max \<and>
     i32_min \<le> loc_y g \<and> loc_y g + size_h g \<le> i32_max \<and> 1 \<le> size_h g \<and> size_h g < i32_max"

fun room :: "layout_axis \<Rightarrow> rectangle \<Rightarrow> int \<Rightarrow> layout_size \<Rightarrow> layout_size \<Rightarrow> bool" where
  "room Horizontal g gap m1 m2 \<longleftrightarrow> max (min_w m1) 1 + gap + max (min_w m2) 1 \<le> size_w g \<and>
     min_h m1 \<le> size_h g \<and> min_h m2 \<le> size_h g"
| "room Vertical g gap m1 m2 \<longleftrightarrow> max (min_h m1) 1 + gap + max (min_h m2) 1 \<le> size_h g \<and>
     min_w m1 \<le> size_w g \<and> min_w m2 \<le> size_w g"

fun node_fits :: "'w dwindle_node \<Rightarrow> rectangle \<Rightarrow> int \<Rightarrow> ('w \<times> layout_size) list \<Rightarrow> bool" where
  "node_fits (Window x) g gap ms = True"
| "node_fits (Split axis ratio first second) g gap ms =
     (let axis = resolved_split_axis axis g;
          (u1, u2) = split_geometry_on_axis g gap ratio axis;
          (g1, g2) = child_geometries axis ratio first second g gap ms
      in room axis g gap (minimum_size first u1 gap ms) (minimum_size second u2 gap ms) \<and>
         node_fits first g1 gap ms \<and> node_fits second g2 gap ms)"

text \<open>Tiles apart: a gap of at least \<open>gap\<close> pixels along one axis.\<close>

definition apart :: "int \<Rightarrow> rectangle \<Rightarrow> rectangle \<Rightarrow> bool" where
  "apart gap a b \<longleftrightarrow> loc_x a + size_w a + gap \<le> loc_x b \<or> loc_x b + size_w b + gap \<le> loc_x a \<or>
     loc_y a + size_h a + gap \<le> loc_y b \<or> loc_y b + size_h b + gap \<le> loc_y a"

definition inside :: "rectangle \<Rightarrow> rectangle \<Rightarrow> bool" where
  "inside a g \<longleftrightarrow> loc_x g \<le> loc_x a \<and> loc_x a + size_w a \<le> loc_x g + size_w g \<and>
     loc_y g \<le> loc_y a \<and> loc_y a + size_h a \<le> loc_y g + size_h g"

lemma inside_trans: "inside a b \<Longrightarrow> inside b c \<Longrightarrow> inside a c"
  by (auto simp: inside_def)

lemma apart_inside: "apart gap a b \<Longrightarrow> inside a' a \<Longrightarrow> inside b' b \<Longrightarrow> apart gap a' b'"
  unfolding apart_def inside_def by linarith

lemma split_extents_room:
  assumes "split_extents e gap r m1 m2 = (a, h, b)" "e < i32_max" "0 \<le> gap"
    and "max m1 1 + gap + max m2 1 \<le> e"
  shows "h = gap" "a + gap + b = e" "max m1 1 \<le> a" "max m2 1 \<le> b"
proof -
  have "h = gap \<and> a + gap + b = e \<and> max m1 1 \<le> a \<and> max m2 1 \<le> b"
  proof (rule split_extents_cases [OF assms(1,2)])
    fix avail
    assume avail: "avail = max e 2 - h" and h: "h = clamp32 gap 0 (max e 2 - 2)"
      and fit: "max m1 1 + max m2 1 \<le> avail \<Longrightarrow> max m1 1 \<le> a \<and> max m2 1 \<le> b \<and> a + b = avail"
    have e: "2 + gap \<le> e" using assms(3,4) by linarith
    then have "h = gap" using assms(3) by (simp add: h clamp32_def max_def)
    moreover have "avail = e - gap" using e assms(3) \<open>h = gap\<close> by (simp add: avail max_def)
    ultimately show ?thesis using fit assms(4) by linarith
  qed
  then show "h = gap" "a + gap + b = e" "max m1 1 \<le> a" "max m2 1 \<le> b" by blast+
qed

lemma sat32_sum:
  assumes "i32_min \<le> l" "l + e \<le> i32_max" "a + gap + b = e" "0 \<le> a" "0 \<le> gap" "0 \<le> b"
  shows "sat32 (sat32 (l + a) + gap) = l + a + gap"
  using assms by (simp add: sat32_id)

lemma split_with_room:
  assumes "split_geometry_on_axis_with_minimums g gap ratio m1 m2 axis = (g1, g2)"
    and "valid_area g" "0 \<le> gap" "room axis g gap m1 m2"
  shows "valid_area g1 \<and> valid_area g2 \<and> inside g1 g \<and> inside g2 g \<and> apart gap g1 g2 \<and>
    (min_w m1 \<le> size_w g1 \<and> min_h m1 \<le> size_h g1 \<and> min_w m2 \<le> size_w g2 \<and> min_h m2 \<le> size_h g2) \<and>
    (gap = 0 \<longrightarrow> pixels g = pixels g1 \<union> pixels g2)"
proof (cases axis)
  case Horizontal
  obtain a h b where e: "split_extents (size_w g) gap ratio (min_w m1) (min_w m2) = (a, h, b)" by (metis prod_cases3)
  have g: "size_w g < i32_max" "i32_min \<le> loc_x g" "loc_x g + size_w g \<le> i32_max"
    using assms(2) by (simp_all add: valid_area_def)
  have r: "max (min_w m1) 1 + gap + max (min_w m2) 1 \<le> size_w g" "min_h m1 \<le> size_h g" "min_h m2 \<le> size_h g"
    using assms(4) Horizontal by simp_all
  note ext = split_extents_room [OF e g(1) assms(3) r(1)]
  have "1 \<le> a" "1 \<le> b" "min_w m1 \<le> a" "min_w m2 \<le> b" using ext by simp_all
  moreover have "sat32 (sat32 (loc_x g + a) + gap) = loc_x g + a + gap"
    by (rule sat32_sum [OF g(2,3) ext(2)]) (use calculation assms(3) in simp_all)
  then have "g1 = g\<lparr>size_w := a\<rparr>" "g2 = g\<lparr>loc_x := loc_x g + a + gap, size_w := b\<rparr>"
    using assms(1) Horizontal r(2,3) ext(1) by (auto simp: split_geometry_on_axis_with_minimums_def e max_absorb1)
  ultimately show ?thesis
    using assms(2,3) ext(2) r by (auto simp: valid_area_def inside_def apart_def pixels_def)
next
  case Vertical
  obtain a h b where e: "split_extents (size_h g) gap ratio (min_h m1) (min_h m2) = (a, h, b)" by (metis prod_cases3)
  have g: "size_h g < i32_max" "i32_min \<le> loc_y g" "loc_y g + size_h g \<le> i32_max"
    using assms(2) by (simp_all add: valid_area_def)
  have r: "max (min_h m1) 1 + gap + max (min_h m2) 1 \<le> size_h g" "min_w m1 \<le> size_w g" "min_w m2 \<le> size_w g"
    using assms(4) Vertical by simp_all
  note ext = split_extents_room [OF e g(1) assms(3) r(1)]
  have "1 \<le> a" "1 \<le> b" "min_h m1 \<le> a" "min_h m2 \<le> b" using ext by simp_all
  moreover have "sat32 (sat32 (loc_y g + a) + gap) = loc_y g + a + gap"
    by (rule sat32_sum [OF g(2,3) ext(2)]) (use calculation assms(3) in simp_all)
  then have "g1 = g\<lparr>size_h := a\<rparr>" "g2 = g\<lparr>loc_y := loc_y g + a + gap, size_h := b\<rparr>"
    using assms(1) Vertical r(2,3) ext(1) by (auto simp: split_geometry_on_axis_with_minimums_def e max_absorb1)
  ultimately show ?thesis
    using assms(2,3) ext(2) r by (auto simp: valid_area_def inside_def apart_def pixels_def)
qed

section \<open>Trees that fit\<close>

lemma resolved_Some [simp]: "resolved_split_axis (Some a) g = a"
  by (simp add: resolved_split_axis_def)

definition at_least :: "layout_size \<Rightarrow> rectangle \<Rightarrow> bool" where
  "at_least m g \<longleftrightarrow> min_w m \<le> size_w g \<and> min_h m \<le> size_h g"

definition tiles_ok :: "int \<Rightarrow> rectangle \<Rightarrow> 'w layout_placement list \<Rightarrow> bool" where
  "tiles_ok gap g ps \<longleftrightarrow> (\<forall>p \<in> set ps. inside (placed_geometry p) g) \<and>
     sorted_wrt (\<lambda>p q. apart gap (placed_geometry p) (placed_geometry q)) ps \<and>
     (gap = 0 \<longrightarrow> (\<Union>p \<in> set ps. pixels (placed_geometry p)) = pixels g)"

lemma tiles_ok_append:
  assumes "tiles_ok gap g1 ps" "tiles_ok gap g2 qs" "inside g1 g" "inside g2 g" "apart gap g1 g2"
    and "gap = 0 \<Longrightarrow> pixels g = pixels g1 \<union> pixels g2"
  shows "tiles_ok gap g (ps @ qs)"
proof -
  have in1: "inside (placed_geometry p) g1" if "p \<in> set ps" for p using assms(1) that by (simp add: tiles_ok_def)
  have in2: "inside (placed_geometry p) g2" if "p \<in> set qs" for p using assms(2) that by (simp add: tiles_ok_def)
  have "inside (placed_geometry p) g" if "p \<in> set (ps @ qs)" for p
    using that in1 in2 inside_trans [OF _ assms(3)] inside_trans [OF _ assms(4)] by auto
  moreover have "apart gap (placed_geometry p) (placed_geometry q)" if "p \<in> set ps" "q \<in> set qs" for p q
    by (rule apart_inside [OF assms(5) in1 in2]) (use that in simp_all)
  ultimately show ?thesis
    using assms(1,2,6) by (simp add: tiles_ok_def sorted_wrt_append)
qed

fun leaf_at_least :: "'w dwindle_node \<Rightarrow> rectangle \<Rightarrow> ('w \<times> layout_size) list \<Rightarrow> bool" where
  "leaf_at_least (Window x) g ms = at_least (layout_minimum_size ms x) g"
| "leaf_at_least (Split _ _ _ _) g ms = True"

lemma leaf_at_least_minimum: "at_least (minimum_size n u gap ms) g \<Longrightarrow> leaf_at_least n g ms"
  by (cases n) simp_all

lemma fitting_tiles:
  "node_fits n g gap ms \<Longrightarrow> valid_area g \<Longrightarrow> 0 \<le> gap \<Longrightarrow>
     tiles_ok gap g (node_arrange n g gap ms) \<and>
     (leaf_at_least n g ms \<longrightarrow> (\<forall>p \<in> set (node_arrange n g gap ms).
        at_least (layout_minimum_size ms (placed_window p)) (placed_geometry p)))"
proof (induction n arbitrary: g)
  case (Window x)
  then show ?case by (simp add: tiles_ok_def inside_def)
next
  case (Split axis ratio first second)
  let ?a = "resolved_split_axis axis g"
  obtain u1 u2 where u: "split_geometry_on_axis g gap ratio ?a = (u1, u2)" by fastforce
  obtain g1 g2 where c: "child_geometries ?a ratio first second g gap ms = (g1, g2)" by fastforce
  have split: "split_geometry_on_axis_with_minimums g gap ratio (minimum_size first u1 gap ms)
      (minimum_size second u2 gap ms) ?a = (g1, g2)"
    using c by (simp add: child_geometries_def u)
  have fits: "room ?a g gap (minimum_size first u1 gap ms) (minimum_size second u2 gap ms)"
    "node_fits first g1 gap ms" "node_fits second g2 gap ms"
    using Split.prems(1) by (simp_all add: Let_def u c)
  note r = split_with_room [OF split Split.prems(2,3) fits(1)]
  have "leaf_at_least first g1 ms" "leaf_at_least second g2 ms"
    using r leaf_at_least_minimum [of first u1 gap ms g1] leaf_at_least_minimum [of second u2 gap ms g2]
    by (simp_all add: at_least_def)
  with Split.IH(1) [OF fits(2)] Split.IH(2) [OF fits(3)] r Split.prems(3) show ?case
    by (auto simp: Let_def c intro: tiles_ok_append)
qed

section \<open>Pinned trees\<close>

fun pinned :: "'w dwindle_node \<Rightarrow> bool" where
  "pinned (Window _) = True"
| "pinned (Split axis _ first second) = (axis \<noteq> None \<and> pinned first \<and> pinned second)"

lemma retain_split_axes_pinned: "pinned (retain_split_axes n g gap ms)"
  by (induction n arbitrary: g) (simp_all add: Let_def split: prod.split)

lemma minimum_size_pinned: "pinned n \<Longrightarrow> minimum_size n g gap ms = minimum_size n g' gap ms"
proof (induction n arbitrary: g g')
  case (Window x)
  then show ?case by simp
next
  case (Split axis ratio first second)
  then obtain a where a: "axis = Some a" by auto
  obtain u1 u2 where u: "split_geometry_on_axis g gap ratio a = (u1, u2)" by fastforce
  obtain v1 v2 where v: "split_geometry_on_axis g' gap ratio a = (v1, v2)" by fastforce
  have "minimum_size first u1 gap ms = minimum_size first v1 gap ms"
    "minimum_size second u2 gap ms = minimum_size second v2 gap ms"
    using Split.IH(1) [of u1 v1] Split.IH(2) [of u2 v2] Split.prems by simp_all
  then show ?case using u v by (cases a) (simp_all add: a Let_def)
qed

lemma minimum_size_pos:
  "sizes_ok ms \<Longrightarrow> 0 \<le> gap \<Longrightarrow> 1 \<le> min_w (minimum_size n g gap ms) \<and> 1 \<le> min_h (minimum_size n g gap ms)"
proof (induction n arbitrary: g)
  case (Window x)
  then show ?case using sizes_ok_map_of [of ms x] by (simp add: minimum_map_of split: option.split)
next
  case (Split axis ratio first second)
  have sat: "1 \<le> sat32 (sat32 (a + gap) + b)" if "1 \<le> a" "1 \<le> b" for a b
    using that Split.prems(2) by (simp add: sat32_def i32_min_def i32_max_def)
  obtain u1 u2 where u: "split_geometry_on_axis g gap ratio (resolved_split_axis axis g) = (u1, u2)" by fastforce
  show ?case
    using Split.IH(1) [OF Split.prems, of u1] Split.IH(2) [OF Split.prems, of u2] Split.prems(2) sat
    by (simp add: Let_def u max_absorb1 le_max_iff_disj split: layout_axis.split)
qed

lemma sat32_sum_le: "0 \<le> gap \<Longrightarrow> 1 \<le> a \<Longrightarrow> 1 \<le> b \<Longrightarrow> sat32 (sat32 (a + gap) + b) \<le> e \<Longrightarrow> e < i32_max \<Longrightarrow> a + gap + b \<le> e"
  by (simp add: sat32_def i32_min_def split: if_splits)

lemma pinned_fits:
  "pinned n \<Longrightarrow> sizes_ok ms \<Longrightarrow> 0 \<le> gap \<Longrightarrow> valid_area g \<Longrightarrow> at_least (minimum_size n g gap ms) g \<Longrightarrow>
     node_fits n g gap ms"
proof (induction n arbitrary: g)
  case (Window x)
  then show ?case by simp
next
  case (Split axis ratio first second)
  then obtain a where a: "axis = Some a" by auto
  have res: "resolved_split_axis axis g = a" by (simp add: a)
  obtain u1 u2 where u: "split_geometry_on_axis g gap ratio a = (u1, u2)" by fastforce
  obtain g1 g2 where c: "child_geometries a ratio first second g gap ms = (g1, g2)" by fastforce
  let ?m1 = "minimum_size first u1 gap ms" and ?m2 = "minimum_size second u2 gap ms"
  have split: "split_geometry_on_axis_with_minimums g gap ratio ?m1 ?m2 a = (g1, g2)"
    using c by (simp add: child_geometries_def u)
  have pos: "1 \<le> min_w ?m1" "1 \<le> min_h ?m1" "1 \<le> min_w ?m2" "1 \<le> min_h ?m2"
    using minimum_size_pos [OF Split.prems(2,3)] by blast+
  have small: "size_w g < i32_max" "size_h g < i32_max" using Split.prems(4) by (simp_all add: valid_area_def)
  have room: "room a g gap ?m1 ?m2"
  proof (cases a)
    case Horizontal
    have "sat32 (sat32 (min_w ?m1 + gap) + min_w ?m2) \<le> size_w g" "max (min_h ?m1) (min_h ?m2) \<le> size_h g"
      using Split.prems(3,5) Horizontal by (simp_all add: Let_def u [unfolded Horizontal] a at_least_def max_absorb1)
    with sat32_sum_le [OF Split.prems(3) pos(1,3) _ small(1)] pos Horizontal show ?thesis
      by (simp add: max_absorb1)
  next
    case Vertical
    have "sat32 (sat32 (min_h ?m1 + gap) + min_h ?m2) \<le> size_h g" "max (min_w ?m1) (min_w ?m2) \<le> size_w g"
      using Split.prems(3,5) Vertical by (simp_all add: Let_def u [unfolded Vertical] a at_least_def max_absorb1)
    with sat32_sum_le [OF Split.prems(3) pos(2,4) _ small(2)] pos Vertical show ?thesis
      by (simp add: max_absorb1)
  qed
  note r = split_with_room [OF split Split.prems(4,3) room]
  have "pinned first" "pinned second" using Split.prems(1) by simp_all
  then have "node_fits first g1 gap ms" "node_fits second g2 gap ms"
    using Split.IH(1) [of g1] Split.IH(2) [of g2] Split.prems(2,3) r
      minimum_size_pinned [of first u1 gap ms g1] minimum_size_pinned [of second u2 gap ms g2]
    by (simp_all add: at_least_def)
  with room show ?case by (simp add: res Let_def u c)
qed

section \<open>The work area\<close>

text \<open>
  Claim C38 (the tiles divide the work area). Let the tree of a space fit into the work area: no split runs
  out of room, or the axes are pinned, as keyboard resizing leaves them, and the minimum size of the tree is
  not larger than the area. Then every tile lies inside the work area, any two tiles are at least the gap
  apart, without a gap the tiles cover the area completely, and with two windows or more each tile is at
  least as large as the minimum size of its window.
\<close>
theorem tiles_divide_the_work_area:
  assumes "l = foldl dwindle_step Dwindle_default ops" "map_of (roots l) space = Some tree" "valid_area area"
    and "node_fits tree area (max gap 0) (minimum_sizes l) \<or>
         pinned tree \<and> at_least (minimum_size tree area (max gap 0) (minimum_sizes l)) area"
  shows "(\<forall>p \<in> set (dwindle_arrange l space area gap). inside (placed_geometry p) area \<and>
            (2 \<le> leaf_count tree \<longrightarrow>
               at_least (layout_minimum_size (minimum_sizes l) (placed_window p)) (placed_geometry p))) \<and>
         sorted_wrt (\<lambda>p q. apart (max gap 0) (placed_geometry p) (placed_geometry q))
           (dwindle_arrange l space area gap) \<and>
         (gap \<le> 0 \<longrightarrow> (\<Union>p \<in> set (dwindle_arrange l space area gap). pixels (placed_geometry p)) = pixels area)"
proof -
  have "sizes_ok (minimum_sizes l)" using dwindle_run_refines [of ops] assms(1) by (simp add: dw_ok_def)
  then have fits: "node_fits tree area (max gap 0) (minimum_sizes l)"
    using assms(3,4) pinned_fits [of tree "minimum_sizes l" "max gap 0" area] by auto
  have "leaf_at_least tree area (minimum_sizes l)" if "2 \<le> leaf_count tree" using that by (cases tree) simp_all
  with fitting_tiles [OF fits assms(3)] show ?thesis
    by (auto simp: dwindle_arrange_def assms(2) tiles_ok_def max_absorb2)
qed

theorem tiles_divide_the_work_area_witness:
  "(\<Union>p \<in> set (dwindle_arrange (foldl dwindle_step Dwindle_default
       [Insert \<lparr>ins_window = 1 :: nat, ins_space = \<lparr>space_output = 1, space_workspace = 0\<rparr>, ins_anchor = None\<rparr>,
        Insert \<lparr>ins_window = 2, ins_space = \<lparr>space_output = 1, space_workspace = 0\<rparr>, ins_anchor = None\<rparr>])
       \<lparr>space_output = 1, space_workspace = 0\<rparr> \<lparr>loc_x = 0, loc_y = 0, size_w = 1920, size_h = 1080\<rparr> 0).
       pixels (placed_geometry p)) = pixels \<lparr>loc_x = 0, loc_y = 0, size_w = 1920, size_h = 1080\<rparr>"
proof -
  let ?s = "\<lparr>space_output = 1, space_workspace = 0\<rparr>" and ?g = "\<lparr>loc_x = 0, loc_y = 0, size_w = 1920, size_h = 1080\<rparr>"
  let ?t = "Split None (f64_literal (1 / 2)) (Window 1) (Window (2 :: nat))"
  let ?l = "foldl dwindle_step Dwindle_default [Insert \<lparr>ins_window = 1 :: nat, ins_space = ?s, ins_anchor = None\<rparr>,
     Insert \<lparr>ins_window = 2, ins_space = ?s, ins_anchor = None\<rparr>]"
  have tree: "map_of (roots ?l) ?s = Some ?t" and sizes: "minimum_sizes ?l = []"
    by (simp_all add: dwindle_insert_def dwindle_remove_def dwindle_find_def Dwindle_default_def)
  have area: "valid_area ?g" by (simp add: valid_area_def i32_min_def i32_max_def)
  have "node_fits ?t ?g (max 0 0) (minimum_sizes ?l)"
    unfolding sizes by (simp add: Let_def case_prod_unfold resolved_split_axis_def layout_minimum_size_def)
  from tiles_divide_the_work_area [OF refl tree area disjI1 [OF this]] show ?thesis by blast
qed

end
