(* ===== verification/Scrolling_Row.thy ===== *)
theory Scrolling_Row
  imports Dwindle_Layout
begin

text \<open>
  One row of the scrolling layout (\<open>ScrollingColumn\<close> and \<open>ScrollingRow\<close> of \<^verbatim>\<open>window_layout.rs\<close>): a strip of
  columns along an axis, each with a split tree of windows, seen through a viewport whose start is a double.
  An index into the columns comes from \<open>row_position\<close> or \<open>active_index\<close>; \<open>row_position_less\<close> and
  \<open>active_index_less\<close> show that it is in range. The strip arithmetic saturates at \<open>i64\<close>, except for the sum
  of the widths and the product of the gaps, which stay below \<open>2^63\<close> for every strip that fits in memory.
\<close>

section \<open>Columns\<close>

record 'w scrolling_column =
  cross_extent :: "int option"
  col_root :: "'w dwindle_node"
  col_active :: 'w
  width_fraction :: f64
  maximized :: bool

record 'w extracted_leaf =
  ex_window :: 'w
  ex_width_fraction :: f64
  ex_cross_extent :: "int option"
  ex_maximized :: bool

record view_snapshot =
  snap_axis :: layout_axis
  snap_extent :: int
  snap_gap :: int
  snap_start :: "f64 option"

definition DEFAULT_COLUMN_FRACTION :: f64 where
  "DEFAULT_COLUMN_FRACTION = f64_literal (3 / 5)"

definition MIN_COLUMN_FRACTION :: f64 where
  "MIN_COLUMN_FRACTION = f64_literal (1 / 4)"

definition column_single :: "'w \<Rightarrow> f64 \<Rightarrow> 'w scrolling_column" where
  "column_single window fraction = \<lparr>cross_extent = None, col_root = Window window, col_active = window,
     width_fraction = fraction, maximized = False\<rparr>"

definition column_contains :: "'w scrolling_column \<Rightarrow> 'w \<Rightarrow> bool" where
  "column_contains c window = node_contains (col_root c) window"

definition column_split_window_beside ::
  "'w scrolling_column \<Rightarrow> 'w \<Rightarrow> 'w \<Rightarrow> layout_direction \<Rightarrow> 'w scrolling_column \<times> bool" where
  "column_split_window_beside c target window direction =
     (let (tree, inserted) = split_window_beside (col_root c) target window direction;
          c = c\<lparr>col_root := tree\<rparr>
      in (if inserted then c\<lparr>cross_extent := None\<rparr> else c, inserted))"

fun cross_axis :: "layout_axis \<Rightarrow> layout_axis" where
  "cross_axis Horizontal = Vertical"
| "cross_axis Vertical = Horizontal"

definition bounded_cross_extent ::
  "'w scrolling_column \<Rightarrow> rectangle \<Rightarrow> layout_axis \<Rightarrow> int \<Rightarrow> ('w \<times> layout_size) list \<Rightarrow> ('w \<times> layout_size) list \<Rightarrow>
     int" where
  "bounded_cross_extent c g axis requested mins maxs =
     (let cross = cross_axis axis;
          minimum = max (main_size cross (layout_minimum_size mins (col_active c))) 1;
          maximum = (case find (\<lambda>(window, _). window = col_active c) maxs of
              None \<Rightarrow> 0 | Some (_, m) \<Rightarrow> main_size cross m);
          available = max (main_extent cross g) 1;
          upper = (if 0 < maximum then min available maximum else available)
      in clamp32 requested minimum (max upper minimum))"

definition column_geometry ::
  "'w scrolling_column \<Rightarrow> rectangle \<Rightarrow> layout_axis \<Rightarrow> ('w \<times> layout_size) list \<Rightarrow> ('w \<times> layout_size) list \<Rightarrow>
     rectangle" where
  "column_geometry c g axis mins maxs =
     (if maximized c \<or> leaf_count (col_root c) \<noteq> 1 then g
      else
        (let cross = cross_axis axis;
             extent = bounded_cross_extent c g axis
               (case cross_extent c of None \<Rightarrow> main_extent cross g | Some e \<Rightarrow> e) mins maxs
         in case cross of Horizontal \<Rightarrow> g\<lparr>size_w := extent\<rparr> | Vertical \<Rightarrow> g\<lparr>size_h := extent\<rparr>))"

definition resize_cross_axis ::
  "'w scrolling_column \<Rightarrow> size_change \<Rightarrow> rectangle \<Rightarrow> layout_axis \<Rightarrow> ('w \<times> layout_size) list \<Rightarrow>
     ('w \<times> layout_size) list \<Rightarrow> 'w scrolling_column \<times> bool" where
  "resize_cross_axis c change g axis mins maxs =
     (case change of
        Reset \<Rightarrow> (c\<lparr>cross_extent := None\<rparr>, cross_extent c \<noteq> None)
      | Adjust delta \<Rightarrow>
          if f64_is_finite delta \<and> delta \<noteq> Fin 0 then
            (let current = main_extent (cross_axis axis) (column_geometry c g axis mins maxs);
                 requested = f64_to_i32 (f64_clamp (f64_rounded (f64_add (f64_from_i32 current) delta))
                   (f64_from_i32 1) (f64_from_i32 i32_max));
                 next = bounded_cross_extent c g axis requested mins maxs
             in if next = current then (c, False)
                else (c\<lparr>cross_extent := Some next\<rparr>, cross_extent c \<noteq> Some next))
          else (c, False))"

definition main_minimum ::
  "'w scrolling_column \<Rightarrow> rectangle \<Rightarrow> int \<Rightarrow> ('w \<times> layout_size) list \<Rightarrow> layout_axis \<Rightarrow> int \<Rightarrow> int" where
  "main_minimum c work_area gap mins axis requested_extent =
     (let g = tile_geometry axis work_area (main_location axis work_area) (max requested_extent 1)
      in max (main_size axis (minimum_size (col_root c) g gap mins)) 1)"

section \<open>Rows\<close>

record 'w scrolling_row =
  columns :: "'w scrolling_column list"
  row_active :: "'w option"
  row_axis :: layout_axis
  viewport_extent :: int
  viewport_gap :: int
  view_start :: "f64 option"
  maximize_area :: "rectangle option"
  view_to_restore :: "view_snapshot option"
  scroll_origin :: "f64 option"
  needs_reveal :: bool
  preview_view_locked :: bool
  resize_view_anchored :: bool

definition row_empty :: "'w scrolling_row" where
  "row_empty = \<lparr>columns = [], row_active = None, row_axis = Horizontal, viewport_extent = 0, viewport_gap = 0,
     view_start = None, maximize_area = None, view_to_restore = None, scroll_origin = None,
     needs_reveal = True, preview_view_locked = False, resize_view_anchored = False\<rparr>"

definition row_position :: "'w scrolling_row \<Rightarrow> 'w \<Rightarrow> nat option" where
  "row_position r window = position (\<lambda>c. column_contains c window) (columns r)"

definition requested_width :: "'w scrolling_column \<Rightarrow> int \<Rightarrow> int \<Rightarrow> int" where
  "requested_width c work_width maximize_width =
     (if maximized c then maximize_width
      else f64_to_i64 (f64_clamp (f64_rounded (f64_mul (f64_from_i32 work_width) (width_fraction c)))
        (f64_from_i32 1) (f64_from_i32 work_width)))"

definition widths ::
  "'w scrolling_row \<Rightarrow> rectangle \<Rightarrow> int \<Rightarrow> ('w \<times> layout_size) list \<Rightarrow> layout_axis \<Rightarrow> int list" where
  "widths r work_area gap mins axis =
     (let work_width = max (main_extent axis work_area) 1;
          maximize_width = (case maximize_area r of None \<Rightarrow> work_width | Some area \<Rightarrow> max (main_extent axis area) 1)
      in map (\<lambda>c.
           (let requested = requested_width c work_width maximize_width
            in max requested (main_minimum c work_area gap mins axis (clamp32 requested 1 i32_max))))
           (columns r))"

definition maximize_area_or :: "'w scrolling_row \<Rightarrow> rectangle \<Rightarrow> rectangle" where
  "maximize_area_or r work_area = (case maximize_area r of None \<Rightarrow> work_area | Some area \<Rightarrow> area)"

definition active_index :: "'w scrolling_row \<Rightarrow> nat" where
  "active_index r =
     (case Option.bind (row_active r) (row_position r) of Some i \<Rightarrow> i | None \<Rightarrow> length (columns r) - 1)"

definition active_view_area :: "'w scrolling_row \<Rightarrow> rectangle \<Rightarrow> rectangle" where
  "active_view_area r work_area =
     (if active_index r < length (columns r) \<and> maximized (columns r ! active_index r)
      then maximize_area_or r work_area else work_area)"

fun centers_from :: "int \<Rightarrow> int list \<Rightarrow> int \<Rightarrow> f64 list" where
  "centers_from column_start [] gap = []"
| "centers_from column_start (width # ws) gap =
     f64_from_i64 (sat64 (column_start + width div 2)) #
     centers_from (sat64 (sat64 (column_start + width) + gap)) ws gap"

definition centers :: "int list \<Rightarrow> int \<Rightarrow> f64 list" where
  "centers ws gap = centers_from 0 ws gap"

definition strip_extent :: "int list \<Rightarrow> int \<Rightarrow> f64" where
  "strip_extent ws gap = f64_from_i64 (sat64 (sum_list ws + int (length ws - 1) * gap))"

definition column_strip_start :: "int list \<Rightarrow> int \<Rightarrow> nat \<Rightarrow> f64" where
  "column_strip_start ws gap column_index =
     f64_from_i64 (foldl (\<lambda>x width. sat64 (sat64 (x + width) + gap)) 0 (take column_index ws))"

definition centered_view_start :: "int list \<Rightarrow> int \<Rightarrow> nat \<Rightarrow> int \<Rightarrow> f64" where
  "centered_view_start ws gap active extent =
     f64_sub (f64_add (column_strip_start ws gap active) (f64_div (f64_from_i64 (ws ! active)) (f64_from_i32 2)))
       (f64_div (f64_from_i32 extent) (f64_from_i32 2))"

definition constrain_view_start :: "f64 \<Rightarrow> f64 \<Rightarrow> int \<Rightarrow> f64" where
  "constrain_view_start start strip extent =
     (if f64_le strip (f64_from_i32 extent)
      then f64_clamp start (f64_sub strip (f64_from_i32 extent)) (Fin 0)
      else f64_clamp start (Fin 0) (f64_sub strip (f64_from_i32 extent)))"

definition reveal_active :: "f64 \<Rightarrow> int list \<Rightarrow> int \<Rightarrow> nat \<Rightarrow> int \<Rightarrow> f64" where
  "reveal_active start ws gap active extent =
     (let active_start = column_strip_start ws gap active;
          active_end = f64_add active_start (f64_from_i64 (ws ! active));
          viewport_end = f64_add start (f64_from_i32 extent)
      in if f64_less active_start start then active_start
         else if f64_less viewport_end active_end then f64_sub active_end (f64_from_i32 extent)
         else start)"

definition view_compatible :: "'w scrolling_row \<Rightarrow> layout_axis \<Rightarrow> int \<Rightarrow> int \<Rightarrow> bool" where
  "view_compatible r axis extent gap \<longleftrightarrow>
     row_axis r = axis \<and> viewport_extent r = extent \<and> viewport_gap r = gap \<and> view_start r \<noteq> None"

definition view_extent :: "'w scrolling_row \<Rightarrow> rectangle \<Rightarrow> layout_axis \<Rightarrow> int" where
  "view_extent r work_area axis = max (main_extent axis (active_view_area r work_area)) 1"

definition resolved_view_start ::
  "'w scrolling_row \<Rightarrow> rectangle \<Rightarrow> int \<Rightarrow> layout_axis \<Rightarrow> ('w \<times> layout_size) list \<Rightarrow> f64" where
  "resolved_view_start r work_area gap axis mins =
     (let extent = view_extent r work_area axis;
          ws = widths r work_area gap mins axis;
          active = active_index r;
          compatible = view_compatible r axis extent gap;
          start = (if compatible then (case view_start r of Some s \<Rightarrow> s | None \<Rightarrow> Fin 0)
                   else centered_view_start ws gap active extent)
      in if compatible \<and> (preview_view_locked r \<or> resize_view_anchored r \<and> \<not> needs_reveal r) then start
         else
           (let start = (if needs_reveal r \<and> compatible then reveal_active start ws gap active extent else start)
            in constrain_view_start start (strip_extent ws gap) extent))"

definition column_view_offset ::
  "'w scrolling_row \<Rightarrow> 'w \<Rightarrow> rectangle \<Rightarrow> int \<Rightarrow> layout_axis \<Rightarrow> ('w \<times> layout_size) list \<Rightarrow> f64 option" where
  "column_view_offset r window work_area gap axis mins =
     (case row_position r window of
        None \<Rightarrow> None
      | Some column_index \<Rightarrow>
          Some (f64_sub (column_strip_start (widths r work_area gap mins axis) gap column_index)
                  (resolved_view_start r work_area gap axis mins)))"

definition lock_preview_column_offset ::
  "'w scrolling_row \<Rightarrow> 'w \<Rightarrow> f64 \<Rightarrow> rectangle \<Rightarrow> int \<Rightarrow> layout_axis \<Rightarrow> ('w \<times> layout_size) list \<Rightarrow>
     'w scrolling_row \<times> bool" where
  "lock_preview_column_offset r window offset work_area gap axis mins =
     (case row_position r window of
        None \<Rightarrow> (r, False)
      | Some column_index \<Rightarrow>
          (r\<lparr>row_axis := axis, viewport_extent := view_extent r work_area axis, viewport_gap := gap,
             view_start := Some (f64_sub (column_strip_start (widths r work_area gap mins axis) gap column_index)
               offset),
             scroll_origin := None, needs_reveal := False, preview_view_locked := True\<rparr>, True))"

definition row_prepare_arrange ::
  "'w scrolling_row \<Rightarrow> rectangle \<Rightarrow> int \<Rightarrow> layout_axis \<Rightarrow> ('w \<times> layout_size) list \<Rightarrow> 'w scrolling_row" where
  "row_prepare_arrange r work_area gap axis mins =
     (if columns r = [] then r
      else
        (let extent = view_extent r work_area axis;
             r = (if needs_reveal r \<or> row_axis r \<noteq> axis \<or> viewport_extent r \<noteq> extent \<or> viewport_gap r \<noteq> gap
                  then r\<lparr>resize_view_anchored := False\<rparr> else r)
         in r\<lparr>view_start := Some (resolved_view_start r work_area gap axis mins),
              row_axis := axis, viewport_extent := extent, viewport_gap := gap, needs_reveal := False\<rparr>))"

subsection \<open>Taking a window out and putting it back\<close>

definition remove_at :: "nat \<Rightarrow> 'a list \<Rightarrow> 'a list" where
  "remove_at i xs = take i xs @ drop (Suc i) xs"

definition insert_at :: "nat \<Rightarrow> 'a \<Rightarrow> 'a list \<Rightarrow> 'a list" where
  "insert_at i x xs = take i xs @ x # drop i xs"

text \<open>The last window of a column takes the column with it; the viewport follows the strip.\<close>

definition extract_column :: "'w scrolling_row \<Rightarrow> nat \<Rightarrow> bool \<Rightarrow> 'w scrolling_row" where
  "extract_column r column_index was_active =
     (let fraction = width_fraction (columns r ! column_index);
          start = (if column_index < active_index r \<and> 0 < viewport_extent r
            then (let removed_width = f64_clamp (f64_rounded (f64_mul (f64_from_i32 (viewport_extent r)) fraction))
                        (f64_from_i32 1) (f64_from_i32 (viewport_extent r))
                  in map_option (\<lambda>s. f64_sub (f64_sub s removed_width) (f64_from_i32 (viewport_gap r))) (view_start r))
            else view_start r);
          rest = remove_at column_index (columns r)
      in r\<lparr>view_start := start, columns := rest,
           row_active := (if rest = [] then None
             else if was_active then Some (col_active (rest ! min (column_index - 1) (length rest - 1)))
             else row_active r)\<rparr>)"

text \<open>
  A column with several windows keeps the others. \<open>remove\<close> gives a tree back here, as \<open>extract_tile_tree\<close>
  shows: the \<open>expect\<close> of the code does not fail.
\<close>

definition extract_tile :: "'w scrolling_row \<Rightarrow> nat \<Rightarrow> 'w \<Rightarrow> bool \<Rightarrow> 'w scrolling_row" where
  "extract_tile r column_index window was_active =
     (let c = columns r ! column_index;
          tree = (case node_remove (col_root c) window of Some (Some t, _) \<Rightarrow> t | _ \<Rightarrow> Window (col_active c));
          c = c\<lparr>col_root := tree, col_active := (if col_active c = window then last_window tree else col_active c)\<rparr>
      in r\<lparr>columns := (columns r)[column_index := c],
           row_active := (if was_active then Some (col_active c) else row_active r)\<rparr>)"

definition extract_leaf :: "'w scrolling_row \<Rightarrow> 'w \<Rightarrow> 'w scrolling_row \<times> 'w extracted_leaf option" where
  "extract_leaf r window =
     (case row_position r window of
        None \<Rightarrow> (r, None)
      | Some column_index \<Rightarrow>
          (let c = columns r ! column_index;
               was_active = (row_active r = Some window);
               r' = (if leaf_count (col_root c) = 1 then extract_column r column_index was_active
                     else extract_tile r column_index window was_active)
           in (r'\<lparr>scroll_origin := None, resize_view_anchored := False,
                  needs_reveal := (needs_reveal r \<or> was_active)\<rparr>,
               Some \<lparr>ex_window = window, ex_width_fraction = width_fraction c, ex_cross_extent = cross_extent c,
                     ex_maximized = maximized c\<rparr>)))"

definition row_insert_beside ::
  "'w scrolling_row \<Rightarrow> 'w extracted_leaf \<Rightarrow> 'w \<Rightarrow> layout_direction \<Rightarrow> 'w scrolling_row \<times> bool" where
  "row_insert_beside r extracted target direction =
     (case row_position r target of
        None \<Rightarrow> (r, False)
      | Some column_index \<Rightarrow>
          (let moved = ex_window extracted;
               (c, inserted) = column_split_window_beside (columns r ! column_index) target moved direction
           in if \<not> inserted then (r\<lparr>columns := (columns r)[column_index := c]\<rparr>, False)
              else (r\<lparr>columns := (columns r)[column_index := c\<lparr>col_active := moved\<rparr>], row_active := Some moved,
                      scroll_origin := None, needs_reveal := True\<rparr>, True)))"

subsection \<open>Maximizing\<close>

definition row_maximize :: "'w scrolling_row \<Rightarrow> nat \<Rightarrow> 'w \<Rightarrow> 'w scrolling_row" where
  "row_maximize r column_index window =
     (let r = r\<lparr>scroll_origin := None,
                view_to_restore := Some \<lparr>snap_axis = row_axis r, snap_extent = viewport_extent r,
                  snap_gap = viewport_gap r, snap_start = view_start r\<rparr>\<rparr>;
          r = (if 1 < leaf_count (col_root (columns r ! column_index))
               then (case extract_leaf r window of
                       (r, Some extracted) \<Rightarrow>
                         r\<lparr>columns := insert_at (column_index + 1)
                            ((column_single window (ex_width_fraction extracted))\<lparr>maximized := True\<rparr>) (columns r)\<rparr>
                     | (r, None) \<Rightarrow> r)
               else r\<lparr>columns := (columns r)[column_index := (columns r ! column_index)\<lparr>maximized := True\<rparr>]\<rparr>)
      in r\<lparr>row_active := Some window, needs_reveal := True\<rparr>)"

definition row_unmaximize :: "'w scrolling_row \<Rightarrow> nat \<Rightarrow> 'w \<Rightarrow> 'w scrolling_row" where
  "row_unmaximize r column_index window =
     (let r = r\<lparr>scroll_origin := None, row_active := Some window,
                columns := (columns r)[column_index := (columns r ! column_index)\<lparr>maximized := False\<rparr>]\<rparr>
      in case view_to_restore r of
           None \<Rightarrow> r\<lparr>needs_reveal := True\<rparr>
         | Some snapshot \<Rightarrow>
             r\<lparr>view_to_restore := None, row_axis := snap_axis snapshot, viewport_extent := snap_extent snapshot,
               viewport_gap := snap_gap snapshot, view_start := snap_start snapshot, needs_reveal := False\<rparr>)"

definition row_set_maximized :: "'w scrolling_row \<Rightarrow> 'w \<Rightarrow> bool \<Rightarrow> 'w scrolling_row \<times> bool" where
  "row_set_maximized r window m =
     (case row_position r window of
        None \<Rightarrow> (r, False)
      | Some column_index \<Rightarrow>
          if maximized (columns r ! column_index) = m then (r, False)
          else (if m then row_maximize r column_index window else row_unmaximize r column_index window, True))"

subsection \<open>Scrolling\<close>

definition row_scroll_horizontally ::
  "'w scrolling_row \<Rightarrow> rectangle \<Rightarrow> int \<Rightarrow> layout_axis \<Rightarrow> f64 \<Rightarrow> ('w \<times> layout_size) list \<Rightarrow> 'w scrolling_row \<times> bool" where
  "row_scroll_horizontally r work_area gap axis delta_x mins =
     (if length (columns r) < 2 \<or> \<not> f64_is_finite delta_x \<or> delta_x = Fin 0 then (r, False)
      else
        (let r = row_prepare_arrange r work_area gap axis mins;
             extent = view_extent r work_area axis;
             ws = widths r work_area gap mins axis;
             current = (case view_start r of Some s \<Rightarrow> s | None \<Rightarrow> Fin 0);
             r = r\<lparr>scroll_origin := Some (case scroll_origin r of Some s \<Rightarrow> s | None \<Rightarrow> current)\<rparr>;
             next = constrain_view_start (f64_sub current delta_x) (strip_extent ws gap) extent
         in if f64_less (f64_abs (f64_sub next current)) F64_EPSILON then (r, False)
            else (r\<lparr>view_start := Some next, resize_view_anchored := False\<rparr>, True)))"

text \<open>\<open>min_by\<close> keeps the first of equal elements.\<close>

fun nearest_from :: "nat \<Rightarrow> f64 list \<Rightarrow> f64 \<Rightarrow> (nat \<times> f64) option \<Rightarrow> (nat \<times> f64) option" where
  "nearest_from i [] center best = best"
| "nearest_from i (c # cs) center best =
     (let d = f64_abs (f64_sub c center)
      in nearest_from (Suc i) cs center
           (case best of None \<Rightarrow> Some (i, d) | Some (j, e) \<Rightarrow> if f64_abs_less d e then Some (i, d) else Some (j, e)))"

definition nearest_index :: "f64 list \<Rightarrow> int \<Rightarrow> nat \<Rightarrow> f64 \<Rightarrow> nat" where
  "nearest_index cs extent active start =
     (case nearest_from 0 cs (f64_add start (f64_div (f64_from_i32 extent) (f64_from_i32 2))) None of
        None \<Rightarrow> active | Some (i, _) \<Rightarrow> i)"

definition scroll_selection ::
  "f64 list \<Rightarrow> int \<Rightarrow> nat \<Rightarrow> f64 \<Rightarrow> f64 option \<Rightarrow> f64 option \<Rightarrow> nat" where
  "scroll_selection cs extent active start origin projected =
     (let tracked = nearest_index cs extent active start
      in if tracked \<noteq> active then tracked
         else
           (case projected of
              Some translation \<Rightarrow>
                if f64_is_finite translation then
                  (let n = nearest_index cs extent active
                         (f64_sub (case origin of Some s \<Rightarrow> s | None \<Rightarrow> Fin 0) translation)
                   in if n < active then active - 1
                      else if n = active then active
                      else min (active + 1) (length cs - 1))
                else tracked
            | None \<Rightarrow> tracked))"

definition row_finish_horizontal_scroll ::
  "'w scrolling_row \<Rightarrow> rectangle \<Rightarrow> int \<Rightarrow> layout_axis \<Rightarrow> bool \<Rightarrow> f64 option \<Rightarrow> ('w \<times> layout_size) list \<Rightarrow>
     'w scrolling_row \<times> 'w option" where
  "row_finish_horizontal_scroll r work_area gap axis cancelled projected mins =
     (if columns r = [] then (r, None)
      else
        (let r = row_prepare_arrange r work_area gap axis mins;
             extent = view_extent r work_area axis;
             cs = centers (widths r work_area gap mins axis) gap;
             active = active_index r;
             chosen = (if cancelled then active
               else scroll_selection cs extent active (case view_start r of Some s \<Rightarrow> s | None \<Rightarrow> Fin 0)
                      (scroll_origin r) projected);
             r = (if cancelled \<and> scroll_origin r \<noteq> None then r\<lparr>view_start := scroll_origin r\<rparr> else r);
             selected = col_active (columns r ! chosen);
             r = r\<lparr>row_active := Some selected, scroll_origin := None\<rparr>;
             r = (if \<not> cancelled \<and> chosen \<noteq> active
                  then row_prepare_arrange (r\<lparr>needs_reveal := True\<rparr>) work_area gap axis mins else r)
         in (r, Some selected)))"

subsection \<open>Resizing\<close>

definition column_width :: "'w scrolling_row \<Rightarrow> nat \<Rightarrow> rectangle \<Rightarrow> int \<Rightarrow> ('w \<times> layout_size) list \<Rightarrow> layout_axis \<Rightarrow> int" where
  "column_width r column_index work_area gap mins axis =
     clamp32 (widths r work_area gap mins axis ! column_index) 1 i32_max"

definition keyboard_fraction :: "size_change \<Rightarrow> int \<Rightarrow> int \<Rightarrow> f64 option" where
  "keyboard_fraction change extent work_extent =
     (case change of
        Adjust delta \<Rightarrow>
          if f64_is_finite delta \<and> delta \<noteq> Fin 0
          then Some (f64_clamp (f64_div (f64_add (f64_from_i32 extent) delta) (f64_from_i32 work_extent))
                       MIN_COLUMN_FRACTION (f64_from_i32 1))
          else None
      | Reset \<Rightarrow> Some DEFAULT_COLUMN_FRACTION)"

text \<open>The column answers when no split of its tree does; \<open>extent\<close> is its present width.\<close>

definition keyboard_column ::
  "'w scrolling_column \<Rightarrow> rectangle \<Rightarrow> int \<Rightarrow> layout_axis \<Rightarrow> size_change \<Rightarrow> int \<Rightarrow> ('w \<times> layout_size) list \<Rightarrow>
     'w scrolling_column \<times> bool" where
  "keyboard_column c work_area gap axis change extent mins =
     (let work_extent = max (main_extent axis work_area) 1
      in case keyboard_fraction change extent work_extent of
           None \<Rightarrow> (c, False)
         | Some next \<Rightarrow>
             (let requested_extent = f64_to_i32 (f64_rounded (f64_mul (f64_from_i32 work_extent) next));
                  next_extent = max requested_extent (main_minimum c work_area gap mins axis requested_extent)
              in if is_adjust change \<and> next_extent = extent then (c, False)
                 else (c\<lparr>width_fraction := next\<rparr>, differs (width_fraction c) next)))"

definition row_resize_from_keyboard ::
  "'w scrolling_row \<Rightarrow> 'w \<Rightarrow> rectangle \<Rightarrow> int \<Rightarrow> layout_axis \<Rightarrow> size_change \<Rightarrow> ('w \<times> layout_size) list \<Rightarrow>
     ('w \<times> layout_size) list \<Rightarrow> 'w scrolling_row \<times> bool" where
  "row_resize_from_keyboard r window work_area req_gap req_axis change mins maxs =
     (case row_position r window of
        None \<Rightarrow> (r, False)
      | Some index \<Rightarrow>
          (let c = columns r ! index
           in if maximized c then (r, False)
              else
                (let gap = max req_gap 0;
                     axis = row_axis r;
                     extent = column_width r index work_area gap mins axis;
                     g = tile_geometry axis work_area (main_location axis work_area) extent
                 in case node_resize_from_keyboard (col_root c) window req_gap req_axis change g mins of
                      (tree, Some changed) \<Rightarrow>
                        (r\<lparr>columns := (columns r)[index := c\<lparr>col_root := tree\<rparr>],
                           needs_reveal := (needs_reveal r \<or> changed)\<rparr>, changed)
                    | (tree, None) \<Rightarrow>
                        (let c = c\<lparr>col_root := tree\<rparr>
                         in if req_axis \<noteq> axis then
                              (if leaf_count (col_root c) = 1
                               then (case resize_cross_axis c change g axis mins maxs of
                                       (c, changed) \<Rightarrow> (r\<lparr>columns := (columns r)[index := c]\<rparr>, changed))
                               else (r\<lparr>columns := (columns r)[index := c]\<rparr>, False))
                            else
                              (case keyboard_column c work_area gap axis change extent mins of
                                 (c, changed) \<Rightarrow>
                                   (r\<lparr>columns := (columns r)[index := c],
                                      needs_reveal := (needs_reveal r \<or> changed)\<rparr>, changed))))))"

text \<open>
  The rectangle of one window of a column; the window is in the column, so the search of the code finds it.
\<close>

definition leaf_geometry ::
  "'w scrolling_column \<Rightarrow> rectangle \<Rightarrow> int \<Rightarrow> ('w \<times> layout_size) list \<Rightarrow> 'w \<Rightarrow> rectangle" where
  "leaf_geometry c g gap mins window =
     (case find (\<lambda>p. placed_window p = window) (node_arrange (col_root c) g gap mins) of
        Some p \<Rightarrow> placed_geometry p | None \<Rightarrow> g)"

definition fixed_border :: "layout_axis \<Rightarrow> bool \<Rightarrow> rectangle \<Rightarrow> int" where
  "fixed_border axis leading g = main_location axis g + (if leading then main_extent axis g else 0)"

text \<open>The edges across the strip and along it, with the pointer's movement there.\<close>

fun cross_drag :: "layout_axis \<Rightarrow> resize_edges \<Rightarrow> f64 \<Rightarrow> f64 \<Rightarrow> bool \<times> bool \<times> f64" where
  "cross_drag Horizontal edges dx dy = (edge_bottom edges, edge_top edges, dy)"
| "cross_drag Vertical edges dx dy = (edge_right edges, edge_left edges, dx)"

fun main_drag :: "layout_axis \<Rightarrow> resize_edges \<Rightarrow> f64 \<Rightarrow> f64 \<Rightarrow> bool \<times> bool \<times> f64" where
  "main_drag Horizontal edges dx dy = (edge_left edges, edge_right edges, dx)"
| "main_drag Vertical edges dx dy = (edge_top edges, edge_bottom edges, dy)"

fun main_resized :: "layout_axis \<Rightarrow> resized_axes \<Rightarrow> bool" where
  "main_resized Horizontal resized = res_horizontal resized"
| "main_resized Vertical resized = res_vertical resized"

definition drag_cross ::
  "'w scrolling_column \<Rightarrow> rectangle \<Rightarrow> layout_axis \<Rightarrow> resize_edges \<Rightarrow> f64 \<Rightarrow> f64 \<Rightarrow> ('w \<times> layout_size) list \<Rightarrow>
     ('w \<times> layout_size) list \<Rightarrow> 'w scrolling_column \<times> bool" where
  "drag_cross c full axis edges dx dy mins maxs =
     (case cross_drag axis edges dx dy of (trailing, leading, delta) \<Rightarrow>
        if \<not> maximized c \<and> leaf_count (col_root c) = 1 \<and> trailing \<and> \<not> leading
        then resize_cross_axis c (Adjust delta) full axis mins maxs else (c, False))"

definition drag_main ::
  "'w scrolling_column \<Rightarrow> layout_axis \<Rightarrow> resized_axes \<Rightarrow> int \<Rightarrow> resize_edges \<Rightarrow> f64 \<Rightarrow> f64 \<Rightarrow> 'w scrolling_column \<times> bool" where
  "drag_main c axis resized extent edges dx dy =
     (case main_drag axis edges dx dy of (leading, trailing, delta) \<Rightarrow>
        if \<not> main_resized axis resized \<and> f64_is_finite delta \<and> 0 < extent \<and> (leading \<or> trailing) then
          (let signed_delta = (if leading \<and> \<not> trailing then f64_neg delta else delta);
               next = f64_clamp (f64_add (width_fraction c) (f64_div signed_delta (f64_from_i32 extent)))
                 MIN_COLUMN_FRACTION (f64_from_i32 1)
           in if f64_le F64_EPSILON (f64_abs (f64_sub next (width_fraction c)))
              then (c\<lparr>width_fraction := next\<rparr>, True) else (c, False))
        else (c, False))"

definition row_resize ::
  "'w scrolling_row \<Rightarrow> 'w \<Rightarrow> rectangle \<Rightarrow> int \<Rightarrow> f64 \<Rightarrow> f64 \<Rightarrow> resize_edges \<Rightarrow> ('w \<times> layout_size) list \<Rightarrow>
     ('w \<times> layout_size) list \<Rightarrow> 'w scrolling_row \<times> bool" where
  "row_resize r window work_area req_gap dx dy edges mins maxs =
     (case row_position r window of
        None \<Rightarrow> (r, False)
      | Some index \<Rightarrow>
          (let gap = max req_gap 0;
               axis = row_axis r;
               area = (if maximized (columns r ! index) then maximize_area_or r work_area else work_area);
               full = tile_geometry axis area (main_location axis area) (column_width r index work_area gap mins axis);
               g = column_geometry (columns r ! index) full axis mins maxs;
               r = row_prepare_arrange r work_area gap axis mins;
               c = columns r ! index;
               before = leaf_geometry c g gap mins window;
               (tree, resized) = resize_window (retain_split_axes (col_root c) g gap mins) window g gap edges dx dy;
               (c, crossed) = drag_cross (c\<lparr>col_root := tree\<rparr>) full axis edges dx dy mins maxs;
               (c, moved) = drag_main c axis resized (main_extent axis work_area) edges dx dy;
               changed = (res_changed resized \<or> crossed \<or> moved);
               r = r\<lparr>columns := (columns r)[index := c]\<rparr>
           in if \<not> changed then (r, False)
              else
                (let extent = column_width r index work_area gap mins axis;
                     after = leaf_geometry c (column_geometry c
                       (tile_geometry axis area (main_location axis area) extent) axis mins maxs) gap mins window;
                     (leading, trailing, _) = main_drag axis edges dx dy;
                     shift = f64_from_i64 (fixed_border axis (leading \<and> \<not> trailing) after -
                       fixed_border axis (leading \<and> \<not> trailing) before)
                 in (r\<lparr>view_start := map_option (\<lambda>s. f64_add s shift) (view_start r), scroll_origin := None,
                       needs_reveal := False, resize_view_anchored := True\<rparr>, True))))"

subsection \<open>Arranging\<close>

definition column_tile ::
  "'w scrolling_row \<Rightarrow> 'w scrolling_column \<Rightarrow> rectangle \<Rightarrow> int \<Rightarrow> ('w \<times> layout_size) list \<Rightarrow> ('w \<times> layout_size) list \<Rightarrow>
     layout_axis \<Rightarrow> int \<Rightarrow> int \<Rightarrow> rectangle" where
  "column_tile r c work_area gap mins maxs axis location width =
     (let area = (if maximized c then maximize_area_or r work_area else work_area);
          g = column_geometry c (tile_geometry axis area location width) axis mins maxs;
          minimum = minimum_size (col_root c) g gap mins
      in g\<lparr>size_w := max (size_w g) (min_w minimum), size_h := max (size_h g) (min_h minimum)\<rparr>)"

definition column_location :: "int \<Rightarrow> int \<Rightarrow> f64 \<Rightarrow> int" where
  "column_location origin column_start start =
     f64_to_i32 (f64_clamp (f64_rounded (f64_sub (f64_add (f64_from_i32 origin) (f64_from_i64 column_start)) start))
       (f64_from_i32 i32_min) (f64_from_i32 i32_max))"

fun arrange_columns ::
  "'w scrolling_row \<Rightarrow> rectangle \<Rightarrow> int \<Rightarrow> ('w \<times> layout_size) list \<Rightarrow> ('w \<times> layout_size) list \<Rightarrow> layout_axis \<Rightarrow>
     int \<Rightarrow> f64 \<Rightarrow> int \<Rightarrow> ('w scrolling_column \<times> int) list \<Rightarrow> 'w layout_placement list" where
  "arrange_columns r work_area gap mins maxs axis origin start column_start [] = []"
| "arrange_columns r work_area gap mins maxs axis origin start column_start ((c, w) # cs) =
     (let location = column_location origin column_start start;
          width = clamp32 w 1 i32_max
      in node_arrange (col_root c) (column_tile r c work_area gap mins maxs axis location width) gap mins @
         arrange_columns r work_area gap mins maxs axis origin start
           (sat64 (sat64 (column_start + width) + gap)) cs)"

definition row_arrange ::
  "'w scrolling_row \<Rightarrow> rectangle \<Rightarrow> int \<Rightarrow> ('w \<times> layout_size) list \<Rightarrow> ('w \<times> layout_size) list \<Rightarrow>
     'w layout_placement list" where
  "row_arrange r work_area requested_gap mins maxs =
     (if columns r = [] then []
      else
        (let axis = row_axis r;
             gap = max requested_gap 0;
             start = resolved_view_start r work_area gap axis mins;
             origin = main_location axis (active_view_area r work_area)
         in arrange_columns r work_area gap mins maxs axis origin start 0
              (zip (columns r) (widths r work_area gap mins axis))))"

end
