(* ===== verification/Scrolling_Layout.thy ===== *)
theory Scrolling_Layout
  imports Scrolling_Row
begin

text \<open>
  The scrolling layout of \<^verbatim>\<open>window_layout.rs\<close>: one row of columns per layout space. The hash map of the
  rows is an association list with distinct keys, in an order the code does not rely on; a new key is
  appended. The \<open>expect\<close>s of the code follow a successful lookup; the laws of \<^verbatim>\<open>Scrolling_Refinement\<close> show that
  the branches that stand for them here are never taken.
\<close>

section \<open>The operations\<close>

record 'w scrolling_layout =
  maximum_sizes :: "('w \<times> layout_size) list"
  rows :: "(layout_space \<times> 'w scrolling_row) list"
  sc_minimum_sizes :: "('w \<times> layout_size) list"

definition Scrolling_default :: "'w scrolling_layout" where
  "Scrolling_default = \<lparr>maximum_sizes = [], rows = [], sc_minimum_sizes = []\<rparr>"

definition sc_find :: "'w scrolling_layout \<Rightarrow> 'w \<Rightarrow> (layout_space \<times> 'w scrolling_row) option" where
  "sc_find l window = find (\<lambda>(space, row). row_position row window \<noteq> None) (rows l)"

definition sc_contains :: "'w scrolling_layout \<Rightarrow> 'w \<Rightarrow> bool" where
  "sc_contains l window \<longleftrightarrow> (\<exists>(space, row) \<in> set (rows l). row_position row window \<noteq> None)"

definition sc_space_for :: "'w scrolling_layout \<Rightarrow> 'w \<Rightarrow> layout_space option" where
  "sc_space_for l window = map_option fst (sc_find l window)"

definition sc_is_maximized :: "'w scrolling_layout \<Rightarrow> 'w \<Rightarrow> bool" where
  "sc_is_maximized l window \<longleftrightarrow>
     (\<exists>(space, row) \<in> set (rows l).
        case row_position row window of None \<Rightarrow> False | Some column \<Rightarrow> maximized (columns row ! column))"

text \<open>\<open>get_mut\<close>, and \<open>remove\<close> of a row whose columns are gone.\<close>

definition put_row :: "'w scrolling_layout \<Rightarrow> layout_space \<Rightarrow> 'w scrolling_row \<Rightarrow> 'w scrolling_layout" where
  "put_row l space row = l\<lparr>rows := AList.update space row (rows l)\<rparr>"

definition settle_row :: "'w scrolling_layout \<Rightarrow> layout_space \<Rightarrow> 'w scrolling_row \<Rightarrow> 'w scrolling_layout" where
  "settle_row l space row =
     (if columns row = [] then l\<lparr>rows := AList.delete space (rows l)\<rparr> else put_row l space row)"

definition entry_row :: "'w scrolling_layout \<Rightarrow> layout_space \<Rightarrow> 'w scrolling_row" where
  "entry_row l space = (case map_of (rows l) space of Some row \<Rightarrow> row | None \<Rightarrow> row_empty)"

text \<open>The index behind the anchor's column, or the end of the row.\<close>

definition insertion_index :: "'w scrolling_row \<Rightarrow> 'w option \<Rightarrow> nat" where
  "insertion_index row anchor =
     (case Option.bind anchor (row_position row) of Some i \<Rightarrow> i + 1 | None \<Rightarrow> length (columns row))"

definition sc_remove :: "'w scrolling_layout \<Rightarrow> 'w \<Rightarrow> 'w scrolling_layout \<times> bool" where
  "sc_remove l window =
     (case sc_find l window of
        None \<Rightarrow> (l, False)
      | Some (space, row) \<Rightarrow>
          (case extract_leaf row window of
             (row, None) \<Rightarrow> (settle_row l space row, False)
           | (row, Some _) \<Rightarrow>
               ((settle_row l space row)
                  \<lparr>sc_minimum_sizes := remove_layout_minimum_size (sc_minimum_sizes l) window,
                   maximum_sizes := remove_layout_minimum_size (maximum_sizes l) window\<rparr>, True)))"

definition sc_insert :: "'w scrolling_layout \<Rightarrow> 'w layout_insertion \<Rightarrow> 'w scrolling_layout" where
  "sc_insert l0 insertion =
     (let l = fst (sc_remove l0 (ins_window insertion));
          row = entry_row l (ins_space insertion);
          index = insertion_index row (ins_anchor insertion)
      in put_row l (ins_space insertion)
           (row\<lparr>columns := insert_at index (column_single (ins_window insertion) DEFAULT_COLUMN_FRACTION) (columns row),
                row_active := Some (ins_window insertion), scroll_origin := None, needs_reveal := True\<rparr>))"

definition sc_move_to_space :: "'w scrolling_layout \<Rightarrow> 'w \<Rightarrow> layout_space \<Rightarrow> 'w scrolling_layout \<times> bool" where
  "sc_move_to_space l window destination =
     (case sc_find l window of
        None \<Rightarrow> (l, False)
      | Some (source, source_row) \<Rightarrow>
          if source = destination then (l, False)
          else
            (case extract_leaf source_row window of
               (_, None) \<Rightarrow> (l, False)
             | (source_row, Some extracted) \<Rightarrow>
                 (let l = settle_row l source source_row;
                      row = entry_row l destination;
                      row = row\<lparr>columns := columns row @
                                  [column_single (ex_window extracted) (ex_width_fraction extracted)],
                                row_active := Some (ex_window extracted), scroll_origin := None,
                                needs_reveal := True\<rparr>;
                      row = (if ex_maximized extracted
                             then fst (row_set_maximized row (ex_window extracted) True) else row)
                  in (put_row l destination row, True))))"

definition sc_clear :: "'w scrolling_layout \<Rightarrow> 'w scrolling_layout" where
  "sc_clear l = l\<lparr>rows := [], sc_minimum_sizes := [], maximum_sizes := []\<rparr>"

definition sc_update_minimum_size ::
  "'w scrolling_layout \<Rightarrow> 'w \<Rightarrow> layout_size \<Rightarrow> 'w scrolling_layout \<times> bool" where
  "sc_update_minimum_size l window minimum =
     (if sc_contains l window
      then (case update_layout_minimum_size (sc_minimum_sizes l) window minimum of
              (ms, changed) \<Rightarrow> (l\<lparr>sc_minimum_sizes := ms\<rparr>, changed))
      else (l, False))"

definition sc_update_maximum_size ::
  "'w scrolling_layout \<Rightarrow> 'w \<Rightarrow> layout_size \<Rightarrow> 'w scrolling_layout \<times> bool" where
  "sc_update_maximum_size l window requested =
     (if \<not> sc_contains l window then (l, False)
      else
        (let m = \<lparr>min_w = max (min_w requested) 0, min_h = max (min_h requested) 0\<rparr>
         in case find (\<lambda>(id, _). id = window) (maximum_sizes l) of
              Some (_, current) \<Rightarrow>
                if current = m then (l, False)
                else (l\<lparr>maximum_sizes := update_first_size (maximum_sizes l) window m\<rparr>, True)
            | None \<Rightarrow> (l\<lparr>maximum_sizes := maximum_sizes l @ [(window, m)]\<rparr>, True)))"

text \<open>
  \<open>rebuild\<close> keeps what the new list still has on the same space, columns and splits included, and appends
  the rest with the widths they had.
\<close>

definition listed :: "'w layout_insertion list \<Rightarrow> layout_space \<Rightarrow> 'w \<Rightarrow> bool" where
  "listed insertions space window \<longleftrightarrow> (\<exists>i \<in> set insertions. ins_space i = space \<and> ins_window i = window)"

definition retain_column :: "('w \<Rightarrow> bool) \<Rightarrow> 'w scrolling_column \<Rightarrow> 'w scrolling_column option" where
  "retain_column keep c =
     map_option (\<lambda>tree. c\<lparr>col_root := tree,
         col_active := (if node_contains tree (col_active c) then col_active c else last_window tree),
         cross_extent := (if leaf_count (col_root c) = leaf_count tree then cross_extent c else None)\<rparr>)
       (retained (col_root c) keep)"

definition retain_active :: "'w scrolling_row \<Rightarrow> 'w scrolling_column list \<Rightarrow> 'w" where
  "retain_active previous cs =
     (case row_active previous of
        None \<Rightarrow> col_active (hd cs)
      | Some a \<Rightarrow>
          if \<exists>c \<in> set cs. column_contains c a then a
          else (case row_position previous a of
                  Some index \<Rightarrow> col_active (cs ! min index (length cs - 1))
                | None \<Rightarrow> col_active (hd cs)))"

definition retain_row :: "('w \<Rightarrow> bool) \<Rightarrow> 'w scrolling_row \<Rightarrow> 'w scrolling_row option" where
  "retain_row keep previous =
     (let cs = List.map_filter (retain_column keep) (columns previous)
      in if cs = [] then None
         else Some (previous\<lparr>columns := cs, row_active := Some (retain_active previous cs),
           scroll_origin := None, needs_reveal := True, preview_view_locked := False,
           resize_view_anchored := False\<rparr>))"

definition previous_widths :: "(layout_space \<times> 'w scrolling_row) list \<Rightarrow> ('w \<times> f64) list" where
  "previous_widths rs =
     concat (map (\<lambda>(space, row). concat (map (\<lambda>c. map (\<lambda>w. (w, width_fraction c)) (window_ids (col_root c)))
       (columns row))) rs)"

definition rebuild_insert ::
  "('w \<times> f64) list \<Rightarrow> 'w scrolling_layout \<Rightarrow> 'w layout_insertion \<Rightarrow> 'w scrolling_layout" where
  "rebuild_insert ws l insertion =
     (if sc_contains l (ins_window insertion) then l
      else
        (let fraction = (case map_of ws (ins_window insertion) of Some f \<Rightarrow> f | None \<Rightarrow> DEFAULT_COLUMN_FRACTION);
             row = entry_row l (ins_space insertion);
             index = insertion_index row (ins_anchor insertion)
         in put_row l (ins_space insertion)
              (row\<lparr>columns := insert_at index (column_single (ins_window insertion) fraction) (columns row),
                   row_active := (case row_active row of None \<Rightarrow> Some (ins_window insertion) | Some a \<Rightarrow> Some a),
                   needs_reveal := True\<rparr>)))"

definition sc_rebuild :: "'w scrolling_layout \<Rightarrow> 'w layout_insertion list \<Rightarrow> 'w scrolling_layout" where
  "sc_rebuild l insertions =
     foldl (rebuild_insert (previous_widths (rows l)))
       (l\<lparr>rows := List.map_filter (\<lambda>(space, row). map_option (Pair space) (retain_row (listed insertions space) row))
          (rows l)\<rparr>)
       insertions"

definition sc_activate :: "'w scrolling_layout \<Rightarrow> 'w \<Rightarrow> 'w scrolling_layout \<times> bool" where
  "sc_activate l window =
     (case sc_find l window of
        None \<Rightarrow> (l, False)
      | Some (space, row) \<Rightarrow>
          (case row_position row window of
             None \<Rightarrow> (l, False)
           | Some column_index \<Rightarrow>
               (let c = columns row ! column_index;
                    unchanged = (row_active row = Some window \<and> col_active c = window \<and> scroll_origin row = None)
                in (put_row l space
                      (row\<lparr>view_to_restore := (if row_active row \<noteq> Some window then None else view_to_restore row),
                           columns := (columns row)[column_index := c\<lparr>col_active := window\<rparr>],
                           row_active := Some window, scroll_origin := None, needs_reveal := True\<rparr>),
                    \<not> unchanged))))"

fun is_leaf :: "'w dwindle_node \<Rightarrow> bool" where
  "is_leaf (Window _) = True"
| "is_leaf (Split _ _ _ _) = False"

definition exchange_extents :: "'w scrolling_row \<Rightarrow> nat \<Rightarrow> nat \<Rightarrow> 'w scrolling_row" where
  "exchange_extents row i j =
     (let a = columns row ! i; b = columns row ! j
      in row\<lparr>columns := (columns row)
           [i := a\<lparr>cross_extent := cross_extent b, width_fraction := width_fraction b\<rparr>,
            j := b\<lparr>cross_extent := cross_extent a, width_fraction := width_fraction a\<rparr>]\<rparr>)"

definition swap_id :: "'w \<Rightarrow> 'w \<Rightarrow> 'w \<Rightarrow> 'w" where
  "swap_id first second x = (if x = first then second else if x = second then first else x)"

definition swap_extents :: "'w \<Rightarrow> 'w \<Rightarrow> bool \<Rightarrow> 'w scrolling_row \<Rightarrow> 'w scrolling_row" where
  "swap_extents first second preserve_sizes row =
     (case (row_position row first, row_position row second) of
        (Some i, Some j) \<Rightarrow>
          if preserve_sizes \<and> i \<noteq> j \<and> is_leaf (col_root (columns row ! i)) \<and> is_leaf (col_root (columns row ! j))
          then exchange_extents row i j else row
      | _ \<Rightarrow> row)"

definition swap_row :: "'w \<Rightarrow> 'w \<Rightarrow> bool \<Rightarrow> 'w scrolling_row \<Rightarrow> 'w scrolling_row" where
  "swap_row first second preserve_sizes row0 =
     (let row = swap_extents first second preserve_sizes row0;
          swapped = (\<exists>c \<in> set (columns row). column_contains c first \<or> column_contains c second)
      in row\<lparr>columns := map (\<lambda>c. c\<lparr>col_root := swap_windows (col_root c) first second,
                col_active := swap_id first second (col_active c)\<rparr>) (columns row),
             row_active := map_option (swap_id first second) (row_active row),
             needs_reveal := (needs_reveal row \<or> swapped)\<rparr>)"

definition sc_swap :: "'w scrolling_layout \<Rightarrow> 'w \<Rightarrow> 'w \<Rightarrow> bool \<Rightarrow> 'w scrolling_layout \<times> bool" where
  "sc_swap l first second preserve_sizes =
     (if first = second \<or> \<not> sc_contains l first \<or> \<not> sc_contains l second \<or> sc_is_maximized l first \<or>
         sc_is_maximized l second
      then (l, False)
      else (l\<lparr>rows := map (\<lambda>(space, row). (space, swap_row first second preserve_sizes row)) (rows l)\<rparr>, True))"

definition sc_move_beside ::
  "'w scrolling_layout \<Rightarrow> 'w \<Rightarrow> 'w \<Rightarrow> layout_direction \<Rightarrow> 'w scrolling_layout \<times> bool" where
  "sc_move_beside l window target direction =
     (if window = target \<or> \<not> sc_contains l window \<or> \<not> sc_contains l target \<or> sc_is_maximized l window \<or>
         sc_is_maximized l target
      then (l, False)
      else
        (case (sc_find l window, sc_space_for l target) of
           (Some (source, source_row), Some destination) \<Rightarrow>
             (case extract_leaf source_row window of
                (_, None) \<Rightarrow> (l, False)
              | (source_row, Some extracted) \<Rightarrow>
                  (let l = settle_row l source source_row
                   in case map_of (rows l) destination of
                        None \<Rightarrow> (l, False)
                      | Some row \<Rightarrow>
                          (case row_insert_beside row extracted target direction of
                             (row, inserted) \<Rightarrow> (put_row l destination row, inserted))))
         | _ \<Rightarrow> (l, False)))"

text \<open>
  The gap whose pixels hold the pointer. \<open>rect_contains\<close> stands for Smithay's \<open>Rectangle::contains\<close>.
\<close>

definition gap_target :: "'w \<Rightarrow> 'w scrolling_column \<Rightarrow> 'w scrolling_column \<Rightarrow> ('w \<times> bool) option" where
  "gap_target window before_gap after_gap =
     (case find (\<lambda>w. w \<noteq> window) (window_ids (col_root after_gap)) of
        Some target \<Rightarrow> Some (target, True)
      | None \<Rightarrow> map_option (\<lambda>target. (target, False))
          (find (\<lambda>w. w \<noteq> window) (window_ids (col_root before_gap))))"

fun search_gap ::
  "'w \<Rightarrow> int \<Rightarrow> f64 \<Rightarrow> f64 \<Rightarrow> f64 \<Rightarrow> int \<Rightarrow> ('w scrolling_column \<times> int) list \<Rightarrow> ('w \<times> bool) option" where
  "search_gap window gap origin start pos column_start ((a, width) # (b, width') # cs) =
     (let column_end = sat64 (column_start + width);
          gap_start = f64_rounded (f64_sub (f64_add origin (f64_from_i64 column_end)) start);
          gap_end = f64_add gap_start (f64_from_i32 gap)
      in if f64_le gap_start pos \<and> f64_less pos gap_end then gap_target window a b
         else search_gap window gap origin start pos (sat64 (column_end + gap)) ((b, width') # cs))"
| "search_gap window gap origin start pos column_start _ = None"

definition sc_column_insertion_target ::
  "(rectangle \<Rightarrow> int \<Rightarrow> int \<Rightarrow> bool) \<Rightarrow> 'w scrolling_layout \<Rightarrow> layout_space \<Rightarrow> 'w \<Rightarrow> rectangle \<Rightarrow> int \<Rightarrow> int \<Rightarrow> int \<Rightarrow>
     ('w \<times> bool) option" where
  "sc_column_insertion_target rect_contains l space window work_area gap x y =
     (case map_of (rows l) space of
        None \<Rightarrow> None
      | Some row \<Rightarrow>
          if length (columns row) < 2 \<or> gap \<le> 0 \<or> \<not> rect_contains work_area x y then None
          else
            (let axis = row_axis row;
                 ws = widths row work_area gap (sc_minimum_sizes l) axis;
                 start = resolved_view_start row work_area gap axis (sc_minimum_sizes l);
                 origin = f64_from_i32 (main_location axis (active_view_area row work_area));
                 pos = f64_from_i32 (case axis of Horizontal \<Rightarrow> x | Vertical \<Rightarrow> y)
             in search_gap window gap origin start pos 0 (zip (columns row) ws)))"

text \<open>A lone tile that would land where it stands is not moved.\<close>

definition stays :: "'w scrolling_row \<Rightarrow> nat \<Rightarrow> nat \<Rightarrow> bool \<Rightarrow> bool" where
  "stays row source_index destination_index before \<longleftrightarrow>
     leaf_count (col_root (columns row ! source_index)) = 1 \<and>
     (before \<and> source_index + 1 = destination_index \<or> \<not> before \<and> destination_index + 1 = source_index)"

definition sc_move_to_column :: "'w scrolling_layout \<Rightarrow> 'w \<Rightarrow> 'w \<Rightarrow> bool \<Rightarrow> 'w scrolling_layout \<times> bool" where
  "sc_move_to_column l window target before =
     (if window = target \<or> sc_is_maximized l window \<or> sc_is_maximized l target then (l, False)
      else
        (case (sc_find l window, sc_find l target) of
           (Some (source, source_row), Some (destination, destination_row)) \<Rightarrow>
             (case (row_position source_row window, row_position destination_row target) of
                (Some source_index, Some destination_index) \<Rightarrow>
                  if source = destination \<and> stays source_row source_index destination_index before then (l, False)
                  else
                    (let preserve = (source = destination \<and>
                           leaf_count (col_root (columns source_row ! source_index)) = 1)
                     in case extract_leaf source_row window of
                          (_, None) \<Rightarrow> (l, False)
                        | (source_row, Some extracted) \<Rightarrow>
                            (let l = settle_row l source source_row;
                                 row = entry_row l destination;
                                 index = (case row_position row target of Some i \<Rightarrow> i | None \<Rightarrow> 0) +
                                   (if before then 0 else 1);
                                 c = column_single (ex_window extracted) (ex_width_fraction extracted);
                                 c = (if preserve then c\<lparr>cross_extent := ex_cross_extent extracted\<rparr> else c)
                             in (put_row l destination
                                   (row\<lparr>columns := insert_at index c (columns row),
                                        row_active := Some (ex_window extracted), scroll_origin := None,
                                        needs_reveal := True\<rparr>), True)))
              | _ \<Rightarrow> (l, False))
         | _ \<Rightarrow> (l, False)))"

definition sc_move_beside_for_preview ::
  "'w scrolling_layout \<Rightarrow> 'w \<Rightarrow> 'w \<Rightarrow> layout_direction \<Rightarrow> rectangle \<Rightarrow> int \<Rightarrow> layout_axis \<Rightarrow>
     'w scrolling_layout \<times> bool" where
  "sc_move_beside_for_preview l window target direction work_area requested_gap axis =
     (case sc_find l target of
        None \<Rightarrow> (l, False)
      | Some (destination, row) \<Rightarrow>
          (let gap = max requested_gap 0;
               row = row_prepare_arrange row work_area gap axis (sc_minimum_sizes l);
               l = put_row l destination row
           in case column_view_offset row target work_area gap axis (sc_minimum_sizes l) of
                None \<Rightarrow> (l, False)
              | Some offset \<Rightarrow>
                  (case sc_move_beside l window target direction of
                     (l, moved) \<Rightarrow>
                       if \<not> moved then (l, False)
                       else
                         (case map_of (rows l) destination of
                            None \<Rightarrow> (l, True)
                          | Some row \<Rightarrow>
                              (put_row l destination (fst (lock_preview_column_offset row target offset work_area gap
                                 axis (sc_minimum_sizes l))), True)))))"

definition sc_set_maximize_area :: "'w scrolling_layout \<Rightarrow> layout_space \<Rightarrow> rectangle \<Rightarrow> 'w scrolling_layout" where
  "sc_set_maximize_area l space area =
     (case map_of (rows l) space of
        None \<Rightarrow> l
      | Some row \<Rightarrow>
          if maximize_area row \<noteq> Some area
          then put_row l space (row\<lparr>maximize_area := Some area, needs_reveal := True\<rparr>) else l)"

text \<open>The operations on the row that holds a window, and on the row of a space.\<close>

definition with_row_of ::
  "'w scrolling_layout \<Rightarrow> 'w \<Rightarrow> ('w scrolling_row \<Rightarrow> 'w scrolling_row \<times> bool) \<Rightarrow> 'w scrolling_layout \<times> bool" where
  "with_row_of l window f =
     (case sc_find l window of
        None \<Rightarrow> (l, False)
      | Some (space, row) \<Rightarrow> (case f row of (row, b) \<Rightarrow> (put_row l space row, b)))"

definition sc_set_maximized :: "'w scrolling_layout \<Rightarrow> 'w \<Rightarrow> bool \<Rightarrow> 'w scrolling_layout \<times> bool" where
  "sc_set_maximized l window m = with_row_of l window (\<lambda>row. row_set_maximized row window m)"

definition sc_resize_from_keyboard ::
  "'w scrolling_layout \<Rightarrow> 'w \<Rightarrow> rectangle \<Rightarrow> int \<Rightarrow> layout_axis \<Rightarrow> size_change \<Rightarrow> 'w scrolling_layout \<times> bool" where
  "sc_resize_from_keyboard l window work_area gap axis change =
     with_row_of l window (\<lambda>row. row_resize_from_keyboard row window work_area gap axis change
       (sc_minimum_sizes l) (maximum_sizes l))"

definition sc_resize ::
  "'w scrolling_layout \<Rightarrow> 'w \<Rightarrow> rectangle \<Rightarrow> int \<Rightarrow> f64 \<Rightarrow> f64 \<Rightarrow> resize_edges \<Rightarrow> 'w scrolling_layout \<times> bool" where
  "sc_resize l window work_area gap dx dy edges =
     with_row_of l window (\<lambda>row. row_resize row window work_area gap dx dy edges
       (sc_minimum_sizes l) (maximum_sizes l))"

definition sc_prepare_arrange ::
  "'w scrolling_layout \<Rightarrow> layout_space \<Rightarrow> rectangle \<Rightarrow> int \<Rightarrow> layout_axis \<Rightarrow> 'w scrolling_layout" where
  "sc_prepare_arrange l space work_area gap axis =
     (case map_of (rows l) space of
        None \<Rightarrow> l
      | Some row \<Rightarrow> put_row l space (row_prepare_arrange row work_area (max gap 0) axis (sc_minimum_sizes l)))"

definition sc_scroll_horizontally ::
  "'w scrolling_layout \<Rightarrow> layout_space \<Rightarrow> rectangle \<Rightarrow> int \<Rightarrow> layout_axis \<Rightarrow> f64 \<Rightarrow> 'w scrolling_layout \<times> bool" where
  "sc_scroll_horizontally l space work_area gap axis delta_x =
     (case map_of (rows l) space of
        None \<Rightarrow> (l, False)
      | Some row \<Rightarrow>
          (case row_scroll_horizontally row work_area (max gap 0) axis delta_x (sc_minimum_sizes l) of
             (row, changed) \<Rightarrow> (put_row l space row, changed)))"

definition sc_finish_horizontal_scroll ::
  "'w scrolling_layout \<Rightarrow> layout_space \<Rightarrow> rectangle \<Rightarrow> int \<Rightarrow> layout_axis \<Rightarrow> bool \<Rightarrow> f64 option \<Rightarrow>
     'w scrolling_layout \<times> 'w option" where
  "sc_finish_horizontal_scroll l space work_area gap axis cancelled projected =
     (case map_of (rows l) space of
        None \<Rightarrow> (l, None)
      | Some row \<Rightarrow>
          (case row_finish_horizontal_scroll row work_area (max gap 0) axis cancelled projected (sc_minimum_sizes l) of
             (row, selected) \<Rightarrow> (put_row l space row, selected)))"

definition sc_arrange ::
  "'w scrolling_layout \<Rightarrow> layout_space \<Rightarrow> rectangle \<Rightarrow> int \<Rightarrow> 'w layout_placement list" where
  "sc_arrange l space work_area gap =
     (case map_of (rows l) space of
        None \<Rightarrow> []
      | Some row \<Rightarrow> row_arrange row work_area gap (sc_minimum_sizes l) (maximum_sizes l))"

end
