(* ===== verification/Scrolling_Windows.thy ===== *)
theory Scrolling_Windows
  imports Scrolling_Row
begin

text \<open>
  The windows of a scrolling row. \<open>row_ok\<close> is the invariant of a row that is kept in the layout, and
  \<open>row_marks\<close> reads which windows it has and which of them are maximized. Every operation of
  \<^verbatim>\<open>Scrolling_Row\<close> gets a law that says it keeps the invariant and how it changes the marks.
\<close>

section \<open>Lists of columns\<close>

definition col_windows :: "'w scrolling_column list \<Rightarrow> 'w list" where
  "col_windows cs = concat (map (\<lambda>c. window_ids (col_root c)) cs)"

fun col_marks :: "'w scrolling_column list \<Rightarrow> 'w \<Rightarrow> bool option" where
  "col_marks [] x = None"
| "col_marks (c # cs) x = (if x \<in> set (window_ids (col_root c)) then Some (maximized c) else col_marks cs x)"

fun fraction_ok :: "f64 \<Rightarrow> bool" where
  "fraction_ok (Fin q) = (1 / 4 \<le> q \<and> q \<le> 1)"
| "fraction_ok _ = False"

definition col_ok :: "'w scrolling_column \<Rightarrow> bool" where
  "col_ok c \<longleftrightarrow> col_active c \<in> set (window_ids (col_root c)) \<and> ratios_ok (col_root c) \<and>
     fraction_ok (width_fraction c) \<and> (maximized c \<longrightarrow> leaf_count (col_root c) = 1)"

definition cols_ok :: "'w scrolling_column list \<Rightarrow> bool" where
  "cols_ok cs \<longleftrightarrow> distinct (col_windows cs) \<and> (\<forall>c \<in> set cs. col_ok c)"

lemma col_windows_simps [simp]:
  "col_windows [] = []" "col_windows (c # cs) = window_ids (col_root c) @ col_windows cs"
  "col_windows (cs @ ds) = col_windows cs @ col_windows ds"
  by (simp_all add: col_windows_def)

lemma col_windows_Nil [simp]: "col_windows cs = [] \<longleftrightarrow> cs = []"
  by (cases cs) simp_all

lemma set_col_windows: "set (col_windows cs) = (\<Union>c \<in> set cs. set (window_ids (col_root c)))"
  by (simp add: col_windows_def)

lemma col_marks_None [simp]: "col_marks cs x = None \<longleftrightarrow> x \<notin> set (col_windows cs)"
  by (induction cs) auto

lemma col_marks_append: "col_marks (cs @ ds) x = (case col_marks cs x of Some b \<Rightarrow> Some b | None \<Rightarrow> col_marks ds x)"
  by (induction cs) auto

lemma col_marks_absent: "x \<notin> set (col_windows cs) \<Longrightarrow> col_marks cs x = None"
  by simp

lemma cols_ok_simps [simp]:
  "cols_ok []"
  "cols_ok (c # cs) \<longleftrightarrow> col_ok c \<and> cols_ok cs \<and> distinct (window_ids (col_root c)) \<and>
     set (window_ids (col_root c)) \<inter> set (col_windows cs) = {}"
  "cols_ok (cs @ ds) \<longleftrightarrow> cols_ok cs \<and> cols_ok ds \<and> set (col_windows cs) \<inter> set (col_windows ds) = {}"
  by (auto simp: cols_ok_def)

lemma position_split:
  assumes "\<forall>x \<in> set us. \<not> P x" "P y"
  shows "position P (us @ y # vs) = Some (length us)"
  using assms by (induction us) auto

text \<open>The column that holds a window, with its index.\<close>

lemma column_split:
  assumes "cols_ok cs" "x \<in> set (col_windows cs)"
  obtains us c vs where "cs = us @ c # vs" "x \<in> set (window_ids (col_root c))"
    "position (\<lambda>c. column_contains c x) cs = Some (length us)" "col_marks cs x = Some (maximized c)"
proof -
  obtain c where c: "c \<in> set cs" "x \<in> set (window_ids (col_root c))" using assms(2) by (auto simp: set_col_windows)
  then obtain us vs where cs: "cs = us @ c # vs" by (blast dest: split_list)
  have x: "x \<notin> set (col_windows us)" using assms(1) c(2) by (auto simp: cs)
  then have "position (\<lambda>c. column_contains c x) cs = Some (length us)"
    unfolding cs using c(2) by (intro position_split) (auto simp: column_contains_def set_col_windows)
  moreover have "col_marks cs x = Some (maximized c)" using x c(2) by (simp add: cs col_marks_append col_marks_absent)
  ultimately show thesis using that cs c(2) by blast
qed

lemma fraction_ok_literals [simp]: "fraction_ok DEFAULT_COLUMN_FRACTION"
  and MIN_COLUMN_FRACTION_value: "MIN_COLUMN_FRACTION = Fin (1 / 4)"
proof -
  have "quotient_of (3 / 5) = (3, 5)" "quotient_of (1 / 4) = (1, 4)"
  proof -
    have "gcd 3 (5 :: int) = 1" by code_simp
    then show "quotient_of (3 / 5) = (3, 5)" "quotient_of (1 / 4) = (1, 4)"
      by (simp_all add: rat_divide_code quotient_of_number normalize_def Let_def)
  qed
  moreover have "bitlen 1 = 1" "bitlen 3 = 2" "bitlen 4 = 3" "bitlen 5 = 3"
    by (simp_all add: bitlen_def compute_floorlog)
  ultimately have e: "rat_exponent (3 / 5) = - 1" "rat_exponent (1 / 4) = - 2"
    by (simp_all add: rat_exponent_def pow2_def)
  have "\<lfloor>27021597764222976 / 5 :: rat\<rfloor> = 5404319552844595"
    by (rule floor_unique; simp)
  then show "fraction_ok DEFAULT_COLUMN_FRACTION" "MIN_COLUMN_FRACTION = Fin (1 / 4)"
    by (simp_all add: DEFAULT_COLUMN_FRACTION_def MIN_COLUMN_FRACTION_def f64_literal_def
        f64_round_def f64_unit_def e Let_def pow2_def round_half_even_def)
qed

lemma fraction_ok_clamp: "x \<noteq> NaN \<Longrightarrow> fraction_ok (f64_clamp x MIN_COLUMN_FRACTION (f64_from_i32 1))"
  by (cases x) (auto simp: f64_clamp_def MIN_COLUMN_FRACTION_value f64_from_i32_def)

lemma column_single_simps [simp]:
  "col_root (column_single x f) = Window x" "maximized (column_single x f) = False"
  "width_fraction (column_single x f) = f" "col_active (column_single x f) = x"
  by (simp_all add: column_single_def)

lemma single_leaf: "leaf_count n = 1 \<Longrightarrow> x \<in> set (window_ids n) \<Longrightarrow> window_ids n = [x]"
  by (auto simp: leaf_count_length length_Suc_conv)

section \<open>Rows\<close>

definition row_windows :: "'w scrolling_row \<Rightarrow> 'w list" where
  "row_windows r = col_windows (columns r)"

definition row_marks :: "'w scrolling_row \<Rightarrow> 'w \<Rightarrow> bool option" where
  "row_marks r = col_marks (columns r)"

definition row_ok :: "'w scrolling_row \<Rightarrow> bool" where
  "row_ok r \<longleftrightarrow> columns r \<noteq> [] \<and> cols_ok (columns r) \<and>
     (\<exists>a. row_active r = Some a \<and> a \<in> set (row_windows r))"

lemma row_position_less: "row_position r x = Some i \<Longrightarrow> i < length (columns r)"
  using position_less by (fastforce simp: row_position_def)

lemma row_position_None: "row_position r x = None \<longleftrightarrow> x \<notin> set (row_windows r)"
  by (simp add: row_position_def position_None column_contains_def row_windows_def set_col_windows)

lemma row_marks_None [simp]: "row_marks r x = None \<longleftrightarrow> x \<notin> set (row_windows r)"
  by (simp add: row_marks_def row_windows_def)

lemma row_split:
  assumes "cols_ok (columns r)" "x \<in> set (row_windows r)"
  obtains us c vs where "columns r = us @ c # vs" "x \<in> set (window_ids (col_root c))"
    "row_position r x = Some (length us)" "row_marks r x = Some (maximized c)"
  using column_split [OF assms(1) assms(2) [unfolded row_windows_def]]
  by (metis row_position_def row_marks_def)

text \<open>The active column exists: \<open>active_index\<close> is in range.\<close>

lemma active_index_less:
  assumes "columns r \<noteq> []"
  shows "active_index r < length (columns r)"
  using assms row_position_less
  by (fastforce simp: active_index_def bind_eq_Some_conv split: option.splits)

lemma position_marks:
  assumes "cols_ok (columns r)"
  shows "row_marks r x = map_option (\<lambda>i. maximized (columns r ! i)) (row_position r x)"
proof (cases "x \<in> set (row_windows r)")
  case True
  with assms obtain us c vs where "columns r = us @ c # vs" "row_position r x = Some (length us)"
    "row_marks r x = Some (maximized c)" by (rule row_split)
  then show ?thesis by simp
next
  case False
  then have "row_position r x = None" "row_marks r x = None" by (simp_all add: row_position_None)
  then show ?thesis by simp
qed

subsection \<open>Changing one column\<close>

text \<open>A column that keeps its windows, in order, and its mark.\<close>

definition same_column :: "'w scrolling_column \<Rightarrow> 'w scrolling_column \<Rightarrow> bool" where
  "same_column c c' \<longleftrightarrow> window_ids (col_root c') = window_ids (col_root c) \<and> maximized c' = maximized c \<and> col_ok c'"

lemma same_column_refl [simp]: "col_ok c \<Longrightarrow> same_column c c"
  by (simp add: same_column_def)

lemma same_columns:
  assumes "list_all2 same_column cs ds" "cols_ok cs"
  shows "cols_ok ds \<and> col_windows ds = col_windows cs \<and> col_marks ds = col_marks cs"
  using assms by (induction rule: list_all2_induct) (auto simp: same_column_def fun_eq_iff)

lemma same_columns_update:
  assumes "cols_ok cs" "same_column (cs ! i) c"
  shows "list_all2 same_column cs (cs[i := c])"
proof (rule list_all2_all_nthI)
  fix j assume "j < length cs"
  then show "same_column (cs ! j) (cs[i := c] ! j)"
    using assms by (cases "i = j") (simp_all add: cols_ok_def)
qed simp

lemma row_same:
  assumes "row_ok r" "list_all2 same_column (columns r) (columns r')"
    and "\<exists>a. row_active r' = Some a \<and> a \<in> set (row_windows r)"
  shows "row_ok r' \<and> row_windows r' = row_windows r \<and> row_marks r' = row_marks r"
  using same_columns [OF assms(2)] assms by (auto simp: row_ok_def row_windows_def row_marks_def)

lemma row_same_update:
  assumes "row_ok r" "columns r' = (columns r)[i := c]" "same_column (columns r ! i) c" "row_active r' = row_active r"
  shows "row_ok r' \<and> row_windows r' = row_windows r \<and> row_marks r' = row_marks r"
  using assms same_columns_update [of "columns r" i c] by (intro row_same) (auto simp: row_ok_def)

lemma row_same_columns:
  assumes "row_ok r" "columns r' = columns r" "row_active r' = row_active r"
  shows "row_ok r' \<and> row_windows r' = row_windows r \<and> row_marks r' = row_marks r"
  using assms by (simp add: row_ok_def row_windows_def row_marks_def)

text \<open>A new column with one window.\<close>

lemma row_put_column:
  assumes "cols_ok (columns r)" "x \<notin> set (row_windows r)" "col_ok c" "col_root c = Window x"
    and "columns r' = insert_at i c (columns r)"
    and "\<exists>a. row_active r' = Some a \<and> a \<in> insert x (set (row_windows r))"
  shows "row_ok r' \<and> set (row_windows r') = insert x (set (row_windows r)) \<and>
    row_marks r' = (row_marks r)(x \<mapsto> maximized c)"
proof -
  define us where "us = take i (columns r)"
  define vs where "vs = drop i (columns r)"
  have r: "columns r = us @ vs" by (simp add: us_def vs_def)
  have r': "columns r' = us @ c # vs" using assms(5) by (simp add: insert_at_def us_def vs_def)
  have x: "x \<notin> set (col_windows us)" "x \<notin> set (col_windows vs)" using assms(2) by (simp_all add: row_windows_def r)
  have w: "set (row_windows r') = insert x (set (row_windows r))" by (auto simp: row_windows_def r r' assms(4))
  have "row_marks r' = (row_marks r)(x \<mapsto> maximized c)"
    using x by (auto simp: row_marks_def r r' fun_eq_iff col_marks_append assms(4) col_marks_absent split: option.split)
  moreover have "cols_ok (columns r')" using assms(1,3) x by (auto simp: r r' assms(4))
  ultimately show ?thesis using assms(6) w by (auto simp: row_ok_def r')
qed

subsection \<open>Taking a window out\<close>

lemma extract_tile_tree:
  assumes "x \<in> set (window_ids n)" "leaf_count n \<noteq> 1" "ratios_ok n"
  obtains t where "node_remove n x = Some (Some t, True)" "window_ids t = remove1 x (window_ids n)" "ratios_ok t"
proof -
  obtain t' where t': "node_remove n x = Some (t', True)"
    and ids: "(case t' of None \<Rightarrow> [] | Some t \<Rightarrow> window_ids t) = remove1 x (window_ids n)"
    using assms(1) by (rule node_remove_ids)
  have "length (remove1 x (window_ids n)) \<noteq> 0"
    using assms(1,2) by (cases "window_ids n") (auto simp: length_remove1 leaf_count_length)
  with ids obtain t where "t' = Some t" by (cases t') auto
  with t' ids ratios_ok_remove [OF assms(3) t'] show thesis by (intro that) auto
qed

text \<open>The row after the extraction, column by column.\<close>

lemma extract_leaf_split:
  assumes "cols_ok (columns r)" "x \<in> set (row_windows r)"
  obtains us c vs r' where "columns r = us @ c # vs" "x \<in> set (window_ids (col_root c))" "col_ok c"
    "row_marks r x = Some (maximized c)"
    "extract_leaf r x = (r', Some \<lparr>ex_window = x, ex_width_fraction = width_fraction c,
       ex_cross_extent = cross_extent c, ex_maximized = maximized c\<rparr>)"
    "(window_ids (col_root c) = [x] \<and> columns r' = us @ vs) \<or>
     (\<exists>c'. columns r' = us @ c' # vs \<and> window_ids (col_root c') = remove1 x (window_ids (col_root c)) \<and>
        col_ok c' \<and> maximized c' = False \<and> maximized c = False)"
    "row_active r \<noteq> Some x \<longrightarrow> columns r' \<noteq> [] \<longrightarrow> row_active r' = row_active r"
    "row_active r = Some x \<longrightarrow> columns r' \<noteq> [] \<longrightarrow> (\<exists>d \<in> set (columns r'). row_active r' = Some (col_active d))"
proof -
  obtain us c vs where r: "columns r = us @ c # vs" and x: "x \<in> set (window_ids (col_root c))"
    and pos: "row_position r x = Some (length us)" and mark: "row_marks r x = Some (maximized c)"
    by (rule row_split [OF assms])
  have c: "col_ok c" using assms(1) by (simp add: r)
  let ?ex = "\<lparr>ex_window = x, ex_width_fraction = width_fraction c, ex_cross_extent = cross_extent c,
      ex_maximized = maximized c\<rparr>"
  define w where "w = (row_active r = Some x)"
  show thesis
  proof (cases "leaf_count (col_root c) = 1")
    case True
    define r' where "r' = (extract_column r (length us) w)\<lparr>scroll_origin := None, resize_view_anchored := False,
        needs_reveal := (needs_reveal r \<or> w)\<rparr>"
    have "extract_leaf r x = (r', Some ?ex)"
      using True by (simp add: extract_leaf_def pos r Let_def r'_def w_def)
    moreover have rest: "window_ids (col_root c) = [x] \<and> columns r' = us @ vs"
      using single_leaf [OF True x] by (simp add: r'_def extract_column_def remove_at_def r Let_def)
    moreover have act: "row_active r' = (if us @ vs = [] then None
        else if w then Some (col_active ((us @ vs) ! min (length us - 1) (length (us @ vs) - 1))) else row_active r)"
      by (simp add: r'_def extract_column_def remove_at_def r Let_def)
    have "\<exists>d \<in> set (columns r'). row_active r' = Some (col_active d)" if "w" "columns r' \<noteq> []"
    proof -
      have "(us @ vs) ! min (length us - 1) (length (us @ vs) - 1) \<in> set (us @ vs)"
        by (rule nth_mem) (use that(2) rest in \<open>cases us; auto simp: min_less_iff_disj\<close>)
      with that rest show ?thesis unfolding act by auto
    qed
    moreover have "row_active r' = row_active r" if "\<not> w" "columns r' \<noteq> []" using that rest unfolding act by auto
    ultimately show thesis using that [OF r x c mark, of r'] unfolding w_def by blast
  next
    case False
    obtain t where t: "node_remove (col_root c) x = Some (Some t, True)"
      "window_ids t = remove1 x (window_ids (col_root c))" "ratios_ok t"
      using x False c by (rule_tac extract_tile_tree) (auto simp: col_ok_def)
    define c' where "c' = c\<lparr>col_root := t, col_active := (if col_active c = x then last_window t else col_active c)\<rparr>"
    define r' where "r' = (extract_tile r (length us) x w)\<lparr>scroll_origin := None, resize_view_anchored := False,
        needs_reveal := (needs_reveal r \<or> w)\<rparr>"
    have "extract_leaf r x = (r', Some ?ex)"
      using False by (simp add: extract_leaf_def pos r Let_def r'_def w_def)
    moreover have "columns r' = us @ c' # vs" "row_active r' = (if w then Some (col_active c') else row_active r)"
      by (simp_all add: r'_def extract_tile_def r Let_def t c'_def)
    moreover have "last_window t \<in> set (remove1 x (window_ids (col_root c)))" by (simp flip: t(2))
    then have "col_ok c'" "maximized c' = False" "maximized c = False"
      using c False t by (auto simp: col_ok_def c'_def in_set_remove1)
    moreover have "window_ids (col_root c') = remove1 x (window_ids (col_root c))" by (simp add: c'_def t)
    ultimately show thesis using that [OF r x c mark, of r'] unfolding w_def by auto
  qed
qed

lemma extract_leaf_law:
  assumes "row_ok r" "row_marks r x = Some b"
  obtains r' ex where "extract_leaf r x = (r', Some ex)" "ex_window ex = x" "fraction_ok (ex_width_fraction ex)"
    "ex_maximized ex = b" "row_windows r' = remove1 x (row_windows r)" "row_marks r' = (row_marks r)(x := None)"
    "columns r' \<noteq> [] \<longrightarrow> row_ok r'"
proof -
  have ok: "cols_ok (columns r)" and x: "x \<in> set (row_windows r)"
    using assms row_marks_None [of r x] by (simp_all add: row_ok_def del: row_marks_None)
  obtain a where a: "row_active r = Some a" "a \<in> set (row_windows r)" using assms(1) by (auto simp: row_ok_def)
  obtain us c vs r' where r: "columns r = us @ c # vs" and xc: "x \<in> set (window_ids (col_root c))" and c: "col_ok c"
    and mark: "row_marks r x = Some (maximized c)"
    and e: "extract_leaf r x = (r', Some \<lparr>ex_window = x, ex_width_fraction = width_fraction c,
       ex_cross_extent = cross_extent c, ex_maximized = maximized c\<rparr>)"
    and cols: "(window_ids (col_root c) = [x] \<and> columns r' = us @ vs) \<or>
     (\<exists>c'. columns r' = us @ c' # vs \<and> window_ids (col_root c') = remove1 x (window_ids (col_root c)) \<and>
        col_ok c' \<and> maximized c' = False \<and> maximized c = False)"
    and act: "row_active r \<noteq> Some x \<longrightarrow> columns r' \<noteq> [] \<longrightarrow> row_active r' = row_active r"
    "row_active r = Some x \<longrightarrow> columns r' \<noteq> [] \<longrightarrow> (\<exists>d \<in> set (columns r'). row_active r' = Some (col_active d))"
    by (rule extract_leaf_split [OF ok x])
  have xs: "x \<notin> set (col_windows us)" "x \<notin> set (col_windows vs)" "distinct (window_ids (col_root c))"
    using ok xc by (auto simp: r)
  have w: "row_windows r' = remove1 x (row_windows r)"
    using cols xs xc by (auto simp: row_windows_def r remove1_append)
  have marks: "row_marks r' = (row_marks r)(x := None)"
    using cols xs by (auto simp: row_marks_def r fun_eq_iff col_marks_append col_marks_absent split: option.split)
  have ok': "cols_ok (columns r')"
    using cols ok by (auto simp: r dest: set_remove1_subset [THEN subsetD])
  have "row_ok r'" if ne: "columns r' \<noteq> []"
  proof (cases "a = x")
    case True
    then obtain d where "d \<in> set (columns r')" "row_active r' = Some (col_active d)" using act(2) a ne by blast
    then show ?thesis using ne ok' by (auto simp: row_ok_def row_windows_def set_col_windows cols_ok_def col_ok_def)
  next
    case False
    then show ?thesis using act(1) a ne ok' by (simp add: row_ok_def w)
  qed
  then show thesis using that [OF e] c mark assms(2) w marks by (simp add: col_ok_def)
qed

lemma row_insert_beside_law:
  assumes "row_ok r" "row_marks r target = Some False" "ex_window ex \<notin> set (row_windows r)"
  obtains r' where "row_insert_beside r ex target d = (r', True)" "row_ok r'"
    "row_windows r' = insert_beside (inserts_first d) target (ex_window ex) (row_windows r)"
    "row_marks r' = (row_marks r)(ex_window ex \<mapsto> False)"
proof -
  let ?x = "ex_window ex"
  have ok: "cols_ok (columns r)" and t: "target \<in> set (row_windows r)"
    using assms(1,2) row_marks_None [of r target] by (simp_all add: row_ok_def del: row_marks_None)
  obtain us c vs where r: "columns r = us @ c # vs" and tc: "target \<in> set (window_ids (col_root c))"
    and pos: "row_position r target = Some (length us)" and mark: "row_marks r target = Some (maximized c)"
    by (rule row_split [OF ok t])
  define tree where "tree = fst (split_window_beside (col_root c) target ?x d)"
  have split: "split_window_beside (col_root c) target ?x d = (tree, True)"
    and ids: "window_ids tree = insert_beside (inserts_first d) target ?x (window_ids (col_root c))"
    using split_window_beside_ids [of "col_root c" target ?x d] tc by (simp_all add: tree_def prod_eq_iff)
  define c' where "c' = c\<lparr>col_root := tree, cross_extent := None, col_active := ?x\<rparr>"
  define r' where "r' = r\<lparr>columns := us @ c' # vs, row_active := Some ?x, scroll_origin := None, needs_reveal := True\<rparr>"
  have "row_insert_beside r ex target d = (r', True)"
    by (simp add: row_insert_beside_def pos r Let_def column_split_window_beside_def split r'_def c'_def)
  moreover have xs: "?x \<notin> set (window_ids (col_root c))" "?x \<notin> set (col_windows us)" "?x \<notin> set (col_windows vs)"
    using assms(3) by (simp_all add: row_windows_def r)
  have set: "set (window_ids tree) = insert ?x (set (window_ids (col_root c)))"
    unfolding ids by (rule set_insert_beside [OF tc])
  have "distinct (window_ids tree)" unfolding ids by (rule distinct_insert_beside) (use xs ok in \<open>auto simp: r\<close>)
  moreover have "col_ok c'"
    using ok mark assms(2) ratios_ok_split_beside [of "col_root c" target ?x d]
    by (auto simp: col_ok_def r c'_def set tree_def [symmetric])
  moreover have tus: "target \<notin> set (col_windows us)" using ok tc by (auto simp: r)
  ultimately show thesis
  proof (intro that)
    show "row_ok r'" using ok xs \<open>distinct (window_ids tree)\<close> \<open>col_ok c'\<close>
      by (auto simp: row_ok_def r'_def c'_def r set row_windows_def)
    show "row_windows r' = insert_beside (inserts_first d) target ?x (row_windows r)"
      using tus tc by (simp add: row_windows_def r'_def c'_def r ids insert_beside_append)
    show "row_marks r' = (row_marks r)(?x \<mapsto> False)"
      using xs mark assms(2)
      by (auto simp: row_marks_def r'_def c'_def r set fun_eq_iff col_marks_append col_marks_absent split: option.split)
  qed
qed

subsection \<open>Maximizing\<close>

lemma row_remark:
  assumes ok: "row_ok r" and x: "row_position r x = Some i" and one: "leaf_count (col_root (columns r ! i)) = 1"
    and r': "columns r' = (columns r)[i := (columns r ! i)\<lparr>maximized := m\<rparr>]" "row_active r' = Some x"
  shows "row_ok r' \<and> row_windows r' = row_windows r \<and> row_marks r' = (row_marks r)(x \<mapsto> m)"
proof -
  have cs: "cols_ok (columns r)" and "x \<in> set (row_windows r)"
    using ok x row_position_None [of r x] by (auto simp: row_ok_def)
  then obtain us c vs where r: "columns r = us @ c # vs" and xc: "x \<in> set (window_ids (col_root c))"
    and i: "i = length us" using row_split [of r x] x by (metis option.inject)
  have c': "columns r' = us @ c\<lparr>maximized := m\<rparr> # vs" by (simp add: r' r i)
  have ids: "window_ids (col_root c) = [x]" using single_leaf [OF _ xc] one by (simp add: r i)
  have "x \<notin> set (col_windows us)" using cs xc by (auto simp: r)
  then have "row_marks r' = (row_marks r)(x \<mapsto> m)"
    by (auto simp: row_marks_def c' r ids fun_eq_iff col_marks_append col_marks_absent split: option.split)
  moreover have "col_ok (c\<lparr>maximized := m\<rparr>)" using cs by (auto simp: r col_ok_def leaf_count_length ids)
  ultimately show ?thesis using cs r'(2) by (auto simp: row_ok_def row_windows_def c' r ids)
qed

lemma row_maximize_law:
  assumes ok: "row_ok r" and x: "row_position r x = Some i" "row_marks r x = Some b"
  shows "row_ok (row_maximize r i x) \<and> set (row_windows (row_maximize r i x)) = set (row_windows r) \<and>
    row_marks (row_maximize r i x) = (row_marks r)(x \<mapsto> True)"
proof -
  define r1 where "r1 = r\<lparr>scroll_origin := None, view_to_restore := Some \<lparr>snap_axis = row_axis r,
      snap_extent = viewport_extent r, snap_gap = viewport_gap r, snap_start = view_start r\<rparr>\<rparr>"
  have r1: "row_ok r1" "row_windows r1 = row_windows r" "row_marks r1 = row_marks r" "columns r1 = columns r"
    using row_same_columns [OF ok, of r1] by (simp_all add: r1_def)
  have xw: "x \<in> set (row_windows r)" using x(2) row_marks_None [of r x] by (simp del: row_marks_None)
  show ?thesis
  proof (cases "1 < leaf_count (col_root (columns r ! i))")
    case True
    obtain r2 ex where ex: "extract_leaf r1 x = (r2, Some ex)" "fraction_ok (ex_width_fraction ex)"
      "row_windows r2 = remove1 x (row_windows r)" "row_marks r2 = (row_marks r)(x := None)"
      "columns r2 \<noteq> [] \<longrightarrow> row_ok r2"
      by (rule extract_leaf_law [OF r1(1) x(2) [folded r1(3)]]) (simp only: r1)
    have d: "distinct (row_windows r)" using ok by (simp add: row_ok_def cols_ok_def row_windows_def)
    have "cols_ok (columns r2)"
      using ex(5) by (cases "columns r2 = []") (auto simp: row_ok_def)
    moreover have "row_maximize r i x =
        r2\<lparr>columns := insert_at (i + 1) ((column_single x (ex_width_fraction ex))\<lparr>maximized := True\<rparr>) (columns r2),
           row_active := Some x, needs_reveal := True\<rparr>"
      using True ex(1) by (simp add: row_maximize_def Let_def r1_def [symmetric] r1(4))
    moreover have "x \<notin> set (row_windows r2)" using d by (simp add: ex(3))
    ultimately show ?thesis
      using row_put_column [of r2 x "(column_single x (ex_width_fraction ex))\<lparr>maximized := True\<rparr>" "row_maximize r i x"
          "i + 1"] ex(2) xw d
      by (auto simp: col_ok_def ex(3,4) in_set_remove1)
  next
    case False
    then have "leaf_count (col_root (columns r1 ! i)) = 1"
      using window_ids_not_Nil [of "col_root (columns r ! i)"]
      by (simp add: leaf_count_length r1(4) not_less le_Suc_eq del: window_ids_not_Nil)
    moreover have "row_position r1 x = Some i" using x(1) by (simp add: row_position_def r1(4))
    ultimately show ?thesis
      using row_remark [OF r1(1), of x i "row_maximize r i x" True] False r1
      by (simp add: row_maximize_def Let_def r1_def [symmetric])
  qed
qed

lemma row_unmaximize_law:
  assumes ok: "row_ok r" and x: "row_position r x = Some i" and "maximized (columns r ! i)"
  shows "row_ok (row_unmaximize r i x) \<and> row_windows (row_unmaximize r i x) = row_windows r \<and>
    row_marks (row_unmaximize r i x) = (row_marks r)(x \<mapsto> False)"
proof (rule row_remark [OF ok x])
  have "col_ok (columns r ! i)" using ok row_position_less [OF x] by (simp add: row_ok_def cols_ok_def)
  then show "leaf_count (col_root (columns r ! i)) = 1" using assms(3) by (simp add: col_ok_def)
qed (simp_all add: row_unmaximize_def Let_def split: option.split)

lemma row_set_maximized_law:
  assumes ok: "row_ok r" and x: "x \<in> set (row_windows r)"
  shows "row_ok (fst (row_set_maximized r x m)) \<and>
    set (row_windows (fst (row_set_maximized r x m))) = set (row_windows r) \<and>
    row_marks (fst (row_set_maximized r x m)) = (row_marks r)(x \<mapsto> m)"
proof -
  obtain i where i: "row_position r x = Some i" using x by (cases "row_position r x") (auto simp: row_position_None)
  then have mark: "row_marks r x = Some (maximized (columns r ! i))" using position_marks [of r x] ok by (simp add: row_ok_def)
  show ?thesis
    using row_maximize_law [OF ok i mark] row_unmaximize_law [OF ok i] mark ok
    by (auto simp: row_set_maximized_def i fun_upd_idem)
qed

subsection \<open>Scrolling and arranging\<close>

lemma prepare_arrange_keeps [simp]:
  "columns (row_prepare_arrange r area gap axis mins) = columns r"
  "row_active (row_prepare_arrange r area gap axis mins) = row_active r"
  by (simp_all add: row_prepare_arrange_def Let_def)

lemma scroll_keeps [simp]:
  "columns (fst (row_scroll_horizontally r area gap axis d mins)) = columns r"
  "row_active (fst (row_scroll_horizontally r area gap axis d mins)) = row_active r"
  by (simp_all add: row_scroll_horizontally_def Let_def)

lemma nearest_from_less:
  assumes "nearest_from i cs center best = Some (j, d)" "\<And>k e. best = Some (k, e) \<Longrightarrow> k < i"
  shows "j < i + length cs"
  using assms
proof (induction cs arbitrary: i best)
  case Nil
  then show ?case by simp
next
  case (Cons c cs)
  let ?d = "f64_abs (f64_sub c center)"
  have "j < Suc i + length cs"
    by (rule Cons.IH [OF Cons.prems(1) [simplified, unfolded Let_def]])
      (use Cons.prems(2) in \<open>fastforce split: option.splits if_splits\<close>)
  then show ?case by simp
qed

lemma nearest_from_None: "nearest_from i cs center best = None \<longleftrightarrow> cs = [] \<and> best = None"
  by (induction cs arbitrary: i best) (auto simp: Let_def split: option.split)

lemma nearest_index_less: "active < length cs \<Longrightarrow> nearest_index cs extent active start < length cs"
  using nearest_from_less [of 0 cs _ None] by (force simp: nearest_index_def split: option.split)

lemma scroll_selection_less:
  assumes "active < length cs"
  shows "scroll_selection cs extent active start origin projected < length cs"
proof -
  have "min (active + 1) (length cs - 1) < length cs" "active - 1 < length cs" using assms by auto
  then show ?thesis
    using nearest_index_less [OF assms, of extent start] assms
    by (auto simp: scroll_selection_def Let_def split: option.split)
qed

lemma length_widths [simp]: "length (widths r area gap mins axis) = length (columns r)"
  by (simp add: widths_def Let_def)

lemma length_centers [simp]: "length (centers ws gap) = length ws"
proof -
  have "length (centers_from s ws gap) = length ws" for s by (induction ws arbitrary: s) auto
  then show ?thesis by (simp add: centers_def)
qed

lemma active_index_same: "columns r' = columns r \<Longrightarrow> row_active r' = row_active r \<Longrightarrow> active_index r' = active_index r"
  unfolding active_index_def row_position_def [abs_def] by (simp cong: option.case_cong)

lemma finish_scroll_law:
  assumes ok: "row_ok r"
  obtains r' a where "row_finish_horizontal_scroll r area gap axis cancelled projected mins = (r', Some a)"
    "row_ok r'" "row_windows r' = row_windows r" "row_marks r' = row_marks r" "row_active r' = Some a"
    "a \<in> set (row_windows r)"
proof -
  have ne: "columns r \<noteq> []" using ok by (simp add: row_ok_def)
  define r1 where "r1 = row_prepare_arrange r area gap axis mins"
  define cs where "cs = centers (widths r1 area gap mins axis) gap"
  define active where "active = active_index r1"
  define chosen where "chosen = (if cancelled then active
     else scroll_selection cs (view_extent r1 area axis) active (case view_start r1 of Some s \<Rightarrow> s | None \<Rightarrow> Fin 0)
       (scroll_origin r1) projected)"
  define a where "a = col_active (columns r ! chosen)"
  have "active < length cs" using active_index_less [of r1] ne by (simp add: active_def cs_def r1_def)
  then have "chosen < length (columns r)"
    using scroll_selection_less [of active cs] by (simp add: chosen_def cs_def r1_def)
  then have a: "a \<in> set (row_windows r)"
    using ok nth_mem [of chosen "columns r"]
    by (fastforce simp: a_def row_ok_def cols_ok_def col_ok_def row_windows_def set_col_windows)
  obtain r' where r': "row_finish_horizontal_scroll r area gap axis cancelled projected mins = (r', Some a)"
    "columns r' = columns r" "row_active r' = Some a"
    using ne by (simp add: row_finish_horizontal_scroll_def Let_def a_def chosen_def active_def cs_def r1_def)
  show thesis
    using that [OF r'(1)] a r'(2,3) ok by (simp add: row_ok_def row_windows_def row_marks_def)
qed

subsection \<open>Resizing\<close>

lemma resize_cross_axis_same:
  "col_ok c \<Longrightarrow> same_column c (fst (resize_cross_axis c change g axis mins maxs))"
  by (cases change) (simp_all add: resize_cross_axis_def Let_def same_column_def col_ok_def)

lemma same_column_trans: "same_column a b \<Longrightarrow> same_column b c \<Longrightarrow> same_column a c"
  by (simp add: same_column_def)

lemma same_column_tree:
  assumes "col_ok c" "window_ids t = window_ids (col_root c)" "ratios_ok t"
  shows "same_column c (c\<lparr>col_root := t\<rparr>)"
  using assms by (simp add: same_column_def col_ok_def leaf_count_length)

lemma drag_cross_same: "col_ok c \<Longrightarrow> same_column c (fst (drag_cross c full axis edges dx dy mins maxs))"
  using resize_cross_axis_same [of c] by (simp add: drag_cross_def split: prod.split)

lemma same_column_width: "col_ok c \<Longrightarrow> fraction_ok f \<Longrightarrow> same_column c (c\<lparr>width_fraction := f\<rparr>)"
  by (simp add: same_column_def col_ok_def)

lemma fraction_ok_finite: "fraction_ok f \<Longrightarrow> f64_is_finite f"
  by (cases f) auto

lemma drag_main_same:
  assumes "col_ok c"
  shows "same_column c (fst (drag_main c axis resized extent edges dx dy))"
proof -
  obtain leading trailing delta where d: "main_drag axis edges dx dy = (leading, trailing, delta)" by (metis prod_cases3)
  let ?s = "if leading \<and> \<not> trailing then f64_neg delta else delta"
  have "fraction_ok (f64_clamp (f64_add (width_fraction c) (f64_div ?s (f64_from_i32 extent)))
      MIN_COLUMN_FRACTION (f64_from_i32 1))" if "f64_is_finite delta" "0 < extent"
    using that assms
    by (intro fraction_ok_clamp f64_add_not_NaN f64_div_not_NaN) (auto simp: finite_not_NaN fraction_ok_finite col_ok_def)
  then show ?thesis using assms by (simp add: drag_main_def d Let_def same_column_width)
qed

lemma keyboard_fraction_ok:
  assumes "keyboard_fraction change extent n = Some f" "n \<noteq> 0"
  shows "fraction_ok f"
proof (cases change)
  case (Adjust delta)
  with assms(1) have f: "f = f64_clamp (f64_div (f64_add (f64_from_i32 extent) delta) (f64_from_i32 n))
      MIN_COLUMN_FRACTION (f64_from_i32 1)" and "f64_is_finite delta"
    by (simp_all add: keyboard_fraction_def split: if_splits)
  then show ?thesis
    unfolding f using assms(2)
    by (intro fraction_ok_clamp f64_div_not_NaN f64_add_not_NaN) (simp_all add: f64_from_i32_def finite_not_NaN)
next
  case Reset
  with assms(1) show ?thesis by (auto simp: keyboard_fraction_def)
qed

lemma keyboard_column_same:
  assumes "col_ok c"
  shows "same_column c (fst (keyboard_column c area gap axis change extent mins))"
proof -
  have "max (main_extent axis area) 1 \<noteq> 0" by (simp add: max_def)
  from keyboard_fraction_ok [OF _ this] assms show ?thesis
    by (simp add: keyboard_column_def Let_def same_column_width split: option.split)
qed

lemma keyboard_row_law:
  assumes ok: "row_ok r"
  shows "row_ok (fst (row_resize_from_keyboard r x area rgap raxis change mins maxs)) \<and>
    row_windows (fst (row_resize_from_keyboard r x area rgap raxis change mins maxs)) = row_windows r \<and>
    row_marks (fst (row_resize_from_keyboard r x area rgap raxis change mins maxs)) = row_marks r"
    (is "row_ok ?r \<and> _")
proof (cases "row_position r x")
  case None
  then show ?thesis using ok by (simp add: row_resize_from_keyboard_def)
next
  case (Some i)
  let ?c = "columns r ! i"
  have c: "col_ok ?c" using ok row_position_less [OF Some] by (simp add: row_ok_def cols_ok_def)
  show ?thesis
  proof (cases "maximized ?c")
    case True
    then show ?thesis using ok by (simp add: row_resize_from_keyboard_def Some Let_def)
  next
    case False
    define extent where "extent = column_width r i area (max rgap 0) mins (row_axis r)"
    define g where "g = tile_geometry (row_axis r) area (main_location (row_axis r) area) extent"
    obtain t answer where n: "node_resize_from_keyboard (col_root ?c) x rgap raxis change g mins = (t, answer)"
      by fastforce
    have tree: "same_column ?c (?c\<lparr>col_root := t\<rparr>)"
      using keyboard_resize_keeps [of "col_root ?c" x rgap raxis change g mins] c n
      by (intro same_column_tree) (simp_all add: col_ok_def)
    define c' where "c' = (case answer of Some _ \<Rightarrow> ?c\<lparr>col_root := t\<rparr>
      | None \<Rightarrow> if raxis \<noteq> row_axis r then
          (if leaf_count t = 1 then fst (resize_cross_axis (?c\<lparr>col_root := t\<rparr>) change g (row_axis r) mins maxs)
           else ?c\<lparr>col_root := t\<rparr>)
        else fst (keyboard_column (?c\<lparr>col_root := t\<rparr>) area (max rgap 0) (row_axis r) change extent mins))"
    have t: "col_ok (?c\<lparr>col_root := t\<rparr>)" using tree by (simp add: same_column_def)
    have "same_column ?c c'"
      using same_column_trans [OF tree] tree resize_cross_axis_same [OF t] keyboard_column_same [OF t]
      by (simp add: c'_def split: option.split)
    moreover have "columns ?r = (columns r)[i := c']" "row_active ?r = row_active r"
      using False
      by (cases answer; simp add: row_resize_from_keyboard_def Some Let_def extent_def [symmetric] g_def [symmetric]
          n c'_def split: prod.split)+
    ultimately show ?thesis by (intro row_same_update [OF ok])
  qed
qed

lemma resize_row_law:
  assumes ok: "row_ok r"
  shows "row_ok (fst (row_resize r x area rgap dx dy edges mins maxs)) \<and>
    row_windows (fst (row_resize r x area rgap dx dy edges mins maxs)) = row_windows r \<and>
    row_marks (fst (row_resize r x area rgap dx dy edges mins maxs)) = row_marks r" (is "row_ok ?r \<and> _")
proof (cases "row_position r x")
  case None
  then show ?thesis using ok by (simp add: row_resize_def)
next
  case (Some i)
  let ?c = "columns r ! i"
  have c: "col_ok ?c" using ok row_position_less [OF Some] by (simp add: row_ok_def cols_ok_def)
  define gap where "gap = max rgap 0"
  define axis where "axis = row_axis r"
  define aa where "aa = (if maximized ?c then maximize_area_or r area else area)"
  define full where "full = tile_geometry axis aa (main_location axis aa) (column_width r i area gap mins axis)"
  define g where "g = column_geometry ?c full axis mins maxs"
  obtain t resized where n: "resize_window (retain_split_axes (col_root ?c) g gap mins) x g gap edges dx dy = (t, resized)"
    by fastforce
  have tree: "same_column ?c (?c\<lparr>col_root := t\<rparr>)"
    using resize_window_keeps [of "retain_split_axes (col_root ?c) g gap mins" x g gap edges dx dy] c n
    by (intro same_column_tree) (simp_all add: col_ok_def)
  define c1 where "c1 = fst (drag_cross (?c\<lparr>col_root := t\<rparr>) full axis edges dx dy mins maxs)"
  have c1: "same_column ?c c1"
    unfolding c1_def by (rule same_column_trans [OF tree]) (rule drag_cross_same, use tree in \<open>simp add: same_column_def\<close>)
  define c2 where "c2 = fst (drag_main c1 axis resized (main_extent axis area) edges dx dy)"
  have "same_column ?c c2"
    unfolding c2_def by (rule same_column_trans [OF c1]) (rule drag_main_same, use c1 in \<open>simp add: same_column_def\<close>)
  moreover have "columns ?r = (columns r)[i := c2]" "row_active ?r = row_active r"
    by (simp_all add: row_resize_def Some Let_def gap_def [symmetric] axis_def [symmetric] aa_def [symmetric]
        full_def [symmetric] g_def [symmetric] n c1_def [symmetric] c2_def [symmetric] case_prod_unfold)
  ultimately show ?thesis by (intro row_same_update [OF ok])
qed

end
