(* ===== verification/Scrolling_Refinement.thy ===== *)
theory Scrolling_Refinement
  imports Scrolling_Layout Scrolling_Windows
begin

text \<open>
  What the scrolling layout promises: every window has one place, its space and whether it is maximized.
  \<open>sc_view\<close> reads that from the rows, \<open>view_step\<close> is the specification on a plain map, and the laws below show
  operation by operation that the rows implement it.
\<close>

section \<open>The abstraction\<close>

definition sc_view :: "'w scrolling_layout \<Rightarrow> 'w \<Rightarrow> (layout_space \<times> bool) option" where
  "sc_view l x = (case sc_find l x of None \<Rightarrow> None | Some (k, r) \<Rightarrow> map_option (Pair k) (row_marks r x))"

definition sc_ok :: "'w scrolling_layout \<Rightarrow> bool" where
  "sc_ok l \<longleftrightarrow> distinct (map fst (rows l)) \<and> sizes_ok (sc_minimum_sizes l) \<and>
     (\<forall>k r. map_of (rows l) k = Some r \<longrightarrow> row_ok r) \<and>
     (\<forall>k k' r r' x. map_of (rows l) k = Some r \<longrightarrow> map_of (rows l) k' = Some r' \<longrightarrow>
        x \<in> set (row_windows r) \<longrightarrow> x \<in> set (row_windows r') \<longrightarrow> k = k')"

lemma sc_okI:
  assumes "distinct (map fst (rows l))" "sizes_ok (sc_minimum_sizes l)"
    and "\<And>k r. map_of (rows l) k = Some r \<Longrightarrow> row_ok r"
    and "\<And>k k' r r' x. map_of (rows l) k = Some r \<Longrightarrow> map_of (rows l) k' = Some r' \<Longrightarrow>
        x \<in> set (row_windows r) \<Longrightarrow> x \<in> set (row_windows r') \<Longrightarrow> k = k'"
  shows "sc_ok l"
  unfolding sc_ok_def using assms by blast

lemma sc_okD:
  assumes "sc_ok l"
  shows "distinct (map fst (rows l))" "sizes_ok (sc_minimum_sizes l)"
    and "map_of (rows l) k = Some r \<Longrightarrow> row_ok r"
    and "map_of (rows l) k = Some r \<Longrightarrow> map_of (rows l) k' = Some r' \<Longrightarrow>
        x \<in> set (row_windows r) \<Longrightarrow> x \<in> set (row_windows r') \<Longrightarrow> k = k'"
  using assms unfolding sc_ok_def by blast+

lemma marks_windows: "row_marks r x = Some b \<Longrightarrow> x \<in> set (row_windows r)"
  by (metis option.distinct(1) row_marks_None)

lemma windows_marks: "x \<in> set (row_windows r) \<Longrightarrow> \<exists>b. row_marks r x = Some b"
  by (metis option.exhaust row_marks_None)

lemma sc_find_cases:
  assumes "sc_ok l"
  obtains "sc_find l x = None" "sc_view l x = None" "\<And>k r. map_of (rows l) k = Some r \<Longrightarrow> x \<notin> set (row_windows r)"
  | k r b where "sc_find l x = Some (k, r)" "sc_view l x = Some (k, b)" "map_of (rows l) k = Some r"
      "row_marks r x = Some b" "row_ok r"
proof (cases "sc_find l x")
  case None
  then have "x \<notin> set (row_windows r)" if "map_of (rows l) k = Some r" for k r
    using map_of_SomeD [OF that] by (auto simp: sc_find_def find_None_iff row_position_None)
  with None show thesis using that(1) by (simp add: sc_view_def)
next
  case (Some kr)
  then obtain k r where kr: "kr = (k, r)" "(k, r) \<in> set (rows l)" "x \<in> set (row_windows r)"
    by (auto simp: sc_find_def find_Some_iff row_position_None dest!: nth_mem)
  then have m: "map_of (rows l) k = Some r" using sc_okD(1) [OF assms] by simp
  obtain b where "row_marks r x = Some b" using windows_marks [OF kr(3)] by blast
  then show thesis using that(2) Some kr(1) m sc_okD(3) [OF assms m] by (simp add: sc_view_def)
qed

lemma sc_view_iff:
  assumes "sc_ok l"
  shows "sc_view l x = Some (k, b) \<longleftrightarrow> (\<exists>r. map_of (rows l) k = Some r \<and> row_marks r x = Some b)"
proof (rule sc_find_cases [OF assms, of x])
  assume "sc_view l x = None" "\<And>k r. map_of (rows l) k = Some r \<Longrightarrow> x \<notin> set (row_windows r)"
  then show ?thesis by (auto dest: marks_windows)
next
  fix k' r' b'
  assume *: "sc_view l x = Some (k', b')" "map_of (rows l) k' = Some r'" "row_marks r' x = Some b'"
  show ?thesis
  proof
    assume "sc_view l x = Some (k, b)"
    with * show "\<exists>r. map_of (rows l) k = Some r \<and> row_marks r x = Some b" by auto
  next
    assume "\<exists>r. map_of (rows l) k = Some r \<and> row_marks r x = Some b"
    then obtain r where r: "map_of (rows l) k = Some r" "row_marks r x = Some b" by blast
    then have "k = k'" using sc_okD(4) [OF assms r(1) *(2)] marks_windows * by metis
    with r * show "sc_view l x = Some (k, b)" by simp
  qed
qed

lemma sc_contains_view:
  assumes "sc_ok l"
  shows "sc_contains l x \<longleftrightarrow> sc_view l x \<noteq> None"
proof -
  have "sc_contains l x \<longleftrightarrow> (\<exists>k r. map_of (rows l) k = Some r \<and> x \<in> set (row_windows r))"
    using map_of_eq_Some_iff [OF sc_okD(1) [OF assms]] by (auto simp: sc_contains_def row_position_None)
  then show ?thesis
    by (rule_tac sc_find_cases [OF assms, of x]) (auto dest: marks_windows)
qed

lemma sc_space_view: "sc_ok l \<Longrightarrow> sc_space_for l x = map_option fst (sc_view l x)"
  by (rule sc_find_cases [of l x]; simp add: sc_space_for_def)

lemma sc_maximized_view:
  assumes "sc_ok l"
  shows "sc_is_maximized l x \<longleftrightarrow> (\<exists>k. sc_view l x = Some (k, True))"
proof -
  have "(case row_position r x of None \<Rightarrow> False | Some i \<Rightarrow> maximized (columns r ! i)) \<longleftrightarrow> row_marks r x = Some True"
    if "map_of (rows l) k = Some r" for k r
    using position_marks [of r x] sc_okD(3) [OF assms that] by (simp add: row_ok_def split: option.split)
  then show ?thesis
    using map_of_eq_Some_iff [OF sc_okD(1) [OF assms]]
    by (auto simp: sc_is_maximized_def sc_view_iff [OF assms])
qed

text \<open>Changing one row: the marks of the row and the map agree on its space, nothing else changes.\<close>

lemma sc_put:
  assumes ok: "sc_ok l" and r': "row_ok r'"
    and here: "\<And>y b. row_marks r' y = Some b \<longleftrightarrow> V y = Some (k, b)"
    and there: "\<And>y k' b. k' \<noteq> k \<Longrightarrow> V y = Some (k', b) \<longleftrightarrow> sc_view l y = Some (k', b)"
  shows "sc_ok (put_row l k r') \<and> sc_view (put_row l k r') = V"
proof -
  have m: "map_of (rows (put_row l k r')) = (map_of (rows l))(k \<mapsto> r')"
    by (simp add: put_row_def AList.update_conv')
  have at: "V y = Some (k', b) \<longleftrightarrow> (\<exists>r. map_of (rows (put_row l k r')) k' = Some r \<and> row_marks r y = Some b)" for y k' b
    using here [of y b] there [of k' y b] by (cases "k' = k") (auto simp: m sc_view_iff [OF ok])
  have "sc_ok (put_row l k r')"
  proof (rule sc_okI)
    show "distinct (map fst (rows (put_row l k r')))" "sizes_ok (sc_minimum_sizes (put_row l k r'))"
      using sc_okD(1,2) [OF ok] by (simp_all add: put_row_def distinct_update)
    show "row_ok r" if "map_of (rows (put_row l k r')) k' = Some r" for k' r
      using that r' sc_okD(3) [OF ok] by (auto simp: m split: if_splits)
    show "k1 = k2" if "map_of (rows (put_row l k r')) k1 = Some r1" "map_of (rows (put_row l k r')) k2 = Some r2"
      "x \<in> set (row_windows r1)" "x \<in> set (row_windows r2)" for k1 k2 r1 r2 x
      using at [of x k1] at [of x k2] windows_marks [OF that(3)] windows_marks [OF that(4)] that(1,2)
      by (metis option.inject prod.inject)
  qed
  with at show ?thesis by (intro conjI map_eqI) (auto simp: sc_view_iff)
qed

lemma sc_drop:
  assumes ok: "sc_ok l" and "\<And>y b. V y \<noteq> Some (k, b)"
    and there: "\<And>y k' b. k' \<noteq> k \<Longrightarrow> V y = Some (k', b) \<longleftrightarrow> sc_view l y = Some (k', b)"
  shows "sc_ok (l\<lparr>rows := AList.delete k (rows l)\<rparr>) \<and> sc_view (l\<lparr>rows := AList.delete k (rows l)\<rparr>) = V"
proof -
  let ?l = "l\<lparr>rows := AList.delete k (rows l)\<rparr>"
  have "sc_ok ?l"
  proof (rule sc_okI)
    show "distinct (map fst (rows ?l))" "sizes_ok (sc_minimum_sizes ?l)"
      using sc_okD(1,2) [OF ok] by (simp_all add: distinct_delete)
  qed (use sc_okD(3,4) [OF ok] in \<open>auto simp: AList.delete_conv' split: if_splits\<close>)
  moreover have "V y = Some (k', b) \<longleftrightarrow> (\<exists>r. map_of (rows ?l) k' = Some r \<and> row_marks r y = Some b)" for y k' b
    using assms(2) there [of k' y b] by (cases "k' = k") (auto simp: AList.delete_conv' sc_view_iff [OF ok])
  ultimately show ?thesis by (intro conjI map_eqI) (auto simp: sc_view_iff)
qed

lemma entry_marks:
  assumes "sc_ok l"
  shows "cols_ok (columns (entry_row l k))" "row_marks (entry_row l k) y = Some b \<longleftrightarrow> sc_view l y = Some (k, b)"
  using sc_okD(3) [OF assms, of k]
  by (auto simp: entry_row_def row_ok_def row_empty_def sc_view_iff [OF assms] row_marks_def split: option.split)

lemma entry_row_Some: "map_of (rows l) k = Some r \<Longrightarrow> entry_row l k = r"
  by (simp add: entry_row_def)

text \<open>The three ways a row changes: it gains or re-marks one window, it loses one, it keeps all.\<close>

lemma put_row_mark:
  assumes ok: "sc_ok l" and "row_ok r'" "row_marks r' = (row_marks (entry_row l k))(x \<mapsto> b)"
    and "\<And>k' b'. sc_view l x = Some (k', b') \<Longrightarrow> k' = k"
  shows "sc_ok (put_row l k r') \<and> sc_view (put_row l k r') = (sc_view l)(x \<mapsto> (k, b))"
  by (rule sc_put [OF ok assms(2)]) (use entry_marks [OF ok] assms(3,4) in auto)

lemma settle_row_unmark:
  assumes ok: "sc_ok l" and "map_of (rows l) k = Some r" "columns r' \<noteq> [] \<Longrightarrow> row_ok r'"
    and "row_marks r' = (row_marks r)(x := None)" "sc_view l x = Some (k, b)"
  shows "sc_ok (settle_row l k r') \<and> sc_view (settle_row l k r') = (sc_view l)(x := None)"
proof (cases "columns r' = []")
  case True
  then have none: "row_marks r' = Map.empty" by (simp add: row_marks_def fun_eq_iff)
  have "sc_ok (l\<lparr>rows := AList.delete k (rows l)\<rparr>) \<and>
      sc_view (l\<lparr>rows := AList.delete k (rows l)\<rparr>) = (sc_view l)(x := None)"
  proof (rule sc_drop [OF ok])
    fix y b'
    show "((sc_view l)(x := None)) y \<noteq> Some (k, b')"
      using entry_marks(2) [OF ok, of k y b'] none assms(4) entry_row_Some [OF assms(2)]
      by (cases "y = x") (auto dest: fun_cong [where x = y])
  qed (use assms(5) in auto)
  then show ?thesis using True by (simp add: settle_row_def)
next
  case False
  have "sc_ok (put_row l k r') \<and> sc_view (put_row l k r') = (sc_view l)(x := None)"
    by (rule sc_put [OF ok assms(3) [OF False]])
      (use entry_marks(2) [OF ok, of k] assms(4,5) entry_row_Some [OF assms(2)] in auto)
  then show ?thesis using False by (simp add: settle_row_def)
qed

lemma put_row_same:
  assumes ok: "sc_ok l" and "map_of (rows l) k = Some r" "row_ok r'" "row_marks r' = row_marks r"
  shows "sc_ok (put_row l k r') \<and> sc_view (put_row l k r') = sc_view l"
  by (rule sc_put [OF ok assms(3)])
    (use entry_marks(2) [OF ok, of k] assms(4) entry_row_Some [OF assms(2)] in auto)

section \<open>The laws of the operations\<close>

lemma sc_ok_sizes: "sc_ok l \<Longrightarrow> sizes_ok ms \<Longrightarrow> sc_ok (l\<lparr>sc_minimum_sizes := ms, maximum_sizes := ms'\<rparr>)"
  "sc_ok l \<Longrightarrow> sizes_ok ms \<Longrightarrow> sc_ok (l\<lparr>sc_minimum_sizes := ms\<rparr>)" "sc_ok l \<Longrightarrow> sc_ok (l\<lparr>maximum_sizes := ms'\<rparr>)"
  by (simp_all add: sc_ok_def)

lemma sc_view_sizes [simp]:
  "sc_view (l\<lparr>sc_minimum_sizes := ms, maximum_sizes := ms'\<rparr>) = sc_view l"
  "sc_view (l\<lparr>sc_minimum_sizes := ms\<rparr>) = sc_view l" "sc_view (l\<lparr>maximum_sizes := ms'\<rparr>) = sc_view l"
  by (simp_all add: sc_view_def sc_find_def fun_eq_iff)

text \<open>Taking a window out of its row, which every move and the removal do first.\<close>

lemma sc_extract:
  assumes ok: "sc_ok l" and x: "sc_view l x = Some (k, b)"
  obtains r r' ex where "sc_find l x = Some (k, r)" "map_of (rows l) k = Some r" "row_ok r"
    "extract_leaf r x = (r', Some ex)" "ex_window ex = x" "fraction_ok (ex_width_fraction ex)" "ex_maximized ex = b"
    "row_windows r' = remove1 x (row_windows r)" "row_marks r' = (row_marks r)(x := None)"
    "sc_ok (settle_row l k r')" "sc_view (settle_row l k r') = (sc_view l)(x := None)"
proof (rule sc_find_cases [OF ok, of x])
  assume "sc_view l x = None"
  with x show thesis by simp
next
  fix k' r b'
  assume r: "sc_find l x = Some (k', r)" "sc_view l x = Some (k', b')" "map_of (rows l) k' = Some r"
    "row_marks r x = Some b'" "row_ok r"
  then have k: "k' = k" "b' = b" using x by simp_all
  obtain r' ex where r': "extract_leaf r x = (r', Some ex)" "ex_window ex = x" "fraction_ok (ex_width_fraction ex)"
    "ex_maximized ex = b'" "row_windows r' = remove1 x (row_windows r)" "row_marks r' = (row_marks r)(x := None)"
    "columns r' \<noteq> [] \<longrightarrow> row_ok r'"
    by (rule extract_leaf_law [OF r(5,4)])
  have "sc_ok (settle_row l k r') \<and> sc_view (settle_row l k r') = (sc_view l)(x := None)"
    using settle_row_unmark [OF ok r(3) _ r'(6) r(2)] r'(7) k by simp
  then show thesis using that [OF r(1,3,5) [unfolded k] r'(1-6) [unfolded k]] by blast
qed

lemma sc_find_None: "sc_ok l \<Longrightarrow> sc_view l x = None \<Longrightarrow> sc_find l x = None"
  by (rule sc_find_cases [of l x]; simp)

lemma sc_remove_law:
  assumes ok: "sc_ok l"
  shows "sc_ok (fst (sc_remove l x)) \<and> sc_view (fst (sc_remove l x)) = (sc_view l)(x := None) \<and>
    snd (sc_remove l x) = (sc_view l x \<noteq> None)"
proof (cases "sc_view l x")
  case None
  then show ?thesis using ok by (simp add: sc_remove_def sc_find_None fun_upd_idem)
next
  case (Some kb)
  then obtain k b where x: "sc_view l x = Some (k, b)" by (cases kb) auto
  have sizes: "sizes_ok (remove_layout_minimum_size (sc_minimum_sizes l) x)"
    by (rule sizes_ok_remove [OF sc_okD(2) [OF ok]])
  obtain r r' ex where "sc_find l x = Some (k, r)" "extract_leaf r x = (r', Some ex)"
    "sc_ok (settle_row l k r')" "sc_view (settle_row l k r') = (sc_view l)(x := None)"
    by (rule sc_extract [OF ok x])
  then show ?thesis by (simp add: sc_remove_def sc_ok_sizes sizes x)
qed

lemma put_new_column:
  assumes ok: "sc_ok l" and "sc_view l x = None"
    and r': "columns r' = insert_at i c (columns (entry_row l k))"
    and c: "col_root c = Window x" "col_ok c"
    and "\<exists>a. row_active r' = Some a \<and> a \<in> insert x (set (row_windows (entry_row l k)))"
  shows "sc_ok (put_row l k r') \<and> sc_view (put_row l k r') = (sc_view l)(x \<mapsto> (k, maximized c))"
proof -
  have "x \<notin> set (row_windows (entry_row l k))"
    using entry_marks(2) [OF ok, of k x] assms(2) windows_marks [of x "entry_row l k"] by auto
  from row_put_column [OF entry_marks(1) [OF ok] this c(2,1) r' assms(6)]
  show ?thesis using assms(2) by (intro put_row_mark [OF ok]) auto
qed

lemma col_ok_single [simp]:
  "fraction_ok f \<Longrightarrow> col_ok (column_single x f)" "fraction_ok f \<Longrightarrow> col_ok ((column_single x f)\<lparr>cross_extent := e\<rparr>)"
  by (simp_all add: col_ok_def)

lemma sc_insert_law:
  assumes ok: "sc_ok l"
  shows "sc_ok (sc_insert l i) \<and> sc_view (sc_insert l i) = (sc_view l)(ins_window i \<mapsto> (ins_space i, False))"
proof -
  define l1 where "l1 = fst (sc_remove l (ins_window i))"
  have l1: "sc_ok l1" "sc_view l1 = (sc_view l)(ins_window i := None)"
    using sc_remove_law [OF ok, of "ins_window i"] by (simp_all add: l1_def)
  define row where "row = entry_row l1 (ins_space i)"
  define r' where "r' = row\<lparr>columns := insert_at (insertion_index row (ins_anchor i))
      (column_single (ins_window i) DEFAULT_COLUMN_FRACTION) (columns row),
      row_active := Some (ins_window i), scroll_origin := None, needs_reveal := True\<rparr>"
  have "sc_insert l i = put_row l1 (ins_space i) r'" by (simp add: sc_insert_def Let_def l1_def row_def r'_def)
  then show ?thesis
    using put_new_column [OF l1(1), of "ins_window i" r' _ "column_single (ins_window i) DEFAULT_COLUMN_FRACTION"]
    by (simp add: l1(2) r'_def row_def)
qed

interpretation scrolling: window_layout sc_ok True sc_insert sc_remove sc_contains sc_space_for sc_clear
proof unfold_locales
  fix l :: "'a scrolling_layout" and i x
  assume ok: "sc_ok l"
  show "sc_ok (sc_insert l i) \<and> sc_space_for (sc_insert l i) =
      (if True then (sc_space_for l)(ins_window i \<mapsto> ins_space i) else sc_space_for l)"
    using sc_insert_law [OF ok, of i] ok by (auto simp: sc_space_view fun_eq_iff)
  show "sc_ok (fst (sc_remove l x)) \<and> sc_space_for (fst (sc_remove l x)) = (sc_space_for l)(x := None) \<and>
      snd (sc_remove l x) = (sc_space_for l x \<noteq> None)"
    using sc_remove_law [OF ok, of x] ok by (auto simp: sc_space_view fun_eq_iff)
  show "sc_contains l x = (sc_space_for l x \<noteq> None)" using ok by (simp add: sc_contains_view sc_space_view)
  show "sc_ok (sc_clear l) \<and> sc_space_for (sc_clear l) = Map.empty"
    by (simp add: sc_clear_def sc_ok_def sc_space_for_def sc_find_def fun_eq_iff)
qed

subsection \<open>Moves\<close>

lemma view_cases:
  obtains "sc_view l x = None" | k b where "sc_view l x = Some (k, b)"
  by (cases "sc_view l x") auto

lemma sc_move_to_space_law:
  assumes ok: "sc_ok l"
  shows "sc_ok (fst (sc_move_to_space l x k')) \<and>
    sc_view (fst (sc_move_to_space l x k')) =
      (case sc_view l x of None \<Rightarrow> sc_view l | Some (k, b) \<Rightarrow> (sc_view l)(x \<mapsto> (k', b)))"
proof (rule view_cases [of l x])
  assume "sc_view l x = None"
  then show ?thesis using ok by (simp add: sc_move_to_space_def sc_find_None)
next
  fix k b
  assume x: "sc_view l x = Some (k, b)"
  obtain r r' ex where r: "sc_find l x = Some (k, r)" "extract_leaf r x = (r', Some ex)" "ex_window ex = x"
    "fraction_ok (ex_width_fraction ex)" "ex_maximized ex = b"
    "sc_ok (settle_row l k r')" "sc_view (settle_row l k r') = (sc_view l)(x := None)"
    by (rule sc_extract [OF ok x])
  show ?thesis
  proof (cases "k = k'")
    case True
    then show ?thesis using ok x r(1) by (simp add: sc_move_to_space_def fun_upd_idem)
  next
    case False
    define l1 where "l1 = settle_row l k r'"
    define c where "c = column_single x (ex_width_fraction ex)"
    define row where "row = (entry_row l1 k')\<lparr>columns := columns (entry_row l1 k') @ [c], row_active := Some x,
      scroll_origin := None, needs_reveal := True\<rparr>"
    define row' where "row' = (if b then fst (row_set_maximized row x True) else row)"
    have l1: "sc_ok l1" "sc_view l1 = (sc_view l)(x := None)" using r by (simp_all add: l1_def)
    have new: "x \<notin> set (row_windows (entry_row l1 k'))"
      using entry_marks(2) [OF l1(1), of k' x] l1(2) windows_marks [of x "entry_row l1 k'"] by auto
    have cols: "columns row = insert_at (length (columns (entry_row l1 k'))) c (columns (entry_row l1 k'))"
      by (simp add: row_def insert_at_def)
    have row: "row_ok row \<and> set (row_windows row) = insert x (set (row_windows (entry_row l1 k'))) \<and>
        row_marks row = (row_marks (entry_row l1 k'))(x \<mapsto> maximized c)"
      by (rule row_put_column [OF entry_marks(1) [OF l1(1)] new _ _ cols]) (simp_all add: c_def r(4) row_def)
    then have "row_ok row'" "row_marks row' = (row_marks (entry_row l1 k'))(x \<mapsto> b)"
      using row_set_maximized_law [of row x True] by (simp_all add: row'_def c_def)
    moreover have "sc_move_to_space l x k' = (put_row l1 k' row', True)"
      using False r by (simp add: sc_move_to_space_def Let_def l1_def row_def row'_def c_def)
    ultimately show ?thesis using put_row_mark [OF l1(1), of row' k' x b] l1(2) x by simp
  qed
qed

lemma sc_move_beside_law:
  assumes ok: "sc_ok l" and x: "sc_view l x = Some (k, False)" and target: "sc_view l target = Some (k', False)"
    and "x \<noteq> target"
  obtains l' where "sc_move_beside l x target d = (l', True)" "sc_ok l'" "sc_view l' = (sc_view l)(x \<mapsto> (k', False))"
    "row_windows (entry_row l' k') = insert_beside (inserts_first d) target x (remove1 x (row_windows (entry_row l k')))"
    "sc_minimum_sizes l' = sc_minimum_sizes l"
proof -
  obtain r r' ex where r: "sc_find l x = Some (k, r)" "map_of (rows l) k = Some r" "extract_leaf r x = (r', Some ex)"
    "ex_window ex = x" "row_windows r' = remove1 x (row_windows r)"
    "sc_ok (settle_row l k r')" "sc_view (settle_row l k r') = (sc_view l)(x := None)"
    by (rule sc_extract [OF ok x])
  define l1 where "l1 = settle_row l k r'"
  have l1: "sc_ok l1" "sc_view l1 = (sc_view l)(x := None)" using r by (simp_all add: l1_def)
  have "sc_view l1 target = Some (k', False)" using target assms(4) by (simp add: l1(2))
  then obtain row where row: "map_of (rows l1) k' = Some row" "row_marks row target = Some False"
    by (auto simp: sc_view_iff [OF l1(1)])
  have entry: "entry_row l1 k' = row" using row(1) by (rule entry_row_Some)
  have new: "ex_window ex \<notin> set (row_windows row)"
    using entry_marks(2) [OF l1(1), of k' x] l1(2) windows_marks [of x row] by (auto simp: entry r(4))
  obtain row' where row': "row_insert_beside row ex target d = (row', True)" "row_ok row'"
    "row_windows row' = insert_beside (inserts_first d) target (ex_window ex) (row_windows row)"
    "row_marks row' = (row_marks row)(ex_window ex \<mapsto> False)"
    by (rule row_insert_beside_law [OF sc_okD(3) [OF l1(1) row(1)] row(2) new])
  have "sc_move_beside l x target d = (put_row l1 k' row', True)"
    using assms(4) x target row row' r
    by (simp add: sc_move_beside_def sc_contains_view [OF ok] sc_maximized_view [OF ok] sc_space_view [OF ok] l1_def Let_def)
  moreover have "sc_ok (put_row l1 k' row') \<and> sc_view (put_row l1 k' row') = (sc_view l)(x \<mapsto> (k', False))"
    using put_row_mark [OF l1(1) row'(2), of k' x False] row'(4) l1(2) by (simp add: entry r(4))
  moreover have "row_windows row = remove1 x (row_windows (entry_row l k'))"
  proof (cases "k' = k")
    case True
    have "row = r'" using row(1) by (auto simp: True l1_def settle_row_def put_row_def AList.update_conv' AList.delete_conv'
          split: if_splits)
    then show ?thesis using r(5) entry_row_Some [OF r(2)] True by simp
  next
    case False
    then have "map_of (rows l) k' = Some row" using row(1)
      by (auto simp: l1_def settle_row_def put_row_def AList.update_conv' AList.delete_conv' split: if_splits)
    then have e: "entry_row l k' = row" by (rule entry_row_Some)
    then have "x \<notin> set (row_windows row)"
      using entry_marks(2) [OF ok, of k' x] windows_marks [of x row] x False by auto
    then show ?thesis by (simp add: e remove1_idem)
  qed
  moreover have "entry_row (put_row l1 k' row') k' = row'" by (simp add: entry_row_def put_row_def AList.update_conv')
  moreover have "sc_minimum_sizes (put_row l1 k' row') = sc_minimum_sizes l"
    by (simp add: put_row_def l1_def settle_row_def)
  ultimately show thesis using that [of "put_row l1 k' row'"] row'(3) r(4) by simp
qed

lemma sc_find_Some:
  assumes "sc_ok l" "sc_view l x = Some (k, b)"
  obtains r i where "sc_find l x = Some (k, r)" "map_of (rows l) k = Some r" "row_ok r" "row_marks r x = Some b"
    "x \<in> set (row_windows r)" "row_position r x = Some i"
proof (rule sc_find_cases [OF assms(1), of x])
  fix k' r b'
  assume *: "sc_find l x = Some (k', r)" "sc_view l x = Some (k', b')" "map_of (rows l) k' = Some r"
    "row_marks r x = Some b'" "row_ok r"
  have "x \<in> set (row_windows r)" by (rule marks_windows [OF *(4)])
  moreover from this obtain i where "row_position r x = Some i"
    by (cases "row_position r x") (auto simp: row_position_None)
  ultimately show thesis using that * assms(2) by simp
qed (use assms(2) in simp)

definition movable :: "('w \<Rightarrow> (layout_space \<times> bool) option) \<Rightarrow> 'w \<Rightarrow> bool" where
  "movable m x \<longleftrightarrow> (\<exists>k. m x = Some (k, False))"

lemma movable_view:
  assumes "sc_ok l"
  shows "movable (sc_view l) x \<longleftrightarrow> sc_contains l x \<and> \<not> sc_is_maximized l x"
  unfolding movable_def sc_contains_view [OF assms] sc_maximized_view [OF assms]
  by (cases "sc_view l x") (auto simp: split_paired_all)

lemma sc_move_to_column_law:
  assumes ok: "sc_ok l"
  shows "sc_ok (fst (sc_move_to_column l x target before)) \<and>
    sc_view (fst (sc_move_to_column l x target before)) =
      (if movable (sc_view l) x \<and> movable (sc_view l) target then (sc_view l)(x := sc_view l target) else sc_view l)"
proof (cases "x \<noteq> target \<and> movable (sc_view l) x \<and> movable (sc_view l) target")
  case False
  then consider "x = target" | "sc_view l x = None" | "sc_view l target = None" | "sc_is_maximized l x" |
      "sc_is_maximized l target"
    unfolding movable_view [OF ok] sc_contains_view [OF ok] by blast
  then have "sc_move_to_column l x target before = (l, False)"
  proof cases
    case 3
    then show ?thesis by (simp add: sc_move_to_column_def sc_find_None [OF ok] split: option.split)
  qed (simp_all add: sc_move_to_column_def sc_find_None [OF ok])
  with ok False show ?thesis by (auto simp: fun_upd_idem)
next
  case True
  then obtain k k' where x: "sc_view l x = Some (k, False)" and target: "sc_view l target = Some (k', False)"
    and ne: "x \<noteq> target" by (auto simp: movable_def)
  have free: "\<not> sc_is_maximized l x" "\<not> sc_is_maximized l target"
    using x target by (simp_all add: sc_maximized_view [OF ok])
  obtain r r' ex where r: "sc_find l x = Some (k, r)" "extract_leaf r x = (r', Some ex)" "ex_window ex = x"
    "fraction_ok (ex_width_fraction ex)"
    "sc_ok (settle_row l k r')" "sc_view (settle_row l k r') = (sc_view l)(x := None)"
    by (rule sc_extract [OF ok x])
  obtain r0 i where i: "sc_find l x = Some (k, r0)" "row_position r0 x = Some i" by (rule sc_find_Some [OF ok x])
  obtain rt j where t: "sc_find l target = Some (k', rt)" "row_position rt target = Some j"
    by (rule sc_find_Some [OF ok target])
  have [simp]: "r0 = r" using i(1) r(1) by simp
  show ?thesis
  proof (cases "k = k' \<and> stays r i j before")
    case True
    then have "sc_move_to_column l x target before = (l, False)"
      using ne free i t by (simp add: sc_move_to_column_def)
    then show ?thesis using ok x target True by (simp add: fun_upd_idem movable_def)
  next
    case False
    define l1 where "l1 = settle_row l k r'"
    have l1: "sc_ok l1" "sc_view l1 = (sc_view l)(x := None)" using r by (simp_all add: l1_def)
    define c where "c = (if k = k' \<and> leaf_count (col_root (columns r ! i)) = 1
      then (column_single x (ex_width_fraction ex))\<lparr>cross_extent := ex_cross_extent ex\<rparr>
      else column_single x (ex_width_fraction ex))"
    define n where "n = (case row_position (entry_row l1 k') target of Some i \<Rightarrow> i | None \<Rightarrow> 0) + (if before then 0 else 1)"
    define row where "row = (entry_row l1 k')\<lparr>columns := insert_at n c (columns (entry_row l1 k')),
      row_active := Some x, scroll_origin := None, needs_reveal := True\<rparr>"
    have "sc_move_to_column l x target before = (put_row l1 k' row, True)"
      using ne free i t False r(2,3) by (simp add: sc_move_to_column_def Let_def l1_def n_def c_def row_def)
    moreover have "sc_ok (put_row l1 k' row) \<and> sc_view (put_row l1 k' row) = (sc_view l1)(x \<mapsto> (k', maximized c))"
      by (rule put_new_column [OF l1(1)]) (use l1(2) r(4) in \<open>auto simp: row_def c_def\<close>)
    ultimately show ?thesis using x target by (simp add: l1(2) c_def movable_def)
  qed
qed

lemma sc_move_beside_view:
  assumes ok: "sc_ok l"
  shows "sc_ok (fst (sc_move_beside l x target d)) \<and>
    sc_view (fst (sc_move_beside l x target d)) =
      (if movable (sc_view l) x \<and> movable (sc_view l) target then (sc_view l)(x := sc_view l target) else sc_view l) \<and>
    (snd (sc_move_beside l x target d) \<longleftrightarrow> x \<noteq> target \<and> movable (sc_view l) x \<and> movable (sc_view l) target)"
proof (cases "x \<noteq> target \<and> movable (sc_view l) x \<and> movable (sc_view l) target")
  case True
  then obtain k k' where x: "sc_view l x = Some (k, False)" and target: "sc_view l target = Some (k', False)"
    and ne: "x \<noteq> target" by (auto simp: movable_def)
  obtain l' where "sc_move_beside l x target d = (l', True)" "sc_ok l'" "sc_view l' = (sc_view l)(x \<mapsto> (k', False))"
    by (rule sc_move_beside_law [OF ok x target ne])
  with True target show ?thesis by simp
next
  case False
  then have "sc_move_beside l x target d = (l, False)" by (auto simp: sc_move_beside_def movable_view [OF ok])
  with False ok show ?thesis by (auto simp: fun_upd_idem)
qed

subsection \<open>Operations that keep every window in its place\<close>

lemma put_row_keeps:
  assumes "sc_ok l" "map_of (rows l) k = Some r" "columns r' = columns r" "row_active r' = row_active r"
  shows "sc_ok (put_row l k r') \<and> sc_view (put_row l k r') = sc_view l"
  using put_row_same [OF assms(1,2)] row_same_columns [OF sc_okD(3) [OF assms(1,2)] assms(3,4)] by blast

lemma lock_preview_keeps [simp]:
  "columns (fst (lock_preview_column_offset r x off area gap axis mins)) = columns r"
  "row_active (fst (lock_preview_column_offset r x off area gap axis mins)) = row_active r"
  by (simp_all add: lock_preview_column_offset_def split: option.split)

lemma sc_preview_law:
  assumes ok: "sc_ok l"
  shows "sc_ok (fst (sc_move_beside_for_preview l x target d area gap axis)) \<and>
    sc_view (fst (sc_move_beside_for_preview l x target d area gap axis)) =
      (if movable (sc_view l) x \<and> movable (sc_view l) target then (sc_view l)(x := sc_view l target) else sc_view l)"
proof (rule view_cases [of l target])
  assume "sc_view l target = None"
  then show ?thesis using ok by (auto simp: sc_move_beside_for_preview_def sc_find_None [OF ok] movable_def)
next
  fix k b
  assume target: "sc_view l target = Some (k, b)"
  obtain r i where r: "sc_find l target = Some (k, r)" "map_of (rows l) k = Some r" "row_position r target = Some i"
    by (rule sc_find_Some [OF ok target])
  define row where "row = row_prepare_arrange r area (max gap 0) axis (sc_minimum_sizes l)"
  define l1 where "l1 = put_row l k row"
  have l1: "sc_ok l1" "sc_view l1 = sc_view l" using put_row_keeps [OF ok r(2), of row] by (simp_all add: l1_def row_def)
  obtain off where off: "column_view_offset row target area (max gap 0) axis (sc_minimum_sizes l1) = Some off"
    using r(3) by (simp add: column_view_offset_def row_def row_position_def)
  define l2 where "l2 = fst (sc_move_beside l1 x target d)"
  have l2: "sc_ok l2" "sc_view l2 =
      (if movable (sc_view l) x \<and> movable (sc_view l) target then (sc_view l)(x := sc_view l target) else sc_view l)"
    using sc_move_beside_view [OF l1(1), of x target d] by (simp_all add: l2_def l1(2))
  obtain moved where moved: "sc_move_beside l1 x target d = (l2, moved)" by (metis l2_def prod.collapse)
  have "sc_move_beside_for_preview l x target d area gap axis =
      (if moved then
         (case map_of (rows l2) k of None \<Rightarrow> (l2, True)
          | Some row \<Rightarrow> (put_row l2 k (fst (lock_preview_column_offset row target off area (max gap 0) axis
              (sc_minimum_sizes l2))), True))
       else (l2, False))"
    by (simp add: sc_move_beside_for_preview_def r(1) Let_def row_def [symmetric] l1_def [symmetric] off moved)
  then show ?thesis using l2 put_row_keeps [OF l2(1), of k] by (auto split: option.split)
qed

lemma with_row_of_same:
  assumes ok: "sc_ok l" and f: "\<And>r. row_ok r \<Longrightarrow> row_ok (fst (f r)) \<and> row_marks (fst (f r)) = row_marks r"
  shows "sc_ok (fst (with_row_of l x f)) \<and> sc_view (fst (with_row_of l x f)) = sc_view l"
proof (rule view_cases [of l x])
  assume "sc_view l x = None"
  then show ?thesis using ok by (simp add: with_row_of_def sc_find_None [OF ok])
next
  fix k b
  assume x: "sc_view l x = Some (k, b)"
  obtain r where r: "sc_find l x = Some (k, r)" "map_of (rows l) k = Some r" "row_ok r"
    by (rule sc_find_Some [OF ok x])
  have "row_ok (fst (f r))" "row_marks (fst (f r)) = row_marks r" using f [OF r(3)] by blast+
  from put_row_same [OF ok r(2) this] show ?thesis by (simp add: with_row_of_def r(1) case_prod_unfold)
qed

lemma sc_set_maximized_law:
  assumes ok: "sc_ok l"
  shows "sc_ok (fst (sc_set_maximized l x m)) \<and>
    sc_view (fst (sc_set_maximized l x m)) =
      (case sc_view l x of None \<Rightarrow> sc_view l | Some (k, b) \<Rightarrow> (sc_view l)(x \<mapsto> (k, m)))"
proof (rule view_cases [of l x])
  assume "sc_view l x = None"
  then show ?thesis using ok by (simp add: sc_set_maximized_def with_row_of_def sc_find_None [OF ok])
next
  fix k b
  assume x: "sc_view l x = Some (k, b)"
  obtain r where r: "sc_find l x = Some (k, r)" "map_of (rows l) k = Some r" "row_ok r" "x \<in> set (row_windows r)"
    by (rule sc_find_Some [OF ok x])
  define r' where "r' = fst (row_set_maximized r x m)"
  have "row_ok r'" "row_marks r' = (row_marks (entry_row l k))(x \<mapsto> m)"
    using row_set_maximized_law [OF r(3,4), of m] entry_row_Some [OF r(2)] by (simp_all add: r'_def)
  from put_row_mark [OF ok this] show ?thesis
    using x by (simp add: sc_set_maximized_def with_row_of_def r(1) case_prod_unfold r'_def)
qed

lemma sc_resize_law:
  assumes ok: "sc_ok l"
  shows "sc_ok (fst (sc_resize l x area gap dx dy edges)) \<and> sc_view (fst (sc_resize l x area gap dx dy edges)) = sc_view l"
  unfolding sc_resize_def by (rule with_row_of_same [OF ok]) (simp add: resize_row_law)

lemma sc_keyboard_law:
  assumes ok: "sc_ok l"
  shows "sc_ok (fst (sc_resize_from_keyboard l x area gap axis change)) \<and>
    sc_view (fst (sc_resize_from_keyboard l x area gap axis change)) = sc_view l"
  unfolding sc_resize_from_keyboard_def by (rule with_row_of_same [OF ok]) (simp add: keyboard_row_law)

lemma sc_activate_law:
  assumes ok: "sc_ok l"
  shows "sc_ok (fst (sc_activate l x)) \<and> sc_view (fst (sc_activate l x)) = sc_view l"
proof (rule view_cases [of l x])
  assume "sc_view l x = None"
  then show ?thesis using ok by (simp add: sc_activate_def sc_find_None [OF ok])
next
  fix k b
  assume x: "sc_view l x = Some (k, b)"
  obtain r i where r: "sc_find l x = Some (k, r)" "map_of (rows l) k = Some r" "row_ok r" "x \<in> set (row_windows r)"
    "row_position r x = Some i"
    by (rule sc_find_Some [OF ok x])
  let ?c = "columns r ! i"
  have i: "i < length (columns r)" "x \<in> set (window_ids (col_root ?c))"
    using position_less [of _ "columns r" i] r(5) by (auto simp: row_position_def column_contains_def)
  define r' where "r' = r\<lparr>view_to_restore := (if row_active r \<noteq> Some x then None else view_to_restore r),
      columns := (columns r)[i := ?c\<lparr>col_active := x\<rparr>], row_active := Some x, scroll_origin := None, needs_reveal := True\<rparr>"
  have "same_column ?c (?c\<lparr>col_active := x\<rparr>)" using r(3) i by (simp add: same_column_def col_ok_def row_ok_def cols_ok_def)
  then have "row_ok r' \<and> row_windows r' = row_windows r \<and> row_marks r' = row_marks r"
    using r(3,4) same_columns_update [of "columns r" i "?c\<lparr>col_active := x\<rparr>"]
    by (intro row_same) (auto simp: r'_def row_ok_def)
  then show ?thesis using put_row_same [OF ok r(2), of r'] by (simp add: sc_activate_def r(1,5) Let_def r'_def)
qed

lemma sc_space_rows_law:
  assumes ok: "sc_ok l"
  shows "sc_ok (sc_prepare_arrange l k area gap axis) \<and> sc_view (sc_prepare_arrange l k area gap axis) = sc_view l"
    and "sc_ok (sc_set_maximize_area l k area) \<and> sc_view (sc_set_maximize_area l k area) = sc_view l"
    and "sc_ok (fst (sc_scroll_horizontally l k area gap axis d)) \<and>
      sc_view (fst (sc_scroll_horizontally l k area gap axis d)) = sc_view l"
  using put_row_keeps [OF ok, of k] ok
  by (simp_all add: sc_prepare_arrange_def sc_set_maximize_area_def sc_scroll_horizontally_def case_prod_unfold
      split: option.split)

lemma sc_finish_law:
  assumes ok: "sc_ok l"
  shows "sc_ok (fst (sc_finish_horizontal_scroll l k area gap axis cancelled projected)) \<and>
    sc_view (fst (sc_finish_horizontal_scroll l k area gap axis cancelled projected)) = sc_view l"
proof (cases "map_of (rows l) k")
  case None
  then show ?thesis using ok by (simp add: sc_finish_horizontal_scroll_def)
next
  case (Some r)
  obtain r' a where "row_finish_horizontal_scroll r area (max gap 0) axis cancelled projected (sc_minimum_sizes l) = (r', Some a)"
    "row_ok r'" "row_marks r' = row_marks r"
    by (rule finish_scroll_law [OF sc_okD(3) [OF ok Some]])
  then show ?thesis using put_row_same [OF ok Some] by (simp add: sc_finish_horizontal_scroll_def Some)
qed

lemma sc_sizes_law:
  assumes ok: "sc_ok l"
  shows "sc_ok (fst (sc_update_minimum_size l x m)) \<and> sc_view (fst (sc_update_minimum_size l x m)) = sc_view l"
    and "sc_ok (fst (sc_update_maximum_size l x m)) \<and> sc_view (fst (sc_update_maximum_size l x m)) = sc_view l"
  using sizes_ok_update [OF sc_okD(2) [OF ok], of x m] ok
  by (auto simp: sc_update_minimum_size_def sc_update_maximum_size_def Let_def sc_ok_sizes split: prod.split option.split)

subsection \<open>Swapping two windows\<close>

lemma swap_id_inj: "inj (swap_id a b)"
  by (rule injI) (simp add: swap_id_def split: if_splits)

lemma swap_id_swap_id [simp]: "swap_id a b (swap_id a b x) = x"
  by (simp add: swap_id_def)

lemma swap_ids: "window_ids (swap_windows n a b) = map (swap_id a b) (window_ids n)"
  unfolding swap_windows_ids by (simp add: swap_id_def [abs_def])

lemma swap_image: "x \<in> swap_id a b ` S \<longleftrightarrow> swap_id a b x \<in> S"
  by (metis imageE imageI swap_id_swap_id)

definition swap_column :: "'w \<Rightarrow> 'w \<Rightarrow> 'w scrolling_column \<Rightarrow> 'w scrolling_column" where
  "swap_column a b c = c\<lparr>col_root := swap_windows (col_root c) a b, col_active := swap_id a b (col_active c)\<rparr>"

lemma swap_columns:
  "col_windows (map (swap_column a b) cs) = map (swap_id a b) (col_windows cs)"
  "col_marks (map (swap_column a b) cs) x = col_marks cs (swap_id a b x)"
  "cols_ok cs \<Longrightarrow> cols_ok (map (swap_column a b) cs)"
proof -
  show w: "col_windows (map (swap_column a b) cs) = map (swap_id a b) (col_windows cs)"
    by (induction cs) (auto simp: swap_column_def swap_ids)
  show "col_marks (map (swap_column a b) cs) x = col_marks cs (swap_id a b x)"
    by (induction cs) (auto simp: swap_column_def swap_ids swap_image)
  show "cols_ok cs \<Longrightarrow> cols_ok (map (swap_column a b) cs)"
    unfolding cols_ok_def w
    by (auto simp: distinct_map inj_on_subset [OF swap_id_inj] col_ok_def swap_column_def swap_ids leaf_count_length)
qed

lemma swap_extents_same:
  assumes "cols_ok (columns r)"
  shows "list_all2 same_column (columns r) (columns (swap_extents a b p r))"
    and "row_active (swap_extents a b p r) = row_active r"
proof -
  have all: "\<forall>c \<in> set (columns r). col_ok c" using assms by (simp add: cols_ok_def)
  then have refl: "list_all2 same_column (columns r) (columns r)" by (simp add: list.rel_refl_strong)
  have "list_all2 same_column (columns r) (columns (exchange_extents r i j))"
    if "row_position r a = Some i" "row_position r b = Some j" "i \<noteq> j" for i j
    unfolding list_all2_conv_all_nth
  proof (intro conjI allI impI)
    fix n assume n: "n < length (columns r)"
    have "col_ok (columns r ! i)" "col_ok (columns r ! j)" "col_ok (columns r ! n)"
      using that(1,2) n row_position_less all by (simp_all add: row_position_less)
    then show "same_column (columns r ! n) (columns (exchange_extents r i j) ! n)"
      using n by (cases "n = j"; cases "n = i") (auto simp: exchange_extents_def Let_def same_column_def col_ok_def)
  qed (simp add: exchange_extents_def Let_def)
  then show "list_all2 same_column (columns r) (columns (swap_extents a b p r))"
    using refl by (auto simp: swap_extents_def split: option.split)
  show "row_active (swap_extents a b p r) = row_active r"
    by (simp add: swap_extents_def exchange_extents_def Let_def split: option.split)
qed

lemma swap_row_law:
  assumes "row_ok r"
  shows "row_ok (swap_row a b p r)" "set (row_windows (swap_row a b p r)) = swap_id a b ` set (row_windows r)"
    "row_marks (swap_row a b p r) x = row_marks r (swap_id a b x)"
proof -
  have ok: "cols_ok (columns r)" using assms by (simp add: row_ok_def)
  define r1 where "r1 = swap_extents a b p r"
  have r1: "row_ok r1" "row_windows r1 = row_windows r" "row_marks r1 = row_marks r"
    using row_same [OF assms, of r1] swap_extents_same [OF ok, of a b p] assms by (auto simp: r1_def row_ok_def)
  have cols: "columns (swap_row a b p r) = map (swap_column a b) (columns r1)"
    "row_active (swap_row a b p r) = map_option (swap_id a b) (row_active r1)"
    by (simp_all add: swap_row_def Let_def r1_def swap_column_def [abs_def])
  show w: "set (row_windows (swap_row a b p r)) = swap_id a b ` set (row_windows r)"
    using r1(2) by (simp add: row_windows_def cols swap_columns)
  show "row_marks (swap_row a b p r) x = row_marks r (swap_id a b x)"
    using fun_cong [OF r1(3)] by (simp add: row_marks_def cols swap_columns)
  show "row_ok (swap_row a b p r)" using r1(1) w r1(2) by (auto simp: row_ok_def cols swap_columns(3))
qed

lemma sc_swap_law:
  assumes ok: "sc_ok l"
  shows "sc_ok (fst (sc_swap l a b p)) \<and> sc_view (fst (sc_swap l a b p)) =
      (if movable (sc_view l) a \<and> movable (sc_view l) b then (sc_view l)(a := sc_view l b, b := sc_view l a)
       else sc_view l)"
proof (cases "a \<noteq> b \<and> movable (sc_view l) a \<and> movable (sc_view l) b")
  case False
  then have "sc_swap l a b p = (l, False)" by (auto simp: sc_swap_def movable_view [OF ok])
  with False ok show ?thesis by auto
next
  case True
  define l' where "l' = l\<lparr>rows := map (\<lambda>(k, r). (k, swap_row a b p r)) (rows l)\<rparr>"
  have m: "map_of (rows l') k = map_option (swap_row a b p) (map_of (rows l) k)" for k
    by (simp add: l'_def map_of_map)
  have ok': "sc_ok l'"
  proof (rule sc_okI)
    show "distinct (map fst (rows l'))" "sizes_ok (sc_minimum_sizes l')"
      using sc_okD(1,2) [OF ok] by (simp_all add: l'_def comp_def case_prod_unfold)
    show "row_ok r" if "map_of (rows l') k = Some r" for k r
      using that by (auto simp: m intro: swap_row_law(1) sc_okD(3) [OF ok])
    show "k = k'" if "map_of (rows l') k = Some r" "map_of (rows l') k' = Some r'" "x \<in> set (row_windows r)"
      "x \<in> set (row_windows r')" for k k' r r' x
      using that sc_okD(3,4) [OF ok] by (auto simp: m swap_row_law(2) swap_image)
  qed
  have "sc_view l' x = Some (k, b') \<longleftrightarrow> sc_view l (swap_id a b x) = Some (k, b')" for x k b'
    using swap_row_law(3) [of _ a b p x] sc_okD(3) [OF ok, of k] by (auto simp: sc_view_iff [OF ok'] sc_view_iff [OF ok] m)
  then have view: "sc_view l' = (\<lambda>x. sc_view l (swap_id a b x))" by (intro map_eqI) (simp add: split_paired_all)
  have "sc_swap l a b p = (l', True)" using True by (simp add: sc_swap_def l'_def movable_view [OF ok])
  then show ?thesis using True ok' by (auto simp: fun_eq_iff view swap_id_def)
qed

subsection \<open>Rebuilding\<close>

lemma ratios_ok_retained: "ratios_ok n \<Longrightarrow> pred_option ratios_ok (retained n keep)"
  by (induction n) (auto split: option.split)

lemma retain_column_None: "retain_column keep c = None \<Longrightarrow> filter keep (window_ids (col_root c)) = []"
  using retained_ids [of "col_root c" keep] by (simp add: retain_column_def)

lemma retain_column_Some:
  assumes "retain_column keep c = Some c'" "col_ok c"
  shows "window_ids (col_root c') = filter keep (window_ids (col_root c))" "maximized c' = maximized c" "col_ok c'"
proof -
  obtain t where t: "retained (col_root c) keep = Some t"
    and c': "c' = c\<lparr>col_root := t,
         col_active := (if node_contains t (col_active c) then col_active c else last_window t),
         cross_extent := (if leaf_count (col_root c) = leaf_count t then cross_extent c else None)\<rparr>"
    using assms(1) by (auto simp: retain_column_def)
  have ids: "window_ids t = filter keep (window_ids (col_root c))" using retained_ids [of "col_root c" keep] t by simp
  have "leaf_count t \<le> leaf_count (col_root c)" by (simp add: leaf_count_length ids)
  moreover have "leaf_count t \<noteq> 0" by (simp add: leaf_count_length)
  moreover have "ratios_ok t" using ratios_ok_retained [of "col_root c" keep] assms(2) t by (simp add: col_ok_def)
  ultimately show "col_ok c'" using assms(2) by (auto simp: c' col_ok_def)
  show "window_ids (col_root c') = filter keep (window_ids (col_root c))" "maximized c' = maximized c"
    by (simp_all add: c' ids)
qed

lemma retain_columns:
  fixes keep :: "'w \<Rightarrow> bool"
  assumes "cols_ok cs"
  defines "cs' \<equiv> List.map_filter (retain_column keep) cs"
  shows "cols_ok cs' \<and> set (col_windows cs') = set (col_windows cs) \<inter> Collect keep \<and>
    (\<forall>x. col_marks cs' x = (if keep x then col_marks cs x else None))"
  using assms(1) unfolding cs'_def
proof (induction cs)
  case Nil
  then show ?case by (simp add: List.map_filter_simps)
next
  case (Cons c cs)
  then have IH: "cols_ok (List.map_filter (retain_column keep) cs)"
    "set (col_windows (List.map_filter (retain_column keep) cs)) = set (col_windows cs) \<inter> Collect keep"
    "col_marks (List.map_filter (retain_column keep) cs) x = (if keep x then col_marks cs x else None)" for x
    by auto
  show ?case
  proof (cases "retain_column keep c")
    case None
    with retain_column_None [OF None] IH Cons.prems show ?thesis
      by (auto simp: List.map_filter_simps filter_empty_conv)
  next
    case (Some c')
    have "col_ok c" using Cons.prems by simp
    from retain_column_Some [OF Some this] IH Some Cons.prems show ?thesis
      by (auto simp: List.map_filter_simps)
  qed
qed

lemma retain_row_law:
  assumes "row_ok r"
  shows "(\<forall>r'. retain_row keep r = Some r' \<longrightarrow> row_ok r' \<and>
       (\<forall>x. row_marks r' x = (if keep x then row_marks r x else None))) \<and>
    (retain_row keep r = None \<longrightarrow> (\<forall>x \<in> set (row_windows r). \<not> keep x))"
proof -
  define cs where "cs = List.map_filter (retain_column keep) (columns r)"
  have cs: "cols_ok cs" "set (col_windows cs) = set (row_windows r) \<inter> Collect keep"
    "col_marks cs x = (if keep x then row_marks r x else None)" for x
    using retain_columns [of "columns r" keep] assms by (simp_all add: cs_def row_ok_def row_windows_def row_marks_def)
  have act: "col_active c \<in> set (col_windows cs)" if "c \<in> set cs" for c
    using that cs(1) by (auto simp: set_col_windows cols_ok_def col_ok_def)
  have "retain_active r cs \<in> set (col_windows cs)" if ne: "cs \<noteq> []"
  proof -
    have "cs ! min i (length cs - 1) \<in> set cs" for i by (rule nth_mem) (use ne in \<open>cases cs; simp\<close>)
    then show ?thesis using act ne
      by (auto simp: retain_active_def column_contains_def set_col_windows [symmetric] split: option.split)
        (auto simp: set_col_windows)
  qed
  moreover have "retain_row keep r = (if cs = [] then None
      else Some (r\<lparr>columns := cs, row_active := Some (retain_active r cs),
           scroll_origin := None, needs_reveal := True, preview_view_locked := False,
           resize_view_anchored := False\<rparr>))" by (simp add: retain_row_def cs_def Let_def)
  ultimately show ?thesis using cs by (auto simp: row_ok_def row_windows_def row_marks_def)
qed

lemma map_filter_rows:
  assumes "distinct (map fst rs)"
  shows "map_of (List.map_filter (\<lambda>(k, r). map_option (Pair k) (g k r)) rs) k = Option.bind (map_of rs k) (g k) \<and>
    distinct (map fst (List.map_filter (\<lambda>(k, r). map_option (Pair k) (g k r)) rs)) \<and>
    fst ` set (List.map_filter (\<lambda>(k, r). map_option (Pair k) (g k r)) rs) \<subseteq> fst ` set rs"
  using assms
proof (induction rs)
  case Nil
  then show ?case by (simp add: List.map_filter_simps)
next
  case (Cons p rs)
  obtain k0 r0 where p: "p = (k0, r0)" by fastforce
  have "map_of rs k0 = None" using Cons.prems by (simp add: p map_of_eq_None_iff)
  with Cons show ?case by (cases "g k0 r0") (auto simp: p List.map_filter_simps)
qed

definition kept :: "'w layout_insertion list \<Rightarrow> ('w \<Rightarrow> (layout_space \<times> bool) option) \<Rightarrow> 'w \<Rightarrow> (layout_space \<times> bool) option" where
  "kept is m x = (case m x of None \<Rightarrow> None | Some (k, b) \<Rightarrow> if listed is k x then Some (k, b) else None)"

lemma retain_rows_law:
  fixes "is" :: "'w layout_insertion list"
  assumes ok: "sc_ok l"
  defines "l' \<equiv> l\<lparr>rows := List.map_filter (\<lambda>(k, r). map_option (Pair k) (retain_row (listed is k) r)) (rows l)\<rparr>"
  shows "sc_ok l' \<and> sc_view l' = kept is (sc_view l)"
proof -
  note mf = map_filter_rows [OF sc_okD(1) [OF ok], of "\<lambda>k. retain_row (listed is k)"]
  have m: "map_of (rows l') k = Option.bind (map_of (rows l) k) (retain_row (listed is k))" for k
    using mf [of k] by (simp add: l'_def)
  have row: "\<exists>r0. map_of (rows l) k = Some r0 \<and> row_ok r0 \<and> row_ok r \<and>
      (\<forall>x. row_marks r x = (if listed is k x then row_marks r0 x else None))" if mk: "map_of (rows l') k = Some r" for k r
  proof -
    obtain r0 where r0: "map_of (rows l) k = Some r0" "retain_row (listed is k) r0 = Some r"
      using mk by (auto simp: m bind_eq_Some_conv)
    with retain_row_law [OF sc_okD(3) [OF ok r0(1)], of "listed is k"] sc_okD(3) [OF ok r0(1)] show ?thesis by blast
  qed
  have ok': "sc_ok l'"
  proof (rule sc_okI)
    show "distinct (map fst (rows l'))" "sizes_ok (sc_minimum_sizes l')"
      using mf sc_okD(2) [OF ok] by (simp_all add: l'_def)
    show "row_ok r" if "map_of (rows l') k = Some r" for k r using row [OF that] by blast
    show "k = k'" if "map_of (rows l') k = Some r" "map_of (rows l') k' = Some r'" "x \<in> set (row_windows r)"
      "x \<in> set (row_windows r')" for k k' r r' x
      using row [OF that(1)] row [OF that(2)] that(3,4) sc_okD(4) [OF ok]
      by (metis marks_windows option.distinct(1) windows_marks)
  qed
  have "sc_view l' x = Some (k, b) \<longleftrightarrow> sc_view l x = Some (k, b) \<and> listed is k x" for x k b
  proof (cases "map_of (rows l) k")
    case None
    then show ?thesis by (simp add: sc_view_iff [OF ok'] sc_view_iff [OF ok] m)
  next
    case (Some r0)
    then show ?thesis
      using retain_row_law [OF sc_okD(3) [OF ok Some], of "listed is k"] marks_windows [of r0 x b]
      by (cases "retain_row (listed is k) r0") (auto simp: sc_view_iff [OF ok'] sc_view_iff [OF ok] m)
  qed
  then have "sc_view l' = kept is (sc_view l)"
    by (intro map_eqI) (auto simp: kept_def split_paired_all split: option.splits)
  with ok' show ?thesis by blast
qed

lemma rebuild_insert_law:
  assumes ok: "sc_ok l" and ws: "\<And>x f. map_of ws x = Some f \<Longrightarrow> fraction_ok f"
  shows "sc_ok (rebuild_insert ws l i) \<and> sc_view (rebuild_insert ws l i) =
    (if sc_view l (ins_window i) = None then (sc_view l)(ins_window i \<mapsto> (ins_space i, False)) else sc_view l)"
proof (cases "sc_view l (ins_window i)")
  case (Some v)
  then show ?thesis using ok by (simp add: rebuild_insert_def sc_contains_view [OF ok])
next
  case None
  define f where "f = (case map_of ws (ins_window i) of Some f \<Rightarrow> f | None \<Rightarrow> DEFAULT_COLUMN_FRACTION)"
  have f: "fraction_ok f" using ws by (simp add: f_def split: option.split)
  define row where "row = entry_row l (ins_space i)"
  define r' where "r' = row\<lparr>columns := insert_at (insertion_index row (ins_anchor i)) (column_single (ins_window i) f)
      (columns row),
      row_active := (case row_active row of None \<Rightarrow> Some (ins_window i) | Some a \<Rightarrow> Some a), needs_reveal := True\<rparr>"
  have "rebuild_insert ws l i = put_row l (ins_space i) r'"
    using None by (simp add: rebuild_insert_def sc_contains_view [OF ok] f_def row_def r'_def Let_def)
  moreover have "\<exists>a. row_active r' = Some a \<and> a \<in> insert (ins_window i) (set (row_windows row))"
  proof (cases "map_of (rows l) (ins_space i)")
    case None
    then show ?thesis by (simp add: r'_def row_def entry_row_def row_empty_def)
  next
    case (Some r)
    then show ?thesis using sc_okD(3) [OF ok Some] by (auto simp: r'_def row_def entry_row_def row_ok_def)
  qed
  ultimately show ?thesis
    using put_new_column [OF ok None, of r' _ "column_single (ins_window i) f" "ins_space i"] None f
    by (simp add: r'_def row_def)
qed

lemma previous_widths_ok:
  assumes ok: "sc_ok l" and "map_of (previous_widths (rows l)) x = Some f"
  shows "fraction_ok f"
proof -
  obtain k r c where "(k, r) \<in> set (rows l)" "c \<in> set (columns r)" "f = width_fraction c"
    using map_of_SomeD [OF assms(2)] by (auto simp: previous_widths_def)
  moreover from this have "row_ok r" using sc_okD(1,3) [OF ok] by simp
  ultimately show ?thesis by (auto simp: row_ok_def cols_ok_def col_ok_def)
qed

definition rebuilt :: "'w layout_insertion list \<Rightarrow> ('w \<Rightarrow> (layout_space \<times> bool) option) \<Rightarrow> 'w \<Rightarrow> (layout_space \<times> bool) option" where
  "rebuilt is m x =
     (case m x of
        Some v \<Rightarrow> Some v
      | None \<Rightarrow> map_option (\<lambda>k. (k, False)) (map_of (map (\<lambda>i. (ins_window i, ins_space i)) is) x))"

lemma sc_rebuild_law:
  assumes ok: "sc_ok l"
  shows "sc_ok (sc_rebuild l is) \<and> sc_view (sc_rebuild l is) = rebuilt is (kept is (sc_view l))"
proof -
  define ws where "ws = previous_widths (rows l)"
  have ws: "fraction_ok f" if "map_of ws x = Some f" for x f using previous_widths_ok [OF ok] that by (simp add: ws_def)
  have "sc_ok (foldl (rebuild_insert ws) l is) \<and> sc_view (foldl (rebuild_insert ws) l is) = rebuilt is (sc_view l)"
    if "sc_ok l" for l and "is" :: "'a layout_insertion list"
    using that
  proof (induction "is" arbitrary: l)
    case Nil
    then show ?case by (auto simp: rebuilt_def fun_eq_iff split: option.split)
  next
    case (Cons i "is")
    have step: "sc_ok (rebuild_insert ws l i) \<and> sc_view (rebuild_insert ws l i) =
      (if sc_view l (ins_window i) = None then (sc_view l)(ins_window i \<mapsto> (ins_space i, False)) else sc_view l)"
      by (rule rebuild_insert_law [OF Cons.prems ws])
    then have "sc_ok (rebuild_insert ws l i)" by blast
    from Cons.IH [OF this] step show ?case by (auto simp: rebuilt_def fun_eq_iff split: option.split)
  qed
  from this [of _ "is"] retain_rows_law [OF ok, of "is"] show ?thesis by (simp add: sc_rebuild_def ws_def)
qed

section \<open>The refinement\<close>

datatype 'w scrolling_op =
    ScInsert "'w layout_insertion" | ScRemove 'w | ScClear | ScMoveToSpace 'w layout_space
  | ScRebuild "'w layout_insertion list" | ScSetMinimum 'w layout_size | ScSetMaximum 'w layout_size
  | ScActivate 'w | ScSwap 'w 'w bool | ScMoveBeside 'w 'w layout_direction | ScMoveToColumn 'w 'w bool
  | ScPreview 'w 'w layout_direction rectangle int layout_axis
  | ScSetMaximizeArea layout_space rectangle | ScSetMaximized 'w bool
  | ScResize 'w rectangle int f64 f64 resize_edges
  | ScKeyboardResize 'w rectangle int layout_axis size_change
  | ScPrepare layout_space rectangle int layout_axis
  | ScScroll layout_space rectangle int layout_axis f64
  | ScFinishScroll layout_space rectangle int layout_axis bool "f64 option"

fun sc_step :: "'w scrolling_layout \<Rightarrow> 'w scrolling_op \<Rightarrow> 'w scrolling_layout" where
  "sc_step l (ScInsert i) = sc_insert l i"
| "sc_step l (ScRemove x) = fst (sc_remove l x)"
| "sc_step l ScClear = sc_clear l"
| "sc_step l (ScMoveToSpace x k) = fst (sc_move_to_space l x k)"
| "sc_step l (ScRebuild is) = sc_rebuild l is"
| "sc_step l (ScSetMinimum x m) = fst (sc_update_minimum_size l x m)"
| "sc_step l (ScSetMaximum x m) = fst (sc_update_maximum_size l x m)"
| "sc_step l (ScActivate x) = fst (sc_activate l x)"
| "sc_step l (ScSwap a b preserve) = fst (sc_swap l a b preserve)"
| "sc_step l (ScMoveBeside x target d) = fst (sc_move_beside l x target d)"
| "sc_step l (ScMoveToColumn x target before) = fst (sc_move_to_column l x target before)"
| "sc_step l (ScPreview x target d area gap axis) = fst (sc_move_beside_for_preview l x target d area gap axis)"
| "sc_step l (ScSetMaximizeArea k area) = sc_set_maximize_area l k area"
| "sc_step l (ScSetMaximized x b) = fst (sc_set_maximized l x b)"
| "sc_step l (ScResize x area gap dx dy edges) = fst (sc_resize l x area gap dx dy edges)"
| "sc_step l (ScKeyboardResize x area gap axis change) = fst (sc_resize_from_keyboard l x area gap axis change)"
| "sc_step l (ScPrepare k area gap axis) = sc_prepare_arrange l k area gap axis"
| "sc_step l (ScScroll k area gap axis d) = fst (sc_scroll_horizontally l k area gap axis d)"
| "sc_step l (ScFinishScroll k area gap axis cancelled projected) =
     fst (sc_finish_horizontal_scroll l k area gap axis cancelled projected)"

text \<open>
  The specification: a map from windows to their space and whether they are maximized. A maximized window
  takes no part in swaps and drops; a rebuild keeps what is listed on its old space, marks included.
\<close>

fun view_step :: "('w \<Rightarrow> (layout_space \<times> bool) option) \<Rightarrow> 'w scrolling_op \<Rightarrow> 'w \<Rightarrow> (layout_space \<times> bool) option" where
  "view_step m (ScInsert i) = m(ins_window i \<mapsto> (ins_space i, False))"
| "view_step m (ScRemove x) = m(x := None)"
| "view_step m ScClear = Map.empty"
| "view_step m (ScMoveToSpace x k) = (case m x of None \<Rightarrow> m | Some (_, b) \<Rightarrow> m(x \<mapsto> (k, b)))"
| "view_step m (ScRebuild is) = rebuilt is (kept is m)"
| "view_step m (ScSwap a b _) = (if movable m a \<and> movable m b then m(a := m b, b := m a) else m)"
| "view_step m (ScMoveBeside x target _) = (if movable m x \<and> movable m target then m(x := m target) else m)"
| "view_step m (ScMoveToColumn x target _) = (if movable m x \<and> movable m target then m(x := m target) else m)"
| "view_step m (ScPreview x target _ _ _ _) = (if movable m x \<and> movable m target then m(x := m target) else m)"
| "view_step m (ScSetMaximized x b) = (case m x of None \<Rightarrow> m | Some (k, _) \<Rightarrow> m(x \<mapsto> (k, b)))"
| "view_step m _ = m"

lemma sc_step_refines:
  assumes ok: "sc_ok l"
  shows "sc_ok (sc_step l op) \<and> sc_view (sc_step l op) = view_step (sc_view l) op"
proof (cases op)
  case (ScInsert i)
  then show ?thesis using sc_insert_law [OF ok] by simp
next
  case (ScRemove x)
  then show ?thesis using sc_remove_law [OF ok, of x] by simp
next
  case ScClear
  then show ?thesis by (simp add: sc_clear_def sc_ok_def sc_view_def sc_find_def fun_eq_iff)
next
  case (ScMoveToSpace x k)
  then show ?thesis using sc_move_to_space_law [OF ok, of x k] by (simp add: case_prod_unfold)
next
  case (ScSetMaximized x b)
  then show ?thesis using sc_set_maximized_law [OF ok, of x b] by (simp add: case_prod_unfold)
next
  case (ScMoveBeside x target d)
  then show ?thesis using sc_move_beside_view [OF ok, of x target d] by simp
qed (use sc_rebuild_law [OF ok] sc_sizes_law [OF ok] sc_activate_law [OF ok] sc_swap_law [OF ok]
    sc_move_to_column_law [OF ok] sc_preview_law [OF ok] sc_space_rows_law [OF ok] sc_finish_law [OF ok]
    sc_resize_law [OF ok] sc_keyboard_law [OF ok] in simp_all)

lemma sc_run_refines:
  "sc_ok (foldl sc_step Scrolling_default ops) \<and>
   sc_view (foldl sc_step Scrolling_default ops) = foldl view_step Map.empty ops"
proof (induction ops rule: rev_induct)
  case Nil
  show ?case by (simp add: Scrolling_default_def sc_ok_def sc_view_def sc_find_def fun_eq_iff)
next
  case (snoc op ops)
  then show ?case using sc_step_refines [of "foldl sc_step Scrolling_default ops" op] by simp
qed

section \<open>Properties\<close>

lemma row_arrange_windows: "map placed_window (row_arrange r area gap mins maxs) = row_windows r"
proof -
  have "map placed_window (arrange_columns r area g mins maxs axis o1 s start (zip cs ws)) = col_windows cs"
    if "length ws = length cs" for g axis o1 s start ws and cs :: "'a scrolling_column list"
    using that
    by (induction cs ws arbitrary: start rule: list_induct2') (simp_all add: Let_def arrange_windows)
  then show ?thesis by (simp add: row_arrange_def Let_def row_windows_def)
qed

lemma sc_arrange_windows: "map placed_window (sc_arrange l k area gap) = row_windows (entry_row l k)"
  by (simp add: sc_arrange_def entry_row_def row_arrange_windows row_windows_def row_empty_def split: option.split)

lemma entry_windows:
  assumes "sc_ok l"
  shows "distinct (row_windows (entry_row l k))" "set (row_windows (entry_row l k)) = {x. sc_space_for l x = Some k}"
proof -
  show "distinct (row_windows (entry_row l k))" using entry_marks(1) [OF assms] by (simp add: cols_ok_def row_windows_def)
  have "x \<in> set (row_windows (entry_row l k)) \<longleftrightarrow> (\<exists>b. sc_view l x = Some (k, b))" for x
    unfolding entry_marks(2) [OF assms, symmetric] by (auto dest: windows_marks marks_windows)
  then show "set (row_windows (entry_row l k)) = {x. sc_space_for l x = Some k}"
    by (auto simp: sc_space_view [OF assms])
qed

text \<open>
  Claim C39 (every window of the strip has one place). After every sequence of insertions, removals, moves,
  drops, swaps, maximizations, resizes, scrolls and rebuilds, the layout answers for each window the space and
  the maximized state that a plain map would hold, and arranging a space places each of its windows exactly
  once and no other window. Every row has a column, its focused window is one of its own, every column's
  active window is in its tree, a maximized column holds one window, and widths stay between a quarter and one.
\<close>
theorem scrolling_implements_the_window_map:
  "sc_space_for (foldl sc_step Scrolling_default ops) = (\<lambda>x. map_option fst (foldl view_step Map.empty ops x)) \<and>
   sc_is_maximized (foldl sc_step Scrolling_default ops) = (\<lambda>x. \<exists>k. foldl view_step Map.empty ops x = Some (k, True)) \<and>
   distinct (map placed_window (sc_arrange (foldl sc_step Scrolling_default ops) space area gap)) \<and>
   placed_window ` set (sc_arrange (foldl sc_step Scrolling_default ops) space area gap) =
     {x. map_option fst (foldl view_step Map.empty ops x) = Some space} \<and>
   list_all (\<lambda>(k, row). row_ok row) (rows (foldl sc_step Scrolling_default ops))"
proof -
  define l where "l = foldl sc_step Scrolling_default ops"
  have ok: "sc_ok l" and view: "sc_view l = foldl view_step Map.empty ops"
    using sc_run_refines [of ops] by (simp_all add: l_def)
  have "sc_space_for l = (\<lambda>x. map_option fst (sc_view l x))" "sc_is_maximized l = (\<lambda>x. \<exists>k. sc_view l x = Some (k, True))"
    by (simp_all add: fun_eq_iff sc_space_view [OF ok] sc_maximized_view [OF ok])
  moreover have "list_all (\<lambda>(k, row). row_ok row) (rows l)"
    using sc_okD(3) [OF ok] map_of_is_SomeI [OF sc_okD(1) [OF ok]] by (auto simp: list_all_iff)
  moreover have "distinct (map placed_window (sc_arrange l space area gap))"
    "placed_window ` set (sc_arrange l space area gap) = {x. sc_space_for l x = Some space}"
    using entry_windows [OF ok, of space] by (simp_all only: sc_arrange_windows set_map [symmetric])
  ultimately show ?thesis unfolding l_def [symmetric] view [symmetric] by simp
qed

text \<open>
  A window dropped on a tile stands beside it. In every reachable layout, dropping a managed window
  that is not maximized on another such window succeeds. It joins the target's space right before or right
  behind the target as the direction says, whatever columns the two were in, and the other windows of the strip
  keep their order.
\<close>
lemma dropped_window_stands_beside_its_target:
  assumes "l = foldl sc_step Scrolling_default ops" "x \<noteq> target"
    and "sc_contains l x" "\<not> sc_is_maximized l x" "sc_space_for l target = Some space" "\<not> sc_is_maximized l target"
  shows "\<exists>l'. sc_move_beside l x target d = (l', True) \<and> sc_space_for l' x = Some space \<and>
    map placed_window (sc_arrange l' space area gap) =
      insert_beside (inserts_first d) target x (remove1 x (map placed_window (sc_arrange l space area gap)))"
proof -
  have ok: "sc_ok l" using sc_run_refines assms(1) by blast
  obtain k where x: "sc_view l x = Some (k, False)"
    using assms(3,4) by (auto simp: sc_contains_view [OF ok] sc_maximized_view [OF ok])
  have target: "sc_view l target = Some (space, False)"
    using assms(5,6) by (auto simp: sc_space_view [OF ok] sc_maximized_view [OF ok])
  obtain l' where l': "sc_move_beside l x target d = (l', True)" "sc_ok l'" "sc_view l' = (sc_view l)(x \<mapsto> (space, False))"
    "row_windows (entry_row l' space) =
      insert_beside (inserts_first d) target x (remove1 x (row_windows (entry_row l space)))"
    by (rule sc_move_beside_law [OF ok x target assms(2)])
  then show ?thesis by (simp add: sc_arrange_windows sc_space_view)
qed

end
