(* ===== verification/F64_Rounding.thy ===== *)
theory F64_Rounding
  imports F64_Values
begin

text \<open>
  How far rounding moves a double of pixel size: integers up to \<open>2^40\<close> are exact, every result up to
  \<open>2^40\<close> is finite and off by at most \<open>1/4096\<close>, and rounding keeps the sign.
\<close>

lemma pow2_powi: "pow2 e = 2 powi e"
  unfolding pow2_def power_int_def by (simp add: power_one_over inverse_eq_divide)

lemma pow2_mono: "a \<le> b \<Longrightarrow> pow2 a \<le> pow2 b"
  by (simp add: pow2_powi power_int_increasing)

lemma rat_exponent_lower:
  assumes "0 < q"
  shows "pow2 (rat_exponent q) \<le> q"
proof -
  obtain a b where ab: "quotient_of q = (a, b)" by fastforce
  have b: "0 < b" and q: "q = of_int a / of_int b"
    using quotient_of_denom_pos [OF ab] quotient_of_div [OF ab] by simp_all
  then have a: "0 < a" using assms by (simp add: zero_less_divide_iff)
  have la: "2 powi (bitlen a - 1) \<le> (of_int a :: rat)" and lb: "(of_int b :: rat) \<le> 2 powi (bitlen b)"
  proof -
    have "2 ^ nat (bitlen a - 1) \<le> a" using bitlen_bounds [OF a] by simp
    then have "of_int (2 ^ nat (bitlen a - 1)) \<le> (of_int a :: rat)" by (simp only: of_int_le_iff)
    then show "2 powi (bitlen a - 1) \<le> (of_int a :: rat)" using bitlen_nonneg [of a] bitlen_eq_zero_iff [of a] a
      by (simp add: power_int_def)
    have "b \<le> 2 ^ nat (bitlen b)" using bitlen_bounds [OF b] by simp
    then have "(of_int b :: rat) \<le> of_int (2 ^ nat (bitlen b))" by (simp only: of_int_le_iff)
    then show "(of_int b :: rat) \<le> 2 powi (bitlen b)" using bitlen_nonneg [of b] by (simp add: power_int_def)
  qed
  have "pow2 (bitlen a - bitlen b - 1) = 2 powi (bitlen a - 1) / 2 powi (bitlen b)"
    by (simp add: pow2_powi flip: power_int_diff)
      (simp add: algebra_simps)
  also have "\<dots> \<le> q" unfolding q using la lb a b by (intro frac_le) simp_all
  finally show ?thesis by (simp add: rat_exponent_def ab Let_def not_less)
qed

lemma exponent_le:
  assumes "0 < q" "q \<le> 2 ^ 40"
  shows "rat_exponent q \<le> 40"
proof (rule ccontr)
  assume "\<not> rat_exponent q \<le> 40"
  then have "pow2 41 \<le> pow2 (rat_exponent q)" by (intro pow2_mono) simp
  with rat_exponent_lower [OF assms(1)] assms(2) show False by (simp add: pow2_def)
qed

lemma unit_small:
  assumes "q \<noteq> 0" "abs q \<le> 2 ^ 40"
  obtains m :: nat where "f64_unit q = 1 / 2 ^ m" "12 \<le> m"
proof -
  define m where "m = nat (- max (rat_exponent (abs q) - 52) (- 1074))"
  have "max (rat_exponent (abs q) - 52) (- 1074) \<le> - 12" using exponent_le [of "abs q"] assms by simp
  then have "f64_unit q = 1 / 2 ^ m" "12 \<le> m" by (simp_all add: f64_unit_def pow2_def m_def)
  then show thesis by (rule that)
qed

lemma small_not_huge: "abs v \<le> 2 ^ 41 \<Longrightarrow> \<not> pow2 1024 \<le> abs v"
  using pow2_mono [of 42 1024] by (simp add: pow2_def [of 42])

lemma f64_round_close:
  assumes "- (2 ^ 40) \<le> q" "q \<le> 2 ^ 40"
  obtains v where "f64_round q = Fin v" "q - 1 / 4096 \<le> v" "v \<le> q + 1 / 4096"
proof (cases "q = 0")
  case True
  then show thesis using that [of 0] by (simp add: f64_round_def)
next
  case False
  have q: "abs q \<le> 2 ^ 40" using assms by (simp add: abs_le_iff)
  obtain m where u: "f64_unit q = 1 / 2 ^ m" and m: "12 \<le> m" using unit_small [OF False q] .
  have "(2 :: rat) ^ 12 \<le> 2 ^ m" using m by (rule power_increasing) simp
  then have small: "f64_unit q \<le> 1 / 4096" unfolding u by (intro frac_le) simp_all
  define v where "v = of_int (round_half_even (q / f64_unit q)) * f64_unit q"
  have "v - q = (of_int (round_half_even (q / f64_unit q)) - q / f64_unit q) * f64_unit q"
    by (simp add: v_def u algebra_simps)
  then have "abs (v - q) = abs (of_int (round_half_even (q / f64_unit q)) - q / f64_unit q) * f64_unit q"
    by (simp add: abs_mult u)
  also have "\<dots> \<le> 1 / 2 * f64_unit q"
    using round_half_even_error [of "q / f64_unit q"] by (intro mult_right_mono) (simp_all add: u)
  finally have close: "abs (v - q) \<le> 1 / 4096" using small by simp
  then have "abs v \<le> 1 / 4096 + 2 ^ 40" using abs_triangle_ineq [of "v - q" q] q by simp
  then have "abs v \<le> 2 ^ 41" by simp
  then have "f64_round q = Fin v" using False small_not_huge [of v] by (simp add: f64_round_def v_def Let_def)
  moreover have "v - q \<le> 1 / 4096" "q - v \<le> 1 / 4096" using close unfolding abs_le_iff by simp_all
  ultimately show thesis using that [of v] by simp
qed

lemma round_half_even_int [simp]: "round_half_even (of_int n) = n"
  by (simp add: round_half_even_def)

lemma f64_round_int:
  assumes "abs n \<le> 2 ^ 40"
  shows "f64_round (of_int n) = Fin (of_int n)"
proof (cases "n = 0")
  case True
  then show ?thesis by (simp add: f64_round_def)
next
  case False
  have n: "abs (of_int n :: rat) \<le> 2 ^ 40" using assms by (simp flip: of_int_abs)
  obtain m where u: "f64_unit (of_int n) = 1 / 2 ^ m" using unit_small [OF _ n] False by auto
  have "of_int n / f64_unit (of_int n) = of_int (n * 2 ^ m)" by (simp add: u)
  then have "of_int (round_half_even (of_int n / f64_unit (of_int n))) * f64_unit (of_int n) = of_int n"
    by (simp only: round_half_even_int) (simp add: u)
  then show ?thesis using False small_not_huge [of "of_int n"] n by (simp add: f64_round_def Let_def)
qed

lemma f64_round_nonpos:
  assumes "q \<le> 0"
  shows "f64_round q = Inf False \<or> (\<exists>v. f64_round q = Fin v \<and> v \<le> 0)"
proof -
  have "round_half_even x \<le> 0" if "x \<le> 0" for x
  proof -
    have "of_int (round_half_even x) - x \<le> 1 / 2" by (rule order_trans [OF abs_ge_self round_half_even_error])
    with that have "(of_int (round_half_even x) :: rat) \<le> 1 / 2" by linarith
    then show ?thesis by linarith
  qed
  moreover have "q / f64_unit q \<le> 0" using assms by (simp add: f64_unit_def divide_nonpos_pos)
  ultimately have "of_int (round_half_even (q / f64_unit q)) * f64_unit q \<le> 0"
    by (simp add: mult_nonpos_nonneg f64_unit_def less_imp_le)
  then show ?thesis by (simp add: f64_round_def Let_def)
qed

end
