(* ===== verification/Scrolling_View.thy ===== *)
theory Scrolling_View
  imports Scrolling_Refinement F64_Rounding
begin

text \<open>
  The viewport of the scrolling layout (\<open>centered_view_start\<close>, \<open>reveal_active\<close>, \<open>constrain_view_start\<close> and the
  column positions of \<open>arrange\<close> in \<^verbatim>\<open>window_layout.rs\<close>). The view start is a double that moves by fractions of
  a pixel; the lemmas bound what rounding does to it, and conclude to the pixel where the focused tile is drawn.
\<close>

section \<open>View starts that show a column\<close>

text \<open>Up to a thousandth of a pixel, a column at \<open>a\<close> of width \<open>w\<close> lies in the view of extent \<open>e\<close>.\<close>

fun in_view :: "int \<Rightarrow> int \<Rightarrow> int \<Rightarrow> f64 \<Rightarrow> bool" where
  "in_view a w e (Fin q) = (q \<le> of_int a + 1 / 1024 \<and> of_int (a + w - e) - 1 / 1024 \<le> q)"
| "in_view a w e _ = False"

lemma f64_sub_ints:
  assumes "abs (m - n) \<le> 2 ^ 40"
  shows "f64_sub (Fin (of_int m)) (Fin (of_int n)) = Fin (of_int (m - n))"
  using f64_round_int [OF assms] by (simp add: f64_sub_def)

lemma f64_add_ints:
  assumes "abs (m + n) \<le> 2 ^ 40"
  shows "f64_add (Fin (of_int m)) (Fin (of_int n)) = Fin (of_int (m + n))"
  using f64_round_int [OF assms] by simp

lemma constrain_in_view:
  assumes "in_view a w e x" "0 \<le> a" "a + w \<le> s" "0 \<le> e" "e \<le> 2 ^ 32" "s \<le> 2 ^ 32" "0 \<le> w" "w \<le> e"
  shows "in_view a w e (constrain_view_start x (Fin (of_int s)) e)"
proof -
  obtain q where x: "x = Fin q" using assms(1) by (cases x) auto
  have q: "q \<le> of_int a + 1 / 1024" "of_int (a + w - e) - 1 / 1024 \<le> q" using assms(1) by (simp_all add: x)
  have d: "f64_sub (Fin (of_int s)) (f64_from_i32 e) = Fin (of_int (s - e))"
    unfolding f64_from_i32_def using assms by (intro f64_sub_ints) simp
  have "(of_int (a + w) :: rat) \<le> of_int s" using assms(3) by (simp only: of_int_le_iff)
  moreover have "(0 :: rat) \<le> of_int a" "(of_int w :: rat) \<le> of_int e" using assms by simp_all
  moreover have le: "f64_le (Fin (of_int s)) (f64_from_i32 e) \<longleftrightarrow> (of_int s :: rat) \<le> of_int e"
    by (auto simp: f64_le_def f64_from_i32_def)
  ultimately show ?thesis
    using q unfolding constrain_view_start_def d le x by (simp add: f64_clamp_def)
qed

lemma reveal_in_view:
  assumes "v \<noteq> NaN" "column_strip_start ws gap i = Fin (of_int a)" "f64_from_i64 (ws ! i) = Fin (of_int (ws ! i))"
    and "0 \<le> a" "1 \<le> ws ! i" "ws ! i \<le> e" "a + ws ! i \<le> 2 ^ 32" "e \<le> 2 ^ 32"
  shows "in_view a (ws ! i) e (reveal_active v ws gap i e)"
proof -
  let ?w = "ws ! i"
  have ae: "f64_add (Fin (of_int a)) (Fin (of_int ?w)) = Fin (of_int (a + ?w))" using assms by (intro f64_add_ints) simp
  have le: "(of_int ?w :: rat) \<le> of_int e" using assms(6) by simp
  have right: "f64_sub (Fin (of_int (a + ?w))) (f64_from_i32 e) = Fin (of_int (a + ?w - e))"
    unfolding f64_from_i32_def using assms by (intro f64_sub_ints) simp
  have unfolded: "reveal_active v ws gap i e = (if f64_less (Fin (of_int a)) v then Fin (of_int a)
      else if f64_less (f64_add v (f64_from_i32 e)) (Fin (of_int (a + ?w))) then Fin (of_int (a + ?w - e)) else v)"
    by (simp only: reveal_active_def assms(2,3) Let_def ae right)
  show ?thesis
  proof (cases v)
    case (Inf p)
    show ?thesis unfolding unfolded using le by (cases p) (simp_all add: Inf f64_from_i32_def)
  next
    case (Fin q)
    show ?thesis
    proof (cases "of_int a < q")
      case True
      then show ?thesis unfolding unfolded using le by (simp add: Fin)
    next
      case a: False
      show ?thesis
      proof (cases "f64_less (f64_add v (f64_from_i32 e)) (Fin (of_int (a + ?w)))")
        case True
        then show ?thesis unfolding unfolded using a le by (simp add: Fin)
      next
        case stay: False
        have pos: "0 < q + of_int e"
        proof (rule ccontr)
          assume "\<not> 0 < q + of_int e"
          then have "f64_round (q + of_int e) = Inf False \<or> (\<exists>v. f64_round (q + of_int e) = Fin v \<and> v \<le> 0)"
            by (intro f64_round_nonpos) simp
          moreover have "(0 :: rat) < of_int (a + ?w)" using assms(4,5) by simp
          ultimately show False using stay by (auto simp: Fin f64_from_i32_def)
        qed
        have "(of_int a :: rat) \<le> 2 ^ 32" "(of_int e :: rat) \<le> 2 ^ 32"
        proof -
          have "(of_int a :: rat) \<le> of_int (2 ^ 32)" "(of_int e :: rat) \<le> of_int (2 ^ 32)"
            unfolding of_int_le_iff using assms by simp_all
          then show "(of_int a :: rat) \<le> 2 ^ 32" "(of_int e :: rat) \<le> 2 ^ 32" by simp_all
        qed
        then have "- (2 ^ 40) \<le> q + of_int e" "q + of_int e \<le> 2 ^ 40" using pos a by simp_all
        then obtain u where u: "f64_round (q + of_int e) = Fin u" "(q + of_int e) - 1 / 4096 \<le> u" "u \<le> (q + of_int e) + 1 / 4096"
          by (rule f64_round_close)
        have "of_int (a + ?w) \<le> u" using stay u(1) by (simp add: Fin f64_from_i32_def not_less)
        then have "of_int (a + ?w - e) - 1 / 1024 \<le> q" using u(3) by simp
        then show ?thesis unfolding unfolded using a stay by (simp add: Fin)
      qed
    qed
  qed (use assms(1) in simp)
qed

lemma f64_half:
  assumes "0 \<le> n" "n \<le> 2 ^ 32"
  obtains h where "f64_div (Fin (of_int n)) (f64_from_i32 2) = Fin h" "of_int n / 2 - 1 / 4096 \<le> h" "h \<le> of_int n / 2 + 1 / 4096"
proof -
  have "(of_int n :: rat) \<le> of_int (2 ^ 32)" using assms(2) by (simp only: of_int_le_iff)
  then have "- (2 ^ 40) \<le> (of_int n / 2 :: rat)" "(of_int n / 2 :: rat) \<le> 2 ^ 40" using assms(1) by simp_all
  then obtain h where "f64_round (of_int n / 2) = Fin h" "of_int n / 2 - 1 / 4096 \<le> h" "h \<le> of_int n / 2 + 1 / 4096"
    by (rule f64_round_close)
  then show thesis using that [of h] by (simp add: f64_from_i32_def)
qed

lemma rat_le_pow: "n \<le> 2 ^ 32 \<Longrightarrow> (of_int n :: rat) \<le> 2 ^ 32"
  by (metis of_int_le_iff of_int_numeral of_int_power)

lemma centered_in_view:
  assumes "column_strip_start ws gap i = Fin (of_int a)" "f64_from_i64 (ws ! i) = Fin (of_int (ws ! i))"
    and "0 \<le> a" "1 \<le> ws ! i" "ws ! i \<le> e" "a + ws ! i \<le> 2 ^ 32" "e \<le> 2 ^ 32"
  shows "in_view a (ws ! i) e (centered_view_start ws gap i e)"
proof -
  let ?w = "ws ! i"
  obtain h where h: "f64_div (Fin (of_int ?w)) (f64_from_i32 2) = Fin h" "of_int ?w / 2 - 1 / 4096 \<le> h" "h \<le> of_int ?w / 2 + 1 / 4096"
    by (rule f64_half [of ?w]) (use assms in simp_all)
  obtain k where k: "f64_div (Fin (of_int e)) (f64_from_i32 2) = Fin k" "of_int e / 2 - 1 / 4096 \<le> k" "k \<le> of_int e / 2 + 1 / 4096"
    by (rule f64_half [of e]) (use assms in simp_all)
  have r: "(of_int a :: rat) \<le> 2 ^ 32" "(of_int ?w :: rat) \<le> 2 ^ 32" "(of_int e :: rat) \<le> 2 ^ 32"
    using assms by (simp_all add: rat_le_pow)
  have n: "(0 :: rat) \<le> of_int a" "(1 :: rat) \<le> of_int ?w" "(of_int ?w :: rat) \<le> of_int e" using assms by simp_all
  have "- (2 ^ 40) \<le> of_int a + h" "of_int a + h \<le> 2 ^ 40" using h(2,3) r n by simp_all
  then obtain m where m: "f64_round (of_int a + h) = Fin m" "(of_int a + h) - 1 / 4096 \<le> m" "m \<le> (of_int a + h) + 1 / 4096"
    by (rule f64_round_close)
  have "- (2 ^ 40) \<le> m - k" "m - k \<le> 2 ^ 40" using m(2,3) h(2,3) k(2,3) r n by simp_all
  then obtain c where c: "f64_round (m - k) = Fin c" "(m - k) - 1 / 4096 \<le> c" "c \<le> (m - k) + 1 / 4096"
    by (rule f64_round_close)
  have "centered_view_start ws gap i e = Fin c"
    using c(1) m(1) h(1) k(1) by (simp add: centered_view_start_def assms(1,2) f64_sub_def) (simp add: f64_from_i32_def)
  moreover have "c \<le> of_int a + 1 / 1024" "of_int (a + ?w - e) - 1 / 1024 \<le> c"
    using c(2,3) m(2,3) h(2,3) k(2,3) n by simp_all
  ultimately show ?thesis by simp
qed

text \<open>The pixel at which a column is drawn.\<close>

lemma round_half_away_between:
  assumes "of_int m - 1 / 2 < x" "x < of_int n + 1 / 2"
  shows "m \<le> round_half_away x" "round_half_away x \<le> n"
proof -
  show "m \<le> round_half_away x"
  proof (cases "0 \<le> x")
    case True
    then show ?thesis using assms(1) by (simp add: round_half_away_def le_floor_iff)
  next
    case False
    have "\<lfloor>- x + 1 / 2\<rfloor> < - m + 1" unfolding floor_less_iff using assms(1) by simp
    then show ?thesis using False by (simp add: round_half_away_def)
  qed
  show "round_half_away x \<le> n"
  proof (cases "0 \<le> x")
    case True
    have "\<lfloor>x + 1 / 2\<rfloor> < n + 1" unfolding floor_less_iff using assms(2) by simp
    then show ?thesis using True by (simp add: round_half_away_def)
  next
    case False
    have "- n \<le> \<lfloor>- x + 1 / 2\<rfloor>" unfolding le_floor_iff using assms(2) by simp
    then show ?thesis using False by (simp add: round_half_away_def)
  qed
qed

lemma column_location_in_view:
  assumes "in_view a w e s" "f64_from_i64 a = Fin (of_int a)" "0 \<le> a" "a \<le> 2 ^ 32" "0 \<le> w" "w \<le> e" "e \<le> 2 ^ 32"
    and "i32_min \<le> origin" "origin + e \<le> i32_max"
  shows "origin \<le> column_location origin a s" "column_location origin a s + w \<le> origin + e"
proof -
  obtain q where s: "s = Fin q" using assms(1) by (cases s) auto
  have q: "q \<le> of_int a + 1 / 1024" "of_int (a + w - e) - 1 / 1024 \<le> q" using assms(1) by (simp_all add: s)
  have "f64_add (Fin (of_int origin)) (Fin (of_int a)) = Fin (of_int (origin + a))"
    using assms by (intro f64_add_ints) (simp add: i32_min_def i32_max_def)
  then have oa: "f64_round (of_int origin + of_int a) = Fin (of_int origin + of_int a)" by simp
  have r: "(of_int a :: rat) \<le> 2 ^ 32" "(of_int e :: rat) \<le> 2 ^ 32" "(of_int w :: rat) \<le> of_int e" "(0 :: rat) \<le> of_int w"
    "(0 :: rat) \<le> of_int a" "- (2 ^ 32) \<le> (of_int origin :: rat)" "(of_int origin :: rat) \<le> 2 ^ 32"
  proof -
    have "(of_int (- origin) :: rat) \<le> 2 ^ 32" "(of_int origin :: rat) \<le> 2 ^ 32"
      by (rule rat_le_pow, use assms in \<open>simp add: i32_min_def i32_max_def\<close>)+
    then show "- (2 ^ 32) \<le> (of_int origin :: rat)" "(of_int origin :: rat) \<le> 2 ^ 32" by simp_all
  qed (use assms rat_le_pow in simp_all)
  have "- (2 ^ 40) \<le> of_int origin + of_int a - q" "of_int origin + of_int a - q \<le> 2 ^ 40" using q r by simp_all
  then obtain t where t: "f64_round (of_int origin + of_int a - q) = Fin t"
    "(of_int origin + of_int a - q) - 1 / 4096 \<le> t" "t \<le> (of_int origin + of_int a - q) + 1 / 4096"
    by (rule f64_round_close)
  have "of_int origin - 1 / 2 < t" "t < of_int (origin + e - w) + 1 / 2"
    using t(2,3) q by simp_all
  then have b: "origin \<le> round_half_away t" "round_half_away t \<le> origin + e - w"
    by (rule round_half_away_between)+
  have i32: "i32_min \<le> round_half_away t" "round_half_away t \<le> i32_max" using b assms by simp_all
  then have "column_location origin a s = round_half_away t"
    using t(1) oa
    by (simp add: column_location_def s assms(2) f64_sub_def f64_from_i32_def f64_clamp_def rat_trunc_def sat32_def)
  then show "origin \<le> column_location origin a s" "column_location origin a s + w \<le> origin + e" using b by simp_all
qed

section \<open>Positions in the strip\<close>

definition col_start :: "int list \<Rightarrow> int \<Rightarrow> nat \<Rightarrow> int" where
  "col_start ws gap i = sum_list (take i ws) + int i * gap"

definition strip_length :: "int list \<Rightarrow> int \<Rightarrow> int" where
  "strip_length ws gap = sum_list ws + int (length ws - 1) * gap"

text \<open>A strip of \<open>i32\<close> length: nothing saturates.\<close>

definition strip_ok :: "int list \<Rightarrow> int \<Rightarrow> bool" where
  "strip_ok ws gap \<longleftrightarrow> (\<forall>w \<in> set ws. 1 \<le> w) \<and> 0 \<le> gap \<and> strip_length ws gap \<le> i32_max"

lemma sat64_id: "0 \<le> n \<Longrightarrow> n \<le> 2 ^ 40 \<Longrightarrow> sat64 n = n"
  by (simp add: sat64_def i64_min_def i64_max_def)

lemma sum_list_nonneg_ge1: "\<forall>w \<in> set ws. (1 :: int) \<le> w \<Longrightarrow> 0 \<le> sum_list ws"
  by (induction ws) auto

lemma strip_split:
  assumes "strip_ok (us @ w # vs) gap"
  shows "0 \<le> sum_list us" "1 \<le> w" "0 \<le> sum_list vs" "0 \<le> gap"
    "sum_list us + int (length us) * gap + w \<le> strip_length (us @ w # vs) gap"
    "strip_length (us @ w # vs) gap \<le> i32_max" "0 \<le> int (length us) * gap"
proof -
  show p: "0 \<le> sum_list us" "1 \<le> w" "0 \<le> sum_list vs" "0 \<le> gap" "strip_length (us @ w # vs) gap \<le> i32_max"
    using assms by (auto simp: strip_ok_def intro: sum_list_nonneg_ge1)
  have "0 \<le> int (length vs) * gap" "0 \<le> int (length us) * gap" using p(4) by simp_all
  then show "sum_list us + int (length us) * gap + w \<le> strip_length (us @ w # vs) gap" "0 \<le> int (length us) * gap"
    using p(3) by (simp_all add: strip_length_def distrib_right)
qed

lemma strip_start_exact:
  assumes "strip_ok ws gap" "i < length ws"
  shows "column_strip_start ws gap i = Fin (of_int (col_start ws gap i))" "0 \<le> col_start ws gap i"
    "col_start ws gap i + ws ! i \<le> strip_length ws gap"
proof -
  have ws: "ws = take i ws @ ws ! i # drop (Suc i) ws" using assms(2) by (rule id_take_nth_drop)
  note s = strip_split [OF assms(1) [unfolded ws [THEN arg_cong [where f = "\<lambda>ws. strip_ok ws gap"]]]]
  have len: "length (take i ws) = i" using assms(2) by simp
  show "0 \<le> col_start ws gap i" using s(1,7) len by (simp add: col_start_def)
  show le: "col_start ws gap i + ws ! i \<le> strip_length ws gap"
    using s(5) len ws by (simp add: col_start_def)
  have "foldl (\<lambda>x width. sat64 (sat64 (x + width) + gap)) n xs = n + sum_list xs + int (length xs) * gap"
    if "0 \<le> n" "\<forall>w \<in> set xs. 1 \<le> w" "n + sum_list xs + int (length xs) * gap \<le> 2 ^ 40" for n xs
    using that
  proof (induction xs arbitrary: n)
    case Nil
    then show ?case by simp
  next
    case (Cons x xs)
    have nn: "0 \<le> sum_list xs" "0 \<le> int (length xs) * gap" using Cons.prems s(4) by (auto intro: sum_list_nonneg_ge1)
    have "n + sum_list (x # xs) + int (length (x # xs)) * gap = n + x + gap + sum_list xs + int (length xs) * gap"
      by (simp add: distrib_right)
    then have "n + x + gap \<le> 2 ^ 40" using Cons.prems(3) nn by linarith
    then have "sat64 (n + x) = n + x" "sat64 (n + x + gap) = n + x + gap"
      using Cons.prems s(4) by (auto intro!: sat64_id)
    then show ?case using Cons.IH [of "n + x + gap"] Cons.prems s(4) by (simp add: distrib_right)
  qed
  from this [of 0 "take i ws"] have "foldl (\<lambda>x width. sat64 (sat64 (x + width) + gap)) 0 (take i ws) = col_start ws gap i"
    using assms(1) le s(2,6) ws len by (auto simp: col_start_def strip_ok_def i32_max_def dest: in_set_takeD)
  moreover have "abs (col_start ws gap i) \<le> 2 ^ 40"
    using \<open>0 \<le> col_start ws gap i\<close> le s(2,6) ws by (simp add: i32_max_def)
  ultimately show "column_strip_start ws gap i = Fin (of_int (col_start ws gap i))"
    using f64_round_int by (simp add: column_strip_start_def f64_from_i64_def)
qed

lemma strip_extent_exact:
  assumes "strip_ok ws gap"
  shows "strip_extent ws gap = Fin (of_int (strip_length ws gap))" "0 \<le> strip_length ws gap"
proof -
  show "0 \<le> strip_length ws gap" using assms by (auto simp: strip_ok_def strip_length_def intro!: add_nonneg_nonneg sum_list_nonneg_ge1)
  then show "strip_extent ws gap = Fin (of_int (strip_length ws gap))"
    using assms f64_round_int [of "strip_length ws gap"] sat64_id [of "strip_length ws gap"]
    unfolding strip_extent_def f64_from_i64_def strip_length_def [symmetric] strip_ok_def by (simp add: i32_max_def)
qed

lemma resolved_in_view:
  assumes i: "active_index r = i" "i < length (columns r)" "\<not> maximized (columns r ! i)"
    and ws: "ws = widths r area gap mins axis" "strip_ok ws gap"
    and e: "main_extent axis area = e" "ws ! i \<le> e" "e \<le> 2 ^ 32"
    and unlocked: "\<not> preview_view_locked r" "\<not> resize_view_anchored r \<or> needs_reveal r"
    and start: "view_start r \<noteq> Some NaN"
      "needs_reveal r \<or> (view_compatible r axis e gap \<and> (\<exists>s. view_start r = Some s \<and> in_view (col_start ws gap i) (ws ! i) e s))"
  shows "in_view (col_start ws gap i) (ws ! i) e (resolved_view_start r area gap axis mins)"
proof -
  let ?a = "col_start ws gap i" and ?w = "ws ! i"
  have len: "i < length ws" using i(2) ws(1) by simp
  note a = strip_start_exact [OF ws(2) len] and strip = strip_extent_exact [OF ws(2)]
  have w: "1 \<le> ?w" using ws(2) len by (simp add: strip_ok_def)
  have top: "strip_length ws gap \<le> i32_max" using ws(2) by (simp add: strip_ok_def)
  have fw: "f64_from_i64 ?w = Fin (of_int ?w)"
    unfolding f64_from_i64_def by (rule f64_round_int) (use e w in simp)
  have big: "?a + ?w \<le> 2 ^ 32" using a(3) top by (simp add: i32_max_def)
  have ext: "view_extent r area axis = e"
    using i(2,3) e w by (simp add: view_extent_def active_view_area_def i(1) max_def)
  define c where "c = view_compatible r axis e gap"
  define s0 where "s0 = (if c then (case view_start r of Some s \<Rightarrow> s | None \<Rightarrow> Fin 0) else centered_view_start ws gap i e)"
  have "in_view ?a ?w e (if needs_reveal r \<and> c then reveal_active s0 ws gap i e else s0)"
  proof (cases c)
    case True
    then obtain s where s: "view_start r = Some s" by (auto simp: c_def view_compatible_def)
    then have "s \<noteq> NaN" using start(1) by auto
    then show ?thesis
      using start(2) True s reveal_in_view [OF _ a(1) fw a(2) w e(2) big e(3), of s] by (auto simp: s0_def)
  next
    case False
    then show ?thesis
      using centered_in_view [OF a(1) fw a(2) w e(2) big e(3)] by (simp add: s0_def)
  qed
  then have "in_view ?a ?w e (constrain_view_start (if needs_reveal r \<and> c then reveal_active s0 ws gap i e else s0)
      (strip_extent ws gap) e)"
    unfolding strip(1) using a(2,3) w e top by (intro constrain_in_view) (simp_all add: i32_max_def)
  moreover have "resolved_view_start r area gap axis mins =
      constrain_view_start (if needs_reveal r \<and> c then reveal_active s0 ws gap i e else s0) (strip_extent ws gap) e"
    unfolding resolved_view_start_def Let_def ext i(1) ws(1) [symmetric] c_def [symmetric] s0_def [symmetric]
    using unlocked by auto
  ultimately show ?thesis by simp
qed

lemma arrange_columns_at:
  assumes "length us = length ws1" "strip_ok (ws1 @ w # ws2) gap" "0 \<le> n"
    and "n + strip_length (ws1 @ w # ws2) gap \<le> i32_max"
  shows "\<exists>A B. arrange_columns r area gap mins maxs axis origin s n (zip (us @ c # vs) (ws1 @ w # ws2)) =
    A @ node_arrange (col_root c) (column_tile r c area gap mins maxs axis
      (column_location origin (n + sum_list ws1 + int (length ws1) * gap) s) w) gap mins @ B"
  using assms
proof (induction us ws1 arbitrary: n rule: list_induct2)
  case Nil
  note s = strip_split [OF Nil.prems(1)]
  have "clamp32 w 1 i32_max = w" using s Nil.prems by (simp add: clamp32_def)
  then show ?case
    by (intro exI [of _ "[]"] exI [of _ "arrange_columns r area gap mins maxs axis origin s
        (sat64 (sat64 (n + w) + gap)) (zip vs ws2)"]) (simp add: Let_def)
next
  case (Cons u us v ws1)
  note s = strip_split [OF Cons.prems(1)]
  have v: "1 \<le> v" "0 \<le> gap" "0 \<le> sum_list ws1" "1 \<le> w" "0 \<le> sum_list ws2" "0 \<le> int (length ws1) * gap"
      "0 \<le> int (length ws2) * gap"
    using Cons.prems(1) by (auto simp: strip_ok_def intro: sum_list_nonneg_ge1)
  have len: "strip_length ((v # ws1) @ w # ws2) gap = v + gap + strip_length (ws1 @ w # ws2) gap"
    by (simp add: strip_length_def distrib_right)
  have pos: "0 \<le> strip_length (ws1 @ w # ws2) gap"
    using v by (simp add: strip_length_def distrib_right)
  have ok: "strip_ok (ws1 @ w # ws2) gap" using Cons.prems(1) v len by (simp add: strip_ok_def)
  have "clamp32 v 1 i32_max = v" using Cons.prems(2,3) v len pos by (simp add: clamp32_def)
  moreover have "sat64 (sat64 (n + v) + gap) = n + v + gap"
    using Cons.prems(2,3) v len pos by (simp add: sat64_id i32_max_def)
  moreover obtain A B where "arrange_columns r area gap mins maxs axis origin s (n + v + gap) (zip (us @ c # vs) (ws1 @ w # ws2)) =
    A @ node_arrange (col_root c) (column_tile r c area gap mins maxs axis
      (column_location origin (n + v + gap + sum_list ws1 + int (length ws1) * gap) s) w) gap mins @ B"
    using Cons.IH [OF ok, of "n + v + gap"] Cons.prems(2,3) v len by auto
  ultimately show ?case
    by (intro exI [of _ "node_arrange (col_root u) (column_tile r u area gap mins maxs axis
        (column_location origin n s) v) gap mins @ A"] exI [of _ B]) (simp add: Let_def algebra_simps)
qed

section \<open>The focused tile\<close>

lemma widths_pos:
  assumes "w \<in> set (widths r area gap mins axis)"
  shows "1 \<le> w"
proof -
  obtain n c m where "w = max n (main_minimum c area gap mins axis m)"
    using assms unfolding widths_def Let_def set_map by blast
  moreover have "1 \<le> main_minimum c area gap mins axis m" unfolding main_minimum_def Let_def by simp
  ultimately show ?thesis by linarith
qed

lemma widths_same:
  assumes "columns r' = (columns r)[i := d]" "maximize_area r' = maximize_area r"
    and "width_fraction d = width_fraction (columns r ! i)" "maximized d = maximized (columns r ! i)"
      "col_root d = col_root (columns r ! i)"
  shows "widths r' area gap mins axis = widths r area gap mins axis"
proof -
  have "map f (columns r') = map f (columns r)" if "f d = f (columns r ! i)" for f :: "_ \<Rightarrow> int"
    unfolding assms(1) map_update that by (cases "i < length (columns r)") (simp_all add: list_update_id list_update_beyond flip: nth_map)
  moreover have "requested_width d = requested_width (columns r ! i)" "main_minimum d = main_minimum (columns r ! i)"
    by (intro ext, simp only: requested_width_def main_minimum_def assms)+
  ultimately show ?thesis unfolding widths_def Let_def assms(2) by simp
qed

lemma column_geometry_main:
  "main_location axis (column_geometry c (tile_geometry axis area location w) axis mins maxs) = location"
  "main_extent axis (column_geometry c (tile_geometry axis area location w) axis mins maxs) = w"
  by (cases axis; simp add: column_geometry_def Let_def)+

lemma column_tile_main:
  assumes "\<And>g. main_size axis (minimum_size (col_root c) g gap mins) \<le> w"
  shows "main_location axis (column_tile r c area gap mins maxs axis location w) = location"
    "main_extent axis (column_tile r c area gap mins maxs axis location w) = w"
proof -
  define g where "g = column_geometry c (tile_geometry axis
      (if maximized c then maximize_area_or r area else area) location w) axis mins maxs"
  define m where "m = minimum_size (col_root c) g gap mins"
  have g: "main_location axis g = location" "main_extent axis g = w" unfolding g_def by (rule column_geometry_main)+
  have m: "main_size axis m \<le> w" unfolding m_def by (rule assms)
  have "column_tile r c area gap mins maxs axis location w =
      g\<lparr>size_w := max (size_w g) (min_w m), size_h := max (size_h g) (min_h m)\<rparr>"
    unfolding column_tile_def Let_def g_def m_def ..
  then show "main_location axis (column_tile r c area gap mins maxs axis location w) = location"
    "main_extent axis (column_tile r c area gap mins maxs axis location w) = w"
    using g m by (cases axis; simp)+
qed

lemma prepare_unanchored:
  assumes "columns r \<noteq> []" "needs_reveal r"
  shows "row_prepare_arrange r area gap axis mins =
    r\<lparr>resize_view_anchored := False,
      view_start := Some (resolved_view_start (r\<lparr>resize_view_anchored := False\<rparr>) area gap axis mins),
      row_axis := axis, viewport_extent := view_extent r area axis, viewport_gap := gap, needs_reveal := False\<rparr>"
  using assms by (simp add: row_prepare_arrange_def Let_def)

lemma view_extent_same:
  assumes "columns r' = columns r" "row_active r' = row_active r" "maximize_area r' = maximize_area r"
  shows "view_extent r' area axis = view_extent r area axis" "active_view_area r' area = active_view_area r area"
  using active_index_same [OF assms(1,2)] assms
  by (simp_all add: view_extent_def active_view_area_def maximize_area_or_def)

text \<open>A row that has to reveal its active column, prepared and arranged.\<close>

lemma revealed_column:
  assumes r: "columns r = us @ c # vs" "active_index r = length us" "\<not> maximized c"
    and ws: "ws = widths r area gap mins axis" "strip_ok ws gap" "ws ! length us \<le> main_extent axis area"
    and area: "i32_min \<le> main_location axis area" "main_location axis area + main_extent axis area \<le> i32_max"
    and state: "needs_reveal r" "\<not> preview_view_locked r" "view_start r \<noteq> Some NaN"
  obtains A B r' location where
    "row_arrange (row_prepare_arrange r area gap axis mins) area gap mins maxs =
       A @ node_arrange (col_root c) (column_tile r' c area gap mins maxs axis location (ws ! length us)) gap mins @ B"
    "main_location axis area \<le> location" "location + ws ! length us \<le> main_location axis area + main_extent axis area"
proof -
  define e where "e = main_extent axis area"
  define i where "i = length us"
  have len: "i < length (columns r)" "\<not> maximized (columns r ! i)" using r by (simp_all add: i_def)
  have e: "e \<le> 2 ^ 32" using area by (simp add: e_def i32_min_def i32_max_def)
  define r1 where "r1 = r\<lparr>resize_view_anchored := False\<rparr>"
  define s where "s = resolved_view_start r1 area gap axis mins"
  define r2 where "r2 = row_prepare_arrange r area gap axis mins"
  have same: "columns r1 = columns r" "row_active r1 = row_active r" "maximize_area r1 = maximize_area r"
    by (simp_all add: r1_def)
  have r2: "r2 = r\<lparr>resize_view_anchored := False, view_start := Some s,
      row_axis := axis, viewport_extent := view_extent r area axis, viewport_gap := gap, needs_reveal := False\<rparr>"
    using prepare_unanchored [of r area gap axis mins] r(1) state(1) by (simp add: r2_def s_def r1_def)
  have same2: "columns r2 = columns r" "row_active r2 = row_active r" "maximize_area r2 = maximize_area r"
    by (simp_all add: r2)
  have i1: "active_index r1 = i" "active_index r2 = i"
    using active_index_same [OF same(1,2)] active_index_same [OF same2(1,2)] r(2) by (simp_all add: i_def)
  have w1: "ws = widths r1 area gap mins axis" "ws = widths r2 area gap mins axis"
    unfolding ws(1) widths_def Let_def same same2 by simp_all
  have wi: "1 \<le> ws ! i" using ws(2) len(1) by (simp add: strip_ok_def ws(1))
  have ext: "view_extent r area axis = e"
    using len r(2) ws(3) wi by (simp add: view_extent_def active_view_area_def i_def [symmetric] e_def max_def)
  have s: "in_view (col_start ws gap i) (ws ! i) e s"
    unfolding s_def
    by (rule resolved_in_view [OF i1(1) _ _ w1(1) ws(2) e_def [symmetric] ws(3) [folded i_def e_def] e])
      (use state len in \<open>simp_all add: r1_def\<close>)
  have "s \<noteq> NaN" using s by (cases s) auto
  then have s2: "in_view (col_start ws gap i) (ws ! i) e (resolved_view_start r2 area gap axis mins)"
    by (intro resolved_in_view [OF i1(2) _ _ w1(2) ws(2) e_def [symmetric] ws(3) [folded i_def e_def] e])
      (use state len s ext in \<open>simp_all add: r2 view_compatible_def\<close>)
  define location where "location = column_location (main_location axis area) (col_start ws gap i)
      (resolved_view_start r2 area gap axis mins)"
  have a: "0 \<le> col_start ws gap i" "col_start ws gap i + ws ! i \<le> strip_length ws gap" "strip_length ws gap \<le> i32_max"
    using strip_start_exact [OF ws(2), of i] len(1) ws by (simp_all add: strip_ok_def)
  have "f64_from_i64 (col_start ws gap i) = Fin (of_int (col_start ws gap i))"
    unfolding f64_from_i64_def by (rule f64_round_int) (use a wi in \<open>simp add: i32_max_def\<close>)
  then have loc: "main_location axis area \<le> location" "location + ws ! i \<le> main_location axis area + e"
    unfolding location_def using column_location_in_view [OF s2] a wi ws(3) e area by (simp_all add: i_def e_def i32_max_def)
  have split: "ws = take i ws @ ws ! i # drop (Suc i) ws" using len(1) by (intro id_take_nth_drop) (simp add: ws(1))
  have len_us: "length us = length (take i ws)" using len(1) by (simp add: ws(1) i_def)
  have zip: "zip (us @ c # vs) ws = zip (us @ c # vs) (take i ws @ ws ! i # drop (Suc i) ws)" using split by simp
  have "gap = max gap 0" using ws(2) by (simp add: strip_ok_def)
  moreover have "active_view_area r2 area = area"
    using len by (simp add: active_view_area_def i1(2) same2)
  moreover have "row_axis r2 = axis" by (simp add: r2)
  ultimately have "row_arrange r2 area gap mins maxs = arrange_columns r2 area gap mins maxs axis (main_location axis area)
      (resolved_view_start r2 area gap axis mins) 0 (zip (us @ c # vs) ws)"
    using r(1) by (simp add: row_arrange_def Let_def same2 w1(2) [symmetric])
  moreover have pos: "0 + sum_list (take i ws) + int (length (take i ws)) * gap = col_start ws gap i"
    unfolding len_us [symmetric] by (simp add: col_start_def i_def)
  have "\<exists>A B. arrange_columns r2 area gap mins maxs axis (main_location axis area)
      (resolved_view_start r2 area gap axis mins) 0 (zip (us @ c # vs) (take i ws @ ws ! i # drop (Suc i) ws)) =
      A @ node_arrange (col_root c) (column_tile r2 c area gap mins maxs axis
        (column_location (main_location axis area) (0 + sum_list (take i ws) + int (length (take i ws)) * gap)
          (resolved_view_start r2 area gap axis mins)) (ws ! i)) gap mins @ B"
    by (rule arrange_columns_at [OF len_us]) (use ws(2) a(3) split in simp_all)
  ultimately have "\<exists>A B. row_arrange r2 area gap mins maxs =
      A @ node_arrange (col_root c) (column_tile r2 c area gap mins maxs axis location (ws ! i)) gap mins @ B"
    unfolding zip pos location_def by simp
  then show thesis using that loc unfolding r2_def i_def e_def by blast
qed

lemma clamp_to_finite:
  assumes "x \<noteq> NaN" "1 \<le> n"
  shows "\<exists>q. f64_clamp x (f64_from_i32 1) (f64_from_i32 n) = Fin q \<and> 1 \<le> q \<and> q \<le> of_int n"
  using assms by (cases x) (auto simp: f64_clamp_def f64_from_i32_def)

lemma requested_width_bounds:
  assumes "fraction_ok (width_fraction c)" "\<not> maximized c" "1 \<le> n" "n \<le> i32_max"
  shows "1 \<le> requested_width c n m" "requested_width c n m \<le> n"
proof -
  obtain f where f: "width_fraction c = Fin f" using assms(1) by (cases "width_fraction c") auto
  have "f64_rounded (f64_mul (f64_from_i32 n) (width_fraction c)) \<noteq> NaN"
    by (simp add: f f64_from_i32_def f64_round_def Let_def)
  then obtain q where q: "f64_clamp (f64_rounded (f64_mul (f64_from_i32 n) (width_fraction c))) (f64_from_i32 1)
      (f64_from_i32 n) = Fin q" "1 \<le> q" "q \<le> of_int n"
    using clamp_to_finite [OF _ assms(3)] by blast
  have "1 \<le> \<lfloor>q\<rfloor>" "\<lfloor>q\<rfloor> \<le> n" using q(2,3) by (simp_all add: le_floor_iff floor_le_iff)
  then have "requested_width c n m = \<lfloor>q\<rfloor>"
    using assms(2,4) q by (simp add: requested_width_def rat_trunc_def sat64_def i64_min_def i64_max_def i32_max_def)
  then show "1 \<le> requested_width c n m" "requested_width c n m \<le> n" using \<open>1 \<le> \<lfloor>q\<rfloor>\<close> \<open>\<lfloor>q\<rfloor> \<le> n\<close> by simp_all
qed

text \<open>
  Claim C40 (focusing a tile brings it into view). In every reachable layout, activating a window that is alone
  in its column and not maximized, and arranging its space, draws that window wholly inside the work area along
  the strip, to the pixel and with its full width, whatever fraction of a pixel the view start had before. The
  column has to fit the work area, the strip to be shorter than \<open>2^31\<close> pixels, and the view not to be locked by
  a drop preview.
\<close>
theorem focused_tile_is_brought_into_view:
  assumes "l = foldl sc_step Scrolling_default ops" "sc_space_for l x = Some space" "\<not> sc_is_maximized l x"
    and row: "map_of (rows l) space = Some row" "row_position row x = Some i" "leaf_count (col_root (columns row ! i)) = 1"
      "\<not> preview_view_locked row" "view_start row \<noteq> Some NaN"
    and ws: "ws = widths row area gap (sc_minimum_sizes l) axis" "0 \<le> gap" "strip_length ws gap \<le> i32_max"
      "ws ! i \<le> main_extent axis area"
    and area: "i32_min \<le> main_location axis area" "main_location axis area + main_extent axis area \<le> i32_max"
  shows "\<exists>p \<in> set (sc_arrange (sc_prepare_arrange (fst (sc_activate l x)) space area gap axis) space area gap).
    placed_window p = x \<and> main_extent axis (placed_geometry p) = ws ! i \<and>
    main_location axis area \<le> main_location axis (placed_geometry p) \<and>
    main_location axis (placed_geometry p) + ws ! i \<le> main_location axis area + main_extent axis area"
proof -
  have ok: "sc_ok l" using sc_run_refines assms(1) by blast
  then have view: "sc_view l x = Some (space, False)"
    using assms(2,3) by (auto simp: sc_space_view sc_maximized_view)
  obtain j where found: "sc_find l x = Some (space, row)" and rok: "row_ok row" and mark: "row_marks row x = Some False"
    using sc_find_Some [OF ok view] row(1) by (metis option.inject)
  define c where "c = (columns row ! i)\<lparr>col_active := x\<rparr>"
  define r1 where "r1 = row\<lparr>view_to_restore := (if row_active row \<noteq> Some x then None else view_to_restore row),
      columns := (columns row)[i := c], row_active := Some x, scroll_origin := None, needs_reveal := True\<rparr>"
  define l1 where "l1 = fst (sc_activate l x)"
  have l1: "l1 = put_row l space r1" by (simp add: l1_def sc_activate_def found row(2) Let_def r1_def c_def)
  have i: "i < length (columns row)" "x \<in> set (window_ids (col_root (columns row ! i)))"
    using position_less [of _ "columns row" i] row(2) by (auto simp: row_position_def column_contains_def)
  define us where "us = take i (columns row)"
  define vs where "vs = drop (Suc i) (columns row)"
  have cols: "columns row = us @ columns row ! i # vs" "length us = i"
    using i(1) by (simp_all add: us_def vs_def id_take_nth_drop [symmetric])
  have cols1: "columns r1 = us @ c # vs" by (simp add: r1_def us_def vs_def upd_conv_take_nth_drop [OF i(1)])
  have "x \<notin> set (col_windows us)" using rok cols i(2) by (auto simp: row_ok_def dest!: arg_cong [of _ _ cols_ok])
  then have "row_position r1 x = Some i"
    unfolding row_position_def cols1 cols(2) [symmetric]
    by (intro position_split) (use i(2) in \<open>auto simp: column_contains_def set_col_windows c_def\<close>)
  then have act: "active_index r1 = length us" by (simp add: active_index_def r1_def cols(2))
  have unmax: "\<not> maximized c" using mark position_marks [of row x] rok row(2) by (simp add: row_ok_def c_def)
  have ws1: "ws = widths r1 area gap (sc_minimum_sizes l) axis"
    unfolding ws(1) by (rule widths_same [where i = i and d = c, symmetric]) (simp_all add: r1_def c_def)
  have strip: "strip_ok ws gap" using ws widths_pos by (auto simp: strip_ok_def)
  obtain A B r' location where arr: "row_arrange (row_prepare_arrange r1 area gap axis (sc_minimum_sizes l)) area gap
      (sc_minimum_sizes l) (maximum_sizes l) = A @ node_arrange (col_root c) (column_tile r' c area gap
        (sc_minimum_sizes l) (maximum_sizes l) axis location (ws ! length us)) gap (sc_minimum_sizes l) @ B"
    and loc: "main_location axis area \<le> location"
      "location + ws ! length us \<le> main_location axis area + main_extent axis area"
    by (rule revealed_column [OF cols1 act unmax ws1 strip _ area, where maxs = "maximum_sizes l"])
      (use ws(4) cols(2) row(4,5) in \<open>auto simp: r1_def\<close>)
  have leaf: "col_root c = Window x"
    using single_leaf [OF row(3) i(2)] by (cases "col_root c") (simp_all add: c_def append_eq_Cons_conv)
  have "main_minimum c area gap (sc_minimum_sizes l) axis m \<le> ws ! i \<Longrightarrow>
      main_size axis (layout_minimum_size (sc_minimum_sizes l) x) \<le> ws ! i" for m
    by (simp add: main_minimum_def leaf Let_def)
  moreover have "\<exists>m. main_minimum c area gap (sc_minimum_sizes l) axis m \<le> ws ! i"
    using i(1) by (auto simp: ws1 widths_def Let_def r1_def le_max_iff_disj)
  ultimately have "main_size axis (minimum_size (col_root c) g gap (sc_minimum_sizes l)) \<le> ws ! i" for g
    by (auto simp: leaf)
  note tile = column_tile_main [OF this]
  have "sc_arrange (sc_prepare_arrange l1 space area gap axis) space area gap =
      row_arrange (row_prepare_arrange r1 area gap axis (sc_minimum_sizes l)) area gap (sc_minimum_sizes l) (maximum_sizes l)"
    using ws(2) by (simp add: sc_arrange_def sc_prepare_arrange_def l1 put_row_def AList.update_conv')
  then show ?thesis unfolding l1_def [symmetric] arr using loc tile by (auto simp: leaf cols(2))
qed

theorem focused_tile_is_brought_into_view_witness:
  "\<exists>p \<in> set (sc_arrange (sc_prepare_arrange (fst (sc_activate (foldl sc_step Scrolling_default
       [ScInsert \<lparr>ins_window = 1, ins_space = \<lparr>space_output = 1, space_workspace = 0\<rparr>, ins_anchor = None\<rparr>]) (1 :: nat)))
       \<lparr>space_output = 1, space_workspace = 0\<rparr> \<lparr>loc_x = 0, loc_y = 0, size_w = 1000, size_h = 500\<rparr> 8 Horizontal)
       \<lparr>space_output = 1, space_workspace = 0\<rparr> \<lparr>loc_x = 0, loc_y = 0, size_w = 1000, size_h = 500\<rparr> 8).
     placed_window p = 1 \<and> 0 \<le> loc_x (placed_geometry p) \<and>
     loc_x (placed_geometry p) + size_w (placed_geometry p) \<le> 1000"
proof -
  let ?s = "\<lparr>space_output = 1, space_workspace = 0\<rparr>" and ?g = "\<lparr>loc_x = 0, loc_y = 0, size_w = 1000, size_h = 500\<rparr>"
  let ?i = "\<lparr>ins_window = 1 :: nat, ins_space = ?s, ins_anchor = None\<rparr>"
  let ?c = "column_single (1 :: nat) DEFAULT_COLUMN_FRACTION"
  define l where "l = foldl sc_step Scrolling_default [ScInsert ?i]"
  define row where "row = row_empty\<lparr>columns := [?c], row_active := Some 1, scroll_origin := None, needs_reveal := True\<rparr>"
  have view: "sc_view l = [1 \<mapsto> (?s, False)]" and ok: "sc_ok l"
    using sc_run_refines [of "[ScInsert ?i]"] by (simp_all add: l_def)
  have space: "sc_space_for l 1 = Some ?s" "\<not> sc_is_maximized l 1"
    by (simp_all add: sc_space_view [OF ok] sc_maximized_view [OF ok] view)
  have l: "rows l = [(?s, row)]" "sc_minimum_sizes l = []"
    by (simp_all add: l_def sc_insert_def sc_remove_def sc_find_def Scrolling_default_def entry_row_def row_empty_def
        put_row_def insert_at_def insertion_index_def Let_def row_def)
  have pos: "row_position row 1 = Some 0" by (simp add: row_position_def row_def column_contains_def)
  have state: "leaf_count (col_root (columns row ! 0)) = 1" "\<not> preview_view_locked row" "view_start row \<noteq> Some NaN"
    by (simp_all add: row_def row_empty_def)
  define w where "w = requested_width ?c 1000 1000"
  have w: "1 \<le> w" "w \<le> 1000" using requested_width_bounds [of ?c 1000 1000] by (simp_all add: w_def i32_max_def)
  have ws: "[w] = widths row ?g 8 (sc_minimum_sizes l) Horizontal"
    using w unfolding w_def
    by (simp add: widths_def Let_def row_def row_empty_def main_minimum_def l(2) layout_minimum_size_def max_def)
  have row: "map_of (rows l) ?s = Some row" by (simp add: l(1))
  have "\<exists>p \<in> set (sc_arrange (sc_prepare_arrange (fst (sc_activate l 1)) ?s ?g 8 Horizontal) ?s ?g 8).
    placed_window p = 1 \<and> main_extent Horizontal (placed_geometry p) = [w] ! 0 \<and>
    main_location Horizontal ?g \<le> main_location Horizontal (placed_geometry p) \<and>
    main_location Horizontal (placed_geometry p) + [w] ! 0 \<le> main_location Horizontal ?g + main_extent Horizontal ?g"
    by (rule focused_tile_is_brought_into_view [OF l_def space row pos state ws])
      (use w in \<open>simp_all add: strip_length_def i32_min_def i32_max_def\<close>)
  then show ?thesis unfolding l_def [symmetric] by auto
qed

end
