(* ===== verification/Shortcut_Text.thy ===== *)
theory Shortcut_Text
  imports Denial_Base
begin

text \<open>
  The string operations that the shortcut parser and the document validators of the compositor use.
  A Rust \<open>str\<close> is its UTF-8 encoding, a list of bytes (\<^typ>\<open>string\<close>), so \<open>len\<close> is \<^const>\<open>length\<close>. The
  ASCII operations act on bytes; \<open>trim\<close> removes the encodings of the characters of the Unicode
  property \<open>White_Space\<close> at either end. The theory shows that splitting undoes joining and that a
  text without whitespace at its ends is left alone.
\<close>

section \<open>ASCII\<close>

definition is_ascii_uppercase :: "char \<Rightarrow> bool" where
  "is_ascii_uppercase c = (65 \<le> (of_char c :: int) \<and> (of_char c :: int) \<le> 90)"

definition is_ascii_lowercase :: "char \<Rightarrow> bool" where
  "is_ascii_lowercase c = (97 \<le> (of_char c :: int) \<and> (of_char c :: int) \<le> 122)"

definition is_ascii_digit :: "char \<Rightarrow> bool" where
  "is_ascii_digit c = (48 \<le> (of_char c :: int) \<and> (of_char c :: int) \<le> 57)"

definition is_ascii_alphanumeric :: "char \<Rightarrow> bool" where
  "is_ascii_alphanumeric c = (is_ascii_uppercase c \<or> is_ascii_lowercase c \<or> is_ascii_digit c)"

definition char_lowercase :: "char \<Rightarrow> char" where
  "char_lowercase c = (if is_ascii_uppercase c then char_of (of_char c + 32 :: int) else c)"

definition char_uppercase :: "char \<Rightarrow> char" where
  "char_uppercase c = (if is_ascii_lowercase c then char_of (of_char c - 32 :: int) else c)"

definition to_ascii_lowercase :: "string \<Rightarrow> string" where
  "to_ascii_lowercase s = map char_lowercase s"

definition eq_ignore_ascii_case :: "string \<Rightarrow> string \<Rightarrow> bool" where
  "eq_ignore_ascii_case a b = (to_ascii_lowercase a = to_ascii_lowercase b)"

section \<open>Splitting and joining\<close>

text \<open>\<open>str::split\<close> at one byte: always at least one part.\<close>

fun split_on :: "char \<Rightarrow> string \<Rightarrow> string list" where
  "split_on d [] = [[]]"
| "split_on d (c # s) = (if c = d then [] # split_on d s
     else (case split_on d s of [] \<Rightarrow> [[c]] | p # ps \<Rightarrow> (c # p) # ps))"

text \<open>\<open>[String]::join\<close> with a one-byte separator, and \<open>str::split_once\<close> at one byte.\<close>

fun join_with :: "char \<Rightarrow> string list \<Rightarrow> string" where
  "join_with d [] = []"
| "join_with d [s] = s"
| "join_with d (s # t # ss) = s @ d # join_with d (t # ss)"

fun split_once :: "char \<Rightarrow> string \<Rightarrow> (string \<times> string) option" where
  "split_once d [] = None"
| "split_once d (c # s) = (if c = d then Some ([], s)
     else map_option (\<lambda>(a, b). (c # a, b)) (split_once d s))"

lemma split_on_part: "d \<notin> set p \<Longrightarrow> split_on d p = [p]"
  by (induction p) auto

lemma split_on_append: "d \<notin> set p \<Longrightarrow> split_on d (p @ d # s) = p # split_on d s"
  by (induction p) auto

lemma split_on_join:
  "ps \<noteq> [] \<Longrightarrow> \<forall>p \<in> set ps. d \<notin> set p \<Longrightarrow> split_on d (join_with d ps) = ps"
  by (induction d ps rule: join_with.induct) (auto simp: split_on_part split_on_append)

lemma length_join_with:
  "ps \<noteq> [] \<Longrightarrow> length (join_with d ps) + 1 = (\<Sum>p\<leftarrow>ps. length p + 1)"
  by (induction d ps rule: join_with.induct) auto

lemma split_once_Some:
  "split_once d s = Some (a, b) \<longleftrightarrow> s = a @ d # b \<and> d \<notin> set a"
proof (induction s arbitrary: a)
  case (Cons c s)
  show ?case
  proof (cases a)
    case (Cons c' a')
    then show ?thesis using Cons.IH [of a'] by auto
  qed auto
qed simp

section \<open>Whitespace\<close>

text \<open>The UTF-8 encodings of the characters with the property \<open>White_Space\<close>: U+0009 to U+000D, U+0020,
  U+0085, U+00A0, U+1680, U+2000 to U+200A, U+2028, U+2029, U+202F, U+205F and U+3000.\<close>

definition white_space :: "string list" where
  "white_space = map (map char_of)
     ([[9], [10], [11], [12], [13], [32], [194, 133], [194, 160], [225, 154, 128]] @
      map (\<lambda>b. [226, 128, b]) ([128..138] @ [168, 169, 175]) @
      [[226, 129, 159], [227, 128, 128 :: int]])"

function strip_start :: "string list \<Rightarrow> string \<Rightarrow> string" where
  "strip_start ws s = (case find (\<lambda>w. w \<noteq> [] \<and> take (length w) s = w) ws of
       Some w \<Rightarrow> strip_start ws (drop (length w) s)
     | None \<Rightarrow> s)"
  by pat_completeness auto
termination
proof (relation "measure (\<lambda>(ws, s). length s)")
  fix ws s w
  assume "find (\<lambda>w. w \<noteq> [] \<and> take (length w) s = w) ws = Some w"
  then have "w \<noteq> []" and "take (length w) s = w" by (auto simp: find_Some_iff)
  then have "0 < length w" and "length w \<le> length s" by (simp, metis length_take min.cobounded1)
  then have "length s - length w < length s" by linarith
  then show "((ws, drop (length w) s), ws, s) \<in> measure (\<lambda>(ws, s). length s)" by simp
qed simp

declare strip_start.simps [simp del]

definition trim_start :: "string \<Rightarrow> string" where
  "trim_start s = strip_start white_space s"

definition trim_end :: "string \<Rightarrow> string" where
  "trim_end s = rev (strip_start (map rev white_space) (rev s))"

definition trim :: "string \<Rightarrow> string" where
  "trim s = trim_end (trim_start s)"

lemma strip_start_id:
  "\<forall>w \<in> set ws. take (length w) s \<noteq> w \<Longrightarrow> strip_start ws s = s"
  by (subst strip_start.simps) (auto split: option.splits simp: find_Some_iff)

lemma strip_start_ascii:
  assumes "\<forall>w \<in> set ws. w \<noteq> [] \<and> hd w \<noteq> c"
  shows "strip_start ws (c # s) = c # s"
  using assms by (intro strip_start_id) (auto simp: neq_Nil_conv)

text \<open>A text whose first and last bytes are printable ASCII has nothing to trim.\<close>

definition is_ascii_graphic :: "char \<Rightarrow> bool" where
  "is_ascii_graphic c = (33 \<le> (of_char c :: int) \<and> (of_char c :: int) \<le> 126)"

lemma white_space_edges:
  "list_all (\<lambda>w. w \<noteq> [] \<and> \<not> is_ascii_graphic (hd w) \<and> \<not> is_ascii_graphic (last w)) white_space"
  by code_simp

lemma trim_graphic:
  assumes "s \<noteq> []" and "is_ascii_graphic (hd s)" and "is_ascii_graphic (last s)"
  shows "trim s = s"
proof -
  have front: "\<forall>w \<in> set white_space. w \<noteq> [] \<and> hd w \<noteq> hd s"
    and rear: "\<forall>w \<in> set (map rev white_space). w \<noteq> [] \<and> hd w \<noteq> hd (rev s)"
    using white_space_edges assms by (auto simp: list_all_iff hd_rev)
  have "trim_start s = s"
    using strip_start_ascii [OF front, of "List.tl s"] assms(1) by (simp add: trim_start_def)
  moreover have "trim_end s = s"
    using strip_start_ascii [OF rear, of "List.tl (rev s)"] assms(1) by (simp add: trim_end_def)
  ultimately show ?thesis by (simp add: trim_def)
qed

text \<open>For evaluation: most tokens have nothing to trim.\<close>

lemma trim_code [code]:
  "trim s = (if s \<noteq> [] \<and> is_ascii_graphic (hd s) \<and> is_ascii_graphic (last s) then s
     else trim_end (trim_start s))"
  by (simp add: trim_graphic) (simp add: trim_def)

section \<open>Decimal numbers\<close>

text \<open>\<open>str::parse::<u32>\<close>: an optional plus sign and at least one digit, \<open>None\<close> on overflow; and the
  decimal form that \<open>format!\<close> gives.\<close>

fun digits_u32 :: "int \<Rightarrow> string \<Rightarrow> int option" where
  "digits_u32 acc [] = Some acc"
| "digits_u32 acc (c # s) = (if is_ascii_digit c
     then (let v = acc * 10 + (of_char c - 48) in if v < 2 ^ 32 then digits_u32 v s else None)
     else None)"

definition parse_u32 :: "string \<Rightarrow> nat option" where
  "parse_u32 s = (case s of [] \<Rightarrow> None
     | c # r \<Rightarrow> map_option nat (if c = CHR ''+'' \<and> r \<noteq> [] then digits_u32 0 r else digits_u32 0 s))"

fun decimal :: "nat \<Rightarrow> string" where
  "decimal n = (if n < 10 then [char_of (48 + int n)] else decimal (n div 10) @ [char_of (48 + int (n mod 10))])"

declare decimal.simps [simp del]

end
