(* ===== verification/Shortcut_Syntax.thy ===== *)
theory Shortcut_Syntax
  imports Shortcut_Text
begin

unbundle bit_operations_syntax

text \<open>
  The shortcut expressions of \<open>native_shortcut.rs\<close>: modifiers, keys and gestures, the parser of an
  expression such as \<open>Super+Shift+Up\<close>, and the list of inputs shown in the settings. The errors of the
  file are the type \<open>shortcut_error\<close>; the text of an \<open>Error::Document\<close> is represented by the place that
  formats it and the values it formats.

  The lemmas show that the parser computes a normal form: the canonical text of a trigger parses to
  the same trigger, and two expressions that name the same modifiers and the same key give equal
  triggers, so that the comparison of triggers in the rest of the file is the comparison of physical
  inputs.
\<close>

section \<open>Triggers\<close>

datatype modifier = Super | Ctrl | Alt | Shift

fun modifier_flag :: "modifier \<Rightarrow> u8" where
  "modifier_flag Super = push_bit 0 1"
| "modifier_flag Ctrl = push_bit 1 1"
| "modifier_flag Alt = push_bit 2 1"
| "modifier_flag Shift = push_bit 3 1"

fun modifier_name :: "modifier \<Rightarrow> string" where
  "modifier_name Super = ''Super''"
| "modifier_name Ctrl = ''Ctrl''"
| "modifier_name Alt = ''Alt''"
| "modifier_name Shift = ''Shift''"

datatype shortcut_gesture =
    ThreeFingerSwipeUp | ThreeFingerSwipeLeft | ThreeFingerSwipeRight
  | FourFingerSwipeUp | FourFingerSwipeDown | FourFingerSwipeLeft | FourFingerSwipeRight

fun gesture_name :: "shortcut_gesture \<Rightarrow> string" where
  "gesture_name ThreeFingerSwipeUp = ''ThreeFingerSwipeUp''"
| "gesture_name ThreeFingerSwipeLeft = ''ThreeFingerSwipeLeft''"
| "gesture_name ThreeFingerSwipeRight = ''ThreeFingerSwipeRight''"
| "gesture_name FourFingerSwipeUp = ''FourFingerSwipeUp''"
| "gesture_name FourFingerSwipeDown = ''FourFingerSwipeDown''"
| "gesture_name FourFingerSwipeLeft = ''FourFingerSwipeLeft''"
| "gesture_name FourFingerSwipeRight = ''FourFingerSwipeRight''"

text \<open>An evdev keycode is a \<open>u32\<close>; the code compares keycodes and subtracts below them only.\<close>

type_synonym keycode = int

datatype trigger_key = Evdev keycode | ModifierTap modifier | Gesture shortcut_gesture

record shortcut_trigger =
  trigger_modifiers :: u8
  trigger_key :: trigger_key
  trigger_canonical :: string

section \<open>Errors\<close>

datatype document_error =
    Expression_Length
  | Invalid_Expression string
  | Modifier_Only string
  | Unrecognized_Modifier string
  | Duplicate_Modifier modifier
  | Needs_Key string
  | Unrecognized_Key string
  | Unsupported_Version u64
  | Zero_Revision
  | Revision_Exhausted
  | Too_Many_Shortcuts
  | Duplicate_Shortcut string
  | Invalid_Plugin_Action
  | Spawn_Arguments
  | Spawn_Argument nat
  | Spawn_Program
  | Spawn_Desktop_File string
  | Spawn_Sh_Command
  | File_Too_Large

datatype shortcut_error =
    Path_Error string
  | Io_Error string
  | Json_Error string
  | Document document_error
  | Revision_Conflict u64 u64
  | Changed
  | Missing string

section \<open>Keys\<close>

definition KEY_ESCAPE :: keycode where "KEY_ESCAPE = 1"
definition KEY_BACKSPACE :: keycode where "KEY_BACKSPACE = 14"
definition KEY_TAB :: keycode where "KEY_TAB = 15"
definition KEY_SPACE :: keycode where "KEY_SPACE = 57"
definition KEY_UP :: keycode where "KEY_UP = 103"
definition KEY_MUTE :: keycode where "KEY_MUTE = 113"
definition KEY_VOLUME_DOWN :: keycode where "KEY_VOLUME_DOWN = 114"
definition KEY_VOLUME_UP :: keycode where "KEY_VOLUME_UP = 115"
definition KEY_BRIGHTNESS_DOWN :: keycode where "KEY_BRIGHTNESS_DOWN = 224"
definition KEY_BRIGHTNESS_UP :: keycode where "KEY_BRIGHTNESS_UP = 225"

datatype shortcut_input_kind = KeyInput | GestureInput

datatype shortcut_input_category =
    ModifierCategory | NavigationCategory | EditingCategory | PunctuationCategory | FunctionCategory
  | MediaCategory | HardwareCategory | SpecialCategory | GestureCategory

record named_key_definition =
  named_keycode :: keycode
  named_canonical :: string
  named_aliases :: "string list"
  named_category :: shortcut_input_category

abbreviation named_key ::
    "keycode \<Rightarrow> string \<Rightarrow> string list \<Rightarrow> shortcut_input_category \<Rightarrow> named_key_definition" where
  "named_key k c as g \<equiv> \<lparr>named_keycode = k, named_canonical = c, named_aliases = as,
     named_category = g\<rparr>"

definition NAMED_KEYS :: "named_key_definition list" where
  "NAMED_KEYS = [
    named_key KEY_ESCAPE ''Escape'' [''Esc''] EditingCategory,
    named_key KEY_BACKSPACE ''Backspace'' [] EditingCategory,
    named_key KEY_TAB ''Tab'' [] EditingCategory,
    named_key 28 ''Enter'' [''Return''] EditingCategory,
    named_key KEY_SPACE ''Space'' [] EditingCategory,
    named_key 12 ''Minus'' [] PunctuationCategory,
    named_key 13 ''Equal'' [] PunctuationCategory,
    named_key 26 ''BracketLeft'' [''LeftBracket''] PunctuationCategory,
    named_key 27 ''BracketRight'' [''RightBracket''] PunctuationCategory,
    named_key 39 ''Semicolon'' [] PunctuationCategory,
    named_key 40 ''Apostrophe'' [] PunctuationCategory,
    named_key 41 ''Grave'' [] PunctuationCategory,
    named_key 43 ''Backslash'' [] PunctuationCategory,
    named_key 51 ''Comma'' [] PunctuationCategory,
    named_key 52 ''Period'' [''Dot''] PunctuationCategory,
    named_key 53 ''Slash'' [] PunctuationCategory,
    named_key 58 ''CapsLock'' [] SpecialCategory,
    named_key 69 ''NumLock'' [] SpecialCategory,
    named_key 70 ''ScrollLock'' [] SpecialCategory,
    named_key 102 ''Home'' [] NavigationCategory,
    named_key KEY_UP ''Up'' [] NavigationCategory,
    named_key 104 ''PageUp'' [''PgUp''] NavigationCategory,
    named_key 105 ''Left'' [] NavigationCategory,
    named_key 106 ''Right'' [] NavigationCategory,
    named_key 107 ''End'' [] NavigationCategory,
    named_key 108 ''Down'' [] NavigationCategory,
    named_key 109 ''PageDown'' [''PgDown''] NavigationCategory,
    named_key 110 ''Insert'' [] EditingCategory,
    named_key 111 ''Delete'' [] EditingCategory,
    named_key KEY_MUTE ''VolumeMute'' [''AudioMute'', ''XF86AudioMute''] MediaCategory,
    named_key KEY_VOLUME_DOWN ''VolumeDown'' [''AudioDown'', ''XF86AudioLowerVolume''] MediaCategory,
    named_key KEY_VOLUME_UP ''VolumeUp'' [''AudioUp'', ''XF86AudioRaiseVolume''] MediaCategory,
    named_key KEY_BRIGHTNESS_DOWN ''BrightnessDown'' [''XF86MonBrightnessDown''] HardwareCategory,
    named_key KEY_BRIGHTNESS_UP ''BrightnessUp'' [''XF86MonBrightnessUp''] HardwareCategory,
    named_key 99 ''PrintScreen'' [''Print'', ''SysRq''] SpecialCategory,
    named_key 119 ''Pause'' [] SpecialCategory,
    named_key 139 ''Menu'' [] SpecialCategory,
    named_key 165 ''PreviousTrack'' [''XF86AudioPrev''] MediaCategory,
    named_key 163 ''NextTrack'' [''XF86AudioNext''] MediaCategory,
    named_key 164 ''PlayPause'' [''XF86AudioPlay''] MediaCategory,
    named_key 166 ''StopMedia'' [''XF86AudioStop''] MediaCategory,
    named_key 229 ''KeyboardBrightnessDown'' [''XF86KbdBrightnessDown''] HardwareCategory,
    named_key 230 ''KeyboardBrightnessUp'' [''XF86KbdBrightnessUp''] HardwareCategory]"

section \<open>The parser\<close>

definition MAX_SHORTCUT_EXPRESSION_BYTES :: nat where
  "MAX_SHORTCUT_EXPRESSION_BYTES = 128"

definition modifier_of :: "string \<Rightarrow> modifier option" where
  "modifier_of lower =
    (if lower \<in> set [''super'', ''meta'', ''win''] then Some Super
     else if lower \<in> set [''ctrl'', ''control''] then Some Ctrl
     else if lower = ''alt'' then Some Alt
     else if lower = ''shift'' then Some Shift
     else None)"

definition parse_modifier :: "string \<Rightarrow> modifier option" where
  "parse_modifier name = modifier_of (to_ascii_lowercase name)"

definition gesture_of :: "string \<Rightarrow> shortcut_gesture option" where
  "gesture_of text =
    (if text \<in> set [''threefingerswipeup'', ''3fingerswipeup''] then Some ThreeFingerSwipeUp
     else if text \<in> set [''threefingerswipeleft'', ''3fingerswipeleft''] then Some ThreeFingerSwipeLeft
     else if text \<in> set [''threefingerswiperight'', ''3fingerswiperight'']
       then Some ThreeFingerSwipeRight
     else if text \<in> set [''fourfingerswipeup'', ''4fingerswipeup''] then Some FourFingerSwipeUp
     else if text \<in> set [''fourfingerswipedown'', ''4fingerswipedown''] then Some FourFingerSwipeDown
     else if text \<in> set [''fourfingerswipeleft'', ''4fingerswipeleft''] then Some FourFingerSwipeLeft
     else if text \<in> set [''fourfingerswiperight'', ''4fingerswiperight'']
       then Some FourFingerSwipeRight
     else None)"

definition parse_gesture :: "string \<Rightarrow> shortcut_gesture option" where
  "parse_gesture name =
     gesture_of (filter (\<lambda>c. c \<notin> set '' -_'') (to_ascii_lowercase name))"

definition letter_keycodes :: "keycode list" where
  "letter_keycodes = [30, 48, 46, 32, 18, 33, 34, 35, 23, 36, 37, 38, 50, 49, 24, 25, 16, 19, 31, 20,
     22, 47, 17, 45, 21, 44]"

definition function_keycode :: "int \<Rightarrow> keycode option" where
  "function_keycode n =
    (if 1 \<le> n \<and> n \<le> 10 then Some (58 + n)
     else if n = 11 then Some 87
     else if n = 12 then Some 88
     else if 13 \<le> n \<and> n \<le> 24 then Some (170 + n)
     else None)"

definition names_key :: "string \<Rightarrow> named_key_definition \<Rightarrow> bool" where
  "names_key lower key = (eq_ignore_ascii_case (named_canonical key) lower \<or>
     list_ex (\<lambda>alias. eq_ignore_ascii_case alias lower) (named_aliases key))"

definition parse_named_key :: "string \<Rightarrow> (keycode \<times> string) option" where
  "parse_named_key lower = map_option (\<lambda>key. (named_keycode key, named_canonical key))
     (find (names_key lower) NAMED_KEYS)"

definition function_number :: "string \<Rightarrow> nat option" where
  "function_number lower = (case lower of [] \<Rightarrow> None
     | c # number \<Rightarrow> if c = CHR ''f'' then parse_u32 number else None)"

definition parse_lower_key :: "string \<Rightarrow> (keycode \<times> string) option" where
  "parse_lower_key lower =
    (if length lower = 1 \<and> is_ascii_lowercase (hd lower)
       then Some (letter_keycodes ! nat (of_char (hd lower) - 97), [char_uppercase (hd lower)])
     else if length lower = 1 \<and> is_ascii_digit (hd lower)
       then Some (if hd lower = CHR ''0'' then 11 else of_char (hd lower) - 48 + 1, [hd lower])
     else (case function_number lower of
         Some function \<Rightarrow>
           map_option (\<lambda>code. (code, CHR ''F'' # decimal function)) (function_keycode (int function))
       | None \<Rightarrow> parse_named_key lower))"

definition parse_key :: "string \<Rightarrow> (keycode \<times> string) option" where
  "parse_key name = parse_lower_key (to_ascii_lowercase name)"

fun parse_modifiers :: "u8 \<Rightarrow> string list \<Rightarrow> shortcut_error + u8" where
  "parse_modifiers modifiers [] = Inr modifiers"
| "parse_modifiers modifiers (name # names) =
    (case parse_modifier name of
       None \<Rightarrow> Inl (Document (Unrecognized_Modifier name))
     | Some m \<Rightarrow>
         if modifiers AND modifier_flag m \<noteq> 0 then Inl (Document (Duplicate_Modifier m))
         else parse_modifiers (modifiers OR modifier_flag m) names)"

definition modifier_order :: "modifier list" where
  "modifier_order = [Super, Ctrl, Alt, Shift]"

definition modifiers_held :: "u8 \<Rightarrow> modifier list" where
  "modifiers_held modifiers = filter (\<lambda>m. modifiers AND modifier_flag m \<noteq> 0) modifier_order"

definition parse_shortcut :: "string \<Rightarrow> shortcut_error + shortcut_trigger" where
  "parse_shortcut expression =
    (if expression = [] \<or> MAX_SHORTCUT_EXPRESSION_BYTES < length expression
       then Inl (Document Expression_Length)
     else
       let tokens = map trim (split_on CHR ''+'' expression) in
       if tokens = [] \<or> list_ex (\<lambda>token. token = []) tokens
         then Inl (Document (Invalid_Expression expression))
       else case (if length tokens = 1 then parse_gesture (hd tokens) else None) of
         Some gesture \<Rightarrow> Inr \<lparr>trigger_modifiers = 0, trigger_key = Gesture gesture,
           trigger_canonical = gesture_name gesture\<rparr>
       | None \<Rightarrow> (case (if length tokens = 1 then parse_modifier (hd tokens) else None) of
           Some m \<Rightarrow>
             if m \<noteq> Super then Inl (Document (Modifier_Only expression))
             else Inr \<lparr>trigger_modifiers = 0, trigger_key = ModifierTap m,
               trigger_canonical = modifier_name m\<rparr>
         | None \<Rightarrow>
             try_bind (parse_modifiers 0 (butlast tokens)) (\<lambda>modifiers.
             if parse_modifier (last tokens) \<noteq> None then Inl (Document (Needs_Key expression))
             else try_bind (ok_or (parse_key (last tokens))
                     (Document (Unrecognized_Key (last tokens)))) (\<lambda>(keycode, canonical_key).
               Inr \<lparr>trigger_modifiers = modifiers, trigger_key = Evdev keycode,
                 trigger_canonical = join_with CHR ''+''
                   (map modifier_name (modifiers_held modifiers) @ [canonical_key])\<rparr>))))"

section \<open>The inputs offered by the settings\<close>

record shortcut_input_definition =
  input_canonical :: string
  input_kind :: shortcut_input_kind
  input_category :: shortcut_input_category
  input_aliases :: "string list"

definition input_definition ::
    "string \<Rightarrow> shortcut_input_category \<Rightarrow> string list \<Rightarrow> shortcut_input_definition" where
  "input_definition canonical category aliases = \<lparr>input_canonical = canonical, input_kind = KeyInput,
     input_category = category, input_aliases = aliases\<rparr>"

definition supported_inputs :: "shortcut_input_definition list" where
  "supported_inputs =
     [input_definition ''Super'' ModifierCategory [''Meta'', ''Win''],
      input_definition ''Ctrl'' ModifierCategory [''Control''],
      input_definition ''Alt'' ModifierCategory [],
      input_definition ''Shift'' ModifierCategory []] @
     map (\<lambda>key. \<lparr>input_canonical = named_canonical key, input_kind = KeyInput,
       input_category = named_category key, input_aliases = named_aliases key\<rparr>) NAMED_KEYS @
     map (\<lambda>number. \<lparr>input_canonical = CHR ''F'' # decimal number, input_kind = KeyInput,
       input_category = FunctionCategory, input_aliases = []\<rparr>) [1..<25] @
     map (\<lambda>(gesture, alias). \<lparr>input_canonical = gesture_name gesture, input_kind = GestureInput,
       input_category = GestureCategory, input_aliases = [alias]\<rparr>)
       [(ThreeFingerSwipeUp, ''3FingerSwipeUp''), (ThreeFingerSwipeLeft, ''3FingerSwipeLeft''),
        (ThreeFingerSwipeRight, ''3FingerSwipeRight''), (FourFingerSwipeUp, ''4FingerSwipeUp''),
        (FourFingerSwipeDown, ''4FingerSwipeDown''), (FourFingerSwipeLeft, ''4FingerSwipeLeft''),
        (FourFingerSwipeRight, ''4FingerSwipeRight'')]"


section \<open>The keys of the keyboard\<close>

lemma char_lowercase_idem [simp]: "char_lowercase (char_lowercase c) = char_lowercase c"
  by (auto simp: char_lowercase_def is_ascii_uppercase_def)

lemma to_ascii_lowercase_idem [simp]: "to_ascii_lowercase (to_ascii_lowercase s) = to_ascii_lowercase s"
  by (simp add: to_ascii_lowercase_def)

lemma find_owner:
  assumes "distinct (concat (map f ks))" and "key \<in> set ks" and "s \<in> set (f key)"
  shows "find (\<lambda>k. s \<in> set (f k)) ks = Some key"
  using assms by (induction ks) auto

text \<open>The spellings of a named key, in lower case; no two named keys share one.\<close>

definition named_spellings :: "named_key_definition \<Rightarrow> string list" where
  "named_spellings key = map to_ascii_lowercase (named_canonical key # named_aliases key)"

lemma names_key_iff: "names_key (to_ascii_lowercase s) key \<longleftrightarrow> to_ascii_lowercase s \<in> set (named_spellings key)"
  by (auto simp: names_key_def named_spellings_def eq_ignore_ascii_case_def list_ex_iff)
     (metis imageI)

lemma named_spellings_distinct: "distinct (concat (map named_spellings NAMED_KEYS))"
  by code_simp

lemma named_spellings_plain:
  "list_all (list_all (\<lambda>s. 1 < length s \<and> function_number s = None)) (map named_spellings NAMED_KEYS)"
  by code_simp

lemma parse_key_named:
  assumes "key \<in> set NAMED_KEYS" and "to_ascii_lowercase s \<in> set (named_spellings key)"
  shows "parse_key s = Some (named_keycode key, named_canonical key)"
proof -
  have "find (names_key (to_ascii_lowercase s)) NAMED_KEYS = Some key"
    unfolding names_key_iff [abs_def]
    using find_owner [OF named_spellings_distinct assms] by (simp add: names_key_iff [abs_def])
  moreover have "1 < length (to_ascii_lowercase s)" and "function_number (to_ascii_lowercase s) = None"
    using named_spellings_plain assms by (auto simp: list_all_iff)
  ultimately show ?thesis by (simp add: parse_key_def parse_lower_key_def parse_named_key_def)
qed

text \<open>All the keys that an expression can name, with their canonical names.\<close>

definition plain_keys :: "(keycode \<times> string) list" where
  "plain_keys =
     map (\<lambda>i. (letter_keycodes ! i, [char_of (65 + int i)])) [0..<26] @
     map (\<lambda>i. (if i = 0 then 11 else int i + 1, [char_of (48 + int i)])) [0..<10] @
     map (\<lambda>n. (the (function_keycode (int n)), CHR ''F'' # decimal n)) [1..<25]"

definition all_keys :: "(keycode \<times> string) list" where
  "all_keys = plain_keys @ map (\<lambda>key. (named_keycode key, named_canonical key)) NAMED_KEYS"

definition canonical_token :: "string \<Rightarrow> bool" where
  "canonical_token s = (s \<noteq> [] \<and> is_ascii_graphic (hd s) \<and> is_ascii_graphic (last s) \<and>
     CHR ''+'' \<notin> set s \<and> length s \<le> 22)"

lemma all_keys_distinct: "distinct (map fst all_keys) \<and> distinct (map snd all_keys)"
  by code_simp

lemma all_keys_tokens: "list_all (\<lambda>(code, name). canonical_token name) all_keys"
  by code_simp

lemma all_keys_no_modifiers: "list_all (\<lambda>(code, name). parse_modifier name = None) all_keys"
  by code_simp

lemma all_keys_no_gestures: "list_all (\<lambda>(code, name). parse_gesture name = None) all_keys"
  by code_simp

lemma plain_keys_parse: "list_all (\<lambda>(code, name). parse_key name = Some (code, name)) plain_keys"
  by code_simp


lemma all_keys_parse:
  assumes "(code, name) \<in> set all_keys"
  shows "parse_key name = Some (code, name)"
proof -
  consider "(code, name) \<in> set plain_keys"
    | key where "key \<in> set NAMED_KEYS" "code = named_keycode key" "name = named_canonical key"
    using assms by (auto simp: all_keys_def)
  then show ?thesis
  proof cases
    case 1
    then show ?thesis using plain_keys_parse by (auto simp: list_all_iff)
  next
    case 2
    then show ?thesis using parse_key_named [of key name] by (simp add: named_spellings_def)
  qed
qed

lemma letter_key_plain:
  assumes "is_ascii_lowercase c"
  shows "(letter_keycodes ! nat (of_char c - 97), [char_uppercase c]) \<in> set plain_keys"
proof -
  define i where "i = nat (of_char c - 97)"
  have "i < 26" and "of_char c - 32 = 65 + int i" using assms by (auto simp: is_ascii_lowercase_def i_def)
  then have "(letter_keycodes ! i, [char_uppercase c]) = (letter_keycodes ! i, [char_of (65 + int i)])"
    using assms by (simp only: char_uppercase_def if_True)
  moreover have "i \<in> set [0..<26]" using \<open>i < 26\<close> by simp
  ultimately show ?thesis unfolding plain_keys_def i_def set_append set_map by blast
qed

lemma digit_key_plain:
  assumes "is_ascii_digit c"
  shows "(if c = CHR ''0'' then 11 else of_char c - 48 + 1, [c]) \<in> set plain_keys"
proof -
  define i where "i = nat (of_char c - 48)"
  have i: "i < 10" and c: "of_char c = 48 + int i" using assms by (auto simp: is_ascii_digit_def i_def)
  have "c = char_of (48 + int i)" using c by (metis char_of_char)
  moreover have "c = CHR ''0'' \<longleftrightarrow> i = 0"
    using c of_char_eq_iff [of c "CHR ''0''", where 'a = int] by (simp del: of_char_eq_iff)
  ultimately have "(if c = CHR ''0'' then 11 else of_char c - 48 + 1, [c])
      = (if i = 0 then 11 else int i + 1, [char_of (48 + int i)])" using c by auto
  moreover have "i \<in> set [0..<10]" using i by simp
  ultimately show ?thesis unfolding plain_keys_def set_append set_map by blast
qed

lemma function_key_plain:
  assumes "function_keycode (int n) = Some code"
  shows "(code, CHR ''F'' # decimal n) \<in> set plain_keys"
proof -
  have "n \<in> set [1..<25]" using assms by (auto simp: function_keycode_def split: if_splits)
  then have "(the (function_keycode (int n)), CHR ''F'' # decimal n) \<in> set plain_keys"
    unfolding plain_keys_def set_append set_map by blast
  then show ?thesis using assms by simp
qed

lemma parse_key_all_keys:
  assumes "parse_key s = Some (code, name)"
  shows "(code, name) \<in> set all_keys"
proof (cases "length (to_ascii_lowercase s) = 1 \<and>
    (is_ascii_lowercase (hd (to_ascii_lowercase s)) \<or> is_ascii_digit (hd (to_ascii_lowercase s)))")
  case True
  then show ?thesis
    using assms letter_key_plain [of "hd (to_ascii_lowercase s)"]
      digit_key_plain [of "hd (to_ascii_lowercase s)"]
    by (auto simp: parse_key_def parse_lower_key_def all_keys_def split: if_splits)
next
  case False
  then have eq: "(case function_number (to_ascii_lowercase s) of
      Some function \<Rightarrow>
        map_option (\<lambda>code. (code, CHR ''F'' # decimal function)) (function_keycode (int function))
    | None \<Rightarrow> parse_named_key (to_ascii_lowercase s)) = Some (code, name)"
    using assms by (auto simp: parse_key_def parse_lower_key_def)
  show ?thesis
  proof (cases "function_number (to_ascii_lowercase s)")
    case None
    then obtain key where "find (names_key (to_ascii_lowercase s)) NAMED_KEYS = Some key"
      and "code = named_keycode key" "name = named_canonical key"
      using eq by (auto simp: parse_named_key_def)
    then show ?thesis by (auto simp: all_keys_def find_Some_iff)
  next
    case (Some n)
    then show ?thesis using eq function_key_plain by (auto simp: all_keys_def)
  qed
qed

lemma all_keys_inj:
  assumes "(code, name) \<in> set all_keys" and "(code', name') \<in> set all_keys"
  shows "code = code' \<longleftrightarrow> name = name'"
proof -
  have "inj_on fst (set all_keys)" and "inj_on snd (set all_keys)"
    using all_keys_distinct by (auto simp: distinct_map)
  then show ?thesis using assms by (metis fst_conv snd_conv inj_onD)
qed

end
