(* ===== verification/Shortcut_Canonical.thy ===== *)
theory Shortcut_Canonical
  imports Shortcut_Syntax
begin

unbundle bit_operations_syntax

text \<open>
  The normal form of shortcut expressions. Every trigger that the parser of \<open>native_shortcut.rs\<close>
  returns has one of three shapes: a gesture, the tap of a Super key, or a key of the keyboard under one
  of the sixteen sets of modifiers. From that the theory derives that canonical texts parse back, that
  triggers are compared by physical input, and that every spelling shown by the settings is accepted.
\<close>

section \<open>The modifiers of an expression\<close>

definition modifier_masks :: "u8 list" where
  "modifier_masks = [0, 1, 2, 3, 4, 5, 6, 7, 8, 9, 10, 11, 12, 13, 14, 15]"

lemma mask_flag: "m \<in> set modifier_masks \<Longrightarrow> m OR modifier_flag x \<in> set modifier_masks"
  unfolding modifier_masks_def by (cases x; simp; elim disjE; simp)

lemma parse_modifiers_mask:
  "parse_modifiers m names = Inr m' \<Longrightarrow> m \<in> set modifier_masks \<Longrightarrow> m' \<in> set modifier_masks"
  by (induction m names rule: parse_modifiers.induct)
     (auto simp: mask_flag split: option.splits if_splits)

lemma modifier_names:
  "list_all (\<lambda>x. parse_modifier (modifier_name x) = Some x \<and> canonical_token (modifier_name x))
     modifier_order"
  by code_simp

lemma modifier_order_UNIV: "x \<in> set modifier_order"
  by (cases x) (simp_all add: modifier_order_def)

lemma parse_modifier_name [simp]: "parse_modifier (modifier_name x) = Some x"
  using modifier_names modifier_order_UNIV [of x] unfolding list_all_iff by blast

lemma parse_modifiers_held:
  assumes "m \<in> set modifier_masks"
  shows "parse_modifiers 0 (map modifier_name (modifiers_held m)) = Inr m"
  using assms parse_modifier_name [of Super] parse_modifier_name [of Ctrl]
    parse_modifier_name [of Alt] parse_modifier_name [of Shift]
  unfolding modifier_masks_def by (simp; elim disjE; simp add: modifiers_held_def modifier_order_def)

lemma modifiers_held_inj:
  assumes "m \<in> set modifier_masks" and "m' \<in> set modifier_masks"
    and "modifiers_held m = modifiers_held m'"
  shows "m = m'"
proof -
  have "(Inr m :: shortcut_error + u8) = Inr m'"
    using parse_modifiers_held [OF assms(1)] parse_modifiers_held [OF assms(2)] unfolding assms(3)
    by (rule trans [OF sym])
  then show ?thesis by simp
qed

lemma modifiers_held_0 [simp]: "modifiers_held 0 = []"
  by (simp add: modifiers_held_def)

section \<open>Canonical expressions\<close>

text \<open>The canonical text of a mask and a key, and the tokens that the parser finds in it.\<close>

definition canonical_tokens :: "u8 \<Rightarrow> string \<Rightarrow> string list" where
  "canonical_tokens m name = map modifier_name (modifiers_held m) @ [name]"

lemma canonical_token_trim: "canonical_token s \<Longrightarrow> trim s = s"
  by (simp add: canonical_token_def trim_graphic)

lemma canonical_tokens_ok:
  assumes "canonical_token name"
  shows "list_all canonical_token (canonical_tokens m name)"
  using assms modifier_names modifier_order_UNIV by (auto simp: canonical_tokens_def list_all_iff)

lemma canonical_tokens_split:
  assumes "canonical_token name"
  shows "map trim (split_on CHR ''+'' (join_with CHR ''+'' (canonical_tokens m name))) = canonical_tokens m name"
proof -
  have ok: "\<forall>p \<in> set (canonical_tokens m name). canonical_token p"
    using canonical_tokens_ok [OF assms] by (simp add: list_all_iff)
  then have "split_on CHR ''+'' (join_with CHR ''+'' (canonical_tokens m name)) = canonical_tokens m name"
    by (intro split_on_join) (auto simp: canonical_tokens_def canonical_token_def)
  then show ?thesis using ok by (simp add: canonical_token_trim map_idI)
qed

lemma canonical_token_sum:
  "list_all canonical_token ps \<Longrightarrow> (\<Sum>p\<leftarrow>ps. length p + 1) \<le> 23 * length ps"
  by (induction ps) (auto simp: canonical_token_def)

lemma canonical_tokens_length:
  assumes "canonical_token name"
  shows "join_with CHR ''+'' (canonical_tokens m name) \<noteq> []"
    and "length (join_with CHR ''+'' (canonical_tokens m name)) \<le> MAX_SHORTCUT_EXPRESSION_BYTES"
proof -
  have "(\<Sum>p\<leftarrow>canonical_tokens m name. length p + 1) \<le> 23 * length (canonical_tokens m name)"
    using canonical_tokens_ok [OF assms] by (rule canonical_token_sum)
  moreover have "length (canonical_tokens m name) \<le> 5"
    by (simp add: canonical_tokens_def modifiers_held_def modifier_order_def)
  moreover have len: "length (join_with CHR ''+'' (canonical_tokens m name)) + 1
      = (\<Sum>p\<leftarrow>canonical_tokens m name. length p + 1)"
    by (intro length_join_with) (simp add: canonical_tokens_def)
  ultimately show "length (join_with CHR ''+'' (canonical_tokens m name)) \<le> MAX_SHORTCUT_EXPRESSION_BYTES"
    unfolding MAX_SHORTCUT_EXPRESSION_BYTES_def by linarith
  have "1 < (\<Sum>p\<leftarrow>canonical_tokens m name. length p + 1)"
    using assms by (cases name) (auto simp: canonical_tokens_def canonical_token_def)
  then show "join_with CHR ''+'' (canonical_tokens m name) \<noteq> []" using len by auto
qed

text \<open>The three shapes of a trigger that the parser returns.\<close>

lemma parse_shortcut_cases:
  assumes "parse_shortcut e = Inr t"
  obtains (gesture) g where "t = \<lparr>trigger_modifiers = 0, trigger_key = Gesture g,
      trigger_canonical = gesture_name g\<rparr>"
    | (tap) "t = \<lparr>trigger_modifiers = 0, trigger_key = ModifierTap Super,
      trigger_canonical = modifier_name Super\<rparr>"
    | (key) m code name where "m \<in> set modifier_masks" "(code, name) \<in> set all_keys"
      "t = \<lparr>trigger_modifiers = m, trigger_key = Evdev code,
        trigger_canonical = join_with CHR ''+'' (canonical_tokens m name)\<rparr>"
proof -
  have zero: "0 \<in> set modifier_masks" by (simp add: modifier_masks_def)
  show ?thesis
    using assms
    by (auto simp: parse_shortcut_def Let_def res_simps
        split: if_splits option.splits
        intro: gesture tap key [OF parse_modifiers_mask [OF _ zero] parse_key_all_keys]
        simp flip: canonical_tokens_def)
qed

text \<open>A plain token for a key, in front of which the held modifiers are written.\<close>

definition key_token :: "string \<Rightarrow> bool" where
  "key_token s = (canonical_token s \<and> parse_modifier s = None \<and> parse_gesture s = None)"

lemma all_keys_key_token: "(code, name) \<in> set all_keys \<Longrightarrow> key_token name"
  using all_keys_tokens all_keys_no_modifiers all_keys_no_gestures
  by (auto simp: list_all_iff key_token_def)

lemma parse_key_expression:
  assumes mem: "m \<in> set modifier_masks" and tok: "key_token s" and code: "parse_key s = Some (code, name)"
  shows "parse_shortcut (join_with CHR ''+'' (canonical_tokens m s)) =
    Inr \<lparr>trigger_modifiers = m, trigger_key = Evdev code,
      trigger_canonical = join_with CHR ''+'' (canonical_tokens m name)\<rparr>"
proof -
  have s: "canonical_token s" "parse_modifier s = None" "parse_gesture s = None"
    using tok by (auto simp: key_token_def)
  have single: "length (canonical_tokens m s) = 1 \<Longrightarrow> hd (canonical_tokens m s) = s"
    by (simp add: canonical_tokens_def)
  have nonempty: "\<not> list_ex (\<lambda>token. token = []) (canonical_tokens m s)" "canonical_tokens m s \<noteq> []"
    using canonical_tokens_ok [OF s(1), of m]
    by (auto simp: list_ex_iff list_all_iff canonical_token_def canonical_tokens_def)
  have parts: "butlast (canonical_tokens m s) = map modifier_name (modifiers_held m)"
    "last (canonical_tokens m s) = s" by (simp_all add: canonical_tokens_def)
  show ?thesis
    using canonical_tokens_length [OF s(1), of m] nonempty single s code
    unfolding parse_shortcut_def canonical_tokens_split [OF s(1)]
    by (simp add: parts Let_def parse_modifiers_held [OF mem] ok_or_def flip: canonical_tokens_def)
qed

lemma gestures_and_tap_canonical:
  "list_all (\<lambda>g. parse_shortcut (gesture_name g) = Inr \<lparr>trigger_modifiers = 0,
      trigger_key = Gesture g, trigger_canonical = gesture_name g\<rparr>)
    [ThreeFingerSwipeUp, ThreeFingerSwipeLeft, ThreeFingerSwipeRight, FourFingerSwipeUp,
     FourFingerSwipeDown, FourFingerSwipeLeft, FourFingerSwipeRight] \<and>
   parse_shortcut (modifier_name Super) = Inr \<lparr>trigger_modifiers = 0,
      trigger_key = ModifierTap Super, trigger_canonical = modifier_name Super\<rparr>"
  by code_simp

lemma parse_canonical:
  assumes "parse_shortcut e = Inr t"
  shows "parse_shortcut (trigger_canonical t) = Inr t"
  using assms
proof (cases rule: parse_shortcut_cases)
  case (gesture g)
  then show ?thesis using gestures_and_tap_canonical by (cases g) simp_all
next
  case tap
  then show ?thesis using gestures_and_tap_canonical by simp
next
  case (key m code name)
  then show ?thesis
    using parse_key_expression [OF key(1) all_keys_key_token [OF key(2)] all_keys_parse [OF key(2)]] by simp
qed

lemma trigger_eqI:
  assumes "parse_shortcut e = Inr t" and "parse_shortcut e' = Inr t'"
    and "trigger_modifiers t = trigger_modifiers t'" and "trigger_key t = trigger_key t'"
  shows "t = t'"
  using assms(1)
proof (cases rule: parse_shortcut_cases)
  case (key m code name)
  from assms(2) show ?thesis
  proof (cases rule: parse_shortcut_cases)
    case (key m' code' name')
    then show ?thesis
      using assms(3,4) \<open>(code, name) \<in> set all_keys\<close> \<open>t = _\<close> all_keys_inj [of code name code' name'] by simp
  qed (use key assms(4) in simp_all)
qed (use assms(2-4) in \<open>auto elim: parse_shortcut_cases\<close>)

section \<open>The inputs offered by the settings\<close>

lemma alias_tokens:
  "list_all (list_all key_token) (map named_aliases NAMED_KEYS)"
  by code_simp

lemma modifier_inputs:
  "list_all (\<lambda>d. input_category d = ModifierCategory \<and> list_all (\<lambda>s. parse_modifier s \<noteq> None \<and>
     parse_modifier s = parse_modifier (input_canonical d)) (input_canonical d # input_aliases d))
   (take 4 supported_inputs)"
  by code_simp

lemma gesture_inputs:
  "list_all (\<lambda>d. input_category d = GestureCategory \<and> list_all (\<lambda>s. map_sum id trigger_canonical
     (parse_shortcut s) = Inr (input_canonical d)) (input_canonical d # input_aliases d))
   (drop 71 supported_inputs)"
  by code_simp

lemma named_keys_category:
  "list_all (\<lambda>key. named_category key \<noteq> ModifierCategory \<and> named_category key \<noteq> GestureCategory) NAMED_KEYS"
  by code_simp

lemma supported_inputs_cases:
  assumes "d \<in> set supported_inputs"
  obtains (modifiers) "d \<in> set (take 4 supported_inputs)"
    | (named) key where "key \<in> set NAMED_KEYS"
      "d = \<lparr>input_canonical = named_canonical key, input_kind = KeyInput,
        input_category = named_category key, input_aliases = named_aliases key\<rparr>"
    | (fkey) n where "n \<in> set [1..<25]"
      "d = \<lparr>input_canonical = CHR ''F'' # decimal n, input_kind = KeyInput,
        input_category = FunctionCategory, input_aliases = []\<rparr>"
    | (gestures) "d \<in> set (drop 71 supported_inputs)"
proof -
  have split: "supported_inputs = take 4 supported_inputs @
      map (\<lambda>key. \<lparr>input_canonical = named_canonical key, input_kind = KeyInput,
        input_category = named_category key, input_aliases = named_aliases key\<rparr>) NAMED_KEYS @
      map (\<lambda>number. \<lparr>input_canonical = CHR ''F'' # decimal number, input_kind = KeyInput,
        input_category = FunctionCategory, input_aliases = []\<rparr>) [1..<25] @
      drop 71 supported_inputs"
    by (simp add: supported_inputs_def NAMED_KEYS_def)
  show ?thesis
    using assms modifiers named fkey gestures
    by (subst (asm) split) (auto simp del: set_upt)
qed

text \<open>What the settings promise of a spelling of an input.\<close>

definition accepted_spelling :: "shortcut_input_definition \<Rightarrow> string \<Rightarrow> bool" where
  "accepted_spelling d s = (case input_category d of
       ModifierCategory \<Rightarrow> parse_modifier s \<noteq> None \<and>
         parse_modifier s = parse_modifier (input_canonical d)
     | GestureCategory \<Rightarrow> map_sum id trigger_canonical (parse_shortcut s) = Inr (input_canonical d)
     | _ \<Rightarrow> list_all (\<lambda>m. map_sum id trigger_canonical
         (parse_shortcut (join_with CHR ''+'' (canonical_tokens m s))) =
           Inr (join_with CHR ''+'' (canonical_tokens m (input_canonical d)))) modifier_masks)"

lemma accepted_keyI:
  assumes "input_category d \<noteq> ModifierCategory" "input_category d \<noteq> GestureCategory"
    and "key_token s" and "parse_key s = Some (code, input_canonical d)"
  shows "accepted_spelling d s"
proof -
  have "list_all (\<lambda>m. map_sum id trigger_canonical
         (parse_shortcut (join_with CHR ''+'' (canonical_tokens m s))) =
           Inr (join_with CHR ''+'' (canonical_tokens m (input_canonical d)))) modifier_masks"
    unfolding list_all_iff using parse_key_expression [OF _ assms(3,4)] by auto
  then show ?thesis using assms(1,2) by (cases "input_category d") (simp_all add: accepted_spelling_def)
qed

lemma named_input_accepted:
  assumes "key \<in> set NAMED_KEYS" and "s \<in> set (named_canonical key # named_aliases key)"
    and "input_category d = named_category key" "input_canonical d = named_canonical key"
  shows "accepted_spelling d s"
proof (rule accepted_keyI)
  show "input_category d \<noteq> ModifierCategory" "input_category d \<noteq> GestureCategory"
    using named_keys_category assms(1,3) by (auto simp: list_all_iff)
  have "(named_keycode key, named_canonical key) \<in> set all_keys" using assms(1) by (auto simp: all_keys_def)
  then show "key_token s"
    using alias_tokens all_keys_key_token assms(1,2) by (auto simp: list_all_iff)
  show "parse_key s = Some (named_keycode key, input_canonical d)"
    using parse_key_named [OF assms(1)] assms(2,4) by (auto simp: named_spellings_def)
qed

lemma function_input_accepted:
  assumes "n \<in> set [1..<25]" and "s = CHR ''F'' # decimal n"
    and "input_category d = FunctionCategory" "input_canonical d = s"
  shows "accepted_spelling d s"
proof -
  have "(the (function_keycode (int n)), s) \<in> set all_keys"
    using assms(1,2) unfolding all_keys_def plain_keys_def set_append set_map by blast
  then show ?thesis
    using assms(3,4) all_keys_key_token all_keys_parse by (intro accepted_keyI) auto
qed

text \<open>Claim C27 (the parser of shortcut expressions computes a normal form). Whatever expression was
  accepted, its canonical text is accepted too and gives exactly the same trigger: modifiers, key and
  canonical text. So a file whose expressions have been replaced by their canonical texts, as every
  saved file has, means what the original meant, and saving it again changes nothing.\<close>

theorem canonical_text_parses_back:
  assumes "parse_shortcut e = Inr t"
  shows "parse_shortcut (trigger_canonical t) = Inr t"
  using assms by (rule parse_canonical)

theorem canonical_text_parses_back_witness:
  "parse_shortcut '' shift + WIN+pgup'' = Inr \<lparr>trigger_modifiers = 9, trigger_key = Evdev 104,
      trigger_canonical = ''Super+Shift+PageUp''\<rparr> \<and>
   parse_shortcut ''Super+Shift+PageUp'' = Inr \<lparr>trigger_modifiers = 9, trigger_key = Evdev 104,
      trigger_canonical = ''Super+Shift+PageUp''\<rparr>"
proof -
  have "parse_shortcut '' shift + WIN+pgup'' = Inr \<lparr>trigger_modifiers = 9, trigger_key = Evdev 104,
      trigger_canonical = ''Super+Shift+PageUp''\<rparr>" by code_simp
  from this canonical_text_parses_back [OF this] show ?thesis by (simp only: shortcut_trigger.simps simp_thms)
qed

text \<open>Triggers are compared by what the user presses. For two accepted expressions, the
  canonical texts agree exactly if the modifiers and the key agree, and then the triggers are equal.
  The duplicate check of the compiler, the conflict check of the editor and the lookup by canonical
  text of update and remove therefore all decide whether two bindings would react to the same
  physical input, however they were written.\<close>

lemma triggers_compare_physical_inputs:
  assumes "parse_shortcut e = Inr t" and "parse_shortcut e' = Inr t'"
  shows "(trigger_canonical t = trigger_canonical t' \<longleftrightarrow>
      trigger_modifiers t = trigger_modifiers t' \<and> trigger_key t = trigger_key t') \<and>
    (trigger_canonical t = trigger_canonical t' \<longleftrightarrow> t = t')"
proof -
  have "t = t'" if "trigger_canonical t = trigger_canonical t'"
  proof -
    have "(Inr t :: shortcut_error + shortcut_trigger) = Inr t'"
      using parse_canonical [OF assms(1)] parse_canonical [OF assms(2)] unfolding that
      by (rule trans [OF sym])
    then show ?thesis by simp
  qed
  then show ?thesis using trigger_eqI [OF assms] by blast
qed

text \<open>Every input that the settings offer is accepted. Each canonical name and each alias of
  the list of supported inputs is understood by the parser. A spelling of a modifier names that
  modifier, a spelling of a gesture gives the gesture's trigger, and a spelling of a key, with any of
  the sixteen sets of modifiers written in front of it, gives the trigger whose canonical text has the
  listed canonical name.\<close>

lemma supported_inputs_are_accepted:
  "list_all (\<lambda>d. list_all (accepted_spelling d) (input_canonical d # input_aliases d)) supported_inputs"
  unfolding list_all_iff
proof (intro ballI)
  fix d s
  assume d: "d \<in> set supported_inputs" and s: "s \<in> set (input_canonical d # input_aliases d)"
  from d show "accepted_spelling d s"
  proof (cases rule: supported_inputs_cases)
    case modifiers
    then show ?thesis using modifier_inputs s by (auto simp: list_all_iff accepted_spelling_def)
  next
    case (named key)
    then show ?thesis using named_input_accepted [of key s d] s by simp
  next
    case (fkey n)
    then show ?thesis using function_input_accepted [of n s d] s by simp
  next
    case gestures
    then show ?thesis using gesture_inputs s by (auto simp: list_all_iff accepted_spelling_def)
  qed
qed

end
