(* ===== verification/Shortcut_Bindings.thy ===== *)
theory Shortcut_Bindings
  imports Shortcut_Canonical
begin

text \<open>
  The shortcut document of \<open>native_shortcut.rs\<close>: the actions and targets of a binding with their
  validation (and the two validators it calls, \<open>plugin_actions.rs\<close> \<open>valid_id\<close> and \<open>settings.rs\<close>
  \<open>validate_desktop_file_id\<close>), the compilation of a file into the table of the engine, and the
  default file.

  The lemmas characterise the files that compile (\<open>bindings_ok\<close>) and show that normalising such a
  file changes neither its triggers nor its targets.
\<close>

section \<open>Actions and targets\<close>

datatype (plugins only: code) shortcut_action =
    Shutdown | OpenApplications | OpenDashboard | OpenOverview | ToggleVerticalMaximize |
    ResizeGrowWidth | ResizeShrinkWidth | ResizeGrowHeight | ResizeShrinkHeight |
    ResetWindowHeight | ResetWindowWidth | WindowSwitcher | OpenClipboard | CaptureRegion |
    CloseWindow | MinimizeWindow | MinimizeAllWindows | ToggleMaximize | ToggleFullscreen |
    ToggleWindowAlwaysOnTop | ReleasePointer | LockScreen | VolumeUp | VolumeDown | VolumeMute |
    BrightnessUp | BrightnessDown | NextKeyboardLayout | PreviousKeyboardLayout | OpenSettings |
    FocusLeft | FocusRight | FocusUp | FocusDown | SwapLeft | SwapRight | SwapUp | SwapDown |
    PreviousWorkspace | NextWorkspace | MoveToPreviousWorkspace | MoveToNextWorkspace |
    SwitchWorkspace1 | SwitchWorkspace2 | SwitchWorkspace3 | SwitchWorkspace4 |
    SwitchWorkspace5 | SwitchWorkspace6 | SwitchWorkspace7 | SwitchWorkspace8 |
    SwitchWorkspace9 | MoveToWorkspace1 | MoveToWorkspace2 | MoveToWorkspace3 |
    MoveToWorkspace4 | MoveToWorkspace5 | MoveToWorkspace6 | MoveToWorkspace7 |
    MoveToWorkspace8 | MoveToWorkspace9

definition ALL_ACTIONS :: "shortcut_action list" where
  "ALL_ACTIONS = [
     OpenApplications, OpenDashboard, OpenSettings, OpenOverview, WindowSwitcher, OpenClipboard,
     CaptureRegion, CloseWindow, MinimizeWindow, MinimizeAllWindows, ToggleVerticalMaximize,
     ResizeGrowWidth, ResizeShrinkWidth, ResizeGrowHeight, ResizeShrinkHeight, ResetWindowHeight,
     ResetWindowWidth, ToggleMaximize, ToggleFullscreen, ToggleWindowAlwaysOnTop, ReleasePointer,
     LockScreen, Shutdown, VolumeUp, VolumeDown, VolumeMute, BrightnessUp, BrightnessDown,
     NextKeyboardLayout, PreviousKeyboardLayout, FocusLeft, FocusRight, FocusUp, FocusDown,
     SwapLeft, SwapRight, SwapUp, SwapDown, PreviousWorkspace, NextWorkspace,
     MoveToPreviousWorkspace, MoveToNextWorkspace, SwitchWorkspace1, SwitchWorkspace2,
     SwitchWorkspace3, SwitchWorkspace4, SwitchWorkspace5, SwitchWorkspace6, SwitchWorkspace7,
     SwitchWorkspace8, SwitchWorkspace9, MoveToWorkspace1, MoveToWorkspace2, MoveToWorkspace3,
     MoveToWorkspace4, MoveToWorkspace5, MoveToWorkspace6, MoveToWorkspace7, MoveToWorkspace8,
     MoveToWorkspace9]"

datatype shortcut_target =
    PluginAction string
  | DenialAction shortcut_action
  | Spawn "string list" "string option"
  | SpawnSh string

definition MAX_SHORTCUTS :: nat where "MAX_SHORTCUTS = 256"
definition MAX_SPAWN_ARGUMENTS :: nat where "MAX_SPAWN_ARGUMENTS = 64"
definition MAX_SPAWN_ARGUMENT_BYTES :: nat where "MAX_SPAWN_ARGUMENT_BYTES = 4096"
definition MAX_SHELL_COMMAND_BYTES :: nat where "MAX_SHELL_COMMAND_BYTES = 4096"
definition MAX_DESKTOP_FILE_ID_BYTES :: nat where "MAX_DESKTOP_FILE_ID_BYTES = 4096"

definition LEGACY_LAUNCHER_ACTION :: string where
  "LEGACY_LAUNCHER_ACTION = ''denial_launcher.openApplications''"

definition COLOR_TUNING_ACTION :: string where
  "COLOR_TUNING_ACTION = ''denial_desktop.colorTuning''"

definition valid_id :: "string \<Rightarrow> bool" where
  "valid_id i = (length i \<le> 256 \<and>
     option_is_some_and (split_once CHR ''.'' i) (\<lambda>(package, name).
       package \<noteq> [] \<and> name \<noteq> [] \<and> package \<noteq> ''native'' \<and>
       list_all (\<lambda>c. is_ascii_lowercase c \<or> is_ascii_digit c \<or> c = CHR ''_'') package \<and>
       list_all (\<lambda>c. is_ascii_alphanumeric c \<or> c \<in> set ''_.-'') name))"

definition validate_desktop_file_id :: "string \<Rightarrow> bool" where
  "validate_desktop_file_id i = (\<not> (i = [] \<or> MAX_DESKTOP_FILE_ID_BYTES < length i \<or>
     \<not> (8 \<le> length i \<and> drop (length i - 8) i = ''.desktop'') \<or>
     CHR ''/'' \<in> set i \<or> CHR 0x00 \<in> set i))"

fun bad_argument :: "nat \<Rightarrow> string list \<Rightarrow> nat option" where
  "bad_argument index [] = None"
| "bad_argument index (a # as) =
    (if MAX_SPAWN_ARGUMENT_BYTES < length a \<or> CHR 0x00 \<in> set a then Some index
     else bad_argument (index + 1) as)"

definition validate_spawn :: "string list \<Rightarrow> shortcut_error + unit" where
  "validate_spawn arguments =
    (if arguments = [] \<or> MAX_SPAWN_ARGUMENTS < length arguments then Inl (Document Spawn_Arguments)
     else case bad_argument 0 arguments of
       Some index \<Rightarrow> Inl (Document (Spawn_Argument index))
     | None \<Rightarrow> if hd arguments = [] then Inl (Document Spawn_Program) else Inr ())"

definition validate_spawn_sh :: "string \<Rightarrow> shortcut_error + unit" where
  "validate_spawn_sh command =
    (if command = [] \<or> MAX_SHELL_COMMAND_BYTES < length command \<or> CHR 0x00 \<in> set command
     then Inl (Document Spawn_Sh_Command) else Inr ())"

fun validate_target :: "shortcut_target \<Rightarrow> shortcut_error + unit" where
  "validate_target (PluginAction i) =
    (if valid_id i then Inr () else Inl (Document Invalid_Plugin_Action))"
| "validate_target (DenialAction action) = Inr ()"
| "validate_target (Spawn command desktop_file_id) =
    try_bind (validate_spawn command) (\<lambda>_.
      case desktop_file_id of
        None \<Rightarrow> Inr ()
      | Some i \<Rightarrow> if validate_desktop_file_id i then Inr () else Inl (Document (Spawn_Desktop_File i)))"
| "validate_target (SpawnSh command) = validate_spawn_sh command"

definition repeating_actions :: "shortcut_action list" where
  "repeating_actions = [
     VolumeUp, VolumeDown, BrightnessUp, BrightnessDown, ResizeGrowWidth, ResizeShrinkWidth,
     ResizeGrowHeight, ResizeShrinkHeight, FocusLeft, FocusRight, FocusUp, FocusDown, SwapLeft,
     SwapRight, SwapUp, SwapDown, PreviousWorkspace, NextWorkspace, MoveToPreviousWorkspace,
     MoveToNextWorkspace]"

fun target_repeats :: "shortcut_target \<Rightarrow> bool" where
  "target_repeats (DenialAction action) = (action \<in> set repeating_actions)"
| "target_repeats _ = False"

section \<open>Files\<close>

record shortcut_binding =
  binding_shortcut :: string
  binding_target :: shortcut_target

record shortcut_file =
  file_version :: u64
  file_revision :: u64
  file_shortcuts :: "shortcut_binding list"

record compiled_shortcut =
  compiled_trigger :: shortcut_trigger
  compiled_target :: shortcut_target

definition SHORTCUT_SCHEMA_VERSION :: u64 where "SHORTCUT_SCHEMA_VERSION = 12"
definition OLDEST_SHORTCUT_SCHEMA_VERSION :: u64 where "OLDEST_SHORTCUT_SCHEMA_VERSION = 1"

fun compile_bindings ::
    "shortcut_trigger set \<Rightarrow> shortcut_binding list \<Rightarrow> shortcut_error + compiled_shortcut list" where
  "compile_bindings triggers [] = Inr []"
| "compile_bindings triggers (b # bs) =
    try_bind (parse_shortcut (binding_shortcut b)) (\<lambda>trigger.
    if trigger \<in> triggers then Inl (Document (Duplicate_Shortcut (trigger_canonical trigger)))
    else try_bind (validate_target (binding_target b)) (\<lambda>_.
      try_bind (compile_bindings (insert trigger triggers) bs) (\<lambda>compiled.
        Inr (\<lparr>compiled_trigger = trigger, compiled_target = binding_target b\<rparr> # compiled))))"

definition compile_shortcuts :: "shortcut_file \<Rightarrow> shortcut_error + compiled_shortcut list" where
  "compile_shortcuts file =
    (if file_version file \<noteq> SHORTCUT_SCHEMA_VERSION
       then Inl (Document (Unsupported_Version (file_version file)))
     else if file_revision file = 0 then Inl (Document Zero_Revision)
     else if MAX_SHORTCUTS < length (file_shortcuts file) then Inl (Document Too_Many_Shortcuts)
     else compile_bindings {} (file_shortcuts file))"

definition normalize_and_compile_shortcuts ::
    "shortcut_file \<Rightarrow> shortcut_error + shortcut_file \<times> compiled_shortcut list" where
  "normalize_and_compile_shortcuts file =
     try_bind (compile_shortcuts file) (\<lambda>compiled.
       Inr (file\<lparr>file_shortcuts := map (\<lambda>(b, c).
              b\<lparr>binding_shortcut := trigger_canonical (compiled_trigger c)\<rparr>)
              (zip (file_shortcuts file) compiled)\<rparr>, compiled))"

definition empty_shortcut_file :: shortcut_file where
  "empty_shortcut_file = \<lparr>file_version = SHORTCUT_SCHEMA_VERSION, file_revision = 1,
     file_shortcuts = []\<rparr>"

definition canonical_binding :: "shortcut_binding \<Rightarrow> shortcut_error + shortcut_binding" where
  "canonical_binding b =
     try_bind (validate_target (binding_target b)) (\<lambda>_.
     try_bind (parse_shortcut (binding_shortcut b)) (\<lambda>t.
       Inr \<lparr>binding_shortcut = trigger_canonical t, binding_target = binding_target b\<rparr>))"

section \<open>The default file\<close>

definition SHORTCUT_V2_ADDITIONS :: "(string \<times> shortcut_action) list" where
  "SHORTCUT_V2_ADDITIONS = [
     (''ThreeFingerSwipeLeft'', WindowSwitcher), (''ThreeFingerSwipeRight'', WindowSwitcher)]"

definition SHORTCUT_V3_ADDITIONS :: "(string \<times> shortcut_action) list" where
  "SHORTCUT_V3_ADDITIONS = [
     (''Super+Shift+M'', MinimizeAllWindows)]"

definition SHORTCUT_V4_ADDITIONS :: "(string \<times> shortcut_action) list" where
  "SHORTCUT_V4_ADDITIONS = [
     (''Super+Left'', FocusLeft), (''Super+Right'', FocusRight), (''Super+Up'', FocusUp),
     (''Super+Down'', FocusDown), (''Super+Ctrl+Left'', SwapLeft),
     (''Super+Ctrl+Right'', SwapRight), (''Super+Ctrl+Up'', SwapUp),
     (''Super+Ctrl+Down'', SwapDown)]"

definition SHORTCUT_V5_ADDITIONS :: "(string \<times> shortcut_action) list" where
  "SHORTCUT_V5_ADDITIONS = [
     (''Super+Alt+Left'', PreviousWorkspace), (''Super+Alt+Right'', NextWorkspace),
     (''Super+Alt+Shift+Left'', MoveToPreviousWorkspace),
     (''Super+Alt+Shift+Right'', MoveToNextWorkspace), (''Super+1'', SwitchWorkspace1),
     (''Super+2'', SwitchWorkspace2), (''Super+3'', SwitchWorkspace3),
     (''Super+4'', SwitchWorkspace4), (''Super+5'', SwitchWorkspace5),
     (''Super+6'', SwitchWorkspace6), (''Super+7'', SwitchWorkspace7),
     (''Super+8'', SwitchWorkspace8), (''Super+9'', SwitchWorkspace9),
     (''Super+Shift+1'', MoveToWorkspace1), (''Super+Shift+2'', MoveToWorkspace2),
     (''Super+Shift+3'', MoveToWorkspace3), (''Super+Shift+4'', MoveToWorkspace4),
     (''Super+Shift+5'', MoveToWorkspace5), (''Super+Shift+6'', MoveToWorkspace6),
     (''Super+Shift+7'', MoveToWorkspace7), (''Super+Shift+8'', MoveToWorkspace8),
     (''Super+Shift+9'', MoveToWorkspace9)]"

definition SHORTCUT_V6_ADDITIONS :: "(string \<times> shortcut_action) list" where
  "SHORTCUT_V6_ADDITIONS = [
     (''FourFingerSwipeRight'', PreviousWorkspace), (''FourFingerSwipeLeft'', NextWorkspace)]"

definition SHORTCUT_V9_ADDITIONS :: "(string \<times> shortcut_action) list" where
  "SHORTCUT_V9_ADDITIONS = [
     (''FourFingerSwipeDown'', PreviousWorkspace), (''FourFingerSwipeUp'', NextWorkspace)]"

definition SHORTCUT_V10_ADDITIONS :: "(string \<times> shortcut_action) list" where
  "SHORTCUT_V10_ADDITIONS = [
     (''Super+Minus'', ResizeShrinkWidth), (''Super+Equal'', ResizeGrowWidth),
     (''Super+Shift+Minus'', ResizeShrinkHeight), (''Super+Shift+Equal'', ResizeGrowHeight)]"

definition SHORTCUT_V12_PLUGIN_ADDITIONS :: "(string \<times> string) list" where
  "SHORTCUT_V12_PLUGIN_ADDITIONS = [(''Super+Alt+P'', COLOR_TUNING_ACTION)]"

definition default_definitions :: "(string \<times> shortcut_action) list" where
  "default_definitions = [
     (''Ctrl+Alt+Backspace'', Shutdown), (''Super'', OpenApplications),
     (''Super+A'', OpenOverview), (''ThreeFingerSwipeUp'', OpenOverview),
     (''Super+Shift+Up'', ToggleVerticalMaximize), (''Super+Tab'', WindowSwitcher),
     (''Super+V'', OpenClipboard), (''Super+Shift+S'', CaptureRegion),
     (''Super+M'', MinimizeWindow), (''Super+Shift+M'', MinimizeAllWindows),
     (''Super+W'', ToggleMaximize), (''Super+F'', ToggleFullscreen),
     (''Super+Escape'', ReleasePointer), (''Super+K'', CloseWindow), (''Super+L'', LockScreen),
     (''VolumeUp'', VolumeUp), (''VolumeDown'', VolumeDown), (''VolumeMute'', VolumeMute),
     (''BrightnessUp'', BrightnessUp), (''BrightnessDown'', BrightnessDown),
     (''Super+VolumeUp'', BrightnessUp), (''Super+VolumeDown'', BrightnessDown),
     (''Super+Space'', NextKeyboardLayout), (''Super+Shift+Space'', PreviousKeyboardLayout)]"

definition default_target :: "shortcut_action \<Rightarrow> shortcut_target" where
  "default_target action = (if action = OpenApplications then PluginAction LEGACY_LAUNCHER_ACTION
     else DenialAction action)"

definition default_shortcut_file :: shortcut_file where
  "default_shortcut_file = \<lparr>file_version = SHORTCUT_SCHEMA_VERSION, file_revision = 1,
     file_shortcuts =
       map (\<lambda>(shortcut, action). \<lparr>binding_shortcut = shortcut, binding_target = default_target action\<rparr>)
         (default_definitions @ SHORTCUT_V2_ADDITIONS @ SHORTCUT_V4_ADDITIONS @
          SHORTCUT_V5_ADDITIONS @ SHORTCUT_V6_ADDITIONS @ SHORTCUT_V9_ADDITIONS @
          SHORTCUT_V10_ADDITIONS) @
       map (\<lambda>(shortcut, i). \<lparr>binding_shortcut = shortcut, binding_target = PluginAction i\<rparr>)
         SHORTCUT_V12_PLUGIN_ADDITIONS\<rparr>"

section \<open>The files that compile\<close>

text \<open>The trigger of a binding whose text the parser accepts, and the compiled form of a binding.\<close>

definition binding_trigger :: "shortcut_binding \<Rightarrow> shortcut_trigger" where
  "binding_trigger b = projr (parse_shortcut (binding_shortcut b))"

definition compiled :: "shortcut_binding \<Rightarrow> compiled_shortcut" where
  "compiled b = \<lparr>compiled_trigger = binding_trigger b, compiled_target = binding_target b\<rparr>"

definition binding_ok :: "shortcut_binding \<Rightarrow> bool" where
  "binding_ok b = (\<not> isl (parse_shortcut (binding_shortcut b)) \<and> validate_target (binding_target b) = Inr ())"

definition bindings_ok :: "shortcut_binding list \<Rightarrow> bool" where
  "bindings_ok bs = (length bs \<le> MAX_SHORTCUTS \<and> list_all binding_ok bs \<and>
     distinct (map binding_trigger bs))"

definition file_ok :: "shortcut_file \<Rightarrow> bool" where
  "file_ok f = (file_version f = SHORTCUT_SCHEMA_VERSION \<and> file_revision f \<noteq> 0 \<and>
     bindings_ok (file_shortcuts f))"

lemma binding_okD:
  assumes "binding_ok b"
  shows "parse_shortcut (binding_shortcut b) = Inr (binding_trigger b)"
    and "validate_target (binding_target b) = Inr ()"
  using assms by (auto simp: binding_ok_def binding_trigger_def)

lemma binding_okI:
  assumes "parse_shortcut (binding_shortcut b) = Inr t" and "validate_target (binding_target b) = Inr ()"
  shows "binding_ok b" and "binding_trigger b = t"
  using assms by (auto simp: binding_ok_def binding_trigger_def)

lemma compile_bindings_iff:
  "compile_bindings triggers bs = Inr cs \<longleftrightarrow>
    list_all binding_ok bs \<and> distinct (map binding_trigger bs) \<and>
    set (map binding_trigger bs) \<inter> triggers = {} \<and> cs = map compiled bs"
proof (induction bs arbitrary: triggers cs)
  case (Cons b bs)
  show ?case
  proof (cases "binding_ok b")
    case True
    then show ?thesis
      using binding_okD [OF True] Cons.IH
      by (auto simp: res_simps compiled_def)
  next
    case False
    then show ?thesis
      by (auto simp: res_simps binding_ok_def)
  qed
qed auto

lemma compile_shortcuts_iff:
  "compile_shortcuts f = Inr cs \<longleftrightarrow> file_ok f \<and> cs = map compiled (file_shortcuts f)"
  by (auto simp: compile_shortcuts_def file_ok_def bindings_ok_def compile_bindings_iff)

text \<open>The canonical form of a binding.\<close>

definition canonical_form :: "shortcut_binding \<Rightarrow> shortcut_binding" where
  "canonical_form b = b\<lparr>binding_shortcut := trigger_canonical (binding_trigger b)\<rparr>"

lemma canonical_form_target [simp]: "binding_target (canonical_form b) = binding_target b"
  by (simp add: canonical_form_def)

lemma canonical_form_trigger:
  assumes "binding_ok b"
  shows "binding_ok (canonical_form b)" and "binding_trigger (canonical_form b) = binding_trigger b"
proof -
  have "parse_shortcut (binding_shortcut (canonical_form b)) = Inr (binding_trigger b)"
    using parse_canonical [OF binding_okD(1) [OF assms]] by (simp add: canonical_form_def)
  then show "binding_ok (canonical_form b)" and "binding_trigger (canonical_form b) = binding_trigger b"
    using binding_okI [of "canonical_form b"] binding_okD(2) [OF assms] by simp_all
qed

lemma canonical_form_idem:
  "binding_ok b \<Longrightarrow> canonical_form (canonical_form b) = canonical_form b"
  by (simp add: canonical_form_def [of "canonical_form b"] canonical_form_trigger(2))
     (simp add: canonical_form_def)

lemma canonical_forms_ok:
  assumes "bindings_ok bs"
  shows "bindings_ok (map canonical_form bs)"
    and "map binding_trigger (map canonical_form bs) = map binding_trigger bs"
proof -
  show eq: "map binding_trigger (map canonical_form bs) = map binding_trigger bs"
    using assms by (auto simp: bindings_ok_def list_all_iff canonical_form_trigger(2))
  then show "bindings_ok (map canonical_form bs)"
    using assms by (auto simp: bindings_ok_def list_all_iff canonical_form_trigger(1) simp del: map_map)
qed

lemma normalize_iff:
  "normalize_and_compile_shortcuts f = Inr (g, cs) \<longleftrightarrow>
    file_ok f \<and> g = f\<lparr>file_shortcuts := map canonical_form (file_shortcuts f)\<rparr> \<and>
    cs = map compiled (file_shortcuts f)"
proof -
  have "map (\<lambda>(b, c). b\<lparr>binding_shortcut := trigger_canonical (compiled_trigger c)\<rparr>)
      (zip bs (map compiled bs)) = map canonical_form bs" for bs
    by (induction bs) (auto simp: compiled_def canonical_form_def)
  then show ?thesis
    by (auto simp: normalize_and_compile_shortcuts_def res_simps compile_shortcuts_iff)
qed

lemma normalized_ok:
  assumes "normalize_and_compile_shortcuts f = Inr (g, cs)"
  shows "file_ok g" and "compile_shortcuts g = Inr cs"
    and "list_all (\<lambda>b. canonical_form b = b) (file_shortcuts g)"
proof -
  have f: "file_ok f" and g: "g = f\<lparr>file_shortcuts := map canonical_form (file_shortcuts f)\<rparr>"
    and cs: "cs = map compiled (file_shortcuts f)"
    using assms by (auto simp: normalize_iff)
  then have bs: "bindings_ok (file_shortcuts f)" by (simp add: file_ok_def)
  show ok: "file_ok g" using f g canonical_forms_ok(1) [OF bs] by (simp add: file_ok_def)
  have "map compiled (map canonical_form (file_shortcuts f)) = map compiled (file_shortcuts f)"
    using bs by (auto simp: bindings_ok_def list_all_iff compiled_def canonical_form_trigger(2))
  then show "compile_shortcuts g = Inr cs" using ok g cs by (simp add: compile_shortcuts_iff)
  show "list_all (\<lambda>b. canonical_form b = b) (file_shortcuts g)"
    using bs g by (auto simp: bindings_ok_def list_all_iff canonical_form_idem)
qed

lemma canonical_binding_iff:
  "canonical_binding b = Inr b' \<longleftrightarrow> binding_ok b \<and> b' = canonical_form b"
  by (cases b; cases "parse_shortcut (binding_shortcut b)")
     (auto simp: canonical_binding_def res_simps binding_ok_def binding_trigger_def canonical_form_def)

lemma ALL_ACTIONS_complete: "distinct ALL_ACTIONS \<and> length ALL_ACTIONS = 60"
  by code_simp

text \<open>Bindings whose texts are canonical: they are distinct if their texts are.\<close>

definition canonical_text :: "string \<Rightarrow> bool" where
  "canonical_text s = (map_sum id trigger_canonical (parse_shortcut s) = Inr s)"

lemma canonical_text_trigger:
  assumes "canonical_text (binding_shortcut b)" and "validate_target (binding_target b) = Inr ()"
  shows "binding_ok b" and "trigger_canonical (binding_trigger b) = binding_shortcut b"
  using assms by (cases "parse_shortcut (binding_shortcut b)";
      auto simp: canonical_text_def binding_ok_def binding_trigger_def)+

lemma canonical_texts_ok:
  assumes "length bs \<le> MAX_SHORTCUTS" and "list_all canonical_text (map binding_shortcut bs)"
    and "list_all (\<lambda>t. validate_target t = Inr ()) (map binding_target bs)"
    and "distinct (map binding_shortcut bs)"
  shows "bindings_ok bs"
proof -
  have ok: "binding_ok b" and canon: "trigger_canonical (binding_trigger b) = binding_shortcut b"
    if "b \<in> set bs" for b
    using canonical_text_trigger [of b] assms(2,3) that by (auto simp: list_all_iff)
  have "map trigger_canonical (map binding_trigger bs) = map binding_shortcut bs"
    using canon by simp
  then have "distinct (map binding_trigger bs)" using assms(4) by (metis distinct_map)
  then show ?thesis using ok assms(1) by (simp add: bindings_ok_def list_all_iff)
qed

lemma default_texts: "list_all canonical_text (map binding_shortcut (file_shortcuts default_shortcut_file))"
  by code_simp

lemma default_targets:
  "list_all (\<lambda>t. validate_target t = Inr ()) (map binding_target (file_shortcuts default_shortcut_file))"
  by code_simp

lemma default_distinct: "distinct (map binding_shortcut (file_shortcuts default_shortcut_file))"
  by code_simp

lemma default_size: "length (file_shortcuts default_shortcut_file) = 65"
  by code_simp

lemma default_file_ok: "file_ok default_shortcut_file"
  unfolding file_ok_def
  by (intro conjI canonical_texts_ok [OF _ default_texts default_targets default_distinct])
     (simp_all add: default_size MAX_SHORTCUTS_def, simp_all add: default_shortcut_file_def)

end
