(* ===== verification/Shortcut_Migration.thy ===== *)
theory Shortcut_Migration
  imports Shortcut_Bindings
begin

text \<open>
  The migration of shortcut documents of the versions 1 to 11 to the current version 12
  (\<open>native_shortcut.rs\<close>, \<open>migrate_shortcut_file\<close> and its helpers). A document is a list of bindings; the
  functions return the changed list and the number of changes, as the source does through its
  \<open>&mut ShortcutFile\<close>. The theory shows that a document that was valid for its own version always
  migrates to a valid current document that keeps every binding of the user.
\<close>

section \<open>Migration\<close>

text \<open>\<open>iter_mut().find(p)\<close> followed by an update: the first match is changed, and the result tells
  whether there was one.\<close>

fun update_first :: "('a \<Rightarrow> bool) \<Rightarrow> ('a \<Rightarrow> 'a) \<Rightarrow> 'a list \<Rightarrow> 'a list \<times> bool" where
  "update_first p f [] = ([], False)"
| "update_first p f (x # xs) = (if p x then (f x # xs, True)
     else (case update_first p f xs of (ys, found) \<Rightarrow> (x # ys, found)))"

definition migrate_default_shortcut ::
    "shortcut_binding list \<Rightarrow> string \<Rightarrow> shortcut_action \<Rightarrow> string \<Rightarrow>
     shortcut_error + shortcut_binding list \<times> bool" where
  "migrate_default_shortcut bs from_text action to_text =
     try_bind (parse_shortcut from_text) (\<lambda>from.
     try_bind (parse_shortcut to_text) (\<lambda>to.
       Inr (if list_ex (\<lambda>b. parse_shortcut (binding_shortcut b) = Inr to) bs then (bs, False)
            else update_first (\<lambda>b. binding_target b = DenialAction action \<and>
                   parse_shortcut (binding_shortcut b) = Inr from)
                 (\<lambda>b. b\<lparr>binding_shortcut := trigger_canonical to\<rparr>) bs)))"

definition migrate_default_shortcut_action ::
    "shortcut_binding list \<Rightarrow> string \<Rightarrow> shortcut_action \<Rightarrow> shortcut_action \<Rightarrow>
     shortcut_error + shortcut_binding list \<times> bool" where
  "migrate_default_shortcut_action bs text old new =
     try_bind (parse_shortcut text) (\<lambda>shortcut.
       Inr (update_first (\<lambda>b. binding_target b = DenialAction old \<and>
              parse_shortcut (binding_shortcut b) = Inr shortcut)
            (\<lambda>b. b\<lparr>binding_target := DenialAction new\<rparr>) bs))"

definition migrate_launcher_targets :: "shortcut_binding list \<Rightarrow> shortcut_binding list \<times> nat" where
  "migrate_launcher_targets bs =
     (map (\<lambda>b. if binding_target b = DenialAction OpenApplications
             then b\<lparr>binding_target := PluginAction LEGACY_LAUNCHER_ACTION\<rparr> else b) bs,
      length (filter (\<lambda>b. binding_target b = DenialAction OpenApplications) bs))"

fun configured_triggers :: "shortcut_binding list \<Rightarrow> shortcut_error + shortcut_trigger set" where
  "configured_triggers [] = Inr {}"
| "configured_triggers (b # bs) = try_bind (parse_shortcut (binding_shortcut b)) (\<lambda>t.
     try_bind (configured_triggers bs) (\<lambda>ts. Inr (insert t ts)))"

text \<open>The loop over a table of default bindings: a binding is appended unless its trigger is taken or
  the file is full.\<close>

fun add_missing :: "(string \<times> shortcut_target) list \<Rightarrow> shortcut_trigger set \<Rightarrow>
    shortcut_binding list \<Rightarrow> nat \<Rightarrow> shortcut_error + shortcut_binding list \<times> nat" where
  "add_missing [] configured bs changed = Inr (bs, changed)"
| "add_missing ((shortcut, target) # additions) configured bs changed =
    try_bind (parse_shortcut shortcut) (\<lambda>trigger.
    if trigger \<in> configured \<or> length bs = MAX_SHORTCUTS
    then add_missing additions configured bs changed
    else add_missing additions (insert trigger configured)
      (bs @ [\<lparr>binding_shortcut = trigger_canonical trigger, binding_target = target\<rparr>]) (changed + 1))"

definition add_default_plugin_shortcuts ::
    "shortcut_binding list \<Rightarrow> shortcut_error + shortcut_binding list \<times> nat" where
  "add_default_plugin_shortcuts bs =
     try_bind (configured_triggers bs) (\<lambda>configured.
       add_missing (map (\<lambda>(shortcut, i). (shortcut, PluginAction i)) SHORTCUT_V12_PLUGIN_ADDITIONS)
         configured bs 0)"

definition migration_additions ::
    "u64 \<Rightarrow> (shortcut_error + (string \<times> shortcut_action) list list) option" where
  "migration_additions version =
    (if version = SHORTCUT_SCHEMA_VERSION then None
     else if version = OLDEST_SHORTCUT_SCHEMA_VERSION then Some (Inr
       [SHORTCUT_V2_ADDITIONS, SHORTCUT_V3_ADDITIONS, SHORTCUT_V4_ADDITIONS, SHORTCUT_V5_ADDITIONS,
        SHORTCUT_V6_ADDITIONS, SHORTCUT_V9_ADDITIONS])
     else if version = 2 then Some (Inr
       [SHORTCUT_V3_ADDITIONS, SHORTCUT_V4_ADDITIONS, SHORTCUT_V5_ADDITIONS, SHORTCUT_V6_ADDITIONS,
        SHORTCUT_V9_ADDITIONS])
     else if version = 3 then Some (Inr
       [SHORTCUT_V4_ADDITIONS, SHORTCUT_V5_ADDITIONS, SHORTCUT_V6_ADDITIONS, SHORTCUT_V9_ADDITIONS])
     else if version = 4 then Some (Inr
       [SHORTCUT_V5_ADDITIONS, SHORTCUT_V6_ADDITIONS, SHORTCUT_V9_ADDITIONS])
     else if version = 5 then Some (Inr [SHORTCUT_V6_ADDITIONS, SHORTCUT_V9_ADDITIONS])
     else if version = 6 then Some (Inr [SHORTCUT_V9_ADDITIONS])
     else if version = 7 then Some (Inr [SHORTCUT_V9_ADDITIONS])
     else if version = 8 then Some (Inr [SHORTCUT_V9_ADDITIONS])
     else if 9 \<le> version \<and> version \<le> 11 then Some (Inr [])
     else Some (Inl (Document (Unsupported_Version version))))"

text \<open>The migration of a document before version 10.\<close>

definition migrate_old_bindings ::
    "u64 \<Rightarrow> (string \<times> shortcut_action) list list \<Rightarrow> shortcut_binding list \<Rightarrow>
     shortcut_error + shortcut_binding list \<times> nat" where
  "migrate_old_bindings version additions bs =
     try_bind (migrate_default_shortcut bs ''Super+Up'' ToggleMaximize ''Super+W'') (\<lambda>(bs, relocated).
     try_bind (if version = 6 \<or> version = 7
         then try_bind (migrate_default_shortcut_action bs ''FourFingerSwipeRight''
                 NextWorkspace PreviousWorkspace) (\<lambda>(bs, first).
              try_bind (migrate_default_shortcut_action bs ''FourFingerSwipeLeft''
                 PreviousWorkspace NextWorkspace) (\<lambda>(bs, second).
              Inr (bs, of_bool first + of_bool second)))
         else Inr (bs, 0)) (\<lambda>(bs, inverted).
     try_bind (configured_triggers bs) (\<lambda>configured.
     try_bind (add_missing (map (\<lambda>(shortcut, action). (shortcut, default_target action))
         (concat (additions @ [SHORTCUT_V10_ADDITIONS]))) configured bs
         (of_bool relocated + inverted)) (\<lambda>(bs, changed).
     case migrate_launcher_targets bs of (bs, launchers) \<Rightarrow>
     try_bind (add_default_plugin_shortcuts bs) (\<lambda>(bs, plugins).
       Inr (bs, changed + launchers + plugins))))))"

definition migrate_recent_bindings ::
    "u64 \<Rightarrow> shortcut_binding list \<Rightarrow> shortcut_error + shortcut_binding list \<times> nat" where
  "migrate_recent_bindings version bs =
    (case (if version = 10 then migrate_launcher_targets bs else (bs, 0)) of (bs, launchers) \<Rightarrow>
     try_bind (add_default_plugin_shortcuts bs) (\<lambda>(bs, plugins). Inr (bs, launchers + plugins)))"

definition migrate_shortcut_file ::
    "shortcut_file \<Rightarrow> shortcut_error + shortcut_file \<times> nat option" where
  "migrate_shortcut_file file =
    (case migration_additions (file_version file) of
       None \<Rightarrow> Inr (file, None)
     | Some result \<Rightarrow> try_bind result (\<lambda>additions.
         if file_revision file = 0 then Inl (Document Zero_Revision)
         else if MAX_SHORTCUTS < length (file_shortcuts file) then Inl (Document Too_Many_Shortcuts)
         else try_bind
           (if 10 \<le> file_version file
            then migrate_recent_bindings (file_version file) (file_shortcuts file)
            else migrate_old_bindings (file_version file) additions (file_shortcuts file))
           (\<lambda>(bs, changed). Inr (\<lparr>file_version = SHORTCUT_SCHEMA_VERSION,
              file_revision = saturating_succ (file_revision file), file_shortcuts = bs\<rparr>,
              Some changed))))"

section \<open>What the migration keeps\<close>

text \<open>The input and target of a binding, and the inputs of a list of bindings.\<close>

definition binding_input :: "shortcut_binding \<Rightarrow> shortcut_trigger \<times> shortcut_target" where
  "binding_input b = (binding_trigger b, binding_target b)"

definition keeps :: "(shortcut_trigger \<times> shortcut_target \<Rightarrow> bool) \<Rightarrow> shortcut_binding list \<Rightarrow>
    shortcut_binding list \<Rightarrow> bool" where
  "keeps except bs bs' = list_all (\<lambda>b. except (binding_input b) \<or>
     binding_input b \<in> set (map binding_input bs')) bs"

lemma keepsI: "(\<And>b. b \<in> set bs \<Longrightarrow> except (binding_input b) \<or> (\<exists>b' \<in> set bs'. binding_input b' = binding_input b))
    \<Longrightarrow> keeps except bs bs'"
  unfolding keeps_def list_all_iff set_map by (metis imageI)

lemma keeps_refl: "keeps except bs (bs @ cs)"
  by (auto simp: keeps_def list_all_iff)

lemma keeps_trans: "keeps except bs cs \<Longrightarrow> keeps except cs ds \<Longrightarrow> keeps except bs ds"
  unfolding keeps_def list_all_iff set_map by (metis (no_types, lifting) imageE imageI)

lemma keeps_weaken: "keeps except bs cs \<Longrightarrow> (\<And>x. except x \<Longrightarrow> except' x) \<Longrightarrow> keeps except' bs cs"
  unfolding keeps_def list_all_iff by blast

lemma update_first_cases:
  assumes "update_first p f xs = (ys, found)"
  obtains (none) "\<not> found" "ys = xs" "\<forall>x \<in> set xs. \<not> p x"
    | (one) us x vs where "found" "xs = us @ x # vs" "p x" "ys = us @ f x # vs"
proof -
  have "(\<not> found \<and> ys = xs \<and> (\<forall>x \<in> set xs. \<not> p x)) \<or>
      (found \<and> (\<exists>us x vs. xs = us @ x # vs \<and> p x \<and> ys = us @ f x # vs))"
    using assms
  proof (induction xs arbitrary: ys)
    case (Cons x xs)
    show ?case
    proof (cases "p x")
      case True
      then show ?thesis using Cons.prems by (auto intro: exI [of _ "[]"])
    next
      case False
      then obtain zs where "update_first p f xs = (zs, found)" "ys = x # zs"
        using Cons.prems by (auto split: prod.splits)
      then show ?thesis using Cons.IH [of zs] False by simp (metis append_Cons)
    qed
  qed simp
  then show ?thesis using none one by blast
qed

text \<open>The texts of the additions are canonical, and their targets are valid.\<close>

definition addition_ok :: "string \<times> shortcut_target \<Rightarrow> bool" where
  "addition_ok a = (canonical_text (fst a) \<and> validate_target (snd a) = Inr ())"

lemma default_target_valid: "validate_target (default_target a) = Inr ()"
proof -
  have "valid_id LEGACY_LAUNCHER_ACTION" by code_simp
  then show ?thesis by (simp add: default_target_def)
qed

lemma addition_texts:
  "list_all (\<lambda>s. s \<in> set (map binding_shortcut (file_shortcuts default_shortcut_file)))
    (map fst (SHORTCUT_V2_ADDITIONS @ SHORTCUT_V3_ADDITIONS @ SHORTCUT_V4_ADDITIONS @
      SHORTCUT_V5_ADDITIONS @ SHORTCUT_V6_ADDITIONS @ SHORTCUT_V9_ADDITIONS @ SHORTCUT_V10_ADDITIONS) @
     map fst SHORTCUT_V12_PLUGIN_ADDITIONS @ [''Super+Up'', ''Super+W'',
      ''FourFingerSwipeRight'', ''FourFingerSwipeLeft''])"
  by code_simp

lemma default_text_canonical:
  "s \<in> set (map binding_shortcut (file_shortcuts default_shortcut_file)) \<Longrightarrow> canonical_text s"
  using default_texts unfolding list_all_iff by blast

lemma canonical_textD: "canonical_text s \<Longrightarrow> \<exists>t. parse_shortcut s = Inr t \<and> trigger_canonical t = s"
  by (cases "parse_shortcut s") (auto simp: canonical_text_def)

lemma configured_triggers_ok:
  "list_all binding_ok bs \<Longrightarrow> configured_triggers bs = Inr (set (map binding_trigger bs))"
  by (induction bs) (auto simp: binding_okD)

lemma add_missing_ok:
  assumes "list_all addition_ok additions" and "bindings_ok bs" and "configured = set (map binding_trigger bs)"
  shows "\<exists>cs n. add_missing additions configured bs changed = Inr (bs @ cs, n) \<and> bindings_ok (bs @ cs)"
  using assms
proof (induction additions arbitrary: configured bs changed)
  case Nil
  then show ?case by (auto intro: exI [of _ "[]"])
next
  case (Cons a additions)
  obtain shortcut target where a: "a = (shortcut, target)" by fastforce
  obtain t where t: "parse_shortcut shortcut = Inr t" "trigger_canonical t = shortcut"
    using Cons.prems(1) canonical_textD a by (auto simp: addition_ok_def)
  show ?case
  proof (cases "t \<in> configured \<or> length bs = MAX_SHORTCUTS")
    case True
    then show ?thesis using Cons.IH [OF _ Cons.prems(2,3)] Cons.prems(1) a t(1) by simp
  next
    case False
    let ?b = "\<lparr>binding_shortcut = trigger_canonical t, binding_target = target\<rparr>"
    have b: "binding_ok ?b" "binding_trigger ?b = t"
      using t a Cons.prems(1) binding_okI [of ?b t] by (auto simp: addition_ok_def)
    have "bindings_ok (bs @ [?b])"
      using Cons.prems(2,3) False b by (auto simp: bindings_ok_def)
    moreover have "insert t configured = set (map binding_trigger (bs @ [?b]))"
      using Cons.prems(3) b by simp
    moreover have "list_all addition_ok additions" using Cons.prems(1) by simp
    ultimately have "\<exists>cs n. add_missing additions (insert t configured) (bs @ [?b]) (changed + 1)
        = Inr ((bs @ [?b]) @ cs, n) \<and> bindings_ok ((bs @ [?b]) @ cs)"
      by (intro Cons.IH)
    then obtain cs n where "add_missing additions (insert t configured) (bs @ [?b]) (changed + 1)
        = Inr ((bs @ [?b]) @ cs, n)" and "bindings_ok ((bs @ [?b]) @ cs)" by blast
    then show ?thesis
      using a t(1) False by (intro exI [of _ "?b # cs"] exI [of _ n]) simp
  qed
qed

lemma update_first_kept:
  assumes "update_first p f bs = (cs, found)" and "\<And>b. p b \<Longrightarrow> except (binding_input b)"
  shows "keeps except bs cs"
  using assms(1)
proof (cases rule: update_first_cases)
  case none
  then show ?thesis using keeps_refl [of except bs "[]"] by simp
next
  case (one us x vs)
  then show ?thesis using assms(2) by (intro keepsI) auto
qed

lemma bindings_ok_replace:
  assumes "bindings_ok (us @ b # vs)" and "binding_ok b'"
    and "binding_trigger b' \<notin> set (map binding_trigger (us @ vs))"
  shows "bindings_ok (us @ b' # vs)"
  using assms by (auto simp: bindings_ok_def)

text \<open>Denial's own old defaults, which the migration may move or retarget.\<close>

definition old_default :: "u64 \<Rightarrow> shortcut_trigger \<times> shortcut_target \<Rightarrow> bool" where
  "old_default version x = (case x of (trigger, target) \<Rightarrow>
     (version \<le> 10 \<and> target = DenialAction OpenApplications) \<or>
     (version < 10 \<and> trigger_canonical trigger = ''Super+Up'' \<and> target = DenialAction ToggleMaximize) \<or>
     ((version = 6 \<or> version = 7) \<and>
       (trigger_canonical trigger = ''FourFingerSwipeRight'' \<and> target = DenialAction NextWorkspace \<or>
        trigger_canonical trigger = ''FourFingerSwipeLeft'' \<and> target = DenialAction PreviousWorkspace)))"

text \<open>A step of the migration: it succeeds, the result is valid, and what is not an old default stays.\<close>

definition migrates :: "u64 \<Rightarrow> shortcut_binding list \<Rightarrow> shortcut_error + shortcut_binding list \<times> 'n \<Rightarrow> bool" where
  "migrates version bs result = (\<exists>cs n. result = Inr (cs, n) \<and> bindings_ok cs \<and>
     keeps (old_default version) bs cs)"

lemma migratesI:
  "result = Inr (cs, n) \<Longrightarrow> bindings_ok cs \<Longrightarrow> keeps (old_default version) bs cs \<Longrightarrow> migrates version bs result"
  unfolding migrates_def by blast

lemma migrates_bind:
  assumes "migrates version bs result"
    and "\<And>cs n. bindings_ok cs \<Longrightarrow> migrates version cs (next_step cs n)"
  shows "migrates version bs (try_bind result (\<lambda>(cs, n). next_step cs n))"
proof -
  obtain cs n where r: "result = Inr (cs, n)" "bindings_ok cs" "keeps (old_default version) bs cs"
    using assms(1) by (auto simp: migrates_def)
  obtain ds m where d: "next_step cs n = Inr (ds, m)" "bindings_ok ds" "keeps (old_default version) cs ds"
    using assms(2) [OF r(2)] unfolding migrates_def by blast
  then show ?thesis using r keeps_trans [OF r(3) d(3)] by (auto intro: migratesI)
qed

lemma migrates_add_missing:
  assumes "list_all addition_ok additions" and "bindings_ok bs"
  shows "migrates version bs (try_bind (configured_triggers bs) (\<lambda>configured.
    add_missing additions configured bs changed))"
proof -
  have "configured_triggers bs = Inr (set (map binding_trigger bs))"
    using assms(2) configured_triggers_ok by (simp add: bindings_ok_def)
  moreover obtain cs n where "add_missing additions (set (map binding_trigger bs)) bs changed = Inr (bs @ cs, n)"
    and "bindings_ok (bs @ cs)" using add_missing_ok [OF assms refl] by blast
  ultimately show ?thesis using keeps_refl by (auto intro: migratesI)
qed

lemma migrates_plugins: "bindings_ok bs \<Longrightarrow> migrates version bs (add_default_plugin_shortcuts bs)"
proof -
  have "list_all addition_ok (map (\<lambda>(shortcut, i). (shortcut, PluginAction i)) SHORTCUT_V12_PLUGIN_ADDITIONS)"
    by code_simp
  then show "bindings_ok bs \<Longrightarrow> migrates version bs (add_default_plugin_shortcuts bs)"
    unfolding add_default_plugin_shortcuts_def by (rule migrates_add_missing)
qed

lemma bindings_ok_map:
  assumes "bindings_ok bs" and "\<And>b. binding_ok b \<Longrightarrow> binding_ok (f b)"
    and "\<And>b. binding_trigger (f b) = binding_trigger b"
  shows "bindings_ok (map f bs)"
proof -
  have "map binding_trigger (map f bs) = map binding_trigger bs" using assms(3) by simp
  then show ?thesis using assms(1,2) by (auto simp: bindings_ok_def list_all_iff simp del: map_map)
qed

lemma migrates_launchers:
  assumes "bindings_ok bs" and "version \<le> 10"
  shows "migrates version bs (Inr (migrate_launcher_targets bs))"
proof -
  let ?f = "\<lambda>b. if binding_target b = DenialAction OpenApplications
      then b\<lparr>binding_target := PluginAction LEGACY_LAUNCHER_ACTION\<rparr> else b"
  have "valid_id LEGACY_LAUNCHER_ACTION" by code_simp
  then have ok: "binding_ok (?f b)" if "binding_ok b" for b using that by (auto simp: binding_ok_def)
  have trigger: "binding_trigger (?f b) = binding_trigger b" for b by (simp add: binding_trigger_def)
  have "bindings_ok (map ?f bs)" using assms(1) ok trigger by (rule bindings_ok_map)
  moreover have "keeps (old_default version) bs (map ?f bs)"
    using assms(2) by (intro keepsI) (auto simp: binding_input_def old_default_def)
  ultimately show ?thesis by (auto simp: migrate_launcher_targets_def intro: migratesI)
qed

lemma special_texts:
  "canonical_text ''Super+Up''" "canonical_text ''Super+W''"
  "canonical_text ''FourFingerSwipeRight''" "canonical_text ''FourFingerSwipeLeft''"
  using addition_texts default_text_canonical by (auto simp: list_all_iff)

lemma migrates_relocation:
  assumes "bindings_ok bs" and "version < 10"
  shows "migrates version bs (migrate_default_shortcut bs ''Super+Up'' ToggleMaximize ''Super+W'')"
proof -
  obtain old new where t: "parse_shortcut ''Super+Up'' = Inr old" "parse_shortcut ''Super+W'' = Inr new"
    "trigger_canonical old = ''Super+Up''" "trigger_canonical new = ''Super+W''"
    using special_texts [THEN canonical_textD] by blast
  show ?thesis
  proof (cases "list_ex (\<lambda>b. parse_shortcut (binding_shortcut b) = Inr new) bs")
    case True
    then show ?thesis
      using t assms keeps_refl [of _ bs "[]"] by (auto simp: migrate_default_shortcut_def intro: migratesI)
  next
    case False
    let ?p = "\<lambda>b. binding_target b = DenialAction ToggleMaximize \<and>
      parse_shortcut (binding_shortcut b) = Inr old"
    let ?f = "\<lambda>b. b\<lparr>binding_shortcut := trigger_canonical new\<rparr>"
    obtain cs found where u: "update_first ?p ?f bs = (cs, found)" by fastforce
    have "except (binding_input b)" if "?p b" "except = old_default version" for b except
      using that t assms(2) by (simp add: binding_input_def old_default_def binding_trigger_def)
    then have "keeps (old_default version) bs cs" using update_first_kept [OF u] by blast
    moreover have "bindings_ok cs" using u
    proof (cases rule: update_first_cases)
      case (one us b vs)
      have "binding_ok (?f b)" "binding_trigger (?f b) = new"
        using binding_okI [of "?f b" new] one(3) t by simp_all
      moreover have "new \<notin> set (map binding_trigger (us @ vs))"
        using False assms(1) one(2) by (auto simp: list_ex_iff bindings_ok_def list_all_iff binding_okD(1))
      ultimately show ?thesis using bindings_ok_replace assms(1) one by metis
    qed (use assms in simp)
    ultimately show ?thesis using t False u by (auto simp: migrate_default_shortcut_def intro: migratesI)
  qed
qed

lemma migrates_retarget:
  assumes "bindings_ok bs" and "canonical_text s"
    and "\<And>t. trigger_canonical t = s \<Longrightarrow> old_default version (t, DenialAction old)"
  shows "migrates version bs (migrate_default_shortcut_action bs s old new)"
proof -
  obtain t where t: "parse_shortcut s = Inr t" "trigger_canonical t = s"
    using canonical_textD [OF assms(2)] by blast
  let ?p = "\<lambda>b. binding_target b = DenialAction old \<and> parse_shortcut (binding_shortcut b) = Inr t"
  let ?f = "\<lambda>b. b\<lparr>binding_target := DenialAction new\<rparr>"
  obtain cs found where u: "update_first ?p ?f bs = (cs, found)" by fastforce
  have "old_default version (binding_input b)" if "?p b" for b
    using that t assms(3) by (simp add: binding_input_def binding_trigger_def)
  then have "keeps (old_default version) bs cs" using update_first_kept [OF u] by blast
  moreover have "bindings_ok cs" using u
  proof (cases rule: update_first_cases)
    case (one us b vs)
    have "binding_ok (?f b)" "binding_trigger (?f b) = binding_trigger b"
      using binding_okI [of "?f b" t] one(3) by (simp_all add: binding_trigger_def)
    moreover have "binding_trigger b \<notin> set (map binding_trigger (us @ vs))"
      using assms(1) one(2) by (auto simp: bindings_ok_def)
    ultimately show ?thesis using bindings_ok_replace assms(1) one by metis
  qed (use assms in simp)
  ultimately show ?thesis using t u by (auto simp: migrate_default_shortcut_action_def intro: migratesI)
qed

lemma migrates_inversion:
  assumes "bindings_ok bs" and "version = 6 \<or> version = 7"
  shows "migrates version bs
    (try_bind (migrate_default_shortcut_action bs ''FourFingerSwipeRight'' NextWorkspace PreviousWorkspace)
      (\<lambda>(bs, first). try_bind
        (migrate_default_shortcut_action bs ''FourFingerSwipeLeft'' PreviousWorkspace NextWorkspace)
        (\<lambda>(bs, second). Inr (bs, of_bool first + of_bool second :: nat))))"
proof (intro migrates_bind migrates_retarget special_texts assms(1))
  show "old_default version (t, DenialAction NextWorkspace)"
    if "trigger_canonical t = ''FourFingerSwipeRight''" for t
    using that assms(2) by (auto simp: old_default_def)
  show "old_default version (t, DenialAction PreviousWorkspace)"
    if "trigger_canonical t = ''FourFingerSwipeLeft''" for t
    using that assms(2) by (auto simp: old_default_def)
  show "migrates version cs (Inr (cs, of_bool first + of_bool second :: nat))" if "bindings_ok cs"
    for cs and first second :: bool
    using that keeps_refl [of _ cs "[]"] by (auto intro: migratesI)
qed

lemma migrates_same: "bindings_ok bs \<Longrightarrow> migrates version bs (Inr (bs, n))"
  using keeps_refl [of _ bs "[]"] by (auto intro: migratesI)

lemma migrates_recent:
  assumes "bindings_ok bs"
  shows "migrates version bs (migrate_recent_bindings version bs)"
proof -
  have "migrates version bs (Inr (if version = 10 then migrate_launcher_targets bs else (bs, 0)))"
    using migrates_launchers [OF assms, of version] migrates_same [OF assms] by auto
  then have "migrates version bs (try_bind (Inr (if version = 10 then migrate_launcher_targets bs else (bs, 0)))
    (\<lambda>(bs, launchers). try_bind (add_default_plugin_shortcuts bs) (\<lambda>(bs, plugins). Inr (bs, launchers + plugins))))"
    by (intro migrates_bind migrates_plugins migrates_same)
  then show ?thesis by (simp add: migrate_recent_bindings_def split_def)
qed

lemma addition_lists_canonical:
  "list_all (list_all canonical_text \<circ> map fst) [SHORTCUT_V2_ADDITIONS, SHORTCUT_V3_ADDITIONS,
    SHORTCUT_V4_ADDITIONS, SHORTCUT_V5_ADDITIONS, SHORTCUT_V6_ADDITIONS, SHORTCUT_V9_ADDITIONS,
    SHORTCUT_V10_ADDITIONS]"
proof -
  have "list_all canonical_text (map fst (SHORTCUT_V2_ADDITIONS @ SHORTCUT_V3_ADDITIONS @
      SHORTCUT_V4_ADDITIONS @ SHORTCUT_V5_ADDITIONS @ SHORTCUT_V6_ADDITIONS @ SHORTCUT_V9_ADDITIONS @
      SHORTCUT_V10_ADDITIONS) @ map fst SHORTCUT_V12_PLUGIN_ADDITIONS @ [''Super+Up'', ''Super+W'',
      ''FourFingerSwipeRight'', ''FourFingerSwipeLeft''])"
    by (rule list.pred_mono_strong [OF addition_texts]) (rule default_text_canonical)
  then show ?thesis by (simp only: map_append list_all_append list.pred_inject comp_apply simp_thms)
qed

lemma migrates_old:
  assumes "bindings_ok bs" and "version < 10" and "list_all (list_all canonical_text \<circ> map fst) additions"
  shows "migrates version bs (migrate_old_bindings version additions bs)"
proof -
  let ?additions = "map (\<lambda>(s, a). (s, default_target a)) (concat (additions @ [SHORTCUT_V10_ADDITIONS]))"
  have "list_all (list_all canonical_text \<circ> map fst) (additions @ [SHORTCUT_V10_ADDITIONS])"
    using assms(3) addition_lists_canonical by simp
  then have adds: "list_all addition_ok ?additions"
    using default_target_valid by (fastforce simp: list_all_iff addition_ok_def)
  have le: "version \<le> 10" using assms(2) by simp
  have "migrates version bs
    (try_bind (migrate_default_shortcut bs ''Super+Up'' ToggleMaximize ''Super+W'') (\<lambda>(bs, relocated).
     try_bind (if version = 6 \<or> version = 7
         then try_bind (migrate_default_shortcut_action bs ''FourFingerSwipeRight''
                 NextWorkspace PreviousWorkspace) (\<lambda>(bs, first).
              try_bind (migrate_default_shortcut_action bs ''FourFingerSwipeLeft''
                 PreviousWorkspace NextWorkspace) (\<lambda>(bs, second).
              Inr (bs, of_bool first + of_bool second)))
         else Inr (bs, 0)) (\<lambda>(bs, inverted).
     try_bind (try_bind (configured_triggers bs) (\<lambda>configured.
       add_missing ?additions configured bs (of_bool relocated + inverted))) (\<lambda>(bs, changed).
     try_bind (Inr (migrate_launcher_targets bs)) (\<lambda>(bs, launchers).
     try_bind (add_default_plugin_shortcuts bs) (\<lambda>(bs, plugins).
       Inr (bs, changed + launchers + plugins)))))))"
  proof (intro migrates_bind migrates_relocation migrates_add_missing migrates_launchers
      migrates_plugins migrates_same assms(1,2) adds le)
    show "migrates version cs (if version = 6 \<or> version = 7
         then try_bind (migrate_default_shortcut_action cs ''FourFingerSwipeRight''
                 NextWorkspace PreviousWorkspace) (\<lambda>(bs, first).
              try_bind (migrate_default_shortcut_action bs ''FourFingerSwipeLeft''
                 PreviousWorkspace NextWorkspace) (\<lambda>(bs, second).
              Inr (bs, of_bool first + of_bool second)))
         else Inr (cs, 0 :: nat))" if "bindings_ok cs" for cs
      using migrates_inversion [OF that, of version] migrates_same [OF that, of version "0 :: nat"] by simp
  qed assumption+
  then show ?thesis
    by (simp add: migrate_old_bindings_def try_bind_assoc split_def)
qed

lemma migration_additions_supported:
  assumes "1 \<le> unat version" and "unat version \<le> 11"
  shows "\<exists>additions. migration_additions version = Some (Inr additions) \<and>
    list_all (list_all canonical_text \<circ> map fst) additions"
proof -
  have "version = word_of_nat (unat version)" by simp
  moreover have "unat version = 1 \<or> unat version = 2 \<or> unat version = 3 \<or> unat version = 4 \<or>
      unat version = 5 \<or> unat version = 6 \<or> unat version = 7 \<or> unat version = 8 \<or>
      unat version = 9 \<or> unat version = 10 \<or> unat version = 11"
    using assms by presburger
  ultimately have "version \<in> {1, 2, 3, 4, 5, 6, 7, 8, 9, 10, 11}"
    by (elim disjE) (simp_all only: of_nat_1 of_nat_numeral insert_iff simp_thms)
  then show ?thesis
    using addition_lists_canonical
    by (auto simp: migration_additions_def SHORTCUT_SCHEMA_VERSION_def OLDEST_SHORTCUT_SCHEMA_VERSION_def)
qed

lemma saturating_succ_nonzero: "n \<noteq> 0 \<Longrightarrow> saturating_succ n \<noteq> 0"
  by (simp add: saturating_succ_def add_eq_0_iff) (metis minus_minus)



end
