(* ===== verification/Shortcut_Engine.thy ===== *)
theory Shortcut_Engine
  imports Shortcut_Bindings Window_Layout
begin

unbundle bit_operations_syntax

text \<open>
  The shortcut engine of \<open>native_shortcut.rs\<close>: it observes every key and every recognised gesture before
  the seat does and answers with a disposition. Its state is the compiled table, the held modifier
  keys (one bit for the left and one for the right key), whether a held Super key was used in a chord,
  what ends the window switcher, and the keys whose press it has captured. \<open>Instant::now()\<close> is an argument.
  The theory shows which binding a press selects, that a Super tap fires exactly if nothing was
  chorded, and that the window switcher never outlives what opened it.
\<close>

section \<open>Dispositions\<close>

datatype keyboard_resize = GrowWidth | ShrinkWidth | GrowHeight | ShrinkHeight | ResetHeight | ResetWidth

datatype (plugins only: code) shortcut_disposition =
    Forward | Consume | RequestVtSwitch int | RequestShutdown | RequestApplications |
    RequestPluginAction string | RequestDashboard | RequestOverview | RequestToggleVerticalMaximize |
    RequestResize keyboard_resize | RequestWindowSwitcherNext | RequestWindowSwitcherPrevious |
    RequestWindowSwitcherEnd bool | RequestClipboard | RequestScreenshotRegion | RequestClose |
    RequestMinimize | RequestMinimizeAll | RequestToggleMaximize | RequestToggleFullscreen |
    RequestToggleWindowAlwaysOnTop | RequestReleasePointer | RequestLock | RequestVolumeUp |
    RequestVolumeDown | RequestMute | RequestBrightnessUp | RequestBrightnessDown |
    RequestNextKeyboardLayout | RequestPreviousKeyboardLayout | RequestOpenSettings |
    RequestFocus layout_direction | RequestSwap layout_direction | RequestPreviousWorkspace |
    RequestNextWorkspace | RequestMoveToPreviousWorkspace | RequestMoveToNextWorkspace |
    RequestSwitchWorkspace u8 | RequestMoveToWorkspace u8 |
    RequestSpawn "string list" "string option" | RequestSpawnSh string

definition repeats_system_control :: "shortcut_disposition \<Rightarrow> bool" where
  "repeats_system_control d = (d \<in> set [RequestVolumeUp, RequestVolumeDown, RequestBrightnessUp,
     RequestBrightnessDown])"

definition repeats_with_timer :: "shortcut_disposition \<Rightarrow> bool" where
  "repeats_with_timer d = (repeats_system_control d \<or>
     d \<in> set [RequestResize GrowWidth, RequestResize ShrinkWidth, RequestResize GrowHeight,
       RequestResize ShrinkHeight])"

definition survives_shortcuts_inhibit :: "shortcut_disposition \<Rightarrow> bool" where
  "survives_shortcuts_inhibit d = ((case d of RequestVtSwitch _ \<Rightarrow> True | RequestShutdown \<Rightarrow> True
     | RequestReleasePointer \<Rightarrow> True | RequestMute \<Rightarrow> True | _ \<Rightarrow> False) \<or> repeats_system_control d)"

fun from_action :: "shortcut_action \<Rightarrow> shortcut_disposition" where
  "from_action Shutdown = RequestShutdown"
| "from_action OpenApplications = RequestApplications"
| "from_action OpenDashboard = RequestDashboard"
| "from_action OpenOverview = RequestOverview"
| "from_action ToggleVerticalMaximize = RequestToggleVerticalMaximize"
| "from_action ResizeGrowWidth = RequestResize GrowWidth"
| "from_action ResizeShrinkWidth = RequestResize ShrinkWidth"
| "from_action ResizeGrowHeight = RequestResize GrowHeight"
| "from_action ResizeShrinkHeight = RequestResize ShrinkHeight"
| "from_action ResetWindowHeight = RequestResize ResetHeight"
| "from_action ResetWindowWidth = RequestResize ResetWidth"
| "from_action WindowSwitcher = RequestWindowSwitcherNext"
| "from_action OpenClipboard = RequestClipboard"
| "from_action CaptureRegion = RequestScreenshotRegion"
| "from_action CloseWindow = RequestClose"
| "from_action MinimizeWindow = RequestMinimize"
| "from_action MinimizeAllWindows = RequestMinimizeAll"
| "from_action ToggleMaximize = RequestToggleMaximize"
| "from_action ToggleFullscreen = RequestToggleFullscreen"
| "from_action ToggleWindowAlwaysOnTop = RequestToggleWindowAlwaysOnTop"
| "from_action ReleasePointer = RequestReleasePointer"
| "from_action LockScreen = RequestLock"
| "from_action VolumeUp = RequestVolumeUp"
| "from_action VolumeDown = RequestVolumeDown"
| "from_action VolumeMute = RequestMute"
| "from_action BrightnessUp = RequestBrightnessUp"
| "from_action BrightnessDown = RequestBrightnessDown"
| "from_action NextKeyboardLayout = RequestNextKeyboardLayout"
| "from_action PreviousKeyboardLayout = RequestPreviousKeyboardLayout"
| "from_action OpenSettings = RequestOpenSettings"
| "from_action FocusLeft = RequestFocus Left"
| "from_action FocusRight = RequestFocus Right"
| "from_action FocusUp = RequestFocus Up"
| "from_action FocusDown = RequestFocus Down"
| "from_action SwapLeft = RequestSwap Left"
| "from_action SwapRight = RequestSwap Right"
| "from_action SwapUp = RequestSwap Up"
| "from_action SwapDown = RequestSwap Down"
| "from_action PreviousWorkspace = RequestPreviousWorkspace"
| "from_action NextWorkspace = RequestNextWorkspace"
| "from_action MoveToPreviousWorkspace = RequestMoveToPreviousWorkspace"
| "from_action MoveToNextWorkspace = RequestMoveToNextWorkspace"
| "from_action SwitchWorkspace1 = RequestSwitchWorkspace 1"
| "from_action SwitchWorkspace2 = RequestSwitchWorkspace 2"
| "from_action SwitchWorkspace3 = RequestSwitchWorkspace 3"
| "from_action SwitchWorkspace4 = RequestSwitchWorkspace 4"
| "from_action SwitchWorkspace5 = RequestSwitchWorkspace 5"
| "from_action SwitchWorkspace6 = RequestSwitchWorkspace 6"
| "from_action SwitchWorkspace7 = RequestSwitchWorkspace 7"
| "from_action SwitchWorkspace8 = RequestSwitchWorkspace 8"
| "from_action SwitchWorkspace9 = RequestSwitchWorkspace 9"
| "from_action MoveToWorkspace1 = RequestMoveToWorkspace 1"
| "from_action MoveToWorkspace2 = RequestMoveToWorkspace 2"
| "from_action MoveToWorkspace3 = RequestMoveToWorkspace 3"
| "from_action MoveToWorkspace4 = RequestMoveToWorkspace 4"
| "from_action MoveToWorkspace5 = RequestMoveToWorkspace 5"
| "from_action MoveToWorkspace6 = RequestMoveToWorkspace 6"
| "from_action MoveToWorkspace7 = RequestMoveToWorkspace 7"
| "from_action MoveToWorkspace8 = RequestMoveToWorkspace 8"
| "from_action MoveToWorkspace9 = RequestMoveToWorkspace 9"

fun from_target :: "shortcut_target \<Rightarrow> shortcut_disposition" where
  "from_target (PluginAction i) = RequestPluginAction i"
| "from_target (DenialAction action) = from_action action"
| "from_target (Spawn command desktop_file_id) = RequestSpawn command desktop_file_id"
| "from_target (SpawnSh command) = RequestSpawnSh command"

section \<open>The engine\<close>

definition WINDOW_SWITCHER_GESTURE_HOLD_DELAY :: duration where
  "WINDOW_SWITCHER_GESTURE_HOLD_DELAY = from_millis 190"

definition KEY_LEFT_CTRL :: keycode where "KEY_LEFT_CTRL = 29"
definition KEY_LEFT_ALT :: keycode where "KEY_LEFT_ALT = 56"
definition KEY_RIGHT_CTRL :: keycode where "KEY_RIGHT_CTRL = 97"
definition KEY_RIGHT_ALT :: keycode where "KEY_RIGHT_ALT = 100"
definition KEY_LEFT_META :: keycode where "KEY_LEFT_META = 125"
definition KEY_RIGHT_META :: keycode where "KEY_RIGHT_META = 126"
definition KEY_LEFT_SHIFT :: keycode where "KEY_LEFT_SHIFT = 42"
definition KEY_RIGHT_SHIFT :: keycode where "KEY_RIGHT_SHIFT = 54"
definition KEY_F1 :: keycode where "KEY_F1 = 59"
definition KEY_F10 :: keycode where "KEY_F10 = 68"
definition KEY_F11 :: keycode where "KEY_F11 = 87"
definition KEY_F12 :: keycode where "KEY_F12 = 88"

lemmas key_defs = KEY_LEFT_CTRL_def KEY_LEFT_ALT_def KEY_RIGHT_CTRL_def KEY_RIGHT_ALT_def
  KEY_LEFT_META_def KEY_RIGHT_META_def KEY_LEFT_SHIFT_def KEY_RIGHT_SHIFT_def

definition LEFT_MODIFIER :: u8 where "LEFT_MODIFIER = push_bit 0 1"
definition RIGHT_MODIFIER :: u8 where "RIGHT_MODIFIER = push_bit 1 1"

datatype window_switcher_release =
    ModifierRelease modifier
  | KeyRelease keycode
  | GestureRelease shortcut_gesture instant

record shortcut_engine =
  engine_bindings :: "compiled_shortcut list"
  available_plugin_actions :: "string set"
  ctrl_keys :: u8
  alt_keys :: u8
  shift_keys :: u8
  logo_keys :: u8
  logo_chorded :: bool
  switcher_release :: "window_switcher_release option"
  captured_keys :: "keycode \<rightharpoonup> shortcut_target"
  captured_vt_keys :: "keycode set"

definition from_file :: "shortcut_file \<Rightarrow> shortcut_error + shortcut_engine" where
  "from_file file = try_bind (compile_shortcuts file) (\<lambda>compiled.
     Inr \<lparr>engine_bindings = compiled, available_plugin_actions = {}, ctrl_keys = 0, alt_keys = 0,
       shift_keys = 0, logo_keys = 0, logo_chorded = False, switcher_release = None,
       captured_keys = Map.empty, captured_vt_keys = {}\<rparr>)"

text \<open>The catalog is given by the set of its action identifiers.\<close>

definition set_plugin_actions :: "string set \<Rightarrow> shortcut_engine \<Rightarrow> shortcut_engine" where
  "set_plugin_actions ids e = e\<lparr>available_plugin_actions := ids\<rparr>"

fun target_available :: "shortcut_engine \<Rightarrow> shortcut_target \<Rightarrow> bool" where
  "target_available e (PluginAction i) = (i \<in> available_plugin_actions e)"
| "target_available e (DenialAction action) =
     (action = OpenApplications \<longrightarrow> LEGACY_LAUNCHER_ACTION \<in> available_plugin_actions e)"
| "target_available e _ = True"

definition active_modifiers :: "shortcut_engine \<Rightarrow> u8" where
  "active_modifiers e =
     (if logo_keys e \<noteq> 0 then modifier_flag Super else 0) OR
     (if ctrl_keys e \<noteq> 0 then modifier_flag Ctrl else 0) OR
     (if alt_keys e \<noteq> 0 then modifier_flag Alt else 0) OR
     (if shift_keys e \<noteq> 0 then modifier_flag Shift else 0)"

definition gesture_invokes :: "shortcut_engine \<Rightarrow> shortcut_gesture \<Rightarrow> shortcut_action \<Rightarrow> bool" where
  "gesture_invokes e gesture action = list_ex (\<lambda>b.
     trigger_modifiers (compiled_trigger b) = 0 \<and> trigger_key (compiled_trigger b) = Gesture gesture \<and>
     compiled_target b = DenialAction action) (engine_bindings e)"

fun window_switcher_gesture_step :: "shortcut_gesture \<Rightarrow> shortcut_disposition" where
  "window_switcher_gesture_step ThreeFingerSwipeRight = RequestWindowSwitcherPrevious"
| "window_switcher_gesture_step FourFingerSwipeRight = RequestWindowSwitcherPrevious"
| "window_switcher_gesture_step FourFingerSwipeDown = RequestWindowSwitcherPrevious"
| "window_switcher_gesture_step ThreeFingerSwipeUp = RequestWindowSwitcherNext"
| "window_switcher_gesture_step ThreeFingerSwipeLeft = RequestWindowSwitcherNext"
| "window_switcher_gesture_step FourFingerSwipeUp = RequestWindowSwitcherNext"
| "window_switcher_gesture_step FourFingerSwipeLeft = RequestWindowSwitcherNext"

definition gesture_target :: "shortcut_engine \<Rightarrow> shortcut_gesture \<Rightarrow> shortcut_target option" where
  "gesture_target e gesture = map_option compiled_target (find (\<lambda>b.
     trigger_modifiers (compiled_trigger b) = 0 \<and> trigger_key (compiled_trigger b) = Gesture gesture \<and>
     target_available e (compiled_target b)) (engine_bindings e))"

definition observe_gesture_at ::
    "shortcut_engine \<Rightarrow> shortcut_gesture \<Rightarrow> instant \<Rightarrow> shortcut_engine \<times> shortcut_disposition" where
  "observe_gesture_at e gesture now =
    (let target = gesture_target e gesture in
     if target = Some (DenialAction WindowSwitcher)
     then (if switcher_release e = None
           then e\<lparr>switcher_release := Some (GestureRelease gesture
                  (instant_add now WINDOW_SWITCHER_GESTURE_HOLD_DELAY))\<rparr>
           else e, window_switcher_gesture_step gesture)
     else (e, case target of None \<Rightarrow> Forward | Some t \<Rightarrow> from_target t))"

definition observe_gesture_repeat_at ::
    "shortcut_engine \<Rightarrow> shortcut_gesture \<Rightarrow> instant \<Rightarrow> shortcut_disposition" where
  "observe_gesture_repeat_at e gesture now = (case switcher_release e of
       Some (GestureRelease owner repeat_after) \<Rightarrow>
         if repeat_after \<le> now then window_switcher_gesture_step gesture else Consume
     | _ \<Rightarrow> Consume)"

definition end_gesture ::
    "shortcut_engine \<Rightarrow> shortcut_gesture \<Rightarrow> shortcut_engine \<times> shortcut_disposition" where
  "end_gesture e gesture = (case switcher_release e of
       Some (GestureRelease owner repeat_after) \<Rightarrow>
         if owner = gesture then (e\<lparr>switcher_release := None\<rparr>, RequestWindowSwitcherEnd False)
         else (e, Forward)
     | _ \<Rightarrow> (e, Forward))"

definition cancel_gestures :: "shortcut_engine \<Rightarrow> shortcut_engine" where
  "cancel_gestures e = (case switcher_release e of
       Some (GestureRelease _ _) \<Rightarrow> e\<lparr>switcher_release := None\<rparr>
     | _ \<Rightarrow> e)"

definition matches_key :: "shortcut_engine \<Rightarrow> keycode \<Rightarrow> compiled_shortcut \<Rightarrow> bool" where
  "matches_key e k b = (trigger_modifiers (compiled_trigger b) = active_modifiers e \<and>
     trigger_key (compiled_trigger b) = Evdev k \<and> target_available e (compiled_target b))"

definition target_for_key :: "shortcut_engine \<Rightarrow> keycode \<Rightarrow> (shortcut_target \<times> u8) option" where
  "target_for_key e k = map_option (\<lambda>b. (compiled_target b, trigger_modifiers (compiled_trigger b)))
     (find (matches_key e k) (engine_bindings e))"

definition modifier_tap_target :: "shortcut_engine \<Rightarrow> modifier \<Rightarrow> shortcut_target option" where
  "modifier_tap_target e m = map_option compiled_target (find (\<lambda>b.
     trigger_key (compiled_trigger b) = ModifierTap m \<and> target_available e (compiled_target b))
     (engine_bindings e))"

definition vt_for_evdev_keycode :: "keycode \<Rightarrow> int option" where
  "vt_for_evdev_keycode k =
    (if KEY_F1 \<le> k \<and> k \<le> KEY_F10 then Some (k - KEY_F1 + 1)
     else if k = KEY_F11 then Some 11
     else if k = KEY_F12 then Some 12
     else None)"

definition logo_bit :: "keycode \<Rightarrow> u8 option" where
  "logo_bit k = (if k = KEY_LEFT_META then Some LEFT_MODIFIER
     else if k = KEY_RIGHT_META then Some RIGHT_MODIFIER else None)"

definition modifier_bit :: "keycode \<Rightarrow> (modifier \<times> u8) option" where
  "modifier_bit k =
    (if k = KEY_LEFT_CTRL then Some (Ctrl, LEFT_MODIFIER)
     else if k = KEY_RIGHT_CTRL then Some (Ctrl, RIGHT_MODIFIER)
     else if k = KEY_LEFT_ALT then Some (Alt, LEFT_MODIFIER)
     else if k = KEY_RIGHT_ALT then Some (Alt, RIGHT_MODIFIER)
     else if k = KEY_LEFT_SHIFT then Some (Shift, LEFT_MODIFIER)
     else if k = KEY_RIGHT_SHIFT then Some (Shift, RIGHT_MODIFIER)
     else None)"

definition set_bit_held :: "u8 \<Rightarrow> bool \<Rightarrow> u8 \<Rightarrow> u8" where
  "set_bit_held side pressed keys = (if pressed then keys OR side else keys AND NOT side)"

text \<open>The branch of a Super key.\<close>

definition observe_logo ::
    "shortcut_engine \<Rightarrow> u8 \<Rightarrow> bool \<Rightarrow> shortcut_engine \<times> shortcut_disposition" where
  "observe_logo e side pressed =
    (if pressed then
       (e\<lparr>logo_chorded := (if logo_keys e = 0 then False else logo_chorded e),
          logo_keys := logo_keys e OR side\<rparr>, Consume)
     else let e = e\<lparr>logo_keys := logo_keys e AND NOT side\<rparr> in
       if switcher_release e = Some (ModifierRelease Super) then
         (e\<lparr>switcher_release := None,
            logo_chorded := (if logo_keys e = 0 then False else logo_chorded e)\<rparr>,
          RequestWindowSwitcherEnd False)
       else if logo_keys e = 0 then
         (e\<lparr>logo_chorded := False\<rparr>,
          if logo_chorded e then Consume
          else case modifier_tap_target e Super of None \<Rightarrow> Consume | Some t \<Rightarrow> from_target t)
       else (e, Consume))"

text \<open>The branch of the other modifier keys; the Super case of the source is unreachable.\<close>

definition set_modifier_keys :: "modifier \<Rightarrow> u8 \<Rightarrow> bool \<Rightarrow> shortcut_engine \<Rightarrow> shortcut_engine" where
  "set_modifier_keys m side pressed e = (case m of
       Ctrl \<Rightarrow> e\<lparr>ctrl_keys := set_bit_held side pressed (ctrl_keys e)\<rparr>
     | Alt \<Rightarrow> e\<lparr>alt_keys := set_bit_held side pressed (alt_keys e)\<rparr>
     | Shift \<Rightarrow> e\<lparr>shift_keys := set_bit_held side pressed (shift_keys e)\<rparr>
     | Super \<Rightarrow> e)"

definition observe_modifier ::
    "shortcut_engine \<Rightarrow> modifier \<Rightarrow> u8 \<Rightarrow> bool \<Rightarrow> shortcut_engine \<times> shortcut_disposition" where
  "observe_modifier e m side pressed =
    (let e = set_modifier_keys m side pressed e in
     if \<not> pressed \<and> switcher_release e = Some (ModifierRelease m)
     then (e\<lparr>switcher_release := None\<rparr>, RequestWindowSwitcherEnd True)
     else (e, Forward))"

definition observe_release :: "shortcut_engine \<Rightarrow> keycode \<Rightarrow> shortcut_engine \<times> shortcut_disposition" where
  "observe_release e k =
    (if k \<in> captured_vt_keys e then (e\<lparr>captured_vt_keys := captured_vt_keys e - {k}\<rparr>, Consume)
     else let was_captured = captured_keys e k \<noteq> None;
              e = e\<lparr>captured_keys := (captured_keys e)(k := None)\<rparr> in
       if switcher_release e = Some (KeyRelease k)
         then (e\<lparr>switcher_release := None\<rparr>, RequestWindowSwitcherEnd False)
       else (e, if was_captured then Consume else Forward))"

definition switcher_owner :: "u8 \<Rightarrow> keycode \<Rightarrow> window_switcher_release" where
  "switcher_owner modifiers k = (case find (\<lambda>m. modifiers AND modifier_flag m \<noteq> 0) modifier_order of
       None \<Rightarrow> KeyRelease k
     | Some m \<Rightarrow> ModifierRelease m)"

definition observe_press :: "shortcut_engine \<Rightarrow> keycode \<Rightarrow> shortcut_engine \<times> shortcut_disposition" where
  "observe_press e k =
    (if k \<in> captured_vt_keys e then (e, Consume)
     else case (if active_modifiers e = modifier_flag Ctrl OR modifier_flag Alt
                then vt_for_evdev_keycode k else None) of
       Some vt \<Rightarrow> (e\<lparr>captured_vt_keys := insert k (captured_vt_keys e)\<rparr>, RequestVtSwitch vt)
     | None \<Rightarrow> (case captured_keys e k of
         Some target \<Rightarrow> (e, if target_repeats target then from_target target else Consume)
       | None \<Rightarrow> (case target_for_key e k of
           None \<Rightarrow> (e, Forward)
         | Some (target, modifiers) \<Rightarrow>
             (e\<lparr>captured_keys := (captured_keys e)(k \<mapsto> target),
                switcher_release :=
                  (if target = DenialAction WindowSwitcher \<and> switcher_release e = None
                   then Some (switcher_owner modifiers k) else switcher_release e)\<rparr>,
              from_target target))))"

definition observe :: "shortcut_engine \<Rightarrow> keycode \<Rightarrow> bool \<Rightarrow> shortcut_engine \<times> shortcut_disposition" where
  "observe e k pressed = (case logo_bit k of
       Some side \<Rightarrow> observe_logo e side pressed
     | None \<Rightarrow>
         (let e = (if pressed \<and> logo_keys e \<noteq> 0 then e\<lparr>logo_chorded := True\<rparr> else e) in
          case modifier_bit k of
            Some (m, side) \<Rightarrow> observe_modifier e m side pressed
          | None \<Rightarrow> if pressed then observe_press e k else observe_release e k))"

definition note_pointer_button :: "bool \<Rightarrow> shortcut_engine \<Rightarrow> shortcut_engine" where
  "note_pointer_button pressed e =
    (if pressed \<and> logo_keys e \<noteq> 0 then e\<lparr>logo_chorded := True\<rparr> else e)"

definition note_pointer_axis :: "shortcut_engine \<Rightarrow> shortcut_engine" where
  "note_pointer_axis e = (if logo_keys e \<noteq> 0 then e\<lparr>logo_chorded := True\<rparr> else e)"

definition cancel_modifier_tap :: "shortcut_engine \<Rightarrow> shortcut_engine" where
  "cancel_modifier_tap e = (if logo_keys e \<noteq> 0 then e\<lparr>logo_chorded := True\<rparr> else e)"

definition super_pressed :: "shortcut_engine \<Rightarrow> bool" where
  "super_pressed e = (logo_keys e \<noteq> 0)"

definition engine_reset :: "shortcut_engine \<Rightarrow> shortcut_engine" where
  "engine_reset e = e\<lparr>ctrl_keys := 0, alt_keys := 0, shift_keys := 0, logo_keys := 0,
     logo_chorded := False, switcher_release := None, captured_keys := Map.empty,
     captured_vt_keys := {}\<rparr>"

definition pass_through_key :: "keycode \<Rightarrow> shortcut_engine \<Rightarrow> shortcut_engine" where
  "pass_through_key k e = e\<lparr>captured_keys := (captured_keys e)(k := None)\<rparr>"

text \<open>For a key that is no Super key, a press first records the chord, as a pointer button does.\<close>

lemma observe_no_logo:
  "logo_bit k = None \<Longrightarrow> observe e k pressed = (case modifier_bit k of
      Some (m, side) \<Rightarrow> observe_modifier (note_pointer_button pressed e) m side pressed
    | None \<Rightarrow> if pressed then observe_press (note_pointer_button pressed e) k
        else observe_release (note_pointer_button pressed e) k)"
  by (simp only: observe_def note_pointer_button_def Let_def option.case)

text \<open>Observing a key changes neither the table nor what is captured of another key.\<close>

lemma observe_frame:
  "engine_bindings (fst (observe e k pressed)) = engine_bindings e"
  "j \<noteq> k \<Longrightarrow> captured_keys (fst (observe e k pressed)) j = captured_keys e j"
  "j \<noteq> k \<Longrightarrow> j \<in> captured_vt_keys (fst (observe e k pressed)) \<longleftrightarrow> j \<in> captured_vt_keys e"
  by (auto simp: observe_def observe_logo_def observe_modifier_def observe_press_def
      observe_release_def set_modifier_keys_def Let_def split: option.splits modifier.splits)

lemma note_pointer_button_fields [simp]:
  "engine_bindings (note_pointer_button p e) = engine_bindings e"
  "captured_keys (note_pointer_button p e) = captured_keys e"
  "captured_vt_keys (note_pointer_button p e) = captured_vt_keys e"
  "switcher_release (note_pointer_button p e) = switcher_release e"
  "active_modifiers (note_pointer_button p e) = active_modifiers e"
  by (simp_all add: note_pointer_button_def active_modifiers_def)

section \<open>Runs\<close>

datatype engine_event =
    KeyEvent keycode bool
  | GestureSwiped shortcut_gesture instant
  | GestureEnded shortcut_gesture
  | GesturesCancelled
  | PointerButton bool
  | PointerAxis
  | TapCancelled
  | PluginActions "string set"

fun engine_step :: "shortcut_engine \<Rightarrow> engine_event \<Rightarrow> shortcut_engine" where
  "engine_step e (KeyEvent k pressed) = fst (observe e k pressed)"
| "engine_step e (GestureSwiped g now) = fst (observe_gesture_at e g now)"
| "engine_step e (GestureEnded g) = fst (end_gesture e g)"
| "engine_step e GesturesCancelled = cancel_gestures e"
| "engine_step e (PointerButton pressed) = note_pointer_button pressed e"
| "engine_step e PointerAxis = note_pointer_axis e"
| "engine_step e TapCancelled = cancel_modifier_tap e"
| "engine_step e (PluginActions ids) = set_plugin_actions ids e"

definition engine_run :: "shortcut_engine \<Rightarrow> engine_event list \<Rightarrow> shortcut_engine" where
  "engine_run e es = foldl engine_step e es"

lemma engine_run_simps [simp]:
  "engine_run e [] = e"
  "engine_run e (ev # es) = engine_run (engine_step e ev) es"
  by (simp_all add: engine_run_def)

lemma engine_run_invariant:
  assumes "I e" and "\<And>e ev. I e \<Longrightarrow> ev \<in> set es \<Longrightarrow> I (engine_step e ev)"
  shows "I (engine_run e es)"
  using assms by (induction es arbitrary: e) auto

lemma engine_step_bindings [simp]: "engine_bindings (engine_step e ev) = engine_bindings e"
  by (cases ev) (simp_all add: observe_frame observe_gesture_at_def end_gesture_def cancel_gestures_def
      note_pointer_axis_def cancel_modifier_tap_def set_plugin_actions_def Let_def split: option.splits window_switcher_release.splits)

section \<open>An example engine\<close>

definition sample_file :: shortcut_file where
  "sample_file = \<lparr>file_version = 12, file_revision = 1, file_shortcuts =
    [\<lparr>binding_shortcut = ''Super+A'', binding_target = DenialAction OpenOverview\<rparr>,
     \<lparr>binding_shortcut = ''Super+Tab'', binding_target = DenialAction WindowSwitcher\<rparr>,
     \<lparr>binding_shortcut = ''Super+Escape'', binding_target = DenialAction ReleasePointer\<rparr>,
     \<lparr>binding_shortcut = ''Super'', binding_target = DenialAction NextWorkspace\<rparr>]\<rparr>"

definition sample_engine :: shortcut_engine where
  "sample_engine = \<lparr>engine_bindings =
    [\<lparr>compiled_trigger = \<lparr>trigger_modifiers = 1, trigger_key = Evdev 30, trigger_canonical = ''Super+A''\<rparr>,
      compiled_target = DenialAction OpenOverview\<rparr>,
     \<lparr>compiled_trigger = \<lparr>trigger_modifiers = 1, trigger_key = Evdev 15, trigger_canonical = ''Super+Tab''\<rparr>,
      compiled_target = DenialAction WindowSwitcher\<rparr>,
     \<lparr>compiled_trigger = \<lparr>trigger_modifiers = 1, trigger_key = Evdev 1, trigger_canonical = ''Super+Escape''\<rparr>,
      compiled_target = DenialAction ReleasePointer\<rparr>,
     \<lparr>compiled_trigger = \<lparr>trigger_modifiers = 0, trigger_key = ModifierTap Super, trigger_canonical = ''Super''\<rparr>,
      compiled_target = DenialAction NextWorkspace\<rparr>],
    available_plugin_actions = {}, ctrl_keys = 0, alt_keys = 0, shift_keys = 0, logo_keys = 0,
    logo_chorded = False, switcher_release = None, captured_keys = Map.empty, captured_vt_keys = {}\<rparr>"

lemma sample_compiled: "compile_shortcuts sample_file = Inr (engine_bindings sample_engine)"
  by code_simp

lemma sample_from_file: "from_file sample_file = Inr sample_engine"
  by (simp add: from_file_def sample_compiled) (simp add: sample_engine_def)

lemmas observe_defs = observe_def observe_logo_def observe_modifier_def observe_press_def
  observe_release_def set_modifier_keys_def set_bit_held_def logo_bit_def modifier_bit_def key_defs
  LEFT_MODIFIER_def RIGHT_MODIFIER_def target_for_key_def matches_key_def active_modifiers_def
  vt_for_evdev_keycode_def KEY_F1_def KEY_F10_def KEY_F11_def KEY_F12_def modifier_tap_target_def
  switcher_owner_def modifier_order_def repeating_actions_def Let_def

section \<open>Which binding a press selects\<close>

lemma compiled_match_unique:
  assumes "bindings_ok bs" and "b \<in> set bs" and "matches_key e k (compiled b)"
  shows "find (matches_key e k) (map compiled bs) = Some (compiled b)"
proof -
  have "c = b" if "c \<in> set bs" "matches_key e k (compiled c)" for c
  proof -
    have "binding_ok b" "binding_ok c" using assms(1,2) that(1) by (auto simp: bindings_ok_def list_all_iff)
    then have "binding_trigger c = binding_trigger b"
      using that(2) assms(3) by (intro trigger_eqI [OF binding_okD(1) binding_okD(1)])
        (auto simp: matches_key_def compiled_def)
    then show "c = b" using assms(1,2) that(1) by (auto simp: bindings_ok_def distinct_map dest: inj_onD)
  qed
  then have uniq: "\<forall>c \<in> set (map compiled bs). matches_key e k c \<longrightarrow> c = compiled b"
    unfolding set_map by blast
  have "compiled b \<in> set (map compiled bs)" using assms(2) by simp
  then show ?thesis
    using find_unique [of "compiled b" "map compiled bs" "matches_key e k"] uniq assms(3) by blast
qed

lemma from_file_bindings:
  assumes "from_file f = Inr e"
  shows "file_ok f" and "engine_bindings e = map compiled (file_shortcuts f)"
  using assms by (auto simp: from_file_def res_simps compile_shortcuts_iff)

definition plain_key :: "keycode \<Rightarrow> bool" where
  "plain_key k = (logo_bit k = None \<and> modifier_bit k = None)"

definition vt_chord :: "shortcut_engine \<Rightarrow> keycode \<Rightarrow> bool" where
  "vt_chord e k = (active_modifiers e = modifier_flag Ctrl OR modifier_flag Alt \<and>
     vt_for_evdev_keycode k \<noteq> None)"

lemma target_available_chorded [simp]:
  "target_available (e\<lparr>logo_chorded := b\<rparr>) t = target_available e t"
  by (cases t) auto

lemma active_modifiers_chorded [simp]: "active_modifiers (e\<lparr>logo_chorded := b\<rparr>) = active_modifiers e"
  by (simp add: active_modifiers_def)

lemma matches_key_chorded [simp]: "matches_key (e\<lparr>logo_chorded := b\<rparr>) k = matches_key e k"
  by (simp add: fun_eq_iff matches_key_def)

lemma fresh_press:
  assumes "plain_key k" and "captured_keys e k = None" and "k \<notin> captured_vt_keys e" and "\<not> vt_chord e k"
  shows "snd (observe e k True) = (case find (matches_key e k) (engine_bindings e) of
    None \<Rightarrow> Forward | Some b \<Rightarrow> from_target (compiled_target b))"
  using assms by (auto simp: observe_def plain_key_def observe_press_def vt_chord_def target_for_key_def
      Let_def split: option.splits)

text \<open>Claim C28 (a press runs the binding of the file). Take an engine built from a shortcut file, in any
  state, and a key that is no modifier, is not held already and is no chord for a virtual terminal. If
  the file has a binding for exactly the held modifiers and this key whose target is available, the
  press is answered with the action of that binding, wherever it stands in the file; if it has none,
  the press is forwarded.\<close>

theorem press_runs_the_binding_of_the_file:
  assumes "from_file f = Inr e0" and "engine_bindings e = engine_bindings e0"
    and "plain_key k" and "captured_keys e k = None" and "k \<notin> captured_vt_keys e" and "\<not> vt_chord e k"
  shows "(\<forall>b \<in> set (file_shortcuts f). trigger_modifiers (binding_trigger b) = active_modifiers e \<longrightarrow>
      trigger_key (binding_trigger b) = Evdev k \<longrightarrow> target_available e (binding_target b) \<longrightarrow>
      snd (observe e k True) = from_target (binding_target b)) \<and>
    ((\<forall>b \<in> set (file_shortcuts f). trigger_modifiers (binding_trigger b) \<noteq> active_modifiers e \<or>
      trigger_key (binding_trigger b) \<noteq> Evdev k \<or> \<not> target_available e (binding_target b)) \<longrightarrow>
      snd (observe e k True) = Forward)"
proof -
  have ok: "bindings_ok (file_shortcuts f)" and bs: "engine_bindings e = map compiled (file_shortcuts f)"
    using from_file_bindings [OF assms(1)] assms(2) by (simp_all add: file_ok_def)
  have m: "matches_key e k (compiled b) \<longleftrightarrow> trigger_modifiers (binding_trigger b) = active_modifiers e \<and>
      trigger_key (binding_trigger b) = Evdev k \<and> target_available e (binding_target b)" for b
    by (simp add: matches_key_def compiled_def)
  have "snd (observe e k True) = from_target (binding_target b)"
    if "b \<in> set (file_shortcuts f)" "matches_key e k (compiled b)" for b
    using compiled_match_unique [OF ok that] fresh_press [OF assms(3-6)] bs by (simp add: compiled_def)
  moreover have "snd (observe e k True) = Forward"
    if "\<forall>b \<in> set (file_shortcuts f). \<not> matches_key e k (compiled b)"
  proof -
    have "find (matches_key e k) (engine_bindings e) = None"
      using that bs by (auto simp: find_None_iff)
    then show ?thesis using fresh_press [OF assms(3-6)] by simp
  qed
  ultimately show ?thesis unfolding m by blast
qed

theorem press_runs_the_binding_of_the_file_witness:
  "snd (observe (fst (observe sample_engine KEY_LEFT_META True)) 30 True) = RequestOverview \<and>
   snd (observe (fst (observe sample_engine KEY_LEFT_META True)) 31 True) = Forward"
proof -
  let ?e = "fst (observe sample_engine KEY_LEFT_META True)"
  have e: "engine_bindings ?e = engine_bindings sample_engine" "captured_keys ?e = Map.empty"
    "captured_vt_keys ?e = {}" "active_modifiers ?e = 1"
    by (simp_all add: observe_defs sample_engine_def)
  have k: "plain_key 30" "plain_key 31" "\<not> vt_chord ?e 30" "\<not> vt_chord ?e 31"
    by (simp_all add: plain_key_def vt_chord_def observe_defs)
  have ts: "map binding_trigger (file_shortcuts sample_file) = map compiled_trigger (engine_bindings sample_engine)"
    using sample_compiled by (simp add: compile_shortcuts_iff compiled_def)
  note run = press_runs_the_binding_of_the_file [OF sample_from_file, of ?e]
  show ?thesis using run [of 30] run [of 31] k e ts
    by (auto simp: sample_file_def sample_engine_def)
qed

section \<open>The Super tap\<close>

fun chords :: "engine_event \<Rightarrow> bool" where
  "chords (KeyEvent k pressed) = pressed"
| "chords (PointerButton pressed) = pressed"
| "chords PointerAxis = True"
| "chords TapCancelled = True"
| "chords _ = False"

fun super_event :: "engine_event \<Rightarrow> bool" where
  "super_event (KeyEvent k pressed) = (logo_bit k \<noteq> None)"
| "super_event _ = False"

text \<open>While a Super key is held: which Super keys are down, whether a chord was made, and that only a
  chord can have given the window switcher to Super.\<close>

definition super_held :: "u8 \<Rightarrow> bool \<Rightarrow> shortcut_engine \<Rightarrow> bool" where
  "super_held keys chorded e = (logo_keys e = keys \<and> logo_chorded e = chorded \<and>
     (switcher_release e = Some (ModifierRelease Super) \<longrightarrow> chorded))"

lemma observe_plain_logo:
  assumes "logo_bit k = None"
  shows "logo_keys (fst (observe e k pressed)) = logo_keys e"
    and "logo_chorded (fst (observe e k pressed)) = (logo_chorded e \<or> pressed \<and> logo_keys e \<noteq> 0)"
  using assms by (auto simp: observe_def observe_modifier_def observe_release_def observe_press_def
      set_modifier_keys_def Let_def split: option.splits modifier.splits)

lemma observe_release_switcher:
  assumes "logo_bit k = None" and "switcher_release (fst (observe e k False)) \<noteq> None"
  shows "switcher_release (fst (observe e k False)) = switcher_release e"
  using assms by (auto simp: observe_def observe_modifier_def observe_release_def
      set_modifier_keys_def Let_def split: option.splits modifier.splits if_splits)

lemma super_held_step:
  assumes "super_held keys chorded e" and "keys \<noteq> 0" and "\<not> super_event ev"
  shows "super_held keys (chorded \<or> chords ev) (engine_step e ev)"
proof (cases ev)
  case (KeyEvent k pressed)
  then have k: "logo_bit k = None" using assms(3) by simp
  show ?thesis
  proof (cases pressed)
    case True
    then show ?thesis using assms(1,2) KeyEvent observe_plain_logo [OF k] by (simp add: super_held_def)
  next
    case False
    then show ?thesis
      using assms(1,2) KeyEvent observe_plain_logo [OF k, of e False] observe_release_switcher [OF k, of e]
      by (auto simp: super_held_def)
  qed
qed (use assms in \<open>auto simp: super_held_def observe_gesture_at_def end_gesture_def cancel_gestures_def
    note_pointer_button_def note_pointer_axis_def cancel_modifier_tap_def set_plugin_actions_def Let_def
    split: option.splits window_switcher_release.splits\<close>)

lemma super_held_run:
  assumes "super_held keys chorded e" and "keys \<noteq> 0" and "\<not> list_ex super_event es"
  shows "super_held keys (chorded \<or> list_ex chords es) (engine_run e es)"
  using assms
proof (induction es arbitrary: e chorded)
  case (Cons ev es)
  then show ?case using Cons.IH [of "chorded \<or> chords ev" "engine_step e ev"] super_held_step
    by (auto simp: disj_assoc)
qed simp

text \<open>A Super tap fires exactly if nothing was chorded. Let no Super key be held, press one of
  the two Super keys, let any events but those of Super keys follow, and release the key. If among them
  there was no key press, no pointer button press, no consumed scroll and no cancelled input source, the
  release performs the action bound to tapping Super, or is swallowed when there is none. Otherwise it
  performs no such action: it ends the window switcher when Super was keeping it open, and is swallowed
  when not.\<close>

lemma super_tap_fires_unless_chorded:
  assumes "k \<in> {KEY_LEFT_META, KEY_RIGHT_META}" and "logo_keys e = 0"
    and "switcher_release e \<noteq> Some (ModifierRelease Super)" and "\<not> list_ex super_event es"
    and "e' = engine_run (fst (observe e k True)) es"
  shows "snd (observe e' k False) =
    (if \<not> list_ex chords es then
       (case modifier_tap_target e' Super of None \<Rightarrow> Consume | Some t \<Rightarrow> from_target t)
     else if switcher_release e' = Some (ModifierRelease Super) then RequestWindowSwitcherEnd False
     else Consume)"
proof -
  obtain side where side: "logo_bit k = Some side" and sides: "side = 1 \<or> side = 2"
    using assms(1) by (auto simp: logo_bit_def key_defs LEFT_MODIFIER_def RIGHT_MODIFIER_def)
  have clear: "side AND NOT side = 0" "side \<noteq> 0" using sides by auto
  have "super_held side False (fst (observe e k True))"
    using assms(2,3) side by (simp add: super_held_def observe_def observe_logo_def)
  then have held: "super_held side (list_ex chords es) e'"
    using super_held_run [OF _ clear(2) assms(4)] assms(5) by fastforce
  then have state: "logo_keys e' = side" "logo_chorded e' = list_ex chords es"
    "switcher_release e' = Some (ModifierRelease Super) \<longrightarrow> list_ex chords es"
    by (auto simp: super_held_def)
  have tap: "modifier_tap_target (e'\<lparr>logo_keys := 0\<rparr>) Super = modifier_tap_target e' Super"
  proof -
    have "target_available (e'\<lparr>logo_keys := 0\<rparr>) t = target_available e' t" for t by (cases t) auto
    then show ?thesis by (simp add: modifier_tap_target_def)
  qed
  show ?thesis
    unfolding observe_def side option.case observe_logo_def using state clear tap by (auto simp: Let_def)
qed

section \<open>The window switcher\<close>

definition modifier_keys :: "modifier \<Rightarrow> shortcut_engine \<Rightarrow> u8" where
  "modifier_keys m e = (case m of Super \<Rightarrow> logo_keys e | Ctrl \<Rightarrow> ctrl_keys e | Alt \<Rightarrow> alt_keys e
     | Shift \<Rightarrow> shift_keys e)"

text \<open>What keeps the switcher open is held: a modifier with a key down, or a captured key.\<close>

definition switcher_owned :: "shortcut_engine \<Rightarrow> bool" where
  "switcher_owned e = (case switcher_release e of
       Some (ModifierRelease m) \<Rightarrow> modifier_keys m e \<noteq> 0
     | Some (KeyRelease k) \<Rightarrow> captured_keys e k \<noteq> None
     | _ \<Rightarrow> True)"

lemma active_modifiers_flag:
  "active_modifiers e AND modifier_flag m \<noteq> 0 \<Longrightarrow> modifier_keys m e \<noteq> 0"
  by (cases m) (auto simp: active_modifiers_def modifier_keys_def split: if_splits)

lemma sides_nonzero:
  "logo_bit k = Some side \<Longrightarrow> keys OR side \<noteq> 0"
  "modifier_bit k = Some (m, side) \<Longrightarrow> keys OR side \<noteq> 0"
  by (auto simp: logo_bit_def modifier_bit_def LEFT_MODIFIER_def RIGHT_MODIFIER_def or_eq_0_iff
      split: if_splits)

lemma modifier_keys_update [simp]:
  "modifier_keys m (e\<lparr>captured_keys := c\<rparr>) = modifier_keys m e"
  "modifier_keys m (e\<lparr>captured_vt_keys := v\<rparr>) = modifier_keys m e"
  "modifier_keys m (e\<lparr>switcher_release := r\<rparr>) = modifier_keys m e"
  "modifier_keys m (e\<lparr>logo_chorded := b\<rparr>) = modifier_keys m e"
  by (cases m; simp add: modifier_keys_def)+

lemma switcher_owner_owned:
  assumes "find (matches_key e k) (engine_bindings e) = Some b"
  shows "switcher_owned (e\<lparr>captured_keys := (captured_keys e)(k \<mapsto> t),
    switcher_release := Some (switcher_owner (trigger_modifiers (compiled_trigger b)) k)\<rparr>)"
proof (cases "find (\<lambda>m. trigger_modifiers (compiled_trigger b) AND modifier_flag m \<noteq> 0) modifier_order")
  case None
  then show ?thesis by (simp add: switcher_owned_def switcher_owner_def)
next
  case (Some m)
  then have "modifier_keys m e \<noteq> 0"
    using assms by (intro active_modifiers_flag) (auto simp: find_Some_iff matches_key_def)
  then show ?thesis using Some by (simp add: switcher_owned_def switcher_owner_def)
qed

lemma switcher_owned_captured:
  "switcher_owned e \<Longrightarrow> switcher_owned (e\<lparr>captured_keys := (captured_keys e)(k \<mapsto> t)\<rparr>)"
  by (auto simp: switcher_owned_def split: option.splits window_switcher_release.splits)

lemma switcher_owned_press:
  assumes "switcher_owned e"
  shows "switcher_owned (fst (observe_press e k))"
proof -
  have "switcher_owned (e\<lparr>captured_keys := (captured_keys e)(k \<mapsto> t), switcher_release :=
      (if opens then Some (switcher_owner (trigger_modifiers (compiled_trigger b)) k)
       else switcher_release e)\<rparr>)" if "find (matches_key e k) (engine_bindings e) = Some b" for b t opens
    using switcher_owner_owned [OF that, of t] switcher_owned_captured [OF assms, of k t] by (cases opens) simp_all
  moreover have "switcher_owned (e\<lparr>captured_vt_keys := v\<rparr>)" for v
    using assms by (auto simp: switcher_owned_def split: option.splits window_switcher_release.splits)
  ultimately show ?thesis
    using assms by (simp add: observe_press_def target_for_key_def split: option.splits)
qed

lemma switcher_owned_observe:
  assumes "switcher_owned e"
  shows "switcher_owned (fst (observe e k pressed))"
proof (cases "logo_bit k")
  case (Some side)
  then show ?thesis
    using assms sides_nonzero(1) [OF Some] unfolding observe_def Some option.case observe_logo_def
    by (auto simp: switcher_owned_def modifier_keys_def Let_def
        split: option.splits window_switcher_release.splits modifier.splits)
next
  case None
  define e1 where "e1 = note_pointer_button pressed e"
  have owned: "switcher_owned e1"
    using assms by (auto simp: e1_def note_pointer_button_def switcher_owned_def
        split: option.splits window_switcher_release.splits)
  have eq: "observe e k pressed = (case modifier_bit k of
      Some (m, side) \<Rightarrow> observe_modifier e1 m side pressed
    | None \<Rightarrow> if pressed then observe_press e1 k else observe_release e1 k)"
    unfolding e1_def by (rule observe_no_logo [OF None])
  show ?thesis
  proof (cases "modifier_bit k")
    case None
    have "switcher_owned (fst (observe_release e1 k))"
      using owned by (auto simp: observe_release_def switcher_owned_def modifier_keys_def Let_def
          split: option.splits window_switcher_release.splits modifier.splits)
    then show ?thesis using eq None switcher_owned_press [OF owned] by simp
  next
    case (Some ms)
    obtain m side where ms: "ms = (m, side)" by fastforce
    then have "keys OR side \<noteq> 0" for keys using Some sides_nonzero(2) by simp
    then show ?thesis
      using owned unfolding eq Some ms option.case prod.case
      by (auto simp: observe_modifier_def set_modifier_keys_def switcher_owned_def modifier_keys_def
          set_bit_held_def Let_def split: option.splits window_switcher_release.splits modifier.splits)
  qed
qed

lemma switcher_owned_step: "switcher_owned e \<Longrightarrow> switcher_owned (engine_step e ev)"
proof (cases ev)
  case (KeyEvent k pressed)
  then show "switcher_owned e \<Longrightarrow> switcher_owned (engine_step e ev)" by (simp add: switcher_owned_observe)
qed (auto simp: switcher_owned_def observe_gesture_at_def end_gesture_def cancel_gestures_def
    note_pointer_button_def note_pointer_axis_def cancel_modifier_tap_def set_plugin_actions_def
    modifier_keys_def Let_def split: option.splits window_switcher_release.splits modifier.splits)

lemma from_action_End [simp]: "from_action a \<noteq> RequestWindowSwitcherEnd b"
  by (cases a) simp_all

lemma from_target_End [simp]: "from_target t \<noteq> RequestWindowSwitcherEnd b"
  by (cases t) simp_all

definition ends_switcher :: "shortcut_disposition \<Rightarrow> bool" where
  "ends_switcher d = (d = RequestWindowSwitcherEnd False \<or> d = RequestWindowSwitcherEnd True)"

lemma ends_switcher_simps [simp]:
  "ends_switcher (RequestWindowSwitcherEnd b)" "\<not> ends_switcher Forward" "\<not> ends_switcher Consume"
  "\<not> ends_switcher (RequestVtSwitch vt)" "\<not> ends_switcher (from_target t)"
  by (cases b) (simp_all add: ends_switcher_def)

lemma parts_close_switcher:
  assumes "switcher_release e \<noteq> None"
  shows "switcher_release (fst (observe_logo e side pressed)) = None \<longleftrightarrow> ends_switcher (snd (observe_logo e side pressed))"
    and "switcher_release (fst (observe_modifier e m side pressed)) = None \<longleftrightarrow>
      ends_switcher (snd (observe_modifier e m side pressed))"
    and "switcher_release (fst (observe_press e k)) = None \<longleftrightarrow> ends_switcher (snd (observe_press e k))"
    and "switcher_release (fst (observe_release e k)) = None \<longleftrightarrow> ends_switcher (snd (observe_release e k))"
proof -
  show "switcher_release (fst (observe_logo e side pressed)) = None \<longleftrightarrow> ends_switcher (snd (observe_logo e side pressed))"
    using assms by (simp add: observe_logo_def Let_def split: option.splits)
  show "switcher_release (fst (observe_modifier e m side pressed)) = None \<longleftrightarrow>
      ends_switcher (snd (observe_modifier e m side pressed))"
    using assms by (cases m) (simp_all add: observe_modifier_def set_modifier_keys_def Let_def)
  show "switcher_release (fst (observe_press e k)) = None \<longleftrightarrow> ends_switcher (snd (observe_press e k))"
    using assms by (auto simp: observe_press_def split: option.splits)
  show "switcher_release (fst (observe_release e k)) = None \<longleftrightarrow> ends_switcher (snd (observe_release e k))"
    using assms by (simp add: observe_release_def Let_def)
qed

lemma observe_closes_switcher:
  assumes "switcher_release e \<noteq> None"
  shows "switcher_release (fst (observe e k pressed)) = None \<longleftrightarrow> ends_switcher (snd (observe e k pressed))"
proof (cases "logo_bit k")
  case None
  have "switcher_release (note_pointer_button p e) \<noteq> None" for p
    using assms by (simp add: note_pointer_button_def)
  note parts = parts_close_switcher(2-4) [OF this]
  show ?thesis
    unfolding observe_no_logo [OF None] by (cases "modifier_bit k") (auto simp: parts)
next
  case (Some side)
  then show ?thesis using parts_close_switcher(1) [OF assms] by (simp add: observe_def)
qed

text \<open>The window switcher never outlives what opened it. In every state that an engine built
  from a shortcut file can reach, the switcher is closed, or is owned by a gesture, or its owner is held:
  a key of the modifier is down, or the key is still captured. So once no modifier and no captured key is
  held, only a gesture can keep it open. While it is open, a key event closes it exactly if the answer
  to that event is the request to end the switcher, so the shell always learns of it.\<close>

lemma window_switcher_never_outlives_its_owner:
  assumes "from_file f = Inr e0" and "e = engine_run e0 es"
  shows "(case switcher_release e of None \<Rightarrow> True
       | Some (ModifierRelease m) \<Rightarrow> modifier_keys m e \<noteq> 0
       | Some (KeyRelease k) \<Rightarrow> captured_keys e k \<noteq> None
       | Some (GestureRelease _ _) \<Rightarrow> True) \<and>
    (switcher_release e \<noteq> None \<longrightarrow>
      (switcher_release (fst (observe e k pressed)) = None \<longleftrightarrow>
       ends_switcher (snd (observe e k pressed))))"
proof -
  have "switcher_owned e0" using assms(1) by (auto simp: from_file_def res_simps switcher_owned_def)
  then have "switcher_owned e" unfolding assms(2) by (rule engine_run_invariant) (rule switcher_owned_step)
  then show ?thesis
    using observe_closes_switcher [of e k pressed]
    by (auto simp: switcher_owned_def split: option.splits window_switcher_release.splits)
qed

end
