(* ===== verification/Shortcut_Routing.thy ===== *)
theory Shortcut_Routing
  imports Shortcut_Engine
begin

text \<open>
  How the frontend routes a key through the shortcut engine (\<open>wayland_frontend/input.rs\<close>,
  \<open>intercept_native_escape\<close> and the repeat of system controls) together with the keys that it has given to an
  app holding the shortcuts (\<open>shortcuts_inhibit.rs\<close>, \<open>note_press\<close> and \<open>take_forwarded_release\<close>). The result
  of a routed key is whether it was intercepted, that is kept from the clients, and the disposition that
  was executed.

  \<open>execute_shortcut_disposition\<close> is represented by the truth value it returns; for the requests whose
  code can decline (plugin actions and workspace changes) that value is an argument. The session lock, the
  state of the inhibitor and whether key repeat is configured are arguments as well.

  The theory shows that clients see balanced key events: every release that reaches a client belongs
  to a press that did, and no client is left with a key held. Three theorems show where the code departs
  from that or from the life of the window switcher.
\<close>

section \<open>Routing\<close>

record key_environment =
  session_locked :: bool
  inhibit_active :: bool
  repeat_enabled :: bool
  accepts :: "shortcut_disposition \<Rightarrow> bool"

record key_router =
  router_engine :: shortcut_engine
  forwarded_keys :: "keycode set"
  repeat_key :: "keycode option"

definition execute_shortcut_disposition :: "(shortcut_disposition \<Rightarrow> bool) \<Rightarrow> shortcut_disposition \<Rightarrow> bool" where
  "execute_shortcut_disposition accepting d = (case d of
       Forward \<Rightarrow> False
     | RequestPluginAction _ \<Rightarrow> accepting d
     | RequestApplications \<Rightarrow> accepting d
     | RequestPreviousWorkspace \<Rightarrow> accepting d
     | RequestNextWorkspace \<Rightarrow> accepting d
     | RequestSwitchWorkspace _ \<Rightarrow> accepting d
     | RequestMoveToPreviousWorkspace \<Rightarrow> accepting d
     | RequestMoveToNextWorkspace \<Rightarrow> accepting d
     | RequestMoveToWorkspace _ \<Rightarrow> accepting d
     | RequestWindowSwitcherEnd forward \<Rightarrow> \<not> forward
     | _ \<Rightarrow> True)"

definition note_press :: "keycode \<Rightarrow> bool \<Rightarrow> key_router \<Rightarrow> key_router" where
  "note_press xkb forwarded r = r\<lparr>forwarded_keys :=
     (if forwarded then insert xkb (forwarded_keys r) else forwarded_keys r - {xkb})\<rparr>"

definition take_forwarded_release :: "keycode \<Rightarrow> key_router \<Rightarrow> key_router \<times> bool" where
  "take_forwarded_release xkb r =
     (r\<lparr>forwarded_keys := forwarded_keys r - {xkb}\<rparr>, xkb \<in> forwarded_keys r)"

definition pass_through :: "keycode \<Rightarrow> key_router \<Rightarrow> key_router" where
  "pass_through k r = r\<lparr>router_engine := pass_through_key k (router_engine r)\<rparr>"

definition start_system_control_repeat :: "key_environment \<Rightarrow> keycode \<Rightarrow> key_router \<Rightarrow> key_router" where
  "start_system_control_repeat env xkb r =
     r\<lparr>repeat_key := (if repeat_enabled env then Some xkb else None)\<rparr>"

text \<open>The last part of the handler, for a disposition that is neither forwarded to an app holding the
  shortcuts nor answered by the lock.\<close>

definition execute_key :: "key_environment \<Rightarrow> keycode \<Rightarrow> keycode \<Rightarrow> bool \<Rightarrow> shortcut_disposition \<Rightarrow>
    key_router \<Rightarrow> key_router \<times> bool \<times> shortcut_disposition option" where
  "execute_key env xkb k pressed d r =
    (let handled = execute_shortcut_disposition (accepts env) d;
         r = (if \<not> handled \<and> pressed then pass_through k r else r);
         r = (if handled \<and> pressed \<and> repeats_with_timer d
              then start_system_control_repeat env xkb r else r)
     in (r, handled, Some d))"

text \<open>An XKB keycode is eight above the evdev keycode; smaller codes are not intercepted.\<close>

definition intercept_native_escape :: "key_environment \<Rightarrow> key_router \<Rightarrow> keycode \<Rightarrow> bool \<Rightarrow>
    key_router \<times> bool \<times> shortcut_disposition option" where
  "intercept_native_escape env r xkb pressed =
    (if xkb < 8 then (r, False, None)
     else
       let k = xkb - 8;
           r = (if \<not> pressed \<and> repeat_key r = Some xkb then r\<lparr>repeat_key := None\<rparr> else r);
           (e, d) = observe (router_engine r) k pressed;
           r = r\<lparr>router_engine := e\<rparr>
       in case d of
         RequestVtSwitch vt \<Rightarrow> (r, execute_shortcut_disposition (accepts env) d, Some d)
       | _ \<Rightarrow>
         if session_locked env then
           (r, d \<noteq> Forward, if d = RequestLock \<or> d = RequestShutdown then Some d else None)
         else if \<not> pressed then
           (case take_forwarded_release xkb r of (r, taken) \<Rightarrow>
              if taken then (r, False, None) else execute_key env xkb k pressed d r)
         else
           let forwarded = inhibit_active env \<and> \<not> survives_shortcuts_inhibit d;
               r = note_press xkb forwarded r
           in if forwarded then (pass_through k r, False, None)
              else execute_key env xkb k pressed d r)"

text \<open>The timer of a repeating key. A timer that was dropped is represented by no repeating key; the
  code keeps the stale keycode, which only the next cancellation reads.\<close>

definition dispatch_system_control_repeat ::
    "key_environment \<Rightarrow> key_router \<Rightarrow> key_router \<times> shortcut_disposition option" where
  "dispatch_system_control_repeat env r = (case repeat_key r of
       None \<Rightarrow> (r, None)
     | Some xkb \<Rightarrow>
         if session_locked env \<or> xkb < 8 then (r\<lparr>repeat_key := None\<rparr>, None)
         else (case observe (router_engine r) (xkb - 8) True of (e, d) \<Rightarrow>
           if \<not> repeats_with_timer d then (r\<lparr>router_engine := e, repeat_key := None\<rparr>, None)
           else (r\<lparr>router_engine := e, repeat_key :=
                   (if execute_shortcut_disposition (accepts env) d then Some xkb else None)\<rparr>, Some d)))"

definition router_new :: "shortcut_engine \<Rightarrow> key_router" where
  "router_new e = \<lparr>router_engine = e, forwarded_keys = {}, repeat_key = None\<rparr>"

section \<open>Runs of the router\<close>

datatype router_event =
    RoutedKey key_environment keycode bool
  | RepeatTimer key_environment
  | OtherInput engine_event

text \<open>A step, with the key events that reach the clients and the dispositions that are executed.\<close>

fun router_step :: "key_router \<Rightarrow> router_event \<Rightarrow> key_router \<times> (keycode \<times> bool) list \<times> shortcut_disposition list" where
  "router_step r (RoutedKey env xkb pressed) =
    (case intercept_native_escape env r xkb pressed of (r', intercepted, executed) \<Rightarrow>
       (r', if intercepted then [] else [(xkb, pressed)], case executed of None \<Rightarrow> [] | Some d \<Rightarrow> [d]))"
| "router_step r (RepeatTimer env) =
    (case dispatch_system_control_repeat env r of (r', executed) \<Rightarrow>
       (r', [], case executed of None \<Rightarrow> [] | Some d \<Rightarrow> [d]))"
| "router_step r (OtherInput ev) = (r\<lparr>router_engine := engine_step (router_engine r) ev\<rparr>, [], [])"

fun router_run :: "key_router \<Rightarrow> router_event list \<Rightarrow> key_router \<times> (keycode \<times> bool) list \<times> shortcut_disposition list" where
  "router_run r [] = (r, [], [])"
| "router_run r (ev # evs) = (case router_step r ev of (r1, fw, ex) \<Rightarrow>
     case router_run r1 evs of (r2, fws, exs) \<Rightarrow> (r2, fw @ fws, ex @ exs))"

fun physical :: "router_event list \<Rightarrow> (keycode \<times> bool) list" where
  "physical [] = []"
| "physical (RoutedKey env xkb pressed # evs) = (xkb, pressed) # physical evs"
| "physical (_ # evs) = physical evs"

text \<open>Key events that alternate between press and release, from a set of held keys, and the keys held
  after them.\<close>

fun alternates :: "keycode set \<Rightarrow> (keycode \<times> bool) list \<Rightarrow> bool" where
  "alternates H [] = True"
| "alternates H ((k, pressed) # es) = (if pressed then k \<notin> H \<and> alternates (insert k H) es
     else k \<in> H \<and> alternates (H - {k}) es)"

fun held_after :: "keycode set \<Rightarrow> (keycode \<times> bool) list \<Rightarrow> keycode set" where
  "held_after H [] = H"
| "held_after H ((k, pressed) # es) = held_after (if pressed then insert k H else H - {k}) es"

section \<open>Where keys are kept\<close>

lemma logo_modifier_exclusive: "logo_bit k \<noteq> None \<Longrightarrow> modifier_bit k = None"
  by (auto simp: logo_bit_def modifier_bit_def key_defs split: if_splits)

definition captures :: "shortcut_engine \<Rightarrow> keycode \<Rightarrow> bool" where
  "captures e k = (captured_keys e k \<noteq> None \<or> k \<in> captured_vt_keys e)"

lemma from_action_plain [simp]:
  "from_action a \<noteq> Forward" "from_action a \<noteq> RequestVtSwitch vt"
  by (cases a; simp)+

lemma from_target_plain [simp]:
  "from_target t \<noteq> Forward" "from_target t \<noteq> RequestVtSwitch vt"
  by (cases t; simp)+

lemmas from_target_plain' [simp] = from_target_plain [symmetric]

lemma timer_target_repeats:
  assumes "repeats_with_timer (from_target t)"
  shows "target_repeats t"
proof (cases t)
  case (DenialAction a)
  then show ?thesis using assms
    by (cases a) (simp_all add: repeats_with_timer_def repeats_system_control_def repeating_actions_def)
qed (use assms in \<open>simp_all add: repeats_with_timer_def repeats_system_control_def\<close>)

text \<open>What a key that is no modifier does to the captured keys.\<close>

lemma press_fresh:
  assumes "plain_key k" and "\<not> captures e k" and "observe e k True = (e', d)"
  obtains (vt) vt where "d = RequestVtSwitch vt" "captured_keys e' = captured_keys e"
      "captured_vt_keys e' = insert k (captured_vt_keys e)" "switcher_release e' = switcher_release e"
    | (unbound) "d = Forward" "captured_keys e' = captured_keys e"
      "captured_vt_keys e' = captured_vt_keys e" "switcher_release e' = switcher_release e"
    | (bound) b where "b \<in> set (engine_bindings e)" "trigger_key (compiled_trigger b) = Evdev k"
      "d = from_target (compiled_target b)"
      "captured_keys e' = (captured_keys e)(k \<mapsto> compiled_target b)"
      "captured_vt_keys e' = captured_vt_keys e"
      "\<forall>j. switcher_release e' = Some (KeyRelease j) \<longrightarrow>
        j = k \<and> compiled_target b = DenialAction WindowSwitcher \<or> switcher_release e = Some (KeyRelease j)"
proof -
  let ?e1 = "note_pointer_button True e"
  have eq: "observe_press ?e1 k = (e', d)"
    using assms(1,3) by (simp add: plain_key_def observe_no_logo)
  show ?thesis
  proof (cases "find (matches_key ?e1 k) (engine_bindings ?e1)")
    case None
    then show ?thesis using eq assms(2) vt unbound
      by (auto simp: observe_press_def captures_def target_for_key_def split: option.splits if_splits)
  next
    case (Some b)
    then have b: "b \<in> set (engine_bindings e)" "trigger_key (compiled_trigger b) = Evdev k"
      by (auto simp: find_Some_iff matches_key_def)
    have owner: "switcher_owner m k = KeyRelease j \<Longrightarrow> j = k" for m j
      by (auto simp: switcher_owner_def split: option.splits)
    show ?thesis
    proof (cases "vt_chord e k")
      case True
      then show ?thesis using eq assms(2) vt
        by (auto simp: observe_press_def captures_def vt_chord_def split: option.splits)
    next
      case False
      then have "observe_press ?e1 k = (?e1\<lparr>captured_keys := (captured_keys e)(k \<mapsto> compiled_target b),
          switcher_release := (if compiled_target b = DenialAction WindowSwitcher \<and> switcher_release e = None
            then Some (switcher_owner (trigger_modifiers (compiled_trigger b)) k) else switcher_release e)\<rparr>,
          from_target (compiled_target b))"
        using assms(2) Some by (auto simp: observe_press_def captures_def vt_chord_def target_for_key_def
            split: option.splits)
      then show ?thesis using eq bound [OF b] owner by (auto split: if_splits)
    qed
  qed
qed

lemma release_plain:
  assumes "plain_key k" and "observe e k False = (e', d)"
  shows "k \<in> captured_vt_keys e \<Longrightarrow> d = Consume \<and> captured_keys e' = captured_keys e \<and>
      captured_vt_keys e' = captured_vt_keys e - {k} \<and> switcher_release e' = switcher_release e"
    and "k \<notin> captured_vt_keys e \<Longrightarrow> captured_keys e' = (captured_keys e)(k := None) \<and>
      captured_vt_keys e' = captured_vt_keys e \<and>
      (if switcher_release e = Some (KeyRelease k)
       then d = RequestWindowSwitcherEnd False \<and> switcher_release e' = None
       else d = (if captured_keys e k \<noteq> None then Consume else Forward) \<and>
         switcher_release e' = switcher_release e)"
  using assms by (auto simp: plain_key_def observe_no_logo observe_release_def Let_def split: if_splits)

text \<open>What a modifier key does.\<close>

lemma modifier_press:
  assumes "\<not> plain_key k" and "observe e k True = (e', d)"
  shows "captured_keys e' = captured_keys e" and "captured_vt_keys e' = captured_vt_keys e"
    and "switcher_release e' = switcher_release e"
    and "d = (if modifier_bit k = None then Consume else Forward)"
  using assms logo_modifier_exclusive [of k]
  by (auto simp: plain_key_def observe_def observe_logo_def observe_modifier_def
      set_modifier_keys_def Let_def split: option.splits modifier.splits if_splits)

lemma modifier_release:
  assumes "\<not> plain_key k" and "observe e k False = (e', d)"
  shows "captured_keys e' = captured_keys e" and "captured_vt_keys e' = captured_vt_keys e"
    and "switcher_release e' = switcher_release e \<or> switcher_release e' = None"
    and "modifier_bit k \<noteq> None \<Longrightarrow> d = Forward \<or> d = RequestWindowSwitcherEnd True"
    and "modifier_bit k = None \<Longrightarrow> d = Consume \<or> d = RequestWindowSwitcherEnd False \<or>
      (\<exists>b \<in> set (engine_bindings e). trigger_key (compiled_trigger b) = ModifierTap Super \<and>
        d = from_target (compiled_target b))"
proof -
  have tap: "\<exists>b \<in> set (engine_bindings e). trigger_key (compiled_trigger b) = ModifierTap Super \<and>
      from_target t = from_target (compiled_target b)"
    if "modifier_tap_target (e\<lparr>logo_keys := keys\<rparr>) Super = Some t" for t keys
    using that by (auto simp: modifier_tap_target_def find_Some_iff)
  show "captured_keys e' = captured_keys e" "captured_vt_keys e' = captured_vt_keys e"
    "switcher_release e' = switcher_release e \<or> switcher_release e' = None"
    using assms by (auto simp: plain_key_def observe_def observe_logo_def observe_modifier_def
        set_modifier_keys_def Let_def split: option.splits modifier.splits if_splits)
  show "modifier_bit k \<noteq> None \<Longrightarrow> d = Forward \<or> d = RequestWindowSwitcherEnd True"
    using assms(2) logo_modifier_exclusive [of k]
    by (cases "logo_bit k") (auto simp: observe_no_logo observe_modifier_def Let_def split: if_splits)
  show "modifier_bit k = None \<Longrightarrow> d = Consume \<or> d = RequestWindowSwitcherEnd False \<or>
      (\<exists>b \<in> set (engine_bindings e). trigger_key (compiled_trigger b) = ModifierTap Super \<and>
        d = from_target (compiled_target b))"
    using assms tap by (auto simp: plain_key_def observe_def observe_logo_def Let_def
        split: option.splits if_splits)
qed

section \<open>Balance\<close>

text \<open>The state of one key in the router: a key that is up is neither captured nor given to an app, the
  owner of the switcher and a repeating key are captured, and so on.\<close>

definition key_ok :: "bool \<Rightarrow> key_router \<Rightarrow> keycode \<Rightarrow> bool" where
  "key_ok down r x = (let e = router_engine r; k = x - 8 in
     (\<not> down \<longrightarrow> x \<notin> forwarded_keys r \<and> \<not> captures e k) \<and>
     (\<not> plain_key k \<longrightarrow> \<not> captures e k) \<and>
     (k \<in> captured_vt_keys e \<longrightarrow> captured_keys e k = None) \<and>
     (plain_key k \<and> x \<in> forwarded_keys r \<longrightarrow> \<not> captures e k) \<and>
     (switcher_release e = Some (KeyRelease k) \<longrightarrow>
        plain_key k \<and> (captured_keys e k \<noteq> None \<or> x \<in> forwarded_keys r)) \<and>
     (repeat_key r = Some x \<longrightarrow> plain_key k \<and> vt_for_evdev_keycode k = None \<and>
        (\<exists>t. captured_keys e k = Some t \<and> target_repeats t)))"

definition router_ok :: "compiled_shortcut list \<Rightarrow> keycode set \<Rightarrow> key_router \<Rightarrow> bool" where
  "router_ok bs H r = (engine_bindings (router_engine r) = bs \<and> (\<forall>x \<ge> 8. key_ok (x \<in> H) r x) \<and>
     (\<forall>x. repeat_key r = Some x \<longrightarrow> 8 \<le> x))"

text \<open>The keys whose press reached the clients.\<close>

definition visible :: "key_router \<Rightarrow> keycode \<Rightarrow> bool" where
  "visible r x = (x < 8 \<or> (if plain_key (x - 8) then \<not> captures (router_engine r) (x - 8)
     else modifier_bit (x - 8) \<noteq> None \<or> x \<in> forwarded_keys r))"

text \<open>A step that concerns one key only.\<close>

definition only_key :: "keycode \<Rightarrow> key_router \<Rightarrow> key_router \<Rightarrow> bool" where
  "only_key x r r' = (engine_bindings (router_engine r') = engine_bindings (router_engine r) \<and>
     (\<forall>y. y \<noteq> x \<longrightarrow>
       captured_keys (router_engine r') (y - 8) = captured_keys (router_engine r) (y - 8) \<and>
       (y - 8 \<in> captured_vt_keys (router_engine r') \<longleftrightarrow> y - 8 \<in> captured_vt_keys (router_engine r)) \<and>
       (y \<in> forwarded_keys r' \<longleftrightarrow> y \<in> forwarded_keys r) \<and>
       (switcher_release (router_engine r') = Some (KeyRelease (y - 8)) \<longrightarrow>
         switcher_release (router_engine r) = Some (KeyRelease (y - 8))) \<and>
       (repeat_key r' = Some y \<longrightarrow> repeat_key r = Some y)))"

lemma only_keyD:
  assumes "only_key x r r'" and "y \<noteq> x"
  shows "key_ok down r y \<Longrightarrow> key_ok down r' y" and "visible r' y = visible r y"
proof -
  have y: "captured_keys (router_engine r') (y - 8) = captured_keys (router_engine r) (y - 8)"
    "y - 8 \<in> captured_vt_keys (router_engine r') \<longleftrightarrow> y - 8 \<in> captured_vt_keys (router_engine r)"
    "y \<in> forwarded_keys r' \<longleftrightarrow> y \<in> forwarded_keys r"
    "switcher_release (router_engine r') = Some (KeyRelease (y - 8)) \<longrightarrow>
         switcher_release (router_engine r) = Some (KeyRelease (y - 8))"
    "repeat_key r' = Some y \<longrightarrow> repeat_key r = Some y"
    using assms unfolding only_key_def by blast+
  show "key_ok down r y \<Longrightarrow> key_ok down r' y"
    unfolding key_ok_def captures_def Let_def y(1-3) using y(4,5) by blast
  show "visible r' y = visible r y" unfolding visible_def captures_def y(1-3) by (rule refl)
qed

lemma router_okI:
  assumes "router_ok bs H r" and "only_key x r r'" and "8 \<le> x" and "key_ok (x \<in> H') r' x"
    and "\<forall>y. y \<noteq> x \<longrightarrow> (y \<in> H' \<longleftrightarrow> y \<in> H)" and "repeat_key r' \<in> {None, Some x, repeat_key r}"
  shows "router_ok bs H' r'"
  unfolding router_ok_def
proof (intro conjI allI impI)
  show "engine_bindings (router_engine r') = bs" using assms(1,2) by (simp add: router_ok_def only_key_def)
  show "key_ok (y \<in> H') r' y" if "8 \<le> y" for y
    using that assms only_keyD(1) [OF assms(2), of y "y \<in> H"] by (cases "y = x") (auto simp: router_ok_def)
  show "8 \<le> y" if "repeat_key r' = Some y" for y
    using that assms(1,3,6) by (auto simp: router_ok_def)
qed

text \<open>The environment of a key: the session is not locked, and the action bound to tapping Super is
  not declined.\<close>

definition environment_ok :: "compiled_shortcut list \<Rightarrow> key_environment \<Rightarrow> bool" where
  "environment_ok bs env = (\<not> session_locked env \<and> list_all (\<lambda>b.
     trigger_key (compiled_trigger b) = ModifierTap Super \<longrightarrow>
     execute_shortcut_disposition (accepts env) (from_target (compiled_target b))) bs)"

text \<open>No repeating action is bound to a key that also switches virtual terminals.\<close>

definition no_repeating_vt_key :: "compiled_shortcut list \<Rightarrow> bool" where
  "no_repeating_vt_key bs = list_all (\<lambda>b. case trigger_key (compiled_trigger b) of
     Evdev k \<Rightarrow> \<not> (target_repeats (compiled_target b) \<and> vt_for_evdev_keycode k \<noteq> None) | _ \<Rightarrow> True) bs"

lemma execute_simps [simp]:
  "\<not> execute_shortcut_disposition a Forward"
  "execute_shortcut_disposition a Consume"
  "execute_shortcut_disposition a (RequestVtSwitch vt)"
  "execute_shortcut_disposition a (RequestWindowSwitcherEnd forward) = (\<not> forward)"
  by (simp_all add: execute_shortcut_disposition_def)

lemma execute_switcher: "execute_shortcut_disposition a (from_target (DenialAction WindowSwitcher))"
  by (simp add: execute_shortcut_disposition_def)

lemma timer_simps [simp]: "\<not> repeats_with_timer Forward" "\<not> repeats_with_timer Consume"
  by (simp_all add: repeats_with_timer_def repeats_system_control_def)

text \<open>The handler when the session is not locked, without the branch for virtual terminals.\<close>

lemma intercept_press:
  assumes "8 \<le> x" and "\<not> session_locked env" and "observe (router_engine r) (x - 8) True = (e, d)"
    and "\<forall>vt. d \<noteq> RequestVtSwitch vt"
  shows "intercept_native_escape env r x True =
    (let forwarded = inhibit_active env \<and> \<not> survives_shortcuts_inhibit d;
         r = note_press x forwarded (r\<lparr>router_engine := e\<rparr>)
     in if forwarded then (pass_through (x - 8) r, False, None)
        else execute_key env x (x - 8) True d r)"
  using assms by (cases d) (simp_all add: intercept_native_escape_def Let_def)

lemma intercept_release:
  assumes "8 \<le> x" and "\<not> session_locked env" and "observe (router_engine r) (x - 8) False = (e, d)"
    and "\<forall>vt. d \<noteq> RequestVtSwitch vt"
    and "r1 = r\<lparr>repeat_key := (if repeat_key r = Some x then None else repeat_key r), router_engine := e,
         forwarded_keys := forwarded_keys r - {x}\<rparr>"
  shows "intercept_native_escape env r x False =
    (if x \<in> forwarded_keys r then (r1, False, None) else execute_key env x (x - 8) False d r1)"
  using assms by (cases d) (simp_all add: intercept_native_escape_def take_forwarded_release_def Let_def)

text \<open>What a routed press and a routed release owe.\<close>

definition press_ok :: "keycode \<Rightarrow> key_router \<Rightarrow> key_router \<Rightarrow> bool \<Rightarrow> bool" where
  "press_ok x r r' intercepted = (only_key x r r' \<and> key_ok True r' x \<and>
     repeat_key r' \<in> {None, Some x, repeat_key r} \<and> visible r' x = (\<not> intercepted))"

definition release_ok :: "keycode \<Rightarrow> key_router \<Rightarrow> key_router \<Rightarrow> bool \<Rightarrow> bool" where
  "release_ok x r r' intercepted = (only_key x r r' \<and> key_ok False r' x \<and>
     repeat_key r' \<in> {None, Some x, repeat_key r} \<and> visible r x = (\<not> intercepted))"

text \<open>A press of a key that was up, from the state that it leaves.\<close>

lemma press_okI:
  assumes "8 \<le> x" and "key_ok False r x"
    and "engine_bindings (router_engine r') = engine_bindings (router_engine r)"
    and "captured_keys (router_engine r') = (captured_keys (router_engine r))(x - 8 := c)"
    and "captured_vt_keys (router_engine r') = captured_vt_keys (router_engine r) \<union> (if v then {x - 8} else {})"
    and "forwarded_keys r' = forwarded_keys r \<union> (if f then {x} else {})"
    and "\<forall>j. switcher_release (router_engine r') = Some (KeyRelease j) \<longrightarrow>
      j = x - 8 \<and> plain_key (x - 8) \<and> (c \<noteq> None \<or> f) \<or>
      switcher_release (router_engine r) = Some (KeyRelease j)"
    and "repeat_key r' = (if p then Some x else None) \<or> \<not> p \<and> repeat_key r' = repeat_key r"
    and "p \<longrightarrow> plain_key (x - 8) \<and> vt_for_evdev_keycode (x - 8) = None \<and> (\<exists>t. c = Some t \<and> target_repeats t)"
    and "\<not> plain_key (x - 8) \<longrightarrow> c = None \<and> \<not> v" and "v \<longrightarrow> c = None \<and> \<not> f" and "plain_key (x - 8) \<and> f \<longrightarrow> c = None"
    and "i = (if plain_key (x - 8) then c \<noteq> None \<or> v else modifier_bit (x - 8) = None \<and> \<not> f)"
  shows "press_ok x r r' i"
proof -
  let ?e = "router_engine r" and ?e' = "router_engine r'"
  have up: "x \<notin> forwarded_keys r" "captured_keys ?e (x - 8) = None" "x - 8 \<notin> captured_vt_keys ?e"
    "switcher_release ?e \<noteq> Some (KeyRelease (x - 8))" "repeat_key r \<noteq> Some x"
    using assms(2) by (auto simp: key_ok_def captures_def Let_def)
  have x: "captured_keys ?e' (x - 8) = c" "x - 8 \<in> captured_vt_keys ?e' \<longleftrightarrow> v" "x \<in> forwarded_keys r' \<longleftrightarrow> f"
    using assms(4-6) up by auto
  have sw: "switcher_release ?e' = Some (KeyRelease (x - 8)) \<longrightarrow> plain_key (x - 8) \<and> (c \<noteq> None \<or> f)"
    using assms(7) up(4) by blast
  have rep: "repeat_key r' = Some x \<longleftrightarrow> p" and rep': "repeat_key r' \<in> {None, Some x, repeat_key r}"
    using assms(8) up(5) by (cases p; auto)+
  have "only_key x r r'"
    unfolding only_key_def assms(3-6)
  proof (intro conjI allI impI)
    fix y
    assume y: "y \<noteq> x" and "switcher_release ?e' = Some (KeyRelease (y - 8))"
    then show "switcher_release ?e = Some (KeyRelease (y - 8))" using assms(7) by fastforce
  next
    fix y
    assume "y \<noteq> x" and "repeat_key r' = Some y"
    then show "repeat_key r = Some y" using rep' by auto
  qed (auto split: if_splits)
  moreover have "key_ok True r' x"
    unfolding key_ok_def captures_def Let_def x using sw rep assms(9-12) by blast
  moreover have "visible r' x = (\<not> i)"
    unfolding visible_def captures_def x using assms(1,13) by auto
  ultimately show ?thesis using rep' by (simp add: press_ok_def)
qed

lemmas route_simps = note_press_def pass_through_def pass_through_key_def execute_key_def
  start_system_control_repeat_def Let_def

lemma survives_plain [simp]: "\<not> survives_shortcuts_inhibit Forward" "\<not> survives_shortcuts_inhibit Consume"
  by (simp_all add: survives_shortcuts_inhibit_def repeats_system_control_def)

lemma key_ok_up:
  assumes "key_ok False r x"
  shows "x \<notin> forwarded_keys r" "captured_keys (router_engine r) (x - 8) = None"
    "x - 8 \<notin> captured_vt_keys (router_engine r)" "\<not> captures (router_engine r) (x - 8)"
    "forwarded_keys r - {x} = forwarded_keys r"
    "(captured_keys (router_engine r))(x - 8 := None) = captured_keys (router_engine r)"
  using assms by (auto simp: key_ok_def captures_def Let_def)

lemma intercept_press_cases:
  assumes "8 \<le> x" and "\<not> session_locked env" and "observe (router_engine r) (x - 8) True = (e, d)"
    and "\<forall>vt. d \<noteq> RequestVtSwitch vt" and "intercept_native_escape env r x True = (r', i, ex)"
  obtains (app) "router_engine r' = pass_through_key (x - 8) e" "forwarded_keys r' = insert x (forwarded_keys r)"
      "repeat_key r' = repeat_key r" "\<not> i" "\<not> survives_shortcuts_inhibit d"
    | (handled) "execute_shortcut_disposition (accepts env) d" "router_engine r' = e"
      "forwarded_keys r' = forwarded_keys r - {x}" "i"
      "repeat_key r' = (if repeats_with_timer d then if repeat_enabled env then Some x else None else repeat_key r)"
    | (declined) "\<not> execute_shortcut_disposition (accepts env) d" "router_engine r' = pass_through_key (x - 8) e"
      "forwarded_keys r' = forwarded_keys r - {x}" "repeat_key r' = repeat_key r" "\<not> i"
proof -
  note eq = assms(5) [unfolded intercept_press [OF assms(1-4)]]
  show ?thesis
  proof (cases "inhibit_active env \<and> \<not> survives_shortcuts_inhibit d")
    case True
    then show ?thesis using eq by (intro app) (auto simp: route_simps)
  next
    case False
    show ?thesis
    proof (cases "execute_shortcut_disposition (accepts env) d")
      case True
      then have "(r', i, ex) = (if repeats_with_timer d
          then start_system_control_repeat env x (note_press x False (r\<lparr>router_engine := e\<rparr>))
          else note_press x False (r\<lparr>router_engine := e\<rparr>), True, Some d)"
        using eq False by (auto simp: execute_key_def Let_def)
      then show ?thesis
        using True by (intro handled) (simp_all add: note_press_def start_system_control_repeat_def)
    next
      case no: False
      then show ?thesis using eq False by (intro declined) (auto simp: route_simps)
    qed
  qed
qed

lemma press_modifier_ok:
  assumes x: "8 \<le> x" and ok: "key_ok False r x" and env: "\<not> session_locked env" and k: "\<not> plain_key (x - 8)"
    and eq: "intercept_native_escape env r x True = (r', i, ex)"
  shows "press_ok x r r' i"
proof -
  obtain e d where obs: "observe (router_engine r) (x - 8) True = (e, d)" by fastforce
  note m = modifier_press [OF k obs]
  have bs: "engine_bindings e = engine_bindings (router_engine r)"
    using observe_frame(1) [of "router_engine r" "x - 8" True] obs by simp
  have "\<forall>vt. d \<noteq> RequestVtSwitch vt" using m(4) by simp
  from x env obs this eq show ?thesis
  proof (cases rule: intercept_press_cases)
    case app
    then show ?thesis
      using m(1-3) bs k
      by (intro press_okI [OF x ok, where c = None and v = False and p = False and f = True])
         (simp_all add: pass_through_key_def)
  next
    case handled
    then have "modifier_bit (x - 8) = None" "\<not> repeats_with_timer d" using m(4) by (auto split: if_splits)
    then show ?thesis
      using handled m(1-3) bs k key_ok_up [OF ok]
      by (intro press_okI [OF x ok, where c = None and v = False and p = False and f = False]) simp_all
  next
    case declined
    then have "modifier_bit (x - 8) \<noteq> None" using m(4) by (auto split: if_splits)
    then show ?thesis
      using declined m(1-3) bs k key_ok_up [OF ok]
      by (intro press_okI [OF x ok, where c = None and v = False and p = False and f = False])
         (simp_all add: pass_through_key_def)
  qed
qed

lemma press_plain_ok:
  assumes x: "8 \<le> x" and ok: "key_ok False r x" and env: "\<not> session_locked env" and k: "plain_key (x - 8)"
    and eq: "intercept_native_escape env r x True = (r', i, ex)"
    and vts: "no_repeating_vt_key (engine_bindings (router_engine r))"
  shows "press_ok x r r' i"
proof -
  obtain e d where obs: "observe (router_engine r) (x - 8) True = (e, d)" by fastforce
  have bs: "engine_bindings e = engine_bindings (router_engine r)"
    using observe_frame(1) [of "router_engine r" "x - 8" True] obs by simp
  note up = key_ok_up [OF ok]
  from k up(4) obs show ?thesis
  proof (cases rule: press_fresh)
    case (vt n)
    then have "r' = r\<lparr>router_engine := e\<rparr>" "i" using eq x obs by (auto simp: intercept_native_escape_def Let_def)
    then show ?thesis
      using vt bs k up
      by (intro press_okI [OF x ok, where c = None and v = True and p = False and f = False]) simp_all
  next
    case unbound
    then have "\<forall>vt. d \<noteq> RequestVtSwitch vt" by simp
    from x env obs this eq show ?thesis
    proof (cases rule: intercept_press_cases)
      case app
      then show ?thesis
        using unbound(2-4) bs k up
        by (intro press_okI [OF x ok, where c = None and v = False and p = False and f = True])
           (simp_all add: pass_through_key_def)
    next
      case declined
      then show ?thesis
        using unbound(2-4) bs k up
        by (intro press_okI [OF x ok, where c = None and v = False and p = False and f = False])
           (simp_all add: pass_through_key_def)
    qed (use unbound(1) in simp)
  next
    case (bound b)
    let ?t = "compiled_target b"
    from bound have "\<forall>vt. d \<noteq> RequestVtSwitch vt" by simp
    from x env obs this eq show ?thesis
    proof (cases rule: intercept_press_cases)
      case app
      then show ?thesis
        using bound(4-6) bs k up
        by (intro press_okI [OF x ok, where c = None and v = False and p = False and f = True])
           (simp_all add: pass_through_key_def, blast)
    next
      case handled
      have "target_repeats ?t \<and> vt_for_evdev_keycode (x - 8) = None" if "repeats_with_timer d"
        using that bound(1-3) timer_target_repeats vts by (auto simp: no_repeating_vt_key_def list_all_iff)
      then show ?thesis
        using handled bound(4-6) bs k up
        by (intro press_okI [OF x ok, where c = "Some ?t" and v = False and f = False and
              p = "repeats_with_timer d \<and> repeat_enabled env"]) (simp_all, blast)
    next
      case declined
      then have "?t \<noteq> DenialAction WindowSwitcher" using bound(3) execute_switcher by auto
      then show ?thesis
        using declined bound(4-6) bs k up
        by (intro press_okI [OF x ok, where c = None and v = False and p = False and f = False])
           (simp_all add: pass_through_key_def)
    qed
  qed
qed

lemma release_okI:
  assumes "8 \<le> x" and "key_ok True r x" and "engine_bindings (router_engine r') = engine_bindings (router_engine r)"
    and "captured_keys (router_engine r') = (captured_keys (router_engine r))(x - 8 := None)"
    and "captured_vt_keys (router_engine r') = captured_vt_keys (router_engine r) - {x - 8}"
    and "forwarded_keys r' = forwarded_keys r - {x}"
    and "\<forall>j. switcher_release (router_engine r') = Some (KeyRelease j) \<longrightarrow>
      j \<noteq> x - 8 \<and> switcher_release (router_engine r) = Some (KeyRelease j)"
    and "repeat_key r' = (if repeat_key r = Some x then None else repeat_key r)"
    and "visible r x = (\<not> i)"
  shows "release_ok x r r' i"
proof -
  let ?e = "router_engine r" and ?e' = "router_engine r'"
  have x: "captured_keys ?e' (x - 8) = None" "x - 8 \<notin> captured_vt_keys ?e'" "x \<notin> forwarded_keys r'"
    "switcher_release ?e' \<noteq> Some (KeyRelease (x - 8))" "repeat_key r' \<noteq> Some x"
    using assms(4-8) by auto
  have "only_key x r r'"
    unfolding only_key_def assms(3-6,8) using assms(7) by (auto split: if_splits)
  moreover have "key_ok False r' x" using x by (simp add: key_ok_def captures_def Let_def)
  moreover have "repeat_key r' \<in> {None, Some x, repeat_key r}" using assms(8) by simp
  ultimately show ?thesis using assms(9) by (simp add: release_ok_def)
qed

lemma intercept_release_fields:
  assumes "8 \<le> x" and "\<not> session_locked env" and "observe (router_engine r) (x - 8) False = (e, d)"
    and "\<forall>vt. d \<noteq> RequestVtSwitch vt" and "intercept_native_escape env r x False = (r', i, ex)"
  shows "router_engine r' = e" and "forwarded_keys r' = forwarded_keys r - {x}"
    and "repeat_key r' = (if repeat_key r = Some x then None else repeat_key r)"
    and "i \<longleftrightarrow> x \<notin> forwarded_keys r \<and> execute_shortcut_disposition (accepts env) d"
  using assms(5) [unfolded intercept_release [OF assms(1-4) refl]]
  by (auto simp: execute_key_def Let_def split: if_splits)

lemma release_modifier_ok:
  assumes x: "8 \<le> x" and ok: "key_ok True r x" and k: "\<not> plain_key (x - 8)"
    and env: "environment_ok (engine_bindings (router_engine r)) env"
    and eq: "intercept_native_escape env r x False = (r', i, ex)"
  shows "release_ok x r r' i"
proof -
  obtain e d where obs: "observe (router_engine r) (x - 8) False = (e, d)" by fastforce
  note m = modifier_release [OF k obs]
  have bs: "engine_bindings e = engine_bindings (router_engine r)"
    using observe_frame(1) [of "router_engine r" "x - 8" False] obs by simp
  have unlocked: "\<not> session_locked env" using env by (simp add: environment_ok_def)
  have "\<forall>vt. d \<noteq> RequestVtSwitch vt" using m(4,5) by (cases "modifier_bit (x - 8)") auto
  note f = intercept_release_fields [OF x unlocked obs this eq]
  have none: "captured_keys (router_engine r) (x - 8) = None" "x - 8 \<notin> captured_vt_keys (router_engine r)"
    using ok k by (auto simp: key_ok_def captures_def Let_def)
  have "execute_shortcut_disposition (accepts env) d \<longleftrightarrow> modifier_bit (x - 8) = None"
    using m(4,5) env by (cases "modifier_bit (x - 8)") (auto simp: environment_ok_def list_all_iff)
  then have "visible r x = (\<not> i)" using f(4) x k by (auto simp: visible_def)
  moreover have "switcher_release (router_engine r) \<noteq> Some (KeyRelease (x - 8))"
    using ok k by (auto simp: key_ok_def Let_def)
  moreover have "(captured_keys (router_engine r))(x - 8 := None) = captured_keys (router_engine r)"
    "captured_vt_keys (router_engine r) - {x - 8} = captured_vt_keys (router_engine r)"
    using none by (simp_all add: fun_upd_idem)
  ultimately show ?thesis
    using m(3) f(1-3) m(1,2) bs by (intro release_okI [OF x ok]; elim disjE; simp) blast+
qed

lemma release_plain_ok:
  assumes x: "8 \<le> x" and ok: "key_ok True r x" and k: "plain_key (x - 8)" and env: "\<not> session_locked env"
    and eq: "intercept_native_escape env r x False = (r', i, ex)"
  shows "release_ok x r r' i"
proof -
  let ?e = "router_engine r"
  obtain e d where obs: "observe ?e (x - 8) False = (e, d)" by fastforce
  note rel = release_plain [OF k obs]
  have bs: "engine_bindings e = engine_bindings ?e"
    using observe_frame(1) [of "router_engine r" "x - 8" False] obs by simp
  have "\<forall>vt. d \<noteq> RequestVtSwitch vt" using rel by (cases "x - 8 \<in> captured_vt_keys ?e") (auto split: if_splits)
  note f = intercept_release_fields [OF x env obs this eq]
  show ?thesis
  proof (cases "x - 8 \<in> captured_vt_keys ?e")
    case True
    then have none: "captured_keys ?e (x - 8) = None" "x \<notin> forwarded_keys r"
      and sw: "switcher_release ?e \<noteq> Some (KeyRelease (x - 8))"
      using ok k by (auto simp: key_ok_def captures_def Let_def)
    have "visible r x = (\<not> i)" using f(4) rel(1) [OF True] True none x k by (simp add: visible_def captures_def)
    then show ?thesis
      using f(1-3) rel(1) [OF True] bs none sw by (intro release_okI [OF x ok]) auto
  next
    case False
    note state = rel(2) [OF False, THEN conjunct1] rel(2) [OF False, THEN conjunct2, THEN conjunct1]
      rel(2) [OF False, THEN conjunct2, THEN conjunct2]
    have key: "x \<in> forwarded_keys r \<longrightarrow> captured_keys ?e (x - 8) = None"
      "switcher_release ?e = Some (KeyRelease (x - 8)) \<longrightarrow> captured_keys ?e (x - 8) \<noteq> None \<or> x \<in> forwarded_keys r"
      using ok k by (auto simp: key_ok_def captures_def Let_def)
    have vis: "visible r x \<longleftrightarrow> captured_keys ?e (x - 8) = None"
      using k x False by (simp add: visible_def captures_def)
    have vts: "captured_vt_keys ?e = captured_vt_keys ?e - {x - 8}" using False by simp
    show ?thesis
    proof (cases "switcher_release ?e = Some (KeyRelease (x - 8))")
      case True
      then have "d = RequestWindowSwitcherEnd False" "switcher_release e = None" using state(3) by simp_all
      moreover have "visible r x = (\<not> i)" unfolding vis f(4) calculation(1) using key True by auto
      ultimately show ?thesis
        using f(1-3) state(1,2) bs vts by (intro release_okI [OF x ok]) simp_all
    next
      case other: False
      then have "d = (if captured_keys ?e (x - 8) \<noteq> None then Consume else Forward)"
        "switcher_release e = switcher_release ?e" using state(3) by simp_all
      moreover have "visible r x = (\<not> i)" unfolding vis f(4) calculation(1) using key by auto
      ultimately show ?thesis
        using f(1-3) state(1,2) bs vts other by (intro release_okI [OF x ok]) auto
    qed
  qed
qed

text \<open>The steps of the router keep it well formed and serve the clients as promised.\<close>

lemma route_press:
  assumes "router_ok bs H r" and "environment_ok bs env" and "no_repeating_vt_key bs" and "x \<notin> H"
    and "intercept_native_escape env r x True = (r', i, ex)"
  shows "router_ok bs (insert x H) r'" and "visible r' x = (\<not> i)" and "\<forall>y. y \<noteq> x \<longrightarrow> visible r' y = visible r y"
proof -
  have "router_ok bs (insert x H) r' \<and> visible r' x = (\<not> i) \<and> (\<forall>y. y \<noteq> x \<longrightarrow> visible r' y = visible r y)"
  proof (cases "8 \<le> x")
    case True
    have "key_ok False r x" "\<not> session_locked env" "no_repeating_vt_key (engine_bindings (router_engine r))"
      using assms(1-4) True by (auto simp: router_ok_def environment_ok_def)
    then have p: "press_ok x r r' i"
      using press_modifier_ok [OF True _ _ _ assms(5)] press_plain_ok [OF True _ _ _ assms(5)] by blast
    then have "router_ok bs (insert x H) r'"
      using router_okI [OF assms(1) _ True, of r' "insert x H"] by (auto simp: press_ok_def)
    then show ?thesis using p only_keyD(2) by (auto simp: press_ok_def)
  next
    case False
    then have "r' = r" "\<not> i" using assms(5) by (auto simp: intercept_native_escape_def)
    then show ?thesis using assms(1) False by (auto simp: router_ok_def visible_def)
  qed
  then show "router_ok bs (insert x H) r'" "visible r' x = (\<not> i)" "\<forall>y. y \<noteq> x \<longrightarrow> visible r' y = visible r y"
    by blast+
qed

lemma route_release:
  assumes "router_ok bs H r" and "environment_ok bs env" and "x \<in> H"
    and "intercept_native_escape env r x False = (r', i, ex)"
  shows "router_ok bs (H - {x}) r'" and "visible r x = (\<not> i)" and "\<forall>y. y \<noteq> x \<longrightarrow> visible r' y = visible r y"
proof -
  have "router_ok bs (H - {x}) r' \<and> visible r x = (\<not> i) \<and> (\<forall>y. y \<noteq> x \<longrightarrow> visible r' y = visible r y)"
  proof (cases "8 \<le> x")
    case True
    have "key_ok True r x" "\<not> session_locked env" "environment_ok (engine_bindings (router_engine r)) env"
      using assms(1-3) True by (auto simp: router_ok_def environment_ok_def)
    then have p: "release_ok x r r' i"
      using release_modifier_ok [OF True _ _ _ assms(4)] release_plain_ok [OF True _ _ _ assms(4)] by blast
    then have "router_ok bs (H - {x}) r'"
      using router_okI [OF assms(1) _ True, of r' "H - {x}"] by (auto simp: release_ok_def)
    then show ?thesis using p only_keyD(2) by (auto simp: release_ok_def)
  next
    case False
    then have "r' = r" "\<not> i" using assms(4) by (auto simp: intercept_native_escape_def)
    then show ?thesis using assms(1) False by (auto simp: router_ok_def visible_def)
  qed
  then show "router_ok bs (H - {x}) r'" "visible r x = (\<not> i)" "\<forall>y. y \<noteq> x \<longrightarrow> visible r' y = visible r y"
    by blast+
qed

lemma route_other:
  assumes "router_ok bs H r" and "\<And>k pressed. ev \<noteq> KeyEvent k pressed"
  shows "router_ok bs H (r\<lparr>router_engine := engine_step (router_engine r) ev\<rparr>)"
    and "visible (r\<lparr>router_engine := engine_step (router_engine r) ev\<rparr>) y = visible r y"
proof -
  let ?e = "router_engine r" and ?e' = "engine_step (router_engine r) ev"
  have e': "engine_bindings ?e' = engine_bindings ?e" "captured_keys ?e' = captured_keys ?e"
    "captured_vt_keys ?e' = captured_vt_keys ?e"
    using assms(2) by (cases ev; auto simp: observe_gesture_at_def end_gesture_def cancel_gestures_def
        note_pointer_button_def note_pointer_axis_def cancel_modifier_tap_def set_plugin_actions_def Let_def
        split: option.splits window_switcher_release.splits)+
  have sw: "switcher_release ?e' = Some (KeyRelease j) \<Longrightarrow> switcher_release ?e = Some (KeyRelease j)" for j
    using assms(2) by (cases ev) (auto simp: observe_gesture_at_def end_gesture_def cancel_gestures_def
        note_pointer_button_def note_pointer_axis_def cancel_modifier_tap_def set_plugin_actions_def Let_def
        split: option.splits window_switcher_release.splits if_splits)
  show "router_ok bs H (r\<lparr>router_engine := ?e'\<rparr>)"
    using assms(1) sw by (auto simp: router_ok_def key_ok_def captures_def Let_def e')
  show "visible (r\<lparr>router_engine := ?e'\<rparr>) y = visible r y"
    by (simp add: visible_def captures_def e')
qed

lemma route_timer:
  assumes "router_ok bs H r" and "dispatch_system_control_repeat env r = (r', ex)"
  shows "router_ok bs H r'" and "visible r' y = visible r y"
proof -
  have "router_ok bs H r' \<and> visible r' y = visible r y"
  proof (cases "repeat_key r")
    case None
    then show ?thesis using assms by (simp add: dispatch_system_control_repeat_def)
  next
    case (Some x)
    then have x: "8 \<le> x" and key: "plain_key (x - 8)" "vt_for_evdev_keycode (x - 8) = None"
      "captured_keys (router_engine r) (x - 8) \<noteq> None"
      using assms(1) by (auto simp: router_ok_def key_ok_def Let_def)
    then have novt: "x - 8 \<notin> captured_vt_keys (router_engine r)"
      using assms(1) by (auto simp: router_ok_def key_ok_def Let_def)
    have "fst (observe (router_engine r) (x - 8) True) = note_pointer_button True (router_engine r)"
      using key novt by (auto simp: plain_key_def observe_no_logo observe_press_def split: option.splits)
    then have e: "engine_bindings (router_engine r') = engine_bindings (router_engine r)"
      "captured_keys (router_engine r') = captured_keys (router_engine r)"
      "captured_vt_keys (router_engine r') = captured_vt_keys (router_engine r)"
      "switcher_release (router_engine r') = switcher_release (router_engine r)"
      "forwarded_keys r' = forwarded_keys r" "repeat_key r' = None \<or> repeat_key r' = repeat_key r"
      using assms(2) Some
      by (auto simp: dispatch_system_control_repeat_def split: prod.splits if_splits)
    then have "visible r' y = visible r y" by (simp add: visible_def captures_def)
    moreover have "router_ok bs H r'"
      using assms(1) e(6) unfolding router_ok_def key_ok_def captures_def Let_def e(1-5) by auto
    ultimately show ?thesis by blast
  qed
  then show "router_ok bs H r'" "visible r' y = visible r y" by blast+
qed

fun event_ok :: "compiled_shortcut list \<Rightarrow> router_event \<Rightarrow> bool" where
  "event_ok bs (RoutedKey env xkb pressed) = environment_ok bs env"
| "event_ok bs (RepeatTimer env) = True"
| "event_ok bs (OtherInput (KeyEvent k pressed)) = False"
| "event_ok bs (OtherInput _) = True"

lemma event_ok_other: "event_ok bs (OtherInput ev) \<Longrightarrow> ev \<noteq> KeyEvent k pressed"
  by (cases ev) auto

definition client_held :: "keycode set \<Rightarrow> key_router \<Rightarrow> keycode set" where
  "client_held H r = {x \<in> H. visible r x}"

lemma router_run_balanced:
  assumes "router_ok bs H r" and "no_repeating_vt_key bs" and "list_all (event_ok bs) evs"
    and "alternates H (physical evs)" and "router_run r evs = (r', fws, exs)"
  shows "alternates (client_held H r) fws \<and>
    held_after (client_held H r) fws \<subseteq> held_after H (physical evs)"
  using assms
proof (induction evs arbitrary: H r r' fws exs)
  case Nil
  then show ?case by (auto simp: client_held_def)
next
  case (Cons ev evs)
  obtain r1 fw ex where step: "router_step r ev = (r1, fw, ex)" by (metis prod_cases3)
  obtain r2 fws2 exs2 where run: "router_run r1 evs = (r2, fws2, exs2)" by (metis prod_cases3)
  have fws: "fws = fw @ fws2" using Cons.prems(5) step run by simp
  show ?case
  proof (cases ev)
    case (RoutedKey env x pressed)
    obtain i d where eq: "intercept_native_escape env r x pressed = (r1, i, d)" and fw: "fw = (if i then [] else [(x, pressed)])"
      using step RoutedKey by (auto split: prod.splits)
    have env: "environment_ok bs env" using Cons.prems(3) RoutedKey by simp
    show ?thesis
    proof (cases pressed)
      case True
      then have x: "x \<notin> H" "alternates (insert x H) (physical evs)" using Cons.prems(4) RoutedKey by auto
      have "intercept_native_escape env r x True = (r1, i, d)" using eq True by simp
      note p = route_press [OF Cons.prems(1) env Cons.prems(2) x(1) this]
      have "client_held (insert x H) r1 = (if i then client_held H r else insert x (client_held H r))"
        using p(2,3) x(1) by (auto simp: client_held_def)
      moreover have "x \<notin> client_held H r" using x(1) by (simp add: client_held_def)
      ultimately show ?thesis
        using Cons.IH [OF p(1) Cons.prems(2) _ x(2) run] Cons.prems(3) True fws fw RoutedKey by auto
    next
      case False
      then have x: "x \<in> H" "alternates (H - {x}) (physical evs)" using Cons.prems(4) RoutedKey by auto
      have "intercept_native_escape env r x False = (r1, i, d)" using eq False by simp
      note p = route_release [OF Cons.prems(1) env x(1) this]
      have "client_held (H - {x}) r1 = client_held H r - {x}" using p(3) by (auto simp: client_held_def)
      moreover have "x \<in> client_held H r \<longleftrightarrow> \<not> i" using p(2) x(1) by (simp add: client_held_def)
      ultimately show ?thesis
        using Cons.IH [OF p(1) Cons.prems(2) _ x(2) run] Cons.prems(3) False fws fw RoutedKey by auto
    qed
  next
    case (RepeatTimer env)
    then obtain d where eq: "dispatch_system_control_repeat env r = (r1, d)" and fw: "fw = []"
      using step by (auto split: prod.splits)
    note t = route_timer [OF Cons.prems(1) eq]
    have "client_held H r1 = client_held H r" using t(2) by (simp add: client_held_def)
    then show ?thesis using Cons.IH [OF t(1) Cons.prems(2) _ _ run] Cons.prems(3,4) fws fw RepeatTimer by simp
  next
    case (OtherInput other)
    then have r1: "r1 = r\<lparr>router_engine := engine_step (router_engine r) other\<rparr>" and fw: "fw = []"
      using step by auto
    have "other \<noteq> KeyEvent k p" for k p using event_ok_other Cons.prems(3) OtherInput by auto
    note t = route_other [OF Cons.prems(1) this, folded r1]
    have "client_held H r1 = client_held H r" using t(2) by (simp add: client_held_def)
    then show ?thesis using Cons.IH [OF t(1) Cons.prems(2) _ _ run] Cons.prems(3,4) fws fw OtherInput by simp
  qed
qed

text \<open>Claim C21 (clients see balanced keys). Let an engine be built from a shortcut file in which no key
  that switches virtual terminals has a repeating action, and let the keyboard produce presses and
  releases that alternate for every key, mixed with repeat timers, pointer input and gestures, while the
  session is unlocked. Apps may take and give back the shortcuts at any moment, and any action that can be
  declined may be, except the one bound to tapping Super. Then the key events that pass the interception
  alternate as well for every key: no client sees a release without its press or a second press. And
  what the clients consider held is physically held, so when all keys are up no client has a stuck key.\<close>

theorem clients_see_balanced_keys:
  assumes "from_file f = Inr e" and "no_repeating_vt_key (engine_bindings e)"
    and "list_all (event_ok (engine_bindings e)) evs" and "alternates {} (physical evs)"
    and "router_run (router_new e) evs = (r, forwarded, executed)"
  shows "alternates {} forwarded \<and> held_after {} forwarded \<subseteq> held_after {} (physical evs)"
proof -
  have "captured_keys e = Map.empty" "captured_vt_keys e = {}" "switcher_release e = None"
    using assms(1) by (auto simp: from_file_def res_simps)
  then have "router_ok (engine_bindings e) {} (router_new e)"
    by (simp add: router_ok_def router_new_def key_ok_def captures_def)
  from router_run_balanced [OF this assms(2-5)] show ?thesis by (simp add: client_held_def)
qed

text \<open>An environment in which nothing is declined.\<close>

definition open_environment :: "bool \<Rightarrow> key_environment" where
  "open_environment inhibited = \<lparr>session_locked = False, inhibit_active = inhibited, repeat_enabled = True,
     accepts = (\<lambda>_. True)\<rparr>"

theorem clients_see_balanced_keys_witness:
  "alternates {} (fst (snd (router_run (router_new sample_engine)
      [RoutedKey (open_environment True) 133 True, RoutedKey (open_environment True) 38 True,
       OtherInput PointerAxis, RoutedKey (open_environment False) 38 False,
       RoutedKey (open_environment False) 133 False, RoutedKey (open_environment False) 39 True]))) \<and>
   held_after {} (fst (snd (router_run (router_new sample_engine)
      [RoutedKey (open_environment True) 133 True, RoutedKey (open_environment True) 38 True,
       OtherInput PointerAxis, RoutedKey (open_environment False) 38 False,
       RoutedKey (open_environment False) 133 False, RoutedKey (open_environment False) 39 True]))) \<subseteq> {39}"
proof -
  let ?evs = "[RoutedKey (open_environment True) 133 True, RoutedKey (open_environment True) 38 True,
       OtherInput PointerAxis, RoutedKey (open_environment False) 38 False,
       RoutedKey (open_environment False) 133 False, RoutedKey (open_environment False) 39 True]"
  obtain r fws exs where run: "router_run (router_new sample_engine) ?evs = (r, fws, exs)" by (metis prod_cases3)
  have "no_repeating_vt_key (engine_bindings sample_engine)"
    by (simp add: no_repeating_vt_key_def sample_engine_def repeating_actions_def)
  moreover have "list_all (event_ok (engine_bindings sample_engine)) ?evs"
    by (simp add: environment_ok_def open_environment_def sample_engine_def execute_shortcut_disposition_def)
  moreover have "alternates {} (physical ?evs)" "held_after {} (physical ?evs) = {39}" by simp_all
  ultimately show ?thesis
    using clients_see_balanced_keys [OF sample_from_file _ _ _ run] run by simp
qed

section \<open>Departures\<close>

lemmas intercept_defs = intercept_native_escape_def take_forwarded_release_def note_press_def
  pass_through_def pass_through_key_def execute_key_def start_system_control_repeat_def
  dispatch_system_control_repeat_def execute_shortcut_disposition_def survives_shortcuts_inhibit_def
  repeats_system_control_def repeats_with_timer_def router_new_def open_environment_def

text \<open>The end of the window switcher can be lost. An app holds the shortcuts. The user presses
  Super, which goes to the app, takes the shortcuts back with Super+Escape, opens the window switcher with
  Super+Tab while still holding Super, and releases Super. The engine answers the release with the request
  to end the switcher and forgets it, but the handler sees that the press of Super had gone to the app and
  forwards the release without executing the answer: the shell is told to open the switcher and never to
  end it.\<close>

lemma switcher_end_is_lost_after_inhibit:
  "case router_run (router_new sample_engine)
      [RoutedKey (open_environment True) 133 True,
       RoutedKey (open_environment True) 9 True, RoutedKey (open_environment False) 9 False,
       RoutedKey (open_environment False) 23 True, RoutedKey (open_environment False) 23 False,
       RoutedKey (open_environment False) 133 False] of
    (r, forwarded, executed) \<Rightarrow>
      executed = [RequestReleasePointer, Consume, RequestWindowSwitcherNext, Consume] \<and>
      forwarded = [(133, True), (133, False)] \<and> switcher_release (router_engine r) = None"
  by (simp add: intercept_defs observe_defs sample_engine_def)

text \<open>A declined tap of Super sends the client a release whose press it never saw.\<close>

lemma declined_tap_forwards_a_lone_release:
  "fst (snd (router_run (router_new sample_engine)
      [RoutedKey (open_environment False) 133 True,
       RoutedKey ((open_environment False)\<lparr>accepts := (\<lambda>_. False)\<rparr>) 133 False])) = [(133, False)]"
  by (simp add: intercept_defs observe_defs sample_engine_def)

text \<open>A repeating action on a key that switches virtual terminals: Super+F5 raises the volume. While F5 is
  held, Super is released and Ctrl and Alt are pressed; the next repeat is taken for a chord of virtual
  terminal 5 and captures F5 a second time, and its release frees only one of the two. From then on F5
  alone raises the volume and never reaches a client.\<close>

definition volume_engine :: shortcut_engine where
  "volume_engine = sample_engine\<lparr>engine_bindings :=
    [\<lparr>compiled_trigger = \<lparr>trigger_modifiers = 1, trigger_key = Evdev 63, trigger_canonical = ''Super+F5''\<rparr>,
      compiled_target = DenialAction VolumeUp\<rparr>]\<rparr>"

lemma repeat_as_vt_chord_captures_twice:
  "case router_run (router_new volume_engine)
      [RoutedKey (open_environment False) 133 True, RoutedKey (open_environment False) 71 True,
       RoutedKey (open_environment False) 133 False, RoutedKey (open_environment False) 37 True,
       RoutedKey (open_environment False) 64 True, RepeatTimer (open_environment False),
       RoutedKey (open_environment False) 71 False, RoutedKey (open_environment False) 64 False,
       RoutedKey (open_environment False) 37 False, RoutedKey (open_environment False) 71 True] of
    (r, forwarded, executed) \<Rightarrow>
      last executed = RequestVolumeUp \<and> \<not> List.member forwarded (71, True) \<and>
      active_modifiers (router_engine r) = 0"
  by (simp add: intercept_defs observe_defs sample_engine_def volume_engine_def)

end
