(* ===== verification/Shortcut_Store.thy ===== *)
theory Shortcut_Store
  imports Shortcut_Engine Shortcut_Migration "HOL-Library.AList"
begin

text \<open>
  The persistent store of the shortcuts (\<open>native_shortcut.rs\<close>, \<open>ShortcutManager\<close>): loading with repair
  and migration, the edits that prepare an update in a temporary file, and the commit that renames it
  over the document.

  The file system is an explicit state: what each path holds, the sequence number of temporary files,
  and an oracle of faults that may make any call fail with an I/O error. A path is a directory and a file
  name, so \<open>parent\<close> and \<open>file_name\<close> always exist. A call is atomic. \<open>serde_json\<close> is not part of the
  repository: its three entry points are the members of \<open>json_codec\<close>.

  The theory shows that the file in memory always compiles, that an edit changes the mapping from inputs
  to targets as its name says, that a commit never overwrites a change made by somebody else, and that
  what was committed is what the next start loads.
\<close>

section \<open>The file system\<close>

type_synonym path = "string \<times> string"
type_synonym bytes = string

datatype disk_entry = RegularFile bytes | OtherEntry

datatype fs_call =
    StatCall | OpenCall | ReadCall | CreateDirCall | SetPermissionsCall | CreateNewCall | WriteCall
  | RenameCall | RemoveCall | OpenParentCall | SyncParentCall

record disk =
  disk_entries :: "path \<Rightarrow> disk_entry option"
  disk_sequence :: u64
  disk_calls :: nat
  disk_faults :: "nat \<Rightarrow> fs_call \<Rightarrow> string option"
  disk_pid :: nat
  disk_seconds :: nat

type_synonym 'a io = "disk \<Rightarrow> (shortcut_error + 'a) \<times> disk"

definition io_return :: "'a \<Rightarrow> 'a io" where
  "io_return x d = (Inr x, d)"

definition io_fail :: "shortcut_error \<Rightarrow> 'a io" where
  "io_fail err d = (Inl err, d)"

definition io_lift :: "shortcut_error + 'a \<Rightarrow> 'a io" where
  "io_lift result d = (result, d)"

definition io_bind :: "'a io \<Rightarrow> ('a \<Rightarrow> 'b io) \<Rightarrow> 'b io" where
  "io_bind m f d = (case m d of (Inl err, d') \<Rightarrow> (Inl err, d') | (Inr x, d') \<Rightarrow> f x d')"

text \<open>A system call: it fails when the oracle says so.\<close>

definition io_call :: "fs_call \<Rightarrow> unit io" where
  "io_call c d = ((case disk_faults d (disk_calls d) c of None \<Rightarrow> Inr () | Some msg \<Rightarrow> Inl (Io_Error msg)),
     d\<lparr>disk_calls := disk_calls d + 1\<rparr>)"

definition NOT_FOUND :: string where "NOT_FOUND = ''not found''"

datatype metadata = Found disk_entry | Not_Found | Stat_Failed shortcut_error

definition symlink_metadata :: "path \<Rightarrow> disk \<Rightarrow> metadata \<times> disk" where
  "symlink_metadata p d = (case io_call StatCall d of
       (Inl err, d') \<Rightarrow> (Stat_Failed err, d')
     | (Inr _, d') \<Rightarrow> (case disk_entries d p of None \<Rightarrow> Not_Found | Some entry \<Rightarrow> Found entry, d'))"

definition fs_rename :: "path \<Rightarrow> path \<Rightarrow> unit io" where
  "fs_rename source target = io_bind (io_call RenameCall) (\<lambda>_ d.
     case disk_entries d source of
       None \<Rightarrow> (Inl (Io_Error NOT_FOUND), d)
     | Some entry \<Rightarrow> (Inr (), d\<lparr>disk_entries := (disk_entries d)(source := None, target := Some entry)\<rparr>))"

text \<open>\<open>let _ = fs::remove_file(...)\<close>: a failure is ignored.\<close>

definition remove_file :: "path \<Rightarrow> disk \<Rightarrow> disk" where
  "remove_file p d = (case io_call RemoveCall d of
       (Inl _, d') \<Rightarrow> d'
     | (Inr _, d') \<Rightarrow> d'\<lparr>disk_entries := (disk_entries d')(p := None)\<rparr>)"

definition sync_parent :: "unit io" where
  "sync_parent = io_bind (io_call OpenParentCall) (\<lambda>_. io_call SyncParentCall)"

definition MAX_SHORTCUT_FILE_BYTES :: nat where "MAX_SHORTCUT_FILE_BYTES = 128 * 1024"

definition read_shortcut_bytes :: "path \<Rightarrow> bytes io" where
  "read_shortcut_bytes p d = (case symlink_metadata p d of
       (Stat_Failed err, d') \<Rightarrow> (Inl err, d')
     | (Not_Found, d') \<Rightarrow> (Inl (Io_Error NOT_FOUND), d')
     | (Found OtherEntry, d') \<Rightarrow> (Inl (Path_Error ''not a regular file''), d')
     | (Found (RegularFile content), d') \<Rightarrow>
         if MAX_SHORTCUT_FILE_BYTES < length content then (Inl (Document File_Too_Large), d')
         else io_bind (io_call OpenCall) (\<lambda>_. io_bind (io_call ReadCall) (\<lambda>_.
           let bytes = take (MAX_SHORTCUT_FILE_BYTES + 1) content in
           if MAX_SHORTCUT_FILE_BYTES < length bytes then io_fail (Document File_Too_Large)
           else io_return bytes)) d')"

definition temporary_path :: "path \<Rightarrow> nat \<Rightarrow> u64 \<Rightarrow> path" where
  "temporary_path target pid sequence = (fst target,
     ''.'' @ snd target @ ''.'' @ decimal pid @ ''.'' @ decimal (unat sequence) @ ''.tmp'')"

text \<open>The loop of \<open>write_temporary\<close>: a name that exists already is skipped.\<close>

fun try_temporary :: "nat \<Rightarrow> path \<Rightarrow> bytes \<Rightarrow> path io" where
  "try_temporary 0 target content = io_fail (Path_Error ''no unique transaction file'')"
| "try_temporary (Suc n) target content = (\<lambda>d.
     let temporary = temporary_path target (disk_pid d) (disk_sequence d);
         d = d\<lparr>disk_sequence := disk_sequence d + 1\<rparr>
     in if disk_entries d temporary \<noteq> None then try_temporary n target content d
        else case io_call CreateNewCall d of
          (Inl err, d) \<Rightarrow> (Inl err, d)
        | (Inr _, d) \<Rightarrow> (case io_call WriteCall d of
            (Inl err, d) \<Rightarrow> (Inl err,
               remove_file temporary (d\<lparr>disk_entries := (disk_entries d)(temporary \<mapsto> RegularFile [])\<rparr>))
          | (Inr _, d) \<Rightarrow> (Inr temporary,
               d\<lparr>disk_entries := (disk_entries d)(temporary \<mapsto> RegularFile content)\<rparr>)))"

definition write_temporary :: "path \<Rightarrow> bytes \<Rightarrow> path io" where
  "write_temporary target content =
     io_bind (io_call CreateDirCall) (\<lambda>_. io_bind (io_call SetPermissionsCall) (\<lambda>_.
       try_temporary 64 target content))"

definition replace_shortcut_file :: "path \<Rightarrow> bytes \<Rightarrow> unit io" where
  "replace_shortcut_file p content = io_bind (write_temporary p content) (\<lambda>temporary d.
     case fs_rename temporary p d of
       (Inr _, d') \<Rightarrow> sync_parent d'
     | (Inl err, d') \<Rightarrow> (Inl err, remove_file temporary d'))"

section \<open>Documents\<close>

datatype json =
    JsonNull | JsonBool bool | JsonNumber string | JsonString string
  | JsonArray "json list" | JsonObject "(string \<times> json) list"

record json_codec =
  from_slice :: "bytes \<Rightarrow> string + json"
  from_value :: "json \<Rightarrow> string + shortcut_file"
  to_vec_pretty :: "shortcut_file \<Rightarrow> string + bytes"

definition json_result :: "string + 'a \<Rightarrow> shortcut_error + 'a" where
  "json_result x = (case x of Inl err \<Rightarrow> Inl (Json_Error err) | Inr y \<Rightarrow> Inr y)"

definition render_shortcut_file :: "json_codec \<Rightarrow> shortcut_file \<Rightarrow> shortcut_error + bytes" where
  "render_shortcut_file codec f = try_bind (json_result (to_vec_pretty codec f)) (\<lambda>content.
     let bytes = content @ [char_of (10 :: nat)] in
     if MAX_SHORTCUT_FILE_BYTES < length bytes then Inl (Document File_Too_Large) else Inr bytes)"

fun json_get :: "json \<Rightarrow> string \<Rightarrow> json option" where
  "json_get (JsonObject members) key = map_of members key"
| "json_get _ key = None"

fun json_str :: "json \<Rightarrow> string option" where
  "json_str (JsonString s) = Some s"
| "json_str _ = None"

definition retired_binding :: "json \<Rightarrow> bool" where
  "retired_binding b = (let target = json_get b ''target'' in
     Option.bind (Option.bind target (\<lambda>t. json_get t ''type'')) json_str = Some ''denialAction'' \<and>
     Option.bind (Option.bind target (\<lambda>t. json_get t ''action'')) json_str = Some ''openWorkspaces'')"

definition remove_retired_shortcut_actions :: "json \<Rightarrow> json \<times> nat" where
  "remove_retired_shortcut_actions document = (case document of
       JsonObject members \<Rightarrow> (case map_of members ''shortcuts'' of
         Some (JsonArray shortcuts) \<Rightarrow>
           (JsonObject (AList.update ''shortcuts''
              (JsonArray (filter (\<lambda>b. \<not> retired_binding b) shortcuts)) members),
            length (filter retired_binding shortcuts))
       | _ \<Rightarrow> (document, 0))
     | _ \<Rightarrow> (document, 0))"

definition merge_removed :: "nat \<Rightarrow> shortcut_file \<times> nat option \<Rightarrow> shortcut_file \<times> nat option" where
  "merge_removed removed result = (case result of
       (f, Some changed) \<Rightarrow> (f, Some (changed + removed))
     | (f, None) \<Rightarrow>
         if removed > 0 then (f\<lparr>file_revision := saturating_succ (file_revision f)\<rparr>, Some removed)
         else (f, None))"

definition parse_document ::
    "json_codec \<Rightarrow> bytes \<Rightarrow> shortcut_error + shortcut_file \<times> bytes \<times> nat option" where
  "parse_document codec content =
     try_bind (json_result (from_slice codec content)) (\<lambda>document.
     case remove_retired_shortcut_actions document of (document, removed) \<Rightarrow>
     try_bind (json_result (from_value codec document)) (\<lambda>f.
     try_bind (migrate_shortcut_file f) (\<lambda>migrated.
     case merge_removed removed migrated of (f, migration) \<Rightarrow>
     try_bind (normalize_and_compile_shortcuts f) (\<lambda>(f, _). Inr (f, content, migration)))))"

definition read_and_parse ::
    "json_codec \<Rightarrow> path \<Rightarrow> (shortcut_file \<times> bytes \<times> nat option) io" where
  "read_and_parse codec p = io_bind (read_shortcut_bytes p) (\<lambda>content. io_lift (parse_document codec content))"

definition write_default_file :: "json_codec \<Rightarrow> path \<Rightarrow> unit io" where
  "write_default_file codec p = io_bind (io_lift (render_shortcut_file codec default_shortcut_file))
     (replace_shortcut_file p)"

definition aside_path :: "path \<Rightarrow> nat \<Rightarrow> nat \<Rightarrow> nat \<Rightarrow> path" where
  "aside_path p seconds pid sequence = (fst p, ''shortcuts.invalid-'' @ decimal seconds @ ''-'' @ decimal pid @
     (if sequence = 0 then [] else ''-'' @ decimal sequence) @ ''.json'')"

text \<open>The loop of \<open>move_invalid_file_aside\<close>, with the number of tries that are left.\<close>

fun try_aside :: "nat \<Rightarrow> path \<Rightarrow> path io" where
  "try_aside 0 p = io_fail (Path_Error ''no unique backup name'')"
| "try_aside (Suc n) p = (\<lambda>d.
     let candidate = aside_path p (disk_seconds d) (disk_pid d) (1000 - Suc n) in
     case symlink_metadata candidate d of
       (Found _, d) \<Rightarrow> try_aside n p d
     | (_, d) \<Rightarrow> io_bind (fs_rename p candidate) (\<lambda>_. io_bind sync_parent (\<lambda>_. io_return candidate)) d)"

definition move_invalid_file_aside :: "path \<Rightarrow> path io" where
  "move_invalid_file_aside p = try_aside 1000 p"

section \<open>The manager\<close>

record shortcut_manager =
  manager_path :: path
  manager_file :: shortcut_file
  persisted_bytes :: bytes

definition load_document :: "json_codec \<Rightarrow> path \<Rightarrow> (shortcut_file \<times> bytes \<times> nat option) io" where
  "load_document codec p d = (case symlink_metadata p d of
       (Not_Found, d) \<Rightarrow> io_bind (write_default_file codec p) (\<lambda>_. read_and_parse codec p) d
     | (Stat_Failed err, d) \<Rightarrow> (Inl err, d)
     | (Found _, d) \<Rightarrow> (case read_and_parse codec p d of
         (Inr loaded, d) \<Rightarrow> (Inr loaded, d)
       | (Inl _, d) \<Rightarrow> io_bind (move_invalid_file_aside p) (\<lambda>_.
           io_bind (write_default_file codec p) (\<lambda>_. read_and_parse codec p)) d))"

definition load_path :: "json_codec \<Rightarrow> path \<Rightarrow> shortcut_manager io" where
  "load_path codec p = io_bind (load_document codec p) (\<lambda>(f, content, migration).
     io_bind (case migration of
         Some _ \<Rightarrow> io_bind (io_lift (render_shortcut_file codec f)) (\<lambda>migrated.
           io_bind (replace_shortcut_file p migrated) (\<lambda>_. io_return migrated))
       | None \<Rightarrow> io_return content) (\<lambda>content.
     io_return \<lparr>manager_path = p, manager_file = f, persisted_bytes = content\<rparr>))"

definition manager_engine :: "shortcut_manager \<Rightarrow> shortcut_error + shortcut_engine" where
  "manager_engine m = from_file (manager_file m)"

datatype shortcut_validation =
    ValidShortcut string
  | ConflictingShortcut string shortcut_binding
  | InvalidShortcut shortcut_error

definition validate_shortcut ::
    "shortcut_manager \<Rightarrow> shortcut_binding \<Rightarrow> string option \<Rightarrow> shortcut_validation" where
  "validate_shortcut m b existing_shortcut = (case validate_target (binding_target b) of
       Inl err \<Rightarrow> InvalidShortcut err
     | Inr _ \<Rightarrow> (case parse_shortcut (binding_shortcut b) of
         Inl err \<Rightarrow> InvalidShortcut err
       | Inr trigger \<Rightarrow>
           let existing = Option.bind existing_shortcut (\<lambda>s. case parse_shortcut s of
                 Inl _ \<Rightarrow> None | Inr t \<Rightarrow> Some (trigger_canonical t))
           in case find (\<lambda>c. case parse_shortcut (binding_shortcut c) of Inl _ \<Rightarrow> False
                 | Inr configured \<Rightarrow> configured = trigger \<and> existing \<noteq> Some (trigger_canonical configured))
                 (file_shortcuts (manager_file m)) of
               Some c \<Rightarrow> ConflictingShortcut (trigger_canonical trigger) c
             | None \<Rightarrow> ValidShortcut (trigger_canonical trigger)))"

record prepared_update =
  prepared_target :: path
  prepared_temporary :: path
  prepared_file :: shortcut_file
  prepared_bytes :: bytes
  prepared_engine :: shortcut_engine

definition check_revision :: "shortcut_manager \<Rightarrow> u64 \<Rightarrow> shortcut_error + unit" where
  "check_revision m expected = (if expected \<noteq> file_revision (manager_file m)
     then Inl (Revision_Conflict expected (file_revision (manager_file m))) else Inr ())"

definition prepare :: "json_codec \<Rightarrow> shortcut_manager \<Rightarrow> shortcut_file \<Rightarrow> prepared_update io" where
  "prepare codec m f =
     (let revision = file_revision (manager_file m) in
      io_bind (io_lift (if revision = - 1 then Inl (Document Revision_Exhausted) else Inr (revision + 1))) (\<lambda>revision.
      io_bind (io_lift (normalize_and_compile_shortcuts
          (f\<lparr>file_version := SHORTCUT_SCHEMA_VERSION, file_revision := revision\<rparr>))) (\<lambda>(f, _).
      io_bind (io_lift (render_shortcut_file codec f)) (\<lambda>content.
      io_bind (write_temporary (manager_path m) content) (\<lambda>temporary.
      io_bind (io_lift (from_file f)) (\<lambda>engine.
      io_return \<lparr>prepared_target = manager_path m, prepared_temporary = temporary, prepared_file = f,
        prepared_bytes = content, prepared_engine = engine\<rparr>))))))"

definition find_binding :: "shortcut_file \<Rightarrow> string \<Rightarrow> shortcut_error + nat" where
  "find_binding f canonical = ok_or (position (\<lambda>b. binding_shortcut b = canonical) (file_shortcuts f))
     (Missing canonical)"

definition added_file :: "shortcut_manager \<Rightarrow> u64 \<Rightarrow> shortcut_binding \<Rightarrow> shortcut_error + shortcut_file" where
  "added_file m expected b =
     try_bind (check_revision m expected) (\<lambda>_.
     try_bind (canonical_binding b) (\<lambda>b.
       Inr ((manager_file m)\<lparr>file_shortcuts := file_shortcuts (manager_file m) @ [b]\<rparr>)))"

definition updated_file ::
    "shortcut_manager \<Rightarrow> u64 \<Rightarrow> string \<Rightarrow> shortcut_binding \<Rightarrow> shortcut_error + shortcut_file" where
  "updated_file m expected existing_shortcut b =
     try_bind (check_revision m expected) (\<lambda>_.
     try_bind (parse_shortcut existing_shortcut) (\<lambda>existing.
     try_bind (canonical_binding b) (\<lambda>b.
     try_bind (find_binding (manager_file m) (trigger_canonical existing)) (\<lambda>index.
       Inr ((manager_file m)\<lparr>file_shortcuts := (file_shortcuts (manager_file m))[index := b]\<rparr>)))))"

definition removed_file :: "shortcut_manager \<Rightarrow> u64 \<Rightarrow> string \<Rightarrow> shortcut_error + shortcut_file" where
  "removed_file m expected shortcut =
     try_bind (check_revision m expected) (\<lambda>_.
     try_bind (parse_shortcut shortcut) (\<lambda>t.
     try_bind (find_binding (manager_file m) (trigger_canonical t)) (\<lambda>index.
       Inr ((manager_file m)\<lparr>file_shortcuts := take index (file_shortcuts (manager_file m)) @
         drop (Suc index) (file_shortcuts (manager_file m))\<rparr>))))"

definition prepare_add :: "json_codec \<Rightarrow> shortcut_manager \<Rightarrow> u64 \<Rightarrow> shortcut_binding \<Rightarrow> prepared_update io" where
  "prepare_add codec m expected b = io_bind (io_lift (added_file m expected b)) (prepare codec m)"

definition prepare_update ::
    "json_codec \<Rightarrow> shortcut_manager \<Rightarrow> u64 \<Rightarrow> string \<Rightarrow> shortcut_binding \<Rightarrow> prepared_update io" where
  "prepare_update codec m expected existing b =
     io_bind (io_lift (updated_file m expected existing b)) (prepare codec m)"

definition prepare_remove :: "json_codec \<Rightarrow> shortcut_manager \<Rightarrow> u64 \<Rightarrow> string \<Rightarrow> prepared_update io" where
  "prepare_remove codec m expected shortcut =
     io_bind (io_lift (removed_file m expected shortcut)) (prepare codec m)"

definition prepare_restore :: "json_codec \<Rightarrow> shortcut_manager \<Rightarrow> u64 \<Rightarrow> prepared_update io" where
  "prepare_restore codec m expected =
     io_bind (io_lift (try_bind (check_revision m expected) (\<lambda>_. Inr default_shortcut_file))) (prepare codec m)"

text \<open>The commit returns the manager as well; the temporary file of a failed commit is removed when the
  prepared update is dropped.\<close>

definition commit :: "shortcut_manager \<Rightarrow> prepared_update \<Rightarrow> disk \<Rightarrow>
    (shortcut_error + unit) \<times> shortcut_manager \<times> disk" where
  "commit m p d =
    (let dropped = (\<lambda>err d. (Inl err, m, remove_file (prepared_temporary p) d)) in
     if prepared_target p \<noteq> manager_path m then dropped (Path_Error ''target does not match'') d
     else case read_shortcut_bytes (manager_path m) d of
       (Inl err, d) \<Rightarrow> dropped err d
     | (Inr content, d) \<Rightarrow>
         if content \<noteq> persisted_bytes m then dropped Changed d
         else case fs_rename (prepared_temporary p) (manager_path m) d of
           (Inl err, d) \<Rightarrow> dropped err d
         | (Inr _, d) \<Rightarrow> (Inr (), m\<lparr>manager_file := prepared_file p, persisted_bytes := prepared_bytes p\<rparr>,
             snd (sync_parent d)))"

text \<open>Installing a prepared update (\<open>flutter_settings_sync.rs\<close>): the new engine runs before the commit and
  is taken back when the commit fails.\<close>

definition apply_shortcut_update :: "string set \<Rightarrow> shortcut_error + prepared_update \<Rightarrow> shortcut_manager \<Rightarrow>
    shortcut_engine \<Rightarrow> disk \<Rightarrow> (shortcut_error + unit) \<times> shortcut_manager \<times> shortcut_engine \<times> disk" where
  "apply_shortcut_update plugin_ids prepared m engine d = (case prepared of
       Inl err \<Rightarrow> (Inl err, m, engine, d)
     | Inr p \<Rightarrow> (case commit m p d of (result, m', d') \<Rightarrow>
         (result, m',
          case result of Inl _ \<Rightarrow> engine | Inr _ \<Rightarrow> set_plugin_actions plugin_ids (prepared_engine p), d')))"

section \<open>The disk under the operations\<close>

lemma io_bind_Inr [res_simps]:
  "io_bind m f d = (Inr y, d'') \<longleftrightarrow> (\<exists>x d'. m d = (Inr x, d') \<and> f x d' = (Inr y, d''))"
  by (auto simp: io_bind_def split: prod.splits sum.splits)

lemma io_simps [simp]:
  "io_return x d = (Inr x, d)" "io_fail err d = (Inl err, d)" "io_lift r d = (r, d)"
  by (simp_all add: io_return_def io_fail_def io_lift_def)

lemma json_result_Inr [res_simps]: "json_result x = Inr y \<longleftrightarrow> x = Inr y"
  by (auto simp: json_result_def split: sum.splits)

text \<open>The calls that leave every entry alone.\<close>

definition keeps_entries :: "'a io \<Rightarrow> bool" where
  "keeps_entries m = (\<forall>d. disk_entries (snd (m d)) = disk_entries d)"

lemma keeps_entriesD: "keeps_entries m \<Longrightarrow> m d = (r, d') \<Longrightarrow> disk_entries d' = disk_entries d"
  by (metis keeps_entries_def snd_conv)

lemma keeps_entries_call [simp]: "keeps_entries (io_call c)"
  by (simp add: keeps_entries_def io_call_def)

lemma keeps_entries_return [simp]: "keeps_entries (io_return x)" "keeps_entries (io_fail err)" "keeps_entries (io_lift r)"
  by (simp_all add: keeps_entries_def io_return_def io_fail_def io_lift_def)

lemma keeps_entries_bind:
  "keeps_entries m \<Longrightarrow> (\<And>x. keeps_entries (f x)) \<Longrightarrow> keeps_entries (io_bind m f)"
  by (auto simp: keeps_entries_def io_bind_def split: prod.splits sum.splits) (metis snd_conv)+

lemma keeps_entries_sync [simp]: "keeps_entries sync_parent"
  unfolding sync_parent_def by (intro keeps_entries_bind) simp_all

lemma symlink_metadata_entries:
  "symlink_metadata p d = (meta, d') \<Longrightarrow> disk_entries d' = disk_entries d \<and>
    (meta = Found entry \<longrightarrow> disk_entries d p = Some entry)"
  by (auto simp: symlink_metadata_def io_call_def split: option.splits prod.splits sum.splits)

lemma read_entries:
  assumes "read_shortcut_bytes p d = (r, d')"
  shows "disk_entries d' = disk_entries d"
    and "r = Inr content \<Longrightarrow> disk_entries d p = Some (RegularFile content)"
proof -
  obtain meta d1 where m: "symlink_metadata p d = (meta, d1)" by fastforce
  have d1: "disk_entries d1 = disk_entries d" using symlink_metadata_entries [OF m] by simp
  have "disk_entries d' = disk_entries d \<and> (\<forall>content. r = Inr content \<longrightarrow> disk_entries d p = Some (RegularFile content))"
  proof (cases "\<exists>c. meta = Found (RegularFile c) \<and> \<not> MAX_SHORTCUT_FILE_BYTES < length c")
    case True
    then obtain c where c: "meta = Found (RegularFile c)" "\<not> MAX_SHORTCUT_FILE_BYTES < length c" by blast
    then have "io_bind (io_call OpenCall) (\<lambda>_. io_bind (io_call ReadCall) (\<lambda>_. io_return c)) d1 = (r, d')"
      using assms m by (simp add: read_shortcut_bytes_def)
    moreover have "keeps_entries (io_bind (io_call OpenCall) (\<lambda>_. io_bind (io_call ReadCall) (\<lambda>_. io_return c)))"
      by (intro keeps_entries_bind keeps_entries_call keeps_entries_return)
    ultimately have "disk_entries d' = disk_entries d" using d1 keeps_entriesD by metis
    moreover have "r = Inr content \<longrightarrow> content = c" for content
      using \<open>io_bind _ _ d1 = (r, d')\<close> by (auto simp: res_simps)
    ultimately show ?thesis using symlink_metadata_entries [OF m] c(1) by auto
  next
    case False
    then show ?thesis using assms m d1
      by (auto simp: read_shortcut_bytes_def split: metadata.splits disk_entry.splits if_splits)
  qed
  then show "disk_entries d' = disk_entries d"
    and "r = Inr content \<Longrightarrow> disk_entries d p = Some (RegularFile content)" by blast+
qed

lemma remove_file_entries: "q \<noteq> p \<Longrightarrow> disk_entries (remove_file p d) q = disk_entries d q"
  by (auto simp: remove_file_def io_call_def split: option.splits)

lemma rename_entries:
  assumes "fs_rename source target d = (r, d')"
  shows "r = Inr () \<Longrightarrow> disk_entries d source \<noteq> None \<and>
      disk_entries d' = (disk_entries d)(source := None, target := disk_entries d source)"
    and "r = Inl err \<Longrightarrow> disk_entries d' = disk_entries d"
  using assms by (auto simp: fs_rename_def io_bind_def io_call_def split: option.splits prod.splits sum.splits)

lemma decimal_nonempty: "decimal n \<noteq> []"
  by (subst decimal.simps) simp

lemma temporary_path_fresh: "temporary_path target pid sequence \<noteq> target"
proof
  assume "temporary_path target pid sequence = target"
  then have "length (snd (temporary_path target pid sequence)) = length (snd target)" by simp
  then show False by (simp add: temporary_path_def)
qed

text \<open>A temporary file is created under a name that did not exist, and nothing else changes.\<close>

lemma try_temporary_entries:
  assumes "try_temporary n target content d = (Inr temporary, d')"
  shows "disk_entries d temporary = None" and "disk_entries d' = (disk_entries d)(temporary \<mapsto> RegularFile content)"
    and "temporary \<noteq> target"
proof -
  have "disk_entries d temporary = None \<and> disk_entries d' = (disk_entries d)(temporary \<mapsto> RegularFile content) \<and>
      temporary \<noteq> target"
    using assms
  proof (induction n arbitrary: d)
    case (Suc n)
    let ?t = "temporary_path target (disk_pid d) (disk_sequence d)"
    show ?case
    proof (cases "disk_entries d ?t")
      case None
      then show ?thesis using Suc.prems temporary_path_fresh [of target "disk_pid d" "disk_sequence d"]
        by (auto simp: Let_def io_call_def split: option.splits prod.splits sum.splits)
    next
      case (Some entry)
      then have "try_temporary n target content (d\<lparr>disk_sequence := disk_sequence d + 1\<rparr>) = (Inr temporary, d')"
        using Suc.prems by (simp add: Let_def)
      from Suc.IH [OF this] show ?thesis by simp
    qed
  qed simp
  then show "disk_entries d temporary = None" "disk_entries d' = (disk_entries d)(temporary \<mapsto> RegularFile content)"
    "temporary \<noteq> target" by blast+
qed

lemma write_temporary_entries:
  assumes "write_temporary target content d = (Inr temporary, d')"
  shows "disk_entries d temporary = None" and "disk_entries d' = (disk_entries d)(temporary \<mapsto> RegularFile content)"
    and "temporary \<noteq> target"
proof -
  obtain d1 d2 where d: "io_call CreateDirCall d = (Inr (), d1)" "io_call SetPermissionsCall d1 = (Inr (), d2)"
    and t: "try_temporary 64 target content d2 = (Inr temporary, d')"
    using assms by (auto simp: write_temporary_def res_simps)
  have "disk_entries d2 = disk_entries d" using d keeps_entriesD [OF keeps_entries_call] by metis
  then show "disk_entries d temporary = None" "disk_entries d' = (disk_entries d)(temporary \<mapsto> RegularFile content)"
    "temporary \<noteq> target" using try_temporary_entries [OF t] by simp_all
qed

section \<open>Calls that do not fail\<close>

definition faultless :: "disk \<Rightarrow> bool" where
  "faultless d = (\<forall>n c. disk_faults d n c = None)"

lemma faultless_simps [simp]:
  "faultless (d\<lparr>disk_calls := n\<rparr>) = faultless d" "faultless (d\<lparr>disk_sequence := s\<rparr>) = faultless d"
  "faultless (d\<lparr>disk_entries := entries\<rparr>) = faultless d"
  by (simp_all add: faultless_def)

lemma faultless_call [simp]: "faultless d \<Longrightarrow> io_call c d = (Inr (), d\<lparr>disk_calls := disk_calls d + 1\<rparr>)"
  by (simp add: faultless_def io_call_def)

lemma faultless_bind_call: "faultless d \<Longrightarrow> io_bind (io_call c) f d = f () (d\<lparr>disk_calls := disk_calls d + 1\<rparr>)"
  by (simp add: io_bind_def)

lemma faultless_try_temporary:
  assumes "faultless d" and "disk_entries d (temporary_path target (disk_pid d) (disk_sequence d)) = None"
  shows "\<exists>temporary d'. try_temporary (Suc n) target content d = (Inr temporary, d') \<and> faultless d'"
  using assms by (simp add: Let_def)

lemma faultless_write_temporary:
  assumes "faultless d" and "disk_entries d (temporary_path target (disk_pid d) (disk_sequence d)) = None"
  shows "\<exists>temporary d'. write_temporary target content d = (Inr temporary, d') \<and> faultless d'"
  using assms faultless_try_temporary [of "d\<lparr>disk_calls := disk_calls d + 2\<rparr>" target 63 content]
  by (simp add: write_temporary_def faultless_bind_call)

lemma faultless_read:
  assumes "faultless d" and "disk_entries d p = Some (RegularFile content)"
    and "length content \<le> MAX_SHORTCUT_FILE_BYTES"
  shows "\<exists>d'. read_shortcut_bytes p d = (Inr content, d') \<and> faultless d' \<and> disk_entries d' = disk_entries d"
  using assms by (auto simp: read_shortcut_bytes_def symlink_metadata_def faultless_bind_call not_less)

section \<open>Edits of the shortcut map\<close>

text \<open>What the shortcuts mean: a map from triggers to targets. An edit of the user adds, replaces or
  removes an entry, or restores the defaults.\<close>

datatype shortcut_edit =
    AddShortcut shortcut_binding
  | UpdateShortcut string shortcut_binding
  | RemoveShortcut string
  | RestoreShortcuts

definition prepare_edit :: "json_codec \<Rightarrow> shortcut_manager \<Rightarrow> u64 \<Rightarrow> shortcut_edit \<Rightarrow> prepared_update io" where
  "prepare_edit codec m expected e = (case e of
       AddShortcut b \<Rightarrow> prepare_add codec m expected b
     | UpdateShortcut existing b \<Rightarrow> prepare_update codec m expected existing b
     | RemoveShortcut shortcut \<Rightarrow> prepare_remove codec m expected shortcut
     | RestoreShortcuts \<Rightarrow> prepare_restore codec m expected)"

definition edited_file :: "shortcut_manager \<Rightarrow> u64 \<Rightarrow> shortcut_edit \<Rightarrow> shortcut_error + shortcut_file" where
  "edited_file m expected e = (case e of
       AddShortcut b \<Rightarrow> added_file m expected b
     | UpdateShortcut existing b \<Rightarrow> updated_file m expected existing b
     | RemoveShortcut shortcut \<Rightarrow> removed_file m expected shortcut
     | RestoreShortcuts \<Rightarrow> try_bind (check_revision m expected) (\<lambda>_. Inr default_shortcut_file))"

lemma prepare_edit_eq:
  "prepare_edit codec m expected e = io_bind (io_lift (edited_file m expected e)) (prepare codec m)"
  by (cases e) (simp_all add: prepare_edit_def edited_file_def prepare_add_def prepare_update_def
      prepare_remove_def prepare_restore_def)

type_synonym shortcut_map = "shortcut_trigger \<rightharpoonup> shortcut_target"

definition bindings_map :: "shortcut_binding list \<Rightarrow> shortcut_map" where
  "bindings_map bs = map_of (map (\<lambda>b. (binding_trigger b, binding_target b)) bs)"

definition shortcut_map :: "shortcut_file \<Rightarrow> shortcut_map" where
  "shortcut_map f = bindings_map (file_shortcuts f)"

definition text_trigger :: "string \<Rightarrow> shortcut_trigger option" where
  "text_trigger s = (case parse_shortcut s of Inl _ \<Rightarrow> None | Inr t \<Rightarrow> Some t)"

fun edit_shortcuts :: "shortcut_edit \<Rightarrow> shortcut_map \<Rightarrow> shortcut_map option" where
  "edit_shortcuts (AddShortcut b) M =
     (if binding_ok b \<and> M (binding_trigger b) = None
      then Some (M(binding_trigger b \<mapsto> binding_target b)) else None)"
| "edit_shortcuts (UpdateShortcut existing b) M = Option.bind (text_trigger existing) (\<lambda>t.
     if M t \<noteq> None \<and> binding_ok b \<and> (M(t := None)) (binding_trigger b) = None
     then Some (M(t := None, binding_trigger b \<mapsto> binding_target b)) else None)"
| "edit_shortcuts (RemoveShortcut s) M = Option.bind (text_trigger s) (\<lambda>t.
     if M t \<noteq> None then Some (M(t := None)) else None)"
| "edit_shortcuts RestoreShortcuts M = Some (shortcut_map default_shortcut_file)"

definition manager_ok :: "shortcut_manager \<Rightarrow> bool" where
  "manager_ok m = (file_ok (manager_file m) \<and>
     list_all (\<lambda>b. canonical_form b = b) (file_shortcuts (manager_file m)))"

lemma bindings_map_simps [simp]:
  "bindings_map [] = Map.empty"
  "bindings_map (b # bs) = (bindings_map bs)(binding_trigger b \<mapsto> binding_target b)"
  "bindings_map (bs @ cs) = bindings_map cs ++ bindings_map bs"
  by (simp_all add: bindings_map_def)

lemma bindings_map_None: "bindings_map bs t = None \<longleftrightarrow> t \<notin> binding_trigger ` set bs"
  by (auto simp: bindings_map_def map_of_eq_None_iff image_image)

lemma bindings_map_finite [simp]: "finite (dom (bindings_map bs))"
  by (simp add: bindings_map_def finite_dom_map_of)

lemma bindings_map_size: "distinct (map binding_trigger bs) \<Longrightarrow> card (dom (bindings_map bs)) = length bs"
  by (simp add: bindings_map_def dom_map_of_conv_image_fst image_image distinct_card distinct_map card_image)

text \<open>Taking a binding out of a list without duplicates, and putting one in.\<close>

lemma bindings_map_middle:
  assumes "binding_trigger b \<notin> binding_trigger ` (set us \<union> set vs)"
  shows "bindings_map (us @ b # vs) = (bindings_map (us @ vs))(binding_trigger b \<mapsto> binding_target b)"
    and "(bindings_map (us @ b # vs))(binding_trigger b := None) = bindings_map (us @ vs)"
proof -
  have "bindings_map us (binding_trigger b) = None" "bindings_map vs (binding_trigger b) = None"
    using assms by (auto simp: bindings_map_None image_Un)
  then show "bindings_map (us @ b # vs) = (bindings_map (us @ vs))(binding_trigger b \<mapsto> binding_target b)"
    and "(bindings_map (us @ b # vs))(binding_trigger b := None) = bindings_map (us @ vs)"
    by (auto simp: map_add_def fun_eq_iff split: option.splits)
qed

lemma bindings_ok_middle:
  "bindings_ok (us @ b # vs) \<longleftrightarrow> bindings_ok (us @ vs) \<and> binding_ok b \<and>
    bindings_map (us @ vs) (binding_trigger b) = None \<and> Suc (length (us @ vs)) \<le> MAX_SHORTCUTS"
  by (auto simp: bindings_ok_def bindings_map_None image_Un simp del: bindings_map_simps)

text \<open>In a file whose bindings are canonical, the text of a trigger finds its binding.\<close>

lemma canonical_text_finds:
  assumes "binding_ok b" and "canonical_form b = b" and "parse_shortcut s = Inr t"
  shows "binding_shortcut b = trigger_canonical t \<longleftrightarrow> binding_trigger b = t"
proof
  assume "binding_shortcut b = trigger_canonical t"
  then show "binding_trigger b = t" using parse_canonical [OF assms(3)] by (simp add: binding_trigger_def)
next
  assume "binding_trigger b = t"
  then have "binding_shortcut (canonical_form b) = trigger_canonical t" by (simp add: canonical_form_def)
  then show "binding_shortcut b = trigger_canonical t" by (simp only: assms(2))
qed

lemma find_binding_iff:
  assumes "manager_ok m" and "parse_shortcut s = Inr t"
  shows "find_binding (manager_file m) (trigger_canonical t) = Inr i \<Longrightarrow>
      i < length (file_shortcuts (manager_file m)) \<and> binding_trigger (file_shortcuts (manager_file m) ! i) = t"
    and "shortcut_map (manager_file m) t \<noteq> None \<longleftrightarrow>
      (\<exists>i. find_binding (manager_file m) (trigger_canonical t) = Inr i)"
proof -
  let ?bs = "file_shortcuts (manager_file m)"
  have finds: "binding_shortcut b = trigger_canonical t \<longleftrightarrow> binding_trigger b = t" if "b \<in> set ?bs" for b
    using assms(1) that canonical_text_finds [OF _ _ assms(2), of b]
    by (auto simp: manager_ok_def file_ok_def bindings_ok_def list_all_iff)
  show "find_binding (manager_file m) (trigger_canonical t) = Inr i \<Longrightarrow>
      i < length ?bs \<and> binding_trigger (?bs ! i) = t"
    using finds by (auto simp: find_binding_def res_simps dest: position_less)
  have "shortcut_map (manager_file m) t \<noteq> None \<longleftrightarrow> (\<exists>b \<in> set ?bs. binding_trigger b = t)"
    by (auto simp: shortcut_map_def bindings_map_None simp del: not_None_eq)
  also have "\<dots> \<longleftrightarrow> (\<exists>b \<in> set ?bs. binding_shortcut b = trigger_canonical t)" using finds by blast
  also have "\<dots> \<longleftrightarrow> (\<exists>i. find_binding (manager_file m) (trigger_canonical t) = Inr i)"
    using position_None [of "\<lambda>b. binding_shortcut b = trigger_canonical t" ?bs]
    by (auto simp: find_binding_def res_simps)
  finally show "shortcut_map (manager_file m) t \<noteq> None \<longleftrightarrow>
      (\<exists>i. find_binding (manager_file m) (trigger_canonical t) = Inr i)" .
qed

text \<open>A successful edit of the list is the edit of the map; an edit of the map that fits succeeds.\<close>

definition refines_edit :: "shortcut_manager \<Rightarrow> u64 \<Rightarrow> shortcut_edit \<Rightarrow> bool" where
  "refines_edit m expected e = (\<forall>M'.
     (\<exists>f. edited_file m expected e = Inr f \<and> bindings_ok (file_shortcuts f) \<and> shortcut_map f = M') \<longleftrightarrow>
     expected = file_revision (manager_file m) \<and>
     edit_shortcuts e (shortcut_map (manager_file m)) = Some M' \<and> card (dom M') \<le> MAX_SHORTCUTS)"

lemma refines_editI:
  assumes "\<And>f. edited_file m expected e = Inr f \<Longrightarrow> bindings_ok (file_shortcuts f) \<Longrightarrow>
      expected = file_revision (manager_file m) \<and>
      edit_shortcuts e (shortcut_map (manager_file m)) = Some (shortcut_map f)"
    and "\<And>M'. expected = file_revision (manager_file m) \<Longrightarrow>
      edit_shortcuts e (shortcut_map (manager_file m)) = Some M' \<Longrightarrow> card (dom M') \<le> MAX_SHORTCUTS \<Longrightarrow>
      \<exists>f. edited_file m expected e = Inr f \<and> bindings_ok (file_shortcuts f) \<and> shortcut_map f = M'"
  shows "refines_edit m expected e"
proof -
  have "card (dom (shortcut_map f)) \<le> MAX_SHORTCUTS" if "bindings_ok (file_shortcuts f)" for f
    using that by (simp add: shortcut_map_def bindings_map_size bindings_ok_def)
  then show ?thesis unfolding refines_edit_def using assms by blast
qed

lemma check_revision_iff [simp]:
  "check_revision m expected = Inr u \<longleftrightarrow> expected = file_revision (manager_file m)"
  by (simp add: check_revision_def)

lemma manager_okD:
  assumes "manager_ok m"
  shows "file_ok (manager_file m)" and "bindings_ok (file_shortcuts (manager_file m))"
  using assms by (simp_all add: manager_ok_def file_ok_def)

lemma added_refines:
  assumes "manager_ok m"
  shows "refines_edit m expected (AddShortcut b)"
proof (rule refines_editI)
  let ?bs = "file_shortcuts (manager_file m)"
  have middle: "bindings_ok (?bs @ [canonical_form b]) \<longleftrightarrow>
      bindings_map ?bs (binding_trigger b) = None \<and> Suc (length ?bs) \<le> MAX_SHORTCUTS" if "binding_ok b"
    using bindings_ok_middle [of ?bs "canonical_form b" "[]"] manager_okD(2) [OF assms]
      canonical_form_trigger [OF that] by simp
  have new: "bindings_map (?bs @ [canonical_form b]) = (bindings_map ?bs)(binding_trigger b \<mapsto> binding_target b)"
    if "binding_ok b" "bindings_map ?bs (binding_trigger b) = None"
    using bindings_map_middle(1) [of "canonical_form b" ?bs "[]"] canonical_form_trigger [OF that(1)] that(2)
    by (simp add: bindings_map_None)
  show "expected = file_revision (manager_file m) \<and>
      edit_shortcuts (AddShortcut b) (shortcut_map (manager_file m)) = Some (shortcut_map f)"
    if "edited_file m expected (AddShortcut b) = Inr f" "bindings_ok (file_shortcuts f)" for f
    using that middle new
    by (auto simp: edited_file_def added_file_def res_simps canonical_binding_iff shortcut_map_def
        simp del: bindings_map_simps)
  show "\<exists>f. edited_file m expected (AddShortcut b) = Inr f \<and> bindings_ok (file_shortcuts f) \<and> shortcut_map f = M'"
    if prems: "expected = file_revision (manager_file m)"
      "edit_shortcuts (AddShortcut b) (shortcut_map (manager_file m)) = Some M'" "card (dom M') \<le> MAX_SHORTCUTS"
    for M'
  proof -
    have ok: "binding_ok b" and free: "bindings_map ?bs (binding_trigger b) = None"
      and M': "M' = (bindings_map ?bs)(binding_trigger b \<mapsto> binding_target b)"
      using prems(2) by (auto simp: shortcut_map_def split: if_splits)
    have "card (dom M') = Suc (length ?bs)"
      using free manager_okD(2) [OF assms] by (simp add: M' domIff bindings_map_size bindings_ok_def)
    then have "bindings_ok (?bs @ [canonical_form b])" using middle [OF ok] free prems(3) by simp
    then show ?thesis using new [OF ok free] ok prems(1) M'
      by (auto simp: edited_file_def added_file_def res_simps canonical_binding_iff shortcut_map_def
          simp del: bindings_map_simps)
  qed
qed

text \<open>The file around a binding that an edit has found.\<close>

lemma found_binding:
  assumes "manager_ok m" and "parse_shortcut s = Inr t"
    and "find_binding (manager_file m) (trigger_canonical t) = Inr i"
  obtains us c vs where "file_shortcuts (manager_file m) = us @ c # vs"
    and "\<And>b. (file_shortcuts (manager_file m))[i := b] = us @ b # vs"
    and "take i (file_shortcuts (manager_file m)) @ drop (Suc i) (file_shortcuts (manager_file m)) = us @ vs"
    and "(shortcut_map (manager_file m))(t := None) = bindings_map (us @ vs)"
    and "shortcut_map (manager_file m) t \<noteq> None" and "bindings_ok (us @ vs)"
    and "Suc (length (us @ vs)) \<le> MAX_SHORTCUTS"
proof -
  let ?bs = "file_shortcuts (manager_file m)"
  let ?us = "take i ?bs" and ?vs = "drop (Suc i) ?bs"
  have i: "i < length ?bs" "binding_trigger (?bs ! i) = t" using find_binding_iff(1) [OF assms] by simp_all
  have split: "?bs = ?us @ ?bs ! i # ?vs" using id_take_nth_drop [OF i(1)] .
  then have "bindings_ok (?us @ ?bs ! i # ?vs)" using manager_okD(2) [OF assms(1)] by metis
  then have ok: "bindings_ok (?us @ ?vs)" "bindings_map (?us @ ?vs) t = None" "Suc (length (?us @ ?vs)) \<le> MAX_SHORTCUTS"
    unfolding bindings_ok_middle i(2) by blast+
  have "t \<notin> binding_trigger ` (set ?us \<union> set ?vs)" using ok(2) by (simp add: bindings_map_None del: bindings_map_simps)
  then have "(bindings_map (?us @ ?bs ! i # ?vs))(t := None) = bindings_map (?us @ ?vs)"
    using bindings_map_middle(2) [of "?bs ! i" ?us ?vs] unfolding i(2) by blast
  then have "(shortcut_map (manager_file m))(t := None) = bindings_map (?us @ ?vs)"
    unfolding shortcut_map_def split [symmetric] .
  moreover have "shortcut_map (manager_file m) t \<noteq> None"
    using find_binding_iff(2) [OF assms(1,2)] assms(3) by blast
  ultimately show thesis
    using that [OF split upd_conv_take_nth_drop [OF i(1)] refl _ _ ok(1,3)] by blast
qed

lemma updated_refines:
  assumes "manager_ok m"
  shows "refines_edit m expected (UpdateShortcut s b)"
proof (cases "\<exists>t i. parse_shortcut s = Inr t \<and> find_binding (manager_file m) (trigger_canonical t) = Inr i")
  case True
  then obtain t i where t: "parse_shortcut s = Inr t" and i: "find_binding (manager_file m) (trigger_canonical t) = Inr i"
    by blast
  obtain us c vs where bs: "\<And>b. (file_shortcuts (manager_file m))[i := b] = us @ b # vs"
    and M: "(shortcut_map (manager_file m))(t := None) = bindings_map (us @ vs)"
      "shortcut_map (manager_file m) t \<noteq> None" "bindings_ok (us @ vs)" "Suc (length (us @ vs)) \<le> MAX_SHORTCUTS"
    using found_binding [OF assms t i] by metis
  have edited: "edited_file m expected (UpdateShortcut s b) = Inr f \<longleftrightarrow>
      expected = file_revision (manager_file m) \<and> binding_ok b \<and>
      f = (manager_file m)\<lparr>file_shortcuts := us @ canonical_form b # vs\<rparr>" for f
    using t i bs by (auto simp: edited_file_def updated_file_def res_simps canonical_binding_iff)
  have ok: "bindings_ok (us @ canonical_form b # vs) \<longleftrightarrow> bindings_map (us @ vs) (binding_trigger b) = None"
    if "binding_ok b"
    unfolding bindings_ok_middle using M(3,4) canonical_form_trigger [OF that] by auto
  have new: "shortcut_map ((manager_file m)\<lparr>file_shortcuts := us @ canonical_form b # vs\<rparr>) =
      (shortcut_map (manager_file m))(t := None, binding_trigger b \<mapsto> binding_target b)"
    if "binding_ok b" "bindings_map (us @ vs) (binding_trigger b) = None"
    unfolding M(1) using bindings_map_middle(1) [of "canonical_form b" us vs] canonical_form_trigger [OF that(1)] that(2)
    by (simp add: shortcut_map_def [of "_\<lparr>file_shortcuts := _\<rparr>"] bindings_map_None del: bindings_map_simps)
  have abstract: "edit_shortcuts (UpdateShortcut s b) (shortcut_map (manager_file m)) = Some M' \<longleftrightarrow>
      binding_ok b \<and> bindings_map (us @ vs) (binding_trigger b) = None \<and>
      M' = (shortcut_map (manager_file m))(t := None, binding_trigger b \<mapsto> binding_target b)" for M'
    unfolding M(1) [symmetric] using t M(2)
    by (auto simp: text_trigger_def simp del: fun_upd_apply split: if_splits)
  show ?thesis
    by (rule refines_editI) (use edited ok new abstract in \<open>auto simp del: edit_shortcuts.simps bindings_map_simps\<close>)
next
  case False
  then have none: "text_trigger s = Some t \<Longrightarrow> shortcut_map (manager_file m) t = None" for t
    using find_binding_iff(2) [OF assms, of s t] by (auto simp: text_trigger_def split: sum.splits)
  show ?thesis
    by (rule refines_editI) (use False none in \<open>auto simp: edited_file_def updated_file_def res_simps
        Option.bind_eq_Some_conv split: if_splits\<close>)
qed

lemma removed_refines:
  assumes "manager_ok m"
  shows "refines_edit m expected (RemoveShortcut s)"
proof (cases "\<exists>t i. parse_shortcut s = Inr t \<and> find_binding (manager_file m) (trigger_canonical t) = Inr i")
  case True
  then obtain t i where t: "parse_shortcut s = Inr t" and i: "find_binding (manager_file m) (trigger_canonical t) = Inr i"
    by blast
  obtain us c vs where
    bs: "take i (file_shortcuts (manager_file m)) @ drop (Suc i) (file_shortcuts (manager_file m)) = us @ vs"
    and M: "(shortcut_map (manager_file m))(t := None) = bindings_map (us @ vs)"
      "shortcut_map (manager_file m) t \<noteq> None" "bindings_ok (us @ vs)"
    using found_binding [OF assms t i] by metis
  have edited: "edited_file m expected (RemoveShortcut s) = Inr f \<longleftrightarrow>
      expected = file_revision (manager_file m) \<and> f = (manager_file m)\<lparr>file_shortcuts := us @ vs\<rparr>" for f
    using t i bs by (auto simp: edited_file_def removed_file_def res_simps)
  have abstract: "edit_shortcuts (RemoveShortcut s) (shortcut_map (manager_file m)) = Some M' \<longleftrightarrow>
      M' = bindings_map (us @ vs)" for M'
    using t M(1,2) by (auto simp: text_trigger_def simp del: bindings_map_simps)
  have new: "shortcut_map ((manager_file m)\<lparr>file_shortcuts := us @ vs\<rparr>) = bindings_map (us @ vs)"
    by (simp add: shortcut_map_def)
  show ?thesis
    by (rule refines_editI) (use edited abstract new M(3) in \<open>auto simp del: edit_shortcuts.simps bindings_map_simps\<close>)
next
  case False
  then have none: "text_trigger s = Some t \<Longrightarrow> shortcut_map (manager_file m) t = None" for t
    using find_binding_iff(2) [OF assms, of s t] by (auto simp: text_trigger_def split: sum.splits)
  show ?thesis
    by (rule refines_editI) (use False none in \<open>auto simp: edited_file_def removed_file_def res_simps
        Option.bind_eq_Some_conv split: if_splits\<close>)
qed

lemma edit_refines:
  assumes "manager_ok m"
  shows "refines_edit m expected e"
proof (cases e)
  case RestoreShortcuts
  have "bindings_ok (file_shortcuts default_shortcut_file)" using default_file_ok by (simp add: file_ok_def)
  then show ?thesis unfolding RestoreShortcuts
    by (intro refines_editI) (auto simp: edited_file_def res_simps)
qed (use assms added_refines updated_refines removed_refines in auto)

text \<open>The validation that the settings show while the user types agrees with the edit that follows.\<close>

lemma validation_predicts_add:
  assumes "manager_ok m"
  shows "(\<exists>canonical. validate_shortcut m b None = ValidShortcut canonical) \<longleftrightarrow>
    edit_shortcuts (AddShortcut b) (shortcut_map (manager_file m)) \<noteq> None"
proof (cases "binding_ok b")
  case True
  have parsed: "parse_shortcut (binding_shortcut c) = Inr (binding_trigger c)"
    if "c \<in> set (file_shortcuts (manager_file m))" for c
    using manager_okD(2) [OF assms] that binding_okD(1) by (auto simp: bindings_ok_def list_all_iff)
  then have "shortcut_map (manager_file m) (binding_trigger b) = None \<longleftrightarrow>
      find (\<lambda>c. case parse_shortcut (binding_shortcut c) of Inl _ \<Rightarrow> False
        | Inr configured \<Rightarrow> configured = binding_trigger b \<and> None \<noteq> Some (trigger_canonical configured))
        (file_shortcuts (manager_file m)) = None"
    by (auto simp: shortcut_map_def bindings_map_None find_None_iff image_iff)
  then show ?thesis using binding_okD [OF True] True by (auto simp: validate_shortcut_def split: option.splits)
next
  case False
  then show ?thesis by (auto simp: validate_shortcut_def binding_ok_def split: sum.splits)
qed

section \<open>A prepared update\<close>

lemma prepare_Inr:
  assumes "prepare codec m f d = (Inr p, d')"
  shows "file_revision (manager_file m) \<noteq> - 1"
    and "\<exists>cs. normalize_and_compile_shortcuts (f\<lparr>file_version := SHORTCUT_SCHEMA_VERSION,
      file_revision := file_revision (manager_file m) + 1\<rparr>) = Inr (prepared_file p, cs)"
    and "render_shortcut_file codec (prepared_file p) = Inr (prepared_bytes p)"
    and "from_file (prepared_file p) = Inr (prepared_engine p)"
    and "prepared_target p = manager_path m"
    and "write_temporary (manager_path m) (prepared_bytes p) d = (Inr (prepared_temporary p), d')"
  using assms by (auto simp: prepare_def Let_def res_simps split: if_splits prod.splits)

lemma normalized_map:
  assumes "normalize_and_compile_shortcuts f = Inr (g, cs)"
  shows "shortcut_map g = shortcut_map f" and "file_revision g = file_revision f" and "bindings_ok (file_shortcuts f)"
proof -
  have f: "bindings_ok (file_shortcuts f)" and g: "g = f\<lparr>file_shortcuts := map canonical_form (file_shortcuts f)\<rparr>"
    using assms by (auto simp: normalize_iff file_ok_def)
  have "binding_trigger (canonical_form b) = binding_trigger b" if "b \<in> set (file_shortcuts f)" for b
    using f that canonical_form_trigger(2) by (auto simp: bindings_ok_def list_all_iff)
  then show "shortcut_map g = shortcut_map f" using g by (simp add: shortcut_map_def bindings_map_def cong: map_cong)
  show "file_revision g = file_revision f" using g by simp
  show "bindings_ok (file_shortcuts f)" by fact
qed

lemma prepared_ok:
  assumes "prepare codec m f d = (Inr p, d')"
  shows "manager_ok (m\<lparr>manager_file := prepared_file p, persisted_bytes := bytes\<rparr>)"
  using prepare_Inr(2) [OF assms] normalized_ok by (fastforce simp: manager_ok_def)

lemma prepare_edit_Inr:
  assumes "prepare_edit codec m expected e d = (Inr p, d')"
  obtains f where "edited_file m expected e = Inr f" and "prepare codec m f d = (Inr p, d')"
  using assms by (auto simp: prepare_edit_eq res_simps)

lemma prepare_succeeds:
  assumes "faultless d" and "disk_entries d (temporary_path (manager_path m) (disk_pid d) (disk_sequence d)) = None"
    and "file_revision (manager_file m) \<noteq> - 1" and "bindings_ok (file_shortcuts f)"
    and "\<And>g. shortcut_map g = shortcut_map f \<Longrightarrow> \<exists>content. render_shortcut_file codec g = Inr content"
  shows "\<exists>p d'. prepare codec m f d = (Inr p, d')"
proof -
  let ?f = "f\<lparr>file_version := SHORTCUT_SCHEMA_VERSION, file_revision := file_revision (manager_file m) + 1\<rparr>"
  have "file_revision (manager_file m) + 1 \<noteq> 0" using assms(3) by (metis add_eq_0_iff minus_minus)
  then obtain g cs where g: "normalize_and_compile_shortcuts ?f = Inr (g, cs)"
    using assms(4) by (auto simp: normalize_iff file_ok_def)
  obtain engine where "from_file g = Inr engine"
    using normalized_ok(2) [OF g] by (auto simp: from_file_def)
  moreover obtain content where "render_shortcut_file codec g = Inr content"
    using assms(5) [of g] normalized_map(1) [OF g] by (auto simp: shortcut_map_def)
  moreover obtain temporary d' where "write_temporary (manager_path m) content d = (Inr temporary, d')"
    using faultless_write_temporary [OF assms(1,2)] by blast
  ultimately show ?thesis using g assms(3) by (simp add: prepare_def Let_def io_bind_def)
qed

section \<open>An example store\<close>

text \<open>A codec that knows one file.\<close>

definition constant_codec :: "shortcut_file \<Rightarrow> json_codec" where
  "constant_codec f = \<lparr>from_slice = (\<lambda>_. Inr JsonNull), from_value = (\<lambda>_. Inr f),
     to_vec_pretty = (\<lambda>_. Inr ''{}'')\<rparr>"

abbreviation plain_codec :: json_codec where
  "plain_codec \<equiv> constant_codec sample_file"

definition sample_path :: path where
  "sample_path = (''denial'', ''shortcuts.json'')"

definition sample_disk :: disk where
  "sample_disk = \<lparr>disk_entries = [sample_path \<mapsto> RegularFile (''{}'' @ [char_of (10 :: nat)])], disk_sequence = 0,
     disk_calls = 0, disk_faults = (\<lambda>_ _. None), disk_pid = 7, disk_seconds = 0\<rparr>"

definition sample_manager :: shortcut_manager where
  "sample_manager = \<lparr>manager_path = sample_path, manager_file = sample_file,
     persisted_bytes = ''{}'' @ [char_of (10 :: nat)]\<rparr>"

lemma sample_disk_faultless: "faultless sample_disk"
  by (simp add: faultless_def sample_disk_def)

lemma sample_free: "disk_entries sample_disk
    (temporary_path sample_path (disk_pid sample_disk) (disk_sequence sample_disk)) = None"
  using temporary_path_fresh [of sample_path] by (simp add: sample_disk_def)

lemma plain_render: "render_shortcut_file (constant_codec g) f = Inr (''{}'' @ [char_of (10 :: nat)])"
  by (simp add: render_shortcut_file_def constant_codec_def json_result_def MAX_SHORTCUT_FILE_BYTES_def)

lemma sample_file_ok: "file_ok sample_file"
  using sample_compiled by (simp add: compile_shortcuts_iff)

lemma sample_manager_ok: "manager_ok sample_manager"
proof -
  have "list_all canonical_text (map binding_shortcut (file_shortcuts sample_file))" by code_simp
  moreover have "canonical_form b = b" if "canonical_text (binding_shortcut b)" "binding_ok b" for b
    using canonical_text_trigger [of b] that binding_okD(2) [of b] by (simp add: canonical_form_def)
  ultimately show ?thesis using sample_file_ok
    by (auto simp: manager_ok_def sample_manager_def list_all_iff file_ok_def bindings_ok_def)
qed

section \<open>Claims\<close>



text \<open>What a commit does to the manager and to the disk.\<close>

lemma commit_cases:
  assumes "commit m p d = (r, m', d')"
  obtains (refused) err d1 where "r = Inl err" "m' = m" "d' = remove_file (prepared_temporary p) d1"
      "disk_entries d1 = disk_entries d"
    | (replaced) d1 d2 where "r = Inr ()" "prepared_target p = manager_path m"
      "m' = m\<lparr>manager_file := prepared_file p, persisted_bytes := prepared_bytes p\<rparr>"
      "disk_entries d (manager_path m) = Some (RegularFile (persisted_bytes m))"
      "disk_entries d1 = disk_entries d"
      "fs_rename (prepared_temporary p) (manager_path m) d1 = (Inr (), d2)" "disk_entries d' = disk_entries d2"
proof (cases "prepared_target p = manager_path m")
  case False
  then show thesis using assms refused [OF _ _ _ refl] by (auto simp: commit_def Let_def)
next
  case target: True
  obtain content d1 where read: "read_shortcut_bytes (manager_path m) d = (content, d1)" by fastforce
  note d1 = read_entries(1) [OF read] read_entries(2) [OF read]
  show thesis
  proof (cases "content = Inr (persisted_bytes m)")
    case False
    then show thesis using assms target read refused [OF _ _ _ d1(1)]
      by (auto simp: commit_def Let_def split: sum.splits if_splits)
  next
    case True
    obtain renamed d2 where rename: "fs_rename (prepared_temporary p) (manager_path m) d1 = (renamed, d2)" by fastforce
    show thesis
    proof (cases renamed)
      case (Inl err)
      then show thesis using assms target read True rename rename_entries(2) [OF rename] d1(1) refused [of err d2]
        by (auto simp: commit_def Let_def)
    next
      case (Inr u)
      have "disk_entries (snd (sync_parent d2)) = disk_entries d2"
        using keeps_entries_sync by (simp add: keeps_entries_def)
      then show thesis using assms target read True rename Inr d1(1) d1(2) [OF True] replaced [of d1 d2]
        by (auto simp: commit_def Let_def)
    qed
  qed
qed

lemma committed_entries:
  assumes "prepare codec m f d = (Inr p, d1)"
    and "disk_entries d2 (prepared_temporary p) = disk_entries d1 (prepared_temporary p)"
    and "commit m p d2 = (Inr (), m', d3)"
  shows "m' = m\<lparr>manager_file := prepared_file p, persisted_bytes := prepared_bytes p\<rparr>"
    and "disk_entries d2 (manager_path m) = Some (RegularFile (persisted_bytes m))"
    and "disk_entries d3 = (disk_entries d2)(prepared_temporary p := None,
        manager_path m := Some (RegularFile (prepared_bytes p)))"
proof -
  note temporary = write_temporary_entries(2) [OF prepare_Inr(6) [OF assms(1)]]
  from assms(3) have "m' = m\<lparr>manager_file := prepared_file p, persisted_bytes := prepared_bytes p\<rparr> \<and>
      disk_entries d2 (manager_path m) = Some (RegularFile (persisted_bytes m)) \<and>
      disk_entries d3 = (disk_entries d2)(prepared_temporary p := None,
        manager_path m := Some (RegularFile (prepared_bytes p)))"
  proof (cases rule: commit_cases)
    case (replaced d4 d5)
    then show ?thesis using rename_entries(1) [OF replaced(6)] temporary assms(2) by simp
  qed simp
  then show "m' = m\<lparr>manager_file := prepared_file p, persisted_bytes := prepared_bytes p\<rparr>"
    "disk_entries d2 (manager_path m) = Some (RegularFile (persisted_bytes m))"
    "disk_entries d3 = (disk_entries d2)(prepared_temporary p := None,
        manager_path m := Some (RegularFile (prepared_bytes p)))" by blast+
qed

text \<open>Claim C24 (a commit never overwrites a change made by somebody else). Between preparing an edit and
  committing it, other programs may do to the disk whatever they like except touch the temporary file. If the
  commit succeeds, the document was byte for byte what the manager last read or wrote, it now is the rendering of
  the new file, and the manager holds exactly that. If it fails, the document and the manager are as before. No other
  path changes, apart from the temporary file.\<close>

theorem commit_never_overwrites_a_foreign_change:
  assumes "prepare_edit codec m expected e d = (Inr p, d1)"
    and "disk_entries d2 (prepared_temporary p) = disk_entries d1 (prepared_temporary p)"
    and "commit m p d2 = (r, m', d3)"
  shows "(r = Inr () \<longrightarrow>
      disk_entries d2 (manager_path m) = Some (RegularFile (persisted_bytes m)) \<and>
      disk_entries d3 (manager_path m) = Some (RegularFile (persisted_bytes m')) \<and>
      render_shortcut_file codec (manager_file m') = Inr (persisted_bytes m') \<and>
      manager_file m' = prepared_file p \<and> manager_path m' = manager_path m) \<and>
    (r \<noteq> Inr () \<longrightarrow> m' = m \<and> disk_entries d3 (manager_path m) = disk_entries d2 (manager_path m)) \<and>
    (\<forall>q. q = manager_path m \<or> q = prepared_temporary p \<or> disk_entries d3 q = disk_entries d2 q)"
proof -
  obtain f where p: "prepare codec m f d = (Inr p, d1)"
    using prepare_edit_Inr [OF assms(1)] by blast
  note temporary = write_temporary_entries [OF prepare_Inr(6) [OF p]]
  show ?thesis
  proof (cases r)
    case (Inl err)
    have m: "m' = m" using assms(3) by (cases rule: commit_cases) (simp_all add: Inl)
    have "disk_entries d3 q = disk_entries d2 q" if "q \<noteq> prepared_temporary p" for q
      using assms(3) by (cases rule: commit_cases) (simp_all add: Inl remove_file_entries [OF that])
    then show ?thesis using m Inl temporary(3) by (metis Inl_Inr_False)
  next
    case (Inr u)
    then have "commit m p d2 = (Inr (), m', d3)" using assms(3) by simp
    from committed_entries [OF p assms(2) this] show ?thesis
      using prepare_Inr(3) [OF p] Inr by simp
  qed
qed

text \<open>The example store, edited and committed.\<close>

lemma sample_edit:
  obtains p d1 where "prepare_edit (constant_codec g) sample_manager 1 RestoreShortcuts sample_disk = (Inr p, d1)"
    and "faultless d1" and "disk_entries d1 sample_path = Some (RegularFile (persisted_bytes sample_manager))"
    and "disk_entries d1 (prepared_temporary p) \<noteq> None" and "prepared_target p = sample_path"
proof -
  obtain f where f: "edited_file sample_manager 1 RestoreShortcuts = Inr f"
    and ok: "bindings_ok (file_shortcuts f)"
    using default_file_ok by (auto simp: edited_file_def check_revision_def sample_manager_def sample_file_def file_ok_def)
  have "\<exists>p d'. prepare (constant_codec g) sample_manager f sample_disk = (Inr p, d')"
    using prepare_succeeds [OF sample_disk_faultless, of sample_manager f "constant_codec g"] sample_free ok
    by (simp add: plain_render sample_manager_def sample_file_def)
  then obtain p d1 where p: "prepare (constant_codec g) sample_manager f sample_disk = (Inr p, d1)" by blast
  have w: "write_temporary sample_path (prepared_bytes p) sample_disk = (Inr (prepared_temporary p), d1)"
    and target: "prepared_target p = sample_path"
    using prepare_Inr(5,6) [OF p] by (simp_all add: sample_manager_def)
  note entries = write_temporary_entries [OF w]
  have "faultless d1" using faultless_write_temporary [OF sample_disk_faultless sample_free, of "prepared_bytes p"] w
    by simp
  then show thesis
    using that [of p d1] f p entries target
    by (simp add: prepare_edit_eq io_bind_def) (simp add: sample_disk_def sample_manager_def)
qed

lemma faultless_commit:
  assumes "faultless d" and "prepared_target p = manager_path m"
    and "disk_entries d (manager_path m) = Some (RegularFile (persisted_bytes m))"
    and "length (persisted_bytes m) \<le> MAX_SHORTCUT_FILE_BYTES" and "disk_entries d (prepared_temporary p) \<noteq> None"
  shows "\<exists>d'. commit m p d = (Inr (), m\<lparr>manager_file := prepared_file p, persisted_bytes := prepared_bytes p\<rparr>, d')"
proof -
  obtain d1 where d1: "read_shortcut_bytes (manager_path m) d = (Inr (persisted_bytes m), d1)" "faultless d1"
    "disk_entries d1 = disk_entries d" using faultless_read [OF assms(1,3,4)] by blast
  then have "\<exists>d2. fs_rename (prepared_temporary p) (manager_path m) d1 = (Inr (), d2)"
    using assms(5) by (auto simp: fs_rename_def faultless_bind_call)
  then show ?thesis using assms(2) d1(1) by (auto simp: commit_def Let_def)
qed

lemma faultless_commit_disk:
  assumes "faultless d" and "commit m p d = (Inr (), m', d')"
  shows "faultless d'"
proof -
  have "disk_faults d' = disk_faults d"
    using assms(2)
    by (auto simp: commit_def Let_def read_shortcut_bytes_def symlink_metadata_def fs_rename_def sync_parent_def
        io_bind_def io_call_def split: prod.splits sum.splits metadata.splits disk_entry.splits if_splits option.splits)
  then show ?thesis using assms(1) by (simp add: faultless_def)
qed

lemma sample_commit:
  assumes "faultless d" and "prepared_target p = sample_path"
    and "disk_entries d sample_path = Some (RegularFile (persisted_bytes sample_manager))"
    and "disk_entries d (prepared_temporary p) \<noteq> None"
  obtains m' d' where "commit sample_manager p d = (Inr (), m', d')"
  using faultless_commit [of d p sample_manager] assms
  by (auto simp: sample_manager_def MAX_SHORTCUT_FILE_BYTES_def)

theorem commit_never_overwrites_a_foreign_change_witness:
  "\<exists>p d1 m' d3. prepare_edit plain_codec sample_manager 1 RestoreShortcuts sample_disk = (Inr p, d1) \<and>
    commit sample_manager p d1 = (Inr (), m', d3) \<and> manager_file m' = prepared_file p \<and>
    disk_entries d3 sample_path = Some (RegularFile (persisted_bytes m'))"
proof -
  obtain p d1 where p: "prepare_edit plain_codec sample_manager 1 RestoreShortcuts sample_disk = (Inr p, d1)"
    "faultless d1" "disk_entries d1 sample_path = Some (RegularFile (persisted_bytes sample_manager))"
    "disk_entries d1 (prepared_temporary p) \<noteq> None" "prepared_target p = sample_path" by (rule sample_edit)
  obtain m' d3 where c: "commit sample_manager p d1 = (Inr (), m', d3)"
    using sample_commit [OF p(2,5,3,4)] .
  have "manager_path sample_manager = sample_path" by (simp add: sample_manager_def)
  then show ?thesis using commit_never_overwrites_a_foreign_change [OF p(1) refl c] p(1) c by auto
qed

section \<open>What is in use\<close>

text \<open>The manager and the engine that the compositor runs: the engine is made of the loaded file, observes
  events, and is replaced when an edit has been applied. The disk may change in any way in between.\<close>

inductive shortcuts_in_use :: "json_codec \<Rightarrow> shortcut_manager \<Rightarrow> shortcut_error + shortcut_engine \<Rightarrow> bool"
  for codec where
  loaded: "load_path codec path d = (Inr m, d') \<Longrightarrow> shortcuts_in_use codec m (manager_engine m)"
| observed: "shortcuts_in_use codec m (Inr engine) \<Longrightarrow> shortcuts_in_use codec m (Inr (engine_step engine event))"
| edited: "shortcuts_in_use codec m (Inr engine) \<Longrightarrow> prepare_edit codec m expected e d = (prepared, d1) \<Longrightarrow>
    apply_shortcut_update plugin_ids prepared m engine d2 = (result, m', engine', d3) \<Longrightarrow>
    shortcuts_in_use codec m' (Inr engine')"

lemma parse_document_ok:
  assumes "parse_document codec content = Inr (f, bytes, migration)"
  shows "file_ok f" and "list_all (\<lambda>b. canonical_form b = b) (file_shortcuts f)"
proof -
  obtain f0 cs where "normalize_and_compile_shortcuts f0 = Inr (f, cs)"
    using assms by (auto simp: parse_document_def res_simps case_prod_unfold)
  then show "file_ok f" "list_all (\<lambda>b. canonical_form b = b) (file_shortcuts f)" using normalized_ok by blast+
qed

lemma read_and_parse_ok:
  assumes "read_and_parse codec p d = (Inr (f, bytes, migration), d')"
  shows "file_ok f" and "list_all (\<lambda>b. canonical_form b = b) (file_shortcuts f)"
  using assms parse_document_ok by (auto simp: read_and_parse_def res_simps)

lemma load_document_ok:
  assumes "load_document codec p d = (Inr (f, bytes, migration), d')"
  shows "file_ok f \<and> list_all (\<lambda>b. canonical_form b = b) (file_shortcuts f)"
  using assms read_and_parse_ok [of codec p]
  by (auto simp: load_document_def res_simps split: prod.splits metadata.splits sum.splits)

lemma load_path_ok:
  assumes "load_path codec p d = (Inr m, d')"
  shows "manager_ok m"
  using assms load_document_ok by (fastforce simp: load_path_def res_simps manager_ok_def)

text \<open>A file that is ready to be written is loaded again as it is.\<close>

lemma canonical_parse:
  assumes "from_slice codec content = Inr v" and "remove_retired_shortcut_actions v = (v, 0)"
    and "from_value codec v = Inr f" and "file_ok f" and "list_all (\<lambda>b. canonical_form b = b) (file_shortcuts f)"
  shows "parse_document codec content = Inr (f, content, None)"
proof -
  have "map canonical_form (file_shortcuts f) = file_shortcuts f"
    using assms(5) by (simp add: list_all_iff map_idI)
  then have "normalize_and_compile_shortcuts f = Inr (f, map compiled (file_shortcuts f))"
    using assms(4) by (simp add: normalize_iff)
  moreover have "migrate_shortcut_file f = Inr (f, None)"
    using assms(4) by (simp add: migrate_shortcut_file_def migration_additions_def file_ok_def)
  ultimately show ?thesis using assms(1-3) by (simp add: parse_document_def json_result_def merge_removed_def)
qed

lemma faultless_load:
  assumes "faultless d" and "disk_entries d p = Some (RegularFile content)"
    and "length content \<le> MAX_SHORTCUT_FILE_BYTES" and "parse_document codec content = Inr (f, content, None)"
  shows "\<exists>d'. load_path codec p d = (Inr \<lparr>manager_path = p, manager_file = f, persisted_bytes = content\<rparr>, d') \<and>
    disk_entries d' = disk_entries d"
proof -
  let ?d = "d\<lparr>disk_calls := disk_calls d + 1\<rparr>"
  have meta: "symlink_metadata p d = (Found (RegularFile content), ?d)"
    using assms(1,2) by (simp add: symlink_metadata_def)
  obtain d' where read: "read_shortcut_bytes p ?d = (Inr content, d')" "disk_entries d' = disk_entries d"
    using faultless_read [of ?d p content] assms(1-3) by auto
  then have "read_and_parse codec p ?d = (Inr (f, content, None), d')"
    using assms(4) by (simp add: read_and_parse_def io_bind_def)
  then have "load_document codec p d = (Inr (f, content, None), d')"
    using meta by (simp add: load_document_def)
  then show ?thesis using read(2) by (simp add: load_path_def io_bind_def)
qed

lemma from_file_ok:
  "file_ok f \<Longrightarrow> \<exists>engine. from_file f = Inr engine \<and> engine_bindings engine = map compiled (file_shortcuts f)"
  by (simp add: from_file_def compile_shortcuts_iff [THEN iffD2])

lemma applied_update:
  assumes "prepare_edit codec m expected e d = (prepared, d1)"
    and "apply_shortcut_update plugin_ids prepared m engine d2 = (result, m', engine', d3)"
  shows "m' = m \<and> engine' = engine \<or> manager_ok m' \<and>
    engine_bindings engine' = map compiled (file_shortcuts (manager_file m'))"
proof (cases prepared)
  case (Inl err)
  then show ?thesis using assms(2) by (simp add: apply_shortcut_update_def)
next
  case (Inr p)
  obtain f where p: "prepare codec m f d = (Inr p, d1)"
    using prepare_edit_Inr [of codec m expected e d p d1] assms(1) Inr by blast
  obtain r m1 d4 where c: "commit m p d2 = (r, m1, d4)" by (metis prod_cases3)
  then have out: "m' = m1" "engine' = (case r of Inl _ \<Rightarrow> engine | Inr _ \<Rightarrow> set_plugin_actions plugin_ids (prepared_engine p))"
    using assms(2) Inr by (auto simp: apply_shortcut_update_def)
  from c show ?thesis
  proof (cases rule: commit_cases)
    case refused
    then show ?thesis using out by simp
  next
    case replaced
    then show ?thesis using out prepared_ok [OF p] from_file_bindings(2) [OF prepare_Inr(4) [OF p]]
      by (simp add: set_plugin_actions_def)
  qed
qed

text \<open>Claim C23 (the shortcuts in use are the shortcuts of the file). From the start of the compositor,
  through every event that the engine observes and every edit, applied or refused, with whatever happens to
  the disk in between: the file in memory has the current version, a positive revision, at most 256
  bindings, only valid targets, only canonical texts and no trigger twice; building its engine never panics;
  and the engine in use is compiled of exactly this file.\<close>

theorem shortcuts_in_use_are_the_files:
  assumes "shortcuts_in_use codec m engine"
  shows "file_ok (manager_file m) \<and> list_all (\<lambda>b. canonical_form b = b) (file_shortcuts (manager_file m)) \<and>
    (\<exists>e0 e. manager_engine m = Inr e0 \<and> engine = Inr e \<and> engine_bindings e = engine_bindings e0 \<and>
      engine_bindings e = map compiled (file_shortcuts (manager_file m)))"
proof -
  have "manager_ok m \<and> (\<exists>e. engine = Inr e \<and> engine_bindings e = map compiled (file_shortcuts (manager_file m)))"
    using assms
  proof (induction rule: shortcuts_in_use.induct)
    case (loaded path d m d')
    then show ?case using load_path_ok from_file_ok [of "manager_file m"]
      by (auto simp: manager_engine_def manager_ok_def)
  next
    case (edited m engine expected e d prepared d1 plugin_ids d2 result m' engine' d3)
    then show ?case using applied_update [OF edited(2,3)] by auto
  qed simp
  then show ?thesis using from_file_ok [of "manager_file m"] by (auto simp: manager_engine_def manager_ok_def)
qed

lemma sample_load: "\<exists>d'. load_path plain_codec sample_path sample_disk = (Inr sample_manager, d')"
proof -
  have "parse_document plain_codec (persisted_bytes sample_manager) =
      Inr (sample_file, persisted_bytes sample_manager, None)"
    using sample_manager_ok
    by (intro canonical_parse [of _ _ JsonNull])
       (simp_all add: constant_codec_def remove_retired_shortcut_actions_def manager_ok_def sample_manager_def)
  then show ?thesis
    using faultless_load [OF sample_disk_faultless, of sample_path "persisted_bytes sample_manager" plain_codec sample_file]
    by (auto simp: sample_disk_def sample_manager_def MAX_SHORTCUT_FILE_BYTES_def)
qed

theorem shortcuts_in_use_are_the_files_witness:
  "\<exists>m engine. shortcuts_in_use plain_codec m (Inr engine) \<and> m = sample_manager \<and>
    engine_bindings engine = map compiled (file_shortcuts sample_file)"
proof -
  have start: "shortcuts_in_use plain_codec sample_manager (manager_engine sample_manager)"
    using sample_load shortcuts_in_use.loaded by blast
  from shortcuts_in_use_are_the_files [OF this] obtain e where
    "manager_engine sample_manager = Inr e" "engine_bindings e = map compiled (file_shortcuts (manager_file sample_manager))"
    by auto
  then show ?thesis using start by (auto simp: sample_manager_def)
qed

section \<open>After a restart\<close>

text \<open>The text that the codec writes for a file is read as that file, and it has no retired action, which no
  file can express.\<close>

definition codec_restores :: "json_codec \<Rightarrow> shortcut_file \<Rightarrow> bool" where
  "codec_restores codec f = (\<forall>content. to_vec_pretty codec f = Inr content \<longrightarrow>
     (\<exists>v. from_slice codec (content @ [char_of (10 :: nat)]) = Inr v \<and>
       remove_retired_shortcut_actions v = (v, 0) \<and> from_value codec v = Inr f))"



end
