(* ===== verification/Workspace_State.thy ===== *)
theory Workspace_State
  imports Shortcut_Engine "HOL-Library.AList"
begin

text \<open>
  The virtual workspaces of each monitor (\<open>wayland_frontend/workspace.rs\<close>): which workspace an output shows,
  to which output and workspace each window belongs, where a minimized window came from and which window of a
  workspace had the focus last; with the operations of \<open>window_state.rs\<close> that minimize, restore and remove
  a window, and the requests of the shortcuts that switch the workspace (\<open>wayland_frontend/input.rs\<close>).

  The active workspaces and the registry of windows are maps. The history of focus is a hash map whose
  entries are enumerated when outputs disappear; it is an association list in an arbitrary order. Of a window
  record only the fields that concern workspaces are kept. A workspace number is a \<open>u8\<close>; all of them lie
  between 1 and the number of workspaces, which the theorems show.

  The theory shows that every window stays on a workspace that exists on a connected output, that a hotplug
  moves only the windows of outputs that are gone, and that the requests for the next and the previous
  workspace walk round the workspaces and are never declined while workspaces are enabled.
\<close>

section \<open>State\<close>

type_synonym output_id = nat
type_synonym window_id = nat

record workspace_location =
  location_output :: output_id
  location_workspace :: nat

record window_record =
  rec_minimized :: bool
  rec_workspace :: "workspace_location option"
  rec_minimized_output :: "output_id option"

record workspace_state =
  ws_outputs :: "output_id list"
  ws_ticker :: "output_id option"
  ws_enabled :: bool
  ws_count :: nat
  ws_active :: "output_id \<rightharpoonup> nat"
  ws_focus :: "((output_id \<times> nat) \<times> window_id) list"
  ws_windows :: "window_id \<rightharpoonup> window_record"

definition default_record :: window_record where
  "default_record = \<lparr>rec_minimized = False, rec_workspace = None, rec_minimized_output = None\<rparr>"

definition ensure :: "workspace_state \<Rightarrow> window_id \<Rightarrow> window_record" where
  "ensure s w = (case ws_windows s w of None \<Rightarrow> default_record | Some r \<Rightarrow> r)"

definition put_record :: "window_id \<Rightarrow> window_record \<Rightarrow> workspace_state \<Rightarrow> workspace_state" where
  "put_record w r s = s\<lparr>ws_windows := (ws_windows s)(w \<mapsto> r)\<rparr>"

definition forget_focus :: "window_id \<Rightarrow> workspace_state \<Rightarrow> workspace_state" where
  "forget_focus w s = s\<lparr>ws_focus := filter (\<lambda>(_, focused). focused \<noteq> w) (ws_focus s)\<rparr>"

definition output_of_monitor :: "int \<Rightarrow> output_id option" where
  "output_of_monitor monitor = (if 0 \<le> monitor then Some (nat monitor) else None)"

section \<open>Operations\<close>

definition active_workspace :: "workspace_state \<Rightarrow> output_id \<Rightarrow> nat" where
  "active_workspace s out = (case ws_active s out of None \<Rightarrow> 1 | Some a \<Rightarrow> a)"

definition active_workspace_for_monitor :: "workspace_state \<Rightarrow> int \<Rightarrow> nat option" where
  "active_workspace_for_monitor s monitor = (case output_of_monitor monitor of
       None \<Rightarrow> None
     | Some out \<Rightarrow> if out \<in> set (ws_outputs s) then Some (active_workspace s out) else None)"

definition workspace_location_of :: "workspace_state \<Rightarrow> window_id \<Rightarrow> workspace_location option" where
  "workspace_location_of s w = Option.bind (ws_windows s w) rec_workspace"

definition reconcile_workspace_assignment ::
    "window_id \<Rightarrow> output_id \<Rightarrow> bool \<Rightarrow> workspace_state \<Rightarrow> workspace_state \<times> workspace_location option" where
  "reconcile_workspace_assignment w out minimized s =
    (if out \<notin> set (ws_outputs s) then (s, None)
     else
       let fresh = \<lparr>location_output = out, location_workspace = active_workspace s out\<rparr>;
           r = ensure s w
       in if minimized then
            let preferred = (case rec_workspace r of None \<Rightarrow> out | Some l \<Rightarrow> location_output l)
            in (put_record w (r\<lparr>rec_workspace := None, rec_minimized_output :=
                  Some (case rec_minimized_output r of None \<Rightarrow> preferred | Some m \<Rightarrow> m)\<rparr>) s, None)
          else
            let l = (case rec_workspace r of None \<Rightarrow> fresh
                     | Some l \<Rightarrow> if location_output l \<noteq> out then fresh else l)
            in (put_record w (r\<lparr>rec_workspace := Some l, rec_minimized_output := None\<rparr>) s, Some l))"

definition mark_window_minimized :: "window_id \<Rightarrow> output_id \<Rightarrow> workspace_state \<Rightarrow> workspace_state" where
  "mark_window_minimized w fallback s =
    (let r = ensure s w;
         preferred = (case rec_workspace r of None \<Rightarrow> fallback | Some l \<Rightarrow> location_output l)
     in put_record w (r\<lparr>rec_workspace := None, rec_minimized_output := Some preferred\<rparr>) (forget_focus w s))"

text \<open>\<open>ticker_output\<close> or else the first output.\<close>

definition default_output :: "workspace_state \<Rightarrow> output_id option" where
  "default_output s = option_or (ws_ticker s) (case ws_outputs s of [] \<Rightarrow> None | out # _ \<Rightarrow> Some out)"

definition restore_window_workspace ::
    "window_id \<Rightarrow> workspace_state \<Rightarrow> workspace_state \<times> workspace_location option" where
  "restore_window_workspace w s = (case workspace_location_of s w of
       Some l \<Rightarrow> (put_record w ((ensure s w)\<lparr>rec_minimized_output := None\<rparr>) s, Some l)
     | None \<Rightarrow>
         let remembered = Option.bind (ws_windows s w) rec_minimized_output;
             s = (if ws_windows s w = None then s
                  else put_record w ((ensure s w)\<lparr>rec_minimized_output := None\<rparr>) s);
             remembered = (case remembered of None \<Rightarrow> None
                | Some out \<Rightarrow> if out \<in> set (ws_outputs s) then Some out else None)
         in case option_or remembered (default_output s) of
              None \<Rightarrow> (s, None)
            | Some out \<Rightarrow>
                let l = \<lparr>location_output = out, location_workspace = active_workspace s out\<rparr>
                in (put_record w ((ensure s w)\<lparr>rec_workspace := Some l\<rparr>) s, Some l))"

definition record_workspace_focus :: "window_id \<Rightarrow> workspace_state \<Rightarrow> workspace_state" where
  "record_workspace_focus w s = (case workspace_location_of s w of
       None \<Rightarrow> s
     | Some l \<Rightarrow> s\<lparr>ws_focus := AList.update (location_output l, location_workspace l) w (ws_focus s)\<rparr>)"

definition remembered_workspace_focus :: "workspace_state \<Rightarrow> int \<Rightarrow> nat \<Rightarrow> window_id option" where
  "remembered_workspace_focus s monitor workspace =
     Option.bind (output_of_monitor monitor) (\<lambda>out. map_of (ws_focus s) (out, workspace))"

definition window_is_on_active_workspace :: "workspace_state \<Rightarrow> window_id \<Rightarrow> bool" where
  "window_is_on_active_workspace s w = (ws_enabled s \<longrightarrow>
     (case workspace_location_of s w of None \<Rightarrow> False
      | Some l \<Rightarrow> location_workspace l = active_workspace s (location_output l)))"

text \<open>The entry of the output is created even where the switch is refused.\<close>

definition switch_workspace :: "int \<Rightarrow> nat \<Rightarrow> workspace_state \<Rightarrow> workspace_state \<times> bool" where
  "switch_workspace monitor workspace s =
    (if \<not> ws_enabled s \<or> workspace < 1 \<or> ws_count s < workspace then (s, False)
     else case output_of_monitor monitor of
       None \<Rightarrow> (s, False)
     | Some out \<Rightarrow>
         if out \<notin> set (ws_outputs s) then (s, False)
         else if active_workspace s out = workspace then (s\<lparr>ws_active := (ws_active s)(out \<mapsto> workspace)\<rparr>, False)
         else (s\<lparr>ws_active := (ws_active s)(out \<mapsto> workspace)\<rparr>, True))"

text \<open>With no workspace at all the remainder would panic; \<open>workspace_ok\<close> below excludes it.\<close>

definition adjacent_workspace :: "workspace_state \<Rightarrow> int \<Rightarrow> int \<Rightarrow> nat option" where
  "adjacent_workspace s monitor delta =
    (if \<not> ws_enabled s \<or> ws_count s = 0 then None
     else case active_workspace_for_monitor s monitor of
       None \<Rightarrow> None
     | Some current \<Rightarrow> Some (nat ((int current - 1 + delta) mod int (ws_count s) + 1)))"

definition move_window_to_workspace ::
    "window_id \<Rightarrow> output_id option \<Rightarrow> nat \<Rightarrow> workspace_state \<Rightarrow> workspace_state \<times> workspace_location option" where
  "move_window_to_workspace w out workspace s =
    (if \<not> ws_enabled s \<or> workspace < 1 \<or> ws_count s < workspace then (s, None)
     else if (case out of None \<Rightarrow> False | Some out \<Rightarrow> out \<notin> set (ws_outputs s)) then (s, None)
     else let s = forget_focus w s in case workspace_location_of s w of
         None \<Rightarrow> (s, None)
       | Some l \<Rightarrow>
           let l = \<lparr>location_output = (case out of None \<Rightarrow> location_output l | Some out \<Rightarrow> out),
                    location_workspace = workspace\<rparr>
           in (put_record w ((ensure s w)\<lparr>rec_workspace := Some l\<rparr>) s, Some l))"

definition merged_workspace :: "bool \<Rightarrow> nat \<Rightarrow> nat \<Rightarrow> nat" where
  "merged_workspace enabled count workspace = (if enabled then min workspace count else 1)"

definition merge_location :: "(nat \<Rightarrow> nat) \<Rightarrow> window_record \<Rightarrow> window_record" where
  "merge_location f r = r\<lparr>rec_workspace := map_option (location_workspace_update f) (rec_workspace r)\<rparr>"

definition set_workspace_settings :: "bool \<Rightarrow> nat \<Rightarrow> workspace_state \<Rightarrow> workspace_state \<times> bool" where
  "set_workspace_settings enabled count s =
    (if ws_enabled s = enabled \<and> ws_count s = count then (s, False)
     else (s\<lparr>ws_enabled := enabled, ws_count := count,
        ws_active := (\<lambda>out. map_option (merged_workspace enabled count) (ws_active s out)),
        ws_windows := (\<lambda>w. map_option (merge_location (merged_workspace enabled count)) (ws_windows s w))\<rparr>, True))"

text \<open>The monitors are given by their \<open>i64\<close> identifiers; an identifier that does not fit is left out.\<close>

definition workspace_state_snapshot :: "workspace_state \<Rightarrow> (int \<times> nat) list" where
  "workspace_state_snapshot s =
     map (\<lambda>out. (int out, active_workspace s out)) (filter (\<lambda>out. out < 2 ^ 63) (ws_outputs s))"

fun insert_missing :: "('k \<times> 'v) list \<Rightarrow> ('k \<times> 'v) list \<Rightarrow> ('k \<times> 'v) list" where
  "insert_missing [] entries = entries"
| "insert_missing ((k, v) # new) entries =
     insert_missing new (if map_of entries k = None then entries @ [(k, v)] else entries)"

definition clamped_workspace :: "nat \<Rightarrow> nat \<Rightarrow> nat" where
  "clamped_workspace count workspace = max (min workspace count) 1"

definition migrate_record :: "output_id set \<Rightarrow> output_id \<Rightarrow> nat \<Rightarrow> window_record \<Rightarrow> window_record" where
  "migrate_record present fallback count r = r\<lparr>
     rec_workspace := map_option (\<lambda>l. \<lparr>location_output =
         (if location_output l \<in> present then location_output l else fallback),
         location_workspace = clamped_workspace count (location_workspace l)\<rparr>) (rec_workspace r),
     rec_minimized_output := map_option (\<lambda>out. if out \<in> present then out else fallback) (rec_minimized_output r)\<rparr>"

definition reconcile_workspace_outputs :: "workspace_state \<Rightarrow> workspace_state" where
  "reconcile_workspace_outputs s =
    (let present = set (ws_outputs s);
         fallback = option_or (case ws_ticker s of None \<Rightarrow> None | Some t \<Rightarrow> if t \<in> present then Some t else None)
           (case ws_outputs s of [] \<Rightarrow> None | out # _ \<Rightarrow> Some out);
         active = (\<lambda>out. if out \<in> present then Some (active_workspace s out) else None);
         migrated = map (\<lambda>((_, workspace), w). (workspace, w))
           (filter (\<lambda>((out, _), _). out \<notin> present) (ws_focus s));
         kept = filter (\<lambda>((out, _), _). out \<in> present) (ws_focus s)
     in case fallback of
          None \<Rightarrow> s\<lparr>ws_active := active, ws_focus := [], ws_windows := (\<lambda>w. map_option
            (\<lambda>r. r\<lparr>rec_workspace := None, rec_minimized_output := None\<rparr>) (ws_windows s w))\<rparr>
        | Some out \<Rightarrow> s\<lparr>ws_active := active,
            ws_focus := insert_missing (map (\<lambda>(workspace, w). ((out, clamped_workspace (ws_count s) workspace), w))
              migrated) kept,
            ws_windows := (\<lambda>w. map_option (migrate_record present out (ws_count s)) (ws_windows s w))\<rparr>)"

section \<open>The callers\<close>

text \<open>\<open>set_surface_minimized\<close> and \<open>set_local_flutter_window_minimized\<close>: the argument is the output under the
  window, if there is one.\<close>

definition set_minimized :: "window_id \<Rightarrow> output_id option \<Rightarrow> bool \<Rightarrow> workspace_state \<Rightarrow> workspace_state \<times> bool" where
  "set_minimized w here minimized s =
    (let r = ensure s w; changed = (rec_minimized r \<noteq> minimized);
         s = put_record w (r\<lparr>rec_minimized := minimized\<rparr>) s
     in if \<not> changed then (s, False)
        else if minimized then (case option_or here (default_output s) of
            None \<Rightarrow> s | Some fallback \<Rightarrow> mark_window_minimized w fallback s, True)
        else (fst (restore_window_workspace w s), True))"

definition remove_window :: "window_id \<Rightarrow> workspace_state \<Rightarrow> workspace_state" where
  "remove_window w s = forget_focus w (s\<lparr>ws_windows := (ws_windows s)(w := None)\<rparr>)"

text \<open>A new topology: the outputs are sorted by their identifiers.\<close>

definition change_outputs :: "output_id list \<Rightarrow> output_id option \<Rightarrow> workspace_state \<Rightarrow> workspace_state" where
  "change_outputs outs ticker s = reconcile_workspace_outputs (s\<lparr>ws_outputs := sort outs, ws_ticker := ticker\<rparr>)"

text \<open>The requests of the shortcuts, for the monitor that \<open>prepare_shell_overlay_action\<close> chose.\<close>

definition request_workspace ::
    "shortcut_disposition \<Rightarrow> int option \<Rightarrow> workspace_state \<Rightarrow> workspace_state \<times> bool" where
  "request_workspace d monitor s = (case monitor of
       None \<Rightarrow> (s, False)
     | Some monitor \<Rightarrow> (case d of
         RequestSwitchWorkspace workspace \<Rightarrow> switch_workspace monitor (unat workspace) s
       | RequestPreviousWorkspace \<Rightarrow> (case adjacent_workspace s monitor (- 1) of
           None \<Rightarrow> (s, False) | Some target \<Rightarrow> switch_workspace monitor target s)
       | RequestNextWorkspace \<Rightarrow> (case adjacent_workspace s monitor 1 of
           None \<Rightarrow> (s, False) | Some target \<Rightarrow> switch_workspace monitor target s)
       | _ \<Rightarrow> (s, False)))"

definition MIN_WORKSPACE_COUNT :: nat where "MIN_WORKSPACE_COUNT = 2"
definition MAX_WORKSPACE_COUNT :: nat where "MAX_WORKSPACE_COUNT = 9"
definition DEFAULT_WORKSPACE_COUNT :: nat where "DEFAULT_WORKSPACE_COUNT = 4"

definition workspaces_new :: "output_id list \<Rightarrow> output_id option \<Rightarrow> bool \<Rightarrow> nat \<Rightarrow> workspace_state" where
  "workspaces_new outs ticker enabled count = \<lparr>ws_outputs = outs, ws_ticker = ticker, ws_enabled = enabled,
     ws_count = count, ws_active = (\<lambda>out. if out \<in> set outs then Some 1 else None), ws_focus = [],
     ws_windows = Map.empty\<rparr>"

section \<open>Runs\<close>

datatype workspace_event =
    Assigned window_id output_id bool
  | Minimized window_id "output_id option" bool
  | Restored window_id
  | Focused window_id
  | Switched int nat
  | Moved window_id "output_id option" nat
  | SettingsChanged bool nat
  | OutputsChanged "output_id list" "output_id option"
  | Removed window_id
  | Requested shortcut_disposition "int option"

fun workspace_step :: "workspace_state \<Rightarrow> workspace_event \<Rightarrow> workspace_state" where
  "workspace_step s (Assigned w out minimized) = fst (reconcile_workspace_assignment w out minimized s)"
| "workspace_step s (Minimized w here minimized) = fst (set_minimized w here minimized s)"
| "workspace_step s (Restored w) = fst (restore_window_workspace w s)"
| "workspace_step s (Focused w) = record_workspace_focus w s"
| "workspace_step s (Switched monitor workspace) = fst (switch_workspace monitor workspace s)"
| "workspace_step s (Moved w out workspace) = fst (move_window_to_workspace w out workspace s)"
| "workspace_step s (SettingsChanged enabled count) = fst (set_workspace_settings enabled count s)"
| "workspace_step s (OutputsChanged outs ticker) = change_outputs outs ticker s"
| "workspace_step s (Removed w) = remove_window w s"
| "workspace_step s (Requested d monitor) = fst (request_workspace d monitor s)"

text \<open>What the callers guarantee: the ticker is one of the outputs, the output under a window is
  connected, and the settings have been parsed.\<close>

definition count_valid :: "nat \<Rightarrow> bool" where
  "count_valid count = (MIN_WORKSPACE_COUNT \<le> count \<and> count \<le> MAX_WORKSPACE_COUNT)"

definition ticker_valid :: "output_id list \<Rightarrow> output_id option \<Rightarrow> bool" where
  "ticker_valid outs ticker = (case ticker of None \<Rightarrow> outs = [] | Some t \<Rightarrow> t \<in> set outs)"

fun workspace_event_ok :: "workspace_state \<Rightarrow> workspace_event \<Rightarrow> bool" where
  "workspace_event_ok s (Minimized w here minimized) = (case here of None \<Rightarrow> True | Some out \<Rightarrow> out \<in> set (ws_outputs s))"
| "workspace_event_ok s (SettingsChanged enabled count) = count_valid count"
| "workspace_event_ok s (OutputsChanged outs ticker) = ticker_valid outs ticker"
| "workspace_event_ok s _ = True"

inductive workspace_reachable :: "workspace_state \<Rightarrow> bool" where
  start: "ticker_valid outs ticker \<Longrightarrow> count_valid count \<Longrightarrow> workspace_reachable (workspaces_new outs ticker enabled count)"
| step: "workspace_reachable s \<Longrightarrow> workspace_event_ok s event \<Longrightarrow> workspace_reachable (workspace_step s event)"

section \<open>Every window is on a workspace that exists\<close>

definition workspace_valid :: "bool \<Rightarrow> nat \<Rightarrow> nat \<Rightarrow> bool" where
  "workspace_valid enabled count workspace = (1 \<le> workspace \<and> workspace \<le> count \<and> (enabled \<or> workspace = 1))"

definition record_ok :: "output_id set \<Rightarrow> bool \<Rightarrow> nat \<Rightarrow> window_record \<Rightarrow> bool" where
  "record_ok present enabled count r =
    ((case rec_workspace r of None \<Rightarrow> True | Some l \<Rightarrow> location_output l \<in> present \<and>
        workspace_valid enabled count (location_workspace l) \<and> rec_minimized_output r = None) \<and>
     (case rec_minimized_output r of None \<Rightarrow> True | Some out \<Rightarrow> out \<in> present))"

definition records_ok :: "workspace_state \<Rightarrow> bool" where
  "records_ok s = (\<forall>w r. ws_windows s w = Some r \<longrightarrow> record_ok (set (ws_outputs s)) (ws_enabled s) (ws_count s) r)"

definition actives_ok :: "workspace_state \<Rightarrow> bool" where
  "actives_ok s = (dom (ws_active s) = set (ws_outputs s) \<and>
     (\<forall>out a. ws_active s out = Some a \<longrightarrow> workspace_valid (ws_enabled s) (ws_count s) a))"

definition focus_ok :: "workspace_state \<Rightarrow> bool" where
  "focus_ok s = (\<forall>((out, workspace), w) \<in> set (ws_focus s). out \<in> set (ws_outputs s) \<and> w \<in> dom (ws_windows s))"

definition workspace_ok :: "workspace_state \<Rightarrow> bool" where
  "workspace_ok s = (count_valid (ws_count s) \<and> ticker_valid (ws_outputs s) (ws_ticker s) \<and>
     actives_ok s \<and> records_ok s \<and> focus_ok s)"

lemmas workspace_ok_defs = workspace_ok_def actives_ok_def records_ok_def focus_ok_def

lemma put_record_fields [simp]:
  "ws_outputs (put_record w r s) = ws_outputs s" "ws_ticker (put_record w r s) = ws_ticker s"
  "ws_enabled (put_record w r s) = ws_enabled s" "ws_count (put_record w r s) = ws_count s"
  "ws_active (put_record w r s) = ws_active s" "ws_focus (put_record w r s) = ws_focus s"
  "ws_windows (put_record w r s) = (ws_windows s)(w \<mapsto> r)"
  by (simp_all add: put_record_def)

lemma forget_focus_fields [simp]:
  "ws_outputs (forget_focus w s) = ws_outputs s" "ws_ticker (forget_focus w s) = ws_ticker s"
  "ws_enabled (forget_focus w s) = ws_enabled s" "ws_count (forget_focus w s) = ws_count s"
  "ws_active (forget_focus w s) = ws_active s" "ws_windows (forget_focus w s) = ws_windows s"
  by (simp_all add: forget_focus_def)

lemma forget_focus_set: "set (ws_focus (forget_focus w s)) = {entry \<in> set (ws_focus s). snd entry \<noteq> w}"
  by (auto simp: forget_focus_def)

text \<open>Changing one record keeps the invariant if the new record is in order.\<close>

lemma put_record_ok:
  assumes "workspace_ok s" and "record_ok (set (ws_outputs s)) (ws_enabled s) (ws_count s) r"
  shows "workspace_ok (put_record w r s)"
  using assms by (auto simp: workspace_ok_defs)

lemma forget_focus_ok: "workspace_ok s \<Longrightarrow> workspace_ok (forget_focus w s)"
  by (auto simp: workspace_ok_defs forget_focus_set)

lemma default_record_ok [simp]: "record_ok present enabled count default_record"
  by (simp add: record_ok_def default_record_def)

lemma record_ok_minimized [simp]:
  "record_ok present enabled count (r\<lparr>rec_minimized := minimized\<rparr>) = record_ok present enabled count r"
  by (simp add: record_ok_def split: option.splits)

lemma located:
  assumes "workspace_ok s" and "workspace_location_of s w = Some l"
  shows "location_output l \<in> set (ws_outputs s)" and "workspace_valid (ws_enabled s) (ws_count s) (location_workspace l)"
    and "w \<in> dom (ws_windows s)"
proof -
  obtain r where r: "ws_windows s w = Some r" "rec_workspace r = Some l"
    using assms(2) by (auto simp: workspace_location_of_def bind_eq_Some_conv)
  then have "record_ok (set (ws_outputs s)) (ws_enabled s) (ws_count s) r"
    using assms(1) by (simp add: workspace_ok_def records_ok_def)
  then show "location_output l \<in> set (ws_outputs s)" "workspace_valid (ws_enabled s) (ws_count s) (location_workspace l)"
    "w \<in> dom (ws_windows s)" using r by (auto simp: record_ok_def)
qed

lemma ensure_ok:
  "workspace_ok s \<Longrightarrow> record_ok (set (ws_outputs s)) (ws_enabled s) (ws_count s) (ensure s w)"
  by (auto simp: ensure_def workspace_ok_defs split: option.splits)

lemma active_valid:
  assumes "workspace_ok s"
  shows "workspace_valid (ws_enabled s) (ws_count s) (active_workspace s out)"
  using assms by (auto simp: active_workspace_def workspace_ok_defs workspace_valid_def count_valid_def
      MIN_WORKSPACE_COUNT_def split: option.splits)

lemma default_output_present:
  "workspace_ok s \<Longrightarrow> default_output s = Some out \<Longrightarrow> out \<in> set (ws_outputs s)"
  by (cases "ws_ticker s")
     (auto simp: default_output_def workspace_ok_def ticker_valid_def split: list.splits)

lemma assignment_ok:
  assumes "workspace_ok s"
  shows "workspace_ok (fst (reconcile_workspace_assignment w out minimized s))"
  using assms ensure_ok [OF assms, of w] active_valid [OF assms, of out]
  by (auto simp: reconcile_workspace_assignment_def Let_def record_ok_def intro!: put_record_ok split: option.splits)

lemma mark_ok:
  assumes "workspace_ok s" and "fallback \<in> set (ws_outputs s)"
  shows "workspace_ok (mark_window_minimized w fallback s)"
  using assms ensure_ok [OF assms(1), of w]
  by (auto simp: mark_window_minimized_def Let_def record_ok_def intro!: put_record_ok forget_focus_ok split: option.splits)

lemma restore_ok:
  assumes "workspace_ok s"
  shows "workspace_ok (fst (restore_window_workspace w s))"
proof (cases "workspace_location_of s w")
  case (Some l)
  then show ?thesis using assms ensure_ok [OF assms, of w]
    by (auto simp: restore_window_workspace_def record_ok_def intro!: put_record_ok split: option.splits)
next
  case None
  let ?s = "if ws_windows s w = None then s else put_record w ((ensure s w)\<lparr>rec_minimized_output := None\<rparr>) s"
  have none: "rec_workspace (ensure s w) = None"
    using None by (auto simp: workspace_location_of_def ensure_def default_record_def split: option.splits)
  have s: "workspace_ok ?s" using assms none by (auto simp: record_ok_def intro!: put_record_ok)
  have min: "rec_minimized_output (ensure ?s w) = None" "rec_workspace (ensure ?s w) = None"
    using none by (auto simp: ensure_def default_record_def)
  have outs: "ws_outputs ?s = ws_outputs s" by simp
  show ?thesis
  proof (cases "fst (restore_window_workspace w s) = ?s")
    case True
    then show ?thesis using s by simp
  next
    case False
    then obtain out where out: "out \<in> set (ws_outputs ?s)"
      and eq: "fst (restore_window_workspace w s) = put_record w ((ensure ?s w)\<lparr>rec_workspace :=
        Some \<lparr>location_output = out, location_workspace = active_workspace ?s out\<rparr>\<rparr>) ?s"
      using None default_output_present [OF s]
      by (auto simp: restore_window_workspace_def Let_def split: option.splits if_splits)
    show ?thesis unfolding eq
      using out min active_valid [OF s, of out] by (intro put_record_ok [OF s]) (simp add: record_ok_def)
  qed
qed

lemma set_minimized_ok:
  assumes "workspace_ok s" and "workspace_event_ok s (Minimized w here minimized)"
  shows "workspace_ok (fst (set_minimized w here minimized s))"
proof -
  let ?s = "put_record w ((ensure s w)\<lparr>rec_minimized := minimized\<rparr>) s"
  have s: "workspace_ok ?s"
    using ensure_ok [OF assms(1), of w] by (intro put_record_ok [OF assms(1)]) simp
  have "fallback \<in> set (ws_outputs ?s)" if "option_or here (default_output ?s) = Some fallback" for fallback
    using that assms(2) default_output_present [OF s] by (cases here) auto
  then show ?thesis using s mark_ok [OF s] restore_ok [OF s]
    by (auto simp: set_minimized_def Let_def split: option.splits)
qed

lemma switch_ok:
  assumes "workspace_ok s"
  shows "workspace_ok (fst (switch_workspace monitor workspace s))"
  using assms by (auto simp: switch_workspace_def workspace_ok_defs workspace_valid_def split: option.splits)

lemma request_ok:
  assumes "workspace_ok s"
  shows "workspace_ok (fst (request_workspace d monitor s))"
  using assms switch_ok by (auto simp: request_workspace_def split: option.splits shortcut_disposition.splits)

lemma move_ok:
  assumes "workspace_ok s"
  shows "workspace_ok (fst (move_window_to_workspace w out workspace s))"
proof (cases "workspace_location_of s w")
  case None
  then show ?thesis using assms forget_focus_ok [OF assms, of w]
    by (auto simp: move_window_to_workspace_def workspace_location_of_def)
next
  case (Some l)
  then have l: "rec_workspace (ensure s w) = Some l"
    by (auto simp: workspace_location_of_def ensure_def bind_eq_Some_conv)
  have "ensure (forget_focus w s) w = ensure s w" "workspace_location_of (forget_focus w s) w = Some l"
    using Some by (simp_all add: ensure_def workspace_location_of_def)
  then show ?thesis using assms ensure_ok [OF assms, of w] l
    by (auto simp: move_window_to_workspace_def Let_def record_ok_def workspace_valid_def
        intro!: put_record_ok forget_focus_ok split: option.splits)
qed

lemma settings_ok:
  assumes "workspace_ok s" and "count_valid count"
  shows "workspace_ok (fst (set_workspace_settings enabled count s))"
proof -
  have valid: "workspace_valid enabled count (merged_workspace enabled count workspace)"
    if "workspace_valid (ws_enabled s) (ws_count s) workspace" for workspace
    using that assms(2) by (auto simp: workspace_valid_def merged_workspace_def count_valid_def MIN_WORKSPACE_COUNT_def)
  have "record_ok (set (ws_outputs s)) enabled count (merge_location (merged_workspace enabled count) r)"
    if "record_ok (set (ws_outputs s)) (ws_enabled s) (ws_count s) r" for r
    using that valid by (auto simp: record_ok_def merge_location_def split: option.splits)
  then show ?thesis using assms valid
    by (auto simp: set_workspace_settings_def workspace_ok_defs dom_map_option)
qed

lemma insert_missing_subset: "set (insert_missing new entries) \<subseteq> set new \<union> set entries"
  by (induction new entries rule: insert_missing.induct) (auto split: if_splits)

text \<open>A hotplug with at least one output left: the outputs that are gone hand over to the ticker.\<close>

lemma change_outputs_eq:
  assumes "workspace_ok s" and "ticker_valid outs (Some ticker)"
  shows "ws_active (change_outputs outs (Some ticker) s) =
      (\<lambda>out. if out \<in> set outs then Some (active_workspace s out) else None)"
    and "ws_windows (change_outputs outs (Some ticker) s) =
      (\<lambda>w. map_option (migrate_record (set outs) ticker (ws_count s)) (ws_windows s w))"
    and "set (ws_focus (change_outputs outs (Some ticker) s)) \<subseteq>
      {((out, workspace), w). out \<in> set outs \<and> w \<in> snd ` set (ws_focus s)}"
proof -
  let ?s = "s\<lparr>ws_outputs := sort outs, ws_ticker := Some ticker\<rparr>"
  have t: "ticker \<in> set outs" using assms(2) by (simp add: ticker_valid_def)
  have act: "active_workspace ?s = active_workspace s" by (simp add: fun_eq_iff active_workspace_def)
  show "ws_active (change_outputs outs (Some ticker) s) =
      (\<lambda>out. if out \<in> set outs then Some (active_workspace s out) else None)"
    and "ws_windows (change_outputs outs (Some ticker) s) =
      (\<lambda>w. map_option (migrate_record (set outs) ticker (ws_count s)) (ws_windows s w))"
    using t act by (auto simp: change_outputs_def reconcile_workspace_outputs_def Let_def fun_eq_iff)
  show "set (ws_focus (change_outputs outs (Some ticker) s)) \<subseteq>
      {((out, workspace), w). out \<in> set outs \<and> w \<in> snd ` set (ws_focus s)}"
    using t by (auto simp: change_outputs_def reconcile_workspace_outputs_def Let_def image_iff
        dest!: subsetD [OF insert_missing_subset]) force+
qed

lemma change_outputs_fields [simp]:
  "ws_outputs (change_outputs outs ticker s) = sort outs" "ws_ticker (change_outputs outs ticker s) = ticker"
  "ws_enabled (change_outputs outs ticker s) = ws_enabled s" "ws_count (change_outputs outs ticker s) = ws_count s"
  by (simp_all add: change_outputs_def reconcile_workspace_outputs_def Let_def split: option.splits)

lemma clamped_valid: "workspace_valid enabled count workspace \<Longrightarrow> clamped_workspace count workspace = workspace"
  by (auto simp: workspace_valid_def clamped_workspace_def)

lemma outputs_ok:
  assumes "workspace_ok s" and "ticker_valid outs ticker"
  shows "workspace_ok (change_outputs outs ticker s)"
proof (cases ticker)
  case None
  then have "outs = []" using assms(2) by (simp add: ticker_valid_def)
  then show ?thesis using assms(1) None
    by (auto simp: workspace_ok_defs change_outputs_def reconcile_workspace_outputs_def Let_def ticker_valid_def
        record_ok_def)
next
  case (Some t)
  note eqs = change_outputs_eq [OF assms(1) assms(2) [unfolded Some]]
  have t: "t \<in> set outs" using assms(2) Some by (simp add: ticker_valid_def)
  have "record_ok (set outs) (ws_enabled s) (ws_count s) (migrate_record (set outs) t (ws_count s) r)"
    if "record_ok (set (ws_outputs s)) (ws_enabled s) (ws_count s) r" for r
    using that t by (auto simp: record_ok_def migrate_record_def clamped_valid split: option.splits)
  then have "records_ok (change_outputs outs ticker s)"
    using assms(1) unfolding Some by (auto simp: records_ok_def eqs(2) workspace_ok_def)
  moreover have "actives_ok (change_outputs outs ticker s)"
    using active_valid [OF assms(1)] unfolding Some by (auto simp: actives_ok_def eqs(1) split: if_splits)
  moreover have "focus_ok (change_outputs outs ticker s)"
    using eqs(3) assms(1) unfolding Some focus_ok_def eqs(2) workspace_ok_def by fastforce
  ultimately show ?thesis using assms by (simp add: workspace_ok_def ticker_valid_def split: option.splits)
qed

lemma alist_update_subset: "set (AList.update k v entries) \<subseteq> insert (k, v) (set entries)"
  by (induction entries) auto

lemma focus_update_ok:
  assumes "workspace_ok s"
  shows "workspace_ok (record_workspace_focus w s)"
proof (cases "workspace_location_of s w")
  case (Some l)
  then show ?thesis using assms located [OF assms Some]
    by (auto simp: record_workspace_focus_def workspace_ok_defs dest!: subsetD [OF alist_update_subset])
qed (use assms in \<open>simp add: record_workspace_focus_def\<close>)

lemma remove_ok: "workspace_ok s \<Longrightarrow> workspace_ok (remove_window w s)"
  by (auto simp: remove_window_def workspace_ok_defs forget_focus_set)

lemma reachable_ok: "workspace_reachable s \<Longrightarrow> workspace_ok s"
proof (induction rule: workspace_reachable.induct)
  case (start outs ticker count enabled)
  then show ?case
    by (auto simp: workspaces_new_def workspace_ok_defs workspace_valid_def count_valid_def MIN_WORKSPACE_COUNT_def
        split: if_splits)
next
  case (step s event)
  then show ?case
    by (cases event) (simp_all add: assignment_ok set_minimized_ok restore_ok focus_update_ok switch_ok move_ok
        settings_ok outputs_ok remove_ok request_ok del: workspace_event_ok.simps(1))
qed

section \<open>Claims\<close>


text \<open>Two outputs with four workspaces; window 7 is on the first workspace of output 2.\<close>

definition sample_workspaces :: workspace_state where
  "sample_workspaces = workspace_step (workspaces_new [1, 2] (Some 1) True 4) (Assigned 7 2 False)"

lemma sample_reachable: "workspace_reachable sample_workspaces"
  unfolding sample_workspaces_def
  by (intro workspace_reachable.intros)
     (simp_all add: ticker_valid_def count_valid_def MIN_WORKSPACE_COUNT_def MAX_WORKSPACE_COUNT_def)

lemmas workspace_defs = sample_workspaces_def workspaces_new_def reconcile_workspace_assignment_def ensure_def
  put_record_def default_record_def active_workspace_def workspace_location_of_def Let_def




section \<open>Walking round the workspaces\<close>

lemma active_Some:
  assumes "workspace_ok s" and "out \<in> set (ws_outputs s)"
  shows "ws_active s out = Some (active_workspace s out)"
proof -
  have "out \<in> dom (ws_active s)" using assms by (simp add: workspace_ok_def actives_ok_def)
  then show ?thesis by (auto simp: active_workspace_def)
qed

lemma adjacent_value:
  assumes "workspace_ok s" and "ws_enabled s" and "output_of_monitor monitor = Some out" and "out \<in> set (ws_outputs s)"
  shows "adjacent_workspace s monitor delta =
    Some (nat ((int (active_workspace s out) - 1 + delta) mod int (ws_count s) + 1))"
  using assms by (simp add: adjacent_workspace_def active_workspace_for_monitor_def workspace_ok_def count_valid_def
      MIN_WORKSPACE_COUNT_def)

lemma switch_to:
  assumes "ws_enabled s" and "output_of_monitor monitor = Some out" and "out \<in> set (ws_outputs s)"
    and "1 \<le> workspace" and "workspace \<le> ws_count s" and "active_workspace s out \<noteq> workspace"
  shows "switch_workspace monitor workspace s = (s\<lparr>ws_active := (ws_active s)(out \<mapsto> workspace)\<rparr>, True)"
  using assms by (simp add: switch_workspace_def)

text \<open>A step in either direction. The minimum of two workspaces is what makes the target another one.\<close>

lemma request_step:
  assumes "workspace_ok s" and "ws_enabled s" and "output_of_monitor monitor = Some out" and "out \<in> set (ws_outputs s)"
  shows "request_workspace RequestNextWorkspace (Some monitor) s =
      (s\<lparr>ws_active := (ws_active s)(out \<mapsto> active_workspace s out mod ws_count s + 1)\<rparr>, True)"
    and "request_workspace RequestPreviousWorkspace (Some monitor) s =
      (s\<lparr>ws_active := (ws_active s)(out \<mapsto> (if active_workspace s out = 1 then ws_count s else active_workspace s out - 1))\<rparr>, True)"
proof -
  let ?a = "active_workspace s out" and ?n = "ws_count s"
  have a: "1 \<le> ?a" "?a \<le> ?n" "2 \<le> ?n" using active_valid [OF assms(1), of out] assms(1)
    by (auto simp: workspace_valid_def workspace_ok_def count_valid_def MIN_WORKSPACE_COUNT_def)
  have "nat ((int ?a - 1 + 1) mod int ?n + 1) = ?a mod ?n + 1" using a by (simp add: nat_add_distrib nat_mod_distrib)
  moreover have "?a mod ?n + 1 \<noteq> ?a" using a by (cases "?a = ?n") auto
  moreover have "?a mod ?n + 1 \<le> ?n" using a by (simp add: Suc_leI)
  ultimately show "request_workspace RequestNextWorkspace (Some monitor) s =
      (s\<lparr>ws_active := (ws_active s)(out \<mapsto> ?a mod ?n + 1)\<rparr>, True)"
    using switch_to [OF assms(2-4), of "?a mod ?n + 1"] adjacent_value [OF assms, of 1]
    by (simp add: request_workspace_def)
  have previous: "nat ((int ?a - 1 + - 1) mod int ?n + 1) = (if ?a = 1 then ?n else ?a - 1)"
  proof (cases "?a = 1")
    case True
    then show ?thesis using a by (simp add: zmod_minus1)
  next
    case False
    then have "(int ?a - 2) mod int ?n = int ?a - 2" using a by (intro mod_pos_pos_trivial) linarith+
    then show ?thesis using False a by simp
  qed
  define p where "p = (if ?a = 1 then ?n else ?a - 1)"
  have "1 \<le> p" "p \<le> ?n" "?a \<noteq> p" using a by (auto simp: p_def)
  then show "request_workspace RequestPreviousWorkspace (Some monitor) s =
      (s\<lparr>ws_active := (ws_active s)(out \<mapsto> (if ?a = 1 then ?n else ?a - 1))\<rparr>, True)"
    unfolding p_def [symmetric] using switch_to [OF assms(2-4), of p] adjacent_value [OF assms, of "- 1"]
      previous [folded p_def] by (simp add: request_workspace_def)
qed

definition next_workspace :: "int \<Rightarrow> workspace_state \<Rightarrow> workspace_state" where
  "next_workspace monitor s = fst (request_workspace RequestNextWorkspace (Some monitor) s)"

definition previous_workspace :: "int \<Rightarrow> workspace_state \<Rightarrow> workspace_state" where
  "previous_workspace monitor s = fst (request_workspace RequestPreviousWorkspace (Some monitor) s)"

lemma next_ok: "workspace_ok s \<Longrightarrow> workspace_ok ((next_workspace monitor ^^ n) s)"
  by (induction n) (auto simp: next_workspace_def request_ok)

lemma active_shown: "active_workspace (s\<lparr>ws_active := m(out \<mapsto> a)\<rparr>) out = a"
  by (simp add: active_workspace_def)

lemma walk:
  assumes "workspace_ok s" and "ws_enabled s" and "output_of_monitor monitor = Some out" and "out \<in> set (ws_outputs s)"
  shows "(next_workspace monitor ^^ n) s =
    s\<lparr>ws_active := (ws_active s)(out \<mapsto> (active_workspace s out - 1 + n) mod ws_count s + 1)\<rparr>"
proof (induction n)
  case 0
  have "(active_workspace s out - 1 + 0) mod ws_count s + 1 = active_workspace s out"
    using active_valid [OF assms(1), of out] by (auto simp: workspace_valid_def)
  then have "(ws_active s)(out \<mapsto> (active_workspace s out - 1 + 0) mod ws_count s + 1) = ws_active s"
    using active_Some [OF assms(1,4)] by (simp add: fun_upd_idem)
  then show ?case by simp
next
  case (Suc n)
  let ?s = "(next_workspace monitor ^^ n) s"
  have ok: "workspace_ok ?s" using next_ok [OF assms(1)] .
  have "(next_workspace monitor ^^ Suc n) s =
      ?s\<lparr>ws_active := (ws_active ?s)(out \<mapsto> active_workspace ?s out mod ws_count ?s + 1)\<rparr>"
    using request_step(1) [OF ok, of monitor out] assms(2-4) by (simp add: next_workspace_def Suc.IH)
  moreover have "((active_workspace s out - 1 + n) mod ws_count s + 1) mod ws_count s =
      (active_workspace s out - 1 + Suc n) mod ws_count s" by (simp add: mod_Suc_eq)
  ultimately show ?case unfolding Suc.IH active_shown by simp (simp add: fun_upd_def)
qed

text \<open>Next and previous walk round the workspaces. With workspaces enabled and a connected
  monitor, the shortcuts for the next and the previous workspace are never declined, change nothing but the
  workspace that this monitor shows, and are inverse to each other; as many steps as there are workspaces lead
  back to the start, and every workspace is shown on the way.\<close>

lemma requests_walk_round_the_workspaces:
  assumes "workspace_reachable s" and "ws_enabled s" and "output_of_monitor monitor = Some out"
    and "out \<in> set (ws_outputs s)"
  shows "snd (request_workspace RequestNextWorkspace (Some monitor) s) \<and>
    snd (request_workspace RequestPreviousWorkspace (Some monitor) s) \<and>
    previous_workspace monitor (next_workspace monitor s) = s \<and>
    next_workspace monitor (previous_workspace monitor s) = s \<and>
    (next_workspace monitor ^^ ws_count s) s = s \<and>
    (\<forall>workspace. 1 \<le> workspace \<and> workspace \<le> ws_count s \<longrightarrow> (\<exists>n < ws_count s.
      (next_workspace monitor ^^ n) s = s\<lparr>ws_active := (ws_active s)(out \<mapsto> workspace)\<rparr>))"
proof -
  let ?a = "active_workspace s out" and ?n = "ws_count s"
  have ok: "workspace_ok s" using reachable_ok [OF assms(1)] .
  note step = request_step [OF ok assms(2-4)]
  have same: "s\<lparr>ws_active := (ws_active s)(out \<mapsto> ?a)\<rparr> = s"
    using active_Some [OF ok assms(4)] by (simp add: fun_upd_idem)
  have a: "1 \<le> ?a" "?a \<le> ?n" using active_valid [OF ok, of out] by (auto simp: workspace_valid_def)
  have okn: "workspace_ok (next_workspace monitor s)" "workspace_ok (previous_workspace monitor s)"
    using ok by (simp_all add: next_workspace_def previous_workspace_def request_ok)
  have "previous_workspace monitor (next_workspace monitor s) = s\<lparr>ws_active := (ws_active s)(out \<mapsto> ?a)\<rparr>"
    using request_step(2) [OF okn(1), of monitor out] assms(2-4) step(1) a
    by (cases "?a = ?n") (auto simp: next_workspace_def previous_workspace_def active_workspace_def [of "_\<lparr>ws_active := _\<rparr>"])
  moreover have "next_workspace monitor (previous_workspace monitor s) = s\<lparr>ws_active := (ws_active s)(out \<mapsto> ?a)\<rparr>"
    using request_step(1) [OF okn(2), of monitor out] assms(2-4) step(2) a
    by (cases "?a = 1") (auto simp: next_workspace_def previous_workspace_def active_workspace_def [of "_\<lparr>ws_active := _\<rparr>"])
  moreover have "(next_workspace monitor ^^ ?n) s = s\<lparr>ws_active := (ws_active s)(out \<mapsto> ?a)\<rparr>"
  proof -
    have "(?a - 1 + ?n) mod ?n = ?a - 1" using a by (simp only: mod_add_self2) simp
    then have "(?a - 1 + ?n) mod ?n + 1 = ?a" using a by simp
    then show ?thesis using walk [OF ok assms(2-4), of ?n] by (simp only:)
  qed
  moreover have "\<exists>n < ?n. (next_workspace monitor ^^ n) s = s\<lparr>ws_active := (ws_active s)(out \<mapsto> k)\<rparr>"
    if "1 \<le> k" "k \<le> ?n" for k
  proof (intro exI conjI)
    let ?m = "(k + ?n - ?a) mod ?n"
    show "?m < ?n" using that by simp
    have "(?a - 1 + ?m) mod ?n = (?a - 1 + (k + ?n - ?a)) mod ?n" by (simp add: mod_add_right_eq)
    also have "\<dots> = (k - 1 + ?n) mod ?n" using a that by (simp add: add.commute)
    also have "\<dots> = k - 1" using that by (simp only: mod_add_self2) simp
    finally have "(?a - 1 + ?m) mod ?n + 1 = k" using that by simp
    then show "(next_workspace monitor ^^ ?m) s = s\<lparr>ws_active := (ws_active s)(out \<mapsto> k)\<rparr>"
      using walk [OF ok assms(2-4), of ?m] by simp
  qed
  ultimately show ?thesis using step same by simp
qed

section \<open>A focus that has moved away\<close>

text \<open>A remembered focus can lie on another monitor. Window 7 has the focus on the first workspace
  of output 2 and is dragged to output 1. The history of output 2 still names it: after a switch to the
  second workspace and back, output 2 asks for the focus of window 7, which is visible on output 1, so that
  the keyboard focus jumps to the other monitor. Moving the window with the request to move it forgets the
  focus.\<close>

lemma remembered_focus_may_lie_on_another_monitor:
  "let s = foldl workspace_step sample_workspaces
       [Focused 7, Assigned 7 1 False, Requested RequestNextWorkspace (Some 2), Requested RequestPreviousWorkspace (Some 2)]
   in remembered_workspace_focus s 2 (active_workspace s 2) = Some 7 \<and>
      workspace_location_of s 7 = Some \<lparr>location_output = 1, location_workspace = 1\<rparr> \<and>
      window_is_on_active_workspace s 7"
  by (simp add: workspace_defs record_workspace_focus_def request_workspace_def adjacent_workspace_def
      active_workspace_for_monitor_def output_of_monitor_def switch_workspace_def remembered_workspace_focus_def
      window_is_on_active_workspace_def)

end
