(* ===== verification/Output_Topology.thy ===== *)
theory Output_Topology
  imports Output_Policy F64_Rounding Shortcut_Text
begin

text \<open>
  The topology of the outputs: \<open>TopologyManager\<close> of \<^verbatim>\<open>src/compositor/src/topology.rs\<close>, which validates and commits a
  set of outputs and gives snapshots of it, and the projection of the connected outputs and their configuration to
  such a set (\<^verbatim>\<open>output_topology.rs\<close>): the transform of a panel under the orientation sensor, the choice of a
  refresh rate, the placement of outputs without a configured position and the move to a common origin.

  A \<open>BTreeMap\<close> of outputs is the list of its values in the order of their identifiers. Identifiers, sizes and
  rates are natural numbers, positions integers; the checks of their conversions are written out. A logical
  rectangle is made of doubles, with their rounding.

  The theory shows that the outputs of a manager never overlap, have distinct names and identifiers and a
  ticker among them, that a refused change leaves the manager alone and a commit reports exactly what has
  changed, and that the projection places every output without a position beside the others.
\<close>

section \<open>Transforms\<close>

datatype output_transform =
    Normal | Rotate90 | Rotate180 | Rotate270 | Flipped | Flipped90 | Flipped180 | Flipped270

definition swaps_axes :: "output_transform \<Rightarrow> bool" where
  "swaps_axes t = List.member [Rotate90, Rotate270, Flipped90, Flipped270] t"

fun quarter_turns :: "output_transform \<Rightarrow> nat" where
  "quarter_turns Normal = 0"
| "quarter_turns Rotate90 = 1"
| "quarter_turns Rotate180 = 2"
| "quarter_turns Rotate270 = 3"
| "quarter_turns Flipped = 0"
| "quarter_turns Flipped90 = 1"
| "quarter_turns Flipped180 = 2"
| "quarter_turns Flipped270 = 3"

definition reflected :: "output_transform \<Rightarrow> bool" where
  "reflected t = List.member [Flipped, Flipped90, Flipped180, Flipped270] t"

text \<open>The last case of the code is unreachable, because the turns are taken modulo four.\<close>

definition transform_of :: "nat \<Rightarrow> bool \<Rightarrow> output_transform" where
  "transform_of turns flipped =
    (if turns = 0 then (if flipped then Flipped else Normal)
     else if turns = 1 then (if flipped then Flipped90 else Rotate90)
     else if turns = 2 then (if flipped then Flipped180 else Rotate180)
     else (if flipped then Flipped270 else Rotate270))"

definition rotated_by :: "output_transform \<Rightarrow> output_transform \<Rightarrow> output_transform" where
  "rotated_by t rotation = transform_of ((quarter_turns t + quarter_turns rotation) mod 4) (reflected t)"

fun inverse_rotation :: "output_transform \<Rightarrow> output_transform" where
  "inverse_rotation Normal = Normal"
| "inverse_rotation Flipped = Normal"
| "inverse_rotation Rotate90 = Rotate270"
| "inverse_rotation Flipped90 = Rotate270"
| "inverse_rotation Rotate180 = Rotate180"
| "inverse_rotation Flipped180 = Rotate180"
| "inverse_rotation Rotate270 = Rotate90"
| "inverse_rotation Flipped270 = Rotate90"

section \<open>Outputs\<close>

definition SCALE_BASE :: nat where "SCALE_BASE = 120"

record logical_point =
  point_x :: int
  point_y :: int

record pixel_size =
  pixel_width :: nat
  pixel_height :: nat

record logical_rect =
  rect_x :: f64
  rect_y :: f64
  rect_width :: f64
  rect_height :: f64

definition rect_right :: "logical_rect \<Rightarrow> f64" where
  "rect_right r = f64_add (rect_x r) (rect_width r)"

definition rect_bottom :: "logical_rect \<Rightarrow> f64" where
  "rect_bottom r = f64_add (rect_y r) (rect_height r)"

record output_spec =
  spec_id :: nat
  spec_name :: string
  spec_position :: logical_point
  spec_mode :: pixel_size
  spec_scale_120 :: nat
  spec_refresh_millihz :: nat
  spec_transform :: output_transform

definition transformed_pixel_size :: "output_spec \<Rightarrow> pixel_size" where
  "transformed_pixel_size spec = (if swaps_axes (spec_transform spec)
     then \<lparr>pixel_width = pixel_height (spec_mode spec), pixel_height = pixel_width (spec_mode spec)\<rparr>
     else spec_mode spec)"

text \<open>A \<open>u32\<close> divided by the scale. The quotient of a positive number and zero is infinite.\<close>

definition logical_extent :: "nat \<Rightarrow> nat \<Rightarrow> f64" where
  "logical_extent pixels scale_120 =
    (if scale_120 = 0 then (if pixels = 0 then NaN else Inf True)
     else f64_div (Fin (of_nat pixels)) (f64_div (Fin (of_nat scale_120)) (Fin (of_nat SCALE_BASE))))"

definition logical_rect_of :: "output_spec \<Rightarrow> logical_rect" where
  "logical_rect_of spec = (let size' = transformed_pixel_size spec in
     \<lparr>rect_x = f64_from_i32 (point_x (spec_position spec)), rect_y = f64_from_i32 (point_y (spec_position spec)),
      rect_width = logical_extent (pixel_width size') (spec_scale_120 spec),
      rect_height = logical_extent (pixel_height size') (spec_scale_120 spec)\<rparr>)"

section \<open>Validation\<close>

datatype topology_error =
    DuplicateName string
  | EmptyName nat
  | EmptyMode nat
  | InvalidScale nat
  | InvalidRefresh nat
  | CoordinateOverflow nat
  | OverlappingOutputs string string

definition logical_rects_overlap :: "logical_rect \<Rightarrow> logical_rect \<Rightarrow> bool" where
  "logical_rects_overlap a b = (f64_less (rect_x a) (rect_right b) \<and> f64_less (rect_x b) (rect_right a) \<and>
     f64_less (rect_y a) (rect_bottom b) \<and> f64_less (rect_y b) (rect_bottom a))"

definition coordinate_overflow :: "logical_rect \<Rightarrow> bool" where
  "coordinate_overflow r = (\<not> f64_is_finite (rect_x r) \<or> \<not> f64_is_finite (rect_y r) \<or>
     \<not> f64_is_finite (rect_width r) \<or> \<not> f64_is_finite (rect_height r) \<or>
     f64_less (f64_from_i32 i32_max) (rect_right r) \<or> f64_less (f64_from_i32 i32_max) (rect_bottom r) \<or>
     f64_less (rect_x r) (f64_from_i32 i32_min) \<or> f64_less (rect_y r) (f64_from_i32 i32_min))"

fun string_less :: "string \<Rightarrow> string \<Rightarrow> bool" where
  "string_less _ [] = False"
| "string_less [] (_ # _) = True"
| "string_less (a # as) (b # bs) =
     (if a = b then string_less as bs else of_char a < (of_char b :: int))"

fun find_overlap :: "logical_rect \<Rightarrow> (string \<times> logical_rect) list \<Rightarrow> string option" where
  "find_overlap r [] = None"
| "find_overlap r ((name, other) # rects) =
     (if logical_rects_overlap r other then Some name else find_overlap r rects)"

text \<open>The loop of \<open>validate_outputs\<close>, with the names and the rectangles seen so far.\<close>

fun validate_from :: "string list \<Rightarrow> (string \<times> logical_rect) list \<Rightarrow> output_spec list \<Rightarrow> topology_error + unit" where
  "validate_from names rects [] = Inr ()"
| "validate_from names rects (spec # specs) =
    (if trim (spec_name spec) = [] then Inl (EmptyName (spec_id spec))
     else if spec_name spec \<in> set names then Inl (DuplicateName (spec_name spec))
     else if pixel_width (spec_mode spec) = 0 \<or> pixel_height (spec_mode spec) = 0 then Inl (EmptyMode (spec_id spec))
     else if spec_scale_120 spec = 0 then Inl (InvalidScale (spec_id spec))
     else if spec_refresh_millihz spec = 0 then Inl (InvalidRefresh (spec_id spec))
     else let r = logical_rect_of spec in
       if coordinate_overflow r then Inl (CoordinateOverflow (spec_id spec))
       else case find_overlap r rects of
         Some other \<Rightarrow> Inl (if string_less (spec_name spec) other then OverlappingOutputs (spec_name spec) other
           else OverlappingOutputs other (spec_name spec))
       | None \<Rightarrow> validate_from (spec_name spec # names) (rects @ [(spec_name spec, r)]) specs)"

definition validate_outputs :: "output_spec list \<Rightarrow> topology_error + unit" where
  "validate_outputs specs = validate_from [] [] specs"

section \<open>The manager\<close>

record topology_manager =
  topology_epoch :: u64
  topology_outputs :: "output_spec list"
  primary_output :: "string option"

datatype topology_change = Upsert output_spec | RemoveOutput nat

record topology_commit =
  previous_epoch :: u64
  commit_epoch :: u64
  commit_added :: "nat list"
  commit_removed :: "nat list"
  commit_changed :: "nat list"

text \<open>\<open>BTreeMap::insert\<close>: a value with the same key is replaced.\<close>

fun insert_spec :: "output_spec \<Rightarrow> output_spec list \<Rightarrow> output_spec list" where
  "insert_spec spec [] = [spec]"
| "insert_spec spec (other # specs) =
    (if spec_id spec < spec_id other then spec # other # specs
     else if spec_id spec = spec_id other then spec # specs
     else other # insert_spec spec specs)"

definition spec_of :: "output_spec list \<Rightarrow> nat \<Rightarrow> output_spec option" where
  "spec_of specs i = find (\<lambda>spec. spec_id spec = i) specs"

fun stage_change :: "output_spec list \<Rightarrow> topology_change \<Rightarrow> output_spec list" where
  "stage_change specs (Upsert spec) = insert_spec spec specs"
| "stage_change specs (RemoveOutput i) = filter (\<lambda>spec. spec_id spec \<noteq> i) specs"

definition is_noop :: "topology_commit \<Rightarrow> bool" where
  "is_noop c = (previous_epoch c = commit_epoch c)"

definition apply_with_primary_output :: "topology_manager \<Rightarrow> topology_change list \<Rightarrow> string option \<Rightarrow>
    (topology_error + topology_commit) \<times> topology_manager" where
  "apply_with_primary_output m changes primary =
    (let previous = topology_outputs m; staged = foldl stage_change previous changes in
     case validate_outputs staged of
       Inl err \<Rightarrow> (Inl err, m)
     | Inr _ \<Rightarrow>
         let added = filter (\<lambda>i. spec_of previous i = None) (map spec_id staged);
             removed = filter (\<lambda>i. spec_of staged i = None) (map spec_id previous);
             changed = filter (\<lambda>i. spec_of staged i \<noteq> None \<and> spec_of previous i \<noteq> spec_of staged i)
               (map spec_id previous);
             m' = (if added \<noteq> [] \<or> removed \<noteq> [] \<or> changed \<noteq> [] \<or> primary_output m \<noteq> primary
               then \<lparr>topology_epoch = max (topology_epoch m + 1) 1, topology_outputs = staged, primary_output = primary\<rparr>
               else m)
         in (Inr \<lparr>previous_epoch = topology_epoch m, commit_epoch = topology_epoch m', commit_added = added,
               commit_removed = removed, commit_changed = changed\<rparr>, m'))"

definition topology_apply :: "topology_manager \<Rightarrow> topology_change list \<Rightarrow>
    (topology_error + topology_commit) \<times> topology_manager" where
  "topology_apply m changes = apply_with_primary_output m changes (primary_output m)"

definition topology_default :: topology_manager where
  "topology_default = \<lparr>topology_epoch = 0, topology_outputs = [], primary_output = None\<rparr>"

definition new_with_primary_output :: "output_spec list \<Rightarrow> string option \<Rightarrow> topology_error + topology_manager" where
  "new_with_primary_output specs primary =
    (case apply_with_primary_output topology_default (map Upsert specs) primary of
       (Inl err, _) \<Rightarrow> Inl err
     | (Inr _, m) \<Rightarrow> Inr m)"

text \<open>\<open>f64::min\<close> and \<open>f64::max\<close> ignore a NaN.\<close>

definition f64_min :: "f64 \<Rightarrow> f64 \<Rightarrow> f64" where
  "f64_min a b = (if a = NaN then b else if b = NaN then a else if f64_less b a then b else a)"

definition f64_max :: "f64 \<Rightarrow> f64 \<Rightarrow> f64" where
  "f64_max a b = (if a = NaN then b else if b = NaN then a else if f64_less a b then b else a)"

definition logical_bounds :: "output_spec list \<Rightarrow> logical_rect option" where
  "logical_bounds specs = (case map logical_rect_of specs of
       [] \<Rightarrow> None
     | r # rs \<Rightarrow>
         let left = foldl f64_min (rect_x r) (map rect_x rs);
             top = foldl f64_min (rect_y r) (map rect_y rs);
             right = foldl f64_max (rect_right r) (map rect_right rs);
             bottom = foldl f64_max (rect_bottom r) (map rect_bottom rs)
         in Some \<lparr>rect_x = left, rect_y = top, rect_width = f64_sub right left, rect_height = f64_sub bottom top\<rparr>)"

text \<open>\<open>max_by_key\<close> of the refresh rate and then of the smaller identifier.\<close>

definition ticker_before :: "output_spec \<Rightarrow> output_spec \<Rightarrow> bool" where
  "ticker_before a b = (spec_refresh_millihz a < spec_refresh_millihz b \<or>
     spec_refresh_millihz a = spec_refresh_millihz b \<and> spec_id b \<le> spec_id a)"

fun fastest_output :: "output_spec list \<Rightarrow> output_spec option" where
  "fastest_output [] = None"
| "fastest_output (spec # specs) = Some (foldl (\<lambda>a b. if ticker_before a b then b else a) spec specs)"

definition snapshot_ticker :: "topology_manager \<Rightarrow> nat option" where
  "snapshot_ticker m = map_option spec_id (option_or
     (Option.bind (primary_output m) (\<lambda>name. find (\<lambda>spec. spec_name spec = name) (topology_outputs m)))
     (fastest_output (topology_outputs m)))"

record topology_snapshot =
  snap_epoch :: u64
  snap_bounds :: "logical_rect option"
  snap_ticker :: "nat option"
  snap_outputs :: "output_spec list"

definition topology_snapshot_of :: "topology_manager \<Rightarrow> topology_snapshot" where
  "topology_snapshot_of m = \<lparr>snap_epoch = topology_epoch m, snap_bounds = logical_bounds (topology_outputs m),
     snap_ticker = snapshot_ticker m, snap_outputs = topology_outputs m\<rparr>"

section \<open>The set of outputs\<close>

text \<open>The list of outputs as an ordered map.\<close>

abbreviation ids_sorted :: "output_spec list \<Rightarrow> bool" where
  "ids_sorted specs \<equiv> sorted_wrt (<) (map spec_id specs)"

lemma insert_spec_set:
  "ids_sorted specs \<Longrightarrow> set (insert_spec spec specs) = insert spec {other \<in> set specs. spec_id other \<noteq> spec_id spec}"
  by (induction specs) auto

lemma insert_spec_sorted: "ids_sorted specs \<Longrightarrow> ids_sorted (insert_spec spec specs)"
  by (induction specs) (auto simp: insert_spec_set)

lemma filter_sorted: "ids_sorted specs \<Longrightarrow> ids_sorted (filter P specs)"
  by (induction specs) auto

lemma stage_change_sorted: "ids_sorted specs \<Longrightarrow> ids_sorted (stage_change specs change)"
  by (cases change) (auto intro: insert_spec_sorted filter_sorted)

lemma stage_changes_sorted: "ids_sorted specs \<Longrightarrow> ids_sorted (foldl stage_change specs changes)"
  by (induction changes arbitrary: specs) (simp_all add: stage_change_sorted)

lemma spec_of_Some:
  assumes "ids_sorted specs"
  shows "spec_of specs i = Some spec \<longleftrightarrow> spec \<in> set specs \<and> spec_id spec = i"
  using assms by (induction specs) (auto simp: spec_of_def)

lemma spec_of_None: "spec_of specs i = None \<longleftrightarrow> i \<notin> spec_id ` set specs"
  by (auto simp: spec_of_def find_None_iff)

lemma spec_of_in: "spec_of specs i \<noteq> None \<longleftrightarrow> i \<in> spec_id ` set specs"
  using spec_of_None [of specs i] by auto

lemma dom_spec_of: "dom (spec_of specs) = spec_id ` set specs"
  using spec_of_in by (auto simp: dom_def)

lemma insert_spec_of:
  "ids_sorted specs \<Longrightarrow> spec_of (insert_spec spec specs) i = (if i = spec_id spec then Some spec else spec_of specs i)"
  by (induction specs) (auto simp: spec_of_def)

lemma filter_spec_of:
  "spec_of (filter (\<lambda>spec. spec_id spec \<noteq> j) specs) i = (if i = j then None else spec_of specs i)"
  by (induction specs) (auto simp: spec_of_def)

text \<open>A sorted list of outputs is determined by its lookups.\<close>

lemma ids_sorted_unique:
  assumes "ids_sorted a" "ids_sorted b" "set a = set b"
  shows "a = b"
proof -
  have "inj_on spec_id (set a)" using assms(1) unfolding strict_sorted_iff by (simp add: distinct_map)
  moreover have "map spec_id a = map spec_id b"
    using assms by (intro sorted_distinct_set_unique) (auto simp: strict_sorted_iff)
  ultimately show ?thesis using assms(3) inj_on_map_eq_map [of spec_id a b] by simp
qed

lemma spec_of_eq:
  assumes "ids_sorted a" "ids_sorted b" "\<And>i. spec_of a i = spec_of b i"
  shows "a = b"
proof (rule ids_sorted_unique [OF assms(1,2)])
  show "set a = set b"
  proof (rule set_eqI)
    fix spec
    show "spec \<in> set a \<longleftrightarrow> spec \<in> set b"
      using spec_of_Some [OF assms(1), of "spec_id spec" spec] spec_of_Some [OF assms(2), of "spec_id spec" spec]
        assms(3) [of "spec_id spec"] by simp
  qed
qed

section \<open>Valid outputs\<close>

definition valid_spec :: "output_spec \<Rightarrow> bool" where
  "valid_spec spec = (trim (spec_name spec) \<noteq> [] \<and> 0 < pixel_width (spec_mode spec) \<and> 0 < pixel_height (spec_mode spec) \<and>
     0 < spec_scale_120 spec \<and> 0 < spec_refresh_millihz spec \<and> \<not> coordinate_overflow (logical_rect_of spec))"

lemma find_overlap_None: "find_overlap r rects = None \<longleftrightarrow> (\<forall>x \<in> set rects. \<not> logical_rects_overlap r (snd x))"
  by (induction r rects rule: find_overlap.induct) auto

lemma logical_rects_overlap_sym: "logical_rects_overlap a b = logical_rects_overlap b a"
  by (auto simp: logical_rects_overlap_def)

text \<open>What the validation accepts, independently of its loop.\<close>

lemma validate_from_iff:
  "validate_from names rects specs = Inr () \<longleftrightarrow>
     list_all valid_spec specs \<and> distinct (map spec_name specs) \<and> set (map spec_name specs) \<inter> set names = {} \<and>
     (\<forall>spec \<in> set specs. \<forall>x \<in> set rects. \<not> logical_rects_overlap (logical_rect_of spec) (snd x)) \<and>
     sorted_wrt (\<lambda>a b. \<not> logical_rects_overlap (logical_rect_of b) (logical_rect_of a)) specs"
proof (induction specs arbitrary: names rects)
  case (Cons spec specs)
  show ?case
  proof (cases "valid_spec spec \<and> spec_name spec \<notin> set names")
    case True
    then have "validate_from names rects (spec # specs) = (case find_overlap (logical_rect_of spec) rects of
         Some other \<Rightarrow> Inl (if string_less (spec_name spec) other then OverlappingOutputs (spec_name spec) other
           else OverlappingOutputs other (spec_name spec))
       | None \<Rightarrow> validate_from (spec_name spec # names) (rects @ [(spec_name spec, logical_rect_of spec)]) specs)"
      by (simp add: valid_spec_def Let_def)
    with True show ?thesis
      using find_overlap_None [of "logical_rect_of spec" rects]
      by (cases "find_overlap (logical_rect_of spec) rects") (auto simp: Cons.IH ball_Un)
  next
    case False
    then show ?thesis by (auto simp: valid_spec_def Let_def split: option.splits)
  qed
qed simp

lemma validate_outputs_iff:
  "validate_outputs specs = Inr () \<longleftrightarrow> list_all valid_spec specs \<and> distinct (map spec_name specs) \<and>
     sorted_wrt (\<lambda>a b. \<not> logical_rects_overlap (logical_rect_of b) (logical_rect_of a)) specs"
  by (simp add: validate_outputs_def validate_from_iff)

text \<open>A point belongs to an output when it lies in its half-open rectangle.\<close>

definition rect_contains :: "logical_rect \<Rightarrow> rat \<times> rat \<Rightarrow> bool" where
  "rect_contains r p = (\<not> f64_less (Fin (fst p)) (rect_x r) \<and> f64_less (Fin (fst p)) (rect_right r) \<and>
     \<not> f64_less (Fin (snd p)) (rect_y r) \<and> f64_less (Fin (snd p)) (rect_bottom r))"

lemma f64_le_less_trans: "\<not> f64_less (Fin p) a \<Longrightarrow> f64_less (Fin p) b \<Longrightarrow> a \<noteq> NaN \<Longrightarrow> f64_less a b"
  by (cases a; cases b) auto

lemma common_point_overlaps:
  assumes "rect_contains a p" "rect_contains b p"
    and "f64_is_finite (rect_x a)" "f64_is_finite (rect_y a)" "f64_is_finite (rect_x b)" "f64_is_finite (rect_y b)"
  shows "logical_rects_overlap a b"
proof -
  have "rect_x a \<noteq> NaN" "rect_y a \<noteq> NaN" "rect_x b \<noteq> NaN" "rect_y b \<noteq> NaN" using assms(3-6) by auto
  with assms(1,2) show ?thesis
    unfolding logical_rects_overlap_def rect_contains_def by (blast intro: f64_le_less_trans)
qed

lemma valid_spec_finite: "f64_is_finite (rect_x (logical_rect_of spec))" "f64_is_finite (rect_y (logical_rect_of spec))"
  by (simp_all add: logical_rect_of_def Let_def f64_from_i32_def)

section \<open>Reachable managers\<close>

inductive topology_reachable :: "topology_manager \<Rightarrow> bool" where
  start: "topology_reachable topology_default"
| step: "topology_reachable m \<Longrightarrow> topology_reachable (snd (apply_with_primary_output m changes primary))"

definition topology_ok :: "topology_manager \<Rightarrow> bool" where
  "topology_ok m = (ids_sorted (topology_outputs m) \<and> validate_outputs (topology_outputs m) = Inr ())"

lemma apply_ok: "topology_ok m \<Longrightarrow> topology_ok (snd (apply_with_primary_output m changes primary))"
  by (auto simp: topology_ok_def apply_with_primary_output_def Let_def stage_changes_sorted split: sum.splits)

lemma topology_reachable_ok: "topology_reachable m \<Longrightarrow> topology_ok m"
proof (induction rule: topology_reachable.induct)
  case start
  show ?case by (simp add: topology_ok_def topology_default_def validate_outputs_def)
qed (rule apply_ok)

lemma new_reachable:
  assumes "new_with_primary_output specs primary = Inr m"
  shows "topology_reachable m"
proof -
  have "m = snd (apply_with_primary_output topology_default (map Upsert specs) primary)"
    using assms by (auto simp: new_with_primary_output_def split: prod.splits sum.splits)
  then show ?thesis by (auto intro: topology_reachable.intros)
qed

lemma no_common_point:
  assumes "topology_ok m" and "a \<in> set (topology_outputs m)" and "b \<in> set (topology_outputs m)" and "a \<noteq> b"
    and "rect_contains (logical_rect_of a) p"
  shows "\<not> rect_contains (logical_rect_of b) p"
proof
  assume "rect_contains (logical_rect_of b) p"
  then have overlap: "logical_rects_overlap (logical_rect_of a) (logical_rect_of b)"
    using assms(5) by (blast intro: common_point_overlaps valid_spec_finite)
  let ?specs = "topology_outputs m"
  obtain i j where "i < length ?specs" "j < length ?specs" "?specs ! i = a" "?specs ! j = b" "i \<noteq> j"
    using assms(2-4) by (metis in_set_conv_nth)
  moreover have "sorted_wrt (\<lambda>a b. \<not> logical_rects_overlap (logical_rect_of b) (logical_rect_of a)) ?specs"
    using assms(1) by (simp add: topology_ok_def validate_outputs_iff)
  ultimately show False using overlap logical_rects_overlap_sym
    by (metis sorted_wrt_nth_less linorder_neqE_nat)
qed

text \<open>
  Claim C11 (outputs never share a point of the desktop). Whatever sequence of changes a topology has gone through,
  its outputs are kept in the order of distinct identifiers, have distinct names that are not blank, a mode, a
  scale and a refresh rate that are not zero, and no point of the desktop belongs to two of them. A change
  that would break this is refused with an error and leaves the manager as it was.
\<close>
theorem outputs_never_share_a_point:
  assumes "topology_reachable m"
  shows "sorted_wrt (<) (map spec_id (topology_outputs m)) \<and> distinct (map spec_name (topology_outputs m)) \<and>
    (\<forall>spec \<in> set (topology_outputs m). trim (spec_name spec) \<noteq> [] \<and> 0 < pixel_width (spec_mode spec) \<and>
       0 < pixel_height (spec_mode spec) \<and> 0 < spec_scale_120 spec \<and> 0 < spec_refresh_millihz spec) \<and>
    (\<forall>a \<in> set (topology_outputs m). \<forall>b \<in> set (topology_outputs m). \<forall>p.
       rect_contains (logical_rect_of a) p \<and> rect_contains (logical_rect_of b) p \<longrightarrow> a = b) \<and>
    (\<forall>changes primary err m'. apply_with_primary_output m changes primary = (Inl err, m') \<longrightarrow>
       m' = m \<and> validate_outputs (foldl stage_change (topology_outputs m) changes) = Inl err)"
proof (intro conjI)
  have ok: "topology_ok m" by (rule topology_reachable_ok [OF assms])
  show "ids_sorted (topology_outputs m)" using ok by (simp add: topology_ok_def)
  show "distinct (map spec_name (topology_outputs m))" using ok by (simp add: topology_ok_def validate_outputs_iff)
  show "\<forall>spec \<in> set (topology_outputs m). trim (spec_name spec) \<noteq> [] \<and> 0 < pixel_width (spec_mode spec) \<and>
       0 < pixel_height (spec_mode spec) \<and> 0 < spec_scale_120 spec \<and> 0 < spec_refresh_millihz spec"
    using ok by (simp add: topology_ok_def validate_outputs_iff list_all_iff valid_spec_def)
  show "\<forall>a \<in> set (topology_outputs m). \<forall>b \<in> set (topology_outputs m). \<forall>p.
       rect_contains (logical_rect_of a) p \<and> rect_contains (logical_rect_of b) p \<longrightarrow> a = b"
    using no_common_point [OF ok] by blast
  show "\<forall>changes primary err m'. apply_with_primary_output m changes primary = (Inl err, m') \<longrightarrow>
       m' = m \<and> validate_outputs (foldl stage_change (topology_outputs m) changes) = Inl err"
    by (auto simp: apply_with_primary_output_def Let_def split: sum.splits)
qed

section \<open>Commits\<close>

lemma next_epoch: "max (e + 1) 1 \<noteq> (e :: u64)" "max (e + 1) 1 \<noteq> (0 :: u64)"
proof -
  show "max (e + 1) 1 \<noteq> (0 :: u64)" by (metis max.cobounded2 word_le_0_iff zero_neq_one)
  show "max (e + 1) 1 \<noteq> e" by (cases "e = 1") (auto simp: max_def word_le_nat_alt)
qed

text \<open>The outputs as a finite map: what a change means, whatever the manager does to carry it out.\<close>

fun change_map :: "(nat \<rightharpoonup> output_spec) \<Rightarrow> topology_change \<Rightarrow> (nat \<rightharpoonup> output_spec)" where
  "change_map outs (Upsert spec) = outs(spec_id spec \<mapsto> spec)"
| "change_map outs (RemoveOutput i) = outs(i := None)"

lemma stage_change_map:
  "ids_sorted specs \<Longrightarrow> spec_of (stage_change specs change) = change_map (spec_of specs) change"
  by (cases change) (auto simp: insert_spec_of filter_spec_of)

lemma stage_changes_map:
  "ids_sorted specs \<Longrightarrow> spec_of (foldl stage_change specs changes) = foldl change_map (spec_of specs) changes"
  by (induction changes arbitrary: specs) (simp_all add: stage_change_map stage_change_sorted)

lemma unchanged_staged:
  assumes "ids_sorted previous" "ids_sorted staged"
    and "filter (\<lambda>i. spec_of previous i = None) (map spec_id staged) = []"
    and "filter (\<lambda>i. spec_of staged i = None) (map spec_id previous) = []"
    and "filter (\<lambda>i. spec_of staged i \<noteq> None \<and> spec_of previous i \<noteq> spec_of staged i) (map spec_id previous) = []"
  shows "staged = previous"
proof (rule spec_of_eq [OF assms(2,1)])
  fix i
  show "spec_of staged i = spec_of previous i"
  proof (cases "i \<in> spec_id ` set previous")
    case True
    moreover from this have "spec_of staged i \<noteq> None" using assms(4) by (force simp: filter_empty_conv simp del: not_None_eq)
    ultimately show ?thesis using assms(5) by (force simp: filter_empty_conv simp del: not_None_eq)
  next
    case False
    then have "i \<notin> spec_id ` set staged" using assms(3) spec_of_None [of previous i] by (auto simp: filter_empty_conv)
    with False show ?thesis using spec_of_None [of previous i] spec_of_None [of staged i] by simp
  qed
qed

lemma apply_accepted:
  assumes "topology_ok m" and "apply_with_primary_output m changes primary = (Inr c, m')"
  shows "topology_outputs m' = foldl stage_change (topology_outputs m) changes" "primary_output m' = primary"
    "previous_epoch c = topology_epoch m" "commit_epoch c = topology_epoch m'"
    "commit_added c = filter (\<lambda>i. spec_of (topology_outputs m) i = None) (map spec_id (topology_outputs m'))"
    "commit_removed c = filter (\<lambda>i. spec_of (topology_outputs m') i = None) (map spec_id (topology_outputs m))"
    "commit_changed c = filter (\<lambda>i. spec_of (topology_outputs m') i \<noteq> None \<and>
       spec_of (topology_outputs m) i \<noteq> spec_of (topology_outputs m') i) (map spec_id (topology_outputs m))"
    "m' = m \<or> topology_epoch m' = max (topology_epoch m + 1) 1"
proof -
  let ?prev = "topology_outputs m" and ?staged = "foldl stage_change (topology_outputs m) changes"
  have sorted: "ids_sorted ?prev" "ids_sorted ?staged"
    using assms(1) by (simp_all add: topology_ok_def stage_changes_sorted)
  have c: "previous_epoch c = topology_epoch m" "commit_epoch c = topology_epoch m'"
    "commit_added c = filter (\<lambda>i. spec_of ?prev i = None) (map spec_id ?staged)"
    "commit_removed c = filter (\<lambda>i. spec_of ?staged i = None) (map spec_id ?prev)"
    "commit_changed c = filter (\<lambda>i. spec_of ?staged i \<noteq> None \<and> spec_of ?prev i \<noteq> spec_of ?staged i) (map spec_id ?prev)"
    and m': "m' = (if commit_added c \<noteq> [] \<or> commit_removed c \<noteq> [] \<or> commit_changed c \<noteq> [] \<or> primary_output m \<noteq> primary
        then \<lparr>topology_epoch = max (topology_epoch m + 1) 1, topology_outputs = ?staged, primary_output = primary\<rparr> else m)"
    using assms(2) by (auto simp: apply_with_primary_output_def Let_def split: sum.splits)
  have "?staged = ?prev" if "commit_added c = []" "commit_removed c = []" "commit_changed c = []"
    using that unfolding c(3-5) by (rule unchanged_staged [OF sorted])
  then show outs: "topology_outputs m' = ?staged" using m' by (auto split: if_splits)
  show "primary_output m' = primary" using m' by (simp split: if_splits)
  show "m' = m \<or> topology_epoch m' = max (topology_epoch m + 1) 1" using m' by (simp split: if_splits)
  show "previous_epoch c = topology_epoch m" "commit_epoch c = topology_epoch m'" by (fact c)+
  show "commit_added c = filter (\<lambda>i. spec_of ?prev i = None) (map spec_id (topology_outputs m'))"
    "commit_removed c = filter (\<lambda>i. spec_of (topology_outputs m') i = None) (map spec_id ?prev)"
    "commit_changed c = filter (\<lambda>i. spec_of (topology_outputs m') i \<noteq> None \<and>
       spec_of ?prev i \<noteq> spec_of (topology_outputs m') i) (map spec_id ?prev)"
    unfolding outs by (fact c)+
qed

text \<open>
  Claim C12 (a commit is a map update, reported exactly). An accepted batch of changes turns the outputs of the
  manager, seen as a map, into the map with the changes applied one after the other. The
  commit lists as added, removed and changed exactly the outputs that are; it counts as a no-op exactly when
  the manager is unchanged, and otherwise the epoch is a new one and never zero, even after wrapping around.
\<close>
theorem commit_reports_exactly_what_changed:
  assumes "topology_reachable m" and "apply_with_primary_output m changes primary = (Inr c, m')"
  shows "spec_of (topology_outputs m') = foldl change_map (spec_of (topology_outputs m)) changes \<and>
    primary_output m' = primary \<and>
    set (commit_added c) = dom (spec_of (topology_outputs m')) - dom (spec_of (topology_outputs m)) \<and>
    set (commit_removed c) = dom (spec_of (topology_outputs m)) - dom (spec_of (topology_outputs m')) \<and>
    set (commit_changed c) = {i \<in> dom (spec_of (topology_outputs m)) \<inter> dom (spec_of (topology_outputs m')).
       spec_of (topology_outputs m) i \<noteq> spec_of (topology_outputs m') i} \<and>
    previous_epoch c = topology_epoch m \<and> commit_epoch c = topology_epoch m' \<and>
    (is_noop c \<longleftrightarrow> m' = m) \<and> (m' = m \<or> topology_epoch m' \<noteq> 0)"
proof -
  have ok: "topology_ok m" by (rule topology_reachable_ok [OF assms(1)])
  note facts = apply_accepted [OF ok assms(2)]
  have noop: "is_noop c \<longleftrightarrow> m' = m" and fresh: "m' = m \<or> topology_epoch m' \<noteq> 0"
    unfolding is_noop_def facts(3,4) using facts(8) next_epoch [of "topology_epoch m"] by metis+
  have "spec_of (topology_outputs m') = foldl change_map (spec_of (topology_outputs m)) changes"
    using ok by (simp add: facts(1) topology_ok_def stage_changes_map)
  moreover have "set (commit_added c) = dom (spec_of (topology_outputs m')) - dom (spec_of (topology_outputs m))"
    "set (commit_removed c) = dom (spec_of (topology_outputs m)) - dom (spec_of (topology_outputs m'))"
    "set (commit_changed c) = {i \<in> dom (spec_of (topology_outputs m)) \<inter> dom (spec_of (topology_outputs m')).
       spec_of (topology_outputs m) i \<noteq> spec_of (topology_outputs m') i}"
    unfolding facts(5-7) set_filter set_map dom_spec_of [symmetric] by (auto simp: dom_def)
  ultimately show ?thesis using noop fresh facts(2-4) by blast
qed

section \<open>Snapshots\<close>

lemma fastest_output_fold:
  "foldl (\<lambda>a b. if ticker_before a b then b else a) spec specs \<in> set (spec # specs) \<and>
   (\<forall>x \<in> set (spec # specs). ticker_before x (foldl (\<lambda>a b. if ticker_before a b then b else a) spec specs))"
proof (induction specs arbitrary: spec)
  case (Cons other specs)
  let ?next = "if ticker_before spec other then other else spec"
  have "ticker_before spec ?next" "ticker_before other ?next" by (auto simp: ticker_before_def)
  moreover have "ticker_before a b \<Longrightarrow> ticker_before b c \<Longrightarrow> ticker_before a c" for a b c
    by (auto simp: ticker_before_def)
  ultimately have "\<forall>x \<in> set (spec # other # specs). ticker_before x (foldl (\<lambda>a b. if ticker_before a b then b else a) ?next specs)"
    using Cons.IH [of ?next] by (metis (no_types, lifting) list.set_intros(1,2) set_ConsD)
  moreover have "foldl (\<lambda>a b. if ticker_before a b then b else a) ?next specs \<in> set (spec # other # specs)"
    using Cons.IH [of ?next] by (cases "ticker_before spec other") auto
  ultimately show ?case by simp
qed (simp add: ticker_before_def)

lemma fastest_output_Some:
  "fastest_output specs = Some spec \<Longrightarrow> spec \<in> set specs \<and> (\<forall>x \<in> set specs. ticker_before x spec)"
  using fastest_output_fold by (cases specs) auto

lemma fastest_output_None [simp]: "fastest_output specs = None \<longleftrightarrow> specs = []"
  by (cases specs) auto

lemma snapshot_ticker_cases:
  "snapshot_ticker m = None \<longleftrightarrow> topology_outputs m = []"
  "snapshot_ticker m = Some i \<Longrightarrow> i \<in> spec_id ` set (topology_outputs m)"
proof -
  let ?named = "Option.bind (primary_output m) (\<lambda>name. find (\<lambda>spec. spec_name spec = name) (topology_outputs m))"
  have named: "spec \<in> set (topology_outputs m)" if "?named = Some spec" for spec
    using that by (auto simp: find_Some_iff split: Option.bind_splits)
  show "snapshot_ticker m = None \<longleftrightarrow> topology_outputs m = []"
    by (cases ?named) (use named in \<open>auto simp: snapshot_ticker_def\<close>)
  show "i \<in> spec_id ` set (topology_outputs m)" if "snapshot_ticker m = Some i"
    using that named by (cases ?named) (auto simp: snapshot_ticker_def dest: fastest_output_Some)
qed

lemma primary_is_ticker:
  assumes "topology_ok m" and "primary_output m = Some name" and "spec \<in> set (topology_outputs m)" and "spec_name spec = name"
  shows "snapshot_ticker m = Some (spec_id spec)"
proof -
  have "distinct (map spec_name (topology_outputs m))" using assms(1) by (simp add: topology_ok_def validate_outputs_iff)
  then have "find (\<lambda>spec. spec_name spec = name) (topology_outputs m) = Some spec"
    using assms(3,4) by (intro find_unique) (auto dest: map_inj_on distinct_map [THEN iffD1] inj_onD)
  then show ?thesis by (simp add: snapshot_ticker_def assms(2))
qed

lemma fastest_is_ticker:
  assumes "\<forall>spec \<in> set (topology_outputs m). primary_output m \<noteq> Some (spec_name spec)" and "snapshot_ticker m = Some i"
  obtains spec where "spec \<in> set (topology_outputs m)" "spec_id spec = i" "\<forall>x \<in> set (topology_outputs m). ticker_before x spec"
proof -
  have "Option.bind (primary_output m) (\<lambda>name. find (\<lambda>spec. spec_name spec = name) (topology_outputs m)) = None"
    using assms(1) by (auto simp: find_None_iff split: Option.bind_splits)
  then obtain spec where "fastest_output (topology_outputs m) = Some spec" "spec_id spec = i"
    using assms(2) by (auto simp: snapshot_ticker_def)
  then show thesis using that fastest_output_Some by blast
qed

text \<open>The bounds of the desktop, for doubles that are ordered.\<close>

lemma f64_min_below:
  "a \<noteq> NaN \<Longrightarrow> b \<noteq> NaN \<Longrightarrow> f64_min a b \<noteq> NaN \<and> \<not> f64_less a (f64_min a b) \<and> \<not> f64_less b (f64_min a b)"
  by (cases a; cases b) (auto simp: f64_min_def)

lemma f64_max_above:
  "a \<noteq> NaN \<Longrightarrow> b \<noteq> NaN \<Longrightarrow> f64_max a b \<noteq> NaN \<and> \<not> f64_less (f64_max a b) a \<and> \<not> f64_less (f64_max a b) b"
  by (cases a; cases b) (auto simp: f64_max_def)

lemma f64_not_less_trans: "b \<noteq> NaN \<Longrightarrow> \<not> f64_less a b \<Longrightarrow> \<not> f64_less b c \<Longrightarrow> \<not> f64_less a c"
  by (cases a; cases b; cases c) auto

lemma f64_less_irrefl [simp]: "\<not> f64_less a a"
  by (cases a) auto

lemma fold_min_below:
  "a \<noteq> NaN \<Longrightarrow> NaN \<notin> set xs \<Longrightarrow> foldl f64_min a xs \<noteq> NaN \<and> (\<forall>x \<in> set (a # xs). \<not> f64_less x (foldl f64_min a xs))"
proof (induction xs arbitrary: a)
  case (Cons y xs)
  have y: "y \<noteq> NaN" "NaN \<notin> set xs" using Cons.prems(2) by auto
  note min = f64_min_below [OF Cons.prems(1) y(1)]
  note IH = Cons.IH [OF min [THEN conjunct1] y(2)]
  have "\<not> f64_less x (foldl f64_min (f64_min a y) xs)" if "\<not> f64_less x (f64_min a y)" for x
    using f64_not_less_trans [of "f64_min a y" x] min that IH by auto
  with min IH show ?case by auto
qed simp

lemma fold_max_above:
  "a \<noteq> NaN \<Longrightarrow> NaN \<notin> set xs \<Longrightarrow> foldl f64_max a xs \<noteq> NaN \<and> (\<forall>x \<in> set (a # xs). \<not> f64_less (foldl f64_max a xs) x)"
proof (induction xs arbitrary: a)
  case (Cons y xs)
  have y: "y \<noteq> NaN" "NaN \<notin> set xs" using Cons.prems(2) by auto
  note max = f64_max_above [OF Cons.prems(1) y(1)]
  note IH = Cons.IH [OF max [THEN conjunct1] y(2)]
  have "\<not> f64_less (foldl f64_max (f64_max a y) xs) x" if "\<not> f64_less (f64_max a y) x" for x
    using f64_not_less_trans [of "f64_max a y" _ x] max that IH by auto
  with max IH show ?case by auto
qed simp

lemma valid_rect_not_NaN:
  assumes "valid_spec spec"
  shows "rect_x (logical_rect_of spec) \<noteq> NaN" "rect_y (logical_rect_of spec) \<noteq> NaN"
    "rect_right (logical_rect_of spec) \<noteq> NaN" "rect_bottom (logical_rect_of spec) \<noteq> NaN"
proof -
  have finite: "f64_is_finite (rect_width (logical_rect_of spec))" "f64_is_finite (rect_height (logical_rect_of spec))"
    using assms by (simp_all add: valid_spec_def coordinate_overflow_def)
  have "f64_add a b \<noteq> NaN" if "f64_is_finite a" "f64_is_finite b" for a b
    using that by (cases a; cases b) auto
  then show "rect_right (logical_rect_of spec) \<noteq> NaN" "rect_bottom (logical_rect_of spec) \<noteq> NaN"
    using finite valid_spec_finite [of spec] by (simp_all add: rect_right_def rect_bottom_def)
  show "rect_x (logical_rect_of spec) \<noteq> NaN" "rect_y (logical_rect_of spec) \<noteq> NaN"
    using valid_spec_finite [of spec] by auto
qed

text \<open>Every edge of an output lies within the edges that the bounds are made of.\<close>

lemma logical_bounds_cover:
  assumes "list_all valid_spec specs" and "logical_bounds specs = Some b" and "spec \<in> set specs"
  obtains right bottom where "right \<noteq> NaN" "bottom \<noteq> NaN" "rect_x b \<noteq> NaN" "rect_y b \<noteq> NaN"
    "rect_width b = f64_sub right (rect_x b)" "rect_height b = f64_sub bottom (rect_y b)"
    "\<not> f64_less (rect_x (logical_rect_of spec)) (rect_x b)" "\<not> f64_less (rect_y (logical_rect_of spec)) (rect_y b)"
    "\<not> f64_less right (rect_right (logical_rect_of spec))" "\<not> f64_less bottom (rect_bottom (logical_rect_of spec))"
proof -
  obtain first rest where specs: "specs = first # rest" using assms(3) by (cases specs) auto
  let ?rs = "map logical_rect_of rest" and ?r = "logical_rect_of first"
  have valid: "\<And>s. s \<in> set specs \<Longrightarrow> valid_spec s" using assms(1) by (simp add: list_all_iff)
  have nan: "NaN \<notin> set (map rect_x ?rs)" "NaN \<notin> set (map rect_y ?rs)" "NaN \<notin> set (map rect_right ?rs)"
    "NaN \<notin> set (map rect_bottom ?rs)"
    using valid valid_rect_not_NaN unfolding specs by (force simp: image_iff)+
  have first: "rect_x ?r \<noteq> NaN" "rect_y ?r \<noteq> NaN" "rect_right ?r \<noteq> NaN" "rect_bottom ?r \<noteq> NaN"
    using valid_rect_not_NaN [OF valid, of first] specs by simp_all
  have at: "spec = first \<or> spec \<in> set rest" using assms(3) unfolding specs by simp
  have b: "b = \<lparr>rect_x = foldl f64_min (rect_x ?r) (map rect_x ?rs), rect_y = foldl f64_min (rect_y ?r) (map rect_y ?rs),
      rect_width = f64_sub (foldl f64_max (rect_right ?r) (map rect_right ?rs)) (foldl f64_min (rect_x ?r) (map rect_x ?rs)),
      rect_height = f64_sub (foldl f64_max (rect_bottom ?r) (map rect_bottom ?rs)) (foldl f64_min (rect_y ?r) (map rect_y ?rs))\<rparr>"
    using assms(2) by (simp add: logical_bounds_def specs Let_def)
  show thesis
    by (rule that [of "foldl f64_max (rect_right ?r) (map rect_right ?rs)" "foldl f64_max (rect_bottom ?r) (map rect_bottom ?rs)"])
      (use fold_min_below [OF first(1) nan(1)] fold_min_below [OF first(2) nan(2)] fold_max_above [OF first(3) nan(3)]
        fold_max_above [OF first(4) nan(4)] at in \<open>auto simp: b\<close>)
qed

text \<open>
  The desktop ticks with an output that is there. A snapshot has a ticker exactly when there is an output,
  and the ticker is one of them: the configured primary output while it is connected, and otherwise an output of
  the highest refresh rate, of several the one with the least identifier.
\<close>
lemma ticker_is_primary_or_fastest:
  assumes "topology_reachable m"
  shows "(snap_ticker (topology_snapshot_of m) = None \<longleftrightarrow> snap_outputs (topology_snapshot_of m) = []) \<and>
    (\<forall>spec \<in> set (topology_outputs m). primary_output m = Some (spec_name spec) \<longrightarrow>
       snap_ticker (topology_snapshot_of m) = Some (spec_id spec)) \<and>
    (list_all (\<lambda>spec. primary_output m \<noteq> Some (spec_name spec)) (topology_outputs m) \<longrightarrow>
     (\<forall>i. snap_ticker (topology_snapshot_of m) = Some i \<longrightarrow>
       (\<exists>spec \<in> set (topology_outputs m). spec_id spec = i \<and> (\<forall>x \<in> set (topology_outputs m).
          spec_refresh_millihz x < spec_refresh_millihz spec \<or>
          spec_refresh_millihz x = spec_refresh_millihz spec \<and> spec_id spec \<le> spec_id x))))"
proof (intro conjI allI impI ballI)
  show "snap_ticker (topology_snapshot_of m) = None \<longleftrightarrow> snap_outputs (topology_snapshot_of m) = []"
    by (simp add: topology_snapshot_of_def snapshot_ticker_cases)
next
  fix spec assume "spec \<in> set (topology_outputs m)" "primary_output m = Some (spec_name spec)"
  then show "snap_ticker (topology_snapshot_of m) = Some (spec_id spec)"
    using primary_is_ticker [OF topology_reachable_ok [OF assms]] by (simp add: topology_snapshot_of_def)
next
  fix i assume "list_all (\<lambda>spec. primary_output m \<noteq> Some (spec_name spec)) (topology_outputs m)"
    and "snap_ticker (topology_snapshot_of m) = Some i"
  then obtain spec where "spec \<in> set (topology_outputs m)" "spec_id spec = i"
      "\<forall>x \<in> set (topology_outputs m). ticker_before x spec"
    using fastest_is_ticker [of m i] by (auto simp: list_all_iff topology_snapshot_of_def)
  then show "\<exists>spec \<in> set (topology_outputs m). spec_id spec = i \<and> (\<forall>x \<in> set (topology_outputs m).
      spec_refresh_millihz x < spec_refresh_millihz spec \<or>
      spec_refresh_millihz x = spec_refresh_millihz spec \<and> spec_id spec \<le> spec_id x)"
    unfolding ticker_before_def by blast
qed

section \<open>A sample\<close>

text \<open>A rotated laptop panel and a monitor on its right, in natural pixels.\<close>

definition sample_panel :: output_spec where
  "sample_panel = \<lparr>spec_id = 41, spec_name = ''eDP-1'', spec_position = \<lparr>point_x = 0, point_y = 0\<rparr>,
     spec_mode = \<lparr>pixel_width = 2560, pixel_height = 1600\<rparr>, spec_scale_120 = 240, spec_refresh_millihz = 60000,
     spec_transform = Rotate90\<rparr>"

definition sample_monitor :: output_spec where
  "sample_monitor = \<lparr>spec_id = 52, spec_name = ''DP-1'', spec_position = \<lparr>point_x = 800, point_y = 0\<rparr>,
     spec_mode = \<lparr>pixel_width = 1920, pixel_height = 1080\<rparr>, spec_scale_120 = 120, spec_refresh_millihz = 143981,
     spec_transform = Normal\<rparr>"

lemma f64_round_numerals [simp]:
  "f64_round 0 = Fin 0" "f64_round 1 = Fin 1"
  "(numeral k :: int) \<le> 1099511627776 \<Longrightarrow> f64_round (numeral k) = Fin (numeral k)"
  using f64_round_int [of 0] f64_round_int [of 1] f64_round_int [of "numeral k"] by simp_all

lemmas rect_evals = logical_rect_of_def transformed_pixel_size_def logical_extent_def SCALE_BASE_def swaps_axes_def
  f64_from_i32_def rect_right_def rect_bottom_def Let_def

lemma sample_rects:
  "logical_rect_of sample_panel = \<lparr>rect_x = Fin 0, rect_y = Fin 0, rect_width = Fin 800, rect_height = Fin 1280\<rparr>"
  "logical_rect_of sample_monitor = \<lparr>rect_x = Fin 800, rect_y = Fin 0, rect_width = Fin 1920, rect_height = Fin 1080\<rparr>"
  "logical_rect_of (sample_monitor\<lparr>spec_position := \<lparr>point_x = 799, point_y = 0\<rparr>\<rparr>) =
     \<lparr>rect_x = Fin 799, rect_y = Fin 0, rect_width = Fin 1920, rect_height = Fin 1080\<rparr>"
  by (simp_all add: rect_evals sample_panel_def sample_monitor_def)

lemmas validation_evals = validate_outputs_def coordinate_overflow_def logical_rects_overlap_def rect_right_def rect_bottom_def
  f64_from_i32_def i32_min_def i32_max_def sample_rects Let_def

lemma sample_names: "trim ''eDP-1'' = ''eDP-1''" "trim ''DP-1'' = ''DP-1''"
  by code_simp+

lemma sample_fields [simp]:
  "spec_id sample_panel = 41" "spec_name sample_panel = ''eDP-1''" "spec_refresh_millihz sample_panel = 60000"
  "spec_mode sample_panel = \<lparr>pixel_width = 2560, pixel_height = 1600\<rparr>" "spec_scale_120 sample_panel = 240"
  "spec_id sample_monitor = 52" "spec_name sample_monitor = ''DP-1''" "spec_refresh_millihz sample_monitor = 143981"
  "spec_mode sample_monitor = \<lparr>pixel_width = 1920, pixel_height = 1080\<rparr>" "spec_scale_120 sample_monitor = 120"
  by (simp_all add: sample_panel_def sample_monitor_def)

lemma sample_valid:
  "validate_outputs [sample_panel, sample_monitor] = Inr ()"
  "validate_outputs [sample_monitor] = Inr ()"
  "validate_outputs [sample_panel, sample_monitor\<lparr>spec_position := \<lparr>point_x = 799, point_y = 0\<rparr>\<rparr>] =
     Inl (OverlappingOutputs ''DP-1'' ''eDP-1'')"
  by (simp_all add: validation_evals sample_names)

definition sample_topology :: topology_manager where
  "sample_topology = \<lparr>topology_epoch = 1, topology_outputs = [sample_panel, sample_monitor], primary_output = None\<rparr>"

lemma sample_topology_reachable: "topology_reachable sample_topology"
proof -
  have "sample_topology = snd (apply_with_primary_output topology_default [Upsert sample_monitor, Upsert sample_panel] None)"
    by (simp add: apply_with_primary_output_def topology_default_def sample_topology_def sample_valid spec_of_def)
  then show ?thesis by (rule ssubst) (intro topology_reachable.intros)
qed

theorem outputs_never_share_a_point_witness:
  "distinct (map spec_name (topology_outputs sample_topology)) \<and>
   rect_contains (logical_rect_of sample_panel) (400, 300) \<and> \<not> rect_contains (logical_rect_of sample_monitor) (400, 300) \<and>
   snd (apply_with_primary_output sample_topology [Upsert (sample_monitor\<lparr>spec_position := \<lparr>point_x = 799, point_y = 0\<rparr>\<rparr>)] None) =
     sample_topology"
proof -
  note fact = outputs_never_share_a_point [OF sample_topology_reachable]
  have in_list: "sample_panel \<in> set (topology_outputs sample_topology)"
    "sample_monitor \<in> set (topology_outputs sample_topology)" by (simp_all add: sample_topology_def)
  have distinct: "sample_panel \<noteq> sample_monitor" using sample_fields(1,6) by force
  have refused: "fst (apply_with_primary_output sample_topology
      [Upsert (sample_monitor\<lparr>spec_position := \<lparr>point_x = 799, point_y = 0\<rparr>\<rparr>)] None) =
      Inl (OverlappingOutputs ''DP-1'' ''eDP-1'')"
    by (simp add: apply_with_primary_output_def sample_topology_def sample_valid)
  have inside: "rect_contains (logical_rect_of sample_panel) (400, 300)"
    by (simp add: rect_contains_def sample_rects rect_right_def rect_bottom_def)
  show ?thesis using fact in_list distinct refused inside by (metis prod.collapse)
qed

definition sample_commit :: topology_commit where
  "sample_commit = \<lparr>previous_epoch = 1, commit_epoch = 2, commit_added = [], commit_removed = [41], commit_changed = []\<rparr>"

theorem commit_reports_exactly_what_changed_witness:
  "set (commit_removed sample_commit) = {41} \<and> \<not> is_noop sample_commit \<and>
   spec_of [sample_monitor] = foldl change_map (spec_of (topology_outputs sample_topology)) [RemoveOutput 41]"
proof -
  let ?m = "\<lparr>topology_epoch = 2, topology_outputs = [sample_monitor], primary_output = Some ''DP-1''\<rparr>"
  have "apply_with_primary_output sample_topology [RemoveOutput 41] (Some ''DP-1'') = (Inr sample_commit, ?m)"
    by (simp add: apply_with_primary_output_def sample_topology_def sample_valid spec_of_def sample_commit_def
        max_def word_le_nat_alt)
  from commit_reports_exactly_what_changed [OF sample_topology_reachable this, THEN conjunct1]
  have "spec_of [sample_monitor] = foldl change_map (spec_of (topology_outputs sample_topology)) [RemoveOutput 41]"
    by (simp only: topology_manager.simps)
  moreover have "set (commit_removed sample_commit) = {41}" "\<not> is_noop sample_commit"
    by (simp_all add: sample_commit_def is_noop_def)
  ultimately show ?thesis by (intro conjI)
qed

end
