(* ===== verification/Output_Projection.thy ===== *)
theory Output_Projection
  imports Output_Topology
begin

text \<open>
  From connectors and preferences to a topology (\<^verbatim>\<open>output_topology.rs\<close>): the effective transform of a panel under the
  orientation sensor, the choice of a mode and of a default scale, the outputs to light, the placement of outputs
  without a configured position and the move to a common origin, and the requests of the settings that
  change the preferences.

  What the source reads of a connector and of its modes (the \<open>drm\<close> and \<open>smithay\<close> crates) is a record of the values
  read. \<open>hypot\<close>, whose precision the standard library leaves open, is a parameter. A \<open>BTreeMap\<close> keyed by a connector name
  is a map, a set of names a set. The error texts are constructors.

  The theory shows that an accepted request is what the next projection shows, that the chosen mode has the configured
  size and the closest refresh rate, and that outputs without a position are placed on the right of the others, at a common origin.
\<close>

section \<open>Preferences\<close>

datatype scrolling_layout_axis = Auto | Horizontal | Vertical

fun settings_name :: "scrolling_layout_axis \<Rightarrow> string" where
  "settings_name Auto = ''auto''"
| "settings_name Horizontal = ''horizontal''"
| "settings_name Vertical = ''vertical''"

definition from_settings_name :: "string \<Rightarrow> scrolling_layout_axis option" where
  "from_settings_name name = (if name = ''auto'' then Some Auto else if name = ''horizontal'' then Some Horizontal
     else if name = ''vertical'' then Some Vertical else None)"

record output_mode_preference =
  pref_width :: "nat option"
  pref_height :: "nat option"
  pref_refresh_millihz :: "nat option"

record runtime_output_configuration =
  config_primary_output :: "string option"
  positions :: "string \<rightharpoonup> logical_point"
  modes :: "string \<rightharpoonup> output_mode_preference"
  scales_120 :: "string \<rightharpoonup> nat"
  transforms :: "string \<rightharpoonup> output_transform"
  scrolling_layout_axes :: "string \<rightharpoonup> scrolling_layout_axis"
  sensor_rotation :: output_transform
  vrr_outputs :: "string set"
  disabled_outputs :: "string set"
  lid_closed :: bool

text \<open>The fields of the command line and the configuration file that the configuration starts from.\<close>

record output_options =
  opt_primary_output :: "string option"
  opt_positions :: "string \<rightharpoonup> logical_point"
  opt_mode_sizes :: "string \<rightharpoonup> nat \<times> nat"
  opt_refresh_millihz :: "string \<rightharpoonup> nat"
  opt_scales_120 :: "string \<rightharpoonup> nat"
  opt_transforms :: "string \<rightharpoonup> output_transform"
  opt_scrolling_layout_axes :: "string \<rightharpoonup> scrolling_layout_axis"
  opt_vrr_outputs :: "string set"
  opt_disabled_outputs :: "string set"

definition from_options :: "output_options \<Rightarrow> runtime_output_configuration" where
  "from_options opts =
    (let refreshed = (\<lambda>name. map_option (\<lambda>refresh. \<lparr>pref_width = None, pref_height = None, pref_refresh_millihz = Some refresh\<rparr>)
           (opt_refresh_millihz opts name));
         sized = (\<lambda>name. case opt_mode_sizes opts name of
             None \<Rightarrow> refreshed name
           | Some (width, height) \<Rightarrow>
               let preference = (case refreshed name of Some p \<Rightarrow> p
                 | None \<Rightarrow> \<lparr>pref_width = None, pref_height = None, pref_refresh_millihz = None\<rparr>)
               in Some (preference\<lparr>pref_width := Some width, pref_height := Some height\<rparr>))
     in \<lparr>config_primary_output = opt_primary_output opts, positions = opt_positions opts, modes = sized,
         scales_120 = opt_scales_120 opts, transforms = opt_transforms opts,
         scrolling_layout_axes = opt_scrolling_layout_axes opts, sensor_rotation = Normal,
         vrr_outputs = opt_vrr_outputs opts, disabled_outputs = opt_disabled_outputs opts, lid_closed = False\<rparr>)"

definition orientation_sensor_output :: "string \<Rightarrow> bool" where
  "orientation_sensor_output name = is_internal_panel name"

definition effective_transform :: "runtime_output_configuration \<Rightarrow> string \<Rightarrow> output_transform" where
  "effective_transform config name =
    (let baseline = (case transforms config name of Some t \<Rightarrow> t | None \<Rightarrow> Normal)
     in if orientation_sensor_output name then rotated_by baseline (sensor_rotation config) else baseline)"

definition baseline_transform :: "runtime_output_configuration \<Rightarrow> string \<Rightarrow> output_transform \<Rightarrow> output_transform" where
  "baseline_transform config name effective =
    (if orientation_sensor_output name then rotated_by effective (inverse_rotation (sensor_rotation config)) else effective)"

definition scrolling_layout_axis_of :: "runtime_output_configuration \<Rightarrow> string \<Rightarrow> scrolling_layout_axis" where
  "scrolling_layout_axis_of config name = (case scrolling_layout_axes config name of Some axis \<Rightarrow> axis | None \<Rightarrow> Auto)"

section \<open>Connectors and modes\<close>

text \<open>A mode of the kernel: its size, whether it is preferred, and the size and rate it has as an \<open>OutputMode\<close>.\<close>

record drm_mode =
  mode_size :: "nat \<times> nat"
  mode_preferred :: bool
  output_mode_w :: int
  output_mode_h :: int
  output_mode_refresh :: int

record connected_connector =
  interface_name :: string
  interface_id :: nat
  interface_dsi :: bool
  connector_handle :: nat
  connector_modes :: "drm_mode list"
  physical_size :: "(nat \<times> nat) option"
  connector_crtc :: nat

definition connector_name :: "connected_connector \<Rightarrow> string" where
  "connector_name c = interface_name c @ ''-'' @ decimal (interface_id c)"

definition u32_of_int :: "int \<Rightarrow> nat option" where
  "u32_of_int n = (if 0 \<le> n \<and> n < 2 ^ 32 then Some (nat n) else None)"

definition u16_of :: "nat \<Rightarrow> nat option" where
  "u16_of n = (if n < 65536 then Some n else None)"

definition abs_diff :: "nat \<Rightarrow> nat \<Rightarrow> nat" where
  "abs_diff a b = (if a < b then b - a else a - b)"

definition closer_refresh :: "nat \<Rightarrow> nat \<Rightarrow> nat \<Rightarrow> bool" where
  "closer_refresh configured a b = (abs_diff a configured < abs_diff b configured \<or>
     abs_diff a configured = abs_diff b configured \<and> b < a)"

definition select_refresh_millihz :: "nat list \<Rightarrow> nat option \<Rightarrow> nat option" where
  "select_refresh_millihz refreshes configured = (case refreshes of
       [] \<Rightarrow> None
     | refresh # rest \<Rightarrow> Some (case configured of
         Some target \<Rightarrow> foldl (\<lambda>best r. if closer_refresh target r best then r else best) refresh rest
       | None \<Rightarrow> foldl max refresh rest))"

definition select_output_mode :: "drm_mode list \<Rightarrow> output_mode_preference option \<Rightarrow> drm_mode option" where
  "select_output_mode available preference =
    (case option_or (find mode_preferred available) (case available of [] \<Rightarrow> None | m # _ \<Rightarrow> Some m) of
       None \<Rightarrow> None
     | Some preferred \<Rightarrow>
         let selected_size = (case preference of
               None \<Rightarrow> Some (mode_size preferred)
             | Some p \<Rightarrow> (case (pref_width p, pref_height p) of
                 (Some width, Some height) \<Rightarrow> (case (u16_of width, u16_of height) of
                     (Some w, Some h) \<Rightarrow> Some (w, h) | _ \<Rightarrow> None)
               | (None, None) \<Rightarrow> Some (mode_size preferred)
               | _ \<Rightarrow> None));
             configured = Option.bind preference pref_refresh_millihz
         in case selected_size of None \<Rightarrow> None | Some size' \<Rightarrow>
           let matching = List.map_filter (\<lambda>m. if mode_size m = size'
                 then map_option (\<lambda>refresh. (m, refresh)) (u32_of_int (output_mode_refresh m)) else None) available
           in case select_refresh_millihz (map snd matching) configured of
                None \<Rightarrow> None
              | Some selected \<Rightarrow> map_option fst (find (\<lambda>(m, refresh). refresh = selected) matching))"

text \<open>\<open>as u32\<close> of a double.\<close>

fun f64_to_u32 :: "f64 \<Rightarrow> nat" where
  "f64_to_u32 (Fin a) = nat (max 0 (min (2 ^ 32 - 1) (rat_trunc a)))"
| "f64_to_u32 (Inf p) = (if p then 2 ^ 32 - 1 else 0)"
| "f64_to_u32 NaN = 0"

definition HANDHELD_LOGICAL_PPI :: f64 where "HANDHELD_LOGICAL_PPI = Fin 225"
definition DENSITY_SCALE_STEP_120 :: f64 where "DENSITY_SCALE_STEP_120 = Fin 30"

definition f64_le :: "f64 \<Rightarrow> f64 \<Rightarrow> bool" where
  "f64_le a b = (f64_less a b \<or> a = b \<and> a \<noteq> NaN)"

text \<open>The diagonal of the panel is positive, since both its sides are.\<close>

definition density_scale_120 :: "f64 \<Rightarrow> f64 \<Rightarrow> nat" where
  "density_scale_120 diagonal_pixels diagonal_mm =
    (let pixels_per_inch = f64_mul (f64_div diagonal_pixels diagonal_mm) (f64_literal (254 / 10))
     in if \<not> (f64_le HANDHELD_LOGICAL_PPI pixels_per_inch \<and> f64_le pixels_per_inch (Fin 2000)) then SCALE_BASE
        else let scale_120 = f64_mul (f64_div pixels_per_inch HANDHELD_LOGICAL_PPI) (Fin (of_nat SCALE_BASE))
          in f64_to_u32 (f64_mul (f64_rounded (f64_div scale_120 DENSITY_SCALE_STEP_120)) DENSITY_SCALE_STEP_120))"

definition default_scale_120 :: "(f64 \<Rightarrow> f64 \<Rightarrow> f64) \<Rightarrow> connected_connector \<Rightarrow> nat \<times> nat \<Rightarrow> nat" where
  "default_scale_120 hypot c size' = (case physical_size c of
       None \<Rightarrow> SCALE_BASE
     | Some (width_mm, height_mm) \<Rightarrow>
         if \<not> interface_dsi c \<or> width_mm = 0 \<or> height_mm = 0 then SCALE_BASE
         else density_scale_120 (hypot (Fin (of_nat (fst size'))) (Fin (of_nat (snd size'))))
           (hypot (Fin (of_nat width_mm)) (Fin (of_nat height_mm))))"

section \<open>The outputs to light\<close>

record connected_output =
  co_id :: nat
  co_name :: string
  co_connector :: nat
  co_crtc :: nat
  co_mode :: drm_mode
  co_transform :: output_transform
  co_vrr_enabled :: bool
  co_default_scale_120 :: nat

datatype output_error =
    NoMode string "output_mode_preference option"
  | OutOfRange
  | LayoutOverflow
  | NormalizationXOverflow
  | NormalizationYOverflow
  | TopologyRefused topology_error

text \<open>\<open>collect::<Result<Vec<_>, _>>\<close>: the first error ends the pass.\<close>

fun try_map :: "('a \<Rightarrow> 'e + 'b) \<Rightarrow> 'a list \<Rightarrow> 'e + 'b list" where
  "try_map f [] = Inr []"
| "try_map f (x # xs) = (case f x of Inl e \<Rightarrow> Inl e | Inr y \<Rightarrow>
     (case try_map f xs of Inl e \<Rightarrow> Inl e | Inr ys \<Rightarrow> Inr (y # ys)))"

definition configured_output :: "(f64 \<Rightarrow> f64 \<Rightarrow> f64) \<Rightarrow> runtime_output_configuration \<Rightarrow> connected_connector \<Rightarrow>
    output_error + connected_output" where
  "configured_output hypot config c =
    (let name = connector_name c; preference = modes config name in
     case select_output_mode (connector_modes c) preference of
       None \<Rightarrow> Inl (NoMode name preference)
     | Some m \<Rightarrow> Inr \<lparr>co_id = connector_handle c, co_name = name, co_connector = connector_handle c,
         co_crtc = connector_crtc c, co_mode = m, co_transform = effective_transform config name,
         co_vrr_enabled = (name \<in> vrr_outputs config), co_default_scale_120 = default_scale_120 hypot c (mode_size m)\<rparr>)"

definition configured_outputs :: "(f64 \<Rightarrow> f64 \<Rightarrow> f64) \<Rightarrow> connected_connector list \<Rightarrow> nat \<Rightarrow> runtime_output_configuration \<Rightarrow>
    output_error + connected_output list \<times> output_selection" where
  "configured_outputs hypot conns max_outputs config =
    (let selection = select_outputs (map connector_name conns) (disabled_outputs config) (lid_closed config);
         named = take max_outputs (filter (\<lambda>c. connector_name c \<in> lit selection) conns)
     in case try_map (configured_output hypot config) named of
          Inl err \<Rightarrow> Inl err
        | Inr outs \<Rightarrow> Inr (outs, selection))"

section \<open>Placement\<close>

fun f64_ceil :: "f64 \<Rightarrow> f64" where
  "f64_ceil (Fin a) = Fin (of_int \<lceil>a\<rceil>)"
| "f64_ceil x = x"

definition i32_of_int :: "int \<Rightarrow> int option" where
  "i32_of_int n = (if i32_min \<le> n \<and> n \<le> i32_max then Some n else None)"

definition ceil_width :: "output_spec \<Rightarrow> output_error + int" where
  "ceil_width spec = (case i32_of_int (f64_to_i64 (f64_ceil (rect_width (logical_rect_of spec)))) of
     None \<Rightarrow> Inl OutOfRange | Some w \<Rightarrow> Inr w)"

record horizontal_output_placement =
  default_x :: int

definition placement_default :: horizontal_output_placement where
  "placement_default = \<lparr>default_x = 0\<rparr>"

definition placement_resolve :: "horizontal_output_placement \<Rightarrow> logical_point option \<Rightarrow> logical_point" where
  "placement_resolve placement configured = (case configured of Some point \<Rightarrow> point
     | None \<Rightarrow> \<lparr>point_x = default_x placement, point_y = 0\<rparr>)"

definition placement_include :: "horizontal_output_placement \<Rightarrow> logical_point \<Rightarrow> int \<Rightarrow>
    output_error + horizontal_output_placement" where
  "placement_include placement position' logical_width = (case i32_of_int (point_x position' + logical_width) of
     None \<Rightarrow> Inl LayoutOverflow
   | Some right \<Rightarrow> Inr (placement\<lparr>default_x := max (default_x placement) right\<rparr>))"

definition include_spec :: "horizontal_output_placement \<Rightarrow> output_spec \<Rightarrow> output_error + horizontal_output_placement" where
  "include_spec placement spec = (case ceil_width spec of Inl err \<Rightarrow> Inl err
     | Inr w \<Rightarrow> placement_include placement (spec_position spec) w)"

definition pending_spec :: "runtime_output_configuration \<Rightarrow> connected_output \<Rightarrow> output_error + output_spec \<times> bool" where
  "pending_spec config out =
    (case (u32_of_int (output_mode_w (co_mode out)), u32_of_int (output_mode_h (co_mode out))) of
       (Some width, Some height) \<Rightarrow>
         let configured_position = positions config (co_name out);
             scale = (case scales_120 config (co_name out) of Some s \<Rightarrow> s | None \<Rightarrow> co_default_scale_120 out)
         in (case u32_of_int (output_mode_refresh (co_mode out)) of
              Some refresh \<Rightarrow> Inr (\<lparr>spec_id = co_id out, spec_name = co_name out,
                spec_position = (case configured_position of Some point \<Rightarrow> point | None \<Rightarrow> \<lparr>point_x = 0, point_y = 0\<rparr>),
                spec_mode = \<lparr>pixel_width = width, pixel_height = height\<rparr>, spec_scale_120 = scale,
                spec_refresh_millihz = refresh, spec_transform = co_transform out\<rparr>, configured_position \<noteq> None)
            | None \<Rightarrow> Inl OutOfRange)
     | _ \<Rightarrow> Inl OutOfRange)"

fun include_configured :: "horizontal_output_placement \<Rightarrow> (output_spec \<times> bool) list \<Rightarrow>
    output_error + horizontal_output_placement" where
  "include_configured placement [] = Inr placement"
| "include_configured placement ((spec, configured) # pending) =
    (if configured then (case include_spec placement spec of Inl err \<Rightarrow> Inl err
       | Inr placement \<Rightarrow> include_configured placement pending)
     else include_configured placement pending)"

fun place_pending :: "horizontal_output_placement \<Rightarrow> (output_spec \<times> bool) list \<Rightarrow> output_error + output_spec list" where
  "place_pending placement [] = Inr []"
| "place_pending placement ((spec, configured) # pending) =
    (let spec = (if configured then spec else spec\<lparr>spec_position := placement_resolve placement None\<rparr>)
     in case include_spec placement spec of
          Inl err \<Rightarrow> Inl err
        | Inr placement \<Rightarrow> (case place_pending placement pending of
            Inl err \<Rightarrow> Inl err
          | Inr specs \<Rightarrow> Inr (spec # specs)))"

definition rebase_spec :: "int \<Rightarrow> int \<Rightarrow> output_spec \<Rightarrow> output_error + output_spec" where
  "rebase_spec origin_x origin_y spec =
    (case i32_of_int (point_x (spec_position spec) - origin_x) of
       None \<Rightarrow> Inl NormalizationXOverflow
     | Some x \<Rightarrow> (case i32_of_int (point_y (spec_position spec) - origin_y) of
         None \<Rightarrow> Inl NormalizationYOverflow
       | Some y \<Rightarrow> Inr (spec\<lparr>spec_position := \<lparr>point_x = x, point_y = y\<rparr>\<rparr>)))"

definition normalize_live_output_positions :: "output_spec list \<Rightarrow> output_error + output_spec list" where
  "normalize_live_output_positions specs = (case specs of
       [] \<Rightarrow> Inr []
     | first # rest \<Rightarrow>
         let origin_x = foldl min (point_x (spec_position first)) (map (\<lambda>s. point_x (spec_position s)) rest);
             origin_y = foldl min (point_y (spec_position first)) (map (\<lambda>s. point_y (spec_position s)) rest)
         in try_map (rebase_spec origin_x origin_y) specs)"

definition output_specs :: "connected_output list \<Rightarrow> runtime_output_configuration \<Rightarrow> output_error + output_spec list" where
  "output_specs outs config = (case try_map (pending_spec config) outs of
       Inl err \<Rightarrow> Inl err
     | Inr pending \<Rightarrow> (case include_configured placement_default pending of
         Inl err \<Rightarrow> Inl err
       | Inr placement \<Rightarrow> (case place_pending placement pending of
           Inl err \<Rightarrow> Inl err
         | Inr specs \<Rightarrow> normalize_live_output_positions specs)))"

definition topology_for_outputs :: "connected_output list \<Rightarrow> runtime_output_configuration \<Rightarrow>
    output_error + topology_manager" where
  "topology_for_outputs outs config = (case output_specs outs config of
       Inl err \<Rightarrow> Inl err
     | Inr specs \<Rightarrow> (case new_with_primary_output specs (config_primary_output config) of
         Inl err \<Rightarrow> Inl (TopologyRefused err)
       | Inr m \<Rightarrow> Inr m))"

definition update_topology_for_outputs :: "topology_manager \<Rightarrow> connected_output list \<Rightarrow> runtime_output_configuration \<Rightarrow>
    (output_error + topology_snapshot) \<times> topology_manager" where
  "update_topology_for_outputs m outs config = (case output_specs outs config of
       Inl err \<Rightarrow> (Inl err, m)
     | Inr specs \<Rightarrow>
         let desired = spec_id ` set specs;
             removals = map (\<lambda>spec. RemoveOutput (spec_id spec))
               (filter (\<lambda>spec. spec_id spec \<notin> desired) (snap_outputs (topology_snapshot_of m)))
         in case apply_with_primary_output m (removals @ map Upsert specs) (config_primary_output config) of
              (Inl err, m') \<Rightarrow> (Inl (TopologyRefused err), m')
            | (Inr _, m') \<Rightarrow> (Inr (topology_snapshot_of m'), m'))"

section \<open>The requests of the settings\<close>

datatype output_transform_name =
    NameNormal | NameRotate90 | NameRotate180 | NameRotate270 | NameFlipped | NameFlipped90 | NameFlipped180 | NameFlipped270

fun output_transform_name_of :: "output_transform \<Rightarrow> output_transform_name" where
  "output_transform_name_of Normal = NameNormal"
| "output_transform_name_of Rotate90 = NameRotate90"
| "output_transform_name_of Rotate180 = NameRotate180"
| "output_transform_name_of Rotate270 = NameRotate270"
| "output_transform_name_of Flipped = NameFlipped"
| "output_transform_name_of Flipped90 = NameFlipped90"
| "output_transform_name_of Flipped180 = NameFlipped180"
| "output_transform_name_of Flipped270 = NameFlipped270"

fun output_transform_from_name :: "output_transform_name \<Rightarrow> output_transform" where
  "output_transform_from_name NameNormal = Normal"
| "output_transform_from_name NameRotate90 = Rotate90"
| "output_transform_from_name NameRotate180 = Rotate180"
| "output_transform_from_name NameRotate270 = Rotate270"
| "output_transform_from_name NameFlipped = Flipped"
| "output_transform_from_name NameFlipped90 = Flipped90"
| "output_transform_from_name NameFlipped180 = Flipped180"
| "output_transform_from_name NameFlipped270 = Flipped270"

record requested_output_mode =
  req_mode_width :: nat
  req_mode_height :: nat
  req_mode_refresh :: nat

record requested_output =
  req_name :: string
  req_enabled :: bool
  req_powered :: bool
  req_x :: int
  req_y :: int
  req_mode :: requested_output_mode
  req_scale :: f64
  req_transform :: output_transform_name
  req_axis :: "scrolling_layout_axis option"
  req_adaptive_sync :: bool

record apply_output_configuration =
  apply_primary_output :: "string option"
  apply_persistent :: bool
  apply_confirmation_timeout :: "nat option"
  apply_outputs :: "requested_output list"

datatype output_control_failure =
    PersistenceUnsupported
  | InvalidTimeout
  | InvalidPrimaryName string
  | IncompleteConfiguration nat nat
  | RepeatedOutput string
  | WrongOutputSet "string set" "string set"
  | NothingEnabled
  | TooManyEnabled nat
  | DisabledPowered string
  | InvalidScaleOf string
  | ModeNotAdvertised string requested_output_mode
  | IndexPanic string

text \<open>\<open>char::is_control\<close> of some character of a text in UTF-8: below \<open>0x20\<close> and from \<open>0x7f\<close> to \<open>0x9f\<close>, the
  last 32 of them in two bytes.\<close>

fun has_control :: "string \<Rightarrow> bool" where
  "has_control [] = False"
| "has_control (c # s) = ((of_char c :: int) < 32 \<or> of_char c = (127 :: int) \<or>
     of_char c = (194 :: int) \<and> (case s of [] \<Rightarrow> False | d # _ \<Rightarrow> 128 \<le> (of_char d :: int) \<and> of_char d \<le> (159 :: int)) \<or>
     has_control s)"

definition invalid_primary_name :: "string \<Rightarrow> bool" where
  "invalid_primary_name name = (name = [] \<or> trim name \<noteq> name \<or> has_control name \<or>
     list_ex (\<lambda>c. c = CHR ''#'' \<or> c = CHR '','' \<or> c = CHR ''='') name)"

fun first_repeated :: "string list \<Rightarrow> string list \<Rightarrow> string option" where
  "first_repeated seen [] = None"
| "first_repeated seen (name # names) = (if name \<in> set seen then Some name else first_repeated (name # seen) names)"

definition request_of :: "requested_output list \<Rightarrow> string \<Rightarrow> requested_output option" where
  "request_of requests name = find (\<lambda>r. req_name r = name) requests"

definition requested_preference :: "requested_output \<Rightarrow> output_mode_preference" where
  "requested_preference r = \<lparr>pref_width = Some (req_mode_width (req_mode r)), pref_height = Some (req_mode_height (req_mode r)),
     pref_refresh_millihz = Some (req_mode_refresh (req_mode r))\<rparr>"

definition scale_acceptable :: "f64 \<Rightarrow> bool" where
  "scale_acceptable scale = (f64_is_finite scale \<and> f64_le (Fin (1 / 4)) scale \<and> f64_le scale (Fin 8))"

definition scale_120_of :: "f64 \<Rightarrow> nat" where
  "scale_120_of scale = f64_to_u32 (f64_rounded (f64_mul scale (Fin (of_nat SCALE_BASE))))"

text \<open>One round of the loop over the connectors: the checks of the requested output and the staged preferences. The
  index operator of the loop panics for a connector without a request.\<close>

definition stage_requested :: "runtime_output_configuration \<Rightarrow> connected_connector \<Rightarrow> requested_output \<Rightarrow>
    runtime_output_configuration \<times> (nat \<rightharpoonup> bool) \<Rightarrow>
    output_control_failure + runtime_output_configuration \<times> (nat \<rightharpoonup> bool)" where
  "stage_requested current c r staged_power =
    (let name = connector_name c; (staged, powers) = staged_power; mode = requested_preference r in
     if \<not> req_enabled r \<and> req_powered r then Inl (DisabledPowered name)
     else if \<not> scale_acceptable (req_scale r) then Inl (InvalidScaleOf name)
     else if select_output_mode (connector_modes c) (Some mode) = None then Inl (ModeNotAdvertised name (req_mode r))
     else Inr
       (staged\<lparr>positions := (positions staged)(name \<mapsto> \<lparr>point_x = req_x r, point_y = req_y r\<rparr>),
          modes := (modes staged)(name \<mapsto> mode),
          scales_120 := (scales_120 staged)(name \<mapsto> scale_120_of (req_scale r)),
          transforms := (transforms staged)(name \<mapsto> baseline_transform current name (output_transform_from_name (req_transform r))),
          scrolling_layout_axes := (case req_axis r of
              None \<Rightarrow> scrolling_layout_axes staged
            | Some axis \<Rightarrow> (scrolling_layout_axes staged)(name := (if axis = Auto then None else Some axis))),
          vrr_outputs := (if req_adaptive_sync r then insert name (vrr_outputs staged) else vrr_outputs staged - {name})\<rparr>,
        powers(connector_handle c := (if req_enabled r then Some (req_powered r) else None))))"

fun stage_requests :: "runtime_output_configuration \<Rightarrow> requested_output list \<Rightarrow> connected_connector list \<Rightarrow>
    runtime_output_configuration \<times> (nat \<rightharpoonup> bool) \<Rightarrow>
    output_control_failure + runtime_output_configuration \<times> (nat \<rightharpoonup> bool)" where
  "stage_requests current requests [] sp = Inr sp"
| "stage_requests current requests (c # cs) sp =
    (case request_of requests (connector_name c) of
       None \<Rightarrow> Inl (IndexPanic (connector_name c))
     | Some r \<Rightarrow> (case stage_requested current c r sp of
         Inl failure \<Rightarrow> Inl failure
       | Inr sp \<Rightarrow> stage_requests current requests cs sp))"

definition wanted :: "requested_output list \<Rightarrow> string \<Rightarrow> bool" where
  "wanted requests name = (case request_of requests name of Some r \<Rightarrow> req_enabled r | None \<Rightarrow> False)"

definition configuration_from_output_request :: "apply_output_configuration \<Rightarrow> connected_connector list \<Rightarrow> nat \<Rightarrow>
    runtime_output_configuration \<Rightarrow> bool \<Rightarrow>
    output_control_failure + runtime_output_configuration \<times> (nat \<rightharpoonup> bool)" where
  "configuration_from_output_request request conns max_outputs current persistence_available =
    (let requests = apply_outputs request; names = map connector_name conns;
         enabled_count = length (filter req_enabled requests) in
     if apply_persistent request \<and> \<not> persistence_available then Inl PersistenceUnsupported
     else if option_is_some_and (apply_confirmation_timeout request) (\<lambda>t. \<not> (1000 \<le> t \<and> t \<le> 60000)) then Inl InvalidTimeout
     else if option_is_some_and (apply_primary_output request) invalid_primary_name
       then Inl (InvalidPrimaryName (the (apply_primary_output request)))
     else if length requests \<noteq> length conns then Inl (IncompleteConfiguration (length conns) (length requests))
     else case first_repeated [] (map req_name requests) of Some name \<Rightarrow> Inl (RepeatedOutput name) | None \<Rightarrow>
       if set names \<noteq> req_name ` set requests
         then Inl (WrongOutputSet (set names - req_name ` set requests) (req_name ` set requests - set names))
       else if enabled_count = 0 then Inl NothingEnabled
       else if max_outputs < enabled_count then Inl (TooManyEnabled enabled_count)
       else case stage_requests current requests conns (current\<lparr>config_primary_output := apply_primary_output request\<rparr>, Map.empty) of
           Inl failure \<Rightarrow> Inl failure
         | Inr (staged, powers) \<Rightarrow> Inr (staged\<lparr>disabled_outputs := reconcile_disabled_outputs names (disabled_outputs current)
             (lid_closed current) (wanted requests)\<rparr>, powers))"

section \<open>Modes\<close>

lemma closest_refresh_fold:
  "foldl (\<lambda>best r. if closer_refresh t r best then r else best) refresh rest \<in> set (refresh # rest) \<and>
   (\<forall>r \<in> set (refresh # rest). \<not> closer_refresh t r (foldl (\<lambda>best r. if closer_refresh t r best then r else best) refresh rest))"
proof (induction rest arbitrary: refresh)
  case (Cons other rest)
  let ?next = "if closer_refresh t other refresh then other else refresh"
  let ?best = "foldl (\<lambda>best r. if closer_refresh t r best then r else best) ?next rest"
  have worse: "\<not> closer_refresh t refresh ?next" "\<not> closer_refresh t other ?next" by (auto simp: closer_refresh_def)
  have trans: "\<not> closer_refresh t a b \<Longrightarrow> \<not> closer_refresh t b c \<Longrightarrow> \<not> closer_refresh t a c" for a b c
    by (auto simp: closer_refresh_def)
  have "\<forall>r \<in> set (refresh # other # rest). \<not> closer_refresh t r ?best"
    using Cons.IH [of ?next] worse trans [where c = ?best] by (metis (no_types, lifting) list.set_intros(1,2) set_ConsD)
  moreover have "?best \<in> set (refresh # other # rest)"
    using Cons.IH [of ?next] by (cases "closer_refresh t other refresh") auto
  ultimately show ?case by simp
qed (simp add: closer_refresh_def)

lemma foldl_max: "foldl max a xs \<in> set (a # xs) \<and> (\<forall>x \<in> set (a # xs). x \<le> foldl max a xs)" for a :: nat
proof (induction xs arbitrary: a)
  case (Cons x xs)
  from Cons.IH [of "max a x"] show ?case by (auto simp: max_def split: if_splits)
qed simp

lemma closer_refresh_closest:
  assumes "\<not> closer_refresh t r s"
  shows "abs_diff s t \<le> abs_diff r t"
  using assms by (auto simp: closer_refresh_def)

lemma select_refresh_None [simp]: "select_refresh_millihz refreshes configured = None \<longleftrightarrow> refreshes = []"
  by (simp add: select_refresh_millihz_def split: list.splits)

lemma select_refresh_Some:
  assumes "select_refresh_millihz refreshes configured = Some r"
  shows "r \<in> set refreshes"
    "configured = Some t \<Longrightarrow> r' \<in> set refreshes \<Longrightarrow> abs_diff r t \<le> abs_diff r' t \<and> (abs_diff r t = abs_diff r' t \<longrightarrow> r' \<le> r)"
    "configured = None \<Longrightarrow> r' \<in> set refreshes \<Longrightarrow> r' \<le> r"
proof -
  obtain refresh rest where l: "refreshes = refresh # rest"
    using assms by (cases refreshes) (auto simp: select_refresh_millihz_def)
  show "r \<in> set refreshes"
    using assms closest_refresh_fold [of _ refresh rest] foldl_max [of refresh rest] unfolding l select_refresh_millihz_def
    by (cases configured) auto
  show "configured = None \<Longrightarrow> r' \<in> set refreshes \<Longrightarrow> r' \<le> r"
    using assms foldl_max [of refresh rest] unfolding l select_refresh_millihz_def by auto
  show "abs_diff r t \<le> abs_diff r' t \<and> (abs_diff r t = abs_diff r' t \<longrightarrow> r' \<le> r)"
    if "configured = Some t" "r' \<in> set refreshes"
  proof -
    have "\<not> closer_refresh t r' r"
      using assms closest_refresh_fold [of t refresh rest] that unfolding l select_refresh_millihz_def by auto
    then show ?thesis by (auto simp: closer_refresh_def)
  qed
qed

lemma map_filter_set: "y \<in> set (List.map_filter f xs) \<longleftrightarrow> (\<exists>x \<in> set xs. f x = Some y)"
  by (force simp: List.map_filter_def)

text \<open>The chosen mode is advertised, has the configured size and the closest rate.\<close>

lemma select_output_mode_configured:
  assumes "select_output_mode available (Some p) = Some m" and "pref_width p = Some w" and "pref_height p = Some h"
    and "pref_refresh_millihz p = Some t"
  shows "m \<in> set available" "mode_size m = (w, h)" "0 \<le> output_mode_refresh m"
    "\<And>m'. m' \<in> set available \<Longrightarrow> mode_size m' = (w, h) \<Longrightarrow> 0 \<le> output_mode_refresh m' \<Longrightarrow> output_mode_refresh m' < 2 ^ 32 \<Longrightarrow>
       abs_diff (nat (output_mode_refresh m)) t \<le> abs_diff (nat (output_mode_refresh m')) t"
proof -
  define matching where "matching = List.map_filter (\<lambda>m. if mode_size m = (w, h)
      then map_option (\<lambda>refresh. (m, refresh)) (u32_of_int (output_mode_refresh m)) else None) available"
  obtain sel where sel: "select_refresh_millihz (map snd matching) (Some t) = Some sel"
      and found: "map_option fst (find (\<lambda>(m, refresh). refresh = sel) matching) = Some m"
    using assms unfolding select_output_mode_def
    by (auto simp: Let_def matching_def u16_of_def split: option.splits if_splits)
  have mem: "(a, r) \<in> set matching \<longleftrightarrow> a \<in> set available \<and> mode_size a = (w, h) \<and> u32_of_int (output_mode_refresh a) = Some r" for a r
    unfolding matching_def map_filter_set by auto
  have m: "(m, sel) \<in> set matching" using found by (auto simp: find_Some_iff) (metis nth_mem)
  then show "m \<in> set available" "mode_size m = (w, h)" "0 \<le> output_mode_refresh m"
    by (auto simp: mem u32_of_int_def split: if_splits)
  fix m' assume "m' \<in> set available" "mode_size m' = (w, h)" "0 \<le> output_mode_refresh m'" "output_mode_refresh m' < 2 ^ 32"
  then have "(m', nat (output_mode_refresh m')) \<in> set matching" by (simp add: mem u32_of_int_def)
  then have "nat (output_mode_refresh m') \<in> set (map snd matching)" by force
  from select_refresh_Some(2) [OF sel refl this]
  show "abs_diff (nat (output_mode_refresh m)) t \<le> abs_diff (nat (output_mode_refresh m')) t"
    using m by (auto simp: mem u32_of_int_def split: if_splits)
qed

section \<open>Accepted requests\<close>

lemma rotated_back: "rotated_by (rotated_by t (inverse_rotation r)) r = t"
  by (cases t; cases r) (simp_all add: rotated_by_def transform_of_def reflected_def)

lemma baseline_shows:
  assumes "transforms config name = Some (baseline_transform current name t)" "sensor_rotation config = sensor_rotation current"
  shows "effective_transform config name = t"
  using assms by (simp add: effective_transform_def baseline_transform_def rotated_back)

text \<open>What the preferences hold of a requested output.\<close>

definition staged_as :: "runtime_output_configuration \<Rightarrow> connected_connector \<Rightarrow> requested_output \<Rightarrow>
    runtime_output_configuration \<Rightarrow> bool" where
  "staged_as current c r staged = (let name = connector_name c in
     positions staged name = Some \<lparr>point_x = req_x r, point_y = req_y r\<rparr> \<and>
     modes staged name = Some (requested_preference r) \<and> scales_120 staged name = Some (scale_120_of (req_scale r)) \<and>
     transforms staged name = Some (baseline_transform current name (output_transform_from_name (req_transform r))) \<and>
     (name \<in> vrr_outputs staged \<longleftrightarrow> req_adaptive_sync r) \<and>
     (case req_axis r of None \<Rightarrow> True | Some axis \<Rightarrow> scrolling_layout_axis_of staged name = axis))"

definition request_fits :: "connected_connector \<Rightarrow> requested_output \<Rightarrow> bool" where
  "request_fits c r = ((req_powered r \<longrightarrow> req_enabled r) \<and> scale_acceptable (req_scale r) \<and>
     select_output_mode (connector_modes c) (Some (requested_preference r)) \<noteq> None)"

text \<open>The preferences of the other outputs stay, and so does what a request does not name.\<close>

definition same_elsewhere :: "string set \<Rightarrow> runtime_output_configuration \<Rightarrow> runtime_output_configuration \<Rightarrow> bool" where
  "same_elsewhere names a b = (sensor_rotation a = sensor_rotation b \<and> disabled_outputs a = disabled_outputs b \<and>
     lid_closed a = lid_closed b \<and> config_primary_output a = config_primary_output b \<and>
     (\<forall>n. n \<notin> names \<longrightarrow> positions a n = positions b n \<and> modes a n = modes b n \<and> scales_120 a n = scales_120 b n \<and>
        transforms a n = transforms b n \<and> scrolling_layout_axes a n = scrolling_layout_axes b n \<and>
        (n \<in> vrr_outputs a \<longleftrightarrow> n \<in> vrr_outputs b)))"

lemma stage_requested_Inr:
  assumes "stage_requested current c r (staged, powers) = Inr (staged', powers')"
  shows "request_fits c r" "staged_as current c r staged'" "same_elsewhere {connector_name c} staged' staged"
proof -
  show "request_fits c r"
    using assms by (auto simp: stage_requested_def request_fits_def Let_def split: if_splits)
  show "staged_as current c r staged'"
    using assms by (auto simp: stage_requested_def staged_as_def Let_def scrolling_layout_axis_of_def split: if_splits option.splits)
  show "same_elsewhere {connector_name c} staged' staged"
    using assms by (auto simp: stage_requested_def same_elsewhere_def Let_def split: if_splits option.splits)
qed

lemma staged_as_elsewhere:
  assumes "same_elsewhere names b a" "connector_name c \<notin> names" "staged_as current c r a"
  shows "staged_as current c r b"
  using assms by (auto simp: same_elsewhere_def staged_as_def Let_def scrolling_layout_axis_of_def split: option.splits)

lemma same_elsewhere_trans:
  "same_elsewhere names c b \<Longrightarrow> same_elsewhere names' b a \<Longrightarrow> same_elsewhere (names \<union> names') c a"
  unfolding same_elsewhere_def by (intro conjI allI impI) auto

lemma stage_requests_Inr:
  assumes "stage_requests current requests cs (staged, powers) = Inr (staged', powers')" "distinct (map connector_name cs)"
  shows "same_elsewhere (connector_name ` set cs) staged' staged \<and>
    (\<forall>c \<in> set cs. \<exists>r. request_of requests (connector_name c) = Some r \<and> request_fits c r \<and> staged_as current c r staged')"
  using assms
proof (induction cs arbitrary: staged powers)
  case Nil
  then show ?case by (simp add: same_elsewhere_def)
next
  case (Cons c cs)
  from Cons.prems(1) obtain r staged1 powers1 where r: "request_of requests (connector_name c) = Some r"
      and first: "stage_requested current c r (staged, powers) = Inr (staged1, powers1)"
      and rest: "stage_requests current requests cs (staged1, powers1) = Inr (staged', powers')"
    by (auto split: option.splits sum.splits)
  note IH = Cons.IH [OF rest] Cons.prems(2)
  note f = stage_requested_Inr [OF first]
  have "staged_as current c r staged'"
    using IH by (intro staged_as_elsewhere [OF _ _ f(2), of "connector_name ` set cs"]) auto
  moreover have "same_elsewhere (connector_name ` set cs \<union> {connector_name c}) staged' staged"
    using IH by (intro same_elsewhere_trans [OF _ f(3)]) auto
  ultimately show ?case using r f(1) IH by auto
qed

lemma first_repeated_None: "first_repeated seen names = None \<longleftrightarrow> distinct names \<and> set names \<inter> set seen = {}"
  by (induction seen names rule: first_repeated.induct) auto

lemma request_of_Some: "request_of requests name = Some r \<Longrightarrow> r \<in> set requests \<and> req_name r = name"
  by (auto simp: request_of_def find_Some_iff)

lemma request_of_mem: "distinct (map req_name requests) \<Longrightarrow> r \<in> set requests \<Longrightarrow> request_of requests (req_name r) = Some r"
  unfolding request_of_def by (rule find_unique) (auto dest: inj_onD simp: distinct_map)

text \<open>What has been checked when a request is accepted.\<close>

lemma accepted_request:
  assumes "configuration_from_output_request request conns max_outputs current available = Inr (staged, powers)"
  obtains staged0 where
    "staged = staged0\<lparr>disabled_outputs := reconcile_disabled_outputs (map connector_name conns) (disabled_outputs current)
       (lid_closed current) (wanted (apply_outputs request))\<rparr>"
    "stage_requests current (apply_outputs request) conns
       (current\<lparr>config_primary_output := apply_primary_output request\<rparr>, Map.empty) = Inr (staged0, powers)"
    "distinct (map req_name (apply_outputs request))" "distinct (map connector_name conns)"
    "connector_name ` set conns = req_name ` set (apply_outputs request)"
    "length (filter req_enabled (apply_outputs request)) \<le> max_outputs" "filter req_enabled (apply_outputs request) \<noteq> []"
proof -
  let ?rs = "apply_outputs request"
  from assms have len: "length ?rs = length conns" and rep: "first_repeated [] (map req_name ?rs) = None"
      and names: "connector_name ` set conns = req_name ` set ?rs"
      and count: "length (filter req_enabled ?rs) \<noteq> 0" "length (filter req_enabled ?rs) \<le> max_outputs"
      and staged: "(case stage_requests current ?rs conns (current\<lparr>config_primary_output := apply_primary_output request\<rparr>, Map.empty) of
         Inl failure \<Rightarrow> Inl failure
       | Inr (staged, powers) \<Rightarrow> Inr (staged\<lparr>disabled_outputs := reconcile_disabled_outputs (map connector_name conns)
           (disabled_outputs current) (lid_closed current) (wanted ?rs)\<rparr>, powers)) = Inr (staged, powers)"
    unfolding configuration_from_output_request_def Let_def
    by (simp_all split: if_splits option.splits)
  have distinct: "distinct (map req_name ?rs)" using rep by (simp add: first_repeated_None)
  have "card (set (map connector_name conns)) = length (map connector_name conns)"
    using names len distinct_card [OF distinct] by simp
  then have conns: "distinct (map connector_name conns)" by (rule card_distinct)
  from staged obtain staged0 where "stage_requests current ?rs conns
      (current\<lparr>config_primary_output := apply_primary_output request\<rparr>, Map.empty) = Inr (staged0, powers)"
    and "staged = staged0\<lparr>disabled_outputs := reconcile_disabled_outputs (map connector_name conns) (disabled_outputs current)
       (lid_closed current) (wanted ?rs)\<rparr>"
    by (auto split: sum.splits)
  then show thesis using that distinct conns names count by auto
qed

lemma wanted_iff:
  assumes "distinct (map req_name requests)"
  shows "wanted requests name \<longleftrightarrow> name \<in> req_name ` set (filter req_enabled requests)"
proof (cases "request_of requests name")
  case None
  then have "name \<notin> req_name ` set requests" by (auto simp: request_of_def find_None_iff)
  with None show ?thesis by (auto simp: wanted_def)
next
  case (Some r)
  then have "wanted requests name = req_enabled r" by (simp add: wanted_def)
  moreover have "r' = r" if "r' \<in> set requests" "req_name r' = name" for r'
    using request_of_mem [OF assms that(1)] that(2) Some by simp
  ultimately show ?thesis using request_of_Some [OF Some] unfolding set_filter image_iff by blast
qed

lemma try_map_Inr:
  "(\<And>x. x \<in> set xs \<Longrightarrow> \<exists>y. f x = Inr y) \<Longrightarrow> \<exists>ys. try_map f xs = Inr ys"
  by (induction xs) (force split: sum.splits)+

lemma try_map_list: "try_map f xs = Inr ys \<Longrightarrow> list_all2 (\<lambda>x y. f x = Inr y) xs ys"
  by (induction xs arbitrary: ys) (auto split: sum.splits)

lemma configured_output_Inr:
  assumes "configured_output hypot config c = Inr out"
  shows "co_name out = connector_name c" "co_id out = connector_handle c" "co_crtc out = connector_crtc c"
    "co_transform out = effective_transform config (connector_name c)"
    "co_vrr_enabled out \<longleftrightarrow> connector_name c \<in> vrr_outputs config"
    "select_output_mode (connector_modes c) (modes config (connector_name c)) = Some (co_mode out)"
  using assms by (auto simp: configured_output_def Let_def split: option.splits)

text \<open>An accepted request lights at most as many outputs as it enables.\<close>

lemma lit_within_limit:
  assumes "distinct (map connector_name conns)" "L \<subseteq> req_name ` set (filter req_enabled requests)"
  shows "length (filter (\<lambda>c. connector_name c \<in> L) conns) \<le> length (filter req_enabled requests)"
proof -
  let ?lit = "filter (\<lambda>c. connector_name c \<in> L) conns"
  have "distinct (map connector_name ?lit)" using assms(1) by (rule distinct_map_filter)
  then have "length ?lit = card (set (map connector_name ?lit))" by (metis distinct_card length_map)
  also have "\<dots> \<le> card (req_name ` set (filter req_enabled requests))"
    using assms(2) by (intro card_mono) auto
  also have "\<dots> \<le> length (filter req_enabled requests)" by (metis card_length length_map list.set_map)
  finally show ?thesis .
qed

lemma axis_of_disabled [simp]: "scrolling_layout_axis_of (config\<lparr>disabled_outputs := d\<rparr>) = scrolling_layout_axis_of config"
  by (simp add: fun_eq_iff scrolling_layout_axis_of_def)

text \<open>What an accepted request has staged, and how the projection shows it.\<close>

lemma accepted_staging:
  assumes "configuration_from_output_request request conns max_outputs current available = Inr (staged, powers)"
  shows "c \<in> set conns \<Longrightarrow> \<exists>r \<in> set (apply_outputs request). req_name r = connector_name c \<and> request_fits c r \<and> staged_as current c r staged"
    and "sensor_rotation staged = sensor_rotation current" "lid_closed staged = lid_closed current"
    and "disabled_outputs staged = reconcile_disabled_outputs (map connector_name conns) (disabled_outputs current)
       (lid_closed current) (wanted (apply_outputs request))"
    and "n \<notin> connector_name ` set conns \<Longrightarrow> positions staged n = positions current n \<and> modes staged n = modes current n \<and>
       scales_120 staged n = scales_120 current n \<and> transforms staged n = transforms current n \<and>
       (n \<in> vrr_outputs staged \<longleftrightarrow> n \<in> vrr_outputs current) \<and> (n \<in> disabled_outputs staged \<longleftrightarrow> n \<in> disabled_outputs current)"
proof -
  let ?current = "current\<lparr>config_primary_output := apply_primary_output request\<rparr>"
  from accepted_request [OF assms] obtain staged0 where
    staged: "staged = staged0\<lparr>disabled_outputs := reconcile_disabled_outputs (map connector_name conns) (disabled_outputs current)
       (lid_closed current) (wanted (apply_outputs request))\<rparr>"
    and steps: "stage_requests current (apply_outputs request) conns (?current, Map.empty) = Inr (staged0, powers)"
    and dist: "distinct (map connector_name conns)" by metis
  note facts = stage_requests_Inr [OF steps dist]
  have same: "same_elsewhere (connector_name ` set conns) staged0 ?current" using facts by blast
  then show "sensor_rotation staged = sensor_rotation current" "lid_closed staged = lid_closed current"
    by (simp_all add: staged same_elsewhere_def)
  show disabled: "disabled_outputs staged = reconcile_disabled_outputs (map connector_name conns) (disabled_outputs current)
       (lid_closed current) (wanted (apply_outputs request))" by (simp add: staged)
  show "\<exists>r \<in> set (apply_outputs request). req_name r = connector_name c \<and> request_fits c r \<and> staged_as current c r staged"
    if conn: "c \<in> set conns"
  proof -
    obtain r where "request_of (apply_outputs request) (connector_name c) = Some r" "request_fits c r" "staged_as current c r staged0"
      using facts [THEN conjunct2, rule_format, OF conn] by blast
    moreover have "staged_as current c r staged0 = staged_as current c r staged"
      unfolding staged_as_def Let_def by (cases "req_axis r") (simp_all add: staged)
    ultimately show ?thesis using request_of_Some by blast
  qed
  show "positions staged n = positions current n \<and> modes staged n = modes current n \<and>
       scales_120 staged n = scales_120 current n \<and> transforms staged n = transforms current n \<and>
       (n \<in> vrr_outputs staged \<longleftrightarrow> n \<in> vrr_outputs current) \<and> (n \<in> disabled_outputs staged \<longleftrightarrow> n \<in> disabled_outputs current)"
    if "n \<notin> connector_name ` set conns"
    using same that reconcile_moves_only_to_requested [of n "map connector_name conns"]
    unfolding disabled by (auto simp: staged same_elsewhere_def)
qed

lemma shown_output:
  assumes "staged_as current c r staged" "sensor_rotation staged = sensor_rotation current"
    and "configured_output hypot staged c = Inr out"
  shows "co_name out = connector_name c" "co_id out = connector_handle c"
    "co_transform out = output_transform_from_name (req_transform r)" "co_vrr_enabled out = req_adaptive_sync r"
    "co_mode out \<in> set (connector_modes c)"
    "mode_size (co_mode out) = (req_mode_width (req_mode r), req_mode_height (req_mode r))"
    "m \<in> set (connector_modes c) \<Longrightarrow> mode_size m = mode_size (co_mode out) \<Longrightarrow> 0 \<le> output_mode_refresh m \<Longrightarrow>
       output_mode_refresh m < 2 ^ 32 \<Longrightarrow> abs_diff (nat (output_mode_refresh (co_mode out))) (req_mode_refresh (req_mode r))
         \<le> abs_diff (nat (output_mode_refresh m)) (req_mode_refresh (req_mode r))"
    "positions staged (co_name out) = Some \<lparr>point_x = req_x r, point_y = req_y r\<rparr>"
    "scales_120 staged (co_name out) = Some (scale_120_of (req_scale r))"
proof -
  note out = configured_output_Inr [OF assms(3)]
  have mode: "select_output_mode (connector_modes c) (Some (requested_preference r)) = Some (co_mode out)"
    using out(6) assms(1) by (simp add: staged_as_def Let_def)
  note chosen = select_output_mode_configured [OF mode]
  show "co_name out = connector_name c" "co_id out = connector_handle c" by (fact out)+
  show "co_transform out = output_transform_from_name (req_transform r)"
    using out(4) assms(1,2) by (simp add: baseline_shows staged_as_def Let_def)
  show "co_vrr_enabled out = req_adaptive_sync r" using out(5) assms(1) by (simp add: staged_as_def Let_def)
  show "co_mode out \<in> set (connector_modes c)"
    "mode_size (co_mode out) = (req_mode_width (req_mode r), req_mode_height (req_mode r))"
    using chosen by (simp_all add: requested_preference_def)
  then show "abs_diff (nat (output_mode_refresh (co_mode out))) (req_mode_refresh (req_mode r))
         \<le> abs_diff (nat (output_mode_refresh m)) (req_mode_refresh (req_mode r))"
    if "m \<in> set (connector_modes c)" "mode_size m = mode_size (co_mode out)" "0 \<le> output_mode_refresh m" "output_mode_refresh m < 2 ^ 32"
    using chosen(4) that by (simp add: requested_preference_def)
  show "positions staged (co_name out) = Some \<lparr>point_x = req_x r, point_y = req_y r\<rparr>"
    "scales_120 staged (co_name out) = Some (scale_120_of (req_scale r))"
    using out(1) assms(1) by (simp_all add: staged_as_def Let_def)
qed

text \<open>The projection of an accepted request succeeds and lights what the policy selects, none cut off.\<close>

lemma accepted_projection:
  assumes "configuration_from_output_request request conns max_outputs current available = Inr (staged, powers)"
    and sel: "selection = select_outputs (map connector_name conns) (disabled_outputs staged) (lid_closed staged)"
  obtains outs where "configured_outputs hypot conns max_outputs staged = Inr (outs, selection)"
    "list_all2 (\<lambda>c out. configured_output hypot staged c = Inr out) (filter (\<lambda>c. connector_name c \<in> lit selection) conns) outs"
    "lit selection \<subseteq> req_name ` set (filter req_enabled (apply_outputs request))"
    "\<And>n. n \<in> req_name ` set (filter req_enabled (apply_outputs request)) \<Longrightarrow> n \<notin> lit selection \<Longrightarrow>
       lid_closed current \<and> is_internal_panel n \<and> (\<exists>y \<in> lit selection. \<not> is_internal_panel y)"
proof -
  let ?rs = "apply_outputs request" and ?named = "filter (\<lambda>c. connector_name c \<in> lit selection) conns"
  note staging = accepted_staging [OF assms(1)]
  from accepted_request [OF assms(1)] have dist: "distinct (map req_name ?rs)" "distinct (map connector_name conns)"
    and names: "connector_name ` set conns = req_name ` set ?rs"
    and count: "length (filter req_enabled ?rs) \<le> max_outputs" "filter req_enabled ?rs \<noteq> []" by metis+
  have asked: "\<exists>x \<in> set (map connector_name conns). wanted ?rs x"
  proof -
    obtain r where r: "r \<in> set (filter req_enabled ?rs)" using count(2) by (cases "filter req_enabled ?rs") auto
    then have "req_name r \<in> set (map connector_name conns)" using names by (simp add: image_iff) metis
    moreover have "wanted ?rs (req_name r)" using r wanted_iff [OF dist(1)] by blast
    ultimately show ?thesis by blast
  qed
  note lit = reconciled_lit [OF asked staging(4)]
  have sub: "lit selection \<subseteq> req_name ` set (filter req_enabled ?rs)"
    using lit(1) wanted_iff [OF dist(1)] unfolding sel staging(3) by blast
  have whole: "take max_outputs ?named = ?named"
    using lit_within_limit [OF dist(2) sub] count(1) by simp
  have "\<exists>out. configured_output hypot staged c = Inr out" if "c \<in> set ?named" for c
    using that staging(1) [of c] by (auto simp: configured_output_def staged_as_def request_fits_def Let_def)
  then obtain outs where outs: "try_map (configured_output hypot staged) ?named = Inr outs"
    using try_map_Inr [of ?named "configured_output hypot staged"] by blast
  show thesis
  proof (rule that)
    show "configured_outputs hypot conns max_outputs staged = Inr (outs, selection)"
      using outs whole by (simp add: configured_outputs_def Let_def sel)
    show "list_all2 (\<lambda>c out. configured_output hypot staged c = Inr out) ?named outs" using outs by (rule try_map_list)
    show "lit selection \<subseteq> req_name ` set (filter req_enabled ?rs)" by (rule sub)
    show "lid_closed current \<and> is_internal_panel n \<and> (\<exists>y \<in> lit selection. \<not> is_internal_panel y)"
      if "n \<in> req_name ` set (filter req_enabled ?rs)" "n \<notin> lit selection" for n
      using lit(2) [of n] that names wanted_iff [OF dist(1), of n] unfolding sel staging(3) by auto
  qed
qed


section \<open>Placement of outputs\<close>

lemma round_half_even_le_int: "x \<le> of_int k \<Longrightarrow> round_half_even x \<le> k"
proof -
  assume "x \<le> of_int k"
  moreover have "of_int (round_half_even x) - x \<le> 1 / 2" by (rule order_trans [OF abs_ge_self round_half_even_error])
  ultimately have "(of_int (round_half_even x) :: rat) \<le> of_int k + 1 / 2" by linarith
  then show ?thesis by linarith
qed

text \<open>Rounding does not carry a double of pixel size over an integer.\<close>

lemma f64_round_le_int:
  assumes "abs q \<le> 2 ^ 40" "q \<le> of_int n"
  obtains v where "f64_round q = Fin v" "v \<le> of_int n"
proof (cases "q = 0")
  case True
  then show thesis using that [of 0] assms(2) by simp
next
  case False
  obtain m where u: "f64_unit q = 1 / 2 ^ m" using unit_small [OF False assms(1)] .
  obtain v where v: "f64_round q = Fin v" using f64_round_close [of q] assms(1) by (metis abs_le_iff minus_le_iff)
  then have "v = of_int (round_half_even (q * 2 ^ m)) / 2 ^ m"
    using False by (simp add: f64_round_def Let_def u split: if_splits)
  moreover have "round_half_even (q * 2 ^ m) \<le> n * 2 ^ m"
    using assms(2) by (intro round_half_even_le_int) (simp add: mult_right_mono)
  then have "(of_int (round_half_even (q * 2 ^ m)) :: rat) \<le> of_int (n * 2 ^ m)" by (simp only: of_int_le_iff)
  ultimately have "v * 2 ^ m \<le> of_int n * 2 ^ m" by simp
  then have "v \<le> of_int n" by (rule mult_right_le_imp_le) simp
  with v show thesis by (rule that)
qed

text \<open>A multiple of a small power of two is a double.\<close>

lemma f64_round_dyadic:
  assumes "abs (of_int k / 4096) \<le> (2 ^ 40 :: rat)"
  shows "f64_round (of_int k / 4096) = Fin (of_int k / 4096)"
proof (cases "k = 0")
  case False
  let ?q = "of_int k / 4096 :: rat"
  obtain m where u: "f64_unit ?q = 1 / 2 ^ m" and m: "12 \<le> m" using unit_small [of ?q] False assms by auto
  then obtain j where j: "m = 12 + j" using le_Suc_ex by blast
  have "?q / f64_unit ?q = of_int (k * 2 ^ j)" by (simp add: u j power_add)
  then have "of_int (round_half_even (?q / f64_unit ?q)) * f64_unit ?q = ?q"
    by (simp only: round_half_even_int) (simp add: u j power_add)
  then show ?thesis using False small_not_huge [of ?q] assms by (simp add: f64_round_def Let_def)
qed simp

lemma ceil_width_Inr:
  assumes "ceil_width spec = Inr w"
  obtains (finite) x where "rect_width (logical_rect_of spec) = Fin x" "w = \<lceil>x\<rceil>" "i32_min \<le> w" "w \<le> i32_max"
  | (nan) "rect_width (logical_rect_of spec) = NaN"
proof (cases "rect_width (logical_rect_of spec)")
  case (Fin x)
  have "sat64 \<lceil>x\<rceil> = w" "i32_min \<le> w" "w \<le> i32_max"
    using assms Fin by (auto simp: ceil_width_def i32_of_int_def rat_trunc_def simp flip: of_int_minus split: if_splits option.splits)
  moreover from this have "w = \<lceil>x\<rceil>" by (auto simp: sat64_def i64_min_def i64_max_def i32_min_def i32_max_def split: if_splits)
  ultimately show thesis using finite Fin by blast
next
  case NaN
  then show thesis by (rule nan)
qed (use assms in \<open>auto simp: ceil_width_def i32_of_int_def i32_max_def i32_min_def i64_max_def i64_min_def split: if_splits option.splits\<close>)

lemma beside_no_overlap:
  assumes "ceil_width a = Inr w" "point_x (spec_position a) + w \<le> point_x (spec_position b)"
    and "i32_min \<le> point_x (spec_position a)" "point_x (spec_position a) \<le> i32_max"
  shows "\<not> logical_rects_overlap (logical_rect_of a) (logical_rect_of b)"
  using assms(1)
proof (cases rule: ceil_width_Inr)
  case nan
  then show ?thesis by (cases "rect_x (logical_rect_of b)") (simp_all add: logical_rects_overlap_def rect_right_def logical_rect_of_def Let_def f64_from_i32_def)
next
  case x: (finite x)
  let ?q = "of_int (point_x (spec_position a)) + x"
  have x': "x \<le> of_int w" "of_int w - 1 < x" unfolding x(2) by linarith+
  have "(of_int (point_x (spec_position a)) :: rat) + of_int w \<le> of_int (point_x (spec_position b))"
    using assms(2) by (simp flip: of_int_add)
  then have le: "?q \<le> of_int (point_x (spec_position b))" using x'(1) by linarith
  have "(of_int i32_min :: rat) \<le> of_int (point_x (spec_position a))" "(of_int (point_x (spec_position a)) :: rat) \<le> of_int i32_max"
    "(of_int i32_min :: rat) \<le> of_int w" "(of_int w :: rat) \<le> of_int i32_max"
    using assms(3,4) x(3,4) by (simp_all only: of_int_le_iff)
  then have "abs ?q \<le> 2 ^ 40" using x' by (simp add: i32_min_def i32_max_def abs_le_iff)
  then obtain v where "f64_round ?q = Fin v" "v \<le> of_int (point_x (spec_position b))" using f64_round_le_int le by blast
  moreover have "rect_x (logical_rect_of b) = Fin (of_int (point_x (spec_position b)))"
    "rect_x (logical_rect_of a) = Fin (of_int (point_x (spec_position a)))"
    by (simp_all add: logical_rect_of_def Let_def f64_from_i32_def)
  ultimately show ?thesis using x(1) by (simp add: logical_rects_overlap_def rect_right_def)
qed

text \<open>The passes over the pending outputs.\<close>

lemma include_spec_Inr:
  assumes "include_spec placement spec = Inr placement'"
  obtains w where "ceil_width spec = Inr w" "default_x placement \<le> default_x placement'"
    "point_x (spec_position spec) + w \<le> default_x placement'"
  using assms by (auto simp: include_spec_def placement_include_def i32_of_int_def split: sum.splits option.splits if_splits)

definition right_of :: "output_spec \<Rightarrow> output_spec \<Rightarrow> bool" where
  "right_of b a = (\<exists>w. ceil_width a = Inr w \<and> point_x (spec_position a) + w \<le> point_x (spec_position b))"

lemma include_configured_Inr:
  "include_configured placement pending = Inr placement' \<Longrightarrow> default_x placement \<le> default_x placement' \<and>
   (\<forall>spec. (spec, True) \<in> set pending \<longrightarrow>
      (\<exists>w. ceil_width spec = Inr w \<and> point_x (spec_position spec) + w \<le> default_x placement'))"
proof (induction placement pending rule: include_configured.induct)
  case (2 placement spec configured pending)
  show ?case
  proof (cases configured)
    case True
    with 2(3) obtain mid where mid: "include_spec placement spec = Inr mid" "include_configured mid pending = Inr placement'"
      by (auto split: sum.splits)
    from mid(1) obtain w where "ceil_width spec = Inr w" "default_x placement \<le> default_x mid"
      "point_x (spec_position spec) + w \<le> default_x mid" by (rule include_spec_Inr)
    with 2(1) [OF True mid] show ?thesis by force
  next
    case False
    with 2(2,3) show ?thesis by simp
  qed
qed simp

lemma place_pending_Inr:
  "place_pending placement pending = Inr specs \<Longrightarrow>
   list_all2 (\<lambda>(spec0, configured) spec. \<exists>p. spec = spec0\<lparr>spec_position := p\<rparr> \<and>
      (if configured then p = spec_position spec0 else default_x placement \<le> point_x p)) pending specs \<and>
   sorted_wrt (\<lambda>(_, a) (configured, b). configured \<or> right_of b a) (zip (map snd pending) specs)"
proof (induction placement pending arbitrary: specs rule: place_pending.induct)
  case (2 placement spec configured pending)
  define spec1 where "spec1 = (if configured then spec else spec\<lparr>spec_position := placement_resolve placement None\<rparr>)"
  from 2(2) obtain mid rest where mid: "include_spec placement spec1 = Inr mid" and rest: "place_pending mid pending = Inr rest"
    and specs: "specs = spec1 # rest"
    by (auto simp: Let_def spec1_def split: sum.splits)
  from mid obtain w where w: "ceil_width spec1 = Inr w" "default_x placement \<le> default_x mid"
    "point_x (spec_position spec1) + w \<le> default_x mid" by (rule include_spec_Inr)
  from 2(1) [OF spec1_def mid rest] have
    IH: "list_all2 (\<lambda>(spec0, configured) spec. \<exists>p. spec = spec0\<lparr>spec_position := p\<rparr> \<and>
      (if configured then p = spec_position spec0 else default_x mid \<le> point_x p)) pending rest"
    and sorted: "sorted_wrt (\<lambda>(_, a) (configured, b). configured \<or> right_of b a) (zip (map snd pending) rest)" by blast+
  have "list_all2 (\<lambda>(spec0, configured) spec. \<exists>p. spec = spec0\<lparr>spec_position := p\<rparr> \<and>
      (if configured then p = spec_position spec0 else default_x placement \<le> point_x p)) pending rest"
    using w(2) by (intro list_all2_mono [OF IH]) (auto split: if_splits)
  moreover have "\<exists>p. spec1 = spec\<lparr>spec_position := p\<rparr> \<and>
      (if configured then p = spec_position spec else default_x placement \<le> point_x p)"
    by (intro exI [of _ "spec_position spec1"]) (simp add: spec1_def placement_resolve_def)
  moreover have "c \<or> right_of b spec1" if later: "(c, b) \<in> set (zip (map snd pending) rest)" for c b
  proof -
    obtain i where "i < length rest" "i < length pending" "c = snd (pending ! i)" "b = rest ! i"
      using later by (auto simp: in_set_zip)
    then have "c \<or> default_x mid \<le> point_x (spec_position b)"
      using list_all2_nthD2 [OF IH, of i] by (auto simp: case_prod_beta split: if_splits)
    then show ?thesis unfolding right_of_def using w by force
  qed
  ultimately show ?case using sorted by (auto simp: specs)
qed simp

lemma rebase_spec_Inr:
  assumes "rebase_spec ox oy spec = Inr spec'"
  shows "spec' = spec\<lparr>spec_position := \<lparr>point_x = point_x (spec_position spec) - ox, point_y = point_y (spec_position spec) - oy\<rparr>\<rparr>"
    "i32_min \<le> point_x (spec_position spec')" "point_x (spec_position spec') \<le> i32_max"
  using assms by (auto simp: rebase_spec_def i32_of_int_def split: option.splits if_splits)

lemma foldl_min: "foldl min a xs \<in> set (a # xs) \<and> (\<forall>x \<in> set (a # xs). foldl min a xs \<le> x)" for a :: int
proof (induction xs arbitrary: a)
  case (Cons x xs)
  from Cons.IH [of "min a x"] show ?case by (auto simp: min_def split: if_splits)
qed simp

lemma normalize_Inr:
  assumes "normalize_live_output_positions specs = Inr specs'"
  obtains ox oy where "list_all2 (\<lambda>spec spec'. rebase_spec ox oy spec = Inr spec') specs specs'"
    "specs \<noteq> [] \<Longrightarrow> ox \<in> (\<lambda>s. point_x (spec_position s)) ` set specs \<and> oy \<in> (\<lambda>s. point_y (spec_position s)) ` set specs"
    "\<And>s. s \<in> set specs \<Longrightarrow> ox \<le> point_x (spec_position s) \<and> oy \<le> point_y (spec_position s)"
proof (cases specs)
  case Nil
  then show thesis using that assms by (simp add: normalize_live_output_positions_def)
next
  case (Cons first rest)
  define ox where "ox = foldl min (point_x (spec_position first)) (map (\<lambda>s. point_x (spec_position s)) rest)"
  define oy where "oy = foldl min (point_y (spec_position first)) (map (\<lambda>s. point_y (spec_position s)) rest)"
  have "try_map (rebase_spec ox oy) specs = Inr specs'"
    using assms by (simp add: normalize_live_output_positions_def Cons ox_def oy_def Let_def del: try_map.simps)
  from try_map_list [OF this] show thesis
    by (rule that [of ox oy]) (use foldl_min [of "point_x (spec_position first)" "map (\<lambda>s. point_x (spec_position s)) rest"]
      foldl_min [of "point_y (spec_position first)" "map (\<lambda>s. point_y (spec_position s)) rest"] in \<open>auto simp: Cons ox_def oy_def\<close>)
qed

lemma ceil_width_position [simp]: "ceil_width (spec\<lparr>spec_position := p\<rparr>) = ceil_width spec"
  by (simp add: ceil_width_def logical_rect_of_def transformed_pixel_size_def Let_def)

lemma rebased_no_overlap:
  assumes "right_of b a" "rebase_spec ox oy a = Inr a'" "rebase_spec ox oy b = Inr b'"
  shows "\<not> logical_rects_overlap (logical_rect_of a') (logical_rect_of b')"
proof -
  obtain w where "ceil_width a = Inr w" "point_x (spec_position a) + w \<le> point_x (spec_position b)"
    using assms(1) by (auto simp: right_of_def)
  then show ?thesis
    using rebase_spec_Inr [OF assms(2)] rebase_spec_Inr [OF assms(3)] by (intro beside_no_overlap [of a' w b']) auto
qed

lemma pending_spec_Inr:
  assumes "pending_spec config out = Inr (spec, configured)"
  shows "spec_id spec = co_id out" "spec_name spec = co_name out" "spec_transform spec = co_transform out"
    "configured \<longleftrightarrow> positions config (co_name out) \<noteq> None"
    "positions config (co_name out) = Some p \<Longrightarrow> spec_position spec = p"
  using assms by (auto simp: pending_spec_def Let_def split: option.splits)

text \<open>The stages of the projection of an output.\<close>

lemma output_specs_stages:
  assumes "output_specs outs config = Inr specs'"
  obtains pending specs ox oy where "length pending = length outs" "length specs = length outs" "length specs' = length outs"
    "\<forall>i < length outs. pending_spec config (outs ! i) = Inr (pending ! i) \<and>
       (\<exists>p. specs ! i = (fst (pending ! i))\<lparr>spec_position := p\<rparr> \<and> (snd (pending ! i) \<longrightarrow> p = spec_position (fst (pending ! i)))) \<and>
       rebase_spec ox oy (specs ! i) = Inr (specs' ! i)"
    "specs = [] \<or> ox \<in> (\<lambda>s. point_x (spec_position s)) ` set specs \<and> oy \<in> (\<lambda>s. point_y (spec_position s)) ` set specs"
    "\<forall>s \<in> set specs. ox \<le> point_x (spec_position s) \<and> oy \<le> point_y (spec_position s)"
    "\<forall>i < length outs. \<forall>j < length outs. i \<noteq> j \<and> \<not> snd (pending ! j) \<longrightarrow>
       right_of (specs ! j) (specs ! i) \<or> right_of (specs ! i) (specs ! j)"
proof -
  from assms obtain pending placement specs where
    pending: "list_all2 (\<lambda>out p. pending_spec config out = Inr p) outs pending"
    and placement: "include_configured placement_default pending = Inr placement"
    and specs: "place_pending placement pending = Inr specs" and norm: "normalize_live_output_positions specs = Inr specs'"
    by (auto simp: output_specs_def dest: try_map_list split: sum.splits)
  from normalize_Inr [OF norm] obtain ox oy where
    rebase: "list_all2 (\<lambda>spec spec'. rebase_spec ox oy spec = Inr spec') specs specs'"
    and ends: "specs \<noteq> [] \<Longrightarrow> ox \<in> (\<lambda>s. point_x (spec_position s)) ` set specs \<and> oy \<in> (\<lambda>s. point_y (spec_position s)) ` set specs"
    "\<And>s. s \<in> set specs \<Longrightarrow> ox \<le> point_x (spec_position s) \<and> oy \<le> point_y (spec_position s)" by blast
  note placed = place_pending_Inr [OF specs]
  have len: "length pending = length outs" "length specs = length outs" "length specs' = length outs"
    using pending placed rebase by (auto dest!: list_all2_lengthD)
  have at: "\<exists>p. specs ! i = (fst (pending ! i))\<lparr>spec_position := p\<rparr> \<and>
      (if snd (pending ! i) then p = spec_position (fst (pending ! i)) else default_x placement \<le> point_x p)" if "i < length outs" for i
    using list_all2_nthD2 [OF conjunct1 [OF placed], of i] that len by (auto simp: case_prod_beta)
  have order: "snd (pending ! j) \<or> right_of (specs ! j) (specs ! i)" if "i < j" "j < length outs" for i j
    using sorted_wrt_nth_less [OF conjunct2 [OF placed], of i j] that len by (simp add: case_prod_beta)
  have first: "right_of (specs ! j) (specs ! i)" if "i < length outs" "j < length outs" "snd (pending ! i)" "\<not> snd (pending ! j)" for i j
  proof -
    have "(fst (pending ! i), True) \<in> set pending" using that len by (metis nth_mem prod.collapse)
    then obtain w where w: "ceil_width (fst (pending ! i)) = Inr w"
        "point_x (spec_position (fst (pending ! i))) + w \<le> default_x placement"
      using include_configured_Inr [OF placement] by blast
    then show ?thesis using at [OF that(1)] at [OF that(2)] that(3,4) by (auto simp: right_of_def)
  qed
  show thesis
  proof (rule that [of pending specs ox oy])
    show "\<forall>i < length outs. pending_spec config (outs ! i) = Inr (pending ! i) \<and>
       (\<exists>p. specs ! i = (fst (pending ! i))\<lparr>spec_position := p\<rparr> \<and> (snd (pending ! i) \<longrightarrow> p = spec_position (fst (pending ! i)))) \<and>
       rebase_spec ox oy (specs ! i) = Inr (specs' ! i)"
      using at list_all2_nthD [OF pending] list_all2_nthD [OF rebase] len by (metis (full_types))
    show "\<forall>i < length outs. \<forall>j < length outs. i \<noteq> j \<and> \<not> snd (pending ! j) \<longrightarrow>
       right_of (specs ! j) (specs ! i) \<or> right_of (specs ! i) (specs ! j)"
      using first order by (metis linorder_neqE_nat)
  qed (use len ends in auto)
qed

lemma output_specs_names:
  assumes "output_specs outs config = Inr specs"
  shows "map spec_id specs = map co_id outs" "map spec_name specs = map co_name outs"
proof -
  obtain pending placed ox oy where len: "length pending = length outs" "length placed = length outs" "length specs = length outs"
    and at: "\<forall>i < length outs. pending_spec config (outs ! i) = Inr (pending ! i) \<and>
       (\<exists>p. placed ! i = (fst (pending ! i))\<lparr>spec_position := p\<rparr> \<and> (snd (pending ! i) \<longrightarrow> p = spec_position (fst (pending ! i)))) \<and>
       rebase_spec ox oy (placed ! i) = Inr (specs ! i)"
    by (rule output_specs_stages [OF assms])
  have "spec_id (specs ! i) = co_id (outs ! i) \<and> spec_name (specs ! i) = co_name (outs ! i)" if "i < length outs" for i
  proof -
    have "pending_spec config (outs ! i) = Inr (fst (pending ! i), snd (pending ! i))" using at that by simp
    from pending_spec_Inr(1,2) [OF this] show ?thesis using at [rule_format, OF that] by (auto dest!: rebase_spec_Inr(1))
  qed
  then show "map spec_id specs = map co_id outs" "map spec_name specs = map co_name outs"
    using len by (auto intro: nth_equalityI)
qed

text \<open>
  Claim C13 (an output without a position stands beside the others). The projection keeps the outputs and their order,
  moves them to a common origin (no coordinate is negative, and zero occurs in both directions), and keeps the layout of the
  configured outputs relative to each other. An output without a configured position overlaps no other output,
  so a topology can only be refused for an overlap that the configuration itself asks for.
\<close>
theorem unplaced_outputs_overlap_nothing:
  assumes "output_specs outs config = Inr specs"
  shows "map spec_id specs = map co_id outs \<and> map spec_name specs = map co_name outs \<and>
    list_all (\<lambda>s. 0 \<le> point_x (spec_position s) \<and> 0 \<le> point_y (spec_position s)) specs \<and>
    (outs = [] \<or> list_ex (\<lambda>s. point_x (spec_position s) = 0) specs \<and> list_ex (\<lambda>s. point_y (spec_position s) = 0) specs) \<and>
    (\<exists>ox oy. \<forall>i < length outs. \<forall>p. positions config (co_name (outs ! i)) = Some p \<longrightarrow>
       spec_position (specs ! i) = \<lparr>point_x = point_x p - ox, point_y = point_y p - oy\<rparr>) \<and>
    (\<forall>i < length outs. \<forall>j < length outs. i \<noteq> j \<and> positions config (co_name (outs ! j)) = None \<longrightarrow>
       \<not> logical_rects_overlap (logical_rect_of (specs ! i)) (logical_rect_of (specs ! j)))"
proof -
  obtain pending placed ox oy where len: "length pending = length outs" "length placed = length outs" "length specs = length outs"
    and at: "\<forall>i < length outs. pending_spec config (outs ! i) = Inr (pending ! i) \<and>
       (\<exists>p. placed ! i = (fst (pending ! i))\<lparr>spec_position := p\<rparr> \<and> (snd (pending ! i) \<longrightarrow> p = spec_position (fst (pending ! i)))) \<and>
       rebase_spec ox oy (placed ! i) = Inr (specs ! i)"
    and origin: "placed = [] \<or> ox \<in> (\<lambda>s. point_x (spec_position s)) ` set placed \<and> oy \<in> (\<lambda>s. point_y (spec_position s)) ` set placed"
    and least: "\<forall>s \<in> set placed. ox \<le> point_x (spec_position s) \<and> oy \<le> point_y (spec_position s)"
    and beside: "\<forall>i < length outs. \<forall>j < length outs. i \<noteq> j \<and> \<not> snd (pending ! j) \<longrightarrow>
       right_of (placed ! j) (placed ! i) \<or> right_of (placed ! i) (placed ! j)"
    by (rule output_specs_stages [OF assms])
  have pend: "pending_spec config (outs ! i) = Inr (fst (pending ! i), snd (pending ! i))" if "i < length outs" for i
    using at that by simp
  have shift: "specs ! i = (placed ! i)\<lparr>spec_position := \<lparr>point_x = point_x (spec_position (placed ! i)) - ox,
      point_y = point_y (spec_position (placed ! i)) - oy\<rparr>\<rparr>" if "i < length outs" for i
    using at that rebase_spec_Inr(1) by blast
  have relative: "spec_position (specs ! i) = \<lparr>point_x = point_x p - ox, point_y = point_y p - oy\<rparr>"
    if "i < length outs" "positions config (co_name (outs ! i)) = Some p" for i p
  proof -
    have "snd (pending ! i)" "spec_position (fst (pending ! i)) = p"
      using pending_spec_Inr(4,5) [OF pend [OF that(1)]] that(2) by simp_all
    then have "spec_position (placed ! i) = p" using at [rule_format, OF that(1)] by auto
    then show ?thesis using shift [OF that(1)] by simp
  qed
  have moved: "specs = map (\<lambda>s. s\<lparr>spec_position := \<lparr>point_x = point_x (spec_position s) - ox, point_y = point_y (spec_position s) - oy\<rparr>\<rparr>) placed"
    using shift len by (intro nth_equalityI) auto
  show ?thesis
  proof (intro conjI)
    show "map spec_id specs = map co_id outs" "map spec_name specs = map co_name outs"
      by (rule output_specs_names [OF assms])+
    show "list_all (\<lambda>s. 0 \<le> point_x (spec_position s) \<and> 0 \<le> point_y (spec_position s)) specs"
      using least by (auto simp: list_all_iff moved)
    show "outs = [] \<or> list_ex (\<lambda>s. point_x (spec_position s) = 0) specs \<and> list_ex (\<lambda>s. point_y (spec_position s) = 0) specs"
      using origin len by (auto simp: list_ex_iff moved)
    show "\<exists>ox oy. \<forall>i < length outs. \<forall>p. positions config (co_name (outs ! i)) = Some p \<longrightarrow>
       spec_position (specs ! i) = \<lparr>point_x = point_x p - ox, point_y = point_y p - oy\<rparr>"
      using relative by blast
    show "\<forall>i < length outs. \<forall>j < length outs. i \<noteq> j \<and> positions config (co_name (outs ! j)) = None \<longrightarrow>
       \<not> logical_rects_overlap (logical_rect_of (specs ! i)) (logical_rect_of (specs ! j))"
      using beside at pending_spec_Inr(4) [OF pend] rebased_no_overlap logical_rects_overlap_sym by metis
  qed
qed

text \<open>The loop over the connectors finds a request for each of them.\<close>

lemma stage_requests_no_panic:
  "connector_name ` set cs \<subseteq> req_name ` set requests \<Longrightarrow> stage_requests current requests cs sp \<noteq> Inl (IndexPanic name)"
proof (induction cs arbitrary: sp)
  case (Cons c cs)
  then have "request_of requests (connector_name c) \<noteq> None" by (auto simp: request_of_def find_None_iff)
  moreover have "stage_requested current c r sp \<noteq> Inl (IndexPanic name)" for r
    by (cases sp) (simp add: stage_requested_def Let_def)
  ultimately show ?case using Cons by (auto split: option.splits sum.splits)
qed simp

lemma request_never_panics:
  "configuration_from_output_request request conns max_outputs current available \<noteq> Inl (IndexPanic name)"
  using stage_requests_no_panic [of conns "apply_outputs request"]
  by (auto simp: configuration_from_output_request_def Let_def split: option.splits sum.splits)

section \<open>Default scales\<close>

lemma f64_le_Fin [simp]: "f64_le (Fin a) (Fin b) \<longleftrightarrow> a \<le> b"
  by (auto simp: f64_le_def)

lemma rat_trunc_int: "rat_trunc (of_int n) = n"
  by (simp add: rat_trunc_def)

text \<open>A rounded quotient of a plausible density: the quarter step is between four and thirty-six.\<close>

lemma density_steps:
  assumes "225 \<le> x" "x \<le> 2000"
  obtains k where "4 \<le> k" "k \<le> 36"
    "f64_rounded (f64_div (f64_mul (f64_div (Fin x) (Fin 225)) (Fin 120)) (Fin 30)) = Fin (of_int k)"
proof -
  obtain a where a: "f64_round (x / 225) = Fin a" "x / 225 - 1 / 4096 \<le> a" "a \<le> x / 225 + 1 / 4096"
    using assms by (rule_tac f64_round_close [of "x / 225"]) simp_all
  obtain b where b: "f64_round (a * 120) = Fin b" "a * 120 - 1 / 4096 \<le> b" "b \<le> a * 120 + 1 / 4096"
    using assms a by (rule_tac f64_round_close [of "a * 120"]) simp_all
  obtain c where c: "f64_round (b / 30) = Fin c" "b / 30 - 1 / 4096 \<le> c" "c \<le> b / 30 + 1 / 4096"
    using assms a b by (rule_tac f64_round_close [of "b / 30"]) simp_all
  have bounds: "7 / 2 \<le> c" "c < 36" using assms a(2,3) b(2,3) c(2,3) by linarith+
  have "4 \<le> round_half_away c" "round_half_away c \<le> 36"
    using bounds by (simp_all add: round_half_away_def le_floor_iff floor_le_iff)
  then show thesis using that [of "round_half_away c"] a b c by simp
qed

text \<open>The default scale of a connector is valid, whatever the panel reports and however \<open>hypot\<close> rounds.\<close>

lemma default_scale_range:
  "120 \<le> default_scale_120 hypot c size' \<and> default_scale_120 hypot c size' \<le> 1080 \<and> 30 dvd default_scale_120 hypot c size'"
proof -
  have "120 \<le> density_scale_120 a b \<and> density_scale_120 a b \<le> 1080 \<and> 30 dvd density_scale_120 a b" for a b
  proof -
    define ppi where "ppi = f64_mul (f64_div a b) (f64_literal (254 / 10))"
    show ?thesis
    proof (cases "f64_le (Fin 225) ppi \<and> f64_le ppi (Fin 2000)")
      case True
      then obtain x where x: "ppi = Fin x" "225 \<le> x" "x \<le> 2000" by (cases ppi) (auto simp: f64_le_def split: if_splits)
      from density_steps [OF x(2,3)] obtain k where k: "4 \<le> k" "k \<le> 36"
        "f64_rounded (f64_div (f64_mul (f64_div (Fin x) (Fin 225)) (Fin 120)) (Fin 30)) = Fin (of_int k)" .
      have "f64_round (of_int (k * 30)) = Fin (of_int (k * 30))" using k by (intro f64_round_int) simp
      then have "density_scale_120 a b = f64_to_u32 (Fin (of_int (k * 30)))"
        using True k(3) x(1) unfolding density_scale_120_def Let_def ppi_def [symmetric]
        by (simp add: HANDHELD_LOGICAL_PPI_def DENSITY_SCALE_STEP_120_def SCALE_BASE_def)
      also have "\<dots> = nat (k * 30)" by (simp only: f64_to_u32.simps rat_trunc_int) (use k in simp)
      finally have "density_scale_120 a b = 30 * nat k" using k by (simp add: nat_mult_distrib)
      then show ?thesis using k by (simp add: nat_le_iff le_nat_iff)
    next
      case False
      then show ?thesis unfolding density_scale_120_def Let_def ppi_def [symmetric]
        by (auto simp: HANDHELD_LOGICAL_PPI_def SCALE_BASE_def)
    qed
  qed
  then show ?thesis by (auto simp: default_scale_120_def SCALE_BASE_def split: option.splits)
qed

section \<open>Updates of the topology\<close>

lemma update_reachable: "topology_reachable m \<Longrightarrow> topology_reachable (snd (update_topology_for_outputs m outs config))"
  by (auto simp: update_topology_for_outputs_def Let_def intro: topology_reachable.step
      split: sum.splits prod.splits dest!: arg_cong [where f = snd])

lemma foldl_upserts: "dom (foldl change_map f (map Upsert specs)) = dom f \<union> spec_id ` set specs"
  by (induction specs arbitrary: f) auto

lemma foldl_removals: "dom (foldl change_map f (map (\<lambda>spec. RemoveOutput (spec_id spec)) specs)) = dom f - spec_id ` set specs"
  by (induction specs arbitrary: f) auto

text \<open>After an update the topology has exactly the outputs that were projected, and the snapshot is its own.\<close>

lemma update_topology_Inr:
  assumes "topology_reachable m" and "update_topology_for_outputs m outs config = (Inr snap, m')"
  shows "snap = topology_snapshot_of m'" "set (map spec_id (topology_outputs m')) = co_id ` set outs"
    "primary_output m' = config_primary_output config"
proof -
  from assms(2) obtain specs c where specs: "output_specs outs config = Inr specs"
    and applied: "apply_with_primary_output m
      (map (\<lambda>spec. RemoveOutput (spec_id spec)) (filter (\<lambda>spec. spec_id spec \<notin> spec_id ` set specs) (topology_outputs m)) @ map Upsert specs)
      (config_primary_output config) = (Inr c, m')" and snap: "snap = topology_snapshot_of m'"
    by (auto simp: update_topology_for_outputs_def Let_def topology_snapshot_of_def split: sum.splits prod.splits)
  note ok = topology_reachable_ok [OF assms(1)]
  have "spec_of (topology_outputs m') = foldl change_map (spec_of (topology_outputs m))
      (map (\<lambda>spec. RemoveOutput (spec_id spec)) (filter (\<lambda>spec. spec_id spec \<notin> spec_id ` set specs) (topology_outputs m)) @ map Upsert specs)"
    using apply_accepted(1) [OF ok applied] ok by (simp add: topology_ok_def stage_changes_map del: foldl_append)
  from arg_cong [OF this, of dom] have "dom (spec_of (topology_outputs m')) = spec_id ` set specs"
    unfolding foldl_append foldl_upserts foldl_removals dom_spec_of by auto
  moreover have "map spec_id specs = map co_id outs" by (rule output_specs_names [OF specs])
  ultimately show "set (map spec_id (topology_outputs m')) = co_id ` set outs"
    by (metis dom_spec_of list.set_map)
  show "snap = topology_snapshot_of m'" by (rule snap)
  show "primary_output m' = config_primary_output config" by (rule apply_accepted(2) [OF ok applied])
qed

lemma update_topology_Inl: "update_topology_for_outputs m outs config = (Inl err, m') \<Longrightarrow> m' = m"
  by (auto simp: update_topology_for_outputs_def apply_with_primary_output_def Let_def split: sum.splits prod.splits)

section \<open>A sample\<close>

text \<open>A laptop panel on a turned device and a monitor, a first configuration without preferences, and a request that turns
  the panel upright and puts the monitor on its left.\<close>

definition sample_mode :: "nat \<Rightarrow> nat \<Rightarrow> int \<Rightarrow> drm_mode" where
  "sample_mode w h refresh = \<lparr>mode_size = (w, h), mode_preferred = True, output_mode_w = int w, output_mode_h = int h,
     output_mode_refresh = refresh\<rparr>"

definition panel_connector :: connected_connector where
  "panel_connector = \<lparr>interface_name = ''eDP'', interface_id = 1, interface_dsi = False, connector_handle = 41,
     connector_modes = [sample_mode 2560 1600 60000], physical_size = None, connector_crtc = 7\<rparr>"

definition monitor_connector :: connected_connector where
  "monitor_connector = \<lparr>interface_name = ''DP'', interface_id = 1, interface_dsi = False, connector_handle = 52,
     connector_modes = [sample_mode 1920 1080 60000, sample_mode 1920 1080 143981], physical_size = None, connector_crtc = 8\<rparr>"

definition plain_configuration :: runtime_output_configuration where
  "plain_configuration = \<lparr>config_primary_output = None, positions = Map.empty, modes = Map.empty, scales_120 = Map.empty,
     transforms = Map.empty, scrolling_layout_axes = Map.empty, sensor_rotation = Rotate90, vrr_outputs = {},
     disabled_outputs = {}, lid_closed = False\<rparr>"

definition panel_request :: requested_output where
  "panel_request = \<lparr>req_name = ''eDP-1'', req_enabled = True, req_powered = True, req_x = 1920, req_y = 0,
     req_mode = \<lparr>req_mode_width = 2560, req_mode_height = 1600, req_mode_refresh = 60000\<rparr>, req_scale = Fin 2,
     req_transform = NameNormal, req_axis = Some Vertical, req_adaptive_sync = False\<rparr>"

definition monitor_request :: requested_output where
  "monitor_request = \<lparr>req_name = ''DP-1'', req_enabled = True, req_powered = True, req_x = 0, req_y = 0,
     req_mode = \<lparr>req_mode_width = 1920, req_mode_height = 1080, req_mode_refresh = 144000\<rparr>, req_scale = Fin 1,
     req_transform = NameNormal, req_axis = None, req_adaptive_sync = True\<rparr>"

definition sample_request :: apply_output_configuration where
  "sample_request = \<lparr>apply_primary_output = None, apply_persistent = False, apply_confirmation_timeout = Some 15000,
     apply_outputs = [panel_request, monitor_request]\<rparr>"

lemma sample_connectors [simp]: "connector_name panel_connector = ''eDP-1''" "connector_name monitor_connector = ''DP-1''"
  by (simp_all add: connector_name_def panel_connector_def monitor_connector_def decimal.simps char_of_def)

lemma sample_modes_selected:
  "select_output_mode (connector_modes panel_connector) (Some (requested_preference panel_request)) = Some (sample_mode 2560 1600 60000)"
  "select_output_mode (connector_modes monitor_connector) (Some (requested_preference monitor_request)) = Some (sample_mode 1920 1080 143981)"
  by (simp_all add: select_output_mode_def panel_connector_def monitor_connector_def requested_preference_def panel_request_def
      monitor_request_def sample_mode_def u16_of_def u32_of_int_def select_refresh_millihz_def closer_refresh_def abs_diff_def
      List.map_filter_def)

lemma sample_staged: "\<exists>staged powers. configuration_from_output_request sample_request [panel_connector, monitor_connector] 4
    plain_configuration False = Inr (staged, powers)"
proof -
  have "scale_acceptable (req_scale panel_request)" "scale_acceptable (req_scale monitor_request)"
    by (simp_all add: scale_acceptable_def panel_request_def monitor_request_def)
  then show ?thesis
    by (simp add: configuration_from_output_request_def sample_request_def option_is_some_and_def stage_requested_def
        request_of_def panel_request_def [THEN arg_cong [where f = req_name]] monitor_request_def [THEN arg_cong [where f = req_name]]
        panel_request_def [THEN arg_cong [where f = req_enabled]] monitor_request_def [THEN arg_cong [where f = req_enabled]]
        sample_modes_selected Let_def)
qed


definition sample_outputs :: "connected_output list" where
  "sample_outputs = [\<lparr>co_id = 41, co_name = ''eDP-1'', co_connector = 41, co_crtc = 7, co_mode = sample_mode 2560 1600 60000,
     co_transform = Normal, co_vrr_enabled = False, co_default_scale_120 = 120\<rparr>,
     \<lparr>co_id = 52, co_name = ''DP-1'', co_connector = 52, co_crtc = 8, co_mode = sample_mode 1920 1080 60000,
     co_transform = Normal, co_vrr_enabled = False, co_default_scale_120 = 120\<rparr>]"

definition placed_configuration :: runtime_output_configuration where
  "placed_configuration = plain_configuration\<lparr>positions := [''DP-1'' \<mapsto> \<lparr>point_x = 500, point_y = 100\<rparr>]\<rparr>"

definition sample_spec :: "nat \<Rightarrow> string \<Rightarrow> int \<Rightarrow> int \<Rightarrow> nat \<Rightarrow> nat \<Rightarrow> output_spec" where
  "sample_spec i name x y w h = \<lparr>spec_id = i, spec_name = name, spec_position = \<lparr>point_x = x, point_y = y\<rparr>,
     spec_mode = \<lparr>pixel_width = w, pixel_height = h\<rparr>, spec_scale_120 = 120, spec_refresh_millihz = 60000, spec_transform = Normal\<rparr>"

lemma sample_widths [simp]:
  "ceil_width (sample_spec i name x y 2560 1600) = Inr 2560" "ceil_width (sample_spec i name x y 1920 1080) = Inr 1920"
  by (simp_all add: ceil_width_def sample_spec_def rect_evals i32_of_int_def i32_min_def i32_max_def sat64_def i64_min_def i64_max_def
      rat_trunc_def)

lemma sample_position [simp]: "(sample_spec i name x y w h)\<lparr>spec_position := \<lparr>point_x = x', point_y = y'\<rparr>\<rparr> = sample_spec i name x' y' w h"
  "point_x (spec_position (sample_spec i name x y w h)) = x" "point_y (spec_position (sample_spec i name x y w h)) = y"
  by (simp_all add: sample_spec_def)

lemma sample_pending: "try_map (pending_spec placed_configuration) sample_outputs =
    Inr [(sample_spec 41 ''eDP-1'' 0 0 2560 1600, False), (sample_spec 52 ''DP-1'' 500 100 1920 1080, True)]"
  by (simp add: sample_outputs_def pending_spec_def sample_mode_def placed_configuration_def plain_configuration_def
      u32_of_int_def sample_spec_def)

lemma sample_specs: "output_specs sample_outputs placed_configuration =
    Inr [sample_spec 41 ''eDP-1'' 1920 0 2560 1600, sample_spec 52 ''DP-1'' 0 100 1920 1080]"
  by (simp add: output_specs_def sample_pending include_spec_def i32_of_int_def i32_min_def i32_max_def
      placement_include_def placement_default_def placement_resolve_def normalize_live_output_positions_def rebase_spec_def)

theorem unplaced_outputs_overlap_nothing_witness:
  "\<not> logical_rects_overlap (logical_rect_of (sample_spec 52 ''DP-1'' 0 100 1920 1080)) (logical_rect_of (sample_spec 41 ''eDP-1'' 1920 0 2560 1600))"
proof -
  have "positions placed_configuration (co_name (sample_outputs ! 0)) = None" "length sample_outputs = 2"
    by (simp_all add: placed_configuration_def plain_configuration_def sample_outputs_def)
  then show ?thesis
    using unplaced_outputs_overlap_nothing [OF sample_specs, THEN conjunct2, THEN conjunct2, THEN conjunct2, THEN conjunct2,
        THEN conjunct2, rule_format, of 1 0] by simp
qed

end
