(* ===== verification/Output_Control.thy ===== *)
theory Output_Control
  imports Output_Projection "HOL-Library.Product_Lexorder"
begin

text \<open>
  The state that the settings see (\<^verbatim>\<open>output_topology.rs\<close>, \<^verbatim>\<open>output_control.rs\<close>): what is reported of every connected
  output, and the snapshot under a serial number that a request has to name.

  What the kernel reports of a scanout, its variable refresh rate, is a field of the record of the scanout. The reply
  channels are numbers.

  The theory shows that a serial number stands for one state until the numbers wrap, and that a reported state that is
  submitted again unchanged is accepted and moves nothing, when every output has a configured position. For an output without
  one the report gives the live position, which has been moved to the common origin: submitted again it moves the output.
\<close>

section \<open>What is reported\<close>

record scanout =
  sc_output :: connected_output
  sc_powered :: bool
  sc_vrr_supported :: bool

record output_control_mode =
  ctl_mode_width :: nat
  ctl_mode_height :: nat
  ctl_mode_refresh :: nat
  ctl_mode_preferred :: bool

record output_control_output =
  ctl_monitor_id :: nat
  ctl_name :: string
  ctl_enabled :: bool
  ctl_powered :: bool
  ctl_x :: int
  ctl_y :: int
  ctl_logical_width :: nat
  ctl_logical_height :: nat
  ctl_physical_size :: "(nat \<times> nat) option"
  ctl_scale :: f64
  ctl_transform :: output_transform_name
  ctl_axis :: scrolling_layout_axis
  ctl_adaptive_sync_supported :: bool
  ctl_adaptive_sync :: bool
  ctl_current_mode :: "output_control_mode option"
  ctl_modes :: "output_control_mode list"

record output_control_confirmation =
  token :: nat
  deadline_unix_milliseconds :: nat

text \<open>Of the capabilities only \<open>persistent\<close> depends on the session.\<close>

record output_control_state =
  state_persistent :: bool
  state_primary_output :: "string option"
  state_outputs :: "output_control_output list"
  state_pending_confirmation :: "output_control_confirmation option"

definition output_mode_key :: "drm_mode \<Rightarrow> (nat \<times> nat \<times> nat) option" where
  "output_mode_key m = (case (u32_of_int (output_mode_w m), u32_of_int (output_mode_h m), u32_of_int (output_mode_refresh m)) of
     (Some w, Some h, Some r) \<Rightarrow> Some (w, h, r) | _ \<Rightarrow> None)"

text \<open>The \<open>BTreeMap\<close> from a mode to whether it is preferred, in the order of its keys.\<close>

fun note_mode :: "nat \<times> nat \<times> nat \<Rightarrow> bool \<Rightarrow> ((nat \<times> nat \<times> nat) \<times> bool) list \<Rightarrow> ((nat \<times> nat \<times> nat) \<times> bool) list" where
  "note_mode key preferred [] = [(key, preferred)]"
| "note_mode key preferred ((key', p) # ms) = (if key = key' then (key', p \<or> preferred) # ms
     else if key < key' then (key, preferred) # (key', p) # ms else (key', p) # note_mode key preferred ms)"

definition mode_rank :: "output_control_mode \<Rightarrow> nat \<times> int \<times> int" where
  "mode_rank m = (if ctl_mode_preferred m then 0 else 1, - (int (ctl_mode_width m) * int (ctl_mode_height m)), - int (ctl_mode_refresh m))"

definition output_control_modes :: "connected_connector \<Rightarrow> output_control_mode list" where
  "output_control_modes c =
    (let found = foldl (\<lambda>ms m. case output_mode_key m of None \<Rightarrow> ms | Some key \<Rightarrow> note_mode key (mode_preferred m) ms) [] (connector_modes c)
     in sort_key mode_rank (map (\<lambda>((w, h, r), preferred).
          \<lparr>ctl_mode_width = w, ctl_mode_height = h, ctl_mode_refresh = r, ctl_mode_preferred = preferred\<rparr>) found))"

definition output_control_mode_of :: "connected_connector \<Rightarrow> drm_mode \<Rightarrow> output_control_mode option" where
  "output_control_mode_of c m = (case output_mode_key m of
       None \<Rightarrow> None
     | Some (w, h, r) \<Rightarrow> Some \<lparr>ctl_mode_width = w, ctl_mode_height = h, ctl_mode_refresh = r,
         ctl_mode_preferred = list_ex (\<lambda>candidate. mode_size candidate = mode_size m \<and>
           output_mode_refresh candidate = output_mode_refresh m \<and> mode_preferred candidate) (connector_modes c)\<rparr>)"

definition logical_size_for_control :: "output_control_mode \<Rightarrow> nat \<Rightarrow> output_transform \<Rightarrow> nat \<times> nat" where
  "logical_size_for_control mode scale_120 transform =
    (if scale_120 = 0 then (0, 0)
     else let (width, height) = (if swaps_axes transform then (ctl_mode_height mode, ctl_mode_width mode)
            else (ctl_mode_width mode, ctl_mode_height mode));
          scaled = (\<lambda>value. min (2 ^ 32 - 1) ((value * SCALE_BASE + scale_120 div 2) div scale_120))
        in (scaled width, scaled height))"

definition include_reported :: "horizontal_output_placement \<Rightarrow> logical_point \<Rightarrow> nat \<Rightarrow> output_error + horizontal_output_placement" where
  "include_reported placement point logical_width = (case i32_of_int (int logical_width) of
     None \<Rightarrow> Inl OutOfRange | Some w \<Rightarrow> placement_include placement point w)"

text \<open>One round of the loop over the connectors.\<close>

definition control_output :: "(f64 \<Rightarrow> f64 \<Rightarrow> f64) \<Rightarrow> scanout list \<Rightarrow> output_spec list \<Rightarrow> runtime_output_configuration \<Rightarrow>
    horizontal_output_placement \<Rightarrow> connected_connector \<Rightarrow> output_error + output_control_output \<times> horizontal_output_placement" where
  "control_output hypot scanouts specs config placement c =
    (let name = connector_name c; i = connector_handle c;
         scanout = find (\<lambda>s. co_id (sc_output s) = i) scanouts;
         spec = find (\<lambda>s. spec_id s = i) specs;
         transform = (case spec of Some s \<Rightarrow> spec_transform s | None \<Rightarrow> effective_transform config name);
         available = output_control_modes c;
         current_mode = Option.bind scanout (\<lambda>s. output_control_mode_of c (co_mode (sc_output s)));
         fallback_mode = option_or current_mode (option_or
           (Option.bind (select_output_mode (connector_modes c) (modes config name)) (output_control_mode_of c))
           (case available of [] \<Rightarrow> None | m # _ \<Rightarrow> Some m));
         scale_120 = (case spec of Some s \<Rightarrow> spec_scale_120 s | None \<Rightarrow> (case scales_120 config name of Some s \<Rightarrow> s
           | None \<Rightarrow> (case fallback_mode of None \<Rightarrow> SCALE_BASE
               | Some mode \<Rightarrow> default_scale_120 hypot c (ctl_mode_width mode, ctl_mode_height mode))));
         logical = (case fallback_mode of None \<Rightarrow> (0, 0) | Some mode \<Rightarrow> logical_size_for_control mode scale_120 transform);
         point = placement_resolve placement (option_or (positions config name) (map_option spec_position spec))
     in case include_reported placement point (fst logical) of
          Inl err \<Rightarrow> Inl err
        | Inr placement' \<Rightarrow> Inr (\<lparr>ctl_monitor_id = i, ctl_name = name, ctl_enabled = (scanout \<noteq> None),
            ctl_powered = option_is_some_and scanout sc_powered, ctl_x = point_x point, ctl_y = point_y point,
            ctl_logical_width = fst logical, ctl_logical_height = snd logical, ctl_physical_size = physical_size c,
            ctl_scale = f64_div (Fin (of_nat scale_120)) (Fin (of_nat SCALE_BASE)),
            ctl_transform = output_transform_name_of transform, ctl_axis = scrolling_layout_axis_of config name,
            ctl_adaptive_sync_supported = option_is_some_and scanout sc_vrr_supported,
            ctl_adaptive_sync = (case scanout of Some s \<Rightarrow> co_vrr_enabled (sc_output s) | None \<Rightarrow> name \<in> vrr_outputs config),
            ctl_current_mode = current_mode, ctl_modes = available\<rparr>, placement'))"

fun control_outputs :: "(f64 \<Rightarrow> f64 \<Rightarrow> f64) \<Rightarrow> scanout list \<Rightarrow> output_spec list \<Rightarrow> runtime_output_configuration \<Rightarrow>
    horizontal_output_placement \<Rightarrow> connected_connector list \<Rightarrow> output_error + output_control_output list" where
  "control_outputs hypot scanouts specs config placement [] = Inr []"
| "control_outputs hypot scanouts specs config placement (c # cs) =
    (case control_output hypot scanouts specs config placement c of
       Inl err \<Rightarrow> Inl err
     | Inr (out, placement) \<Rightarrow> (case control_outputs hypot scanouts specs config placement cs of
         Inl err \<Rightarrow> Inl err
       | Inr outs \<Rightarrow> Inr (out # outs)))"

fun include_specs :: "horizontal_output_placement \<Rightarrow> output_spec list \<Rightarrow> output_error + horizontal_output_placement" where
  "include_specs placement [] = Inr placement"
| "include_specs placement (spec # specs) = (case include_spec placement spec of
     Inl err \<Rightarrow> Inl err | Inr placement \<Rightarrow> include_specs placement specs)"

definition output_control_state_of :: "(f64 \<Rightarrow> f64 \<Rightarrow> f64) \<Rightarrow> connected_connector list \<Rightarrow> scanout list \<Rightarrow> topology_manager \<Rightarrow>
    runtime_output_configuration \<Rightarrow> bool \<Rightarrow> output_control_confirmation option \<Rightarrow> output_error + output_control_state" where
  "output_control_state_of hypot conns scanouts m config persistence_available pending =
    (let specs = snap_outputs (topology_snapshot_of m) in
     case include_specs placement_default specs of
       Inl err \<Rightarrow> Inl err
     | Inr placement \<Rightarrow> (case control_outputs hypot scanouts specs config placement conns of
         Inl err \<Rightarrow> Inl err
       | Inr outs \<Rightarrow> Inr \<lparr>state_persistent = persistence_available, state_primary_output = config_primary_output config,
           state_outputs = outs, state_pending_confirmation = pending\<rparr>))"

section \<open>The published snapshot\<close>

record output_control_snapshot =
  serial :: nat
  snapshot_state :: output_control_state

definition MAX_EXACT_JSON_INTEGER :: nat where "MAX_EXACT_JSON_INTEGER = 2 ^ 53 - 1"

definition next_serial :: "nat \<Rightarrow> nat" where
  "next_serial s = (if MAX_EXACT_JSON_INTEGER \<le> s then 1 else s + 1)"

definition publish :: "output_control_snapshot \<Rightarrow> output_control_state \<Rightarrow> output_control_snapshot" where
  "publish snapshot state = (if snapshot_state snapshot = state then snapshot
     else \<lparr>serial = next_serial (serial snapshot), snapshot_state = state\<rparr>)"

text \<open>The result, the snapshot and the flag afterwards.\<close>

definition publish_if_dirty :: "output_control_snapshot \<Rightarrow> bool \<Rightarrow> output_error + output_control_state \<Rightarrow>
    (output_error + output_control_snapshot option) \<times> output_control_snapshot \<times> bool" where
  "publish_if_dirty snapshot dirty state = (if \<not> dirty then (Inr None, snapshot, dirty)
     else case state of
       Inl err \<Rightarrow> (Inl err, snapshot, dirty)
     | Inr st \<Rightarrow> (Inr (Some (publish snapshot st)), publish snapshot st, False))"

text \<open>Whether a request changes only transforms, which is then animated.\<close>

fun only_transforms :: "output_control_output list \<Rightarrow> requested_output list \<Rightarrow> bool \<Rightarrow> bool" where
  "only_transforms current [] changed = changed"
| "only_transforms current (r # rs) changed =
    (case find (\<lambda>c. ctl_name c = req_name r) current of
       None \<Rightarrow> False
     | Some c \<Rightarrow> (case ctl_current_mode c of
         None \<Rightarrow> False
       | Some mode \<Rightarrow>
           if ctl_enabled c \<noteq> req_enabled r \<or> ctl_powered c \<noteq> req_powered r \<or> ctl_x c \<noteq> req_x r \<or> ctl_y c \<noteq> req_y r \<or>
              ctl_mode_width mode \<noteq> req_mode_width (req_mode r) \<or> ctl_mode_height mode \<noteq> req_mode_height (req_mode r) \<or>
              ctl_mode_refresh mode \<noteq> req_mode_refresh (req_mode r) \<or> ctl_scale c \<noteq> req_scale r \<or> ctl_scale c = NaN \<or>
              ctl_adaptive_sync c \<noteq> req_adaptive_sync r
           then False
           else only_transforms current rs (changed \<or> ctl_transform c \<noteq> req_transform r)))"

definition output_request_changes_only_transforms :: "output_control_output list \<Rightarrow> requested_output list \<Rightarrow> bool" where
  "output_request_changes_only_transforms current requests = (length current = length requests \<and> only_transforms current requests False)"

section \<open>Serial numbers\<close>

text \<open>A serial number stays as long as the state does, and moves when it changes.\<close>

lemma next_serial_range: "1 \<le> next_serial s" "s \<le> MAX_EXACT_JSON_INTEGER \<Longrightarrow> next_serial s \<le> MAX_EXACT_JSON_INTEGER" "next_serial s \<noteq> s"
  by (auto simp: next_serial_def MAX_EXACT_JSON_INTEGER_def)

lemma publish_serial: "serial (publish snapshot st) = serial snapshot \<longleftrightarrow> snapshot_state snapshot = st"
  "snapshot_state (publish snapshot st) = st"
  by (auto simp: publish_def next_serial_range(3))

section \<open>A reported state, submitted again\<close>

text \<open>The request that sends back what was reported.\<close>

definition resubmitted_output :: "output_control_output \<Rightarrow> requested_output" where
  "resubmitted_output out =
    (let mode = (case ctl_current_mode out of Some m \<Rightarrow> \<lparr>req_mode_width = ctl_mode_width m, req_mode_height = ctl_mode_height m,
           req_mode_refresh = ctl_mode_refresh m\<rparr> | None \<Rightarrow> \<lparr>req_mode_width = 0, req_mode_height = 0, req_mode_refresh = 0\<rparr>)
     in \<lparr>req_name = ctl_name out, req_enabled = ctl_enabled out, req_powered = ctl_powered out, req_x = ctl_x out, req_y = ctl_y out,
         req_mode = mode, req_scale = ctl_scale out, req_transform = ctl_transform out, req_axis = Some (ctl_axis out),
         req_adaptive_sync = ctl_adaptive_sync out\<rparr>)"

definition resubmission :: "output_control_state \<Rightarrow> apply_output_configuration" where
  "resubmission st = \<lparr>apply_primary_output = state_primary_output st, apply_persistent = False, apply_confirmation_timeout = None,
     apply_outputs = map resubmitted_output (state_outputs st)\<rparr>"

text \<open>How \<open>smithay\<close> converts a mode: the size is that of the mode, which has 16 bits, the rate fits 32 bits.\<close>

definition converted_mode :: "drm_mode \<Rightarrow> bool" where
  "converted_mode m \<longleftrightarrow> output_mode_w m = int (fst (mode_size m)) \<and> output_mode_h m = int (snd (mode_size m)) \<and>
     fst (mode_size m) < 65536 \<and> snd (mode_size m) < 65536 \<and> 0 \<le> output_mode_refresh m \<and> output_mode_refresh m < 2 ^ 32"

lemma converted_key:
  assumes "converted_mode m"
  shows "output_mode_key m = Some (fst (mode_size m), snd (mode_size m), nat (output_mode_refresh m))"
  using assms by (simp add: output_mode_key_def converted_mode_def u32_of_int_def)

lemma select_refresh_exact:
  assumes "r \<in> set refreshes"
  shows "select_refresh_millihz refreshes (Some r) = Some r"
proof -
  obtain s where s: "select_refresh_millihz refreshes (Some r) = Some s" using assms by (cases "select_refresh_millihz refreshes (Some r)") auto
  have "abs_diff s r = 0" using select_refresh_Some(2) [OF s refl assms] by (simp add: abs_diff_def split: if_splits)
  then show ?thesis using s by (simp add: abs_diff_def split: if_splits)
qed

text \<open>A chosen mode, asked for by its size and rate, is chosen again.\<close>

lemma select_mode_again:
  assumes "select_output_mode available preference = Some m" "converted_mode m"
  shows "select_output_mode available (Some \<lparr>pref_width = Some (fst (mode_size m)), pref_height = Some (snd (mode_size m)),
    pref_refresh_millihz = Some (nat (output_mode_refresh m))\<rparr>) = Some m"
proof -
  define matching where "matching size' = List.map_filter (\<lambda>m. if mode_size m = size'
      then map_option (\<lambda>refresh. (m, refresh)) (u32_of_int (output_mode_refresh m)) else None) available" for size'
  obtain preferred size' sel where preferred: "option_or (find mode_preferred available) (case available of [] \<Rightarrow> None | m # _ \<Rightarrow> Some m) = Some preferred"
      and found: "map_option fst (find (\<lambda>(m, refresh). refresh = sel) (matching size')) = Some m"
    using assms(1) unfolding select_output_mode_def matching_def
    by (auto simp: Let_def split: option.splits)
  obtain x where x: "find (\<lambda>(m, refresh). refresh = sel) (matching size') = Some x" "fst x = m" using found by auto
  then have mem: "(m, sel) \<in> set (matching size')" by (auto simp: find_Some_iff) (metis nth_mem prod.collapse)
  then have "mode_size m = size'" "u32_of_int (output_mode_refresh m) = Some sel"
    unfolding matching_def map_filter_set by (auto split: if_splits)
  then have size: "size' = mode_size m" and sel: "sel = nat (output_mode_refresh m)" using assms(2)
    by (auto simp: u32_of_int_def converted_mode_def)
  have "select_refresh_millihz (map snd (matching size')) (Some sel) = Some sel"
    using mem by (intro select_refresh_exact) force
  then show ?thesis
    using assms(2) preferred found unfolding select_output_mode_def matching_def size sel
    by (simp add: Let_def u16_of_def converted_mode_def)
qed

lemma scale_again:
  assumes "30 \<le> s" "s \<le> 960"
  shows "scale_acceptable (f64_div (Fin (of_nat s)) (Fin (of_nat SCALE_BASE)))"
    "scale_120_of (f64_div (Fin (of_nat s)) (Fin (of_nat SCALE_BASE))) = s"
proof -
  have s: "30 \<le> (of_nat s :: rat)" "(of_nat s :: rat) \<le> 960" using assms by simp_all
  obtain v where v: "f64_round (of_nat s / 120) = Fin v" "of_nat s / 120 - 1 / 4096 \<le> v" "v \<le> of_nat s / 120 + 1 / 4096"
    using s by (rule_tac f64_round_close [of "of_nat s / 120"]) simp_all
  then have eq: "f64_div (Fin (of_nat s)) (Fin (of_nat SCALE_BASE)) = Fin v" by (simp add: SCALE_BASE_def)
  have "1 / 4 \<le> v \<and> v \<le> 8"
  proof (cases "s = 30 \<or> s = 960")
    case True
    have "f64_round (1 / 4) = Fin (1 / 4)" using f64_round_dyadic [of 1024] by simp
    then show ?thesis using True v(1) by auto
  next
    case False
    then have "31 \<le> s" "s \<le> 959" using assms by linarith+
    then have "31 \<le> (of_nat s :: rat)" "(of_nat s :: rat) \<le> 959" by simp_all
    then show ?thesis using v(2,3) by linarith
  qed
  then show "scale_acceptable (f64_div (Fin (of_nat s)) (Fin (of_nat SCALE_BASE)))" unfolding eq by (simp add: scale_acceptable_def)
  obtain y where y: "f64_round (v * 120) = Fin y" "v * 120 - 1 / 4096 \<le> y" "y \<le> v * 120 + 1 / 4096"
    using v s by (rule_tac f64_round_close [of "v * 120"]) simp_all
  have y': "of_nat s - 1 / 2 < y" "y < of_nat s + 1 / 2" using v(2,3) y(2,3) by linarith+
  then have "(0 :: rat) \<le> y" "\<lfloor>y + 1 / 2\<rfloor> = int s" using s by (linarith, intro floor_unique) simp_all
  then have "round_half_away y = int s" by (simp add: round_half_away_def)
  then show "scale_120_of (f64_div (Fin (of_nat s)) (Fin (of_nat SCALE_BASE))) = s"
    unfolding eq using y(1) assms by (simp add: scale_120_of_def SCALE_BASE_def rat_trunc_def)
qed

text \<open>The outputs of the topology after an update are those of the projection.\<close>

lemma upserts_other: "i \<notin> spec_id ` set specs \<Longrightarrow> foldl change_map f (map Upsert specs) i = f i"
  by (induction specs arbitrary: f) auto

lemma upserts_lookup:
  "distinct (map spec_id specs) \<Longrightarrow> spec \<in> set specs \<Longrightarrow> foldl change_map f (map Upsert specs) (spec_id spec) = Some spec"
  by (induction specs arbitrary: f) (auto simp: upserts_other)

lemma updated_spec:
  assumes "topology_reachable m" "update_topology_for_outputs m outs config = (Inr snap, m')" "distinct (map co_id outs)"
  obtains specs where "output_specs outs config = Inr specs" "\<forall>spec \<in> set specs. spec_of (topology_outputs m') (spec_id spec) = Some spec"
proof -
  from assms(2) obtain specs c where specs: "output_specs outs config = Inr specs"
    and applied: "apply_with_primary_output m
      (map (\<lambda>spec. RemoveOutput (spec_id spec)) (filter (\<lambda>spec. spec_id spec \<notin> spec_id ` set specs) (topology_outputs m)) @ map Upsert specs)
      (config_primary_output config) = (Inr c, m')"
    by (auto simp: update_topology_for_outputs_def Let_def topology_snapshot_of_def split: sum.splits prod.splits)
  note ok = topology_reachable_ok [OF assms(1)]
  have "spec_of (topology_outputs m') = foldl change_map (spec_of (topology_outputs m))
      (map (\<lambda>spec. RemoveOutput (spec_id spec)) (filter (\<lambda>spec. spec_id spec \<notin> spec_id ` set specs) (topology_outputs m)) @ map Upsert specs)"
    using apply_accepted(1) [OF ok applied] ok by (simp add: topology_ok_def stage_changes_map del: foldl_append)
  moreover have "distinct (map spec_id specs)" using output_specs_names(1) [OF specs] assms(3) by simp
  ultimately show thesis using that [OF specs] by (simp add: upserts_lookup)
qed

lemma pending_scale:
  "pending_spec config out = Inr (spec, configured) \<Longrightarrow>
   spec_scale_120 spec = (case scales_120 config (co_name out) of Some s \<Rightarrow> s | None \<Rightarrow> co_default_scale_120 out)"
  by (auto simp: pending_spec_def Let_def split: option.splits)

lemma projected_spec:
  assumes "output_specs outs config = Inr specs" "out \<in> set outs"
  obtains spec where "spec \<in> set specs" "spec_id spec = co_id out" "spec_transform spec = co_transform out"
    "spec_scale_120 spec = (case scales_120 config (co_name out) of Some s \<Rightarrow> s | None \<Rightarrow> co_default_scale_120 out)"
proof -
  obtain pending placed ox oy where len: "length pending = length outs" "length placed = length outs" "length specs = length outs"
    and at: "\<forall>i < length outs. pending_spec config (outs ! i) = Inr (pending ! i) \<and>
       (\<exists>p. placed ! i = (fst (pending ! i))\<lparr>spec_position := p\<rparr> \<and> (snd (pending ! i) \<longrightarrow> p = spec_position (fst (pending ! i)))) \<and>
       rebase_spec ox oy (placed ! i) = Inr (specs ! i)"
    by (rule output_specs_stages [OF assms(1)])
  obtain i where i: "i < length outs" "outs ! i = out" using assms(2) by (auto simp: in_set_conv_nth)
  have "pending_spec config out = Inr (fst (pending ! i), snd (pending ! i))" using at i by auto
  note facts = pending_spec_Inr(1,3) [OF this] pending_scale [OF this]
  have "specs ! i \<in> set specs" using i(1) len by simp
  then show thesis using that [of "specs ! i"] facts at [rule_format, OF i(1)] by (auto dest!: rebase_spec_Inr(1))
qed

text \<open>A session that shows what its configuration projects, with every connected output lit.\<close>

definition shows_configuration :: "(f64 \<Rightarrow> f64 \<Rightarrow> f64) \<Rightarrow> connected_connector list \<Rightarrow> nat \<Rightarrow> runtime_output_configuration \<Rightarrow>
    scanout list \<Rightarrow> topology_manager \<Rightarrow> bool" where
  "shows_configuration hypot conns max_outputs config scanouts m \<longleftrightarrow>
     (\<exists>selection m0 snap. configured_outputs hypot conns max_outputs config = Inr (map sc_output scanouts, selection) \<and>
        connector_name ` set conns \<subseteq> lit selection \<and> topology_reachable m0 \<and>
        update_topology_for_outputs m0 (map sc_output scanouts) config = (Inr snap, m)) \<and>
     distinct (map connector_name conns) \<and> distinct (map connector_handle conns) \<and> length conns \<le> max_outputs"

lemma shown_outputs:
  assumes "shows_configuration hypot conns max_outputs config scanouts m"
  shows "list_all2 (\<lambda>c s. configured_output hypot config c = Inr (sc_output s)) conns scanouts"
proof -
  obtain selection where "configured_outputs hypot conns max_outputs config = Inr (map sc_output scanouts, selection)"
    "connector_name ` set conns \<subseteq> lit selection" "length conns \<le> max_outputs"
    using assms by (auto simp: shows_configuration_def)
  moreover from this(2) have "filter (\<lambda>c. connector_name c \<in> lit selection) conns = conns" by (auto intro: filter_True)
  ultimately have "try_map (configured_output hypot config) conns = Inr (map sc_output scanouts)"
    by (auto simp: configured_outputs_def Let_def split: sum.splits)
  from try_map_list [OF this] show ?thesis by (simp add: list_all2_map2)
qed

lemma shown_scanout:
  assumes "shows_configuration hypot conns max_outputs config scanouts m" "c \<in> set conns"
  obtains s spec where "find (\<lambda>s. co_id (sc_output s) = connector_handle c) scanouts = Some s" "configured_output hypot config c = Inr (sc_output s)"
    "find (\<lambda>spec. spec_id spec = connector_handle c) (snap_outputs (topology_snapshot_of m)) = Some spec"
    "spec_transform spec = co_transform (sc_output s)"
    "spec_scale_120 spec = (case scales_120 config (connector_name c) of Some s \<Rightarrow> s | None \<Rightarrow> co_default_scale_120 (sc_output s))"
proof -
  note shown = shown_outputs [OF assms(1)]
  have ids: "map (\<lambda>s. co_id (sc_output s)) scanouts = map connector_handle conns"
    using shown by (induction rule: list_all2_induct) (auto dest: configured_output_Inr(2))
  have dist: "distinct (map (\<lambda>s. co_id (sc_output s)) scanouts)" using assms(1) unfolding ids by (simp add: shows_configuration_def)
  obtain i where i: "i < length conns" "conns ! i = c" using assms(2) by (auto simp: in_set_conv_nth)
  define s where "s = scanouts ! i"
  have s: "configured_output hypot config c = Inr (sc_output s)" "s \<in> set scanouts"
    using list_all2_nthD [OF shown i(1)] i list_all2_lengthD [OF shown] by (auto simp: s_def)
  note out = configured_output_Inr [OF s(1)]
  have found: "find (\<lambda>s. co_id (sc_output s) = connector_handle c) scanouts = Some s"
    using s(2) out(2) dist by (intro find_unique) (auto simp: distinct_map inj_on_def)
  obtain m0 snap where m0: "topology_reachable m0" "update_topology_for_outputs m0 (map sc_output scanouts) config = (Inr snap, m)"
    using assms(1) by (auto simp: shows_configuration_def)
  have "distinct (map co_id (map sc_output scanouts))" using dist by (simp add: comp_def)
  then obtain specs where specs: "output_specs (map sc_output scanouts) config = Inr specs"
    "\<forall>spec \<in> set specs. spec_of (topology_outputs m) (spec_id spec) = Some spec"
    using updated_spec [OF m0] by metis
  obtain spec where "spec \<in> set specs" "spec_id spec = co_id (sc_output s)" "spec_transform spec = co_transform (sc_output s)"
    "spec_scale_120 spec = (case scales_120 config (co_name (sc_output s)) of Some s \<Rightarrow> s | None \<Rightarrow> co_default_scale_120 (sc_output s))"
    using projected_spec [OF specs(1)] s(2) by (metis image_eqI list.set_map)
  then show thesis using that [OF found s(1)] specs(2) out(1,2) by (auto simp: spec_of_def topology_snapshot_of_def)
qed

lemma find_mem: "find P xs = Some x \<Longrightarrow> x \<in> set xs \<and> P x"
  by (auto simp: find_Some_iff)

lemma select_output_mode_advertised:
  assumes "select_output_mode available preference = Some m"
  shows "m \<in> set available"
proof -
  obtain size' sel x where "find (\<lambda>(m, refresh). refresh = sel) (List.map_filter (\<lambda>m. if mode_size m = size'
      then map_option (\<lambda>refresh. (m, refresh)) (u32_of_int (output_mode_refresh m)) else None) available) = Some x" and x: "fst x = m"
    using assms unfolding select_output_mode_def Let_def by (auto split: option.splits)
  from find_mem [OF this(1)] show ?thesis unfolding map_filter_set using x by (auto split: if_splits)
qed

lemma control_outputs_Inr:
  "control_outputs hypot scanouts specs config placement conns = Inr outs \<Longrightarrow>
   list_all2 (\<lambda>c out. \<exists>before after. control_output hypot scanouts specs config before c = Inr (out, after)) conns outs"
  by (induction hypot scanouts specs config placement conns arbitrary: outs rule: control_outputs.induct)
    (auto split: sum.splits prod.splits)

lemma reported_outputs:
  assumes "output_control_state_of hypot conns scanouts m config available pending = Inr st"
  shows "list_all2 (\<lambda>c out. \<exists>before after. control_output hypot scanouts (snap_outputs (topology_snapshot_of m)) config before c = Inr (out, after))
    conns (state_outputs st)" "state_primary_output st = config_primary_output config"
  using assms control_outputs_Inr by (fastforce simp: output_control_state_of_def Let_def split: sum.splits)+

text \<open>What is sent back of a connector.\<close>

definition sent_back :: "runtime_output_configuration \<Rightarrow> connected_connector \<Rightarrow> connected_output \<Rightarrow> requested_output \<Rightarrow> bool" where
  "sent_back config c out r \<longleftrightarrow> req_name r = connector_name c \<and> req_enabled r \<and>
     (case positions config (connector_name c) of Some p \<Rightarrow> p = \<lparr>point_x = req_x r, point_y = req_y r\<rparr> | None \<Rightarrow> True) \<and>
     req_mode r = \<lparr>req_mode_width = fst (mode_size (co_mode out)), req_mode_height = snd (mode_size (co_mode out)),
       req_mode_refresh = nat (output_mode_refresh (co_mode out))\<rparr> \<and>
     req_scale r = f64_div (Fin (of_nat (case scales_120 config (connector_name c) of Some s \<Rightarrow> s | None \<Rightarrow> co_default_scale_120 out)))
       (Fin (of_nat SCALE_BASE)) \<and>
     req_transform r = output_transform_name_of (co_transform out) \<and> req_axis r = Some (scrolling_layout_axis_of config (connector_name c)) \<and>
     req_adaptive_sync r = co_vrr_enabled out"

lemma reported_is_sent_back:
  assumes "shows_configuration hypot conns max_outputs config scanouts m" "c \<in> set conns"
    and "control_output hypot scanouts (snap_outputs (topology_snapshot_of m)) config before c = Inr (out, after)"
    and "positions config (connector_name c) \<noteq> None" "\<forall>mode \<in> set (connector_modes c). converted_mode mode"
  shows "\<exists>o'. configured_output hypot config c = Inr o' \<and> converted_mode (co_mode o') \<and> sent_back config c o' (resubmitted_output out)"
proof -
  obtain s spec where s: "find (\<lambda>s. co_id (sc_output s) = connector_handle c) scanouts = Some s" "configured_output hypot config c = Inr (sc_output s)"
    and spec: "find (\<lambda>spec. spec_id spec = connector_handle c) (snap_outputs (topology_snapshot_of m)) = Some spec"
    "spec_transform spec = co_transform (sc_output s)"
    "spec_scale_120 spec = (case scales_120 config (connector_name c) of Some s \<Rightarrow> s | None \<Rightarrow> co_default_scale_120 (sc_output s))"
    by (rule shown_scanout [OF assms(1,2)])
  obtain p where p: "positions config (connector_name c) = Some p" using assms(4) by blast
  have "co_mode (sc_output s) \<in> set (connector_modes c)"
    using select_output_mode_advertised [OF configured_output_Inr(6) [OF s(2)]] .
  then have mode: "converted_mode (co_mode (sc_output s))" using assms(5) by blast
  have current: "Option.bind (Some s) (\<lambda>s. output_control_mode_of c (co_mode (sc_output s))) =
      output_control_mode_of c (co_mode (sc_output s))" by simp
  have "sent_back config c (sc_output s) (resubmitted_output out)"
    using assms(3) unfolding control_output_def Let_def s(1) spec(1) current
    by (auto simp: sent_back_def resubmitted_output_def Let_def output_control_mode_of_def converted_key [OF mode] p spec(2,3)
        placement_resolve_def split: sum.splits)
  then show ?thesis using s(2) mode by blast
qed

lemma sent_back_fits:
  assumes "configured_output hypot config c = Inr out" "converted_mode (co_mode out)" "sent_back config c out r"
    and "30 \<le> scale" "scale \<le> 960" "scale = (case scales_120 config (connector_name c) of Some s \<Rightarrow> s | None \<Rightarrow> co_default_scale_120 out)"
  shows "request_fits c r"
  using assms scale_again [OF assms(4,5)] select_mode_again [OF configured_output_Inr(6) [OF assms(1)] assms(2)]
  by (simp add: request_fits_def sent_back_def requested_preference_def)

text \<open>The preferences staged for what was sent back project to the same output.\<close>

lemma staged_same_output:
  assumes "configured_output hypot config c = Inr out" "converted_mode (co_mode out)" "sent_back config c out r"
    and "staged_as config c r staged" "sensor_rotation staged = sensor_rotation config"
  shows "configured_output hypot staged c = Inr out"
proof -
  note out = configured_output_Inr [OF assms(1)]
  have "select_output_mode (connector_modes c) (modes staged (connector_name c)) = Some (co_mode out)"
    using select_mode_again [OF out(6) assms(2)] assms(3,4) by (simp add: staged_as_def Let_def sent_back_def requested_preference_def)
  moreover have "output_transform_from_name (output_transform_name_of t) = t" for t by (cases t) simp_all
  then have "effective_transform staged (connector_name c) = effective_transform config (connector_name c)"
    using assms(3-5) out(4) by (intro baseline_shows) (simp_all add: staged_as_def Let_def sent_back_def)
  moreover have "connector_name c \<in> vrr_outputs staged \<longleftrightarrow> connector_name c \<in> vrr_outputs config"
    using assms(3,4) out(5) by (simp add: staged_as_def Let_def sent_back_def)
  ultimately show ?thesis using assms(1) out(6) by (simp add: configured_output_def Let_def)
qed

lemma staged_same_spec:
  assumes "configured_output hypot config c = Inr out" "sent_back config c out r" "staged_as config c r staged"
    and "positions config (connector_name c) \<noteq> None" and "30 \<le> scale" "scale \<le> 960" "scale = (case scales_120 config (connector_name c) of Some s \<Rightarrow> s | None \<Rightarrow> co_default_scale_120 out)"
  shows "pending_spec staged out = pending_spec config out"
proof -
  note name = configured_output_Inr(1) [OF assms(1)]
  have staged: "scales_120 staged (co_name out) = Some scale" "positions staged (co_name out) = positions config (co_name out)"
    using assms(2,3) scale_again(2) [OF assms(5,6)] name assms(4) by (auto simp: staged_as_def Let_def sent_back_def assms(7))
  have eq: "(case scales_120 staged (co_name out) of Some s \<Rightarrow> s | None \<Rightarrow> co_default_scale_120 out) =
      (case scales_120 config (co_name out) of Some s \<Rightarrow> s | None \<Rightarrow> co_default_scale_120 out)"
    using staged(1) assms(7) name by simp
  show ?thesis unfolding pending_spec_def Let_def staged(2) eq ..
qed

lemma stage_requests_total:
  "(\<And>c. c \<in> set cs \<Longrightarrow> \<exists>r. request_of requests (connector_name c) = Some r \<and> request_fits c r) \<Longrightarrow>
   \<exists>sp'. stage_requests current requests cs sp = Inr sp'"
proof (induction cs arbitrary: sp)
  case (Cons c cs)
  obtain r where r: "request_of requests (connector_name c) = Some r" "request_fits c r" using Cons.prems [of c] by auto
  then obtain sp1 where "stage_requested current c r sp = Inr sp1"
    by (cases sp) (auto simp: stage_requested_def request_fits_def Let_def)
  then show ?case using Cons.IH [of sp1] Cons.prems r(1) by auto
qed simp

lemma list_all2_source: "list_all2 P xs ys \<Longrightarrow> y \<in> set ys \<Longrightarrow> \<exists>x \<in> set xs. P x y"
  by (induction rule: list_all2_induct) auto

lemma try_map_cong: "(\<And>x. x \<in> set xs \<Longrightarrow> f x = g x) \<Longrightarrow> try_map f xs = try_map g xs"
  by (induction xs) (simp_all split: sum.split)

lemma reconcile_nothing:
  assumes "\<forall>x \<in> set c. requested x = (x \<in> lit (select_outputs c d l))"
  shows "reconcile_disabled_outputs c d l requested = d"
proof -
  have "reconcile_pass requested k names d = (d, False)" if "\<forall>x \<in> set names. requested x = (x \<in> k)" for k names
    using that by (induction names) auto
  then show ?thesis using assms by (simp add: reconcile_disabled_outputs.simps [of c d l requested])
qed

text \<open>What the settings may send back: every output has a position and a scale the settings accept.\<close>

definition resubmittable :: "connected_connector list \<Rightarrow> runtime_output_configuration \<Rightarrow> scanout list \<Rightarrow> bool" where
  "resubmittable conns config scanouts \<longleftrightarrow> conns \<noteq> [] \<and> \<not> option_is_some_and (config_primary_output config) invalid_primary_name \<and>
     list_all (\<lambda>c. positions config (connector_name c) \<noteq> None \<and> list_all converted_mode (connector_modes c)) conns \<and>
     list_all (\<lambda>s. let out = sc_output s; scale = (case scales_120 config (co_name out) of Some s \<Rightarrow> s | None \<Rightarrow> co_default_scale_120 out)
       in 30 \<le> scale \<and> scale \<le> 960) scanouts"

lemma sent_back_all:
  assumes "shows_configuration hypot conns max_outputs config scanouts m" "resubmittable conns config scanouts"
    and "output_control_state_of hypot conns scanouts m config available pending = Inr st"
  shows "map req_name (apply_outputs (resubmission st)) = map connector_name conns"
    and "c \<in> set conns \<Longrightarrow> \<exists>out r scale. configured_output hypot config c = Inr out \<and> converted_mode (co_mode out) \<and> sent_back config c out r \<and>
      r \<in> set (apply_outputs (resubmission st)) \<and> 30 \<le> scale \<and> scale \<le> 960 \<and>
      scale = (case scales_120 config (connector_name c) of Some s \<Rightarrow> s | None \<Rightarrow> co_default_scale_120 out)"
proof -
  note rep = reported_outputs(1) [OF assms(3)] and shown = shown_outputs [OF assms(1)]
  have sent: "\<exists>out. configured_output hypot config c = Inr out \<and> converted_mode (co_mode out) \<and> sent_back config c out (resubmitted_output ctl)"
    if "c \<in> set conns" "control_output hypot scanouts (snap_outputs (topology_snapshot_of m)) config before c = Inr (ctl, after)" for c ctl before after
    using reported_is_sent_back [OF assms(1) that] assms(2) that(1) by (auto simp: resubmittable_def list_all_iff)
  have len: "length (state_outputs st) = length conns" using list_all2_lengthD [OF rep] by simp
  have at: "\<exists>out. configured_output hypot config (conns ! i) = Inr out \<and> converted_mode (co_mode out) \<and>
      sent_back config (conns ! i) out (resubmitted_output (state_outputs st ! i))" if "i < length conns" for i
    using list_all2_nthD [OF rep that] sent that by (meson nth_mem)
  have req: "req_name (resubmitted_output (state_outputs st ! i)) = connector_name (conns ! i)" if "i < length conns" for i
    using at [OF that] unfolding sent_back_def by blast
  show "map req_name (apply_outputs (resubmission st)) = map connector_name conns"
    using len req by (intro nth_equalityI) (simp_all add: resubmission_def)
  show "\<exists>out r scale. configured_output hypot config c = Inr out \<and> converted_mode (co_mode out) \<and> sent_back config c out r \<and>
      r \<in> set (apply_outputs (resubmission st)) \<and> 30 \<le> scale \<and> scale \<le> 960 \<and>
      scale = (case scales_120 config (connector_name c) of Some s \<Rightarrow> s | None \<Rightarrow> co_default_scale_120 out)" if c: "c \<in> set conns"
  proof -
    obtain i where i: "i < length conns" "conns ! i = c" using c by (auto simp: in_set_conv_nth)
    obtain out where out: "configured_output hypot config c = Inr out" "converted_mode (co_mode out)"
      "sent_back config c out (resubmitted_output (state_outputs st ! i))" using at [OF i(1)] i(2) by blast
    have "scanouts ! i \<in> set scanouts" "sc_output (scanouts ! i) = out"
      using list_all2_nthD [OF shown i(1)] i list_all2_lengthD [OF shown] out(1) by auto
    then have "30 \<le> (case scales_120 config (co_name out) of Some s \<Rightarrow> s | None \<Rightarrow> co_default_scale_120 out) \<and>
        (case scales_120 config (co_name out) of Some s \<Rightarrow> s | None \<Rightarrow> co_default_scale_120 out) \<le> 960"
      using assms(2) by (auto simp: resubmittable_def list_all_iff Let_def)
    moreover have "resubmitted_output (state_outputs st ! i) \<in> set (apply_outputs (resubmission st))"
      using i(1) len by (simp add: resubmission_def)
    ultimately show ?thesis using out configured_output_Inr(1) [OF out(1)] by metis
  qed
qed

lemma accepted_primary:
  assumes "configuration_from_output_request request conns max_outputs current available = Inr (staged, powers)"
  shows "config_primary_output staged = apply_primary_output request"
proof -
  from accepted_request [OF assms] obtain staged0 where
    staged: "staged = staged0\<lparr>disabled_outputs := reconcile_disabled_outputs (map connector_name conns) (disabled_outputs current)
       (lid_closed current) (wanted (apply_outputs request))\<rparr>"
    and steps: "stage_requests current (apply_outputs request) conns (current\<lparr>config_primary_output := apply_primary_output request\<rparr>, Map.empty) = Inr (staged0, powers)"
    and dist: "distinct (map connector_name conns)" by metis
  have "same_elsewhere (connector_name ` set conns) staged0 (current\<lparr>config_primary_output := apply_primary_output request\<rparr>)"
    using stage_requests_Inr [OF steps dist] by blast
  then show ?thesis by (simp add: staged same_elsewhere_def)
qed

lemma resubmission_accepted:
  assumes "shows_configuration hypot conns max_outputs config scanouts m" "resubmittable conns config scanouts"
    and "output_control_state_of hypot conns scanouts m config available pending = Inr st"
  obtains staged powers where
    "configuration_from_output_request (resubmission st) conns max_outputs config persistence = Inr (staged, powers)"
proof -
  let ?rs = "apply_outputs (resubmission st)"
  note names = sent_back_all(1) [OF assms] and sent = sent_back_all(2) [OF assms]
  have dist: "distinct (map req_name ?rs)" "length conns \<le> max_outputs"
    using assms(1) unfolding names by (simp_all add: shows_configuration_def)
  have len: "length ?rs = length conns" using names by (metis length_map)
  have enabled: "filter req_enabled ?rs = ?rs"
  proof (rule filter_True, rule ballI)
    fix r assume r: "r \<in> set ?rs"
    then have "req_name r \<in> set (map connector_name conns)" using names by (metis image_eqI list.set_map)
    then obtain c where "c \<in> set conns" "connector_name c = req_name r" by auto
    then obtain r' where r': "r' \<in> set ?rs" "req_name r' = req_name r" "req_enabled r'" using sent [of c] unfolding sent_back_def by metis
    have "request_of ?rs (req_name r) = Some r" "request_of ?rs (req_name r) = Some r'"
      using request_of_mem [OF dist(1) r] request_of_mem [OF dist(1) r'(1)] r'(2) by simp_all
    then show "req_enabled r" using r'(3) by simp
  qed
  have "\<exists>r. request_of ?rs (connector_name c) = Some r \<and> request_fits c r" if conn: "c \<in> set conns" for c
  proof -
    obtain out r scale where r: "configured_output hypot config c = Inr out" "converted_mode (co_mode out)" "sent_back config c out r"
      "r \<in> set ?rs" "30 \<le> scale" "scale \<le> 960" "scale = (case scales_120 config (connector_name c) of Some s \<Rightarrow> s | None \<Rightarrow> co_default_scale_120 out)"
      using sent [OF conn] by blast
    have "req_name r = connector_name c" using r(3) unfolding sent_back_def by blast
    then have "request_of ?rs (connector_name c) = Some r" using request_of_mem [OF dist(1) r(4)] by simp
    then show ?thesis using sent_back_fits [OF r(1-3,5-7)] by blast
  qed
  then obtain sp' where "stage_requests config ?rs conns (config\<lparr>config_primary_output := apply_primary_output (resubmission st)\<rparr>, Map.empty) = Inr sp'"
    using stage_requests_total by blast
  moreover have "set (map connector_name conns) = req_name ` set ?rs" using names by (metis list.set_map)
  moreover have "apply_primary_output (resubmission st) = config_primary_output config" "\<not> apply_persistent (resubmission st)"
    "apply_confirmation_timeout (resubmission st) = None"
    using reported_outputs(2) [OF assms(3)] by (simp_all add: resubmission_def)
  moreover have "first_repeated [] (map req_name ?rs) = None" using dist(1) by (simp add: first_repeated_None)
  moreover have "\<not> option_is_some_and (config_primary_output config) invalid_primary_name" "conns \<noteq> []"
    using assms(2) by (simp_all add: resubmittable_def)
  ultimately show thesis
    using that dist(2) len enabled by (cases sp') (auto simp: configuration_from_output_request_def Let_def option_is_some_and_def)
qed

text \<open>
  Claim C16 (a reported state, submitted again, changes nothing). Take a session that shows what its configuration projects, with
  every connected output lit and every output at a configured position. When the settings send the reported state
  back without an edit, the request is accepted, the next projection gives the very same outputs, and their place in the
  topology is the same: no mode, scale, transform, position or preference to light an output moves.
\<close>
theorem unchanged_request_changes_nothing:
  assumes "shows_configuration hypot conns max_outputs config scanouts m" and "resubmittable conns config scanouts"
    and "output_control_state_of hypot conns scanouts m config available pending = Inr st"
  shows "\<exists>staged powers. configuration_from_output_request (resubmission st) conns max_outputs config persistence = Inr (staged, powers) \<and>
    configured_outputs hypot conns max_outputs staged = configured_outputs hypot conns max_outputs config \<and>
    output_specs (map sc_output scanouts) staged = output_specs (map sc_output scanouts) config \<and>
    disabled_outputs staged = disabled_outputs config \<and> config_primary_output staged = config_primary_output config"
proof -
  let ?rs = "apply_outputs (resubmission st)"
  obtain staged powers where accepted: "configuration_from_output_request (resubmission st) conns max_outputs config persistence = Inr (staged, powers)"
    by (rule resubmission_accepted [OF assms])
  note staging = accepted_staging [OF accepted] and sent = sent_back_all(2) [OF assms]
  have dist: "distinct (map req_name ?rs)" using assms(1) unfolding sent_back_all(1) [OF assms] by (simp add: shows_configuration_def)
  have same: "\<exists>out. configured_output hypot config c = Inr out \<and> configured_output hypot staged c = Inr out \<and>
      pending_spec staged out = pending_spec config out \<and> wanted ?rs (connector_name c)" if conn: "c \<in> set conns" for c
  proof -
    obtain out r scale where r: "configured_output hypot config c = Inr out" "converted_mode (co_mode out)" "sent_back config c out r"
      "r \<in> set ?rs" "30 \<le> scale" "scale \<le> 960" "scale = (case scales_120 config (connector_name c) of Some s \<Rightarrow> s | None \<Rightarrow> co_default_scale_120 out)"
      using sent [OF conn] by blast
    have placed: "positions config (connector_name c) \<noteq> None" using assms(2) conn by (simp add: resubmittable_def list_all_iff)
    obtain r' where "r' \<in> set ?rs" "req_name r' = connector_name c" "staged_as config c r' staged" using staging(1) [OF conn] by blast
    then have "staged_as config c r staged" using request_of_mem [OF dist] r(3,4) by (metis option.inject sent_back_def)
    moreover have "wanted ?rs (connector_name c)" using request_of_mem [OF dist r(4)] r(3) by (simp add: wanted_def sent_back_def)
    ultimately show ?thesis using r staged_same_output [OF r(1-3) _ staging(2)] staged_same_spec [OF r(1,3) _ placed r(5-7)] by blast
  qed
  obtain selection where sel: "configured_outputs hypot conns max_outputs config = Inr (map sc_output scanouts, selection)"
    "connector_name ` set conns \<subseteq> lit selection"
    using assms(1) by (auto simp: shows_configuration_def)
  have "selection = select_outputs (map connector_name conns) (disabled_outputs config) (lid_closed config)"
    using sel(1) by (auto simp: configured_outputs_def Let_def split: sum.splits)
  then have disabled: "disabled_outputs staged = disabled_outputs config"
    unfolding staging(4) using same sel(2) by (intro reconcile_nothing) auto
  have again: "configured_output hypot staged c = configured_output hypot config c" if "c \<in> set conns" for c using same [OF that] by auto
  have "configured_outputs hypot conns max_outputs staged = configured_outputs hypot conns max_outputs config"
    unfolding configured_outputs_def Let_def disabled staging(3)
    by (subst try_map_cong [of _ "configured_output hypot staged" "configured_output hypot config"]) (auto dest!: in_set_takeD intro: again)
  moreover have "output_specs (map sc_output scanouts) staged = output_specs (map sc_output scanouts) config"
  proof -
    have "pending_spec staged out = pending_spec config out" if shown: "out \<in> set (map sc_output scanouts)" for out
    proof -
      obtain s where s: "s \<in> set scanouts" "out = sc_output s" using shown by auto
      obtain c where "c \<in> set conns" "configured_output hypot config c = Inr out"
        using list_all2_source [OF shown_outputs [OF assms(1)] s(1)] s(2) by blast
      then show ?thesis using same by fastforce
    qed
    then show ?thesis unfolding output_specs_def using try_map_cong by (metis (no_types, lifting))
  qed
  moreover have "config_primary_output staged = config_primary_output config"
    using accepted_primary [OF accepted] reported_outputs(2) [OF assms(3)] by (simp add: resubmission_def)
  ultimately show ?thesis using accepted disabled by blast
qed

section \<open>A sample\<close>

text \<open>A laptop panel and a monitor, once with one and once with two configured positions.\<close>

definition office_connector :: connected_connector where
  "office_connector = monitor_connector\<lparr>connector_modes := [sample_mode 1920 1080 60000]\<rparr>"

definition upright_configuration :: "(string \<rightharpoonup> logical_point) \<Rightarrow> runtime_output_configuration" where
  "upright_configuration p = plain_configuration\<lparr>sensor_rotation := Normal, positions := p\<rparr>"

definition one_placed :: runtime_output_configuration where
  "one_placed = upright_configuration [''DP-1'' \<mapsto> \<lparr>point_x = 500, point_y = 100\<rparr>]"

definition both_placed :: runtime_output_configuration where
  "both_placed = upright_configuration [''DP-1'' \<mapsto> \<lparr>point_x = 500, point_y = 100\<rparr>, ''eDP-1'' \<mapsto> \<lparr>point_x = 2420, point_y = 0\<rparr>]"

definition sample_scanouts :: "scanout list" where
  "sample_scanouts = map (\<lambda>out. \<lparr>sc_output = out, sc_powered = True, sc_vrr_supported = False\<rparr>) sample_outputs"

definition live_topology :: topology_manager where
  "live_topology = \<lparr>topology_epoch = 1, topology_outputs = [sample_spec 41 ''eDP-1'' 1920 0 2560 1600, sample_spec 52 ''DP-1'' 0 100 1920 1080],
     primary_output = None\<rparr>"

lemma office_name [simp]: "connector_name office_connector = ''DP-1''"
  using sample_connectors(2) by (simp add: office_connector_def connector_name_def)

lemma sample_rect: "logical_rect_of (sample_spec i name 1920 0 2560 1600) = \<lparr>rect_x = Fin 1920, rect_y = Fin 0, rect_width = Fin 2560, rect_height = Fin 1600\<rparr>"
  "logical_rect_of (sample_spec i name 0 100 1920 1080) = \<lparr>rect_x = Fin 0, rect_y = Fin 100, rect_width = Fin 1920, rect_height = Fin 1080\<rparr>"
  "logical_rect_of (sample_spec i name 1420 0 2560 1600) = \<lparr>rect_x = Fin 1420, rect_y = Fin 0, rect_width = Fin 2560, rect_height = Fin 1600\<rparr>"
  by (simp_all add: sample_spec_def rect_evals)

lemma sample_spec_fields [simp]:
  "spec_id (sample_spec i name x y w h) = i" "spec_name (sample_spec i name x y w h) = name" "spec_scale_120 (sample_spec i name x y w h) = 120"
  "spec_mode (sample_spec i name x y w h) = \<lparr>pixel_width = w, pixel_height = h\<rparr>" "spec_transform (sample_spec i name x y w h) = Normal"
  "spec_refresh_millihz (sample_spec i name x y w h) = 60000" "spec_position (sample_spec i name x y w h) = \<lparr>point_x = x, point_y = y\<rparr>"
  by (simp_all add: sample_spec_def)

lemma live_valid:
  "validate_outputs [sample_spec 41 ''eDP-1'' 1920 0 2560 1600, sample_spec 52 ''DP-1'' 0 100 1920 1080] = Inr ()"
  "validate_outputs [sample_spec 41 ''eDP-1'' 1420 0 2560 1600, sample_spec 52 ''DP-1'' 0 100 1920 1080] = Inl (OverlappingOutputs ''DP-1'' ''eDP-1'')"
  by (simp_all add: validate_outputs_def coordinate_overflow_def logical_rects_overlap_def rect_right_def rect_bottom_def
     f64_from_i32_def i32_min_def i32_max_def sample_rect sample_names Let_def)

lemma sample_placements:
  "try_map (pending_spec (upright_configuration p)) sample_outputs =
    Inr [(case p ''eDP-1'' of Some q \<Rightarrow> (sample_spec 41 ''eDP-1'' (point_x q) (point_y q) 2560 1600, True) | None \<Rightarrow> (sample_spec 41 ''eDP-1'' 0 0 2560 1600, False)),
         (case p ''DP-1'' of Some q \<Rightarrow> (sample_spec 52 ''DP-1'' (point_x q) (point_y q) 1920 1080, True) | None \<Rightarrow> (sample_spec 52 ''DP-1'' 0 0 1920 1080, False))]"
  by (simp add: sample_outputs_def pending_spec_def sample_mode_def upright_configuration_def plain_configuration_def
      u32_of_int_def sample_spec_def split: option.splits)

lemmas placement_evals = output_specs_def sample_placements include_spec_def i32_of_int_def i32_min_def i32_max_def
      placement_include_def placement_default_def placement_resolve_def normalize_live_output_positions_def rebase_spec_def

lemma live_specs:
  "output_specs sample_outputs one_placed = Inr [sample_spec 41 ''eDP-1'' 1920 0 2560 1600, sample_spec 52 ''DP-1'' 0 100 1920 1080]"
  "output_specs sample_outputs both_placed = Inr [sample_spec 41 ''eDP-1'' 1920 0 2560 1600, sample_spec 52 ''DP-1'' 0 100 1920 1080]"
  by (simp_all add: one_placed_def both_placed_def placement_evals)

lemma live_update:
  assumes "output_specs sample_outputs config = Inr [sample_spec 41 ''eDP-1'' 1920 0 2560 1600, sample_spec 52 ''DP-1'' 0 100 1920 1080]"
    and "config_primary_output config = None"
  shows "update_topology_for_outputs topology_default sample_outputs config = (Inr (topology_snapshot_of live_topology), live_topology)"
  using assms by (simp add: update_topology_for_outputs_def topology_default_def topology_snapshot_of_def apply_with_primary_output_def live_valid
      live_topology_def spec_of_def)

lemma sample_selected: "select_output_mode [sample_mode w h 60000] None = Some (sample_mode w h 60000)"
  by (simp add: select_output_mode_def sample_mode_def u32_of_int_def select_refresh_millihz_def List.map_filter_def)

lemma sample_handles [simp]: "connector_handle panel_connector = 41" "connector_handle office_connector = 52"
  "connector_crtc panel_connector = 7" "connector_crtc office_connector = 8"
  "connector_modes panel_connector = [sample_mode 2560 1600 60000]" "connector_modes office_connector = [sample_mode 1920 1080 60000]"
  "physical_size panel_connector = None" "physical_size office_connector = None"
  by (simp_all add: panel_connector_def office_connector_def monitor_connector_def)

lemma live_effective: "effective_transform (upright_configuration p) name = Normal"
  by (simp add: effective_transform_def upright_configuration_def plain_configuration_def rotated_by_def transform_of_def reflected_def)

lemma live_output:
  "configured_output hypot (upright_configuration p) panel_connector = Inr (sample_outputs ! 0)"
  "configured_output hypot (upright_configuration p) office_connector = Inr (sample_outputs ! Suc 0)"
proof -
  have "modes (upright_configuration p) name = None" "vrr_outputs (upright_configuration p) = {}" for name
    by (simp_all add: upright_configuration_def plain_configuration_def)
  then show "configured_output hypot (upright_configuration p) panel_connector = Inr (sample_outputs ! 0)"
    "configured_output hypot (upright_configuration p) office_connector = Inr (sample_outputs ! Suc 0)"
    unfolding configured_output_def Let_def live_effective
    by (simp_all add: sample_selected default_scale_120_def SCALE_BASE_def sample_outputs_def)
qed

lemma live_configured:
  "configured_outputs hypot [panel_connector, office_connector] 4 (upright_configuration p) =
     Inr (sample_outputs, select_outputs [''eDP-1'', ''DP-1''] {} False)"
  "lit (select_outputs [''eDP-1'', ''DP-1''] {} False) = {''eDP-1'', ''DP-1''}"
proof -
  show sel: "lit (select_outputs [''eDP-1'', ''DP-1''] {} False) = {''eDP-1'', ''DP-1''}" by code_simp
  have "disabled_outputs (upright_configuration p) = {}" "\<not> lid_closed (upright_configuration p)"
    by (simp_all add: upright_configuration_def plain_configuration_def)
  then show "configured_outputs hypot [panel_connector, office_connector] 4 (upright_configuration p) =
     Inr (sample_outputs, select_outputs [''eDP-1'', ''DP-1''] {} False)"
    using live_output [of hypot p] by (simp add: configured_outputs_def sel sample_outputs_def)
qed

lemma sample_converted: "converted_mode (sample_mode 2560 1600 60000)" "converted_mode (sample_mode 1920 1080 60000)"
  by (simp_all add: converted_mode_def sample_mode_def)

text \<open>What is reported of the two outputs.\<close>

definition reported_panel :: output_control_output where
  "reported_panel = \<lparr>ctl_monitor_id = 41, ctl_name = ''eDP-1'', ctl_enabled = True, ctl_powered = True, ctl_x = 2420, ctl_y = 0,
     ctl_logical_width = 2560, ctl_logical_height = 1600, ctl_physical_size = None, ctl_scale = Fin 1, ctl_transform = NameNormal,
     ctl_axis = Auto, ctl_adaptive_sync_supported = False, ctl_adaptive_sync = False,
     ctl_current_mode = Some \<lparr>ctl_mode_width = 2560, ctl_mode_height = 1600, ctl_mode_refresh = 60000, ctl_mode_preferred = True\<rparr>,
     ctl_modes = [\<lparr>ctl_mode_width = 2560, ctl_mode_height = 1600, ctl_mode_refresh = 60000, ctl_mode_preferred = True\<rparr>]\<rparr>"

definition reported_office :: output_control_output where
  "reported_office = \<lparr>ctl_monitor_id = 52, ctl_name = ''DP-1'', ctl_enabled = True, ctl_powered = True, ctl_x = 500, ctl_y = 100,
     ctl_logical_width = 1920, ctl_logical_height = 1080, ctl_physical_size = None, ctl_scale = Fin 1, ctl_transform = NameNormal,
     ctl_axis = Auto, ctl_adaptive_sync_supported = False, ctl_adaptive_sync = False,
     ctl_current_mode = Some \<lparr>ctl_mode_width = 1920, ctl_mode_height = 1080, ctl_mode_refresh = 60000, ctl_mode_preferred = True\<rparr>,
     ctl_modes = [\<lparr>ctl_mode_width = 1920, ctl_mode_height = 1080, ctl_mode_refresh = 60000, ctl_mode_preferred = True\<rparr>]\<rparr>"

lemma sample_reported_modes:
  "output_control_modes panel_connector = ctl_modes reported_panel" "output_control_modes office_connector = ctl_modes reported_office"
  "output_control_mode_of panel_connector (sample_mode 2560 1600 60000) = ctl_current_mode reported_panel"
  "output_control_mode_of office_connector (sample_mode 1920 1080 60000) = ctl_current_mode reported_office"
  by (simp_all add: output_control_modes_def output_control_mode_of_def output_mode_key_def u32_of_int_def sample_mode_def
      reported_panel_def reported_office_def)

definition reported_state :: "output_control_output list \<Rightarrow> output_control_state" where
  "reported_state outs = \<lparr>state_persistent = False, state_primary_output = None, state_outputs = outs, state_pending_confirmation = None\<rparr>"

definition live_placement :: "int \<Rightarrow> horizontal_output_placement" where
  "live_placement x = \<lparr>default_x = x\<rparr>"

lemma live_scanouts: "find (\<lambda>s. co_id (sc_output s) = 41) sample_scanouts = Some \<lparr>sc_output = sample_outputs ! 0, sc_powered = True, sc_vrr_supported = False\<rparr>"
  "find (\<lambda>s. co_id (sc_output s) = 52) sample_scanouts = Some \<lparr>sc_output = sample_outputs ! Suc 0, sc_powered = True, sc_vrr_supported = False\<rparr>"
  "co_mode (sample_outputs ! 0) = sample_mode 2560 1600 60000" "co_mode (sample_outputs ! Suc 0) = sample_mode 1920 1080 60000"
  "\<not> co_vrr_enabled (sample_outputs ! 0)" "\<not> co_vrr_enabled (sample_outputs ! Suc 0)"
  by (simp_all add: sample_scanouts_def sample_outputs_def)

lemma live_sizes: "logical_size_for_control \<lparr>ctl_mode_width = 2560, ctl_mode_height = 1600, ctl_mode_refresh = 60000, ctl_mode_preferred = True\<rparr> 120 Normal = (2560, 1600)"
  "logical_size_for_control \<lparr>ctl_mode_width = 1920, ctl_mode_height = 1080, ctl_mode_refresh = 60000, ctl_mode_preferred = True\<rparr> 120 Normal = (1920, 1080)"
  by (simp_all add: logical_size_for_control_def swaps_axes_def SCALE_BASE_def)

lemma live_axis: "scrolling_layout_axis_of (upright_configuration p) name = Auto" "positions (upright_configuration p) = p"
  by (simp_all add: scrolling_layout_axis_of_def upright_configuration_def plain_configuration_def)

lemma panel_reported:
  assumes "option_or (p ''eDP-1'') (Some \<lparr>point_x = 1920, point_y = 0\<rparr>) = Some \<lparr>point_x = x, point_y = y\<rparr>" "0 \<le> x" "x \<le> 10000"
  shows "control_output hypot sample_scanouts (topology_outputs live_topology) (upright_configuration p) placement panel_connector =
     Inr (reported_panel\<lparr>ctl_x := x, ctl_y := y\<rparr>, placement\<lparr>default_x := max (default_x placement) (x + 2560)\<rparr>)"
proof -
  have spec: "find (\<lambda>s. spec_id s = 41) (topology_outputs live_topology) = Some (sample_spec 41 ''eDP-1'' 1920 0 2560 1600)"
    by (simp add: live_topology_def)
  show ?thesis
    using assms by (simp add: control_output_def spec live_scanouts live_axis sample_reported_modes)
      (simp add: reported_panel_def live_sizes placement_resolve_def include_reported_def i32_of_int_def i32_min_def i32_max_def
        placement_include_def option_is_some_and_def SCALE_BASE_def Let_def live_axis live_scanouts)
qed

lemma office_reported:
  assumes "p ''DP-1'' = Some \<lparr>point_x = 500, point_y = 100\<rparr>"
  shows "control_output hypot sample_scanouts (topology_outputs live_topology) (upright_configuration p) placement office_connector =
     Inr (reported_office, placement\<lparr>default_x := max (default_x placement) 2420\<rparr>)"
proof -
  have spec: "find (\<lambda>s. spec_id s = 52) (topology_outputs live_topology) = Some (sample_spec 52 ''DP-1'' 0 100 1920 1080)"
    by (simp add: live_topology_def)
  show ?thesis
    using assms by (simp add: control_output_def spec live_scanouts live_axis sample_reported_modes)
      (simp add: reported_office_def live_sizes placement_resolve_def include_reported_def i32_of_int_def i32_min_def i32_max_def
        placement_include_def option_is_some_and_def SCALE_BASE_def Let_def live_axis live_scanouts)
qed

lemma state_reported:
  assumes "p ''DP-1'' = Some \<lparr>point_x = 500, point_y = 100\<rparr>"
    and "option_or (p ''eDP-1'') (Some \<lparr>point_x = 1920, point_y = 0\<rparr>) = Some \<lparr>point_x = x, point_y = y\<rparr>" "0 \<le> x" "x \<le> 10000"
  shows "output_control_state_of hypot [panel_connector, office_connector] sample_scanouts live_topology (upright_configuration p) False None =
    Inr (reported_state [reported_panel\<lparr>ctl_x := x, ctl_y := y\<rparr>, reported_office])"
proof -
  have "\<exists>placement. include_specs placement_default (topology_outputs live_topology) = Inr placement"
    by (simp add: live_topology_def include_spec_def placement_include_def placement_default_def i32_of_int_def i32_min_def i32_max_def)
  then show ?thesis
    using panel_reported [where p = p and hypot = hypot, OF assms(2-4)] office_reported [where p = p and hypot = hypot, OF assms(1)]
    by (auto simp: output_control_state_of_def topology_snapshot_of_def reported_state_def upright_configuration_def plain_configuration_def)
qed

lemma sample_shown:
  assumes "output_specs sample_outputs (upright_configuration p) = Inr [sample_spec 41 ''eDP-1'' 1920 0 2560 1600, sample_spec 52 ''DP-1'' 0 100 1920 1080]"
  shows "shows_configuration hypot [panel_connector, office_connector] 4 (upright_configuration p) sample_scanouts live_topology"
proof -
  have "map sc_output sample_scanouts = sample_outputs" by (simp add: sample_scanouts_def comp_def)
  moreover have "config_primary_output (upright_configuration p) = None" by (simp add: upright_configuration_def plain_configuration_def)
  ultimately show ?thesis
    using live_configured(1) [of hypot] live_configured(2) live_update [OF assms] topology_reachable.start
    by (auto simp: shows_configuration_def)
qed

lemma both_placed_resubmittable: "resubmittable [panel_connector, office_connector] both_placed sample_scanouts"
  using sample_converted
  by (simp add: resubmittable_def both_placed_def upright_configuration_def plain_configuration_def sample_scanouts_def sample_outputs_def
      option_is_some_and_def)

theorem unchanged_request_changes_nothing_witness:
  "\<exists>staged powers. configuration_from_output_request (resubmission (reported_state [reported_panel, reported_office]))
       [panel_connector, office_connector] 4 both_placed False = Inr (staged, powers) \<and>
     output_specs sample_outputs staged = Inr [sample_spec 41 ''eDP-1'' 1920 0 2560 1600, sample_spec 52 ''DP-1'' 0 100 1920 1080]"
proof -
  have "reported_panel\<lparr>ctl_x := 2420, ctl_y := 0\<rparr> = reported_panel" by (simp add: reported_panel_def)
  then have "output_control_state_of (\<lambda>x y. Fin 1) [panel_connector, office_connector] sample_scanouts live_topology both_placed False None =
      Inr (reported_state [reported_panel, reported_office])"
    using state_reported [of "[''DP-1'' \<mapsto> \<lparr>point_x = 500, point_y = 100\<rparr>, ''eDP-1'' \<mapsto> \<lparr>point_x = 2420, point_y = 0\<rparr>]" 2420 0]
    by (simp add: both_placed_def)
  from unchanged_request_changes_nothing [OF sample_shown [OF live_specs(2) [unfolded both_placed_def], folded both_placed_def] both_placed_resubmittable this, of False]
  show ?thesis using live_specs(2) by (auto simp: sample_scanouts_def comp_def)
qed

text \<open>An output without a configured position: the panel is reported at its live position, which was moved to the common origin.\<close>

lemma one_placed_requests:
  "request_fits panel_connector (resubmitted_output (reported_panel\<lparr>ctl_x := x, ctl_y := y\<rparr>))" "request_fits office_connector (resubmitted_output reported_office)"
proof -
  have "scale_acceptable (Fin 1)" by (simp add: scale_acceptable_def)
  moreover have "select_output_mode (connector_modes panel_connector) (Some (requested_preference (resubmitted_output (reported_panel\<lparr>ctl_x := x, ctl_y := y\<rparr>)))) \<noteq> None"
    "select_output_mode (connector_modes office_connector) (Some (requested_preference (resubmitted_output reported_office))) \<noteq> None"
    using select_mode_again [OF sample_selected sample_converted(1)] select_mode_again [OF sample_selected sample_converted(2)]
    by (simp_all add: resubmitted_output_def reported_panel_def reported_office_def requested_preference_def sample_mode_def)
  ultimately show "request_fits panel_connector (resubmitted_output (reported_panel\<lparr>ctl_x := x, ctl_y := y\<rparr>))" "request_fits office_connector (resubmitted_output reported_office)"
    by (simp_all add: request_fits_def resubmitted_output_def reported_panel_def reported_office_def Let_def)
qed

lemma one_placed_staged:
  defines "rs \<equiv> [resubmitted_output (reported_panel\<lparr>ctl_x := 1920, ctl_y := 0\<rparr>), resubmitted_output reported_office]"
  shows "\<exists>staged powers. configuration_from_output_request (resubmission (reported_state [reported_panel\<lparr>ctl_x := 1920, ctl_y := 0\<rparr>, reported_office]))
    [panel_connector, office_connector] 4 one_placed False = Inr (staged, powers)"
proof -
  have names: "map req_name rs = [''eDP-1'', ''DP-1'']" "filter req_enabled rs = rs"
    by (simp_all add: rs_def resubmitted_output_def reported_panel_def reported_office_def)
  then have "request_of rs ''eDP-1'' = Some (rs ! 0)" "request_of rs ''DP-1'' = Some (rs ! 1)"
    by (simp_all add: request_of_def rs_def)
  then have "\<exists>r. request_of rs (connector_name c) = Some r \<and> request_fits c r" if "c \<in> set [panel_connector, office_connector]" for c
    using that one_placed_requests by (auto simp: rs_def)
  then obtain sp' where "stage_requests one_placed rs [panel_connector, office_connector] (one_placed, Map.empty) = Inr sp'"
    using stage_requests_total by blast
  moreover have "one_placed\<lparr>config_primary_output := None\<rparr> = one_placed" by (simp add: one_placed_def upright_configuration_def plain_configuration_def)
  moreover have "first_repeated [] (map req_name rs) = None" "length rs = 2" "req_name ` set rs = {''eDP-1'', ''DP-1''}"
    using names(1) by (auto simp: first_repeated_None rs_def)
  ultimately show ?thesis using names(2)
    by (cases sp') (auto simp: configuration_from_output_request_def Let_def option_is_some_and_def resubmission_def reported_state_def
        simp flip: rs_def)
qed

lemma one_placed_sent_back:
  "sent_back one_placed panel_connector (sample_outputs ! 0) (resubmitted_output (reported_panel\<lparr>ctl_x := x, ctl_y := y\<rparr>))"
  "sent_back one_placed office_connector (sample_outputs ! Suc 0) (resubmitted_output reported_office)"
proof -
  have "scrolling_layout_axis_of one_placed name = Auto" "scales_120 one_placed name = None" for name
    by (simp_all add: one_placed_def live_axis) (simp add: upright_configuration_def plain_configuration_def)
  moreover have "positions one_placed ''eDP-1'' = None" "positions one_placed ''DP-1'' = Some \<lparr>point_x = 500, point_y = 100\<rparr>"
    by (simp_all add: one_placed_def live_axis)
  ultimately show
    "sent_back one_placed panel_connector (sample_outputs ! 0) (resubmitted_output (reported_panel\<lparr>ctl_x := x, ctl_y := y\<rparr>))"
    "sent_back one_placed office_connector (sample_outputs ! Suc 0) (resubmitted_output reported_office)"
    by (simp_all add: sent_back_def resubmitted_output_def reported_panel_def reported_office_def sample_outputs_def sample_mode_def
        SCALE_BASE_def)
qed

lemma one_placed_projection:
  assumes "staged_as one_placed panel_connector (resubmitted_output (reported_panel\<lparr>ctl_x := 1920, ctl_y := 0\<rparr>)) staged"
    and "staged_as one_placed office_connector (resubmitted_output reported_office) staged"
    and "sensor_rotation staged = sensor_rotation one_placed" "disabled_outputs staged = {}" "\<not> lid_closed staged"
  shows "configured_outputs hypot [panel_connector, office_connector] 4 staged = Inr (sample_outputs, select_outputs [''eDP-1'', ''DP-1''] {} False)"
    and "output_specs sample_outputs staged = Inr [sample_spec 41 ''eDP-1'' 1420 0 2560 1600, sample_spec 52 ''DP-1'' 0 100 1920 1080]"
proof -
  have modes: "converted_mode (co_mode (sample_outputs ! 0))" "converted_mode (co_mode (sample_outputs ! Suc 0))"
    using sample_converted by (simp_all add: live_scanouts)
  have live: "configured_output hypot one_placed panel_connector = Inr (sample_outputs ! 0)"
    "configured_output hypot one_placed office_connector = Inr (sample_outputs ! Suc 0)"
    unfolding one_placed_def by (rule live_output)+
  have "configured_output hypot staged panel_connector = Inr (sample_outputs ! 0)"
    "configured_output hypot staged office_connector = Inr (sample_outputs ! Suc 0)"
    using staged_same_output [OF live(1) modes(1) one_placed_sent_back(1) assms(1,3)]
      staged_same_output [OF live(2) modes(2) one_placed_sent_back(2) assms(2,3)] by auto
  then show "configured_outputs hypot [panel_connector, office_connector] 4 staged = Inr (sample_outputs, select_outputs [''eDP-1'', ''DP-1''] {} False)"
    using assms(4,5) by (simp add: configured_outputs_def live_configured(2) sample_outputs_def)
  have scale: "scale_120_of (Fin 1) = 120" using scale_again(2) [of 120] by (simp add: SCALE_BASE_def)
  have "pending_spec staged (sample_outputs ! 0) = Inr (sample_spec 41 ''eDP-1'' 1920 0 2560 1600, True)"
    "pending_spec staged (sample_outputs ! Suc 0) = Inr (sample_spec 52 ''DP-1'' 500 100 1920 1080, True)"
    using assms(1,2) scale by (simp_all add: staged_as_def Let_def resubmitted_output_def reported_panel_def reported_office_def
        sample_outputs_def pending_spec_def sample_mode_def u32_of_int_def sample_spec_def)
  then have "try_map (pending_spec staged) sample_outputs = Inr [(sample_spec 41 ''eDP-1'' 1920 0 2560 1600, True), (sample_spec 52 ''DP-1'' 500 100 1920 1080, True)]"
    by (simp add: sample_outputs_def)
  then show "output_specs sample_outputs staged = Inr [sample_spec 41 ''eDP-1'' 1420 0 2560 1600, sample_spec 52 ''DP-1'' 0 100 1920 1080]"
    by (simp add: placement_evals)
qed

text \<open>
  Claim C18 (a live position, submitted again, is refused). An output without a configured position is reported at its live
  position, which has been moved to the common origin, beside outputs that are reported at their configured positions. A
  monitor configured at 500, 100 and a panel placed on its right are shown side by side; the report puts the panel 500
  pixels too far left, and the settings that send it back unchanged get an error: the outputs overlap.
\<close>
theorem reported_live_position_is_refused:
  "\<exists>st staged powers selection.
     shows_configuration (\<lambda>x y. Fin 1) [panel_connector, office_connector] 4 one_placed sample_scanouts live_topology \<and>
     output_control_state_of (\<lambda>x y. Fin 1) [panel_connector, office_connector] sample_scanouts live_topology one_placed False None = Inr st \<and>
     configuration_from_output_request (resubmission st) [panel_connector, office_connector] 4 one_placed False = Inr (staged, powers) \<and>
     configured_outputs (\<lambda>x y. Fin 1) [panel_connector, office_connector] 4 staged = Inr (sample_outputs, selection) \<and>
     fst (update_topology_for_outputs live_topology sample_outputs staged) = Inl (TopologyRefused (OverlappingOutputs ''DP-1'' ''eDP-1''))"
proof -
  let ?conns = "[panel_connector, office_connector]" and ?hypot = "\<lambda>x y :: f64. Fin 1"
  define st where "st = reported_state [reported_panel\<lparr>ctl_x := 1920, ctl_y := 0\<rparr>, reported_office]"
  have reported: "output_control_state_of ?hypot ?conns sample_scanouts live_topology one_placed False None = Inr st"
    using state_reported [of "[''DP-1'' \<mapsto> \<lparr>point_x = 500, point_y = 100\<rparr>]" 1920 0] by (simp add: one_placed_def st_def)
  have shown: "shows_configuration ?hypot ?conns 4 one_placed sample_scanouts live_topology" 
    using sample_shown [OF live_specs(1) [unfolded one_placed_def], folded one_placed_def] .
  obtain staged powers where staged: "configuration_from_output_request (resubmission st) ?conns 4 one_placed False = Inr (staged, powers)"
    using one_placed_staged unfolding st_def by blast
  note staging = accepted_staging [OF staged]
  let ?rs = "[resubmitted_output (reported_panel\<lparr>ctl_x := 1920, ctl_y := 0\<rparr>), resubmitted_output reported_office]"
  have rs: "apply_outputs (resubmission st) = ?rs" by (simp add: resubmission_def st_def reported_state_def)
  have names: "map req_name ?rs = [''eDP-1'', ''DP-1'']" "filter req_enabled ?rs = ?rs"
    by (simp_all add: resubmitted_output_def reported_panel_def reported_office_def)
  have each: "staged_as one_placed panel_connector (?rs ! 0) staged" "staged_as one_placed office_connector (?rs ! 1) staged"
    using staging(1) [of panel_connector] staging(1) [of office_connector] names(1) unfolding rs by auto
  have "wanted ?rs ''eDP-1''" "wanted ?rs ''DP-1''" using names wanted_iff [of ?rs] by auto
  moreover have plain: "disabled_outputs one_placed = {}" "\<not> lid_closed one_placed" by (simp_all add: one_placed_def upright_configuration_def plain_configuration_def)
  ultimately have "disabled_outputs staged = {}"
    unfolding staging(4) rs by (subst reconcile_nothing) (auto simp: live_configured(2))
  note projection = one_placed_projection [OF each [simplified] staging(2) this]
  have specs: "output_specs sample_outputs staged = Inr [sample_spec 41 ''eDP-1'' 1420 0 2560 1600, sample_spec 52 ''DP-1'' 0 100 1920 1080]"
    using projection(2) staging(3) plain(2) by simp
  have "fst (update_topology_for_outputs live_topology sample_outputs staged) = Inl (TopologyRefused (OverlappingOutputs ''DP-1'' ''eDP-1''))"
    by (simp add: update_topology_for_outputs_def specs apply_with_primary_output_def live_valid live_topology_def topology_snapshot_of_def)
  then show ?thesis using shown reported staged projection(1) staging(3) plain(2) by blast
qed

end
