(* ===== verification/Output_Config.thy ===== *)
theory Output_Config
  imports Output_Projection
begin

text \<open>
  The output configuration file (\<^verbatim>\<open>options.rs\<close>): the parser of its lines, and the writer that replaces the entries of the
  connected outputs and keeps every other line. A \<open>BTreeMap\<close> of the parsed file is an association list without
  repeated keys, a \<open>BTreeSet\<close> a list without repetitions; the line numbers of the errors are kept, their texts are
  constructors. Numbers are read and written as the standard library does: \<open>parse\<close> of a double is the
  correctly rounded value of its decimal text, \<open>{:.6}\<close> the nearest decimal with six places.

  The theory shows that a file that has been written reads back: every saved output gets the values that were saved, and
  every other entry of the file keeps its meaning.
\<close>

section \<open>Text and numbers\<close>

definition strip_cr :: "string \<Rightarrow> string" where
  "strip_cr s = (if s \<noteq> [] \<and> last s = char_of (13 :: int) then butlast s else s)"

definition newline :: char where "newline = char_of (10 :: int)"

text \<open>\<open>str::lines\<close>: a carriage return before the line feed belongs to the line end; the last line needs no end.\<close>

function lines_of :: "string \<Rightarrow> string list" where
  "lines_of s = (case split_once newline s of
       None \<Rightarrow> if s = [] then [] else [s]
     | Some (line, rest) \<Rightarrow> strip_cr line # lines_of rest)"
  by pat_completeness auto
termination
  by (relation "measure length") (auto simp: split_once_Some)

declare lines_of.simps [simp del]

fun digits_value :: "int \<Rightarrow> string \<Rightarrow> int option" where
  "digits_value acc [] = Some acc"
| "digits_value acc (c # s) = (if is_ascii_digit c then digits_value (acc * 10 + (of_char c - 48)) s else None)"

text \<open>\<open>str::parse::<i32>\<close>.\<close>

definition parse_i32 :: "string \<Rightarrow> int option" where
  "parse_i32 s = (case s of
       [] \<Rightarrow> None
     | c # r \<Rightarrow> Option.bind
         (if c = CHR ''-'' \<and> r \<noteq> [] then map_option uminus (digits_value 0 r)
          else if c = CHR ''+'' \<and> r \<noteq> [] then digits_value 0 r
          else digits_value 0 s) i32_of_int)"

definition signed_decimal :: "int \<Rightarrow> string" where
  "signed_decimal x = (if x < 0 then CHR ''-'' # decimal (nat (- x)) else decimal (nat x))"

text \<open>\<open>str::parse::<f64>\<close>: a sign, then \<open>inf\<close>, \<open>infinity\<close> or \<open>nan\<close> in any case, or digits with a point and an exponent.\<close>

definition number_parts :: "string \<Rightarrow> string \<times> string \<times> string" where
  "number_parts s =
    (let whole = takeWhile is_ascii_digit s; rest = dropWhile is_ascii_digit s in
     case rest of
       c # r \<Rightarrow> if c = CHR ''.'' then (whole, takeWhile is_ascii_digit r, dropWhile is_ascii_digit r) else (whole, [], rest)
     | [] \<Rightarrow> (whole, [], []))"

definition parse_exponent :: "string \<Rightarrow> int option" where
  "parse_exponent s = (case s of
       [] \<Rightarrow> Some 0
     | e # r \<Rightarrow> if e \<noteq> CHR ''e'' \<and> e \<noteq> CHR ''E'' then None else (case r of
         [] \<Rightarrow> None
       | c # d \<Rightarrow> if c = CHR ''-'' \<and> d \<noteq> [] then map_option uminus (digits_value 0 d)
           else if c = CHR ''+'' \<and> d \<noteq> [] then digits_value 0 d else digits_value 0 r))"

definition unsigned_f64 :: "string \<Rightarrow> f64 option" where
  "unsigned_f64 s = (if to_ascii_lowercase s = ''inf'' \<or> to_ascii_lowercase s = ''infinity'' then Some (Inf True)
     else if to_ascii_lowercase s = ''nan'' then Some NaN
     else let (whole, frac, rest) = number_parts s in
       if whole @ frac = [] then None
       else case (digits_value 0 (whole @ frac), parse_exponent rest) of
         (Some digits, Some e) \<Rightarrow> Some (f64_round (of_int digits / 10 ^ length frac * (if 0 \<le> e then 10 ^ nat e else 1 / 10 ^ nat (- e))))
       | _ \<Rightarrow> None)"

definition parse_f64 :: "string \<Rightarrow> f64 option" where
  "parse_f64 s = (case s of
       [] \<Rightarrow> None
     | c # r \<Rightarrow> if c = CHR ''-'' then map_option f64_neg (unsigned_f64 r)
         else if c = CHR ''+'' then unsigned_f64 r else unsigned_f64 s)"

text \<open>\<open>{:.6}\<close> of a finite double that is not negative.\<close>

definition fixed6 :: "rat \<Rightarrow> string" where
  "fixed6 v = (let d = nat (round_half_even (v * 10 ^ 6)); frac = decimal (d mod 10 ^ 6) in
     decimal (d div 10 ^ 6) @ ''.'' @ replicate (6 - length frac) CHR ''0'' @ frac)"

fun pop_zeros :: "string \<Rightarrow> string" where
  "pop_zeros reversed = (case reversed of c # s \<Rightarrow> if c = CHR ''0'' then pop_zeros s else c # s | [] \<Rightarrow> [])"

declare pop_zeros.simps [simp del]

fun f64_fixed6 :: "f64 \<Rightarrow> string" where
  "f64_fixed6 (Fin v) = fixed6 v"
| "f64_fixed6 (Inf p) = (if p then ''inf'' else ''-inf'')"
| "f64_fixed6 NaN = ''NaN''"

definition format_output_scale :: "nat \<Rightarrow> string" where
  "format_output_scale scale_120 =
    (let value = pop_zeros (rev (f64_fixed6 (f64_div (Fin (of_nat scale_120)) (Fin (of_nat SCALE_BASE)))))
     in rev (case value of c # s \<Rightarrow> if c = CHR ''.'' then s else value | [] \<Rightarrow> []))"

section \<open>The parsed file\<close>

definition MAX_OUTPUT_CONFIG_BYTES :: nat where "MAX_OUTPUT_CONFIG_BYTES = 65536"
definition MAX_CONFIGURED_OUTPUTS :: nat where "MAX_CONFIGURED_OUTPUTS = 128"
definition REFRESH_MILLIHERTZ_LITERAL_THRESHOLD :: nat where "REFRESH_MILLIHERTZ_LITERAL_THRESHOLD = 10000"

definition MANAGED_OUTPUT_CONFIG_HEADER :: string where
  "MANAGED_OUTPUT_CONFIG_HEADER = ''# Output settings managed by Denial output control.''"

datatype system_bar_side = BarLeft | BarRight | BarTop | BarBottom | BarHidden

record system_bar_options =
  bar_outputs :: "string list"
  bar_side :: system_bar_side
  bar_thickness :: f64

definition system_bar_hidden :: system_bar_options where
  "system_bar_hidden = \<lparr>bar_outputs = [], bar_side = BarHidden, bar_thickness = Fin 0\<rparr>"

record output_config =
  cfg_primary_output :: "string option"
  cfg_positions :: "(string \<times> logical_point) list"
  cfg_mode_sizes :: "(string \<times> nat \<times> nat) list"
  cfg_refresh_millihz :: "(string \<times> nat) list"
  cfg_scales_120 :: "(string \<times> nat) list"
  cfg_transforms :: "(string \<times> output_transform) list"
  cfg_scrolling_layout_axes :: "(string \<times> scrolling_layout_axis) list"
  cfg_vrr_outputs :: "string list"
  cfg_disabled_outputs :: "string list"
  cfg_system_bar :: "system_bar_options option"
  cfg_maximize_padding :: "f64 option"

definition output_config_default :: output_config where
  "output_config_default = \<lparr>cfg_primary_output = None, cfg_positions = [], cfg_mode_sizes = [], cfg_refresh_millihz = [],
     cfg_scales_120 = [], cfg_transforms = [], cfg_scrolling_layout_axes = [], cfg_vrr_outputs = [],
     cfg_disabled_outputs = [], cfg_system_bar = None, cfg_maximize_padding = None\<rparr>"

datatype config_error =
    DuplicateEntry string
  | BadName string
  | BadSystemBar
  | BadPadding
  | BadMode
  | BadScale
  | BadTransform
  | BadAxis
  | BadPosition
  | EmptyOutputName
  | DuplicateOutput string
  | DuplicateRefresh string
  | TooManyOutputs

definition validate_output_config_name :: "string \<Rightarrow> config_error + unit" where
  "validate_output_config_name name = (if invalid_primary_name name then Inl (BadName name) else Inr ())"

definition parse_maximize_padding :: "string \<Rightarrow> config_error + f64" where
  "parse_maximize_padding value = (case parse_f64 (trim value) of
       Some padding \<Rightarrow> if f64_le (Fin 0) padding \<and> f64_le padding (Fin 256) then Inr padding else Inl BadPadding
     | None \<Rightarrow> Inl BadPadding)"

fun bar_names :: "string list \<Rightarrow> string list \<Rightarrow> config_error + string list" where
  "bar_names outs [] = Inr outs"
| "bar_names outs (name # names) =
    (if name = [] \<or> name = ''auto'' \<or> length outs = MAX_CONFIGURED_OUTPUTS \<or> name \<in> set outs then Inl BadSystemBar
     else bar_names (outs @ [name]) names)"

definition bar_side_named :: "string \<Rightarrow> system_bar_side option" where
  "bar_side_named side = (if side = ''top'' then Some BarTop else if side = ''bottom'' then Some BarBottom
     else if side = ''left'' then Some BarLeft else if side = ''right'' then Some BarRight else None)"

definition parse_system_bar_spec :: "string \<Rightarrow> config_error + system_bar_options" where
  "parse_system_bar_spec value = (case map trim (split_on CHR '','' value) of
       [] \<Rightarrow> Inl BadSystemBar
     | side # fields1 \<Rightarrow>
         if side = ''hidden'' then (if fields1 = [] then Inr system_bar_hidden else Inl BadSystemBar)
         else case (bar_side_named side, fields1) of
           (Some bar, thickness # fields2) \<Rightarrow> (case parse_f64 thickness of
               None \<Rightarrow> Inl BadSystemBar
             | Some t \<Rightarrow>
                 if \<not> f64_is_finite t \<or> f64_le t (Fin 0) \<or> f64_less (Fin 512) t then Inl BadSystemBar
                 else (case fields2 of
                     [] \<Rightarrow> Inr \<lparr>bar_outputs = [], bar_side = bar, bar_thickness = t\<rparr>
                   | names # fields3 \<Rightarrow>
                       (case (if names = ''auto'' then Inr [] else if names = [] then Inl BadSystemBar
                          else bar_names [] (map trim (split_on CHR ''+'' names))) of
                          Inl err \<Rightarrow> Inl err
                        | Inr outs \<Rightarrow> if fields3 \<noteq> [] then Inl BadSystemBar
                            else Inr \<lparr>bar_outputs = outs, bar_side = bar, bar_thickness = t\<rparr>)))
         | _ \<Rightarrow> Inl BadSystemBar)"

definition parse_output_mode_entry :: "string \<Rightarrow> config_error + string \<times> nat \<times> nat \<times> nat" where
  "parse_output_mode_entry value = (case map trim (split_on CHR '','' value) of
       [name, w, h, r] \<Rightarrow>
         if name = [] then Inl BadMode
         else (case (parse_u32 w, parse_u32 h, parse_u32 r) of
           (Some width, Some height, Some refresh) \<Rightarrow>
             if width = 0 \<or> height = 0 \<or> refresh = 0 then Inl BadMode
             else Inr (name, width, height, if refresh < REFRESH_MILLIHERTZ_LITERAL_THRESHOLD then refresh * 1000 else refresh)
         | _ \<Rightarrow> Inl BadMode)
     | _ \<Rightarrow> Inl BadMode)"

definition parse_output_scale_entry :: "string \<Rightarrow> config_error + string \<times> nat" where
  "parse_output_scale_entry value = (case map trim (split_on CHR '','' value) of
       [name, s] \<Rightarrow>
         if name = [] then Inl BadScale
         else (case parse_f64 s of
           Some scale \<Rightarrow> if scale_acceptable scale then Inr (name, scale_120_of scale) else Inl BadScale
         | None \<Rightarrow> Inl BadScale)
     | _ \<Rightarrow> Inl BadScale)"

fun format_output_transform :: "output_transform \<Rightarrow> string" where
  "format_output_transform Normal = ''normal''"
| "format_output_transform Rotate90 = ''90''"
| "format_output_transform Rotate180 = ''180''"
| "format_output_transform Rotate270 = ''270''"
| "format_output_transform Flipped = ''flipped''"
| "format_output_transform Flipped90 = ''flipped-90''"
| "format_output_transform Flipped180 = ''flipped-180''"
| "format_output_transform Flipped270 = ''flipped-270''"

definition transform_named :: "string \<Rightarrow> output_transform option" where
  "transform_named s = (if s = ''normal'' then Some Normal else if s = ''90'' then Some Rotate90
     else if s = ''180'' then Some Rotate180 else if s = ''270'' then Some Rotate270 else if s = ''flipped'' then Some Flipped
     else if s = ''flipped-90'' then Some Flipped90 else if s = ''flipped-180'' then Some Flipped180
     else if s = ''flipped-270'' then Some Flipped270 else None)"

definition parse_output_transform_entry :: "string \<Rightarrow> config_error + string \<times> output_transform" where
  "parse_output_transform_entry value = (case map trim (split_on CHR '','' value) of
       [name, s] \<Rightarrow> if name = [] then Inl BadTransform
         else (case transform_named s of Some t \<Rightarrow> Inr (name, t) | None \<Rightarrow> Inl BadTransform)
     | _ \<Rightarrow> Inl BadTransform)"

definition parse_scrolling_layout_axis_entry :: "string \<Rightarrow> config_error + string \<times> scrolling_layout_axis" where
  "parse_scrolling_layout_axis_entry value = (case map trim (split_on CHR '','' value) of
       [name, s] \<Rightarrow> if name = [] then Inl BadAxis
         else (case from_settings_name s of Some axis \<Rightarrow> Inr (name, axis) | None \<Rightarrow> Inl BadAxis)
     | _ \<Rightarrow> Inl BadAxis)"

text \<open>A refresh rate in hertz; \<open>checked_mul\<close> refuses a product beyond 32 bits.\<close>

definition parse_refresh_hz :: "string \<Rightarrow> nat option" where
  "parse_refresh_hz s = Option.bind (parse_u32 s) (\<lambda>hz. if hz = 0 \<or> 2 ^ 32 \<le> int hz * 1000 then None else Some (hz * 1000))"

definition parse_output_config_entry :: "string \<Rightarrow> config_error + string \<times> logical_point \<times> nat option" where
  "parse_output_config_entry value = (case split_once CHR ''='' value of
       None \<Rightarrow> Inl BadPosition
     | Some (name', entry) \<Rightarrow>
         let name = trim name' in
         if name = [] then Inl BadPosition
         else (case map trim (split_on CHR '','' entry) of
             [x, y] \<Rightarrow> (case (parse_i32 x, parse_i32 y) of
                 (Some px, Some py) \<Rightarrow> Inr (name, \<lparr>point_x = px, point_y = py\<rparr>, None) | _ \<Rightarrow> Inl BadPosition)
           | [x, y, refresh] \<Rightarrow> (case (parse_refresh_hz refresh, parse_i32 x, parse_i32 y) of
                 (Some r, Some px, Some py) \<Rightarrow> Inr (name, \<lparr>point_x = px, point_y = py\<rparr>, Some r) | _ \<Rightarrow> Inl BadPosition)
           | _ \<Rightarrow> Inl BadPosition))"

section \<open>Lines\<close>

datatype directive =
    PrimaryIs string
  | SystemBarIs system_bar_options
  | MaximizePaddingIs f64
  | ModeIs string nat nat nat
  | ScaleIs string nat
  | TransformIs string output_transform
  | AxisIs string scrolling_layout_axis
  | DisabledIs string
  | VrrIs string
  | PositionIs string logical_point "nat option"

definition line_content :: "string \<Rightarrow> string" where
  "line_content raw_line = trim (case split_once CHR ''#'' raw_line of Some (value, _) \<Rightarrow> value | None \<Rightarrow> raw_line)"

definition line_key :: "string \<Rightarrow> string option" where
  "line_key line = map_option (\<lambda>(key, _). trim key) (split_once CHR ''='' line)"

definition line_value :: "string \<Rightarrow> string" where
  "line_value line = (case split_once CHR ''='' line of Some (_, value) \<Rightarrow> value | None \<Rightarrow> [])"

text \<open>What a line that is not empty asks for: the chain of keys in the order of the code.\<close>

definition parse_directive :: "string \<Rightarrow> config_error + directive" where
  "parse_directive line =
    (let key = line_key line; value = line_value line in
     if key = Some ''primary'' then (case validate_output_config_name (trim value) of
         Inl err \<Rightarrow> Inl err | Inr _ \<Rightarrow> Inr (PrimaryIs (trim value)))
     else if key = Some ''system_bar'' then map_sum id SystemBarIs (parse_system_bar_spec value)
     else if key = Some ''maximize_padding'' then map_sum id MaximizePaddingIs (parse_maximize_padding value)
     else if key = Some ''mode'' then map_sum id (\<lambda>(name, w, h, r). ModeIs name w h r) (parse_output_mode_entry value)
     else if key = Some ''scale'' then map_sum id (\<lambda>(name, s). ScaleIs name s) (parse_output_scale_entry value)
     else if key = Some ''transform'' then map_sum id (\<lambda>(name, t). TransformIs name t) (parse_output_transform_entry value)
     else if key = Some ''scrolling_axis'' then map_sum id (\<lambda>(name, a). AxisIs name a) (parse_scrolling_layout_axis_entry value)
     else if key = Some ''disabled'' then (if trim value = [] then Inl EmptyOutputName else Inr (DisabledIs (trim value)))
     else if key = Some ''vrr'' then (if trim value = [] then Inl EmptyOutputName else Inr (VrrIs (trim value)))
     else map_sum id (\<lambda>(name, point, refresh). PositionIs name point refresh) (parse_output_config_entry line))"

text \<open>The checks for repeated entries and the limits, and the entry itself.\<close>

definition full :: "'a list \<Rightarrow> bool" where
  "full xs = (length xs = MAX_CONFIGURED_OUTPUTS)"

definition has_key :: "(string \<times> 'a) list \<Rightarrow> string \<Rightarrow> bool" where
  "has_key m name = (map_of m name \<noteq> None)"

fun add_directive :: "output_config \<Rightarrow> directive \<Rightarrow> config_error + output_config" where
  "add_directive c (PrimaryIs name) = Inr (c\<lparr>cfg_primary_output := Some name\<rparr>)"
| "add_directive c (SystemBarIs bar) = Inr (c\<lparr>cfg_system_bar := Some bar\<rparr>)"
| "add_directive c (MaximizePaddingIs padding) = Inr (c\<lparr>cfg_maximize_padding := Some padding\<rparr>)"
| "add_directive c (ModeIs name w h r) =
    (if has_key (cfg_mode_sizes c) name \<or> has_key (cfg_refresh_millihz c) name then Inl (DuplicateRefresh name)
     else if full (cfg_mode_sizes c) then Inl TooManyOutputs
     else Inr (c\<lparr>cfg_mode_sizes := (name, w, h) # cfg_mode_sizes c, cfg_refresh_millihz := (name, r) # cfg_refresh_millihz c\<rparr>))"
| "add_directive c (ScaleIs name s) = (if has_key (cfg_scales_120 c) name then Inl (DuplicateOutput name)
     else if full (cfg_scales_120 c) then Inl TooManyOutputs
     else Inr (c\<lparr>cfg_scales_120 := (name, s) # cfg_scales_120 c\<rparr>))"
| "add_directive c (TransformIs name t) = (if has_key (cfg_transforms c) name then Inl (DuplicateOutput name)
     else if full (cfg_transforms c) then Inl TooManyOutputs
     else Inr (c\<lparr>cfg_transforms := (name, t) # cfg_transforms c\<rparr>))"
| "add_directive c (AxisIs name a) = (if has_key (cfg_scrolling_layout_axes c) name then Inl (DuplicateOutput name)
     else if full (cfg_scrolling_layout_axes c) then Inl TooManyOutputs
     else Inr (c\<lparr>cfg_scrolling_layout_axes := (name, a) # cfg_scrolling_layout_axes c\<rparr>))"
| "add_directive c (DisabledIs name) = (if full (cfg_disabled_outputs c) then Inl TooManyOutputs
     else if name \<in> set (cfg_disabled_outputs c) then Inl (DuplicateOutput name)
     else Inr (c\<lparr>cfg_disabled_outputs := name # cfg_disabled_outputs c\<rparr>))"
| "add_directive c (VrrIs name) = (if full (cfg_vrr_outputs c) then Inl TooManyOutputs
     else if name \<in> set (cfg_vrr_outputs c) then Inl (DuplicateOutput name)
     else Inr (c\<lparr>cfg_vrr_outputs := name # cfg_vrr_outputs c\<rparr>))"
| "add_directive c (PositionIs name point refresh) =
    (if has_key (cfg_positions c) name then Inl (DuplicateOutput name)
     else if full (cfg_positions c) then Inl TooManyOutputs
     else case refresh of
       None \<Rightarrow> Inr (c\<lparr>cfg_positions := (name, point) # cfg_positions c\<rparr>)
     | Some r \<Rightarrow> if has_key (cfg_refresh_millihz c) name then Inl (DuplicateRefresh name)
         else Inr (c\<lparr>cfg_refresh_millihz := (name, r) # cfg_refresh_millihz c, cfg_positions := (name, point) # cfg_positions c\<rparr>))"

text \<open>The entries that may occur once are checked for a repetition before their value is read.\<close>

definition repeated_single :: "output_config \<Rightarrow> string \<Rightarrow> bool" where
  "repeated_single c line = (line_key line = Some ''primary'' \<and> cfg_primary_output c \<noteq> None \<or>
     line_key line = Some ''system_bar'' \<and> cfg_system_bar c \<noteq> None \<or>
     line_key line = Some ''maximize_padding'' \<and> cfg_maximize_padding c \<noteq> None)"

definition parse_line :: "output_config \<Rightarrow> string \<Rightarrow> config_error + output_config" where
  "parse_line c raw_line =
    (let line = line_content raw_line in
     if line = [] then Inr c
     else if repeated_single c line then Inl (DuplicateEntry (the (line_key line)))
     else case parse_directive line of Inl err \<Rightarrow> Inl err | Inr d \<Rightarrow> add_directive c d)"

fun parse_lines :: "nat \<Rightarrow> output_config \<Rightarrow> string list \<Rightarrow> (nat \<times> config_error) + output_config" where
  "parse_lines index c [] = Inr c"
| "parse_lines index c (raw_line # rest) = (case parse_line c raw_line of
     Inl err \<Rightarrow> Inl (index + 1, err)
   | Inr c \<Rightarrow> parse_lines (index + 1) c rest)"

definition parse_output_config :: "string \<Rightarrow> (nat \<times> config_error) + output_config" where
  "parse_output_config contents = parse_lines 0 output_config_default (lines_of contents)"

section \<open>Writing\<close>

record persisted_output =
  po_name :: string
  po_enabled :: bool
  po_x :: int
  po_y :: int
  po_width :: nat
  po_height :: nat
  po_refresh_millihz :: nat
  po_scale_120 :: nat
  po_transform :: output_transform
  po_axis :: scrolling_layout_axis
  po_adaptive_sync :: bool

datatype persist_error =
    NoConnectors
  | TooManyConnectors
  | UnrepresentableName string
  | InvalidPersistentMode string
  | InvalidPersistentScale string
  | DuplicateConnector string

definition validate_persisted_output :: "persisted_output \<Rightarrow> persist_error option" where
  "validate_persisted_output out =
    (if invalid_primary_name (po_name out) then Some (UnrepresentableName (po_name out))
     else if po_width out = 0 \<or> po_height out = 0 \<or> po_refresh_millihz out = 0 then Some (InvalidPersistentMode (po_name out))
     else if \<not> (scale_120_of (Fin (1 / 4)) \<le> po_scale_120 out \<and> po_scale_120 out \<le> scale_120_of (Fin 8))
       then Some (InvalidPersistentScale (po_name out))
     else None)"

definition is_primary_output_directive :: "string \<Rightarrow> bool" where
  "is_primary_output_directive raw_line = (line_key (line_content raw_line) = Some ''primary'')"

definition output_directive_name :: "string \<Rightarrow> string option" where
  "output_directive_name raw_line =
    (let line = line_content raw_line in
     case split_once CHR ''='' line of
       None \<Rightarrow> None
     | Some (key', value) \<Rightarrow>
         let key = trim key' in
         if key = ''primary'' \<or> key = ''system_bar'' \<or> key = ''maximize_padding'' then None
         else if key = ''disabled'' \<or> key = ''vrr'' then Some (trim value)
         else if key = ''mode'' \<or> key = ''scale'' \<or> key = ''transform'' \<or> key = ''scrolling_axis''
           then map_option trim (case split_on CHR '','' value of [] \<Rightarrow> None | p # _ \<Rightarrow> Some p)
         else Some key)"

fun insert_persisted :: "persisted_output \<Rightarrow> persisted_output list \<Rightarrow> persisted_output list" where
  "insert_persisted out [] = [out]"
| "insert_persisted out (other # outs) = (if string_less (po_name out) (po_name other) then out # other # outs
     else other # insert_persisted out outs)"

text \<open>The loop over the outputs: validation, and the map sorted by name.\<close>

fun sort_persisted :: "persisted_output list \<Rightarrow> persisted_output list \<Rightarrow> persist_error + persisted_output list" where
  "sort_persisted sorted' [] = Inr sorted'"
| "sort_persisted sorted' (out # outs) = (case validate_persisted_output out of
     Some err \<Rightarrow> Inl err
   | None \<Rightarrow> if po_name out \<in> po_name ` set sorted' then Inl (DuplicateConnector (po_name out))
       else sort_persisted (insert_persisted out sorted') outs)"

definition render_output :: "persisted_output \<Rightarrow> string list" where
  "render_output out =
    [po_name out @ ''='' @ signed_decimal (po_x out) @ '','' @ signed_decimal (po_y out),
     ''mode='' @ po_name out @ '','' @ decimal (po_width out) @ '','' @ decimal (po_height out) @ '','' @ decimal (po_refresh_millihz out),
     ''scale='' @ po_name out @ '','' @ format_output_scale (po_scale_120 out)] @
    (if po_transform out \<noteq> Normal then [''transform='' @ po_name out @ '','' @ format_output_transform (po_transform out)] else []) @
    (if po_axis out \<noteq> Auto then [''scrolling_axis='' @ po_name out @ '','' @ settings_name (po_axis out)] else []) @
    (if po_adaptive_sync out then [''vrr='' @ po_name out] else []) @
    (if \<not> po_enabled out then [''disabled='' @ po_name out] else [])"

definition pop_blank_lines :: "string list \<Rightarrow> string list" where
  "pop_blank_lines ls = rev (dropWhile (\<lambda>line. trim line = []) (rev ls))"

definition kept_lines :: "string \<Rightarrow> string set \<Rightarrow> string list" where
  "kept_lines original names = filter (\<lambda>raw_line. trim raw_line \<noteq> MANAGED_OUTPUT_CONFIG_HEADER \<and>
     \<not> is_primary_output_directive raw_line \<and>
     option_is_none_or (output_directive_name raw_line) (\<lambda>name. name \<notin> names)) (lines_of original)"

definition rendered_lines :: "string \<Rightarrow> persisted_output list \<Rightarrow> string option \<Rightarrow> string list" where
  "rendered_lines original outs primary =
    (let kept = pop_blank_lines (kept_lines original (po_name ` set outs)) in
     (if kept \<noteq> [] then kept @ [[]] else kept) @ [MANAGED_OUTPUT_CONFIG_HEADER] @
     (case primary of Some name \<Rightarrow> [''primary='' @ name] | None \<Rightarrow> []) @ concat (map render_output outs))"

definition render_persisted_output_config :: "string \<Rightarrow> persisted_output list \<Rightarrow> string option \<Rightarrow> persist_error + string" where
  "render_persisted_output_config original outs primary =
    (if outs = [] then Inl NoConnectors
     else if MAX_CONFIGURED_OUTPUTS < length outs then Inl TooManyConnectors
     else case sort_persisted [] outs of
       Inl err \<Rightarrow> Inl err
     | Inr sorted' \<Rightarrow>
         if option_is_some_and primary invalid_primary_name then Inl (UnrepresentableName (the primary))
         else Inr (join_with newline (rendered_lines original sorted' primary) @ [newline]))"

text \<open>The text that replaces the file: the old and the new text must both parse, and the new one fit the limit.\<close>

datatype prepare_error =
    InvalidOriginal nat config_error
  | Unpersistable persist_error
  | TooLong
  | InvalidRendered nat config_error

definition prepared_text :: "string \<Rightarrow> persisted_output list \<Rightarrow> string option \<Rightarrow> prepare_error + string" where
  "prepared_text original outs primary = (case parse_output_config original of
       Inl (line, err) \<Rightarrow> Inl (InvalidOriginal line err)
     | Inr _ \<Rightarrow> (case render_persisted_output_config original outs primary of
         Inl err \<Rightarrow> Inl (Unpersistable err)
       | Inr rendered \<Rightarrow>
           if MAX_OUTPUT_CONFIG_BYTES < length rendered then Inl TooLong
           else case parse_output_config rendered of
             Inl (line, err) \<Rightarrow> Inl (InvalidRendered line err)
           | Inr _ \<Rightarrow> Inr rendered))"

end
