(* ===== verification/Output_Apply.thy ===== *)
theory Output_Apply
  imports Output_Control Output_Config Dpms_Guard
begin

text \<open>
  Applying a request of the settings (\<^verbatim>\<open>flutter_event_loop/output_apply.rs\<close>, \<^verbatim>\<open>flutter_event_loop/reconfiguration.rs\<close>): the queue of
  requests, the staging of one of them, the three ways to carry it out, the confirmation with its deadline and its
  rollback, the file that is replaced when a configuration is kept, and what is published.

  The state of the session is a record; the reply channels are numbers, the replies a list. What the hardware and
  the engine answer is a parameter: whether there is an atlas for a topology, whether the engine takes a new geometry in
  place, the scanouts after a transaction of the kernel or its failure, the scanouts and the requests
  that remain after power requests, and what the file system answers. An error that ends the loop of the session is
  \<open>None\<close>; errors of the loop's own calls (dispatching events, draining and stopping the frame scheduler) end it too and are left out.
  Frame scheduling, screenshots and the Wayland objects are left out as well: they do not feed back into this state. What other
  parts of the loop do to it before a round (hotplug events, the power policy, edits of the file) arrives with the input of the round.
\<close>

section \<open>State\<close>

record pending_output_apply =
  pa_reply :: nat
  pa_serial :: nat
  pa_configuration :: apply_output_configuration

datatype output_confirmation_action = Keep | Rollback

record pending_output_confirmation =
  pc_reply :: nat
  pc_token :: nat
  pc_action :: output_confirmation_action

text \<open>A prepared replacement of the file: the text that was read and the text that replaces it.\<close>

record prepared_output_config =
  prepared_original :: string
  prepared_rendered :: string

record confirmation_rollback =
  rollback_to :: runtime_output_configuration
  rollback_powers :: "nat \<rightharpoonup> bool"
  rollback_timeout :: nat

record active_output_confirmation =
  ac_state :: output_control_confirmation
  ac_deadline :: nat
  ac_rollback_configuration :: runtime_output_configuration
  ac_rollback_power :: "nat \<rightharpoonup> bool"
  ac_prepared_persistence :: "prepared_output_config option"

record output_apply_completion =
  done_request :: pending_output_apply
  done_serial :: nat
  done_rollback :: "confirmation_rollback option"
  done_persistence :: "prepared_output_config option"

record staged_output_apply =
  staged_completion :: output_apply_completion
  staged_configuration :: runtime_output_configuration
  staged_outputs :: "connected_output list"
  staged_power :: "nat \<rightharpoonup> bool"
  staged_transform_only :: bool
  staged_hardware_changed :: bool
  staged_resident_mode_change :: bool
  staged_topology_changed :: bool

datatype apply_failure =
    StaleConfiguration nat nat
  | RequestRefused output_control_failure
  | InvalidConfiguration output_error
  | NoScanoutAtlas
  | PersistenceFailed
  | ApplyFailed
  | ScanFailed
  | ConfirmationIsPending

datatype confirmation_failure = NothingPending | StaleToken | NotPersisted

datatype reply =
    ApplyReply nat "apply_failure + output_control_snapshot"
  | ConfirmationReply nat "confirmation_failure + unit"

record lid_switch =
  lid_pending :: "bool option"
  lid_generation :: u64

record session =
  ses_configuration :: runtime_output_configuration
  ses_layout_axes :: "string \<rightharpoonup> scrolling_layout_axis"
  ses_confirmation :: "active_output_confirmation option"
  ses_scanouts :: "scanout list"
  ses_topology :: topology_manager
  ses_published :: output_control_snapshot
  ses_file :: "string option"
  ses_applies :: "pending_output_apply list"
  ses_ready :: "(pending_output_apply \<times> connected_connector list) option"
  ses_confirmations :: "pending_output_confirmation list"
  ses_apply_success :: "pending_output_apply option"
  ses_confirmation_success :: "pending_output_confirmation list"
  ses_replies :: "reply list"
  ses_topology_dirty :: bool
  ses_control_dirty :: bool
  ses_kms_requested :: bool
  ses_geometry_requested :: bool
  ses_scanout_rebased :: bool
  ses_disconnected :: bool
  ses_power_requests :: "nat \<rightharpoonup> bool"
  ses_dpms :: dpms_topology_guard
  ses_journal :: output_policy_journal
  ses_lid :: lid_switch
  ses_sensor :: output_transform

text \<open>What the file system does with a prepared file, and what the hardware and the engine answer.\<close>

datatype commit_io = CommitDone | CommitBlocked | CommitUnsynced

record platform =
  plat_hypot :: "f64 \<Rightarrow> f64 \<Rightarrow> f64"
  plat_max_outputs :: nat
  plat_atlas :: "topology_snapshot \<Rightarrow> bool"
  plat_geometry :: "topology_snapshot \<Rightarrow> bool"
  plat_modeset :: "scanout list \<Rightarrow> connected_output list \<Rightarrow> scanout list option"
  plat_hotplug :: "scanout list \<Rightarrow> connected_output list \<Rightarrow> topology_snapshot \<Rightarrow> scanout list option"
  plat_running :: bool
  plat_hdr_cleared :: bool
  plat_schedulers :: bool
  plat_power :: "(nat \<rightharpoonup> bool) \<Rightarrow> scanout list \<Rightarrow> (scanout list \<times> (nat \<rightharpoonup> bool)) option"
  plat_file_prepared :: bool
  plat_commit :: commit_io

definition apply_reply :: "pending_output_apply \<Rightarrow> apply_failure + output_control_snapshot \<Rightarrow> session \<Rightarrow> session" where
  "apply_reply request result s = s\<lparr>ses_replies := ses_replies s @ [ApplyReply (pa_reply request) result]\<rparr>"

definition confirmation_reply :: "pending_output_confirmation \<Rightarrow> confirmation_failure + unit \<Rightarrow> session \<Rightarrow> session" where
  "confirmation_reply request result s = s\<lparr>ses_replies := ses_replies s @ [ConfirmationReply (pc_reply request) result]\<rparr>"

section \<open>What a request changes\<close>

definition scanout_of :: "scanout list \<Rightarrow> connected_output \<Rightarrow> scanout option" where
  "scanout_of scanouts out = find (\<lambda>s. co_id (sc_output s) = co_id out) scanouts"

definition output_properties_changed :: "connected_output list \<Rightarrow> scanout list \<Rightarrow> bool" where
  "output_properties_changed outs scanouts = list_ex (\<lambda>out. option_is_none_or (scanout_of scanouts out) (\<lambda>s.
     co_crtc (sc_output s) \<noteq> co_crtc out \<or> co_mode (sc_output s) \<noteq> co_mode out \<or>
     co_connector (sc_output s) \<noteq> co_connector out \<or> co_vrr_enabled (sc_output s) \<noteq> co_vrr_enabled out)) outs"

definition output_hardware_changed :: "connected_output list \<Rightarrow> scanout list \<Rightarrow> bool" where
  "output_hardware_changed outs scanouts = (length outs \<noteq> length scanouts \<or> output_properties_changed outs scanouts)"

definition resident_mode_change_supported :: "connected_output list \<Rightarrow> scanout list \<Rightarrow> bool" where
  "resident_mode_change_supported outs scanouts =
    (length outs = length scanouts \<and>
     list_all (\<lambda>out. option_is_some_and (scanout_of scanouts out) (\<lambda>s. co_connector (sc_output s) = co_connector out \<and>
       co_crtc (sc_output s) = co_crtc out \<and> mode_size (co_mode (sc_output s)) = mode_size (co_mode out) \<and>
       co_transform (sc_output s) = co_transform out)) outs \<and>
     list_ex (\<lambda>out. option_is_some_and (scanout_of scanouts out) (\<lambda>s. co_mode (sc_output s) \<noteq> co_mode out \<or>
       co_vrr_enabled (sc_output s) \<noteq> co_vrr_enabled out)) outs)"

definition prepare_output_confirmation_rollback :: "pending_output_apply \<Rightarrow> scanout list \<Rightarrow> runtime_output_configuration \<Rightarrow>
    confirmation_rollback option" where
  "prepare_output_confirmation_rollback request scanouts config =
    map_option (\<lambda>timeout. \<lparr>rollback_to = config,
        rollback_powers = map_of (map (\<lambda>s. (co_id (sc_output s), sc_powered s)) scanouts), rollback_timeout = timeout\<rparr>)
      (apply_confirmation_timeout (pa_configuration request))"

section \<open>The file\<close>

definition persisted_output_of :: "runtime_output_configuration \<Rightarrow> requested_output \<Rightarrow> persisted_output" where
  "persisted_output_of staged r = \<lparr>po_name = req_name r, po_enabled = (req_name r \<notin> disabled_outputs staged), po_x = req_x r, po_y = req_y r,
     po_width = req_mode_width (req_mode r), po_height = req_mode_height (req_mode r), po_refresh_millihz = req_mode_refresh (req_mode r),
     po_scale_120 = scale_120_of (req_scale r), po_transform = (case transforms staged (req_name r) of Some t \<Rightarrow> t | None \<Rightarrow> Normal),
     po_axis = scrolling_layout_axis_of staged (req_name r), po_adaptive_sync = req_adaptive_sync r\<rparr>"

text \<open>\<open>None\<close> as the file when the session has none.\<close>

definition prepare_output_persistence :: "bool \<Rightarrow> apply_output_configuration \<Rightarrow> runtime_output_configuration \<Rightarrow> string option \<Rightarrow>
    unit + prepared_output_config option" where
  "prepare_output_persistence written request staged contents =
    (if \<not> apply_persistent request then Inr None
     else case contents of
       None \<Rightarrow> Inl ()
     | Some original \<Rightarrow>
         (case prepared_text original (map (persisted_output_of staged) (apply_outputs request)) (apply_primary_output request) of
            Inl _ \<Rightarrow> Inl ()
          | Inr rendered \<Rightarrow> if written then Inr (Some \<lparr>prepared_original = original, prepared_rendered = rendered\<rparr>) else Inl ()))"

text \<open>The file is replaced only if nobody edited it meanwhile. The directory is synchronised after the replacement: when that
  fails, the result is an error although the file has been replaced.\<close>

definition commit_prepared :: "commit_io \<Rightarrow> string option \<Rightarrow> prepared_output_config \<Rightarrow> bool \<times> string option" where
  "commit_prepared io contents prepared =
    (if io = CommitBlocked \<or> contents \<noteq> Some (prepared_original prepared) then (False, contents)
     else (io = CommitDone, Some (prepared_rendered prepared)))"

section \<open>Confirmation\<close>

definition begin_output_confirmation :: "nat \<Rightarrow> nat \<Rightarrow> nat \<Rightarrow> nat \<Rightarrow> runtime_output_configuration \<Rightarrow> (nat \<rightharpoonup> bool) \<Rightarrow>
    prepared_output_config option \<Rightarrow> active_output_confirmation" where
  "begin_output_confirmation now unix serial' timeout config power' prepared =
    \<lparr>ac_state = \<lparr>token = next_serial serial', deadline_unix_milliseconds = min (2 ^ 64 - 1) (unix + timeout)\<rparr>, ac_deadline = now + timeout,
      ac_rollback_configuration = config, ac_rollback_power = power', ac_prepared_persistence = prepared\<rparr>"

text \<open>The common tail of a rollback.\<close>

definition roll_back :: "active_output_confirmation \<Rightarrow> session \<Rightarrow> session" where
  "roll_back pending s = s\<lparr>ses_confirmation := None, ses_configuration := ac_rollback_configuration pending,
     ses_power_requests := ses_power_requests s ++ ac_rollback_power pending, ses_geometry_requested := True, ses_control_dirty := True\<rparr>"

definition handle_confirmation :: "commit_io \<Rightarrow> pending_output_confirmation \<Rightarrow> session \<Rightarrow> bool \<times> session" where
  "handle_confirmation io request s = (case ses_confirmation s of
       None \<Rightarrow> (False, confirmation_reply request (Inl NothingPending) s)
     | Some pending \<Rightarrow>
         if pc_token request \<noteq> token (ac_state pending) then (False, confirmation_reply request (Inl StaleToken) s)
         else (True, case pc_action request of
             Rollback \<Rightarrow> (let s = roll_back pending s in s\<lparr>ses_confirmation_success := ses_confirmation_success s @ [request]\<rparr>)
           | Keep \<Rightarrow>
               let (saved, contents) = (case ac_prepared_persistence pending of
                     None \<Rightarrow> (True, ses_file s) | Some prepared \<Rightarrow> commit_prepared io (ses_file s) prepared);
                   s = s\<lparr>ses_file := contents\<rparr>
               in if \<not> saved then confirmation_reply request (Inl NotPersisted) (roll_back pending s)
                  else s\<lparr>ses_confirmation := None, ses_control_dirty := True,
                    ses_confirmation_success := ses_confirmation_success s @ [request]\<rparr>))"

fun handle_confirmations :: "commit_io \<Rightarrow> pending_output_confirmation list \<Rightarrow> session \<Rightarrow> bool \<times> session" where
  "handle_confirmations io [] s = (False, s)"
| "handle_confirmations io (request # requests) s =
    (let (handled, s) = handle_confirmation io request s; (more, s) = handle_confirmations io requests s in (handled \<or> more, s))"

definition handle_output_confirmation_requests :: "commit_io \<Rightarrow> session \<Rightarrow> bool \<times> session" where
  "handle_output_confirmation_requests io s = handle_confirmations io (ses_confirmations s) (s\<lparr>ses_confirmations := []\<rparr>)"

definition expire_output_confirmation :: "nat \<Rightarrow> session \<Rightarrow> session" where
  "expire_output_confirmation now s = (case ses_confirmation s of
       None \<Rightarrow> s
     | Some pending \<Rightarrow> if now < ac_deadline pending then s else roll_back pending s)"

section \<open>Lid and orientation\<close>

definition note_toggle :: "lid_switch \<Rightarrow> bool \<Rightarrow> lid_switch" where
  "note_toggle l shut = l\<lparr>lid_generation := lid_generation l + 1, lid_pending := Some shut\<rparr>"

definition note_reading :: "lid_switch \<Rightarrow> u64 \<Rightarrow> bool \<Rightarrow> lid_switch" where
  "note_reading l generation shut = (if generation = lid_generation l then l\<lparr>lid_pending := Some shut\<rparr> else l)"

definition take_pending :: "lid_switch \<Rightarrow> bool option \<times> lid_switch" where
  "take_pending l = (lid_pending l, l\<lparr>lid_pending := None\<rparr>)"

definition apply_pending_lid_position :: "session \<Rightarrow> session" where
  "apply_pending_lid_position s =
    (let (observed, l) = take_pending (ses_lid s); s = s\<lparr>ses_lid := l\<rparr> in
     case observed of
       None \<Rightarrow> s
     | Some shut \<Rightarrow>
         if shut = lid_closed (ses_configuration s) then s
         else s\<lparr>ses_configuration := (ses_configuration s)\<lparr>lid_closed := shut\<rparr>,
           ses_confirmation := map_option (\<lambda>p. p\<lparr>ac_rollback_configuration := (ac_rollback_configuration p)\<lparr>lid_closed := shut\<rparr>\<rparr>) (ses_confirmation s),
           ses_topology_dirty := True\<rparr>)"

text \<open>A new geometry that the engine takes in place: the topology is updated on a copy, and nothing of the session changes
  unless everything has been accepted.\<close>

definition apply_resident_output_geometry :: "platform \<Rightarrow> connected_output list \<Rightarrow> runtime_output_configuration \<Rightarrow> session \<Rightarrow> bool \<times> session" where
  "apply_resident_output_geometry plat outs staged s =
    (if \<not> plat_atlas plat (topology_snapshot_of (ses_topology s)) then (False, s)
     else case update_topology_for_outputs (ses_topology s) outs staged of
       (Inl _, _) \<Rightarrow> (False, s)
     | (Inr snapshot, staged_topology) \<Rightarrow>
         if \<not> plat_atlas plat snapshot \<or> \<not> plat_geometry plat snapshot \<or>
            list_ex (\<lambda>sc. find (\<lambda>out. co_id out = co_id (sc_output sc)) outs = None) (ses_scanouts s)
         then (False, s)
         else (True, s\<lparr>ses_scanouts := map (\<lambda>sc. case find (\<lambda>out. co_id out = co_id (sc_output sc)) outs of
                 Some out \<Rightarrow> sc\<lparr>sc_output := out\<rparr> | None \<Rightarrow> sc) (ses_scanouts s),
               ses_control_dirty := True, ses_topology := staged_topology, ses_layout_axes := scrolling_layout_axes staged,
               ses_configuration := staged\<rparr>))"

definition select_rotation :: "output_transform \<Rightarrow> output_transform option \<Rightarrow> output_transform" where
  "select_rotation latest locked = (case locked of Some r \<Rightarrow> r | None \<Rightarrow> latest)"

definition apply_automatic_orientation :: "platform \<Rightarrow> output_transform \<Rightarrow> session \<Rightarrow> session option" where
  "apply_automatic_orientation plat rotation s =
    (let staged = (ses_configuration s)\<lparr>sensor_rotation := rotation\<rparr>;
         outs = map (\<lambda>sc. (sc_output sc)\<lparr>co_transform := effective_transform staged (co_name (sc_output sc))\<rparr>) (ses_scanouts s)
     in if map co_transform outs = map (\<lambda>sc. co_transform (sc_output sc)) (ses_scanouts s)
        then Some (s\<lparr>ses_configuration := staged\<rparr>)
        else case apply_resident_output_geometry plat outs staged s of (True, s) \<Rightarrow> Some s | (False, _) \<Rightarrow> None)"

text \<open>\<open>busy\<close>: scanout work is pending, a rotation is animated, or an output target is in use.\<close>

definition apply_pending_sensor_orientation :: "platform \<Rightarrow> bool \<Rightarrow> output_transform option \<Rightarrow> session \<Rightarrow> session option" where
  "apply_pending_sensor_orientation plat busy locked s =
    (let requested = select_rotation (ses_sensor s) locked in
     if requested = sensor_rotation (ses_configuration s) \<or> busy then Some s
     else map_option (\<lambda>s. s\<lparr>ses_confirmation := map_option (\<lambda>p. p\<lparr>ac_rollback_configuration :=
           (ac_rollback_configuration p)\<lparr>sensor_rotation := requested\<rparr>\<rparr>) (ses_confirmation s)\<rparr>)
       (apply_automatic_orientation plat requested s))"

section \<open>Staging and applying\<close>

definition stage_output_apply :: "platform \<Rightarrow> pending_output_apply \<Rightarrow> connected_connector list \<Rightarrow> output_control_snapshot \<Rightarrow>
    session \<Rightarrow> staged_output_apply option \<times> session" where
  "stage_output_apply plat request conns snapshot s =
    (if pa_serial request \<noteq> serial snapshot
     then (None, (apply_reply request (Inl (StaleConfiguration (pa_serial request) (serial snapshot))) s)\<lparr>ses_topology_dirty := True\<rparr>)
     else
       let wish = pa_configuration request;
           transform_only = (output_request_changes_only_transforms (state_outputs (snapshot_state snapshot)) (apply_outputs wish) \<and>
             state_primary_output (snapshot_state snapshot) = apply_primary_output wish);
           rollback = prepare_output_confirmation_rollback request (ses_scanouts s) (ses_configuration s)
       in case configuration_from_output_request wish conns (plat_max_outputs plat) (ses_configuration s) (ses_file s \<noteq> None) of
            Inl failure \<Rightarrow> (None, apply_reply request (Inl (RequestRefused failure)) s)
          | Inr (config, desired) \<Rightarrow>
              (case configured_outputs (plat_hypot plat) conns (plat_max_outputs plat) config of
                 Inl err \<Rightarrow> (None, apply_reply request (Inl (InvalidConfiguration err)) s)
               | Inr (outs, _) \<Rightarrow>
                   (case fst (update_topology_for_outputs (ses_topology s) outs config) of
                      Inl err \<Rightarrow> (None, apply_reply request (Inl (InvalidConfiguration err)) s)
                    | Inr preview \<Rightarrow>
                        if \<not> plat_atlas plat preview then (None, apply_reply request (Inl NoScanoutAtlas) s)
                        else (case prepare_output_persistence (plat_file_prepared plat) wish config (ses_file s) of
                            Inl _ \<Rightarrow> (None, apply_reply request (Inl PersistenceFailed) s)
                          | Inr prepared \<Rightarrow>
                              (Some \<lparr>staged_completion = \<lparr>done_request = request, done_serial = serial snapshot, done_rollback = rollback,
                                   done_persistence = prepared\<rparr>,
                                 staged_configuration = config, staged_outputs = outs, staged_power = desired,
                                 staged_transform_only = transform_only, staged_hardware_changed = output_hardware_changed outs (ses_scanouts s),
                                 staged_resident_mode_change = resident_mode_change_supported outs (ses_scanouts s),
                                 staged_topology_changed = (snap_outputs preview \<noteq> snap_outputs (topology_snapshot_of (ses_topology s)) \<or>
                                   snap_ticker preview \<noteq> snap_ticker (topology_snapshot_of (ses_topology s)))\<rparr>, s)))))"

definition apply_requested_output_power :: "platform \<Rightarrow> (nat \<rightharpoonup> bool) \<Rightarrow> session \<Rightarrow> session option" where
  "apply_requested_output_power plat desired s =
    map_option (\<lambda>(scanouts, remaining). s\<lparr>ses_scanouts := scanouts, ses_power_requests := remaining\<rparr>)
      (plat_power plat (ses_power_requests s ++ desired) (ses_scanouts s))"

definition finish_output_apply :: "commit_io \<Rightarrow> nat \<Rightarrow> nat \<Rightarrow> output_apply_completion \<Rightarrow> session \<Rightarrow> session" where
  "finish_output_apply io now unix completion s =
    (case done_rollback completion of
       Some rollback \<Rightarrow> s\<lparr>ses_confirmation := Some (begin_output_confirmation now unix (done_serial completion) (rollback_timeout rollback)
             (rollback_to rollback) (rollback_powers rollback) (done_persistence completion)),
           ses_apply_success := Some (done_request completion)\<rparr>
     | None \<Rightarrow> (case done_persistence completion of
         None \<Rightarrow> s\<lparr>ses_apply_success := Some (done_request completion)\<rparr>
       | Some prepared \<Rightarrow>
           let s = s\<lparr>ses_control_dirty := True\<rparr>; (saved, contents) = commit_prepared io (ses_file s) prepared; s = s\<lparr>ses_file := contents\<rparr>
           in if saved then s\<lparr>ses_apply_success := Some (done_request completion)\<rparr>
              else apply_reply (done_request completion) (Inl PersistenceFailed) s))"

definition apply_resident_output_configuration :: "platform \<Rightarrow> nat \<Rightarrow> nat \<Rightarrow> staged_output_apply \<Rightarrow> session \<Rightarrow> session option" where
  "apply_resident_output_configuration plat now unix staged s =
    (case apply_resident_output_geometry plat (staged_outputs staged) (staged_configuration staged) s of
       (False, s) \<Rightarrow> Some (apply_reply (done_request (staged_completion staged)) (Inl ApplyFailed) (s\<lparr>ses_control_dirty := True\<rparr>))
     | (True, s) \<Rightarrow> map_option (finish_output_apply (plat_commit plat) now unix (staged_completion staged))
         (apply_requested_output_power plat (staged_power staged) s))"

text \<open>A change of rate on the same connectors and sizes: the kernel's part, then the geometry on the new scanouts.\<close>

definition apply_resident_mode_topology :: "platform \<Rightarrow> connected_output list \<Rightarrow> runtime_output_configuration \<Rightarrow> session \<Rightarrow> bool \<times> session" where
  "apply_resident_mode_topology plat outs staged s =
    (if outs = [] \<or> \<not> resident_mode_change_supported outs (ses_scanouts s) then (False, s)
     else case fst (update_topology_for_outputs (ses_topology s) outs staged) of
       Inl _ \<Rightarrow> (False, s)
     | Inr snapshot \<Rightarrow>
         if \<not> plat_atlas plat snapshot \<or> \<not> plat_geometry plat snapshot then (False, s)
         else (case plat_modeset plat (ses_scanouts s) outs of
             None \<Rightarrow> (False, s)
           | Some candidate \<Rightarrow>
               (case apply_resident_output_geometry plat (map sc_output candidate) staged (s\<lparr>ses_scanouts := candidate\<rparr>) of
                  (True, s') \<Rightarrow> (True, s') | (False, _) \<Rightarrow> (False, s))))"

definition apply_hotplug_topology :: "platform \<Rightarrow> connected_output list \<Rightarrow> runtime_output_configuration \<Rightarrow> session \<Rightarrow> bool \<times> session" where
  "apply_hotplug_topology plat outs config s =
    (if outs = [] then (False, s)
     else case update_topology_for_outputs (ses_topology s) outs config of
       (Inl _, _) \<Rightarrow> (False, s)
     | (Inr snapshot, staged_topology) \<Rightarrow>
         if \<not> plat_atlas plat snapshot then (False, s)
         else (case plat_hotplug plat (ses_scanouts s) outs snapshot of
             None \<Rightarrow> (False, s)
           | Some scanouts \<Rightarrow> (True, s\<lparr>ses_scanouts := scanouts, ses_topology := staged_topology\<rparr>)))"

text \<open>A failure of the hardware ends the session only when the engine is down.\<close>

definition apply_hardware_output_configuration :: "platform \<Rightarrow> nat \<Rightarrow> nat \<Rightarrow> staged_output_apply \<Rightarrow> session \<Rightarrow> session option" where
  "apply_hardware_output_configuration plat now unix staged s =
    (case (if staged_resident_mode_change staged
           then apply_resident_mode_topology plat (staged_outputs staged) (staged_configuration staged) s
           else apply_hotplug_topology plat (staged_outputs staged) (staged_configuration staged) s) of
       (False, s) \<Rightarrow>
         let s = apply_reply (done_request (staged_completion staged)) (Inl ApplyFailed) (s\<lparr>ses_control_dirty := True\<rparr>)
         in if \<not> plat_running plat \<or> \<not> plat_schedulers plat then None else Some s
     | (True, s) \<Rightarrow>
         let s = s\<lparr>ses_layout_axes := scrolling_layout_axes (staged_configuration staged), ses_configuration := staged_configuration staged,
               ses_control_dirty := True\<rparr>
         in if \<not> plat_schedulers plat then None
            else map_option (\<lambda>s. finish_output_apply (plat_commit plat) now unix (staged_completion staged) (s\<lparr>ses_scanout_rebased := False\<rparr>))
              (apply_requested_output_power plat (staged_power staged) s))"

definition apply_staged_output_configuration :: "platform \<Rightarrow> nat \<Rightarrow> nat \<Rightarrow> staged_output_apply \<Rightarrow> session \<Rightarrow> session option" where
  "apply_staged_output_configuration plat now unix staged s =
    (if staged_hardware_changed staged then apply_hardware_output_configuration plat now unix staged s
     else if staged_topology_changed staged then apply_resident_output_configuration plat now unix staged s
     else map_option (finish_output_apply (plat_commit plat) now unix (staged_completion staged))
       (apply_requested_output_power plat (staged_power staged)
         (s\<lparr>ses_layout_axes := scrolling_layout_axes (staged_configuration staged), ses_configuration := staged_configuration staged,
           ses_control_dirty := True\<rparr>)))"

section \<open>The requests in the loop\<close>

text \<open>The first component tells whether the round of the loop starts over. \<open>work\<close>: scanout work is pending; \<open>scan\<close> is what a
  scan of the connectors gives.\<close>

definition acquire_pending_output_apply :: "bool \<Rightarrow> bool \<Rightarrow> connected_connector list option \<Rightarrow> session \<Rightarrow> bool \<times> session" where
  "acquire_pending_output_apply rebased work scan s =
    (let s = (case ses_ready s of
           Some (request, _) \<Rightarrow> if rebased then s\<lparr>ses_ready := None, ses_applies := request # ses_applies s\<rparr> else s
         | None \<Rightarrow> s)
     in if rebased \<or> ses_ready s \<noteq> None then (False, s)
        else case ses_applies s of
          [] \<Rightarrow> (False, s)
        | request # rest \<Rightarrow>
            if ses_confirmation s \<noteq> None
            then (True, apply_reply request (Inl ConfirmationIsPending) (s\<lparr>ses_applies := rest\<rparr>))
            else if work then (True, s)
            else (case scan of
                None \<Rightarrow> (True, (apply_reply request (Inl ScanFailed) (s\<lparr>ses_applies := rest\<rparr>))\<lparr>ses_topology_dirty := True\<rparr>)
              | Some conns \<Rightarrow> (True, s\<lparr>ses_applies := rest, ses_control_dirty := True, ses_ready := Some (request, conns)\<rparr>)))"

definition service_ready_output_apply :: "platform \<Rightarrow> nat \<Rightarrow> nat \<Rightarrow> bool \<Rightarrow> bool \<Rightarrow> output_control_snapshot option \<Rightarrow> session \<Rightarrow>
    (bool \<times> session) option" where
  "service_ready_output_apply plat now unix rebased busy snapshot s =
    (if rebased then Some (False, s)
     else case ses_ready s of
       None \<Rightarrow> Some (False, s)
     | Some (request, conns) \<Rightarrow>
         if busy then Some (True, s)
         else (case snapshot of
             None \<Rightarrow> None
           | Some snap \<Rightarrow> (case stage_output_apply plat request conns snap (s\<lparr>ses_ready := None\<rparr>) of
               (None, s) \<Rightarrow> Some (True, s)
             | (Some staged, s) \<Rightarrow> map_option (Pair True) (apply_staged_output_configuration plat now unix staged s))))"

text \<open>The publication at the start of a round; it waits while a rollback still has to reach the hardware.\<close>

definition publish_output_control_updates :: "platform \<Rightarrow> connected_connector list \<Rightarrow> session \<Rightarrow> (output_control_snapshot option \<times> session) option" where
  "publish_output_control_updates plat conns s =
    (let deferred = ses_geometry_requested s; needs = (ses_ready s \<noteq> None \<or> ses_apply_success s \<noteq> None);
         (result, published, dirty) = (if deferred then (Inr None, ses_published s, ses_control_dirty s)
           else publish_if_dirty (ses_published s) (ses_control_dirty s)
             (output_control_state_of (plat_hypot plat) conns (ses_scanouts s) (ses_topology s) (ses_configuration s)
               (ses_file s \<noteq> None) (map_option ac_state (ses_confirmation s))))
     in case result of
          Inl _ \<Rightarrow> None
        | Inr fresh \<Rightarrow>
            let s = s\<lparr>ses_published := published, ses_control_dirty := dirty\<rparr>;
                snapshot = (if needs \<and> fresh = None then Some published else fresh)
            in if deferred then Some (snapshot, s)
               else
                 let s = (case ses_apply_success s of
                       None \<Rightarrow> s
                     | Some request \<Rightarrow> (apply_reply request (Inr (case snapshot of Some snap \<Rightarrow> snap | None \<Rightarrow> published)) s)\<lparr>ses_apply_success := None\<rparr>)
                 in Some (snapshot, (foldl (\<lambda>s request. confirmation_reply request (Inr ()) s) s (ses_confirmation_success s))
                      \<lparr>ses_confirmation_success := []\<rparr>))"

section \<open>Topology changes\<close>

record topology_request =
  tr_rebased :: bool
  tr_kms :: bool
  tr_geometry :: bool

definition take_topology_reconfiguration_request :: "bool \<Rightarrow> session \<Rightarrow> topology_request option \<times> session" where
  "take_topology_reconfiguration_request rebased s =
    (let kms = ses_kms_requested s; geometry = ses_geometry_requested s; s = s\<lparr>ses_kms_requested := False, ses_geometry_requested := False\<rparr> in
     if \<not> ses_topology_dirty s \<and> \<not> rebased \<and> \<not> kms \<and> \<not> geometry then (None, s)
     else (Some \<lparr>tr_rebased = rebased, tr_kms = kms, tr_geometry = geometry\<rparr>, s\<lparr>ses_topology_dirty := False\<rparr>))"

datatype output_topology_observation = Stable | WaitingForOutputs | Reconfigure "connected_output list" bool

definition output_ids :: "(string \<Rightarrow> bool) \<Rightarrow> connected_output list \<Rightarrow> u64 set" where
  "output_ids decided outs = (\<lambda>out. of_nat (co_id out)) ` set (filter (\<lambda>out. decided (co_name out)) outs)"

definition observe_output_topology :: "platform \<Rightarrow> instant \<Rightarrow> connected_connector list option \<Rightarrow> topology_request \<Rightarrow> session \<Rightarrow>
    (output_topology_observation \<times> session) option" where
  "observe_output_topology plat instant' scan request s =
    (case scan of None \<Rightarrow> None | Some conns \<Rightarrow>
     case configured_outputs (plat_hypot plat) conns (plat_max_outputs plat) (ses_configuration s) of Inl _ \<Rightarrow> None
     | Inr (outs, selection) \<Rightarrow>
       let s = s\<lparr>ses_journal := fst (record_selection (ses_journal s) selection)\<rparr>;
           decided = (\<lambda>name. \<not> overrides (policy selection) name);
           bypassed = (tr_rebased request \<or> tr_kms request \<or> tr_geometry request \<or>
             output_properties_changed (filter (\<lambda>out. decided (co_name out)) outs) (ses_scanouts s));
           (guard, deferred) = (if bypassed then (Guard_default, None)
             else defer_missing_outputs (ses_dpms s) instant' (output_ids decided (map sc_output (ses_scanouts s))) (output_ids decided outs));
           s = s\<lparr>ses_dpms := guard\<rparr>
       in if outs = [] \<and> deferred = None
          then Some (WaitingForOutputs, s\<lparr>ses_disconnected := True, ses_control_dirty := (ses_control_dirty s \<or> \<not> ses_disconnected s),
            ses_topology_dirty := True, ses_geometry_requested := (ses_geometry_requested s \<or> tr_geometry request)\<rparr>)
          else
            let s = (if deferred = None then s\<lparr>ses_disconnected := False, ses_control_dirty := True\<rparr> else s);
                changed = (deferred = None \<and> output_hardware_changed outs (ses_scanouts s))
            in Some (if changed \<or> tr_rebased request \<or> tr_kms request \<or> tr_geometry request then Reconfigure outs changed else Stable, s))"

text \<open>\<open>work\<close>: scanout work is pending; \<open>targets\<close>: a target of the engine is in use.\<close>

definition apply_observed_output_topology :: "platform \<Rightarrow> bool \<Rightarrow> bool \<Rightarrow> topology_request \<Rightarrow> connected_output list \<Rightarrow> bool \<Rightarrow> session \<Rightarrow>
    session option" where
  "apply_observed_output_topology plat work targets request outs changed s =
    (let resident = (tr_geometry request \<and> \<not> changed \<and> \<not> tr_kms request) in
     if \<not> tr_rebased request \<and> (work \<or> resident \<and> targets)
     then Some (s\<lparr>ses_topology_dirty := True, ses_kms_requested := tr_kms request, ses_geometry_requested := tr_geometry request\<rparr>)
     else if resident \<and> \<not> tr_rebased request
     then (case apply_resident_output_geometry plat outs (ses_configuration s) s of
         (True, s) \<Rightarrow> Some (s\<lparr>ses_scanout_rebased := False\<rparr>) | (False, _) \<Rightarrow> None)
     else (case apply_hotplug_topology plat outs (ses_configuration s) s of
         (False, s) \<Rightarrow>
           if tr_kms request \<and> plat_running plat \<and> plat_hdr_cleared plat
           then Some (s\<lparr>ses_kms_requested := True, ses_topology_dirty := True\<rparr>)
           else if tr_rebased request \<and> plat_running plat then Some (s\<lparr>ses_scanout_rebased := True, ses_topology_dirty := True\<rparr>)
           else None
       | (True, s) \<Rightarrow> if \<not> plat_schedulers plat then None else Some (s\<lparr>ses_scanout_rebased := False\<rparr>)))"

section \<open>A round of the loop\<close>

text \<open>What arrives before a round and what the scheduler, the engine and the scanner answer during it. \<open>in_restart\<close>: the page flips or
  the power policy start the loop over before the requests are served.\<close>

record loop_input =
  in_now :: nat
  in_unix :: nat
  in_instant :: instant
  in_applies :: "pending_output_apply list"
  in_confirmations :: "pending_output_confirmation list"
  in_lid :: lid_switch
  in_sensor :: output_transform
  in_locked :: "output_transform option"
  in_busy :: bool
  in_work :: bool
  in_targets :: bool
  in_connected :: "connected_connector list"
  in_scan :: "connected_connector list option"
  in_topology_changed :: bool
  in_kms_requested :: bool
  in_rebased :: bool
  in_control_changed :: bool
  in_powered :: "nat \<rightharpoonup> bool"
  in_dpms :: dpms_topology_guard
  in_edit :: "string option"
  in_restart :: bool

definition edited :: "string option \<Rightarrow> loop_input \<Rightarrow> string option" where
  "edited contents i = (case (contents, in_edit i) of (Some _, Some text') \<Rightarrow> Some text' | _ \<Rightarrow> contents)"

definition receive :: "loop_input \<Rightarrow> session \<Rightarrow> session" where
  "receive i s = s\<lparr>ses_applies := ses_applies s @ in_applies i, ses_confirmations := ses_confirmations s @ in_confirmations i,
     ses_lid := in_lid i, ses_sensor := in_sensor i, ses_topology_dirty := (ses_topology_dirty s \<or> in_topology_changed i),
     ses_kms_requested := (ses_kms_requested s \<or> in_kms_requested i), ses_scanout_rebased := (ses_scanout_rebased s \<or> in_rebased i),
     ses_control_dirty := (ses_control_dirty s \<or> in_control_changed i), ses_dpms := in_dpms i, ses_file := edited (ses_file s) i,
     ses_scanouts := map (\<lambda>sc. case in_powered i (co_id (sc_output sc)) of Some p \<Rightarrow> sc\<lparr>sc_powered := p\<rparr> | None \<Rightarrow> sc) (ses_scanouts s)\<rparr>"

definition boundary_round :: "platform \<Rightarrow> loop_input \<Rightarrow> session \<Rightarrow> (output_control_snapshot option \<times> session) option" where
  "boundary_round plat i s = Option.bind (apply_pending_sensor_orientation plat (in_busy i) (in_locked i) s) (\<lambda>s.
     publish_output_control_updates plat (in_connected i) (expire_output_confirmation (in_now i) (apply_pending_lid_position s)))"

definition scanout_was_rebased :: "session \<Rightarrow> bool" where
  "scanout_was_rebased s = (ses_scanout_rebased s \<or> ses_disconnected s \<and> list_ex sc_powered (ses_scanouts s))"

definition topology_round :: "platform \<Rightarrow> loop_input \<Rightarrow> bool \<Rightarrow> session \<Rightarrow> session option" where
  "topology_round plat i rebased s = (case take_topology_reconfiguration_request rebased s of
       (None, s) \<Rightarrow> Some s
     | (Some request, s) \<Rightarrow> (case observe_output_topology plat (in_instant i) (in_scan i) request s of
         None \<Rightarrow> None
       | Some (Reconfigure outs changed, s) \<Rightarrow> apply_observed_output_topology plat (in_work i) (in_targets i) request outs changed s
       | Some (_, s) \<Rightarrow> Some s))"

definition request_round :: "platform \<Rightarrow> loop_input \<Rightarrow> bool \<Rightarrow> output_control_snapshot option \<Rightarrow> session \<Rightarrow> session option" where
  "request_round plat i rebased snapshot s = (case handle_output_confirmation_requests (plat_commit plat) s of
       (True, s) \<Rightarrow> Some s
     | (False, s) \<Rightarrow> (case acquire_pending_output_apply rebased (in_work i) (in_scan i) s of
         (True, s) \<Rightarrow> Some s
       | (False, s) \<Rightarrow> (case service_ready_output_apply plat (in_now i) (in_unix i) rebased (in_work i \<or> in_targets i) snapshot s of
           None \<Rightarrow> None
         | Some (True, s) \<Rightarrow> Some s
         | Some (False, s) \<Rightarrow> topology_round plat i rebased s)))"

definition output_round :: "platform \<Rightarrow> loop_input \<Rightarrow> session \<Rightarrow> session option" where
  "output_round plat i s = Option.bind (boundary_round plat i (receive i s)) (\<lambda>(snapshot, s).
     if in_restart i then Some s else request_round plat i (scanout_was_rebased s) snapshot s)"

fun output_rounds :: "(platform \<times> loop_input) list \<Rightarrow> session \<Rightarrow> session option" where
  "output_rounds [] s = Some s"
| "output_rounds ((plat, i) # rounds) s = Option.bind (output_round plat i s) (output_rounds rounds)"

text \<open>The sessions that can occur.\<close>

inductive session_reachable :: "session \<Rightarrow> bool" where
  session_start: "ses_confirmation s = None \<Longrightarrow> ses_ready s = None \<Longrightarrow> session_reachable s"
| session_round: "session_reachable s \<Longrightarrow> output_round plat i s = Some s' \<Longrightarrow> session_reachable s'"

end
