(* ===== verification/Output_Confirmation.thy ===== *)
theory Output_Confirmation
  imports Output_Apply
begin

text \<open>
  What the confirmation of a new output configuration promises: a configuration that awaits its confirmation is never
  overwritten by another request, it is rolled back at its deadline to the earlier preferences under the lid position and the rotation of that
  moment, and nothing is saved before it is kept.
\<close>

section \<open>The core of a session\<close>

text \<open>What the confirmation depends on. Most steps of a round leave it alone.\<close>

definition same_core :: "session \<Rightarrow> session \<Rightarrow> bool" where
  "same_core s s' \<longleftrightarrow> ses_confirmation s' = ses_confirmation s \<and> ses_configuration s' = ses_configuration s \<and>
     ses_file s' = ses_file s \<and> ses_ready s' = ses_ready s \<and> ses_confirmations s' = ses_confirmations s"

named_theorems core_frame

lemma same_core_refl [simp]: "same_core s s"
  by (simp add: same_core_def)

lemma same_core_trans: "same_core a b \<Longrightarrow> same_core b c \<Longrightarrow> same_core a c"
  by (simp add: same_core_def)

lemma resident_geometry_frame:
  assumes "apply_resident_output_geometry plat outs staged s = (ok, s')"
  shows "same_core (if ok then s\<lparr>ses_configuration := staged\<rparr> else s) s'"
  using assms by (auto simp: apply_resident_output_geometry_def same_core_def split: if_splits sum.splits prod.splits)

lemma hotplug_frame:
  assumes "apply_hotplug_topology plat outs config s = (ok, s')"
  shows "same_core s s'"
  using assms by (auto simp: apply_hotplug_topology_def same_core_def split: if_splits sum.splits prod.splits option.splits)

lemma resident_mode_frame:
  assumes "apply_resident_mode_topology plat outs staged s = (ok, s')"
  shows "same_core (if ok then s\<lparr>ses_configuration := staged\<rparr> else s) s'"
proof -
  have "s' = s \<and> \<not> ok \<or>
    ok \<and> (\<exists>candidate. apply_resident_output_geometry plat (map sc_output candidate) staged (s\<lparr>ses_scanouts := candidate\<rparr>) = (True, s'))"
    using assms unfolding apply_resident_mode_topology_def by (auto split: if_splits sum.splits prod.splits option.splits bool.splits)
  then show ?thesis by (auto simp: same_core_def dest: resident_geometry_frame)
qed

lemma session_observe_frame:
  assumes "observe_output_topology plat now scan request s = Some (observation, s')"
  shows "same_core s s'"
  using assms by (auto simp: observe_output_topology_def same_core_def Let_def split: option.splits sum.splits prod.splits if_splits)

lemma take_request_frame:
  assumes "take_topology_reconfiguration_request rebased s = (request, s')"
  shows "same_core s s'"
  using assms by (auto simp: take_topology_reconfiguration_request_def same_core_def Let_def split: if_splits)

lemma observed_frame:
  assumes "apply_observed_output_topology plat work targets request outs changed s = Some s'"
  shows "same_core s s'"
proof -
  obtain g sg where g: "apply_resident_output_geometry plat outs (ses_configuration s) s = (g, sg)" by fastforce
  obtain h sh where h: "apply_hotplug_topology plat outs (ses_configuration s) s = (h, sh)" by fastforce
  have sg: "same_core s sg" using resident_geometry_frame [OF g] by (simp add: same_core_def split: if_splits)
  have sh: "same_core s sh" using hotplug_frame [OF h] .
  from assms sg sh show ?thesis
    unfolding apply_observed_output_topology_def g h Let_def same_core_def
    by (simp split: if_splits bool.splits; clarsimp)
qed

lemma topology_round_frame:
  assumes "topology_round plat i rebased s = Some s'"
  shows "same_core s s'"
proof -
  obtain request t where t: "take_topology_reconfiguration_request rebased s = (request, t)" by fastforce
  have st: "same_core s t" by (rule take_request_frame [OF t])
  show ?thesis
  proof (cases request)
    case None
    then show ?thesis using assms t st by (simp add: topology_round_def)
  next
    case (Some r)
    then obtain obs u where u: "observe_output_topology plat (in_instant i) (in_scan i) r t = Some (obs, u)"
      using assms t by (auto simp: topology_round_def split: option.splits)
    have su: "same_core s u" using st session_observe_frame [OF u] by (rule same_core_trans)
    show ?thesis
      using assms t Some u su by (cases obs) (auto simp: topology_round_def dest: observed_frame same_core_trans)
  qed
qed

lemma reply_frame [simp]: "same_core s (apply_reply request r s)" "same_core s (confirmation_reply request' r' s)"
  by (simp_all add: same_core_def apply_reply_def confirmation_reply_def)

lemma replies_frame: "same_core s (foldl (\<lambda>s request. confirmation_reply request r s) s requests)"
  by (induction requests arbitrary: s) (auto intro: same_core_trans reply_frame)

lemma publish_frame:
  assumes "publish_output_control_updates plat conns s = Some (snapshot, s')"
  shows "same_core s s'"
proof -
  have fold: "same_core s (foldl (\<lambda>s request. confirmation_reply request (Inr ()) s) t requests)" if "same_core s t" for t requests
    using that replies_frame by (rule same_core_trans)
  have mid: "same_core s ((apply_reply request r t)\<lparr>ses_apply_success := x\<rparr>)" if "same_core s t" for t r request x
    using that by (simp add: same_core_def apply_reply_def)
  have last: "same_core s (t\<lparr>ses_confirmation_success := x\<rparr>)" if "same_core s t" for t x
    using that by (simp add: same_core_def)
  have first: "same_core s (s\<lparr>ses_published := x, ses_control_dirty := y\<rparr>)" for x y by (simp add: same_core_def)
  from assms show ?thesis
    unfolding publish_output_control_updates_def Let_def
    by (auto split: prod.splits sum.splits if_splits option.splits intro: first last fold mid)
qed

section \<open>Lid and rotation\<close>

text \<open>A configuration under the lid position and the rotation of the session.\<close>

definition seen_as :: "session \<Rightarrow> runtime_output_configuration \<Rightarrow> runtime_output_configuration" where
  "seen_as s c = c\<lparr>lid_closed := lid_closed (ses_configuration s), sensor_rotation := sensor_rotation (ses_configuration s)\<rparr>"

text \<open>While a confirmation is pending no request is prepared, and the configuration to return to has the lid position and
  the rotation of the current one.\<close>

definition session_inv :: "session \<Rightarrow> bool" where
  "session_inv s \<longleftrightarrow> (case ses_confirmation s of
       None \<Rightarrow> True
     | Some p \<Rightarrow> ses_ready s = None \<and> ac_rollback_configuration p = seen_as s (ac_rollback_configuration p))"

lemma seen_as_seen [simp]: "seen_as s (seen_as t c) = seen_as s c"
  by (simp add: seen_as_def)

lemma seen_as_self [simp]: "seen_as s (ses_configuration s) = ses_configuration s"
  by (simp add: seen_as_def)

lemma seen_as_iff: "c = seen_as s c \<longleftrightarrow> lid_closed c = lid_closed (ses_configuration s) \<and> sensor_rotation c = sensor_rotation (ses_configuration s)"
  by (cases c) (auto simp: seen_as_def)

lemma seen_as_update:
  "sensor_rotation c = r \<Longrightarrow> c\<lparr>lid_closed := l, sensor_rotation := r\<rparr> = c\<lparr>lid_closed := l\<rparr>"
  "lid_closed c = l \<Longrightarrow> c\<lparr>lid_closed := l, sensor_rotation := r'\<rparr> = c\<lparr>sensor_rotation := r'\<rparr>"
  by (cases c; simp)+

lemma session_inv_cases:
  "ses_confirmation s = None \<Longrightarrow> session_inv s"
  "ses_confirmation s = Some p \<Longrightarrow> session_inv s \<longleftrightarrow> ses_ready s = None \<and>
     lid_closed (ac_rollback_configuration p) = lid_closed (ses_configuration s) \<and>
     sensor_rotation (ac_rollback_configuration p) = sensor_rotation (ses_configuration s)"
  by (simp_all add: session_inv_def seen_as_iff [of "ac_rollback_configuration p"])

lemma session_inv_core: "same_core s s' \<Longrightarrow> session_inv s' = session_inv s"
  by (simp add: same_core_def session_inv_def seen_as_def split: option.splits)

text \<open>A step that only moves the lid or the device.\<close>

definition moves :: "session \<Rightarrow> session \<Rightarrow> bool" where
  "moves s s' \<longleftrightarrow> ses_file s' = ses_file s \<and> ses_ready s' = ses_ready s \<and> ses_confirmations s' = ses_confirmations s \<and>
     ses_configuration s' = seen_as s' (ses_configuration s) \<and>
     ses_confirmation s' = map_option (\<lambda>p. p\<lparr>ac_rollback_configuration := seen_as s' (ac_rollback_configuration p)\<rparr>) (ses_confirmation s)"

lemma moves_refl: "session_inv s \<Longrightarrow> moves s s"
  by (cases "ses_confirmation s") (auto simp: moves_def session_inv_def seen_as_def)

lemma moves_inv: "moves s s' \<Longrightarrow> session_inv s \<Longrightarrow> session_inv s'"
  by (auto simp: moves_def session_inv_def split: option.splits)

lemma moves_core: "same_core s t \<Longrightarrow> moves t s' \<Longrightarrow> moves s s'" "moves s t \<Longrightarrow> same_core t s' \<Longrightarrow> moves s s'"
  by (simp_all add: moves_def same_core_def seen_as_def)

lemma moves_trans: "moves a b \<Longrightarrow> moves b c \<Longrightarrow> moves a c"
  unfolding moves_def by (auto simp: option.map_comp comp_def)

lemma lid_moves:
  assumes "session_inv s"
  shows "moves s (apply_pending_lid_position s)"
proof -
  have l: "moves s (s\<lparr>ses_lid := l\<rparr>)" for l
    by (rule moves_core(2) [OF moves_refl [OF assms]]) (simp add: same_core_def)
  show ?thesis
    using assms l by (cases "ses_confirmation s")
      (auto simp: apply_pending_lid_position_def take_pending_def Let_def moves_def session_inv_cases seen_as_def seen_as_update
         split: option.splits)
qed

lemma automatic_orientation_frame:
  assumes "apply_automatic_orientation plat rotation s = Some s'"
  shows "same_core (s\<lparr>ses_configuration := (ses_configuration s)\<lparr>sensor_rotation := rotation\<rparr>\<rparr>) s'"
proof -
  let ?staged = "(ses_configuration s)\<lparr>sensor_rotation := rotation\<rparr>"
  have "s' = s\<lparr>ses_configuration := ?staged\<rparr> \<or> (\<exists>outs. apply_resident_output_geometry plat outs ?staged s = (True, s'))"
    using assms unfolding apply_automatic_orientation_def Let_def by (auto split: if_splits prod.splits bool.splits)
  then show ?thesis by (auto dest: resident_geometry_frame)
qed

lemma sensor_moves:
  assumes "session_inv s" "apply_pending_sensor_orientation plat busy locked s = Some s'"
  shows "moves s s'"
proof (cases "s' = s")
  case True
  then show ?thesis using moves_refl assms by simp
next
  case False
  let ?r = "select_rotation (ses_sensor s) locked"
  obtain t where t: "apply_automatic_orientation plat ?r s = Some t"
    and s': "s' = t\<lparr>ses_confirmation := map_option (\<lambda>p. p\<lparr>ac_rollback_configuration :=
           (ac_rollback_configuration p)\<lparr>sensor_rotation := ?r\<rparr>\<rparr>) (ses_confirmation t)\<rparr>"
    using assms(2) False by (auto simp: apply_pending_sensor_orientation_def Let_def split: if_splits)
  show ?thesis
    using automatic_orientation_frame [OF t] assms(1) unfolding s'
    by (cases "ses_confirmation s")
      (auto simp: same_core_def moves_def session_inv_cases seen_as_def seen_as_update)
qed

section \<open>Awaiting the answer\<close>

text \<open>A session that shows the configuration \<open>c\<close> and awaits the answer to the confirmation \<open>p\<close>, and one that has returned to the
  configuration before it. The file is the one of the beginning in both.\<close>

definition awaiting :: "active_output_confirmation \<Rightarrow> runtime_output_configuration \<Rightarrow> string option \<Rightarrow> session \<Rightarrow> bool" where
  "awaiting p c contents s \<longleftrightarrow> ses_file s = contents \<and> ses_ready s = None \<and> ses_configuration s = seen_as s c \<and>
     ses_confirmation s = Some (p\<lparr>ac_rollback_configuration := seen_as s (ac_rollback_configuration p)\<rparr>)"

definition rolled_back :: "active_output_confirmation \<Rightarrow> string option \<Rightarrow> session \<Rightarrow> bool" where
  "rolled_back p contents s \<longleftrightarrow> ses_file s = contents \<and> ses_confirmation s = None \<and> ses_configuration s = seen_as s (ac_rollback_configuration p)"

text \<open>No request of the session keeps the configuration.\<close>

definition no_keep :: "active_output_confirmation \<Rightarrow> pending_output_confirmation list \<Rightarrow> bool" where
  "no_keep p requests \<longleftrightarrow> list_all (\<lambda>r. pc_token r \<noteq> token (ac_state p) \<or> pc_action r = Rollback) requests"

lemma awaiting_start:
  assumes "session_inv s" "ses_confirmation s = Some p"
  shows "awaiting p (ses_configuration s) (ses_file s) s"
proof -
  have "ac_rollback_configuration p = seen_as s (ac_rollback_configuration p)" "ses_ready s = None"
    using assms by (simp_all add: session_inv_def)
  then show ?thesis using assms(2) by (cases p) (simp add: awaiting_def)
qed

lemma awaiting_core: "same_core s s' \<Longrightarrow> awaiting p c f s \<Longrightarrow> awaiting p c f s'"
  by (simp add: awaiting_def same_core_def seen_as_def)

lemma rolled_back_core: "same_core s s' \<Longrightarrow> rolled_back p f s \<Longrightarrow> rolled_back p f s'"
  by (simp add: rolled_back_def same_core_def seen_as_def)

lemma awaiting_inv: "awaiting p c f s \<Longrightarrow> session_inv s"
  by (simp add: awaiting_def session_inv_def)

lemma awaiting_moves: "moves s s' \<Longrightarrow> awaiting p c f s \<Longrightarrow> awaiting p c f s'"
  by (auto simp: moves_def awaiting_def)

lemma awaiting_rolls_back: "awaiting p c f s \<Longrightarrow> rolled_back p f (roll_back (p\<lparr>ac_rollback_configuration := seen_as s (ac_rollback_configuration p)\<rparr>) s)"
  by (simp add: awaiting_def rolled_back_def roll_back_def seen_as_def)

lemma expire_awaiting:
  assumes "awaiting p c f s"
  shows "if now < ac_deadline p then expire_output_confirmation now s = s else rolled_back p f (expire_output_confirmation now s)"
  using assms awaiting_rolls_back [OF assms] by (simp add: expire_output_confirmation_def awaiting_def)

lemma expire_frame: "ses_ready (expire_output_confirmation now s) = ses_ready s" "ses_confirmations (expire_output_confirmation now s) = ses_confirmations s"
  by (simp_all add: expire_output_confirmation_def roll_back_def split: option.splits)

lemma receive_awaiting: "awaiting p c f s \<Longrightarrow> awaiting p c (edited f i) (receive i s)"
  by (simp add: awaiting_def receive_def seen_as_def)

text \<open>The boundary of a round: the lid and the sensor, then the deadline.\<close>

lemma boundary_steps:
  assumes "boundary_round plat i s = Some (snapshot, s')" "session_inv s"
  obtains t where "moves s t" "same_core (expire_output_confirmation (in_now i) t) s'"
proof -
  obtain u where u: "apply_pending_sensor_orientation plat (in_busy i) (in_locked i) s = Some u"
    and pub: "publish_output_control_updates plat (in_connected i)
      (expire_output_confirmation (in_now i) (apply_pending_lid_position u)) = Some (snapshot, s')"
    using assms(1) by (auto simp: boundary_round_def bind_eq_Some_conv)
  have su: "moves s u" by (rule sensor_moves [OF assms(2) u])
  have "moves s (apply_pending_lid_position u)"
    by (rule moves_trans [OF su lid_moves [OF moves_inv [OF su assms(2)]]])
  then show ?thesis using publish_frame [OF pub] by (rule that)
qed

text \<open>The requests that answer the confirmation.\<close>

lemma handle_none:
  assumes "ses_confirmation s = None" "handle_confirmations io requests s = (h, s')"
  shows "\<not> h \<and> same_core s s'"
  using assms
proof (induction requests arbitrary: s h s')
  case (Cons r rs)
  have step: "handle_confirmation io r s = (False, confirmation_reply r (Inl NothingPending) s)"
    using Cons.prems(1) by (simp add: handle_confirmation_def)
  obtain h1 where rest: "handle_confirmations io rs (confirmation_reply r (Inl NothingPending) s) = (h1, s')" "h = h1"
    using Cons.prems(2) by (auto simp: step Let_def split: prod.splits)
  have "ses_confirmation (confirmation_reply r (Inl NothingPending) s) = None" using Cons.prems(1) by (simp add: confirmation_reply_def)
  from Cons.IH [OF this rest(1)] rest(2) show ?case by (auto intro: same_core_trans [OF reply_frame(2)])
qed simp

lemma handle_awaiting:
  assumes "awaiting p c f s" "no_keep p requests" "handle_confirmations io requests s = (h, s')"
  shows "(if h then rolled_back p f s' else awaiting p c f s') \<and> ses_confirmations s' = ses_confirmations s \<and> ses_ready s' = ses_ready s"
  using assms
proof (induction requests arbitrary: s h s')
  case (Cons r rs)
  let ?p = "p\<lparr>ac_rollback_configuration := seen_as s (ac_rollback_configuration p)\<rparr>"
  have pending: "ses_confirmation s = Some ?p" using Cons.prems(1) by (simp add: awaiting_def)
  obtain h1 s1 where step: "handle_confirmation io r s = (h1, s1)" by fastforce
  obtain h2 where rest: "handle_confirmations io rs s1 = (h2, s')" "h = (h1 \<or> h2)"
    using Cons.prems(3) by (auto simp: step Let_def split: prod.splits)
  show ?case
  proof (cases "pc_token r = token (ac_state p)")
    case False
    then have s1: "s1 = confirmation_reply r (Inl StaleToken) s" "\<not> h1"
      using step pending by (auto simp: handle_confirmation_def)
    have "awaiting p c f s1" using awaiting_core [OF reply_frame(2) Cons.prems(1)] by (simp add: s1)
    moreover have "ses_confirmations s1 = ses_confirmations s" "ses_ready s1 = ses_ready s" by (simp_all add: s1 confirmation_reply_def)
    ultimately show ?thesis using Cons.IH [OF _ _ rest(1)] Cons.prems(2) rest(2) s1(2) by (auto simp: no_keep_def)
  next
    case True
    then have s1: "s1 = (roll_back ?p s)\<lparr>ses_confirmation_success := ses_confirmation_success (roll_back ?p s) @ [r]\<rparr>" "h1"
      using step pending Cons.prems(2) by (auto simp: handle_confirmation_def no_keep_def Let_def)
    have returned: "rolled_back p f s1"
      by (rule rolled_back_core [OF _ awaiting_rolls_back [OF Cons.prems(1)]]) (simp add: s1 same_core_def)
    then have "same_core s1 s'" using handle_none [OF _ rest(1)] by (simp add: rolled_back_def)
    then show ?thesis using rolled_back_core [OF _ returned] s1 rest(2) by (auto simp: same_core_def roll_back_def)
  qed
qed simp

lemma acquire_frame:
  assumes "acquire_pending_output_apply rebased work scan s = (again, s')"
  shows "ses_confirmation s' = ses_confirmation s" "ses_configuration s' = ses_configuration s" "ses_file s' = ses_file s"
    "ses_confirmations s' = ses_confirmations s"
    "ses_ready s' = None \<or> ses_ready s' = ses_ready s \<or> ses_confirmation s = None \<and> again"
  using assms by (auto simp: acquire_pending_output_apply_def apply_reply_def Let_def split: option.splits list.splits if_splits)

text \<open>The rest of a round for a session in which no request is ready.\<close>

lemma idle_request_round:
  assumes "handle_output_confirmation_requests (plat_commit plat) s = (h, t)" "ses_ready t = None"
    and "request_round plat i rebased snapshot s = Some s'"
  shows "same_core (t\<lparr>ses_ready := ses_ready s'\<rparr>) s' \<and> (ses_confirmation t \<noteq> None \<longrightarrow> ses_ready s' = None)"
proof (cases h)
  case True
  then show ?thesis using assms by (auto simp: request_round_def same_core_def)
next
  case False
  obtain again u where u: "acquire_pending_output_apply rebased (in_work i) (in_scan i) t = (again, u)" by fastforce
  note frame = acquire_frame [OF u]
  show ?thesis
  proof (cases again)
    case True
    then have "s' = u" using assms(1,3) False u by (simp add: request_round_def)
    then show ?thesis using frame assms(2) by (auto simp: same_core_def)
  next
    case again: False
    then have idle: "ses_ready u = None" using frame(5) assms(2) by auto
    then have "topology_round plat i rebased u = Some s'"
      using assms(1,3) False u again by (simp add: request_round_def service_ready_output_apply_def split: if_splits)
    from topology_round_frame [OF this] show ?thesis using frame(1-4) idle by (simp add: same_core_def)
  qed
qed

text \<open>A round without an answer that keeps the configuration: the session goes on waiting until the deadline, or returns.\<close>

lemma awaiting_round:
  assumes "awaiting p c f s" "no_keep p (ses_confirmations s @ in_confirmations i)" "output_round plat i s = Some s'"
  shows "set (ses_confirmations s') \<subseteq> set (ses_confirmations s @ in_confirmations i) \<and>
    (rolled_back p (edited f i) s' \<or> in_now i < ac_deadline p \<and> awaiting p c (edited f i) s')"
proof -
  let ?f = "edited f i"
  let ?r = "receive i s"
  obtain snapshot t where b: "boundary_round plat i ?r = Some (snapshot, t)"
    and q: "(if in_restart i then Some t else request_round plat i (scanout_was_rebased t) snapshot t) = Some s'"
    using assms(3) by (auto simp: output_round_def bind_eq_Some_conv)
  have r: "awaiting p c ?f ?r" "ses_confirmations ?r = ses_confirmations s @ in_confirmations i"
    using receive_awaiting [OF assms(1)] by (simp_all add: receive_def)
  obtain m where m: "moves ?r m" "same_core (expire_output_confirmation (in_now i) m) t"
    by (rule boundary_steps [OF b awaiting_inv [OF r(1)]])
  have am: "awaiting p c ?f m" by (rule awaiting_moves [OF m(1) r(1)])
  have reqs: "ses_confirmations t = ses_confirmations s @ in_confirmations i" and ready: "ses_ready t = None"
    using m am r(2) by (simp_all add: moves_def same_core_def expire_frame awaiting_def)
  have bound: "if in_now i < ac_deadline p then awaiting p c ?f t else rolled_back p ?f t"
    using expire_awaiting [OF am, of "in_now i"] m(2) am awaiting_core [OF m(2)] rolled_back_core [OF m(2)] by (simp split: if_splits)
  show ?thesis
  proof (cases "in_restart i")
    case True
    then show ?thesis using bound q reqs by (simp split: if_splits)
  next
    case False
    then have q: "request_round plat i (scanout_was_rebased t) snapshot t = Some s'" using q by simp
    obtain h u where u: "handle_confirmations (plat_commit plat) (ses_confirmations t) (t\<lparr>ses_confirmations := []\<rparr>) = (h, u)" by fastforce
    have state: "ses_confirmations u = [] \<and> ses_ready u = None \<and> (rolled_back p ?f u \<or> in_now i < ac_deadline p \<and> awaiting p c ?f u)"
    proof (cases "in_now i < ac_deadline p")
      case True
      then have "awaiting p c ?f (t\<lparr>ses_confirmations := []\<rparr>)" using bound by (simp add: awaiting_def seen_as_def)
      from handle_awaiting [OF this _ u] show ?thesis using assms(2) True ready by (auto simp: reqs split: if_splits)
    next
      case False
      then have returned: "rolled_back p ?f (t\<lparr>ses_confirmations := []\<rparr>)" using bound by (simp add: rolled_back_def seen_as_def)
      then have "same_core (t\<lparr>ses_confirmations := []\<rparr>) u" using handle_none [OF _ u] by (simp add: rolled_back_def)
      then show ?thesis using rolled_back_core [OF _ returned] ready by (simp add: same_core_def)
    qed
    have "same_core (u\<lparr>ses_ready := ses_ready s'\<rparr>) s' \<and> (ses_confirmation u \<noteq> None \<longrightarrow> ses_ready s' = None)"
      by (rule idle_request_round [OF _ _ q]) (use u state in \<open>simp_all add: handle_output_confirmation_requests_def\<close>)
    then show ?thesis using state by (auto simp: same_core_def rolled_back_def awaiting_def seen_as_def)
  qed
qed

section \<open>From the request to the confirmation\<close>

lemma stage_Some:
  assumes "stage_output_apply plat request conns snapshot s = (Some staged, s')"
  shows "s' = s" "done_rollback (staged_completion staged) = prepare_output_confirmation_rollback request (ses_scanouts s) (ses_configuration s)"
    "configuration_from_output_request (pa_configuration request) conns (plat_max_outputs plat) (ses_configuration s) (ses_file s \<noteq> None) =
       Inr (staged_configuration staged, staged_power staged)"
    "prepare_output_persistence (plat_file_prepared plat) (pa_configuration request) (staged_configuration staged) (ses_file s) =
       Inr (done_persistence (staged_completion staged))"
  using assms by (auto simp: stage_output_apply_def Let_def split: if_splits sum.splits prod.splits)

lemma stage_None:
  assumes "stage_output_apply plat request conns snapshot s = (None, s')"
  shows "same_core s s'"
proof -
  have "\<exists>r d. s' = (apply_reply request r s)\<lparr>ses_topology_dirty := d\<rparr> \<or> s' = apply_reply request r s"
    using assms unfolding stage_output_apply_def Let_def by (auto split: if_splits sum.splits prod.splits)
  then show ?thesis by (auto simp: same_core_def apply_reply_def)
qed

lemma requested_power_frame: "apply_requested_output_power plat desired s = Some s' \<Longrightarrow> same_core s s'"
  by (auto simp: apply_requested_output_power_def same_core_def)

lemma finish_frame:
  "done_rollback completion = None \<Longrightarrow> ses_confirmation (finish_output_apply io now unix completion s) = ses_confirmation s"
  "done_rollback completion = Some rb \<Longrightarrow> same_core (s\<lparr>ses_confirmation := Some (begin_output_confirmation now unix (done_serial completion)
     (rollback_timeout rb) (rollback_to rb) (rollback_powers rb) (done_persistence completion))\<rparr>) (finish_output_apply io now unix completion s)"
  by (simp_all add: finish_output_apply_def Let_def same_core_def apply_reply_def split: option.splits prod.splits)

text \<open>The session that a staged request is carried out on: either it has the requested configuration and is finished, or the
  request failed.\<close>

lemma apply_staged_steps:
  assumes "apply_staged_output_configuration plat now unix staged s = Some s'"
  shows "same_core s s' \<or> (\<exists>t. same_core (s\<lparr>ses_configuration := staged_configuration staged\<rparr>) t \<and>
    s' = finish_output_apply (plat_commit plat) now unix (staged_completion staged) t)"
proof -
  let ?c = "s\<lparr>ses_configuration := staged_configuration staged\<rparr>"
  have done': "\<exists>t. same_core ?c t \<and> s' = finish_output_apply (plat_commit plat) now unix (staged_completion staged) t"
    if "map_option (finish_output_apply (plat_commit plat) now unix (staged_completion staged))
          (apply_requested_output_power plat (staged_power staged) u) = Some s'" "same_core ?c u" for u
    using that by (auto dest!: requested_power_frame intro: same_core_trans)
  have done'': "\<exists>t. same_core ?c t \<and> s' = finish_output_apply (plat_commit plat) now unix (staged_completion staged) t"
    if power': "map_option (\<lambda>s. finish_output_apply (plat_commit plat) now unix (staged_completion staged) (s\<lparr>ses_scanout_rebased := False\<rparr>))
          (apply_requested_output_power plat (staged_power staged) u) = Some s'" and core: "same_core ?c u" for u
  proof -
    obtain z where z: "apply_requested_output_power plat (staged_power staged) u = Some z"
      and s': "s' = finish_output_apply (plat_commit plat) now unix (staged_completion staged) (z\<lparr>ses_scanout_rebased := False\<rparr>)"
      using power' by auto
    have "same_core ?c (z\<lparr>ses_scanout_rebased := False\<rparr>)" using requested_power_frame [OF z] core by (simp add: same_core_def)
    then show ?thesis using s' by blast
  qed
  show ?thesis
  proof (cases "staged_hardware_changed staged")
    case True
    obtain ok u where u: "(if staged_resident_mode_change staged
           then apply_resident_mode_topology plat (staged_outputs staged) (staged_configuration staged) s
           else apply_hotplug_topology plat (staged_outputs staged) (staged_configuration staged) s) = (ok, u)" by fastforce
    have frame: "same_core (u\<lparr>ses_layout_axes := x, ses_configuration := staged_configuration staged, ses_control_dirty := True\<rparr>) t \<Longrightarrow> same_core ?c t"
      "\<not> ok \<Longrightarrow> same_core s u" for t x
      using u by (auto split: if_splits dest!: resident_mode_frame hotplug_frame simp: same_core_def)
    show ?thesis
    proof (cases ok)
      case ok: True
      then show ?thesis
        using assms True u done'' frame(1) [OF same_core_refl]
        by (auto simp: apply_staged_output_configuration_def apply_hardware_output_configuration_def Let_def split: if_splits)
    next
      case False
      then show ?thesis
        using assms True u frame(2)
        by (auto simp: apply_staged_output_configuration_def apply_hardware_output_configuration_def Let_def same_core_def apply_reply_def split: if_splits)
    qed
  next
    case unchanged: False
    obtain ok u where u: "apply_resident_output_geometry plat (staged_outputs staged) (staged_configuration staged) s = (ok, u)" by fastforce
    note frame = resident_geometry_frame [OF u]
    show ?thesis
    proof (cases "staged_topology_changed staged")
      case True
      then show ?thesis
        using assms unchanged u frame done'
        by (cases ok) (auto simp: apply_staged_output_configuration_def apply_resident_output_configuration_def same_core_def apply_reply_def)
    next
      case False
      have "same_core ?c (s\<lparr>ses_layout_axes := x, ses_configuration := staged_configuration staged, ses_control_dirty := True\<rparr>)" for x
        by (simp add: same_core_def)
      then show ?thesis using assms unchanged False done' by (auto simp: apply_staged_output_configuration_def)
    qed
  qed
qed

lemma service_ready_None: "ses_ready s = None \<Longrightarrow> service_ready_output_apply plat now unix rebased busy snapshot s = Some (False, s)"
  by (simp add: service_ready_output_apply_def)

lemma accepted_timeout:
  assumes "configuration_from_output_request request conns max_outputs current available = Inr r" "apply_confirmation_timeout request = Some timeout"
  shows "1000 \<le> timeout \<and> timeout \<le> 60000"
  using assms unfolding configuration_from_output_request_def Let_def by (auto split: if_splits)

text \<open>A confirmation begins with the configuration that was shown before the request, and with the file as it was.\<close>

lemma served_confirmation:
  assumes "service_ready_output_apply plat now unix rebased busy snapshot s = Some (again, s')" "ses_confirmation s = None"
    and "ses_confirmation s' = Some p"
  shows "ac_rollback_configuration p = ses_configuration s \<and> session_inv s' \<and> ses_file s' = ses_file s \<and> again \<and>
    (\<exists>request conns powers timeout. ses_ready s = Some (request, conns) \<and>
       configuration_from_output_request (pa_configuration request) conns (plat_max_outputs plat) (ses_configuration s) (ses_file s \<noteq> None) =
         Inr (ses_configuration s', powers) \<and>
       prepare_output_persistence (plat_file_prepared plat) (pa_configuration request) (ses_configuration s') (ses_file s) =
         Inr (ac_prepared_persistence p) \<and>
       apply_confirmation_timeout (pa_configuration request) = Some timeout \<and> ac_deadline p = now + timeout \<and> 1000 \<le> timeout \<and> timeout \<le> 60000)"
proof -
  have "ses_ready s \<noteq> None" using assms service_ready_None [of s plat now unix rebased busy snapshot] by fastforce
  then obtain request conns where ready: "ses_ready s = Some (request, conns)" by auto
  have "\<not> rebased \<and> \<not> busy" using assms by (auto simp: service_ready_output_apply_def ready split: if_splits)
  with assms(1) obtain snap where "(case stage_output_apply plat request conns snap (s\<lparr>ses_ready := None\<rparr>) of
       (None, s) \<Rightarrow> Some (True, s)
     | (Some staged, s) \<Rightarrow> map_option (Pair True) (apply_staged_output_configuration plat now unix staged s)) = Some (again, s')"
    by (auto simp: service_ready_output_apply_def ready split: option.splits)
  then obtain staged where stage: "stage_output_apply plat request conns snap (s\<lparr>ses_ready := None\<rparr>) = (Some staged, s\<lparr>ses_ready := None\<rparr>)"
    and run: "apply_staged_output_configuration plat now unix staged (s\<lparr>ses_ready := None\<rparr>) = Some s'" and again: again
    using assms(2,3) by (auto simp: same_core_def split: prod.splits option.splits dest: stage_None stage_Some(1))
  note facts = stage_Some [OF stage]
  obtain t where t: "same_core (s\<lparr>ses_ready := None, ses_configuration := staged_configuration staged\<rparr>) t"
      "s' = finish_output_apply (plat_commit plat) now unix (staged_completion staged) t"
    using apply_staged_steps [OF run] assms(2,3) by (auto simp: same_core_def)
  obtain rb where rb: "done_rollback (staged_completion staged) = Some rb"
    using finish_frame(1) [of "staged_completion staged"] t assms(2,3) by (cases "done_rollback (staged_completion staged)") (auto simp: same_core_def)
  then obtain timeout where rb_def: "apply_confirmation_timeout (pa_configuration request) = Some timeout"
      "rollback_to rb = ses_configuration s" "rollback_timeout rb = timeout"
    using facts(2) by (auto simp: prepare_output_confirmation_rollback_def)
  have core: "ses_configuration s' = staged_configuration staged" "ses_file s' = ses_file s" "ses_ready s' = None"
     "p = begin_output_confirmation now unix (done_serial (staged_completion staged)) timeout (ses_configuration s) (rollback_powers rb)
        (done_persistence (staged_completion staged))"
    using finish_frame(2) [OF rb, where s = t and io = "plat_commit plat" and now = now and unix = unix] t assms(3) rb_def by (auto simp: same_core_def)
  have eqs: "ac_rollback_configuration p = ses_configuration s" "ac_deadline p = now + timeout"
    "ac_prepared_persistence p = done_persistence (staged_completion staged)"
    by (simp_all add: core begin_output_confirmation_def)
  have conf: "configuration_from_output_request (pa_configuration request) conns (plat_max_outputs plat) (ses_configuration s) (ses_file s \<noteq> None) =
      Inr (ses_configuration s', staged_power staged)" using facts(3) core by simp
  have "session_inv s'"
    using accepted_staging(2,3) [OF conf] core(3) assms(3) eqs(1) by (simp add: session_inv_cases)
  then show ?thesis using eqs core conf facts(4) ready again rb_def(1) accepted_timeout [OF conf rb_def(1)] by auto
qed

section \<open>Rounds\<close>

lemma awaiting_rounds:
  assumes "awaiting p c f s" "no_keep p (ses_confirmations s @ concat (map (in_confirmations \<circ> snd) rounds))"
    and "output_rounds rounds s = Some s'"
  shows "list_all (\<lambda>(_, i). in_now i < ac_deadline p) rounds \<or>
    (\<exists>before after t. rounds = before @ after \<and> before \<noteq> [] \<and> output_rounds before s = Some t \<and>
       rolled_back p (foldl edited f (map snd before)) t \<and> list_all (\<lambda>(_, i). in_now i < ac_deadline p) (butlast before) \<and>
       (\<forall>k < length before. \<exists>u. output_rounds (take k before) s = Some u \<and> awaiting p c (foldl edited f (map snd (take k before))) u))"
  using assms
proof (induction rounds arbitrary: s f)
  case (Cons round rounds)
  obtain plat i where r: "round = (plat, i)" by fastforce
  obtain t where step: "output_round plat i s = Some t" and rest: "output_rounds rounds t = Some s'"
    using Cons.prems(3) by (auto simp: r bind_eq_Some_conv)
  have "no_keep p (ses_confirmations s @ in_confirmations i)" using Cons.prems(2) by (simp add: no_keep_def r)
  note state = awaiting_round [OF Cons.prems(1) this step]
  show ?case
  proof (cases "rolled_back p (edited f i) t")
    case True
    show ?thesis
      by (intro disjI2 exI [of _ "[round]"] exI [of _ rounds] exI [of _ t]) (use True step Cons.prems(1) in \<open>simp add: r\<close>)
  next
    case False
    then have t: "awaiting p c (edited f i) t" and early: "in_now i < ac_deadline p" using state by auto
    have "no_keep p (ses_confirmations t @ concat (map (in_confirmations \<circ> snd) rounds))"
      using Cons.prems(2) state by (auto simp: no_keep_def list_all_iff r)
    from Cons.IH [OF t this rest] show ?thesis
    proof (elim disjE exE conjE)
      assume "list_all (\<lambda>(_, i). in_now i < ac_deadline p) rounds"
      then show ?thesis using early by (simp add: r)
    next
      fix before after u
      assume split: "rounds = before @ after" "before \<noteq> []" "output_rounds before t = Some u"
        "rolled_back p (foldl edited (edited f i) (map snd before)) u" "list_all (\<lambda>(_, i). in_now i < ac_deadline p) (butlast before)"
        "\<forall>k < length before. \<exists>u. output_rounds (take k before) t = Some u \<and> awaiting p c (foldl edited (edited f i) (map snd (take k before))) u"
      have "\<exists>u. output_rounds (take k (round # before)) s = Some u \<and> awaiting p c (foldl edited f (map snd (take k (round # before)))) u"
        if "k < length (round # before)" for k
        using that split(6) step Cons.prems(1) by (cases k) (auto simp: r)
      then show ?thesis
        using split early step by (intro disjI2 exI [of _ "round # before"] exI [of _ after] exI [of _ u]) (simp add: r)
    qed
  qed
qed simp


text \<open>A configuration that is kept while the directory cannot be synchronised: the file has been replaced, and the session returns to the earlier
  configuration all the same, so that the next start shows what the user was told had failed.\<close>

lemma unsynced_keep_rolls_back_a_saved_configuration:
  assumes "awaiting p c f t" "ac_prepared_persistence p = Some prepared" "f = Some (prepared_original prepared)"
    and "pc_token request = token (ac_state p)" "pc_action request = Keep" "handle_confirmation CommitUnsynced request t = (handled, t')"
  shows "ses_file t' = Some (prepared_rendered prepared) \<and> ses_configuration t' = seen_as t (ac_rollback_configuration p) \<and>
    ses_replies t' = ses_replies t @ [ConfirmationReply (pc_reply request) (Inl NotPersisted)]"
  using assms by (auto simp: handle_confirmation_def awaiting_def commit_prepared_def roll_back_def confirmation_reply_def)

section \<open>The invariant of the session\<close>

lemma session_expire_inv: "session_inv s \<Longrightarrow> session_inv (expire_output_confirmation now s)"
  by (auto simp: expire_output_confirmation_def roll_back_def session_inv_def split: option.splits)

lemma handle_inv:
  assumes "session_inv s" "handle_confirmations io requests s = (h, s')"
  shows "session_inv s'"
  using assms
proof (induction requests arbitrary: s h)
  case (Cons r rs)
  obtain h1 s1 where step: "handle_confirmation io r s = (h1, s1)" by fastforce
  obtain h2 where rest: "handle_confirmations io rs s1 = (h2, s')"
    using Cons.prems(2) by (auto simp: step Let_def split: prod.splits)
  have "ses_confirmation s1 = None \<or> same_core s s1"
    using step by (auto simp: handle_confirmation_def roll_back_def confirmation_reply_def same_core_def Let_def
        split: option.splits if_splits output_confirmation_action.splits prod.splits)
  then have "session_inv s1" using Cons.prems(1) session_inv_core by (auto simp: session_inv_cases)
  from Cons.IH [OF this rest] show ?case .
qed simp

lemma served_inv:
  assumes "session_inv s" "service_ready_output_apply plat now unix rebased busy snapshot s = Some (again, s')"
  shows "session_inv s'"
proof (cases "ses_confirmation s")
  case None
  then show ?thesis using served_confirmation [OF assms(2) None] by (cases "ses_confirmation s'") (auto simp: session_inv_cases)
next
  case (Some p)
  then show ?thesis using assms service_ready_None [of s plat now unix rebased busy snapshot] by (simp add: session_inv_cases)
qed

lemma acquired_inv:
  assumes "session_inv s" "acquire_pending_output_apply rebased work scan s = (again, s')"
  shows "session_inv s'"
  using assms(1) acquire_frame [OF assms(2)] by (auto simp: session_inv_def seen_as_def split: option.splits)

lemma round_inv:
  assumes "session_inv s" "output_round plat i s = Some s'"
  shows "session_inv s'"
proof -
  obtain snapshot t where b: "boundary_round plat i (receive i s) = Some (snapshot, t)"
    and q: "(if in_restart i then Some t else request_round plat i (scanout_was_rebased t) snapshot t) = Some s'"
    using assms(2) by (auto simp: output_round_def bind_eq_Some_conv)
  have r: "session_inv (receive i s)" using assms(1) by (simp add: session_inv_def receive_def seen_as_def split: option.splits)
  obtain m where m: "moves (receive i s) m" "same_core (expire_output_confirmation (in_now i) m) t"
    by (rule boundary_steps [OF b r])
  have t: "session_inv t" using session_inv_core [OF m(2)] session_expire_inv [OF moves_inv [OF m(1) r]] by simp
  obtain h u where u: "handle_output_confirmation_requests (plat_commit plat) t = (h, u)" by fastforce
  have "session_inv (t\<lparr>ses_confirmations := []\<rparr>)" using t by (simp add: session_inv_def seen_as_def split: option.splits)
  then have iu: "session_inv u" using handle_inv u by (simp add: handle_output_confirmation_requests_def)
  obtain again v where v: "acquire_pending_output_apply (scanout_was_rebased t) (in_work i) (in_scan i) u = (again, v)" by fastforce
  have iv: "session_inv v" by (rule acquired_inv [OF iu v])
  have "session_inv x" if "topology_round plat i (scanout_was_rebased t) w = Some x" "session_inv w" for w x
    using session_inv_core [OF topology_round_frame [OF that(1)]] that(2) by simp
  then show ?thesis
    using q t iu iv u v by (auto simp: request_round_def split: if_splits option.splits prod.splits bool.splits dest: served_inv)
qed

text \<open>While a confirmation is pending, no request is being prepared and the configuration to return to follows the lid and the device.\<close>

lemma reachable_session_inv: "session_reachable s \<Longrightarrow> session_inv s"
  by (induction rule: session_reachable.induct) (auto simp: session_inv_cases intro: round_inv)

section \<open>A sample\<close>

text \<open>A monitor on a desk, and a request for adaptive sync and vertical scrolling that is never confirmed. The lid is shut meanwhile.\<close>

definition desk_output :: "bool \<Rightarrow> connected_output" where
  "desk_output vrr = \<lparr>co_id = 52, co_name = ''DP-1'', co_connector = 52, co_crtc = 8, co_mode = sample_mode 1920 1080 60000,
     co_transform = Normal, co_vrr_enabled = vrr, co_default_scale_120 = 120\<rparr>"

definition desk_scanout :: "connected_output \<Rightarrow> scanout" where
  "desk_scanout out = \<lparr>sc_output = out, sc_powered = True, sc_vrr_supported = True\<rparr>"

definition desk_configuration :: runtime_output_configuration where
  "desk_configuration = upright_configuration [''DP-1'' \<mapsto> \<lparr>point_x = 0, point_y = 0\<rparr>]"

definition desk_request :: "bool \<Rightarrow> apply_output_configuration" where
  "desk_request persistent = \<lparr>apply_primary_output = None, apply_persistent = persistent, apply_confirmation_timeout = Some 15000,
     apply_outputs = [\<lparr>req_name = ''DP-1'', req_enabled = True, req_powered = True, req_x = 0, req_y = 0,
       req_mode = \<lparr>req_mode_width = 1920, req_mode_height = 1080, req_mode_refresh = 60000\<rparr>, req_scale = Fin 1,
       req_transform = NameNormal, req_axis = Some Vertical, req_adaptive_sync = True\<rparr>]\<rparr>"

definition desk_staged :: runtime_output_configuration where
  "desk_staged = desk_configuration\<lparr>modes := [''DP-1'' \<mapsto> \<lparr>pref_width = Some 1920, pref_height = Some 1080, pref_refresh_millihz = Some 60000\<rparr>],
     scales_120 := [''DP-1'' \<mapsto> 120], transforms := [''DP-1'' \<mapsto> Normal], scrolling_layout_axes := [''DP-1'' \<mapsto> Vertical],
     vrr_outputs := {''DP-1''}\<rparr>"

definition desk_topology :: topology_manager where
  "desk_topology = \<lparr>topology_epoch = 1, topology_outputs = [sample_spec 52 ''DP-1'' 0 0 1920 1080], primary_output = None\<rparr>"

lemma desk_scale: "scale_120_of (Fin 1) = 120"
  using scale_again(2) [of 120] by (simp add: SCALE_BASE_def)

lemma desk_lit: "reconcile_disabled_outputs [''DP-1''] {} False (\<lambda>name. name = ''DP-1'') = {}"
  "lit (select_outputs [''DP-1''] {} False) = {''DP-1''}" "lit (select_outputs [''DP-1''] {} True) = {''DP-1''}"
  by code_simp+

lemma desk_mode: "select_output_mode [sample_mode 1920 1080 60000] (Some \<lparr>pref_width = Some 1920, pref_height = Some 1080, pref_refresh_millihz = Some 60000\<rparr>) =
    Some (sample_mode 1920 1080 60000)"
  by (simp add: select_output_mode_def sample_mode_def u16_of_def u32_of_int_def select_refresh_millihz_def List.map_filter_def)

lemma desk_wanted: "wanted (apply_outputs (desk_request persistent)) = (\<lambda>name. name = ''DP-1'')"
  by (rule ext) (simp add: wanted_def request_of_def desk_request_def)

lemma desk_fields [simp]: "config_primary_output desk_configuration = None" "positions desk_configuration = [''DP-1'' \<mapsto> \<lparr>point_x = 0, point_y = 0\<rparr>]"
  "modes desk_configuration = Map.empty" "scales_120 desk_configuration = Map.empty" "transforms desk_configuration = Map.empty"
  "scrolling_layout_axes desk_configuration = Map.empty" "sensor_rotation desk_configuration = Normal" "vrr_outputs desk_configuration = {}"
  "disabled_outputs desk_configuration = {}" "\<not> lid_closed desk_configuration"
  by (simp_all add: desk_configuration_def upright_configuration_def plain_configuration_def)

lemma desk_stays: "desk_configuration\<lparr>config_primary_output := None\<rparr> = desk_configuration"
  by (simp add: desk_configuration_def upright_configuration_def plain_configuration_def)

lemma desk_accepted:
  assumes "persistent \<longrightarrow> available"
  shows "configuration_from_output_request (desk_request persistent) [office_connector] 4 desk_configuration available = Inr (desk_staged, [52 \<mapsto> True])"
proof -
  have "scale_acceptable (Fin 1)" by (simp add: scale_acceptable_def)
  moreover have "baseline_transform desk_configuration ''DP-1'' Normal = Normal"
    by (simp add: baseline_transform_def rotated_by_def transform_of_def reflected_def)
  ultimately have stage: "stage_requests desk_configuration (apply_outputs (desk_request persistent)) [office_connector] (desk_configuration, Map.empty) =
      Inr (desk_staged, [52 \<mapsto> True])"
    by (simp add: stage_requested_def desk_request_def request_of_def requested_preference_def desk_mode desk_scale Let_def)
      (simp add: desk_staged_def desk_configuration_def upright_configuration_def plain_configuration_def)
  have "desk_staged\<lparr>disabled_outputs := {}\<rparr> = desk_staged"
    by (simp add: desk_staged_def desk_configuration_def upright_configuration_def plain_configuration_def)
  moreover have "apply_primary_output (desk_request persistent) = None" "apply_persistent (desk_request persistent) = persistent"
    "apply_confirmation_timeout (desk_request persistent) = Some 15000" "map req_name (apply_outputs (desk_request persistent)) = [''DP-1'']"
    "length (apply_outputs (desk_request persistent)) = 1" "length (filter req_enabled (apply_outputs (desk_request persistent))) = 1"
    "req_name ` set (apply_outputs (desk_request persistent)) = {''DP-1''}" "first_repeated [] [''DP-1''] = None"
    by (simp_all add: desk_request_def)
  ultimately show ?thesis
    using assms desk_wanted [of persistent] desk_lit(1)
    by (simp add: configuration_from_output_request_def option_is_some_and_def Let_def stage desk_stays del: stage_requests.simps)
qed

lemma desk_configured:
  assumes "config = desk_configuration \<and> \<not> vrr \<or> config = desk_staged \<and> vrr"
  shows "configured_outputs hypot [office_connector] 4 (config\<lparr>lid_closed := shut\<rparr>) = Inr ([desk_output vrr], select_outputs [''DP-1''] {} shut)"
proof -
  have "effective_transform (config\<lparr>lid_closed := shut\<rparr>) ''DP-1'' = Normal" "disabled_outputs config = {}" "''DP-1'' \<in> vrr_outputs config \<longleftrightarrow> vrr"
    "select_output_mode [sample_mode 1920 1080 60000] (modes config ''DP-1'') = Some (sample_mode 1920 1080 60000)"
    using assms desk_mode sample_selected
    by (auto simp: effective_transform_def desk_staged_def rotated_by_def transform_of_def reflected_def)
  then show ?thesis
    by (cases shut) (simp_all add: configured_outputs_def configured_output_def desk_lit desk_output_def default_scale_120_def SCALE_BASE_def Let_def)
qed

lemma desk_open [simp]: "desk_staged\<lparr>lid_closed := False\<rparr> = desk_staged"
  by (simp add: desk_staged_def desk_configuration_def upright_configuration_def plain_configuration_def)

lemma desk_update:
  assumes "config = desk_configuration \<or> config = desk_staged"
  shows "update_topology_for_outputs desk_topology [desk_output vrr] (config\<lparr>lid_closed := shut\<rparr>) = (Inr (topology_snapshot_of desk_topology), desk_topology)"
proof -
  have rect: "logical_rect_of (sample_spec i name 0 0 1920 1080) = \<lparr>rect_x = Fin 0, rect_y = Fin 0, rect_width = Fin 1920, rect_height = Fin 1080\<rparr>" for i name
    by (simp add: sample_spec_def rect_evals)
  have "pending_spec (config\<lparr>lid_closed := shut\<rparr>) (desk_output vrr) = Inr (sample_spec 52 ''DP-1'' 0 0 1920 1080, True)"
    using assms by (auto simp: pending_spec_def desk_output_def sample_mode_def u32_of_int_def sample_spec_def desk_staged_def)
  then have specs: "output_specs [desk_output vrr] (config\<lparr>lid_closed := shut\<rparr>) = Inr [sample_spec 52 ''DP-1'' 0 0 1920 1080]"
    by (simp add: placement_evals)
  have "validate_outputs [sample_spec 52 ''DP-1'' 0 0 1920 1080] = Inr ()"
    by (simp add: validate_outputs_def coordinate_overflow_def rect_right_def rect_bottom_def f64_from_i32_def i32_min_def i32_max_def rect sample_names Let_def)
  moreover have "config_primary_output config = None" using assms by (auto simp: desk_staged_def)
  ultimately show ?thesis
    by (simp add: update_topology_for_outputs_def specs desk_topology_def topology_snapshot_of_def apply_with_primary_output_def spec_of_def)
qed

definition desk_platform :: platform where
  "desk_platform = \<lparr>plat_hypot = (\<lambda>_ _. Fin 1), plat_max_outputs = 4, plat_atlas = (\<lambda>_. True), plat_geometry = (\<lambda>_. True),
     plat_modeset = (\<lambda>_ outs. Some (map desk_scanout outs)), plat_hotplug = (\<lambda>_ outs _. Some (map desk_scanout outs)), plat_running = True,
     plat_hdr_cleared = False, plat_schedulers = True, plat_power = (\<lambda>_ scanouts. Some (scanouts, Map.empty)), plat_file_prepared = True,
     plat_commit = CommitDone\<rparr>"

definition desk_snapshot :: output_control_snapshot where
  "desk_snapshot = \<lparr>serial = 7, snapshot_state = reported_state []\<rparr>"

definition desk_pending_request :: "bool \<Rightarrow> pending_output_apply" where
  "desk_pending_request persistent = \<lparr>pa_reply = 1, pa_serial = 7, pa_configuration = desk_request persistent\<rparr>"

definition desk_session :: "bool \<Rightarrow> string option \<Rightarrow> session" where
  "desk_session persistent contents = \<lparr>ses_configuration = desk_configuration, ses_layout_axes = Map.empty, ses_confirmation = None,
     ses_scanouts = [desk_scanout (desk_output False)], ses_topology = desk_topology,
     ses_published = desk_snapshot, ses_file = contents, ses_applies = [], ses_ready = Some (desk_pending_request persistent, [office_connector]),
     ses_confirmations = [], ses_apply_success = None, ses_confirmation_success = [], ses_replies = [], ses_topology_dirty = False,
     ses_control_dirty = False, ses_kms_requested = False, ses_geometry_requested = False, ses_scanout_rebased = False,
     ses_disconnected = False, ses_power_requests = Map.empty, ses_dpms = Guard_default, ses_journal = Journal_default,
     ses_lid = \<lparr>lid_pending = None, lid_generation = 0\<rparr>, ses_sensor = Normal\<rparr>"

definition desk_pending :: "prepared_output_config option \<Rightarrow> active_output_confirmation" where
  "desk_pending prepared = begin_output_confirmation 100 5000 7 15000 desk_configuration [52 \<mapsto> True] prepared"

definition desk_waiting :: "bool \<Rightarrow> string option \<Rightarrow> prepared_output_config option \<Rightarrow> session" where
  "desk_waiting persistent contents prepared = (desk_session persistent contents)\<lparr>ses_ready := None, ses_configuration := desk_staged,
     ses_layout_axes := [''DP-1'' \<mapsto> Vertical], ses_scanouts := [desk_scanout (desk_output True)], ses_control_dirty := True,
     ses_confirmation := Some (desk_pending prepared), ses_apply_success := Some (desk_pending_request persistent)\<rparr>"

lemma desk_hardware: "output_hardware_changed [desk_output vrr] [desk_scanout (desk_output vrr')] \<longleftrightarrow> vrr \<noteq> vrr'"
  "resident_mode_change_supported [desk_output vrr] [desk_scanout (desk_output vrr')] \<longleftrightarrow> vrr \<noteq> vrr'"
  "output_properties_changed [desk_output vrr] [desk_scanout (desk_output vrr')] \<longleftrightarrow> vrr \<noteq> vrr'"
  by (auto simp: output_hardware_changed_def output_properties_changed_def resident_mode_change_supported_def scanout_of_def
      option_is_none_or_def option_is_some_and_def desk_output_def desk_scanout_def)

lemma desk_scanout_simps [simp]: "sc_output (desk_scanout out) = out" "sc_powered (desk_scanout out)" "co_id (desk_output vrr) = 52"
  "(desk_scanout out)\<lparr>sc_output := out'\<rparr> = desk_scanout out'"
  by (simp_all add: desk_scanout_def desk_output_def)

lemma desk_axes [simp]: "scrolling_layout_axes desk_staged = [''DP-1'' \<mapsto> Vertical]"
  by (simp add: desk_staged_def)

lemma desk_resident:
  assumes "ses_scanouts s = [desk_scanout (desk_output False)]" "ses_topology s = desk_topology"
  shows "apply_resident_mode_topology desk_platform [desk_output True] desk_staged s =
    (True, s\<lparr>ses_scanouts := [desk_scanout (desk_output True)], ses_control_dirty := True, ses_topology := desk_topology,
       ses_layout_axes := [''DP-1'' \<mapsto> Vertical], ses_configuration := desk_staged\<rparr>)"
  using desk_update [of desk_staged True False] assms
  by (simp add: apply_resident_mode_topology_def apply_resident_output_geometry_def desk_hardware desk_platform_def)

lemma desk_served:
  assumes "persistent \<longrightarrow> contents \<noteq> None" "prepare_output_persistence True (desk_request persistent) desk_staged contents = Inr prepared"
  shows "service_ready_output_apply desk_platform 100 5000 False False (Some desk_snapshot) (desk_session persistent contents) =
    Some (True, desk_waiting persistent contents prepared)"
proof -
  have "apply_confirmation_timeout (desk_request persistent) = Some 15000" by (simp add: desk_request_def)
  then show ?thesis
    using desk_accepted [of persistent "contents \<noteq> None"] assms desk_configured [of desk_staged True _ False] desk_update [of desk_staged True False]
      desk_hardware desk_resident [of "(desk_session persistent contents)\<lparr>ses_ready := None\<rparr>"]
    by (simp add: service_ready_output_apply_def stage_output_apply_def Let_def desk_session_def desk_pending_request_def desk_waiting_def desk_snapshot_def
        apply_staged_output_configuration_def apply_hardware_output_configuration_def apply_requested_output_power_def finish_output_apply_def
        prepare_output_confirmation_rollback_def desk_pending_def desk_platform_def)
qed

text \<open>The round in which the confirmation expires.\<close>

definition desk_round :: loop_input where
  "desk_round = \<lparr>in_now = 15100, in_unix = 20000, in_instant = 0, in_applies = [], in_confirmations = [],
     in_lid = \<lparr>lid_pending = Some True, lid_generation = 1\<rparr>, in_sensor = Normal, in_locked = None, in_busy = False, in_work = False,
     in_targets = False, in_connected = [office_connector], in_scan = Some [office_connector], in_topology_changed = False, in_kms_requested = False,
     in_rebased = False, in_control_changed = False, in_powered = Map.empty, in_dpms = Guard_default, in_edit = None, in_restart = False\<rparr>"

definition desk_expired :: session where
  "desk_expired = (desk_waiting False None None)\<lparr>ses_lid := \<lparr>lid_pending = None, lid_generation = 1\<rparr>, ses_confirmation := None,
     ses_configuration := desk_configuration\<lparr>lid_closed := True\<rparr>, ses_power_requests := [52 \<mapsto> True], ses_geometry_requested := True,
     ses_topology_dirty := True\<rparr>"

lemma desk_boundary: "\<exists>snapshot. boundary_round desk_platform desk_round (receive desk_round (desk_waiting False None None)) = Some (snapshot, desk_expired)"
proof -
  have "sensor_rotation desk_staged = Normal" "\<not> lid_closed desk_staged" by (simp_all add: desk_staged_def)
  then show ?thesis
    by (simp add: boundary_round_def apply_pending_sensor_orientation_def receive_def edited_def desk_round_def desk_waiting_def desk_session_def
      select_rotation_def apply_pending_lid_position_def take_pending_def expire_output_confirmation_def desk_pending_def desk_expired_def
      begin_output_confirmation_def roll_back_def publish_output_control_updates_def Let_def)
qed

text \<open>The session has returned to the earlier configuration and to its scanouts.\<close>

lemma desk_expires: "\<exists>s1. output_round desk_platform desk_round (desk_waiting False None None) = Some s1 \<and> ses_configuration s1 = desk_configuration\<lparr>lid_closed := True\<rparr> \<and>
    ses_scanouts s1 = [desk_scanout (desk_output False)] \<and> ses_layout_axes s1 = [''DP-1'' \<mapsto> Vertical] \<and>
    \<not> ses_topology_dirty s1 \<and> \<not> ses_geometry_requested s1 \<and> \<not> ses_kms_requested s1 \<and> ses_ready s1 = None \<and> ses_confirmation s1 = None"
proof -
  obtain snapshot where b: "boundary_round desk_platform desk_round (receive desk_round (desk_waiting False None None)) = Some (snapshot, desk_expired)"
    using desk_boundary by blast
  have scan: "configured_outputs (plat_hypot desk_platform) [office_connector] (plat_max_outputs desk_platform) (desk_configuration\<lparr>lid_closed := True\<rparr>) =
      Inr ([desk_output False], select_outputs [''DP-1''] {} True)" using desk_configured [of desk_configuration False] by (simp add: desk_platform_def)
  have "scanout_was_rebased desk_expired = False" by (simp add: scanout_was_rebased_def desk_expired_def desk_waiting_def desk_session_def)
  then show ?thesis
    using b scan desk_update [of desk_configuration False True] desk_hardware [of False True]
    by (simp add: output_round_def request_round_def handle_output_confirmation_requests_def acquire_pending_output_apply_def service_ready_output_apply_def
        topology_round_def take_topology_reconfiguration_request_def observe_output_topology_def apply_observed_output_topology_def
        apply_hotplug_topology_def Let_def desk_expired_def desk_waiting_def desk_session_def desk_round_def desk_platform_def)
qed

lemma desk_begins: "service_ready_output_apply desk_platform 100 5000 False False (Some desk_snapshot) (desk_session False None) =
    Some (True, desk_waiting False None None)"
  by (rule desk_served) (simp_all add: prepare_output_persistence_def desk_request_def)


text \<open>
  Claim C17 (a rolled back axis stays in the layout). The axis along which an output scrolls is given to the window layout when a request is carried out
  and when the geometry changes in place. The rollback of a request that also changed adaptive sync or the mode goes through the hotplug
  transaction, which does not pass the axes on: the session shows the earlier configuration, in which the output has no axis of its own, nothing is left
  to be done, and the windows still scroll along the axis that was rejected.
\<close>

theorem rolled_back_axis_stays_in_the_layout:
  "\<exists>s0 s1. service_ready_output_apply desk_platform 100 5000 False False (Some desk_snapshot) (desk_session False None) = Some (True, s0) \<and>
     output_rounds [(desk_platform, desk_round)] s0 = Some s1 \<and> ses_confirmation s1 = None \<and>
     scrolling_layout_axis_of (ses_configuration s1) ''DP-1'' = Auto \<and> ses_layout_axes s1 ''DP-1'' = Some Vertical \<and>
     \<not> ses_topology_dirty s1 \<and> \<not> ses_geometry_requested s1 \<and> \<not> ses_kms_requested s1"
proof -
  obtain s1 where s1: "output_round desk_platform desk_round (desk_waiting False None None) = Some s1"
    "ses_configuration s1 = desk_configuration\<lparr>lid_closed := True\<rparr>" "ses_layout_axes s1 = [''DP-1'' \<mapsto> Vertical]"
    "\<not> ses_topology_dirty s1" "\<not> ses_geometry_requested s1" "\<not> ses_kms_requested s1" "ses_confirmation s1 = None"
    using desk_expires by blast
  then show ?thesis using desk_begins
    by (intro exI [of _ "desk_waiting False None None"] exI [of _ s1]) (simp add: scrolling_layout_axis_of_def)
qed

end
