(* ===== verification/Output_Config_Roundtrip.thy ===== *)
theory Output_Config_Roundtrip
  imports Output_Config
begin

text \<open>
  The output configuration file reads back as it was written: the numbers and names of a written line are the ones that were
  saved, the lines that are kept mean what they meant before, and a successful parse holds exactly the entries of
  its lines.
\<close>

section \<open>Decimal numbers\<close>

lemma digit_char: "k < 10 \<Longrightarrow> of_char (char_of (48 + int k)) = 48 + int k"
  by (simp add: of_char_of)

lemma digit_char_is: "k < 10 \<Longrightarrow> is_ascii_digit (char_of (48 + int k))"
  by (simp add: is_ascii_digit_def of_char_of)

lemma decimal_digits: "list_all is_ascii_digit (decimal n)"
  by (induction n rule: decimal.induct) (subst decimal.simps, simp add: digit_char_is)

lemma decimal_not_Nil [simp]: "decimal n \<noteq> []"
  by (subst decimal.simps) simp

lemma digits_value_append: "digits_value acc (s @ t) = Option.bind (digits_value acc s) (\<lambda>a. digits_value a t)"
  by (induction acc s rule: digits_value.induct) simp_all

lemma digits_value_decimal: "digits_value 0 (decimal n) = Some (int n)"
proof (induction n rule: decimal.induct)
  case (1 n)
  show ?case
  proof (cases "n < 10")
    case True
    then show ?thesis by (subst decimal.simps) (simp add: digit_char digit_char_is)
  next
    case False
    have "int (n div 10) * 10 + int (n mod 10) = int n" by (metis div_mult_mod_eq of_nat_add of_nat_mult of_nat_numeral)
    then show ?thesis using 1 [OF False] False
      by (subst decimal.simps) (simp add: digits_value_append digit_char digit_char_is)
  qed
qed

lemma digits_value_mono: "digits_value acc s = Some v \<Longrightarrow> 0 \<le> acc \<Longrightarrow> acc \<le> v"
proof (induction acc s rule: digits_value.induct)
  case (2 acc c s)
  then have d: "is_ascii_digit c" "digits_value (acc * 10 + (of_char c - 48)) s = Some v" by (auto split: if_splits)
  from d(1) have "0 \<le> (of_char c :: int) - 48" by (simp add: is_ascii_digit_def)
  with 2 d show ?case by auto
qed simp

lemma digits_u32_value: "digits_value acc s = Some v \<Longrightarrow> 0 \<le> acc \<Longrightarrow> v < 2 ^ 32 \<Longrightarrow> digits_u32 acc s = Some v"
proof (induction acc s rule: digits_value.induct)
  case (2 acc c s)
  then have d: "is_ascii_digit c" "digits_value (acc * 10 + (of_char c - 48)) s = Some v" by (auto split: if_splits)
  from d(1) have "0 \<le> (of_char c :: int) - 48" by (simp add: is_ascii_digit_def)
  moreover from this have "acc * 10 + (of_char c - 48) \<le> v" using digits_value_mono [OF d(2)] 2(3) by simp
  ultimately show ?case using 2 d by (simp add: Let_def)
qed simp

lemma digit_graphic: "is_ascii_digit c \<Longrightarrow> is_ascii_graphic c"
  by (simp add: is_ascii_digit_def is_ascii_graphic_def)

lemma digit_neq: "is_ascii_digit c \<Longrightarrow> c \<noteq> CHR ''-'' \<and> c \<noteq> CHR ''+'' \<and> c \<noteq> CHR ''#'' \<and> c \<noteq> CHR '','' \<and> c \<noteq> CHR ''='' \<and>
    c \<noteq> CHR ''.'' \<and> c \<noteq> newline \<and> c \<noteq> char_of (13 :: int)"
  by (auto simp: is_ascii_digit_def newline_def of_char_of)

lemma decimal_head: "is_ascii_digit (hd (decimal n))" "is_ascii_digit (last (decimal n))"
  using decimal_digits [of n] by (simp_all add: list_all_iff hd_in_set last_in_set)

lemma decimal_Cons: obtains c s where "decimal n = c # s" "is_ascii_digit c"
  using decimal_head(1) [of n] by (cases "decimal n") auto

lemma parse_u32_decimal: "n < 4294967296 \<Longrightarrow> parse_u32 (decimal n) = Some n"
proof -
  assume n: "n < 4294967296"
  obtain c s where d: "decimal n = c # s" "is_ascii_digit c" by (rule decimal_Cons)
  have "digits_u32 0 (decimal n) = Some (int n)" using n by (intro digits_u32_value digits_value_decimal) simp_all
  then show ?thesis using d digit_neq [OF d(2)] by (simp add: parse_u32_def)
qed

lemma parse_i32_decimal: "i32_min \<le> x \<Longrightarrow> x \<le> i32_max \<Longrightarrow> parse_i32 (signed_decimal x) = Some x"
proof -
  assume x: "i32_min \<le> x" "x \<le> i32_max"
  show ?thesis
  proof (cases "x < 0")
    case True
    then show ?thesis using x by (simp add: signed_decimal_def parse_i32_def digits_value_decimal i32_of_int_def)
  next
    case False
    obtain c s where d: "decimal (nat x) = c # s" "is_ascii_digit c" by (rule decimal_Cons)
    have "digits_value 0 (c # s) = Some x" using digits_value_decimal [of "nat x"] d False by simp
    then show ?thesis using False x d digit_neq [OF d(2)] by (simp add: signed_decimal_def parse_i32_def i32_of_int_def)
  qed
qed

section \<open>Trimmed text\<close>

lemma white_space_bytes: "list_all (\<lambda>w. w \<noteq> [] \<and> list_all (\<lambda>c. \<not> is_ascii_graphic c) w) white_space"
  by code_simp

lemma strip_start_suffix: "\<exists>p. s = p @ strip_start ws s"
proof (induction ws s rule: strip_start.induct)
  case (1 ws s)
  show ?case
  proof (cases "find (\<lambda>w. w \<noteq> [] \<and> take (length w) s = w) ws")
    case None
    then show ?thesis by (subst strip_start.simps) simp
  next
    case (Some w)
    then obtain p where "drop (length w) s = p @ strip_start ws (drop (length w) s)" using 1 by blast
    then have "s = (take (length w) s @ p) @ strip_start ws (drop (length w) s)" by (metis append_assoc append_take_drop_id)
    moreover have "strip_start ws s = strip_start ws (drop (length w) s)" using Some by (subst strip_start.simps) simp
    ultimately show ?thesis by metis
  qed
qed

lemma strip_start_Nil [simp]: "strip_start ws [] = []"
  using strip_start_suffix [of "[]" ws] by simp

lemma strip_start_fixed:
  "strip_start ws s = s \<longleftrightarrow> find (\<lambda>w. w \<noteq> [] \<and> take (length w) s = w) ws = None"
proof (cases "find (\<lambda>w. w \<noteq> [] \<and> take (length w) s = w) ws")
  case None
  then show ?thesis by (subst strip_start.simps) simp
next
  case (Some w)
  then have w: "w \<noteq> []" "take (length w) s = w" by (auto simp: find_Some_iff)
  obtain p where "drop (length w) s = p @ strip_start ws (drop (length w) s)" using strip_start_suffix by blast
  then have "length (strip_start ws (drop (length w) s)) \<le> length (drop (length w) s)" by (metis length_append le_add2)
  moreover have "length (drop (length w) s) < length s" using w by (cases s) auto
  moreover have "strip_start ws s = strip_start ws (drop (length w) s)" using Some by (subst strip_start.simps) simp
  ultimately show ?thesis using Some by auto
qed

text \<open>A text that begins with a trimmed part and a graphic byte has nothing to trim at its start.\<close>

lemma strip_start_prefix:
  assumes fixed: "strip_start ws p = p" and graphic: "is_ascii_graphic c"
    and ws: "\<forall>w \<in> set ws. \<forall>b \<in> set w. \<not> is_ascii_graphic b"
  shows "strip_start ws (p @ c # s) = p @ c # s"
proof -
  have "\<not> (w \<noteq> [] \<and> take (length w) (p @ c # s) = w)" if w: "w \<in> set ws" for w
  proof
    assume a: "w \<noteq> [] \<and> take (length w) (p @ c # s) = w"
    show False
    proof (cases "length w \<le> length p")
      case True
      then have "take (length w) p = w" using a by simp
      then show False using fixed w a unfolding strip_start_fixed by (auto simp: find_None_iff)
    next
      case False
      then have "c \<in> set (take (length w) (p @ c # s))" by (simp add: take_Cons')
      then have "c \<in> set w" using a by metis
      then show False using ws w graphic by blast
    qed
  qed
  then show ?thesis unfolding strip_start_fixed by (auto simp: find_None_iff)
qed

lemma trim_parts: "trim s = s \<longleftrightarrow> trim_start s = s \<and> trim_end s = s"
proof
  assume a: "trim s = s"
  obtain p where p: "s = p @ trim_start s" using strip_start_suffix [of s] unfolding trim_start_def by blast
  obtain q where q: "rev (trim_start s) = q @ strip_start (map rev white_space) (rev (trim_start s))"
    using strip_start_suffix by blast
  then have "trim_start s = trim_end (trim_start s) @ rev q" unfolding trim_end_def by (metis rev_append rev_rev_ident)
  then have "trim_start s = s @ rev q" using a by (simp add: trim_def)
  from arg_cong [OF this, of length] arg_cong [OF p, of length] have "length p = 0 \<and> length q = 0" by simp
  then show "trim_start s = s \<and> trim_end s = s" using p a by (auto simp: trim_def)
qed (simp add: trim_def)

lemma trim_name_first:
  assumes "trim name = name" "is_ascii_graphic c" "is_ascii_graphic d"
  shows "trim (name @ c # s @ [d]) = name @ c # s @ [d]"
proof -
  have bytes: "\<forall>w \<in> set white_space. \<forall>b \<in> set w. \<not> is_ascii_graphic b" using white_space_bytes by (auto simp: list_all_iff)
  have "trim_start (name @ c # s @ [d]) = name @ c # s @ [d]"
    using assms(1,2) bytes unfolding trim_start_def trim_parts by (intro strip_start_prefix) (simp_all add: trim_start_def)
  moreover have "\<forall>w \<in> set (map rev white_space). w \<noteq> [] \<and> hd w \<noteq> d"
    using white_space_edges assms(3) by (auto simp: list_all_iff hd_rev)
  then have "trim_end (name @ c # s @ [d]) = name @ c # s @ [d]"
    using strip_start_ascii [of "map rev white_space" d "rev (name @ c # s)"] by (simp add: trim_end_def)
  ultimately show ?thesis unfolding trim_parts by blast
qed

lemma trim_name_last:
  assumes "trim name = name" "is_ascii_graphic c" "is_ascii_graphic d"
  shows "trim (d # s @ c # name) = d # s @ c # name"
proof -
  have bytes: "\<forall>w \<in> set (map rev white_space). \<forall>b \<in> set w. \<not> is_ascii_graphic b" using white_space_bytes by (auto simp: list_all_iff)
  have "strip_start (map rev white_space) (rev name) = rev name"
    using assms(1) unfolding trim_parts by (metis rev_swap trim_end_def)
  then have "strip_start (map rev white_space) (rev name @ c # rev (d # s)) = rev name @ c # rev (d # s)"
    using assms(2) bytes by (intro strip_start_prefix)
  then have "trim_end (d # s @ c # name) = d # s @ c # name" by (simp add: trim_end_def)
  moreover have "\<forall>w \<in> set white_space. w \<noteq> [] \<and> hd w \<noteq> d"
    using white_space_edges assms(3) by (auto simp: list_all_iff)
  then have "trim_start (d # s @ c # name) = d # s @ c # name" unfolding trim_start_def by (rule strip_start_ascii)
  ultimately show ?thesis unfolding trim_parts by blast
qed

section \<open>Scales\<close>

lemma digits_value_acc:
  "list_all is_ascii_digit s \<Longrightarrow> \<exists>v. \<forall>acc. digits_value acc s = Some (acc * 10 ^ length s + v)"
proof (induction s)
  case (Cons c s)
  then obtain v where v: "\<forall>acc. digits_value acc s = Some (acc * 10 ^ length s + v)" by auto
  show ?case
    by (rule exI [of _ "(of_char c - 48) * 10 ^ length s + v"]) (use Cons.prems v in \<open>simp add: algebra_simps\<close>)
qed simp

lemma digits_value_zeros: "digits_value acc (replicate k CHR ''0'') = Some (acc * 10 ^ k)"
  by (induction k arbitrary: acc) (simp_all add: is_ascii_digit_def)

lemma decimal_length: "n < 10 ^ k \<Longrightarrow> 0 < k \<Longrightarrow> length (decimal n) \<le> k"
proof (induction n arbitrary: k rule: decimal.induct)
  case (1 n)
  show ?case
  proof (cases "n < 10")
    case True
    then show ?thesis using 1(3) by (subst decimal.simps) simp
  next
    case False
    then obtain j where j: "k = Suc j" "0 < j" using 1(2,3) by (cases k; cases "k = 1") auto
    then have "length (decimal (n div 10)) \<le> j" using 1(2) by (intro 1(1) [OF False]) (simp_all add: less_mult_imp_div_less mult.commute)
    then show ?thesis using False j by (subst decimal.simps) simp
  qed
qed

definition pad6 :: "nat \<Rightarrow> string" where
  "pad6 n = replicate (6 - length (decimal n)) CHR ''0'' @ decimal n"

lemma pad6_length: "n < 10 ^ 6 \<Longrightarrow> length (pad6 n) = 6"
  using decimal_length [of n 6] by (simp add: pad6_def)

lemma pad6_digits: "list_all is_ascii_digit (pad6 n)"
  using decimal_digits [of n] by (auto simp: pad6_def list_all_iff is_ascii_digit_def)

lemma pad6_value: "digits_value 0 (pad6 n) = Some (int n)"
  by (simp add: pad6_def digits_value_append digits_value_zeros digits_value_decimal)

lemma split6_value: "digits_value 0 (decimal (d div 10 ^ 6) @ pad6 (d mod 10 ^ 6)) = Some (int d)"
proof -
  obtain v where v: "\<forall>acc. digits_value acc (pad6 (d mod 10 ^ 6)) = Some (acc * 10 ^ length (pad6 (d mod 10 ^ 6)) + v)"
    using digits_value_acc [OF pad6_digits] by blast
  have "v = int (d mod 10 ^ 6)" using pad6_value [of "d mod 10 ^ 6"] v by simp
  moreover have "int (d div 10 ^ 6) * 10 ^ 6 + int (d mod 10 ^ 6) = int d"
    using arg_cong [OF div_mult_mod_eq [of d "10 ^ 6"], of int] by (simp only: of_nat_add of_nat_mult of_nat_power of_nat_numeral)
  ultimately show ?thesis using v pad6_length [of "d mod 10 ^ 6"] by (simp add: digits_value_append digits_value_decimal)
qed

text \<open>Popping the zeros of a fraction.\<close>

lemma pop_zeros_fraction:
  assumes "c \<noteq> CHR ''0''"
  shows "\<exists>f' k. f = f' @ replicate k CHR ''0'' \<and> pop_zeros (rev (x @ c # f)) = rev (x @ c # f') \<and> (f' = [] \<or> last f' \<noteq> CHR ''0'')"
proof (induction f rule: rev_induct)
  case Nil
  show ?case using assms by (intro exI [of _ "[]"] exI [of _ 0]) (simp add: pop_zeros.simps)
next
  case (snoc d f)
  show ?case
  proof (cases "d = CHR ''0''")
    case True
    obtain f' k where IH: "f = f' @ replicate k CHR ''0''" "pop_zeros (rev (x @ c # f)) = rev (x @ c # f')" "f' = [] \<or> last f' \<noteq> CHR ''0''"
      using snoc by blast
    have "pop_zeros (rev (x @ c # f @ [d])) = rev (x @ c # f')" using IH(2) True by (subst pop_zeros.simps) simp
    moreover have "f @ [d] = f' @ replicate (Suc k) CHR ''0''" using IH(1) True by (simp add: replicate_append_same [symmetric])
    ultimately show ?thesis using IH(3) by blast
  next
    case False
    have "pop_zeros (rev (x @ c # f @ [d])) = rev (x @ c # f @ [d])" using False by (subst pop_zeros.simps) simp
    then show ?thesis using False by (intro exI [of _ "f @ [d]"] exI [of _ 0]) simp
  qed
qed

lemma number_parts_point:
  "list_all is_ascii_digit w \<Longrightarrow> list_all is_ascii_digit f \<Longrightarrow> number_parts (w @ CHR ''.'' # f) = (w, f, [])"
  "list_all is_ascii_digit w \<Longrightarrow> number_parts w = (w, [], [])"
  by (simp_all add: number_parts_def list_all_iff takeWhile_append dropWhile_append is_ascii_digit_def [of "CHR ''.''"]
      takeWhile_eq_all_conv [THEN iffD2] dropWhile_eq_Nil_conv [THEN iffD2])

lemma parse_decimal_text:
  assumes w: "list_all is_ascii_digit w" "w \<noteq> []" and f: "list_all is_ascii_digit f"
    and v: "digits_value 0 (w @ f @ replicate k CHR ''0'') = Some (int d)"
  shows "parse_f64 (if f = [] then w else w @ CHR ''.'' # f) = Some (f64_round (of_nat d / 10 ^ (length f + k)))"
proof -
  obtain c s where c: "w = c # s" "is_ascii_digit c" using w by (cases w) auto
  let ?t = "if f = [] then w else w @ CHR ''.'' # f"
  obtain d' where d': "digits_value 0 (w @ f) = Some d'" "int d = d' * 10 ^ k"
  proof -
    have "list_all is_ascii_digit (w @ f)" using w f by simp
    then obtain v0 where "digits_value 0 (w @ f) = Some v0" using digits_value_acc by fastforce
    then show thesis using that v by (simp add: digits_value_append [of 0 "w @ f", simplified] digits_value_zeros)
  qed
  have "(of_nat d :: rat) = of_int d' * 10 ^ k" using d'(2) by (metis of_int_mult of_int_numeral of_int_of_nat_eq of_int_power)
  then have q: "(of_nat d :: rat) / 10 ^ (length f + k) = of_int d' / 10 ^ length f" by (simp add: power_add)
  have head: "\<exists>s'. ?t = c # s'" using c by simp
  have lower: "to_ascii_lowercase ?t \<noteq> ''inf''" "to_ascii_lowercase ?t \<noteq> ''infinity''" "to_ascii_lowercase ?t \<noteq> ''nan''"
    using c by (auto simp: to_ascii_lowercase_def char_lowercase_def is_ascii_uppercase_def is_ascii_digit_def)
  have "number_parts ?t = (w, f, [])" using number_parts_point w f by auto
  then have "unsigned_f64 ?t = Some (f64_round (of_int d' / 10 ^ length f))"
    using lower w(2) d'(1) by (simp add: unsigned_f64_def parse_exponent_def)
  then show ?thesis unfolding q using head digit_neq [OF c(2)] by (auto simp: parse_f64_def)
qed

lemma scale_bounds: "scale_120_of (Fin (1 / 4)) = 30" "scale_120_of (Fin 8) = 960"
proof -
  have "\<lfloor>61 / 2 :: rat\<rfloor> = 30" "\<lfloor>1921 / 2 :: rat\<rfloor> = 960" by (rule floor_unique; simp)+
  then show "scale_120_of (Fin (1 / 4)) = 30" "scale_120_of (Fin 8) = 960"
    by (simp_all add: scale_120_of_def SCALE_BASE_def round_half_away_def rat_trunc_def)
qed

text \<open>The text of a scale, and what it reads as: within the half step that rounding forgives.\<close>

lemma format_output_scale_parse:
  assumes v: "f64_div (Fin (of_nat s)) (Fin (of_nat SCALE_BASE)) = Fin v" and d: "d = nat (round_half_even (v * 10 ^ 6))"
  shows "parse_f64 (format_output_scale s) = Some (f64_round (of_nat d / 10 ^ 6))"
    and "list_all (\<lambda>c. is_ascii_digit c \<or> c = CHR ''.'') (format_output_scale s)" and "format_output_scale s \<noteq> []"
    and "is_ascii_digit (last (format_output_scale s))" "is_ascii_digit (hd (format_output_scale s))"
proof -
  let ?w = "decimal (d div 10 ^ 6)" and ?f = "pad6 (d mod 10 ^ 6)"
  have shape: "f64_fixed6 (Fin v) = ?w @ CHR ''.'' # ?f" by (simp add: fixed6_def Let_def pad6_def d)
  obtain f' k where f: "?f = f' @ replicate k CHR ''0''" "pop_zeros (rev (?w @ CHR ''.'' # ?f)) = rev (?w @ CHR ''.'' # f')"
    using pop_zeros_fraction [of "CHR ''.''" ?f ?w] by blast
  have digits: "list_all is_ascii_digit f'" using pad6_digits [of "d mod 10 ^ 6"] f(1) by simp
  have len: "length f' + k = 6" using pad6_length [of "d mod 10 ^ 6"] f(1) by simp
  have eq: "format_output_scale s = (if f' = [] then ?w else ?w @ CHR ''.'' # f')"
    using digits digit_neq unfolding format_output_scale_def v shape f(2) Let_def
    by (cases f' rule: rev_cases) auto
  have "digits_value 0 (?w @ f' @ replicate k CHR ''0'') = Some (int d)" using split6_value [of d] f(1) by simp
  from parse_decimal_text [OF decimal_digits decimal_not_Nil digits this]
  show "parse_f64 (format_output_scale s) = Some (f64_round (of_nat d / 10 ^ 6))" unfolding eq len .
  show "list_all (\<lambda>c. is_ascii_digit c \<or> c = CHR ''.'') (format_output_scale s)"
    using decimal_digits [of "d div 10 ^ 6"] digits by (auto simp: eq list_all_iff)
  show "format_output_scale s \<noteq> []" by (simp add: eq)
  show "is_ascii_digit (last (format_output_scale s))" "is_ascii_digit (hd (format_output_scale s))"
    using decimal_head digits by (auto simp: eq list_all_iff)
qed

lemma scale_text_value:
  assumes "30 \<le> s" "s \<le> 960"
  obtains x where "parse_f64 (format_output_scale s) = Some (Fin x)" "1 / 4 \<le> x" "x \<le> 8" "abs (x - of_nat s / 120) \<le> 1 / 1024"
proof -
  have s: "30 \<le> (of_nat s :: rat)" "(of_nat s :: rat) \<le> 960" using assms by simp_all
  obtain v where v: "f64_round (of_nat s / 120) = Fin v" "of_nat s / 120 - 1 / 4096 \<le> v" "v \<le> of_nat s / 120 + 1 / 4096"
    using s by (rule_tac f64_round_close [of "of_nat s / 120"]) simp_all
  define r where "r = round_half_even (v * 10 ^ 6)"
  have r: "v * 10 ^ 6 - 1 / 2 \<le> of_int r" "of_int r \<le> v * 10 ^ 6 + 1 / 2"
    using round_half_even_error [of "v * 10 ^ 6"] unfolding r_def abs_le_iff by linarith+
  have "0 \<le> v" using v(2) s by simp
  then have "0 \<le> r" unfolding r_def by (simp add: round_half_even_def Let_def)
  then have d: "(of_nat (nat r) :: rat) = of_int r" by simp
  obtain x where x: "f64_round (of_int r / 10 ^ 6) = Fin x" "of_int r / 10 ^ 6 - 1 / 4096 \<le> x" "x \<le> of_int r / 10 ^ 6 + 1 / 4096"
    using s v r by (rule_tac f64_round_close [of "of_int r / 10 ^ 6"]) simp_all
  have "f64_div (Fin (of_nat s)) (Fin (of_nat SCALE_BASE)) = Fin v" using v(1) by (simp add: SCALE_BASE_def)
  from format_output_scale_parse(1) [OF this refl] have parsed: "parse_f64 (format_output_scale s) = Some (Fin x)"
    using x(1) d by (simp add: r_def)
  have "v - 1 / 2000000 \<le> of_int r / 10 ^ 6" "of_int r / 10 ^ 6 \<le> v + 1 / 2000000" using r by (simp_all add: field_simps)
  then have close: "abs (x - of_nat s / 120) \<le> 1 / 1024" using v(2,3) x(2,3) unfolding abs_le_iff by linarith
  have "1 / 4 \<le> x \<and> x \<le> 8"
  proof (cases "s = 30 \<or> s = 960")
    case True
    have quarter: "f64_round (1 / 4) = Fin (1 / 4)" using f64_round_dyadic [of 1024] by simp
    have "v = 1 / 4 \<or> v = 8" using True v(1) quarter by auto
    then have "v * 10 ^ 6 = 250000 \<or> v * 10 ^ 6 = 8000000" by auto
    moreover have "round_half_even 250000 = 250000" "round_half_even 8000000 = 8000000"
      using round_half_even_int [of 250000] round_half_even_int [of 8000000] by simp_all
    ultimately have "r = 250000 \<or> r = 8000000" unfolding r_def by metis
    then have "Fin x = Fin (1 / 4) \<or> Fin x = Fin 8" using x(1) quarter by auto
    then show ?thesis by auto
  next
    case False
    then have "31 \<le> s" "s \<le> 959" using assms by linarith+
    then have "31 \<le> (of_nat s :: rat)" "(of_nat s :: rat) \<le> 959" by simp_all
    then show ?thesis using close unfolding abs_le_iff by linarith
  qed
  with parsed close show thesis using that by blast
qed

lemma scale_round_trip:
  assumes "30 \<le> s" "s \<le> 960"
  obtains f where "parse_f64 (format_output_scale s) = Some f" "scale_acceptable f" "scale_120_of f = s"
proof -
  obtain x where x: "parse_f64 (format_output_scale s) = Some (Fin x)" "1 / 4 \<le> x" "x \<le> 8" "abs (x - of_nat s / 120) \<le> 1 / 1024"
    using scale_text_value [OF assms] .
  obtain y where y: "f64_round (x * 120) = Fin y" "x * 120 - 1 / 4096 \<le> y" "y \<le> x * 120 + 1 / 4096"
    using x by (rule_tac f64_round_close [of "x * 120"]) simp_all
  have y': "of_nat s - 1 / 2 < y" "y < of_nat s + 1 / 2" using x(4) y(2,3) unfolding abs_le_iff by linarith+
  have "(0 :: rat) \<le> y" using y' assms by linarith
  moreover have "\<lfloor>y + 1 / 2\<rfloor> = int s" using y' by (intro floor_unique) simp_all
  ultimately have "round_half_away y = int s" by (simp add: round_half_away_def)
  then have "scale_120_of (Fin x) = s" using y(1) assms by (simp add: scale_120_of_def SCALE_BASE_def rat_trunc_def)
  moreover have "scale_acceptable (Fin x)" using x by (simp add: scale_acceptable_def)
  ultimately show thesis using that x(1) by blast
qed

section \<open>Lines\<close>

lemma lines_of_Nil [simp]: "lines_of [] = []"
  by (simp add: lines_of.simps)

lemma lines_of_line: "newline \<notin> set l \<Longrightarrow> lines_of (l @ newline # s) = strip_cr l # lines_of s"
proof -
  assume "newline \<notin> set l"
  then have "split_once newline (l @ newline # s) = Some (l, s)" by (simp add: split_once_Some)
  then show ?thesis by (subst lines_of.simps) simp
qed

lemma lines_of_join:
  "ls \<noteq> [] \<Longrightarrow> \<forall>l \<in> set ls. newline \<notin> set l \<Longrightarrow> lines_of (join_with newline ls @ [newline]) = map strip_cr ls"
  by (induction newline ls rule: join_with.induct) (use lines_of_line [of _ "[]"] in \<open>auto simp: lines_of_line\<close>)

lemma lines_of_no_newline: "l \<in> set (lines_of s) \<Longrightarrow> newline \<notin> set l"
proof (induction s rule: lines_of.induct)
  case (1 s)
  show ?case
  proof (cases "split_once newline s")
    case None
    then have "newline \<notin> set s" by (induction s) (auto split: if_splits)
    then show ?thesis using 1(2) None by (simp add: lines_of.simps [of s] split: if_splits)
  next
    case (Some x)
    obtain line rest where x: "x = (line, rest)" by fastforce
    have "newline \<notin> set line" using Some x by (simp add: split_once_Some)
    then have "newline \<notin> set (strip_cr line)" by (auto simp: strip_cr_def dest: in_set_butlastD)
    then show ?thesis using 1(1) [OF Some x [symmetric]] 1(2) Some x by (auto simp: lines_of.simps [of s])
  qed
qed

text \<open>A carriage return at the end of a line changes nothing, because lines are trimmed.\<close>

abbreviation carriage_return :: char where
  "carriage_return \<equiv> char_of (13 :: int)"

lemma white_space_cr: "list_all (\<lambda>w. w = [carriage_return] \<or> carriage_return \<notin> set w) white_space" "[carriage_return] \<in> set white_space"
  by code_simp+

lemma strip_start_cr: "strip_start (map rev white_space) (carriage_return # s) = strip_start (map rev white_space) s"
proof -
  let ?P = "\<lambda>w. w \<noteq> [] \<and> take (length w) (carriage_return # s) = w"
  have "find ?P (map rev white_space) = Some [carriage_return]"
  proof (rule find_unique)
    show "[carriage_return] \<in> set (map rev white_space)" using white_space_cr(2) by force
    show "w = [carriage_return]" if "w \<in> set (map rev white_space)" "?P w" for w
    proof -
      have "carriage_return \<in> set w" using that(2) by (cases w) auto
      then show ?thesis using that(1) white_space_cr(1) by (auto simp: list_all_iff)
    qed
  qed simp
  then show ?thesis by (subst strip_start.simps) simp
qed

lemma strip_start_snoc_cr:
  "strip_start white_space (s @ [carriage_return]) =
     (if strip_start white_space s = [] then [] else strip_start white_space s @ [carriage_return])"
proof (induction "length s" arbitrary: s rule: less_induct)
  case less
  have cr: "strip_start white_space [carriage_return] = []"
  proof -
    have "find (\<lambda>w. w \<noteq> [] \<and> take (length w) [carriage_return] = w) white_space = Some [carriage_return]"
      using white_space_cr by (intro find_unique) (auto simp: list_all_iff take_Cons' split: if_splits)
    then show ?thesis by (subst strip_start.simps) simp
  qed
  show ?case
  proof (cases "s = []")
    case True
    then show ?thesis using cr by simp
  next
    case False
    have "(w \<noteq> [] \<and> take (length w) (s @ [carriage_return]) = w) = (w \<noteq> [] \<and> take (length w) s = w)" if "w \<in> set white_space" for w
    proof (cases "length w \<le> length s")
      case shorter: False
      then have "length w = Suc (length s) \<or> take (length w) (s @ [carriage_return]) = s @ [carriage_return]" by auto
      then have "take (length w) (s @ [carriage_return]) = s @ [carriage_return]" by auto
      then have "take (length w) (s @ [carriage_return]) \<noteq> w" using that white_space_cr(1) False by (auto simp: list_all_iff)
      moreover have "take (length w) s \<noteq> w" using shorter by (auto dest: arg_cong [of _ _ length])
      ultimately show ?thesis by simp
    qed simp
    then have same: "find (\<lambda>w. w \<noteq> [] \<and> take (length w) (s @ [carriage_return]) = w) white_space =
        find (\<lambda>w. w \<noteq> [] \<and> take (length w) s = w) white_space" by (rule find_cong [OF refl])
    show ?thesis
    proof (cases "find (\<lambda>w. w \<noteq> [] \<and> take (length w) s = w) white_space")
      case None
      then show ?thesis using same False by (simp add: strip_start.simps [of _ s] strip_start.simps [of _ "s @ [carriage_return]"])
    next
      case (Some w)
      then have w: "w \<noteq> []" "take (length w) s = w" by (auto simp: find_Some_iff)
      then have "length w \<le> length s" by (metis length_take min.cobounded1)
      then show ?thesis using less [of "drop (length w) s"] w same Some False
        by (simp add: strip_start.simps [of _ s] strip_start.simps [of _ "s @ [carriage_return]"])
    qed
  qed
qed

lemma trim_cr: "trim (s @ [carriage_return]) = trim s"
  by (simp add: trim_def trim_start_def trim_end_def strip_start_snoc_cr strip_start_cr)

lemma cr_not_hash: "carriage_return \<noteq> CHR ''#''"
  by code_simp

lemma line_content_strip_cr: "line_content (strip_cr l) = line_content l"
proof (cases "l \<noteq> [] \<and> last l = carriage_return")
  case True
  then obtain s where l: "l = s @ [carriage_return]" by (metis append_butlast_last_id)
  have "split_once CHR ''#'' (s @ [carriage_return]) = map_option (\<lambda>(a, b). (a, b @ [carriage_return])) (split_once CHR ''#'' s)"
    using cr_not_hash by (induction s) (auto simp: option.map_comp comp_def case_prod_beta)
  then show ?thesis using l by (auto simp: line_content_def strip_cr_def trim_cr split: option.splits)
qed (auto simp: strip_cr_def)

section \<open>What a parsed file holds\<close>

datatype config_entry =
    EPrimary string
  | EBar system_bar_options
  | EPadding f64
  | EPosition string logical_point
  | ESize string "nat \<times> nat"
  | ERefresh string nat
  | EScale string nat
  | ETransform string output_transform
  | EAxis string scrolling_layout_axis
  | EVrr string
  | EDisabled string

fun holds :: "output_config \<Rightarrow> config_entry \<Rightarrow> bool" where
  "holds c (EPrimary name) = (cfg_primary_output c = Some name)"
| "holds c (EBar bar) = (cfg_system_bar c = Some bar)"
| "holds c (EPadding padding) = (cfg_maximize_padding c = Some padding)"
| "holds c (EPosition name p) = (map_of (cfg_positions c) name = Some p)"
| "holds c (ESize name size') = (map_of (cfg_mode_sizes c) name = Some size')"
| "holds c (ERefresh name r) = (map_of (cfg_refresh_millihz c) name = Some r)"
| "holds c (EScale name s) = (map_of (cfg_scales_120 c) name = Some s)"
| "holds c (ETransform name t) = (map_of (cfg_transforms c) name = Some t)"
| "holds c (EAxis name a) = (map_of (cfg_scrolling_layout_axes c) name = Some a)"
| "holds c (EVrr name) = (name \<in> set (cfg_vrr_outputs c))"
| "holds c (EDisabled name) = (name \<in> set (cfg_disabled_outputs c))"

fun directive_entries :: "directive \<Rightarrow> config_entry set" where
  "directive_entries (PrimaryIs name) = {EPrimary name}"
| "directive_entries (SystemBarIs bar) = {EBar bar}"
| "directive_entries (MaximizePaddingIs padding) = {EPadding padding}"
| "directive_entries (ModeIs name w h r) = {ESize name (w, h), ERefresh name r}"
| "directive_entries (ScaleIs name s) = {EScale name s}"
| "directive_entries (TransformIs name t) = {ETransform name t}"
| "directive_entries (AxisIs name a) = {EAxis name a}"
| "directive_entries (DisabledIs name) = {EDisabled name}"
| "directive_entries (VrrIs name) = {EVrr name}"
| "directive_entries (PositionIs name p r) = insert (EPosition name p) (ERefresh name ` set_option r)"

definition line_directive :: "string \<Rightarrow> directive option" where
  "line_directive raw_line = (if line_content raw_line = [] then None
     else case parse_directive (line_content raw_line) of Inr d \<Rightarrow> Some d | Inl _ \<Rightarrow> None)"

definition line_entries :: "string \<Rightarrow> config_entry set" where
  "line_entries raw_line = (case line_directive raw_line of Some d \<Rightarrow> directive_entries d | None \<Rightarrow> {})"

text \<open>The key of a line that reads as a directive.\<close>

fun directive_key :: "directive \<Rightarrow> string option" where
  "directive_key (PrimaryIs _) = Some ''primary''"
| "directive_key (SystemBarIs _) = Some ''system_bar''"
| "directive_key (MaximizePaddingIs _) = Some ''maximize_padding''"
| "directive_key (ModeIs _ _ _ _) = Some ''mode''"
| "directive_key (ScaleIs _ _) = Some ''scale''"
| "directive_key (TransformIs _ _) = Some ''transform''"
| "directive_key (AxisIs _ _) = Some ''scrolling_axis''"
| "directive_key (DisabledIs _) = Some ''disabled''"
| "directive_key (VrrIs _) = Some ''vrr''"
| "directive_key (PositionIs name _ _) = Some name"

definition reserved_keys :: "string list" where
  "reserved_keys = [''primary'', ''system_bar'', ''maximize_padding'', ''mode'', ''scale'', ''transform'', ''scrolling_axis'',
     ''disabled'', ''vrr'']"

lemma map_sum_Inr: "map_sum id f x = Inr y \<longleftrightarrow> (\<exists>z. x = Inr z \<and> y = f z)"
  by (cases x) auto

lemma position_key:
  assumes "parse_output_config_entry line = Inr (name, q)"
  shows "line_key line = Some name"
  using assms unfolding parse_output_config_entry_def line_key_def Let_def
  by (simp split: option.splits if_splits prod.splits list.splits)

lemma parse_directive_key:
  assumes "parse_directive line = Inr d"
  shows "line_key line = directive_key d" "d = PositionIs name p r \<Longrightarrow> name \<notin> set reserved_keys"
proof -
  show "line_key line = directive_key d"
    using assms unfolding parse_directive_def Let_def
    by (simp add: map_sum_Inr split: if_splits sum.splits) (auto dest: position_key)
  show "name \<notin> set reserved_keys" if d: "d = PositionIs name p r"
  proof
    assume r: "name \<in> set reserved_keys"
    have "line_key line = Some name" using \<open>line_key line = directive_key d\<close> d by simp
    then show False using assms d r unfolding parse_directive_def Let_def reserved_keys_def
      by (auto simp: map_sum_Inr split: if_splits sum.splits)
  qed
qed

lemma add_directive_holds:
  assumes "add_directive c d = Inr c'" and "cfg_primary_output c = None \<or> \<not> (\<exists>name. d = PrimaryIs name)"
    and "cfg_system_bar c = None \<or> \<not> (\<exists>bar. d = SystemBarIs bar)" and "cfg_maximize_padding c = None \<or> \<not> (\<exists>p. d = MaximizePaddingIs p)"
  shows "holds c' e \<longleftrightarrow> holds c e \<or> e \<in> directive_entries d"
  using assms by (cases d; cases e) (auto simp: has_key_def split: if_splits option.splits)

lemma parse_line_directive:
  assumes "line_directive raw_line = Some d" and "cfg_primary_output c = None \<or> directive_key d \<noteq> Some ''primary''"
    and "cfg_system_bar c = None \<or> directive_key d \<noteq> Some ''system_bar''"
    and "cfg_maximize_padding c = None \<or> directive_key d \<noteq> Some ''maximize_padding''"
  shows "parse_line c raw_line = add_directive c d"
proof -
  have d: "line_content raw_line \<noteq> []" "parse_directive (line_content raw_line) = Inr d"
    using assms(1) by (auto simp: line_directive_def split: if_splits sum.splits)
  then show ?thesis using parse_directive_key(1) [OF d(2)] assms(2-4) by (auto simp: parse_line_def repeated_single_def)
qed

lemma parse_line_holds:
  assumes "parse_line c raw_line = Inr c'"
  shows "holds c' e \<longleftrightarrow> holds c e \<or> e \<in> line_entries raw_line"
    and "line_content raw_line = [] \<or> line_directive raw_line \<noteq> None"
proof -
  let ?line = "line_content raw_line"
  show "line_content raw_line = [] \<or> line_directive raw_line \<noteq> None"
    using assms by (auto simp: parse_line_def line_directive_def Let_def split: if_splits sum.splits)
  show "holds c' e \<longleftrightarrow> holds c e \<or> e \<in> line_entries raw_line"
  proof (cases "?line = []")
    case True
    then show ?thesis using assms by (simp add: parse_line_def line_entries_def line_directive_def)
  next
    case False
    then obtain d where d: "parse_directive ?line = Inr d" "add_directive c d = Inr c'" and once: "\<not> repeated_single c ?line"
      using assms by (auto simp: parse_line_def Let_def split: if_splits sum.splits)
    have "line_entries raw_line = directive_entries d" using False d(1) by (simp add: line_entries_def line_directive_def)
    moreover have "cfg_primary_output c = None \<or> \<not> (\<exists>name. d = PrimaryIs name)"
      "cfg_system_bar c = None \<or> \<not> (\<exists>bar. d = SystemBarIs bar)" "cfg_maximize_padding c = None \<or> \<not> (\<exists>p. d = MaximizePaddingIs p)"
      using once parse_directive_key(1) [OF d(1)] by (auto simp: repeated_single_def)
    ultimately show ?thesis using add_directive_holds [OF d(2)] by simp
  qed
qed

lemma parse_lines_holds:
  "parse_lines i c ls = Inr c' \<Longrightarrow> (holds c' e \<longleftrightarrow> holds c e \<or> (\<exists>l \<in> set ls. e \<in> line_entries l))"
proof (induction i c ls rule: parse_lines.induct)
  case (2 i c raw_line rest)
  then obtain mid where mid: "parse_line c raw_line = Inr mid" "parse_lines (i + 1) mid rest = Inr c'" by (auto split: sum.splits)
  show ?case using 2(1) [OF mid] parse_line_holds(1) [OF mid(1), of e] by auto
qed simp

lemma default_holds: "\<not> holds output_config_default e"
  by (cases e) (simp_all add: output_config_default_def)

text \<open>A file that parses holds exactly the entries of its lines.\<close>

lemma parse_output_config_holds:
  "parse_output_config contents = Inr c \<Longrightarrow> (holds c e \<longleftrightarrow> (\<exists>l \<in> set (lines_of contents). e \<in> line_entries l))"
  using parse_lines_holds default_holds by (fastforce simp: parse_output_config_def)

section \<open>The kept lines\<close>

fun entry_name :: "config_entry \<Rightarrow> string option" where
  "entry_name (EPosition name _) = Some name"
| "entry_name (ESize name _) = Some name"
| "entry_name (ERefresh name _) = Some name"
| "entry_name (EScale name _) = Some name"
| "entry_name (ETransform name _) = Some name"
| "entry_name (EAxis name _) = Some name"
| "entry_name (EVrr name) = Some name"
| "entry_name (EDisabled name) = Some name"
| "entry_name _ = None"

fun directive_name :: "directive \<Rightarrow> string option" where
  "directive_name (ModeIs name _ _ _) = Some name"
| "directive_name (ScaleIs name _) = Some name"
| "directive_name (TransformIs name _) = Some name"
| "directive_name (AxisIs name _) = Some name"
| "directive_name (DisabledIs name) = Some name"
| "directive_name (VrrIs name) = Some name"
| "directive_name (PositionIs name _ _) = Some name"
| "directive_name _ = None"

lemma directive_entry_name: "e \<in> directive_entries d \<Longrightarrow> entry_name e = directive_name d"
  by (cases d) auto

lemma entry_value_name:
  "parse_output_mode_entry value = Inr (name, q) \<Longrightarrow> map_option trim (case split_on CHR '','' value of [] \<Rightarrow> None | p # _ \<Rightarrow> Some p) = Some name"
  "parse_output_scale_entry value = Inr (name, s) \<Longrightarrow> map_option trim (case split_on CHR '','' value of [] \<Rightarrow> None | p # _ \<Rightarrow> Some p) = Some name"
  "parse_output_transform_entry value = Inr (name, t) \<Longrightarrow> map_option trim (case split_on CHR '','' value of [] \<Rightarrow> None | p # _ \<Rightarrow> Some p) = Some name"
  "parse_scrolling_layout_axis_entry value = Inr (name, a) \<Longrightarrow> map_option trim (case split_on CHR '','' value of [] \<Rightarrow> None | p # _ \<Rightarrow> Some p) = Some name"
  unfolding parse_output_mode_entry_def parse_output_scale_entry_def parse_output_transform_entry_def parse_scrolling_layout_axis_entry_def
  by (auto split: list.splits option.splits if_splits)

lemma line_key_split:
  "line_key line = Some k \<Longrightarrow> \<exists>k'. split_once CHR ''='' line = Some (k', line_value line) \<and> trim k' = k"
  by (auto simp: line_key_def line_value_def split: option.splits)

text \<open>The writer names the output of a line as the parser does.\<close>

lemma output_directive_name_of:
  assumes "line_directive raw_line = Some d"
  shows "output_directive_name raw_line = directive_name d" "is_primary_output_directive raw_line \<longleftrightarrow> (\<exists>name. d = PrimaryIs name)"
proof -
  let ?line = "line_content raw_line"
  have d: "parse_directive ?line = Inr d" using assms by (auto simp: line_directive_def split: if_splits sum.splits)
  note key = parse_directive_key(1) [OF d]
  show "is_primary_output_directive raw_line \<longleftrightarrow> (\<exists>name. d = PrimaryIs name)"
    using key parse_directive_key(2) [OF d] by (cases d) (auto simp: is_primary_output_directive_def reserved_keys_def)
  obtain k where k: "directive_key d = Some k" by (cases d) auto
  obtain k' where split: "split_once CHR ''='' ?line = Some (k', line_value ?line)" "trim k' = k"
    using line_key_split [of ?line k] key k by auto
  have "output_directive_name raw_line = (if k = ''primary'' \<or> k = ''system_bar'' \<or> k = ''maximize_padding'' then None
      else if k = ''disabled'' \<or> k = ''vrr'' then Some (trim (line_value ?line))
      else if k = ''mode'' \<or> k = ''scale'' \<or> k = ''transform'' \<or> k = ''scrolling_axis''
        then map_option trim (case split_on CHR '','' (line_value ?line) of [] \<Rightarrow> None | p # _ \<Rightarrow> Some p)
      else Some k)"
    using split by (simp add: output_directive_name_def Let_def)
  then show "output_directive_name raw_line = directive_name d"
    using d key k parse_directive_key(2) [OF d] entry_value_name
    by (cases d) (auto simp: parse_directive_def Let_def map_sum_Inr reserved_keys_def split: if_splits sum.splits)
qed

text \<open>A comment line is empty to the parser.\<close>

lemma strip_start_before_graphic:
  assumes "strip_start white_space (p @ c # x) = c # x" "is_ascii_graphic c"
  shows "strip_start white_space p = []"
  using assms(1)
proof (induction "length p" arbitrary: p rule: less_induct)
  case less
  have bytes: "\<not> is_ascii_graphic b" if "w \<in> set white_space" "b \<in> set w" for w b
    using white_space_bytes that by (auto simp: list_all_iff)
  show ?case
  proof (cases "p = []")
    case False
    have match: "(w \<noteq> [] \<and> take (length w) (p @ c # x) = w) = (w \<noteq> [] \<and> take (length w) p = w)" if w: "w \<in> set white_space" for w
    proof (cases "length w \<le> length p")
      case longer: False
      then have "c \<in> set (take (length w) (p @ c # x))" by (simp add: take_Cons')
      then have "take (length w) (p @ c # x) \<noteq> w" using bytes [OF w] assms(2) by metis
      moreover have "take (length w) p \<noteq> w" using longer by (auto dest: arg_cong [of _ _ length])
      ultimately show ?thesis by simp
    qed simp
    have same: "find (\<lambda>w. w \<noteq> [] \<and> take (length w) (p @ c # x) = w) white_space =
        find (\<lambda>w. w \<noteq> [] \<and> take (length w) p = w) white_space" by (rule find_cong [OF refl match])
    have "strip_start white_space (p @ c # x) \<noteq> p @ c # x" using less(2) False by simp
    then obtain w where f: "find (\<lambda>w. w \<noteq> [] \<and> take (length w) p = w) white_space = Some w"
      unfolding strip_start_fixed same by auto
    then have w: "w \<noteq> []" "take (length w) p = w" by (auto simp: find_Some_iff)
    then have "length w \<le> length p" by (metis length_take min.cobounded1)
    then have "strip_start white_space (drop (length w) p @ c # x) = c # x"
      using less(2) f same by (simp add: strip_start.simps [of _ "p @ c # x"])
    then show ?thesis using less(1) [of "drop (length w) p"] w(1) False f by (simp add: strip_start.simps [of _ p])
  qed simp
qed

lemma strip_start_bytes:
  assumes "\<forall>w \<in> set ws. \<forall>b \<in> set w. \<not> is_ascii_graphic b"
  shows "\<exists>p. s = p @ strip_start ws s \<and> (\<forall>b \<in> set p. \<not> is_ascii_graphic b)"
  using assms
proof (induction ws s rule: strip_start.induct)
  case (1 ws s)
  show ?case
  proof (cases "find (\<lambda>w. w \<noteq> [] \<and> take (length w) s = w) ws")
    case None
    then show ?thesis by (subst strip_start.simps) simp
  next
    case (Some w)
    then have w: "w \<in> set ws" "take (length w) s = w" by (auto simp: find_Some_iff)
    obtain p where p: "drop (length w) s = p @ strip_start ws (drop (length w) s)" "\<forall>b \<in> set p. \<not> is_ascii_graphic b"
      using 1 Some by blast
    have "s = w @ drop (length w) s" using w(2) by (metis append_take_drop_id)
    then have "s = (w @ p) @ strip_start ws (drop (length w) s)" using p(1) by simp
    moreover have "strip_start ws s = strip_start ws (drop (length w) s)" using Some by (subst strip_start.simps) simp
    moreover have "\<forall>b \<in> set (w @ p). \<not> is_ascii_graphic b" using p(2) w(1) 1(2) by auto
    ultimately show ?thesis by metis
  qed
qed

lemma white_space_nongraphic:
  "\<forall>w \<in> set white_space. \<forall>b \<in> set w. \<not> is_ascii_graphic b" "\<forall>w \<in> set (map rev white_space). \<forall>b \<in> set w. \<not> is_ascii_graphic b"
  using white_space_bytes by (auto simp: list_all_iff)

lemma trim_surrounds: obtains p q where "s = p @ trim s @ q" "\<forall>b \<in> set (p @ q). \<not> is_ascii_graphic b" "strip_start white_space s = trim s @ q"
proof -
  obtain p where p: "s = p @ strip_start white_space s" "\<forall>b \<in> set p. \<not> is_ascii_graphic b"
    using strip_start_bytes [OF white_space_nongraphic(1)] by blast
  obtain q where q: "rev (strip_start white_space s) = q @ strip_start (map rev white_space) (rev (strip_start white_space s))"
      "\<forall>b \<in> set q. \<not> is_ascii_graphic b"
    using strip_start_bytes [OF white_space_nongraphic(2)] by blast
  have "strip_start white_space s = trim s @ rev q"
    using arg_cong [OF q(1), of rev] by (simp add: trim_def trim_start_def trim_end_def)
  then show thesis using that [of p "rev q"] p q(2) by auto
qed

lemma blank_line:
  assumes "trim raw_line = []"
  shows "line_content raw_line = []"
proof -
  obtain p q where "raw_line = p @ trim raw_line @ q" "\<forall>b \<in> set (p @ q). \<not> is_ascii_graphic b" by (rule trim_surrounds)
  then have "\<forall>b \<in> set raw_line. \<not> is_ascii_graphic b" using assms by auto
  then have "CHR ''#'' \<notin> set raw_line" by (auto simp: is_ascii_graphic_def)
  then have "split_once CHR ''#'' raw_line = None" by (induction raw_line) auto
  then show ?thesis using assms by (simp add: line_content_def)
qed

lemma comment_line:
  assumes "trim raw_line = CHR ''#'' # s"
  shows "line_content raw_line = []"
proof -
  obtain p q where pq: "raw_line = p @ trim raw_line @ q" "\<forall>b \<in> set (p @ q). \<not> is_ascii_graphic b"
      "strip_start white_space raw_line = trim raw_line @ q" by (rule trim_surrounds)
  let ?x = "s @ q"
  have hash: "is_ascii_graphic CHR ''#''" by (simp add: is_ascii_graphic_def)
  have "strip_start white_space (p @ CHR ''#'' # ?x) = CHR ''#'' # ?x" using pq(1,3) assms by simp
  then have "strip_start white_space p = []" using hash by (rule strip_start_before_graphic)
  then have "trim p = []" by (simp add: trim_def trim_start_def trim_end_def)
  moreover have "split_once CHR ''#'' raw_line = Some (p, ?x)"
    unfolding split_once_Some using pq(1,2) assms hash by auto
  ultimately show ?thesis by (simp add: line_content_def)
qed

lemma no_entries: "line_content l = [] \<Longrightarrow> line_entries l = {}"
  by (simp add: line_entries_def line_directive_def)

lemma pop_blank_entries: "(\<exists>l \<in> set (pop_blank_lines ls). e \<in> line_entries l) \<longleftrightarrow> (\<exists>l \<in> set ls. e \<in> line_entries l)"
proof -
  have "(\<exists>l \<in> set (dropWhile (\<lambda>line. trim line = []) xs). e \<in> line_entries l) \<longleftrightarrow> (\<exists>l \<in> set xs. e \<in> line_entries l)" for xs
    by (induction xs) (auto simp: no_entries blank_line)
  then show ?thesis by (simp add: pop_blank_lines_def)
qed

text \<open>The kept lines hold the entries of the file that belong to no saved output, but for the primary output.\<close>

lemma kept_entries:
  "(\<exists>l \<in> set (kept_lines original names). e \<in> line_entries l) \<longleftrightarrow>
   (\<exists>l \<in> set (lines_of original). e \<in> line_entries l) \<and> (\<forall>name. e \<noteq> EPrimary name) \<and> (\<forall>name. entry_name e = Some name \<longrightarrow> name \<notin> names)"
proof -
  have "(trim l \<noteq> MANAGED_OUTPUT_CONFIG_HEADER \<and> \<not> is_primary_output_directive l \<and>
      option_is_none_or (output_directive_name l) (\<lambda>name. name \<notin> names)) \<longleftrightarrow>
    (\<forall>name. e \<noteq> EPrimary name) \<and> (\<forall>name. entry_name e = Some name \<longrightarrow> name \<notin> names)" if e: "e \<in> line_entries l" for l
  proof -
    obtain d where d: "line_directive l = Some d" "e \<in> directive_entries d"
      using e by (auto simp: line_entries_def split: option.splits)
    have "trim l \<noteq> MANAGED_OUTPUT_CONFIG_HEADER"
      using e no_entries comment_line by (auto simp: MANAGED_OUTPUT_CONFIG_HEADER_def)
    moreover have "(\<exists>name. d = PrimaryIs name) \<longleftrightarrow> (\<exists>name. e = EPrimary name)" using d(2) by (cases d) auto
    ultimately show ?thesis using output_directive_name_of [OF d(1)] directive_entry_name [OF d(2)]
      by (auto simp: option_is_none_or_def split: option.splits)
  qed
  then show ?thesis by (auto simp: kept_lines_def)
qed

section \<open>The written lines\<close>

lemma split_once_None: "d \<notin> set s \<Longrightarrow> split_once d s = None"
  by (induction s) auto

lemma line_content_plain: "CHR ''#'' \<notin> set l \<Longrightarrow> trim l = l \<Longrightarrow> line_content l = l"
  by (simp add: line_content_def split_once_None)

lemma has_control_newline: "newline \<in> set s \<Longrightarrow> has_control s"
  by (induction s) (auto simp: newline_def of_char_of)

lemma valid_name_facts:
  assumes "\<not> invalid_primary_name name"
  shows "name \<noteq> []" "trim name = name" "CHR ''#'' \<notin> set name" "CHR '','' \<notin> set name" "CHR ''='' \<notin> set name" "newline \<notin> set name"
  using assms has_control_newline [of name] by (auto simp: invalid_primary_name_def list_ex_iff)

lemma keyed_line:
  assumes "trim key = key" "CHR ''='' \<notin> set key" "CHR ''#'' \<notin> set key" "CHR ''#'' \<notin> set rest"
    and "trim (key @ CHR ''='' # rest) = key @ CHR ''='' # rest"
  shows "line_content (key @ CHR ''='' # rest) = key @ CHR ''='' # rest" "line_key (key @ CHR ''='' # rest) = Some key"
    "line_value (key @ CHR ''='' # rest) = rest"
proof -
  show "line_content (key @ CHR ''='' # rest) = key @ CHR ''='' # rest" using assms by (intro line_content_plain) auto
  have "split_once CHR ''='' (key @ CHR ''='' # rest) = Some (key, rest)" using assms(2) by (simp add: split_once_Some)
  then show "line_key (key @ CHR ''='' # rest) = Some key" "line_value (key @ CHR ''='' # rest) = rest"
    using assms(1) by (simp_all add: line_key_def line_value_def)
qed

lemma graphic_ends_trim: "s \<noteq> [] \<Longrightarrow> is_ascii_graphic (hd s) \<Longrightarrow> is_ascii_graphic (last s) \<Longrightarrow> trim s = s"
  by (rule trim_graphic)

lemma decimal_trim [simp]: "trim (decimal n) = decimal n" "trim (signed_decimal x) = signed_decimal x"
  using decimal_head digit_graphic by (auto simp: signed_decimal_def is_ascii_graphic_def [of "CHR ''-''"] intro!: trim_graphic)

lemma decimal_bytes:
  "c \<in> set (decimal n) \<Longrightarrow> is_ascii_digit c" "c \<in> set (signed_decimal x) \<Longrightarrow> is_ascii_digit c \<or> c = CHR ''-''"
  using decimal_digits by (auto simp: signed_decimal_def list_all_iff split: if_splits)

lemma newline_neq: "newline \<noteq> CHR ''-''" "newline \<noteq> CHR ''=''" "newline \<noteq> CHR '',''" "newline \<noteq> CHR ''.''"
  by code_simp+

lemma no_separators:
  "c \<in> {CHR ''#'', CHR '','', CHR ''='', newline} \<Longrightarrow> c \<notin> set (decimal n)"
  "c \<in> {CHR ''#'', CHR '','', CHR ''='', newline} \<Longrightarrow> c \<notin> set (signed_decimal x)"
proof -
  show "c \<notin> set (decimal n)" if "c \<in> {CHR ''#'', CHR '','', CHR ''='', newline}"
    using that decimal_bytes(1) [of c n] digit_neq [of c] by blast
  show "c \<notin> set (signed_decimal x)" if "c \<in> {CHR ''#'', CHR '','', CHR ''='', newline}"
    using that decimal_bytes(2) [of c x] digit_neq [of c] newline_neq(1) by auto
qed

lemma signed_decimal_ends: "signed_decimal x \<noteq> []" "is_ascii_graphic (last (signed_decimal x))"
  using decimal_head digit_graphic by (auto simp: signed_decimal_def)

definition saved_entries :: "persisted_output \<Rightarrow> config_entry set" where
  "saved_entries out = {EPosition (po_name out) \<lparr>point_x = po_x out, point_y = po_y out\<rparr>,
      ESize (po_name out) (po_width out, po_height out), ERefresh (po_name out) (po_refresh_millihz out),
      EScale (po_name out) (po_scale_120 out)} \<union>
    (if po_transform out \<noteq> Normal then {ETransform (po_name out) (po_transform out)} else {}) \<union>
    (if po_axis out \<noteq> Auto then {EAxis (po_name out) (po_axis out)} else {}) \<union>
    (if po_adaptive_sync out then {EVrr (po_name out)} else {}) \<union> (if \<not> po_enabled out then {EDisabled (po_name out)} else {})"

text \<open>What can be written and read back: a name that is not a key of the format, numbers of their widths, and a refresh
  rate that is not taken for hertz.\<close>

definition persistable :: "persisted_output \<Rightarrow> bool" where
  "persistable out = (po_name out \<notin> set reserved_keys \<and> i32_min \<le> po_x out \<and> po_x out \<le> i32_max \<and> i32_min \<le> po_y out \<and> po_y out \<le> i32_max \<and>
     po_width out < 4294967296 \<and> po_height out < 4294967296 \<and> 10000 \<le> po_refresh_millihz out \<and> po_refresh_millihz out < 4294967296)"

lemma position_line:
  assumes "\<not> invalid_primary_name name" "name \<notin> set reserved_keys" "i32_min \<le> x" "x \<le> i32_max" "i32_min \<le> y" "y \<le> i32_max"
  shows "line_directive (name @ ''='' @ signed_decimal x @ '','' @ signed_decimal y) = Some (PositionIs name \<lparr>point_x = x, point_y = y\<rparr> None)"
proof -
  note name = valid_name_facts [OF assms(1)]
  let ?rest = "signed_decimal x @ CHR '','' # signed_decimal y"
  have "trim (name @ CHR ''='' # ?rest) = name @ CHR ''='' # ?rest"
    using trim_name_first [OF name(2), of "CHR ''=''" "last (signed_decimal y)" "signed_decimal x @ CHR '','' # butlast (signed_decimal y)"]
      signed_decimal_ends [of y] by (simp add: is_ascii_graphic_def [of "CHR ''=''"])
  then have line: "line_content (name @ CHR ''='' # ?rest) = name @ CHR ''='' # ?rest" "line_key (name @ CHR ''='' # ?rest) = Some name"
    using name no_separators by (intro keyed_line; auto)+
  have "split_on CHR '','' ?rest = [signed_decimal x, signed_decimal y]"
    using no_separators by (simp add: split_on_append split_on_part)
  moreover have "split_once CHR ''='' (name @ CHR ''='' # ?rest) = Some (name, ?rest)" using name by (simp add: split_once_Some)
  ultimately have "parse_output_config_entry (name @ CHR ''='' # ?rest) = Inr (name, \<lparr>point_x = x, point_y = y\<rparr>, None)"
    using name assms(3-6) by (simp add: parse_output_config_entry_def parse_i32_decimal)
  then show ?thesis using line name assms(2) by (simp add: line_directive_def parse_directive_def reserved_keys_def)
qed

text \<open>Lines of a key and a value: the value ends in a graphic byte or is a name.\<close>

lemma key_value_line:
  assumes key: "key \<in> set reserved_keys" and rest: "CHR ''#'' \<notin> set rest" "rest \<noteq> []" "is_ascii_graphic (last rest) \<or> trim rest = rest"
  shows "line_content (key @ CHR ''='' # rest) = key @ CHR ''='' # rest" "line_key (key @ CHR ''='' # rest) = Some key"
    "line_value (key @ CHR ''='' # rest) = rest"
proof -
  have "list_all (\<lambda>k. k \<noteq> [] \<and> is_ascii_graphic (hd k) \<and> is_ascii_graphic (last k) \<and> CHR ''='' \<notin> set k \<and> CHR ''#'' \<notin> set k) reserved_keys"
    by code_simp
  then have k: "key \<noteq> []" "is_ascii_graphic (hd key)" "is_ascii_graphic (last key)" "CHR ''='' \<notin> set key" "CHR ''#'' \<notin> set key"
    using key by (auto simp: list_all_iff)
  have eq: "is_ascii_graphic CHR ''=''" by (simp add: is_ascii_graphic_def)
  have trimmed: "trim (key @ CHR ''='' # rest) = key @ CHR ''='' # rest" using rest(3)
  proof
    assume "is_ascii_graphic (last rest)"
    then show ?thesis using k rest(2) by (intro trim_graphic) simp_all
  next
    assume "trim rest = rest"
    then show ?thesis using trim_name_last [OF _ eq k(2), of rest "List.tl key"] k(1) by (metis append_Cons list.collapse)
  qed
  show "line_content (key @ CHR ''='' # rest) = key @ CHR ''='' # rest" "line_key (key @ CHR ''='' # rest) = Some key"
    "line_value (key @ CHR ''='' # rest) = rest"
    using keyed_line [OF trim_graphic [OF k(1-3)] k(4,5) rest(1) trimmed] by auto
qed

lemma name_lines:
  assumes "\<not> invalid_primary_name name"
  shows "line_directive (''primary='' @ name) = Some (PrimaryIs name)" "line_directive (''vrr='' @ name) = Some (VrrIs name)"
    "line_directive (''disabled='' @ name) = Some (DisabledIs name)"
proof -
  note name = valid_name_facts [OF assms]
  have line: "line_content (key @ CHR ''='' # name) = key @ CHR ''='' # name \<and> line_key (key @ CHR ''='' # name) = Some key \<and>
      line_value (key @ CHR ''='' # name) = name" if "key \<in> set reserved_keys" for key
    using key_value_line [OF that name(3,1)] name(2) by blast
  show "line_directive (''primary='' @ name) = Some (PrimaryIs name)" "line_directive (''vrr='' @ name) = Some (VrrIs name)"
    "line_directive (''disabled='' @ name) = Some (DisabledIs name)"
    using line [of "''primary''"] line [of "''vrr''"] line [of "''disabled''"] name assms
    by (simp_all add: reserved_keys_def line_directive_def parse_directive_def validate_output_config_name_def)
qed

lemma mode_line:
  assumes "\<not> invalid_primary_name name" "0 < w" "w < 4294967296" "0 < h" "h < 4294967296" "10000 \<le> r" "r < 4294967296"
  shows "line_directive (''mode='' @ name @ '','' @ decimal w @ '','' @ decimal h @ '','' @ decimal r) = Some (ModeIs name w h r)"
proof -
  note name = valid_name_facts [OF assms(1)]
  let ?rest = "name @ CHR '','' # decimal w @ CHR '','' # decimal h @ CHR '','' # decimal r"
  have "split_on CHR '','' ?rest = [name, decimal w, decimal h, decimal r]"
    using name no_separators by (simp add: split_on_append split_on_part)
  then have "parse_output_mode_entry ?rest = Inr (name, w, h, r)"
    using name assms(2-7) by (simp add: parse_output_mode_entry_def parse_u32_decimal REFRESH_MILLIHERTZ_LITERAL_THRESHOLD_def)
  moreover have "line_content (''mode'' @ CHR ''='' # ?rest) = ''mode'' @ CHR ''='' # ?rest \<and> line_key (''mode'' @ CHR ''='' # ?rest) = Some ''mode'' \<and>
      line_value (''mode'' @ CHR ''='' # ?rest) = ?rest"
    using name no_separators decimal_head(2) digit_graphic by (intro conjI key_value_line) (auto simp: reserved_keys_def)
  ultimately show ?thesis by (simp add: line_directive_def parse_directive_def)
qed

lemma scale_text_shape:
  assumes "s \<le> 960"
  shows "list_all (\<lambda>c. is_ascii_digit c \<or> c = CHR ''.'') (format_output_scale s)" "format_output_scale s \<noteq> []"
    "is_ascii_digit (last (format_output_scale s))" "is_ascii_digit (hd (format_output_scale s))"
proof -
  have s: "(of_nat s :: rat) \<le> 960" using assms by simp
  obtain v where "f64_round (of_nat s / 120) = Fin v"
    using s by (rule_tac f64_round_close [of "of_nat s / 120"]) simp_all
  then have "f64_div (Fin (of_nat s)) (Fin (of_nat SCALE_BASE)) = Fin v" by (simp add: SCALE_BASE_def)
  from format_output_scale_parse(2-5) [OF this refl]
  show "list_all (\<lambda>c. is_ascii_digit c \<or> c = CHR ''.'') (format_output_scale s)" "format_output_scale s \<noteq> []"
    "is_ascii_digit (last (format_output_scale s))" "is_ascii_digit (hd (format_output_scale s))" by auto
qed

lemma scale_separators:
  assumes "s \<le> 960" "c \<in> {CHR ''#'', CHR '','', CHR ''='', newline}"
  shows "c \<notin> set (format_output_scale s)"
proof
  assume "c \<in> set (format_output_scale s)"
  then have "is_ascii_digit c \<or> c = CHR ''.''" using scale_text_shape(1) [OF assms(1)] by (auto simp: list_all_iff)
  then show False using assms(2) digit_neq [of c] newline_neq(4) by auto
qed

lemma two_field_line:
  assumes "\<not> invalid_primary_name name" "key \<in> set reserved_keys" and "CHR ''#'' \<notin> set v" "CHR '','' \<notin> set v" "v \<noteq> []"
    and "is_ascii_graphic (hd v)" "is_ascii_graphic (last v)"
  defines "rest \<equiv> name @ CHR '','' # v"
  shows "line_content (key @ CHR ''='' # rest) = key @ CHR ''='' # rest" "line_key (key @ CHR ''='' # rest) = Some key"
    "line_value (key @ CHR ''='' # rest) = rest" "map trim (split_on CHR '','' rest) = [name, v]"
proof -
  note name = valid_name_facts [OF assms(1)]
  show "line_content (key @ CHR ''='' # rest) = key @ CHR ''='' # rest" "line_key (key @ CHR ''='' # rest) = Some key"
    "line_value (key @ CHR ''='' # rest) = rest"
    using name assms(2-7) by (intro key_value_line; simp add: rest_def)+
  show "map trim (split_on CHR '','' rest) = [name, v]"
    using name assms(4-7) by (simp add: rest_def split_on_append split_on_part trim_graphic)
qed

lemma scale_line:
  assumes "\<not> invalid_primary_name name" "30 \<le> s" "s \<le> 960"
  shows "line_directive (''scale='' @ name @ '','' @ format_output_scale s) = Some (ScaleIs name s)"
proof -
  note shape = scale_text_shape [OF assms(3)]
  have sep: "CHR ''#'' \<notin> set (format_output_scale s)" "CHR '','' \<notin> set (format_output_scale s)"
    using scale_separators [OF assms(3)] by auto
  note line = two_field_line [OF assms(1), of "''scale''", OF _ sep shape(2) digit_graphic [OF shape(4)] digit_graphic [OF shape(3)]]
  obtain f where "parse_f64 (format_output_scale s) = Some f" "scale_acceptable f" "scale_120_of f = s"
    using scale_round_trip [OF assms(2,3)] .
  then have "parse_output_scale_entry (name @ CHR '','' # format_output_scale s) = Inr (name, s)"
    using line(4) valid_name_facts(1) [OF assms(1)] by (simp add: parse_output_scale_entry_def reserved_keys_def)
  then show ?thesis using line(1-3) by (simp add: line_directive_def parse_directive_def reserved_keys_def)
qed

lemma transform_line:
  assumes "\<not> invalid_primary_name name"
  shows "line_directive (''transform='' @ name @ '','' @ format_output_transform t) = Some (TransformIs name t)"
proof -
  let ?v = "format_output_transform t"
  have v: "CHR ''#'' \<notin> set ?v" "CHR '','' \<notin> set ?v" "?v \<noteq> []" "is_ascii_graphic (hd ?v)" "is_ascii_graphic (last ?v)"
    by (cases t; simp add: is_ascii_graphic_def)+
  note line = two_field_line [OF assms, of "''transform''", OF _ v]
  have "transform_named ?v = Some t" by (cases t) (simp_all add: transform_named_def)
  then have "parse_output_transform_entry (name @ CHR '','' # ?v) = Inr (name, t)"
    using line(4) valid_name_facts(1) [OF assms] by (simp add: parse_output_transform_entry_def reserved_keys_def)
  then show ?thesis using line(1-3) by (simp add: line_directive_def parse_directive_def reserved_keys_def)
qed

lemma axis_line:
  assumes "\<not> invalid_primary_name name"
  shows "line_directive (''scrolling_axis='' @ name @ '','' @ settings_name a) = Some (AxisIs name a)"
proof -
  let ?v = "settings_name a"
  have v: "CHR ''#'' \<notin> set ?v" "CHR '','' \<notin> set ?v" "?v \<noteq> []" "is_ascii_graphic (hd ?v)" "is_ascii_graphic (last ?v)"
    by (cases a; simp add: is_ascii_graphic_def)+
  note line = two_field_line [OF assms, of "''scrolling_axis''", OF _ v]
  have "from_settings_name ?v = Some a" by (cases a) (simp_all add: from_settings_name_def)
  then have "parse_scrolling_layout_axis_entry (name @ CHR '','' # ?v) = Inr (name, a)"
    using line(4) valid_name_facts(1) [OF assms] by (simp add: parse_scrolling_layout_axis_entry_def reserved_keys_def)
  then show ?thesis using line(1-3) by (simp add: line_directive_def parse_directive_def reserved_keys_def)
qed

lemma valid_persisted:
  assumes "validate_persisted_output out = None"
  shows "\<not> invalid_primary_name (po_name out)" "0 < po_width out" "0 < po_height out" "30 \<le> po_scale_120 out" "po_scale_120 out \<le> 960"
  using assms by (auto simp: validate_persisted_output_def scale_bounds split: if_splits)

text \<open>The lines of an output hold what was saved of it, and contain no line end.\<close>

lemma render_output_entries:
  assumes "validate_persisted_output out = None" "persistable out"
  shows "(\<exists>l \<in> set (render_output out). e \<in> line_entries l) \<longleftrightarrow> e \<in> saved_entries out"
proof -
  note v = valid_persisted [OF assms(1)]
  note lines = position_line [OF v(1), of "po_x out" "po_y out"] mode_line [OF v(1), of "po_width out" "po_height out" "po_refresh_millihz out"]
    scale_line [OF v(1,4,5)] transform_line [OF v(1), of "po_transform out"] axis_line [OF v(1), of "po_axis out"] name_lines(2,3) [OF v(1)]
  show ?thesis
    using lines v assms(2) unfolding persistable_def by (auto simp: render_output_def saved_entries_def line_entries_def)
qed

lemma render_output_newline:
  assumes "validate_persisted_output out = None" "l \<in> set (render_output out)"
  shows "newline \<notin> set l"
proof -
  note v = valid_persisted [OF assms(1)]
  have "newline \<notin> set (po_name out)" by (rule valid_name_facts(6) [OF v(1)])
  moreover have "newline \<notin> set (decimal n)" "newline \<notin> set (signed_decimal x)" for n x using no_separators by auto
  moreover have "newline \<notin> set (format_output_scale (po_scale_120 out))" using scale_separators v(5) by simp
  moreover have "newline \<notin> set (format_output_transform t)" for t by (cases t; hypsubst; code_simp)
  moreover have "newline \<notin> set (settings_name a)" for a by (cases a; hypsubst; code_simp)
  moreover have "list_all (\<lambda>s. newline \<notin> set s) [''='', '','', ''mode='', ''scale='', ''transform='', ''scrolling_axis='', ''vrr='', ''disabled='']"
    by code_simp
  ultimately show ?thesis using assms(2) by (auto simp: render_output_def split: if_splits)
qed

section \<open>The round trip\<close>

lemma insert_persisted_set [simp]: "set (insert_persisted out outs) = insert out (set outs)"
  by (induction outs) auto

lemma sort_persisted_Inr:
  "sort_persisted sorted' outs = Inr result \<Longrightarrow> set result = set sorted' \<union> set outs \<and>
     (\<forall>out \<in> set outs. validate_persisted_output out = None) \<and> distinct (map po_name outs) \<and> po_name ` set outs \<inter> po_name ` set sorted' = {}"
  by (induction sorted' outs rule: sort_persisted.induct) (auto split: option.splits if_splits)

lemma line_entries_strip_cr: "line_entries (strip_cr l) = line_entries l"
  by (simp add: line_entries_def line_directive_def line_content_strip_cr)

lemma header_entries: "line_entries MANAGED_OUTPUT_CONFIG_HEADER = {}" "line_entries [] = {}"
proof -
  have "trim MANAGED_OUTPUT_CONFIG_HEADER = MANAGED_OUTPUT_CONFIG_HEADER" by code_simp
  then show "line_entries MANAGED_OUTPUT_CONFIG_HEADER = {}" using comment_line no_entries by (simp add: MANAGED_OUTPUT_CONFIG_HEADER_def)
  show "line_entries [] = {}" by (rule no_entries) code_simp
qed

lemma separated_entries:
  "(\<exists>l \<in> set (if k \<noteq> [] then k @ [[]] else k). e \<in> line_entries l) \<longleftrightarrow> (\<exists>l \<in> set k. e \<in> line_entries l)"
  by (auto simp: header_entries)

lemma rendered_lines_newline:
  assumes "\<forall>out \<in> set outs. validate_persisted_output out = None" "\<not> option_is_some_and primary invalid_primary_name"
    and "l \<in> set (rendered_lines original outs primary)"
  shows "newline \<notin> set l"
proof -
  have "newline \<notin> set m" if "m \<in> set (pop_blank_lines (kept_lines original (po_name ` set outs)))" for m
  proof -
    have "m \<in> set (lines_of original)" using that by (auto simp: pop_blank_lines_def kept_lines_def dest: set_dropWhileD)
    then show ?thesis by (rule lines_of_no_newline)
  qed
  moreover have "newline \<notin> set MANAGED_OUTPUT_CONFIG_HEADER" "newline \<notin> set ''primary=''" by code_simp+
  moreover have "newline \<notin> set name" if "primary = Some name" for name
    using assms(2) that valid_name_facts(6) by (simp add: option_is_some_and_def)
  ultimately show ?thesis using assms(1,3) render_output_newline
    by (auto simp: rendered_lines_def Let_def split: option.splits if_splits)
qed

text \<open>The written file holds the old entries of other outputs, the primary output and what was saved.\<close>

lemma rendered_holds:
  assumes "parse_output_config original = Inr c0" "render_persisted_output_config original outs primary = Inr rendered"
    and "parse_output_config rendered = Inr c1" "list_all persistable outs"
  shows "holds c1 e \<longleftrightarrow> holds c0 e \<and> (\<forall>name. e \<noteq> EPrimary name) \<and> (\<forall>name. entry_name e = Some name \<longrightarrow> name \<notin> po_name ` set outs) \<or>
    (\<exists>name. primary = Some name \<and> e = EPrimary name) \<or> (\<exists>out \<in> set outs. e \<in> saved_entries out)"
    and "distinct (map po_name outs)"
proof -
  from assms(2) obtain sorted' where sorted': "sort_persisted [] outs = Inr sorted'"
    and primary: "\<not> option_is_some_and primary invalid_primary_name"
    and rendered: "rendered = join_with newline (rendered_lines original sorted' primary) @ [newline]"
    by (auto simp: render_persisted_output_config_def split: if_splits sum.splits)
  note srt = sort_persisted_Inr [OF sorted']
  show "distinct (map po_name outs)" using srt by blast
  have sets: "set sorted' = set outs" and valid: "\<forall>out \<in> set sorted'. validate_persisted_output out = None" using srt by auto
  have "lines_of rendered = map strip_cr (rendered_lines original sorted' primary)"
    unfolding rendered using rendered_lines_newline [OF valid primary]
    by (intro lines_of_join) (auto simp: rendered_lines_def Let_def)
  then have "holds c1 e \<longleftrightarrow> (\<exists>l \<in> set (rendered_lines original sorted' primary). e \<in> line_entries l)"
    using parse_output_config_holds [OF assms(3)] by (simp add: line_entries_strip_cr)
  also have "\<dots> \<longleftrightarrow> (\<exists>l \<in> set (kept_lines original (po_name ` set outs)). e \<in> line_entries l) \<or>
      (\<exists>name. primary = Some name \<and> e \<in> line_entries (''primary='' @ name)) \<or>
      (\<exists>out \<in> set outs. \<exists>l \<in> set (render_output out). e \<in> line_entries l)"
    unfolding rendered_lines_def Let_def sets
    by (cases primary) (simp_all add: bex_Un separated_entries pop_blank_entries header_entries sets, blast)
  also have "\<dots> \<longleftrightarrow> (\<exists>l \<in> set (kept_lines original (po_name ` set outs)). e \<in> line_entries l) \<or>
      (\<exists>name. primary = Some name \<and> e = EPrimary name) \<or> (\<exists>out \<in> set outs. e \<in> saved_entries out)"
    using name_lines(1) primary render_output_entries valid assms(4)
    by (auto simp: sets list_all_iff line_entries_def option_is_some_and_def)
  finally show "holds c1 e \<longleftrightarrow> holds c0 e \<and> (\<forall>name. e \<noteq> EPrimary name) \<and> (\<forall>name. entry_name e = Some name \<longrightarrow> name \<notin> po_name ` set outs) \<or>
    (\<exists>name. primary = Some name \<and> e = EPrimary name) \<or> (\<exists>out \<in> set outs. e \<in> saved_entries out)"
    using kept_entries parse_output_config_holds [OF assms(1)] by simp
qed

lemma saved_names: "e \<in> saved_entries out \<Longrightarrow> entry_name e = Some (po_name out)"
  by (auto simp: saved_entries_def split: if_splits)

lemma saved_not_single: "EPrimary name \<notin> saved_entries out" "EBar bar \<notin> saved_entries out" "EPadding padding \<notin> saved_entries out"
  by (auto simp: saved_entries_def)

lemma option_eqI: "(\<And>v. x = Some v \<longleftrightarrow> y = Some v) \<Longrightarrow> x = y"
  by (cases x; cases y) auto

text \<open>An entry of a saved output, and an entry of another output.\<close>

lemma rendered_saved:
  assumes "parse_output_config original = Inr c0" "render_persisted_output_config original outs primary = Inr rendered"
    and "parse_output_config rendered = Inr c1" "list_all persistable outs" and "out \<in> set outs" "entry_name e = Some (po_name out)"
  shows "holds c1 e \<longleftrightarrow> e \<in> saved_entries out"
proof -
  have "out' = out" if "out' \<in> set outs" "po_name out' = po_name out" for out'
    using rendered_holds(2) [OF assms(1-4)] assms(5) that by (auto simp: distinct_map dest: inj_onD)
  then have "(\<exists>out' \<in> set outs. e \<in> saved_entries out') \<longleftrightarrow> e \<in> saved_entries out"
    using assms(5,6) saved_names by (metis option.inject)
  moreover have "e \<noteq> EPrimary name" for name using assms(6) by auto
  ultimately show ?thesis using rendered_holds(1) [OF assms(1-4), of e] assms(5,6) by auto
qed

lemma rendered_other:
  assumes "parse_output_config original = Inr c0" "render_persisted_output_config original outs primary = Inr rendered"
    and "parse_output_config rendered = Inr c1" "list_all persistable outs" and "entry_name e = Some name" "name \<notin> po_name ` set outs"
  shows "holds c1 e \<longleftrightarrow> holds c0 e"
proof -
  have "\<not> (\<exists>out \<in> set outs. e \<in> saved_entries out)" using saved_names assms(5,6) by force
  moreover have "e \<noteq> EPrimary name" for name using assms(5) by auto
  ultimately show ?thesis using rendered_holds(1) [OF assms(1-4), of e] assms(5,6) by auto
qed

text \<open>What a configuration says of a saved output, and that two configurations say the same of an output.\<close>

definition configured_as :: "output_config \<Rightarrow> persisted_output \<Rightarrow> bool" where
  "configured_as c out \<longleftrightarrow>
     map_of (cfg_positions c) (po_name out) = Some \<lparr>point_x = po_x out, point_y = po_y out\<rparr> \<and>
     map_of (cfg_mode_sizes c) (po_name out) = Some (po_width out, po_height out) \<and>
     map_of (cfg_refresh_millihz c) (po_name out) = Some (po_refresh_millihz out) \<and>
     map_of (cfg_scales_120 c) (po_name out) = Some (po_scale_120 out) \<and>
     map_of (cfg_transforms c) (po_name out) = (if po_transform out = Normal then None else Some (po_transform out)) \<and>
     map_of (cfg_scrolling_layout_axes c) (po_name out) = (if po_axis out = Auto then None else Some (po_axis out)) \<and>
     (po_name out \<in> set (cfg_vrr_outputs c) \<longleftrightarrow> po_adaptive_sync out) \<and>
     (po_name out \<in> set (cfg_disabled_outputs c) \<longleftrightarrow> \<not> po_enabled out)"

definition same_output :: "output_config \<Rightarrow> output_config \<Rightarrow> string \<Rightarrow> bool" where
  "same_output c c' name \<longleftrightarrow>
     map_of (cfg_positions c) name = map_of (cfg_positions c') name \<and>
     map_of (cfg_mode_sizes c) name = map_of (cfg_mode_sizes c') name \<and>
     map_of (cfg_refresh_millihz c) name = map_of (cfg_refresh_millihz c') name \<and>
     map_of (cfg_scales_120 c) name = map_of (cfg_scales_120 c') name \<and>
     map_of (cfg_transforms c) name = map_of (cfg_transforms c') name \<and>
     map_of (cfg_scrolling_layout_axes c) name = map_of (cfg_scrolling_layout_axes c') name \<and>
     (name \<in> set (cfg_vrr_outputs c) \<longleftrightarrow> name \<in> set (cfg_vrr_outputs c')) \<and>
     (name \<in> set (cfg_disabled_outputs c) \<longleftrightarrow> name \<in> set (cfg_disabled_outputs c'))"

lemma configured_asI:
  assumes "\<And>e. entry_name e = Some (po_name out) \<Longrightarrow> holds c e \<longleftrightarrow> e \<in> saved_entries out"
  shows "configured_as c out"
proof -
  let ?n = "po_name out"
  have "map_of (cfg_positions c) ?n = Some \<lparr>point_x = po_x out, point_y = po_y out\<rparr>"
    "map_of (cfg_mode_sizes c) ?n = Some (po_width out, po_height out)"
    "map_of (cfg_refresh_millihz c) ?n = Some (po_refresh_millihz out)" "map_of (cfg_scales_120 c) ?n = Some (po_scale_120 out)"
    using assms [of "EPosition ?n \<lparr>point_x = po_x out, point_y = po_y out\<rparr>"] assms [of "ESize ?n (po_width out, po_height out)"]
      assms [of "ERefresh ?n (po_refresh_millihz out)"] assms [of "EScale ?n (po_scale_120 out)"]
    by (simp_all add: saved_entries_def)
  moreover have "map_of (cfg_transforms c) ?n = (if po_transform out = Normal then None else Some (po_transform out))"
    using assms [of "ETransform ?n _"] by (intro option_eqI) (auto simp: saved_entries_def)
  moreover have "map_of (cfg_scrolling_layout_axes c) ?n = (if po_axis out = Auto then None else Some (po_axis out))"
    using assms [of "EAxis ?n _"] by (intro option_eqI) (auto simp: saved_entries_def)
  moreover have "?n \<in> set (cfg_vrr_outputs c) \<longleftrightarrow> po_adaptive_sync out" "?n \<in> set (cfg_disabled_outputs c) \<longleftrightarrow> \<not> po_enabled out"
    using assms [of "EVrr ?n"] assms [of "EDisabled ?n"] by (simp_all add: saved_entries_def)
  ultimately show ?thesis by (simp add: configured_as_def)
qed

lemma same_outputI:
  assumes "\<And>e. entry_name e = Some name \<Longrightarrow> holds c e \<longleftrightarrow> holds c' e"
  shows "same_output c c' name"
proof -
  have "map_of (cfg_positions c) name = map_of (cfg_positions c') name" "map_of (cfg_mode_sizes c) name = map_of (cfg_mode_sizes c') name"
    "map_of (cfg_refresh_millihz c) name = map_of (cfg_refresh_millihz c') name" "map_of (cfg_scales_120 c) name = map_of (cfg_scales_120 c') name"
    "map_of (cfg_transforms c) name = map_of (cfg_transforms c') name"
    "map_of (cfg_scrolling_layout_axes c) name = map_of (cfg_scrolling_layout_axes c') name"
    using assms [of "EPosition name _"] assms [of "ESize name _"] assms [of "ERefresh name _"] assms [of "EScale name _"]
      assms [of "ETransform name _"] assms [of "EAxis name _"]
    by (intro option_eqI; simp)+
  moreover have "name \<in> set (cfg_vrr_outputs c) \<longleftrightarrow> name \<in> set (cfg_vrr_outputs c')"
    "name \<in> set (cfg_disabled_outputs c) \<longleftrightarrow> name \<in> set (cfg_disabled_outputs c')"
    using assms [of "EVrr name"] assms [of "EDisabled name"] by simp_all
  ultimately show ?thesis by (simp add: same_output_def)
qed

lemma prepared_text_Inr:
  assumes "prepared_text original outs primary = Inr rendered"
  obtains c0 c1 where "parse_output_config original = Inr c0" "render_persisted_output_config original outs primary = Inr rendered"
    "parse_output_config rendered = Inr c1"
  using assms by (auto simp: prepared_text_def split: sum.splits prod.splits if_splits)

lemma rendered_configured:
  assumes "parse_output_config original = Inr c0" "render_persisted_output_config original outs primary = Inr rendered"
    and "parse_output_config rendered = Inr c1" "list_all persistable outs"
  shows "out \<in> set outs \<Longrightarrow> configured_as c1 out" "cfg_primary_output c1 = primary"
proof -
  show "configured_as c1 out" if "out \<in> set outs"
    using rendered_saved [OF assms that] by (rule configured_asI)
  show "cfg_primary_output c1 = primary"
    using rendered_holds(1) [OF assms, of "EPrimary _"] saved_not_single by (intro option_eqI) auto
qed

text \<open>
  Claim C14 (saved outputs read back, the rest of the file stays). When the settings are saved, the text that replaces the
  configuration file parses, and gives every saved output exactly the values that were saved: position, mode, scale,
  transform, scrolling axis, adaptive sync and whether it is disabled. Every other output of the file, the system bar and
  the padding keep their entries, and the primary output is the saved one. The names must not be keys of the format, which
  connector names never are, and the refresh rate must be at least ten hertz: the parser takes a smaller number for hertz.
\<close>
theorem saved_configuration_reads_back:
  assumes "parse_output_config original = Inr c0" and "prepared_text original outs primary = Inr rendered" and "list_all persistable outs"
  shows "\<exists>c1. parse_output_config rendered = Inr c1 \<and> list_all (configured_as c1) outs \<and>
    (\<forall>name. name \<notin> po_name ` set outs \<longrightarrow> same_output c1 c0 name) \<and>
    cfg_primary_output c1 = primary \<and> cfg_system_bar c1 = cfg_system_bar c0 \<and> cfg_maximize_padding c1 = cfg_maximize_padding c0"
proof -
  obtain c1 where c1: "render_persisted_output_config original outs primary = Inr rendered" "parse_output_config rendered = Inr c1"
    by (rule prepared_text_Inr [OF assms(2)])
  note saved = rendered_configured [OF assms(1) c1 assms(3)]
  have "same_output c1 c0 name" if "name \<notin> po_name ` set outs" for name
    using rendered_other [OF assms(1) c1 assms(3) _ that] by (rule same_outputI)
  moreover note all = rendered_holds(1) [OF assms(1) c1 assms(3)]
  have "cfg_system_bar c1 = cfg_system_bar c0" "cfg_maximize_padding c1 = cfg_maximize_padding c0"
    using all [of "EBar _"] all [of "EPadding _"] saved_not_single by (intro option_eqI; auto)+
  ultimately show ?thesis using c1(2) saved by (auto simp: list_all_iff)
qed

definition sample_original :: string where
  "sample_original = ''system_bar=hidden'' @ [newline] @ ''vrr=HDMI-A-1'' @ [newline] @ ''DP-1=5,5'' @ [newline]"

definition sample_saved :: persisted_output where
  "sample_saved = \<lparr>po_name = ''DP-1'', po_enabled = False, po_x = -1920, po_y = 0, po_width = 1920, po_height = 1080,
     po_refresh_millihz = 59940, po_scale_120 = 180, po_transform = Rotate90, po_axis = Auto, po_adaptive_sync = False\<rparr>"

definition sample_rendered :: string where
  "sample_rendered = join_with newline [''system_bar=hidden'', ''vrr=HDMI-A-1'', [], MANAGED_OUTPUT_CONFIG_HEADER,
     ''primary=DP-1'', ''DP-1=-1920,0'', ''mode=DP-1,1920,1080,59940'', ''scale=DP-1,1.5'', ''transform=DP-1,90'', ''disabled=DP-1''] @ [newline]"

lemma sample_name: "\<not> invalid_primary_name ''DP-1''" "''DP-1'' \<notin> set reserved_keys"
  by code_simp+

lemma sample_kept_parse:
  "parse_line output_config_default ''system_bar=hidden'' = Inr (output_config_default\<lparr>cfg_system_bar := Some system_bar_hidden\<rparr>)"
  "line_directive ''vrr=HDMI-A-1'' = Some (VrrIs ''HDMI-A-1'')" "line_directive ''DP-1=5,5'' = Some (PositionIs ''DP-1'' \<lparr>point_x = 5, point_y = 5\<rparr> None)"
  by code_simp+

definition sample_config :: output_config where
  "sample_config = output_config_default\<lparr>cfg_system_bar := Some system_bar_hidden, cfg_vrr_outputs := [''HDMI-A-1''],
     cfg_positions := [(''DP-1'', \<lparr>point_x = 5, point_y = 5\<rparr>)]\<rparr>"

lemma sample_parses: "parse_output_config sample_original = Inr sample_config"
proof -
  have "lines_of sample_original = [''system_bar=hidden'', ''vrr=HDMI-A-1'', ''DP-1=5,5'']" by code_simp
  then show ?thesis
    using sample_kept_parse by (simp add: parse_output_config_def parse_line_directive full_def MAX_CONFIGURED_OUTPUTS_def has_key_def
        output_config_default_def sample_config_def)
qed

lemma sample_scale_text: "format_output_scale 180 = ''1.5''"
proof -
  have "f64_round (3 / 2) = Fin (3 / 2)" using f64_round_dyadic [of 6144] by simp
  then have "f64_div (Fin (of_nat 180)) (Fin (of_nat SCALE_BASE)) = Fin (3 / 2)" by (simp add: SCALE_BASE_def)
  moreover have "round_half_even 1500000 = 1500000" using round_half_even_int [of 1500000] by simp
  moreover have "decimal 1 = ''1''" "decimal 500000 = ''500000''" by (simp_all add: decimal.simps char_of_def)
  ultimately show ?thesis by (simp add: format_output_scale_def fixed6_def Let_def pop_zeros.simps)
qed

definition sample_result :: output_config where
  "sample_result = \<lparr>cfg_primary_output = Some ''DP-1'', cfg_positions = [(''DP-1'', \<lparr>point_x = -1920, point_y = 0\<rparr>)],
     cfg_mode_sizes = [(''DP-1'', 1920, 1080)], cfg_refresh_millihz = [(''DP-1'', 59940)], cfg_scales_120 = [(''DP-1'', 180)],
     cfg_transforms = [(''DP-1'', Rotate90)], cfg_scrolling_layout_axes = [], cfg_vrr_outputs = [''HDMI-A-1''],
     cfg_disabled_outputs = [''DP-1''], cfg_system_bar = Some system_bar_hidden, cfg_maximize_padding = None\<rparr>"

lemma sample_texts: "signed_decimal (- 1920) = ''-1920''" "signed_decimal 0 = ''0''" "decimal 1920 = ''1920''" "decimal 1080 = ''1080''" "decimal 59940 = ''59940''"
  by (simp_all add: signed_decimal_def decimal.simps char_of_def)

lemma sample_lines:
  "line_directive ''DP-1=-1920,0'' = Some (PositionIs ''DP-1'' \<lparr>point_x = -1920, point_y = 0\<rparr> None)"
  "line_directive ''mode=DP-1,1920,1080,59940'' = Some (ModeIs ''DP-1'' 1920 1080 59940)"
  "line_directive ''scale=DP-1,1.5'' = Some (ScaleIs ''DP-1'' 180)"
  "line_directive ''transform=DP-1,90'' = Some (TransformIs ''DP-1'' Rotate90)"
  "line_directive ''disabled=DP-1'' = Some (DisabledIs ''DP-1'')" "line_directive ''primary=DP-1'' = Some (PrimaryIs ''DP-1'')"
  using position_line [OF sample_name, of "-1920" 0] mode_line [OF sample_name(1), of 1920 1080 59940] scale_line [OF sample_name(1), of 180]
    transform_line [OF sample_name(1), of Rotate90] name_lines [OF sample_name(1)]
  by (simp_all add: sample_texts sample_scale_text i32_min_def i32_max_def)

lemma sample_rendered_parses: "parse_output_config sample_rendered = Inr sample_result"
proof -
  have lines: "lines_of sample_rendered = [''system_bar=hidden'', ''vrr=HDMI-A-1'', [], MANAGED_OUTPUT_CONFIG_HEADER,
     ''primary=DP-1'', ''DP-1=-1920,0'', ''mode=DP-1,1920,1080,59940'', ''scale=DP-1,1.5'', ''transform=DP-1,90'', ''disabled=DP-1'']"
    by code_simp
  have blank: "parse_line c [] = Inr c" "parse_line c MANAGED_OUTPUT_CONFIG_HEADER = Inr c" for c
  proof -
    have "line_content [] = []" "line_content MANAGED_OUTPUT_CONFIG_HEADER = []" by code_simp+
    then show "parse_line c [] = Inr c" "parse_line c MANAGED_OUTPUT_CONFIG_HEADER = Inr c" by (simp_all add: parse_line_def)
  qed
  show ?thesis
    unfolding parse_output_config_def lines
    using sample_kept_parse by (simp add: sample_lines blank parse_line_directive full_def MAX_CONFIGURED_OUTPUTS_def has_key_def
        output_config_default_def sample_result_def)
qed

lemma sample_prepared: "prepared_text sample_original [sample_saved] (Some ''DP-1'') = Inr sample_rendered"
proof -
  have "kept_lines sample_original (set [''DP-1'']) = [''system_bar=hidden'', ''vrr=HDMI-A-1'']" by code_simp
  moreover have "pop_blank_lines [''system_bar=hidden'', ''vrr=HDMI-A-1''] = [''system_bar=hidden'', ''vrr=HDMI-A-1'']" by code_simp
  ultimately have "rendered_lines sample_original [sample_saved] (Some ''DP-1'') = [''system_bar=hidden'', ''vrr=HDMI-A-1'', [], MANAGED_OUTPUT_CONFIG_HEADER,
     ''primary=DP-1'', ''DP-1=-1920,0'', ''mode=DP-1,1920,1080,59940'', ''scale=DP-1,1.5'', ''transform=DP-1,90'', ''disabled=DP-1'']"
    by (simp add: rendered_lines_def render_output_def sample_saved_def sample_texts sample_scale_text)
  moreover have "sort_persisted [] [sample_saved] = Inr [sample_saved]"
    using sample_name(1) by (simp add: validate_persisted_output_def scale_bounds sample_saved_def)
  ultimately have "render_persisted_output_config sample_original [sample_saved] (Some ''DP-1'') = Inr sample_rendered"
    using sample_name(1) by (simp add: render_persisted_output_config_def MAX_CONFIGURED_OUTPUTS_def sample_rendered_def option_is_some_and_def)
  moreover have "length sample_rendered \<le> MAX_OUTPUT_CONFIG_BYTES"
    by (simp add: sample_rendered_def MAX_OUTPUT_CONFIG_BYTES_def MANAGED_OUTPUT_CONFIG_HEADER_def)
  ultimately show ?thesis by (simp add: prepared_text_def sample_parses sample_rendered_parses)
qed

theorem saved_configuration_reads_back_witness:
  "\<exists>c1. parse_output_config sample_rendered = Inr c1 \<and> configured_as c1 sample_saved \<and> same_output c1 sample_config ''HDMI-A-1'' \<and>
     cfg_primary_output c1 = Some ''DP-1'' \<and> cfg_system_bar c1 = Some system_bar_hidden"
proof -
  have "list_all persistable [sample_saved]" using sample_name(2) by (simp add: persistable_def sample_saved_def i32_min_def i32_max_def)
  then obtain c1 where "parse_output_config sample_rendered = Inr c1 \<and> list_all (configured_as c1) [sample_saved] \<and>
      (\<forall>name. name \<notin> po_name ` set [sample_saved] \<longrightarrow> same_output c1 sample_config name) \<and>
      cfg_primary_output c1 = Some ''DP-1'' \<and> cfg_system_bar c1 = cfg_system_bar sample_config"
    using saved_configuration_reads_back [OF sample_parses sample_prepared] by blast
  then show ?thesis by (intro exI [of _ c1]) (simp add: sample_saved_def sample_config_def)
qed

end
