(* ===== verification/Output_Config_Limits.thy ===== *)
theory Output_Config_Limits
  imports Output_Config_Roundtrip "HOL-Library.Multiset"
begin

text \<open>
  When a configuration file parses: every line is empty or a directive, no two lines set the same entry, and no kind of
  entry exceeds its limit. It follows that saving the outputs of a file with room for them never fails for the
  text that was generated.
\<close>

section \<open>Which files parse\<close>

text \<open>What an entry occupies: a second one for it is refused.\<close>

datatype entry_kind = KPrimary | KBar | KPadding | KPosition | KSize | KRefresh | KScale | KTransform | KAxis | KVrr | KDisabled

fun entry_slot :: "config_entry \<Rightarrow> entry_kind \<times> string option" where
  "entry_slot (EPrimary _) = (KPrimary, None)"
| "entry_slot (EBar _) = (KBar, None)"
| "entry_slot (EPadding _) = (KPadding, None)"
| "entry_slot (EPosition name _) = (KPosition, Some name)"
| "entry_slot (ESize name _) = (KSize, Some name)"
| "entry_slot (ERefresh name _) = (KRefresh, Some name)"
| "entry_slot (EScale name _) = (KScale, Some name)"
| "entry_slot (ETransform name _) = (KTransform, Some name)"
| "entry_slot (EAxis name _) = (KAxis, Some name)"
| "entry_slot (EVrr name) = (KVrr, Some name)"
| "entry_slot (EDisabled name) = (KDisabled, Some name)"

definition slots :: "config_entry set \<Rightarrow> (entry_kind \<times> string option) set" where
  "slots es = entry_slot ` es"

definition taken :: "output_config \<Rightarrow> (entry_kind \<times> string option) set" where
  "taken c = slots {e. holds c e}"

fun directive_kind :: "directive \<Rightarrow> entry_kind" where
  "directive_kind (PrimaryIs _) = KPrimary"
| "directive_kind (SystemBarIs _) = KBar"
| "directive_kind (MaximizePaddingIs _) = KPadding"
| "directive_kind (ModeIs _ _ _ _) = KSize"
| "directive_kind (ScaleIs _ _) = KScale"
| "directive_kind (TransformIs _ _) = KTransform"
| "directive_kind (AxisIs _ _) = KAxis"
| "directive_kind (DisabledIs _) = KDisabled"
| "directive_kind (VrrIs _) = KVrr"
| "directive_kind (PositionIs _ _ _) = KPosition"

text \<open>How many entries of a kind a configuration has; the kinds without a limit do not count.\<close>

fun used :: "output_config \<Rightarrow> entry_kind \<Rightarrow> nat" where
  "used c KPosition = length (cfg_positions c)"
| "used c KSize = length (cfg_mode_sizes c)"
| "used c KScale = length (cfg_scales_120 c)"
| "used c KTransform = length (cfg_transforms c)"
| "used c KAxis = length (cfg_scrolling_layout_axes c)"
| "used c KVrr = length (cfg_vrr_outputs c)"
| "used c KDisabled = length (cfg_disabled_outputs c)"
| "used c _ = 0"

definition limited :: "entry_kind \<Rightarrow> bool" where
  "limited kind = (kind \<notin> {KPrimary, KBar, KPadding, KRefresh})"

definition fits :: "output_config \<Rightarrow> directive \<Rightarrow> bool" where
  "fits c d \<longleftrightarrow> slots (directive_entries d) \<inter> taken c = {} \<and>
     (limited (directive_kind d) \<longrightarrow> used c (directive_kind d) < MAX_CONFIGURED_OUTPUTS)"

lemma taken_iff:
  "(KPrimary, None) \<in> taken c \<longleftrightarrow> cfg_primary_output c \<noteq> None" "(KBar, None) \<in> taken c \<longleftrightarrow> cfg_system_bar c \<noteq> None"
  "(KPadding, None) \<in> taken c \<longleftrightarrow> cfg_maximize_padding c \<noteq> None"
  "(KPosition, Some name) \<in> taken c \<longleftrightarrow> has_key (cfg_positions c) name" "(KSize, Some name) \<in> taken c \<longleftrightarrow> has_key (cfg_mode_sizes c) name"
  "(KRefresh, Some name) \<in> taken c \<longleftrightarrow> has_key (cfg_refresh_millihz c) name" "(KScale, Some name) \<in> taken c \<longleftrightarrow> has_key (cfg_scales_120 c) name"
  "(KTransform, Some name) \<in> taken c \<longleftrightarrow> has_key (cfg_transforms c) name"
  "(KAxis, Some name) \<in> taken c \<longleftrightarrow> has_key (cfg_scrolling_layout_axes c) name"
  "(KVrr, Some name) \<in> taken c \<longleftrightarrow> name \<in> set (cfg_vrr_outputs c)" "(KDisabled, Some name) \<in> taken c \<longleftrightarrow> name \<in> set (cfg_disabled_outputs c)"
proof -
  have ex: "(\<exists>e. P e) \<longleftrightarrow> (\<exists>n. P (EPrimary n)) \<or> (\<exists>b. P (EBar b)) \<or> (\<exists>p. P (EPadding p)) \<or> (\<exists>n p. P (EPosition n p)) \<or> (\<exists>n s. P (ESize n s)) \<or>
      (\<exists>n r. P (ERefresh n r)) \<or> (\<exists>n s. P (EScale n s)) \<or> (\<exists>n t. P (ETransform n t)) \<or> (\<exists>n a. P (EAxis n a)) \<or> (\<exists>n. P (EVrr n)) \<or> (\<exists>n. P (EDisabled n))"
    for P :: "config_entry \<Rightarrow> bool" by (metis config_entry.exhaust)
  have iff: "s \<in> taken c \<longleftrightarrow> (\<exists>e. holds c e \<and> s = entry_slot e)" for s by (auto simp: taken_def slots_def)
  show "(KPrimary, None) \<in> taken c \<longleftrightarrow> cfg_primary_output c \<noteq> None" "(KBar, None) \<in> taken c \<longleftrightarrow> cfg_system_bar c \<noteq> None"
    "(KPadding, None) \<in> taken c \<longleftrightarrow> cfg_maximize_padding c \<noteq> None"
    "(KPosition, Some name) \<in> taken c \<longleftrightarrow> has_key (cfg_positions c) name" "(KSize, Some name) \<in> taken c \<longleftrightarrow> has_key (cfg_mode_sizes c) name"
    "(KRefresh, Some name) \<in> taken c \<longleftrightarrow> has_key (cfg_refresh_millihz c) name" "(KScale, Some name) \<in> taken c \<longleftrightarrow> has_key (cfg_scales_120 c) name"
    "(KTransform, Some name) \<in> taken c \<longleftrightarrow> has_key (cfg_transforms c) name"
    "(KAxis, Some name) \<in> taken c \<longleftrightarrow> has_key (cfg_scrolling_layout_axes c) name"
    "(KVrr, Some name) \<in> taken c \<longleftrightarrow> name \<in> set (cfg_vrr_outputs c)" "(KDisabled, Some name) \<in> taken c \<longleftrightarrow> name \<in> set (cfg_disabled_outputs c)"
    unfolding iff ex by (simp_all add: has_key_def)
qed

definition small :: "output_config \<Rightarrow> bool" where
  "small c \<longleftrightarrow> (\<forall>kind. used c kind \<le> MAX_CONFIGURED_OUTPUTS)"

lemma add_directive_fits:
  assumes "small c" "cfg_primary_output c = None \<or> directive_key d \<noteq> Some ''primary''"
    "cfg_system_bar c = None \<or> directive_key d \<noteq> Some ''system_bar''" "cfg_maximize_padding c = None \<or> directive_key d \<noteq> Some ''maximize_padding''"
  shows "fits c d \<longleftrightarrow> (\<exists>c'. add_directive c d = Inr c')"
proof -
  have "used c (directive_kind d) \<le> MAX_CONFIGURED_OUTPUTS" using assms(1) by (simp add: small_def)
  then show ?thesis using assms(2-4)
    by (cases d) (auto simp: fits_def slots_def taken_iff limited_def full_def split: option.splits)
qed

lemma add_directive_used:
  "add_directive c d = Inr c' \<Longrightarrow> limited kind \<Longrightarrow> used c' kind = used c kind + (if directive_kind d = kind then 1 else 0)"
  by (cases d; cases kind) (auto simp: limited_def split: if_splits option.splits)

definition readable :: "string \<Rightarrow> bool" where
  "readable raw_line \<longleftrightarrow> line_content raw_line = [] \<or> line_directive raw_line \<noteq> None"

definition line_slots :: "string \<Rightarrow> (entry_kind \<times> string option) set" where
  "line_slots raw_line = slots (line_entries raw_line)"

definition apart :: "string \<Rightarrow> string \<Rightarrow> bool" where
  "apart l l' \<longleftrightarrow> line_slots l \<inter> line_slots l' = {}"

definition of_kind :: "entry_kind \<Rightarrow> string \<Rightarrow> bool" where
  "of_kind kind raw_line \<longleftrightarrow> (case line_directive raw_line of Some d \<Rightarrow> directive_kind d = kind | None \<Rightarrow> False)"

definition occurrences :: "entry_kind \<Rightarrow> string list \<Rightarrow> nat" where
  "occurrences kind ls = length (filter (of_kind kind) ls)"

lemma occurrences_simps [simp]:
  "occurrences kind [] = 0" "occurrences kind (l # ls) = (if of_kind kind l then 1 else 0) + occurrences kind ls"
  "occurrences kind (ls @ ls') = occurrences kind ls + occurrences kind ls'"
  by (simp_all add: occurrences_def)

lemma occurrences_filter: "occurrences kind (filter P ls) \<le> occurrences kind ls"
  by (induction ls) auto

lemma parse_line_fits:
  assumes "small c"
  shows "(\<exists>c'. parse_line c l = Inr c') \<longleftrightarrow> line_content l = [] \<or> (\<exists>d. line_directive l = Some d \<and> fits c d)"
proof (cases "line_directive l")
  case None
  then show ?thesis by (auto simp: parse_line_def line_directive_def Let_def split: if_splits sum.splits)
next
  case (Some d)
  then have d: "line_content l \<noteq> []" "parse_directive (line_content l) = Inr d"
    by (auto simp: line_directive_def split: if_splits sum.splits)
  show ?thesis
  proof (cases "repeated_single c (line_content l)")
    case True
    then have "\<not> fits c d" using parse_directive_key(1) [OF d(2)]
      by (cases d) (auto simp: repeated_single_def fits_def slots_def taken_iff dest: parse_directive_key(2) [OF d(2)] simp: reserved_keys_def)
    then show ?thesis using True d Some by (simp add: parse_line_def)
  next
    case False
    then have "fits c d \<longleftrightarrow> (\<exists>c'. add_directive c d = Inr c')"
      using parse_directive_key(1) [OF d(2)] by (intro add_directive_fits [OF assms]) (auto simp: repeated_single_def)
    then show ?thesis using False d Some by (simp add: parse_line_def)
  qed
qed

lemma parse_line_effect:
  assumes "parse_line c l = Inr c'"
  shows "taken c' = taken c \<union> line_slots l" "limited kind \<Longrightarrow> used c' kind = used c kind + occurrences kind [l]"
proof -
  show "taken c' = taken c \<union> line_slots l"
    using parse_line_holds(1) [OF assms] by (auto simp: taken_def line_slots_def slots_def)
  show "used c' kind = used c kind + occurrences kind [l]" if "limited kind"
  proof (cases "line_content l = []")
    case True
    then show ?thesis using assms by (simp add: parse_line_def of_kind_def line_directive_def)
  next
    case False
    then obtain d where "parse_directive (line_content l) = Inr d" "add_directive c d = Inr c'"
      using assms by (auto simp: parse_line_def Let_def split: if_splits sum.splits)
    then show ?thesis using add_directive_used [OF _ that] False by (simp add: of_kind_def line_directive_def)
  qed
qed

lemma used_unlimited: "\<not> limited kind \<Longrightarrow> used c kind = 0"
  by (cases kind) (simp_all add: limited_def)

lemma line_fits:
  assumes "line_directive l = Some d"
  shows "fits c d \<longleftrightarrow> line_slots l \<inter> taken c = {} \<and> (\<forall>kind. limited kind \<longrightarrow> of_kind kind l \<longrightarrow> used c kind < MAX_CONFIGURED_OUTPUTS)"
  using assms by (auto simp: fits_def line_slots_def line_entries_def of_kind_def)

lemma parse_line_small:
  assumes "small c" "parse_line c l = Inr c'"
  shows "small c'"
  unfolding small_def
proof
  fix kind
  show "used c' kind \<le> MAX_CONFIGURED_OUTPUTS"
  proof (cases "limited kind \<and> of_kind kind l")
    case True
    then obtain d where "line_directive l = Some d" "fits c d"
      using parse_line_fits [OF assms(1), of l] assms(2) by (auto simp: of_kind_def line_directive_def split: option.splits if_splits)
    then show ?thesis using True line_fits parse_line_effect(2) [OF assms(2), of kind] by fastforce
  next
    case False
    then show ?thesis using assms(1) parse_line_effect(2) [OF assms(2), of kind] used_unlimited [of kind c']
      by (cases "limited kind") (simp_all add: small_def)
  qed
qed

text \<open>The lines of a file that parses, relative to what has been read before.\<close>

lemma parse_lines_iff:
  "small c \<Longrightarrow> (\<exists>c'. parse_lines i c ls = Inr c') \<longleftrightarrow>
     (\<forall>l \<in> set ls. readable l \<and> line_slots l \<inter> taken c = {}) \<and> sorted_wrt apart ls \<and>
     (\<forall>kind. limited kind \<longrightarrow> used c kind + occurrences kind ls \<le> MAX_CONFIGURED_OUTPUTS)"
proof (induction ls arbitrary: i c)
  case Nil
  then show ?case by (simp add: small_def)
next
  case (Cons l ls)
  show ?case
  proof (cases "parse_line c l")
    case (Inl err)
    then have no: "line_content l \<noteq> []" "\<And>d. line_directive l = Some d \<Longrightarrow> \<not> fits c d" using parse_line_fits [OF Cons.prems, of l] by auto
    have "\<exists>kind. limited kind \<and> \<not> used c kind + occurrences kind (l # ls) \<le> MAX_CONFIGURED_OUTPUTS"
      if reads: "readable l" and free: "line_slots l \<inter> taken c = {}"
    proof -
      obtain d where "line_directive l = Some d" using reads no(1) by (auto simp: readable_def)
      then obtain kind where "limited kind" "of_kind kind l" "\<not> used c kind < MAX_CONFIGURED_OUTPUTS"
        using no(2) line_fits free by blast
      then show ?thesis by (intro exI [of _ kind]) simp
    qed
    then show ?thesis using Inl by auto
  next
    case (Inr c1)
    have ok: "readable l" using parse_line_holds(2) [OF Inr] by (simp add: readable_def)
    have free: "line_slots l \<inter> taken c = {}"
      using parse_line_fits [OF Cons.prems, of l] Inr line_fits no_entries [of l] by (fastforce simp: line_slots_def slots_def)
    note effect = parse_line_effect [OF Inr]
    have "(\<exists>c'. parse_lines i c (l # ls) = Inr c') \<longleftrightarrow> (\<exists>c'. parse_lines (i + 1) c1 ls = Inr c')" using Inr by simp
    also have "\<dots> \<longleftrightarrow> (\<forall>m \<in> set ls. readable m \<and> line_slots m \<inter> taken c1 = {}) \<and> sorted_wrt apart ls \<and>
        (\<forall>kind. limited kind \<longrightarrow> used c1 kind + occurrences kind ls \<le> MAX_CONFIGURED_OUTPUTS)"
      by (rule Cons.IH [OF parse_line_small [OF Cons.prems Inr]])
    also have "\<dots> \<longleftrightarrow> (\<forall>m \<in> set (l # ls). readable m \<and> line_slots m \<inter> taken c = {}) \<and> sorted_wrt apart (l # ls) \<and>
        (\<forall>kind. limited kind \<longrightarrow> used c kind + occurrences kind (l # ls) \<le> MAX_CONFIGURED_OUTPUTS)"
      using ok free effect(2) unfolding effect(1) by (auto simp: apart_def)
    finally show ?thesis .
  qed
qed

section \<open>The generated text parses\<close>

lemma default_empty: "taken output_config_default = {}" "used output_config_default kind = 0" "small output_config_default"
proof -
  show "taken output_config_default = {}" by (simp add: taken_def slots_def default_holds)
  show used: "used output_config_default kind = 0" for kind by (cases kind) (simp_all add: output_config_default_def)
  show "small output_config_default" by (simp add: small_def used)
qed

text \<open>A file parses exactly when its lines are readable, set no entry twice and respect the limits.\<close>

lemma parse_output_config_iff:
  "(\<exists>c. parse_output_config contents = Inr c) \<longleftrightarrow>
     list_all readable (lines_of contents) \<and> sorted_wrt apart (lines_of contents) \<and>
     (\<forall>kind. limited kind \<longrightarrow> occurrences kind (lines_of contents) \<le> MAX_CONFIGURED_OUTPUTS)"
  unfolding parse_output_config_def parse_lines_iff [OF default_empty(3)] by (simp add: default_empty list_all_iff)

lemma parse_lines_used:
  "parse_lines i c ls = Inr c' \<Longrightarrow> limited kind \<Longrightarrow> used c' kind = used c kind + occurrences kind ls"
proof (induction i c ls rule: parse_lines.induct)
  case (2 i c raw_line rest)
  then obtain mid where mid: "parse_line c raw_line = Inr mid" "parse_lines (i + 1) mid rest = Inr c'" by (auto split: sum.splits)
  show ?case using 2(1) [OF mid 2(3)] parse_line_effect(2) [OF mid(1) 2(3)] by simp
qed simp

lemma strip_cr_lines:
  "line_slots (strip_cr l) = line_slots l" "readable (strip_cr l) = readable l" "of_kind kind (strip_cr l) = of_kind kind l"
  by (simp_all add: line_slots_def line_entries_strip_cr readable_def of_kind_def line_directive_def line_content_strip_cr)

lemma strip_cr_file:
  "list_all readable (map strip_cr ls) = list_all readable ls" "sorted_wrt apart (map strip_cr ls) = sorted_wrt apart ls"
  "occurrences kind (map strip_cr ls) = occurrences kind ls"
  by (induction ls) (simp_all add: strip_cr_lines apart_def)

lemma blank_lines:
  "readable []" "line_slots [] = {}" "\<not> of_kind kind []"
  "readable MANAGED_OUTPUT_CONFIG_HEADER" "line_slots MANAGED_OUTPUT_CONFIG_HEADER = {}" "\<not> of_kind kind MANAGED_OUTPUT_CONFIG_HEADER"
proof -
  have "line_content [] = []" "line_content MANAGED_OUTPUT_CONFIG_HEADER = []" by code_simp+
  then show "readable []" "line_slots [] = {}" "\<not> of_kind kind []"
    "readable MANAGED_OUTPUT_CONFIG_HEADER" "line_slots MANAGED_OUTPUT_CONFIG_HEADER = {}" "\<not> of_kind kind MANAGED_OUTPUT_CONFIG_HEADER"
    by (simp_all add: readable_def line_slots_def slots_def line_entries_def line_directive_def of_kind_def)
qed

lemma blank_apart: "apart [] l" "apart l []" "apart MANAGED_OUTPUT_CONFIG_HEADER l" "apart l MANAGED_OUTPUT_CONFIG_HEADER"
  by (simp_all add: apart_def blank_lines)

text \<open>The lines of one output, and of all of them.\<close>

lemma render_output_shape:
  assumes "validate_persisted_output out = None" "persistable out"
  obtains position mode scale transform axis vrr disabled where
    "render_output out = [position, mode, scale] @ (if po_transform out \<noteq> Normal then [transform] else []) @
       (if po_axis out \<noteq> Auto then [axis] else []) @ (if po_adaptive_sync out then [vrr] else []) @ (if \<not> po_enabled out then [disabled] else [])"
    "line_directive position = Some (PositionIs (po_name out) \<lparr>point_x = po_x out, point_y = po_y out\<rparr> None)"
    "line_directive mode = Some (ModeIs (po_name out) (po_width out) (po_height out) (po_refresh_millihz out))"
    "line_directive scale = Some (ScaleIs (po_name out) (po_scale_120 out))"
    "line_directive transform = Some (TransformIs (po_name out) (po_transform out))"
    "line_directive axis = Some (AxisIs (po_name out) (po_axis out))"
    "line_directive vrr = Some (VrrIs (po_name out))" "line_directive disabled = Some (DisabledIs (po_name out))"
proof -
  note v = valid_persisted [OF assms(1)]
  show thesis
  proof (rule that [OF render_output_def])
    show "line_directive (po_name out @ ''='' @ signed_decimal (po_x out) @ '','' @ signed_decimal (po_y out)) =
        Some (PositionIs (po_name out) \<lparr>point_x = po_x out, point_y = po_y out\<rparr> None)"
      using assms(2) v(1) by (intro position_line) (simp_all add: persistable_def)
    show "line_directive (''mode='' @ po_name out @ '','' @ decimal (po_width out) @ '','' @ decimal (po_height out) @ '','' @ decimal (po_refresh_millihz out)) =
        Some (ModeIs (po_name out) (po_width out) (po_height out) (po_refresh_millihz out))"
      using assms(2) v by (intro mode_line) (simp_all add: persistable_def)
  qed (rule scale_line [OF v(1,4,5)] transform_line [OF v(1)] axis_line [OF v(1)] name_lines(2,3) [OF v(1)])+
qed

lemma render_output_lines:
  assumes "validate_persisted_output out = None" "persistable out"
  shows "list_all readable (render_output out)" "sorted_wrt apart (render_output out)" "occurrences kind (render_output out) \<le> 1"
    and "l \<in> set (render_output out) \<Longrightarrow> line_slots l \<subseteq> UNIV \<times> {Some (po_name out)}"
proof -
  obtain position mode scale transform axis vrr disabled where
    shape: "render_output out = [position, mode, scale] @ (if po_transform out \<noteq> Normal then [transform] else []) @
       (if po_axis out \<noteq> Auto then [axis] else []) @ (if po_adaptive_sync out then [vrr] else []) @ (if \<not> po_enabled out then [disabled] else [])"
    and lines: "line_directive position = Some (PositionIs (po_name out) \<lparr>point_x = po_x out, point_y = po_y out\<rparr> None)"
    "line_directive mode = Some (ModeIs (po_name out) (po_width out) (po_height out) (po_refresh_millihz out))"
    "line_directive scale = Some (ScaleIs (po_name out) (po_scale_120 out))"
    "line_directive transform = Some (TransformIs (po_name out) (po_transform out))"
    "line_directive axis = Some (AxisIs (po_name out) (po_axis out))"
    "line_directive vrr = Some (VrrIs (po_name out))" "line_directive disabled = Some (DisabledIs (po_name out))"
    using render_output_shape [OF assms] .
  show "list_all readable (render_output out)" unfolding shape by (simp add: readable_def lines)
  show "sorted_wrt apart (render_output out)"
    unfolding shape by (simp add: apart_def line_slots_def line_entries_def slots_def lines)
  show "occurrences kind (render_output out) \<le> 1"
    unfolding shape by (cases kind) (simp_all add: of_kind_def lines)
  show "line_slots l \<subseteq> UNIV \<times> {Some (po_name out)}" if "l \<in> set (render_output out)"
    using that lines unfolding shape by (auto simp: line_slots_def line_entries_def slots_def split: if_splits)
qed

lemma render_outputs_lines:
  assumes "\<forall>out \<in> set outs. validate_persisted_output out = None \<and> persistable out" "distinct (map po_name outs)"
  shows "list_all readable (concat (map render_output outs))" "sorted_wrt apart (concat (map render_output outs))"
    "occurrences kind (concat (map render_output outs)) \<le> length outs"
    and "l \<in> set (concat (map render_output outs)) \<Longrightarrow> line_slots l \<subseteq> UNIV \<times> Some ` po_name ` set outs"
proof -
  have names: "line_slots l \<subseteq> UNIV \<times> {Some (po_name out)}" if "out \<in> set outs" "l \<in> set (render_output out)" for out l
    using assms(1) that render_output_lines(4) by blast
  show "list_all readable (concat (map render_output outs))"
    using assms(1) render_output_lines(1) by (auto simp: list_all_iff)
  show "line_slots l \<subseteq> UNIV \<times> Some ` po_name ` set outs" if "l \<in> set (concat (map render_output outs))"
    using that names by fastforce
  show "sorted_wrt apart (concat (map render_output outs))" using assms names
  proof (induction outs)
    case (Cons out outs)
    have "apart l m" if l: "l \<in> set (render_output out)" and m: "m \<in> set (concat (map render_output outs))" for l m
    proof -
      obtain out' where "out' \<in> set outs" "m \<in> set (render_output out')" using m by auto
      then have "line_slots l \<subseteq> UNIV \<times> {Some (po_name out)}" "line_slots m \<subseteq> UNIV \<times> {Some (po_name out')}" "po_name out \<noteq> po_name out'"
        using Cons.prems l by (auto simp: image_iff)
      then show ?thesis by (fastforce simp: apart_def)
    qed
    then show ?case using Cons render_output_lines(2) by (simp add: sorted_wrt_append)
  qed simp
  show "occurrences kind (concat (map render_output outs)) \<le> length outs" using assms(1)
  proof (induction outs)
    case (Cons out outs)
    then show ?case using render_output_lines(3) [of out kind] by fastforce
  qed simp
qed

text \<open>What is kept of the file has no more of any entry than the file had, and none that is written anew.\<close>

lemma pop_blank_prefix: obtains blanks where "ls = pop_blank_lines ls @ blanks"
proof
  show "ls = pop_blank_lines ls @ rev (takeWhile (\<lambda>line. trim line = []) (rev ls))"
    unfolding pop_blank_lines_def rev_append [symmetric] by simp
qed

lemma kept_file:
  fixes names :: "string set"
  assumes "parse_output_config original = Inr c0"
  defines "kept \<equiv> pop_blank_lines (kept_lines original names)"
  shows "list_all readable kept" "sorted_wrt apart kept" "limited kind \<Longrightarrow> occurrences kind kept \<le> used c0 kind"
    and "l \<in> set kept \<Longrightarrow> s \<in> line_slots l \<Longrightarrow> s \<noteq> (KPrimary, None) \<and> snd s \<notin> Some ` names"
proof -
  have whole: "list_all readable (lines_of original)" "sorted_wrt apart (lines_of original)"
    using parse_output_config_iff assms(1) by blast+
  obtain blanks where split: "kept_lines original names = kept @ blanks" unfolding kept_def using pop_blank_prefix .
  have "list_all readable (kept_lines original names)" "sorted_wrt apart (kept_lines original names)"
    using whole by (auto simp: kept_lines_def list_all_iff intro: sorted_wrt_filter)
  then show "list_all readable kept" "sorted_wrt apart kept" by (simp_all add: split sorted_wrt_append)
  show "occurrences kind kept \<le> used c0 kind" if "limited kind"
  proof -
    have "occurrences kind kept \<le> occurrences kind (kept_lines original names)" by (simp add: split)
    also have "\<dots> \<le> occurrences kind (lines_of original)"
      by (simp add: kept_lines_def occurrences_filter)
    also have "\<dots> = used c0 kind"
      using parse_lines_used [OF assms(1) [unfolded parse_output_config_def] that] by (simp add: default_empty)
    finally show ?thesis .
  qed
  show "s \<noteq> (KPrimary, None) \<and> snd s \<notin> Some ` names" if l: "l \<in> set kept" and slot: "s \<in> line_slots l"
  proof -
    obtain e where e: "e \<in> line_entries l" "s = entry_slot e" using slot by (auto simp: line_slots_def slots_def)
    have "(\<forall>name. e \<noteq> EPrimary name) \<and> (\<forall>name. entry_name e = Some name \<longrightarrow> name \<notin> names)"
      using kept_entries [of original names e] e(1) l split by auto
    then show ?thesis using e(2) by (cases e) auto
  qed
qed

lemma primary_line:
  assumes "\<not> invalid_primary_name name"
  shows "readable (''primary='' @ name)" "line_slots (''primary='' @ name) = {(KPrimary, None)}" "of_kind kind (''primary='' @ name) \<longleftrightarrow> kind = KPrimary"
  using name_lines(1) [OF assms] by (auto simp: readable_def line_slots_def line_entries_def slots_def of_kind_def)

definition has_room :: "output_config \<Rightarrow> nat \<Rightarrow> bool" where
  "has_room c n \<longleftrightarrow> list_all (\<lambda>kind. used c kind + n \<le> MAX_CONFIGURED_OUTPUTS) [KPosition, KSize, KScale, KTransform, KAxis, KVrr, KDisabled]"

lemma has_room_limited: "has_room c n \<Longrightarrow> limited kind \<Longrightarrow> used c kind + n \<le> MAX_CONFIGURED_OUTPUTS"
  by (cases kind) (simp_all add: has_room_def limited_def)

lemma insert_persisted_mset: "mset (insert_persisted out outs) = add_mset out (mset outs)"
  by (induction outs) auto

lemma sort_persisted_mset: "sort_persisted sorted' outs = Inr result \<Longrightarrow> mset result = mset sorted' + mset outs"
  by (induction sorted' outs rule: sort_persisted.induct) (auto simp: insert_persisted_mset split: option.splits if_splits)

lemma sort_persisted_names:
  assumes "sort_persisted [] outs = Inr result"
  shows "length result = length outs" "distinct (map po_name result)"
proof -
  have perm: "mset result = mset outs" using sort_persisted_mset [OF assms] by simp
  then show "length result = length outs" by (rule mset_eq_length)
  have "mset (map po_name result) = mset (map po_name outs)" using perm by simp
  then show "distinct (map po_name result)" using sort_persisted_Inr [OF assms] mset_eq_imp_distinct_iff by blast
qed

lemma rendered_parses:
  assumes "parse_output_config original = Inr c0" "render_persisted_output_config original outs primary = Inr rendered"
    and "list_all persistable outs" "has_room c0 (length outs)"
  shows "\<exists>c1. parse_output_config rendered = Inr c1"
proof -
  from assms(2) obtain sorted' where sorted': "sort_persisted [] outs = Inr sorted'"
    and primary: "\<not> option_is_some_and primary invalid_primary_name"
    and rendered: "rendered = join_with newline (rendered_lines original sorted' primary) @ [newline]"
    by (auto simp: render_persisted_output_config_def split: if_splits sum.splits)
  note srt = sort_persisted_Inr [OF sorted'] sort_persisted_names [OF sorted']
  have valid: "\<forall>out \<in> set sorted'. validate_persisted_output out = None \<and> persistable out"
    using srt(1) assms(3) by (auto simp: list_all_iff)
  have names: "distinct (map po_name sorted')" "length sorted' = length outs" using srt by simp_all
  have checked: "\<forall>out \<in> set sorted'. validate_persisted_output out = None" using valid by blast
  have lines: "lines_of rendered = map strip_cr (rendered_lines original sorted' primary)"
    unfolding rendered using rendered_lines_newline [OF checked primary]
    by (intro lines_of_join) (auto simp: rendered_lines_def Let_def)
  define kept where "kept = pop_blank_lines (kept_lines original (po_name ` set sorted'))"
  define body where "body = concat (map render_output sorted')"
  note kept = kept_file [OF assms(1), where names = "po_name ` set sorted'", folded kept_def]
  note body = render_outputs_lines [OF valid names(1), folded body_def]
  have named: "\<not> invalid_primary_name name" if "primary = Some name" for name
    using that primary by (simp add: option_is_some_and_def)
  have shape: "rendered_lines original sorted' primary = (if kept \<noteq> [] then kept @ [[]] else kept) @ [MANAGED_OUTPUT_CONFIG_HEADER] @
      (case primary of Some name \<Rightarrow> [''primary='' @ name] | None \<Rightarrow> []) @ body"
    by (simp add: rendered_lines_def kept_def body_def Let_def)
  have separate: "apart k b" if "k \<in> set kept" "b \<in> set body" for k b
    using kept(4) [OF that(1)] body(4) [OF that(2)] unfolding apart_def by fastforce
  have separate_primary: "k \<in> set kept \<Longrightarrow> apart k p" "b \<in> set body \<Longrightarrow> apart p b" if "line_slots p = {(KPrimary, None)}" for k b p
    using kept(4) [of k] body(4) [of b] that unfolding apart_def by auto
  have "list_all readable (rendered_lines original sorted' primary)"
    using kept(1) body(1) named primary_line(1) by (auto simp: shape blank_lines split: option.splits)
  moreover have "sorted_wrt apart (rendered_lines original sorted' primary)"
    using kept(2) body(2) separate separate_primary named primary_line(2)
    by (auto simp: shape sorted_wrt_append blank_apart split: option.splits)
  moreover have "occurrences kind (rendered_lines original sorted' primary) \<le> MAX_CONFIGURED_OUTPUTS" if "limited kind" for kind
  proof -
    have "kind \<noteq> KPrimary" using that by (auto simp: limited_def)
    then have "occurrences kind (rendered_lines original sorted' primary) = occurrences kind kept + occurrences kind body"
      using named primary_line(3) by (auto simp: shape blank_lines split: option.splits)
    then show ?thesis using kept(3) [OF that] body(3) [of kind] has_room_limited [OF assms(4) that] names(2) by linarith
  qed
  ultimately show ?thesis unfolding parse_output_config_iff lines strip_cr_file by blast
qed

lemma sort_persisted_total:
  "list_all (\<lambda>out. validate_persisted_output out = None) outs \<Longrightarrow> distinct (map po_name outs) \<Longrightarrow>
   po_name ` set outs \<inter> po_name ` set sorted' = {} \<Longrightarrow> \<exists>result. sort_persisted sorted' outs = Inr result"
  by (induction sorted' outs rule: sort_persisted.induct) auto

text \<open>
  Claim C15 (a save within the limits succeeds). When the configuration file parses and has room for one more entry of every
  kind per output, and the outputs are valid, have different names and numbers the format can hold, preparing the
  new text succeeds: the text that was generated parses. The only thing that can stop it is the limit on the length of the file.
\<close>
theorem save_within_limits_succeeds:
  assumes "parse_output_config original = Inr c0" and "has_room c0 (length outs)" and "outs \<noteq> []" and "distinct (map po_name outs)"
    and "list_all (\<lambda>out. validate_persisted_output out = None) outs" and "list_all persistable outs"
    and "\<not> option_is_some_and primary invalid_primary_name"
  shows "\<exists>rendered. render_persisted_output_config original outs primary = Inr rendered \<and>
    prepared_text original outs primary = (if length rendered \<le> MAX_OUTPUT_CONFIG_BYTES then Inr rendered else Inl TooLong)"
proof -
  have "length outs \<le> MAX_CONFIGURED_OUTPUTS" using assms(2) by (simp add: has_room_def)
  then obtain rendered where rendered: "render_persisted_output_config original outs primary = Inr rendered"
    using sort_persisted_total [OF assms(5,4), of "[]"] assms(3,7) by (auto simp: render_persisted_output_config_def)
  then obtain c1 where "parse_output_config rendered = Inr c1" using rendered_parses [OF assms(1) rendered assms(6,2)] by blast
  then show ?thesis using assms(1) rendered by (simp add: prepared_text_def not_less)
qed

theorem save_within_limits_succeeds_witness:
  "prepared_text sample_original [sample_saved] (Some ''DP-1'') =
     (if length sample_rendered \<le> MAX_OUTPUT_CONFIG_BYTES then Inr sample_rendered else Inl TooLong)"
proof -
  have room: "has_room sample_config (length [sample_saved])"
    by (simp add: has_room_def sample_config_def output_config_default_def MAX_CONFIGURED_OUTPUTS_def)
  have valid: "list_all (\<lambda>out. validate_persisted_output out = None) [sample_saved]" "list_all persistable [sample_saved]"
    "distinct (map po_name [sample_saved])" "\<not> option_is_some_and (Some ''DP-1'') invalid_primary_name"
    using sample_name by (simp_all add: validate_persisted_output_def scale_bounds sample_saved_def persistable_def i32_min_def i32_max_def
        option_is_some_and_def)
  obtain rendered where "render_persisted_output_config sample_original [sample_saved] (Some ''DP-1'') = Inr rendered \<and>
      prepared_text sample_original [sample_saved] (Some ''DP-1'') = (if length rendered \<le> MAX_OUTPUT_CONFIG_BYTES then Inr rendered else Inl TooLong)"
    using save_within_limits_succeeds [OF sample_parses room _ valid(3,1,2,4)] by auto
  then show ?thesis using sample_prepared by (auto simp: prepared_text_def sample_parses split: if_splits sum.splits prod.splits)
qed

end
