(* ===== verification/Output_Restart.thy ===== *)
theory Output_Restart
  imports Output_Confirmation Output_Config_Limits
begin

text \<open>
  The start of the daemon from the file (\<^verbatim>\<open>options.rs\<close>), and the whole way of a request of the settings: once it is carried
  out, kept and saved, the next start shows the same outputs in the same places.
\<close>

section \<open>Start\<close>

text \<open>The options that the file gives when the command line names no positions.\<close>

definition configured_options :: "output_config \<Rightarrow> output_options" where
  "configured_options c = \<lparr>opt_primary_output = cfg_primary_output c, opt_positions = map_of (cfg_positions c),
     opt_mode_sizes = map_of (cfg_mode_sizes c), opt_refresh_millihz = map_of (cfg_refresh_millihz c), opt_scales_120 = map_of (cfg_scales_120 c),
     opt_transforms = map_of (cfg_transforms c), opt_scrolling_layout_axes = map_of (cfg_scrolling_layout_axes c),
     opt_vrr_outputs = set (cfg_vrr_outputs c), opt_disabled_outputs = set (cfg_disabled_outputs c)\<rparr>"

definition load_output_config :: "string \<Rightarrow> (nat \<times> config_error) option + output_config" where
  "load_output_config contents = (if MAX_OUTPUT_CONFIG_BYTES < length contents then Inl None
     else map_sum Some id (parse_output_config contents))"

definition start_configuration :: "string \<Rightarrow> (nat \<times> config_error) option + runtime_output_configuration" where
  "start_configuration contents = map_sum id (\<lambda>c. from_options (configured_options c)) (load_output_config contents)"

section \<open>Configurations that agree on the connected outputs\<close>

text \<open>The transform that an output is mounted with.\<close>

definition mounting :: "runtime_output_configuration \<Rightarrow> string \<Rightarrow> output_transform" where
  "mounting c name = (case transforms c name of Some t \<Rightarrow> t | None \<Rightarrow> Normal)"

definition agree_on :: "string set \<Rightarrow> runtime_output_configuration \<Rightarrow> runtime_output_configuration \<Rightarrow> bool" where
  "agree_on names a b \<longleftrightarrow> (\<forall>n \<in> names. positions a n = positions b n \<and> modes a n = modes b n \<and> scales_120 a n = scales_120 b n \<and>
     mounting a n = mounting b n \<and> scrolling_layout_axis_of a n = scrolling_layout_axis_of b n \<and>
     (n \<in> vrr_outputs a \<longleftrightarrow> n \<in> vrr_outputs b) \<and> (n \<in> disabled_outputs a \<longleftrightarrow> n \<in> disabled_outputs b))"

lemma effective_mounting:
  "effective_transform c name = (if orientation_sensor_output name then rotated_by (mounting c name) (sensor_rotation c) else mounting c name)"
  by (simp add: effective_transform_def mounting_def Let_def)

lemma agree_on_seen: "agree_on names a b \<Longrightarrow> agree_on names (seen_as s a) (seen_as s b)"
  by (simp add: agree_on_def seen_as_def mounting_def scrolling_layout_axis_of_def)

lemma select_outputs_cong:
  assumes "\<And>n. n \<in> set names \<Longrightarrow> n \<in> d \<longleftrightarrow> n \<in> d'"
  shows "select_outputs names d l = select_outputs names d' l"
proof -
  have "filter (\<lambda>n. n \<notin> d) names = filter (\<lambda>n. n \<notin> d') names" using assms by (intro filter_cong) auto
  then show ?thesis by (simp add: select_outputs_def choose_lit_def)
qed

lemma configured_output_agree:
  assumes "agree_on (connector_name ` set conns) a b" "sensor_rotation a = sensor_rotation b" "c \<in> set conns"
  shows "configured_output hypot a c = configured_output hypot b c"
proof -
  have "modes a (connector_name c) = modes b (connector_name c)" "effective_transform a (connector_name c) = effective_transform b (connector_name c)"
    "connector_name c \<in> vrr_outputs a \<longleftrightarrow> connector_name c \<in> vrr_outputs b"
    using assms by (auto simp: agree_on_def effective_mounting)
  then show ?thesis unfolding configured_output_def Let_def by (simp split: option.split)
qed

lemma configured_outputs_agree:
  assumes "agree_on (connector_name ` set conns) a b" "sensor_rotation a = sensor_rotation b" "lid_closed a = lid_closed b"
  shows "configured_outputs hypot conns n a = configured_outputs hypot conns n b"
proof -
  have "select_outputs (map connector_name conns) (disabled_outputs a) (lid_closed a) =
      select_outputs (map connector_name conns) (disabled_outputs b) (lid_closed b)"
    using assms by (auto simp: agree_on_def intro!: select_outputs_cong)
  moreover have "try_map (configured_output hypot a) (take n (filter P conns)) = try_map (configured_output hypot b) (take n (filter P conns))" for P
    by (rule try_map_cong) (auto dest!: in_set_takeD intro: configured_output_agree [OF assms(1,2)])
  ultimately show ?thesis by (simp add: configured_outputs_def Let_def)
qed

lemma output_specs_agree:
  assumes "agree_on names a b" "co_name ` set outs \<subseteq> names"
  shows "output_specs outs a = output_specs outs b"
proof -
  have "try_map (pending_spec a) outs = try_map (pending_spec b) outs"
  proof (rule try_map_cong)
    fix out assume "out \<in> set outs"
    then have "co_name out \<in> names" using assms(2) by auto
    then have "positions a (co_name out) = positions b (co_name out)" "scales_120 a (co_name out) = scales_120 b (co_name out)"
      using assms(1) by (auto simp: agree_on_def)
    then show "pending_spec a out = pending_spec b out" unfolding pending_spec_def Let_def by (simp split: option.split)
  qed
  then show ?thesis by (simp add: output_specs_def)
qed

section \<open>A saved request\<close>

lemma connector_name_unreserved: "connector_name c \<notin> set reserved_keys"
proof -
  have "list_all (\<lambda>k. CHR ''-'' \<notin> set k) reserved_keys" by code_simp
  moreover have "CHR ''-'' \<in> set (connector_name c)" by (simp add: connector_name_def)
  ultimately show ?thesis by (auto simp: list_all_iff)
qed

text \<open>The numbers of a request as the types of the protocol bound them, with a rate that the file does not take for hertz.\<close>

definition writable_request :: "requested_output \<Rightarrow> bool" where
  "writable_request r \<longleftrightarrow> i32_min \<le> req_x r \<and> req_x r \<le> i32_max \<and> i32_min \<le> req_y r \<and> req_y r \<le> i32_max \<and>
     req_mode_width (req_mode r) < 2 ^ 32 \<and> req_mode_height (req_mode r) < 2 ^ 32 \<and> 10000 \<le> req_mode_refresh (req_mode r) \<and>
     req_mode_refresh (req_mode r) < 2 ^ 32"

lemma request_persistable:
  assumes "writable_request r" "req_name r = connector_name c"
  shows "persistable (persisted_output_of staged r)"
  using assms connector_name_unreserved [of c] by (simp add: persistable_def persisted_output_of_def writable_request_def)

text \<open>What the next start reads of an output is what the session holds of it.\<close>

lemma loaded_agrees:
  assumes "staged_as current c r staged" "req_name r = connector_name c" "configured_as c1 (persisted_output_of staged r)"
  shows "agree_on {connector_name c} (from_options (configured_options c1)) staged"
  using assms
  by (simp add: agree_on_def staged_as_def configured_as_def persisted_output_of_def from_options_def configured_options_def requested_preference_def
      mounting_def scrolling_layout_axis_of_def Let_def split: option.splits if_splits)

lemma kept_saved:
  assumes "awaiting p c contents t" "ac_prepared_persistence p = Some prepared" "contents = Some (prepared_original prepared)"
    and "pc_token request = token (ac_state p)" "pc_action request = Keep" "handle_confirmation CommitDone request t = (handled, t')"
  shows "handled \<and> ses_file t' = Some (prepared_rendered prepared) \<and> ses_confirmation t' = None \<and> ses_configuration t' = ses_configuration t"
  using assms by (auto simp: handle_confirmation_def awaiting_def commit_prepared_def)

lemma prepared_from_file:
  assumes "prepare_output_persistence written request staged contents = Inr (Some prepared)"
  shows "contents = Some (prepared_original prepared)"
    "prepared_text (prepared_original prepared) (map (persisted_output_of staged) (apply_outputs request)) (apply_primary_output request) =
       Inr (prepared_rendered prepared)"
  using assms by (auto simp: prepare_output_persistence_def split: if_splits option.splits sum.splits)

lemma prepared_length: "prepared_text original outs primary = Inr rendered \<Longrightarrow> length rendered \<le> MAX_OUTPUT_CONFIG_BYTES"
  by (auto simp: prepared_text_def split: sum.splits prod.splits if_splits)

text \<open>The configuration of the next start agrees with the one that was kept.\<close>

lemma restart_agrees:
  assumes "configuration_from_output_request request conns n current available = Inr (staged, powers)"
    and "prepare_output_persistence written request staged contents = Inr (Some prepared)"
    and "list_all writable_request (apply_outputs request)"
  shows "\<exists>loaded. start_configuration (prepared_rendered prepared) = Inr loaded \<and> config_primary_output loaded = config_primary_output staged \<and>
    agree_on (connector_name ` set conns) loaded staged"
proof -
  let ?outs = "map (persisted_output_of staged) (apply_outputs request)"
  note text' = prepared_from_file(2) [OF assms(2)] and staging = accepted_staging(1) [OF assms(1)]
  obtain c0 c1 where c: "parse_output_config (prepared_original prepared) = Inr c0"
    "render_persisted_output_config (prepared_original prepared) ?outs (apply_primary_output request) = Inr (prepared_rendered prepared)"
    "parse_output_config (prepared_rendered prepared) = Inr c1" by (rule prepared_text_Inr [OF text'])
  have "connector_name ` set conns = req_name ` set (apply_outputs request)" by (rule accepted_request [OF assms(1)])
  then have names: "\<exists>c \<in> set conns. req_name r = connector_name c" if "r \<in> set (apply_outputs request)" for r
    using that by (metis imageE imageI)
  have "persistable (persisted_output_of staged r)" if r: "r \<in> set (apply_outputs request)" for r
    using names [OF r] assms(3) r by (auto simp: list_all_iff intro: request_persistable)
  then have "list_all persistable ?outs" by (simp add: list_all_iff)
  note saved = rendered_configured [OF c this]
  define loaded where "loaded = from_options (configured_options c1)"
  have "agree_on {connector_name c} loaded staged" if conn: "c \<in> set conns" for c
  proof -
    obtain r where r: "r \<in> set (apply_outputs request)" "req_name r = connector_name c" "staged_as current c r staged"
      using staging [OF conn] by blast
    have "configured_as c1 (persisted_output_of staged r)" using saved(1) r(1) by simp
    then show ?thesis unfolding loaded_def by (rule loaded_agrees [OF r(3,2)])
  qed
  then have "agree_on (connector_name ` set conns) loaded staged" by (simp add: agree_on_def)
  moreover have "start_configuration (prepared_rendered prepared) = Inr loaded"
    using prepared_length [OF text'] c(3) by (simp add: start_configuration_def load_output_config_def loaded_def)
  moreover have "config_primary_output loaded = config_primary_output staged"
    using saved(2) accepted_primary [OF assms(1)] by (simp add: loaded_def from_options_def configured_options_def Let_def)
  ultimately show ?thesis by blast
qed

lemma lit_names:
  assumes "configured_outputs hypot conns n config = Inr (outs, selection)"
  shows "co_name ` set outs \<subseteq> connector_name ` set conns"
proof -
  have "list_all2 (\<lambda>c out. configured_output hypot config c = Inr out) (take n (filter (\<lambda>c. connector_name c \<in> lit selection) conns)) outs"
    using assms by (auto simp: configured_outputs_def Let_def split: sum.splits dest: try_map_list)
  note source = list_all2_source [OF this]
  have "\<exists>c \<in> set conns. co_name out = connector_name c" if out: "out \<in> set outs" for out
  proof -
    obtain c where c: "c \<in> set (take n (filter (\<lambda>c. connector_name c \<in> lit selection) conns))" "configured_output hypot config c = Inr out"
      using source [OF out] by blast
    from in_set_takeD [OF c(1)] show ?thesis using configured_output_Inr(1) [OF c(2)] by auto
  qed
  then show ?thesis by blast
qed

text \<open>
  Claim C10 (a kept configuration survives a restart). Suppose a request that is to be saved is carried out and awaits its
  confirmation, however long and whatever happens to the lid and the rotation meanwhile. When the settings keep it, the file is replaced, and
  a daemon that starts from the new file has the same primary output, lights the same outputs of the same connectors with the same modes, transforms and scales,
  and puts them in the same places. The numbers of the request must be in the ranges of their types, and rates below ten hertz are excluded.
\<close>

theorem kept_configuration_survives_restart:
  assumes "service_ready_output_apply plat now unix rebased busy snapshot s = Some (again, s0)" "ses_confirmation s = None"
    and "ses_confirmation s0 = Some p" "ac_prepared_persistence p = Some prepared"
    and "ses_ready s = Some (request, conns)" "list_all writable_request (apply_outputs (pa_configuration request))"
    and "awaiting p (ses_configuration s0) (ses_file s) t"
    and "pc_token answer = token (ac_state p)" "pc_action answer = Keep" "handle_confirmation CommitDone answer t = (handled, t')"
  shows "\<exists>contents loaded. ses_file t' = Some contents \<and> start_configuration contents = Inr loaded \<and>
    ses_confirmation t' = None \<and> ses_configuration t' = seen_as t' (ses_configuration s0) \<and>
    config_primary_output loaded = config_primary_output (ses_configuration t') \<and>
    configured_outputs hypot conns n (seen_as t' loaded) = configured_outputs hypot conns n (ses_configuration t') \<and>
    (case configured_outputs hypot conns n (ses_configuration t') of Inl _ \<Rightarrow> True
     | Inr (outs, _) \<Rightarrow> output_specs outs (seen_as t' loaded) = output_specs outs (ses_configuration t'))"
proof -
  obtain powers where conf: "configuration_from_output_request (pa_configuration request) conns (plat_max_outputs plat) (ses_configuration s) (ses_file s \<noteq> None) =
      Inr (ses_configuration s0, powers)"
    and prep: "prepare_output_persistence (plat_file_prepared plat) (pa_configuration request) (ses_configuration s0) (ses_file s) = Inr (Some prepared)"
    using served_confirmation [OF assms(1-3)] assms(4,5) by auto
  have kept: "ses_file t' = Some (prepared_rendered prepared)" "ses_confirmation t' = None" "ses_configuration t' = ses_configuration t"
    using kept_saved [OF assms(7,4) prepared_from_file(1) [OF prep] assms(8-10)] by auto
  then have shown: "ses_configuration t' = seen_as t' (ses_configuration s0)" using assms(7) by (simp add: awaiting_def seen_as_def)
  obtain loaded where loaded: "start_configuration (prepared_rendered prepared) = Inr loaded"
    "config_primary_output loaded = config_primary_output (ses_configuration s0)"
    "agree_on (connector_name ` set conns) loaded (ses_configuration s0)"
    using restart_agrees [OF conf prep assms(6)] by blast
  have agree: "agree_on (connector_name ` set conns) (seen_as t' loaded) (ses_configuration t')"
    using agree_on_seen [OF loaded(3), of t'] shown by simp
  have lit': "configured_outputs hypot conns n (seen_as t' loaded) = configured_outputs hypot conns n (ses_configuration t')"
    by (rule configured_outputs_agree [OF agree]) (simp_all add: seen_as_def)
  have "output_specs outs (seen_as t' loaded) = output_specs outs (ses_configuration t')"
    if "configured_outputs hypot conns n (ses_configuration t') = Inr (outs, selection)" for outs selection
    by (rule output_specs_agree [OF agree lit_names [OF that]])
  then have placed: "case configured_outputs hypot conns n (ses_configuration t') of Inl _ \<Rightarrow> True
     | Inr (outs, _) \<Rightarrow> output_specs outs (seen_as t' loaded) = output_specs outs (ses_configuration t')"
    by (auto split: sum.split)
  have "config_primary_output loaded = config_primary_output (ses_configuration t')"
    unfolding loaded(2) by (subst shown) (simp add: seen_as_def)
  then show ?thesis
    by (intro exI [of _ "prepared_rendered prepared"] exI [of _ loaded] conjI kept(1,2) loaded(1) shown lit' placed)
qed

section \<open>A sample\<close>

text \<open>The monitor on the desk, with a request that is saved to an empty file.\<close>

definition desk_saved :: persisted_output where
  "desk_saved = \<lparr>po_name = ''DP-1'', po_enabled = True, po_x = 0, po_y = 0, po_width = 1920, po_height = 1080,
     po_refresh_millihz = 60000, po_scale_120 = 120, po_transform = Normal, po_axis = Vertical, po_adaptive_sync = True\<rparr>"

lemma desk_persisted: "map (persisted_output_of desk_staged) (apply_outputs (desk_request True)) = [desk_saved]"
  by (simp add: desk_request_def persisted_output_of_def desk_saved_def desk_staged_def desk_scale scrolling_layout_axis_of_def)

lemma desk_scale_text: "format_output_scale 120 = ''1''"
proof -
  have "f64_round 1 = Fin 1" using f64_round_dyadic [of 4096] by simp
  then have "f64_div (Fin (of_nat 120)) (Fin (of_nat SCALE_BASE)) = Fin 1" by (simp add: SCALE_BASE_def)
  moreover have "round_half_even 1000000 = 1000000" using round_half_even_int [of 1000000] by simp
  moreover have "decimal 1 = ''1''" "decimal 0 = ''0''" by (simp_all add: decimal.simps char_of_def)
  moreover have "replicate 5 CHR ''0'' = ''00000''" by (simp add: numeral_eq_Suc)
  ultimately show ?thesis by (simp add: format_output_scale_def fixed6_def Let_def pop_zeros.simps)
qed

lemma desk_prepared: "\<exists>rendered. prepared_text [] [desk_saved] None = Inr rendered"
proof -
  have empty: "parse_output_config [] = Inr output_config_default" by (simp add: parse_output_config_def lines_of.simps)
  have valid: "validate_persisted_output desk_saved = None" "list_all persistable [desk_saved]"
    using sample_name by (simp_all add: validate_persisted_output_def scale_bounds desk_saved_def persistable_def i32_min_def i32_max_def)
  obtain rendered where r: "render_persisted_output_config [] [desk_saved] None = Inr rendered"
    "rendered = join_with newline (rendered_lines [] [desk_saved] None) @ [newline]"
    using valid(1) by (simp add: render_persisted_output_config_def MAX_CONFIGURED_OUTPUTS_def option_is_some_and_def)
  have "kept_lines [] {''DP-1''} = []" by (simp add: kept_lines_def lines_of.simps)
  moreover have "decimal 1920 = ''1920''" "decimal 1080 = ''1080''" "decimal 60000 = ''60000''" "signed_decimal 0 = ''0''"
    by (simp_all add: signed_decimal_def decimal.simps char_of_def)
  ultimately have "length rendered \<le> MAX_OUTPUT_CONFIG_BYTES"
    by (simp add: r(2) rendered_lines_def desk_saved_def render_output_def pop_blank_lines_def desk_scale_text MAX_OUTPUT_CONFIG_BYTES_def
        MANAGED_OUTPUT_CONFIG_HEADER_def)
  moreover have "has_room output_config_default (length [desk_saved])"
    by (simp add: has_room_def output_config_default_def MAX_CONFIGURED_OUTPUTS_def)
  ultimately show ?thesis
    using rendered_parses [OF empty r(1) valid(2)] r(1) empty by (auto simp: prepared_text_def)
qed

theorem kept_configuration_survives_restart_witness:
  "\<exists>t' contents loaded outs. ses_file t' = Some contents \<and> start_configuration contents = Inr loaded \<and> ses_confirmation t' = None \<and>
     configured_outputs (\<lambda>_ _. Fin 1) [office_connector] 4 (seen_as t' loaded) = Inr ([desk_output True], outs) \<and>
     output_specs [desk_output True] (seen_as t' loaded) = output_specs [desk_output True] desk_staged"
proof -
  obtain rendered where r: "prepared_text [] [desk_saved] None = Inr rendered" using desk_prepared by blast
  let ?prepared = "\<lparr>prepared_original = [], prepared_rendered = rendered\<rparr>" and ?s = "desk_session True (Some [])"
  have prep: "prepare_output_persistence True (desk_request True) desk_staged (Some []) = Inr (Some ?prepared)"
    using r by (simp add: prepare_output_persistence_def desk_persisted) (simp add: desk_request_def)
  define s0 where "s0 = desk_waiting True (Some []) (Some ?prepared)"
  let ?answer = "\<lparr>pc_reply = 2, pc_token = token (ac_state (desk_pending (Some ?prepared))), pc_action = Keep\<rparr>"
  obtain t' where t': "handle_confirmation CommitDone ?answer s0 = (True, t')" "ses_configuration t' = desk_staged"
    by (simp add: handle_confirmation_def s0_def desk_waiting_def desk_session_def commit_prepared_def desk_pending_def begin_output_confirmation_def)
  have served: "service_ready_output_apply desk_platform 100 5000 False False (Some desk_snapshot) ?s = Some (True, s0)"
    using desk_served [of True "Some []" "Some ?prepared"] prep by (simp add: s0_def)
  have start: "ses_confirmation ?s = None" "ses_confirmation s0 = Some (desk_pending (Some ?prepared))"
    "ac_prepared_persistence (desk_pending (Some ?prepared)) = Some ?prepared"
    "ses_ready ?s = Some (desk_pending_request True, [office_connector])"
    by (simp_all add: desk_session_def s0_def desk_waiting_def desk_pending_def begin_output_confirmation_def)
  have "list_all writable_request (apply_outputs (pa_configuration (desk_pending_request True)))"
    by (simp add: writable_request_def desk_pending_request_def desk_request_def i32_min_def i32_max_def)
  moreover have "awaiting (desk_pending (Some ?prepared)) (ses_configuration s0) (ses_file ?s) s0"
    by (simp add: awaiting_def s0_def desk_waiting_def desk_session_def desk_pending_def begin_output_confirmation_def seen_as_def desk_staged_def
        desk_configuration_def upright_configuration_def plain_configuration_def)
  ultimately obtain contents loaded where "ses_file t' = Some contents" "start_configuration contents = Inr loaded" "ses_confirmation t' = None"
    and lit': "configured_outputs (\<lambda>_ _. Fin 1) [office_connector] 4 (seen_as t' loaded) = configured_outputs (\<lambda>_ _. Fin 1) [office_connector] 4 (ses_configuration t')"
    and placed: "case configured_outputs (\<lambda>_ _. Fin 1) [office_connector] 4 (ses_configuration t') of Inl _ \<Rightarrow> True
       | Inr (outs, _) \<Rightarrow> output_specs outs (seen_as t' loaded) = output_specs outs (ses_configuration t')"
    using kept_configuration_survives_restart [OF served start, where answer = ?answer and t = s0 and t' = t' and handled = True and
        hypot = "\<lambda>_ _. Fin 1" and n = 4] t'(1) by auto
  then show ?thesis using desk_configured [of desk_staged True "\<lambda>_ _. Fin 1" False] unfolding t'(2) by auto
qed

end
