(* ===== verification/Spec2Isabelle.thy ===== *)
theory Spec2Isabelle
  imports Idle_Policy Power_Button Sleep_Transition Screen_Off_Touch Dpms_Guard Output_Policy
    Hotplug_Transaction Frame_Timeline Frame_Scheduler Scene_Sync Feedback_Clock Fingerprint_Session
    Window_Events Local_Windows Lock_Frame Event_Pipeline Window_Layout Dwindle_Layout Dwindle_Tiling
    Scrolling_Refinement Scrolling_View Shortcut_Canonical Shortcut_Migration Shortcut_Engine Shortcut_Routing
    Shortcut_Store Workspace_State Output_Restart
begin

text \<open>
  A verification development of the Denial compositor daemon \<open>deniald\<close>
  (\<^verbatim>\<open>src/compositor/src/bin/deniald\<close>). The daemon drives the displays through KMS, renders a Flutter shell,
  speaks Wayland to clients, and decides when displays sleep, which outputs are lit and where windows go.
  Its protocol handlers, kernel calls and GPU code talk to libraries outside the repository; the decisions
  they rest on are state machines and pure functions of their own. Those are modelled here, one theory per
  source module, and proved correct.

  \<^bold>\<open>How the parts interact.\<close> Input events reach the idle policy and the power button, which ask for
  display power changes and suspends; the sleep transition and the DPMS guard carry them through and remember
  the topology; the output policy selects which connectors are lit, the hotplug journal commits the change.
  Clients' commits mark the scene dirty; the frame scheduler decides at each output's edge what is rendered,
  from timelines that the presentation feedback keeps in phase; the runtime's event pipeline, the window event
  queue and the lock frame gate order what the Flutter shell sees. The window layouts answer to the front end
  where each window is, through one trait. A request of the settings is checked against the connectors, projected
  to outputs and a topology without overlaps, carried out, confirmed or rolled back, and saved to the file that
  the next start reads. Before a key reaches a client or the shell it passes the shortcut
  engine, which is compiled from a file that the settings edit and the store keeps on disk.

  \<^bold>\<open>Shared theories.\<close> \<^verbatim>\<open>Denial_Base\<close> has the types, the named theorem collections and the list, option and
  map lemmas the components share. \<^verbatim>\<open>F64_Values\<close> models IEEE doubles by value, with round-to-nearest-even,
  infinities and NaN; \<^verbatim>\<open>F64_Rounding\<close> bounds its rounding error. \<^verbatim>\<open>Window_Spaces\<close> has the lemmas on
  association lists from layout spaces to structures that hold windows.

  \<^bold>\<open>Theories and sources.\<close>
  \<^item> \<^verbatim>\<open>Idle_Packets\<close>, \<^verbatim>\<open>Power_Button\<close>, \<^verbatim>\<open>Idle_Policy\<close>: \<^verbatim>\<open>idle_policy.rs\<close>. The packet decoders; \<open>PowerButton\<close> with
    the screenshot chord and the routing of its transitions in \<^verbatim>\<open>wayland_frontend/input.rs\<close>; \<open>IdlePolicy\<close> with
    every operation. Shown: a suspend is asked only for a locked, blanked system; nothing is due before the
    deadline and every deadline is settled by an evaluation, except for the case that is a finding; activity
    restores blanked outputs; inhibitors block; packets round-trip.
  \<^item> \<^verbatim>\<open>Sleep_Transition\<close>: \<^verbatim>\<open>sleep_transition.rs\<close>; \<^verbatim>\<open>Screen_Off_Touch\<close>: \<^verbatim>\<open>screen_off_touch.rs\<close>; \<^verbatim>\<open>Dpms_Guard\<close>:
    \<^verbatim>\<open>dpms.rs\<close>. A sleep restores exactly the outputs that were lit, touches that begin on a dark screen never
    reach the shell, and a deferred removal is justified and serviced.
  \<^item> \<^verbatim>\<open>Output_Policy\<close>: \<^verbatim>\<open>output_policy.rs\<close>; \<^verbatim>\<open>Hotplug_Transaction\<close>: \<^verbatim>\<open>hotplug_transaction.rs\<close>. What is lit is
    the best available choice, reconciliation terminates with the request lit, the plan reuses exactly the
    unchanged scanouts, and committed hardware is always settled.
  \<^item> \<^verbatim>\<open>Frame_Timeline\<close>, \<^verbatim>\<open>Dirty_Ledger\<close>, \<^verbatim>\<open>Frame_Scheduler\<close>: \<^verbatim>\<open>frame_scheduler.rs\<close>. The ledger of dirty serials
    is a locale that the scheduler instantiates; completing a render never loses newer damage, a dirty output
    is rendered at its next edge, frames of an output never overlap and Flutter targets increase.
  \<^item> \<^verbatim>\<open>Scene_Sync\<close>: \<^verbatim>\<open>scene_sync.rs\<close>; \<^verbatim>\<open>Feedback_Clock\<close>: \<^verbatim>\<open>presentation_clock.rs\<close> and \<^verbatim>\<open>presentation_clock/feedback.rs\<close>;
    \<^verbatim>\<open>Fingerprint_Session\<close>: \<^verbatim>\<open>fingerprint_presentation/state.rs\<close>; \<^verbatim>\<open>Window_Events\<close>: \<^verbatim>\<open>window_events.rs\<close>;
    \<^verbatim>\<open>Local_Windows\<close>: \<^verbatim>\<open>local_windows.rs\<close>; \<^verbatim>\<open>Lock_Frame\<close>: \<^verbatim>\<open>flutter_runtime/lock_frame.rs\<close>; \<^verbatim>\<open>Event_Pipeline\<close>:
    \<^verbatim>\<open>flutter_runtime/event_pipeline.rs\<close>. Acknowledging a snapshot never clears newer changes, timestamps
    advance, a ready contact passed both gates, a compacted queue means the same as the full one, fresh
    identifiers exist, no stale frame wakes a locked display, and no queued event waits without a wakeup.
  \<^item> \<^verbatim>\<open>Window_Layout\<close>: the trait \<open>WindowLayout\<close> of \<^verbatim>\<open>window_layout.rs\<close> as a locale with its default methods, the
    split geometry and the directional neighbour, and the stacking layout. \<^verbatim>\<open>Dwindle_Layout\<close>, \<^verbatim>\<open>Dwindle_Tiling\<close>:
    the dwindle layout; it implements a map from windows to spaces, and its tiles divide the work area.
    \<^verbatim>\<open>Scrolling_Row\<close>, \<^verbatim>\<open>Scrolling_Windows\<close>, \<^verbatim>\<open>Scrolling_Layout\<close>, \<^verbatim>\<open>Scrolling_Refinement\<close>, \<^verbatim>\<open>Scrolling_View\<close>: the
    scrolling layout; the rows with their viewport, the invariant of a row, the layout's operations, the
    refinement to a map from windows to their space and maximized state, and the arithmetic of the viewport,
    which ends with the pixel at which a focused tile is drawn. Both layouts interpret the locale.
  \<^item> \<^verbatim>\<open>Shortcut_Text\<close>, \<^verbatim>\<open>Shortcut_Syntax\<close>, \<^verbatim>\<open>Shortcut_Canonical\<close>: the shortcut expressions of \<^verbatim>\<open>native_shortcut.rs\<close>. The
    string operations that the parser uses, the parser with its table of keys, and its theorems: the
    canonical text of a trigger is parsed back to it, and triggers are equal exactly if the physical inputs are.
  \<^item> \<^verbatim>\<open>Shortcut_Bindings\<close>, \<^verbatim>\<open>Shortcut_Migration\<close>: the shortcut file, its validation, compilation and defaults, and
    the migration of the versions 1 to 11, which keeps what the user configured.
  \<^item> \<^verbatim>\<open>Shortcut_Engine\<close>: \<open>ShortcutEngine\<close> with its events. A press runs the binding of the file, a Super tap fires
    unless something was chorded, and the window switcher never outlives what opened it. \<^verbatim>\<open>Shortcut_Routing\<close>:
    \<open>intercept_native_escape\<close> of \<^verbatim>\<open>wayland_frontend/input.rs\<close> with the forwarded keys of \<^verbatim>\<open>shortcuts_inhibit.rs\<close>. Clients
    see balanced keys; three lemmas exhibit runs in which the code departs from what it means to do.
  \<^item> \<^verbatim>\<open>Shortcut_Store\<close>: \<open>ShortcutManager\<close>, with an explicit disk whose calls may fail, and
    \<open>apply_shortcut_update\<close> of \<^verbatim>\<open>flutter_settings_sync.rs\<close>. The edits refine a map from triggers to targets, a commit
    never overwrites a foreign change, the engine in use is always the one of the file, and a restart loads
    what was committed. The JSON codec is a parameter.
  \<^item> \<^verbatim>\<open>Workspace_State\<close>: \<^verbatim>\<open>wayland_frontend/workspace.rs\<close> with its callers. Every window stays on a workspace that
    exists on a connected output, a hotplug moves only the windows of outputs that are gone, and the requests
    for the next and the previous workspace walk round the workspaces. One theorem is a finding.
  \<^item> \<^verbatim>\<open>Output_Topology\<close>: \<^verbatim>\<open>src/compositor/src/topology.rs\<close>, the manager of the output layout. Whatever changes it goes
    through, no two outputs share a point, and a commit reports exactly the outputs that changed.
  \<^item> \<^verbatim>\<open>Output_Projection\<close>: \<^verbatim>\<open>output_topology.rs\<close>, from the connectors and the preferences to the outputs with their modes,
    scales and places, and the check of a request of the settings. An accepted request is what the desktop shows,
    and an output without a position overlaps nothing.
  \<^item> \<^verbatim>\<open>Output_Config\<close>, \<^verbatim>\<open>Output_Config_Roundtrip\<close>, \<^verbatim>\<open>Output_Config_Limits\<close>: the output configuration file of
    \<^verbatim>\<open>options.rs\<close>. What is saved is read back and the other lines keep their meaning; a save within the limits of the file succeeds.
  \<^item> \<^verbatim>\<open>Output_Control\<close>: the state that is published for the settings, of \<^verbatim>\<open>output_topology.rs\<close> and \<^verbatim>\<open>output_control.rs\<close>.
    A reported state that is sent back unchanged changes nothing; one theorem is a finding about an output
    without a configured position.
  \<^item> \<^verbatim>\<open>Output_Apply\<close>, \<^verbatim>\<open>Output_Confirmation\<close>, \<^verbatim>\<open>Output_Restart\<close>: the way of a request through the event loop
    (\<^verbatim>\<open>flutter_event_loop/output_apply.rs\<close>, \<^verbatim>\<open>flutter_event_loop/reconfiguration.rs\<close> and the functions they call), as a
    session state and rounds of the loop, and the start from the file. A configuration that nobody confirms is
    rolled back at its deadline whatever happens meanwhile, a configuration that is kept is the one the next
    start shows, and one theorem is a finding about the axes of the window layout after a rollback.
  \<^bold>\<open>State and effects.\<close> A struct is a \<open>record\<close>, an enum a \<open>datatype\<close>, an operation a function that returns the
  new state with its result; a log line, a D-Bus call or a kernel call is a returned value or an argument. A
  hash map is a function where only lookups matter and an association list with distinct keys where its
  entries are enumerated. Instants and durations are natural numbers of nanoseconds; an \<open>i32\<close> or \<open>u64\<close> is an
  \<open>int\<close> or \<open>nat\<close> with its saturation or wrap-around written out where the code relies on it, a word where it
  is used bitwise. Every definition is executable.

  \<^bold>\<open>Bounds.\<close> No definition uses fuel: loops are structural recursions or have a termination proof, and the
  loops over temporary and backup names count the 64 and 1000 tries of the code. Theorems
  about pixels assume coordinates and strips within \<open>i32\<close>, as the types of the code do.

  \<^bold>\<open>Not modelled.\<close> Code that is mostly calls into libraries outside the repository: the Wayland protocol
  handlers on Smithay, KMS atomic commits and sessions, GL and Vulkan rendering, the Flutter embedder, D-Bus
  services, PAM, PipeWire, file watching and the event loop. The FlatBuffers wire format rests on generated
  code. The audit counters of the frame scheduler only feed a log line. Executing a shortcut is represented by
  the truth value that it returns. The settings store is serde and file watching around a TOML document; the socket
  server of the output control, VRR staging, the atlas of the renderer and the command line are left out.
\<close>

end
